(* ===== verification/Prelude.thy ===== *)
theory Prelude
  imports
    Main
    "HOL-Library.Word"
    "HOL-Library.Code_Target_Numeral"
    "HOL-Library.List_Lexorder"
    "HOL-Library.Char_ord"
    "HOL-Library.AList"
    "HOL-Library.Sublist"
begin

text \<open>
  Shared vocabulary of the development: the result type of fallible Go functions with its
  combinators, the loops that recur in the sources (validate every element, transform every
  element, keep the first occurrence of every element) and the generic facts the component
  theories rest on. Nothing here is specific to one component.
\<close>

section \<open>Collections of facts\<close>

named_theorems result_simps \<open>success and failure of the result combinators\<close>
named_theorems loop_simps \<open>what the generic loops compute\<close>

section \<open>Machine integers and bytes\<close>

type_synonym u8 = "8 word"
type_synonym u16 = "16 word"
type_synonym u32 = "32 word"
type_synonym u64 = "64 word"
type_synonym bytes = "u8 list"

section \<open>Results\<close>

text \<open>
  A Go function that returns \<open>(T, error)\<close> is modelled by a value of the sum type: \<open>Inl e\<close>
  when the error is not nil, \<open>Inr v\<close> otherwise. A function that returns only an error has
  result type \<open>'e + unit\<close>.
\<close>

type_synonym ('e, 'a) result = "'e + 'a"

definition rbind :: "('e, 'a) result \<Rightarrow> ('a \<Rightarrow> ('e, 'b) result) \<Rightarrow> ('e, 'b) result" where
  "rbind m f = (case m of Inl e \<Rightarrow> Inl e | Inr a \<Rightarrow> f a)"

text \<open>\<open>rguard b e\<close> is \<open>if b { return e }\<close>.\<close>

definition rguard :: "bool \<Rightarrow> 'e \<Rightarrow> ('e, unit) result" where
  "rguard b e = (if b then Inl e else Inr ())"

text \<open>\<open>rwrap f m\<close> is \<open>fmt.Errorf("...: %w", err)\<close> around the error of \<open>m\<close>.\<close>

definition rwrap :: "('e \<Rightarrow> 'f) \<Rightarrow> ('e, 'a) result \<Rightarrow> ('f, 'a) result" where
  "rwrap f m = (case m of Inl e \<Rightarrow> Inl (f e) | Inr a \<Rightarrow> Inr a)"

text \<open>\<open>ropt e m\<close> is a call whose failure is None, with the error \<open>e\<close> for it.\<close>

definition ropt :: "'e \<Rightarrow> 'a option \<Rightarrow> ('e, 'a) result" where
  "ropt e m = (case m of None \<Rightarrow> Inl e | Some a \<Rightarrow> Inr a)"

definition is_ok :: "('e, 'a) result \<Rightarrow> bool" where
  "is_ok m = (case m of Inl _ \<Rightarrow> False | Inr _ \<Rightarrow> True)"

lemma rbind_simps [simp]:
  "rbind (Inl e) f = Inl e"
  "rbind (Inr a) f = f a"
  by (simp_all add: rbind_def)

lemma rbind_eq_Inr [result_simps]:
  "rbind m f = Inr b \<longleftrightarrow> (\<exists>a. m = Inr a \<and> f a = Inr b)"
  by (cases m) auto

lemma rbind_eq_Inl [result_simps]:
  "rbind m f = Inl e \<longleftrightarrow> m = Inl e \<or> (\<exists>a. m = Inr a \<and> f a = Inl e)"
  by (cases m) auto

lemma rguard_simps [simp]:
  "rguard True e = Inl e"
  "rguard False e = Inr ()"
  by (simp_all add: rguard_def)

lemma rguard_eq_Inr [result_simps]: "rguard b e = Inr u \<longleftrightarrow> \<not> b"
  by (simp add: rguard_def)

lemma rguard_eq_Inl [result_simps]: "rguard b e = Inl e' \<longleftrightarrow> b \<and> e' = e"
  by (auto simp: rguard_def)

lemma rwrap_simps [simp]:
  "rwrap f (Inl e) = Inl (f e)"
  "rwrap f (Inr a) = Inr a"
  by (simp_all add: rwrap_def)

lemma rwrap_eq_Inr [result_simps]: "rwrap f m = Inr a \<longleftrightarrow> m = Inr a"
  by (cases m) auto

lemma rwrap_eq_Inl [result_simps]: "rwrap f m = Inl e' \<longleftrightarrow> (\<exists>e. m = Inl e \<and> e' = f e)"
  by (cases m) auto

lemma ropt_simps [simp]:
  "ropt e None = Inl e"
  "ropt e (Some a) = Inr a"
  by (simp_all add: ropt_def)

lemma ropt_eq_Inr [result_simps]: "ropt e m = Inr a \<longleftrightarrow> m = Some a"
  by (cases m) auto

lemma ropt_eq_Inl [result_simps]: "ropt e m = Inl e' \<longleftrightarrow> m = None \<and> e' = e"
  by (cases m) auto

lemma is_ok_simps [simp]:
  "is_ok (Inl e) = False"
  "is_ok (Inr a) = True"
  by (simp_all add: is_ok_def)

lemma is_ok_iff [result_simps]: "is_ok m \<longleftrightarrow> (\<exists>a. m = Inr a)"
  by (cases m) auto

lemma rbind_cong [fundef_cong]:
  "m = m' \<Longrightarrow> (\<And>a. m' = Inr a \<Longrightarrow> f a = f' a) \<Longrightarrow> rbind m f = rbind m' f'"
  by (cases m') auto

section \<open>Loops over slices\<close>

text \<open>\<open>for _, x := range xs { if err := f(x); err != nil { return err } }\<close>\<close>

fun for_each :: "('a \<Rightarrow> ('e, unit) result) \<Rightarrow> 'a list \<Rightarrow> ('e, unit) result" where
  "for_each f [] = Inr ()"
| "for_each f (x # xs) = rbind (f x) (\<lambda>_. for_each f xs)"

text \<open>
  \<open>for i, x := range xs { y, err := f(x); if err != nil { return err }; xs[i] = y }\<close>, which
  is also the loop that appends every \<open>y\<close> to a fresh slice.
\<close>

fun traverse :: "('a \<Rightarrow> ('e, 'b) result) \<Rightarrow> 'a list \<Rightarrow> ('e, 'b list) result" where
  "traverse f [] = Inr []"
| "traverse f (x # xs) = rbind (f x) (\<lambda>y. rbind (traverse f xs) (\<lambda>ys. Inr (y # ys)))"

lemma for_each_cong [fundef_cong]:
  "xs = ys \<Longrightarrow> (\<And>x. x \<in> set ys \<Longrightarrow> f x = g x) \<Longrightarrow> for_each f xs = for_each g ys"
proof (induction xs arbitrary: ys)
  case (Cons x xs)
  then show ?case by (cases ys) auto
qed auto

lemma for_each_ok [result_simps]:
  "for_each f xs = Inr u \<longleftrightarrow> (\<forall>x \<in> set xs. f x = Inr ())"
  by (induction xs) (auto simp: rbind_eq_Inr)

lemma for_each_first_error:
  "for_each f xs = Inl e \<longleftrightarrow>
     (\<exists>ys x zs. xs = ys @ x # zs \<and> (\<forall>y \<in> set ys. f y = Inr ()) \<and> f x = Inl e)"
proof (induction xs)
  case Nil
  then show ?case by simp
next
  case (Cons a xs)
  show ?case
  proof (cases "f a")
    case (Inl e')
    show ?thesis
    proof
      assume "for_each f (a # xs) = Inl e"
      with Inl have "f a = Inl e" by simp
      then show "\<exists>ys x zs. a # xs = ys @ x # zs \<and> (\<forall>y \<in> set ys. f y = Inr ()) \<and> f x = Inl e"
        by (metis append_Nil empty_iff empty_set)
    next
      assume "\<exists>ys x zs. a # xs = ys @ x # zs \<and> (\<forall>y \<in> set ys. f y = Inr ()) \<and> f x = Inl e"
      then obtain ys x zs where
        *: "a # xs = ys @ x # zs" "\<forall>y \<in> set ys. f y = Inr ()" "f x = Inl e" by blast
      from * Inl have "ys = []" by (cases ys) auto
      with * Inl show "for_each f (a # xs) = Inl e" by simp
    qed
  next
    case (Inr u)
    have "(\<exists>ys x zs. a # xs = ys @ x # zs \<and> (\<forall>y \<in> set ys. f y = Inr ()) \<and> f x = Inl e) \<longleftrightarrow>
          (\<exists>ys x zs. xs = ys @ x # zs \<and> (\<forall>y \<in> set ys. f y = Inr ()) \<and> f x = Inl e)"
      (is "?L \<longleftrightarrow> ?R")
    proof
      assume ?L
      then obtain ys x zs where
        *: "a # xs = ys @ x # zs" "\<forall>y \<in> set ys. f y = Inr ()" "f x = Inl e" by blast
      from * Inr have "ys \<noteq> []" by auto
      then obtain ys' where "ys = a # ys'" using * by (cases ys) auto
      with * show ?R by auto
    next
      assume ?R
      then obtain ys x zs where
        "xs = ys @ x # zs" "\<forall>y \<in> set ys. f y = Inr ()" "f x = Inl e" by blast
      with Inr show ?L by (intro exI [of _ "a # ys"] exI [of _ x] exI [of _ zs]) auto
    qed
    with Inr Cons.IH show ?thesis by simp
  qed
qed

lemma traverse_eq_Inr [result_simps]:
  "traverse f xs = Inr ys \<longleftrightarrow> list_all2 (\<lambda>x y. f x = Inr y) xs ys"
proof (induction xs arbitrary: ys)
  case (Cons x xs)
  then show ?case by (cases ys) (auto simp: rbind_eq_Inr)
qed auto

lemma list_all2_in_set1: "list_all2 P xs ys \<Longrightarrow> x \<in> set xs \<Longrightarrow> \<exists>y \<in> set ys. P x y"
  by (induction rule: list_all2_induct) auto

lemma list_all2_in_set2: "list_all2 P xs ys \<Longrightarrow> y \<in> set ys \<Longrightarrow> \<exists>x \<in> set xs. P x y"
  by (induction rule: list_all2_induct) auto

lemma traverse_set:
  "traverse f xs = Inr ys \<Longrightarrow> y \<in> set ys \<Longrightarrow> \<exists>x \<in> set xs. f x = Inr y"
  unfolding traverse_eq_Inr by (rule list_all2_in_set2)

lemma traverse_length: "traverse f xs = Inr ys \<Longrightarrow> length ys = length xs"
  by (auto simp: traverse_eq_Inr dest: list_all2_lengthD)

section \<open>Keeping first occurrences\<close>

text \<open>
  \<open>seen := map[T]bool{}; for _, x := range xs { if !seen[x] { seen[x] = true; out = append(out, x) } }\<close>
\<close>

fun uniq_from :: "'a list \<Rightarrow> 'a list \<Rightarrow> 'a list" where
  "uniq_from seen [] = []"
| "uniq_from seen (x # xs) =
     (if x \<in> set seen then uniq_from seen xs else x # uniq_from (x # seen) xs)"

definition uniq :: "'a list \<Rightarrow> 'a list" where
  "uniq xs = uniq_from [] xs"

lemma set_uniq_from [loop_simps]: "set (uniq_from seen xs) = set xs - set seen"
  by (induction xs arbitrary: seen) auto

lemma distinct_uniq_from [simp]: "distinct (uniq_from seen xs)"
  by (induction xs arbitrary: seen) (auto simp: set_uniq_from)

lemma uniq_from_cong: "set s = set t \<Longrightarrow> uniq_from s zs = uniq_from t zs"
proof (induction zs arbitrary: s t)
  case (Cons z zs)
  then have "set (z # s) = set (z # t)" by simp
  with Cons.IH [of s t] Cons.IH [of "z # s" "z # t"] Cons.prems show ?case by simp
qed simp

lemma uniq_from_append:
  "uniq_from seen (xs @ ys) = uniq_from seen xs @ uniq_from (rev xs @ seen) ys"
proof (induction xs arbitrary: seen)
  case (Cons x xs)
  have "uniq_from (rev xs @ x # seen) ys = uniq_from (rev xs @ seen) ys" if "x \<in> set seen"
    using that by (intro uniq_from_cong) auto
  with Cons show ?case by simp
qed simp

lemma set_uniq [simp]: "set (uniq xs) = set xs"
  by (simp add: uniq_def set_uniq_from)

lemma distinct_uniq [simp]: "distinct (uniq xs)"
  by (simp add: uniq_def)

lemma uniq_from_distinct: "distinct xs \<Longrightarrow> set xs \<inter> set seen = {} \<Longrightarrow> uniq_from seen xs = xs"
  by (induction xs arbitrary: seen) auto

lemma uniq_distinct [simp]: "distinct xs \<Longrightarrow> uniq xs = xs"
  by (simp add: uniq_def uniq_from_distinct)

lemma uniq_from_filter:
  "uniq_from seen xs = filter (\<lambda>x. x \<notin> set seen) (uniq_from [] xs)"
proof (induction xs arbitrary: seen)
  case (Cons x xs)
  have "uniq_from seen xs = filter (\<lambda>y. y \<notin> set seen) (uniq_from [x] xs)"
    if "x \<in> set seen"
    using that Cons.IH [of seen] Cons.IH [of "[x]"]
    by (auto simp: filter_filter intro!: filter_cong)
  moreover have "uniq_from (x # seen) xs = filter (\<lambda>y. y \<notin> set seen) (uniq_from [x] xs)"
    using Cons.IH [of "x # seen"] Cons.IH [of "[x]"] by (auto simp: filter_filter)
  ultimately show ?case by auto
qed simp

section \<open>Counting\<close>

definition countp :: "('a \<Rightarrow> bool) \<Rightarrow> 'a list \<Rightarrow> nat" where
  "countp P xs = length (filter P xs)"

lemma countp_update:
  "i < length xs \<Longrightarrow>
   countp P (xs[i := v]) + (if P (xs ! i) then 1 else 0) = countp P xs + (if P v then 1 else 0)"
proof (induction xs arbitrary: i)
  case (Cons x xs)
  then show ?case by (cases i) (auto simp: countp_def)
qed simp

lemma countp_snoc [simp]: "countp P (xs @ [v]) = countp P xs + (if P v then 1 else 0)"
  by (simp add: countp_def)

lemma countp_mono: "(\<And>x. P x \<Longrightarrow> Q x) \<Longrightarrow> countp P xs \<le> countp Q xs"
  by (induction xs) (auto simp: countp_def)

section \<open>Maps with iteration order\<close>

text \<open>
  A Go map whose iteration order matters is an association list; \<open>slices.Sorted(maps.Keys(m))\<close>
  and the loops that collect and sort the keys are \<open>sorted_keys\<close>.
\<close>

definition sorted_keys :: "('k::linorder \<times> 'v) list \<Rightarrow> 'k list" where
  "sorted_keys m = sort (remdups (map fst m))"

lemma set_sorted_keys [simp]: "set (sorted_keys m) = fst ` set m"
  by (simp add: sorted_keys_def)

lemma distinct_sorted_keys [simp]: "distinct (sorted_keys m)"
  by (simp add: sorted_keys_def)

lemma sorted_sorted_keys [simp]: "sorted (sorted_keys m)"
  by (simp add: sorted_keys_def)

lemma sorted_keys_lookup: "k \<in> set (sorted_keys m) \<Longrightarrow> \<exists>v. map_of m k = Some v"
  by (metis domD dom_map_of_conv_image_fst set_sorted_keys)

lemma keys_update: "fst ` set (AList.update k v m) = insert k (fst ` set m)"
  by (simp add: dom_update flip: dom_map_of_conv_image_fst) (auto simp: update_conv)

lemma sorted_keys_update [simp]:
  "set (sorted_keys (AList.update k v m)) = insert k (fst ` set m)"
  by (simp add: keys_update)

lemma find_append: "List.find P (xs @ ys) = (case List.find P xs of Some x \<Rightarrow> Some x | None \<Rightarrow> List.find P ys)"
  by (induction xs) auto

end
