(* ===== verification/Netip.thy ===== *)
theory Netip
  imports GoStrings
begin

unbundle bit_operations_syntax

text \<open>
  The package \<open>net/netip\<close> of the Go standard library as the broker uses it: addresses with
  the invalid zero value and IPv6 zones, prefixes, address-port pairs and their parsers.
\<close>

section \<open>Addresses\<close>

text \<open>\<open>netip.Addr\<close>: the zero value, an IPv4 address, or an IPv6 address with its zone.\<close>

datatype Addr = AddrZero | Addr4 u32 | Addr6 "128 word" string

record AddrPort =
  ap_addr :: Addr
  ap_port :: u16

definition AddrPortFrom :: "Addr \<Rightarrow> u16 \<Rightarrow> AddrPort" where
  "AddrPortFrom a p = \<lparr>ap_addr = a, ap_port = p\<rparr>"

lemma AddrPortFrom_simps [simp]:
  "ap_addr (AddrPortFrom a p) = a"
  "ap_port (AddrPortFrom a p) = p"
  by (simp_all add: AddrPortFrom_def)

lemma AddrPortFrom_surj [simp]: "AddrPortFrom (ap_addr d) (ap_port d) = d"
  by (simp add: AddrPortFrom_def)

fun IsValid :: "Addr \<Rightarrow> bool" where
  "IsValid AddrZero = False"
| "IsValid _ = True"

fun Is4 :: "Addr \<Rightarrow> bool" where
  "Is4 (Addr4 _) = True"
| "Is4 _ = False"

fun Is6 :: "Addr \<Rightarrow> bool" where
  "Is6 (Addr6 _ _) = True"
| "Is6 _ = False"

text \<open>\<open>WithZone("")\<close> removes the zone of an IPv6 address.\<close>

fun WithoutZone :: "Addr \<Rightarrow> Addr" where
  "WithoutZone (Addr6 w _) = Addr6 w []"
| "WithoutZone a = a"

fun Is4In6 :: "Addr \<Rightarrow> bool" where
  "Is4In6 (Addr6 w _) \<longleftrightarrow> drop_bit 32 w = 0xFFFF"
| "Is4In6 _ = False"

text \<open>Bits \<open>96 - n\<close> to \<open>127 - n\<close> of an IPv6 address as an IPv4 address.\<close>

definition low32 :: "nat \<Rightarrow> 128 word \<Rightarrow> u32" where
  "low32 n w = ucast (drop_bit n w)"

fun Unmap :: "Addr \<Rightarrow> Addr" where
  "Unmap (Addr6 w z) = (if Is4In6 (Addr6 w z) then Addr4 (low32 0 w) else Addr6 w z)"
| "Unmap a = a"

fun IsLoopback :: "Addr \<Rightarrow> bool" where
  "IsLoopback (Addr4 w) \<longleftrightarrow> drop_bit 24 w = 127"
| "IsLoopback (Addr6 w z) \<longleftrightarrow>
     (if Is4In6 (Addr6 w z) then drop_bit 24 (low32 0 w) = 127 else w = 1)"
| "IsLoopback AddrZero = False"

definition IsPrivate4 :: "u32 \<Rightarrow> bool" where
  "IsPrivate4 w \<longleftrightarrow> drop_bit 24 w = 10 \<or> drop_bit 20 w = 0xAC1 \<or> drop_bit 16 w = 0xC0A8"

fun IsPrivate :: "Addr \<Rightarrow> bool" where
  "IsPrivate (Addr4 w) \<longleftrightarrow> IsPrivate4 w"
| "IsPrivate (Addr6 w z) \<longleftrightarrow>
     (if Is4In6 (Addr6 w z) then IsPrivate4 (low32 0 w) else drop_bit 121 w = 0x7E)"
| "IsPrivate AddrZero = False"

text \<open>Case analysis on a destination by the family of its address.\<close>

lemma dst_cases [case_names zero v4 v6]:
  obtains port where "d = AddrPortFrom AddrZero port"
    | w port where "d = AddrPortFrom (Addr4 w) port"
    | w z port where "d = AddrPortFrom (Addr6 w z) port"
  by (metis Addr.exhaust AddrPortFrom_surj)

section \<open>Prefixes\<close>

text \<open>\<open>netip.Prefix\<close>: \<open>pfx_bits\<close> is None for the invalid zero value.\<close>

record Prefix =
  pfx_ip :: Addr
  pfx_bits :: "nat option"

text \<open>
  \<open>Prefix.Contains\<close>: an address with a zone matches no prefix, and an address matches only
  prefixes of its own family (an IPv4-mapped IPv6 address is an IPv6 address here).
\<close>

fun Contains :: "Prefix \<Rightarrow> Addr \<Rightarrow> bool" where
  "Contains p a =
     (case (pfx_bits p, pfx_ip p, a) of
        (Some b, Addr4 w, Addr4 v) \<Rightarrow> drop_bit (32 - b) (v XOR w) = 0
      | (Some b, Addr6 w _, Addr6 v z) \<Rightarrow> z = [] \<and> drop_bit (128 - b) (v XOR w) = 0
      | _ \<Rightarrow> False)"

text \<open>\<open>Prefix.Masked\<close>: the host bits cleared.\<close>

fun Masked :: "Prefix \<Rightarrow> Prefix" where
  "Masked p =
     (case (pfx_bits p, pfx_ip p) of
        (Some b, Addr4 w) \<Rightarrow>
           \<lparr>pfx_ip = Addr4 (push_bit (32 - b) (drop_bit (32 - b) w)), pfx_bits = Some b\<rparr>
      | (Some b, Addr6 w _) \<Rightarrow>
           \<lparr>pfx_ip = Addr6 (push_bit (128 - b) (drop_bit (128 - b) w)) [], pfx_bits = Some b\<rparr>
      | _ \<Rightarrow> \<lparr>pfx_ip = AddrZero, pfx_bits = None\<rparr>)"

abbreviation pfx4 :: "u32 \<Rightarrow> nat \<Rightarrow> Prefix" where
  "pfx4 w b \<equiv> \<lparr>pfx_ip = Addr4 w, pfx_bits = Some b\<rparr>"

abbreviation pfx6 :: "128 word \<Rightarrow> nat \<Rightarrow> Prefix" where
  "pfx6 w b \<equiv> \<lparr>pfx_ip = Addr6 w [], pfx_bits = Some b\<rparr>"

lemma word_xor_eq_0: "a XOR b = 0 \<longleftrightarrow> a = (b :: 'a::len word)"
  by (metis xor.left_neutral xor.right_neutral word_bw_same(3) xor.assoc)

lemma drop_bit_xor_0:
  "drop_bit n (a XOR b) = 0 \<longleftrightarrow> drop_bit n a = drop_bit n (b :: 'a::len word)"
  by (simp add: word_xor_eq_0)

lemma drop_push_drop: "drop_bit n (push_bit n (drop_bit n w)) = drop_bit n (w :: 'a::len word)"
proof (rule bit_word_eqI)
  fix i
  assume "i < LENGTH('a)"
  moreover have "bit w (n + i) \<Longrightarrow> n + i < LENGTH('a)" by (rule bit_imp_le_length)
  ultimately show "bit (drop_bit n (push_bit n (drop_bit n w))) i = bit (drop_bit n w) i"
    by (auto simp: bit_simps)
qed

lemma Contains_Masked: "Contains (Masked p) a = Contains p a"
  by (auto simp: drop_bit_xor_0 drop_push_drop simp del: drop_bit_xor
      split: option.splits Addr.splits)

lemma Contains4 [simp]:
  "Contains (pfx4 w b) (Addr4 v) \<longleftrightarrow> drop_bit (32 - b) v = drop_bit (32 - b) w"
  "\<not> Contains (pfx4 w b) (Addr6 v6 z)"
  "\<not> Contains p AddrZero"
  by (auto simp: drop_bit_xor_0 simp del: drop_bit_xor split: option.splits Addr.splits)

lemma Contains6 [simp]:
  "Contains (pfx6 w6 b) (Addr6 v6 z) \<longleftrightarrow> z = [] \<and> drop_bit (128 - b) v6 = drop_bit (128 - b) w6"
  "\<not> Contains (pfx6 w6 b) (Addr4 v)"
  by (auto simp: drop_bit_xor_0 simp del: drop_bit_xor split: option.splits Addr.splits)

lemma Contains_family: "Contains p a \<Longrightarrow> Is4 (pfx_ip p) = Is4 a \<and> Is6 (pfx_ip p) = Is6 a"
  by (cases a) (auto split: option.splits Addr.splits)

declare Contains.simps [simp del]
declare Masked.simps [simp del]

text \<open>A shorter prefix of the same address contains everything a longer one contains.\<close>

lemma drop_bit_eq_mono:
  fixes a b :: "'a::len word"
  assumes "drop_bit m a = drop_bit m b" and "m \<le> n"
  shows "drop_bit n a = drop_bit n b"
proof -
  have "drop_bit (n - m) (drop_bit m x) = drop_bit n x" for x :: "'a word"
    using assms(2) by (simp add: drop_bit_drop_bit)
  with assms(1) show ?thesis by metis
qed

section \<open>Parsing addresses\<close>

text \<open>
  The dotted decimal form: four fields of decimal digits, each at most 255 and without a
  leading zero.
\<close>

definition parse_octet :: "string \<Rightarrow> nat option" where
  "parse_octet f =
     (if f \<noteq> [] \<and> list_all is_digit f \<and> (hd f = CHR ''0'' \<longrightarrow> f = ''0'') \<and> decimal f \<le> 255
      then Some (decimal f) else None)"

definition parseIPv4 :: "string \<Rightarrow> u32 option" where
  "parseIPv4 s =
     (case map parse_octet (Split CHR ''.'' s) of
        [Some a, Some b, Some c, Some d] \<Rightarrow>
          Some (of_nat (((a * 256 + b) * 256 + c) * 256 + d))
      | _ \<Rightarrow> None)"

definition hex_val :: "char \<Rightarrow> nat option" where
  "hex_val c =
     (let n = of_char c :: nat in
      if is_digit c then Some (n - 0x30)
      else if 0x61 \<le> n \<and> n \<le> 0x66 then Some (n - 0x61 + 10)
      else if 0x41 \<le> n \<and> n \<le> 0x46 then Some (n - 0x41 + 10)
      else None)"

definition hex_field :: "string \<Rightarrow> nat" where
  "hex_field ds = foldl (\<lambda>n c. 16 * n + (case hex_val c of None \<Rightarrow> 0 | Some v \<Rightarrow> v)) 0 ds"

text \<open>
  The loop of \<open>parseIPv6\<close> over the fields: \<open>gs\<close> are the 16-bit groups read so far, \<open>ell\<close> is the
  number of groups before the ellipsis. The result is the groups, the ellipsis and success.
\<close>

function parse_groups :: "nat list \<Rightarrow> nat option \<Rightarrow> string \<Rightarrow> (nat list \<times> nat option) option" where
  "parse_groups gs ell s =
     (if length gs \<ge> 8 then (if s = [] then Some (gs, ell) else None)
      else
        let ds = takeWhile (\<lambda>c. hex_val c \<noteq> None) s; rest = dropWhile (\<lambda>c. hex_val c \<noteq> None) s in
        if ds = [] \<or> length ds > 4 then None
        else (case rest of
            [] \<Rightarrow> Some (gs @ [hex_field ds], ell)
          | c # cs \<Rightarrow>
              if c = CHR ''.'' then
                (if (ell = None \<and> length gs \<noteq> 6) \<or> length gs > 6 then None
                 else case parseIPv4 s of
                     None \<Rightarrow> None
                   | Some w \<Rightarrow> Some (gs @ [unat (drop_bit 16 w), unat w mod 65536], ell))
              else if c \<noteq> CHR '':'' \<or> cs = [] then None
              else if hd cs = CHR '':'' then
                (if ell \<noteq> None then None
                 else if tl cs = [] then Some (gs @ [hex_field ds], Some (length gs + 1))
                 else parse_groups (gs @ [hex_field ds]) (Some (length gs + 1)) (tl cs))
              else parse_groups (gs @ [hex_field ds]) ell cs))"
  by pat_completeness auto
termination
proof (relation "measure (\<lambda>(gs, ell, s). 8 - length gs)")
qed auto

declare parse_groups.simps [simp del]

definition groups_word :: "nat list \<Rightarrow> 128 word" where
  "groups_word gs = of_nat (foldl (\<lambda>n g. 65536 * n + g) 0 gs)"

text \<open>The ellipsis stands for at least one group of zeros.\<close>

definition expand_groups :: "nat list \<Rightarrow> nat option \<Rightarrow> nat list option" where
  "expand_groups gs ell =
     (case ell of
        None \<Rightarrow> (if length gs = 8 then Some gs else None)
      | Some e \<Rightarrow>
          (if length gs < 8 then Some (take e gs @ replicate (8 - length gs) 0 @ drop e gs)
           else None))"

definition parseIPv6 :: "string \<Rightarrow> Addr option" where
  "parseIPv6 s =
     (case Cut s ''%'' of (a, zone, found) \<Rightarrow>
        if found \<and> zone = [] then None
        else if a = ''::'' then Some (Addr6 0 zone)
        else
          case (if HasPrefix a ''::'' then parse_groups [] (Some 0) (drop 2 a)
                else parse_groups [] None a) of
            None \<Rightarrow> None
          | Some (gs, ell) \<Rightarrow> map_option (\<lambda>gs'. Addr6 (groups_word gs') zone) (expand_groups gs ell))"

text \<open>\<open>netip.ParseAddr\<close>: the first of the bytes \<open>.\<close>, \<open>:\<close> and \<open>%\<close> decides the family.\<close>

fun addr_kind :: "string \<Rightarrow> char option" where
  "addr_kind [] = None"
| "addr_kind (c # cs) =
     (if c = CHR ''.'' \<or> c = CHR '':'' \<or> c = CHR ''%'' then Some c else addr_kind cs)"

definition ParseAddr :: "string \<Rightarrow> Addr option" where
  "ParseAddr s =
     (if addr_kind s = Some CHR ''.'' then map_option Addr4 (parseIPv4 s)
      else if addr_kind s = Some CHR '':'' then parseIPv6 s
      else None)"

text \<open>The parts before and after the last separator.\<close>

definition CutLast :: "char \<Rightarrow> string \<Rightarrow> (string \<times> string) option" where
  "CutLast c s =
     (case Cut (rev s) [c] of (a, b, found) \<Rightarrow> if found then Some (rev b, rev a) else None)"

text \<open>\<open>netip.ParsePrefix\<close>\<close>

definition ParsePrefix :: "string \<Rightarrow> Prefix option" where
  "ParsePrefix s =
     (case CutLast CHR ''/'' s of
        None \<Rightarrow> None
      | Some (a, b) \<Rightarrow>
          (case ParseAddr a of
             None \<Rightarrow> None
           | Some ip \<Rightarrow>
               if ip \<noteq> WithoutZone ip then None
               else if length b > 1 \<and> (\<not> is_digit (hd b) \<or> hd b = CHR ''0'') then None
               else case Atoi b of (n, ok) \<Rightarrow>
                 if \<not> ok \<or> n < 0 \<or> n > (if Is6 ip then 128 else 32) then None
                 else Some \<lparr>pfx_ip = ip, pfx_bits = Some (nat n)\<rparr>))"

text \<open>\<open>netip.ParseAddrPort\<close>: square brackets around IPv6 addresses and only around those.\<close>

definition ParseAddrPort :: "string \<Rightarrow> AddrPort option" where
  "ParseAddrPort s =
     (case CutLast CHR '':'' s of
        None \<Rightarrow> None
      | Some (ip, port) \<Rightarrow>
          if ip = [] \<or> port = [] then None
          else
            let v6 = (hd ip = CHR ''['') in
            if v6 \<and> (length ip < 2 \<or> last ip \<noteq> CHR '']'') then None
            else
              let ip' = (if v6 then butlast (tl ip) else ip) in
              (case (ParseUint port 16, ParseAddr ip') of
                 (Some p, Some a) \<Rightarrow>
                   if (v6 \<and> Is4 a) \<or> (\<not> v6 \<and> Is6 a) then None
                   else Some \<lparr>ap_addr = a, ap_port = of_nat p\<rparr>
               | _ \<Rightarrow> None))"

lemma parseIPv6_Is6: "parseIPv6 s = Some a \<Longrightarrow> Is6 a"
  by (auto simp: parseIPv6_def split: prod.splits if_splits option.splits)

lemma ParseAddr_valid: "ParseAddr s = Some a \<Longrightarrow> IsValid a"
  by (cases a) (auto simp: ParseAddr_def dest: parseIPv6_Is6 split: if_splits)

lemma ParsePrefix_wf:
  assumes "ParsePrefix s = Some p"
  shows "\<exists>b. pfx_bits p = Some b \<and>
     ((\<exists>w. pfx_ip p = Addr4 w \<and> b \<le> 32) \<or> (\<exists>w. pfx_ip p = Addr6 w [] \<and> b \<le> 128))"
  using assms
  by (auto simp: ParsePrefix_def split: option.splits prod.splits if_splits Addr.splits
      dest!: ParseAddr_valid elim!: IsValid.elims Is6.elims)

text \<open>The constants of the sources, parsed.\<close>

lemma ParsePrefix_examples:
  "ParsePrefix ''10.0.0.0/8'' = Some (pfx4 0x0A000000 8)"
  "ParsePrefix ''169.254.169.254/32'' = Some (pfx4 0xA9FEA9FE 32)"
  "ParsePrefix ''64:ff9b::/96'' = Some (pfx6 0x0064FF9B000000000000000000000000 96)"
  "ParsePrefix ''fd00:ec2::254/128'' = Some (pfx6 0xFD000EC2000000000000000000000254 128)"
  "ParsePrefix ''::/128'' = Some (pfx6 0 128)"
  "ParsePrefix ''10.0.0.0/33'' = None"
  "ParsePrefix ''10.0.0.0/08'' = None"
  by code_simp+

lemma ParseAddr_examples:
  "ParseAddr ''::ffff:1.2.3.4'' = Some (Addr6 0xFFFF01020304 [])"
  "ParseAddr ''fe80::1%eth0'' = Some (Addr6 0xFE800000000000000000000000000001 ''eth0'')"
  "ParseAddr ''1.2.3'' = None"
  "ParseAddr ''01.2.3.4'' = None"
  "ParseAddr ''1:2:3:4:5:6:7::8'' = None"
  "ParseAddrPort ''[::1]:53'' = Some \<lparr>ap_addr = Addr6 1 [], ap_port = 53\<rparr>"
  "ParseAddrPort ''127.0.0.1:8080'' = Some \<lparr>ap_addr = Addr4 0x7F000001, ap_port = 8080\<rparr>"
  "ParseAddrPort ''[127.0.0.1]:8080'' = None"
  by code_simp+

end
