(* ===== verification/Policy.thy ===== *)
theory Policy
  imports Netip
begin

unbundle bit_operations_syntax

text \<open>
  The policy of the network broker, \<open>src/internal/netbroker/policy.go\<close> and
  \<open>policy_ipv6.go\<close>: the deny tables, exceptions and their compilation, \<open>ParsePolicy\<close>, the
  blocked DNS zones and the decision for a new guest flow. The tables are written with their
  prefixes parsed; \<open>tables_parsed\<close> relates them to the strings of the source. The JSON decoder
  is an argument of \<open>ParsePolicy\<close>.
\<close>

section \<open>Tables\<close>

definition ProtoTCP :: string where "ProtoTCP = ''tcp''"
definition ProtoUDP :: string where "ProtoUDP = ''udp''"
definition ProtoAny :: string where "ProtoAny = ''any''"

definition deniedV4 :: "Prefix list" where
  "deniedV4 =
     [pfx4 0x00000000 8, pfx4 0x0A000000 8, pfx4 0x64400000 10, pfx4 0x7F000000 8,
      pfx4 0xA9FE0000 16, pfx4 0xAC100000 12, pfx4 0xC0000000 24, pfx4 0xC0000200 24,
      pfx4 0xC0586300 24, pfx4 0xC0A80000 16, pfx4 0xC6120000 15, pfx4 0xC6336400 24,
      pfx4 0xCB007100 24, pfx4 0xE0000000 4, pfx4 0xF0000000 4]"

definition hardDeniedV4 :: "Prefix list" where
  "hardDeniedV4 =
     [pfx4 0x00000000 8, pfx4 0x7F000000 8, pfx4 0xA9FEA9FE 32, pfx4 0xA9FEAA02 32,
      pfx4 0xE0000000 4, pfx4 0xF0000000 4]"

text \<open>\<open>mustPrefixes\<close> panics (None) when a string does not parse.\<close>

definition mustPrefixes :: "string list \<Rightarrow> Prefix list option" where
  "mustPrefixes ss = those (map ParsePrefix ss)"

definition inAny :: "Addr \<Rightarrow> Prefix list \<Rightarrow> bool" where
  "inAny a pfx \<longleftrightarrow> list_ex (\<lambda>p. Contains p a) pfx"

lemma tables_parsed:
  "mustPrefixes [''0.0.0.0/8'', ''10.0.0.0/8'', ''100.64.0.0/10'', ''127.0.0.0/8'',
     ''169.254.0.0/16'', ''172.16.0.0/12'', ''192.0.0.0/24'', ''192.0.2.0/24'',
     ''192.88.99.0/24'', ''192.168.0.0/16'', ''198.18.0.0/15'', ''198.51.100.0/24'',
     ''203.0.113.0/24'', ''224.0.0.0/4'', ''240.0.0.0/4''] = Some deniedV4"
  "mustPrefixes [''0.0.0.0/8'', ''127.0.0.0/8'', ''169.254.169.254/32'', ''169.254.170.2/32'',
     ''224.0.0.0/4'', ''240.0.0.0/4''] = Some hardDeniedV4"
  by code_simp+

section \<open>Exceptions\<close>

record portRange =
  pr_lo :: u16
  pr_hi :: u16

record Exception =
  CIDR :: string
  Proto :: string
  Ports :: "string list"
  ex_prefix :: Prefix
  ex_ranges :: "portRange list"

datatype policy_error =
    ParseError
  | BadCIDR string
  | BadProto string string
  | BadPortRange string string
  | BadUpstream string
  | EmptyZone
  | ZonesWithoutUpstreams

definition compile_port :: "string \<Rightarrow> string \<Rightarrow> (policy_error, portRange) result" where
  "compile_port cidr s =
     (case Cut s ''-'' of (lo, hi0, found) \<Rightarrow>
        let hi = (if \<not> found then lo else hi0) in
        case (ParseUint lo 16, ParseUint hi 16) of
          (Some l, Some h) \<Rightarrow>
            if l = 0 \<or> l > h then Inl (BadPortRange cidr s)
            else Inr \<lparr>pr_lo = of_nat l, pr_hi = of_nat h\<rparr>
        | _ \<Rightarrow> Inl (BadPortRange cidr s))"

definition compile :: "Exception \<Rightarrow> (policy_error, Exception) result" where
  "compile e =
     (case ParsePrefix (CIDR e) of
        None \<Rightarrow> Inl (BadCIDR (CIDR e))
      | Some pfx \<Rightarrow>
          if Proto e \<notin> {ProtoTCP, ProtoUDP, ProtoAny} then Inl (BadProto (CIDR e) (Proto e))
          else rbind (traverse (compile_port (CIDR e)) (Ports e)) (\<lambda>rs.
            Inr (e\<lparr>ex_prefix := Masked pfx, ex_ranges := ex_ranges e @ rs\<rparr>)))"

definition matches :: "Exception \<Rightarrow> string \<Rightarrow> AddrPort \<Rightarrow> bool" where
  "matches e proto dst \<longleftrightarrow>
     (if \<not> Contains (ex_prefix e) (ap_addr dst) \<or> (Proto e \<noteq> ProtoAny \<and> Proto e \<noteq> proto) then False
      else if ex_ranges e = [] then True
      else list_ex (\<lambda>r. pr_lo r \<le> ap_port dst \<and> ap_port dst \<le> pr_hi r) (ex_ranges e))"

section \<open>Policies\<close>

record Policy =
  exceptions :: "Exception list"
  dnsUpstreams :: "AddrPort list"
  blockedZones :: "string list"
  denyAll :: bool
  pol_source :: string

record policyFile =
  pf_Exceptions :: "Exception list"
  pf_DNSUpstreams :: "string list"
  pf_DNSBlockedZones :: "string list"

text \<open>\<open>normalizeName\<close>; \<open>ul\<close> is \<open>strings.ToLower\<close> outside ASCII.\<close>

definition normalizeName :: "(string \<Rightarrow> string) \<Rightarrow> string \<Rightarrow> string" where
  "normalizeName ul name = TrimSuffix (ToLower ul (TrimSpace name)) ''.''"

definition parseAddrPort :: "string \<Rightarrow> u16 \<Rightarrow> (policy_error, AddrPort) result" where
  "parseAddrPort s defPort =
     (case ParseAddrPort s of
        Some ap \<Rightarrow> Inr ap
      | None \<Rightarrow>
          (case ParseAddr s of
             None \<Rightarrow> Inl (BadUpstream s)
           | Some a \<Rightarrow> Inr (AddrPortFrom a defPort)))"

definition parse_zone :: "(string \<Rightarrow> string) \<Rightarrow> string \<Rightarrow> (policy_error, string) result" where
  "parse_zone ul z0 =
     (let z = normalizeName ul z0 in if z = [] then Inl EmptyZone else Inr z)"

text \<open>
  \<open>decode\<close> is the JSON decoder with \<open>DisallowUnknownFields\<close>: None when it returns an error.
\<close>

definition ParsePolicy ::
  "(string \<Rightarrow> string) \<Rightarrow> (bytes \<Rightarrow> policyFile option) \<Rightarrow> bytes \<Rightarrow> string \<Rightarrow>
     (policy_error, Policy) result" where
  "ParsePolicy ul decode data source =
     (case decode data of
        None \<Rightarrow> Inl ParseError
      | Some f \<Rightarrow>
          rbind (traverse compile (pf_Exceptions f)) (\<lambda>es.
          rbind (traverse (\<lambda>s. parseAddrPort s 53) (pf_DNSUpstreams f)) (\<lambda>ups.
          rbind (traverse (parse_zone ul) (pf_DNSBlockedZones f)) (\<lambda>zs.
          if length zs > 0 \<and> length ups = 0 then Inl ZonesWithoutUpstreams
          else Inr \<lparr>exceptions = es, dnsUpstreams = ups, blockedZones = zs,
                    denyAll = False, pol_source = source\<rparr>))))"

text \<open>A nil policy blocks nothing.\<close>

definition blocked :: "(string \<Rightarrow> string) \<Rightarrow> Policy option \<Rightarrow> string \<Rightarrow> bool" where
  "blocked ul p name0 =
     (case p of
        None \<Rightarrow> False
      | Some p \<Rightarrow>
          let name = normalizeName ul name0 in
          list_ex (\<lambda>z. name = z \<or> HasSuffix name (''.'' @ z)) (blockedZones p))"

definition DenyAll :: "string \<Rightarrow> Policy" where
  "DenyAll reason =
     \<lparr>exceptions = [], dnsUpstreams = [], blockedZones = [], denyAll = True, pol_source = reason\<rparr>"

section \<open>Decisions\<close>

record Env =
  Gateway :: Addr
  Subnet :: Prefix
  HostAddrs :: "Addr list"

record Decision =
  Allow :: bool
  Reason :: string

abbreviation deny :: "string \<Rightarrow> Decision" where
  "deny r \<equiv> \<lparr>Allow = False, Reason = r\<rparr>"

abbreviation allow :: "string \<Rightarrow> Decision" where
  "allow r \<equiv> \<lparr>Allow = True, Reason = r\<rparr>"

definition guestSubnet6 :: Prefix where "guestSubnet6 = pfx6 0xFD000127000000000000000000000000 64"
definition gateway6 :: Addr where "gateway6 = Addr6 0xFD000127000000000000000000000001 []"
definition linkLocal6 :: Addr where "linkLocal6 = Addr6 0xFE800000000000000000000000000001 []"
definition nat64 :: Prefix where "nat64 = pfx6 0x0064FF9B000000000000000000000000 96"
definition sixToFour :: Prefix where "sixToFour = pfx6 0x20020000000000000000000000000000 16"
definition public6 :: Prefix where "public6 = pfx6 0x20000000000000000000000000000000 3"

definition hardDeniedV6 :: "(Prefix \<times> string) list" where
  "hardDeniedV6 =
     [(pfx6 0x0 128, ''ipv6-unspecified''),
      (pfx6 0x1 128, ''ipv6-loopback''),
      (pfx6 0x0 96, ''ipv4-compatible''),
      (pfx6 0x0064FF9B000100000000000000000000 48, ''nat64-local''),
      (pfx6 0x20010000000000000000000000000000 32, ''teredo''),
      (pfx6 0xFE800000000000000000000000000000 10, ''ipv6-link-local''),
      (pfx6 0xFEC00000000000000000000000000000 10, ''ipv6-site-local''),
      (pfx6 0xFF000000000000000000000000000000 8, ''ipv6-multicast''),
      (pfx6 0x20010DB8000000000000000000000000 32, ''ipv6-documentation''),
      (pfx6 0x3FFF0000000000000000000000000000 20, ''ipv6-documentation''),
      (pfx6 0x01000000000000000000000000000000 64, ''ipv6-discard''),
      (pfx6 0x20010020000000000000000000000000 28, ''orchidv2''),
      (pfx6 0x20010002000000000000000000000000 48, ''ipv6-benchmark''),
      (pfx6 0x20010010000000000000000000000000 28, ''orchid''),
      (pfx6 0xFD000EC2000000000000000000000254 128, ''ipv6-metadata''),
      (pfx6 0xFD000EC2000000000000000000000023 128, ''ipv6-metadata'')]"

lemma tables6_parsed:
  "map ParsePrefix [''::/128'', ''::1/128'', ''::/96'', ''64:ff9b:1::/48'', ''2001::/32'',
     ''fe80::/10'', ''fec0::/10'', ''ff00::/8'', ''2001:db8::/32'', ''3fff::/20'', ''100::/64'',
     ''2001:20::/28'', ''2001:2::/48'', ''2001:10::/28'', ''fd00:ec2::254/128'',
     ''fd00:ec2::23/128''] = map (Some \<circ> fst) hardDeniedV6"
  "map ParsePrefix [''fd00:127::/64'', ''64:ff9b::/96'', ''2002::/16'', ''2000::/3''] =
     map Some [guestSubnet6, nat64, sixToFour, public6]"
  "map ParseAddr [''fd00:127::1'', ''fe80::1''] = map Some [gateway6, linkLocal6]"
  by code_simp+

definition embeddedIPv4 :: "Addr \<Rightarrow> Addr option" where
  "embeddedIPv4 address =
     (case address of
        Addr6 w z \<Rightarrow>
          if Is4In6 address then Some (Unmap address)
          else if Contains nat64 address then Some (Addr4 (low32 0 w))
          else if Contains sixToFour address then Some (Addr4 (low32 80 w))
          else None
      | _ \<Rightarrow> None)"

lemma embeddedIPv4_Is4: "embeddedIPv4 a = Some e \<Longrightarrow> \<not> Is6 e"
  by (auto simp: embeddedIPv4_def split: Addr.splits if_splits)

function Decide :: "Policy option \<Rightarrow> Env \<Rightarrow> string \<Rightarrow> AddrPort \<Rightarrow> Decision"
  and decideIPv6 :: "Policy \<Rightarrow> Env \<Rightarrow> string \<Rightarrow> AddrPort \<Rightarrow> Decision" where
  "Decide pol env proto dst =
     (let a = WithoutZone (ap_addr dst) in
      case pol of
        None \<Rightarrow> deny ''fail-closed''
      | Some p \<Rightarrow>
          if denyAll p then deny ''fail-closed''
          else if \<not> IsValid a then deny ''invalid-address''
          else if a = Gateway env then deny ''gateway''
          else if Contains (Subnet env) a then deny ''guest-network''
          else if a \<in> set (HostAddrs env) then deny ''host-address''
          else if Is6 a then decideIPv6 p env proto (AddrPortFrom a (ap_port dst))
          else if inAny a hardDeniedV4 then deny ''hard-deny''
          else if length (blockedZones p) > 0 \<and> ap_port dst = 53 then deny ''dns-filtered''
          else if \<not> inAny a deniedV4 then allow ''public''
          else (case find (\<lambda>e. matches e proto (AddrPortFrom a (ap_port dst))) (exceptions p) of
                  Some e \<Rightarrow> allow (''exception '' @ CIDR e)
                | None \<Rightarrow> deny ''denied-range''))"
| "decideIPv6 policy env proto dst =
     (let address = ap_addr dst in
      if address = gateway6 \<or> address = linkLocal6 then deny ''gateway''
      else if Contains guestSubnet6 address then deny ''guest-network''
      else case find (\<lambda>d. Contains (fst d) address) hardDeniedV6 of
          Some d \<Rightarrow> deny (snd d)
        | None \<Rightarrow>
            (case embeddedIPv4 address of
               Some embedded \<Rightarrow>
                 Decide (Some policy) env proto (AddrPortFrom embedded (ap_port dst))
             | None \<Rightarrow>
                 if length (blockedZones policy) > 0 \<and> ap_port dst = 53 then deny ''dns-filtered''
                 else if IsPrivate address then
                   (case find (\<lambda>e. matches e proto dst) (exceptions policy) of
                      Some e \<Rightarrow> allow (''exception '' @ CIDR e)
                    | None \<Rightarrow> deny ''ipv6-private'')
                 else if \<not> Contains public6 address then deny ''ipv6-reserved''
                 else allow ''public''))"
  by pat_completeness auto
termination
  by (relation "measure (\<lambda>x. case x of
        Inl (pol, env, proto, dst) \<Rightarrow> (if Is6 (ap_addr dst) then 2 else 0)
      | Inr _ \<Rightarrow> 1)")
    (auto simp: AddrPortFrom_def dest: embeddedIPv4_Is4 elim!: Is6.elims WithoutZone.elims)

declare Decide.simps [simp del] decideIPv6.simps [simp del]

end
