(* ===== verification/PolicyProps.thy ===== *)
theory PolicyProps
  imports Policy
begin

unbundle bit_operations_syntax

text \<open>
  What the decisions of the broker guarantee. The specification is independent of the
  prefix tables: reserved IPv4 space is a list of address intervals, and the IPv4 destination
  of a flow is the address itself or the one an IPv6 transition form carries.
\<close>

section \<open>Specification\<close>

definition reserved_ranges :: "(u32 \<times> u32) list" where
  "reserved_ranges =
     [(0x00000000, 0x00FFFFFF), (0x0A000000, 0x0AFFFFFF), (0x64400000, 0x647FFFFF),
      (0x7F000000, 0x7FFFFFFF), (0xA9FE0000, 0xA9FEFFFF), (0xAC100000, 0xAC1FFFFF),
      (0xC0000000, 0xC00000FF), (0xC0000200, 0xC00002FF), (0xC0586300, 0xC05863FF),
      (0xC0A80000, 0xC0A8FFFF), (0xC6120000, 0xC613FFFF), (0xC6336400, 0xC63364FF),
      (0xCB007100, 0xCB0071FF), (0xE0000000, 0xFFFFFFFF)]"

definition reserved4 :: "u32 \<Rightarrow> bool" where
  "reserved4 w \<longleftrightarrow> list_ex (\<lambda>(lo, hi). lo \<le> w \<and> w \<le> hi) reserved_ranges"

text \<open>Loopback, this-network, multicast, class E and the cloud metadata addresses.\<close>

definition never4 :: "u32 \<Rightarrow> bool" where
  "never4 w \<longleftrightarrow> w \<le> 0x00FFFFFF \<or> (0x7F000000 \<le> w \<and> w \<le> 0x7FFFFFFF) \<or> 0xE0000000 \<le> w \<or>
     w = 0xA9FEA9FE \<or> w = 0xA9FEAA02"

text \<open>
  The IPv4 address an IPv6 address carries, read off the number the address is: the last 32 bits after
  \<open>::ffff\<close> (IPv4-mapped, RFC 4291) or \<open>64:ff9b::\<close> (NAT64, RFC 6052), and the 32 bits after \<open>2002\<close> (6to4, RFC 3056).
\<close>

definition carried4 :: "128 word \<Rightarrow> u32 option" where
  "carried4 v =
     (let n = uint v in
      if n div 2 ^ 32 = 0xFFFF \<or> n div 2 ^ 32 = 0x64FF9B * 2 ^ 64 then Some (word_of_int (n mod 2 ^ 32))
      else if n div 2 ^ 112 = 0x2002 then Some (word_of_int (n mod 2 ^ 112 div 2 ^ 80))
      else None)"

text \<open>The IPv4 address a flow to \<open>a\<close> ends up at.\<close>

definition dest4 :: "Addr \<Rightarrow> u32 option" where
  "dest4 a = (case a of AddrZero \<Rightarrow> None | Addr4 w \<Rightarrow> Some w | Addr6 v _ \<Rightarrow> carried4 v)"

text \<open>Addresses of the host or of the virtual network.\<close>

definition local_addr :: "Env \<Rightarrow> Addr \<Rightarrow> bool" where
  "local_addr env a \<longleftrightarrow> a = Gateway env \<or> Contains (Subnet env) a \<or> a \<in> set (HostAddrs env)"

definition opened :: "Policy \<Rightarrow> string \<Rightarrow> Addr \<Rightarrow> u16 \<Rightarrow> bool" where
  "opened p proto a port \<longleftrightarrow>
     (\<exists>e \<in> set (exceptions p). Contains (ex_prefix e) a \<and> (Proto e = ProtoAny \<or> Proto e = proto) \<and>
        (ex_ranges e = [] \<or> (\<exists>r \<in> set (ex_ranges e). pr_lo r \<le> port \<and> port \<le> pr_hi r)))"

section \<open>Tables against intervals\<close>

lemma drop_bit_interval:
  fixes v c :: u32
  assumes "unat lo = unat c * 2 ^ n" and "unat hi = unat lo + (2 ^ n - 1)"
  shows "drop_bit n v = c \<longleftrightarrow> lo \<le> v \<and> v \<le> hi"
proof -
  have "drop_bit n v = c \<longleftrightarrow> unat v div 2 ^ n = unat c"
    by (metis unat_drop_bit_eq drop_bit_eq_div word_unat_eq_iff)
  also have "\<dots> \<longleftrightarrow> unat c * 2 ^ n \<le> unat v \<and> unat v < (unat c + 1) * 2 ^ n"
    by (metis Suc_eq_plus1 div_nat_eqI dividend_less_times_div le_less_Suc_eq less_mult_imp_div_less
        mult.commute mult_Suc_right nat_less_le not_less_eq times_div_less_eq_dividend
        zero_less_numeral zero_less_power)
  also have "\<dots> \<longleftrightarrow> unat lo \<le> unat v \<and> unat v \<le> unat hi"
  proof -
    obtain k :: nat where "2 ^ n = Suc k"
      by (metis not0_implies_Suc power_eq_0_iff zero_neq_numeral)
    then show ?thesis using assms by (auto simp: algebra_simps)
  qed
  also have "\<dots> \<longleftrightarrow> lo \<le> v \<and> v \<le> hi"
    by (simp add: word_le_nat_alt)
  finally show ?thesis .
qed

lemma denied_iff_reserved: "inAny (Addr4 w) deniedV4 \<longleftrightarrow> reserved4 w"
proof -
  note iv = drop_bit_interval [where v = w]
  have "(drop_bit 24 w = 0) = (0 \<le> w \<and> w \<le> 0x00FFFFFF)" by (rule iv) simp_all
  moreover have "(drop_bit 24 w = 0x0A) = (0x0A000000 \<le> w \<and> w \<le> 0x0AFFFFFF)" by (rule iv) simp_all
  moreover have "(drop_bit 22 w = 0x191) = (0x64400000 \<le> w \<and> w \<le> 0x647FFFFF)" by (rule iv) simp_all
  moreover have "(drop_bit 24 w = 0x7F) = (0x7F000000 \<le> w \<and> w \<le> 0x7FFFFFFF)" by (rule iv) simp_all
  moreover have "(drop_bit 16 w = 0xA9FE) = (0xA9FE0000 \<le> w \<and> w \<le> 0xA9FEFFFF)" by (rule iv) simp_all
  moreover have "(drop_bit 20 w = 0xAC1) = (0xAC100000 \<le> w \<and> w \<le> 0xAC1FFFFF)" by (rule iv) simp_all
  moreover have "(drop_bit 8 w = 0xC00000) = (0xC0000000 \<le> w \<and> w \<le> 0xC00000FF)" by (rule iv) simp_all
  moreover have "(drop_bit 8 w = 0xC00002) = (0xC0000200 \<le> w \<and> w \<le> 0xC00002FF)" by (rule iv) simp_all
  moreover have "(drop_bit 8 w = 0xC05863) = (0xC0586300 \<le> w \<and> w \<le> 0xC05863FF)" by (rule iv) simp_all
  moreover have "(drop_bit 16 w = 0xC0A8) = (0xC0A80000 \<le> w \<and> w \<le> 0xC0A8FFFF)" by (rule iv) simp_all
  moreover have "(drop_bit 17 w = 0x6309) = (0xC6120000 \<le> w \<and> w \<le> 0xC613FFFF)" by (rule iv) simp_all
  moreover have "(drop_bit 8 w = 0xC63364) = (0xC6336400 \<le> w \<and> w \<le> 0xC63364FF)" by (rule iv) simp_all
  moreover have "(drop_bit 8 w = 0xCB0071) = (0xCB007100 \<le> w \<and> w \<le> 0xCB0071FF)" by (rule iv) simp_all
  moreover have "(drop_bit 28 w = 0xE) = (0xE0000000 \<le> w \<and> w \<le> 0xEFFFFFFF)" by (rule iv) simp_all
  moreover have "(drop_bit 28 w = 0xF) = (0xF0000000 \<le> w \<and> w \<le> 0xFFFFFFFF)" by (rule iv) simp_all
  moreover have "(0xE0000000 \<le> w \<and> w \<le> 0xFFFFFFFF) =
      ((0xE0000000 \<le> w \<and> w \<le> 0xEFFFFFFF) \<or> (0xF0000000 \<le> w \<and> w \<le> 0xFFFFFFFF))"
    by (auto simp: word_le_nat_alt)
  ultimately show ?thesis
    by (simp add: inAny_def deniedV4_def reserved4_def reserved_ranges_def)
qed

lemma hardDenied_iff_never: "inAny (Addr4 w) hardDeniedV4 \<longleftrightarrow> never4 w"
proof -
  note iv = drop_bit_interval [where v = w]
  have "(drop_bit 24 w = 0) = (0 \<le> w \<and> w \<le> 0x00FFFFFF)" by (rule iv) simp_all
  moreover have "(drop_bit 24 w = 0x7F) = (0x7F000000 \<le> w \<and> w \<le> 0x7FFFFFFF)" by (rule iv) simp_all
  moreover have "(drop_bit 28 w = 0xE) = (0xE0000000 \<le> w \<and> w \<le> 0xEFFFFFFF)" by (rule iv) simp_all
  moreover have "(drop_bit 28 w = 0xF) = (0xF0000000 \<le> w \<and> w \<le> 0xFFFFFFFF)" by (rule iv) simp_all
  moreover have "(0xE0000000 \<le> w) =
      ((0xE0000000 \<le> w \<and> w \<le> 0xEFFFFFFF) \<or> (0xF0000000 \<le> w \<and> w \<le> 0xFFFFFFFF))"
    using unsigned_less [of w, where 'a = nat] by (auto simp: word_le_nat_alt)
  ultimately show ?thesis
    by (auto simp: inAny_def hardDeniedV4_def never4_def)
qed

section \<open>Unfolding one decision\<close>

lemma matches_iff:
  "matches e proto dst \<longleftrightarrow>
     Contains (ex_prefix e) (ap_addr dst) \<and> (Proto e = ProtoAny \<or> Proto e = proto) \<and>
     (ex_ranges e = [] \<or> (\<exists>r \<in> set (ex_ranges e). pr_lo r \<le> ap_port dst \<and> ap_port dst \<le> pr_hi r))"
  by (auto simp: matches_def list_ex_iff)

lemma find_matches_Some:
  "(\<exists>e. find (\<lambda>e. matches e proto (AddrPortFrom a port)) (exceptions p) = Some e) \<longleftrightarrow>
     opened p proto a port"
  by (auto simp: opened_def matches_iff find_None_iff simp flip: not_None_eq)

lemma find_matches_None:
  "find (\<lambda>e. matches e proto (AddrPortFrom a port)) (exceptions p) = None \<longleftrightarrow>
     \<not> opened p proto a port"
  using find_matches_Some [of proto a port p] by (metis not_Some_eq)

lemma Allow_exception_case:
  "Allow (case find (\<lambda>e. matches e proto (AddrPortFrom a port)) (exceptions p) of
      Some e \<Rightarrow> allow (f e) | None \<Rightarrow> deny r) \<longleftrightarrow> opened p proto a port"
  by (cases "opened p proto a port")
    (auto simp: find_matches_None [THEN iffD2] dest!: find_matches_Some [THEN iffD2])

lemma Decide4_Allow:
  "Allow (Decide (Some p) env proto (AddrPortFrom (Addr4 w) port)) \<longleftrightarrow>
     \<not> denyAll p \<and> \<not> local_addr env (Addr4 w) \<and> \<not> never4 w \<and>
     \<not> (blockedZones p \<noteq> [] \<and> port = 53) \<and> (reserved4 w \<longrightarrow> opened p proto (Addr4 w) port)"
  by (subst Decide.simps)
    (auto simp: Let_def local_addr_def hardDenied_iff_never denied_iff_reserved Allow_exception_case)

text \<open>The IPv6 addresses no exception opens.\<close>

definition never6 :: "128 word \<Rightarrow> bool" where
  "never6 w \<longleftrightarrow> Addr6 w [] \<in> {gateway6, linkLocal6} \<or> Contains guestSubnet6 (Addr6 w []) \<or>
     inAny (Addr6 w []) (map fst hardDeniedV6)"

lemma find_hard6:
  "find (\<lambda>d. Contains (fst d) a) xs = None \<longleftrightarrow> \<not> inAny a (map fst xs)"
  by (auto simp: find_None_iff inAny_def list_ex_iff)

lemma Decide6_Allow:
  "Allow (Decide (Some p) env proto (AddrPortFrom (Addr6 w z) port)) \<longleftrightarrow>
     \<not> denyAll p \<and> \<not> local_addr env (Addr6 w []) \<and> \<not> never6 w \<and>
     (case embeddedIPv4 (Addr6 w []) of
        Some e \<Rightarrow> Allow (Decide (Some p) env proto (AddrPortFrom e port))
      | None \<Rightarrow> \<not> (blockedZones p \<noteq> [] \<and> port = 53) \<and>
          (if IsPrivate (Addr6 w []) then opened p proto (Addr6 w []) port
           else Contains public6 (Addr6 w [])))"
proof -
  have six: "Allow (decideIPv6 p env proto (AddrPortFrom (Addr6 w []) port)) \<longleftrightarrow>
     \<not> never6 w \<and>
     (case embeddedIPv4 (Addr6 w []) of
        Some e \<Rightarrow> Allow (Decide (Some p) env proto (AddrPortFrom e port))
      | None \<Rightarrow> \<not> (blockedZones p \<noteq> [] \<and> port = 53) \<and>
          (if IsPrivate (Addr6 w []) then opened p proto (Addr6 w []) port
           else Contains public6 (Addr6 w [])))"
  proof (cases "find (\<lambda>d. Contains (fst d) (Addr6 w [])) hardDeniedV6")
    case None
    then have "\<not> inAny (Addr6 w []) (map fst hardDeniedV6)" by (simp add: find_hard6)
    with None show ?thesis
      by (subst decideIPv6.simps)
        (simp add: Let_def never6_def Allow_exception_case del: IsPrivate.simps split: option.split)
  next
    case (Some d)
    then have "never6 w" using find_hard6 [of "Addr6 w []" hardDeniedV6] by (auto simp: never6_def)
    with Some show ?thesis
      by (subst decideIPv6.simps) (simp add: Let_def)
  qed
  show ?thesis
    by (subst Decide.simps)
      (auto simp: Let_def local_addr_def six)
qed

text \<open>\<open>embeddedIPv4\<close> finds the address that is carried.\<close>

lemma uint_drop_bit_div: "uint (drop_bit k (v :: 128 word)) = uint v div 2 ^ k"
proof -
  have "take_bit 128 (uint v) = uint v" using uint_lt2p [of v] by (intro take_bit_int_eq_self) simp_all
  then have "uint (drop_bit k v) = drop_bit k (uint v)" by (simp add: unsigned_drop_bit_eq del: drop_bit_eq_div)
  then show ?thesis by (simp only: drop_bit_eq_div)
qed

lemma drop_bit_uint: "drop_bit k (v :: 128 word) = word_of_int c \<longleftrightarrow> uint v div 2 ^ k = c" if "0 \<le> c" "c < 2 ^ 128" for c
proof -
  have "drop_bit k v = word_of_int c \<longleftrightarrow> uint (drop_bit k v) = c"
    using that by (simp add: word_uint_eq_iff uint_word_of_int del: drop_bit_eq_div)
  then show ?thesis by (simp add: uint_drop_bit_div)
qed

lemma low32_uint: "low32 k v = word_of_int (uint v div 2 ^ k)"
  by (simp only: low32_def word_uint_eq_iff uint_word_of_int unsigned_ucast_eq uint_drop_bit_div take_bit_eq_mod)

lemma word32_mod: "(word_of_int (n mod 2 ^ 32) :: u32) = word_of_int n"
  by (simp add: word_uint_eq_iff uint_word_of_int)

lemma sixtofour_mod: "(word_of_int (n mod 2 ^ 112 div 2 ^ 80) :: u32) = word_of_int (n div 2 ^ 80)"
proof -
  have "n mod 2 ^ 112 div 2 ^ 80 = n div 2 ^ 80 mod 2 ^ 32"
    using drop_bit_take_bit [of 80 112 n] unfolding take_bit_eq_mod drop_bit_eq_div by simp
  then show ?thesis by (simp add: word_uint_eq_iff uint_word_of_int)
qed

lemma embedded_carried: "embeddedIPv4 (Addr6 v []) = map_option Addr4 (carried4 v)"
proof -
  have "Is4In6 (Addr6 v []) \<longleftrightarrow> uint v div 2 ^ 32 = 0xFFFF" using drop_bit_uint [of "0xFFFF" 32 v] by simp
  moreover have "Contains nat64 (Addr6 v []) \<longleftrightarrow> uint v div 2 ^ 32 = 0x64FF9B * 2 ^ 64"
    using drop_bit_uint [of "0x64FF9B * 2 ^ 64" 32 v] by (simp add: nat64_def)
  moreover have "Contains sixToFour (Addr6 v []) \<longleftrightarrow> uint v div 2 ^ 112 = 0x2002"
    using drop_bit_uint [of "0x2002" 112 v] by (simp add: sixToFour_def)
  ultimately show ?thesis
    using word32_mod [of "uint v"] sixtofour_mod [of "uint v"]
    by (simp add: embeddedIPv4_def carried4_def Let_def low32_uint del: Is4In6.simps)
qed

lemma dest4_Some:
  "dest4 a = Some w \<longleftrightarrow> WithoutZone a = Addr4 w \<or>
     (\<exists>v z. a = Addr6 v z \<and> embeddedIPv4 (Addr6 v []) = Some (Addr4 w))"
  by (cases a) (auto simp: dest4_def embedded_carried)

lemma word32_top: "(w :: u32) \<le> 0xFFFFFFFF"
  using unsigned_less [of w, where 'a = nat] by (simp add: word_le_nat_alt)

lemma never4_reserved4: "never4 w \<Longrightarrow> reserved4 w"
  unfolding never4_def reserved4_def reserved_ranges_def
  by (elim disjE) (simp_all add: word32_top)

text \<open>An allowed flow with an IPv4 destination is allowed to that destination.\<close>

lemma Decide_dest4:
  assumes "Allow (Decide (Some p) env proto dst)" and "dest4 (ap_addr dst) = Some w"
  shows "Allow (Decide (Some p) env proto (AddrPortFrom (Addr4 w) (ap_port dst)))"
proof (cases dst rule: dst_cases)
  case zero
  with assms(2) show ?thesis by (simp add: dest4_def)
next
  case v4
  with assms show ?thesis by (simp add: dest4_def)
next
  case v6
  with assms show ?thesis by (auto simp: dest4_Some Decide6_Allow)
qed

lemma Decide_AddrZero: "\<not> Allow (Decide pol env proto (AddrPortFrom AddrZero port))"
  by (subst Decide.simps) (auto simp: Let_def split: option.split)

lemma Decide_None: "Decide None env proto dst = deny ''fail-closed''"
  by (subst Decide.simps) (simp add: Let_def)

lemma Allow_policy: "Allow (Decide pol env proto dst) \<Longrightarrow> \<exists>p. pol = Some p \<and> \<not> denyAll p"
  by (cases pol) (auto simp: Decide_None, subst (asm) Decide.simps, auto simp: Let_def split: if_splits)

section \<open>Properties\<close>

text \<open>Example values for the witnesses: a policy that opens one private network, and an environment.\<close>

definition example_exception :: Exception where
  "example_exception = \<lparr>CIDR = ''10.0.0.0/8'', Proto = ''tcp'', Ports = [''443''],
     ex_prefix = pfx4 0x0A000000 8, ex_ranges = [\<lparr>pr_lo = 443, pr_hi = 443\<rparr>]\<rparr>"

definition example_policy :: Policy where
  "example_policy = \<lparr>exceptions = [example_exception], dnsUpstreams = [], blockedZones = [],
     denyAll = False, pol_source = ''policy.json''\<rparr>"

definition example_env :: Env where
  "example_env = \<lparr>Gateway = Addr4 0xC0A87F01, Subnet = pfx4 0xC0A87F00 24,
     HostAddrs = [Addr4 0xC0000201]\<rparr>"

text \<open>C1. A flow to an IPv4 destination the policy must never open is never allowed: not to
  loopback, to 0.0.0.0/8, to multicast or class E space, nor to the cloud metadata addresses,
  whatever the exceptions say and also when the destination is wrapped in an IPv4-mapped, NAT64
  or 6to4 IPv6 address.\<close>

theorem decide_never_protected:
  assumes "Allow (Decide pol env proto dst)" and "dest4 (ap_addr dst) = Some w"
  shows "\<not> never4 w"
proof -
  from Allow_policy [OF assms(1)] obtain p where "pol = Some p" by blast
  with assms Decide_dest4 [of p env proto dst w] show ?thesis by (simp add: Decide4_Allow)
qed

theorem decide_never_protected_witness:
  "Allow (Decide (Some example_policy) example_env ''tcp'' (AddrPortFrom (Addr6 0x64FF9B000000000000000008080808 []) 443)) \<and>
   dest4 (Addr6 0x64FF9B000000000000000008080808 []) = Some 0x08080808 \<and> \<not> never4 0x08080808"
proof -
  have a: "Allow (Decide (Some example_policy) example_env ''tcp''
      (AddrPortFrom (Addr6 0x64FF9B000000000000000008080808 []) 443))"
    by code_simp
  have b: "dest4 (ap_addr (AddrPortFrom (Addr6 0x64FF9B000000000000000008080808 []) 443)) = Some 0x08080808"
    by code_simp
  from decide_never_protected [OF a b] a b show ?thesis by simp
qed

text \<open>C2. A flow to a private or otherwise reserved IPv4 destination, direct or through an IPv6
  transition form, is allowed only when an exception of the policy covers the IPv4 address, the
  protocol and the port.\<close>

theorem decide_reserved_needs_exception:
  assumes "Allow (Decide (Some p) env proto dst)"
    and "dest4 (ap_addr dst) = Some w" and "reserved4 w"
  shows "opened p proto (Addr4 w) (ap_port dst)"
  using Decide_dest4 [OF assms(1,2)] assms(3) by (simp add: Decide4_Allow)

theorem decide_reserved_needs_exception_witness:
  "Allow (Decide (Some example_policy) example_env ''tcp'' (AddrPortFrom (Addr4 0x0A010203) 443)) \<and>
   reserved4 0x0A010203 \<and> opened example_policy ''tcp'' (Addr4 0x0A010203) 443"
proof -
  have a: "Allow (Decide (Some example_policy) example_env ''tcp'' (AddrPortFrom (Addr4 0x0A010203) 443))"
    by code_simp
  have b: "dest4 (ap_addr (AddrPortFrom (Addr4 0x0A010203) 443)) = Some 0x0A010203" by code_simp
  have c: "reserved4 0x0A010203" by code_simp
  from decide_reserved_needs_exception [OF a b c] a c show ?thesis by simp
qed

text \<open>C3. No flow reaches the host or the virtual network: the gateway, the guest subnet and every
  address of the host are denied, in IPv4 and in IPv6, and also when an IPv6 address carries one
  of them.\<close>

theorem decide_local_denied:
  assumes "Allow (Decide (Some p) env proto dst)"
  shows "\<not> local_addr env (WithoutZone (ap_addr dst)) \<and>
     (\<forall>w. dest4 (ap_addr dst) = Some w \<longrightarrow> \<not> local_addr env (Addr4 w)) \<and>
     WithoutZone (ap_addr dst) \<notin> {gateway6, linkLocal6} \<and>
     \<not> Contains guestSubnet6 (WithoutZone (ap_addr dst))"
proof -
  have inner: "\<forall>w. dest4 (ap_addr dst) = Some w \<longrightarrow> \<not> local_addr env (Addr4 w)"
    using Decide_dest4 [OF assms] by (simp add: Decide4_Allow)
  show ?thesis
  proof (cases dst rule: dst_cases)
    case zero
    with assms Decide_AddrZero show ?thesis by blast
  next
    case v4
    with inner show ?thesis
      by (simp add: dest4_def gateway6_def linkLocal6_def guestSubnet6_def)
  next
    case v6
    with assms inner show ?thesis by (simp add: Decide6_Allow never6_def)
  qed
qed

theorem decide_local_denied_witness:
  "Allow (Decide (Some example_policy) example_env ''udp'' (AddrPortFrom (Addr4 0x01010101) 53)) \<and>
   \<not> local_addr example_env (Addr4 0x01010101)"
proof -
  have a: "Allow (Decide (Some example_policy) example_env ''udp'' (AddrPortFrom (Addr4 0x01010101) 53))"
    by code_simp
  from decide_local_denied [OF a] a show ?thesis by simp
qed

text \<open>The IPv6 destinations a policy can allow are those that carry an allowed IPv4 destination,
  global unicast addresses in 2000::/3, and unique local addresses (fc00::/7) that an exception
  opens; loopback, link-local, site-local and multicast addresses are never allowed.\<close>

theorem decide_ipv6_scope:
  assumes "Allow (Decide (Some p) env proto (AddrPortFrom (Addr6 w z) port))"
  shows "w \<noteq> 1 \<and> drop_bit 118 w \<noteq> 0x3FA \<and> drop_bit 118 w \<noteq> 0x3FB \<and> drop_bit 120 w \<noteq> 0xFF \<and>
     (case embeddedIPv4 (Addr6 w []) of
        Some e \<Rightarrow> Allow (Decide (Some p) env proto (AddrPortFrom e port))
      | None \<Rightarrow> drop_bit 125 w = 1 \<or> (drop_bit 121 w = 0x7E \<and> opened p proto (Addr6 w []) port))"
proof -
  note A = assms [unfolded Decide6_Allow]
  have n: "drop_bit 0 w \<noteq> 1 \<and> drop_bit 118 w \<noteq> 0x3FA \<and> drop_bit 118 w \<noteq> 0x3FB \<and> drop_bit 120 w \<noteq> 0xFF"
    using A by (simp add: never6_def inAny_def hardDeniedV6_def)
  have "\<not> Is4In6 (Addr6 w [])" if "embeddedIPv4 (Addr6 w []) = None"
    using that by (auto simp: embeddedIPv4_def split: if_splits)
  with A n show ?thesis by (auto simp: public6_def split: option.splits if_splits)
qed

theorem decide_ipv6_scope_witness:
  "Allow (Decide (Some example_policy) example_env ''tcp'' (AddrPortFrom (Addr6 0x26064700000000000000000000001111 []) 443)) \<and>
   drop_bit 125 (0x26064700000000000000000000001111 :: 128 word) = 1"
proof -
  have a: "Allow (Decide (Some example_policy) example_env ''tcp''
      (AddrPortFrom (Addr6 0x26064700000000000000000000001111 []) 443))"
    by code_simp
  have b: "embeddedIPv4 (Addr6 0x26064700000000000000000000001111 []) = None" by code_simp
  have c: "drop_bit 121 (0x26064700000000000000000000001111 :: 128 word) \<noteq> 0x7E" by simp
  from decide_ipv6_scope [OF a] a b c show ?thesis by simp
qed

text \<open>The broker fails closed: without a policy, and with the policy installed after a failed
  reload, every flow is denied with the reason fail-closed.\<close>

theorem decide_fail_closed:
  "Decide None env proto dst = deny ''fail-closed'' \<and>
   Decide (Some (DenyAll reason)) env proto dst = deny ''fail-closed''"
  by (simp add: Decide_None, subst Decide.simps, simp add: Let_def DenyAll_def)

text \<open>With blocked DNS zones no flow to port 53 of any address is allowed, so the guest cannot
  reach a resolver other than the filtering gateway, not even one an exception opens.\<close>

theorem decide_dns_filtered:
  assumes "blockedZones p \<noteq> []" and "ap_port dst = 53"
  shows "\<not> Allow (Decide (Some p) env proto dst)"
proof (cases dst rule: dst_cases)
  case zero
  with Decide_AddrZero show ?thesis by blast
next
  case v4
  with assms show ?thesis by (simp add: Decide4_Allow)
next
  case (v6 w z port)
  have "\<not> Allow (Decide (Some p) env proto (AddrPortFrom e port))"
    if "embeddedIPv4 (Addr6 w []) = Some e" for e
    using embeddedIPv4_Is4 [OF that] assms v6
    by (cases e) (auto simp: Decide4_Allow Decide_AddrZero)
  with assms v6 show ?thesis by (auto simp: Decide6_Allow split: option.splits)
qed

theorem decide_dns_filtered_witness:
  "\<not> Allow (Decide (Some (example_policy\<lparr>blockedZones := [''corp.example'']\<rparr>)) example_env ''udp''
      (AddrPortFrom (Addr4 0x08080808) 53))"
  by (rule decide_dns_filtered) (simp_all add: example_policy_def)

text \<open>Exceptions only open destinations: replacing the exceptions of a policy by a larger set
  keeps every allowed flow allowed, and a flow that becomes allowed is one an exception opens.\<close>

theorem decide_exceptions_monotone:
  assumes "set (exceptions p) \<subseteq> set es"
  shows "(Allow (Decide (Some p) env proto dst) \<longrightarrow>
            Allow (Decide (Some (p\<lparr>exceptions := es\<rparr>)) env proto dst)) \<and>
     (Allow (Decide (Some (p\<lparr>exceptions := es\<rparr>)) env proto dst) \<and>
        \<not> Allow (Decide (Some p) env proto dst) \<longrightarrow>
        (\<exists>a. a \<in> {WithoutZone (ap_addr dst)} \<union> Addr4 ` set_option (dest4 (ap_addr dst)) \<and>
           opened (p\<lparr>exceptions := es\<rparr>) proto a (ap_port dst)))"
proof -
  let ?q = "p\<lparr>exceptions := es\<rparr>"
  have mono: "opened p proto a port \<Longrightarrow> opened ?q proto a port" for a port
    using assms by (auto simp: opened_def)
  have four: "(Allow (Decide (Some p) env proto (AddrPortFrom (Addr4 w) port)) \<longrightarrow>
        Allow (Decide (Some ?q) env proto (AddrPortFrom (Addr4 w) port))) \<and>
      (Allow (Decide (Some ?q) env proto (AddrPortFrom (Addr4 w) port)) \<and>
        \<not> Allow (Decide (Some p) env proto (AddrPortFrom (Addr4 w) port)) \<longrightarrow>
        opened ?q proto (Addr4 w) port)" for w port
    using mono by (auto simp: Decide4_Allow)
  show ?thesis
  proof (cases dst rule: dst_cases)
    case zero
    with Decide_AddrZero show ?thesis by blast
  next
    case (v4 w port)
    with four [of w port] show ?thesis by (auto simp: dest4_def)
  next
    case (v6 w z port)
    show ?thesis
    proof (cases "embeddedIPv4 (Addr6 w [])")
      case None
      with v6 mono show ?thesis by (auto simp: Decide6_Allow simp del: IsPrivate.simps)
    next
      case (Some e)
      then obtain v where "e = Addr4 v"
        by (auto simp: embeddedIPv4_def split: if_splits)
      moreover have "dest4 (Addr6 w z) = Some v" using Some \<open>e = Addr4 v\<close> by (simp add: dest4_Some)
      ultimately show ?thesis using Some four [of v port] v6
        by (auto simp: Decide6_Allow)
    qed
  qed
qed

theorem decide_exceptions_monotone_witness:
  "Allow (Decide (Some (example_policy\<lparr>exceptions := [example_exception, example_exception]\<rparr>))
      example_env ''tcp'' (AddrPortFrom (Addr4 0x0A010203) 443))"
proof -
  have a: "set (exceptions example_policy) \<subseteq> set [example_exception, example_exception]"
    by (simp add: example_policy_def)
  have b: "Allow (Decide (Some example_policy) example_env ''tcp'' (AddrPortFrom (Addr4 0x0A010203) 443))"
    by code_simp
  from decide_exceptions_monotone [OF a] b show ?thesis by blast
qed

text \<open>Public IPv4 destinations stay reachable: with any installed policy, a flow to an address
  outside reserved space that is not an address of the host or of the virtual network is
  allowed, unless it is a DNS flow under a DNS filter.\<close>

theorem decide_public_reachable:
  assumes "\<not> denyAll p" and "\<not> reserved4 w" and "\<not> local_addr env (Addr4 w)"
    and "blockedZones p = [] \<or> port \<noteq> 53"
  shows "Decide (Some p) env proto (AddrPortFrom (Addr4 w) port) = allow ''public''"
proof -
  from assms(2) have "\<not> never4 w" using never4_reserved4 by blast
  with assms show ?thesis
    by (subst Decide.simps)
      (auto simp: Let_def local_addr_def hardDenied_iff_never denied_iff_reserved)
qed

theorem decide_public_reachable_witness:
  "Decide (Some example_policy) example_env ''tcp'' (AddrPortFrom (Addr4 0x08080808) 443) = allow ''public''"
proof (rule decide_public_reachable)
  show "\<not> denyAll example_policy" by (simp add: example_policy_def)
  show "\<not> reserved4 0x08080808" by code_simp
  show "\<not> local_addr example_env (Addr4 0x08080808)" by code_simp
  show "blockedZones example_policy = [] \<or> (443 :: u16) \<noteq> 53" by simp
qed

end
