(* ===== verification/PolicyFile.thy ===== *)
theory PolicyFile
  imports PolicyProps
begin

text \<open>
  From the text of a policy file to the policy the broker enforces: compiled exceptions match
  exactly the flows their text describes, a parsed policy is well formed, and the blocked zones
  cover whole DNS subtrees.
\<close>

section \<open>Exceptions\<close>

text \<open>The port interval a \<open>ports\<close> entry denotes.\<close>

definition port_in :: "string \<Rightarrow> nat \<Rightarrow> bool" where
  "port_in s n \<longleftrightarrow>
     (case Cut s ''-'' of (lo, hi, found) \<Rightarrow>
        decimal lo \<le> n \<and> n \<le> decimal (if found then hi else lo))"

lemma compile_port_ok:
  assumes "compile_port c s = Inr r"
  shows "0 < pr_lo r \<and> pr_lo r \<le> pr_hi r \<and>
     (\<forall>port. (pr_lo r \<le> port \<and> port \<le> pr_hi r) \<longleftrightarrow> port_in s (unat port))"
proof -
  obtain lo hi found where cut: "Cut s ''-'' = (lo, hi, found)" by (metis prod_cases3)
  let ?hi = "if found then hi else lo"
  from assms cut obtain l h where
    l: "ParseUint lo 16 = Some l" and h: "ParseUint ?hi 16 = Some h"
    and le: "l \<noteq> 0" "l \<le> h" and r: "r = \<lparr>pr_lo = of_nat l, pr_hi = of_nat h\<rparr>"
    by (auto simp: compile_port_def Let_def split: option.splits if_splits)
  have "l < 2 ^ 16" "h < 2 ^ 16" using ParseUint_bound [OF l] ParseUint_bound [OF h] by auto
  then have u: "unat (of_nat l :: u16) = l" "unat (of_nat h :: u16) = h"
    by (simp_all add: unat_of_nat)
  have d: "l = decimal lo" "h = decimal ?hi"
    using l h by (auto simp: ParseUint_def split: if_splits)
  from u le r d cut show ?thesis
    by (auto simp: word_le_nat_alt word_less_nat_alt port_in_def)
qed

lemma compile_fields:
  assumes "compile e = Inr e'"
  obtains pfx rs where "ParsePrefix (CIDR e) = Some pfx" "Proto e \<in> {ProtoTCP, ProtoUDP, ProtoAny}"
    "list_all2 (\<lambda>s r. compile_port (CIDR e) s = Inr r) (Ports e) rs"
    "e' = e\<lparr>ex_prefix := Masked pfx, ex_ranges := ex_ranges e @ rs\<rparr>"
  using assms by (auto simp: compile_def result_simps split: option.splits if_splits)

text \<open>C4. A compiled exception matches exactly the flows its text describes: the destination is in
  the network of its \<open>cidr\<close>, the protocol is its \<open>proto\<close> or that is any, and, when \<open>ports\<close> are
  listed, the port lies in one of the listed intervals.\<close>

theorem compile_semantics:
  assumes "compile e = Inr e'" and "ex_ranges e = []"
  shows "matches e' proto dst \<longleftrightarrow>
     (\<exists>pfx. ParsePrefix (CIDR e) = Some pfx \<and> Contains pfx (ap_addr dst)) \<and>
     (Proto e = ''any'' \<or> Proto e = proto) \<and>
     (Ports e = [] \<or> (\<exists>s \<in> set (Ports e). port_in s (unat (ap_port dst))))"
proof -
  from assms(1) obtain pfx rs where c: "ParsePrefix (CIDR e) = Some pfx"
    "list_all2 (\<lambda>s r. compile_port (CIDR e) s = Inr r) (Ports e) rs"
    "e' = e\<lparr>ex_prefix := Masked pfx, ex_ranges := ex_ranges e @ rs\<rparr>"
    by (rule compile_fields)
  have "(\<exists>r \<in> set rs. pr_lo r \<le> ap_port dst \<and> ap_port dst \<le> pr_hi r) \<longleftrightarrow>
      (\<exists>s \<in> set (Ports e). port_in s (unat (ap_port dst)))"
    using list_all2_in_set1 [OF c(2)] list_all2_in_set2 [OF c(2)] compile_port_ok by blast
  moreover have "rs = [] \<longleftrightarrow> Ports e = []"
    using c(2) by (auto dest: list_all2_lengthD)
  ultimately show ?thesis
    using c(1,3) assms(2) by (simp add: matches_iff Contains_Masked ProtoAny_def)
qed

definition example_text :: Exception where
  "example_text = \<lparr>CIDR = ''10.1.2.3/8'', Proto = ''tcp'', Ports = [''8000-8080''],
     ex_prefix = \<lparr>pfx_ip = AddrZero, pfx_bits = None\<rparr>, ex_ranges = []\<rparr>"

theorem compile_semantics_witness:
  "\<exists>e'. compile example_text = Inr e' \<and>
     matches e' ''tcp'' (AddrPortFrom (Addr4 0x0AFFFFFF) 8042)"
proof -
  let ?e = "example_text\<lparr>ex_prefix := pfx4 0x0A000000 8, ex_ranges := [\<lparr>pr_lo = 8000, pr_hi = 8080\<rparr>]\<rparr>"
  have a: "compile example_text = Inr ?e" by code_simp
  have b: "ex_ranges example_text = []" by (simp add: example_text_def)
  have p: "ParsePrefix (CIDR example_text) = Some (pfx4 0x0A010203 8)" by code_simp
  have q: "port_in ''8000-8080'' 8042" by code_simp
  have "matches ?e ''tcp'' (AddrPortFrom (Addr4 0x0AFFFFFF) 8042)"
    unfolding compile_semantics [OF a b] using p q by (simp add: example_text_def)
  with a show ?thesis by blast
qed

section \<open>Parsed policies\<close>

definition wf_policy :: "Policy \<Rightarrow> bool" where
  "wf_policy p \<longleftrightarrow> \<not> denyAll p \<and> [] \<notin> set (blockedZones p) \<and>
     (blockedZones p \<noteq> [] \<longrightarrow> dnsUpstreams p \<noteq> []) \<and>
     (\<forall>a \<in> set (dnsUpstreams p). IsValid (ap_addr a)) \<and>
     (\<forall>e \<in> set (exceptions p). Proto e \<in> {ProtoTCP, ProtoUDP, ProtoAny} \<and>
        (\<exists>pfx. ParsePrefix (CIDR e) = Some pfx \<and> ex_prefix e = Masked pfx) \<and>
        length (ex_ranges e) = length (Ports e) \<and>
        (\<forall>r \<in> set (ex_ranges e). 0 < pr_lo r \<and> pr_lo r \<le> pr_hi r))"

lemma parseAddrPort_valid: "parseAddrPort s d = Inr a \<Longrightarrow> IsValid (ap_addr a)"
  by (auto simp: parseAddrPort_def ParseAddrPort_def Let_def
      split: option.splits prod.splits if_splits dest: ParseAddr_valid)

text \<open>A policy that parses is well formed: it is not the deny-all policy, every exception has a
  known protocol, the masked network of its text and one non-empty port interval per listed
  entry, every upstream is a valid address, no blocked zone is empty, and blocked zones come
  with at least one upstream resolver.\<close>

theorem ParsePolicy_wf:
  assumes "ParsePolicy ul decode data source = Inr p"
    and "\<And>f. decode data = Some f \<Longrightarrow> \<forall>e \<in> set (pf_Exceptions f). ex_ranges e = []"
  shows "wf_policy p"
proof -
  from assms(1) obtain f es ups zs where f: "decode data = Some f"
    and es: "traverse compile (pf_Exceptions f) = Inr es"
    and ups: "traverse (\<lambda>s. parseAddrPort s 53) (pf_DNSUpstreams f) = Inr ups"
    and zs: "traverse (parse_zone ul) (pf_DNSBlockedZones f) = Inr zs"
    and ne: "zs \<noteq> [] \<Longrightarrow> ups \<noteq> []"
    and p: "p = \<lparr>exceptions = es, dnsUpstreams = ups, blockedZones = zs, denyAll = False,
                 pol_source = source\<rparr>"
    by (auto simp: ParsePolicy_def rbind_eq_Inr split: option.splits if_splits)
  have "Proto e \<in> {ProtoTCP, ProtoUDP, ProtoAny} \<and>
        (\<exists>pfx. ParsePrefix (CIDR e) = Some pfx \<and> ex_prefix e = Masked pfx) \<and>
        length (ex_ranges e) = length (Ports e) \<and>
        (\<forall>r \<in> set (ex_ranges e). 0 < pr_lo r \<and> pr_lo r \<le> pr_hi r)" if "e \<in> set es" for e
  proof -
    from traverse_set [OF es that] obtain e0 where
      e0: "e0 \<in> set (pf_Exceptions f)" "compile e0 = Inr e" by blast
    with assms(2) [OF f] have "ex_ranges e0 = []" by blast
    with e0(2) show ?thesis
      by (elim compile_fields)
        (auto dest: list_all2_lengthD list_all2_in_set2 compile_port_ok)
  qed
  moreover have "[] \<notin> set zs"
    using traverse_set [OF zs, of "[]"] by (auto simp: parse_zone_def Let_def split: if_splits)
  moreover have "\<forall>a \<in> set ups. IsValid (ap_addr a)"
    using traverse_set [OF ups] parseAddrPort_valid by blast
  ultimately show ?thesis using ne p by (simp add: wf_policy_def)
qed

theorem ParsePolicy_wf_witness:
  "\<exists>p. ParsePolicy id (\<lambda>_. Some \<lparr>pf_Exceptions = [example_text], pf_DNSUpstreams = [''10.20.30.53''],
      pf_DNSBlockedZones = [''Corp.Example.'']\<rparr>) [] ''policy.json'' = Inr p \<and> wf_policy p"
proof -
  let ?d = "\<lambda>_ :: bytes. Some \<lparr>pf_Exceptions = [example_text], pf_DNSUpstreams = [''10.20.30.53''],
      pf_DNSBlockedZones = [''Corp.Example.'']\<rparr>"
  let ?p = "\<lparr>exceptions = [example_text\<lparr>ex_prefix := pfx4 0x0A000000 8,
        ex_ranges := [\<lparr>pr_lo = 8000, pr_hi = 8080\<rparr>]\<rparr>],
      dnsUpstreams = [\<lparr>ap_addr = Addr4 0x0A141E35, ap_port = 53\<rparr>],
      blockedZones = [''corp.example''], denyAll = False, pol_source = ''policy.json''\<rparr>"
  have a: "ParsePolicy id ?d [] ''policy.json'' = Inr ?p" by code_simp
  have "wf_policy ?p"
    by (rule ParsePolicy_wf [OF a]) (auto simp: example_text_def)
  with a show ?thesis by blast
qed

section \<open>Blocked zones\<close>

lemma label_suffix:
  "suffix (Split c z) (Split c n) \<longleftrightarrow> n = z \<or> HasSuffix n (c # z)"
proof
  assume "suffix (Split c z) (Split c n)"
  then obtain ls where ls: "Split c n = ls @ Split c z" by (auto simp: suffix_def)
  show "n = z \<or> HasSuffix n (c # z)"
  proof (cases "ls = []")
    case True
    with ls show ?thesis by (metis Join_Split append_Nil)
  next
    case False
    with ls have "n = Join ls [c] @ [c] @ z"
      by (metis Join_Split Join_append Split_not_Nil)
    then show ?thesis by (metis HasSuffix_append append_Cons append_Nil)
  qed
next
  assume "n = z \<or> HasSuffix n (c # z)"
  then show "suffix (Split c z) (Split c n)"
    by (auto simp: HasSuffix_iff suffix_def Split_append_sep)
qed

text \<open>The blocked zones are DNS subtrees: a name is blocked exactly when the labels of some
  blocked zone end the labels of the name, after lower-casing it and dropping white space around
  it and its trailing dot. A blocked zone never blocks a name that merely ends in the same
  letters.\<close>

theorem blocked_labels:
  "blocked ul (Some p) name \<longleftrightarrow>
     (\<exists>z \<in> set (blockedZones p). suffix (Split CHR ''.'' z) (Split CHR ''.'' (normalizeName ul name)))"
  by (simp add: blocked_def Let_def list_ex_iff label_suffix)

end
