(* ===== verification/Bytes.thy ===== *)
theory Bytes
  imports Prelude
begin

unbundle bit_operations_syntax

text \<open>
  Byte streams: \<open>encoding/binary\<close>, \<open>io.ReadFull\<close> on a stream that ends, and the interface of
  a length-prefixed framing. A stream is the list of the bytes still to be read; reading past
  its end is EOF.
\<close>

section \<open>Integers in byte order\<close>

definition be16 :: "u16 \<Rightarrow> bytes" where
  "be16 w = [ucast (drop_bit 8 w), ucast w]"

definition be32 :: "u32 \<Rightarrow> bytes" where
  "be32 w = [ucast (drop_bit 24 w), ucast (drop_bit 16 w), ucast (drop_bit 8 w), ucast w]"

definition le32 :: "u32 \<Rightarrow> bytes" where
  "le32 w = rev (be32 w)"

text \<open>\<open>Uint16\<close> and \<open>Uint32\<close> panic (None) on a shorter slice and ignore bytes beyond their width.\<close>

fun get_be16 :: "bytes \<Rightarrow> u16 option" where
  "get_be16 (a # b # _) = Some (push_bit 8 (ucast a) OR ucast b)"
| "get_be16 _ = None"

fun get_be32 :: "bytes \<Rightarrow> u32 option" where
  "get_be32 (a # b # c # d # _) =
     Some (push_bit 24 (ucast a) OR push_bit 16 (ucast b) OR push_bit 8 (ucast c) OR ucast d)"
| "get_be32 _ = None"

fun get_le32 :: "bytes \<Rightarrow> u32 option" where
  "get_le32 (a # b # c # d # _) =
     Some (push_bit 24 (ucast d) OR push_bit 16 (ucast c) OR push_bit 8 (ucast b) OR ucast a)"
| "get_le32 _ = None"

lemma join16: "push_bit 8 (ucast (ucast (drop_bit 8 w) :: u8)) OR ucast (ucast w :: u8) = (w :: u16)"
proof (rule bit_word_eqI)
  fix n
  assume n: "n < LENGTH(16)"
  show "bit (push_bit 8 (ucast (ucast (drop_bit 8 w) :: u8)) OR ucast (ucast w :: u8) :: u16) n = bit w n"
    using n by (cases "n < 8") (auto simp: bit_simps)
qed

lemma join32:
  "push_bit 24 (ucast (ucast (drop_bit 24 w) :: u8)) OR push_bit 16 (ucast (ucast (drop_bit 16 w) :: u8)) OR
   push_bit 8 (ucast (ucast (drop_bit 8 w) :: u8)) OR ucast (ucast w :: u8) = (w :: u32)"
proof (rule bit_word_eqI)
  fix n
  assume n: "n < LENGTH(32)"
  consider "n < 8" | "8 \<le> n" "n < 16" | "16 \<le> n" "n < 24" | "24 \<le> n" by linarith
  then show "bit (push_bit 24 (ucast (ucast (drop_bit 24 w) :: u8)) OR
      push_bit 16 (ucast (ucast (drop_bit 16 w) :: u8)) OR
      push_bit 8 (ucast (ucast (drop_bit 8 w) :: u8)) OR ucast (ucast w :: u8) :: u32) n = bit w n"
    using n by cases (auto simp: bit_simps)
qed

lemma get_be16 [simp]: "get_be16 (be16 w @ r) = Some w"
  by (simp add: be16_def join16)

lemma get_be32 [simp]: "get_be32 (be32 w @ r) = Some w"
  by (simp add: be32_def join32)

lemma get_be16_exact [simp]: "get_be16 (be16 w) = Some w"
  using get_be16 [of w "[]"] by simp

lemma get_be32_exact [simp]: "get_be32 (be32 w) = Some w"
  using get_be32 [of w "[]"] by simp

lemma get_le32 [simp]: "get_le32 (le32 w @ r) = Some w"
  by (simp add: le32_def be32_def join32)

lemma length_be [simp]: "length (be16 w) = 2" "length (be32 v) = 4" "length (le32 v) = 4"
  by (simp_all add: be16_def be32_def le32_def)

lemma get_be16_Some: "length b \<ge> 2 \<Longrightarrow> \<exists>w. get_be16 b = Some w"
  by (cases b rule: get_be16.cases) auto

lemma get_be32_Some: "length b \<ge> 4 \<Longrightarrow> \<exists>w. get_be32 b = Some w"
  by (cases b rule: get_be32.cases) auto

lemma get_le32_Some: "length b \<ge> 4 \<Longrightarrow> \<exists>w. get_le32 b = Some w"
  by (cases b rule: get_le32.cases) auto

section \<open>Reading from a stream\<close>

datatype read_error = EOF | UnexpectedEOF

text \<open>\<open>io.ReadFull\<close> of \<open>n\<close> bytes.\<close>

definition ReadFull :: "nat \<Rightarrow> bytes \<Rightarrow> (read_error, bytes \<times> bytes) result" where
  "ReadFull n s =
     (if n \<le> length s then Inr (take n s, drop n s)
      else if s = [] then Inl EOF else Inl UnexpectedEOF)"

lemma ReadFull_append [simp]: "length a = n \<Longrightarrow> ReadFull n (a @ b) = Inr (a, b)"
  by (auto simp: ReadFull_def)

lemma ReadFull_Inr: "ReadFull n s = Inr (a, b) \<longleftrightarrow> s = a @ b \<and> length a = n"
  by (auto simp: ReadFull_def)

section \<open>Framings\<close>

text \<open>
  The loop that reads messages until the decoder fails. \<open>fuel\<close> bounds the number of messages;
  the length of the stream is enough for a decoder that consumes at least one byte.
\<close>

fun read_frames :: "(bytes \<Rightarrow> ('e, 'f \<times> bytes) result) \<Rightarrow> nat \<Rightarrow> bytes \<Rightarrow> 'f list \<times> 'e option" where
  "read_frames dec 0 s = ([], None)"
| "read_frames dec (Suc fuel) s =
     (case dec s of
        Inl e \<Rightarrow> ([], Some e)
      | Inr (f, r) \<Rightarrow> (case read_frames dec fuel r of (fs, e) \<Rightarrow> (f # fs, e)))"

locale framing =
  fixes enc :: "'f \<Rightarrow> bytes"
    and dec :: "bytes \<Rightarrow> ('e, 'f \<times> bytes) result"
    and ok :: "'f \<Rightarrow> bool"
    and eof :: 'e
  assumes dec_enc: "ok f \<Longrightarrow> dec (enc f @ r) = Inr (f, r)"
    and dec_consumes: "dec s = Inr (f, r) \<Longrightarrow> length r < length s"
    and dec_end: "dec [] = Inl eof"
begin

lemma enc_nonempty: "ok f \<Longrightarrow> enc f \<noteq> []"
  using dec_enc [of f "[]"] dec_end by auto

text \<open>A stream of encoded messages is read back message by message, then ends.\<close>

lemma read_frames_concat:
  "list_all ok fs \<Longrightarrow> length fs < fuel \<Longrightarrow> read_frames dec fuel (concat (map enc fs)) = (fs, Some eof)"
proof (induction fs arbitrary: fuel)
  case Nil
  then show ?case by (cases fuel) (auto simp: dec_end)
next
  case (Cons f fs)
  then show ?case by (cases fuel) (auto simp: dec_enc)
qed

text \<open>The loop ends before the fuel does: the length of the stream is enough.\<close>

lemma read_frames_terminates:
  "length s < fuel \<Longrightarrow> \<exists>fs e. read_frames dec fuel s = (fs, Some e)"
proof (induction fuel arbitrary: s)
  case (Suc fuel)
  show ?case
  proof (cases "dec s")
    case (Inr fr)
    obtain f r where fr: "fr = (f, r)" by (cases fr)
    with Inr dec_consumes Suc.prems have "length r < fuel" by fastforce
    from Suc.IH [OF this] Inr fr show ?thesis by auto
  qed auto
qed simp

text \<open>Encodings of different message sequences differ.\<close>

lemma enc_inj:
  assumes "list_all ok fs" and "list_all ok gs"
    and "concat (map enc fs) = concat (map enc gs)"
  shows "fs = gs"
proof -
  let ?n = "Suc (length fs + length gs)"
  have "read_frames dec ?n (concat (map enc fs)) = (fs, Some eof)"
    by (rule read_frames_concat [OF assms(1)]) simp
  moreover have "read_frames dec ?n (concat (map enc gs)) = (gs, Some eof)"
    by (rule read_frames_concat [OF assms(2)]) simp
  ultimately show ?thesis using assms(3) by simp
qed

end

end
