(* ===== verification/Session.thy ===== *)
theory Session
  imports Bytes GoStrings
begin

text \<open>
  The framed protocol between a session's holder and its client
  (\<open>internal/guest/session/protocol.go\<close>): a frame is a type byte, a big-endian length and the
  payload. A payload is a list of bytes; the JSON decoder of \<open>Started\<close> is an argument.
\<close>

section \<open>Frames\<close>

record Frame =
  Type :: u8
  Payload :: bytes

definition FrameInfo :: u8 where "FrameInfo = 0x49"
definition FrameStarted :: u8 where "FrameStarted = 0x53"
definition FrameHello :: u8 where "FrameHello = 0x48"
definition FrameData :: u8 where "FrameData = 0x44"
definition FrameResize :: u8 where "FrameResize = 0x52"
definition FrameExit :: u8 where "FrameExit = 0x58"
definition FrameKicked :: u8 where "FrameKicked = 0x4B"

lemmas frame_types =
  FrameInfo_def FrameStarted_def FrameHello_def FrameData_def FrameResize_def FrameExit_def
  FrameKicked_def

definition maxFrame :: nat where "maxFrame = 2 ^ 20"

text \<open>A frame that is too large, or the error of the stream.\<close>

datatype frame_error = FrameTooLarge nat | StreamError read_error

text \<open>The bytes of the single write.\<close>

definition WriteFrame :: "Frame \<Rightarrow> (frame_error, bytes) result" where
  "WriteFrame f =
     (if length (Payload f) > maxFrame then Inl (FrameTooLarge (length (Payload f)))
      else Inr (Type f # be32 (word_of_nat (length (Payload f))) @ Payload f))"

definition ReadFrame :: "bytes \<Rightarrow> (frame_error, Frame \<times> bytes) result" where
  "ReadFrame r =
     rbind (rwrap StreamError (ReadFull 5 r)) (\<lambda>(hdr, r1).
     case get_be32 (drop 1 hdr) of
       None \<Rightarrow> Inl (StreamError UnexpectedEOF)
     | Some n \<Rightarrow>
         if unat n > maxFrame then Inl (FrameTooLarge (unat n))
         else rbind (rwrap (\<lambda>_. StreamError UnexpectedEOF) (ReadFull (unat n) r1)) (\<lambda>(p, r2).
              Inr (\<lparr>Type = hd hdr, Payload = p\<rparr>, r2)))"

text \<open>The window size of Hello and Resize frames.\<close>

datatype payload_error = PayloadLength nat

definition SizeFrame :: "u8 \<Rightarrow> u16 \<Rightarrow> u16 \<Rightarrow> Frame" where
  "SizeFrame t rows cols = \<lparr>Type = t, Payload = be16 rows @ be16 cols\<rparr>"

definition ParseSize :: "bytes \<Rightarrow> (payload_error, u16 \<times> u16) result" where
  "ParseSize p =
     (if length p \<noteq> 4 then Inl (PayloadLength (length p))
      else case (get_be16 (take 2 p), get_be16 (drop 2 p)) of
             (Some rows, Some cols) \<Rightarrow> Inr (rows, cols)
           | _ \<Rightarrow> Inl (PayloadLength (length p)))"

text \<open>\<open>int32(code)\<close> keeps the low 32 bits; \<open>int(int32(w))\<close> reads them back signed.\<close>

definition ExitFrame :: "int \<Rightarrow> Frame" where
  "ExitFrame code = \<lparr>Type = FrameExit, Payload = be32 (word_of_int code)\<rparr>"

definition ParseExit :: "bytes \<Rightarrow> (payload_error, int) result" where
  "ParseExit p =
     (if length p \<noteq> 4 then Inl (PayloadLength (length p))
      else case get_be32 p of
             Some w \<Rightarrow> Inr (sint w)
           | None \<Rightarrow> Inl (PayloadLength (length p)))"

record Started =
  Install :: "string list"

text \<open>\<open>unmarshal\<close> is \<open>json.Unmarshal\<close> into a fresh \<open>Started\<close>.\<close>

definition ParseStarted :: "(bytes \<Rightarrow> Started option) \<Rightarrow> bytes \<Rightarrow> Started" where
  "ParseStarted unmarshal p =
     (if p = [] then \<lparr>Install = []\<rparr>
      else case unmarshal p of None \<Rightarrow> \<lparr>Install = []\<rparr> | Some s \<Rightarrow> s)"

section \<open>The protocol is a framing\<close>

definition frame_ok :: "Frame \<Rightarrow> bool" where
  "frame_ok f \<longleftrightarrow> length (Payload f) \<le> maxFrame"

definition frame_bytes :: "Frame \<Rightarrow> bytes" where
  "frame_bytes f = (case WriteFrame f of Inr b \<Rightarrow> b | Inl _ \<Rightarrow> [])"

lemma frame_bytes_ok:
  "frame_ok f \<Longrightarrow> frame_bytes f = Type f # be32 (word_of_nat (length (Payload f))) @ Payload f"
  by (simp add: frame_bytes_def frame_ok_def WriteFrame_def)

lemma WriteFrame_ok: "frame_ok f \<longleftrightarrow> (\<exists>b. WriteFrame f = Inr b)"
  by (simp add: frame_ok_def WriteFrame_def)

lemma unat_length:
  "n \<le> maxFrame \<Longrightarrow> unat (word_of_nat n :: u32) = n"
  by (simp add: maxFrame_def unat_of_nat)

lemma ReadFrame_WriteFrame:
  assumes "frame_ok f"
  shows "ReadFrame (frame_bytes f @ r) = Inr (f, r)"
proof -
  let ?l = "word_of_nat (length (Payload f)) :: u32"
  have s: "frame_bytes f @ r = (Type f # be32 ?l) @ Payload f @ r"
    using assms by (simp add: frame_bytes_ok)
  have "ReadFull 5 (frame_bytes f @ r) = Inr (Type f # be32 ?l, Payload f @ r)"
    unfolding s by (rule ReadFull_append) simp
  with assms show ?thesis
    by (simp add: ReadFrame_def unat_length frame_ok_def)
qed

lemma ReadFrame_shape:
  "ReadFrame s = Inr (f, r) \<Longrightarrow>
   length (Payload f) \<le> maxFrame \<and> length s = 5 + length (Payload f) + length r"
  by (auto simp: ReadFrame_def result_simps ReadFull_Inr split: option.splits if_splits)

interpretation session_frames: framing frame_bytes ReadFrame frame_ok "StreamError EOF"
proof unfold_locales
  fix f r
  assume "frame_ok f"
  then show "ReadFrame (frame_bytes f @ r) = Inr (f, r)" by (rule ReadFrame_WriteFrame)
next
  fix s f r
  assume "ReadFrame s = Inr (f, r)"
  then show "length r < length s" by (auto dest: ReadFrame_shape)
next
  show "ReadFrame [] = Inl (StreamError EOF)"
    by (simp add: ReadFrame_def ReadFull_def)
qed

lemma ParseSize_SizeFrame: "ParseSize (Payload (SizeFrame t rows cols)) = Inr (rows, cols)"
  by (simp add: ParseSize_def SizeFrame_def)

lemma ParseSize_total:
  "(\<exists>rows cols. ParseSize p = Inr (rows, cols)) \<longleftrightarrow> length p = 4"
  using get_be16_Some [of "take 2 p"] get_be16_Some [of "drop 2 p"]
  by (auto simp: ParseSize_def split: option.splits)

lemma ParseExit_ExitFrame:
  assumes "- (2 ^ 31) \<le> code" and "code < 2 ^ 31"
  shows "ParseExit (Payload (ExitFrame code)) = Inr code"
  using assms by (simp add: ParseExit_def ExitFrame_def int_word_sint)

section \<open>Properties\<close>

text \<open>C18. The session protocol survives the stream: any sequence of frames whose payloads respect the
  limit is written without error, and a reader of the concatenated bytes gets exactly those
  frames, in order, and then the end of the stream; a frame over the limit is refused by the
  writer, and whatever bytes arrive, no frame the reader returns exceeds the limit.\<close>

theorem session_frames_roundtrip:
  "(list_all frame_ok fs \<longrightarrow>
      (\<exists>bs. traverse WriteFrame fs = Inr bs \<and>
            read_frames ReadFrame (Suc (length fs)) (concat bs) = (fs, Some (StreamError EOF)))) \<and>
   (length (Payload f) > maxFrame \<longrightarrow> WriteFrame f = Inl (FrameTooLarge (length (Payload f)))) \<and>
   (ReadFrame s = Inr (g, r) \<longrightarrow> length (Payload g) \<le> maxFrame)"
proof (intro conjI impI)
  assume ok: "list_all frame_ok fs"
  then have "list_all2 (\<lambda>f b. WriteFrame f = Inr b) fs (map frame_bytes fs)"
    by (induction fs) (auto simp: frame_bytes_ok WriteFrame_def frame_ok_def)
  then have "traverse WriteFrame fs = Inr (map frame_bytes fs)" by (simp add: traverse_eq_Inr)
  moreover have "read_frames ReadFrame (Suc (length fs)) (concat (map frame_bytes fs))
      = (fs, Some (StreamError EOF))"
    by (rule session_frames.read_frames_concat [OF ok]) simp
  ultimately show "\<exists>bs. traverse WriteFrame fs = Inr bs \<and>
      read_frames ReadFrame (Suc (length fs)) (concat bs) = (fs, Some (StreamError EOF))" by blast
qed (auto simp: WriteFrame_def dest: ReadFrame_shape)

theorem session_frames_roundtrip_witness:
  "traverse WriteFrame [SizeFrame FrameHello 24 80, ExitFrame 3] =
     Inr [[0x48, 0, 0, 0, 4, 0, 24, 0, 80], [0x58, 0, 0, 0, 4, 0, 0, 0, 3]] \<and>
   read_frames ReadFrame 3 [0x48, 0, 0, 0, 4, 0, 24, 0, 80, 0x58, 0, 0, 0, 4, 0, 0, 0, 3] =
     ([SizeFrame FrameHello 24 80, ExitFrame 3], Some (StreamError EOF))"
proof -
  have ok: "list_all frame_ok [SizeFrame FrameHello 24 80, ExitFrame 3]" by code_simp
  have w: "traverse WriteFrame [SizeFrame FrameHello 24 80, ExitFrame 3] =
      Inr [[0x48, 0, 0, 0, 4, 0, 24, 0, 80], [0x58, 0, 0, 0, 4, 0, 0, 0, 3]]" by code_simp
  from session_frames_roundtrip [of "[SizeFrame FrameHello 24 80, ExitFrame 3]"] ok w show ?thesis
    by (auto simp: numeral_eq_Suc)
qed

text \<open>The exit status and the window size survive their frames: every status of 32 bits, a negative
  one included, and every size is read back as it was written, and a payload of any other
  length than four bytes is an error, never a wrong value.\<close>

theorem exit_and_size_roundtrip:
  "(- (2 ^ 31) \<le> code \<and> code < 2 ^ 31 \<longrightarrow> ParseExit (Payload (ExitFrame code)) = Inr code) \<and>
   ParseSize (Payload (SizeFrame t rows cols)) = Inr (rows, cols) \<and>
   (length p \<noteq> 4 \<longrightarrow>
      ParseExit p = Inl (PayloadLength (length p)) \<and> ParseSize p = Inl (PayloadLength (length p)))"
  using ParseExit_ExitFrame ParseSize_SizeFrame by (auto simp: ParseExit_def ParseSize_def)

theorem exit_and_size_roundtrip_witness:
  "ParseExit (Payload (ExitFrame (- 1))) = Inr (- 1) \<and>
   ParseExit [1, 2] = Inl (PayloadLength 2) \<and> ParseSize [1, 2] = Inl (PayloadLength 2)"
  using exit_and_size_roundtrip [of "- 1" 0 0 0 "[1, 2]"] by simp

end
