(* ===== verification/Modes.thy ===== *)
theory Modes
  imports Session
begin

unbundle bit_operations_syntax

text \<open>
  The terminal-mode tracker of a session's holder (\<open>internal/guest/session/modes.go\<close>): it scans
  the program's output for the escape sequences that switch modes and replays the modes to a
  client that attaches later. \<open>t.set\<close> is an association list; the iteration order of the Go
  map does not matter because \<open>Replay\<close> sorts its keys.
\<close>

section \<open>The tracker\<close>

definition trackedModes :: "int list" where
  "trackedModes = [1, 25, 47, 1000, 1002, 1003, 1004, 1005, 1006, 1015, 1016, 1047, 1049, 2004]"

definition altScreenModes :: "int list" where
  "altScreenModes = [1049, 1047, 47]"

definition maxSequence :: nat where "maxSequence = 64"

record ModeTracker =
  mt_state :: nat
  seq :: bytes
  mt_set :: "(int \<times> bool) list"
  keypad :: bool
  kitty :: "int list"
  otherKeys :: int

definition NewModeTracker :: ModeTracker where
  "NewModeTracker =
     \<lparr>mt_state = 0, seq = [], mt_set = [(25, True)], keypad = False, kitty = [], otherKeys = 0\<rparr>"

text \<open>\<open>t.set[m]\<close>, false for a mode that is not in the map.\<close>

definition mode_on :: "ModeTracker \<Rightarrow> int \<Rightarrow> bool" where
  "mode_on t m \<longleftrightarrow> map_of (mt_set t) m = Some True"

definition text_of :: "bytes \<Rightarrow> string" where
  "text_of b = map (\<lambda>x. char_of (unat x)) b"

definition bytes_of :: "string \<Rightarrow> bytes" where
  "bytes_of s = map (\<lambda>c. word_of_nat (of_char c)) s"

definition reset :: "ModeTracker \<Rightarrow> ModeTracker" where
  "reset t = NewModeTracker"

definition kittyKeys :: "ModeTracker \<Rightarrow> string \<Rightarrow> ModeTracker" where
  "kittyKeys t params =
     (if HasPrefix params ''>'' then t\<lparr>kitty := kitty t @ [fst (Atoi (tl params))]\<rparr>
      else if HasPrefix params ''<'' then
        (let (v, ok) = Atoi (tl params);
             n = (if ok \<and> v > 0 then v else 1)
         in t\<lparr>kitty := take (length (kitty t) - nat n) (kitty t)\<rparr>)
      else if HasPrefix params ''='' then
        (let fields = Split CHR '';'' (tl params);
             flags = fst (Atoi (hd fields));
             mode = (if length fields > 1 then fst (Atoi (fields ! 1)) else 1);
             stack = (if kitty t = [] then [0] else kitty t);
             top = last stack;
             top' = (if mode = 2 then top OR flags
                     else if mode = 3 then top AND NOT flags
                     else flags)
         in t\<lparr>kitty := butlast stack @ [top']\<rparr>)
      else t)"

definition set_mode :: "bool \<Rightarrow> (int \<times> bool) list \<Rightarrow> string \<Rightarrow> (int \<times> bool) list" where
  "set_mode on m s =
     (case Atoi s of (n, ok) \<Rightarrow> if ok \<and> n \<in> set trackedModes then AList.update n on m else m)"

definition csi :: "ModeTracker \<Rightarrow> string \<Rightarrow> char \<Rightarrow> ModeTracker" where
  "csi t params final =
     (if final = CHR ''h'' \<or> final = CHR ''l'' then
        (case CutPrefix params ''?'' of
           None \<Rightarrow> t
         | Some rest \<Rightarrow>
             t\<lparr>mt_set := foldl (set_mode (final = CHR ''h'')) (mt_set t) (Split CHR '';'' rest)\<rparr>)
      else if final = CHR ''u'' then kittyKeys t params
      else if final = CHR ''m'' then
        (case CutPrefix params ''>4'' of
           None \<Rightarrow> t
         | Some rest \<Rightarrow>
             t\<lparr>otherKeys := (case CutPrefix rest '';'' of None \<Rightarrow> 0 | Some v \<Rightarrow> fst (Atoi v))\<rparr>)
      else t)"

text \<open>One byte of the loop in \<open>Feed\<close>; the states are 0 ground, 1 after ESC, 2 in CSI.\<close>

definition feed_byte :: "ModeTracker \<Rightarrow> u8 \<Rightarrow> ModeTracker" where
  "feed_byte t b =
     (if mt_state t = 0 then (if b = 0x1b then t\<lparr>mt_state := 1\<rparr> else t)
      else if mt_state t = 1 then
        (if b = 0x5b then t\<lparr>mt_state := 2, seq := []\<rparr>
         else if b = 0x3d then t\<lparr>keypad := True, mt_state := 0\<rparr>
         else if b = 0x3e then t\<lparr>keypad := False, mt_state := 0\<rparr>
         else if b = 0x63 then (reset t)\<lparr>mt_state := 0\<rparr>
         else if b = 0x1b then t
         else t\<lparr>mt_state := 0\<rparr>)
      else if mt_state t = 2 then
        (if b \<ge> 0x40 \<and> b \<le> 0x7e then (csi t (text_of (seq t)) (char_of (unat b)))\<lparr>mt_state := 0\<rparr>
         else if b \<ge> 0x20 \<and> b \<le> 0x3f \<and> length (seq t) < maxSequence then t\<lparr>seq := seq t @ [b]\<rparr>
         else if b = 0x1b then t\<lparr>mt_state := 1\<rparr>
         else t\<lparr>mt_state := 0\<rparr>)
      else t)"

definition Feed :: "ModeTracker \<Rightarrow> bytes \<Rightarrow> ModeTracker" where
  "Feed t p = foldl feed_byte t p"

definition esc :: string where "esc = [CHR 0x1B]"

text \<open>The sequences \<open>Replay\<close> formats.\<close>

definition mode_seq :: "int \<Rightarrow> string" where
  "mode_seq m = esc @ ''[?'' @ Itoa m @ ''h''"

definition kitty_seq :: "int \<Rightarrow> string" where
  "kitty_seq flags = esc @ ''[>'' @ Itoa flags @ ''u''"

definition keys_seq :: "int \<Rightarrow> string" where
  "keys_seq level = esc @ ''[>4;'' @ Itoa level @ ''m''"

definition replay_alt :: "ModeTracker \<Rightarrow> string" where
  "replay_alt t =
     (case find (mode_on t) altScreenModes of
        None \<Rightarrow> [] | Some m \<Rightarrow> mode_seq m)"

definition replay_mode :: "ModeTracker \<Rightarrow> int \<Rightarrow> string" where
  "replay_mode t m =
     (if m \<in> set altScreenModes then []
      else if m = 25 then (if \<not> mode_on t m then esc @ ''[?25l'' else [])
      else if mode_on t m then mode_seq m
      else [])"

definition Replay :: "ModeTracker \<Rightarrow> bytes" where
  "Replay t =
     bytes_of
      (replay_alt t @
       concat (map (replay_mode t) (sorted_keys (mt_set t))) @
       (if keypad t then esc @ ''='' else []) @
       concat (map kitty_seq (kitty t)) @
       (if otherKeys t > 0 then keys_seq (otherKeys t) else []))"

section \<open>Feeding one sequence\<close>

lemma Feed_append: "Feed t (a @ b) = Feed (Feed t a) b"
  by (simp add: Feed_def)

lemma Feed_Nil [simp]: "Feed t [] = t"
  by (simp add: Feed_def)

lemma text_of_bytes_of [simp]: "text_of (bytes_of s) = s"
proof -
  have "char_of (unat (word_of_nat (of_char c) :: u8)) = c" for c
  proof -
    have "of_char c < (256 :: nat)" using of_char_mod_256 [of c] by (metis mod_less_divisor zero_less_numeral)
    then show ?thesis by (simp add: unat_of_nat)
  qed
  then show ?thesis by (simp add: text_of_def bytes_of_def comp_def)
qed

lemma bytes_of_append [simp]: "bytes_of (a @ b) = bytes_of a @ bytes_of b"
  by (simp add: bytes_of_def)

lemma bytes_of_Nil [simp]: "bytes_of [] = []"
  by (simp add: bytes_of_def)

lemma bytes_of_concat: "bytes_of (concat xs) = concat (map bytes_of xs)"
  by (induction xs) simp_all

definition param_byte :: "u8 \<Rightarrow> bool" where
  "param_byte b \<longleftrightarrow> 0x20 \<le> b \<and> b \<le> 0x3f"

lemma feed_params:
  assumes "mt_state t = 2" and "list_all param_byte p" and "length (seq t) + length p \<le> maxSequence"
  shows "foldl feed_byte t p = t\<lparr>seq := seq t @ p\<rparr>"
  using assms
proof (induction p arbitrary: t)
  case (Cons b p)
  then have "\<not> 0x40 \<le> b" by (auto simp: param_byte_def word_le_nat_alt)
  with Cons.prems have "feed_byte t b = t\<lparr>seq := seq t @ [b]\<rparr>"
    by (simp add: feed_byte_def param_byte_def)
  with Cons.IH [of "t\<lparr>seq := seq t @ [b]\<rparr>"] Cons.prems show ?case by simp
qed simp

lemma Feed_csi:
  assumes "mt_state t = 0" and "list_all param_byte (bytes_of params)"
    and "length params \<le> maxSequence" and "0x40 \<le> f" "f \<le> 0x7e"
  shows "Feed t (bytes_of (esc @ ''['' @ params) @ [f]) =
         (csi (t\<lparr>mt_state := 2, seq := bytes_of params\<rparr>) params (char_of (unat f)))\<lparr>mt_state := 0\<rparr>"
proof -
  let ?t = "t\<lparr>mt_state := 2, seq := []\<rparr>"
  have "foldl feed_byte t (bytes_of (esc @ ''['')) = ?t"
    using assms(1) by (simp add: esc_def bytes_of_def feed_byte_def)
  moreover have "foldl feed_byte ?t (bytes_of params) = ?t\<lparr>seq := bytes_of params\<rparr>"
    using feed_params [of ?t "bytes_of params"] assms by (simp add: bytes_of_def)
  moreover have "bytes_of (esc @ ''['' @ params) = bytes_of (esc @ ''['') @ bytes_of params"
    by (simp add: bytes_of_def)
  ultimately have "foldl feed_byte t (bytes_of (esc @ ''['' @ params)) = ?t\<lparr>seq := bytes_of params\<rparr>"
    by (simp only: foldl_append)
  then show ?thesis
    using assms(4,5) by (simp add: Feed_def feed_byte_def)
qed

text \<open>Decimal numbers in range are parameters.\<close>

lemma show_nat_length: "n < 10 ^ k \<Longrightarrow> 0 < k \<Longrightarrow> length (show_nat n) \<le> k"
proof (induction n arbitrary: k rule: show_nat.induct)
  case (1 n)
  show ?case
  proof (cases "n < 10")
    case True
    with 1 show ?thesis by (simp add: show_nat.simps [of n])
  next
    case False
    then have "k \<noteq> 1" using 1(2) by (cases "k = 1") auto
    then obtain j where k: "k = Suc j" and j: "0 < j"
      using 1(3) by (cases k) auto
    from 1(2) k have "n div 10 < 10 ^ j" by (simp add: less_mult_imp_div_less mult.commute)
    from 1(1) [OF False this j] False k show ?thesis by (simp add: show_nat.simps [of n])
  qed
qed

definition int64 :: "int \<Rightarrow> bool" where
  "int64 i \<longleftrightarrow> - (2 ^ 63) \<le> i \<and> i < 2 ^ 63"

lemma Itoa_length: "int64 i \<Longrightarrow> length (Itoa i) \<le> 20"
  using show_nat_length [of "nat \<bar>i\<bar>" 19] by (auto simp: int64_def Itoa_def abs_if nat_less_iff)

lemma digit_param: "is_digit c \<Longrightarrow> param_byte (word_of_nat (of_char c))"
  by (simp add: is_digit_def param_byte_def word_le_nat_alt unat_of_nat)

lemma Itoa_params: "list_all param_byte (bytes_of (Itoa i))"
proof -
  have "list_all param_byte (bytes_of (show_nat n))" for n
    using show_nat_digits [of n] digit_param by (auto simp: bytes_of_def list_all_iff)
  then show ?thesis
    by (auto simp: Itoa_def bytes_of_def param_byte_def)
qed

lemma Itoa_no_semicolon: "CHR '';'' \<notin> set (Itoa i)"
proof -
  have "CHR '';'' \<notin> set (show_nat n)" for n
    using show_nat_digits [of n] is_digit_neq [of "CHR '';''"] by (auto simp: list_all_iff)
  then show ?thesis by (simp add: Itoa_def)
qed

lemma Atoi_Itoa64: "int64 i \<Longrightarrow> Atoi (Itoa i) = (i, True)"
  by (simp add: int64_def Atoi_Itoa)

section \<open>The invariant of a tracker\<close>

definition tracker_ok :: "ModeTracker \<Rightarrow> bool" where
  "tracker_ok t \<longleftrightarrow>
     mt_state t \<le> 2 \<and> length (seq t) \<le> maxSequence \<and>
     fst ` set (mt_set t) \<subseteq> set trackedModes \<and> 25 \<in> fst ` set (mt_set t) \<and>
     list_all int64 (kitty t) \<and> int64 (otherKeys t)"

lemma int64_Atoi: "int64 (fst (Atoi s))"
  using Atoi_range [of s] by (cases "Atoi s") (simp add: int64_def)

lemma int64_iff: "int64 i \<longleftrightarrow> signed_take_bit 63 i = i"
  by (auto simp: int64_def signed_take_bit_int_eq_self_iff)

lemma int64_ops: "int64 a \<Longrightarrow> int64 b \<Longrightarrow> int64 (a OR b) \<and> int64 (a AND NOT b)"
  by (auto simp: int64_iff bit_eq_iff bit_simps)

lemma int64_0 [simp]: "int64 0"
  by (simp add: int64_def)

lemma kittyKeys_frame:
  "mt_state (kittyKeys t p) = mt_state t" "seq (kittyKeys t p) = seq t"
  "mt_set (kittyKeys t p) = mt_set t" "otherKeys (kittyKeys t p) = otherKeys t"
  by (simp_all add: kittyKeys_def Let_def split: prod.split)

lemma kittyKeys_int64:
  assumes "list_all int64 (kitty t)"
  shows "list_all int64 (kitty (kittyKeys t p))"
proof -
  have "list_all int64 (take n (kitty t))" for n
    using assms by (auto simp: list_all_iff dest: in_set_takeD)
  moreover have "list_all int64 (butlast (kitty t))"
    using assms by (auto simp: list_all_iff dest: in_set_butlastD)
  moreover have "kitty t \<noteq> [] \<Longrightarrow> int64 (last (kitty t))"
    using assms by (simp add: list_all_iff)
  ultimately show ?thesis
    using assms by (auto simp: kittyKeys_def Let_def int64_Atoi int64_ops split: prod.split)
qed

lemma set_mode_keys:
  "fst ` set m \<subseteq> set trackedModes \<Longrightarrow> fst ` set (set_mode on m s) \<subseteq> set trackedModes"
  "k \<in> fst ` set m \<Longrightarrow> k \<in> fst ` set (set_mode on m s)"
  by (cases "Atoi s"; simp add: set_mode_def keys_update)+

lemma fold_set_mode_keys:
  "fst ` set m \<subseteq> set trackedModes \<Longrightarrow> fst ` set (foldl (set_mode on) m ss) \<subseteq> set trackedModes"
  "k \<in> fst ` set m \<Longrightarrow> k \<in> fst ` set (foldl (set_mode on) m ss)"
  by (induction ss arbitrary: m) (simp_all only: foldl_Nil foldl_Cons set_mode_keys)

lemma csi_ok: "tracker_ok t \<Longrightarrow> tracker_ok (csi t p f)"
  unfolding csi_def
  by (auto simp: tracker_ok_def kittyKeys_frame kittyKeys_int64 int64_Atoi
      fold_set_mode_keys simp del: image_subset_iff split: option.split)

lemma New_ok: "tracker_ok NewModeTracker"
  by (simp add: tracker_ok_def NewModeTracker_def trackedModes_def)

lemma tracker_ok_upd:
  "tracker_ok t \<Longrightarrow> n \<le> 2 \<Longrightarrow> tracker_ok (t\<lparr>mt_state := n\<rparr>)"
  "tracker_ok t \<Longrightarrow> length s \<le> maxSequence \<Longrightarrow> tracker_ok (t\<lparr>seq := s\<rparr>)"
  "tracker_ok t \<Longrightarrow> tracker_ok (t\<lparr>keypad := k\<rparr>)"
  by (simp_all add: tracker_ok_def)

lemma feed_byte_ok: "tracker_ok t \<Longrightarrow> tracker_ok (feed_byte t b)"
  by (simp add: feed_byte_def reset_def New_ok csi_ok tracker_ok_upd)

lemma Feed_ok: "tracker_ok t \<Longrightarrow> tracker_ok (Feed t p)"
  unfolding Feed_def by (induction p arbitrary: t) (simp_all add: feed_byte_ok)

section \<open>Feeding a replay\<close>

text \<open>What one replayed sequence does to a tracker in the ground state.\<close>

lemma tracked_int64: "m \<in> set trackedModes \<Longrightarrow> int64 m"
  by (auto simp: trackedModes_def int64_def)

lemma final_chars:
  "char_of (0x68 :: nat) = CHR ''h''" "char_of (0x6c :: nat) = CHR ''l''"
  "char_of (0x75 :: nat) = CHR ''u''" "char_of (0x6d :: nat) = CHR ''m''"
  by code_simp+

lemma Feed_mode:
  assumes "mt_state t = 0" and m: "m \<in> set trackedModes" and "f = 0x68 \<or> f = 0x6c"
  shows "\<exists>q. Feed t (bytes_of (esc @ ''[?'' @ Itoa m) @ [f]) =
             t\<lparr>mt_set := AList.update m (f = 0x68) (mt_set t), seq := q\<rparr>"
proof -
  have p: "list_all param_byte (bytes_of (CHR ''?'' # Itoa m))"
    using Itoa_params [of m] by (simp add: bytes_of_def param_byte_def)
  have l: "length (CHR ''?'' # Itoa m) \<le> maxSequence"
    using Itoa_length [OF tracked_int64 [OF m]] by (simp add: maxSequence_def)
  have c: "CutPrefix (CHR ''?'' # Itoa m) ''?'' = Some (Itoa m)" by (simp add: CutPrefix_Some)
  have f: "0x40 \<le> f" "f \<le> 0x7e" using assms(3) by auto
  have "Feed t (bytes_of (esc @ ''['' @ CHR ''?'' # Itoa m) @ [f]) =
      (csi (t\<lparr>mt_state := 2, seq := bytes_of (CHR ''?'' # Itoa m)\<rparr>) (CHR ''?'' # Itoa m) (char_of (unat f)))\<lparr>mt_state := 0\<rparr>"
    by (rule Feed_csi [OF assms(1) p l f])
  also have "\<dots> = t\<lparr>mt_set := AList.update m (f = 0x68) (mt_set t), seq := bytes_of (CHR ''?'' # Itoa m)\<rparr>"
    using assms(1,3) m c
    by (auto simp: csi_def set_mode_def Split_single Itoa_no_semicolon Atoi_Itoa64 tracked_int64 final_chars)
  finally show ?thesis by auto
qed

lemma Feed_kitty:
  assumes "mt_state t = 0" and k: "int64 k"
  shows "\<exists>q. Feed t (bytes_of (kitty_seq k)) = t\<lparr>kitty := kitty t @ [k], seq := q\<rparr>"
proof -
  let ?p = "CHR ''>'' # Itoa k"
  have p: "list_all param_byte (bytes_of ?p)"
    using Itoa_params [of k] by (simp add: bytes_of_def param_byte_def)
  have l: "length ?p \<le> maxSequence"
    using Itoa_length [OF k] by (simp add: maxSequence_def)
  have "Feed t (bytes_of (esc @ ''['' @ ?p) @ [0x75]) =
      (csi (t\<lparr>mt_state := 2, seq := bytes_of ?p\<rparr>) ?p (char_of (unat (0x75 :: u8))))\<lparr>mt_state := 0\<rparr>"
    by (rule Feed_csi [OF assms(1) p l]) simp_all
  also have "\<dots> = t\<lparr>kitty := kitty t @ [k], seq := bytes_of ?p\<rparr>"
    using assms by (auto simp: csi_def kittyKeys_def HasPrefix_def Atoi_Itoa64 final_chars)
  finally show ?thesis by (auto simp: bytes_of_def kitty_seq_def)
qed

lemma Feed_otherKeys:
  assumes "mt_state t = 0" and k: "int64 k"
  shows "\<exists>q. Feed t (bytes_of (keys_seq k)) = t\<lparr>otherKeys := k, seq := q\<rparr>"
proof -
  let ?p = "''>4;'' @ Itoa k"
  have p: "list_all param_byte (bytes_of ?p)"
    using Itoa_params [of k] by (simp add: bytes_of_def param_byte_def)
  have l: "length ?p \<le> maxSequence"
    using Itoa_length [OF k] by (simp add: maxSequence_def)
  have c: "CutPrefix ?p ''>4'' = Some (CHR '';'' # Itoa k)" "CutPrefix (CHR '';'' # Itoa k) '';'' = Some (Itoa k)"
    by (simp_all add: CutPrefix_Some)
  have "Feed t (bytes_of (esc @ ''['' @ ?p) @ [0x6d]) =
      (csi (t\<lparr>mt_state := 2, seq := bytes_of ?p\<rparr>) ?p (char_of (unat (0x6d :: u8))))\<lparr>mt_state := 0\<rparr>"
    by (rule Feed_csi [OF assms(1) p l]) simp_all
  also have "\<dots> = t\<lparr>otherKeys := k, seq := bytes_of ?p\<rparr>"
    using assms c by (auto simp: csi_def Atoi_Itoa64 final_chars)
  finally show ?thesis by (auto simp: bytes_of_def keys_seq_def)
qed

lemma Feed_keypad:
  "mt_state t = 0 \<Longrightarrow> Feed t (bytes_of (esc @ ''='')) = t\<lparr>keypad := True\<rparr>"
  by (simp add: Feed_def esc_def bytes_of_def feed_byte_def)

text \<open>The kitty stack and the mode list, element by element.\<close>

lemma Feed_kitty_list:
  assumes "mt_state t = 0" and "list_all int64 ks"
  shows "\<exists>q. Feed t (bytes_of (concat (map kitty_seq ks))) =
             t\<lparr>kitty := kitty t @ ks, seq := q\<rparr>"
  using assms
proof (induction ks arbitrary: t)
  case Nil
  then show ?case by (intro exI [of _ "seq t"]) simp
next
  case (Cons k ks)
  obtain q where q: "Feed t (bytes_of (kitty_seq k)) = t\<lparr>kitty := kitty t @ [k], seq := q\<rparr>"
    using Feed_kitty [of t k] Cons.prems by auto
  with Cons.IH [of "t\<lparr>kitty := kitty t @ [k], seq := q\<rparr>"] Cons.prems show ?case
    by (simp add: Feed_append)
qed

text \<open>\<open>same_but t t'\<close>: the trackers differ in their modes and in the last sequence only.\<close>

definition same_but :: "ModeTracker \<Rightarrow> ModeTracker \<Rightarrow> bool" where
  "same_but t t' \<longleftrightarrow>
     mt_state t' = mt_state t \<and> keypad t' = keypad t \<and> kitty t' = kitty t \<and> otherKeys t' = otherKeys t"

lemma Feed_mode_seq:
  assumes "mt_state t = 0" and "m \<in> set trackedModes"
  shows "same_but t (Feed t (bytes_of (mode_seq m)))"
    and "mode_on (Feed t (bytes_of (mode_seq m))) = (mode_on t)(m := True)"
proof -
  have "bytes_of (mode_seq m) = bytes_of (esc @ ''[?'' @ Itoa m) @ [0x68]"
    by (simp add: mode_seq_def bytes_of_def)
  with Feed_mode [of t m "0x68"] assms obtain q where
    "Feed t (bytes_of (mode_seq m)) = t\<lparr>mt_set := AList.update m True (mt_set t), seq := q\<rparr>" by auto
  then show "same_but t (Feed t (bytes_of (mode_seq m)))"
    "mode_on (Feed t (bytes_of (mode_seq m))) = (mode_on t)(m := True)"
    by (auto simp: same_but_def mode_on_def update_conv fun_eq_iff)
qed

lemma Feed_cursor_off:
  assumes "mt_state t = 0"
  shows "same_but t (Feed t (bytes_of (esc @ ''[?25l'')))"
    and "mode_on (Feed t (bytes_of (esc @ ''[?25l''))) = (mode_on t)(25 := False)"
proof -
  have "Itoa 25 = ''25''" by code_simp
  then have "bytes_of (esc @ ''[?25l'') = bytes_of (esc @ ''[?'' @ Itoa 25) @ [0x6c]"
    by (simp add: bytes_of_def)
  with Feed_mode [of t 25 "0x6c"] assms obtain q where
    "Feed t (bytes_of (esc @ ''[?25l'')) = t\<lparr>mt_set := AList.update 25 False (mt_set t), seq := q\<rparr>"
    by (auto simp: trackedModes_def)
  then show "same_but t (Feed t (bytes_of (esc @ ''[?25l'')))"
    "mode_on (Feed t (bytes_of (esc @ ''[?25l''))) = (mode_on t)(25 := False)"
    by (auto simp: same_but_def mode_on_def update_conv fun_eq_iff simp del: bytes_of_append)
qed

text \<open>The mode a replayed entry leaves, from the mode before.\<close>

definition replayed :: "ModeTracker \<Rightarrow> int \<Rightarrow> bool \<Rightarrow> bool" where
  "replayed src m old =
     (if m \<in> set altScreenModes then old
      else if m = 25 then old \<and> mode_on src m
      else old \<or> mode_on src m)"

lemma Feed_replay_mode:
  assumes "mt_state t = 0" and "m \<in> set trackedModes"
  shows "same_but t (Feed t (bytes_of (replay_mode src m)))"
    and "mode_on (Feed t (bytes_of (replay_mode src m))) = (mode_on t)(m := replayed src m (mode_on t m))"
  using Feed_mode_seq [OF assms] Feed_cursor_off [OF assms(1)]
  by (auto simp: replay_mode_def replayed_def same_but_def fun_eq_iff simp del: bytes_of_append)

lemma Feed_replay_modes:
  assumes "mt_state t = 0" and "set ms \<subseteq> set trackedModes" and "distinct ms"
  shows "same_but t (Feed t (bytes_of (concat (map (replay_mode src) ms)))) \<and>
         mode_on (Feed t (bytes_of (concat (map (replay_mode src) ms)))) =
           (\<lambda>m. if m \<in> set ms then replayed src m (mode_on t m) else mode_on t m)"
  using assms
proof (induction ms arbitrary: t)
  case (Cons m ms)
  let ?t = "Feed t (bytes_of (replay_mode src m))"
  from Cons.prems Feed_replay_mode [of t m src] have
    s: "same_but t ?t" and o: "mode_on ?t = (mode_on t)(m := replayed src m (mode_on t m))" by auto
  with Cons.IH [of ?t] Cons.prems show ?case
    by (auto simp: Feed_append same_but_def fun_eq_iff)
qed (simp add: same_but_def)

text \<open>The alternate screen: the first of its modes that is on.\<close>

lemma find_altScreen: "find (mode_on t) altScreenModes = Some m \<Longrightarrow> m \<in> set altScreenModes"
  by (auto simp: find_Some_iff)

lemma Feed_replay_alt:
  assumes "mt_state t = 0"
  shows "same_but t (Feed t (bytes_of (replay_alt src)))"
    and "mode_on (Feed t (bytes_of (replay_alt src))) =
         (\<lambda>m. mode_on t m \<or> find (mode_on src) altScreenModes = Some m)"
proof -
  have "m \<in> set trackedModes" if "find (mode_on src) altScreenModes = Some m" for m
    using find_altScreen [OF that] by (auto simp: altScreenModes_def trackedModes_def)
  with Feed_mode_seq [OF assms] show "same_but t (Feed t (bytes_of (replay_alt src)))"
    "mode_on (Feed t (bytes_of (replay_alt src))) =
         (\<lambda>m. mode_on t m \<or> find (mode_on src) altScreenModes = Some m)"
    by (auto simp: replay_alt_def same_but_def fun_eq_iff split: option.splits)
qed

lemma Feed_keys:
  assumes "mt_state t = 0" and "otherKeys t = 0" and "int64 k"
  shows "\<exists>q. Feed t (bytes_of (if k > 0 then keys_seq k else [])) = t\<lparr>otherKeys := max 0 k, seq := q\<rparr>"
proof (cases "k > 0")
  case True
  with Feed_otherKeys [OF assms(1,3)] show ?thesis by simp
next
  case False
  with assms(2) have "t = t\<lparr>otherKeys := max 0 k, seq := seq t\<rparr>" by (cases t) simp
  with False have "Feed t (bytes_of (if k > 0 then keys_seq k else [])) =
      t\<lparr>otherKeys := max 0 k, seq := seq t\<rparr>" by simp
  then show ?thesis by blast
qed

lemma Feed_keypad_if:
  assumes "mt_state t = 0" and "\<not> keypad t"
  shows "Feed t (bytes_of (if k then esc @ ''='' else [])) = t\<lparr>keypad := k\<rparr>"
  using Feed_keypad [OF assms(1)] assms(2) by (cases t) (simp split: if_split)

text \<open>What a fresh terminal knows after the modes of a replay.\<close>

lemma replayed_modes:
  assumes "tracker_ok src" and "m \<notin> set altScreenModes"
  shows "(if m \<in> set (sorted_keys (mt_set src)) then replayed src m (m = 25) else m = 25) = mode_on src m"
proof -
  have "mode_on src m \<Longrightarrow> m \<in> fst ` set (mt_set src)"
    by (auto simp: mode_on_def dest!: map_of_SomeD intro!: image_eqI [of _ fst])
  with assms show ?thesis by (auto simp: replayed_def tracker_ok_def)
qed

lemma Feed_Replay:
  assumes ok: "tracker_ok src"
  shows "\<exists>b q. same_but NewModeTracker b \<and>
    mode_on b = (\<lambda>m. if m \<in> set altScreenModes then find (mode_on src) altScreenModes = Some m
                     else mode_on src m) \<and>
    Feed NewModeTracker (Replay src) =
      b\<lparr>keypad := keypad src, kitty := kitty src, otherKeys := max 0 (otherKeys src), seq := q\<rparr>"
proof -
  define a where "a = Feed NewModeTracker (bytes_of (replay_alt src))"
  define b where "b = Feed a (bytes_of (concat (map (replay_mode src) (sorted_keys (mt_set src)))))"
  define c where "c = b\<lparr>keypad := keypad src\<rparr>"
  have n: "mt_state NewModeTracker = 0" and n25: "mode_on NewModeTracker = (\<lambda>m. m = 25)"
    by (auto simp: NewModeTracker_def mode_on_def fun_eq_iff)
  note a = Feed_replay_alt [OF n, of src, folded a_def]
  then have a0: "mt_state a = 0" using n by (simp add: same_but_def)
  have keys: "set (sorted_keys (mt_set src)) \<subseteq> set trackedModes"
    using ok by (simp add: tracker_ok_def)
  note b = Feed_replay_modes [OF a0 keys distinct_sorted_keys, of src, folded b_def]
  have sb: "same_but NewModeTracker b" using a b by (simp add: same_but_def)
  then have b0: "mt_state b = 0" "\<not> keypad b" "kitty b = []" "otherKeys b = 0"
    by (simp_all add: same_but_def NewModeTracker_def)
  have cc: "Feed b (bytes_of (if keypad src then esc @ ''='' else [])) = c"
    unfolding c_def by (rule Feed_keypad_if [OF b0(1,2)])
  from b0 have c0: "mt_state c = 0" "kitty c = []" "otherKeys c = 0" by (simp_all add: c_def)
  obtain q where d: "Feed c (bytes_of (concat (map kitty_seq (kitty src)))) =
      c\<lparr>kitty := kitty src, seq := q\<rparr>"
    using Feed_kitty_list [OF c0(1)] c0(2) ok by (auto simp: tracker_ok_def)
  obtain q' where e: "Feed (c\<lparr>kitty := kitty src, seq := q\<rparr>)
      (bytes_of (if otherKeys src > 0 then keys_seq (otherKeys src) else [])) =
      c\<lparr>kitty := kitty src, otherKeys := max 0 (otherKeys src), seq := q'\<rparr>"
    using Feed_keys [of "c\<lparr>kitty := kitty src, seq := q\<rparr>" "otherKeys src"] c0 ok
    by (auto simp: tracker_ok_def)
  have "Feed NewModeTracker (Replay src) =
      c\<lparr>kitty := kitty src, otherKeys := max 0 (otherKeys src), seq := q'\<rparr>"
    unfolding Replay_def
    by (simp only: bytes_of_append Feed_append cc d e flip: a_def b_def)
  moreover have "mode_on b m = (if m \<in> set altScreenModes then find (mode_on src) altScreenModes = Some m
                     else mode_on src m)" for m
    using a b n25 replayed_modes [OF ok, of m] find_altScreen [of src m]
    by (auto simp: replayed_def altScreenModes_def)
  ultimately show ?thesis using sb unfolding c_def
    by (intro exI [of _ b] exI [of _ q'] conjI) (simp_all add: fun_eq_iff)
qed

section \<open>Properties\<close>

text \<open>C19. A client that attaches to a running session sees the terminal modes of the program: a
  terminal in its default state that interprets the replay of a tracker, after any output and
  however it was split into reads, ends in the ground state with the same keypad mode, the
  same stack of kitty keyboard flags, the same modifyOtherKeys level (a negative one being
  none), the same DEC private modes outside the alternate screen, and of the alternate-screen
  modes exactly the first the program has on.\<close>

theorem replay_restores_modes:
  "let t = foldl Feed NewModeTracker chunks; t' = Feed NewModeTracker (Replay t)
   in mt_state t' = 0 \<and> keypad t' = keypad t \<and> kitty t' = kitty t \<and>
      otherKeys t' = max 0 (otherKeys t) \<and>
      (\<forall>m. mode_on t' m = (if m \<in> set altScreenModes then find (mode_on t) altScreenModes = Some m
                          else mode_on t m)) \<and>
      t = Feed NewModeTracker (concat chunks)"
proof -
  define t where "t = foldl Feed NewModeTracker chunks"
  define t' where "t' = Feed NewModeTracker (Replay t)"
  have split: "foldl Feed u chunks = Feed u (concat chunks)" for u
    by (induction chunks arbitrary: u) (simp_all add: Feed_append)
  then have "tracker_ok t" unfolding t_def by (simp add: Feed_ok New_ok)
  from Feed_Replay [OF this] obtain b q where *:
    "same_but NewModeTracker b"
    "mode_on b = (\<lambda>m. if m \<in> set altScreenModes then find (mode_on t) altScreenModes = Some m
                     else mode_on t m)"
    "t' = b\<lparr>keypad := keypad t, kitty := kitty t, otherKeys := max 0 (otherKeys t), seq := q\<rparr>"
    unfolding t'_def by blast
  from *(3) have "mode_on t' = mode_on b" by (simp add: mode_on_def fun_eq_iff)
  with * have "mt_state t' = 0 \<and> keypad t' = keypad t \<and> kitty t' = kitty t \<and>
      otherKeys t' = max 0 (otherKeys t) \<and>
      (\<forall>m. mode_on t' m = (if m \<in> set altScreenModes then find (mode_on t) altScreenModes = Some m
                          else mode_on t m))"
    by (simp add: same_but_def NewModeTracker_def)
  with split [of NewModeTracker] show ?thesis
    unfolding Let_def t_def [symmetric] t'_def [symmetric] by blast
qed

end
