(* ===== verification/Broker.thy ===== *)
theory Broker
  imports Policy Bytes
begin

text \<open>
  The network broker (\<open>internal/netbroker/broker.go\<close>, \<open>flows.go\<close>): construction and its guards,
  the decision of a new flow against the policy in force, the flow limits, the TCP and UDP
  flow handlers, the NIC framing and the single active NIC, and the cache of host addresses.
  gVisor's stack is outside: what it reports to a handler (the endpoint it creates) and what
  the host reports (interface addresses, the clock, whether a dial succeeds) is the argument
  \<open>world\<close>. A handler returns the new state and the list of its effects in order.
\<close>

section \<open>State\<close>

definition maxTCPFlows :: int where "maxTCPFlows = 4096"
definition maxUDPFlows :: int where "maxUDPFlows = 1024"
definition nicMaxFrame :: nat where "nicMaxFrame = 65535"
definition MaxMTU :: nat where "MaxMTU = nicMaxFrame - 14"

text \<open>\<open>hostAddrTTL\<close> in nanoseconds.\<close>

definition hostAddrTTL :: int where "hostAddrTTL = 2000000000"

record flowLimit =
  fl_n :: int
  fl_max :: int

record Forward =
  fw_Host :: AddrPort
  fw_UnixPath :: string
  fw_GuestPort :: u16

record Service =
  sv_GuestPort :: u16
  sv_UnixPath :: string
  sv_TCP :: AddrPort

record Config =
  cfg_Subnet :: Prefix
  cfg_Gateway :: Addr
  cfg_GuestIP :: Addr
  cfg_MTU :: u32
  cfg_Forwards :: "Forward list"
  cfg_Services :: "Service list"
  cfg_DNSFallback :: "AddrPort list"

text \<open>\<open>at\<close> is a time in nanoseconds; \<open>set\<close> is None while nil.\<close>

record addrCache =
  ac_at :: int
  ac_set :: "Addr list option"

datatype event =
    FlowEvent u64 string AddrPort AddrPort Decision
  | FlowLimitEvent u64 string AddrPort
  | DialError string AddrPort
  | PolicyEvent string bool
  | NicEvent string
  | StatusLine string
  | DnsEvent string string
  | DnsQueryError string
  | DnsAnswers string "string option" "string list option"
  | DhcpEvent u8 Addr
  | ReloadEvent bool "string list"

record Broker =
  b_cfg :: Config
  b_policy :: "Policy option"
  b_hosts :: addrCache
  b_log :: "event list"
  b_active :: bool
  b_connSeq :: u64
  b_tcpFlows :: flowLimit
  b_udpFlows :: flowLimit

datatype broker_error = BadAddresses | StackError string

text \<open>\<open>stack\<close> is the first error of the calls that build the gVisor stack.\<close>

definition New :: "string option \<Rightarrow> Config \<Rightarrow> Policy option \<Rightarrow> (broker_error, Broker) result" where
  "New stack cfg p =
     (if \<not> Is4 (cfg_Gateway cfg) \<or> \<not> Is4 (cfg_GuestIP cfg) \<or>
         \<not> Contains (cfg_Subnet cfg) (cfg_Gateway cfg) \<or>
         \<not> Contains (cfg_Subnet cfg) (cfg_GuestIP cfg) \<or> cfg_Gateway cfg = cfg_GuestIP cfg
      then Inl BadAddresses
      else let cfg' = (if cfg_MTU cfg = 0 then cfg\<lparr>cfg_MTU := 1500\<rparr> else cfg) in
        case stack of
          Some e \<Rightarrow> Inl (StackError e)
        | None \<Rightarrow>
            Inr \<lparr>b_cfg = cfg', b_policy = p, b_hosts = \<lparr>ac_at = 0, ac_set = None\<rparr>, b_log = [],
                 b_active = False, b_connSeq = 0,
                 b_tcpFlows = \<lparr>fl_n = 0, fl_max = maxTCPFlows\<rparr>,
                 b_udpFlows = \<lparr>fl_n = 0, fl_max = maxUDPFlows\<rparr>\<rparr>)"

definition record_event :: "event \<Rightarrow> Broker \<Rightarrow> Broker" where
  "record_event v b = b\<lparr>b_log := b_log b @ [v]\<rparr>"

definition SetPolicy :: "Policy \<Rightarrow> Broker \<Rightarrow> Broker" where
  "SetPolicy p b = record_event (PolicyEvent (pol_source p) (denyAll p)) (b\<lparr>b_policy := Some p\<rparr>)"

section \<open>Host addresses\<close>

text \<open>\<open>netip.AddrFromSlice\<close>: an address of 4 or 16 bytes.\<close>

definition AddrFromSlice :: "bytes \<Rightarrow> Addr option" where
  "AddrFromSlice s =
     (if length s = 4 then Some (Addr4 (word_rcat s))
      else if length s = 16 then Some (Addr6 (word_rcat s) [])
      else None)"

text \<open>
  What the host reports while a handler runs: the clock, \<open>net.InterfaceAddrs\<close> (the addresses of
  the interfaces that are \<open>*net.IPNet\<close>; None when the call fails), whether dialing a
  destination succeeds and whether the stack creates the guest's endpoint.
\<close>

record world =
  w_now :: int
  w_interfaces :: "bytes list option"
  w_dial :: "AddrPort \<Rightarrow> bool"
  w_endpoint :: bool

definition interface_set :: "bytes list option \<Rightarrow> Addr list" where
  "interface_set ifs =
     (case ifs of
        None \<Rightarrow> []
      | Some ips \<Rightarrow> map (\<lambda>a. Unmap (WithoutZone a)) (List.map_filter AddrFromSlice ips))"

definition addrCache_get :: "world \<Rightarrow> addrCache \<Rightarrow> Addr list \<times> addrCache" where
  "addrCache_get w c =
     (case ac_set c of
        Some s \<Rightarrow>
          if w_now w - ac_at c < hostAddrTTL then (s, c)
          else (let s' = interface_set (w_interfaces w) in (s', \<lparr>ac_at = w_now w, ac_set = Some s'\<rparr>))
      | None \<Rightarrow>
          (let s' = interface_set (w_interfaces w) in (s', \<lparr>ac_at = w_now w, ac_set = Some s'\<rparr>)))"

definition addrPort :: "bytes \<Rightarrow> u16 \<Rightarrow> AddrPort" where
  "addrPort a port =
     AddrPortFrom (Unmap (case AddrFromSlice a of None \<Rightarrow> AddrZero | Some ip \<Rightarrow> ip)) port"

section \<open>Flows\<close>

definition env :: "world \<Rightarrow> Broker \<Rightarrow> Env \<times> Broker" where
  "env w b =
     (case addrCache_get w (b_hosts b) of (s, c) \<Rightarrow>
        (\<lparr>Gateway = cfg_Gateway (b_cfg b), Subnet = cfg_Subnet (b_cfg b), HostAddrs = s\<rparr>,
         b\<lparr>b_hosts := c\<rparr>))"

definition decide ::
  "world \<Rightarrow> string \<Rightarrow> AddrPort \<Rightarrow> AddrPort \<Rightarrow> u64 \<Rightarrow> Broker \<Rightarrow> Decision \<times> Broker" where
  "decide w proto src dst conn b =
     (case env w b of (e, b1) \<Rightarrow>
        let d = Decide (b_policy b1) e proto dst
        in (d, record_event (FlowEvent conn proto src dst d) b1))"

definition acquire :: "flowLimit \<Rightarrow> bool \<times> flowLimit" where
  "acquire l =
     (let l1 = l\<lparr>fl_n := fl_n l + 1\<rparr>
      in if fl_n l1 > fl_max l1 then (False, l1\<lparr>fl_n := fl_n l1 - 1\<rparr>) else (True, l1))"

definition release :: "flowLimit \<Rightarrow> flowLimit" where
  "release l = l\<lparr>fl_n := fl_n l - 1\<rparr>"

datatype effect =
    Dial string AddrPort
  | CloseHost
  | Complete bool
  | Relay string AddrPort
  | Unreachable

record flow_id =
  RemoteAddress :: bytes
  RemotePort :: u16
  LocalAddress :: bytes
  LocalPort :: u16

text \<open>\<open>Complete True\<close> is the RST, \<open>Relay\<close> the goroutine that splices and then releases.\<close>

definition handleTCP :: "world \<Rightarrow> flow_id \<Rightarrow> Broker \<Rightarrow> Broker \<times> effect list" where
  "handleTCP w r b0 =
     (let src = addrPort (RemoteAddress r) (RemotePort r);
          dst = addrPort (LocalAddress r) (LocalPort r);
          b1 = b0\<lparr>b_connSeq := b_connSeq b0 + 1\<rparr>;
          conn = b_connSeq b1;
          (d, b2) = decide w ProtoTCP src dst conn b1
      in if \<not> Allow d then (b2, [Complete True])
         else let (ok, l) = acquire (b_tcpFlows b2); b3 = b2\<lparr>b_tcpFlows := l\<rparr>
              in if \<not> ok then (record_event (FlowLimitEvent conn ProtoTCP dst) b3, [Complete True])
                 else if \<not> w_dial w dst then
                   (record_event (DialError ProtoTCP dst) (b3\<lparr>b_tcpFlows := release l\<rparr>),
                    [Dial ProtoTCP dst, Complete True])
                 else if \<not> w_endpoint w then
                   (b3\<lparr>b_tcpFlows := release l\<rparr>, [Dial ProtoTCP dst, CloseHost, Complete True])
                 else (b3, [Dial ProtoTCP dst, Complete False, Relay ProtoTCP dst]))"

text \<open>\<open>Unreachable\<close> is the result false, which makes the stack answer port unreachable.\<close>

definition handleUDP :: "world \<Rightarrow> flow_id \<Rightarrow> Broker \<Rightarrow> Broker \<times> effect list" where
  "handleUDP w r b0 =
     (let src = addrPort (RemoteAddress r) (RemotePort r);
          dst = addrPort (LocalAddress r) (LocalPort r);
          b1 = b0\<lparr>b_connSeq := b_connSeq b0 + 1\<rparr>;
          conn = b_connSeq b1;
          (d, b2) = decide w ProtoUDP src dst conn b1
      in if \<not> Allow d then (b2, [Unreachable])
         else let (ok, l) = acquire (b_udpFlows b2); b3 = b2\<lparr>b_udpFlows := l\<rparr>
              in if \<not> ok then (record_event (FlowLimitEvent conn ProtoUDP dst) b3, [Unreachable])
                 else if \<not> w_dial w dst then
                   (record_event (DialError ProtoUDP dst) (b3\<lparr>b_udpFlows := release l\<rparr>),
                    [Dial ProtoUDP dst, Unreachable])
                 else if \<not> w_endpoint w then
                   (b3\<lparr>b_udpFlows := release l\<rparr>, [Dial ProtoUDP dst, CloseHost])
                 else (b3, [Dial ProtoUDP dst, Relay ProtoUDP dst]))"

section \<open>The NIC\<close>

text \<open>
  QEMU stream framing: a 4-byte big-endian length, then the Ethernet frame. \<open>nic_write\<close> is one
  write of the outbound goroutine, \<open>nic_read\<close> one round of the inbound loop (None when the loop
  breaks).
\<close>

definition nic_write :: "bytes \<Rightarrow> bytes" where
  "nic_write frame = be32 (word_of_nat (length frame)) @ frame"

datatype nic_error = NicStream read_error | NicLength

definition nic_read :: "bytes \<Rightarrow> (nic_error, bytes \<times> bytes) result" where
  "nic_read s =
     rbind (rwrap NicStream (ReadFull 4 s)) (\<lambda>(hdr, s1).
     case get_be32 hdr of
       None \<Rightarrow> Inl NicLength
     | Some n \<Rightarrow>
         if n = 0 \<or> unat n > nicMaxFrame then Inl NicLength
         else rwrap NicStream (ReadFull (unat n) s1))"

text \<open>
  The critical section at the start of \<open>serveNIC\<close> with what follows it up to the relay, and the
  end of the function: the deferred reset of \<open>active\<close> after the last log line. \<open>serveNIC\<close> is one
  connection alone: the frames injected into the stack, in order.
\<close>

definition serveNIC_begin :: "Broker \<Rightarrow> bool \<times> Broker" where
  "serveNIC_begin b =
     (if b_active b then (False, record_event (NicEvent ''rejected-second-connection'') b)
      else (True, record_event (StatusLine ''nic connected'')
             (record_event (NicEvent ''connected'') (b\<lparr>b_active := True\<rparr>))))"

definition serveNIC_end :: "Broker \<Rightarrow> Broker" where
  "serveNIC_end b =
     (record_event (StatusLine ''nic disconnected'') (record_event (NicEvent ''disconnected'') b))
       \<lparr>b_active := False\<rparr>"

definition serveNIC :: "bytes \<Rightarrow> Broker \<Rightarrow> Broker \<times> bytes list" where
  "serveNIC s b =
     (case serveNIC_begin b of (ok, b1) \<Rightarrow>
        if \<not> ok then (b1, [])
        else (serveNIC_end b1, fst (read_frames nic_read (Suc (length s)) s)))"

definition nic_ok :: "bytes \<Rightarrow> bool" where
  "nic_ok frame \<longleftrightarrow> 0 < length frame \<and> length frame \<le> nicMaxFrame"

lemma nic_read_shape:
  "nic_read s = Inr (f, r) \<Longrightarrow> nic_ok f \<and> length s = 4 + length f + length r"
proof -
  assume "nic_read s = Inr (f, r)"
  then obtain hdr s1 n where "s = hdr @ s1" "length hdr = 4" "get_be32 hdr = Some n" "n \<noteq> 0"
      "unat n \<le> nicMaxFrame" "s1 = f @ r" "length f = unat n"
    by (auto simp: nic_read_def result_simps ReadFull_Inr split: option.split_asm if_split_asm)
  then show ?thesis by (auto simp: nic_ok_def unat_gt_0 simp flip: length_greater_0_conv)
qed

interpretation nic_frames: framing nic_write nic_read nic_ok "NicStream EOF"
proof unfold_locales
  fix f r :: bytes
  assume ok: "nic_ok f"
  have l: "unat (word_of_nat (length f) :: u32) = length f"
    using ok by (simp add: nic_ok_def nicMaxFrame_def unat_of_nat)
  then have "word_of_nat (length f) \<noteq> (0 :: u32)" using ok by (auto simp: nic_ok_def)
  with ok l show "nic_read (nic_write f @ r) = Inr (f, r)"
    by (simp add: nic_read_def nic_write_def nic_ok_def)
next
  fix s f r
  assume "nic_read s = Inr (f, r)"
  then show "length r < length s" by (auto dest: nic_read_shape)
next
  show "nic_read [] = Inl (NicStream EOF)" by (simp add: nic_read_def ReadFull_def)
qed

end
