(* ===== verification/Flows.thy ===== *)
theory Flows
  imports Broker PolicyProps
begin

text \<open>
  What the flow handlers guarantee. The contract both handlers satisfy is the locale
  \<open>flow_handler\<close>, interpreted on \<open>handleTCP\<close> and \<open>handleUDP\<close>; its lemmas are about any sequence
  of handled flows. The atomic steps of \<open>acquire\<close> and \<open>release\<close> in concurrent goroutines are the
  step relation \<open>limit_step\<close>.
\<close>

section \<open>The contract of a flow handler\<close>

definition flow_src :: "flow_id \<Rightarrow> AddrPort" where
  "flow_src r = addrPort (RemoteAddress r) (RemotePort r)"

definition flow_dst :: "flow_id \<Rightarrow> AddrPort" where
  "flow_dst r = addrPort (LocalAddress r) (LocalPort r)"

text \<open>The decision on flow \<open>r\<close> in state \<open>b\<close>.\<close>

definition verdict :: "world \<Rightarrow> string \<Rightarrow> flow_id \<Rightarrow> Broker \<Rightarrow> Decision" where
  "verdict w proto r b = Decide (b_policy b) (fst (env w b)) proto (flow_dst r)"

definition relays :: "effect list \<Rightarrow> nat" where
  "relays es = length (filter (\<lambda>e. case e of Relay _ _ \<Rightarrow> True | _ \<Rightarrow> False) es)"

definition dials :: "effect list \<Rightarrow> (string \<times> AddrPort) list" where
  "dials es = List.map_filter (\<lambda>e. case e of Dial q d \<Rightarrow> Some (q, d) | _ \<Rightarrow> None) es"

lemma relays_simps [simp]:
  "relays [] = 0"
  "relays (Dial q d # es) = relays es"
  "relays (CloseHost # es) = relays es"
  "relays (Complete c # es) = relays es"
  "relays (Relay q d # es) = Suc (relays es)"
  "relays (Unreachable # es) = relays es"
  "relays (es @ fs) = relays es + relays fs"
  by (simp_all add: relays_def)

lemma dials_simps [simp]:
  "dials [] = []"
  "dials (Dial q d # es) = (q, d) # dials es"
  "dials (CloseHost # es) = dials es"
  "dials (Complete c # es) = dials es"
  "dials (Relay q d # es) = dials es"
  "dials (Unreachable # es) = dials es"
  "dials (es @ fs) = dials es @ dials fs"
  by (simp_all add: dials_def List.map_filter_def)

text \<open>A sequence of flows, handled one after the other.\<close>

fun serve ::
  "(world \<Rightarrow> flow_id \<Rightarrow> Broker \<Rightarrow> Broker \<times> effect list) \<Rightarrow> (world \<times> flow_id) list \<Rightarrow> Broker \<Rightarrow>
     Broker \<times> effect list" where
  "serve h [] b = (b, [])"
| "serve h ((w, r) # fs) b =
     (case h w r b of (b1, es) \<Rightarrow> case serve h fs b1 of (b2, es') \<Rightarrow> (b2, es @ es'))"

locale flow_handler =
  fixes handle :: "world \<Rightarrow> flow_id \<Rightarrow> Broker \<Rightarrow> Broker \<times> effect list"
    and limit :: "Broker \<Rightarrow> flowLimit"
    and proto :: string
  assumes dial_allowed:
      "handle w r b = (b', es) \<Longrightarrow> x \<in> set (dials es) \<Longrightarrow>
         x = (proto, flow_dst r) \<and> Allow (verdict w proto r b)"
    and counted: "handle w r b = (b', es) \<Longrightarrow> fl_n (limit b') = fl_n (limit b) + int (relays es)"
    and capped: "handle w r b = (b', es) \<Longrightarrow> relays es > 0 \<Longrightarrow> fl_n (limit b') \<le> fl_max (limit b)"
    and keeps: "handle w r b = (b', es) \<Longrightarrow>
         fl_max (limit b') = fl_max (limit b) \<and> b_policy b' = b_policy b \<and> b_cfg b' = b_cfg b"
begin

lemma serve_keeps:
  "serve handle fs b = (b', es) \<Longrightarrow>
     fl_max (limit b') = fl_max (limit b) \<and> b_policy b' = b_policy b \<and> b_cfg b' = b_cfg b"
  by (induction fs arbitrary: b b' es) (auto split: prod.splits dest: keeps)

lemma serve_counted:
  "serve handle fs b = (b', es) \<Longrightarrow> fl_n (limit b') = fl_n (limit b) + int (relays es)"
  by (induction fs arbitrary: b b' es) (auto split: prod.splits simp: counted)

lemma serve_capped:
  "serve handle fs b = (b', es) \<Longrightarrow> fl_n (limit b) \<le> fl_max (limit b) \<Longrightarrow>
     fl_n (limit b') \<le> fl_max (limit b)"
proof (induction fs arbitrary: b b' es)
  case (Cons f fs)
  obtain w r where f: "f = (w, r)" by (cases f)
  obtain b1 es1 where 1: "handle w r b = (b1, es1)" by (cases "handle w r b")
  obtain es2 where 2: "serve handle fs b1 = (b', es2)"
    using Cons.prems(1) f 1 by (auto split: prod.splits)
  have "fl_n (limit b1) \<le> fl_max (limit b)"
    using capped [OF 1] counted [OF 1] Cons.prems(2) by (cases "relays es1 = 0") auto
  then show ?case using Cons.IH [OF 2] keeps [OF 1] by simp
qed simp

text \<open>Under a policy that allows nothing nothing is dialed.\<close>

lemma serve_denied:
  assumes "\<And>e q d. \<not> Allow (Decide (b_policy b) e q d)"
  shows "dials (snd (serve handle fs b)) = []"
  using assms
proof (induction fs arbitrary: b)
  case (Cons f fs)
  obtain w r where f: "f = (w, r)" by (cases f)
  obtain b1 es where h: "handle w r b = (b1, es)" by (cases "handle w r b")
  have "dials es = []"
    using dial_allowed [OF h] Cons.prems by (cases "dials es") (auto simp: verdict_def)
  moreover have "b_policy b1 = b_policy b" using keeps [OF h] by simp
  moreover from this have "dials (snd (serve handle fs b1)) = []" using Cons.IH [of b1] Cons.prems by simp
  ultimately show ?case using f h by (cases "serve handle fs b1") simp
qed simp

text \<open>A destination no policy allows is never dialed, in any sequence of flows.\<close>

lemma serve_never_dials:
  assumes "\<And>pol e. \<not> Allow (Decide pol e proto d)"
  shows "serve handle fs b = (b', es) \<Longrightarrow> (q, d) \<notin> set (dials es)"
proof (induction fs arbitrary: b b' es)
  case (Cons f fs)
  obtain w r where f: "f = (w, r)" by (cases f)
  obtain b1 es1 where 1: "handle w r b = (b1, es1)" by (cases "handle w r b")
  obtain es2 where 2: "serve handle fs b1 = (b', es2)" and es: "es = es1 @ es2"
    using Cons.prems(1) f 1 by (auto split: prod.splits)
  have "(q, d) \<notin> set (dials es1)"
    using dial_allowed [OF 1, of "(q, d)"] assms by (auto simp: verdict_def)
  with Cons.IH [OF 2] es show ?case by simp
qed simp

end

lemma env_frame:
  "b_policy (snd (env w b)) = b_policy b" "b_cfg (snd (env w b)) = b_cfg b"
  "b_tcpFlows (snd (env w b)) = b_tcpFlows b" "b_udpFlows (snd (env w b)) = b_udpFlows b"
  by (simp_all add: env_def split: prod.split)

lemma env_connSeq: "env w (b\<lparr>b_connSeq := n\<rparr>) = (fst (env w b), (snd (env w b))\<lparr>b_connSeq := n\<rparr>)"
  by (simp add: env_def split: prod.split)

lemma decide_verdict:
  "decide w proto (flow_src r) (flow_dst r) conn (b\<lparr>b_connSeq := n\<rparr>) =
     (verdict w proto r b,
      record_event (FlowEvent conn proto (flow_src r) (flow_dst r) (verdict w proto r b))
        ((snd (env w b))\<lparr>b_connSeq := n\<rparr>))"
  by (simp add: decide_def env_connSeq verdict_def Let_def env_frame)

lemma record_event_frame [simp]:
  "b_policy (record_event e b) = b_policy b" "b_cfg (record_event e b) = b_cfg b"
  "b_tcpFlows (record_event e b) = b_tcpFlows b" "b_udpFlows (record_event e b) = b_udpFlows b"
  by (simp_all add: record_event_def)

lemmas handler_defs = handleTCP_def handleUDP_def flow_src_def [symmetric] flow_dst_def [symmetric]
  Let_def decide_verdict acquire_def release_def env_frame

interpretation tcp: flow_handler handleTCP b_tcpFlows ProtoTCP
  by unfold_locales (auto simp: handler_defs split: if_split_asm)

interpretation udp: flow_handler handleUDP b_udpFlows ProtoUDP
  by unfold_locales (auto simp: handler_defs split: if_split_asm)

section \<open>Concurrent goroutines at a flow limit\<close>

text \<open>
  The program points of a goroutine at \<open>acquire\<close> and \<open>release\<close>: before \<open>n.Add(1)\<close>, after it with
  the value it returned, before the \<open>n.Add(-1)\<close> that gives the reservation back, holding the
  flow, and done (refused or released). Every step is one atomic operation or local.
\<close>

datatype gate_pc = Entered | Added int | Backing | Granted | Refused | Released

record gate =
  g_n :: int
  g_max :: int
  g_pcs :: "gate_pc list"

inductive limit_step :: "gate \<Rightarrow> gate \<Rightarrow> bool" where
  g_spawn: "limit_step g (g\<lparr>g_pcs := g_pcs g @ [Entered]\<rparr>)"
| g_add: "i < length (g_pcs g) \<Longrightarrow> g_pcs g ! i = Entered \<Longrightarrow>
    limit_step g (g\<lparr>g_n := g_n g + 1, g_pcs := (g_pcs g)[i := Added (g_n g + 1)]\<rparr>)"
| g_over: "i < length (g_pcs g) \<Longrightarrow> g_pcs g ! i = Added v \<Longrightarrow> v > g_max g \<Longrightarrow>
    limit_step g (g\<lparr>g_pcs := (g_pcs g)[i := Backing]\<rparr>)"
| g_back: "i < length (g_pcs g) \<Longrightarrow> g_pcs g ! i = Backing \<Longrightarrow>
    limit_step g (g\<lparr>g_n := g_n g - 1, g_pcs := (g_pcs g)[i := Refused]\<rparr>)"
| g_grant: "i < length (g_pcs g) \<Longrightarrow> g_pcs g ! i = Added v \<Longrightarrow> v \<le> g_max g \<Longrightarrow>
    limit_step g (g\<lparr>g_pcs := (g_pcs g)[i := Granted]\<rparr>)"
| g_rel: "i < length (g_pcs g) \<Longrightarrow> g_pcs g ! i = Granted \<Longrightarrow>
    limit_step g (g\<lparr>g_n := g_n g - 1, g_pcs := (g_pcs g)[i := Released]\<rparr>)"

definition gate_init :: "int \<Rightarrow> gate" where
  "gate_init m = \<lparr>g_n = 0, g_max = m, g_pcs = []\<rparr>"

text \<open>Goroutines whose reservation is in the counter, those that have or will get a flow, and those
  that hold one.\<close>

fun reserved :: "gate_pc \<Rightarrow> bool" where
  "reserved (Added _) = True" | "reserved Backing = True" | "reserved Granted = True"
| "reserved _ = False"

fun winner :: "int \<Rightarrow> gate_pc \<Rightarrow> bool" where
  "winner m (Added v) = (v \<le> m)" | "winner m Granted = True" | "winner m _ = False"

lemma winner_reserved: "winner m x \<Longrightarrow> reserved x"
  by (cases x) auto

definition gate_inv :: "gate \<Rightarrow> bool" where
  "gate_inv g \<longleftrightarrow> g_n g = int (countp reserved (g_pcs g)) \<and>
     int (countp (winner (g_max g)) (g_pcs g)) \<le> g_max g"

lemma gate_inv_step: "limit_step g g' \<Longrightarrow> gate_inv g \<Longrightarrow> gate_inv g' \<and> g_max g' = g_max g"
proof (induction rule: limit_step.induct)
  case (g_add i g)
  have "int (countp (winner (g_max g)) (g_pcs g)) \<le> g_n g"
    using g_add.prems countp_mono [of "winner (g_max g)" reserved "g_pcs g"] winner_reserved
    by (auto simp: gate_inv_def)
  with g_add countp_update [OF g_add(1), of reserved "Added (g_n g + 1)"]
    countp_update [OF g_add(1), of "winner (g_max g)" "Added (g_n g + 1)"]
  show ?case by (auto simp: gate_inv_def split: if_splits)
next
  case (g_over i g v)
  with g_over countp_update [OF g_over(1), of reserved Backing]
    countp_update [OF g_over(1), of "winner (g_max g)" Backing]
  show ?case by (simp add: gate_inv_def)
next
  case (g_back i g)
  with g_back countp_update [OF g_back(1), of reserved Refused]
    countp_update [OF g_back(1), of "winner (g_max g)" Refused]
  show ?case by (simp add: gate_inv_def)
next
  case (g_grant i g v)
  with g_grant countp_update [OF g_grant(1), of reserved Granted]
    countp_update [OF g_grant(1), of "winner (g_max g)" Granted]
  show ?case by (simp add: gate_inv_def)
next
  case (g_rel i g)
  with g_rel countp_update [OF g_rel(1), of reserved Released]
    countp_update [OF g_rel(1), of "winner (g_max g)" Released]
  show ?case by (simp add: gate_inv_def)
qed (simp add: gate_inv_def)

lemma gate_inv_reachable:
  "limit_step\<^sup>*\<^sup>* (gate_init m) g \<Longrightarrow> 0 \<le> m \<Longrightarrow> gate_inv g \<and> g_max g = m"
proof (induction rule: rtranclp_induct)
  case base
  then show ?case by (simp add: gate_init_def gate_inv_def countp_def)
next
  case (step g g')
  with gate_inv_step [OF step(2)] show ?case by simp
qed

section \<open>Properties\<close>

text \<open>C7. However the goroutines of the flow handlers interleave, at most \<open>max\<close> flows hold a
  reservation they were granted, the counter is exactly the number of reservations not yet
  given back (so it returns to zero when every goroutine is done, never leaking a slot), and a
  goroutine is turned away only while at least \<open>max\<close> others have a reservation.\<close>

theorem flow_limit_interleaved:
  assumes "limit_step\<^sup>*\<^sup>* (gate_init m) g" and "0 \<le> m"
  shows "int (countp (\<lambda>pc. pc = Granted) (g_pcs g)) \<le> m \<and>
     g_n g = int (countp reserved (g_pcs g)) \<and>
     (list_all (\<lambda>pc. pc \<in> {Entered, Refused, Released}) (g_pcs g) \<longrightarrow> g_n g = 0) \<and>
     (g_n g + 1 > m \<longrightarrow> int (countp reserved (g_pcs g)) \<ge> m)"
proof -
  from gate_inv_reachable [OF assms] have
    n: "g_n g = int (countp reserved (g_pcs g))" and w: "int (countp (winner m) (g_pcs g)) \<le> m"
    by (auto simp: gate_inv_def)
  have "countp (\<lambda>pc. pc = Granted) (g_pcs g) \<le> countp (winner m) (g_pcs g)"
    by (rule countp_mono) simp
  moreover have "countp reserved (g_pcs g) = 0"
    if "list_all (\<lambda>pc. pc \<in> {Entered, Refused, Released}) (g_pcs g)"
    using that by (auto simp: countp_def list_all_iff filter_empty_conv)
  ultimately show ?thesis using n w by auto
qed

theorem flow_limit_interleaved_witness:
  "int (countp (\<lambda>pc. pc = Granted) [Granted, Added 2]) \<le> 1 \<and>
   (2 :: int) = int (countp reserved [Granted, Added 2])"
proof -
  let ?g = "\<lparr>g_n = 2, g_max = 1, g_pcs = [Granted, Added 2]\<rparr>"
  have 1: "limit_step (gate_init 1) \<lparr>g_n = 0, g_max = 1, g_pcs = [Entered]\<rparr>"
    using limit_step.g_spawn [of "gate_init 1"] by (simp add: gate_init_def)
  have 2: "limit_step \<lparr>g_n = 0, g_max = 1, g_pcs = [Entered]\<rparr> \<lparr>g_n = 0, g_max = 1, g_pcs = [Entered, Entered]\<rparr>"
    using limit_step.g_spawn [of "\<lparr>g_n = 0, g_max = 1, g_pcs = [Entered]\<rparr>"] by simp
  have 3: "limit_step \<lparr>g_n = 0, g_max = 1, g_pcs = [Entered, Entered]\<rparr> \<lparr>g_n = 1, g_max = 1, g_pcs = [Added 1, Entered]\<rparr>"
    using limit_step.g_add [of 0 "\<lparr>g_n = 0, g_max = 1, g_pcs = [Entered, Entered]\<rparr>"] by simp
  have 4: "limit_step \<lparr>g_n = 1, g_max = 1, g_pcs = [Added 1, Entered]\<rparr> \<lparr>g_n = 2, g_max = 1, g_pcs = [Added 1, Added 2]\<rparr>"
    using limit_step.g_add [of 1 "\<lparr>g_n = 1, g_max = 1, g_pcs = [Added 1, Entered]\<rparr>"] by simp
  have 5: "limit_step \<lparr>g_n = 2, g_max = 1, g_pcs = [Added 1, Added 2]\<rparr> ?g"
    using limit_step.g_grant [of 0 "\<lparr>g_n = 2, g_max = 1, g_pcs = [Added 1, Added 2]\<rparr>" 1] by simp
  from 1 2 3 4 5 have r: "limit_step\<^sup>*\<^sup>* (gate_init 1) ?g"
    by (meson converse_rtranclp_into_rtranclp r_into_rtranclp)
  from flow_limit_interleaved [OF r] show ?thesis by simp
qed

text \<open>C5. The host socket of a guest flow is opened only after the policy in force allows the real
  destination, and only to that destination; a denied TCP flow is answered by a reset and a
  denied UDP flow by port unreachable, with no dial at all. Every flow that is dialed but not
  relayed gives its slot back, so the counter grows by exactly the relayed flows and no
  relayed flow exceeds the limit, and the first event logged is the decision.\<close>

theorem handlers_dial_after_allow:
  assumes "(h, limit, proto, refusal) \<in>
      {(handleTCP, b_tcpFlows, ProtoTCP, Complete True), (handleUDP, b_udpFlows, ProtoUDP, Unreachable)}"
    and "h w r b = (b', es)"
  shows "(\<forall>x \<in> set (dials es). x = (proto, flow_dst r) \<and> Allow (verdict w proto r b)) \<and>
     (\<not> Allow (verdict w proto r b) \<longrightarrow> es = [refusal]) \<and>
     fl_n (limit b') = fl_n (limit b) + int (relays es) \<and>
     (relays es > 0 \<longrightarrow> fl_n (limit b') \<le> fl_max (limit b)) \<and>
     (\<exists>rest. b_log b' = b_log b @ FlowEvent (b_connSeq b + 1) proto (flow_src r) (flow_dst r)
        (verdict w proto r b) # rest)"
proof -
  have log: "b_log (snd (env w b)) = b_log b" for w b by (simp add: env_def split: prod.split)
  have "(\<forall>x \<in> set (dials es). x = (proto, flow_dst r) \<and> Allow (verdict w proto r b)) \<and>
     fl_n (limit b') = fl_n (limit b) + int (relays es) \<and>
     (relays es > 0 \<longrightarrow> fl_n (limit b') \<le> fl_max (limit b))"
    using assms tcp.dial_allowed tcp.counted tcp.capped udp.dial_allowed udp.counted udp.capped by auto
  moreover have "(\<not> Allow (verdict w proto r b) \<longrightarrow> es = [refusal]) \<and>
     (\<exists>rest. b_log b' = b_log b @ FlowEvent (b_connSeq b + 1) proto (flow_src r) (flow_dst r)
        (verdict w proto r b) # rest)"
    using assms by (auto simp: handler_defs record_event_def log split: if_split_asm)
  ultimately show ?thesis by blast
qed

definition example_world :: world where
  "example_world = \<lparr>w_now = 0, w_interfaces = Some [], w_dial = (\<lambda>_. True), w_endpoint = True\<rparr>"

definition example_flow :: flow_id where
  "example_flow = \<lparr>RemoteAddress = [192, 168, 127, 2], RemotePort = 40000,
     LocalAddress = [8, 8, 8, 8], LocalPort = 443\<rparr>"

definition example_broker :: Broker where
  "example_broker =
     \<lparr>b_cfg = \<lparr>cfg_Subnet = pfx4 0xC0A87F00 24, cfg_Gateway = Addr4 0xC0A87F01,
        cfg_GuestIP = Addr4 0xC0A87F02, cfg_MTU = 1500, cfg_Forwards = [], cfg_Services = [],
        cfg_DNSFallback = []\<rparr>,
      b_policy = Some example_policy, b_hosts = \<lparr>ac_at = 0, ac_set = None\<rparr>, b_log = [],
      b_active = False, b_connSeq = 0, b_tcpFlows = \<lparr>fl_n = 0, fl_max = maxTCPFlows\<rparr>,
      b_udpFlows = \<lparr>fl_n = 0, fl_max = maxUDPFlows\<rparr>\<rparr>"

theorem handlers_dial_after_allow_witness:
  "dials (snd (handleTCP example_world example_flow example_broker)) =
     [(ProtoTCP, AddrPortFrom (Addr4 0x08080808) 443)] \<and>
   Allow (verdict example_world ProtoTCP example_flow example_broker) \<and>
   relays (snd (handleTCP example_world example_flow example_broker)) = 1"
proof -
  have m: "(handleTCP, b_tcpFlows, ProtoTCP, Complete True) \<in>
      {(handleTCP, b_tcpFlows, ProtoTCP, Complete True), (handleUDP, b_udpFlows, ProtoUDP, Unreachable)}"
    by simp
  have d: "dials (snd (handleTCP example_world example_flow example_broker)) =
      [(ProtoTCP, AddrPortFrom (Addr4 0x08080808) 443)]" by code_simp
  have c: "relays (snd (handleTCP example_world example_flow example_broker)) = 1" by code_simp
  from handlers_dial_after_allow [OF m, of example_world example_flow example_broker
      "fst (handleTCP example_world example_flow example_broker)"
      "snd (handleTCP example_world example_flow example_broker)"] d c
  show ?thesis by simp
qed

text \<open>C6. Whatever the guest sends and whatever policy is loaded, no sequence of TCP or UDP flows
  makes the broker dial a protected IPv4 destination (loopback, 0.0.0.0/8, multicast, class E,
  cloud metadata), not even through an IPv6 address that embeds it, and from an idle broker the
  flows relayed at once stay within the limits.\<close>

theorem broker_never_dials_protected:
  assumes "dest4 (ap_addr d) = Some a" and "never4 a"
  shows "(q, d) \<notin> set (dials (snd (serve handleTCP fs b))) \<and>
     (q, d) \<notin> set (dials (snd (serve handleUDP fs b))) \<and>
     (New stack cfg p = Inr b \<longrightarrow>
        int (relays (snd (serve handleTCP fs b))) \<le> 4096 \<and>
        int (relays (snd (serve handleUDP fs b))) \<le> 1024)"
proof -
  have no: "\<not> Allow (Decide pol e proto d)" for pol e proto
  proof
    assume "Allow (Decide pol e proto d)"
    moreover from Allow_policy [OF this] obtain p where "pol = Some p" by blast
    ultimately show False using Decide_dest4 [of p e proto d a] assms by (simp add: Decide4_Allow)
  qed
  obtain t te u ue where t: "serve handleTCP fs b = (t, te)" and u: "serve handleUDP fs b = (u, ue)"
    by (cases "serve handleTCP fs b"; cases "serve handleUDP fs b")
  have "int (relays te) \<le> 4096 \<and> int (relays ue) \<le> 1024" if "New stack cfg p = Inr b"
    using that tcp.serve_counted [OF t] tcp.serve_capped [OF t] udp.serve_counted [OF u]
      udp.serve_capped [OF u]
    by (auto simp: New_def Let_def maxTCPFlows_def maxUDPFlows_def split: if_split_asm option.split_asm)
  with tcp.serve_never_dials [OF no t] udp.serve_never_dials [OF no u] t u show ?thesis by simp
qed

theorem broker_never_dials_protected_witness:
  "(ProtoTCP, AddrPortFrom (Addr6 0xFFFFA9FEA9FE []) 80) \<notin>
     set (dials (snd (serve handleTCP [(example_world, example_flow)] example_broker)))"
proof -
  have a: "dest4 (ap_addr (AddrPortFrom (Addr6 0xFFFFA9FEA9FE []) 80)) = Some 0xA9FEA9FE" by code_simp
  have b: "never4 0xA9FEA9FE" by code_simp
  from broker_never_dials_protected [OF a b] show ?thesis by blast
qed

text \<open>
  VMM connections in their goroutines: accepted, served, closed. \<open>serveNIC_begin\<close> and
  \<open>serveNIC_end\<close> each run under \<open>connMu\<close>.
\<close>

datatype nic_pc = Accepted | Serving | Closed

inductive nic_step :: "Broker \<times> nic_pc list \<Rightarrow> Broker \<times> nic_pc list \<Rightarrow> bool" where
  nic_accept: "nic_step (b, cs) (b, cs @ [Accepted])"
| nic_begin: "i < length cs \<Longrightarrow> cs ! i = Accepted \<Longrightarrow> serveNIC_begin b = (ok, b') \<Longrightarrow>
    nic_step (b, cs) (b', cs[i := (if ok then Serving else Closed)])"
| nic_end: "i < length cs \<Longrightarrow> cs ! i = Serving \<Longrightarrow>
    nic_step (b, cs) (serveNIC_end b, cs[i := Closed])"

lemma nic_step_inv:
  "nic_step x y \<Longrightarrow> countp (\<lambda>c. c = Serving) (snd x) = (if b_active (fst x) then 1 else 0) \<Longrightarrow>
   countp (\<lambda>c. c = Serving) (snd y) = (if b_active (fst y) then 1 else 0)"
proof (induction rule: nic_step.induct)
  case (nic_begin i cs b ok b')
  with countp_update [OF nic_begin(1), of "\<lambda>c. c = Serving" "if ok then Serving else Closed"]
  show ?case by (auto simp: serveNIC_begin_def record_event_def split: if_split_asm)
next
  case (nic_end i cs b)
  with countp_update [OF nic_end(1), of "\<lambda>c. c = Serving" Closed]
  show ?case by (auto simp: serveNIC_end_def record_event_def split: if_split_asm)
qed simp

text \<open>NIC framing: the Ethernet frames the stack sends, each of 1 to 65535 bytes, come out of
  the VMM's end of the socket one by one and unchanged, in order; a frame the broker injects is
  never empty and never longer than the frame buffer, whatever bytes the VMM sends; and the
  inbound loop ends on every finite stream.\<close>

theorem nic_framing:
  "(list_all nic_ok fs \<longrightarrow>
      read_frames nic_read (Suc (length fs)) (concat (map nic_write fs)) = (fs, Some (NicStream EOF))) \<and>
   (nic_read s = Inr (f, r) \<longrightarrow> 0 < length f \<and> length f \<le> 65535) \<and>
   (\<exists>gs e. read_frames nic_read (Suc (length s)) s = (gs, Some e))"
proof (intro conjI impI)
  assume "list_all nic_ok fs"
  then show "read_frames nic_read (Suc (length fs)) (concat (map nic_write fs)) =
      (fs, Some (NicStream EOF))" by (rule nic_frames.read_frames_concat) simp
next
  show "\<exists>gs e. read_frames nic_read (Suc (length s)) s = (gs, Some e)"
    by (rule nic_frames.read_frames_terminates) simp
qed (auto dest!: nic_read_shape simp: nic_ok_def nicMaxFrame_def)

theorem nic_framing_witness:
  "read_frames nic_read 3 (nic_write [1, 2, 3] @ nic_write [4]) = ([[1, 2, 3], [4]], Some (NicStream EOF))"
proof -
  have "list_all nic_ok [[1, 2, 3], [4 :: u8]]" by code_simp
  with nic_framing [of "[[1, 2, 3], [4]]", THEN conjunct1] show ?thesis
    by (simp add: numeral_3_eq_3 del: read_frames.simps)
qed

text \<open>Only one guest NIC is served at a time: however VMM connections arrive, begin and end, the
  number served is one exactly while the broker is marked active and zero otherwise, and a
  connection that begins while another is served is rejected.\<close>

theorem single_nic:
  assumes "New stack cfg p = Inr b0" and "nic_step\<^sup>*\<^sup>* (b0, []) (b, cs)"
  shows "countp (\<lambda>c. c = Serving) cs = (if b_active b then 1 else 0) \<and>
     (Serving \<in> set cs \<longrightarrow> fst (serveNIC_begin b) = False)"
proof -
  have "nic_step\<^sup>*\<^sup>* x y \<Longrightarrow> countp (\<lambda>c. c = Serving) (snd x) = (if b_active (fst x) then 1 else 0) \<Longrightarrow>
      countp (\<lambda>c. c = Serving) (snd y) = (if b_active (fst y) then 1 else 0)" for x y
    by (induction rule: rtranclp_induct) (auto dest: nic_step_inv)
  moreover have "\<not> b_active b0"
    using assms(1) by (auto simp: New_def Let_def split: if_split_asm option.split_asm)
  ultimately have "countp (\<lambda>c. c = Serving) cs = (if b_active b then 1 else 0)"
    using assms(2) by (force simp: countp_def)
  then show ?thesis
    by (auto simp: serveNIC_begin_def countp_def filter_empty_conv split: if_split_asm)
qed

theorem single_nic_witness:
  "countp (\<lambda>c. c = Serving) [Serving] = (if b_active (snd (serveNIC_begin example_broker)) then 1 else 0)"
proof -
  have n: "New None (b_cfg example_broker) (Some example_policy) = Inr example_broker" by code_simp
  have "nic_step (example_broker, []) (example_broker, [Accepted])"
    using nic_step.nic_accept [of example_broker "[]"] by simp
  moreover have "nic_step (example_broker, [Accepted]) (snd (serveNIC_begin example_broker), [Serving])"
    using nic_step.nic_begin [of 0 "[Accepted]" example_broker True]
    by (simp add: serveNIC_begin_def example_broker_def)
  ultimately have "nic_step\<^sup>*\<^sup>* (example_broker, []) (snd (serveNIC_begin example_broker), [Serving])"
    by (meson converse_rtranclp_into_rtranclp r_into_rtranclp)
  from single_nic [OF n this] show ?thesis by blast
qed

end
