(* ===== verification/Dns.thy ===== *)
theory Dns
  imports Broker
begin

unbundle bit_operations_syntax

text \<open>
  The gateway services of the broker (\<open>internal/netbroker/services.go\<close>): DNS forwarding with
  blocked zones and DHCP. The message parser \<open>golang.org/x/net/dns/dnsmessage\<close> is the argument
  \<open>P\<close>, a record of its methods on a parser state; the network is the argument \<open>net\<close>, which gives
  the bytes an upstream sends back for the bytes written to it.
\<close>

section \<open>The message parser\<close>

datatype dns_section = Answers | Authorities | Additionals

text \<open>\<open>XXXHeader\<close>: an error, the end of the section, or the name and type of the next resource.\<close>

datatype 'p header = HeaderError | SectionDone | Header string nat 'p

record 'p dnsparser =
  dp_Start :: "bytes \<Rightarrow> 'p option"
  dp_AllQuestions :: "'p \<Rightarrow> (string list \<times> 'p) option"
  dp_Header :: "dns_section \<Rightarrow> 'p \<Rightarrow> 'p header"
  dp_Skip :: "dns_section \<Rightarrow> 'p \<Rightarrow> 'p option"
  dp_CNAME :: "'p \<Rightarrow> (string \<times> 'p) option"
  dp_Question :: "'p \<Rightarrow> string option"
  dp_SkipAllQuestions :: "'p \<Rightarrow> 'p"
  dp_A :: "'p \<Rightarrow> string option \<times> 'p"
  dp_AAAA :: "'p \<Rightarrow> string option \<times> 'p"
  dp_SkipAnswer :: "'p \<Rightarrow> 'p"

text \<open>
  The last four return the parser state they leave also when they fail, because \<open>logDNS\<close> goes on
  after a failure; an address resource is its text.
\<close>

definition TypeA :: nat where "TypeA = 1"
definition TypeCNAME :: nat where "TypeCNAME = 5"
definition TypeAAAA :: nat where "TypeAAAA = 28"

section \<open>Answers the broker makes itself\<close>

definition nxdomain :: "bytes \<Rightarrow> bytes option" where
  "nxdomain q =
     (if length q < 12 then None
      else let r = q[2 := q ! 2 OR 0x80] in Some (r[3 := (r ! 3 AND 0xf0) OR 0x03]))"

definition dnsError :: "bytes \<Rightarrow> u8 \<Rightarrow> bytes option" where
  "dnsError q rcode =
     (if length q < 12 then None
      else let r = q[2 := q ! 2 OR 0x80] in Some (r[3 := (r ! 3 AND 0xf0) OR rcode]))"

definition servfail :: "bytes \<Rightarrow> bytes option" where
  "servfail q = dnsError q 0x02"

section \<open>Inspection of messages\<close>

definition singleQuestion :: "'p dnsparser \<Rightarrow> bytes \<Rightarrow> string option" where
  "singleQuestion P q =
     (case dp_Start P q of
        None \<Rightarrow> None
      | Some p \<Rightarrow>
          (case dp_AllQuestions P p of
             None \<Rightarrow> None
           | Some (qs, _) \<Rightarrow> (case qs of [name] \<Rightarrow> Some name | _ \<Rightarrow> None)))"

text \<open>What a scan reports: a blocked name, a message that does not parse, or nothing blocked.\<close>

datatype 'a scan = Blocked string | Unparsable | Clean_to 'a

text \<open>
  The inner loop over one section. The number of resources of a section is at most 65535 (a
  16-bit count of the header), and so is \<open>fuel\<close>; a section that yields more is Unparsable.
\<close>

fun scan_section ::
  "'p dnsparser \<Rightarrow> (string \<Rightarrow> bool) \<Rightarrow> dns_section \<Rightarrow> nat \<Rightarrow> 'p \<Rightarrow> 'p scan" where
  "scan_section P bad sec 0 p = (case dp_Header P sec p of SectionDone \<Rightarrow> Clean_to p | _ \<Rightarrow> Unparsable)"
| "scan_section P bad sec (Suc fuel) p =
     (case dp_Header P sec p of
        SectionDone \<Rightarrow> Clean_to p
      | HeaderError \<Rightarrow> Unparsable
      | Header name type p1 \<Rightarrow>
          if bad name then Blocked name
          else if type \<noteq> TypeCNAME then
            (case dp_Skip P sec p1 of
               None \<Rightarrow> Unparsable
             | Some p2 \<Rightarrow> scan_section P bad sec fuel p2)
          else
            (case dp_CNAME P p1 of
               None \<Rightarrow> Unparsable
             | Some (target, p2) \<Rightarrow>
                 if bad target then Blocked target else scan_section P bad sec fuel p2))"

fun scan_sections ::
  "'p dnsparser \<Rightarrow> (string \<Rightarrow> bool) \<Rightarrow> dns_section list \<Rightarrow> 'p \<Rightarrow> 'p scan" where
  "scan_sections P bad [] p = Clean_to p"
| "scan_sections P bad (sec # secs) p =
     (case scan_section P bad sec 65535 p of
        Blocked n \<Rightarrow> Blocked n
      | Unparsable \<Rightarrow> Unparsable
      | Clean_to p1 \<Rightarrow> scan_sections P bad secs p1)"

definition blockedAnswer ::
  "'p dnsparser \<Rightarrow> (string \<Rightarrow> string) \<Rightarrow> Policy \<Rightarrow> bytes \<Rightarrow> unit scan" where
  "blockedAnswer P ul pol resp =
     (case dp_Start P resp of
        None \<Rightarrow> Unparsable
      | Some p \<Rightarrow>
          (case dp_AllQuestions P p of
             None \<Rightarrow> Unparsable
           | Some (qs, p1) \<Rightarrow>
               (case find (blocked ul (Some pol)) qs of
                  Some n \<Rightarrow> Blocked n
                | None \<Rightarrow>
                    (case scan_sections P (blocked ul (Some pol)) [Answers, Authorities, Additionals] p1 of
                       Blocked n \<Rightarrow> Blocked n
                     | Unparsable \<Rightarrow> Unparsable
                     | Clean_to _ \<Rightarrow> Clean_to ()))))"

section \<open>Forwarding\<close>

text \<open>DNS over TCP: a 2-byte big-endian length, then the message.\<close>

definition dns_write :: "bytes \<Rightarrow> bytes" where
  "dns_write m = be16 (word_of_nat (length m)) @ m"

definition dns_read :: "bytes \<Rightarrow> (read_error, bytes \<times> bytes) result" where
  "dns_read s =
     rbind (ReadFull 2 s) (\<lambda>(l, s1).
     case get_be16 l of None \<Rightarrow> Inl UnexpectedEOF | Some n \<Rightarrow> ReadFull (unat n) s1)"

definition upstreams :: "(AddrPort list) option \<Rightarrow> Broker \<Rightarrow> AddrPort list" where
  "upstreams hostDNS b =
     (case b_policy b of
        Some p \<Rightarrow> (if length (dnsUpstreams p) > 0 then dnsUpstreams p
                   else if length (cfg_DNSFallback (b_cfg b)) > 0 \<or> hostDNS = None
                   then cfg_DNSFallback (b_cfg b) else the hostDNS)
      | None \<Rightarrow> (if length (cfg_DNSFallback (b_cfg b)) > 0 \<or> hostDNS = None
                 then cfg_DNSFallback (b_cfg b) else the hostDNS))"

text \<open>
  \<open>net network up m\<close> is what arrives from \<open>up\<close> after \<open>m\<close> is written to it: None when dialing,
  writing or the first read fails, one datagram for UDP, the bytes of the stream for TCP.
\<close>

definition exchange ::
  "(string \<Rightarrow> AddrPort \<Rightarrow> bytes \<Rightarrow> bytes option) \<Rightarrow> string \<Rightarrow> AddrPort \<Rightarrow> bytes \<Rightarrow> bytes option" where
  "exchange net network up q =
     (if network = ''udp'' then map_option (take 65535) (net network up q)
      else (case net network up (dns_write q) of
              None \<Rightarrow> None
            | Some s \<Rightarrow> (case dns_read s of Inl _ \<Rightarrow> None | Inr (r, _) \<Rightarrow> Some r)))"

text \<open>The loop over the upstreams: the answer and the upstreams asked.\<close>

fun ask :: "(AddrPort \<Rightarrow> bytes option) \<Rightarrow> AddrPort list \<Rightarrow> bytes option \<times> AddrPort list" where
  "ask ex [] = (None, [])"
| "ask ex (up # ups) =
     (case ex up of
        Some r \<Rightarrow> (Some r, [up])
      | None \<Rightarrow> (case ask ex ups of (r, asked) \<Rightarrow> (r, up # asked)))"

text \<open>
  The loop of \<open>logDNS\<close> over the answers, which only an error of \<open>AnswerHeader\<close> (the end of the
  section included) leaves; None when \<open>fuel\<close> rounds are not enough.
\<close>

fun log_answers :: "'p dnsparser \<Rightarrow> nat \<Rightarrow> 'p \<Rightarrow> string list \<Rightarrow> string list option" where
  "log_answers P 0 p acc = None"
| "log_answers P (Suc fuel) p acc =
     (case dp_Header P Answers p of
        Header name type p1 \<Rightarrow>
          if type = TypeA then
            (case dp_A P p1 of (a, p2) \<Rightarrow>
               log_answers P fuel p2 (case a of None \<Rightarrow> acc | Some t \<Rightarrow> acc @ [t]))
          else if type = TypeAAAA then
            (case dp_AAAA P p1 of (a, p2) \<Rightarrow>
               log_answers P fuel p2 (case a of None \<Rightarrow> acc | Some t \<Rightarrow> acc @ [t]))
          else log_answers P fuel (dp_SkipAnswer P p1) acc
      | _ \<Rightarrow> Some acc)"

definition logDNS :: "'p dnsparser \<Rightarrow> nat \<Rightarrow> string \<Rightarrow> bytes \<Rightarrow> bytes option \<Rightarrow> event option" where
  "logDNS P fuel network q resp =
     (let name = (case dp_Start P q of None \<Rightarrow> None | Some p \<Rightarrow> dp_Question P p) in
      case resp of
        None \<Rightarrow> Some (DnsAnswers network name None)
      | Some r \<Rightarrow>
          (case dp_Start P r of
             None \<Rightarrow> Some (DnsAnswers network name (Some []))
           | Some p \<Rightarrow>
               map_option (\<lambda>as. DnsAnswers network name (Some as))
                 (log_answers P fuel (dp_SkipAllQuestions P p) [])))"

text \<open>\<open>resolve\<close>: the answer for the guest, the new state and the upstreams the query was sent to.
  None when it does not return within \<open>fuel\<close> rounds of \<open>logDNS\<close>.\<close>

definition forward_query ::
  "'p dnsparser \<Rightarrow> nat \<Rightarrow> (string \<Rightarrow> AddrPort \<Rightarrow> bytes \<Rightarrow> bytes option) \<Rightarrow> AddrPort list option \<Rightarrow>
     (bytes \<Rightarrow> unit scan) \<Rightarrow> string \<Rightarrow> bytes \<Rightarrow> Broker \<Rightarrow>
     (bytes option \<times> Broker \<times> AddrPort list) option" where
  "forward_query P fuel net hostDNS check network q b =
     (case ask (\<lambda>up. exchange net network up q) (upstreams hostDNS b) of (resp, asked) \<Rightarrow>
        case logDNS P fuel network q resp of
          None \<Rightarrow> None
        | Some ev \<Rightarrow>
            let b1 = record_event ev b in
            (case resp of
               None \<Rightarrow> Some (servfail q, b1, asked)
             | Some r \<Rightarrow>
                 (case check r of
                    Unparsable \<Rightarrow> Some (servfail q, b1, asked)
                  | Blocked name \<Rightarrow> Some (nxdomain q, record_event (DnsEvent network name) b1, asked)
                  | Clean_to _ \<Rightarrow> Some (Some r, b1, asked))))"

definition resolve ::
  "'p dnsparser \<Rightarrow> nat \<Rightarrow> (string \<Rightarrow> string) \<Rightarrow> (string \<Rightarrow> AddrPort \<Rightarrow> bytes \<Rightarrow> bytes option) \<Rightarrow>
     AddrPort list option \<Rightarrow> string \<Rightarrow> bytes \<Rightarrow> Broker \<Rightarrow>
     (bytes option \<times> Broker \<times> AddrPort list) option" where
  "resolve P fuel ul net hostDNS network q b =
     (case b_policy b of
        None \<Rightarrow> forward_query P fuel net hostDNS (\<lambda>_. Clean_to ()) network q b
      | Some p \<Rightarrow>
          if length (blockedZones p) > 0 then
            (case singleQuestion P q of
               None \<Rightarrow> Some (dnsError q 0x01, record_event (DnsQueryError network) b, [])
             | Some name \<Rightarrow>
                 if blocked ul (Some p) name
                 then Some (nxdomain q, record_event (DnsEvent network name) b, [])
                 else forward_query P fuel net hostDNS (blockedAnswer P ul p) network q b)
          else forward_query P fuel net hostDNS (\<lambda>_. Clean_to ()) network q b)"

text \<open>
  \<open>serveDNSTCP\<close>: the messages written back until the stream ends or a query gets no answer. Each
  round consumes the two bytes of the length, so the length of the stream is enough fuel.
\<close>

fun serveDNSTCP_loop ::
  "(bytes \<Rightarrow> 's \<Rightarrow> bytes option \<times> 's) \<Rightarrow> nat \<Rightarrow> bytes \<Rightarrow> 's \<Rightarrow> bytes list \<times> 's" where
  "serveDNSTCP_loop res 0 s st = ([], st)"
| "serveDNSTCP_loop res (Suc fuel) s st =
     (case dns_read s of
        Inl _ \<Rightarrow> ([], st)
      | Inr (q, s1) \<Rightarrow>
          (case res q st of
             (None, st1) \<Rightarrow> ([], st1)
           | (Some resp, st1) \<Rightarrow>
               (case serveDNSTCP_loop res fuel s1 st1 of (out, st2) \<Rightarrow> (dns_write resp # out, st2))))"

definition serveDNSTCP ::
  "(bytes \<Rightarrow> 's \<Rightarrow> bytes option \<times> 's) \<Rightarrow> bytes \<Rightarrow> 's \<Rightarrow> bytes list \<times> 's" where
  "serveDNSTCP res s st = serveDNSTCP_loop res (Suc (length s)) s st"

section \<open>DHCP\<close>

definition dhcpDiscover :: u8 where "dhcpDiscover = 1"
definition dhcpOffer :: u8 where "dhcpOffer = 2"
definition dhcpRequest :: u8 where "dhcpRequest = 3"
definition dhcpAck :: u8 where "dhcpAck = 5"

definition dhcpCookie :: bytes where "dhcpCookie = [0x63, 0x82, 0x53, 0x63]"

text \<open>The option loop: the last message type, None when an option runs past the packet.\<close>

function dhcp_options :: "bytes \<Rightarrow> u8 \<Rightarrow> u8 option" where
  "dhcp_options opts msgType =
     (case opts of
        [] \<Rightarrow> Some msgType
      | code # rest \<Rightarrow>
          if code = 255 then Some msgType
          else if code = 0 then dhcp_options rest msgType
          else if length opts < 2 \<or> length opts < 2 + unat (opts ! 1) then None
          else dhcp_options (drop (2 + unat (opts ! 1)) opts)
                 (if code = 53 \<and> opts ! 1 = 1 then opts ! 2 else msgType))"
  by pat_completeness auto
termination
  by (relation "measure (\<lambda>(opts, _). length opts)") auto

declare dhcp_options.simps [simp del]

text \<open>\<open>net.CIDRMask(bits, 32)\<close>\<close>

definition CIDRMask32 :: "nat \<Rightarrow> bytes" where
  "CIDRMask32 bits = be32 (push_bit (32 - bits) (mask bits))"

text \<open>
  The reply's fixed part, field by field at its offset in the 240 bytes, then the options padded
  to 300 bytes. \<open>As4\<close> panics on an address that is not IPv4 and the mask of an
  invalid prefix is nil; \<open>New\<close> excludes both.
\<close>

definition dhcp_packet :: "bytes \<Rightarrow> u32 \<Rightarrow> u32 \<Rightarrow> nat \<Rightarrow> u32 \<Rightarrow> u8 \<Rightarrow> bytes" where
  "dhcp_packet req gw guest bits mtu replyType =
     (let fixed = [2, 1, 6, 0] @ take 4 (drop 4 req) @ [0, 0] @ take 2 (drop 10 req) @
            replicate 4 0 @ be32 guest @ be32 gw @ replicate 4 0 @ take 16 (drop 28 req) @
            replicate 192 0 @ dhcpCookie;
          opts = [53, 1, replyType] @ [54, 4] @ be32 gw @ [51, 4, 0, 1, 0x51, 0x80] @
            [1, 4] @ CIDRMask32 bits @ [3, 4] @ be32 gw @ [6, 4] @ be32 gw @
            [26, 2] @ be16 (ucast mtu) @ [255];
          r = fixed @ opts
      in r @ replicate (300 - length r) 0)"

definition dhcpReply :: "bytes \<Rightarrow> Broker \<Rightarrow> bytes option \<times> Broker" where
  "dhcpReply req b =
     (if length req < 240 \<or> req ! 0 \<noteq> 1 \<or> take 4 (drop 236 req) \<noteq> dhcpCookie then (None, b)
      else case dhcp_options (drop 240 req) 0 of
             None \<Rightarrow> (None, b)
           | Some msgType \<Rightarrow>
               if msgType \<noteq> dhcpDiscover \<and> msgType \<noteq> dhcpRequest then (None, b)
               else let replyType = (if msgType = dhcpDiscover then dhcpOffer else dhcpAck) in
                 case (cfg_Gateway (b_cfg b), cfg_GuestIP (b_cfg b), pfx_bits (cfg_Subnet (b_cfg b))) of
                   (Addr4 gw, Addr4 guest, Some bits) \<Rightarrow>
                     (Some (dhcp_packet req gw guest bits (cfg_MTU (b_cfg b)) replyType),
                      record_event (DhcpEvent replyType (cfg_GuestIP (b_cfg b))) b)
                 | _ \<Rightarrow> (None, b))"

end
