(* ===== verification/Sntp.thy ===== *)
theory Sntp
  imports Bytes
begin

unbundle bit_operations_syntax

text \<open>
  The SNTP exchange that keeps the guest clock on host time (\<open>internal/sntp/sntp.go\<close>). A
  \<open>time.Time\<close> is its wall clock in nanoseconds since 1970; \<open>Sub\<close> saturates and the sum of two
  durations wraps at 64 bits, as in Go.
\<close>

section \<open>Timestamps\<close>

definition packetLen :: nat where "packetLen = 48"
definition ntpEpochOffset :: int where "ntpEpochOffset = 2208988800"

definition Unix_secs :: "int \<Rightarrow> int" where "Unix_secs t = t div 1000000000"
definition Nanosecond :: "int \<Rightarrow> int" where "Nanosecond t = t mod 1000000000"

definition putTime :: "int \<Rightarrow> bytes" where
  "putTime t =
     (let secs = word_of_int (Unix_secs t + ntpEpochOffset) :: u64;
          frac = word_of_int (Nanosecond t * 2 ^ 32 div 1000000000) :: u64
      in be32 (ucast secs) @ be32 (ucast frac))"

text \<open>\<open>getTime\<close> of an 8-byte slice; None is the panic on a shorter one.\<close>

definition getTime :: "bytes \<Rightarrow> int option" where
  "getTime b =
     (case (get_be32 (take 4 b), get_be32 (drop 4 b)) of
        (Some s, Some f) \<Rightarrow>
          let secs = uint s; frac = uint f;
              secs' = (if secs < 2 ^ 31 then secs + 2 ^ 32 else secs)
          in Some ((secs' - ntpEpochOffset) * 1000000000 + frac * 1000000000 div 2 ^ 32)
      | _ \<Rightarrow> None)"

section \<open>Server\<close>

definition refID :: bytes where "refID = [0x48, 0x4F, 0x53, 0x54]"

definition Reply :: "bytes \<Rightarrow> int \<Rightarrow> int \<Rightarrow> bytes option" where
  "Reply req received now =
     (if length req < packetLen \<or> req ! 0 AND 0x07 \<noteq> 3 then None
      else let vn0 = drop_bit 3 (req ! 0) AND 0x07; vn = (if vn0 = 0 then 4 else vn0)
           in Some ([push_bit 3 vn OR 4, 1, req ! 2, 0xec] @ replicate 8 0 @ refID @
                    putTime now @ take 8 (drop 40 req) @ putTime received @ putTime now))"

section \<open>Client\<close>

datatype sntp_error = ReadError | Unsynchronized

definition request :: "int \<Rightarrow> bytes" where
  "request t1 = (push_bit 3 4 OR 3) # replicate 39 0 @ putTime t1"

definition Sub :: "int \<Rightarrow> int \<Rightarrow> int" where
  "Sub a b = max (- (2 ^ 63)) (min (2 ^ 63 - 1) (a - b))"

definition add64 :: "int \<Rightarrow> int \<Rightarrow> int" where
  "add64 a b = sint (word_of_int (a + b) :: u64)"

text \<open>Go's integer division truncates toward zero.\<close>

definition quot2 :: "int \<Rightarrow> int" where
  "quot2 a = (if a < 0 then - ((- a) div 2) else a div 2)"

text \<open>
  \<open>reads\<close> are the datagrams that arrive before the deadline, with their arrival times: the loop
  skips those that are not a server's answer to this request and fails at the deadline.
\<close>

fun Offset_loop :: "int \<Rightarrow> (bytes \<times> int) list \<Rightarrow> (sntp_error, int) result" where
  "Offset_loop t1 [] = Inl ReadError"
| "Offset_loop t1 ((r, t4) # reads) =
     (if length r < packetLen \<or> r ! 0 AND 0x07 \<noteq> 4 \<or> take 8 (drop 24 r) \<noteq> putTime t1
      then Offset_loop t1 reads
      else if r ! 1 = 0 \<or> r ! 1 > 15 then Inl Unsynchronized
      else case (getTime (take 8 (drop 32 r)), getTime (take 8 (drop 40 r))) of
             (Some t2, Some t3) \<Rightarrow> Inr (quot2 (add64 (Sub t2 t1) (Sub t3 t4)))
           | _ \<Rightarrow> Inl ReadError)"

definition Offset :: "int \<Rightarrow> (bytes \<times> int) list \<Rightarrow> (sntp_error, int) result" where
  "Offset t1 reads = Offset_loop t1 reads"

section \<open>Round trips\<close>

text \<open>Times of the NTP timestamps 1968 to 2104 that \<open>getTime\<close> reads: eras 0 and 1 around 2036.\<close>

definition in_era :: "int \<Rightarrow> bool" where
  "in_era t \<longleftrightarrow> (2 ^ 31 - ntpEpochOffset) * 1000000000 \<le> t \<and>
     t < (2 ^ 31 + 2 ^ 32 - ntpEpochOffset) * 1000000000"

lemma length_putTime [simp]: "length (putTime t) = 8"
  by (simp add: putTime_def Let_def)

lemma frac_roundtrip:
  fixes n :: int
  assumes "0 \<le> n" and "n < 1000000000"
  shows "n - 1 \<le> (n * 2 ^ 32 div 1000000000) * 1000000000 div 2 ^ 32"
    and "(n * 2 ^ 32 div 1000000000) * 1000000000 div 2 ^ 32 \<le> n"
    and "0 \<le> n * 2 ^ 32 div 1000000000" and "n * 2 ^ 32 div 1000000000 < 2 ^ 32"
proof -
  let ?f = "n * 2 ^ 32 div 1000000000"
  have "?f * 1000000000 \<le> n * 2 ^ 32" "n * 2 ^ 32 < (?f + 1) * 1000000000"
    by (simp_all add: algebra_simps)
  then have "(n - 1) * 2 ^ 32 \<le> ?f * 1000000000" "?f * 1000000000 \<le> n * 2 ^ 32"
    by (simp_all add: algebra_simps)
  from zdiv_mono1 [OF this(1), of "2 ^ 32"] zdiv_mono1 [OF this(2), of "2 ^ 32"]
  show "n - 1 \<le> ?f * 1000000000 div 2 ^ 32" "?f * 1000000000 div 2 ^ 32 \<le> n" by simp_all
  show "0 \<le> ?f" using assms by simp
  show "?f < 2 ^ 32" using assms by simp
qed

lemma ucast_secs: "uint (ucast (word_of_int x :: u64) :: u32) = x mod 2 ^ 32"
  by (simp add: unsigned_ucast_eq unsigned_of_int take_bit_take_bit) (simp add: take_bit_eq_mod)

lemma era_secs:
  fixes x :: int
  assumes "2 ^ 31 \<le> x" and "x < 2 ^ 31 + 2 ^ 32"
  shows "(if x mod 2 ^ 32 < 2 ^ 31 then x mod 2 ^ 32 + 2 ^ 32 else x mod 2 ^ 32) = x"
proof (cases "x < 2 ^ 32")
  case True
  then have "x mod 2 ^ 32 = x" using assms(1) by simp
  with assms show ?thesis by simp
next
  case False
  have "x mod 2 ^ 32 = (x - 2 ^ 32) mod 2 ^ 32" by (simp only: minus_mod_self2)
  also have "\<dots> = x - 2 ^ 32" using False assms(2) by (intro mod_pos_pos_trivial) simp_all
  finally show ?thesis using assms by simp
qed

lemma getTime_be:
  "getTime (be32 a @ be32 b) =
     Some (((if uint a < 2 ^ 31 then uint a + 2 ^ 32 else uint a) - ntpEpochOffset) * 1000000000 +
       uint b * 1000000000 div 2 ^ 32)"
  by (simp add: getTime_def Let_def)

lemma getTime_putTime:
  assumes "in_era t"
  shows "\<exists>t'. getTime (putTime t) = Some t' \<and> t' \<le> t \<and> t \<le> t' + 1"
proof -
  let ?s = "Unix_secs t + ntpEpochOffset" and ?n = "Nanosecond t"
  let ?f = "?n * 2 ^ 32 div 1000000000"
  have n: "0 \<le> ?n" "?n < 1000000000" by (simp_all add: Nanosecond_def)
  have t: "t = Unix_secs t * 1000000000 + ?n" by (simp add: Unix_secs_def Nanosecond_def)
  have s: "2 ^ 31 \<le> ?s" "?s < 2 ^ 31 + 2 ^ 32"
    using assms by (auto simp: in_era_def Unix_secs_def ntpEpochOffset_def)
  have f: "?f mod 2 ^ 32 = ?f" using frac_roundtrip(3,4) [OF n] by (rule mod_pos_pos_trivial)
  have secs: "(if ?s mod 2 ^ 32 < 2 ^ 31 then ?s mod 2 ^ 32 + 2 ^ 32 else ?s mod 2 ^ 32) = ?s"
    using era_secs [OF s] .
  have "getTime (putTime t) = Some (Unix_secs t * 1000000000 + ?f * 1000000000 div 2 ^ 32)"
    by (simp only: putTime_def Let_def getTime_be ucast_secs f secs add_diff_cancel_right')
  moreover have "Unix_secs t * 1000000000 + ?f * 1000000000 div 2 ^ 32 \<le> t"
      "t \<le> Unix_secs t * 1000000000 + ?f * 1000000000 div 2 ^ 32 + 1"
    using frac_roundtrip(1,2) [OF n] t by linarith+
  ultimately show ?thesis by blast
qed

text \<open>The reply's fields where the client reads them.\<close>

lemma Reply_request:
  "\<exists>r. Reply (request t1) t2 t3 = Some r \<and> length r = 48 \<and> r ! 0 AND 0x07 = 4 \<and> r ! 1 = 1 \<and>
     take 8 (drop 24 r) = putTime t1 \<and> take 8 (drop 32 r) = putTime t2 \<and> take 8 (drop 40 r) = putTime t3"
  by (simp add: Reply_def request_def packetLen_def refID_def)

lemma add64_small: "- (2 ^ 63) \<le> a + b \<Longrightarrow> a + b < 2 ^ 63 \<Longrightarrow> add64 a b = a + b"
  unfolding add64_def int_word_sint by (simp add: mod_pos_pos_trivial)

lemma Sub_small: "\<bar>a - b\<bar> < 2 ^ 62 \<Longrightarrow> Sub a b = a - b"
  by (simp add: Sub_def)

lemma quot2_bound: "\<bar>2 * quot2 x - x\<bar> \<le> 1"
  by (simp add: quot2_def) presburger

lemma Offset_skip:
  "\<forall>(r, t) \<in> set junk. length r < packetLen \<or> r ! 0 AND 0x07 \<noteq> 4 \<or> take 8 (drop 24 r) \<noteq> putTime t1 \<Longrightarrow>
   Offset_loop t1 (junk @ reads) = Offset_loop t1 reads"
  by (induction junk) auto

section \<open>Properties\<close>

text \<open>C21. The clock offset the guest computes is right: when the broker answers the guest's request,
  after any datagrams that are not its answer (late replies to earlier requests among them),
  the result is RFC 4330's ((T2 - T1) + (T3 - T4)) / 2 for the four times of the exchange, to
  within two nanoseconds, for all clock readings from 1968 to 2104, across the NTP era change
  of 2036 and without overflow however far the guest clock is off.\<close>

theorem sntp_offset:
  assumes "in_era t1" "in_era t2" "in_era t3" "in_era t4"
    and "Reply (request t1) t2 t3 = Some r"
    and "\<forall>(x, t) \<in> set junk. length x < packetLen \<or> x ! 0 AND 0x07 \<noteq> 4 \<or> take 8 (drop 24 x) \<noteq> putTime t1"
  shows "\<exists>d. Offset t1 (junk @ (r, t4) # later) = Inr d \<and>
     \<bar>2 * d - ((t2 - t1) + (t3 - t4))\<bar> \<le> 3"
proof -
  from Reply_request [of t1 t2 t3] assms(5) have
    r: "length r = 48" "r ! 0 AND 0x07 = 4" "r ! 1 = 1" "take 8 (drop 24 r) = putTime t1"
      "take 8 (drop 32 r) = putTime t2" "take 8 (drop 40 r) = putTime t3" by auto
  from getTime_putTime [OF assms(2)] getTime_putTime [OF assms(3)] obtain u2 u3 where
    u: "getTime (putTime t2) = Some u2" "u2 \<le> t2" "t2 \<le> u2 + 1"
       "getTime (putTime t3) = Some u3" "u3 \<le> t3" "t3 \<le> u3 + 1" by blast
  define x where "x = (u2 - t1) + (u3 - t4)"
  have b: "\<bar>u2 - t1\<bar> < 2 ^ 62" "\<bar>u3 - t4\<bar> < 2 ^ 62"
    using assms(1-4) u(2,3,5,6) unfolding in_era_def ntpEpochOffset_def by (simp_all add: abs_less_iff)
  then have "add64 (Sub u2 t1) (Sub u3 t4) = x"
    unfolding x_def by (simp add: Sub_small add64_small)
  then have "Offset t1 (junk @ (r, t4) # later) = Inr (quot2 x)"
    using r u Offset_skip [OF assms(6), of "(r, t4) # later"] by (simp add: Offset_def packetLen_def)
  moreover have "\<bar>2 * quot2 x - ((t2 - t1) + (t3 - t4))\<bar> \<le> 3"
    using quot2_bound [of x] u unfolding x_def by linarith
  ultimately show ?thesis by blast
qed

theorem sntp_offset_witness:
  "\<exists>r. Reply (request 0) 5000000000 5000000000 = Some r \<and>
     (\<exists>d. Offset 0 [([], 0), (r, 0)] = Inr d \<and> \<bar>2 * d - 10000000000\<bar> \<le> 3)"
proof -
  obtain r where r: "Reply (request 0) 5000000000 5000000000 = Some r" using Reply_request by blast
  have e: "in_era 0" "in_era 5000000000" by code_simp+
  have j: "\<forall>(x, t) \<in> set [([] :: bytes, 0 :: int)]. length x < packetLen \<or> x ! 0 AND 0x07 \<noteq> 4 \<or>
      take 8 (drop 24 x) \<noteq> putTime 0" by (simp add: packetLen_def)
  from sntp_offset [OF e(1) e(2) e(2) e(1) r j, of "[]"] r show ?thesis by auto
qed

end
