(* ===== verification/Runtime.thy ===== *)
theory Runtime
  imports Broker
begin

text \<open>
  The part of the broker's configuration that changes while the guest runs
  (\<open>internal/netbroker/runtime.go\<close>): published ports and gateway services, parsed from a JSON
  file (the decoder is an argument) and reconciled with what runs. Whether a listener starts is
  the argument \<open>starts\<close>; \<open>rs_open\<close> are the guest connections a service currently relays, each
  with the target it was routed to.
\<close>

section \<open>The file\<close>

record RuntimeForward =
  rf_Host :: string
  rf_GuestPort :: u16

record RuntimeService =
  rsv_GuestPort :: u16
  rsv_Path :: string
  rsv_TCP :: string

record Runtime =
  rt_Forwards :: "RuntimeForward list"
  rt_Services :: "RuntimeService list"

record serviceTarget =
  st_network :: string
  st_addr :: string

definition target :: "RuntimeService \<Rightarrow> serviceTarget" where
  "target s =
     (if rsv_TCP s \<noteq> [] then \<lparr>st_network = ''tcp'', st_addr = rsv_TCP s\<rparr>
      else \<lparr>st_network = ''unix'', st_addr = rsv_Path s\<rparr>)"

datatype runtime_error =
    RuntimeParse
  | BothTargets
  | BadTCPTarget string
  | RelativeSocket string
  | BadForward string u16
  | DuplicateHost string
  | BadServicePort u16
  | BadService u16 runtime_error
  | DuplicateService u16
  | ForwardStart RuntimeForward
  | ServiceStart u16

definition validateServiceTarget :: "string \<Rightarrow> string \<Rightarrow> (runtime_error, unit) result" where
  "validateServiceTarget path tcp =
     (if path \<noteq> [] \<and> tcp \<noteq> [] then Inl BothTargets
      else if tcp \<noteq> [] then
        (case ParseAddrPort tcp of
           None \<Rightarrow> Inl (BadTCPTarget tcp)
         | Some ap \<Rightarrow> rguard (\<not> IsLoopback (ap_addr ap) \<or> ap_port ap = 0) (BadTCPTarget tcp))
      else rguard (\<not> IsAbs path) (RelativeSocket path))"

text \<open>The two loops of \<open>ParseRuntime\<close>, with the maps of hosts and ports seen so far.\<close>

fun check_forwards :: "AddrPort list \<Rightarrow> RuntimeForward list \<Rightarrow> (runtime_error, unit) result" where
  "check_forwards hosts [] = Inr ()"
| "check_forwards hosts (f # fs) =
     (case ParseAddrPort (rf_Host f) of
        None \<Rightarrow> Inl (BadForward (rf_Host f) (rf_GuestPort f))
      | Some hp \<Rightarrow>
          if \<not> IsLoopback (ap_addr hp) \<or> ap_port hp = 0 \<or> rf_GuestPort f = 0
          then Inl (BadForward (rf_Host f) (rf_GuestPort f))
          else if hp \<in> set hosts then Inl (DuplicateHost (rf_Host f))
          else check_forwards (hp # hosts) fs)"

fun check_services :: "u16 list \<Rightarrow> RuntimeService list \<Rightarrow> (runtime_error, unit) result" where
  "check_services ports [] = Inr ()"
| "check_services ports (s # ss) =
     (if rsv_GuestPort s = 0 \<or> rsv_GuestPort s = 53 then Inl (BadServicePort (rsv_GuestPort s))
      else rbind (rwrap (BadService (rsv_GuestPort s)) (validateServiceTarget (rsv_Path s) (rsv_TCP s))) (\<lambda>_.
        if rsv_GuestPort s \<in> set ports then Inl (DuplicateService (rsv_GuestPort s))
        else check_services (rsv_GuestPort s # ports) ss))"

definition ParseRuntime ::
  "(bytes \<Rightarrow> Runtime option) \<Rightarrow> bytes \<Rightarrow> (runtime_error, Runtime) result" where
  "ParseRuntime decode data =
     (case decode data of
        None \<Rightarrow> Inl RuntimeParse
      | Some rt \<Rightarrow>
          rbind (check_forwards [] (rt_Forwards rt)) (\<lambda>_.
          rbind (check_services [] (rt_Services rt)) (\<lambda>_. Inr rt)))"

section \<open>Reconciliation\<close>

record runtimeState =
  rs_forwards :: "RuntimeForward list"
  rs_services :: "(u16 \<times> serviceTarget) list"
  rs_open :: "(u16 \<times> serviceTarget) list"

definition sortedForwards :: "RuntimeForward list \<Rightarrow> RuntimeForward list" where
  "sortedForwards m = sort_key rf_Host (sort_key rf_GuestPort (uniq m))"

text \<open>\<open>wantS\<close>: for a port given twice the last target counts.\<close>

definition wanted_services :: "RuntimeService list \<Rightarrow> (u16 \<times> serviceTarget) list" where
  "wanted_services ss = foldl (\<lambda>m s. AList.update (rsv_GuestPort s) (target s) m) [] ss"

text \<open>Stopping a service or routing it elsewhere closes the connections made along its route.\<close>

definition stop_removed :: "Runtime \<Rightarrow> runtimeState \<Rightarrow> runtimeState" where
  "stop_removed rt s =
     (let wantF = rt_Forwards rt; wantS = wanted_services (rt_Services rt);
          gone = (\<lambda>port. map_of wantS port = None)
      in s\<lparr>rs_forwards := filter (\<lambda>f. f \<in> set wantF) (rs_forwards s),
          rs_services := filter (\<lambda>(port, _). \<not> gone port) (rs_services s),
          rs_open := filter (\<lambda>(port, _). \<not> gone port) (rs_open s)\<rparr>)"

definition start_forward ::
  "(RuntimeForward \<Rightarrow> bool) \<Rightarrow> RuntimeForward \<Rightarrow> runtimeState \<times> runtime_error list \<Rightarrow>
     runtimeState \<times> runtime_error list" where
  "start_forward starts f x =
     (case x of (s, errs) \<Rightarrow>
        if f \<in> set (rs_forwards s) then (s, errs)
        else if \<not> starts f then (s, errs @ [ForwardStart f])
        else (s\<lparr>rs_forwards := rs_forwards s @ [f]\<rparr>, errs))"

definition retarget :: "u16 \<Rightarrow> serviceTarget \<Rightarrow> runtimeState \<Rightarrow> runtimeState" where
  "retarget port t s =
     s\<lparr>rs_services := AList.update port t (rs_services s),
       rs_open := filter (\<lambda>(p, _). p \<noteq> port) (rs_open s)\<rparr>"

definition start_service ::
  "(u16 \<Rightarrow> bool) \<Rightarrow> u16 \<times> serviceTarget \<Rightarrow> runtimeState \<times> runtime_error list \<Rightarrow>
     runtimeState \<times> runtime_error list" where
  "start_service starts pt x =
     (case (pt, x) of ((port, t), (s, errs)) \<Rightarrow>
        case map_of (rs_services s) port of
          Some cur \<Rightarrow> (if cur \<noteq> t then (retarget port t s, errs) else (s, errs))
        | None \<Rightarrow>
            if \<not> starts port then (s, errs @ [ServiceStart port])
            else (s\<lparr>rs_services := AList.update port t (rs_services s)\<rparr>, errs))"

definition ApplyRuntime ::
  "(RuntimeForward \<Rightarrow> bool) \<Rightarrow> (u16 \<Rightarrow> bool) \<Rightarrow> Runtime \<Rightarrow> runtimeState \<Rightarrow>
     runtimeState \<times> runtime_error list" where
  "ApplyRuntime startsF startsS rt s =
     fold (start_service startsS) (wanted_services (rt_Services rt))
       (fold (start_forward startsF) (sortedForwards (rt_Forwards rt)) (stop_removed rt s, []))"

text \<open>A guest connection to a service is relayed to the target of the route at accept time.\<close>

definition accept_service :: "u16 \<Rightarrow> runtimeState \<Rightarrow> runtimeState" where
  "accept_service port s =
     (case map_of (rs_services s) port of
        None \<Rightarrow> s
      | Some t \<Rightarrow> s\<lparr>rs_open := rs_open s @ [(port, t)]\<rparr>)"

section \<open>Facts\<close>

lemma set_sortedForwards [simp]: "set (sortedForwards m) = set m"
  by (simp add: sortedForwards_def)

lemma distinct_sortedForwards [simp]: "distinct (sortedForwards m)"
  by (simp add: sortedForwards_def)

lemma wanted_services_lookup:
  "map_of (wanted_services ss) port =
     map_option target (find (\<lambda>s. rsv_GuestPort s = port) (rev ss))"
proof (induction ss rule: rev_induct)
  case Nil
  then show ?case by (simp add: wanted_services_def)
next
  case (snoc s ss)
  then show ?case by (auto simp: wanted_services_def update_conv)
qed

lemma find_in_set: "find P xs = Some x \<Longrightarrow> x \<in> set xs \<and> P x"
  by (auto simp: find_Some_iff)

lemma distinct_wanted: "distinct (map fst (wanted_services ss))"
  by (induction ss rule: rev_induct) (simp_all add: wanted_services_def distinct_update)

text \<open>The forwards loop.\<close>

lemma fold_start_forward:
  assumes "distinct fs"
  shows "fold (start_forward ok) fs (s, errs) =
     (s\<lparr>rs_forwards := rs_forwards s @ filter (\<lambda>f. f \<notin> set (rs_forwards s) \<and> ok f) fs\<rparr>,
      errs @ map ForwardStart (filter (\<lambda>f. f \<notin> set (rs_forwards s) \<and> \<not> ok f) fs))"
  using assms
proof (induction fs arbitrary: s errs)
  case (Cons f fs)
  then have n: "f \<notin> set fs" by simp
  have c: "filter (\<lambda>g. g \<notin> set (rs_forwards s @ [f]) \<and> Q g) fs = filter (\<lambda>g. g \<notin> set (rs_forwards s) \<and> Q g) fs" for Q
    using n by (intro filter_cong) auto
  show ?case using Cons c by (auto simp: start_forward_def)
qed simp

text \<open>The services loop, by what it leaves at every port.\<close>

lemma start_service_lookup:
  "map_of (rs_services (fst (start_service ok (port, t) (s, errs)))) p =
     (if p = port \<and> (map_of (rs_services s) port \<noteq> None \<or> ok port) then Some t
      else map_of (rs_services s) p)"
  by (auto simp: start_service_def retarget_def update_conv split: option.split)

lemma start_service_forwards: "rs_forwards (fst (start_service ok pt x)) = rs_forwards (fst x)"
  by (auto simp: start_service_def retarget_def split: prod.split option.split)

definition routed :: "runtimeState \<Rightarrow> bool" where
  "routed s \<longleftrightarrow> (\<forall>(port, t) \<in> set (rs_open s). map_of (rs_services s) port = Some t)"

lemma start_service_routed: "routed (fst x) \<Longrightarrow> routed (fst (start_service ok pt x))"
  by (fastforce simp: routed_def start_service_def retarget_def update_conv
      split: prod.split option.split if_split_asm)

lemma accept_service_routed: "routed s \<Longrightarrow> routed (accept_service port s)"
  by (auto simp: routed_def accept_service_def split: option.split)

lemma map_of_filter_key:
  "map_of (filter (\<lambda>(k, _). P k) m) k = (if P k then map_of m k else None)"
  by (induction m) auto

lemma stop_removed_routed: "routed s \<Longrightarrow> routed (stop_removed rt s)"
  by (auto simp: routed_def stop_removed_def Let_def map_of_filter_key)

lemma fold_start_service:
  assumes "distinct (map fst m)"
  shows "map_of (rs_services (fst (fold (start_service ok) m x))) p =
      (case map_of m p of
         Some t \<Rightarrow> (if map_of (rs_services (fst x)) p \<noteq> None \<or> ok p then Some t else None)
       | None \<Rightarrow> map_of (rs_services (fst x)) p) \<and>
    snd (fold (start_service ok) m x) =
      snd x @ map ServiceStart (filter (\<lambda>p. map_of (rs_services (fst x)) p = None \<and> \<not> ok p) (map fst m))"
  using assms
proof (induction m arbitrary: x)
  case (Cons pt m)
  obtain port t s errs where [simp]: "pt = (port, t)" "x = (s, errs)" by (cases pt; cases x)
  let ?x = "start_service ok (port, t) (s, errs)"
  have n: "map_of m port = None" using Cons.prems by (simp add: map_of_eq_None_iff)
  have l: "map_of (rs_services (fst ?x)) q = (if q = port \<and> (map_of (rs_services s) port \<noteq> None \<or> ok port)
      then Some t else map_of (rs_services s) q)" for q by (rule start_service_lookup)
  have "filter (\<lambda>p. map_of (rs_services (fst ?x)) p = None \<and> \<not> ok p) (map fst m) =
      filter (\<lambda>p. map_of (rs_services s) p = None \<and> \<not> ok p) (map fst m)"
    using Cons.prems l by (intro filter_cong) auto
  moreover have "snd ?x = errs @ (if map_of (rs_services s) port = None \<and> \<not> ok port then [ServiceStart port] else [])"
    by (simp add: start_service_def split: option.split)
  moreover have "distinct (map fst m)" using Cons.prems by simp
  ultimately show ?case using Cons.IH [of ?x] n l by (simp split: option.split)
qed simp

lemma fold_service_frame:
  "rs_forwards (fst (fold (start_service ok) m x)) = rs_forwards (fst x)"
  by (induction m arbitrary: x) (simp_all add: start_service_forwards)

lemma fold_service_routed: "routed (fst x) \<Longrightarrow> routed (fst (fold (start_service ok) m x))"
  by (induction m arbitrary: x) (simp_all add: start_service_routed)

text \<open>What one reconciliation leaves.\<close>

lemma ApplyRuntime_spec:
  fixes rt s startsF startsS
  defines "wantS \<equiv> map_of (wanted_services (rt_Services rt))"
  assumes "ApplyRuntime startsF startsS rt s = (s', errs)"
  shows "set (rs_forwards s') = {f \<in> set (rt_Forwards rt). f \<in> set (rs_forwards s) \<or> startsF f}"
    and "map_of (rs_services s') p =
      (case wantS p of Some t \<Rightarrow> (if map_of (rs_services s) p \<noteq> None \<or> startsS p then Some t else None)
       | None \<Rightarrow> None)"
    and "set errs = ForwardStart ` {f \<in> set (rt_Forwards rt). f \<notin> set (rs_forwards s) \<and> \<not> startsF f} \<union>
       ServiceStart ` {p. wantS p \<noteq> None \<and> map_of (rs_services s) p = None \<and> \<not> startsS p}"
proof -
  let ?s1 = "stop_removed rt s"
  let ?x2 = "fold (start_forward startsF) (sortedForwards (rt_Forwards rt)) (?s1, [])"
  note f = fold_start_forward [OF distinct_sortedForwards, of startsF "rt_Forwards rt" ?s1 "[]"]
  have s1: "rs_forwards ?s1 = filter (\<lambda>f. f \<in> set (rt_Forwards rt)) (rs_forwards s)"
      "map_of (rs_services ?s1) q = (if wantS q = None then None else map_of (rs_services s) q)" for q
    unfolding wantS_def by (simp_all add: stop_removed_def Let_def map_of_filter_key)
  note v = fold_start_service [OF distinct_wanted [of "rt_Services rt"], of startsS ?x2]
  have x: "fold (start_service startsS) (wanted_services (rt_Services rt)) ?x2 = (s', errs)"
    using assms(2) by (simp add: ApplyRuntime_def)
  show "set (rs_forwards s') = {f \<in> set (rt_Forwards rt). f \<in> set (rs_forwards s) \<or> startsF f}"
    using fold_service_frame [of startsS "wanted_services (rt_Services rt)" ?x2] x f s1 by auto
  show "map_of (rs_services s') p =
      (case wantS p of Some t \<Rightarrow> (if map_of (rs_services s) p \<noteq> None \<or> startsS p then Some t else None)
       | None \<Rightarrow> None)"
    using v [of p] x f s1 unfolding wantS_def by (auto split: option.split)
  have keys: "q \<in> set (map fst (wanted_services (rt_Services rt))) \<longleftrightarrow> wantS q \<noteq> None" for q
    unfolding wantS_def by (simp add: map_of_eq_None_iff)
  show "set errs = ForwardStart ` {f \<in> set (rt_Forwards rt). f \<notin> set (rs_forwards s) \<and> \<not> startsF f} \<union>
       ServiceStart ` {p. wantS p \<noteq> None \<and> map_of (rs_services s) p = None \<and> \<not> startsS p}"
  proof -
    have "errs = map ForwardStart (filter (\<lambda>f. f \<notin> set (rs_forwards ?s1) \<and> \<not> startsF f) (sortedForwards (rt_Forwards rt))) @
        map ServiceStart (filter (\<lambda>p. map_of (rs_services ?s1) p = None \<and> \<not> startsS p)
          (map fst (wanted_services (rt_Services rt))))"
      using v x f by simp
    then show ?thesis using s1 keys by auto
  qed
qed

text \<open>What the two loops of \<open>ParseRuntime\<close> accept.\<close>

definition forward_ok :: "RuntimeForward \<Rightarrow> bool" where
  "forward_ok f \<longleftrightarrow>
     (case ParseAddrPort (rf_Host f) of
        None \<Rightarrow> False
      | Some hp \<Rightarrow> IsLoopback (ap_addr hp) \<and> ap_port hp \<noteq> 0 \<and> rf_GuestPort f \<noteq> 0)"

definition service_ok :: "RuntimeService \<Rightarrow> bool" where
  "service_ok s \<longleftrightarrow> rsv_GuestPort s \<noteq> 0 \<and> rsv_GuestPort s \<noteq> 53 \<and>
     (if rsv_TCP s = [] then IsAbs (rsv_Path s)
      else rsv_Path s = [] \<and>
        (case ParseAddrPort (rsv_TCP s) of
           None \<Rightarrow> False | Some ap \<Rightarrow> IsLoopback (ap_addr ap) \<and> ap_port ap \<noteq> 0))"

lemma check_forwards_iff:
  "check_forwards hosts fs = Inr u \<longleftrightarrow>
     list_all forward_ok fs \<and> distinct (map (\<lambda>f. ParseAddrPort (rf_Host f)) fs) \<and>
     Some ` set hosts \<inter> (\<lambda>f. ParseAddrPort (rf_Host f)) ` set fs = {}"
proof (induction fs arbitrary: hosts)
  case (Cons f fs)
  then show ?case by (cases "ParseAddrPort (rf_Host f)") (auto simp: forward_ok_def)
qed simp

lemma validateServiceTarget_iff:
  "validateServiceTarget path tcp = Inr u \<longleftrightarrow>
     (if tcp = [] then IsAbs path
      else path = [] \<and> (case ParseAddrPort tcp of
           None \<Rightarrow> False | Some ap \<Rightarrow> IsLoopback (ap_addr ap) \<and> ap_port ap \<noteq> 0))"
  by (auto simp: validateServiceTarget_def result_simps split: option.split)

lemma check_services_iff:
  "check_services ports ss = Inr u \<longleftrightarrow>
     list_all service_ok ss \<and> distinct (map rsv_GuestPort ss) \<and> set ports \<inter> rsv_GuestPort ` set ss = {}"
proof (induction ss arbitrary: ports)
  case (Cons s ss)
  then show ?case
    by (auto simp: result_simps validateServiceTarget_iff service_ok_def)
qed simp

section \<open>Properties\<close>

text \<open>A runtime file is accepted exactly when every forward has a loopback host address with a
  non-zero port and a non-zero guest port, no two forwards share a host address (compared as
  parsed, so two spellings of one address collide), every service port is other than 0 and 53
  and unique, and every service has exactly one target: an absolute socket path or a loopback
  TCP address with a non-zero port.\<close>

theorem ParseRuntime_accepts:
  "(\<exists>rt'. ParseRuntime decode data = Inr rt') \<longleftrightarrow>
     (\<exists>rt. decode data = Some rt \<and> list_all forward_ok (rt_Forwards rt) \<and>
        distinct (map (\<lambda>f. ParseAddrPort (rf_Host f)) (rt_Forwards rt)) \<and>
        list_all service_ok (rt_Services rt) \<and> distinct (map rsv_GuestPort (rt_Services rt)))"
  by (cases "decode data") (auto simp: ParseRuntime_def result_simps check_forwards_iff check_services_iff)

text \<open>A reload reconciles: afterwards exactly the wanted forwards and services run, except those
  whose listener failed to start, and exactly those are reported; every service that was
  running or started is routed to its wanted target.\<close>

theorem ApplyRuntime_reconciles:
  assumes "ParseRuntime decode data = Inr rt"
    and "ApplyRuntime startsF startsS rt s = (s', errs)"
  shows "set (rs_forwards s') = {f \<in> set (rt_Forwards rt). f \<in> set (rs_forwards s) \<or> startsF f} \<and>
     (\<forall>p t. map_of (rs_services s') p = Some t \<longleftrightarrow>
        (\<exists>sv \<in> set (rt_Services rt). rsv_GuestPort sv = p \<and> target sv = t) \<and>
        (map_of (rs_services s) p \<noteq> None \<or> startsS p)) \<and>
     set errs = ForwardStart ` {f \<in> set (rt_Forwards rt). f \<notin> set (rs_forwards s) \<and> \<not> startsF f} \<union>
       ServiceStart ` {p \<in> rsv_GuestPort ` set (rt_Services rt). map_of (rs_services s) p = None \<and> \<not> startsS p}"
proof -
  let ?w = "map_of (wanted_services (rt_Services rt))"
  from assms(1) have d: "distinct (map rsv_GuestPort (rt_Services rt))"
    by (auto simp: ParseRuntime_def result_simps check_services_iff split: option.split_asm)
  have u: "x = y" if "x \<in> set (rt_Services rt)" "y \<in> set (rt_Services rt)" "rsv_GuestPort x = rsv_GuestPort y" for x y
    using that d by (auto simp: distinct_map dest: inj_onD)
  have w: "?w p = Some t \<longleftrightarrow> (\<exists>sv \<in> set (rt_Services rt). rsv_GuestPort sv = p \<and> target sv = t)" for p t
  proof
    assume "?w p = Some t"
    then show "\<exists>sv \<in> set (rt_Services rt). rsv_GuestPort sv = p \<and> target sv = t"
      by (auto simp: wanted_services_lookup dest!: find_in_set)
  next
    assume "\<exists>sv \<in> set (rt_Services rt). rsv_GuestPort sv = p \<and> target sv = t"
    then obtain sv where sv: "sv \<in> set (rt_Services rt)" "rsv_GuestPort sv = p" "target sv = t" by blast
    then have "find (\<lambda>s. rsv_GuestPort s = p) (rev (rt_Services rt)) \<noteq> None"
      by (auto simp: find_None_iff)
    then obtain x where x: "find (\<lambda>s. rsv_GuestPort s = p) (rev (rt_Services rt)) = Some x" by blast
    then have "x \<in> set (rt_Services rt)" "rsv_GuestPort x = p"
      by (auto dest: find_in_set)
    with u sv have "x = sv" by blast
    with x sv show "?w p = Some t" by (simp add: wanted_services_lookup)
  qed
  have n: "?w p \<noteq> None \<longleftrightarrow> p \<in> rsv_GuestPort ` set (rt_Services rt)" for p
    using w [of p] by (cases "?w p") auto
  note spec = ApplyRuntime_spec [OF assms(2)]
  have "(\<forall>p t. map_of (rs_services s') p = Some t \<longleftrightarrow>
        (\<exists>sv \<in> set (rt_Services rt). rsv_GuestPort sv = p \<and> target sv = t) \<and>
        (map_of (rs_services s) p \<noteq> None \<or> startsS p))"
    unfolding w [symmetric] by (simp add: spec(2) split: option.split)
  with spec(1,3) n show ?thesis by simp
qed

definition example_runtime :: Runtime where
  "example_runtime =
     \<lparr>rt_Forwards = [\<lparr>rf_Host = ''127.0.0.1:8080'', rf_GuestPort = 80\<rparr>],
      rt_Services = [\<lparr>rsv_GuestPort = 2222, rsv_Path = ''/run/agent.sock'', rsv_TCP = []\<rparr>]\<rparr>"

definition empty_state :: runtimeState where
  "empty_state = \<lparr>rs_forwards = [], rs_services = [], rs_open = []\<rparr>"

lemma example_runtime_parses: "ParseRuntime (\<lambda>_. Some example_runtime) [] = Inr example_runtime"
  by code_simp

theorem ApplyRuntime_reconciles_witness:
  "map_of (rs_services (fst (ApplyRuntime (\<lambda>_. True) (\<lambda>_. True) example_runtime empty_state))) 2222 =
     Some \<lparr>st_network = ''unix'', st_addr = ''/run/agent.sock''\<rparr>"
proof -
  obtain s' errs where a: "ApplyRuntime (\<lambda>_. True) (\<lambda>_. True) example_runtime empty_state = (s', errs)"
    by (cases "ApplyRuntime (\<lambda>_. True) (\<lambda>_. True) example_runtime empty_state")
  from ApplyRuntime_reconciles [OF example_runtime_parses a] a show ?thesis
    by (simp add: example_runtime_def target_def)
qed

text \<open>Guest connections, reloads and connections that end, in any order.\<close>

inductive runtime_step :: "runtimeState \<Rightarrow> runtimeState \<Rightarrow> bool" where
  rs_accept: "runtime_step s (accept_service port s)"
| rs_apply: "runtime_step s (fst (ApplyRuntime startsF startsS rt s))"
| rs_close: "runtime_step s (s\<lparr>rs_open := filter P (rs_open s)\<rparr>)"

lemma ApplyRuntime_routed: "routed s \<Longrightarrow> routed (fst (ApplyRuntime startsF startsS rt s))"
proof -
  assume "routed s"
  then have "routed (fst (fold (start_forward startsF) (sortedForwards (rt_Forwards rt)) (stop_removed rt s, [])))"
    using stop_removed_routed [of s rt]
    by (simp add: fold_start_forward [OF distinct_sortedForwards]) (simp add: routed_def)
  then show ?thesis unfolding ApplyRuntime_def by (rule fold_service_routed)
qed

lemma runtime_step_routed: "runtime_step s s' \<Longrightarrow> routed s \<Longrightarrow> routed s'"
  by (induction rule: runtime_step.induct)
    (auto simp: ApplyRuntime_routed accept_service_routed, auto simp: routed_def)

text \<open>C17. A reload revokes: whatever connections the guest opens and whatever runtime files are
  applied, in any order, every open connection of a gateway service goes to the target the
  service has now; a connection to a removed service, or to the old target of a retargeted one,
  is closed by the reload that removes it.\<close>

theorem runtime_revokes:
  assumes "runtime_step\<^sup>*\<^sup>* empty_state s"
  shows "(\<forall>(port, t) \<in> set (rs_open s). map_of (rs_services s) port = Some t) \<and>
     (\<forall>(port, t) \<in> set (rs_open (fst (ApplyRuntime startsF startsS rt s))).
        map_of (wanted_services (rt_Services rt)) port = Some t)"
proof -
  have r: "routed s" using assms
    by (induction rule: rtranclp_induct) (auto simp: runtime_step_routed, simp add: routed_def empty_state_def)
  have "routed (fst (ApplyRuntime startsF startsS rt s))" by (rule ApplyRuntime_routed [OF r])
  moreover obtain s' errs where a: "ApplyRuntime startsF startsS rt s = (s', errs)"
    by (cases "ApplyRuntime startsF startsS rt s")
  ultimately show ?thesis using r ApplyRuntime_spec(2) [OF a]
    by (fastforce simp: routed_def split: option.splits if_split_asm)
qed

theorem runtime_revokes_witness:
  "map_of (rs_services (accept_service 2222
      (fst (ApplyRuntime (\<lambda>_. True) (\<lambda>_. True) example_runtime empty_state)))) 2222 =
     Some \<lparr>st_network = ''unix'', st_addr = ''/run/agent.sock''\<rparr>"
proof -
  let ?s = "accept_service 2222 (fst (ApplyRuntime (\<lambda>_. True) (\<lambda>_. True) example_runtime empty_state))"
  have "runtime_step\<^sup>*\<^sup>* empty_state ?s"
    by (meson converse_rtranclp_into_rtranclp r_into_rtranclp rs_apply rs_accept)
  moreover have "(2222, \<lparr>st_network = ''unix'', st_addr = ''/run/agent.sock''\<rparr>) \<in> set (rs_open ?s)"
    by code_simp
  ultimately show ?thesis using runtime_revokes by blast
qed

end
