(* ===== verification/Cli.thy ===== *)
theory Cli
  imports Runtime Flows
begin

text \<open>
  The broker's command line (\<open>internal/netbroker/cli.go\<close>): the validation that turns flags into
  a \<open>Config\<close>, the parsers of its repeatable flags, the host resolvers, and the reload on SIGHUP.
  Flag parsing itself (package \<open>flag\<close>), files and the clock are outside: a file that is read is an
  argument, None when reading fails.
\<close>

section \<open>Parsers of the flags\<close>

datatype cli_error =
    ForwardSyntax string
  | ForwardNotLoopback string
  | ForwardGuestPort string
  | UnixForwardSyntax string
  | ServiceSyntax string
  | ServiceTarget string runtime_error
  | UpstreamSyntax string
  | MissingFlags
  | PolicyFailed
  | MTURange nat
  | SubnetSyntax | GatewaySyntax | GuestSyntax

definition no_addr :: AddrPort where
  "no_addr = AddrPortFrom AddrZero 0"

definition parseForward :: "string \<Rightarrow> (cli_error, Forward) result" where
  "parseForward s =
     (case Cut s ''='' of (host, guest, ok) \<Rightarrow>
        rbind (rguard (\<not> ok) (ForwardSyntax s)) (\<lambda>_.
        rbind (ropt (ForwardSyntax s) (ParseAddrPort host)) (\<lambda>hp.
        rbind (rguard (\<not> IsLoopback (ap_addr hp)) (ForwardNotLoopback s)) (\<lambda>_.
        rbind (ropt (ForwardGuestPort s) (ParseUint guest 16)) (\<lambda>gp.
        rbind (rguard (gp = 0) (ForwardGuestPort s)) (\<lambda>_.
        Inr \<lparr>fw_Host = hp, fw_UnixPath = [], fw_GuestPort = of_nat gp\<rparr>))))))"

definition parseUnixForward :: "string \<Rightarrow> (cli_error, Forward) result" where
  "parseUnixForward s =
     (case Cut s ''='' of (path, guest, ok) \<Rightarrow>
        rbind (rguard (\<not> ok \<or> path = []) (UnixForwardSyntax s)) (\<lambda>_.
        rbind (ropt (ForwardGuestPort s) (ParseUint guest 16)) (\<lambda>gp.
        rbind (rguard (gp = 0) (ForwardGuestPort s)) (\<lambda>_.
        Inr \<lparr>fw_Host = no_addr, fw_UnixPath = path, fw_GuestPort = of_nat gp\<rparr>))))"

definition parseService :: "string \<Rightarrow> (cli_error, Service) result" where
  "parseService s =
     (case Cut s ''='' of (port, tgt, ok) \<Rightarrow>
        rbind (ropt (ServiceSyntax s) (ParseUint port 16)) (\<lambda>n.
        rbind (rguard (\<not> ok \<or> n = 0 \<or> tgt = [] \<or> port = ''53'') (ServiceSyntax s)) (\<lambda>_.
        case CutPrefix tgt ''tcp:'' of
          Some addr \<Rightarrow>
            rbind (rwrap (ServiceTarget s) (validateServiceTarget [] addr)) (\<lambda>_.
            rbind (ropt (ServiceSyntax s) (ParseAddrPort addr)) (\<lambda>ap.
            Inr \<lparr>sv_GuestPort = of_nat n, sv_UnixPath = [], sv_TCP = ap\<rparr>))
        | None \<Rightarrow> Inr \<lparr>sv_GuestPort = of_nat n, sv_UnixPath = tgt, sv_TCP = no_addr\<rparr>)))"

definition parseUpstream :: "string \<Rightarrow> (cli_error, AddrPort) result" where
  "parseUpstream s =
     (case ParseAddrPort s of
        Some ap \<Rightarrow> Inr ap
      | None \<Rightarrow>
          (case ParseAddr s of
             None \<Rightarrow> Inl (UpstreamSyntax s)
           | Some a \<Rightarrow> Inr (AddrPortFrom a 53)))"

text \<open>\<open>data\<close> is the file, None when it cannot be read.\<close>

definition resolvConf :: "string option \<Rightarrow> string list" where
  "resolvConf data =
     (case data of
        None \<Rightarrow> []
      | Some d \<Rightarrow>
          List.map_filter
            (\<lambda>line. let f = Fields line in
               if length f \<ge> 2 \<and> f ! 0 = ''nameserver'' then Some (f ! 1) else None)
            (Split (CHR 0x0A) d))"

text \<open>\<open>cfg.HostDNS\<close>: the resolvers of the file that parse.\<close>

definition hostDNS :: "string option \<Rightarrow> AddrPort list" where
  "hostDNS data =
     List.map_filter (\<lambda>s. case parseUpstream s of Inr ap \<Rightarrow> Some ap | Inl _ \<Rightarrow> None) (resolvConf data)"

section \<open>Main\<close>

record Flags =
  fl_socket :: string
  fl_policy :: string
  fl_subnet :: string
  fl_gateway :: string
  fl_guest :: string
  fl_mtu :: nat
  fl_forwards :: "string list"
  fl_unixForwards :: "string list"
  fl_services :: "string list"
  fl_dnsFallback :: "string list"

text \<open>
  \<open>Main\<close> from the parsed flags to the configuration and the policy; \<open>policy\<close> is the result of
  \<open>loadPolicy\<close>. The host resolvers serve only when the result has no fallback.
\<close>

definition Main_config :: "(policy_error, Policy) result \<Rightarrow> Flags \<Rightarrow> (cli_error, Config \<times> Policy) result" where
  "Main_config policy fl =
     rbind (rguard (fl_socket fl = [] \<or> fl_policy fl = []) MissingFlags) (\<lambda>_.
     rbind (rwrap (\<lambda>_. PolicyFailed) policy) (\<lambda>pol.
     rbind (rguard (fl_mtu fl < 576 \<or> fl_mtu fl > MaxMTU) (MTURange (fl_mtu fl))) (\<lambda>_.
     rbind (ropt SubnetSyntax (ParsePrefix (fl_subnet fl))) (\<lambda>subnet.
     rbind (ropt GatewaySyntax (ParseAddr (fl_gateway fl))) (\<lambda>gw.
     rbind (ropt GuestSyntax (ParseAddr (fl_guest fl))) (\<lambda>guest.
     rbind (traverse parseForward (fl_forwards fl)) (\<lambda>fws.
     rbind (traverse parseUnixForward (fl_unixForwards fl)) (\<lambda>ufws.
     rbind (traverse parseService (fl_services fl)) (\<lambda>svcs.
     rbind (traverse parseUpstream (fl_dnsFallback fl)) (\<lambda>dns.
     Inr (\<lparr>cfg_Subnet = subnet, cfg_Gateway = gw, cfg_GuestIP = guest, cfg_MTU = of_nat (fl_mtu fl),
           cfg_Forwards = fws @ ufws, cfg_Services = svcs, cfg_DNSFallback = dns\<rparr>, pol)))))))))))"

text \<open>\<open>loadPolicy\<close> and \<open>loadRuntime\<close>; None is a file that cannot be read.\<close>

definition loadPolicy ::
  "(string \<Rightarrow> string) \<Rightarrow> (bytes \<Rightarrow> policyFile option) \<Rightarrow> bytes option \<Rightarrow> string \<Rightarrow>
     (policy_error, Policy) result" where
  "loadPolicy ul decode data path =
     (case data of None \<Rightarrow> Inl ParseError | Some d \<Rightarrow> ParsePolicy ul decode d path)"

definition loadRuntime ::
  "(bytes \<Rightarrow> Runtime option) \<Rightarrow> bytes option \<Rightarrow> (runtime_error, Runtime) result" where
  "loadRuntime decode data =
     (case data of None \<Rightarrow> Inl RuntimeParse | Some d \<Rightarrow> ParseRuntime decode d)"

text \<open>
  One reload: the policy, or \<open>DenyAll\<close> when it does not load, then the runtime file when there
  is one; a runtime file that does not load leaves the running entries as they are.
\<close>

definition reload ::
  "(policy_error, Policy) result \<Rightarrow> (runtime_error, Runtime) result option \<Rightarrow>
     (RuntimeForward \<Rightarrow> bool) \<Rightarrow> (u16 \<Rightarrow> bool) \<Rightarrow> Broker \<times> runtimeState \<Rightarrow> Broker \<times> runtimeState" where
  "reload policy runtime startsF startsS x =
     (case x of (b, rs) \<Rightarrow>
        let p = (case policy of Inr p \<Rightarrow> p | Inl _ \<Rightarrow> DenyAll ''invalid reload'');
            b1 = SetPolicy p b;
            (rs1, failed) =
              (case runtime of
                 None \<Rightarrow> (rs, [])
               | Some (Inl e) \<Rightarrow> (rs, [e])
               | Some (Inr rt) \<Rightarrow> ApplyRuntime startsF startsS rt rs)
        in (record_event (ReloadEvent (is_ok policy) (map (\<lambda>_. []) failed)) b1, rs1))"

section \<open>Facts\<close>

lemma port16:
  assumes "ParseUint s 16 = Some n" and "n \<noteq> 0"
  shows "word_of_nat n \<noteq> (0 :: u16)"
proof
  assume "word_of_nat n = (0 :: u16)"
  then have "unat (word_of_nat n :: u16) = 0" by simp
  moreover have "unat (word_of_nat n :: u16) = n"
    using ParseUint_bound [OF assms(1)] by (simp add: unat_of_nat)
  ultimately show False using assms(2) by simp
qed

lemma parseForward_ok:
  assumes "parseForward s = Inr f"
  shows "IsLoopback (ap_addr (fw_Host f)) \<and> fw_UnixPath f = [] \<and> fw_GuestPort f \<noteq> 0"
proof -
  obtain host guest ok where c: "Cut s ''='' = (host, guest, ok)" by (cases "Cut s ''=''")
  from assms obtain hp gp where "IsLoopback (ap_addr hp)" "ParseUint guest 16 = Some gp" "gp \<noteq> 0"
      "f = \<lparr>fw_Host = hp, fw_UnixPath = [], fw_GuestPort = of_nat gp\<rparr>"
    by (auto simp: parseForward_def c result_simps)
  then show ?thesis by (simp add: port16)
qed

lemma parseUnixForward_ok:
  assumes "parseUnixForward s = Inr f"
  shows "fw_UnixPath f \<noteq> [] \<and> fw_GuestPort f \<noteq> 0"
proof -
  obtain path guest ok where c: "Cut s ''='' = (path, guest, ok)" by (cases "Cut s ''=''")
  from assms obtain gp where "path \<noteq> []" "ParseUint guest 16 = Some gp" "gp \<noteq> 0"
      "f = \<lparr>fw_Host = no_addr, fw_UnixPath = path, fw_GuestPort = of_nat gp\<rparr>"
    by (auto simp: parseUnixForward_def c result_simps)
  then show ?thesis by (simp add: port16)
qed

lemma parseService_ok:
  assumes "parseService s = Inr v"
  shows "sv_GuestPort v \<noteq> 0 \<and>
     (sv_UnixPath v \<noteq> [] \<and> sv_TCP v = no_addr \<or>
      sv_UnixPath v = [] \<and> IsLoopback (ap_addr (sv_TCP v)) \<and> ap_port (sv_TCP v) \<noteq> 0)"
proof -
  obtain port tgt ok where c: "Cut s ''='' = (port, tgt, ok)" by (cases "Cut s ''=''")
  from assms obtain n where n: "ParseUint port 16 = Some n" "n \<noteq> 0" "tgt \<noteq> []"
    by (auto simp: parseService_def c result_simps)
  then have "word_of_nat n \<noteq> (0 :: u16)" by (simp add: port16)
  with assms n show ?thesis
    by (cases "CutPrefix tgt ''tcp:''")
      (auto simp: parseService_def c result_simps validateServiceTarget_iff IsAbs_Cons split: if_split_asm option.split_asm)
qed

lemma traverse_all: "traverse f xs = Inr ys \<Longrightarrow> (\<And>x y. f x = Inr y \<Longrightarrow> P y) \<Longrightarrow> list_all P ys"
  by (auto simp: list_all_iff dest: traverse_set)

section \<open>Properties\<close>

text \<open>C22. A broker that starts from its command line publishes guest ports only on loopback addresses
  or on named unix sockets, relays services only to a named unix socket or a loopback TCP
  address with a port, never for port 0, and has an MTU whose Ethernet frames fit the NIC
  framing.\<close>

theorem Main_config_wf:
  assumes "Main_config policy fl = Inr (cfg, pol)"
  shows "policy = Inr pol \<and>
     list_all (\<lambda>f. fw_GuestPort f \<noteq> 0 \<and> (if fw_UnixPath f = [] then IsLoopback (ap_addr (fw_Host f)) else True))
       (cfg_Forwards cfg) \<and>
     list_all (\<lambda>v. sv_GuestPort v \<noteq> 0 \<and>
        (sv_UnixPath v \<noteq> [] \<and> sv_TCP v = no_addr \<or>
         sv_UnixPath v = [] \<and> IsLoopback (ap_addr (sv_TCP v)) \<and> ap_port (sv_TCP v) \<noteq> 0)) (cfg_Services cfg) \<and>
     576 \<le> unat (cfg_MTU cfg) \<and> unat (cfg_MTU cfg) + 14 \<le> nicMaxFrame"
proof -
  from assms obtain fws ufws where p: "policy = Inr pol"
    and f: "traverse parseForward (fl_forwards fl) = Inr fws"
    and u: "traverse parseUnixForward (fl_unixForwards fl) = Inr ufws" "cfg_Forwards cfg = fws @ ufws"
    and v: "traverse parseService (fl_services fl) = Inr (cfg_Services cfg)"
    and m: "576 \<le> fl_mtu fl" "fl_mtu fl \<le> MaxMTU" "cfg_MTU cfg = of_nat (fl_mtu fl)"
    unfolding Main_config_def rbind_eq_Inr rwrap_eq_Inr rguard_eq_Inr ropt_eq_Inr by auto
  let ?F = "\<lambda>f. fw_GuestPort f \<noteq> 0 \<and> (if fw_UnixPath f = [] then IsLoopback (ap_addr (fw_Host f)) else True)"
  have "list_all ?F fws" by (rule traverse_all [OF f]) (simp add: parseForward_ok)
  moreover have "list_all ?F ufws" by (rule traverse_all [OF u(1)]) (auto dest: parseUnixForward_ok)
  moreover have "list_all (\<lambda>v. sv_GuestPort v \<noteq> 0 \<and>
        (sv_UnixPath v \<noteq> [] \<and> sv_TCP v = no_addr \<or>
         sv_UnixPath v = [] \<and> IsLoopback (ap_addr (sv_TCP v)) \<and> ap_port (sv_TCP v) \<noteq> 0)) (cfg_Services cfg)"
    by (rule traverse_all [OF v]) (rule parseService_ok)
  moreover have "unat (cfg_MTU cfg) = fl_mtu fl"
    using m by (simp add: MaxMTU_def nicMaxFrame_def unat_of_nat)
  ultimately show ?thesis using p u(2) m by (simp add: MaxMTU_def nicMaxFrame_def)
qed

definition example_flags :: Flags where
  "example_flags =
     \<lparr>fl_socket = ''/run/nic.sock'', fl_policy = ''/run/policy.json'', fl_subnet = ''192.168.127.0/24'',
      fl_gateway = ''192.168.127.1'', fl_guest = ''192.168.127.2'', fl_mtu = 1500,
      fl_forwards = [''127.0.0.1:8080=80''], fl_unixForwards = [''/run/p.sock=81''],
      fl_services = [''2222=tcp:127.0.0.1:22''], fl_dnsFallback = []\<rparr>"

theorem Main_config_wf_witness:
  "\<exists>cfg pol. Main_config (Inr example_policy) example_flags = Inr (cfg, pol) \<and> length (cfg_Forwards cfg) = 2 \<and>
     576 \<le> unat (cfg_MTU cfg)"
proof -
  have "(case Main_config (Inr example_policy) example_flags of
      Inl _ \<Rightarrow> False | Inr (cfg, pol) \<Rightarrow> length (cfg_Forwards cfg) = 2)" by code_simp
  then obtain cfg pol where c: "Main_config (Inr example_policy) example_flags = Inr (cfg, pol)"
      "length (cfg_Forwards cfg) = 2" by (auto split: sum.splits)
  from Main_config_wf [OF c(1)] c show ?thesis by blast
qed

text \<open>The check that keeps a service off the gateway's DNS port compares text, not the number: the
  flag \<open>-service 053=PATH\<close> is accepted and yields a service on port 53, which the runtime file
  refuses.\<close>

theorem parseService_accepts_dns_port:
  "parseService ''053=/run/agent.sock'' =
     Inr \<lparr>sv_GuestPort = 53, sv_UnixPath = ''/run/agent.sock'', sv_TCP = no_addr\<rparr> \<and>
   is_ok (parseService ''53=/run/agent.sock'') = False \<and>
   is_ok (check_services [] [\<lparr>rsv_GuestPort = 53, rsv_Path = ''/run/agent.sock'', rsv_TCP = []\<rparr>]) = False"
  by code_simp

text \<open>C9. A reload fails closed: after a reload whose policy file cannot be read or does not parse,
  every new flow is denied, whatever its protocol and destination, and no handler dials the
  host until a later reload succeeds; a reload that succeeds puts exactly the parsed policy in
  force. The broker's network configuration never changes.\<close>

theorem reload_fails_closed:
  "(policy = Inl e \<longrightarrow>
      Decide (b_policy (fst (reload policy runtime startsF startsS (b, rs)))) e1 proto dst = deny ''fail-closed'' \<and>
      dials (snd (serve handleTCP fs (fst (reload policy runtime startsF startsS (b, rs))))) = [] \<and>
      dials (snd (serve handleUDP fs (fst (reload policy runtime startsF startsS (b, rs))))) = []) \<and>
   (policy = Inr p \<longrightarrow> b_policy (fst (reload policy runtime startsF startsS (b, rs))) = Some p) \<and>
   b_cfg (fst (reload policy runtime startsF startsS (b, rs))) = b_cfg b"
proof -
  let ?b = "fst (reload policy runtime startsF startsS (b, rs))"
  have pol: "b_policy ?b = Some (case policy of Inr p \<Rightarrow> p | Inl _ \<Rightarrow> DenyAll ''invalid reload'')"
    and cfg: "b_cfg ?b = b_cfg b"
    by (simp_all add: reload_def Let_def SetPolicy_def split: prod.split)
  have closed: "Decide (b_policy ?b) e' proto' dst' = deny ''fail-closed''" if "policy = Inl e" for e' proto' dst'
    using pol that by (subst Decide.simps) (simp add: DenyAll_def Let_def)
  show ?thesis
    using pol cfg closed tcp.serve_denied [of ?b fs] udp.serve_denied [of ?b fs] by auto
qed

theorem reload_fails_closed_witness:
  "Decide (b_policy (fst (reload (Inl ParseError) None (\<lambda>_. True) (\<lambda>_. True) (example_broker, empty_state))))
     example_env ''tcp'' (AddrPortFrom (Addr4 0x08080808) 443) = deny ''fail-closed''"
  using reload_fails_closed [of "Inl ParseError" ParseError] by blast

end
