(* ===== verification/LogFile.thy ===== *)
theory LogFile
  imports Prelude
begin

text \<open>
  The broker's rotated event log (\<open>internal/netbroker/logfile.go\<close>). The files \<open>path\<close> and \<open>path.1\<close>
  are part of the state; the outcomes of the file operations of one call are its argument \<open>w\<close>,
  so that every error path of the code is a branch.
\<close>

section \<open>The log\<close>

definition maxLogSize :: nat where "maxLogSize = 16 * 2 ^ 20"

record logFile =
  lf_max :: nat
  lf_open :: bool
  lf_size :: nat
  lf_file :: "bytes option"
  lf_old :: "bytes option"

text \<open>
  \<open>lw_open\<close> and \<open>lw_stat\<close> are the outcomes of opening a log left closed, \<open>lw_open2\<close> and
  \<open>lw_stat2\<close> those of opening after the rotation; \<open>lw_write\<close> is None when the write succeeds and
  otherwise the number of bytes written before the error.
\<close>

record log_world =
  lw_open :: bool
  lw_stat :: bool
  lw_close :: bool
  lw_rename :: bool
  lw_open2 :: bool
  lw_stat2 :: bool
  lw_write :: "nat option"

datatype log_error = OpenError | StatError | CloseError | RenameError | WriteError nat

definition open_log :: "bool \<Rightarrow> bool \<Rightarrow> logFile \<Rightarrow> (log_error, unit) result \<times> logFile" where
  "open_log can_open can_stat l =
     (if \<not> can_open then (Inl OpenError, l)
      else let content = (case lf_file l of None \<Rightarrow> [] | Some c \<Rightarrow> c);
               l1 = l\<lparr>lf_file := Some content\<rparr>
           in if \<not> can_stat then (Inl StatError, l1)
              else (Inr (), l1\<lparr>lf_open := True, lf_size := length content\<rparr>))"

definition openLogFile :: "nat \<Rightarrow> log_world \<Rightarrow> bytes option \<Rightarrow> bytes option \<Rightarrow> (log_error, logFile) result" where
  "openLogFile maxSize w file old =
     (case open_log (lw_open w) (lw_stat w)
             \<lparr>lf_max = maxSize, lf_open = False, lf_size = 0, lf_file = file, lf_old = old\<rparr> of
        (Inl e, _) \<Rightarrow> Inl e
      | (Inr _, l) \<Rightarrow> Inr l)"

definition rotate_log :: "log_world \<Rightarrow> logFile \<Rightarrow> (log_error, unit) result \<times> logFile" where
  "rotate_log w l =
     (let l1 = l\<lparr>lf_open := False\<rparr>
      in if \<not> lw_close w then (Inl CloseError, l1)
         else if \<not> lw_rename w then (Inl RenameError, l1)
         else open_log (lw_open2 w) (lw_stat2 w) (l1\<lparr>lf_old := lf_file l1, lf_file := None\<rparr>))"

text \<open>\<open>Write\<close> in its three parts: reopen a closed log, rotate, append.\<close>

definition reopen :: "log_world \<Rightarrow> logFile \<Rightarrow> (log_error, unit) result \<times> logFile" where
  "reopen w l = (if lf_open l then (Inr (), l) else open_log (lw_open w) (lw_stat w) l)"

definition make_room :: "log_world \<Rightarrow> bytes \<Rightarrow> logFile \<Rightarrow> (log_error, unit) result \<times> logFile" where
  "make_room w p l =
     (if lf_size l > 0 \<and> lf_size l + length p > lf_max l then rotate_log w l else (Inr (), l))"

definition append_log :: "log_world \<Rightarrow> bytes \<Rightarrow> logFile \<Rightarrow> (log_error, nat) result \<times> logFile" where
  "append_log w p l =
     (let n = (case lw_write w of None \<Rightarrow> length p | Some k \<Rightarrow> min k (length p));
          l' = l\<lparr>lf_file := map_option (\<lambda>c. c @ take n p) (lf_file l), lf_size := lf_size l + n\<rparr>
      in (if lw_write w = None then Inr n else Inl (WriteError n), l'))"

definition Write :: "log_world \<Rightarrow> bytes \<Rightarrow> logFile \<Rightarrow> (log_error, nat) result \<times> logFile" where
  "Write w p l =
     (case reopen w l of
        (Inl e, l1) \<Rightarrow> (Inl e, l1)
      | (Inr _, l1) \<Rightarrow>
          (case make_room w p l1 of
             (Inl e, l2) \<Rightarrow> (Inl e, l2)
           | (Inr _, l2) \<Rightarrow> append_log w p l2))"

definition Close :: "bool \<Rightarrow> logFile \<Rightarrow> (log_error, unit) result \<times> logFile" where
  "Close can_close l =
     (if \<not> lf_open l then (Inr (), l)
      else if \<not> can_close then (Inl CloseError, l\<lparr>lf_open := False\<rparr>)
      else (Inr (), l\<lparr>lf_open := False\<rparr>))"

section \<open>The invariant\<close>

definition file_len :: "bytes option \<Rightarrow> nat" where
  "file_len f = (case f of None \<Rightarrow> 0 | Some c \<Rightarrow> length c)"

text \<open>An open log knows the size of its file, and no generation exceeds \<open>bound\<close>.\<close>

definition log_inv :: "nat \<Rightarrow> logFile \<Rightarrow> bool" where
  "log_inv bound l \<longleftrightarrow>
     (lf_open l \<longrightarrow> lf_file l \<noteq> None \<and> lf_size l = file_len (lf_file l)) \<and>
     file_len (lf_file l) \<le> bound \<and> file_len (lf_old l) \<le> bound \<and> lf_max l \<le> bound"

lemma file_len_simps [simp]: "file_len None = 0" "file_len (Some c) = length c"
  by (simp_all add: file_len_def)

lemma open_log_inv:
  "open_log a b l = (res, l') \<Longrightarrow> log_inv n l \<Longrightarrow> \<not> lf_open l \<Longrightarrow>
     log_inv n l' \<and> (res = Inr () \<longrightarrow> lf_open l') \<and> lf_max l' = lf_max l \<and> lf_old l' = lf_old l \<and>
     file_len (lf_file l') = file_len (lf_file l) \<and>
     (lf_file l' = lf_file l \<or> lf_file l = None \<and> lf_file l' = Some [])"
  by (auto simp: open_log_def log_inv_def Let_def split: if_split_asm option.split_asm)

lemma rotate_log_inv:
  assumes "rotate_log w l = (res, l')" and "log_inv n l"
  shows "log_inv n l' \<and> lf_max l' = lf_max l \<and>
     (res = Inr () \<longrightarrow> lf_open l' \<and> lf_file l' = Some [] \<and> lf_old l' = lf_file l)"
proof -
  let ?l = "l\<lparr>lf_open := False, lf_old := lf_file l, lf_file := None\<rparr>"
  have "log_inv n ?l" "\<not> lf_open ?l" using assms(2) by (simp_all add: log_inv_def)
  note o = open_log_inv [OF _ this]
  show ?thesis
    using assms o [of "lw_open2 w" "lw_stat2 w" res l']
    by (auto simp: rotate_log_def Let_def log_inv_def split: if_split_asm)
qed

lemma reopen_inv:
  assumes "reopen w l = (res, l')" and "log_inv n l"
  shows "log_inv n l' \<and> lf_max l' = lf_max l \<and> (res = Inr () \<longrightarrow> lf_open l') \<and> lf_old l' = lf_old l \<and>
     (lf_file l' = lf_file l \<or> lf_file l = None \<and> lf_file l' = Some [])"
  using assms open_log_inv [of "lw_open w" "lw_stat w" l res l' n]
  by (cases "lf_open l") (auto simp: reopen_def)

lemma make_room_inv:
  assumes "make_room w p l = (res, l')" and "log_inv n l" and "lf_open l" and "length p \<le> n"
  shows "log_inv n l' \<and> lf_max l' = lf_max l \<and>
     (res = Inr () \<longrightarrow> lf_open l' \<and> file_len (lf_file l') + length p \<le> max (lf_max l) (length p) \<and>
        (lf_file l' = lf_file l \<and> lf_old l' = lf_old l \<or> lf_file l' = Some [] \<and> lf_old l' = lf_file l \<and> file_len (lf_file l) > 0))"
proof (cases "lf_size l > 0 \<and> lf_size l + length p > lf_max l")
  case True
  with assms rotate_log_inv [of w l res l' n] show ?thesis by (auto simp: make_room_def log_inv_def)
next
  case False
  with assms show ?thesis by (auto simp: make_room_def log_inv_def)
qed

lemma append_log_inv:
  assumes "append_log w p l = (res, l')" and "log_inv n l" and "lf_open l"
    and "file_len (lf_file l) + length p \<le> n"
  shows "log_inv n l' \<and> lf_max l' = lf_max l"
proof -
  obtain c where "lf_file l = Some c" using assms(2,3) by (auto simp: log_inv_def)
  then show ?thesis using assms
    by (cases "lw_write w") (auto simp: append_log_def Let_def log_inv_def)
qed

text \<open>One write keeps both generations within the bound, when the event itself is.\<close>

lemma Write_inv:
  assumes "Write w p l = (res, l')" and "log_inv n l" and "length p \<le> n"
  shows "log_inv n l' \<and> lf_max l' = lf_max l"
proof -
  obtain r1 l1 where 1: "reopen w l = (r1, l1)" by (cases "reopen w l")
  note i1 = reopen_inv [OF 1 assms(2)]
  obtain r2 l2 where 2: "make_room w p l1 = (r2, l2)" by (cases "make_room w p l1")
  show ?thesis
  proof (cases r1)
    case (Inl e)
    with 1 i1 assms(1) show ?thesis by (simp add: Write_def)
  next
    case (Inr u)
    with i1 have i2: "log_inv n l2 \<and> lf_max l2 = lf_max l1 \<and>
        (r2 = Inr () \<longrightarrow> lf_open l2 \<and> file_len (lf_file l2) + length p \<le> n)"
      using make_room_inv [OF 2, of n] assms(3) by (auto simp: log_inv_def)
    show ?thesis
    proof (cases r2)
      case (Inl e)
      with 1 2 \<open>r1 = Inr u\<close> i1 i2 assms(1) show ?thesis by (simp add: Write_def)
    next
      case (Inr v)
      with 1 2 \<open>r1 = Inr u\<close> assms(1) have "append_log w p l2 = (res, l')" by (simp add: Write_def)
      from append_log_inv [OF this, of n] Inr i1 i2 show ?thesis by simp
    qed
  qed
qed

text \<open>A write that succeeds: the event is the end of the current file, whole.\<close>

lemma Write_appends:
  assumes "Write w p l = (Inr k, l')" and "log_inv n l" and "length p \<le> n"
  shows "k = length p \<and> (\<exists>c. lf_file l' = Some (c @ p) \<and>
     ((lf_file l = Some c \<or> lf_file l = None \<and> c = []) \<and> lf_old l' = lf_old l \<or>
      c = [] \<and> lf_old l' = lf_file l))"
proof -
  obtain r1 l1 where 1: "reopen w l = (r1, l1)" by (cases "reopen w l")
  obtain r2 l2 where 2: "make_room w p l1 = (r2, l2)" by (cases "make_room w p l1")
  from assms(1) 1 2 have r: "r1 = Inr ()" "r2 = Inr ()" and a: "append_log w p l2 = (Inr k, l')"
    by (auto simp: Write_def split: sum.split_asm)
  note i1 = reopen_inv [OF 1 assms(2)]
  with r have "lf_open l1" "log_inv n l1" by simp_all
  note i2 = make_room_inv [OF 2 this(2,1) assms(3)]
  with r obtain c where c: "lf_file l2 = Some c" by (auto simp: log_inv_def)
  have "k = length p \<and> lf_file l' = Some (c @ p) \<and> lf_old l' = lf_old l2"
    using a c by (auto simp: append_log_def Let_def split: if_split_asm)
  with i1 i2 r c show ?thesis by auto
qed

section \<open>Properties\<close>

text \<open>A sequence of writes, each with its own outcomes.\<close>

fun write_all :: "(log_world \<times> bytes) list \<Rightarrow> logFile \<Rightarrow> logFile" where
  "write_all [] l = l"
| "write_all ((w, p) # ws) l = write_all ws (snd (Write w p l))"

lemma write_all_inv:
  "log_inv n l \<Longrightarrow> list_all (\<lambda>(w, p). length p \<le> n) ws \<Longrightarrow> log_inv n (write_all ws l)"
proof (induction ws arbitrary: l)
  case (Cons x ws)
  obtain w p where "x = (w, p)" by (cases x)
  with Cons Write_inv [of w p l "fst (Write w p l)" "snd (Write w p l)" n] show ?case by simp
qed simp

text \<open>The event log stays bounded: whatever file operations fail in between, after any sequence of
  writes of events no larger than the limit, each of the two generations on disk is at most
  the limit, so the log takes at most twice the limit; a write that reports success has
  appended its event whole at the end of the current file and kept every earlier event, in
  order, in the current file or, after a rotation, in the previous generation.\<close>

theorem log_bounded:
  assumes "openLogFile n w0 file old = Inr l" and "file_len file \<le> n" and "file_len old \<le> n"
    and "list_all (\<lambda>(w, p). length p \<le> n) ws" and "length p \<le> n"
  shows "file_len (lf_file (write_all ws l)) \<le> n \<and> file_len (lf_old (write_all ws l)) \<le> n \<and>
     (Write w p (write_all ws l) = (Inr k, l') \<longrightarrow>
        k = length p \<and>
        (\<exists>c. lf_file l' = Some (c @ p) \<and>
           ((lf_file (write_all ws l) = Some c \<or> lf_file (write_all ws l) = None \<and> c = []) \<and>
              lf_old l' = lf_old (write_all ws l) \<or>
            c = [] \<and> lf_old l' = lf_file (write_all ws l))))"
proof -
  have "log_inv n l"
    using assms(1-3) open_log_inv [of "lw_open w0" "lw_stat w0"
        "\<lparr>lf_max = n, lf_open = False, lf_size = 0, lf_file = file, lf_old = old\<rparr>" "Inr ()" l n]
    by (auto simp: openLogFile_def log_inv_def split: prod.split_asm sum.split_asm)
  then have i: "log_inv n (write_all ws l)" by (rule write_all_inv [OF _ assms(4)])
  then show ?thesis using Write_appends [OF _ i assms(5), of w k l'] by (auto simp: log_inv_def)
qed

definition good_world :: log_world where
  "good_world = \<lparr>lw_open = True, lw_stat = True, lw_close = True, lw_rename = True, lw_open2 = True,
     lw_stat2 = True, lw_write = None\<rparr>"

theorem log_bounded_witness:
  "file_len (lf_file (write_all [(good_world, [1, 2, 3]), (good_world, [4, 5])]
      \<lparr>lf_max = 4, lf_open = True, lf_size = 0, lf_file = Some [], lf_old = None\<rparr>)) \<le> 4"
proof -
  have o: "openLogFile 4 good_world None None =
      Inr \<lparr>lf_max = 4, lf_open = True, lf_size = 0, lf_file = Some [], lf_old = None\<rparr>" by code_simp
  from log_bounded [OF o, of "[(good_world, [1, 2, 3]), (good_world, [4, 5])]" "[]"] show ?thesis by simp
qed

end
