(* ===== verification/Agent.thy ===== *)
theory Agent
  imports GoStrings
begin

text \<open>
  The coding agent harnesses (\<open>internal/agent/agent.go\<close>): the built-in table, lookup by name or
  alias, and the command line of a session. The field \<open>Installs\<close>, a function that reads the
  agent's configuration files, is left out.
\<close>

section \<open>Harnesses\<close>

datatype TUIPlugin =
    NoTUIPlugin | OpenCode1TUI | OpenCode2TUI | OmOExtension | ClaudeStatusLine
  | CopilotStatusLine | AgyStatusLine

definition PluginDir :: string where "PluginDir = ''/etc/jailoc-tui-plugin''"

fun TUIPlugin_Env :: "TUIPlugin \<Rightarrow> string" where
  "TUIPlugin_Env OpenCode1TUI = ''OPENCODE_TUI_CONFIG''"
| "TUIPlugin_Env OpenCode2TUI = ''OPENCODE_CLI_CONFIG_CONTENT''"
| "TUIPlugin_Env _ = []"

fun TUIPlugin_Args :: "TUIPlugin \<Rightarrow> string list" where
  "TUIPlugin_Args OmOExtension = [''--extension'', PluginDir @ ''/omo.js'']"
| "TUIPlugin_Args ClaudeStatusLine = [''--settings'', PluginDir @ ''/claude-settings.json'']"
| "TUIPlugin_Args _ = []"

fun SettingsFile :: "TUIPlugin \<Rightarrow> (string \<times> string) option" where
  "SettingsFile CopilotStatusLine = Some (''settings.json'', ''copilot'')"
| "SettingsFile AgyStatusLine = Some (''antigravity-cli/settings.json'', ''agy'')"
| "SettingsFile _ = None"

record Release =
  rel_Repo :: string
  rel_Asset :: string
  rel_Binary :: string
  rel_Version :: string
  rel_SHA256 :: "(string \<times> string) list"

definition AssetName :: "Release \<Rightarrow> string \<Rightarrow> string" where
  "AssetName r arch = ReplaceAll (rel_Asset r) ''{arch}'' arch"

definition ReleaseArchs :: "string list" where
  "ReleaseArchs = [''x64'', ''arm64'']"

record StateDir =
  sd_Name :: string
  sd_Path :: string

record Harness =
  h_Name :: string
  h_Title :: string
  h_Binary :: string
  h_Package :: string
  h_Version :: string
  h_Release :: "Release option"
  h_Continue :: string
  h_Resume :: string
  h_Unattended :: "string list"
  h_Env :: "string list"
  h_State :: "StateDir list"
  h_Mounts :: "string list"
  h_TUIPlugin :: TUIPlugin
  h_ConfigDir :: string
  h_ConfigGitignore :: string

definition Default_agent :: string where "Default_agent = ''opencode''"

definition aliases :: "(string \<times> string) list" where
  "aliases = [(''opencode'', ''opencode2'')]"

definition sharedMounts :: "string list" where
  "sharedMounts = [''~/.agents:/home/agent/.agents:ro'']"

definition openCodeMounts :: "string list" where
  "openCodeMounts =
     [''~/.config/opencode:/home/agent/.config/opencode:rw'', ''~/.opencode:/home/agent/.opencode:rw'']"

definition openCode1Mounts :: "string list" where
  "openCode1Mounts = openCodeMounts @ [''~/.omo:/home/agent/.omo:rw'']"

definition openCodeConfigDir :: string where
  "openCodeConfigDir = ''/home/agent/.config/opencode''"

definition openCodeConfigGitignore :: string where
  "openCodeConfigGitignore =
     Join [''node_modules'', ''package.json'', ''package-lock.json'', ''bun.lock'', ''.gitignore'', []] [CHR 0x0A]"

definition harnesses :: "Harness list" where
  "harnesses =
    [\<lparr>h_Name = ''opencode1'', h_Title = ''OpenCode 1'', h_Binary = ''opencode'',
      h_Package = ''opencode-ai'', h_Version = ''1.19.5'', h_Release = None,
      h_Continue = ''--continue'', h_Resume = ''--session'', h_Unattended = [],
      h_Env = [''OPENCODE_DISABLE_AUTOUPDATE=1''],
      h_State = [\<lparr>sd_Name = ''opencode-data'', sd_Path = ''/home/agent/.local/share/opencode''\<rparr>,
                 \<lparr>sd_Name = ''opencode-state'', sd_Path = ''/home/agent/.local/state/opencode''\<rparr>],
      h_Mounts = openCode1Mounts, h_TUIPlugin = OpenCode1TUI,
      h_ConfigDir = openCodeConfigDir, h_ConfigGitignore = openCodeConfigGitignore\<rparr>,
     \<lparr>h_Name = ''opencode2'', h_Title = ''OpenCode 2'', h_Binary = ''opencode'',
      h_Package = ''@opencode/cli'', h_Version = ''2.2.5'', h_Release = None,
      h_Continue = ''--continue'', h_Resume = ''--session'',
      h_Unattended = [''--standalone'', ''--auto''],
      h_Env = [''OPENCODE_DISABLE_AUTOUPDATE=1''],
      h_State = [\<lparr>sd_Name = ''opencode2-data'', sd_Path = ''/home/agent/.local/share/opencode''\<rparr>,
                 \<lparr>sd_Name = ''opencode2-state'', sd_Path = ''/home/agent/.local/state/opencode''\<rparr>],
      h_Mounts = openCodeMounts, h_TUIPlugin = OpenCode2TUI,
      h_ConfigDir = openCodeConfigDir, h_ConfigGitignore = openCodeConfigGitignore\<rparr>,
     \<lparr>h_Name = ''claude'', h_Title = ''Claude Code'', h_Binary = ''claude'',
      h_Package = ''@anthropic-ai/claude-code'', h_Version = ''2.1.318'', h_Release = None,
      h_Continue = ''--continue'', h_Resume = ''--resume'',
      h_Unattended = [''--dangerously-skip-permissions''],
      h_Env = [''CLAUDE_CONFIG_DIR=/home/agent/.claude'', ''DISABLE_AUTOUPDATER=1''],
      h_State = [\<lparr>sd_Name = ''claude'', sd_Path = ''/home/agent/.claude''\<rparr>],
      h_Mounts = [], h_TUIPlugin = ClaudeStatusLine, h_ConfigDir = [], h_ConfigGitignore = []\<rparr>,
     \<lparr>h_Name = ''copilot'', h_Title = ''GitHub Copilot CLI'', h_Binary = ''copilot'',
      h_Package = ''@github/copilot'', h_Version = ''1.0.105'', h_Release = None,
      h_Continue = ''--continue'', h_Resume = ''--resume'', h_Unattended = [''--allow-all''],
      h_Env = [''COPILOT_AUTO_UPDATE=false''],
      h_State = [\<lparr>sd_Name = ''copilot'', sd_Path = ''/home/agent/.copilot''\<rparr>],
      h_Mounts = [], h_TUIPlugin = CopilotStatusLine, h_ConfigDir = [], h_ConfigGitignore = []\<rparr>,
     \<lparr>h_Name = ''omo'', h_Title = ''OmO'', h_Binary = ''omo'', h_Package = ''omo-ai'',
      h_Version = ''5.1.60'', h_Release = None, h_Continue = ''--continue'', h_Resume = ''--session'',
      h_Unattended = [''--permission-preset'', ''full-access''],
      h_Env = [''PI_SKIP_VERSION_CHECK=1'', ''OMO_RUNTIME=node''],
      h_State = [\<lparr>sd_Name = ''omo'', sd_Path = ''/home/agent/.omo''\<rparr>],
      h_Mounts = [], h_TUIPlugin = OmOExtension, h_ConfigDir = [], h_ConfigGitignore = []\<rparr>,
     \<lparr>h_Name = ''agy'', h_Title = ''Antigravity CLI'', h_Binary = ''agy'', h_Package = [],
      h_Version = ''1.5.0'',
      h_Release = Some
        \<lparr>rel_Repo = ''google-antigravity/antigravity-cli'',
         rel_Asset = ''agy_cli_linux_{arch}.tar.gz'', rel_Binary = ''antigravity'',
         rel_Version = ''1.5.0'',
         rel_SHA256 =
           [(''x64'', ''f65e365a67be49abdaf92f5669c3157bd4b9c569f6b9f448340b00ca261b0f01''),
            (''arm64'', ''87e73a5ab4ecb3a9668660d259dafd13f5443149da0113664d59129a21a62ba4'')]\<rparr>,
      h_Continue = ''--continue'', h_Resume = ''--conversation'',
      h_Unattended = [''--dangerously-skip-permissions''],
      h_Env = [''AGY_CLI_DISABLE_AUTO_UPDATE=1''],
      h_State = [\<lparr>sd_Name = ''antigravity'', sd_Path = ''/home/agent/.gemini''\<rparr>],
      h_Mounts = [], h_TUIPlugin = AgyStatusLine, h_ConfigDir = [], h_ConfigGitignore = []\<rparr>]"

section \<open>Operations\<close>

definition Lookup :: "string \<Rightarrow> Harness option" where
  "Lookup name =
     (let tgt = (case map_of aliases name of Some a \<Rightarrow> a | None \<Rightarrow> name)
      in map_option (\<lambda>h. h\<lparr>h_Name := name\<rparr>) (find (\<lambda>h. h_Name h = tgt) harnesses))"

definition Names :: "string list" where
  "Names = sorted_keys aliases @ map h_Name harnesses"

definition All_harnesses :: "Harness list" where
  "All_harnesses = harnesses"

definition DefaultMounts :: "Harness \<Rightarrow> string list" where
  "DefaultMounts h = h_Mounts h @ sharedMounts"

definition Command :: "Harness \<Rightarrow> string list \<Rightarrow> string \<Rightarrow> bool \<Rightarrow> string list" where
  "Command h args cid cont =
     [h_Binary h] @ h_Unattended h @ TUIPlugin_Args (h_TUIPlugin h) @
     (if cid \<noteq> [] then [h_Resume h, cid] else if cont then [h_Continue h] else []) @ args"

section \<open>Facts\<close>

lemma Lookup_name: "Lookup n = Some h \<Longrightarrow> h_Name h = n"
  by (auto simp: Lookup_def Let_def)

lemma Names_eq:
  "Names = [''opencode'', ''opencode1'', ''opencode2'', ''claude'', ''copilot'', ''omo'', ''agy'']"
  by code_simp

lemma Lookup_iff_Names: "Lookup n \<noteq> None \<longleftrightarrow> n \<in> set Names"
  unfolding Names_eq by (auto simp: Lookup_def Let_def aliases_def harnesses_def)

end
