(* ===== verification/Mounts.thy ===== *)
theory Mounts
  imports GoStrings
begin

text \<open>
  Mount specifications of the configuration (\<open>internal/config/config.go\<close>: \<open>ParseMount\<close>,
  \<open>MergeMounts\<close>, \<open>validateMountHostPath\<close>, \<open>normalizeSnapshot\<close>, path expansion; and
  \<open>mount_targets.go\<close>). The home directory is the argument \<open>home\<close> (None when it cannot be
  determined); compose-go's \<open>format.ParseVolume\<close> is the argument \<open>pv\<close>, which returns the source and
  the target of a volume specification.
\<close>

section \<open>Paths\<close>

datatype mount_error =
    NoHome
  | BadVolume string
  | MissingPart string
  | BadMode string
  | RelativeHost string
  | RelativeContainer string
  | ForbiddenHost string
  | ForbiddenContainer string
  | WritableSnapshot string

definition ExpandPath :: "string option \<Rightarrow> string \<Rightarrow> (mount_error, string) result" where
  "ExpandPath home path =
     (if \<not> HasPrefix path ''~'' then Inr path
      else rbind (ropt NoHome home) (\<lambda>h. Inr (h @ drop 1 path)))"

definition guestHome :: string where "guestHome = ''/home/agent''"

definition expandGuestPath :: "string \<Rightarrow> string" where
  "expandGuestPath path =
     (if path = ''~'' then guestHome
      else case CutPrefix path ''~/'' of
             Some rest \<Rightarrow> guestHome @ ''/'' @ rest
           | None \<Rightarrow> path)"

definition forbiddenMountPrefixes :: "string list" where
  "forbiddenMountPrefixes =
     [''/home/agent'', ''/usr'', ''/etc'', ''/var'', ''/bin'', ''/sbin'', ''/lib'', ''/lib64'', ''/opt'',
      ''/root'', ''/proc'', ''/sys'', ''/dev'', ''/run'', ''/tmp'', ''/certs'']"

definition forbiddenMountContainerPrefixes :: "string list" where
  "forbiddenMountContainerPrefixes =
     [''/'', ''/usr'', ''/etc'', ''/var'', ''/bin'', ''/sbin'', ''/lib'', ''/lib64'', ''/opt'',
      ''/root'', ''/proc'', ''/sys'', ''/dev'', ''/run'', ''/tmp'', ''/certs'']"

definition forbiddenMountHostPaths :: "string list" where
  "forbiddenMountHostPaths =
     [''/'', ''/boot'', ''/dev'', ''/etc'', ''/private'', ''/proc'', ''/sys'', ''/run'', ''/var'',
      ''~/.ssh'', ''~/.gnupg'', ''~/.aws'']"

text \<open>\<open>p == prefix || strings.HasPrefix(p, prefix+"/")\<close>\<close>

definition at_or_under :: "string \<Rightarrow> string \<Rightarrow> bool" where
  "at_or_under p pre \<longleftrightarrow> p = pre \<or> HasPrefix p (pre @ ''/'')"

section \<open>Mounts\<close>

record Mount =
  m_Host :: string
  m_Container :: string
  m_Mode :: string

definition rawMode :: "string \<Rightarrow> string \<Rightarrow> string \<Rightarrow> string" where
  "rawMode spec source tgt =
     (case CutPrefix spec (source @ '':'' @ tgt) of
        None \<Rightarrow> []
      | Some rest \<Rightarrow> (case rest of c # r \<Rightarrow> (if c = CHR '':'' then r else []) | [] \<Rightarrow> []))"

definition parseRemovalMount :: "string \<Rightarrow> (mount_error, Mount) result" where
  "parseRemovalMount spec =
     (case Cut (drop 1 spec) '':'' of (container0, mode0, two) \<Rightarrow>
        let mode = (if two then mode0 else ''rw'') in
        rbind (rguard (mode \<noteq> ''ro'' \<and> mode \<noteq> ''rw'') (BadMode spec)) (\<lambda>_.
        let container = expandGuestPath container0 in
        rbind (rguard (\<not> HasPrefix container ''/'') (RelativeContainer spec)) (\<lambda>_.
        Inr \<lparr>m_Host = [], m_Container = container, m_Mode = mode\<rparr>)))"

definition ParseMount ::
  "(string \<Rightarrow> (string \<times> string) option) \<Rightarrow> string option \<Rightarrow> string \<Rightarrow> (mount_error, Mount) result" where
  "ParseMount pv home spec =
     (if HasPrefix spec '':'' then parseRemovalMount spec
      else
        rbind (ropt (BadVolume spec) (pv spec)) (\<lambda>(host, container0).
        rbind (rguard (host = [] \<or> container0 = []) (MissingPart spec)) (\<lambda>_.
        let raw = rawMode spec host container0; mode = (if raw = [] then ''rw'' else raw) in
        rbind (rguard (mode \<noteq> ''ro'' \<and> mode \<noteq> ''rw'') (BadMode spec)) (\<lambda>_.
        rbind (ExpandPath home host) (\<lambda>expandedHost.
        rbind (rguard (\<not> IsAbs expandedHost) (RelativeHost spec)) (\<lambda>_.
        let container = expandGuestPath container0 in
        rbind (rguard (\<not> HasPrefix container ''/'') (RelativeContainer spec)) (\<lambda>_.
        Inr \<lparr>m_Host = host, m_Container = container, m_Mode = mode\<rparr>)))))))"

definition forbidden_host :: "string option \<Rightarrow> string \<Rightarrow> string \<Rightarrow> (mount_error, unit) result" where
  "forbidden_host home cleanHost forbidden =
     rbind (ExpandPath home forbidden) (\<lambda>expanded.
     rguard (at_or_under cleanHost (Clean expanded)) (ForbiddenHost cleanHost))"

definition validateMountHostPath :: "string option \<Rightarrow> string \<Rightarrow> (mount_error, unit) result" where
  "validateMountHostPath home host =
     (if host = [] then Inr ()
      else rbind (ExpandPath home host) (\<lambda>expandedHost.
           for_each (forbidden_host home (Clean expandedHost)) forbiddenMountHostPaths))"

definition formatMount :: "Mount \<Rightarrow> string" where
  "formatMount m = m_Host m @ '':'' @ m_Container m @ '':'' @ m_Mode m"

text \<open>The loop that refuses container paths at or under a system directory.\<close>

definition validateContainer :: "string \<Rightarrow> (mount_error, unit) result" where
  "validateContainer container =
     for_each (\<lambda>pre. rguard (at_or_under container pre) (ForbiddenContainer container))
       forbiddenMountContainerPrefixes"

definition normalizeSnapshot ::
  "(string \<Rightarrow> (string \<times> string) option) \<Rightarrow> string option \<Rightarrow> string \<Rightarrow> (mount_error, string) result" where
  "normalizeSnapshot pv home spec =
     rbind (rguard (HasSuffix spec '':rw'') (WritableSnapshot spec)) (\<lambda>_.
     rbind (ParseMount pv home spec) (\<lambda>m.
     rbind (validateMountHostPath home (m_Host m)) (\<lambda>_.
     rbind (ExpandPath home (m_Host m)) (\<lambda>host.
     let container = Clean (m_Container m) in
     rbind (validateContainer container) (\<lambda>_.
     Inr (formatMount \<lparr>m_Host = host, m_Container = container, m_Mode = ''ro''\<rparr>))))))"

definition validateAgentMounts ::
  "(string \<Rightarrow> (string \<times> string) option) \<Rightarrow> string option \<Rightarrow> string list \<Rightarrow> (mount_error, unit) result" where
  "validateAgentMounts pv home mounts =
     for_each (\<lambda>spec.
       rbind (ParseMount pv home spec) (\<lambda>m.
       rbind (validateMountHostPath home (m_Host m)) (\<lambda>_.
       validateContainer (Clean (m_Container m))))) mounts"

section \<open>Layers\<close>

text \<open>\<open>MergeMounts\<close>: the containers in first-seen order and the mount of each, if any.\<close>

type_synonym merge_state = "string list \<times> (string \<times> Mount) list"

definition merge_one :: "string option \<Rightarrow> Mount \<Rightarrow> merge_state \<Rightarrow> (mount_error, merge_state) result" where
  "merge_one home m st =
     (case st of (ordered, byContainer) \<Rightarrow>
        rbind (if m_Host m \<noteq> [] then ExpandPath home (m_Host m) else Inr (m_Host m)) (\<lambda>expandedHost.
        let ordered' = (if m_Container m \<in> set ordered then ordered else ordered @ [m_Container m]) in
        if m_Host m = [] then Inr (ordered', AList.delete (m_Container m) byContainer)
        else Inr (ordered', AList.update (m_Container m) (m\<lparr>m_Host := expandedHost\<rparr>) byContainer)))"

fun merge_specs ::
  "(string \<Rightarrow> (string \<times> string) option) \<Rightarrow> string option \<Rightarrow> string list \<Rightarrow> merge_state \<Rightarrow>
     (mount_error, merge_state) result" where
  "merge_specs pv home [] st = Inr st"
| "merge_specs pv home (spec # specs) st =
     rbind (ParseMount pv home spec) (\<lambda>m. rbind (merge_one home m st) (merge_specs pv home specs))"

definition MergeMounts ::
  "(string \<Rightarrow> (string \<times> string) option) \<Rightarrow> string option \<Rightarrow> string list list \<Rightarrow>
     (mount_error, string list) result" where
  "MergeMounts pv home layers =
     rbind (merge_specs pv home (concat layers) ([], [])) (\<lambda>(ordered, byContainer).
     Inr (List.map_filter (\<lambda>c. map_option formatMount (map_of byContainer c)) ordered))"

section \<open>Targets\<close>

definition MountsContainTarget ::
  "(string \<Rightarrow> (string \<times> string) option) \<Rightarrow> string option \<Rightarrow> string list \<Rightarrow> string \<Rightarrow> bool" where
  "MountsContainTarget pv home mounts tgt =
     list_ex (\<lambda>spec. case ParseMount pv home spec of Inr m \<Rightarrow> m_Container m = tgt | Inl _ \<Rightarrow> False) mounts"

definition no_mount :: Mount where
  "no_mount = \<lparr>m_Host = [], m_Container = [], m_Mode = []\<rparr>"

definition cover_step ::
  "(string \<Rightarrow> (string \<times> string) option) \<Rightarrow> string option \<Rightarrow> string \<Rightarrow> Mount \<Rightarrow> string \<Rightarrow> Mount" where
  "cover_step pv home tgt best spec =
     (case ParseMount pv home spec of
        Inl _ \<Rightarrow> best
      | Inr m \<Rightarrow>
          if m_Host m = [] then best
          else if \<not> at_or_under tgt (m_Container m) then best
          else if length (m_Container m) > length (m_Container best) then m else best)"

definition coveringMount ::
  "(string \<Rightarrow> (string \<times> string) option) \<Rightarrow> string option \<Rightarrow> string list \<Rightarrow> string \<Rightarrow> Mount" where
  "coveringMount pv home mounts tgt = foldl (cover_step pv home tgt) no_mount mounts"

definition ReadOnlyMountCoversPath ::
  "(string \<Rightarrow> (string \<times> string) option) \<Rightarrow> string option \<Rightarrow> string list \<Rightarrow> string \<Rightarrow> string option" where
  "ReadOnlyMountCoversPath pv home mounts tgt =
     (let best = coveringMount pv home mounts tgt in
      if m_Mode best \<noteq> ''ro'' then None else Some (m_Host best @ TrimPrefix tgt (m_Container best)))"

definition MountHostPath ::
  "(string \<Rightarrow> (string \<times> string) option) \<Rightarrow> string option \<Rightarrow> string list \<Rightarrow> string \<Rightarrow> string option" where
  "MountHostPath pv home mounts tgt =
     (let best = coveringMount pv home mounts tgt in
      if m_Host best = [] then None else Some (m_Host best @ TrimPrefix tgt (m_Container best)))"

section \<open>Paths as lists of elements\<close>

text \<open>The elements of a rooted path after \<open>filepath.Clean\<close>.\<close>

definition elems :: "string \<Rightarrow> string list" where
  "elems p = clean_elems True (Split CHR ''/'' p)"

lemma Clean_elems: "IsAbs p \<Longrightarrow> Clean p = ''/'' @ Join (elems p) ''/''"
  by (simp add: Clean_def elems_def Let_def)

lemma clean_step_subset: "set (clean_step r out e) \<subseteq> insert e (insert ''..'' (set out))"
  by (cases out) auto

lemma foldl_clean_subset: "set (foldl (clean_step r) out es) \<subseteq> set es \<union> {''..''} \<union> set out"
proof (induction es arbitrary: out)
  case (Cons e es)
  from Cons.IH [of "clean_step r out e"] clean_step_subset [of r out e] show ?case
    unfolding foldl_Cons by (auto simp del: clean_step.simps)
qed auto

lemma elems_plain:
  assumes "e \<in> set (elems p)"
  shows "e \<noteq> []" and "CHR ''/'' \<notin> set e"
proof -
  show "e \<noteq> []" using assms clean_elems_rooted [of "Split CHR ''/'' p"] by (auto simp: elems_def)
  have "e \<in> set (Split CHR ''/'' p) \<union> {''..''}"
    using assms foldl_clean_subset [of True "[]" "Split CHR ''/'' p"]
    by (auto simp: elems_def clean_elems_def)
  then show "CHR ''/'' \<notin> set e" by (auto dest: Split_no_sep)
qed

lemma sep_append:
  fixes c :: char
  assumes "c \<notin> set a" and "c \<notin> set b"
  shows "a @ c # r = b @ c # s \<longleftrightarrow> a = b \<and> r = s"
proof
  assume e: "a @ c # r = b @ c # s"
  have "(a, r, True) = Cut (a @ c # r) [c]" by (rule Cut_char_append [OF assms(1), symmetric])
  also have "\<dots> = Cut (b @ c # s) [c]" by (simp only: e)
  also have "\<dots> = (b, s, True)" by (rule Cut_char_append [OF assms(2)])
  finally show "a = b \<and> r = s" by simp
qed simp

lemma prefix_sep:
  fixes c :: char
  assumes "c \<notin> set a" and "c \<notin> set b"
  shows "prefix (a @ c # r) (b @ c # s) \<longleftrightarrow> a = b \<and> prefix r s"
    and "\<not> prefix (a @ c # r) b"
proof -
  show "prefix (a @ c # r) (b @ c # s) \<longleftrightarrow> a = b \<and> prefix r s"
    using sep_append [OF assms(2,1), of s] by (auto simp: prefix_def)
  show "\<not> prefix (a @ c # r) b" using assms(2) by (auto simp: prefix_def)
qed

lemma Join_Cons: "Join (x # xs) sep = x @ (if xs = [] then [] else sep @ Join xs sep)"
  by (cases xs) auto

lemma Join_eq_Nil: "(\<And>x. x \<in> set xs \<Longrightarrow> x \<noteq> []) \<Longrightarrow> Join xs sep = [] \<longleftrightarrow> xs = []"
  by (cases xs) (auto simp: Join_Cons)

lemma Join_inj:
  "(\<And>x. x \<in> set xs \<union> set ys \<Longrightarrow> x \<noteq> [] \<and> c \<notin> set x) \<Longrightarrow> Join xs [c] = Join ys [c] \<longleftrightarrow> xs = ys"
proof (induction xs arbitrary: ys)
  case Nil
  then show ?case using Join_eq_Nil [of ys "[c]"] by auto
next
  case (Cons x xs)
  show ?case
  proof (cases ys)
    case Nil
    with Cons.prems show ?thesis using Join_eq_Nil [of "x # xs" "[c]"] by auto
  next
    case (Cons y zs)
    have p: "x \<noteq> [] \<and> c \<notin> set x" "y \<noteq> [] \<and> c \<notin> set y" using Cons.prems Cons by auto
    have "Join xs [c] = Join zs [c] \<longleftrightarrow> xs = zs" using Cons.IH [of zs] Cons.prems Cons by auto
    moreover have "c \<in> set (x @ c # t)" for t by simp
    ultimately show ?thesis using p Cons sep_append [of c x y "Join xs [c]" "Join zs [c]"]
      by (auto simp: Join_Cons)
  qed
qed

text \<open>A separator after the elements \<open>ys\<close> is a prefix exactly of longer paths that start with \<open>ys\<close>.\<close>

lemma Join_prefix:
  "(\<And>x. x \<in> set xs \<union> set ys \<Longrightarrow> x \<noteq> [] \<and> c \<notin> set x) \<Longrightarrow> ys \<noteq> [] \<Longrightarrow>
   prefix (Join ys [c] @ [c]) (Join xs [c]) \<longleftrightarrow> strict_prefix ys xs"
proof (induction ys arbitrary: xs)
  case (Cons y ys)
  have y: "y \<noteq> []" "c \<notin> set y" using Cons.prems(1) [of y] by auto
  show ?case
  proof (cases xs)
    case Nil
    then show ?thesis by simp
  next
    case (Cons x zs)
    have x: "x \<noteq> []" "c \<notin> set x" using Cons.prems(1) [of x] Cons by auto
    have rest: "\<And>e. e \<in> set zs \<union> set ys \<Longrightarrow> e \<noteq> [] \<and> c \<notin> set e" using Cons.prems(1) Cons by auto
    show ?thesis
    proof (cases "ys = []")
      case True
      have "prefix (y @ [c]) (x @ (if zs = [] then [] else [c] @ Join zs [c])) \<longleftrightarrow> y = x \<and> zs \<noteq> []"
        using prefix_sep [OF y(2) x(2), of "[]"] by simp
      with True Cons show ?thesis by (auto simp: Join_Cons strict_prefix_def)
    next
      case False
      have "prefix (y @ c # Join ys [c] @ [c]) (x @ (if zs = [] then [] else c # Join zs [c])) \<longleftrightarrow>
          y = x \<and> zs \<noteq> [] \<and> prefix (Join ys [c] @ [c]) (Join zs [c])"
        using prefix_sep [OF y(2) x(2)] by simp
      moreover have "strict_prefix (y # ys) (x # zs) \<longleftrightarrow> y = x \<and> zs \<noteq> [] \<and> strict_prefix ys zs"
        by auto
      moreover have "Join (y # ys) [c] @ [c] = y @ c # Join ys [c] @ [c]"
          "Join xs [c] = x @ (if zs = [] then [] else c # Join zs [c])"
        using False Cons by (simp_all add: Join_Cons)
      ultimately show ?thesis using Cons.IH [OF rest False] Cons by (simp only:)
    qed
  qed
qed simp

lemma at_or_under_elems:
  assumes "IsAbs a" and "IsAbs b"
  shows "at_or_under (Clean a) (Clean b) \<longleftrightarrow>
     (if elems b = [] then elems a = [] else prefix (elems b) (elems a))"
proof -
  have plain: "\<And>x. x \<in> set (elems a) \<union> set (elems b) \<Longrightarrow> x \<noteq> [] \<and> CHR ''/'' \<notin> set x"
    using elems_plain by blast
  have eq: "Clean a = Clean b \<longleftrightarrow> elems a = elems b"
    using assms Join_inj [OF plain] by (simp add: Clean_elems)
  show ?thesis
  proof (cases "elems b = []")
    case True
    have "\<not> prefix ''//'' (''/'' @ Join (elems a) ''/'')"
    proof (cases "elems a")
      case (Cons x xs)
      then have "x \<noteq> []" "CHR ''/'' \<notin> set x" using plain by auto
      then show ?thesis using Cons by (cases x) (auto simp: Join_Cons)
    qed simp
    with True eq assms show ?thesis by (auto simp: at_or_under_def HasPrefix_iff Clean_elems)
  next
    case False
    have "HasPrefix (Clean a) (Clean b @ ''/'') \<longleftrightarrow> strict_prefix (elems b) (elems a)"
      using assms Join_prefix [OF plain False] by (simp add: HasPrefix_iff Clean_elems)
    with False eq show ?thesis by (auto simp: at_or_under_def)
  qed
qed

text \<open>One more plain element.\<close>

lemma elems_append:
  assumes "CHR ''/'' \<notin> set e" and "e \<notin> {[], ''.'', ''..''}"
  shows "elems (p @ CHR ''/'' # e) = elems p @ [e]"
  using assms by (auto simp: elems_def clean_elems_def Split_append_sep Split_single)

text \<open>Cleaning a rooted path does not change its elements, so it is idempotent.\<close>

lemma Split_Join: "xs \<noteq> [] \<Longrightarrow> (\<And>x. x \<in> set xs \<Longrightarrow> c \<notin> set x) \<Longrightarrow> Split c (Join xs [c]) = xs"
proof (induction xs rule: induct_list012)
  case (3 x y zs)
  have "Split c (Join (x # y # zs) [c]) = Split c (x @ c # Join (y # zs) [c])" by simp
  also have "\<dots> = Split c x @ Split c (Join (y # zs) [c])" by (rule Split_append_sep)
  also have "\<dots> = x # y # zs" using 3 by (simp add: Split_single)
  finally show ?case .
qed (simp_all add: Split_single)

lemma foldl_clean_plain:
  "set es \<inter> {[], ''.'', ''..''} = {} \<Longrightarrow> foldl (clean_step True) out es = rev es @ out"
  by (induction es arbitrary: out) auto

lemma elems_Clean: "IsAbs p \<Longrightarrow> elems (Clean p) = elems p"
proof -
  assume "IsAbs p"
  then have c: "Clean p = [] @ CHR ''/'' # Join (elems p) ''/''" by (simp add: Clean_elems)
  have "Split CHR ''/'' (Clean p) = [] # (if elems p = [] then [[]] else elems p)"
    unfolding c Split_append_sep using elems_plain(2) by (auto simp: Split_Join)
  moreover have "set (elems p) \<inter> {[], ''.'', ''..''} = {}" unfolding elems_def by (rule clean_elems_rooted)
  ultimately show ?thesis
    by (subst elems_def) (auto simp: clean_elems_def foldl_clean_plain)
qed

lemma Clean_Clean: "IsAbs p \<Longrightarrow> Clean (Clean p) = Clean p"
  by (simp add: Clean_elems [OF Clean_abs] elems_Clean) (simp add: Clean_elems)

lemma Join_set: "set (Join xs sep) \<subseteq> (\<Union>x \<in> set xs. set x) \<union> set sep"
  by (induction xs rule: induct_list012) auto

lemma Split_set: "x \<in> set (Split c s) \<Longrightarrow> set x \<subseteq> set s"
proof (induction s arbitrary: x)
  case (Cons a s)
  obtain h t where ht: "Split c s = h # t" by (cases "Split c s") simp_all
  with Cons.IH have sub: "set y \<subseteq> set s" if "y \<in> set (h # t)" for y using that by simp
  from Cons.prems ht have "x = [] \<or> x = a # h \<or> x \<in> set (h # t)" by (auto split: if_split_asm)
  with sub [of h] sub [of x] show ?case by auto
qed simp

lemma Clean_set: "IsAbs p \<Longrightarrow> set (Clean p) \<subseteq> set p \<union> {CHR ''/'', CHR ''.''}"
proof -
  assume a: "IsAbs p"
  have "set e \<subseteq> set p \<union> {CHR ''.''}" if "e \<in> set (elems p)" for e
  proof -
    from that have "e \<in> set (Split CHR ''/'' p) \<union> {''..''}"
      using foldl_clean_subset [of True "[]" "Split CHR ''/'' p"] by (auto simp: elems_def clean_elems_def)
    then show ?thesis using Split_set by fastforce
  qed
  then show ?thesis unfolding Clean_elems [OF a] using Join_set [of "elems p" "''/''"] by fastforce
qed

section \<open>Merging\<close>

lemma uniq_snoc: "uniq (xs @ [x]) = (if x \<in> set xs then uniq xs else uniq xs @ [x])"
  by (simp add: uniq_def uniq_from_append)

text \<open>The mount a list of parsed specifications leaves at a container path: the last one decides, and
  one without a host removes.\<close>

definition expanded :: "string option \<Rightarrow> Mount \<Rightarrow> Mount" where
  "expanded home m = m\<lparr>m_Host := (case ExpandPath home (m_Host m) of Inr h \<Rightarrow> h | Inl _ \<Rightarrow> m_Host m)\<rparr>"

definition effective :: "string option \<Rightarrow> Mount list \<Rightarrow> string \<Rightarrow> Mount option" where
  "effective home ms c =
     (case find (\<lambda>m. m_Container m = c) (rev ms) of
        None \<Rightarrow> None
      | Some m \<Rightarrow> if m_Host m = [] then None else Some (expanded home m))"

definition represents :: "string option \<Rightarrow> Mount list \<Rightarrow> merge_state \<Rightarrow> bool" where
  "represents home ms st \<longleftrightarrow>
     fst st = uniq (map m_Container ms) \<and> (\<forall>c. map_of (snd st) c = effective home ms c)"

lemma effective_snoc:
  "effective home (ms @ [m]) c =
     (if m_Container m = c then (if m_Host m = [] then None else Some (expanded home m))
      else effective home ms c)"
  by (simp add: effective_def)

lemma ParseMount_expands:
  "ParseMount pv home spec = Inr m \<Longrightarrow> m_Host m = [] \<or> (\<exists>h. ExpandPath home (m_Host m) = Inr h)"
proof (cases "HasPrefix spec '':''")
  case True
  assume "ParseMount pv home spec = Inr m"
  with True have "m_Host m = []"
    by (cases "Cut (drop 1 spec) '':''") (auto simp: ParseMount_def parseRemovalMount_def result_simps Let_def)
  then show ?thesis by blast
next
  case False
  assume "ParseMount pv home spec = Inr m"
  with False obtain src tgt where "pv spec = Some (src, tgt)"
    by (cases "pv spec") (auto simp: ParseMount_def)
  with False \<open>ParseMount pv home spec = Inr m\<close> show ?thesis
    by (auto simp: ParseMount_def result_simps Let_def)
qed

lemma merge_one_represents:
  assumes "represents home ms st" and "m_Host m = [] \<or> (\<exists>h. ExpandPath home (m_Host m) = Inr h)"
  shows "\<exists>st'. merge_one home m st = Inr st' \<and> represents home (ms @ [m]) st'"
proof -
  obtain ordered by_c where st: "st = (ordered, by_c)" by (cases st)
  show ?thesis
  proof (cases "m_Host m = []")
    case True
    with assms(1) st show ?thesis
      by (auto simp: merge_one_def represents_def uniq_snoc effective_snoc delete_conv)
  next
    case False
    with assms(2) obtain h where "ExpandPath home (m_Host m) = Inr h" by blast
    with False assms(1) st show ?thesis
      by (auto simp: merge_one_def represents_def uniq_snoc effective_snoc update_conv expanded_def)
  qed
qed

lemma merge_specs_represents:
  "represents home ms st \<Longrightarrow>
   (case traverse (ParseMount pv home) specs of
      Inl e \<Rightarrow> merge_specs pv home specs st = Inl e
    | Inr ns \<Rightarrow> \<exists>st'. merge_specs pv home specs st = Inr st' \<and> represents home (ms @ ns) st')"
proof (induction specs arbitrary: ms st)
  case (Cons spec specs)
  show ?case
  proof (cases "ParseMount pv home spec")
    case (Inr m)
    with merge_one_represents [OF Cons.prems ParseMount_expands] obtain st' where
      st': "merge_one home m st = Inr st'" "represents home (ms @ [m]) st'" by blast
    from Cons.IH [OF st'(2)] Inr st'(1) show ?thesis
      by (cases "traverse (ParseMount pv home) specs") auto
  qed simp
qed simp

section \<open>Properties\<close>

text \<open>C24. Merging mount layers is last-layer-wins per guest path: the result has one entry for every
  guest path some layer mentions, in the order of first mention, with the host (its home
  expanded) and the mode of the last specification of that path, and none when that last
  specification removes it; merging fails exactly when a specification does not parse, with
  the error of the first.\<close>

theorem MergeMounts_last_wins:
  "MergeMounts pv home layers =
     rbind (traverse (ParseMount pv home) (concat layers)) (\<lambda>ms.
     Inr (List.map_filter (\<lambda>c. map_option formatMount (effective home ms c)) (uniq (map m_Container ms))))"
proof -
  have "represents home [] ([], [])" by (simp add: represents_def effective_def uniq_def)
  from merge_specs_represents [OF this, of pv "concat layers"] show ?thesis
    by (cases "traverse (ParseMount pv home) (concat layers)")
      (auto simp: MergeMounts_def represents_def split: prod.split)
qed

text \<open>What a validated host path is not, for each protected path.\<close>

definition system_dirs :: "string list" where
  "system_dirs = [''/boot'', ''/dev'', ''/etc'', ''/private'', ''/proc'', ''/sys'', ''/run'', ''/var'']"

lemma forbidden_outside:
  assumes "validateMountHostPath home host = Inr ()" and "host \<noteq> []"
    and "ExpandPath home host = Inr h" and "IsAbs h"
    and "f \<in> set forbiddenMountHostPaths" and "ExpandPath home f = Inr ef" and "IsAbs ef"
  shows "if elems ef = [] then elems h \<noteq> [] else \<not> prefix (elems ef) (elems h)"
proof -
  have "\<not> at_or_under (Clean h) (Clean ef)"
    using assms(1-3,5,6) by (auto simp: validateMountHostPath_def result_simps forbidden_host_def)
  with at_or_under_elems [OF assms(4,7)] show ?thesis by (simp split: if_split_asm)
qed

lemma system_dirs_facts:
  "list_all (\<lambda>f. f \<in> set forbiddenMountHostPaths \<and> elems f \<noteq> [] \<and> IsAbs f \<and> \<not> HasPrefix f ''~'') system_dirs"
  by code_simp

lemma home_dirs_facts:
  "list_all (\<lambda>e. CHR ''~'' # CHR ''/'' # e \<in> set forbiddenMountHostPaths \<and> CHR ''/'' \<notin> set e \<and>
     e \<notin> {[], ''.'', ''..''}) [''.ssh'', ''.gnupg'', ''.aws'']"
  by code_simp

text \<open>A host path the configuration accepts for a mount lies outside every protected directory: after
  home expansion and cleaning (so through no \<open>..\<close>, \<open>.\<close> or repeated slash), its elements do not
  start with those of \<open>/etc\<close>, \<open>/proc\<close>, \<open>/var\<close>, \<open>/run\<close>, \<open>/dev\<close>, \<open>/sys\<close>, \<open>/boot\<close>, \<open>/private\<close>, \<open>~/.ssh\<close>,
  \<open>~/.gnupg\<close> or \<open>~/.aws\<close>, and it is not the root.\<close>

lemma host_confined:
  assumes "validateMountHostPath home host = Inr ()" and "host \<noteq> []"
    and "ExpandPath home host = Inr h" and "IsAbs h"
    and "home = Some d" and "IsAbs d"
  shows "elems h \<noteq> [] \<and>
     list_all (\<lambda>f. \<not> prefix (elems f) (elems h))
       (system_dirs @ map (\<lambda>e. d @ CHR ''/'' # e) [''.ssh'', ''.gnupg'', ''.aws''])"
proof -
  note out = forbidden_outside [OF assms(1-4)]
  have "''/'' \<in> set forbiddenMountHostPaths" "elems ''/'' = []" by code_simp+
  with out [of "''/''" "''/''"] have root: "elems h \<noteq> []"
    by (simp add: ExpandPath_def HasPrefix_def IsAbs_def)
  have np: "\<not> prefix (elems f) (elems h)" if "f \<in> set system_dirs" for f
    using out [of f f] that system_dirs_facts by (auto simp: list_all_iff ExpandPath_def)
  have nh: "\<not> prefix (elems (d @ CHR ''/'' # e)) (elems h)" if "e \<in> set [''.ssh'', ''.gnupg'', ''.aws'']" for e
  proof -
    let ?f = "CHR ''~'' # CHR ''/'' # e"
    have e: "?f \<in> set forbiddenMountHostPaths" "CHR ''/'' \<notin> set e" "e \<notin> {[], ''.'', ''..''}"
      using that home_dirs_facts unfolding list_all_iff by blast+
    have x: "ExpandPath home ?f = Inr (d @ CHR ''/'' # e)"
      using assms(5) by (simp add: ExpandPath_def HasPrefix_def)
    have "IsAbs (d @ CHR ''/'' # e)" using assms(6) by (auto simp: IsAbs_Cons)
    from out [OF e(1) x this] elems_append [OF e(2,3), of d] show ?thesis by simp
  qed
  show ?thesis using root np nh by (simp only: list_all_iff set_append set_map ball_Un image_iff) blast
qed

text \<open>The mounts with a host at or above a guest path.\<close>

definition covers ::
  "(string \<Rightarrow> (string \<times> string) option) \<Rightarrow> string option \<Rightarrow> string \<Rightarrow> string \<Rightarrow> Mount \<Rightarrow> bool" where
  "covers pv home tgt spec m \<longleftrightarrow>
     ParseMount pv home spec = Inr m \<and> m_Host m \<noteq> [] \<and> at_or_under tgt (m_Container m)"

lemma covers_container: "covers pv home tgt spec m \<Longrightarrow> m_Container m \<noteq> []"
proof -
  assume c: "covers pv home tgt spec m"
  then have "\<not> HasPrefix spec '':''"
    by (cases "Cut (drop 1 spec) '':''")
      (auto simp: covers_def ParseMount_def parseRemovalMount_def result_simps Let_def)
  with c show ?thesis
    by (cases "pv spec") (auto simp: covers_def ParseMount_def result_simps Let_def HasPrefix_def)
qed

lemma cover_fold:
  "(foldl (cover_step pv home tgt) b0 mounts = b0 \<or>
      (\<exists>spec \<in> set mounts. covers pv home tgt spec (foldl (cover_step pv home tgt) b0 mounts))) \<and>
   length (m_Container b0) \<le> length (m_Container (foldl (cover_step pv home tgt) b0 mounts)) \<and>
   (\<forall>spec \<in> set mounts. \<forall>m. covers pv home tgt spec m \<longrightarrow>
      length (m_Container m) \<le> length (m_Container (foldl (cover_step pv home tgt) b0 mounts)))"
proof (induction mounts rule: rev_induct)
  case (snoc spec mounts)
  define b where "b = foldl (cover_step pv home tgt) b0 mounts"
  define c where "c = cover_step pv home tgt b spec"
  have fold: "foldl (cover_step pv home tgt) b0 (mounts @ [spec]) = c" by (simp add: b_def c_def)
  consider (same) "c = b" "\<forall>m. covers pv home tgt spec m \<longrightarrow> length (m_Container m) \<le> length (m_Container b)"
    | (new) "covers pv home tgt spec c" "length (m_Container b) < length (m_Container c)"
        "\<forall>m. covers pv home tgt spec m \<longrightarrow> m = c"
  proof (cases "\<exists>m. covers pv home tgt spec m \<and> length (m_Container b) < length (m_Container m)")
    case True
    then have "covers pv home tgt spec c" "length (m_Container b) < length (m_Container c)"
        "\<forall>m. covers pv home tgt spec m \<longrightarrow> m = c"
      by (auto simp: c_def cover_step_def covers_def)
    then show thesis by (rule new)
  next
    case False
    then have "c = b"
      by (cases "ParseMount pv home spec") (auto simp: c_def cover_step_def covers_def)
    with False show thesis by (intro same) (auto simp: not_less)
  qed
  then show ?case
  proof cases
    case same
    with snoc.IH show ?thesis unfolding fold b_def [symmetric] by auto
  next
    case new
    have le: "n \<le> length (m_Container c)" if "n \<le> length (m_Container b)" for n
      using new(2) that by simp
    have "length (m_Container m) \<le> length (m_Container c)"
      if "s \<in> set (mounts @ [spec])" "covers pv home tgt s m" for s m
    proof (cases "s = spec")
      case True
      with new(3) that have "m = c" by blast
      then show ?thesis by simp
    next
      case False
      with that snoc.IH show ?thesis unfolding b_def [symmetric] by (intro le) simp
    qed
    moreover have "length (m_Container b0) \<le> length (m_Container c)"
      using snoc.IH unfolding b_def [symmetric] by (intro le) simp
    moreover have "\<exists>s \<in> set (mounts @ [spec]). covers pv home tgt s c" using new(1) by simp
    ultimately show ?thesis unfolding fold by blast
  qed
qed simp

text \<open>The mount that backs a guest path is the innermost one: when some mount with a host covers the
  path, the result is such a mount and no other covers it with a longer guest path, so a
  read-only mount hides a writable one above it and the other way round; without one there is
  no host path.\<close>

theorem coveringMount_innermost:
  "(if \<exists>spec \<in> set mounts. \<exists>m. covers pv home tgt spec m
    then (\<exists>spec \<in> set mounts. covers pv home tgt spec (coveringMount pv home mounts tgt)) \<and>
         (\<nexists>m. (\<exists>spec \<in> set mounts. covers pv home tgt spec m) \<and>
              length (m_Container m) > length (m_Container (coveringMount pv home mounts tgt))) \<and>
         MountHostPath pv home mounts tgt =
           Some (m_Host (coveringMount pv home mounts tgt) @
                 TrimPrefix tgt (m_Container (coveringMount pv home mounts tgt)))
    else MountHostPath pv home mounts tgt = None \<and> ReadOnlyMountCoversPath pv home mounts tgt = None)"
proof -
  let ?b = "coveringMount pv home mounts tgt"
  note f = cover_fold [of pv home tgt no_mount mounts, folded coveringMount_def]
  show ?thesis
  proof (cases "\<exists>spec \<in> set mounts. \<exists>m. covers pv home tgt spec m")
    case True
    then obtain spec m where sm: "spec \<in> set mounts" "covers pv home tgt spec m" by blast
    have "m_Container m \<noteq> []" by (rule covers_container [OF sm(2)])
    with f sm have "?b \<noteq> no_mount" by (auto simp: no_mount_def)
    with f have c: "\<exists>spec \<in> set mounts. covers pv home tgt spec ?b" by blast
    then have "m_Host ?b \<noteq> []" by (auto simp: covers_def)
    with True c f show ?thesis by (auto simp: MountHostPath_def Let_def not_less)
  next
    case False
    with f have "?b = no_mount" by blast
    with False show ?thesis by (simp add: MountHostPath_def ReadOnlyMountCoversPath_def no_mount_def)
  qed
qed

end
