(* ===== verification/EnvFile.thy ===== *)
theory EnvFile
  imports Agent Mounts
begin

text \<open>
  Environment files, environment entries and secrets of the configuration
  (\<open>internal/config/envfile.go\<close> and the checks of \<open>config.go\<close> on \<open>env\<close>, \<open>env_file\<close> and
  \<open>secrets\<close>). What the code asks the host and its libraries for is the record \<open>sys\<close>: the home and
  working directories, the files, compose-go's volume parser, moby's key parser, \<open>url.Parse\<close>,
  \<open>time.ParseDuration\<close> and \<open>strings.ToLower\<close> on strings that are not ASCII.
\<close>

section \<open>The host\<close>

datatype stat_result = Exists | NotExist | StatFailed

text \<open>\<open>sys_read\<close> is the content of a file, None when it cannot be opened or read.\<close>

record sys =
  sys_home :: "string option"
  sys_wd :: "string option"
  sys_stat :: "string \<Rightarrow> stat_result"
  sys_read :: "string \<Rightarrow> string option"
  sys_ParseVolume :: "string \<Rightarrow> (string \<times> string) option"
  sys_ToBytes :: "string \<Rightarrow> string option"
  sys_url_Host :: "string \<Rightarrow> string option"
  sys_ParseDuration :: "string \<Rightarrow> int option"
  sys_lower :: "string \<Rightarrow> string"

section \<open>Character classes of the regular expressions\<close>

definition is_lower :: "char \<Rightarrow> bool" where
  "is_lower c \<longleftrightarrow> (0x61 :: nat) \<le> of_char c \<and> of_char c \<le> (0x7A :: nat)"

definition is_upper :: "char \<Rightarrow> bool" where
  "is_upper c \<longleftrightarrow> (0x41 :: nat) \<le> of_char c \<and> of_char c \<le> (0x5A :: nat)"

definition is_alnum :: "char \<Rightarrow> bool" where
  "is_alnum c \<longleftrightarrow> is_lower c \<or> is_upper c \<or> is_digit c"

definition secretNameRe :: "string \<Rightarrow> bool" where
  "secretNameRe s \<longleftrightarrow> s \<noteq> [] \<and> list_all (\<lambda>c. is_alnum c \<or> c = CHR ''_'' \<or> c = CHR ''-'') s"

definition envVarNameRe :: "string \<Rightarrow> bool" where
  "envVarNameRe s \<longleftrightarrow>
     s \<noteq> [] \<and> \<not> is_digit (hd s) \<and> list_all (\<lambda>c. is_alnum c \<or> c = CHR ''_'') s"

section \<open>Reserved names\<close>

definition reservedEnvKeys :: "string list" where
  "reservedEnvKeys = [''NODE_USE_SYSTEM_CA'', ''SSH_AUTH_SOCK'', ''JAILOC'', ''JAILOC_WORKSPACE'']"

definition reservedEnvKey :: "string \<Rightarrow> bool" where
  "reservedEnvKey key \<longleftrightarrow>
     key \<in> set reservedEnvKeys \<or>
     list_ex (\<lambda>h. key = TUIPlugin_Env (h_TUIPlugin h) \<or>
                  list_ex (\<lambda>kv. fst (Cut kv ''='') = key) (h_Env h)) All_harnesses"

definition reservedSecretEnvName :: "string \<Rightarrow> bool" where
  "reservedSecretEnvName name \<longleftrightarrow> reservedEnvKey name \<or> name = ''HOME'' \<or> name = ''PATH''"

section \<open>Environment files\<close>

definition TrimRightBlank :: "string \<Rightarrow> string" where
  "TrimRightBlank s = rev (dropWhile (\<lambda>c. c = CHR '' '' \<or> c = CHR 0x09) (rev s))"

definition parseValue :: "string \<Rightarrow> string" where
  "parseValue raw =
     (let s = TrimSpace raw in
      case s of
        [] \<Rightarrow> []
      | c # r \<Rightarrow>
          if c = CHR 0x22 then (case Index r [CHR 0x22] of Some i \<Rightarrow> take i r | None \<Rightarrow> r)
          else if c = CHR 0x27 then (case Index r [CHR 0x27] of Some i \<Rightarrow> take i r | None \<Rightarrow> r)
          else TrimRightBlank (case Index s '' #'' of Some i \<Rightarrow> take i s | None \<Rightarrow> s))"

text \<open>
  The lines of \<open>bufio.ScanLines\<close>: without the newline and a carriage return before it; no line
  after the last newline. The scanner gives up on a line that does not fit its buffer of 64 KiB
  with the byte that ends it.
\<close>

definition drop_last_empty :: "string list \<Rightarrow> string list" where
  "drop_last_empty ls = (if ls \<noteq> [] \<and> last ls = [] then butlast ls else ls)"

definition raw_lines :: "string \<Rightarrow> string list" where
  "raw_lines content = drop_last_empty (Split CHR 0x0A content)"

definition MaxScanTokenSize :: nat where "MaxScanTokenSize = 65536"

definition scan_lines :: "string \<Rightarrow> string list option" where
  "scan_lines content =
     (let ls = raw_lines content in
      if list_ex (\<lambda>l. length l \<ge> MaxScanTokenSize) ls then None
      else Some (map (\<lambda>l. TrimSuffix l [CHR 0x0D]) ls))"

text \<open>The body of the loop: the entry of a line, if it has one.\<close>

definition env_line :: "string \<Rightarrow> string option" where
  "env_line line =
     (let trimmed = TrimSpace line in
      if trimmed = [] \<or> HasPrefix trimmed ''#'' then None
      else case Cut trimmed ''='' of (rawKey, rawValue, hasEquals) \<Rightarrow>
        if \<not> hasEquals then None
        else Some (TrimSpace rawKey @ ''='' @ parseValue rawValue))"

datatype env_error =
    ReadingEnvFile string
  | NotKeyValue string
  | EmptyKey string
  | ReservedKey string
  | RelativeEnvFile string
  | MissingEnvFile string
  | StatEnvFile string

definition ParseEnvFile :: "sys \<Rightarrow> string \<Rightarrow> (env_error, string list) result" where
  "ParseEnvFile sy path =
     (case sys_read sy path of
        None \<Rightarrow> Inl (ReadingEnvFile path)
      | Some content \<Rightarrow>
          (case scan_lines content of
             None \<Rightarrow> Inl (ReadingEnvFile path)
           | Some ls \<Rightarrow> Inr (List.map_filter env_line ls)))"

definition check_env_entry :: "string \<Rightarrow> (env_error, unit) result" where
  "check_env_entry entry =
     (case Cut entry ''='' of (key, _, hasEq) \<Rightarrow>
        if \<not> hasEq then Inl (NotKeyValue entry)
        else if key = [] then Inl (EmptyKey entry)
        else if reservedEnvKey key then Inl (ReservedKey key)
        else Inr ())"

definition validateEnvEntries :: "string list \<Rightarrow> (env_error, unit) result" where
  "validateEnvEntries entries = for_each check_env_entry entries"

definition check_env_file :: "sys \<Rightarrow> string \<Rightarrow> (env_error, unit) result" where
  "check_env_file sy p =
     (if \<not> IsAbs p then Inl (RelativeEnvFile p)
      else case sys_stat sy p of
             NotExist \<Rightarrow> Inl (MissingEnvFile p)
           | StatFailed \<Rightarrow> Inl (StatEnvFile p)
           | Exists \<Rightarrow> rbind (ParseEnvFile sy p) validateEnvEntries)"

definition validateEnvFiles :: "sys \<Rightarrow> string list \<Rightarrow> (env_error, unit) result" where
  "validateEnvFiles sy paths = for_each (check_env_file sy) paths"

section \<open>Secrets\<close>

record Secret =
  FromEnv :: string
  FromFile :: string
  FromCommand :: string
  TTL :: string

record Secrets =
  sec_Env :: "(string \<times> Secret) list"
  sec_File :: "(string \<times> Secret) list"

datatype secretDest = destEnv | destFile

datatype secret_error =
    SecretEnvName string
  | ReservedSecret string
  | SecretFileName string
  | NotOneSource string
  | BlankCommand string
  | SecretSourceName string
  | RelativeSecretFile string
  | TTLWithoutCommand string
  | BadTTL string
  | InBothTables string
  | ExpandSecretFile string

definition validateEnvVarName :: "string \<Rightarrow> bool" where
  "validateEnvVarName name = envVarNameRe name"

definition validateSecretFile :: "string \<Rightarrow> bool" where
  "validateSecretFile path = IsAbs path"

definition sources :: "Secret \<Rightarrow> nat" where
  "sources secret = countp (\<lambda>s. s \<noteq> []) [FromEnv secret, FromFile secret, FromCommand secret]"

definition check_secret_name :: "string \<Rightarrow> secretDest \<Rightarrow> (secret_error, unit) result" where
  "check_secret_name name dest =
     (case dest of
        destEnv \<Rightarrow>
          rbind (rguard (\<not> validateEnvVarName name) (SecretEnvName name)) (\<lambda>_.
          rguard (reservedSecretEnvName name) (ReservedSecret name))
      | destFile \<Rightarrow> rguard (\<not> secretNameRe name) (SecretFileName name))"

definition check_ttl :: "sys \<Rightarrow> string \<Rightarrow> Secret \<Rightarrow> (secret_error, unit) result" where
  "check_ttl sy name secret =
     (if TTL secret = [] then Inr ()
      else if FromCommand secret = [] then Inl (TTLWithoutCommand name)
      else case sys_ParseDuration sy (TTL secret) of
             None \<Rightarrow> Inl (BadTTL name)
           | Some d \<Rightarrow> rguard (d \<le> 0) (BadTTL name))"

definition validateSecret :: "sys \<Rightarrow> string \<Rightarrow> Secret \<Rightarrow> secretDest \<Rightarrow> (secret_error, unit) result" where
  "validateSecret sy name secret dest =
     rbind (check_secret_name name dest) (\<lambda>_.
     rbind (rguard (sources secret \<noteq> 1) (NotOneSource name)) (\<lambda>_.
     rbind (rguard (FromCommand secret \<noteq> [] \<and> TrimSpace (FromCommand secret) = []) (BlankCommand name)) (\<lambda>_.
     rbind (rguard (FromEnv secret \<noteq> [] \<and> \<not> validateEnvVarName (FromEnv secret)) (SecretSourceName name)) (\<lambda>_.
     rbind (rguard (FromFile secret \<noteq> [] \<and> \<not> validateSecretFile (FromFile secret)) (RelativeSecretFile name)) (\<lambda>_.
     check_ttl sy name secret)))))"

text \<open>A Go map is an association list; the value of a key of \<open>sorted_keys\<close>.\<close>

definition lookup :: "('k \<times> 'v) list \<Rightarrow> 'k \<Rightarrow> 'v" where
  "lookup m k = the (map_of m k)"

definition validateSecretsBlock :: "sys \<Rightarrow> Secrets \<Rightarrow> (secret_error, unit) result" where
  "validateSecretsBlock sy secrets =
     rbind (for_each (\<lambda>name. rguard (map_of (sec_File secrets) name \<noteq> None) (InBothTables name))
              (sorted_keys (sec_Env secrets))) (\<lambda>_.
     rbind (for_each (\<lambda>name. validateSecret sy name (lookup (sec_Env secrets) name) destEnv)
              (sorted_keys (sec_Env secrets))) (\<lambda>_.
     for_each (\<lambda>name. validateSecret sy name (lookup (sec_File secrets) name) destFile)
              (sorted_keys (sec_File secrets))))"

fun expand_secret_map ::
  "sys \<Rightarrow> string list \<Rightarrow> (string \<times> Secret) list \<Rightarrow> (secret_error, (string \<times> Secret) list) result" where
  "expand_secret_map sy [] m = Inr m"
| "expand_secret_map sy (name # names) m =
     (let secret = lookup m name in
      if FromFile secret = [] then expand_secret_map sy names m
      else rbind (rwrap (\<lambda>_. ExpandSecretFile (FromFile secret)) (ExpandPath (sys_home sy) (FromFile secret)))
             (\<lambda>expanded. expand_secret_map sy names (AList.update name (secret\<lparr>FromFile := expanded\<rparr>) m)))"

definition expandSecretsBlockFiles :: "sys \<Rightarrow> Secrets \<Rightarrow> (secret_error, Secrets) result" where
  "expandSecretsBlockFiles sy secrets =
     rbind (expand_secret_map sy (sorted_keys (sec_Env secrets)) (sec_Env secrets)) (\<lambda>e.
     rbind (expand_secret_map sy (sorted_keys (sec_File secrets)) (sec_File secrets)) (\<lambda>f.
     Inr \<lparr>sec_Env = e, sec_File = f\<rparr>))"

section \<open>Facts\<close>

definition visible :: "char \<Rightarrow> bool" where
  "visible c \<longleftrightarrow> (0x21 :: nat) \<le> of_char c \<and> of_char c \<le> (0x7E :: nat)"

lemma strip_one_head: "list_all (\<lambda>r. r \<noteq> [] \<longrightarrow> hd r \<noteq> c) rs \<Longrightarrow> strip_one rs (c # cs) = None"
  by (induction rs) (auto simp: HasPrefix_iff prefix_def Cons_eq_append_conv)

lemma runes_not_visible:
  "list_all (\<lambda>r. r \<noteq> [] \<longrightarrow> \<not> visible (hd r)) space_runes"
  "list_all (\<lambda>r. r \<noteq> [] \<longrightarrow> \<not> visible (hd r)) (map rev space_runes)"
  by code_simp+

lemma strip_all_visible:
  assumes "list_all (\<lambda>r. r \<noteq> [] \<longrightarrow> \<not> visible (hd r)) rs" and "visible c"
  shows "strip_all rs (c # cs) = c # cs"
proof -
  from assms have "list_all (\<lambda>r. r \<noteq> [] \<longrightarrow> hd r \<noteq> c) rs" by (auto simp: list_all_iff)
  then show ?thesis by (subst strip_all.simps) (simp add: strip_one_head)
qed

text \<open>Stripping runes stops before a byte that is in none of them.\<close>

lemma strip_one_keeps: "list_all (\<lambda>r. c \<notin> set r) rs \<Longrightarrow> c \<in> set s \<Longrightarrow> strip_one rs s = Some t \<Longrightarrow> c \<in> set t"
proof (induction rs)
  case (Cons r rs)
  show ?case
  proof (cases "r \<noteq> [] \<and> HasPrefix s r")
    case True
    then obtain u where "s = r @ u" by (auto simp: HasPrefix_iff prefix_def)
    with True Cons.prems show ?thesis by auto
  qed (use Cons in auto)
qed simp

lemma strip_all_keeps_byte: "list_all (\<lambda>r. c \<notin> set r) rs \<Longrightarrow> c \<in> set s \<Longrightarrow> c \<in> set (strip_all rs s)"
proof (induction rs s rule: strip_all.induct)
  case (1 rs s)
  then show ?case by (subst strip_all.simps) (auto split: option.split dest: strip_one_keeps)
qed

lemma runes_no_hash: "list_all (\<lambda>r. CHR ''#'' \<notin> set r) (map rev space_runes)"
  by code_simp

lemma TrimSpace_visible: "s \<noteq> [] \<Longrightarrow> visible (hd s) \<Longrightarrow> visible (last s) \<Longrightarrow> TrimSpace s = s"
proof -
  assume s: "s \<noteq> []" "visible (hd s)" "visible (last s)"
  have "strip_all space_runes (hd s # tl s) = hd s # tl s"
    by (rule strip_all_visible [OF runes_not_visible(1) s(2)])
  moreover have "strip_all (map rev space_runes) (last s # rev (butlast s)) = last s # rev (butlast s)"
    by (rule strip_all_visible [OF runes_not_visible(2) s(3)])
  moreover have "rev s = last s # rev (butlast s)" using s(1)
    by (metis append_butlast_last_id rev_eq_Cons_iff rev_rev_ident)
  ultimately have "strip_all space_runes s = s" "strip_all (map rev space_runes) (rev s) = rev s"
    using s(1) by (simp, metis)
  then show ?thesis by (simp add: TrimSpace_def)
qed

lemma name_char_visible: "is_alnum c \<or> c = CHR ''_'' \<Longrightarrow> visible c \<and> c \<noteq> CHR ''='' \<and> c \<noteq> CHR ''#'' \<and> c \<noteq> CHR 0x0A"
  by (auto simp: is_alnum_def is_lower_def is_upper_def is_digit_def visible_def)

lemma envVarName_visible:
  assumes "envVarNameRe k"
  shows "k \<noteq> []" and "visible (hd k)" and "visible (last k)" and "hd k \<noteq> CHR ''#''"
    and "CHR ''='' \<notin> set k" and "CHR 0x0A \<notin> set k"
  using assms name_char_visible
  by (auto simp: envVarNameRe_def list_all_iff)

lemma check_env_entry_ok:
  "check_env_entry e = Inr u \<Longrightarrow>
   \<exists>k v. e = k @ ''='' @ v \<and> CHR ''='' \<notin> set k \<and> k \<noteq> [] \<and> \<not> reservedEnvKey k"
  by (cases "Cut e ''=''")
     (auto simp: check_env_entry_def Cut_char_found split: if_split_asm)

text \<open>A file as a tool would write it: comments and quoted entries, one to a line.\<close>

fun env_item_line :: "string + (string \<times> string) \<Rightarrow> string" where
  "env_item_line (Inl comment) = ''#'' @ comment"
| "env_item_line (Inr (k, v)) = k @ ''='' @ [CHR 0x22] @ v @ [CHR 0x22]"

definition env_item_ok :: "string + (string \<times> string) \<Rightarrow> bool" where
  "env_item_ok it \<longleftrightarrow>
     CHR 0x0A \<notin> set (env_item_line it) \<and> length (env_item_line it) < MaxScanTokenSize \<and>
     (case it of Inl c \<Rightarrow> True | Inr (k, v) \<Rightarrow> envVarNameRe k \<and> CHR 0x22 \<notin> set v)"

definition render_env :: "(string + (string \<times> string)) list \<Rightarrow> string" where
  "render_env its = concat (map (\<lambda>it. env_item_line it @ [CHR 0x0A]) its)"

definition item_entry :: "string + (string \<times> string) \<Rightarrow> string option" where
  "item_entry it = (case it of Inl _ \<Rightarrow> None | Inr (k, v) \<Rightarrow> Some (k @ ''='' @ v))"

lemma Split_render: "list_all env_item_ok its \<Longrightarrow> Split CHR 0x0A (render_env its) = map env_item_line its @ [[]]"
proof (induction its)
  case (Cons it its)
  then have "CHR 0x0A \<notin> set (env_item_line it)" by (simp add: env_item_ok_def)
  with Cons show ?case by (simp add: render_env_def Split_append_sep Split_single)
qed (simp add: render_env_def)

lemma quoted_last: "last (k @ ''='' @ [CHR 0x22] @ v @ [CHR 0x22]) = CHR 0x22" by simp

lemma parseValue_quoted:
  assumes "CHR 0x22 \<notin> set v" shows "parseValue (CHR 0x22 # v @ [CHR 0x22]) = v"
proof -
  have "TrimSpace (CHR 0x22 # v @ [CHR 0x22]) = CHR 0x22 # v @ [CHR 0x22]"
    by (rule TrimSpace_visible) (simp_all add: visible_def)
  with assms show ?thesis by (simp add: parseValue_def Let_def Index_append_char)
qed

lemma TrimSpace_hash: "TrimSpace (CHR ''#'' # c) \<noteq> [] \<and> HasPrefix (TrimSpace (CHR ''#'' # c)) ''#''"
proof -
  have 1: "strip_all space_runes (CHR ''#'' # c) = CHR ''#'' # c"
    by (rule strip_all_visible [OF runes_not_visible(1)]) (simp add: visible_def)
  have "suffix (strip_all (map rev space_runes) (rev c @ [CHR ''#''])) (rev c @ [CHR ''#''])"
    by (rule strip_all_suffix)
  moreover have "strip_all (map rev space_runes) (rev c @ [CHR ''#'']) \<noteq> []"
    using strip_all_keeps_byte [OF runes_no_hash, of "rev c @ [CHR ''#'']"] by auto
  ultimately have "\<exists>r. strip_all (map rev space_runes) (rev c @ [CHR ''#'']) = r @ [CHR ''#'']"
    by (metis append_butlast_last_id last_snoc suffix_def last_appendR)
  with 1 show ?thesis by (auto simp: TrimSpace_def HasPrefix_iff)
qed

lemma env_line_item: "env_item_ok it \<Longrightarrow> env_line (env_item_line it) = item_entry it"
proof (cases it)
  case (Inl c)
  then show ?thesis using TrimSpace_hash [of c] by (simp add: env_line_def item_entry_def Let_def)
next
  case (Inr kv)
  assume ok: "env_item_ok it"
  obtain k v where it: "it = Inr (k, v)" using Inr by (cases kv) simp
  with ok have k: "envVarNameRe k" and v: "CHR 0x22 \<notin> set v" by (simp_all add: env_item_ok_def)
  note kv = envVarName_visible [OF k]
  let ?l = "k @ ''='' @ [CHR 0x22] @ v @ [CHR 0x22]"
  have t: "TrimSpace ?l = ?l"
    by (rule TrimSpace_visible) (use kv in \<open>simp_all add: visible_def\<close>)
  have h: "\<not> HasPrefix ?l ''#''" using kv by (cases k) (auto simp: HasPrefix_def)
  have c: "Cut ?l ''='' = (k, CHR 0x22 # v @ [CHR 0x22], True)"
    using Cut_char_append [OF kv(5), of "CHR 0x22 # v @ [CHR 0x22]"] by simp
  have "env_line ?l = Some (k @ ''='' @ v)"
    unfolding env_line_def Let_def t c
    using h kv(1) TrimSpace_visible [OF kv(1-3)] parseValue_quoted [OF v] by simp
  with it show ?thesis by (simp add: item_entry_def)
qed

lemma item_no_CR: "env_item_ok (Inr kv) \<Longrightarrow> TrimSuffix (env_item_line (Inr kv)) [CHR 0x0D] = env_item_line (Inr kv)"
  by (cases kv) (auto simp: TrimSuffix_def HasSuffix_iff suffix_def)

lemma env_line_trimmed: "env_item_ok it \<Longrightarrow> env_line (TrimSuffix (env_item_line it) [CHR 0x0D]) = item_entry it"
proof (cases it)
  case (Inl c)
  have "TrimSuffix (CHR ''#'' # c) [CHR 0x0D] = CHR ''#'' # TrimSuffix c [CHR 0x0D]"
    by (cases c rule: rev_cases) (auto simp: TrimSuffix_def HasSuffix_iff suffix_def Cons_eq_append_conv)
  with Inl show ?thesis using TrimSpace_hash [of "TrimSuffix c [CHR 0x0D]"]
    by (simp add: env_line_def item_entry_def Let_def)
next
  case (Inr kv)
  assume "env_item_ok it"
  with Inr show ?thesis by (simp add: item_no_CR env_line_item del: env_item_line.simps)
qed

section \<open>Properties\<close>

text \<open>Environment files round trip: from a file of comments and of entries written
  \<open>KEY="value"\<close>, one to a line, \<open>ParseEnvFile\<close> returns exactly the entries \<open>KEY=value\<close> in the order
  of the file, whatever the values and the comments contain except a line break and, in a value,
  the quote; no line may reach the scanner's limit of 64 KiB. A value may hold a number sign, an
  equals sign or blanks at its ends.\<close>

theorem env_file_roundtrip:
  assumes "list_all env_item_ok its" and "sys_read sy path = Some (render_env its)"
  shows "ParseEnvFile sy path = Inr (List.map_filter item_entry its)"
proof -
  have ls: "raw_lines (render_env its) = map env_item_line its"
    by (simp add: raw_lines_def drop_last_empty_def Split_render [OF assms(1)])
  have "\<not> list_ex (\<lambda>l. length l \<ge> MaxScanTokenSize) (map env_item_line its)"
    using assms(1) by (force simp: list_ex_iff list_all_iff env_item_ok_def)
  then have "scan_lines (render_env its) = Some (map (\<lambda>it. TrimSuffix (env_item_line it) [CHR 0x0D]) its)"
    by (simp add: scan_lines_def ls)
  moreover have "List.map_filter env_line (map (\<lambda>it. TrimSuffix (env_item_line it) [CHR 0x0D]) its) =
      List.map_filter item_entry its"
    using assms(1)
    by (induction its) (auto simp: env_line_trimmed List.map_filter_simps simp del: env_item_line.simps split: option.split)
  ultimately show ?thesis using assms(2) by (simp add: ParseEnvFile_def)
qed

definition env_example :: "(string + (string \<times> string)) list" where
  "env_example = [Inl '' tokens'', Inr (''A_1'', '' x # y=z ''), Inr (''B'', [])]"

definition sys_example :: sys where
  "sys_example =
     \<lparr>sys_home = Some ''/home/u'', sys_wd = Some ''/work'', sys_stat = \<lambda>_. Exists,
      sys_read = \<lambda>p. if p = ''/e'' then Some (render_env env_example) else None,
      sys_ParseVolume = \<lambda>s. case Cut s '':'' of (h, r, _) \<Rightarrow> Some (h, fst (Cut r '':'')),
      sys_ToBytes = \<lambda>s. Some s, sys_url_Host = \<lambda>_. Some ''h'', sys_ParseDuration = \<lambda>_. Some 1,
      sys_lower = \<lambda>s. s\<rparr>"

theorem env_file_roundtrip_witness:
  "list_all env_item_ok env_example \<and>
   ParseEnvFile sys_example ''/e'' = Inr [''A_1= x # y=z '', ''B='']"
proof -
  have ok: "list_all env_item_ok env_example" by code_simp
  have e: "List.map_filter item_entry env_example = [''A_1= x # y=z '', ''B='']" by code_simp
  have "ParseEnvFile sys_example ''/e'' = Inr (List.map_filter item_entry env_example)"
    by (rule env_file_roundtrip [OF ok]) (simp add: sys_example_def)
  with ok e show ?thesis by simp
qed

end
