(* ===== verification/Ports.thy ===== *)
theory Ports
  imports Mounts
begin

text \<open>
  Published ports and host ports (\<open>internal/config/ports.go\<close>, \<open>host_ports.go\<close>). Both merges share
  the contract \<open>keyed_merge\<close>: entries are kept by a key, an entry of the workspace replaces the
  defaults' entry with the same key in its place.
\<close>

section \<open>Ports\<close>

record PortForward =
  pf_Host :: int
  pf_Guest :: int

datatype port_error =
    PortRange string
  | BadPort string
  | HostListedTwice int
  | BadHostPort string
  | ReservedGuestPort int
  | SocketPath string
  | GuestListedTwice int

text \<open>\<open>UnmarshalTOML\<close> of both entry types: an integer or a string.\<close>

datatype toml_value = TInt int | TString string | TBool bool | TOther

definition UnmarshalPort :: "toml_value \<Rightarrow> string option" where
  "UnmarshalPort v = (case v of TInt i \<Rightarrow> Some (Itoa i) | TString s \<Rightarrow> Some s | _ \<Rightarrow> None)"

definition parsePortNumber :: "string \<Rightarrow> (port_error, int) result" where
  "parsePortNumber s =
     (case Atoi (TrimSpace s) of (n, ok) \<Rightarrow>
        rbind (rguard (\<not> ok \<or> n < 1 \<or> n > 65535) (PortRange s)) (\<lambda>_. Inr n))"

definition ParsePort :: "string \<Rightarrow> (port_error, PortForward) result" where
  "ParsePort p =
     (case Cut p '':'' of (host, guest0, mapped) \<Rightarrow>
        let guest = (if \<not> mapped then host else guest0) in
        case (parsePortNumber host, parsePortNumber guest) of
          (Inr h, Inr g) \<Rightarrow> Inr \<lparr>pf_Host = h, pf_Guest = g\<rparr>
        | _ \<Rightarrow> Inl (BadPort p))"

fun validate_ports_from :: "int list \<Rightarrow> string list \<Rightarrow> (port_error, unit) result" where
  "validate_ports_from seen [] = Inr ()"
| "validate_ports_from seen (p # ps) =
     rbind (ParsePort p) (\<lambda>f.
     if pf_Host f \<in> set seen then Inl (HostListedTwice (pf_Host f))
     else validate_ports_from (pf_Host f # seen) ps)"

definition validatePorts :: "string list \<Rightarrow> (port_error, unit) result" where
  "validatePorts ports = validate_ports_from [] ports"

text \<open>The body of both merge loops: \<open>index\<close> knows the position of every key in \<open>out\<close>.\<close>

definition upsert :: "('f \<Rightarrow> 'k) \<Rightarrow> 'f list \<Rightarrow> 'f \<Rightarrow> 'f list" where
  "upsert key out f =
     (if key f \<in> key ` set out then map (\<lambda>g. if key g = key f then f else g) out else out @ [f])"

definition ok_opt :: "('e, 'a) result \<Rightarrow> 'a option" where
  "ok_opt r = (case r of Inr a \<Rightarrow> Some a | Inl _ \<Rightarrow> None)"

definition MergePorts :: "string list \<Rightarrow> string list \<Rightarrow> PortForward list" where
  "MergePorts defaults workspace =
     foldl (upsert pf_Host) [] (List.map_filter (\<lambda>p. ok_opt (ParsePort p)) (defaults @ workspace))"

section \<open>Host ports\<close>

record HostPortTarget =
  hp_Guest :: int
  hp_HostPort :: int
  hp_Socket :: string

definition reservedGuestPorts :: "int list" where
  "reservedGuestPorts = [22, 53, 2375, 7022, 7023]"

definition ParseHostPort :: "string option \<Rightarrow> string \<Rightarrow> (port_error, HostPortTarget) result" where
  "ParseHostPort home p =
     (case Cut p '':'' of (guest, target0, mapped) \<Rightarrow>
        rbind (rwrap (\<lambda>_. BadHostPort p) (parsePortNumber guest)) (\<lambda>g.
        rbind (rguard (g \<in> set reservedGuestPorts) (ReservedGuestPort g)) (\<lambda>_.
        if \<not> mapped then Inr \<lparr>hp_Guest = g, hp_HostPort = g, hp_Socket = []\<rparr>
        else let tgt = TrimSpace target0 in
          if HasPrefix tgt ''/'' \<or> HasPrefix tgt ''~'' then
            rbind (rwrap (\<lambda>_. SocketPath p) (ExpandPath home tgt)) (\<lambda>path.
            rbind (rguard (\<not> IsAbs path) (SocketPath p)) (\<lambda>_.
            Inr \<lparr>hp_Guest = g, hp_HostPort = 0, hp_Socket = Clean path\<rparr>))
          else
            rbind (rwrap (\<lambda>_. BadHostPort p) (parsePortNumber tgt)) (\<lambda>h.
            Inr \<lparr>hp_Guest = g, hp_HostPort = h, hp_Socket = []\<rparr>))))"

datatype danger = DevTools | ContainerRuntime

definition Dangerous :: "HostPortTarget \<Rightarrow> danger option" where
  "Dangerous t =
     (if hp_HostPort t = 9222 then Some DevTools
      else if Base (hp_Socket t) \<in> {''docker.sock'', ''containerd.sock'', ''podman.sock'', ''buildkitd.sock''}
      then Some ContainerRuntime
      else None)"

fun validate_host_ports_from :: "string option \<Rightarrow> int list \<Rightarrow> string list \<Rightarrow> (port_error, unit) result" where
  "validate_host_ports_from home seen [] = Inr ()"
| "validate_host_ports_from home seen (p # ps) =
     rbind (ParseHostPort home p) (\<lambda>t.
     if hp_Guest t \<in> set seen then Inl (GuestListedTwice (hp_Guest t))
     else validate_host_ports_from home (hp_Guest t # seen) ps)"

definition validateHostPorts :: "string option \<Rightarrow> string list \<Rightarrow> (port_error, unit) result" where
  "validateHostPorts home ports = validate_host_ports_from home [] ports"

definition MergeHostPorts :: "string option \<Rightarrow> string list \<Rightarrow> string list \<Rightarrow> HostPortTarget list" where
  "MergeHostPorts home defaults workspace =
     foldl (upsert hp_Guest) [] (List.map_filter (\<lambda>p. ok_opt (ParseHostPort home p)) (defaults @ workspace))"

section \<open>The contract of the merges\<close>

lemma upsert_distinct: "distinct (map key out) \<Longrightarrow> distinct (map key (upsert key out f))"
proof -
  have e: "map key (map (\<lambda>g. if key g = key f then f else g) out) = map key out" by (induction out) auto
  show "distinct (map key out) \<Longrightarrow> distinct (map key (upsert key out f))"
    unfolding upsert_def by (simp add: e del: map_map)
qed

lemma map_filter_append: "List.map_filter f (xs @ ys) = List.map_filter f xs @ List.map_filter f ys"
  by (simp add: List.map_filter_def)

lemma upsert_find:
  "find (\<lambda>g. key g = k) (upsert key out f) =
     (if key f = k then Some f else find (\<lambda>g. key g = k) out)"
proof -
  have "find (\<lambda>g. key g = k) (map (\<lambda>g. if key g = key f then f else g) out) =
      (if key f = k then (if key f \<in> key ` set out then Some f else None) else find (\<lambda>g. key g = k) out)"
    by (induction out) auto
  moreover have "find (\<lambda>g. key g = k) out = None" if "key f = k" "key f \<notin> key ` set out"
    using that unfolding find_None_iff by (metis image_eqI)
  ultimately show ?thesis by (auto simp: upsert_def find_append split: option.split)
qed

lemma upsert_set: "set (upsert key out f) \<subseteq> insert f (set out)"
  by (auto simp: upsert_def)

lemma find_Some_mem: "find P xs = Some x \<Longrightarrow> x \<in> set xs"
  by (induction xs) (auto split: if_split_asm)

locale keyed_merge =
  fixes merge :: "string list \<Rightarrow> string list \<Rightarrow> 'f list"
    and parse :: "string \<Rightarrow> ('e, 'f) result"
    and key :: "'f \<Rightarrow> int"
  assumes merge_eq: "merge ds ws = foldl (upsert key) [] (List.map_filter (\<lambda>p. ok_opt (parse p)) (ds @ ws))"
begin

lemma merge_distinct: "distinct (map key (merge ds ws))"
proof -
  have "distinct (map key out) \<Longrightarrow> distinct (map key (foldl (upsert key) out fs))" for out fs
    by (induction fs arbitrary: out) (simp_all add: upsert_distinct)
  then show ?thesis by (simp add: merge_eq)
qed

text \<open>For every key the last entry that parses.\<close>

lemma merge_find:
  "find (\<lambda>f. key f = k) (merge ds ws) =
     find (\<lambda>f. key f = k) (rev (List.map_filter (\<lambda>p. ok_opt (parse p)) (ds @ ws)))"
proof -
  have "find (\<lambda>f. key f = k) (foldl (upsert key) [] fs) = find (\<lambda>f. key f = k) (rev fs)" for fs
    by (induction fs rule: rev_induct) (simp_all add: upsert_find)
  then show ?thesis by (simp add: merge_eq)
qed

lemma merge_workspace_wins:
  "find (\<lambda>f. key f = k) (merge ds ws) =
     (case find (\<lambda>f. key f = k) (rev (List.map_filter (\<lambda>p. ok_opt (parse p)) ws)) of
        Some f \<Rightarrow> Some f
      | None \<Rightarrow> find (\<lambda>f. key f = k) (rev (List.map_filter (\<lambda>p. ok_opt (parse p)) ds)))"
  unfolding merge_find map_filter_append rev_append find_append ..

text \<open>Every entry of the table is one that parses.\<close>

lemma merge_parsed: "f \<in> set (merge ds ws) \<Longrightarrow> \<exists>p. parse p = Inr f"
proof -
  assume f: "f \<in> set (merge ds ws)"
  have "set (foldl (upsert key) out fs) \<subseteq> set out \<union> set fs" for out fs
  proof (induction fs arbitrary: out)
    case (Cons x fs)
    from Cons.IH [of "upsert key out x"] upsert_set [of key out x] show ?case by auto
  qed simp
  from this [of "[]"] f have "f \<in> set (List.map_filter (\<lambda>p. ok_opt (parse p)) (ds @ ws))"
    unfolding merge_eq by auto
  then show ?thesis by (auto simp: List.map_filter_def ok_opt_def split: sum.split_asm)
qed

lemma merge_keys: "key ` set (merge ds ws) = key ` set (List.map_filter (\<lambda>p. ok_opt (parse p)) (ds @ ws))"
proof -
  have "k \<in> key ` set xs \<longleftrightarrow> find (\<lambda>f. key f = k) xs \<noteq> None" for k xs
    by (auto simp: find_None_iff)
  then show ?thesis using merge_find [of _ ds ws]
    by (metis (no_types, lifting) set_eqI set_rev)
qed

end

interpretation ports: keyed_merge MergePorts ParsePort pf_Host
  by unfold_locales (simp add: MergePorts_def)

interpretation host_ports: keyed_merge "MergeHostPorts home" "ParseHostPort home" hp_Guest for home
  by unfold_locales (simp add: MergeHostPorts_def)

section \<open>Facts\<close>

lemma parsePortNumber_range: "parsePortNumber s = Inr n \<Longrightarrow> 1 \<le> n \<and> n \<le> 65535"
  by (auto simp: parsePortNumber_def result_simps split: prod.split_asm)

lemma ParsePort_range:
  "ParsePort p = Inr f \<Longrightarrow> 1 \<le> pf_Host f \<and> pf_Host f \<le> 65535 \<and> 1 \<le> pf_Guest f \<and> pf_Guest f \<le> 65535"
  by (auto simp: ParsePort_def Let_def dest!: parsePortNumber_range split: prod.split_asm sum.split_asm)

lemma ParseHostPort_ok:
  assumes "ParseHostPort home p = Inr t"
  shows "1 \<le> hp_Guest t \<and> hp_Guest t \<le> 65535 \<and> hp_Guest t \<notin> set reservedGuestPorts \<and>
     (hp_Socket t = [] \<and> 1 \<le> hp_HostPort t \<and> hp_HostPort t \<le> 65535 \<or>
      hp_HostPort t = 0 \<and> IsAbs (hp_Socket t))"
proof -
  obtain guest tgt mapped where c: "Cut p '':'' = (guest, tgt, mapped)" by (cases "Cut p '':''")
  with assms obtain g where g: "parsePortNumber guest = Inr g" "g \<notin> set reservedGuestPorts"
    by (auto simp: ParseHostPort_def result_simps)
  from assms c g show ?thesis
    by (auto simp: ParseHostPort_def result_simps Let_def Clean_abs dest: parsePortNumber_range
        split: if_split_asm)
qed

lemma validate_ports_from_ok:
  "validate_ports_from seen ps = Inr u \<Longrightarrow>
   \<exists>fs. map ParsePort ps = map Inr fs \<and> distinct (map pf_Host fs) \<and> set seen \<inter> pf_Host ` set fs = {}"
proof (induction ps arbitrary: seen)
  case (Cons p ps)
  then obtain f where f: "ParsePort p = Inr f" "pf_Host f \<notin> set seen"
      "validate_ports_from (pf_Host f # seen) ps = Inr u"
    by (auto simp: result_simps split: if_split_asm)
  from Cons.IH [OF f(3)] obtain fs where "map ParsePort ps = map Inr fs" "distinct (map pf_Host fs)"
      "set (pf_Host f # seen) \<inter> pf_Host ` set fs = {}" by blast
  with f show ?case by (intro exI [of _ "f # fs"]) auto
qed simp

lemma validate_host_ports_from_ok:
  "validate_host_ports_from home seen ps = Inr u \<Longrightarrow>
   \<exists>ts. map (ParseHostPort home) ps = map Inr ts \<and> distinct (map hp_Guest ts) \<and>
        set seen \<inter> hp_Guest ` set ts = {}"
proof (induction ps arbitrary: seen)
  case (Cons p ps)
  then obtain t where t: "ParseHostPort home p = Inr t" "hp_Guest t \<notin> set seen"
      "validate_host_ports_from home (hp_Guest t # seen) ps = Inr u"
    by (auto simp: result_simps split: if_split_asm)
  from Cons.IH [OF t(3)] obtain ts where "map (ParseHostPort home) ps = map Inr ts"
      "distinct (map hp_Guest ts)" "set (hp_Guest t # seen) \<inter> hp_Guest ` set ts = {}" by blast
  with t show ?case by (intro exI [of _ "t # ts"]) auto
qed simp

lemma map_filter_ok: "map parse ps = map Inr fs \<Longrightarrow> List.map_filter (\<lambda>p. ok_opt (parse p)) ps = fs"
proof (induction ps arbitrary: fs)
  case (Cons p ps)
  then show ?case by (cases fs) (auto simp: List.map_filter_def ok_opt_def)
qed (simp add: List.map_filter_def)

lemma find_rev_distinct:
  assumes "distinct (map key fs)" and "f \<in> set fs"
  shows "find (\<lambda>g. key g = key f) (rev fs) = Some f"
proof -
  from assms(2) have "find (\<lambda>g. key g = key f) (rev fs) \<noteq> None" unfolding find_None_iff by auto
  then obtain g where g: "find (\<lambda>g. key g = key f) (rev fs) = Some g" by blast
  then have "g \<in> set fs" "key g = key f" by (auto simp: find_Some_iff) (metis length_rev nth_mem set_rev)
  with assms have "g = f" by (auto simp: distinct_map dest: inj_onD)
  with g show ?thesis by simp
qed

section \<open>Properties\<close>

text \<open>Published ports and host ports of a workspace: from lists that validate, the merged tables
  have one entry per host port (respectively guest port), hold exactly the workspace's entries
  and those of the defaults whose port the workspace does not name, keep every port within
  1 to 65535, and no host port maps a gateway port jailoc serves itself (SSH, DNS, Docker, the
  SSH and GPG agents); every host port has either a port or an absolute socket path.\<close>

theorem port_tables_merge:
  assumes "validatePorts ds = Inr ()" and "validatePorts ws = Inr ()"
    and "validateHostPorts home dh = Inr ()" and "validateHostPorts home wh = Inr ()"
  shows "distinct (map pf_Host (MergePorts ds ws)) \<and>
     (\<forall>f. f \<in> set (MergePorts ds ws) \<longleftrightarrow>
        Inr f \<in> ParsePort ` set ws \<or>
        Inr f \<in> ParsePort ` set ds \<and> (\<nexists>g. Inr g \<in> ParsePort ` set ws \<and> pf_Host g = pf_Host f)) \<and>
     list_all (\<lambda>f. 1 \<le> pf_Host f \<and> pf_Host f \<le> 65535 \<and> 1 \<le> pf_Guest f \<and> pf_Guest f \<le> 65535) (MergePorts ds ws) \<and>
     distinct (map hp_Guest (MergeHostPorts home dh wh)) \<and>
     list_all (\<lambda>t. hp_Guest t \<notin> set reservedGuestPorts \<and>
        (hp_Socket t = [] \<and> 1 \<le> hp_HostPort t \<and> hp_HostPort t \<le> 65535 \<or>
         hp_HostPort t = 0 \<and> IsAbs (hp_Socket t))) (MergeHostPorts home dh wh)"
proof -
  from validate_ports_from_ok [of "[]" ds] assms(1) obtain fd where
    fd: "map ParsePort ds = map Inr fd" "distinct (map pf_Host fd)" by (auto simp: validatePorts_def)
  from validate_ports_from_ok [of "[]" ws] assms(2) obtain fw where
    fw: "map ParsePort ws = map Inr fw" "distinct (map pf_Host fw)" by (auto simp: validatePorts_def)
  have in_set: "Inr f \<in> ParsePort ` set ps \<longleftrightarrow> f \<in> set fs" if "map ParsePort ps = map Inr fs" for ps fs f
    using arg_cong [OF that, of set] by auto
  note mf = map_filter_ok [OF fd(1)] map_filter_ok [OF fw(1)]
  have found: "f \<in> set (MergePorts ds ws) \<longleftrightarrow> find (\<lambda>g. pf_Host g = pf_Host f) (MergePorts ds ws) = Some f" for f
    using find_rev_distinct [of pf_Host "rev (MergePorts ds ws)" f] ports.merge_distinct [of ds ws]
    by (auto simp: find_Some_iff rev_map [symmetric])
  have mem: "f \<in> set (MergePorts ds ws) \<longleftrightarrow> f \<in> set fw \<or>
      f \<in> set fd \<and> (\<nexists>g. g \<in> set fw \<and> pf_Host g = pf_Host f)" for f
  proof (cases "\<exists>g. g \<in> set fw \<and> pf_Host g = pf_Host f")
    case True
    then obtain g where g: "g \<in> set fw" "pf_Host g = pf_Host f" by blast
    from find_rev_distinct [OF fw(2) g(1)] g(2) True show ?thesis
      using find_rev_distinct [OF fw(2), of f] find_Some_mem [of _ "rev fw" f]
      by (auto simp: found ports.merge_workspace_wins mf)
  next
    case False
    then have "find (\<lambda>g. pf_Host g = pf_Host f) (rev fw) = None" by (auto simp: find_None_iff)
    with False show ?thesis using find_rev_distinct [OF fd(2), of f]
      by (auto simp: found ports.merge_workspace_wins mf dest: find_Some_mem)
  qed
  have r: "list_all (\<lambda>f. 1 \<le> pf_Host f \<and> pf_Host f \<le> 65535 \<and> 1 \<le> pf_Guest f \<and> pf_Guest f \<le> 65535)
      (MergePorts ds ws)"
    unfolding list_all_iff using ports.merge_parsed ParsePort_range by meson
  have h: "list_all (\<lambda>t. hp_Guest t \<notin> set reservedGuestPorts \<and>
        (hp_Socket t = [] \<and> 1 \<le> hp_HostPort t \<and> hp_HostPort t \<le> 65535 \<or>
         hp_HostPort t = 0 \<and> IsAbs (hp_Socket t))) (MergeHostPorts home dh wh)"
    unfolding list_all_iff using host_ports.merge_parsed ParseHostPort_ok by meson
  have m: "\<forall>f. f \<in> set (MergePorts ds ws) \<longleftrightarrow> Inr f \<in> ParsePort ` set ws \<or>
        Inr f \<in> ParsePort ` set ds \<and> (\<nexists>g. Inr g \<in> ParsePort ` set ws \<and> pf_Host g = pf_Host f)"
    unfolding in_set [OF fd(1)] in_set [OF fw(1)] using mem by blast
  show ?thesis
    by (intro conjI ports.merge_distinct host_ports.merge_distinct r h m)
qed

theorem port_tables_merge_witness:
  "distinct (map pf_Host (MergePorts [''8080'', ''9000:90''] [''8080:80''])) \<and>
   distinct (map hp_Guest (MergeHostPorts (Some ''/home/u'') [''5432''] [''5432:~/pg.sock''])) \<and>
   MergePorts [''8080'', ''9000:90''] [''8080:80''] =
     [\<lparr>pf_Host = 8080, pf_Guest = 80\<rparr>, \<lparr>pf_Host = 9000, pf_Guest = 90\<rparr>] \<and>
   MergeHostPorts (Some ''/home/u'') [''5432''] [''5432:~/pg.sock''] =
     [\<lparr>hp_Guest = 5432, hp_HostPort = 0, hp_Socket = ''/home/u/pg.sock''\<rparr>]"
proof -
  have v: "validatePorts [''8080'', ''9000:90''] = Inr ()" "validatePorts [''8080:80''] = Inr ()"
    "validateHostPorts (Some ''/home/u'') [''5432''] = Inr ()"
    "validateHostPorts (Some ''/home/u'') [''5432:~/pg.sock''] = Inr ()" by code_simp+
  have "MergePorts [''8080'', ''9000:90''] [''8080:80''] =
     [\<lparr>pf_Host = 8080, pf_Guest = 80\<rparr>, \<lparr>pf_Host = 9000, pf_Guest = 90\<rparr>]"
    "MergeHostPorts (Some ''/home/u'') [''5432''] [''5432:~/pg.sock''] =
     [\<lparr>hp_Guest = 5432, hp_HostPort = 0, hp_Socket = ''/home/u/pg.sock''\<rparr>]" by code_simp+
  with port_tables_merge [OF v] show ?thesis by blast
qed

end
