(* ===== verification/Config.thy ===== *)
theory Config
  imports EnvFile Ports Netip
begin

text \<open>
  The configuration (\<open>internal/config/config.go\<close>, \<open>ca_bundle.go\<close>, \<open>profile.go\<close>,
  \<open>detachkeys.go\<close>): its records, the checks of every field and \<open>Validate\<close>, which returns the
  configuration with its paths expanded. A Go map is an association list. A slice whose nil and
  empty values differ in the code (\<open>Args\<close>, \<open>DNSBlockedZones\<close>) is an option; other slices are lists.
\<close>

unbundle bit_operations_syntax

section \<open>Records\<close>

text \<open>A float64: \<open>Finite m e\<close> is \<open>m * 2 ^ e\<close>.\<close>

datatype float64 = NaN | Infinite bool | Finite int int

fun cpu_ok :: "float64 \<Rightarrow> bool" where
  "cpu_ok NaN = False"
| "cpu_ok (Infinite _) = False"
| "cpu_ok (Finite m e) = (m > 0)"

datatype CABundle = AutomaticCABundle | DisabledCABundle | CustomCABundle string

record Profile =
  prof_name :: string

record AgentSettings =
  as_From :: string
  as_Install :: "bool option"
  as_Version :: string
  as_Args :: "string list option"
  as_Mounts :: "string list"
  as_Profile :: "Profile option"

definition no_settings :: AgentSettings where
  "no_settings = \<lparr>as_From = [], as_Install = None, as_Version = [], as_Args = None, as_Mounts = [],
     as_Profile = None\<rparr>"

text \<open>\<open>agents[name]\<close>, the zero value for a name that is not there.\<close>

definition settings_of :: "(string \<times> AgentSettings) list \<Rightarrow> string \<Rightarrow> AgentSettings" where
  "settings_of agents name = (case map_of agents name of None \<Rightarrow> no_settings | Some s \<Rightarrow> s)"

record VMConfig =
  vm_Runner :: string
  vm_LibDir :: string
  vm_Builder :: string

record Defaults =
  d_Backend :: string
  d_Agent :: string
  d_Agents :: "(string \<times> AgentSettings) list"
  d_Env :: "string list"
  d_EnvFile :: "string list"
  d_Mounts :: "string list"
  d_Snapshots :: "string list"
  d_AllowedHosts :: "string list"
  d_AllowedNetworks :: "string list"
  d_Secrets :: Secrets
  d_Image :: string
  d_SSHAuthSock :: bool
  d_GPGAgent :: bool
  d_GitConfig :: "bool option"
  d_CPU :: "float64 option"
  d_Memory :: "string option"
  d_DockerDisk :: "string option"
  d_ExposePort :: "bool option"
  d_EnableDocker :: "bool option"
  d_FilteredDNS :: "bool option"
  d_DNSUpstream :: string
  d_DNSBlockedZones :: "string list option"
  d_CABundle :: "CABundle option"
  d_IsolatedBuild :: "bool option"
  d_ProtectGit :: "bool option"
  d_Ports :: "string list"
  d_HostPorts :: "string list"

record Workspace =
  w_Backend :: string
  w_Agent :: string
  w_Agents :: "(string \<times> AgentSettings) list"
  w_Paths :: "string list"
  w_Mounts :: "string list"
  w_Snapshots :: "string list"
  w_AllowedHosts :: "string list"
  w_AllowedNetworks :: "string list"
  w_Env :: "string list"
  w_EnvFile :: "string list"
  w_Secrets :: Secrets
  w_BuildContext :: string
  w_Dockerfile :: string
  w_Image :: string
  w_SSHAuthSock :: "bool option"
  w_GPGAgent :: "bool option"
  w_GitConfig :: "bool option"
  w_CPU :: "float64 option"
  w_Memory :: "string option"
  w_DockerDisk :: "string option"
  w_ExposePort :: "bool option"
  w_EnableDocker :: "bool option"
  w_FilteredDNS :: "bool option"
  w_DNSUpstream :: string
  w_DNSBlockedZones :: "string list option"
  w_CABundle :: "CABundle option"
  w_IsolatedBuild :: "bool option"
  w_ProtectGit :: "bool option"
  w_Ports :: "string list"
  w_HostPorts :: "string list"

record Config =
  c_Mode :: string
  c_PasswordMode :: string
  c_DetachKeys :: string
  c_BaseDockerfile :: string
  c_VM :: VMConfig
  c_Defaults :: Defaults
  c_Workspaces :: "(string \<times> Workspace) list"

datatype config_error =
    NilConfig
  | V1Setting string
  | BadDetachKeys string
  | BadBuilder string
  | BadPath string
  | BadDockerfile string
  | BadBackend string
  | BadAgent string
  | BadProfile string
  | BadCABundle
  | BadCPU
  | BadMemory string
  | BadUpstream string
  | BadZone string
  | BadName string
  | PathConflict string
  | BadCIDR string
  | BadImage string
  | DNSIncomplete
  | HostInBlockedZone string string
  | DockerWithProtectGit
  | EnvErr env_error
  | SecretErr secret_error
  | MountErr mount_error
  | PortErr port_error
  | NoWorkspace string
  | LoadErr string
  | InDefaults config_error
  | InWorkspace string config_error

section \<open>Regular expressions\<close>

definition workspaceNameRe :: "string \<Rightarrow> bool" where
  "workspaceNameRe s \<longleftrightarrow> s \<noteq> [] \<and> list_all (\<lambda>c. is_lower c \<or> is_digit c \<or> c = CHR ''-'') s"

definition agentNameRe :: "string \<Rightarrow> bool" where
  "agentNameRe s \<longleftrightarrow> s \<noteq> [] \<and> list_all (\<lambda>c. is_lower c \<or> is_digit c \<or> c = CHR ''-'') s"

text \<open>\<open>^[1-9][0-9]*[kmgKMG]?$\<close>: at most one unit at the end, digits without a leading zero before it.\<close>

definition validMemory :: "string \<Rightarrow> bool" where
  "validMemory s \<longleftrightarrow>
     (let ds = (if s \<noteq> [] \<and> last s \<in> set ''kmgKMG'' then butlast s else s)
      in ds \<noteq> [] \<and> hd ds \<noteq> CHR ''0'' \<and> list_all is_digit ds)"

definition version_tail :: "string \<Rightarrow> bool" where
  "version_tail s \<longleftrightarrow> s \<noteq> [] \<and> list_all (\<lambda>c. is_alnum c \<or> c = CHR ''.'' \<or> c = CHR ''-'') s"

text \<open>Three numbers, an optional pre-release after the first minus, build data after the first plus.\<close>

definition agentVersionRe :: "string \<Rightarrow> bool" where
  "agentVersionRe v \<longleftrightarrow>
     (case Cut v ''+'' of (core, build, hasBuild) \<Rightarrow>
      case Cut core ''-'' of (nums, pre, hasPre) \<Rightarrow>
        (hasBuild \<longrightarrow> version_tail build) \<and> (hasPre \<longrightarrow> version_tail pre) \<and>
        length (Split CHR ''.'' nums) = 3 \<and>
        list_all (\<lambda>p. p \<noteq> [] \<and> list_all is_digit p) (Split CHR ''.'' nums))"

definition dnsLabelRe :: "string \<Rightarrow> bool" where
  "dnsLabelRe s \<longleftrightarrow>
     s \<noteq> [] \<and> is_alnum (hd s) \<and> is_alnum (last s) \<and> list_all (\<lambda>c. is_alnum c \<or> c = CHR ''-'') s"

section \<open>Settings with their own TOML types\<close>

definition CABundle_Automatic :: "CABundle \<Rightarrow> bool" where
  "CABundle_Automatic b \<longleftrightarrow> b = AutomaticCABundle"

definition CABundle_Enabled :: "CABundle \<Rightarrow> bool" where
  "CABundle_Enabled b \<longleftrightarrow> b \<noteq> DisabledCABundle"

definition CABundle_Path :: "CABundle \<Rightarrow> string option" where
  "CABundle_Path b = (case b of CustomCABundle p \<Rightarrow> Some p | _ \<Rightarrow> None)"

definition UnmarshalCABundle :: "toml_value \<Rightarrow> (config_error, CABundle) result" where
  "UnmarshalCABundle v =
     (case v of
        TBool b \<Rightarrow> Inr (if b then AutomaticCABundle else DisabledCABundle)
      | TString s \<Rightarrow> if TrimSpace s = [] then Inl BadCABundle else Inr (CustomCABundle s)
      | _ \<Rightarrow> Inl BadCABundle)"

definition Profile_Name :: "Profile \<Rightarrow> string option" where
  "Profile_Name p = (if prof_name p \<noteq> [] then Some (prof_name p) else None)"

definition Ephemeral :: "Profile \<Rightarrow> bool" where
  "Ephemeral p \<longleftrightarrow> prof_name p = []"

definition UnmarshalProfile :: "toml_value \<Rightarrow> (config_error, Profile) result" where
  "UnmarshalProfile v =
     (case v of
        TBool b \<Rightarrow> if b then Inl (BadProfile ''true'') else Inr \<lparr>prof_name = []\<rparr>
      | TString s \<Rightarrow> if agentNameRe s then Inr \<lparr>prof_name = s\<rparr> else Inl (BadProfile s)
      | _ \<Rightarrow> Inl (BadProfile []))"

definition ParseDetachKeys :: "sys \<Rightarrow> string \<Rightarrow> (config_error, string) result" where
  "ParseDetachKeys sy s =
     (if s = [] then Inl (BadDetachKeys s) else ropt (BadDetachKeys s) (sys_ToBytes sy s))"

section \<open>Checks of single fields\<close>

definition validateDockerfileSource :: "sys \<Rightarrow> string \<Rightarrow> (config_error, unit) result" where
  "validateDockerfileSource sy value =
     (if value = [] then Inr ()
      else if IsAbs value then Inr ()
      else if HasPrefix value ''~'' then Inr ()
      else if HasPrefix value ''http://'' \<or> HasPrefix value ''https://'' then
        (case sys_url_Host sy value of
           None \<Rightarrow> Inl (BadDockerfile value)
         | Some host \<Rightarrow> rguard (host = []) (BadDockerfile value))
      else Inl (BadDockerfile value))"

definition BackendDocker :: string where "BackendDocker = ''docker''"
definition BackendVM :: string where "BackendVM = ''vm''"

definition validateBackend :: "string \<Rightarrow> (config_error, unit) result" where
  "validateBackend backend =
     (if backend = [] \<or> backend = BackendVM then Inr ()
      else if backend = BackendDocker then Inl (V1Setting ''backend'')
      else Inl (BadBackend backend))"

definition check_agent_table ::
  "sys \<Rightarrow> (string \<times> AgentSettings) list \<Rightarrow> (string \<times> AgentSettings) list \<Rightarrow> string \<Rightarrow>
     (config_error, unit) result" where
  "check_agent_table sy agents inherited key =
     (let s = settings_of agents key in
      rbind (case Lookup key of
               Some _ \<Rightarrow> rguard (as_From s \<noteq> []) (BadAgent key)
             | None \<Rightarrow>
                 rbind (rguard (\<not> agentNameRe key) (BadAgent key)) (\<lambda>_.
                 let from = (if as_From s \<noteq> [] then as_From s else as_From (settings_of inherited key)) in
                 rbind (rguard (from = []) (BadAgent key)) (\<lambda>_.
                 rguard (Lookup from = None) (BadAgent key)))) (\<lambda>_.
      rbind (rguard (as_Version s \<noteq> [] \<and> \<not> agentVersionRe (as_Version s)) (BadAgent key)) (\<lambda>_.
      rbind (rguard (case as_Profile s of
                       None \<Rightarrow> False
                     | Some p \<Rightarrow> (case Profile_Name p of None \<Rightarrow> False | Some n \<Rightarrow> \<not> agentNameRe n)) (BadAgent key)) (\<lambda>_.
      rwrap MountErr (validateAgentMounts (sys_ParseVolume sy) (sys_home sy) (as_Mounts s))))))"

definition validateAgent ::
  "sys \<Rightarrow> string \<Rightarrow> (string \<times> AgentSettings) list \<Rightarrow> (string \<times> AgentSettings) list \<Rightarrow>
     (config_error, unit) result" where
  "validateAgent sy name agents inherited =
     rbind (for_each (check_agent_table sy agents inherited) (sorted_keys agents)) (\<lambda>_.
     if name = [] then Inr ()
     else if Lookup name \<noteq> None then Inr ()
     else if map_of agents name \<noteq> None then Inr ()
     else if map_of inherited name \<noteq> None then Inr ()
     else Inl (BadAgent name))"

definition explicitTrue :: "bool option \<Rightarrow> bool option \<Rightarrow> bool" where
  "explicitTrue defaults workspace =
     (case workspace of Some b \<Rightarrow> b | None \<Rightarrow> (case defaults of Some b \<Rightarrow> b | None \<Rightarrow> False))"

text \<open>\<open>net.ParseIP\<close> followed by \<open>To4\<close>.\<close>

definition ParseIP4 :: "string \<Rightarrow> u32 option" where
  "ParseIP4 s =
     (case ParseAddr s of
        Some (Addr4 w) \<Rightarrow> Some w
      | Some (Addr6 w z) \<Rightarrow> if z = [] \<and> Is4In6 (Addr6 w z) then Some (low32 0 w) else None
      | _ \<Rightarrow> None)"

text \<open>Unspecified, loopback, multicast or link-local.\<close>

definition unroutable :: "u32 \<Rightarrow> bool" where
  "unroutable w \<longleftrightarrow> w = 0 \<or> drop_bit 24 w = 127 \<or> drop_bit 28 w = 0xE \<or> drop_bit 16 w = 0xA9FE"

definition check_zone :: "string \<Rightarrow> (config_error, unit) result" where
  "check_zone zone =
     (if length zone > 253 \<or> zone = [] \<or> zone = ''.'' \<or>
         list_ex (\<lambda>c. c \<in> set [CHR '' '', CHR 0x09, CHR 0x0D, CHR 0x0A, CHR ''{'', CHR ''}'']) zone
      then Inl (BadZone zone)
      else for_each (\<lambda>label. rguard (\<not> dnsLabelRe label \<or> length label > 63) (BadZone zone))
             (Split CHR ''.'' (TrimSuffix zone ''.'')))"

definition validateDNS :: "string \<Rightarrow> string list \<Rightarrow> (config_error, unit) result" where
  "validateDNS upstream zones =
     rbind (if upstream = [] then Inr ()
            else case ParseIP4 upstream of
                   None \<Rightarrow> Inl (BadUpstream upstream)
                 | Some w \<Rightarrow> rguard (unroutable w) (BadUpstream upstream)) (\<lambda>_.
     for_each check_zone zones)"

text \<open>\<open>net.ParseCIDR\<close>: an address without a zone and a decimal prefix length.\<close>

definition ParseCIDR_ok :: "string \<Rightarrow> bool" where
  "ParseCIDR_ok s \<longleftrightarrow>
     (case Cut s ''/'' of (addr, plen, found) \<Rightarrow>
        found \<and> plen \<noteq> [] \<and> list_all is_digit plen \<and>
        (case ParseAddr addr of
           Some (Addr4 _) \<Rightarrow> decimal plen \<le> 32
         | Some (Addr6 _ z) \<Rightarrow> z = [] \<and> decimal plen \<le> 128
         | _ \<Rightarrow> False))"

definition mergeDedup :: "string list \<Rightarrow> string list \<Rightarrow> string list" where
  "mergeDedup a b = (if a = [] then b else if b = [] then a else uniq (a @ b))"

definition zones_of :: "string list option \<Rightarrow> string list" where
  "zones_of z = (case z of None \<Rightarrow> [] | Some zs \<Rightarrow> zs)"

section \<open>Expansion\<close>

definition expand :: "sys \<Rightarrow> string \<Rightarrow> (config_error, string) result" where
  "expand sy p = rwrap MountErr (ExpandPath (sys_home sy) p)"

text \<open>The loop of \<open>expandPaths\<close> over mounts.\<close>

definition expand_mount :: "sys \<Rightarrow> string \<Rightarrow> (config_error, string) result" where
  "expand_mount sy spec =
     rbind (rwrap MountErr (ParseMount (sys_ParseVolume sy) (sys_home sy) spec)) (\<lambda>m.
     rbind (expand sy (m_Host m)) (\<lambda>expandedHost.
     Inr (formatMount (m\<lparr>m_Host := expandedHost, m_Container := Clean (m_Container m)\<rparr>))))"

definition expandPaths :: "sys \<Rightarrow> Workspace \<Rightarrow> (config_error, Workspace) result" where
  "expandPaths sy ws =
     rbind (traverse (expand sy) (w_Paths ws)) (\<lambda>paths.
     rbind (if w_BuildContext ws \<noteq> [] then expand sy (w_BuildContext ws) else Inr (w_BuildContext ws)) (\<lambda>bc.
     rbind (if w_Dockerfile ws \<noteq> [] \<and> HasPrefix (w_Dockerfile ws) ''~''
            then expand sy (w_Dockerfile ws) else Inr (w_Dockerfile ws)) (\<lambda>df.
     rbind (traverse (expand sy) (w_EnvFile ws)) (\<lambda>ef.
     rbind (rwrap SecretErr (expandSecretsBlockFiles sy (w_Secrets ws))) (\<lambda>sec.
     rbind (traverse (expand_mount sy) (w_Mounts ws)) (\<lambda>mts.
     Inr (ws\<lparr>w_Paths := paths, w_BuildContext := bc, w_Dockerfile := df, w_EnvFile := ef,
             w_Secrets := sec, w_Mounts := mts\<rparr>)))))))"

section \<open>Validate\<close>

text \<open>The body of the loop over the defaults' mounts.\<close>

definition default_mount :: "sys \<Rightarrow> string \<Rightarrow> (config_error, string) result" where
  "default_mount sy spec =
     rbind (rwrap MountErr (ParseMount (sys_ParseVolume sy) (sys_home sy) spec)) (\<lambda>m0.
     rbind (expand sy (m_Host m0)) (\<lambda>expandedHost.
     let m = m0\<lparr>m_Host := expandedHost, m_Container := Clean (m_Container m0)\<rparr> in
     rbind (rguard (\<not> HasPrefix (m_Container m) ''/'') (MountErr (RelativeContainer spec))) (\<lambda>_.
     rbind (rwrap MountErr (validateContainer (m_Container m))) (\<lambda>_.
     rbind (rwrap MountErr (validateMountHostPath (sys_home sy) (m_Host m))) (\<lambda>_.
     Inr (formatMount m))))))"

text \<open>The limits and the DNS settings of a scope.\<close>

definition check_limits ::
  "float64 option \<Rightarrow> string option \<Rightarrow> string option \<Rightarrow> string \<Rightarrow> string list option \<Rightarrow>
     (config_error, unit) result" where
  "check_limits cpu memory disk upstream zones =
     rbind (rguard (case cpu of None \<Rightarrow> False | Some c \<Rightarrow> \<not> cpu_ok c) BadCPU) (\<lambda>_.
     rbind (case memory of None \<Rightarrow> Inr () | Some m \<Rightarrow> rguard (\<not> validMemory m) (BadMemory m)) (\<lambda>_.
     rbind (case disk of None \<Rightarrow> Inr () | Some m \<Rightarrow> rguard (\<not> validMemory m) (BadMemory m)) (\<lambda>_.
     validateDNS upstream (zones_of zones))))"

definition validate_vm :: "sys \<Rightarrow> VMConfig \<Rightarrow> (config_error, VMConfig) result" where
  "validate_vm sy vm =
     rbind (rguard (vm_Builder vm \<notin> {[], ''auto'', ''docker'', ''vm''}) (BadBuilder (vm_Builder vm))) (\<lambda>_.
     rbind (traverse (\<lambda>p. if p = [] then Inr p
                          else rbind (expand sy p) (\<lambda>expanded.
                               rbind (rguard (\<not> IsAbs expanded) (BadPath p)) (\<lambda>_. Inr expanded)))
              [vm_Runner vm, vm_LibDir vm]) (\<lambda>ps.
     Inr (vm\<lparr>vm_Runner := ps ! 0, vm_LibDir := ps ! 1\<rparr>)))"

definition validate_defaults :: "sys \<Rightarrow> Defaults \<Rightarrow> (config_error, Defaults) result" where
  "validate_defaults sy d =
     rbind (rwrap EnvErr (validateEnvEntries (d_Env d))) (\<lambda>_.
     rbind (traverse (expand sy) (d_EnvFile d)) (\<lambda>ef.
     rbind (rwrap EnvErr (validateEnvFiles sy ef)) (\<lambda>_.
     rbind (rwrap SecretErr (expandSecretsBlockFiles sy (d_Secrets d))) (\<lambda>sec.
     rbind (rwrap SecretErr (validateSecretsBlock sy sec)) (\<lambda>_.
     rbind (traverse (default_mount sy) (d_Mounts d)) (\<lambda>mts.
     rbind (traverse (\<lambda>s. rwrap MountErr (normalizeSnapshot (sys_ParseVolume sy) (sys_home sy) s)) (d_Snapshots d)) (\<lambda>snaps.
     rbind (rwrap PortErr (validatePorts (d_Ports d))) (\<lambda>_.
     rbind (rwrap PortErr (validateHostPorts (sys_home sy) (d_HostPorts d))) (\<lambda>_.
     rbind (check_limits (d_CPU d) (d_Memory d) (d_DockerDisk d) (d_DNSUpstream d) (d_DNSBlockedZones d)) (\<lambda>_.
     Inr (d\<lparr>d_EnvFile := ef, d_Secrets := sec, d_Mounts := mts, d_Snapshots := snaps\<rparr>)))))))))))"

definition check_path :: "string \<Rightarrow> (config_error, unit) result" where
  "check_path p =
     rbind (rguard (TrimSpace p = []) (BadPath p)) (\<lambda>_.
     for_each (\<lambda>pre. rguard (at_or_under p pre) (PathConflict p)) forbiddenMountPrefixes)"

definition check_mount :: "sys \<Rightarrow> string \<Rightarrow> (config_error, unit) result" where
  "check_mount sy spec =
     rbind (rwrap MountErr (ParseMount (sys_ParseVolume sy) (sys_home sy) spec)) (\<lambda>m.
     rbind (rwrap MountErr (validateMountHostPath (sys_home sy) (m_Host m))) (\<lambda>_.
     let cleanedContainer = Clean (m_Container m) in
     rbind (rguard (\<not> HasPrefix cleanedContainer ''/'') (MountErr (RelativeContainer spec))) (\<lambda>_.
     rwrap MountErr (validateContainer cleanedContainer))))"

definition check_image :: "sys \<Rightarrow> Workspace \<Rightarrow> (config_error, unit) result" where
  "check_image sy ws =
     rbind (validateDockerfileSource sy (w_Dockerfile ws)) (\<lambda>_.
     rbind (rguard (w_Image ws \<noteq> [] \<and> TrimSpace (w_Image ws) = []) (BadImage (w_Image ws))) (\<lambda>_.
     rbind (rguard (w_Image ws \<noteq> [] \<and> w_Dockerfile ws \<noteq> []) (BadImage (w_Image ws))) (\<lambda>_.
     rguard (w_Image ws \<noteq> [] \<and> w_BuildContext ws \<noteq> []) (BadImage (w_Image ws)))))"

definition normalized :: "sys \<Rightarrow> string \<Rightarrow> string" where
  "normalized sy s = TrimSuffix (ToLower (sys_lower sy) s) ''.''"

definition in_zone :: "sys \<Rightarrow> string \<Rightarrow> string \<Rightarrow> bool" where
  "in_zone sy host zone \<longleftrightarrow>
     normalized sy host = normalized sy zone \<or> HasSuffix (normalized sy host) (''.'' @ normalized sy zone)"

definition check_filtered_dns :: "sys \<Rightarrow> Defaults \<Rightarrow> Workspace \<Rightarrow> (config_error, unit) result" where
  "check_filtered_dns sy d ws =
     (let enabled = explicitTrue (d_FilteredDNS d) (w_FilteredDNS ws) in
      rbind (rguard (enabled \<and> w_DNSUpstream ws = [] \<and> d_DNSUpstream d = []) DNSIncomplete) (\<lambda>_.
      rbind (rguard (enabled \<and> zones_of (w_DNSBlockedZones ws) = [] \<and> zones_of (d_DNSBlockedZones d) = []) DNSIncomplete) (\<lambda>_.
      if enabled then
        let zones = zones_of (case w_DNSBlockedZones ws of Some zs \<Rightarrow> Some zs | None \<Rightarrow> d_DNSBlockedZones d) in
        for_each (\<lambda>host. for_each (\<lambda>zone. rguard (in_zone sy host zone) (HostInBlockedZone host zone)) zones)
          (mergeDedup (d_AllowedHosts d) (w_AllowedHosts ws))
      else Inr ())))"

definition validate_workspace :: "sys \<Rightarrow> Defaults \<Rightarrow> string \<Rightarrow> Workspace \<Rightarrow> (config_error, Workspace) result" where
  "validate_workspace sy d name ws0 =
     rbind (rguard (\<not> workspaceNameRe name) (BadName name)) (\<lambda>_.
     rbind (expandPaths sy ws0) (\<lambda>ws.
     rbind (for_each check_path (w_Paths ws)) (\<lambda>_.
     rbind (for_each (check_mount sy) (w_Mounts ws)) (\<lambda>_.
     rbind (for_each (\<lambda>cidr. rguard (\<not> ParseCIDR_ok cidr) (BadCIDR cidr)) (w_AllowedNetworks ws)) (\<lambda>_.
     rbind (check_image sy ws) (\<lambda>_.
     rbind (rwrap EnvErr (validateEnvEntries (w_Env ws))) (\<lambda>_.
     rbind (rwrap EnvErr (validateEnvFiles sy (w_EnvFile ws))) (\<lambda>_.
     rbind (rwrap SecretErr (validateSecretsBlock sy (w_Secrets ws))) (\<lambda>_.
     rbind (check_limits (w_CPU ws) (w_Memory ws) (w_DockerDisk ws) (w_DNSUpstream ws) (w_DNSBlockedZones ws)) (\<lambda>_.
     rbind (check_filtered_dns sy d ws) (\<lambda>_.
     rbind (rguard (w_ExposePort ws \<noteq> None) (V1Setting ''expose_port'')) (\<lambda>_.
     rbind (validateAgent sy (w_Agent ws) (w_Agents ws) (d_Agents d)) (\<lambda>_.
     rbind (validateBackend (w_Backend ws)) (\<lambda>_.
     rbind (traverse (\<lambda>s. rwrap MountErr (normalizeSnapshot (sys_ParseVolume sy) (sys_home sy) s)) (w_Snapshots ws)) (\<lambda>snaps.
     rbind (rwrap PortErr (validatePorts (w_Ports ws))) (\<lambda>_.
     rbind (rwrap PortErr (validateHostPorts (sys_home sy) (w_HostPorts ws))) (\<lambda>_.
     rbind (rguard (explicitTrue (d_EnableDocker d) (w_EnableDocker ws) \<and>
                    explicitTrue (d_ProtectGit d) (w_ProtectGit ws)) DockerWithProtectGit) (\<lambda>_.
     Inr (ws\<lparr>w_Snapshots := snaps\<rparr>)))))))))))))))))))"

fun validate_workspaces ::
  "sys \<Rightarrow> Defaults \<Rightarrow> string list \<Rightarrow> (string \<times> Workspace) list \<Rightarrow>
     (config_error, (string \<times> Workspace) list) result" where
  "validate_workspaces sy d [] m = Inr m"
| "validate_workspaces sy d (name # names) m =
     rbind (rwrap (InWorkspace name) (validate_workspace sy d name (lookup m name))) (\<lambda>ws.
     validate_workspaces sy d names (AList.update name ws m))"

definition Validate :: "sys \<Rightarrow> Config option \<Rightarrow> (config_error, Config) result" where
  "Validate sy cfg0 =
     rbind (ropt NilConfig cfg0) (\<lambda>cfg.
     rbind (rguard (c_Mode cfg \<noteq> []) (V1Setting ''mode'')) (\<lambda>_.
     rbind (rguard (c_PasswordMode cfg \<noteq> []) (V1Setting ''password_mode'')) (\<lambda>_.
     rbind (rguard (d_ExposePort (c_Defaults cfg) \<noteq> None) (V1Setting ''defaults: expose_port'')) (\<lambda>_.
     rbind (if c_DetachKeys cfg \<noteq> [] then ParseDetachKeys sy (c_DetachKeys cfg) else Inr []) (\<lambda>_.
     rbind (rwrap InDefaults (validateAgent sy (d_Agent (c_Defaults cfg)) (d_Agents (c_Defaults cfg)) [])) (\<lambda>_.
     rbind (rwrap InDefaults (validateBackend (d_Backend (c_Defaults cfg)))) (\<lambda>_.
     rbind (validate_vm sy (c_VM cfg)) (\<lambda>vm.
     rbind (validateDockerfileSource sy (c_BaseDockerfile cfg)) (\<lambda>_.
     rbind (if HasPrefix (c_BaseDockerfile cfg) ''~'' then expand sy (c_BaseDockerfile cfg)
            else Inr (c_BaseDockerfile cfg)) (\<lambda>df.
     rbind (rwrap InDefaults (validate_defaults sy (c_Defaults cfg))) (\<lambda>d.
     rbind (validate_workspaces sy d (sorted_keys (c_Workspaces cfg)) (c_Workspaces cfg)) (\<lambda>wss.
     Inr (cfg\<lparr>c_VM := vm, c_BaseDockerfile := df, c_Defaults := d, c_Workspaces := wss\<rparr>)))))))))))))"

section \<open>Loading and editing\<close>

text \<open>\<open>decode path\<close> is the TOML decoder on the file; \<open>created\<close> is None when the default file cannot
  be written and otherwise what decoding it gives.\<close>

definition loadFrom ::
  "sys \<Rightarrow> (string \<Rightarrow> Config option) \<Rightarrow> (string \<Rightarrow> Config option option) \<Rightarrow> string \<Rightarrow>
     (config_error, Config) result" where
  "loadFrom sy decode created path =
     (case sys_stat sy path of
        NotExist \<Rightarrow> rbind (ropt (LoadErr path) (created path)) (ropt (LoadErr path))
      | StatFailed \<Rightarrow> Inl (LoadErr path)
      | Exists \<Rightarrow> rbind (ropt (LoadErr path) (decode path)) (\<lambda>cfg. Validate sy (Some cfg)))"

definition Abs :: "sys \<Rightarrow> string \<Rightarrow> string option" where
  "Abs sy p = (if IsAbs p then Some (Clean p) else map_option (\<lambda>wd. PathJoin [wd, p]) (sys_wd sy))"

text \<open>\<open>ovr\<close> is the file set with \<open>--config\<close>, \<open>envp\<close> the value of \<open>JAILOC_CONFIG\<close>.\<close>

definition customPath :: "sys \<Rightarrow> string \<Rightarrow> string \<Rightarrow> string" where
  "customPath sy ovr envp =
     (let p = (if ovr \<noteq> [] then ovr else envp) in
      if p = [] then []
      else let p1 = (case ExpandPath (sys_home sy) p of Inr e \<Rightarrow> e | Inl _ \<Rightarrow> p)
           in case Abs sy p1 of Some a \<Rightarrow> a | None \<Rightarrow> p1)"

definition ConfigPath :: "sys \<Rightarrow> string \<Rightarrow> string \<Rightarrow> string" where
  "ConfigPath sy ovr envp =
     (let p = customPath sy ovr envp in
      if p \<noteq> [] then p
      else case sys_home sy of
             None \<Rightarrow> ''~/.config/jailoc/config.toml''
           | Some home \<Rightarrow> PathJoin [home, ''.config'', ''jailoc'', ''config.toml''])"

definition Load ::
  "sys \<Rightarrow> (string \<Rightarrow> Config option) \<Rightarrow> (string \<Rightarrow> Config option option) \<Rightarrow> string \<Rightarrow> string \<Rightarrow>
     (config_error, Config) result" where
  "Load sy decode created ovr envp =
     (let path = ConfigPath sy ovr envp in
      if customPath sy ovr envp \<noteq> [] \<and> sys_stat sy path = NotExist then Inl (LoadErr path)
      else loadFrom sy decode created path)"

text \<open>The configuration \<open>AddPath\<close> writes back, from the one it decodes.\<close>

definition AddPath :: "Config \<Rightarrow> string \<Rightarrow> string \<Rightarrow> (config_error, Config) result" where
  "AddPath cfg workspace path =
     rbind (ropt (NoWorkspace workspace) (map_of (c_Workspaces cfg) workspace)) (\<lambda>ws.
     Inr (cfg\<lparr>c_Workspaces := AList.update workspace (ws\<lparr>w_Paths := w_Paths ws @ [path]\<rparr>) (c_Workspaces cfg)\<rparr>))"

end
