(* ===== verification/Workspaces.thy ===== *)
theory Workspaces
  imports Config
begin

text \<open>
  Workspaces (\<open>internal/workspace/workspace.go\<close>): \<open>Resolve\<close> merges the defaults, the environment
  files, the agent's tables and the workspace's own settings into the record a start works with;
  \<open>ResolveFromCWD\<close> finds the workspace of a directory.
\<close>

section \<open>Resolved settings\<close>

datatype SecretKind = SecretKindEnv | SecretKindFile

record ResolvedSecret =
  rs_Name :: string
  rs_Kind :: SecretKind
  rs_FromEnv :: string
  rs_FromFile :: string
  rs_FromCommand :: string
  rs_TTL :: int

record Resolved =
  r_Name :: string
  r_Paths :: "string list"
  r_Agent :: Harness
  r_AgentInstall :: bool
  r_AgentArgs :: "string list option"
  r_AgentProfile :: "Profile option"
  r_Mounts :: "string list"
  r_Snapshots :: "string list"
  r_Port :: int
  r_AllowedHosts :: "string list"
  r_AllowedNetworks :: "string list"
  r_BuildContext :: string
  r_Dockerfile :: string
  r_Image :: string
  r_Env :: "string list"
  r_SSHAuthSock :: bool
  r_GPGAgent :: bool
  r_GitConfig :: bool
  r_Secrets :: "ResolvedSecret list"
  r_CPU :: float64
  r_Memory :: string
  r_DockerDisk :: string
  r_EnableDocker :: bool
  r_IsolatedBuild :: bool
  r_ProtectGit :: bool
  r_Ports :: "PortForward list"
  r_HostPorts :: "HostPortTarget list"
  r_FilteredDNS :: bool
  r_DNSUpstream :: string
  r_DNSBlockedZones :: "string list option"
  r_CABundle :: CABundle

datatype resolve_error =
    NotFound string
  | NoHomeDir
  | NoWorkingDir string
  | ResolveEnv env_error
  | UnknownAgent string
  | MergeMountsErr mount_error
  | MergeSnapshotsErr mount_error
  | ErrNoMatch string
  | Ambiguous "string list"

definition BasePort :: int where "BasePort = 4096"

section \<open>Helpers\<close>

definition expandPath :: "sys \<Rightarrow> string \<Rightarrow> (resolve_error, string) result" where
  "expandPath sy path =
     (if \<not> HasPrefix path ''~'' then Inr path
      else rbind (ropt NoHomeDir (sys_home sy)) (\<lambda>home. Inr (PathJoin [home, drop 1 path])))"

definition abs_path :: "sys \<Rightarrow> string \<Rightarrow> (resolve_error, string) result" where
  "abs_path sy p = rbind (expandPath sy p) (\<lambda>e. ropt (NoWorkingDir e) (Abs sy e))"

text \<open>\<open>boolPtrWithDefault\<close>, \<open>stringWithDefault\<close>, \<open>floatWithDefault\<close>, \<open>caBundleWithDefault\<close>\<close>

definition with_default :: "'a option \<Rightarrow> 'a option \<Rightarrow> 'a \<Rightarrow> 'a" where
  "with_default defaultVal override fallback =
     (case override of Some v \<Rightarrow> v | None \<Rightarrow> (case defaultVal of Some v \<Rightarrow> v | None \<Rightarrow> fallback))"

definition boolWithOverride :: "bool \<Rightarrow> bool option \<Rightarrow> bool" where
  "boolWithOverride defaultVal override = (case override of Some v \<Rightarrow> v | None \<Rightarrow> defaultVal)"

text \<open>\<open>cmp.Or\<close>: the first value that is not the zero value.\<close>

definition or_str :: "string \<Rightarrow> string \<Rightarrow> string" where
  "or_str a b = (if a \<noteq> [] then a else b)"

definition or_opt :: "'a option \<Rightarrow> 'a option \<Rightarrow> 'a option" where
  "or_opt a b = (case a of Some v \<Rightarrow> Some v | None \<Rightarrow> b)"

definition mergeUnique :: "string list \<Rightarrow> string list \<Rightarrow> string list" where
  "mergeUnique a b = uniq (a @ b)"

definition workspaceNames :: "Config \<Rightarrow> string list" where
  "workspaceNames cfg = sorted_keys (c_Workspaces cfg)"

fun index_from :: "int \<Rightarrow> string list \<Rightarrow> string \<Rightarrow> int" where
  "index_from i [] name = -1"
| "index_from i (n # ns) name = (if n = name then BasePort + i else index_from (i + 1) ns name)"

definition PortForWorkspace :: "Config \<Rightarrow> string \<Rightarrow> int" where
  "PortForWorkspace cfg name = index_from 0 (workspaceNames cfg) name"

section \<open>Environment\<close>

definition env_key :: "string \<Rightarrow> string" where
  "env_key entry = fst (Cut entry ''='')"

fun dedup_env :: "string list \<Rightarrow> string list \<times> (string \<times> string) list \<Rightarrow> string list \<times> (string \<times> string) list" where
  "dedup_env [] st = st"
| "dedup_env (entry # es) (orderedKeys, latestByKey) =
     dedup_env es
       (if env_key entry \<in> set orderedKeys then orderedKeys else orderedKeys @ [env_key entry],
        AList.update (env_key entry) entry latestByKey)"

definition dedupEnvByKeyLastWins :: "string list \<Rightarrow> string list" where
  "dedupEnvByKeyLastWins entries =
     (case dedup_env entries ([], []) of (orderedKeys, latestByKey) \<Rightarrow> map (lookup latestByKey) orderedKeys)"

section \<open>Secrets\<close>

definition resolved_secret :: "sys \<Rightarrow> SecretKind \<Rightarrow> string \<Rightarrow> Secret \<Rightarrow> ResolvedSecret" where
  "resolved_secret sy kind name secret =
     \<lparr>rs_Name = name, rs_Kind = kind, rs_FromEnv = FromEnv secret, rs_FromFile = FromFile secret,
      rs_FromCommand = FromCommand secret,
      rs_TTL = (if TTL secret \<noteq> [] then (case sys_ParseDuration sy (TTL secret) of Some d \<Rightarrow> d | None \<Rightarrow> 0) else 0)\<rparr>"

definition collect_kind ::
  "sys \<Rightarrow> SecretKind \<Rightarrow> (string \<times> Secret) list \<Rightarrow> (string \<times> ResolvedSecret) list \<Rightarrow> (string \<times> ResolvedSecret) list" where
  "collect_kind sy kind m dst =
     foldl (\<lambda>acc name. AList.update name (resolved_secret sy kind name (lookup m name)) acc) dst (sorted_keys m)"

definition collectSecrets ::
  "sys \<Rightarrow> (string \<times> ResolvedSecret) list \<Rightarrow> Secrets \<Rightarrow> (string \<times> ResolvedSecret) list" where
  "collectSecrets sy dst secrets =
     collect_kind sy SecretKindFile (sec_File secrets) (collect_kind sy SecretKindEnv (sec_Env secrets) dst)"

definition sortedSecrets :: "(string \<times> ResolvedSecret) list \<Rightarrow> ResolvedSecret list" where
  "sortedSecrets m = map (lookup m) (sorted_keys m)"

definition FlattenSecrets :: "sys \<Rightarrow> Secrets \<Rightarrow> ResolvedSecret list" where
  "FlattenSecrets sy secrets = sortedSecrets (collectSecrets sy [] secrets)"

definition mergeSecrets :: "sys \<Rightarrow> Secrets \<Rightarrow> Secrets \<Rightarrow> ResolvedSecret list" where
  "mergeSecrets sy defaults overrides =
     sortedSecrets (collectSecrets sy (collectSecrets sy [] defaults) overrides)"

section \<open>Agent\<close>

definition first_settings :: "AgentSettings \<Rightarrow> AgentSettings \<Rightarrow> AgentSettings" where
  "first_settings settings t =
     settings\<lparr>as_Install := or_opt (as_Install settings) (as_Install t),
              as_Args := or_opt (as_Args settings) (as_Args t),
              as_Version := or_str (as_Version settings) (as_Version t)\<rparr>"

definition resolveAgent :: "Config \<Rightarrow> Workspace \<Rightarrow> (resolve_error, Harness \<times> AgentSettings) result" where
  "resolveAgent cfg ws =
     (let name = or_str (w_Agent ws) (or_str (d_Agent (c_Defaults cfg)) Default_agent);
          table = (\<lambda>n. [settings_of (w_Agents ws) n, settings_of (d_Agents (c_Defaults cfg)) n]);
          own = table name;
          from = or_str (as_From (own ! 0)) (as_From (own ! 1)) in
      rbind (case Lookup name of
               Some h \<Rightarrow> Inr (h, own)
             | None \<Rightarrow> (case Lookup from of
                          None \<Rightarrow> Inl (UnknownAgent name)
                        | Some h \<Rightarrow> Inr (h\<lparr>h_Name := name\<rparr>, own @ table from))) (\<lambda>(h, tables).
      let settings0 = foldl first_settings no_settings tables;
          settings = settings0\<lparr>as_Mounts := concat (map as_Mounts (rev tables)),
                               as_Profile := or_opt (as_Profile (own ! 0)) (as_Profile (own ! 1))\<rparr>
      in Inr (h\<lparr>h_Version := or_str (as_Version settings) (h_Version h)\<rparr>, settings)))"

section \<open>Resolve\<close>

definition Resolve :: "sys \<Rightarrow> Config option \<Rightarrow> string \<Rightarrow> (resolve_error, Resolved) result" where
  "Resolve sy cfg0 name =
     rbind (ropt (NotFound name) cfg0) (\<lambda>cfg.
     rbind (ropt (NotFound name) (map_of (c_Workspaces cfg) name)) (\<lambda>ws.
     let d = c_Defaults cfg in
     rbind (traverse (abs_path sy) (w_Paths ws)) (\<lambda>paths.
     rbind (if w_BuildContext ws \<noteq> [] then abs_path sy (w_BuildContext ws) else Inr []) (\<lambda>buildContext.
     rbind (rwrap ResolveEnv (traverse (ParseEnvFile sy) (uniq (d_EnvFile d @ w_EnvFile ws)))) (\<lambda>fileEntries.
     let mergedEnv = dedupEnvByKeyLastWins (d_Env d @ concat fileEntries @ w_Env ws) in
     rbind (resolveAgent cfg ws) (\<lambda>(h, settings).
     rbind (rwrap MergeMountsErr (MergeMounts (sys_ParseVolume sy) (sys_home sy)
              [DefaultMounts h, as_Mounts settings, d_Mounts d, w_Mounts ws])) (\<lambda>mergedMounts.
     let protectGit = with_default (d_ProtectGit d) (w_ProtectGit ws) False in
     rbind (rwrap MergeSnapshotsErr (MergeMounts (sys_ParseVolume sy) (sys_home sy)
              [d_Snapshots d, w_Snapshots ws])) (\<lambda>snapshots.
     Inr \<lparr>r_Name = name, r_Paths = paths, r_Agent = h,
          r_AgentInstall = (as_Install settings = None \<or> as_Install settings = Some True),
          r_AgentArgs = as_Args settings, r_AgentProfile = as_Profile settings,
          r_Mounts = mergedMounts, r_Snapshots = snapshots,
          r_Port = PortForWorkspace cfg name,
          r_AllowedHosts = mergeUnique (d_AllowedHosts d) (w_AllowedHosts ws),
          r_AllowedNetworks = mergeUnique (d_AllowedNetworks d) (w_AllowedNetworks ws),
          r_BuildContext = buildContext, r_Dockerfile = w_Dockerfile ws, r_Image = w_Image ws,
          r_Env = mergedEnv,
          r_SSHAuthSock = boolWithOverride (d_SSHAuthSock d) (w_SSHAuthSock ws),
          r_GPGAgent = boolWithOverride (d_GPGAgent d) (w_GPGAgent ws),
          r_GitConfig = with_default (d_GitConfig d) (w_GitConfig ws) True,
          r_Secrets = mergeSecrets sy (d_Secrets d) (w_Secrets ws),
          r_CPU = with_default (d_CPU d) (w_CPU ws) (Finite 2 0),
          r_Memory = with_default (d_Memory d) (w_Memory ws) ''4g'',
          r_DockerDisk = with_default (d_DockerDisk d) (w_DockerDisk ws) ''20g'',
          r_EnableDocker = (\<not> protectGit \<and> with_default (d_EnableDocker d) (w_EnableDocker ws) False),
          r_IsolatedBuild = with_default (d_IsolatedBuild d) (w_IsolatedBuild ws) False,
          r_ProtectGit = protectGit,
          r_Ports = MergePorts (d_Ports d) (w_Ports ws),
          r_HostPorts = MergeHostPorts (sys_home sy) (d_HostPorts d) (w_HostPorts ws),
          r_FilteredDNS = with_default (d_FilteredDNS d) (w_FilteredDNS ws) False,
          r_DNSUpstream = (if w_DNSUpstream ws = [] then d_DNSUpstream d else w_DNSUpstream ws),
          r_DNSBlockedZones = (case w_DNSBlockedZones ws of None \<Rightarrow> d_DNSBlockedZones d | Some z \<Rightarrow> Some z),
          r_CABundle = with_default (d_CABundle d) (w_CABundle ws) AutomaticCABundle\<rparr>))))))))"

section \<open>The workspace of a directory\<close>

text \<open>\<open>strings.Trim(p, "/")\<close>\<close>

definition trim_sep :: "string \<Rightarrow> string" where
  "trim_sep p = rev (dropWhile (\<lambda>c. c = CHR ''/'') (rev (dropWhile (\<lambda>c. c = CHR ''/'') p)))"

definition pathSegments :: "string \<Rightarrow> nat" where
  "pathSegments p = (let t = trim_sep p in if t = [] then 0 else length (Split CHR ''/'' t))"

definition pathMatchesCWD :: "string \<Rightarrow> string \<Rightarrow> bool" where
  "pathMatchesCWD base cwd =
     (if base = [] then False
      else let p = (if \<not> HasSuffix base ''/'' then base @ ''/'' else base)
           in HasPrefix (cwd @ ''/'') p \<or> cwd = TrimSuffix p ''/'')"

definition MatchesCWD :: "Resolved option \<Rightarrow> string \<Rightarrow> bool" where
  "MatchesCWD ws cwd = (case ws of None \<Rightarrow> False | Some r \<Rightarrow> list_ex (\<lambda>p. pathMatchesCWD p cwd) (r_Paths r))"

type_synonym best_match = "string list \<times> string \<times> nat"

definition match_path :: "sys \<Rightarrow> string \<Rightarrow> string \<Rightarrow> best_match \<Rightarrow> string \<Rightarrow> best_match" where
  "match_path sy cwd name st raw =
     (case st of (best, matched, segs) \<Rightarrow>
        (case abs_path sy raw of
           Inl _ \<Rightarrow> st
         | Inr p \<Rightarrow>
             if \<not> pathMatchesCWD p cwd then st
             else if best = [] \<or> pathSegments p > segs then ([name], p, pathSegments p)
             else if pathSegments p = segs \<and> name \<notin> set best then (best @ [name], matched, segs)
             else st))"

definition match_workspace :: "sys \<Rightarrow> Config \<Rightarrow> string \<Rightarrow> best_match \<Rightarrow> string \<Rightarrow> best_match" where
  "match_workspace sy cfg cwd st name =
     foldl (match_path sy cwd name) st (w_Paths (lookup (c_Workspaces cfg) name))"

definition best_matches :: "sys \<Rightarrow> Config \<Rightarrow> string \<Rightarrow> best_match" where
  "best_matches sy cfg cwd = foldl (match_workspace sy cfg cwd) ([], [], 0) (workspaceNames cfg)"

definition ResolveFromCWD :: "sys \<Rightarrow> Config \<Rightarrow> string \<Rightarrow> (resolve_error, Resolved \<times> string) result" where
  "ResolveFromCWD sy cfg cwd =
     (case best_matches sy cfg cwd of (best, matched, _) \<Rightarrow>
        (case best of
           [] \<Rightarrow> Inl (ErrNoMatch cwd)
         | [name] \<Rightarrow> rbind (Resolve sy (Some cfg) name) (\<lambda>r. Inr (r, matched))
         | _ \<Rightarrow> Inl (Ambiguous best)))"

end
