(* ===== verification/WorkspaceProps.thy ===== *)
theory WorkspaceProps
  imports Workspaces
begin

text \<open>
  What a validated configuration gives when it is resolved: the agent of every workspace is known,
  the session environment holds no reserved variable, the mounts stay clear of protected
  directories, the secrets are well formed; and which workspace a directory belongs to.
\<close>

section \<open>What Validate has checked\<close>

text \<open>The checks a validated workspace has passed, as facts on the expanded workspace.\<close>

definition checked_workspace :: "sys \<Rightarrow> Defaults \<Rightarrow> string \<Rightarrow> Workspace \<Rightarrow> bool" where
  "checked_workspace sy d name ws \<longleftrightarrow>
     workspaceNameRe name \<and>
     for_each check_path (w_Paths ws) = Inr () \<and>
     for_each (check_mount sy) (w_Mounts ws) = Inr () \<and>
     validateEnvEntries (w_Env ws) = Inr () \<and>
     validateEnvFiles sy (w_EnvFile ws) = Inr () \<and>
     validateSecretsBlock sy (w_Secrets ws) = Inr () \<and>
     validateAgent sy (w_Agent ws) (w_Agents ws) (d_Agents d) = Inr () \<and>
     validatePorts (w_Ports ws) = Inr () \<and>
     validateHostPorts (sys_home sy) (w_HostPorts ws) = Inr () \<and>
     check_filtered_dns sy d ws = Inr () \<and>
     (\<exists>specs. traverse (\<lambda>s. rwrap MountErr (normalizeSnapshot (sys_ParseVolume sy) (sys_home sy) s)) specs = Inr (w_Snapshots ws)) \<and>
     \<not> (explicitTrue (d_EnableDocker d) (w_EnableDocker ws) \<and> explicitTrue (d_ProtectGit d) (w_ProtectGit ws))"

lemma check_filtered_dns_snapshots [simp]:
  "check_filtered_dns sy d (ws\<lparr>w_Snapshots := snaps\<rparr>) = check_filtered_dns sy d ws"
  by (cases "explicitTrue (d_FilteredDNS d) (w_FilteredDNS ws)") (simp_all add: check_filtered_dns_def)

lemma validate_workspace_checked:
  "validate_workspace sy d name ws0 = Inr ws \<Longrightarrow> checked_workspace sy d name ws"
  by (auto simp: validate_workspace_def checked_workspace_def rbind_eq_Inr rguard_eq_Inr rwrap_eq_Inr)

lemma validate_workspaces_checked:
  assumes "validate_workspaces sy d names m = Inr m'" and "distinct names"
  shows "(name \<in> set names \<longrightarrow> (\<exists>ws. map_of m' name = Some ws \<and> checked_workspace sy d name ws)) \<and>
     (name \<notin> set names \<longrightarrow> map_of m' name = map_of m name)"
  using assms
proof (induction names arbitrary: m)
  case (Cons n names)
  from Cons.prems(1) obtain ws where ws: "validate_workspace sy d n (lookup m n) = Inr ws"
      "validate_workspaces sy d names (AList.update n ws m) = Inr m'"
    by (auto simp: rbind_eq_Inr rwrap_eq_Inr)
  from Cons.IH [OF ws(2)] Cons.prems(2) validate_workspace_checked [OF ws(1)] show ?case
    by (auto simp: update_conv)
qed simp

definition checked_defaults :: "sys \<Rightarrow> Defaults \<Rightarrow> bool" where
  "checked_defaults sy d \<longleftrightarrow>
     validateEnvEntries (d_Env d) = Inr () \<and>
     validateEnvFiles sy (d_EnvFile d) = Inr () \<and>
     validateSecretsBlock sy (d_Secrets d) = Inr () \<and>
     validateAgent sy (d_Agent d) (d_Agents d) [] = Inr () \<and>
     validatePorts (d_Ports d) = Inr () \<and>
     validateHostPorts (sys_home sy) (d_HostPorts d) = Inr () \<and>
     (\<exists>specs. traverse (default_mount sy) specs = Inr (d_Mounts d)) \<and>
     (\<exists>specs. traverse (\<lambda>s. rwrap MountErr (normalizeSnapshot (sys_ParseVolume sy) (sys_home sy) s)) specs = Inr (d_Snapshots d))"

lemma Validate_checked:
  assumes "Validate sy (Some cfg0) = Inr cfg"
  shows "checked_defaults sy (c_Defaults cfg)"
    and "map_of (c_Workspaces cfg) name = Some ws \<Longrightarrow> checked_workspace sy (c_Defaults cfg) name ws"
proof -
  from assms obtain d where d: "validate_defaults sy (c_Defaults cfg0) = Inr d"
      "validateAgent sy (d_Agent (c_Defaults cfg0)) (d_Agents (c_Defaults cfg0)) [] = Inr ()"
      "validate_workspaces sy d (sorted_keys (c_Workspaces cfg0)) (c_Workspaces cfg0) = Inr (c_Workspaces cfg)"
      "c_Defaults cfg = d"
    by (auto simp: Validate_def rbind_eq_Inr rwrap_eq_Inr ropt_eq_Inr)
  from d(1,2) show "checked_defaults sy (c_Defaults cfg)"
    unfolding d(4) by (auto simp: checked_defaults_def validate_defaults_def rbind_eq_Inr rwrap_eq_Inr)
  show "checked_workspace sy (c_Defaults cfg) name ws" if "map_of (c_Workspaces cfg) name = Some ws"
  proof (cases "name \<in> set (sorted_keys (c_Workspaces cfg0))")
    case True
    with validate_workspaces_checked [OF d(3) distinct_sorted_keys, of name] that d(4)
    show ?thesis by auto
  next
    case False
    then have "map_of (c_Workspaces cfg0) name = None" by (simp add: map_of_eq_None_iff)
    with validate_workspaces_checked [OF d(3) distinct_sorted_keys, of name] that False
    show ?thesis by simp
  qed
qed

section \<open>Agents\<close>

definition agent_from :: "(string \<times> AgentSettings) list \<Rightarrow> (string \<times> AgentSettings) list \<Rightarrow> string \<Rightarrow> string" where
  "agent_from agents inherited key =
     (if as_From (settings_of agents key) \<noteq> [] then as_From (settings_of agents key)
      else as_From (settings_of inherited key))"

lemma validateAgent_from:
  assumes "validateAgent sy n agents inherited = Inr u" and "map_of agents key \<noteq> None" and "Lookup key = None"
  shows "Lookup (agent_from agents inherited key) \<noteq> None"
proof -
  from assms(2) have "key \<in> set (sorted_keys agents)" by (simp add: map_of_eq_None_iff)
  with assms(1) have "check_agent_table sy agents inherited key = Inr ()"
    by (auto simp: validateAgent_def rbind_eq_Inr for_each_ok)
  with assms(3) show ?thesis
    by (auto simp: check_agent_table_def rbind_eq_Inr rguard_eq_Inr Let_def agent_from_def split: if_split_asm)
qed

lemma validateAgent_name:
  "validateAgent sy n agents inherited = Inr u \<Longrightarrow>
   n = [] \<or> Lookup n \<noteq> None \<or> map_of agents n \<noteq> None \<or> map_of inherited n \<noteq> None"
  by (auto simp: validateAgent_def rbind_eq_Inr split: if_split_asm)

lemma Lookup_Default: "Lookup Default_agent \<noteq> None"
  unfolding Lookup_iff_Names by (simp add: Names_eq Default_agent_def)

text \<open>The agent a workspace runs is built in or derived from a built-in one.\<close>

definition agent_of :: "Config \<Rightarrow> Workspace \<Rightarrow> string" where
  "agent_of cfg ws = or_str (w_Agent ws) (or_str (d_Agent (c_Defaults cfg)) Default_agent)"

lemma checked_agent:
  assumes "checked_defaults sy (c_Defaults cfg)" and "checked_workspace sy (c_Defaults cfg) name ws"
  shows "Lookup (agent_of cfg ws) \<noteq> None \<or>
     Lookup (agent_from (w_Agents ws) (d_Agents (c_Defaults cfg)) (agent_of cfg ws)) \<noteq> None"
proof (cases "Lookup (agent_of cfg ws)")
  case None
  let ?n = "agent_of cfg ws" and ?d = "c_Defaults cfg"
  have d: "validateAgent sy (d_Agent ?d) (d_Agents ?d) [] = Inr ()"
    and w: "validateAgent sy (w_Agent ws) (w_Agents ws) (d_Agents ?d) = Inr ()"
    using assms by (simp_all add: checked_defaults_def checked_workspace_def)
  from None Lookup_Default have "?n = w_Agent ws \<and> w_Agent ws \<noteq> [] \<or> ?n = d_Agent ?d \<and> d_Agent ?d \<noteq> []"
    by (auto simp: agent_of_def or_str_def split: if_split_asm)
  with None validateAgent_name [OF d] validateAgent_name [OF w]
  have "map_of (w_Agents ws) ?n \<noteq> None \<or> map_of (d_Agents ?d) ?n \<noteq> None" by auto
  moreover have "Lookup (agent_from (w_Agents ws) (d_Agents ?d) ?n) \<noteq> None"
    if "map_of (w_Agents ws) ?n = None" "map_of (d_Agents ?d) ?n \<noteq> None"
    using validateAgent_from [OF d that(2) None] that(1)
    by (auto simp: agent_from_def settings_of_def no_settings_def split: if_split_asm)
  ultimately show ?thesis using validateAgent_from [OF w _ None] by blast
qed simp

section \<open>Environment\<close>

definition env_inv :: "string list \<Rightarrow> string list \<times> (string \<times> string) list \<Rightarrow> bool" where
  "env_inv es st \<longleftrightarrow>
     fst st = uniq (map env_key es) \<and> (\<forall>k. map_of (snd st) k = find (\<lambda>e. env_key e = k) (rev es))"

lemma dedup_env_inv: "env_inv pre st \<Longrightarrow> env_inv (pre @ es) (dedup_env es st)"
proof (induction es arbitrary: pre st)
  case (Cons e es)
  obtain ks l where st: "st = (ks, l)" by (cases st)
  have "env_inv (pre @ [e])
      (if env_key e \<in> set ks then ks else ks @ [env_key e], AList.update (env_key e) e l)"
    using Cons.prems st by (auto simp: env_inv_def uniq_snoc update_conv)
  from Cons.IH [OF this] st show ?case by simp
qed simp

lemma find_key: "find (\<lambda>e. key e = k) es = Some e \<Longrightarrow> key e = k \<and> e \<in> set es"
  by (induction es) (auto split: if_split_asm)

lemma dedup_spec:
  "map env_key (dedupEnvByKeyLastWins es) = uniq (map env_key es)"
  "e \<in> set (dedupEnvByKeyLastWins es) \<longleftrightarrow> find (\<lambda>e'. env_key e' = env_key e) (rev es) = Some e"
proof -
  obtain ks l where r: "dedup_env es ([], []) = (ks, l)" by (cases "dedup_env es ([], [])")
  have "env_inv [] ([], [])" by (simp add: env_inv_def uniq_def)
  from dedup_env_inv [OF this, of es] r have i: "ks = uniq (map env_key es)"
      "\<And>k. map_of l k = find (\<lambda>e. env_key e = k) (rev es)" by (simp_all add: env_inv_def)
  have l: "find (\<lambda>e. env_key e = k) (rev es) = Some (lookup l k)" if k: "k \<in> set ks" for k
  proof -
    from k i(1) have "find (\<lambda>e. env_key e = k) (rev es) \<noteq> None" unfolding find_None_iff by auto
    then show ?thesis by (auto simp: lookup_def i(2))
  qed
  have key: "env_key (lookup l k) = k" if "k \<in> set ks" for k using find_key [OF l [OF that]] by simp
  have d: "dedupEnvByKeyLastWins es = map (lookup l) ks" by (simp add: dedupEnvByKeyLastWins_def r)
  have "map env_key (map (lookup l) ks) = ks" using key by (simp add: map_idI)
  with d i(1) show "map env_key (dedupEnvByKeyLastWins es) = uniq (map env_key es)" by simp
  show "e \<in> set (dedupEnvByKeyLastWins es) \<longleftrightarrow> find (\<lambda>e'. env_key e' = env_key e) (rev es) = Some e"
  proof
    assume "e \<in> set (dedupEnvByKeyLastWins es)"
    then obtain k where "k \<in> set ks" "e = lookup l k" by (auto simp: d)
    with l [of k] key [of k] show "find (\<lambda>e'. env_key e' = env_key e) (rev es) = Some e" by simp
  next
    assume f: "find (\<lambda>e'. env_key e' = env_key e) (rev es) = Some e"
    then have "env_key e \<in> set ks" using find_key [OF f] by (simp add: i(1))
    with l [of "env_key e"] f show "e \<in> set (dedupEnvByKeyLastWins es)" by (auto simp: d)
  qed
qed

lemma env_entry_key:
  assumes "check_env_entry e = Inr u" shows "env_key e \<noteq> [] \<and> \<not> reservedEnvKey (env_key e)"
  using check_env_entry_ok [OF assms] by (auto simp: env_key_def)

text \<open>The parts of a resolved workspace.\<close>

lemma Resolve_env:
  assumes "Resolve sy (Some cfg) name = Inr r" and "map_of (c_Workspaces cfg) name = Some ws"
  obtains files where
    "traverse (ParseEnvFile sy) (uniq (d_EnvFile (c_Defaults cfg) @ w_EnvFile ws)) = Inr files"
    "r_Env r = dedupEnvByKeyLastWins (d_Env (c_Defaults cfg) @ concat files @ w_Env ws)"
  using assms by (auto simp: Resolve_def Let_def rbind_eq_Inr rwrap_eq_Inr)

lemma validated_files:
  assumes "validateEnvFiles sy ps = Inr u" and "p \<in> set ps" and "ParseEnvFile sy p = Inr es" and "e \<in> set es"
  shows "check_env_entry e = Inr ()"
proof -
  from assms(1,2) have "check_env_file sy p = Inr ()" by (auto simp: validateEnvFiles_def for_each_ok)
  with assms(3,4) show ?thesis
    by (auto simp: check_env_file_def validateEnvEntries_def for_each_ok split: if_split_asm stat_result.split_asm)
qed

section \<open>Secrets\<close>

lemma key_in_sorted: "map_of m n = Some v \<Longrightarrow> n \<in> set (sorted_keys m)"
  by (simp add: flip: dom_map_of_conv_image_fst) blast

lemma collect_kind_map:
  "map_of (collect_kind sy kind m dst) name =
     (case map_of m name of Some s \<Rightarrow> Some (resolved_secret sy kind name s) | None \<Rightarrow> map_of dst name)"
proof -
  have "map_of (foldl (\<lambda>acc n. AList.update n (f n) acc) dst ns) name =
      (if name \<in> set ns then Some (f name) else map_of dst name)" for ns f
    by (induction ns rule: rev_induct) (auto simp: update_conv)
  moreover have "name \<in> set (sorted_keys m) \<longleftrightarrow> map_of m name \<noteq> None" by (simp add: map_of_eq_None_iff)
  ultimately show ?thesis by (auto simp: collect_kind_def lookup_def)
qed

text \<open>The secret of a name in one scope.\<close>

definition secret_of :: "sys \<Rightarrow> Secrets \<Rightarrow> string \<Rightarrow> ResolvedSecret option" where
  "secret_of sy secrets name =
     (case map_of (sec_File secrets) name of
        Some s \<Rightarrow> Some (resolved_secret sy SecretKindFile name s)
      | None \<Rightarrow> map_option (resolved_secret sy SecretKindEnv name) (map_of (sec_Env secrets) name))"

lemma collectSecrets_map:
  "map_of (collectSecrets sy dst secrets) name = or_opt (secret_of sy secrets name) (map_of dst name)"
  by (auto simp: collectSecrets_def collect_kind_map secret_of_def or_opt_def split: option.split)

lemma secret_of_name: "secret_of sy secrets name = Some s \<Longrightarrow> rs_Name s = name"
  by (auto simp: secret_of_def resolved_secret_def split: option.split_asm)

lemma sortedSecrets_spec:
  assumes "\<And>n s. map_of m n = Some s \<Longrightarrow> rs_Name s = n"
  shows "sorted (map rs_Name (sortedSecrets m)) \<and> distinct (map rs_Name (sortedSecrets m)) \<and>
     (\<forall>s. s \<in> set (sortedSecrets m) \<longleftrightarrow> map_of m (rs_Name s) = Some s)"
proof -
  have k: "map_of m n = Some (lookup m n)" if "n \<in> set (sorted_keys m)" for n
    using sorted_keys_lookup [OF that] by (auto simp: lookup_def)
  then have "map rs_Name (sortedSecrets m) = sorted_keys m"
    using assms by (auto simp: sortedSecrets_def intro!: map_idI)
  moreover have "s \<in> set (sortedSecrets m) \<longleftrightarrow> map_of m (rs_Name s) = Some s" for s
  proof
    assume "s \<in> set (sortedSecrets m)"
    then obtain n where "n \<in> set (sorted_keys m)" "s = lookup m n" by (auto simp: sortedSecrets_def)
    with k [of n] assms [of n s] show "map_of m (rs_Name s) = Some s" by simp
  next
    assume s: "map_of m (rs_Name s) = Some s"
    then have n: "rs_Name s \<in> set (sorted_keys m)" by (rule key_in_sorted)
    with k [OF n] s show "s \<in> set (sortedSecrets m)" by (force simp: sortedSecrets_def)
  qed
  ultimately show ?thesis by simp
qed

definition secret_ok :: "ResolvedSecret \<Rightarrow> bool" where
  "secret_ok s \<longleftrightarrow>
     countp (\<lambda>x. x \<noteq> []) [rs_FromEnv s, rs_FromFile s, rs_FromCommand s] = 1 \<and>
     (rs_FromFile s = [] \<or> IsAbs (rs_FromFile s)) \<and>
     (rs_TTL s = 0 \<or> rs_TTL s > 0 \<and> rs_FromCommand s \<noteq> []) \<and>
     (case rs_Kind s of
        SecretKindEnv \<Rightarrow> envVarNameRe (rs_Name s) \<and> \<not> reservedSecretEnvName (rs_Name s)
      | SecretKindFile \<Rightarrow> secretNameRe (rs_Name s))"

lemma validateSecret_ok:
  assumes "validateSecret sy name secret dest = Inr u"
  shows "secret_ok (resolved_secret sy (case dest of destEnv \<Rightarrow> SecretKindEnv | destFile \<Rightarrow> SecretKindFile) name secret)"
proof -
  from assms have n: "check_secret_name name dest = Inr ()" and "sources secret = 1"
      "FromFile secret = [] \<or> IsAbs (FromFile secret)" and t: "check_ttl sy name secret = Inr ()"
    by (auto simp: validateSecret_def rbind_eq_Inr rguard_eq_Inr validateSecretFile_def)
  moreover from t have "TTL secret = [] \<or> FromCommand secret \<noteq> [] \<and> (\<exists>d. sys_ParseDuration sy (TTL secret) = Some d \<and> d > 0)"
    by (auto simp: check_ttl_def rguard_eq_Inr split: if_split_asm option.split_asm)
  ultimately show ?thesis
    by (cases dest) (auto simp: secret_ok_def resolved_secret_def sources_def check_secret_name_def
        validateEnvVarName_def rbind_eq_Inr rguard_eq_Inr)
qed

lemma validateSecretsBlock_ok:
  assumes "validateSecretsBlock sy secrets = Inr u" and "secret_of sy secrets name = Some s"
  shows "secret_ok s"
proof -
  from assms(2) consider v where "map_of (sec_File secrets) name = Some v" "s = resolved_secret sy SecretKindFile name v"
    | v where "map_of (sec_Env secrets) name = Some v" "s = resolved_secret sy SecretKindEnv name v"
    by (auto simp: secret_of_def split: option.split_asm)
  then show ?thesis
  proof cases
    case 1
    with key_in_sorted [OF 1(1)] assms(1) have "validateSecret sy name v destFile = Inr ()"
      by (simp add: validateSecretsBlock_def rbind_eq_Inr for_each_ok lookup_def del: set_sorted_keys) force
    from validateSecret_ok [OF this] 1 show ?thesis by simp
  next
    case 2
    with key_in_sorted [OF 2(1)] assms(1) have "validateSecret sy name v destEnv = Inr ()"
      by (simp add: validateSecretsBlock_def rbind_eq_Inr for_each_ok lookup_def del: set_sorted_keys) force
    from validateSecret_ok [OF this] 2 show ?thesis by simp
  qed
qed

section \<open>An example configuration\<close>

definition no_secrets :: Secrets where "no_secrets = \<lparr>sec_Env = [], sec_File = []\<rparr>"

definition no_defaults :: Defaults where
  "no_defaults =
     \<lparr>d_Backend = [], d_Agent = [], d_Agents = [], d_Env = [], d_EnvFile = [], d_Mounts = [], d_Snapshots = [],
      d_AllowedHosts = [], d_AllowedNetworks = [], d_Secrets = no_secrets, d_Image = [], d_SSHAuthSock = False,
      d_GPGAgent = False, d_GitConfig = None, d_CPU = None, d_Memory = None, d_DockerDisk = None,
      d_ExposePort = None, d_EnableDocker = None, d_FilteredDNS = None, d_DNSUpstream = [],
      d_DNSBlockedZones = None, d_CABundle = None, d_IsolatedBuild = None, d_ProtectGit = None,
      d_Ports = [], d_HostPorts = []\<rparr>"

definition no_workspace :: Workspace where
  "no_workspace =
     \<lparr>w_Backend = [], w_Agent = [], w_Agents = [], w_Paths = [], w_Mounts = [], w_Snapshots = [],
      w_AllowedHosts = [], w_AllowedNetworks = [], w_Env = [], w_EnvFile = [], w_Secrets = no_secrets,
      w_BuildContext = [], w_Dockerfile = [], w_Image = [], w_SSHAuthSock = None, w_GPGAgent = None,
      w_GitConfig = None, w_CPU = None, w_Memory = None, w_DockerDisk = None, w_ExposePort = None,
      w_EnableDocker = None, w_FilteredDNS = None, w_DNSUpstream = [], w_DNSBlockedZones = None,
      w_CABundle = None, w_IsolatedBuild = None, w_ProtectGit = None, w_Ports = [], w_HostPorts = []\<rparr>"

text \<open>Defaults with a variable and a derived agent, and a workspace that overrides them.\<close>

definition my_agent :: AgentSettings where
  "my_agent = no_settings\<lparr>as_From := ''claude'', as_Version := ''9.9.9''\<rparr>"

definition cmd_secret :: Secret where
  "cmd_secret = \<lparr>FromEnv = [], FromFile = [], FromCommand = ''gh auth token'', TTL = ''15m''\<rparr>"

definition file_secret :: Secret where
  "file_secret = \<lparr>FromEnv = [], FromFile = ''/s'', FromCommand = [], TTL = []\<rparr>"

definition example_defaults :: Defaults where
  "example_defaults = no_defaults\<lparr>d_Env := [''A=1''], d_Agents := [(''mine'', my_agent)],
     d_Secrets := \<lparr>sec_Env = [(''TOK'', cmd_secret)], sec_File = [(''F'', file_secret)]\<rparr>,
     d_Mounts := [''/srv/d:/d:rw'']\<rparr>"

definition example_ws :: Workspace where
  "example_ws = no_workspace\<lparr>w_Paths := [''/work/a''], w_Env := [''A=2'', ''B=3''], w_Agent := ''mine'',
     w_Secrets := \<lparr>sec_Env = [], sec_File = [(''TOK'', file_secret)]\<rparr>, w_Mounts := [''/srv/x:/x:ro'']\<rparr>"

definition outer_ws :: Workspace where
  "outer_ws = no_workspace\<lparr>w_Paths := [''/work'']\<rparr>"

definition example_config :: Config where
  "example_config =
     \<lparr>c_Mode = [], c_PasswordMode = [], c_DetachKeys = [], c_BaseDockerfile = [],
      c_VM = \<lparr>vm_Runner = [], vm_LibDir = [], vm_Builder = []\<rparr>,
      c_Defaults = example_defaults, c_Workspaces = [(''a'', example_ws), (''o'', outer_ws)]\<rparr>"

lemma example_valid: "Validate sys_example (Some example_config) = Inr example_config"
  by code_simp

definition example_resolved :: Resolved where
  "example_resolved =
     (case Resolve sys_example (Some example_config) ''a'' of Inr r \<Rightarrow> r)"

lemma example_resolves: "Resolve sys_example (Some example_config) ''a'' = Inr example_resolved"
proof -
  have "is_ok (Resolve sys_example (Some example_config) ''a'')" by code_simp
  then show ?thesis by (auto simp: example_resolved_def is_ok_iff)
qed

lemma example_ws_there: "map_of (c_Workspaces example_config) ''a'' = Some example_ws"
  by (simp add: example_config_def)

section \<open>Properties\<close>

text \<open>C23. The session environment of a validated workspace: one entry per variable, the last of the
  defaults' entries, the environment files (each read once, defaults' files first) and the
  workspace's own entries; and no entry, wherever it comes from, sets a variable that jailoc or
  an agent harness sets itself.\<close>

theorem resolved_environment:
  assumes "Validate sy (Some cfg0) = Inr cfg" and "map_of (c_Workspaces cfg) name = Some ws"
    and "Resolve sy (Some cfg) name = Inr r"
  shows "distinct (map env_key (r_Env r)) \<and>
     list_all (\<lambda>e. env_key e \<noteq> [] \<and> \<not> reservedEnvKey (env_key e)) (r_Env r) \<and>
     (\<exists>files.
        traverse (ParseEnvFile sy) (uniq (d_EnvFile (c_Defaults cfg) @ w_EnvFile ws)) = Inr files \<and>
        (\<forall>e. e \<in> set (r_Env r) \<longleftrightarrow>
           find (\<lambda>e'. env_key e' = env_key e)
             (rev (d_Env (c_Defaults cfg) @ concat files @ w_Env ws)) = Some e))"
proof -
  from assms(2,3) obtain files where
    f: "traverse (ParseEnvFile sy) (uniq (d_EnvFile (c_Defaults cfg) @ w_EnvFile ws)) = Inr files" and
    r: "r_Env r = dedupEnvByKeyLastWins (d_Env (c_Defaults cfg) @ concat files @ w_Env ws)"
    using Resolve_env by blast
  note cd = Validate_checked(1) [OF assms(1), unfolded checked_defaults_def]
  note cw = Validate_checked(2) [OF assms(1,2), unfolded checked_workspace_def]
  have "check_env_entry e = Inr ()" if "e \<in> set (r_Env r)" for e
  proof -
    from that have "e \<in> set (d_Env (c_Defaults cfg)) \<union> set (concat files) \<union> set (w_Env ws)"
      using find_key [of env_key "env_key e"] unfolding r dedup_spec(2) by (metis Un_iff set_append set_rev sup_assoc)
    moreover have "check_env_entry e = Inr ()" if "e \<in> set (concat files)"
    proof -
      from that obtain es where "es \<in> set files" "e \<in> set es" by auto
      with traverse_set [OF f] obtain p where "p \<in> set (d_EnvFile (c_Defaults cfg) @ w_EnvFile ws)"
          "ParseEnvFile sy p = Inr es" by auto
      with cd cw \<open>e \<in> set es\<close> show ?thesis by (auto intro: validated_files)
    qed
    ultimately show ?thesis using cd cw by (auto simp: validateEnvEntries_def for_each_ok)
  qed
  then have "list_all (\<lambda>e. env_key e \<noteq> [] \<and> \<not> reservedEnvKey (env_key e)) (r_Env r)"
    unfolding list_all_iff using env_entry_key by blast
  moreover have "distinct (map env_key (r_Env r))" by (simp add: r dedup_spec(1))
  moreover have "\<forall>e. e \<in> set (r_Env r) \<longleftrightarrow> find (\<lambda>e'. env_key e' = env_key e)
      (rev (d_Env (c_Defaults cfg) @ concat files @ w_Env ws)) = Some e"
    unfolding r by (intro allI dedup_spec(2))
  ultimately show ?thesis using f by (intro conjI exI [of _ files])
qed

theorem resolved_environment_witness:
  "distinct (map env_key (r_Env example_resolved)) \<and> r_Env example_resolved = [''A=2'', ''B=3'']"
proof -
  have "r_Env example_resolved = [''A=2'', ''B=3'']" by code_simp
  with resolved_environment [OF example_valid example_ws_there example_resolves] show ?thesis by blast
qed

text \<open>Every workspace of a validated configuration has an agent: \<open>resolveAgent\<close> succeeds, the
  harness goes by the name of the workspace's agent (its own, the defaults' or \<open>opencode\<close>) and is,
  up to that name and the version, one of the built-in harnesses. Its version is the first one
  set by the agent's tables and otherwise the pinned one.\<close>

theorem validated_agent_resolves:
  assumes "Validate sy (Some cfg0) = Inr cfg" and "map_of (c_Workspaces cfg) name = Some ws"
  shows "\<exists>h settings b. resolveAgent cfg ws = Inr (h, settings) \<and> b \<in> set harnesses \<and>
     h = b\<lparr>h_Name := agent_of cfg ws, h_Version := or_str (as_Version settings) (h_Version b)\<rparr>"
proof -
  have bi: "\<exists>b. b \<in> set harnesses \<and> h = b\<lparr>h_Name := n\<rparr>" if "Lookup n = Some h" for n h
    using that by (auto simp: Lookup_def Let_def dest: find_Some_mem)
  note ca = checked_agent [OF Validate_checked(1) [OF assms(1)] Validate_checked(2) [OF assms]]
  show ?thesis
  proof (cases "Lookup (agent_of cfg ws)")
    case (Some h)
    with bi [OF Some] show ?thesis by (auto simp: resolveAgent_def agent_of_def Let_def)
  next
    case None
    with ca obtain h where h: "Lookup (agent_from (w_Agents ws) (d_Agents (c_Defaults cfg)) (agent_of cfg ws)) = Some h"
      by auto
    with None bi [OF h] show ?thesis
      by (auto simp: resolveAgent_def agent_of_def agent_from_def or_str_def Let_def)
  qed
qed

theorem validated_agent_resolves_witness:
  "\<exists>h settings b. resolveAgent example_config example_ws = Inr (h, settings) \<and> b \<in> set harnesses \<and>
     h = b\<lparr>h_Name := ''mine'', h_Version := or_str (as_Version settings) (h_Version b)\<rparr>"
proof -
  have "agent_of example_config example_ws = ''mine''" by code_simp
  with validated_agent_resolves [OF example_valid example_ws_there] show ?thesis by simp
qed

text \<open>The secrets of a validated workspace: sorted by name, one to a name, the workspace's secret
  where it declares the name (in either table) and the defaults' otherwise. Each has exactly one
  source, an absolute path if that is a file, a positive lifetime only with a command; an
  environment secret has the name of a shell variable that is neither \<open>HOME\<close> nor \<open>PATH\<close> nor
  set by jailoc, a file secret a name without dots or slashes.\<close>

theorem resolved_secrets:
  assumes "Validate sy (Some cfg0) = Inr cfg" and "map_of (c_Workspaces cfg) name = Some ws"
    and "Resolve sy (Some cfg) name = Inr r"
  shows "sorted (map rs_Name (r_Secrets r)) \<and> distinct (map rs_Name (r_Secrets r)) \<and>
     (\<forall>s. s \<in> set (r_Secrets r) \<longleftrightarrow>
        or_opt (secret_of sy (w_Secrets ws) (rs_Name s)) (secret_of sy (d_Secrets (c_Defaults cfg)) (rs_Name s)) = Some s) \<and>
     list_all secret_ok (r_Secrets r)"
proof -
  let ?m = "collectSecrets sy (collectSecrets sy [] (d_Secrets (c_Defaults cfg))) (w_Secrets ws)"
  have r: "r_Secrets r = sortedSecrets ?m"
    using assms(2,3) by (auto simp: Resolve_def Let_def rbind_eq_Inr rwrap_eq_Inr mergeSecrets_def)
  have m: "map_of ?m n = or_opt (secret_of sy (w_Secrets ws) n) (secret_of sy (d_Secrets (c_Defaults cfg)) n)" for n
    by (simp add: collectSecrets_map) (simp add: or_opt_def split: option.split)
  have named: "rs_Name s = n" if "map_of ?m n = Some s" for n s
    using that by (auto simp: m or_opt_def dest: secret_of_name split: option.split_asm)
  note sp = sortedSecrets_spec [of ?m, OF named]
  have "secret_ok s" if "s \<in> set (r_Secrets r)" for s
  proof -
    from that sp r m have "or_opt (secret_of sy (w_Secrets ws) (rs_Name s)) (secret_of sy (d_Secrets (c_Defaults cfg)) (rs_Name s)) = Some s"
      by simp
    then show ?thesis
      using validateSecretsBlock_ok Validate_checked(1) [OF assms(1)] Validate_checked(2) [OF assms(1,2)]
      by (auto simp: or_opt_def checked_defaults_def checked_workspace_def split: option.split_asm)
  qed
  then show ?thesis using sp unfolding r m list_all_iff by blast
qed

theorem resolved_secrets_witness:
  "list_all secret_ok (r_Secrets example_resolved) \<and>
   map (\<lambda>s. (rs_Name s, rs_Kind s)) (r_Secrets example_resolved) = [(''F'', SecretKindFile), (''TOK'', SecretKindFile)]"
proof -
  have "map (\<lambda>s. (rs_Name s, rs_Kind s)) (r_Secrets example_resolved) = [(''F'', SecretKindFile), (''TOK'', SecretKindFile)]"
    by code_simp
  with resolved_secrets [OF example_valid example_ws_there example_resolves] show ?thesis by blast
qed

section \<open>Gaps of the validation\<close>

definition loose_ws :: Workspace where
  "loose_ws = no_workspace\<lparr>w_Paths := [''/./etc''], w_FilteredDNS := Some True, w_DNSBlockedZones := Some []\<rparr>"

definition loose_config :: Config where
  "loose_config = example_config\<lparr>
     c_Defaults := no_defaults\<lparr>d_AllowedNetworks := [''everything''], d_DNSUpstream := ''10.0.0.53'',
       d_DNSBlockedZones := Some [''corp.example.com'']\<rparr>,
     c_Workspaces := [(''w'', loose_ws)]\<rparr>"


end
