(* ===== verification/Confinement.thy ===== *)
theory Confinement
  imports WorkspaceProps
begin

text \<open>
  What the mounts of a resolved workspace can reach, across the configuration's validation, the
  agent tables, the layer merge and the resolution of the workspace. The volume parser of
  compose-go is assumed to split a specification at its colons (\<open>splits_volumes\<close>).
\<close>

section \<open>The volume parser\<close>

definition rooted_or_home :: "string \<Rightarrow> bool" where
  "rooted_or_home p \<longleftrightarrow> HasPrefix p ''/'' \<or> HasPrefix p ''~''"

text \<open>
  \<open>format.ParseVolume\<close> on \<open>source:target[:mode]\<close>: a colon only stays inside a part that starts with
  a drive letter, and rooted parts without colons are returned as they are.
\<close>

definition splits_volumes :: "(string \<Rightarrow> (string \<times> string) option) \<Rightarrow> bool" where
  "splits_volumes pv \<longleftrightarrow>
     (\<forall>spec h c. pv spec = Some (h, c) \<longrightarrow> rooted_or_home h \<longrightarrow> rooted_or_home c \<longrightarrow>
        CHR '':'' \<notin> set h \<and> CHR '':'' \<notin> set c) \<and>
     (\<forall>h c m. rooted_or_home h \<longrightarrow> IsAbs c \<longrightarrow> CHR '':'' \<notin> set h \<longrightarrow> CHR '':'' \<notin> set c \<longrightarrow> m \<in> {''ro'', ''rw''} \<longrightarrow>
        pv (h @ '':'' @ c @ '':'' @ m) = Some (h, c))"

section \<open>What a parsed mount looks like\<close>

lemma abs_rooted: "IsAbs p \<Longrightarrow> rooted_or_home p"
  by (simp add: IsAbs_def rooted_or_home_def)

lemma expandGuestPath_rooted: "HasPrefix (expandGuestPath c) ''/'' \<Longrightarrow> rooted_or_home c"
  by (cases c) (auto simp: expandGuestPath_def rooted_or_home_def CutPrefix_def HasPrefix_def
      split: if_split_asm)

lemma expandGuestPath_abs: "IsAbs c \<Longrightarrow> expandGuestPath c = c"
  by (auto simp: expandGuestPath_def IsAbs_Cons CutPrefix_def HasPrefix_def)

lemma expandGuestPath_set: "set (expandGuestPath c) \<subseteq> set c \<union> set (guestHome @ ''/'')"
  by (auto simp: expandGuestPath_def CutPrefix_def split: if_split_asm dest: in_set_dropD)

lemma ExpandPath_rooted: "ExpandPath home h = Inr e \<Longrightarrow> IsAbs e \<Longrightarrow> rooted_or_home h"
  by (auto simp: ExpandPath_def rooted_or_home_def IsAbs_def split: if_split_asm)

lemma ParseMount_host:
  assumes "ParseMount pv home spec = Inr m" and "m_Host m \<noteq> []"
  obtains c0 h where "pv spec = Some (m_Host m, c0)" "m_Container m = expandGuestPath c0"
    "ExpandPath home (m_Host m) = Inr h" "IsAbs h" "IsAbs (m_Container m)" "m_Mode m \<in> {''ro'', ''rw''}"
proof (cases "HasPrefix spec '':''")
  case True
  with assms show ?thesis
    by (cases "Cut (drop 1 spec) '':''") (auto simp: ParseMount_def parseRemovalMount_def result_simps Let_def)
next
  case False
  with assms(1) obtain src tgt where "pv spec = Some (src, tgt)"
    by (cases "pv spec") (auto simp: ParseMount_def)
  with False assms that show ?thesis by (auto simp: ParseMount_def result_simps Let_def IsAbs_def)
qed

lemma ParseMount_removal: "ParseMount pv home (CHR '':'' # s) = Inr m \<Longrightarrow> m_Host m = []"
  by (cases "Cut s '':''") (auto simp: ParseMount_def HasPrefix_def parseRemovalMount_def result_simps Let_def)

text \<open>A formatted mount with plain absolute paths parses to itself.\<close>

lemma ParseMount_format:
  assumes "splits_volumes pv" and "IsAbs h" "IsAbs c" "CHR '':'' \<notin> set h" "CHR '':'' \<notin> set c" "mode \<in> {''ro'', ''rw''}"
  shows "ParseMount pv home (formatMount \<lparr>m_Host = h, m_Container = c, m_Mode = mode\<rparr>) =
     Inr \<lparr>m_Host = h, m_Container = c, m_Mode = mode\<rparr>"
proof -
  let ?s = "h @ '':'' @ c @ '':'' @ mode"
  have pv: "pv ?s = Some (h, c)" using assms unfolding splits_volumes_def by (blast intro: abs_rooted)
  have raw: "rawMode ?s h c = mode"
  proof -
    have "CutPrefix ?s (h @ '':'' @ c) = Some (CHR '':'' # mode)" by (simp add: CutPrefix_Some)
    then show ?thesis by (simp add: rawMode_def)
  qed
  have "\<not> HasPrefix ?s '':''" using assms(2) by (auto simp: IsAbs_Cons HasPrefix_def)
  moreover have "ExpandPath home h = Inr h" using assms(2) by (auto simp: ExpandPath_def IsAbs_Cons HasPrefix_def)
  ultimately show ?thesis
    unfolding ParseMount_def formatMount_def Mount.simps
    using pv raw assms(2,3,6) by (auto simp: expandGuestPath_abs IsAbs_Cons HasPrefix_def Let_def)
qed

section \<open>Checked specifications\<close>

text \<open>If the specification parses to a mount with a host, host and container have passed the checks.\<close>

definition spec_ok :: "sys \<Rightarrow> string \<Rightarrow> bool" where
  "spec_ok sy spec \<longleftrightarrow>
     (\<forall>m. ParseMount (sys_ParseVolume sy) (sys_home sy) spec = Inr m \<longrightarrow> m_Host m \<noteq> [] \<longrightarrow>
        validateMountHostPath (sys_home sy) (m_Host m) = Inr () \<and> validateContainer (Clean (m_Container m)) = Inr ())"

lemma check_mount_ok: "check_mount sy spec = Inr u \<Longrightarrow> spec_ok sy spec"
  by (auto simp: check_mount_def spec_ok_def rbind_eq_Inr rwrap_eq_Inr Let_def)

lemma agent_mounts_ok: "validateAgentMounts (sys_ParseVolume sy) (sys_home sy) specs = Inr u \<Longrightarrow> spec \<in> set specs \<Longrightarrow> spec_ok sy spec"
  by (auto simp: validateAgentMounts_def for_each_ok spec_ok_def rbind_eq_Inr)

lemma default_mount_ok:
  assumes pv: "splits_volumes (sys_ParseVolume sy)" and home: "sys_home sy = Some d" "CHR '':'' \<notin> set d"
    and dm: "default_mount sy spec0 = Inr spec"
  shows "spec_ok sy spec"
proof -
  from dm obtain m h where m: "ParseMount (sys_ParseVolume sy) (sys_home sy) spec0 = Inr m"
      "ExpandPath (sys_home sy) (m_Host m) = Inr h"
      "validateContainer (Clean (m_Container m)) = Inr ()" "validateMountHostPath (sys_home sy) h = Inr ()"
      "spec = formatMount (m\<lparr>m_Host := h, m_Container := Clean (m_Container m)\<rparr>)"
    by (auto simp: default_mount_def expand_def rbind_eq_Inr rwrap_eq_Inr Let_def)
  show ?thesis
  proof (cases "m_Host m = []")
    case True
    with m(2) have "h = []" by (simp add: ExpandPath_def HasPrefix_def)
    with m(5) show ?thesis by (auto simp: spec_ok_def formatMount_def dest: ParseMount_removal)
  next
    case False
    with m(1) obtain c0 h' where c0: "sys_ParseVolume sy spec0 = Some (m_Host m, c0)"
        "m_Container m = expandGuestPath c0" "ExpandPath (sys_home sy) (m_Host m) = Inr h'" "IsAbs h'"
        "IsAbs (m_Container m)" "m_Mode m \<in> {''ro'', ''rw''}" by (rule ParseMount_host)
    with m(2) have h: "IsAbs h" by simp
    have roots: "rooted_or_home (m_Host m)" "rooted_or_home c0"
      using ExpandPath_rooted [OF m(2) h] expandGuestPath_rooted [of c0] c0(2,5) by (simp_all add: IsAbs_def)
    have plain: "CHR '':'' \<notin> set (m_Host m)" "CHR '':'' \<notin> set c0"
      using pv c0(1) roots unfolding splits_volumes_def by blast+
    have ph: "CHR '':'' \<notin> set h"
      using m(2) plain(1) home by (auto simp: ExpandPath_def split: if_split_asm dest: in_set_dropD)
    have pc: "CHR '':'' \<notin> set (Clean (m_Container m))"
      using Clean_set [OF c0(5)] expandGuestPath_set [of c0] plain(2) unfolding c0(2) by (auto simp: guestHome_def)
    let ?f = "\<lparr>m_Host = h, m_Container = Clean (m_Container m), m_Mode = m_Mode m\<rparr>"
    have "spec = formatMount ?f" using m(5) by (simp add: formatMount_def)
    with ParseMount_format [OF pv h Clean_abs [OF c0(5)] ph pc c0(6), of "sys_home sy"]
    have "ParseMount (sys_ParseVolume sy) (sys_home sy) spec = Inr ?f" by simp
    with m(3,4) c0(5) show ?thesis by (simp add: spec_ok_def Clean_Clean)
  qed
qed

section \<open>Confinement\<close>

definition container_dirs :: "string list" where
  "container_dirs = [''/usr'', ''/etc'', ''/var'', ''/bin'', ''/sbin'', ''/lib'', ''/lib64'', ''/opt'', ''/root'',
     ''/proc'', ''/sys'', ''/dev'', ''/run'', ''/tmp'', ''/certs'']"

text \<open>The host side is outside the protected directories, the guest side outside the system's.\<close>

definition confined :: "string \<Rightarrow> Mount \<Rightarrow> bool" where
  "confined d m \<longleftrightarrow>
     elems (m_Host m) \<noteq> [] \<and>
     list_all (\<lambda>f. \<not> prefix (elems f) (elems (m_Host m)))
       (system_dirs @ map (\<lambda>e. d @ CHR ''/'' # e) [''.ssh'', ''.gnupg'', ''.aws'']) \<and>
     elems (m_Container m) \<noteq> [] \<and>
     list_all (\<lambda>f. \<not> prefix (elems f) (elems (m_Container m))) container_dirs"

lemma container_dirs_facts:
  "list_all (\<lambda>f. f \<in> set forbiddenMountContainerPrefixes \<and> elems f \<noteq> [] \<and> IsAbs f \<and> Clean f = f) container_dirs"
  by code_simp

lemma root_facts: "''/'' \<in> set forbiddenMountContainerPrefixes" "IsAbs ''/''" "Clean ''/'' = ''/''" "elems ''/'' = []"
  by code_simp+

lemma container_confined:
  assumes "validateContainer (Clean c) = Inr ()" and "IsAbs c"
  shows "elems c \<noteq> [] \<and> list_all (\<lambda>f. \<not> prefix (elems f) (elems c)) container_dirs"
proof -
  have out: "\<not> at_or_under (Clean c) (Clean f)" if "f \<in> set forbiddenMountContainerPrefixes" "Clean f = f" for f
    using assms(1) that by (auto simp: validateContainer_def for_each_ok rguard_eq_Inr)
  have "elems c \<noteq> []" using out [OF root_facts(1,3)] at_or_under_elems [OF assms(2) root_facts(2)] root_facts(4) by simp
  moreover have "\<not> prefix (elems f) (elems c)" if "f \<in> set container_dirs" for f
    using that container_dirs_facts out [of f] at_or_under_elems [OF assms(2), of f] by (simp add: list_all_iff)
  ultimately show ?thesis by (simp add: list_all_iff)
qed

lemma spec_ok_confined:
  assumes "spec_ok sy spec" and "ParseMount (sys_ParseVolume sy) (sys_home sy) spec = Inr m" and "m_Host m \<noteq> []"
    and "sys_home sy = Some d" and "IsAbs d"
  shows "confined d (expanded (sys_home sy) m)"
proof -
  from assms(2,3) obtain h where h: "ExpandPath (sys_home sy) (m_Host m) = Inr h" "IsAbs h" "IsAbs (m_Container m)"
    by (rule ParseMount_host)
  from assms(1-3) have v: "validateMountHostPath (sys_home sy) (m_Host m) = Inr ()"
      "validateContainer (Clean (m_Container m)) = Inr ()" by (simp_all add: spec_ok_def)
  from host_confined [OF v(1) assms(3) h(1,2) assms(4,5)] container_confined [OF v(2) h(3)] h(1)
  show ?thesis by (simp add: confined_def expanded_def)
qed

text \<open>Every entry of a merge comes from one of the specifications.\<close>

lemma MergeMounts_entry:
  assumes "MergeMounts pv home layers = Inr es" and "e \<in> set es"
  obtains spec m where "spec \<in> set (concat layers)" "ParseMount pv home spec = Inr m" "m_Host m \<noteq> []"
    "e = formatMount (expanded home m)"
proof -
  have i: "represents home [] ([], [])" by (simp add: represents_def effective_def uniq_def)
  note rep = merge_specs_represents [OF i, of pv "concat layers"]
  from assms(1) obtain st where st: "merge_specs pv home (concat layers) ([], []) = Inr st"
      "es = List.map_filter (\<lambda>c. map_option formatMount (map_of (snd st) c)) (fst st)"
    by (auto simp: MergeMounts_def rbind_eq_Inr split: prod.split_asm)
  with rep obtain ns where ns: "traverse (ParseMount pv home) (concat layers) = Inr ns" "represents home ns st"
    by (cases "traverse (ParseMount pv home) (concat layers)") auto
  from assms(2) st(2) ns(2) obtain c m where "effective home ns c = Some m" "e = formatMount m"
    by (auto simp: List.map_filter_def represents_def)
  then obtain m0 where m0: "find (\<lambda>m. m_Container m = c) (rev ns) = Some m0" "m_Host m0 \<noteq> []"
      "e = formatMount (expanded home m0)"
    by (auto simp: effective_def split: option.split_asm if_split_asm)
  from find_Some_mem [OF m0(1)] traverse_set [OF ns(1), of m0] m0(2,3) that show thesis by auto
qed

text \<open>The mounts of the agent come from the tables of the workspace and of the defaults.\<close>

lemma resolveAgent_mounts:
  assumes "resolveAgent cfg ws = Inr (h, settings)" and "spec \<in> set (as_Mounts settings)"
  shows "\<exists>n. spec \<in> set (as_Mounts (settings_of (w_Agents ws) n)) \<union>
     set (as_Mounts (settings_of (d_Agents (c_Defaults cfg)) n))"
  using assms by (auto simp: resolveAgent_def Let_def rbind_eq_Inr split: option.split_asm)

lemma agent_table_ok:
  assumes "validateAgent sy name agents inherited = Inr u" and "spec \<in> set (as_Mounts (settings_of agents n))"
  shows "spec_ok sy spec"
proof (cases "map_of agents n")
  case None
  with assms(2) show ?thesis by (simp add: settings_of_def no_settings_def)
next
  case (Some t)
  then have "n \<in> set (sorted_keys agents)" by (rule key_in_sorted)
  with assms(1) have "check_agent_table sy agents inherited n = Inr ()"
    by (auto simp: validateAgent_def rbind_eq_Inr for_each_ok)
  then have "validateAgentMounts (sys_ParseVolume sy) (sys_home sy) (as_Mounts (settings_of agents n)) = Inr ()"
    by (auto simp: check_agent_table_def Let_def rbind_eq_Inr rwrap_eq_Inr)
  then show ?thesis using assms(2) by (rule agent_mounts_ok)
qed

section \<open>The built-in mounts\<close>

text \<open>The directories of the home the harnesses share, by the components of their host path, and where.\<close>

definition built_in :: "(string list \<times> string \<times> string) list" where
  "built_in =
     [([''.agents''], ''/home/agent/.agents'', ''ro''),
      ([''.config'', ''opencode''], ''/home/agent/.config/opencode'', ''rw''),
      ([''.opencode''], ''/home/agent/.opencode'', ''rw''), ([''.omo''], ''/home/agent/.omo'', ''rw'')]"

definition below_home :: "string \<Rightarrow> string list \<Rightarrow> string" where
  "below_home d xs = d @ concat (map ((#) (CHR ''/'')) xs)"

definition built_in_spec :: "string list \<times> string \<times> string \<Rightarrow> string" where
  "built_in_spec = (\<lambda>(xs, c, mode). below_home ''~'' xs @ '':'' @ c @ '':'' @ mode)"

lemma built_in_specs: "list_all (\<lambda>h. list_all (\<lambda>s. s \<in> set (map built_in_spec built_in)) (DefaultMounts h)) harnesses"
  by code_simp

lemma built_in_facts:
  "list_all (\<lambda>(xs, c, mode). CHR '':'' \<notin> set (below_home ''~'' xs) \<and> IsAbs c \<and> CHR '':'' \<notin> set c \<and> mode \<in> {''ro'', ''rw''} \<and>
      xs \<noteq> [] \<and> list_all (\<lambda>x. CHR ''/'' \<notin> set x \<and> x \<notin> {[], ''.'', ''..''}) xs \<and> hd xs \<notin> {''.ssh'', ''.gnupg'', ''.aws''} \<and>
      list_all (\<lambda>f. elems f \<noteq> [hd xs]) system_dirs \<and> validateContainer (Clean c) = Inr ()) built_in"
  by code_simp

lemma system_dirs_top: "list_all (\<lambda>f. length (elems f) = 1) system_dirs"
  by code_simp

lemma elems_below_home:
  "list_all (\<lambda>x. CHR ''/'' \<notin> set x \<and> x \<notin> {[], ''.'', ''..''}) xs \<Longrightarrow> elems (below_home d xs) = elems d @ xs"
proof (induction xs rule: rev_induct)
  case (snoc x xs)
  then have "elems (below_home d xs @ CHR ''/'' # x) = elems (below_home d xs) @ [x]" by (intro elems_append) simp_all
  with snoc show ?case by (simp add: below_home_def)
qed (simp add: below_home_def)

lemma below_home_outside:
  assumes "xs \<noteq> []" and "list_all (\<lambda>x. CHR ''/'' \<notin> set x \<and> x \<notin> {[], ''.'', ''..''}) xs"
    and "hd xs \<notin> {''.ssh'', ''.gnupg'', ''.aws''}" and "list_all (\<lambda>f. elems f \<noteq> [hd xs]) system_dirs"
    and "list_all (\<lambda>f. \<not> prefix (elems f) (elems d)) system_dirs"
  shows "elems (below_home d xs) \<noteq> [] \<and>
     list_all (\<lambda>f. \<not> prefix (elems f) (elems (below_home d xs)))
       (system_dirs @ map (\<lambda>e. d @ CHR ''/'' # e) [''.ssh'', ''.gnupg'', ''.aws''])"
proof -
  obtain x ys where xs: "xs = x # ys" using assms(1) by (cases xs) auto
  have e: "elems (below_home d xs) = elems d @ x # ys" using elems_below_home [OF assms(2)] xs by simp
  have sys: "\<not> prefix (elems f) (elems d @ x # ys)" if f: "f \<in> set system_dirs" for f
  proof -
    obtain g where g: "elems f = [g]" using system_dirs_top f by (auto simp: list_all_iff length_Suc_conv)
    moreover have "g \<noteq> x" "\<not> prefix [g] (elems d)" using assms(4,5) f g xs by (auto simp: list_all_iff)
    ultimately show ?thesis by (cases "elems d") auto
  qed
  have home: "elems (d @ CHR ''/'' # k) = elems d @ [k]" if "k \<in> {''.ssh'', ''.gnupg'', ''.aws''}" for k
    using that by (intro elems_append) auto
  have "\<not> prefix (elems (d @ CHR ''/'' # k)) (elems d @ x # ys)" if "k \<in> {''.ssh'', ''.gnupg'', ''.aws''}" for k
    using home [OF that] that assms(3) xs by auto
  with sys e show ?thesis by (simp add: list_all_iff)
qed

lemma built_in_confined:
  assumes "splits_volumes (sys_ParseVolume sy)" and "sys_home sy = Some d"
    and "ParseMount (sys_ParseVolume sy) (sys_home sy) spec = Inr m" and "m_Host m \<noteq> []"
    and "spec \<in> set (map built_in_spec built_in)" and "list_all (\<lambda>f. \<not> prefix (elems f) (elems d)) system_dirs"
  shows "confined d (expanded (sys_home sy) m)"
proof -
  obtain xs c mode where b: "(xs, c, mode) \<in> set built_in" "spec = below_home ''~'' xs @ '':'' @ c @ '':'' @ mode"
    using assms(5) by (auto simp: built_in_spec_def)
  have f: "CHR '':'' \<notin> set (below_home ''~'' xs)" "IsAbs c" "CHR '':'' \<notin> set c" "mode \<in> {''ro'', ''rw''}" "xs \<noteq> []"
      "list_all (\<lambda>x. CHR ''/'' \<notin> set x \<and> x \<notin> {[], ''.'', ''..''}) xs" "hd xs \<notin> {''.ssh'', ''.gnupg'', ''.aws''}"
      "list_all (\<lambda>f. elems f \<noteq> [hd xs]) system_dirs" "validateContainer (Clean c) = Inr ()"
    using built_in_facts b(1) unfolding list_all_iff by blast+
  have "rooted_or_home (below_home ''~'' xs)" by (simp add: rooted_or_home_def below_home_def HasPrefix_def)
  then have "sys_ParseVolume sy spec = Some (below_home ''~'' xs, c)" using assms(1) f(1-4) b(2) unfolding splits_volumes_def by blast
  then have m: "m_Host m = below_home ''~'' xs" "m_Container m = c" using assms(3,4) f(2) ParseMount_host
    by (metis (no_types, lifting) Pair_inject expandGuestPath_abs option.inject)+
  obtain x ys where xs: "xs = x # ys" using f(5) by (cases xs) auto
  have "ExpandPath (sys_home sy) (m_Host m) = Inr (below_home d xs)"
    using m(1) assms(2) xs by (simp add: ExpandPath_def below_home_def HasPrefix_def)
  then show ?thesis using m(2) below_home_outside [OF f(5-8) assms(6)] container_confined [OF f(9,2)]
    by (simp add: confined_def expanded_def)
qed

lemma resolveAgent_built_in:
  assumes "resolveAgent cfg ws = Inr (h, settings)" and "spec \<in> set (DefaultMounts h)"
  shows "spec \<in> set (map built_in_spec built_in)"
proof -
  have l: "\<exists>g \<in> set harnesses. h_Mounts g = h_Mounts k" if "Lookup n = Some k" for n k
    using that find_Some_mem by (fastforce simp: Lookup_def Let_def)
  obtain n k where "Lookup n = Some k" "h_Mounts h = h_Mounts k"
    using assms(1) by (auto simp: resolveAgent_def Let_def rbind_eq_Inr split: option.split_asm)
  with l obtain g where "g \<in> set harnesses" "DefaultMounts h = DefaultMounts g" by (metis DefaultMounts_def)
  then show ?thesis using built_in_specs assms(2) by (simp add: list_all_iff)
qed

section \<open>Properties\<close>

text \<open>C28. What the mounts of a workspace can reach. Take a configuration that validates, a home directory
  that is an absolute path without a colon, and the settings the workspace resolves to. Wherever a
  mount of it was written (the built-in mounts of an agent harness, the defaults, the workspace, an agent
  table), its host path with the home expanded and \<open>..\<close> resolved lexically is not the root and lies outside \<open>/etc\<close>,
  \<open>/proc\<close>, \<open>/var\<close>, \<open>/run\<close>, \<open>/dev\<close>, \<open>/sys\<close>, \<open>/boot\<close>, \<open>/private\<close>, \<open>~/.ssh\<close>, \<open>~/.gnupg\<close> and \<open>~/.aws\<close>, and its guest
  path is not the root and lies outside the system directories of the guest. The one exception is a built-in
  mount for a user whose home itself lies in one of these system directories of the host.\<close>

theorem resolved_mounts_confined:
  assumes "Validate sy (Some cfg0) = Inr cfg" and "Resolve sy (Some cfg) name = Inr r"
    and "splits_volumes (sys_ParseVolume sy)" and "sys_home sy = Some d" and "IsAbs d" and "CHR '':'' \<notin> set d"
    and "e \<in> set (r_Mounts r)"
  shows "\<exists>spec m. ParseMount (sys_ParseVolume sy) (sys_home sy) spec = Inr m \<and>
     e = formatMount (expanded (sys_home sy) m) \<and>
     (confined d (expanded (sys_home sy) m) \<or>
      spec \<in> set (DefaultMounts (r_Agent r)) \<and> (\<exists>f \<in> set system_dirs. prefix (elems f) (elems d)))"
proof -
  from assms(2) obtain ws h settings where ws: "map_of (c_Workspaces cfg) name = Some ws"
      "resolveAgent cfg ws = Inr (h, settings)" "r_Agent r = h"
      "MergeMounts (sys_ParseVolume sy) (sys_home sy)
         [DefaultMounts h, as_Mounts settings, d_Mounts (c_Defaults cfg), w_Mounts ws] = Inr (r_Mounts r)"
    by (auto simp: Resolve_def Let_def rbind_eq_Inr rwrap_eq_Inr ropt_eq_Inr)
  note cd = Validate_checked(1) [OF assms(1), unfolded checked_defaults_def]
  note cw = Validate_checked(2) [OF assms(1) ws(1), unfolded checked_workspace_def]
  from ws(4) assms(7) obtain spec m where
    m: "spec \<in> set (DefaultMounts h @ as_Mounts settings @ d_Mounts (c_Defaults cfg) @ w_Mounts ws)"
      "ParseMount (sys_ParseVolume sy) (sys_home sy) spec = Inr m" "m_Host m \<noteq> []"
      "e = formatMount (expanded (sys_home sy) m)"
    by (rule MergeMounts_entry) simp
  have "spec_ok sy spec" if "spec \<in> set (as_Mounts settings)"
    using resolveAgent_mounts [OF ws(2) that] cd cw agent_table_ok by blast
  moreover have "spec_ok sy spec" if "spec \<in> set (d_Mounts (c_Defaults cfg))"
  proof -
    from cd obtain specs where "traverse (default_mount sy) specs = Inr (d_Mounts (c_Defaults cfg))" by blast
    from traverse_set [OF this that] show ?thesis using default_mount_ok [OF assms(3,4,6)] by blast
  qed
  moreover have "spec_ok sy spec" if "spec \<in> set (w_Mounts ws)"
    using that cw by (auto simp: for_each_ok intro: check_mount_ok)
  ultimately have "confined d (expanded (sys_home sy) m) \<or> spec \<in> set (DefaultMounts h)"
    using m(1) spec_ok_confined [OF _ m(2,3) assms(4,5)] by auto
  moreover have "confined d (expanded (sys_home sy) m)"
    if "spec \<in> set (DefaultMounts h)" "\<not> (\<exists>f \<in> set system_dirs. prefix (elems f) (elems d))"
    using built_in_confined [OF assms(3,4) m(2,3) resolveAgent_built_in [OF ws(2) that(1)]] that(2) by (simp add: list_all_iff)
  ultimately show ?thesis using m(2,4) ws(3) by blast
qed

lemma example_splits: "splits_volumes (sys_ParseVolume sys_example)"
proof -
  have "\<exists>a b. Cut s '':'' = (a, b, f) \<Longrightarrow> CHR '':'' \<notin> set (fst (Cut s '':''))" for s f
    by (cases f) (auto simp: Cut_char_found Cut_char_not_found)
  then have plain: "CHR '':'' \<notin> set (fst (Cut s '':''))" for s by (metis prod_cases3)
  show ?thesis
    unfolding splits_volumes_def
    using plain by (auto simp: sys_example_def split: prod.split_asm) (metis fst_conv)+
qed

theorem resolved_mounts_confined_witness:
  "\<exists>spec m. ParseMount (sys_ParseVolume sys_example) (Some ''/home/u'') spec = Inr m \<and>
     ''/srv/d:/d:rw'' = formatMount (expanded (Some ''/home/u'') m) \<and>
     confined ''/home/u'' (expanded (Some ''/home/u'') m)"
proof -
  have out: "\<not> list_ex (\<lambda>f. prefix (elems f) (elems ''/home/u'')) system_dirs" by code_simp
  have h: "sys_home sys_example = Some ''/home/u''" by (simp add: sys_example_def)
  have "''/srv/d:/d:rw'' \<in> set (r_Mounts example_resolved)" "IsAbs ''/home/u''" by code_simp+
  with resolved_mounts_confined [OF example_valid example_resolves example_splits h, of "''/srv/d:/d:rw''"]
  show ?thesis using out unfolding h list_ex_iff by auto
qed

end
