(* ===== verification/CwdProps.thy ===== *)
theory CwdProps
  imports WorkspaceProps
begin

text \<open>
  Which workspace a directory belongs to (\<open>ResolveFromCWD\<close>): string prefixes and segment counts are
  related to the elements of cleaned paths, and the loop over workspaces and paths to the deepest
  matches among all of them.
\<close>

section \<open>Segments and ancestors\<close>

lemma Clean_fixed: "IsAbs p \<Longrightarrow> Clean p = p \<Longrightarrow> p = CHR ''/'' # Join (elems p) ''/''"
  using Clean_elems [of p] by simp

lemma Join_plain_ends:
  assumes "xs \<noteq> []" and "\<And>x. x \<in> set xs \<Longrightarrow> x \<noteq> [] \<and> c \<notin> set x"
  shows "Join xs [c] \<noteq> [] \<and> hd (Join xs [c]) \<noteq> c \<and> last (Join xs [c]) \<noteq> c"
  using assms
proof (induction xs rule: induct_list012)
  case (2 x)
  then show ?case by (auto dest: hd_in_set last_in_set)
next
  case (3 x y zs)
  then have "x \<noteq> []" "c \<notin> set x" by simp_all
  with 3 show ?case by (auto dest: hd_in_set)
qed simp

lemma trim_sep_Join:
  assumes "\<And>x. x \<in> set xs \<Longrightarrow> x \<noteq> [] \<and> CHR ''/'' \<notin> set x"
  shows "trim_sep (CHR ''/'' # Join xs ''/'') = Join xs ''/''"
proof (cases "xs = []")
  case False
  note e = Join_plain_ends [OF this assms]
  then have "dropWhile (\<lambda>c. c = CHR ''/'') (Join xs ''/'') = Join xs ''/''" by (cases "Join xs ''/''") auto
  moreover have "dropWhile (\<lambda>c. c = CHR ''/'') (rev (Join xs ''/'')) = rev (Join xs ''/'')"
    using e by (cases "Join xs ''/''" rule: rev_cases) auto
  ultimately show ?thesis by (simp add: trim_sep_def)
qed (simp add: trim_sep_def)

lemma pathSegments_elems: "IsAbs p \<Longrightarrow> Clean p = p \<Longrightarrow> pathSegments p = length (elems p)"
proof -
  assume p: "IsAbs p" "Clean p = p"
  have plain: "x \<noteq> [] \<and> CHR ''/'' \<notin> set x" if "x \<in> set (elems p)" for x using elems_plain [OF that] by simp
  have t: "trim_sep p = Join (elems p) ''/''" by (subst Clean_fixed [OF p]) (rule trim_sep_Join [OF plain])
  show ?thesis
  proof (cases "elems p = []")
    case True
    with t show ?thesis by (simp add: pathSegments_def)
  next
    case False
    with Join_plain_ends [OF False plain] Split_Join [OF False, of "CHR ''/''"] plain t
    show ?thesis by (simp add: pathSegments_def Let_def)
  qed
qed

lemma pathMatchesCWD_elems:
  assumes "IsAbs base" "Clean base = base" and "IsAbs cwd" "Clean cwd = cwd"
  shows "pathMatchesCWD base cwd \<longleftrightarrow> prefix (elems base) (elems cwd)"
proof (cases "elems base = []")
  case True
  with Clean_fixed [OF assms(1,2)] have "base = ''/''" by simp
  moreover have "HasPrefix (cwd @ ''/'') ''/''" using assms(3) by (auto simp: IsAbs_Cons HasPrefix_def)
  ultimately show ?thesis using True by (simp add: pathMatchesCWD_def HasSuffix_def)
next
  case False
  have plain: "x \<noteq> [] \<and> CHR ''/'' \<notin> set x" if "x \<in> set (elems base)" for x using elems_plain [OF that] by simp
  have b: "base = CHR ''/'' # Join (elems base) ''/''" by (rule Clean_fixed [OF assms(1,2)])
  have "last base \<noteq> CHR ''/''"
    by (subst b) (use Join_plain_ends [OF False plain] in simp)
  then have ns: "\<not> HasSuffix base ''/''" by (auto simp: HasSuffix_iff suffix_def)
  from b have "base \<noteq> []" by auto
  with ns have "pathMatchesCWD base cwd \<longleftrightarrow> at_or_under cwd base"
    by (auto simp: pathMatchesCWD_def at_or_under_def HasPrefix_iff)
  also have "\<dots> \<longleftrightarrow> prefix (elems base) (elems cwd)"
    using at_or_under_elems [OF assms(3,1)] False assms(2,4) by simp
  finally show ?thesis .
qed

lemma abs_path_clean:
  assumes "abs_path sy raw = Inr p" and "sys_wd sy = Some wd" and "IsAbs wd"
  shows "IsAbs p \<and> Clean p = p"
proof -
  have j: "IsAbs (Join (wd # xs) ''/'')" for xs
    using assms(3) by (cases xs) (auto simp: IsAbs_Cons)
  from assms(1) obtain e where "Abs sy e = Some p" by (auto simp: abs_path_def rbind_eq_Inr ropt_eq_Inr)
  moreover have "wd \<noteq> []" using assms(3) by (auto simp: IsAbs_Cons)
  ultimately show ?thesis
    using assms(2) j [of "[e]"]
    by (auto simp: Abs_def PathJoin_def Clean_abs Clean_Clean split: if_split_asm)
qed

section \<open>The deepest matches\<close>

text \<open>The matching paths of the configuration, in the order the loops meet them.\<close>

definition path_matches :: "sys \<Rightarrow> string \<Rightarrow> string \<times> string \<Rightarrow> (string \<times> string) option" where
  "path_matches sy cwd nr =
     (case abs_path sy (snd nr) of
        Inl _ \<Rightarrow> None
      | Inr p \<Rightarrow> if pathMatchesCWD p cwd then Some (fst nr, p) else None)"

definition better :: "best_match \<Rightarrow> string \<times> string \<Rightarrow> best_match" where
  "better st np =
     (case (st, np) of ((best, matched, segs), (name, p)) \<Rightarrow>
        if best = [] \<or> pathSegments p > segs then ([name], p, pathSegments p)
        else if pathSegments p = segs \<and> name \<notin> set best then (best @ [name], matched, segs)
        else st)"

lemma match_path_better:
  "match_path sy cwd name st raw = (case path_matches sy cwd (name, raw) of None \<Rightarrow> st | Some np \<Rightarrow> better st np)"
  by (cases st) (auto simp: match_path_def path_matches_def better_def split: sum.split)

definition all_paths :: "Config \<Rightarrow> (string \<times> string) list" where
  "all_paths cfg = concat (map (\<lambda>n. map (Pair n) (w_Paths (lookup (c_Workspaces cfg) n))) (workspaceNames cfg))"

lemma best_matches_better:
  "best_matches sy cfg cwd = foldl better ([], [], 0) (List.map_filter (path_matches sy cwd) (all_paths cfg))"
proof -
  have 1: "foldl (match_path sy cwd n) st raws =
      foldl better st (List.map_filter (path_matches sy cwd) (map (Pair n) raws))" for n st raws
    by (induction raws arbitrary: st) (auto simp: match_path_better List.map_filter_simps split: option.split)
  have "foldl (match_workspace sy cfg cwd) st ns = foldl better st (List.map_filter (path_matches sy cwd)
      (concat (map (\<lambda>n. map (Pair n) (w_Paths (lookup (c_Workspaces cfg) n))) ns)))" for st ns
    by (induction ns arbitrary: st) (simp_all add: match_workspace_def 1 map_filter_append List.map_filter_simps)
  then show ?thesis by (simp add: best_matches_def all_paths_def)
qed

definition deepest :: "(string \<times> string) list \<Rightarrow> best_match \<Rightarrow> bool" where
  "deepest cs st \<longleftrightarrow>
     (case st of (best, matched, segs) \<Rightarrow>
        (best = [] \<longleftrightarrow> cs = []) \<and> distinct best \<and>
        (\<forall>n p. (n, p) \<in> set cs \<longrightarrow> pathSegments p \<le> segs) \<and>
        (best \<noteq> [] \<longrightarrow> (hd best, matched) \<in> set cs \<and> pathSegments matched = segs) \<and>
        (\<forall>n. n \<in> set best \<longleftrightarrow> (\<exists>p. (n, p) \<in> set cs \<and> pathSegments p = segs)))"

lemma better_deepest: "deepest cs st \<Longrightarrow> deepest (cs @ [np]) (better st np)"
proof -
  assume d: "deepest cs st"
  obtain best matched segs n p where e: "st = (best, matched, segs)" "np = (n, p)" by (metis prod_cases3 prod.exhaust)
  note d' = d [unfolded e deepest_def prod.case]
  consider "best = [] \<or> pathSegments p > segs" | "best \<noteq> []" "pathSegments p = segs" | "best \<noteq> []" "pathSegments p < segs"
    by linarith
  then show ?thesis
  proof cases
    case 1
    then have "pathSegments q < pathSegments p" if "(k, q) \<in> set cs" for k q
      using d' that by (metis empty_iff empty_set le_less_trans)
    moreover from 1 have "better (best, matched, segs) (n, p) = ([n], p, pathSegments p)"
      by (auto simp: better_def)
    ultimately show ?thesis unfolding e deepest_def by (auto dest: less_imp_le) (metis less_irrefl)
  next
    case 2
    with d' show ?thesis unfolding e by (auto simp: better_def deepest_def)
  next
    case 3
    with d' show ?thesis unfolding e by (auto simp: better_def deepest_def)
  qed
qed

lemma foldl_better_deepest: "deepest cs (foldl better ([], [], 0) cs)"
proof (induction cs rule: rev_induct)
  case (snoc x xs)
  from better_deepest [OF snoc.IH] show ?case by simp
qed (simp add: deepest_def)

text \<open>\<open>owns sy cfg n p\<close>: \<open>p\<close> is a path of the workspace \<open>n\<close>, made absolute.\<close>

definition owns :: "sys \<Rightarrow> Config \<Rightarrow> string \<Rightarrow> string \<Rightarrow> bool" where
  "owns sy cfg n p \<longleftrightarrow>
     (\<exists>ws raw. map_of (c_Workspaces cfg) n = Some ws \<and> raw \<in> set (w_Paths ws) \<and> abs_path sy raw = Inr p)"

lemma matches_owns:
  "(n, p) \<in> set (List.map_filter (path_matches sy cwd) (all_paths cfg)) \<longleftrightarrow> owns sy cfg n p \<and> pathMatchesCWD p cwd"
proof -
  have "(n, raw) \<in> set (all_paths cfg) \<longleftrightarrow> (\<exists>ws. map_of (c_Workspaces cfg) n = Some ws \<and> raw \<in> set (w_Paths ws))" for raw
    using key_in_sorted [of "c_Workspaces cfg" n] sorted_keys_lookup [of n "c_Workspaces cfg"]
    by (fastforce simp: all_paths_def workspaceNames_def lookup_def simp del: set_sorted_keys)
  then show ?thesis
    by (force simp: List.map_filter_def path_matches_def owns_def split: sum.split_asm if_split_asm)
qed

section \<open>Properties\<close>

text \<open>The workspace of a directory is the one with the deepest ancestor. For a cleaned absolute
  directory: when \<open>ResolveFromCWD\<close> returns a workspace with a matched path, that path belongs to
  the workspace and is an ancestor of (or is) the directory, every other workspace's ancestor
  paths are shallower, and the workspace's own are no deeper; when no path of any workspace is
  an ancestor the error is \<open>ErrNoMatch\<close>; and when two workspaces have ancestor paths as deep as
  any, the directory is refused as ambiguous with both of them named.\<close>

theorem cwd_deepest:
  assumes "IsAbs cwd" and "Clean cwd = cwd" and "sys_wd sy = Some wd" and "IsAbs wd"
  shows "(\<forall>r matched. ResolveFromCWD sy cfg cwd = Inr (r, matched) \<longrightarrow>
       owns sy cfg (r_Name r) matched \<and> prefix (elems matched) (elems cwd) \<and>
       (\<forall>n p. owns sy cfg n p \<and> prefix (elems p) (elems cwd) \<longrightarrow>
          length (elems p) < length (elems matched) \<or> n = r_Name r \<and> length (elems p) = length (elems matched))) \<and>
     ((\<nexists>n p. owns sy cfg n p \<and> prefix (elems p) (elems cwd)) \<longrightarrow> ResolveFromCWD sy cfg cwd = Inl (ErrNoMatch cwd)) \<and>
     (\<forall>n1 p1 n2 p2. n1 \<noteq> n2 \<and> owns sy cfg n1 p1 \<and> owns sy cfg n2 p2 \<and>
        prefix (elems p1) (elems cwd) \<and> prefix (elems p2) (elems cwd) \<and> length (elems p1) = length (elems p2) \<and>
        (\<forall>n p. owns sy cfg n p \<and> prefix (elems p) (elems cwd) \<longrightarrow> length (elems p) \<le> length (elems p1)) \<longrightarrow>
        (\<exists>ns. ResolveFromCWD sy cfg cwd = Inl (Ambiguous ns) \<and> n1 \<in> set ns \<and> n2 \<in> set ns))"
proof -
  define cs where "cs = List.map_filter (path_matches sy cwd) (all_paths cfg)"
  obtain best matched segs where bm: "best_matches sy cfg cwd = (best, matched, segs)" by (metis prod_cases3)
  have clean: "IsAbs p \<and> Clean p = p" if "owns sy cfg n p" for n p
    using that abs_path_clean [OF _ assms(3,4)] by (auto simp: owns_def)
  have cs: "(n, p) \<in> set cs \<longleftrightarrow> owns sy cfg n p \<and> prefix (elems p) (elems cwd)" for n p
    using matches_owns [of n p sy cwd cfg] clean [of n p] pathMatchesCWD_elems [OF _ _ assms(1,2)]
    unfolding cs_def by blast
  have segs: "pathSegments p = length (elems p)" if "(n, p) \<in> set cs" for n p
    using that clean [of n p] cs pathSegments_elems by blast
  have d: "deepest cs (best, matched, segs)"
    using foldl_better_deepest [of cs] bm by (simp add: cs_def best_matches_better)
  note D = d [unfolded deepest_def prod.case]
  note R = ResolveFromCWD_def [of sy cfg cwd, unfolded bm prod.case]
  have 1: "owns sy cfg (r_Name r) m \<and> prefix (elems m) (elems cwd) \<and>
       (\<forall>n p. owns sy cfg n p \<and> prefix (elems p) (elems cwd) \<longrightarrow>
          length (elems p) < length (elems m) \<or> n = r_Name r \<and> length (elems p) = length (elems m))"
    if "ResolveFromCWD sy cfg cwd = Inr (r, m)" for r m
  proof -
    from that R obtain name where n: "best = [name]" "Resolve sy (Some cfg) name = Inr r" "m = matched"
      by (auto simp: rbind_eq_Inr split: list.split_asm)
    then have "r_Name r = name" by (auto simp: Resolve_def Let_def rbind_eq_Inr rwrap_eq_Inr)
    moreover from D n(1) have m: "(name, matched) \<in> set cs" "pathSegments matched = segs" by simp_all
    moreover have "length (elems p) < length (elems matched) \<or> k = name \<and> length (elems p) = length (elems matched)"
      if "(k, p) \<in> set cs" for k p
      using D n(1) that segs [OF that] segs [OF m(1)] m(2) by (metis empty_iff empty_set le_neq_implies_less set_ConsD)
    ultimately show ?thesis using cs n(3) by blast
  qed
  have 2: "ResolveFromCWD sy cfg cwd = Inl (ErrNoMatch cwd)" if "\<nexists>n p. owns sy cfg n p \<and> prefix (elems p) (elems cwd)"
  proof -
    from that cs have "cs = []" by (metis list.set_intros(1) neq_Nil_conv prod.exhaust)
    with D R show ?thesis by simp
  qed
  have 3: "\<exists>ns. ResolveFromCWD sy cfg cwd = Inl (Ambiguous ns) \<and> n1 \<in> set ns \<and> n2 \<in> set ns"
    if "n1 \<noteq> n2" "(n1, p1) \<in> set cs" "(n2, p2) \<in> set cs" "length (elems p1) = length (elems p2)"
      "\<And>n p. (n, p) \<in> set cs \<Longrightarrow> length (elems p) \<le> length (elems p1)" for n1 p1 n2 p2
  proof -
    have "best \<noteq> []" using D that(2) by auto
    with D have m: "(hd best, matched) \<in> set cs" "pathSegments matched = segs" by simp_all
    have "pathSegments p1 = segs"
      using that(5) [OF m(1)] segs [OF m(1)] segs [OF that(2)] m(2) D that(2) by (metis antisym)
    with D that(2-4) segs have "n1 \<in> set best" "n2 \<in> set best" by metis+
    moreover with that(1) obtain x y ys where "best = x # y # ys" by (cases best; cases "tl best") auto
    ultimately show ?thesis using R by auto
  qed
  show ?thesis using 1 2 3 unfolding cs by blast
qed

theorem cwd_deepest_witness:
  "ResolveFromCWD sys_example example_config ''/work/a/src'' = Inr (example_resolved, ''/work/a'') \<and>
   owns sys_example example_config (r_Name example_resolved) ''/work/a'' \<and>
   prefix (elems ''/work/a'') (elems ''/work/a/src'')"
proof -
  have b: "best_matches sys_example example_config ''/work/a/src'' = ([''a''], ''/work/a'', 2)" by code_simp
  have r: "ResolveFromCWD sys_example example_config ''/work/a/src'' = Inr (example_resolved, ''/work/a'')"
    by (simp add: ResolveFromCWD_def b example_resolves)
  have c: "IsAbs ''/work/a/src''" "Clean ''/work/a/src'' = ''/work/a/src''" "IsAbs ''/work''" by code_simp+
  have w: "sys_wd sys_example = Some ''/work''" by (simp add: sys_example_def)
  from cwd_deepest [OF c(1,2) w c(3), of example_config] r show ?thesis by blast
qed

end
