(* ===== verification/Holder.thy ===== *)
theory Holder
  imports Session Modes
begin

text \<open>
  The session holder (\<open>internal/guest/session/holder.go\<close>): the process that keeps an agent's
  terminal while clients attach and leave. Its goroutines (the output pump, one \<open>attach\<close> with its
  write loop per client, \<open>Serve\<close> itself) interleave; every critical section and every action
  between two of them is an operation below, and \<open>hstep\<close> makes any sequence of them a run. The
  window size of the pseudo terminal itself is not part of the state, and closing a client is
  one action.
\<close>

section \<open>Clients\<close>

text \<open>Where the \<open>attach\<close> goroutine of a client is.\<close>

datatype phase =
    Redraw u16 u16
  | Settle u16 u16
  | Reading
  | Checked Frame
  | Leaving
  | Gone

record client =
  cl_out :: "Frame list"
  cl_done :: bool
  cl_wire :: "Frame list"
  cl_phase :: phase

definition clientQueue :: nat where "clientQueue = 512"

definition client_close :: "client \<Rightarrow> client" where
  "client_close c = c\<lparr>cl_done := True\<rparr>"

text \<open>A frame for a client that is done is dropped: nobody reads its queue any more.\<close>

definition client_send :: "Frame \<Rightarrow> client \<Rightarrow> client" where
  "client_send f c =
     (if cl_done c then c
      else if length (cl_out c) < clientQueue then c\<lparr>cl_out := cl_out c @ [f]\<rparr>
      else client_close c)"

text \<open>One round of the write loop; \<open>ok\<close> tells whether the connection takes the bytes.\<close>

definition writeLoop :: "bool \<Rightarrow> client \<Rightarrow> client option" where
  "writeLoop ok c =
     (if cl_done c then None
      else case cl_out c of
        [] \<Rightarrow> None
      | f # fs \<Rightarrow>
          (if ok \<and> is_ok (WriteFrame f) then
             let c' = c\<lparr>cl_out := fs, cl_wire := cl_wire c @ [f]\<rparr> in
             Some (if Type f = FrameExit \<or> Type f = FrameKicked then client_close c' else c')
           else Some (client_close (c\<lparr>cl_out := fs\<rparr>))))"

section \<open>The holder\<close>

text \<open>How far \<open>Serve\<close> is: the program runs, the pump has returned, the session has ended with a client
  to tell, the exit frame is queued and \<open>Serve\<close> waits for that client, the entry and the socket are removed.\<close>

datatype serving = Running | Drained | Ended "nat option" int | Told "nat option" | Cleaned

text \<open>
  \<open>h_pump\<close> holds the client and the data the pump has picked under the lock and not sent yet;
  \<open>h_disk\<close> is the \<open>attached\<close> flag of the entry in the state directory, None once it is removed;
  \<open>h_input\<close> is what has been written to the program.
\<close>

record holder =
  h_modes :: ModeTracker
  h_current :: "nat option"
  h_rows :: u16
  h_cols :: u16
  h_output :: u64
  h_ended :: bool
  h_Attached :: bool
  h_clients :: "client list"
  h_pump :: "(nat option \<times> bytes) option"
  h_disk :: "bool option"
  h_input :: bytes
  h_serving :: serving

definition new_holder :: "u16 \<Rightarrow> u16 \<Rightarrow> holder" where
  "new_holder rows cols =
     (let sz = (if rows = 0 \<or> cols = 0 then (24, 80) else (rows, cols)) in
      \<lparr>h_modes = NewModeTracker, h_current = None, h_rows = fst sz, h_cols = snd sz, h_output = 0,
       h_ended = False, h_Attached = False, h_clients = [], h_pump = None, h_disk = Some False,
       h_input = [], h_serving = Running\<rparr>)"

definition on_client :: "nat \<Rightarrow> (client \<Rightarrow> client) \<Rightarrow> holder \<Rightarrow> holder" where
  "on_client i f h = h\<lparr>h_clients := (h_clients h)[i := f (h_clients h ! i)]\<rparr>"

text \<open>\<open>h.info.Attached = b; _ = writeInfo(...)\<close>, whose error is ignored.\<close>

definition set_attached :: "bool \<Rightarrow> bool \<Rightarrow> holder \<Rightarrow> holder" where
  "set_attached b ok h = h\<lparr>h_Attached := b, h_disk := (if ok then Some b else h_disk h)\<rparr>"

definition resize :: "u16 \<Rightarrow> u16 \<Rightarrow> holder \<Rightarrow> holder" where
  "resize rows cols h = (if rows = 0 \<or> cols = 0 then h else h\<lparr>h_rows := rows, h_cols := cols\<rparr>)"

section \<open>Attaching\<close>

definition hello_size :: "bytes \<Rightarrow> (u16 \<times> u16) option" where
  "hello_size stream =
     (case ReadFrame stream of
        Inl _ \<Rightarrow> None
      | Inr (hello, _) \<Rightarrow>
          if Type hello \<noteq> FrameHello then None
          else (case ParseSize (Payload hello) of Inl _ \<Rightarrow> None | Inr sz \<Rightarrow> Some sz))"

definition data_frame :: "bytes \<Rightarrow> Frame" where
  "data_frame d = \<lparr>Type = FrameData, Payload = d\<rparr>"

definition kicked_frame :: Frame where
  "kicked_frame = \<lparr>Type = FrameKicked, Payload = []\<rparr>"

definition new_client :: "bytes \<Rightarrow> u16 \<Rightarrow> u16 \<Rightarrow> client" where
  "new_client replay rows cols =
     \<lparr>cl_out = (if length replay > 0 then [data_frame replay] else []), cl_done = False, cl_wire = [],
      cl_phase = Redraw rows cols\<rparr>"

text \<open>The first critical section of \<open>attach\<close>: the new client takes the session over.\<close>

definition attach :: "bytes \<Rightarrow> bool \<Rightarrow> holder \<Rightarrow> holder" where
  "attach stream ok h =
     (case hello_size stream of
        None \<Rightarrow> h
      | Some (rows, cols) \<Rightarrow>
          if h_ended h then h
          else
            let h1 = (case h_current h of Some old \<Rightarrow> on_client old (client_send kicked_frame) h | None \<Rightarrow> h);
                h2 = h1\<lparr>h_current := Some (length (h_clients h)),
                        h_clients := h_clients h1 @ [new_client (Replay (h_modes h)) rows cols]\<rparr>
            in set_attached True ok h2)"

text \<open>\<open>redraw\<close>: the nudge to one row less when the size is the same, then the size itself.\<close>

definition redraw_nudge :: "nat \<Rightarrow> holder \<Rightarrow> holder option" where
  "redraw_nudge i h =
     (case cl_phase (h_clients h ! i) of
        Redraw rows cols \<Rightarrow>
          Some (on_client i (\<lambda>c. c\<lparr>cl_phase := Settle rows cols\<rparr>)
            (if rows = h_rows h \<and> cols = h_cols h \<and> rows > 1 then resize (rows - 1) cols h else h))
      | _ \<Rightarrow> None)"

definition redraw_settle :: "nat \<Rightarrow> holder \<Rightarrow> holder option" where
  "redraw_settle i h =
     (case cl_phase (h_clients h ! i) of
        Settle rows cols \<Rightarrow> Some (on_client i (\<lambda>c. c\<lparr>cl_phase := Reading\<rparr>) (resize rows cols h))
      | _ \<Rightarrow> None)"

text \<open>\<open>readLoop\<close>: a frame, or the error of the connection, and the check that the client is current;
  then what the frame asks for. Leaving the loop closes the client.\<close>

definition leave :: "client \<Rightarrow> client" where
  "leave c = (client_close c)\<lparr>cl_phase := Leaving\<rparr>"

definition read_frame :: "nat \<Rightarrow> Frame option \<Rightarrow> holder \<Rightarrow> holder option" where
  "read_frame i r h =
     (case cl_phase (h_clients h ! i) of
        Reading \<Rightarrow>
          Some (case r of
                  None \<Rightarrow> on_client i leave h
                | Some f \<Rightarrow>
                    if h_current h \<noteq> Some i then on_client i leave h
                    else on_client i (\<lambda>c. c\<lparr>cl_phase := Checked f\<rparr>) h)
      | _ \<Rightarrow> None)"

definition act_frame :: "nat \<Rightarrow> bool \<Rightarrow> holder \<Rightarrow> holder option" where
  "act_frame i ok h =
     (case cl_phase (h_clients h ! i) of
        Checked f \<Rightarrow>
          Some (if Type f = FrameData then
                  (if ok then on_client i (\<lambda>c. c\<lparr>cl_phase := Reading\<rparr>) (h\<lparr>h_input := h_input h @ Payload f\<rparr>)
                   else on_client i leave h)
                else if Type f = FrameResize then
                  (case ParseSize (Payload f) of
                     Inr (rows, cols) \<Rightarrow> on_client i (\<lambda>c. c\<lparr>cl_phase := Reading\<rparr>) (resize rows cols h)
                   | Inl _ \<Rightarrow> on_client i (\<lambda>c. c\<lparr>cl_phase := Reading\<rparr>) h)
                else on_client i (\<lambda>c. c\<lparr>cl_phase := Reading\<rparr>) h)
      | _ \<Rightarrow> None)"

text \<open>The last critical section of \<open>attach\<close>.\<close>

definition detach :: "nat \<Rightarrow> bool \<Rightarrow> holder \<Rightarrow> holder option" where
  "detach i ok h =
     (case cl_phase (h_clients h ! i) of
        Leaving \<Rightarrow>
          Some (on_client i (\<lambda>c. c\<lparr>cl_phase := Gone\<rparr>)
            (if h_current h = Some i \<and> \<not> h_ended h then set_attached False ok (h\<lparr>h_current := None\<rparr>) else h))
      | _ \<Rightarrow> None)"

definition write_frame :: "nat \<Rightarrow> bool \<Rightarrow> holder \<Rightarrow> holder option" where
  "write_frame i ok h = map_option (\<lambda>c. on_client i (\<lambda>_. c) h) (writeLoop ok (h_clients h ! i))"

section \<open>Output\<close>

text \<open>\<open>pump\<close>: a read of at most 32 KiB, fed to the mode tracker under the lock; then the send.\<close>

definition pump_read :: "bytes \<Rightarrow> holder \<Rightarrow> holder option" where
  "pump_read data h =
     (if h_serving h = Running \<and> h_pump h = None \<and> data \<noteq> [] \<and> length data \<le> 32768 then
        Some (h\<lparr>h_output := h_output h + word_of_nat (length data), h_modes := Feed (h_modes h) data,
                h_pump := Some (h_current h, data)\<rparr>)
      else None)"

definition pump_send :: "holder \<Rightarrow> holder option" where
  "pump_send h =
     (case h_pump h of
        None \<Rightarrow> None
      | Some (None, data) \<Rightarrow> Some (h\<lparr>h_pump := None\<rparr>)
      | Some (Some i, data) \<Rightarrow> Some (on_client i (client_send (data_frame data)) (h\<lparr>h_pump := None\<rparr>)))"

section \<open>The end\<close>

definition pump_return :: "holder \<Rightarrow> holder option" where
  "pump_return h =
     (if h_serving h = Running \<and> h_pump h = None then Some (h\<lparr>h_serving := Drained\<rparr>) else None)"

definition end_session :: "int \<Rightarrow> holder \<Rightarrow> holder option" where
  "end_session code h =
     (if h_serving h = Drained then Some (h\<lparr>h_ended := True, h_serving := Ended (h_current h) code\<rparr>) else None)"

definition tell_exit :: "holder \<Rightarrow> holder option" where
  "tell_exit h =
     (case h_serving h of
        Ended None code \<Rightarrow> Some (h\<lparr>h_serving := Told None\<rparr>)
      | Ended (Some i) code \<Rightarrow> Some (on_client i (client_send (ExitFrame code)) (h\<lparr>h_serving := Told (Some i)\<rparr>))
      | _ \<Rightarrow> None)"

text \<open>The deferred removals, once the client that was told is done or the write timeout has passed.\<close>

definition cleanup :: "bool \<Rightarrow> holder \<Rightarrow> holder option" where
  "cleanup timeout h =
     (case h_serving h of
        Told c \<Rightarrow>
          if (case c of None \<Rightarrow> True | Some i \<Rightarrow> cl_done (h_clients h ! i) \<or> timeout)
          then Some (h\<lparr>h_serving := Cleaned, h_disk := None\<rparr>) else None
      | _ \<Rightarrow> None)"

section \<open>Interleavings\<close>

datatype event =
    EvConnect bytes bool
  | EvNudge nat
  | EvSettle nat
  | EvRead nat "Frame option"
  | EvAct nat bool
  | EvDetach nat bool
  | EvWrite nat bool
  | EvPumpRead bytes
  | EvPumpSend
  | EvPumpReturn
  | EvEnd int
  | EvTell
  | EvCleanup bool

definition on_known :: "nat \<Rightarrow> holder \<Rightarrow> (holder \<Rightarrow> holder option) \<Rightarrow> holder option" where
  "on_known i h f = (if i < length (h_clients h) then f h else None)"

fun hstep :: "holder \<Rightarrow> event \<Rightarrow> holder option" where
  "hstep h (EvConnect stream ok) = Some (attach stream ok h)"
| "hstep h (EvNudge i) = on_known i h (redraw_nudge i)"
| "hstep h (EvSettle i) = on_known i h (redraw_settle i)"
| "hstep h (EvRead i r) = on_known i h (read_frame i r)"
| "hstep h (EvAct i ok) = on_known i h (act_frame i ok)"
| "hstep h (EvDetach i ok) = on_known i h (detach i ok)"
| "hstep h (EvWrite i ok) = on_known i h (write_frame i ok)"
| "hstep h (EvPumpRead data) = pump_read data h"
| "hstep h EvPumpSend = pump_send h"
| "hstep h EvPumpReturn = pump_return h"
| "hstep h (EvEnd code) = end_session code h"
| "hstep h EvTell = tell_exit h"
| "hstep h (EvCleanup timeout) = cleanup timeout h"

fun hrun :: "holder \<Rightarrow> event list \<Rightarrow> holder option" where
  "hrun h [] = Some h"
| "hrun h (e # es) = (case hstep h e of None \<Rightarrow> None | Some h' \<Rightarrow> hrun h' es)"

end
