(* ===== verification/HolderProps.thy ===== *)
theory HolderProps
  imports Holder
begin

text \<open>
  Properties of the session holder under every interleaving: an invariant of its state, and the
  refinement of an abstract terminal that gives each client the modes at its attach and then all
  output until it is displaced.
\<close>

lemmas client_defs = client_close_def leave_def new_client_def
lemmas holder_ops =
  attach_def redraw_nudge_def redraw_settle_def read_frame_def act_frame_def detach_def write_frame_def
  pump_read_def pump_send_def pump_return_def end_session_def tell_exit_def cleanup_def

lemma nth_update_if: "xs[j := v] ! i = (if i = j \<and> j < length xs then v else xs ! i)"
  by (cases "j < length xs") (auto simp: nth_list_update list_update_beyond)

section \<open>Client facts\<close>

definition final :: "Frame \<Rightarrow> bool" where
  "final f \<longleftrightarrow> Type f = FrameExit \<or> Type f = FrameKicked"

text \<open>The queue is bounded, a final frame is the last one written and the client is closed after it,
  and a client whose read loop has returned is closed.\<close>

definition client_ok :: "client \<Rightarrow> bool" where
  "client_ok c \<longleftrightarrow>
     length (cl_out c) \<le> clientQueue \<and>
     list_all (\<lambda>f. \<not> final f) (butlast (cl_wire c)) \<and>
     (\<not> cl_done c \<longrightarrow> list_all (\<lambda>f. \<not> final f) (cl_wire c)) \<and>
     (cl_phase c = Leaving \<or> cl_phase c = Gone \<longrightarrow> cl_done c)"

text \<open>Kicked, or closed.\<close>

definition displaced :: "client \<Rightarrow> bool" where
  "displaced c \<longleftrightarrow> cl_done c \<or> list_ex (\<lambda>f. Type f = FrameKicked) (cl_out c)"

lemma client_ok_send: "client_ok c \<Longrightarrow> client_ok (client_send f c)"
  by (auto simp: client_ok_def client_send_def client_defs)

lemma list_all_butlast: "list_all P xs \<Longrightarrow> list_all P (butlast xs)"
  by (auto simp: list_all_iff dest: in_set_butlastD)

lemma client_ok_write: "client_ok c \<Longrightarrow> writeLoop ok c = Some c' \<Longrightarrow> client_ok c'"
  by (auto simp: client_ok_def writeLoop_def client_defs final_def Let_def list_all_butlast
      split: if_split_asm list.split_asm)

lemma client_ok_leave: "client_ok c \<Longrightarrow> client_ok (leave c)"
  by (auto simp: client_ok_def client_defs)

lemma client_ok_phase: "client_ok c \<Longrightarrow> p \<noteq> Leaving \<Longrightarrow> p \<noteq> Gone \<or> cl_done c \<Longrightarrow> client_ok (c\<lparr>cl_phase := p\<rparr>)"
  by (auto simp: client_ok_def)

lemma client_ok_new: "client_ok (new_client d rows cols)"
  by (simp add: client_ok_def client_defs clientQueue_def)

lemma displaced_send: "displaced c \<Longrightarrow> displaced (client_send f c)"
  by (auto simp: displaced_def client_send_def client_defs)

lemma displaced_kick: "displaced (client_send kicked_frame c)"
  by (auto simp: displaced_def client_send_def client_defs kicked_frame_def)

lemma displaced_write: "displaced c \<Longrightarrow> writeLoop ok c = Some c' \<Longrightarrow> displaced c'"
  by (auto simp: displaced_def writeLoop_def client_defs Let_def frame_types split: if_split_asm list.split_asm)

lemma displaced_leave: "displaced (leave c)"
  by (simp add: displaced_def client_defs)

lemma displaced_phase [simp]: "displaced (c\<lparr>cl_phase := p\<rparr>) = displaced c"
  by (simp add: displaced_def)

section \<open>The invariant\<close>

definition served_ok :: "holder \<Rightarrow> bool" where
  "served_ok h \<longleftrightarrow>
     (case h_serving h of
        Running \<Rightarrow> \<not> h_ended h
      | Drained \<Rightarrow> \<not> h_ended h \<and> h_pump h = None
      | Ended c code \<Rightarrow> h_ended h \<and> h_pump h = None \<and> c = h_current h
      | Told c \<Rightarrow> h_ended h \<and> h_pump h = None \<and> c = h_current h
      | Cleaned \<Rightarrow> h_ended h \<and> h_pump h = None \<and> h_disk h = None)"

definition known :: "nat \<Rightarrow> nat option \<Rightarrow> bool" where
  "known n c \<longleftrightarrow> (case c of None \<Rightarrow> True | Some i \<Rightarrow> i < n)"

definition pump_ok :: "nat \<Rightarrow> (nat option \<times> bytes) option \<Rightarrow> bool" where
  "pump_ok n p \<longleftrightarrow> (case p of None \<Rightarrow> True | Some (c, d) \<Rightarrow> known n c \<and> length d \<le> 32768)"

definition hinv :: "holder \<Rightarrow> bool" where
  "hinv h \<longleftrightarrow>
     list_all client_ok (h_clients h) \<and>
     known (length (h_clients h)) (h_current h) \<and>
     pump_ok (length (h_clients h)) (h_pump h) \<and>
     (\<not> h_ended h \<longrightarrow> (h_Attached h \<longleftrightarrow> h_current h \<noteq> None)) \<and>
     (\<forall>i < length (h_clients h). h_current h \<noteq> Some i \<longrightarrow> displaced (h_clients h ! i)) \<and>
     served_ok h"

lemma on_client_simps [simp]:
  "h_modes (on_client i f h) = h_modes h" "h_current (on_client i f h) = h_current h"
  "h_ended (on_client i f h) = h_ended h" "h_Attached (on_client i f h) = h_Attached h"
  "h_pump (on_client i f h) = h_pump h" "h_disk (on_client i f h) = h_disk h"
  "h_serving (on_client i f h) = h_serving h" "h_input (on_client i f h) = h_input h"
  "h_clients (on_client i f h) = (h_clients h)[i := f (h_clients h ! i)]"
  by (simp_all add: on_client_def)

lemma resize_simps [simp]:
  "h_modes (resize r c h) = h_modes h" "h_current (resize r c h) = h_current h"
  "h_ended (resize r c h) = h_ended h" "h_Attached (resize r c h) = h_Attached h"
  "h_pump (resize r c h) = h_pump h" "h_disk (resize r c h) = h_disk h"
  "h_serving (resize r c h) = h_serving h" "h_input (resize r c h) = h_input h"
  "h_clients (resize r c h) = h_clients h"
  by (simp_all add: resize_def)

lemma served_ok_cong:
  "h_serving h' = h_serving h \<Longrightarrow> h_ended h' = h_ended h \<Longrightarrow> h_pump h' = h_pump h \<Longrightarrow>
   h_current h' = h_current h \<Longrightarrow> h_disk h' = h_disk h \<Longrightarrow> served_ok h' = served_ok h"
  by (simp add: served_ok_def split: serving.split)

text \<open>A step that changes one client and nothing the invariant reads beside it.\<close>

lemma hinv_on_client:
  assumes "hinv h" and "i < length (h_clients h)"
    and "h_clients h' = (h_clients h)[i := c]" and "h_current h' = h_current h" and "h_pump h' = h_pump h"
    and "h_ended h' = h_ended h" and "h_Attached h' = h_Attached h" and "h_serving h' = h_serving h"
    and "h_disk h' = h_disk h"
    and "client_ok (h_clients h ! i) \<Longrightarrow> client_ok c"
    and "displaced (h_clients h ! i) \<Longrightarrow> displaced c"
  shows "hinv h'"
proof -
  have "client_ok (h_clients h ! i)" using assms(1,2) by (simp add: hinv_def list_all_length)
  then have "list_all client_ok (h_clients h')" using assms(1,3,10) unfolding hinv_def list_all_iff
    by (auto dest: subsetD [OF set_update_subset_insert])
  moreover have "displaced (h_clients h' ! j)" if "j < length (h_clients h')" "h_current h' \<noteq> Some j" for j
    using that assms(1-4,11) unfolding hinv_def by (cases "j = i") simp_all
  ultimately show ?thesis using assms served_ok_cong [of h' h] unfolding hinv_def by simp
qed

lemma client_ok_nth: "hinv h \<Longrightarrow> i < length (h_clients h) \<Longrightarrow> client_ok (h_clients h ! i)"
  by (simp add: hinv_def list_all_length)

lemma known_mono: "known n c \<Longrightarrow> n \<le> m \<Longrightarrow> known m c"
  by (auto simp: known_def split: option.split)

lemma pump_ok_mono: "pump_ok n p \<Longrightarrow> n \<le> m \<Longrightarrow> pump_ok m p"
  by (auto simp: pump_ok_def intro: known_mono split: option.split_asm option.split)

lemma hinv_kick:
  assumes "hinv h" and "h_current h = Some i"
  shows "hinv (on_client i (client_send kicked_frame) h)"
proof -
  have "i < length (h_clients h)" using assms by (simp add: hinv_def known_def)
  from hinv_on_client [OF assms(1) this] show ?thesis by (simp add: client_ok_send displaced_kick)
qed

lemma hinv_attach: "hinv h \<Longrightarrow> hinv (attach stream ok h)"
proof (cases "hello_size stream = None \<or> h_ended h")
  case True
  assume "hinv h"
  with True show ?thesis by (auto simp: attach_def split: option.split)
next
  case False
  assume h: "hinv h"
  define h1 where "h1 = (case h_current h of Some old \<Rightarrow> on_client old (client_send kicked_frame) h | None \<Rightarrow> h)"
  have h1: "hinv h1" using h hinv_kick by (auto simp: h1_def split: option.split)
  have eqs: "length (h_clients h1) = length (h_clients h)" "h_ended h1 = h_ended h" "h_serving h1 = h_serving h"
    "h_pump h1 = h_pump h" "h_current h1 = h_current h" by (simp_all add: h1_def split: option.split)
  have dis: "displaced (h_clients h1 ! i)" if "i < length (h_clients h)" for i
  proof (cases "h_current h = Some i")
    case True
    with that show ?thesis by (simp add: h1_def displaced_kick)
  next
    case False
    with h1 that eqs show ?thesis by (simp add: hinv_def)
  qed
  obtain rows cols where "hello_size stream = Some (rows, cols)" using False by (cases "hello_size stream") auto
  with False have a: "attach stream ok h = set_attached True ok (h1\<lparr>h_current := Some (length (h_clients h)),
      h_clients := h_clients h1 @ [new_client (Replay (h_modes h)) rows cols]\<rparr>)"
    by (simp add: attach_def h1_def Let_def)
  have "displaced ((h_clients h1 @ [new_client (Replay (h_modes h)) rows cols]) ! i)"
    if "i < Suc (length (h_clients h))" "i \<noteq> length (h_clients h)" for i
    using dis [of i] that eqs(1) by (simp add: nth_append)
  moreover have "served_ok h1" "\<not> h_ended h1" using h1 False eqs by (simp_all add: hinv_def)
  moreover have "list_all client_ok (h_clients h1)" "pump_ok (length (h_clients h)) (h_pump h1)"
    using h1 eqs(1) by (simp_all add: hinv_def)
  ultimately show ?thesis
    unfolding a hinv_def
    by (auto simp: set_attached_def eqs(1) client_ok_new known_def served_ok_def intro: pump_ok_mono split: serving.split_asm)
qed

lemma hinv_detach:
  assumes "hinv h" and "i < length (h_clients h)" and "cl_phase (h_clients h ! i) = Leaving"
    and "h_current h = Some i" and "\<not> h_ended h"
  shows "hinv (set_attached False ok (h\<lparr>h_current := None\<rparr>))"
proof -
  have "displaced (h_clients h ! i)"
    using client_ok_nth [OF assms(1,2)] assms(3) by (simp add: client_ok_def displaced_def)
  then have "displaced (h_clients h ! j)" if "j < length (h_clients h)" for j
    using assms(1,4) that by (cases "j = i") (simp_all add: hinv_def)
  with assms(1,5) show ?thesis
    by (auto simp: hinv_def set_attached_def known_def served_ok_def split: serving.split_asm)
qed

lemma hinv_pump_send: "hinv h \<Longrightarrow> pump_send h = Some h' \<Longrightarrow> hinv h'"
proof -
  assume h: "hinv h" and s: "pump_send h = Some h'"
  then obtain c d where p: "h_pump h = Some (c, d)" by (auto simp: pump_send_def split: option.split_asm)
  then have r: "h_serving h = Running" using h by (auto simp: hinv_def served_ok_def split: serving.split_asm)
  have h0: "hinv (h\<lparr>h_pump := None\<rparr>)" using h r by (simp add: hinv_def served_ok_def pump_ok_def)
  show ?thesis
  proof (cases c)
    case None
    with p s h0 show ?thesis by (auto simp: pump_send_def)
  next
    case (Some i)
    with p h have i: "i < length (h_clients h)" by (simp add: hinv_def pump_ok_def known_def)
    from p s Some have "h' = on_client i (client_send (data_frame d)) (h\<lparr>h_pump := None\<rparr>)"
      by (simp add: pump_send_def)
    with hinv_on_client [OF h0, of i h'] i show ?thesis by (simp add: client_ok_send displaced_send)
  qed
qed

lemma hinv_tell: "hinv h \<Longrightarrow> tell_exit h = Some h' \<Longrightarrow> hinv h'"
proof -
  assume h: "hinv h" and s: "tell_exit h = Some h'"
  then obtain c code where e: "h_serving h = Ended c code" by (auto simp: tell_exit_def split: serving.split_asm)
  with h have c: "c = h_current h" and h0: "hinv (h\<lparr>h_serving := Told c\<rparr>)"
    by (simp_all add: hinv_def served_ok_def pump_ok_def)
  show ?thesis
  proof (cases c)
    case None
    with e s h0 show ?thesis by (auto simp: tell_exit_def)
  next
    case (Some i)
    with c h have i: "i < length (h_clients h)" by (metis hinv_def known_def option.simps(5))
    from e s Some have "h' = on_client i (client_send (ExitFrame code)) (h\<lparr>h_serving := Told c\<rparr>)"
      by (simp add: tell_exit_def)
    with hinv_on_client [OF h0, of i h'] i show ?thesis by (simp add: client_ok_send displaced_send)
  qed
qed

text \<open>The steps of one client's goroutines, apart from the last critical section: the client moves to
  another phase, leaves its read loop or writes a frame, and the rest of what the proofs read
  stays.\<close>

definition client_move :: "client \<Rightarrow> client \<Rightarrow> bool" where
  "client_move c c' \<longleftrightarrow>
     (\<exists>p. p \<noteq> Leaving \<and> p \<noteq> Gone \<and> c' = c\<lparr>cl_phase := p\<rparr>) \<or> c' = leave c \<or> (\<exists>ok. writeLoop ok c = Some c')"

definition moved :: "nat \<Rightarrow> holder \<Rightarrow> holder \<Rightarrow> bool" where
  "moved i h h' \<longleftrightarrow>
     (\<exists>c. client_move (h_clients h ! i) c \<and> h_clients h' = (h_clients h)[i := c]) \<and>
     h_current h' = h_current h \<and> h_pump h' = h_pump h \<and> h_ended h' = h_ended h \<and> h_modes h' = h_modes h \<and>
     h_Attached h' = h_Attached h \<and> h_serving h' = h_serving h \<and> h_disk h' = h_disk h"

lemma client_moves:
  "p \<noteq> Leaving \<Longrightarrow> p \<noteq> Gone \<Longrightarrow> client_move c (c\<lparr>cl_phase := p\<rparr>)"
  "client_move c (leave c)"
  "writeLoop ok c = Some c' \<Longrightarrow> client_move c c'"
  by (auto simp: client_move_def)

lemma moved_on_client:
  "client_move (h_clients h ! i) (f (h_clients h ! i)) \<Longrightarrow> moved i h (on_client i f h)"
  "client_move (h_clients h ! i) (f (h_clients h ! i)) \<Longrightarrow> moved i h (on_client i f (resize rows cols h))"
  "client_move (h_clients h ! i) (f (h_clients h ! i)) \<Longrightarrow> moved i h (on_client i f (h\<lparr>h_input := x\<rparr>))"
  by (auto simp: moved_def)

lemma client_steps_move:
  "redraw_nudge i h = Some h' \<Longrightarrow> moved i h h'"
  "redraw_settle i h = Some h' \<Longrightarrow> moved i h h'"
  "read_frame i r h = Some h' \<Longrightarrow> moved i h h'"
  "act_frame i ok h = Some h' \<Longrightarrow> moved i h h'"
  "write_frame i ok h = Some h' \<Longrightarrow> moved i h h'"
  by (auto simp: redraw_nudge_def redraw_settle_def read_frame_def act_frame_def write_frame_def
      intro!: moved_on_client intro: client_moves
      split: phase.split_asm option.split_asm if_split_asm sum.split_asm)

lemma moved_ok: "client_move c c' \<Longrightarrow> client_ok c \<Longrightarrow> client_ok c'"
  by (auto simp: client_move_def client_ok_phase client_ok_leave client_ok_write)

lemma moved_displaced: "client_move c c' \<Longrightarrow> displaced c \<Longrightarrow> displaced c'"
  by (auto simp: client_move_def displaced_leave displaced_write)

lemma hinv_moved: "hinv h \<Longrightarrow> i < length (h_clients h) \<Longrightarrow> moved i h h' \<Longrightarrow> hinv h'"
  by (auto simp: moved_def intro: hinv_on_client moved_ok moved_displaced)

lemma hinv_step: "hinv h \<Longrightarrow> hstep h e = Some h' \<Longrightarrow> hinv h'"
proof (cases e)
  case (EvDetach i ok)
  assume h: "hinv h" and "hstep h e = Some h'"
  with EvDetach have i: "i < length (h_clients h)" and l: "cl_phase (h_clients h ! i) = Leaving"
    and h': "h' = on_client i (\<lambda>c. c\<lparr>cl_phase := Gone\<rparr>)
      (if h_current h = Some i \<and> \<not> h_ended h then set_attached False ok (h\<lparr>h_current := None\<rparr>) else h)"
    by (auto simp: on_known_def detach_def split: if_split_asm phase.split_asm)
  let ?g = "if h_current h = Some i \<and> \<not> h_ended h then set_attached False ok (h\<lparr>h_current := None\<rparr>) else h"
  have g: "hinv ?g" using h hinv_detach [OF h i l] by simp
  have gc: "h_clients ?g = h_clients h" by (simp add: set_attached_def)
  have "cl_done (h_clients h ! i)" using client_ok_nth [OF h i] l by (simp add: client_ok_def)
  then have ok: "client_ok ((h_clients h ! i)\<lparr>cl_phase := Gone\<rparr>)"
    using client_ok_nth [OF h i] by (simp add: client_ok_phase)
  show ?thesis
    by (rule hinv_on_client [OF g, of i h' "(h_clients h ! i)\<lparr>cl_phase := Gone\<rparr>"])
      (use i ok h' gc in \<open>simp_all add: on_client_def\<close>)
next
  case (EvConnect s ok)
  assume "hinv h" "hstep h e = Some h'"
  with EvConnect show ?thesis by (auto intro: hinv_attach)
next
  case (EvPumpRead d)
  assume "hinv h" "hstep h e = Some h'"
  with EvPumpRead show ?thesis
    by (auto simp: pump_read_def hinv_def pump_ok_def served_ok_def split: if_split_asm)
next
  case (EvEnd code)
  assume "hinv h" "hstep h e = Some h'"
  with EvEnd show ?thesis by (auto simp: end_session_def hinv_def served_ok_def split: if_split_asm)
next
  case EvPumpReturn
  assume "hinv h" "hstep h e = Some h'"
  with EvPumpReturn show ?thesis by (auto simp: pump_return_def hinv_def served_ok_def pump_ok_def split: if_split_asm)
next
  case (EvCleanup timeout)
  assume "hinv h" "hstep h e = Some h'"
  with EvCleanup show ?thesis by (auto simp: cleanup_def hinv_def served_ok_def split: if_split_asm serving.split_asm)
next
  case (EvNudge i)
  assume "hinv h" "hstep h e = Some h'"
  with EvNudge show ?thesis by (auto simp: on_known_def intro: hinv_moved client_steps_move split: if_split_asm)
next
  case (EvSettle i)
  assume "hinv h" "hstep h e = Some h'"
  with EvSettle show ?thesis by (auto simp: on_known_def intro: hinv_moved client_steps_move split: if_split_asm)
next
  case (EvRead i r)
  assume "hinv h" "hstep h e = Some h'"
  with EvRead show ?thesis by (auto simp: on_known_def intro: hinv_moved client_steps_move split: if_split_asm)
next
  case (EvAct i ok)
  assume "hinv h" "hstep h e = Some h'"
  with EvAct show ?thesis by (auto simp: on_known_def intro: hinv_moved client_steps_move split: if_split_asm)
next
  case (EvWrite i ok)
  assume "hinv h" "hstep h e = Some h'"
  with EvWrite show ?thesis by (auto simp: on_known_def intro: hinv_moved client_steps_move split: if_split_asm)
next
  case EvPumpSend
  assume "hinv h" "hstep h e = Some h'"
  with EvPumpSend show ?thesis by (auto intro: hinv_pump_send)
next
  case EvTell
  assume "hinv h" "hstep h e = Some h'"
  with EvTell show ?thesis by (auto intro: hinv_tell)
qed

lemma hinv_new: "hinv (new_holder rows cols)"
  by (simp add: new_holder_def Let_def hinv_def known_def pump_ok_def served_ok_def)

lemma hinv_run: "hrun h es = Some h' \<Longrightarrow> hinv h \<Longrightarrow> hinv h'"
  by (induction es arbitrary: h) (auto split: option.split_asm dest: hinv_step)

section \<open>The abstract terminal\<close>

text \<open>
  What a session is for: it remembers the program's output, and every client is due the
  sequences that restore the terminal modes at the time it attached, followed by all output
  from then on until it is displaced or leaves.
\<close>

record spec =
  sp_output :: bytes
  sp_due :: "bytes list"
  sp_current :: "nat option"
  sp_ended :: bool

definition spec_init :: spec where
  "spec_init = \<lparr>sp_output = [], sp_due = [], sp_current = None, sp_ended = False\<rparr>"

fun spec_step :: "spec \<Rightarrow> event \<Rightarrow> spec" where
  "spec_step sp (EvConnect stream ok) =
     (if hello_size stream = None \<or> sp_ended sp then sp
      else sp\<lparr>sp_due := sp_due sp @ [Replay (Feed NewModeTracker (sp_output sp))],
              sp_current := Some (length (sp_due sp))\<rparr>)"
| "spec_step sp (EvPumpRead data) =
     sp\<lparr>sp_output := sp_output sp @ data,
        sp_due := (case sp_current sp of
                     None \<Rightarrow> sp_due sp
                   | Some i \<Rightarrow> (sp_due sp)[i := sp_due sp ! i @ data])\<rparr>"
| "spec_step sp (EvDetach i ok) =
     (if sp_current sp = Some i \<and> \<not> sp_ended sp then sp\<lparr>sp_current := None\<rparr> else sp)"
| "spec_step sp (EvEnd code) = sp\<lparr>sp_ended := True\<rparr>"
| "spec_step sp e = sp"

text \<open>The terminal bytes in a list of frames.\<close>

definition data_of :: "Frame list \<Rightarrow> bytes" where
  "data_of fs = concat (map Payload (filter (\<lambda>f. Type f = FrameData) fs))"

definition pending :: "holder \<Rightarrow> nat \<Rightarrow> bytes" where
  "pending h i = (case h_pump h of Some (Some j, d) \<Rightarrow> if j = i then d else [] | _ \<Rightarrow> [])"

text \<open>A client has been written a prefix of what it is due; while it is connected, the rest is in its
  queue and in the pump's hand.\<close>

definition client_sim :: "bytes \<Rightarrow> bytes \<Rightarrow> client \<Rightarrow> bool" where
  "client_sim due pend c \<longleftrightarrow>
     prefix (data_of (cl_wire c)) due \<and>
     (\<not> cl_done c \<longrightarrow> data_of (cl_wire c) @ data_of (cl_out c) @ pend = due)"

definition sim :: "spec \<Rightarrow> holder \<Rightarrow> bool" where
  "sim sp h \<longleftrightarrow>
     sp_current sp = h_current h \<and> sp_ended sp = h_ended h \<and>
     h_modes h = Feed NewModeTracker (sp_output sp) \<and>
     length (sp_due sp) = length (h_clients h) \<and>
     (\<forall>i < length (h_clients h). client_sim (sp_due sp ! i) (pending h i) (h_clients h ! i))"

lemma data_of_append [simp]: "data_of (xs @ ys) = data_of xs @ data_of ys"
  by (simp add: data_of_def)

lemma data_of_simps [simp]:
  "data_of [] = []" "data_of (f # fs) = (if Type f = FrameData then Payload f @ data_of fs else data_of fs)"
  by (simp_all add: data_of_def)

lemma client_sim_done: "client_sim due pend c \<Longrightarrow> client_sim due pend' (c\<lparr>cl_done := True\<rparr>)"
  by (simp add: client_sim_def)

lemma client_sim_phase [simp]: "client_sim due pend (c\<lparr>cl_phase := p\<rparr>) = client_sim due pend c"
  by (simp add: client_sim_def)

lemma client_sim_leave: "client_sim due pend c \<Longrightarrow> client_sim due pend (leave c)"
  by (simp add: client_sim_def client_defs)

lemma client_sim_send_other: "client_sim due pend c \<Longrightarrow> Type f \<noteq> FrameData \<Longrightarrow> client_sim due pend (client_send f c)"
  by (auto simp: client_sim_def client_send_def client_defs)

lemma client_sim_send_data: "client_sim due d c \<Longrightarrow> client_sim due [] (client_send (data_frame d) c)"
  by (auto simp: client_sim_def client_send_def client_defs data_frame_def)

lemma client_sim_write:
  assumes "client_sim due pend c" and "writeLoop ok c = Some c'"
  shows "client_sim due pend c'"
proof -
  from assms(2) obtain f fs where f: "cl_out c = f # fs" "\<not> cl_done c"
    by (auto simp: writeLoop_def split: if_split_asm list.split_asm)
  with assms(1) have "prefix (data_of (cl_wire c @ [f])) due" by (auto simp: client_sim_def prefix_def)
  with f assms show ?thesis
    by (auto simp: client_sim_def writeLoop_def client_defs Let_def split: if_split_asm)
qed

lemma client_sim_more: "client_sim due [] c \<Longrightarrow> client_sim (due @ d) d c"
  by (auto simp: client_sim_def)

lemma client_sim_new: "client_sim replay [] (new_client replay rows cols)"
  by (simp add: client_sim_def client_defs data_frame_def)

text \<open>A step that changes one client and leaves the specification as it is.\<close>

lemma sim_on_client:
  assumes "sim sp h" and "i < length (h_clients h)"
    and "h_clients h' = (h_clients h)[i := c]" and "h_current h' = h_current h" and "h_pump h' = h_pump h"
    and "h_ended h' = h_ended h" and "h_modes h' = h_modes h"
    and "\<And>due pend. client_sim due pend (h_clients h ! i) \<Longrightarrow> client_sim due pend c"
  shows "sim sp h'"
proof -
  have "pending h' = pending h" using assms(5) by (simp add: pending_def fun_eq_iff)
  then show ?thesis using assms unfolding sim_def by (auto simp: nth_list_update)
qed

lemma moved_sim: "client_move c c' \<Longrightarrow> client_sim due pend c \<Longrightarrow> client_sim due pend c'"
  by (auto simp: client_move_def client_sim_leave client_sim_write)

lemma sim_moved: "sim sp h \<Longrightarrow> i < length (h_clients h) \<Longrightarrow> moved i h h' \<Longrightarrow> sim sp h'"
  by (auto simp: moved_def intro: sim_on_client moved_sim)

lemma sim_attach:
  assumes "sim sp h" and "hinv h"
  shows "sim (spec_step sp (EvConnect stream ok)) (attach stream ok h)"
proof (cases "hello_size stream = None \<or> h_ended h")
  case True
  with assms(1) show ?thesis by (auto simp: attach_def sim_def split: option.split)
next
  case False
  define h1 where "h1 = (case h_current h of Some old \<Rightarrow> on_client old (client_send kicked_frame) h | None \<Rightarrow> h)"
  have "sim sp h1"
  proof (cases "h_current h")
    case (Some old)
    then have "old < length (h_clients h)" using assms(2) by (simp add: hinv_def known_def)
    with Some sim_on_client [OF assms(1)] show ?thesis
      by (simp add: h1_def client_sim_send_other kicked_frame_def frame_types)
  qed (simp add: h1_def assms(1))
  moreover have eqs: "length (h_clients h1) = length (h_clients h)" "h_modes h1 = h_modes h" "h_pump h1 = h_pump h"
    by (simp_all add: h1_def split: option.split)
  moreover obtain rows cols where "hello_size stream = Some (rows, cols)" using False by (cases "hello_size stream") auto
  with False have a: "attach stream ok h = set_attached True ok (h1\<lparr>h_current := Some (length (h_clients h)),
      h_clients := h_clients h1 @ [new_client (Replay (h_modes h)) rows cols]\<rparr>)"
    by (simp add: attach_def h1_def Let_def)
  moreover have "pending h1 (length (h_clients h)) = []"
    using assms(2) eqs(3) by (auto simp: pending_def hinv_def pump_ok_def known_def split: option.split)
  ultimately show ?thesis
    using False assms(1) client_sim_new [of "Replay (h_modes h)" rows cols]
    by (auto simp: sim_def set_attached_def nth_append less_Suc_eq pending_def)
qed

lemma sim_pump_read:
  assumes "sim sp h" and "hinv h" and "pump_read data h = Some h'"
  shows "sim (spec_step sp (EvPumpRead data)) h'"
proof -
  from assms(3) have p: "h_pump h = None"
    and h': "h' = h\<lparr>h_output := h_output h + word_of_nat (length data), h_modes := Feed (h_modes h) data,
                h_pump := Some (h_current h, data)\<rparr>"
    by (simp_all add: pump_read_def split: if_split_asm)
  have "client_sim (sp_due sp ! i) [] (h_clients h ! i)" if "i < length (h_clients h)" for i
    using assms(1) that p by (auto simp: sim_def pending_def)
  then show ?thesis
    using assms(1,2) unfolding h'
    by (auto simp: sim_def Feed_append [symmetric] pending_def nth_list_update hinv_def known_def client_sim_more
        split: option.split)
qed

lemma sim_pump_send:
  assumes "sim sp h" and "hinv h" and "pump_send h = Some h'"
  shows "sim sp h'"
proof -
  from assms(3) obtain c d where p: "h_pump h = Some (c, d)" by (auto simp: pump_send_def split: option.split_asm)
  show ?thesis
  proof (cases c)
    case None
    with assms(1,3) p show ?thesis by (auto simp: pump_send_def sim_def pending_def)
  next
    case (Some i)
    with p assms(2) have i: "i < length (h_clients h)" by (simp add: hinv_def pump_ok_def known_def)
    from p assms(3) Some have h': "h' = on_client i (client_send (data_frame d)) (h\<lparr>h_pump := None\<rparr>)"
      by (simp add: pump_send_def)
    have "client_sim (sp_due sp ! j) [] (h_clients h' ! j)" if "j < length (h_clients h)" for j
      using assms(1) that p Some i unfolding h'
      by (auto simp: sim_def pending_def nth_list_update client_sim_send_data split: if_split_asm)
    then show ?thesis using assms(1) unfolding h' by (simp add: sim_def pending_def)
  qed
qed

lemma sim_tell:
  assumes "sim sp h" and "hinv h" and "tell_exit h = Some h'"
  shows "sim sp h'"
proof -
  from assms(3) obtain c code where e: "h_serving h = Ended c code" by (auto simp: tell_exit_def split: serving.split_asm)
  with assms(2) have c: "h_current h = c" by (simp add: hinv_def served_ok_def)
  show ?thesis
  proof (cases c)
    case None
    with e assms(1,3) show ?thesis by (auto simp: tell_exit_def sim_def pending_def)
  next
    case (Some i)
    then have i: "i < length (h_clients h)" using assms(2) c by (simp add: hinv_def known_def)
    from e assms(3) Some have h': "h' = on_client i (client_send (ExitFrame code)) (h\<lparr>h_serving := Told (Some i)\<rparr>)"
      by (simp add: tell_exit_def)
    show ?thesis
      by (rule sim_on_client [OF assms(1) i, of h' "client_send (ExitFrame code) (h_clients h ! i)"])
        (simp_all add: h' client_sim_send_other ExitFrame_def frame_types)
  qed
qed

lemma sim_step: "sim sp h \<Longrightarrow> hinv h \<Longrightarrow> hstep h e = Some h' \<Longrightarrow> sim (spec_step sp e) h'"
proof (cases e)
  case (EvConnect stream ok)
  assume "sim sp h" "hinv h" "hstep h e = Some h'"
  with EvConnect sim_attach show ?thesis by (auto simp del: spec_step.simps)
next
  case (EvPumpRead data)
  assume "sim sp h" "hinv h" "hstep h e = Some h'"
  with EvPumpRead sim_pump_read show ?thesis by (auto simp del: spec_step.simps)
next
  case (EvDetach i ok)
  assume s: "sim sp h" and "hinv h" and st: "hstep h e = Some h'"
  with EvDetach have i: "i < length (h_clients h)" and
    h': "h' = on_client i (\<lambda>c. c\<lparr>cl_phase := Gone\<rparr>)
      (if h_current h = Some i \<and> \<not> h_ended h then set_attached False ok (h\<lparr>h_current := None\<rparr>) else h)"
    by (auto simp: on_known_def detach_def split: if_split_asm phase.split_asm)
  with s EvDetach show ?thesis
    by (auto simp: sim_def set_attached_def pending_def nth_list_update split: if_split_asm)
next
  case (EvEnd code)
  assume "sim sp h" "hinv h" "hstep h e = Some h'"
  with EvEnd show ?thesis by (auto simp: end_session_def sim_def pending_def split: if_split_asm)
next
  case EvPumpReturn
  assume "sim sp h" "hinv h" "hstep h e = Some h'"
  with EvPumpReturn show ?thesis by (auto simp: pump_return_def sim_def pending_def split: if_split_asm)
next
  case (EvCleanup timeout)
  assume "sim sp h" "hinv h" "hstep h e = Some h'"
  with EvCleanup show ?thesis by (auto simp: cleanup_def sim_def pending_def split: if_split_asm serving.split_asm)
next
  case EvPumpSend
  assume "sim sp h" "hinv h" "hstep h e = Some h'"
  with EvPumpSend show ?thesis by (auto intro: sim_pump_send)
next
  case EvTell
  assume "sim sp h" "hinv h" "hstep h e = Some h'"
  with EvTell show ?thesis by (auto intro: sim_tell)
qed (auto simp: on_known_def intro: sim_moved client_steps_move split: if_split_asm)

lemma sim_new: "sim spec_init (new_holder rows cols)"
  by (simp add: sim_def spec_init_def new_holder_def Let_def Feed_def)

lemma sim_run: "hrun h es = Some h' \<Longrightarrow> hinv h \<Longrightarrow> sim sp h \<Longrightarrow> sim (foldl spec_step sp es) h'"
  by (induction es arbitrary: h sp) (auto split: option.split_asm dest: hinv_step sim_step)

section \<open>Nothing final before the end\<close>

text \<open>Until the exit is told, the queue of the current client holds terminal data only.\<close>

definition quiet :: "holder \<Rightarrow> bool" where
  "quiet h \<longleftrightarrow>
     ((\<forall>c. h_serving h \<noteq> Told c) \<and> h_serving h \<noteq> Cleaned \<longrightarrow>
        (\<forall>i. h_current h = Some i \<longrightarrow> list_all (\<lambda>f. \<not> final f) (cl_out (h_clients h ! i))))"

lemma data_not_final: "\<not> final (data_frame d)"
  by (simp add: final_def data_frame_def frame_types)

lemma quiet_moved: "quiet h \<Longrightarrow> i < length (h_clients h) \<Longrightarrow> moved i h h' \<Longrightarrow> quiet h'"
proof -
  have "list_all P (cl_out c')" if "client_move c c'" "list_all P (cl_out c)" for c c' P
    using that by (auto simp: client_move_def client_defs writeLoop_def Let_def split: if_split_asm list.split_asm)
  then show "quiet h \<Longrightarrow> i < length (h_clients h) \<Longrightarrow> moved i h h' \<Longrightarrow> quiet h'"
    by (auto simp: quiet_def moved_def nth_list_update)
qed

lemma quiet_attach: "quiet h \<Longrightarrow> quiet (attach stream ok h)"
proof (cases "hello_size stream = None \<or> h_ended h")
  case True
  assume "quiet h"
  with True show ?thesis by (auto simp: attach_def split: option.split)
next
  case False
  then obtain rows cols where "hello_size stream = Some (rows, cols)" by (cases "hello_size stream") auto
  with False show ?thesis
    by (auto simp: attach_def Let_def set_attached_def quiet_def nth_append client_defs data_not_final split: option.split)
qed

lemma quiet_step: "quiet h \<Longrightarrow> hinv h \<Longrightarrow> hstep h e = Some h' \<Longrightarrow> quiet h'"
proof (cases e)
  case (EvConnect stream ok)
  assume "quiet h" "hstep h e = Some h'"
  with EvConnect quiet_attach show ?thesis by auto
next
  case (EvPumpRead data)
  assume "quiet h" "hstep h e = Some h'"
  with EvPumpRead show ?thesis by (auto simp: pump_read_def quiet_def split: if_split_asm)
next
  case (EvDetach i ok)
  assume "quiet h" "hstep h e = Some h'"
  with EvDetach show ?thesis
    by (auto simp: on_known_def detach_def set_attached_def quiet_def nth_list_update split: if_split_asm phase.split_asm)
next
  case EvPumpSend
  assume "quiet h" "hstep h e = Some h'"
  with EvPumpSend show ?thesis
    by (auto simp: pump_send_def quiet_def nth_update_if client_send_def client_defs data_not_final
        split: option.split_asm if_split_asm)
next
  case (EvEnd code)
  assume "quiet h" "hstep h e = Some h'"
  with EvEnd show ?thesis by (auto simp: end_session_def quiet_def split: if_split_asm)
next
  case EvPumpReturn
  assume "quiet h" "hstep h e = Some h'"
  with EvPumpReturn show ?thesis by (auto simp: pump_return_def quiet_def split: if_split_asm)
next
  case (EvCleanup timeout)
  assume "quiet h" "hstep h e = Some h'"
  with EvCleanup show ?thesis by (auto simp: cleanup_def quiet_def split: if_split_asm serving.split_asm)
next
  case EvTell
  assume "quiet h" "hstep h e = Some h'"
  with EvTell show ?thesis by (auto simp: tell_exit_def quiet_def split: serving.split_asm option.split_asm)
qed (auto simp: on_known_def intro: quiet_moved client_steps_move split: if_split_asm)

lemma quiet_run: "hrun h es = Some h' \<Longrightarrow> hinv h \<Longrightarrow> quiet h \<Longrightarrow> quiet h'"
  by (induction es arbitrary: h) (auto split: option.split_asm dest: hinv_step quiet_step)

lemma quiet_new: "quiet (new_holder rows cols)"
  by (simp add: quiet_def new_holder_def Let_def)

section \<open>Closed clients\<close>

text \<open>A client that is done stays done and is not written to any more.\<close>

definition frozen :: "client \<Rightarrow> client \<Rightarrow> bool" where
  "frozen c c' \<longleftrightarrow> (cl_done c \<longrightarrow> cl_done c' \<and> cl_wire c' = cl_wire c)"

definition keeps_closed :: "holder \<Rightarrow> holder \<Rightarrow> bool" where
  "keeps_closed h h' \<longleftrightarrow>
     length (h_clients h) \<le> length (h_clients h') \<and> (\<forall>i < length (h_clients h). frozen (h_clients h ! i) (h_clients h' ! i))"

lemma frozen_simps [simp]:
  "frozen c c" "frozen c (client_send f c)" "frozen c (leave c)" "frozen c (c\<lparr>cl_phase := p\<rparr>)"
  by (simp_all add: frozen_def client_send_def client_defs)

lemma frozen_move: "client_move c c' \<Longrightarrow> frozen c c'"
  by (auto simp: client_move_def) (simp add: frozen_def writeLoop_def split: if_split_asm)

lemma closed_update:
  "h_clients h' = (h_clients h)[i := c] \<Longrightarrow> frozen (h_clients h ! i) c \<Longrightarrow> keeps_closed h h'"
  by (auto simp: keeps_closed_def nth_update_if)

lemma closed_same: "h_clients h' = h_clients h \<Longrightarrow> keeps_closed h h'"
  by (simp add: keeps_closed_def)

lemma closed_moved: "moved i h h' \<Longrightarrow> keeps_closed h h'"
  by (auto simp: moved_def intro: closed_update frozen_move)

lemma closed_step: "hstep h e = Some h' \<Longrightarrow> keeps_closed h h'"
proof (cases e)
  case (EvConnect stream ok)
  assume "hstep h e = Some h'"
  with EvConnect show ?thesis
    by (auto simp: attach_def set_attached_def Let_def keeps_closed_def nth_append nth_update_if split: option.splits if_splits)
next
  case (EvDetach i ok)
  assume "hstep h e = Some h'"
  with EvDetach show ?thesis
    by (auto simp: on_known_def detach_def set_attached_def intro!: closed_update split: if_split_asm phase.split_asm)
next
  case EvPumpSend
  assume "hstep h e = Some h'"
  with EvPumpSend show ?thesis
    by (auto simp: pump_send_def keeps_closed_def nth_update_if split: option.split_asm)
next
  case EvTell
  assume "hstep h e = Some h'"
  with EvTell show ?thesis
    by (auto simp: tell_exit_def keeps_closed_def nth_update_if split: serving.split_asm option.split_asm)
next
  case (EvPumpRead data)
  assume "hstep h e = Some h'"
  with EvPumpRead show ?thesis by (auto simp: pump_read_def intro!: closed_same split: if_split_asm)
next
  case (EvEnd code)
  assume "hstep h e = Some h'"
  with EvEnd show ?thesis by (auto simp: end_session_def intro!: closed_same split: if_split_asm)
next
  case EvPumpReturn
  assume "hstep h e = Some h'"
  with EvPumpReturn show ?thesis by (auto simp: pump_return_def intro!: closed_same split: if_split_asm)
next
  case (EvCleanup timeout)
  assume "hstep h e = Some h'"
  with EvCleanup show ?thesis by (auto simp: cleanup_def intro!: closed_same split: if_split_asm serving.split_asm)
qed (auto simp: on_known_def intro: closed_moved dest: client_steps_move split: if_split_asm)

lemma closed_run: "hrun h es = Some h' \<Longrightarrow> keeps_closed h h'"
proof (induction es arbitrary: h)
  case (Cons e es)
  then obtain h1 where "hstep h e = Some h1" "hrun h1 es = Some h'" by (auto split: option.split_asm)
  then have "keeps_closed h h1" "keeps_closed h1 h'" using closed_step Cons.IH by blast+
  then show ?case by (auto simp: keeps_closed_def frozen_def)
qed (simp add: closed_same)

section \<open>Telling the exit\<close>

text \<open>Events after which client \<open>i\<close> is still connected: its connection works and \<open>Serve\<close> does not give up on it.\<close>

definition stays :: "nat \<Rightarrow> event \<Rightarrow> bool" where
  "stays i e \<longleftrightarrow> e \<noteq> EvRead i None \<and> e \<noteq> EvAct i False \<and> e \<noteq> EvWrite i False \<and> e \<noteq> EvCleanup True"

fun connected :: "nat \<Rightarrow> holder \<Rightarrow> event list \<Rightarrow> bool" where
  "connected i h [] = True"
| "connected i h (e # es) =
     ((cl_done (h_clients h ! i) \<or> stays i e) \<and> (case hstep h e of None \<Rightarrow> True | Some h' \<Rightarrow> connected i h' es))"

definition writes_of :: "nat \<Rightarrow> event list \<Rightarrow> nat" where
  "writes_of i es = length (filter (\<lambda>e. \<exists>ok. e = EvWrite i ok) es)"

text \<open>Before the exit frame is written, all of \<open>due\<close> is on the wire or, as \<open>fs\<close>, in the queue before the exit frame.\<close>

definition telling :: "nat \<Rightarrow> int \<Rightarrow> Frame list \<Rightarrow> holder \<Rightarrow> bool" where
  "telling i code due h \<longleftrightarrow>
     (\<exists>fs. \<not> cl_done (h_clients h ! i) \<and> cl_wire (h_clients h ! i) @ fs = due \<and> list_all (\<lambda>f. \<not> final f \<and> frame_ok f) fs \<and>
        length fs < clientQueue \<and>
        (h_serving h = Ended (Some i) code \<and> cl_out (h_clients h ! i) = fs \<or>
         h_serving h = Told (Some i) \<and> cl_out (h_clients h ! i) = fs @ [ExitFrame code]))"

definition told :: "nat \<Rightarrow> int \<Rightarrow> Frame list \<Rightarrow> holder \<Rightarrow> bool" where
  "told i code due h \<longleftrightarrow>
     cl_done (h_clients h ! i) \<and> cl_wire (h_clients h ! i) = due @ [ExitFrame code] \<and> h_serving h \<in> {Told (Some i), Cleaned}"

lemma told_step:
  assumes "told i code due h" and "hinv h" and "i < length (h_clients h)" and "hstep h e = Some h'"
  shows "told i code due h' \<and> (\<forall>ok. e \<noteq> EvWrite i ok)"
proof
  have f: "frozen (h_clients h ! i) (h_clients h' ! i)" using closed_step [OF assms(4)] assms(3) by (simp add: keeps_closed_def)
  have n: "h_ended h" "h_pump h = None" using assms(1,2) by (auto simp: told_def hinv_def served_ok_def)
  have s: "h_serving h \<in> {Told (Some i), Cleaned}" using assms(1) by (simp add: told_def)
  have "h_serving h' \<in> {Told (Some i), Cleaned}"
  proof (cases e)
    case (EvConnect stream ok)
    then show ?thesis using assms(4) s n by (auto simp: attach_def split: option.split_asm)
  next
    case (EvDetach j ok)
    then show ?thesis using assms(4) s n by (auto simp: on_known_def detach_def split: if_split_asm phase.split_asm)
  qed (use assms(4) s n in \<open>auto simp: on_known_def moved_def pump_read_def pump_send_def pump_return_def end_session_def tell_exit_def cleanup_def
        dest!: client_steps_move split: if_split_asm serving.split_asm\<close>)
  then show "told i code due h'" using f assms(1) by (simp add: told_def frozen_def)
  show "\<forall>ok. e \<noteq> EvWrite i ok" using assms(1,4) by (auto simp: told_def on_known_def write_frame_def writeLoop_def split: if_split_asm)
qed

text \<open>A step of another client, or of client \<open>i\<close> that neither leaves nor writes, changes nothing that is told.\<close>

lemma telling_cong:
  assumes "telling i code due h" and "h_serving h' = h_serving h"
    and "cl_out (h_clients h' ! i) = cl_out (h_clients h ! i)" and "cl_wire (h_clients h' ! i) = cl_wire (h_clients h ! i)"
    and "cl_done (h_clients h' ! i) = cl_done (h_clients h ! i)"
  shows "telling i code due h'"
  using assms unfolding telling_def by simp

lemma telling_write:
  assumes "telling i code due h" and "i < length (h_clients h)" and "hstep h (EvWrite i True) = Some h'"
  shows "length (cl_wire (h_clients h' ! i)) = Suc (length (cl_wire (h_clients h ! i))) \<and> (telling i code due h' \<or> told i code due h')"
proof -
  obtain fs where fs: "\<not> cl_done (h_clients h ! i)" "cl_wire (h_clients h ! i) @ fs = due" "list_all (\<lambda>f. \<not> final f \<and> frame_ok f) fs"
    "length fs < clientQueue"
    and s: "h_serving h = Ended (Some i) code \<and> cl_out (h_clients h ! i) = fs \<or>
      h_serving h = Told (Some i) \<and> cl_out (h_clients h ! i) = fs @ [ExitFrame code]" using assms(1) unfolding telling_def by blast
  obtain c where c: "writeLoop True (h_clients h ! i) = Some c" "h' = on_client i (\<lambda>_. c) h"
    using assms(3) by (auto simp: on_known_def write_frame_def split: if_split_asm)
  then have h': "h_clients h' ! i = c" "h_serving h' = h_serving h" using assms(2) by simp_all
  show ?thesis
  proof (cases fs)
    case Nil
    then have t: "h_serving h = Told (Some i)" "cl_out (h_clients h ! i) = [ExitFrame code]"
      using s c(1) fs(1) by (auto simp: writeLoop_def)
    have "is_ok (WriteFrame (ExitFrame code))" by (simp add: is_ok_iff WriteFrame_ok [symmetric] ExitFrame_def frame_ok_def maxFrame_def)
    then have "c = (h_clients h ! i)\<lparr>cl_out := [], cl_wire := cl_wire (h_clients h ! i) @ [ExitFrame code], cl_done := True\<rparr>"
      using c(1) t(2) fs(1) by (auto simp: writeLoop_def client_close_def ExitFrame_def)
    then show ?thesis using h' t(1) fs(2) Nil by (simp add: told_def)
  next
    case (Cons g gs)
    then have out: "cl_out (h_clients h ! i) = g # (gs @ (if h_serving h = Told (Some i) then [ExitFrame code] else []))" using s by auto
    have "\<not> final g" "is_ok (WriteFrame g)" using fs(3) Cons by (simp_all add: is_ok_iff WriteFrame_ok [symmetric])
    then have "c = (h_clients h ! i)\<lparr>cl_out := gs @ (if h_serving h = Told (Some i) then [ExitFrame code] else []), cl_wire := cl_wire (h_clients h ! i) @ [g]\<rparr>"
      using c(1) out fs(1) by (auto simp: writeLoop_def final_def)
    then show ?thesis using h' fs s Cons by (auto simp: telling_def)
  qed
qed

lemma telling_enabled:
  assumes "telling i code due h" and "i < length (h_clients h)"
  shows "hstep h EvTell \<noteq> None \<or> hstep h (EvWrite i True) \<noteq> None"
proof -
  have "h_serving h = Ended (Some i) code \<or> \<not> cl_done (h_clients h ! i) \<and> cl_out (h_clients h ! i) \<noteq> []"
    using assms(1) by (auto simp: telling_def)
  then show ?thesis
  proof
    assume "h_serving h = Ended (Some i) code"
    then show ?thesis by (simp add: tell_exit_def)
  next
    assume "\<not> cl_done (h_clients h ! i) \<and> cl_out (h_clients h ! i) \<noteq> []"
    then have "writeLoop True (h_clients h ! i) \<noteq> None" by (cases "cl_out (h_clients h ! i)") (simp_all add: writeLoop_def Let_def)
    then show ?thesis using assms(2) by (auto simp: on_known_def write_frame_def)
  qed
qed

lemma telling_step:
  assumes "telling i code due h" and "hinv h" and "i < length (h_clients h)" and "stays i e" and "hstep h e = Some h'"
    and "\<forall>ok. e \<noteq> EvWrite i ok"
  shows "telling i code due h' \<and> cl_wire (h_clients h' ! i) = cl_wire (h_clients h ! i)"
proof -
  have open_: "\<not> cl_done (h_clients h ! i)" using assms(1) by (auto simp: telling_def)
  have s: "h_ended h" "h_pump h = None" "h_current h = Some i" "h_serving h = Ended (Some i) code \<or> h_serving h = Told (Some i)"
    using assms(1,2) by (auto simp: telling_def hinv_def served_ok_def)
  have phase: "cl_phase (h_clients h ! i) \<noteq> Leaving" using client_ok_nth [OF assms(2,3)] open_ by (auto simp: client_ok_def)
  have same: ?thesis if "h_serving h' = h_serving h" "cl_out (h_clients h' ! i) = cl_out (h_clients h ! i)"
      "cl_wire (h_clients h' ! i) = cl_wire (h_clients h ! i)" "cl_done (h_clients h' ! i) = cl_done (h_clients h ! i)"
    using telling_cong [OF assms(1) that] that(3) by simp
  show ?thesis
  proof (cases e)
    case (EvConnect stream ok)
    then show ?thesis using assms(5) s(1) by (intro same) (auto simp: attach_def split: option.split_asm)
  next
    case (EvDetach j ok)
    then show ?thesis using assms(5) s(1) phase by (intro same) (auto simp: on_known_def detach_def nth_update_if split: if_split_asm phase.split_asm)
  next
    case (EvNudge j)
    then show ?thesis using assms(5) by (intro same) (auto simp: on_known_def redraw_nudge_def nth_update_if split: if_split_asm phase.split_asm)
  next
    case (EvSettle j)
    then show ?thesis using assms(5) by (intro same) (auto simp: on_known_def redraw_settle_def nth_update_if split: if_split_asm phase.split_asm)
  next
    case (EvRead j r)
    then have "j \<noteq> i \<or> r \<noteq> None" using assms(4) by (auto simp: stays_def)
    then show ?thesis using EvRead assms(5) s(3)
      by (intro same) (auto simp: on_known_def read_frame_def nth_update_if split: if_split_asm phase.split_asm option.split_asm)
  next
    case (EvAct j ok)
    then have "j \<noteq> i \<or> ok" using assms(4) by (auto simp: stays_def)
    then show ?thesis using EvAct assms(5)
      by (intro same) (auto simp: on_known_def act_frame_def nth_update_if split: if_split_asm phase.split_asm sum.split_asm)
  next
    case (EvWrite j ok)
    then have "j \<noteq> i" using assms(6) by auto
    then show ?thesis using EvWrite assms(5) by (intro same) (auto simp: on_known_def write_frame_def nth_update_if split: if_split_asm)
  next
    case EvTell
    obtain fs where fs: "\<not> cl_done (h_clients h ! i)" "cl_wire (h_clients h ! i) @ fs = due" "list_all (\<lambda>f. \<not> final f \<and> frame_ok f) fs"
      "length fs < clientQueue" "h_serving h = Ended (Some i) code" "cl_out (h_clients h ! i) = fs"
      using assms(1,5) EvTell unfolding telling_def by (auto simp: tell_exit_def)
    then show ?thesis using EvTell assms(3,5) by (auto simp: tell_exit_def telling_def client_send_def)
  next
    case (EvCleanup timeout)
    then have "\<not> timeout" using assms(4) by (auto simp: stays_def)
    then show ?thesis using EvCleanup assms(5) s(4) open_ by (auto simp: cleanup_def)
  qed (use assms(5) s in \<open>auto simp: pump_read_def pump_send_def pump_return_def end_session_def split: if_split_asm\<close>)
qed

lemma telling_run:
  "telling i code due h \<or> told i code due h \<Longrightarrow> hinv h \<Longrightarrow> i < length (h_clients h) \<Longrightarrow> connected i h es \<Longrightarrow> hrun h es = Some h' \<Longrightarrow>
   (telling i code due h' \<or> told i code due h') \<and> length (cl_wire (h_clients h' ! i)) = length (cl_wire (h_clients h ! i)) + writes_of i es"
proof (induction es arbitrary: h)
  case (Cons e es)
  then obtain h1 where h1: "hstep h e = Some h1" "hrun h1 es = Some h'" "connected i h1 es" "cl_done (h_clients h ! i) \<or> stays i e"
    by (auto split: option.split_asm)
  have inv: "hinv h1" "i < length (h_clients h1)" using hinv_step [OF Cons.prems(2) h1(1)] closed_step [OF h1(1)] Cons.prems(3)
    by (auto simp: keeps_closed_def)
  have "(telling i code due h1 \<or> told i code due h1) \<and> length (cl_wire (h_clients h1 ! i)) = length (cl_wire (h_clients h ! i)) + writes_of i [e]"
  proof (cases "told i code due h")
    case True
    note t = told_step [OF True Cons.prems(2,3) h1(1)]
    have "cl_wire (h_clients h1 ! i) = cl_wire (h_clients h ! i)" using t True by (simp add: told_def)
    then show ?thesis using t by (auto simp: writes_of_def)
  next
    case False
    then have t: "telling i code due h" using Cons.prems(1) by blast
    then have st: "stays i e" using h1(4) by (auto simp: telling_def)
    show ?thesis
    proof (cases "\<exists>ok. e = EvWrite i ok")
      case True
      then have "e = EvWrite i True" using st by (auto simp: stays_def)
      then show ?thesis using telling_write [OF t Cons.prems(3)] h1(1) by (auto simp: writes_of_def)
    next
      case False
      then have "\<forall>ok. e \<noteq> EvWrite i ok" by blast
      from telling_step [OF t Cons.prems(2,3) st h1(1) this] False show ?thesis by (auto simp: writes_of_def)
    qed
  qed
  then show ?case using Cons.IH [OF _ inv h1(3,2)] by (auto simp: writes_of_def)
qed (simp add: writes_of_def)

section \<open>Properties\<close>

text \<open>C25. The holder refines the abstract terminal. Whatever the interleaving of attaching and leaving
  clients, their write loops, the output pump and the end of the program: the holder's client is
  the one the abstract terminal serves, its mode tracker has seen exactly the program's output, and
  what any client has been written is a prefix of what it is due (the terminal modes at its attach,
  then all output until it was displaced). For a client that is still connected, what is not
  written yet is in its queue or, for one chunk, in the pump's hand, so nothing is lost,
  duplicated or reordered.\<close>

theorem session_refines_terminal:
  assumes "hrun (new_holder rows cols) tr = Some h" and "i < length (h_clients h)"
  shows "sp_current (foldl spec_step spec_init tr) = h_current h \<and>
     h_modes h = Feed NewModeTracker (sp_output (foldl spec_step spec_init tr)) \<and>
     length (sp_due (foldl spec_step spec_init tr)) = length (h_clients h) \<and>
     prefix (data_of (cl_wire (h_clients h ! i))) (sp_due (foldl spec_step spec_init tr) ! i) \<and>
     (cl_done (h_clients h ! i) \<or>
      data_of (cl_wire (h_clients h ! i) @ cl_out (h_clients h ! i)) @ pending h i =
        sp_due (foldl spec_step spec_init tr) ! i)"
  using sim_run [OF assms(1) hinv_new sim_new] assms(2) by (auto simp: sim_def client_sim_def)

text \<open>A session: a client attaches, gets output, is displaced while a chunk is in the pump's hand.\<close>

definition hello_bytes :: bytes where
  "hello_bytes = frame_bytes (SizeFrame FrameHello 24 80)"

definition takeover_events :: "event list" where
  "takeover_events =
     [EvConnect hello_bytes True, EvPumpRead [0x61, 0x62], EvPumpSend, EvWrite 0 True, EvPumpRead [0x63],
      EvConnect hello_bytes True, EvPumpSend, EvWrite 0 True, EvPumpRead [0x64], EvPumpSend]"

definition takeover :: holder where
  "takeover = the (hrun (new_holder 24 80) takeover_events)"

lemma takeover_run: "hrun (new_holder 24 80) takeover_events = Some takeover"
proof -
  have "hrun (new_holder 24 80) takeover_events \<noteq> None" by code_simp
  then show ?thesis by (auto simp: takeover_def)
qed

theorem session_refines_terminal_witness:
  "prefix (data_of (cl_wire (h_clients takeover ! 0))) (sp_due (foldl spec_step spec_init takeover_events) ! 0) \<and>
   h_current takeover = Some 1 \<and> data_of (cl_out (h_clients takeover ! 1)) = [0x64]"
proof -
  have "0 < length (h_clients takeover)" "h_current takeover = Some 1"
    "data_of (cl_out (h_clients takeover ! 1)) = [0x64]" by code_simp+
  with session_refines_terminal [OF takeover_run, of 0] show ?thesis by blast
qed

text \<open>C26. Safety of the session under every interleaving: a client's queue never exceeds 512 frames; an
  exit or displacement notice is the last frame a client is written, and it is closed then; every
  client but the current one is closed or has its displacement notice queued, so at most one
  client is served; a client that is closed stays closed and is not written another frame, whatever happens
  later; while the session runs it is marked attached exactly when it has a client;
  and once the holder has removed the session's entry no late attach or detach writes it back.\<close>

theorem session_safe:
  assumes "hrun (new_holder rows cols) tr = Some h" and "hrun h later = Some h'"
  shows "list_all (\<lambda>c. length (cl_out c) \<le> clientQueue \<and> list_all (\<lambda>f. \<not> final f) (butlast (cl_wire c)) \<and>
          (cl_done c \<or> list_all (\<lambda>f. \<not> final f) (cl_wire c))) (h_clients h) \<and>
     (\<forall>i. i < length (h_clients h) \<and> h_current h \<noteq> Some i \<longrightarrow> displaced (h_clients h ! i)) \<and>
     (\<forall>i. i < length (h_clients h) \<and> cl_done (h_clients h ! i) \<longrightarrow>
        cl_done (h_clients h' ! i) \<and> cl_wire (h_clients h' ! i) = cl_wire (h_clients h ! i)) \<and>
     (h_ended h \<or> (h_Attached h \<longleftrightarrow> h_current h \<noteq> None)) \<and>
     (h_serving h = Cleaned \<longrightarrow> h_disk h = None)"
proof -
  have h: "hinv h" by (rule hinv_run [OF assms(1) hinv_new])
  then have "list_all client_ok (h_clients h)" by (simp add: hinv_def)
  then have "list_all (\<lambda>c. length (cl_out c) \<le> clientQueue \<and> list_all (\<lambda>f. \<not> final f) (butlast (cl_wire c)) \<and>
          (cl_done c \<or> list_all (\<lambda>f. \<not> final f) (cl_wire c))) (h_clients h)"
    by (rule list.pred_mono_strong) (auto simp: client_ok_def)
  with h closed_run [OF assms(2)] show ?thesis by (auto simp: hinv_def served_ok_def keeps_closed_def frozen_def)
qed

definition closing_events :: "event list" where
  "closing_events =
     [EvConnect hello_bytes True, EvNudge 0, EvSettle 0, EvPumpReturn, EvEnd 3, EvTell, EvWrite 0 True,
      EvRead 0 None, EvCleanup False, EvDetach 0 True, EvConnect hello_bytes True]"

theorem session_safe_witness:
  "\<exists>h h'. hrun (new_holder 24 80) (take 7 closing_events) = Some h \<and> cl_done (h_clients h ! 0) \<and>
     hrun h (drop 7 closing_events) = Some h' \<and> h_serving h' = Cleaned \<and>
     cl_wire (h_clients h ! 0) = [ExitFrame 3] \<and> cl_wire (h_clients h' ! 0) = cl_wire (h_clients h ! 0)"
proof -
  define h where "h = the (hrun (new_holder 24 80) (take 7 closing_events))"
  define h' where "h' = the (hrun h (drop 7 closing_events))"
  have "hrun (new_holder 24 80) (take 7 closing_events) \<noteq> None" by code_simp
  then have r: "hrun (new_holder 24 80) (take 7 closing_events) = Some h" by (auto simp: h_def)
  have "hrun h (drop 7 closing_events) \<noteq> None" unfolding h_def by code_simp
  then have r': "hrun h (drop 7 closing_events) = Some h'" by (auto simp: h'_def)
  have v: "0 < length (h_clients h)" "cl_done (h_clients h ! 0)" "cl_wire (h_clients h ! 0) = [ExitFrame 3]" unfolding h_def by code_simp+
  have "h_serving h' = Cleaned" unfolding h'_def h_def by code_simp
  with r r' v session_safe [OF r r'] show ?thesis by blast
qed

text \<open>C27. The exit status reaches the attached client. The program has ended, and the client of that moment is connected,
  has room in its queue and frames of a legal size in it. Then in every further interleaving in which, as long as
  the client is not closed, its connection does not fail and the write timeout of \<open>Serve\<close> does not pass: \<open>Serve\<close> does not
  remove the session before the client has been written everything it is due and then the exit frame; the
  client has been written these once its write loop has had as many turns as there were frames and one more; and
  until then either \<open>Serve\<close> can queue the exit frame or the write loop can write the next frame.\<close>

theorem exit_reaches_client:
  assumes "hrun (new_holder rows cols) tr = Some h" and "h_serving h = Ended (Some i) code"
    and "\<not> cl_done (h_clients h ! i)" and "length (cl_out (h_clients h ! i)) < clientQueue"
    and "list_all frame_ok (cl_out (h_clients h ! i))"
    and "hrun h later = Some h'" and "connected i h later"
  shows "(h_serving h' = Cleaned \<or> writes_of i later > length (cl_out (h_clients h ! i)) \<longrightarrow>
       cl_done (h_clients h' ! i) \<and> last (cl_wire (h_clients h' ! i)) = ExitFrame code \<and>
       data_of (cl_wire (h_clients h' ! i)) = sp_due (foldl spec_step spec_init tr) ! i) \<and>
     (\<not> cl_done (h_clients h' ! i) \<longrightarrow> hstep h' EvTell \<noteq> None \<or> hstep h' (EvWrite i True) \<noteq> None)"
proof -
  let ?c = "h_clients h ! i"
  let ?due = "cl_wire ?c @ cl_out ?c"
  have h: "hinv h" by (rule hinv_run [OF assms(1) hinv_new])
  with assms(2) have c: "h_current h = Some i" and p: "h_pump h = None" by (simp_all add: hinv_def served_ok_def)
  with h have i: "i < length (h_clients h)" by (simp add: hinv_def known_def)
  have "list_all (\<lambda>f. \<not> final f) (cl_out ?c)"
    using quiet_run [OF assms(1) hinv_new quiet_new] assms(2) c by (simp add: quiet_def)
  then have "telling i code ?due h" using assms(2-5) by (simp add: telling_def list_all_iff)
  then have r: "telling i code ?due h' \<or> told i code ?due h'" "length (cl_wire (h_clients h' ! i)) = length (cl_wire ?c) + writes_of i later"
    using telling_run [OF _ h i assms(7,6)] by blast+
  have due: "data_of ?due = sp_due (foldl spec_step spec_init tr) ! i"
    using sim_run [OF assms(1) hinv_new sim_new] i assms(3) p by (simp add: sim_def client_sim_def pending_def)
  have done_: "cl_done (h_clients h' ! i) \<and> last (cl_wire (h_clients h' ! i)) = ExitFrame code \<and>
       data_of (cl_wire (h_clients h' ! i)) = sp_due (foldl spec_step spec_init tr) ! i" if "told i code ?due h'"
    using that due by (simp add: told_def ExitFrame_def frame_types)
  have "told i code ?due h'" if "h_serving h' = Cleaned \<or> writes_of i later > length (cl_out ?c)"
  proof (rule ccontr)
    assume "\<not> told i code ?due h'"
    then have t: "telling i code ?due h'" using r(1) by blast
    then have "h_serving h' \<noteq> Cleaned" by (auto simp: telling_def)
    moreover have "length (cl_wire (h_clients h' ! i)) \<le> length ?due" using t unfolding telling_def by (metis length_append le_add1)
    ultimately show False using that r(2) by simp
  qed
  moreover have "hstep h' EvTell \<noteq> None \<or> hstep h' (EvWrite i True) \<noteq> None" if "\<not> cl_done (h_clients h' ! i)"
  proof -
    have t: "telling i code ?due h'" using r(1) that by (auto simp: told_def)
    have "i < length (h_clients h')" using closed_run [OF assms(6)] i by (simp add: keeps_closed_def)
    then show ?thesis by (rule telling_enabled [OF t])
  qed
  ultimately show ?thesis using done_ by blast
qed

text \<open>The client reads on while \<open>Serve\<close> waits; the session is removed only after the last write.\<close>

definition ended_events :: "event list" where
  "ended_events = [EvConnect hello_bytes True, EvPumpRead [0x61], EvPumpSend, EvPumpReturn, EvEnd 0]"

definition exit_events :: "event list" where
  "exit_events = [EvNudge 0, EvTell, EvSettle 0, EvWrite 0 True, EvWrite 0 True, EvRead 0 None, EvCleanup False, EvDetach 0 True]"

theorem exit_reaches_client_witness:
  "\<exists>h h'. hrun (new_holder 24 80) ended_events = Some h \<and> hrun h exit_events = Some h' \<and> h_serving h' = Cleaned \<and>
     last (cl_wire (h_clients h' ! 0)) = ExitFrame 0 \<and> data_of (cl_wire (h_clients h' ! 0)) = [0x61]"
proof -
  define h where "h = the (hrun (new_holder 24 80) ended_events)"
  define h' where "h' = the (hrun h exit_events)"
  have "hrun (new_holder 24 80) ended_events \<noteq> None" by code_simp
  then have r: "hrun (new_holder 24 80) ended_events = Some h" by (auto simp: h_def)
  have "hrun h exit_events \<noteq> None" unfolding h_def by code_simp
  then have r': "hrun h exit_events = Some h'" by (auto simp: h'_def)
  have f: "h_serving h = Ended (Some 0) 0" "\<not> cl_done (h_clients h ! 0)"
    "length (cl_out (h_clients h ! 0)) < clientQueue" "list_all frame_ok (cl_out (h_clients h ! 0))" "connected 0 h exit_events"
    unfolding h_def by code_simp+
  have v: "h_serving h' = Cleaned" "sp_due (foldl spec_step spec_init ended_events) ! 0 = [0x61]" unfolding h'_def h_def by code_simp+
  from exit_reaches_client [OF r f(1-4) r' f(5)] v r r' show ?thesis by auto
qed

text \<open>The replay of the terminal modes is not bounded by the frame size. The tracker keeps every push
  on the kitty keyboard stack, so a program that pushes more than 2 to the 18 times and never
  pops leaves a replay above the limit of a frame (1 MiB): every client that attaches from then
  on is disconnected by its first write, without a byte of the session.\<close>

theorem replay_can_exceed_frame:
  assumes "n > 2 ^ 18"
  shows "\<exists>c. writeLoop True (new_client (Replay (Feed NewModeTracker
        (concat (replicate n (bytes_of (kitty_seq 1)))))) rows cols) = Some c \<and>
     cl_done c \<and> cl_wire c = []"
proof -
  have r: "concat (replicate n (bytes_of (kitty_seq 1))) = bytes_of (concat (map kitty_seq (replicate n 1)))"
    by (induction n) (simp_all add: bytes_of_def)
  have "list_all int64 (replicate n 1)" by (simp add: int64_def list_all_iff)
  then obtain q where q: "Feed NewModeTracker (bytes_of (concat (map kitty_seq (replicate n 1)))) =
      NewModeTracker\<lparr>kitty := kitty NewModeTracker @ replicate n 1, seq := q\<rparr>"
    using Feed_kitty_list [of NewModeTracker "replicate n 1"] by (auto simp: NewModeTracker_def)
  let ?t = "Feed NewModeTracker (concat (replicate n (bytes_of (kitty_seq 1))))"
  have k: "length (kitty_seq 1) = 5" by (simp add: kitty_seq_def esc_def Itoa_def show_nat.simps)
  have kt: "kitty ?t = replicate n 1" unfolding r q by (simp add: NewModeTracker_def)
  have "length (concat (map kitty_seq (kitty ?t))) = n * 5"
    unfolding kt by (simp add: length_concat sum_list_replicate k)
  then have big: "length (Replay ?t) > maxFrame"
    using assms by (simp add: Replay_def bytes_of_def maxFrame_def)
  then have "Replay ?t \<noteq> []" by auto
  with big show ?thesis
    by (simp add: writeLoop_def client_defs data_frame_def WriteFrame_def)
qed

theorem replay_can_exceed_frame_witness:
  "\<exists>c. writeLoop True (new_client (Replay (Feed NewModeTracker
        (concat (replicate 300000 (bytes_of (kitty_seq 1)))))) 24 80) = Some c \<and>
     cl_done c \<and> cl_wire c = []"
  by (rule replay_can_exceed_frame) simp

end
