(* ===== verification/Detach.thy ===== *)
theory Detach
  imports Modes
begin

unbundle bit_operations_syntax

text \<open>
  The detach keys of an attached terminal (\<open>detachMatcher\<close> in \<open>internal/cmd/vmsession_unix.go\<close>): the
  input is split into keys, each key is decoded from the extended keyboard protocols, and keys of
  the detach sequence are held back until the sequence completes or fails.
\<close>

section \<open>Keys\<close>

text \<open>The scan of a CSI sequence from index \<open>i\<close>: where it ends and whether it is complete.\<close>

fun scan_csi :: "nat \<Rightarrow> bytes \<Rightarrow> nat \<times> bool" where
  "scan_csi i [] = (i, False)"
| "scan_csi i (b # bs) =
     (if 0x40 \<le> b \<and> b \<le> 0x7e then (i + 1, True)
      else if b < 0x20 \<or> b > 0x7e then (i, True)
      else scan_csi (i + 1) bs)"

definition nextKey :: "bytes \<Rightarrow> nat \<times> bool" where
  "nextKey inp =
     (case inp of
        [] \<Rightarrow> (0, True)
      | [b] \<Rightarrow> (1, True)
      | a # b # r \<Rightarrow>
          if a \<noteq> 0x1b then (1, True)
          else if b = 0x5b then scan_csi 2 r
          else if b = 0x4f then (if r = [] then (2, False) else (3, True))
          else (2, True))"

definition kittyModifierFirst :: int where "kittyModifierFirst = 57441"
definition kittyModifierLast :: int where "kittyModifierLast = 57454"

text \<open>The parameters between \<open>ESC [\<close> and the final byte; an empty or malformed field is 0.\<close>

definition csi_field :: "string \<Rightarrow> int" where
  "csi_field s = (case Atoi s of (v, ok) \<Rightarrow> if ok then v else 0)"

definition csi_params :: "bytes \<Rightarrow> int list list" where
  "csi_params b = map (\<lambda>p. map csi_field (Split CHR '':'' p)) (Split CHR '';'' (text_of b))"

datatype decoded = Key u8 | Ignore | NoKey

text \<open>The byte a code sends under the modifiers \<open>mods\<close>.\<close>

definition modified_key :: "int \<Rightarrow> int \<Rightarrow> int \<Rightarrow> decoded" where
  "modified_key code shifted mods =
     (let m = max (mods - 1) 0 AND NOT (64 OR 128) in
      if m = 0 then (if 0 \<le> code \<and> code < 0x80 then Key (word_of_int code) else NoKey)
      else if m = 1 then
        (if 0 < shifted \<and> shifted < 0x80 then Key (word_of_int shifted)
         else if 0x61 \<le> code \<and> code \<le> 0x7a then Key (word_of_int (code - 0x20))
         else NoKey)
      else if m = 4 then
        (if 0x61 \<le> code \<and> code \<le> 0x7a then Key (word_of_int (code - 0x60))
         else if 0x40 \<le> code \<and> code \<le> 0x5f then Key (word_of_int (code - 0x40))
         else NoKey)
      else NoKey)"

definition decodeKey :: "bytes \<Rightarrow> decoded" where
  "decodeKey tok =
     (if length tok = 1 then Key (tok ! 0)
      else if length tok < 3 \<or> tok ! 1 \<noteq> 0x5b \<or> tok ! 2 < 0x30 \<or> tok ! 2 > 0x3b then NoKey
      else
        let final = last tok;
            params = csi_params (butlast (drop 2 tok));
            field = (\<lambda>i j. if i < length params \<and> j < length (params ! i) then params ! i ! j else 0)
        in if length params \<ge> 2 \<and> length (params ! 1) \<ge> 2 \<and> field 1 1 \<ge> 2 then Ignore
           else if final = 0x75 then
             (if kittyModifierFirst \<le> field 0 0 \<and> field 0 0 \<le> kittyModifierLast then Ignore
              else modified_key (field 0 0) (field 0 1) (field 1 0))
           else if final = 0x7e \<and> length params = 3 \<and> field 0 0 = 27 then
             modified_key (field 2 0) 0 (field 1 0)
           else NoKey)"

section \<open>The matcher\<close>

record detachMatcher =
  dm_keys :: bytes
  dm_idx :: nat
  dm_held :: bytes

definition newDetachMatcher :: "bytes \<Rightarrow> detachMatcher" where
  "newDetachMatcher keys = \<lparr>dm_keys = keys, dm_idx = 0, dm_held = []\<rparr>"

definition clear :: "detachMatcher \<Rightarrow> detachMatcher" where
  "clear m = m\<lparr>dm_idx := 0, dm_held := []\<rparr>"

text \<open>
  \<open>settle\<close>: the output, whether the sequence is complete, and the matcher. It calls itself once
  with nothing held, where neither of the cases that need a matched key applies.
\<close>

function settle :: "detachMatcher \<Rightarrow> bytes \<Rightarrow> bytes \<Rightarrow> bytes \<times> bool \<times> detachMatcher" where
  "settle m out tok =
     (let k = decodeKey tok in
      if k = Ignore \<and> dm_idx m > 0 then (out, False, m\<lparr>dm_held := dm_held m @ tok\<rparr>)
      else if k = Key (dm_keys m ! dm_idx m) then
        (if dm_idx m + 1 = length (dm_keys m) then (out, True, clear m)
         else (out, False, m\<lparr>dm_idx := dm_idx m + 1, dm_held := dm_held m @ tok\<rparr>))
      else if dm_idx m = 1 \<and> k = Key (dm_keys m ! 0) then (out @ tok, False, clear m)
      else if dm_idx m > 0 then settle (clear m) (out @ dm_held m) tok
      else (out @ tok, False, m))"
  by pat_completeness auto
termination
  by (relation "measure (\<lambda>(m, _, _). dm_idx m)") (auto simp: clear_def)

declare settle.simps [simp del]

lemma scan_csi_ge: "i \<le> fst (scan_csi i bs)"
  by (induction i bs rule: scan_csi.induct) auto

lemma nextKey_pos: "chunk \<noteq> [] \<Longrightarrow> nextKey chunk = (n, complete) \<Longrightarrow> 0 < n"
proof -
  have "2 \<le> n" if "scan_csi 2 r = (n, complete)" for r using scan_csi_ge [of 2 r] that by simp
  then show "chunk \<noteq> [] \<Longrightarrow> nextKey chunk = (n, complete) \<Longrightarrow> 0 < n"
    by (auto simp: nextKey_def split: list.split_asm if_split_asm) fastforce
qed

lemma nextKey_shorter: "chunk \<noteq> [] \<Longrightarrow> (n, complete) = nextKey chunk \<Longrightarrow> length chunk - n < length chunk"
  using nextKey_pos [of chunk n complete] by simp

function feed_from :: "detachMatcher \<Rightarrow> bytes \<Rightarrow> bytes \<Rightarrow> bytes \<times> bool \<times> detachMatcher" where
  "feed_from m out chunk =
     (if chunk = [] then (out, False, m)
      else case nextKey chunk of (n, complete) \<Rightarrow>
        let tok = take n chunk; rest = drop n chunk in
        if \<not> complete then (out @ dm_held m @ tok, False, clear m)
        else case settle m out tok of (out', detach, m') \<Rightarrow>
          if detach then (out', True, m') else feed_from m' out' rest)"
  by pat_completeness auto
termination
  by (relation "measure (\<lambda>(_, _, chunk). length chunk)") (auto intro: nextKey_shorter)

declare feed_from.simps [simp del]

definition feed :: "detachMatcher \<Rightarrow> bytes \<Rightarrow> bytes \<times> bool \<times> detachMatcher" where
  "feed m chunk = feed_from m [] chunk"

section \<open>Facts\<close>

text \<open>The keys among the tokens \<open>toks\<close>, without the events that carry no input.\<close>

definition typed :: "bytes list \<Rightarrow> decoded list" where
  "typed toks = filter (\<lambda>k. k \<noteq> Ignore) (map decodeKey toks)"

text \<open>What is held is a list of tokens that decode to the keys matched so far.\<close>

definition matcher_ok :: "detachMatcher \<Rightarrow> bytes list \<Rightarrow> bool" where
  "matcher_ok m toks \<longleftrightarrow>
     dm_keys m \<noteq> [] \<and> dm_idx m < length (dm_keys m) \<and> dm_held m = concat toks \<and>
     typed toks = map Key (take (dm_idx m) (dm_keys m)) \<and> (dm_idx m = 0 \<longrightarrow> toks = [])"

lemma typed_snoc: "typed (toks @ [t]) = typed toks @ (if decodeKey t = Ignore then [] else [decodeKey t])"
  by (simp add: typed_def)

lemma matcher_ok_clear: "matcher_ok m toks \<Longrightarrow> matcher_ok (clear m) []"
  by (simp add: matcher_ok_def clear_def typed_def)

lemma clear_simps [simp]: "dm_keys (clear m) = dm_keys m" "dm_idx (clear m) = 0" "dm_held (clear m) = []"
  by (simp_all add: clear_def)

text \<open>One key: either the sequence is complete, and what is held with this key decodes to it; or the
  matcher is well formed again, and output and held bytes are the old ones and the new key, with
  at most the held bytes dropped.\<close>

lemma settle_step:
  assumes "matcher_ok m toks" and "settle m out tok = (out', detach, m')"
  shows "detach \<and> out' = out \<and> m' = clear m \<and> typed (toks @ [tok]) = map Key (dm_keys m) \<or>
         \<not> detach \<and> dm_keys m' = dm_keys m \<and>
         (\<exists>toks'. matcher_ok m' toks' \<and> toks' \<in> {toks @ [tok], [tok], []}) \<and>
         (out' @ dm_held m' = out @ dm_held m @ tok \<or>
          out' @ dm_held m' = out @ tok \<and> typed toks = [decodeKey tok])"
  using assms
proof (induction m out tok arbitrary: toks rule: settle.induct)
  case (1 m out tok)
  note ok = "1.prems"(1) and s = "1.prems"(2) [unfolded settle.simps [of m] Let_def]
  consider (ign) "decodeKey tok = Ignore" "dm_idx m > 0"
    | (hit) "decodeKey tok = Key (dm_keys m ! dm_idx m)"
    | (twice) "decodeKey tok \<noteq> Key (dm_keys m ! dm_idx m)" "dm_idx m = 1" "decodeKey tok = Key (dm_keys m ! 0)"
    | (flush) "decodeKey tok \<noteq> Ignore" "decodeKey tok \<noteq> Key (dm_keys m ! dm_idx m)" "dm_idx m > 0"
        "\<not> (dm_idx m = 1 \<and> decodeKey tok = Key (dm_keys m ! 0))"
    | (pass) "dm_idx m = 0" "decodeKey tok \<noteq> Key (dm_keys m ! dm_idx m)"
    by blast
  then show ?case
  proof cases
    case ign
    with s have r: "out' = out" "\<not> detach" "m' = m\<lparr>dm_held := dm_held m @ tok\<rparr>" by auto
    have "matcher_ok m' (toks @ [tok])" using ok ign r(3) by (auto simp: matcher_ok_def typed_snoc)
    with r show ?thesis by auto
  next
    case hit
    have ty: "typed (toks @ [tok]) = map Key (take (Suc (dm_idx m)) (dm_keys m))"
      using ok hit by (auto simp: matcher_ok_def typed_snoc take_Suc_conv_app_nth)
    show ?thesis
    proof (cases "dm_idx m + 1 = length (dm_keys m)")
      case True
      with hit s have "detach" "out' = out" "m' = clear m" by auto
      with True ty show ?thesis by simp
    next
      case False
      with hit s have r: "out' = out" "\<not> detach" "m' = m\<lparr>dm_idx := dm_idx m + 1, dm_held := dm_held m @ tok\<rparr>" by auto
      have "matcher_ok m' (toks @ [tok])" using ok ty False r(3) by (auto simp: matcher_ok_def)
      with r show ?thesis by auto
    qed
  next
    case twice
    with s have r: "out' = out @ tok" "\<not> detach" "m' = clear m" by auto
    have "typed toks = [decodeKey tok]" using ok twice by (auto simp: matcher_ok_def take_Suc hd_conv_nth)
    with r matcher_ok_clear [OF ok] show ?thesis by auto
  next
    case flush
    with s have s': "settle (clear m) (out @ dm_held m) tok = (out', detach, m')" by (auto split: if_split_asm)
    have long: "length (dm_keys m) > 1" using ok flush(3) by (simp add: matcher_ok_def)
    have "typed [tok] \<noteq> map Key (dm_keys m)"
    proof
      assume "typed [tok] = map Key (dm_keys m)"
      then have "length (typed [tok]) = length (dm_keys m)" by simp
      with long show False by (simp add: typed_def split: if_split_asm)
    qed
    with "1.IH" [OF refl _ _ _ _ matcher_ok_clear [OF ok] s'] flush show ?thesis
      by (auto simp: typed_def split: if_split_asm)
  next
    case pass
    with s have r: "out' = out @ tok" "\<not> detach" "m' = m" by auto
    from pass ok have "toks = []" "dm_held m = []" by (simp_all add: matcher_ok_def)
    with r ok show ?thesis by auto
  qed
qed

text \<open>A whole chunk: the sequence was typed in what was held and the chunk, or nothing but held first
  keys is missing from the output.\<close>

lemma feed_from_step:
  assumes "matcher_ok m toks" and "feed_from m out chunk = (out', detach, m')"
  shows "if detach then \<exists>pre toks' suf. dm_held m @ chunk = pre @ concat toks' @ suf \<and> typed toks' = map Key (dm_keys m)
         else dm_keys m' = dm_keys m \<and> (\<exists>toks'. matcher_ok m' toks') \<and> suffix (dm_held m') (dm_held m @ chunk) \<and>
              subseq (out' @ dm_held m') (out @ dm_held m @ chunk)"
  using assms
proof (induction m out chunk arbitrary: toks rule: feed_from.induct)
  case (1 m out chunk)
  note ok = "1.prems"(1) and s = "1.prems"(2) [unfolded feed_from.simps [of m]]
  show ?case
  proof (cases "chunk = []")
    case True
    with s ok show ?thesis by auto
  next
    case False
    obtain n complete where nk: "nextKey chunk = (n, complete)" by (cases "nextKey chunk")
    show ?thesis
    proof (cases complete)
      case False
      with s nk \<open>chunk \<noteq> []\<close> have r: "out' = out @ dm_held m @ take n chunk" "\<not> detach" "m' = clear m" by (auto simp: Let_def)
      have "subseq (take n chunk) chunk" by (metis append_take_drop_id subseq_rev_drop_many subseq_order.refl)
      then have "subseq (out @ dm_held m @ take n chunk) (out @ dm_held m @ chunk)"
        by (intro list_emb_append_mono subseq_order.refl)
      with r matcher_ok_clear [OF ok] show ?thesis by auto
    next
      case True
      define tok where "tok = take n chunk"
      define rest where "rest = drop n chunk"
      have split: "chunk = tok @ rest" by (simp add: tok_def rest_def)
      obtain o1 d1 m1 where st: "settle m out tok = (o1, d1, m1)" by (cases "settle m out tok")
      from settle_step [OF ok st] consider
        (det) "d1" "typed (toks @ [tok]) = map Key (dm_keys m)"
        | (more) "\<not> d1" "dm_keys m1 = dm_keys m" "\<exists>toks'. matcher_ok m1 toks' \<and> toks' \<in> {toks @ [tok], [tok], []}"
          "o1 @ dm_held m1 = out @ dm_held m @ tok \<or> o1 @ dm_held m1 = out @ tok \<and> typed toks = [decodeKey tok]"
        by blast
      then show ?thesis
      proof cases
        case d: det
        with s nk True \<open>chunk \<noteq> []\<close> st have "detach" by (simp add: Let_def tok_def rest_def)
        moreover have "dm_held m @ chunk = [] @ concat (toks @ [tok]) @ rest" using ok split by (simp add: matcher_ok_def)
        ultimately show ?thesis using d(2) by metis
      next
        case d: more
        then obtain toks1 where t1: "matcher_ok m1 toks1" "toks1 \<in> {toks @ [tok], [tok], []}" by blast
        have sf: "suffix (dm_held m1) (dm_held m @ tok)"
          using t1 ok by (auto simp: matcher_ok_def suffix_def)
        have sb: "subseq (o1 @ dm_held m1) (out @ dm_held m @ tok)"
          using d(4) list_emb_append_mono [OF subseq_order.refl [of out] list_emb_append2 [OF subseq_order.refl [of tok], of "dm_held m"]]
          by auto
        from s nk True \<open>chunk \<noteq> []\<close> st d(1) have fr: "feed_from m1 o1 rest = (out', detach, m')"
          by (simp add: Let_def tok_def rest_def)
        have ih: "if detach then \<exists>pre toks' suf. dm_held m1 @ rest = pre @ concat toks' @ suf \<and> typed toks' = map Key (dm_keys m1)
         else dm_keys m' = dm_keys m1 \<and> (\<exists>toks'. matcher_ok m' toks') \<and> suffix (dm_held m') (dm_held m1 @ rest) \<and>
              subseq (out' @ dm_held m') (o1 @ dm_held m1 @ rest)"
          using "1.IH" [OF False nk [symmetric] tok_def rest_def _ st [symmetric] refl d(1) t1(1)] True fr by (simp add: rest_def)
        obtain u where u: "dm_held m @ tok = u @ dm_held m1" using sf by (auto simp: suffix_def)
        show ?thesis
        proof (cases detach)
          case True
          with ih d(2) obtain pre ts suf where "dm_held m1 @ rest = pre @ concat ts @ suf" "typed ts = map Key (dm_keys m)" by auto
          then have "dm_held m @ chunk = (u @ pre) @ concat ts @ suf"
            using u split by (metis append.assoc)
          with True \<open>typed ts = map Key (dm_keys m)\<close> show ?thesis by metis
        next
          case False
          have "suffix (dm_held m1 @ rest) (dm_held m @ chunk)" using u split by (metis append.assoc suffix_def)
          moreover have "subseq (o1 @ dm_held m1 @ rest) (out @ dm_held m @ chunk)"
            using list_emb_append_mono [OF sb subseq_order.refl [of rest]] split by simp
          ultimately show ?thesis using ih False d(2) by (auto intro: suffix_order.trans subseq_order.trans)
        qed
      qed
    qed
  qed
qed

section \<open>A stream of reads\<close>

text \<open>The reads of the terminal, until the sequence completes.\<close>

fun feed_all :: "detachMatcher \<Rightarrow> bytes list \<Rightarrow> bytes \<times> bool \<times> detachMatcher" where
  "feed_all m [] = ([], False, m)"
| "feed_all m (c # cs) =
     (case feed m c of (out, detach, m') \<Rightarrow>
        if detach then (out, True, m')
        else case feed_all m' cs of (out', detach', m'') \<Rightarrow> (out @ out', detach', m''))"

lemma feed_all_step:
  assumes "matcher_ok m toks" and "feed_all m chunks = (out, detach, m')"
  shows "if detach then \<exists>pre toks' suf. dm_held m @ concat chunks = pre @ concat toks' @ suf \<and> typed toks' = map Key (dm_keys m)
         else subseq (out @ dm_held m') (dm_held m @ concat chunks)"
  using assms
proof (induction chunks arbitrary: m toks out detach m')
  case (Cons c cs)
  obtain o1 d1 m1 where f: "feed m c = (o1, d1, m1)" by (cases "feed m c")
  note st = feed_from_step [OF Cons.prems(1) f [unfolded feed_def]]
  show ?case
  proof (cases d1)
    case True
    with st obtain pre ts suf where "dm_held m @ c = pre @ concat ts @ suf" "typed ts = map Key (dm_keys m)" by auto
    then have "dm_held m @ concat (c # cs) = pre @ concat ts @ (suf @ concat cs)" by (metis append.assoc concat.simps(2))
    with \<open>typed ts = map Key (dm_keys m)\<close> have
      "\<exists>pre toks' suf. dm_held m @ concat (c # cs) = pre @ concat toks' @ suf \<and> typed toks' = map Key (dm_keys m)" by blast
    moreover have "detach" using True f Cons.prems(2) by simp
    ultimately show ?thesis by presburger
  next
    case False
    with st obtain toks1 where m1: "dm_keys m1 = dm_keys m" "matcher_ok m1 toks1" "suffix (dm_held m1) (dm_held m @ c)"
        "subseq (o1 @ dm_held m1) (dm_held m @ c)" by auto
    obtain o2 d2 m2 where fa: "feed_all m1 cs = (o2, d2, m2)" by (cases "feed_all m1 cs")
    with False f Cons.prems(2) have r: "out = o1 @ o2" "detach = d2" "m' = m2" by auto
    obtain u where u: "dm_held m @ c = u @ dm_held m1" using m1(3) by (auto simp: suffix_def)
    note ih = Cons.IH [OF m1(2) fa]
    show ?thesis
    proof (cases d2)
      case True
      with ih m1(1) obtain pre ts suf where "dm_held m1 @ concat cs = pre @ concat ts @ suf" "typed ts = map Key (dm_keys m)" by auto
      then have "dm_held m @ concat (c # cs) = (u @ pre) @ concat ts @ suf" using u by (metis append.assoc concat.simps(2))
      with True r \<open>typed ts = map Key (dm_keys m)\<close> show ?thesis by metis
    next
      case False
      with ih have "subseq (o1 @ o2 @ dm_held m2) (o1 @ dm_held m1 @ concat cs)"
        by (auto intro: list_emb_append_mono)
      moreover have "subseq (o1 @ dm_held m1 @ concat cs) (dm_held m @ c @ concat cs)"
        using list_emb_append_mono [OF m1(4) subseq_order.refl [of "concat cs"]] by simp
      ultimately show ?thesis using r False by (auto intro: subseq_order.trans)
    qed
  qed
qed auto

lemma nextKey_plain: "b \<noteq> 0x1b \<Longrightarrow> nextKey (b # bs) = (1, True)"
  by (cases bs) (simp_all add: nextKey_def)

lemma feed_from_plain:
  "b \<noteq> 0x1b \<Longrightarrow> feed_from m out (b # bs) =
     (case settle m out [b] of (out', detach, m') \<Rightarrow> if detach then (out', True, m') else feed_from m' out' bs)"
  by (subst feed_from.simps) (auto simp: nextKey_plain split: prod.split)

lemma settle_out: "settle m out tok = (case settle m [] tok of (o', d, m') \<Rightarrow> (out @ o', d, m'))"
proof (induction m out tok rule: settle.induct)
  case (1 m out tok)
  show ?case
  proof (cases "dm_idx m > 0 \<and> decodeKey tok \<noteq> Ignore \<and> decodeKey tok \<noteq> Key (dm_keys m ! dm_idx m) \<and>
      \<not> (dm_idx m = 1 \<and> decodeKey tok = Key (dm_keys m ! 0))")
    case True
    have nil: "settle (clear m) (dm_held m) tok = (case settle (clear m) [] tok of (o', d, m') \<Rightarrow> (dm_held m @ o', d, m'))"
      by (subst (1 2) settle.simps) (simp add: Let_def)
    from True have "settle m out tok = settle (clear m) (out @ dm_held m) tok"
      "settle m [] tok = settle (clear m) (dm_held m) tok"
      by (subst settle.simps; auto simp: Let_def)+
    moreover have "settle (clear m) (out @ dm_held m) tok =
        (case settle (clear m) [] tok of (o', d, m') \<Rightarrow> ((out @ dm_held m) @ o', d, m'))"
      by (subst (1 2) settle.simps) (simp add: Let_def)
    ultimately show ?thesis using nil by (simp split: prod.split)
  next
    case False
    then show ?thesis by (subst (1 2) settle.simps) (auto simp: Let_def)
  qed
qed

lemma feed_from_out:
  "list_all (\<lambda>b. b \<noteq> 0x1b) bs \<Longrightarrow> feed_from m out bs = (case feed_from m [] bs of (o', d, m') \<Rightarrow> (out @ o', d, m'))"
proof (induction bs arbitrary: m out)
  case Nil
  show ?case by (simp add: feed_from.simps)
next
  case (Cons b bs)
  obtain o1 d1 m1 where s: "settle m [] [b]  = (o1, d1, m1)" by (cases "settle m [] [b]")
  with settle_out [of m out "[b]"] have s': "settle m out [b] = (out @ o1, d1, m1)" by simp
  from Cons.IH [of m1 "out @ o1"] Cons.IH [of m1 o1] Cons.prems show ?case
    by (simp add: feed_from_plain s s' split: prod.split)
qed

lemma feed_append:
  "list_all (\<lambda>b. b \<noteq> 0x1b) (a @ b) \<Longrightarrow> feed m (a @ b) =
     (case feed m a of (out, d, m') \<Rightarrow> if d then (out, True, m')
        else case feed m' b of (out', d', m'') \<Rightarrow> (out @ out', d', m''))"
proof (induction a arbitrary: m)
  case Nil
  show ?case by (simp add: feed_def feed_from.simps [of m "[]" "[]"] split: prod.split)
next
  case (Cons x a)
  obtain o1 d1 m1 where s: "settle m [] [x] = (o1, d1, m1)" by (cases "settle m [] [x]")
  from Cons.prems have p: "x \<noteq> 0x1b" "list_all (\<lambda>b. b \<noteq> 0x1b) (a @ b)" "list_all (\<lambda>b. b \<noteq> 0x1b) a" by simp_all
  from Cons.IH [OF p(2), of m1] feed_from_out [OF p(2), of m1 o1] feed_from_out [OF p(3), of m1 o1] p(1) show ?case
    by (auto simp: feed_def feed_from_plain s split: prod.split)
qed

lemma feed_all_concat: "list_all (\<lambda>b. b \<noteq> 0x1b) (concat chunks) \<Longrightarrow> feed_all m chunks = feed m (concat chunks)"
proof (induction chunks arbitrary: m)
  case Nil
  show ?case by (simp add: feed_def feed_from.simps)
next
  case (Cons c cs)
  then show ?case by (auto simp: feed_append split: prod.split)
qed

lemma feed_keys:
  assumes "i < length keys" and "list_all (\<lambda>b. b \<noteq> 0x1b) keys"
  shows "\<exists>m'. feed_from \<lparr>dm_keys = keys, dm_idx = i, dm_held = held\<rparr> [] (drop i keys @ rest) = ([], True, m')"
  using assms
proof (induction "length keys - i" arbitrary: i held)
  case (Suc n)
  have d: "drop i keys = keys ! i # drop (Suc i) keys" using Suc.prems(1) by (simp add: Cons_nth_drop_Suc)
  have b: "keys ! i \<noteq> 0x1b" using Suc.prems by (auto simp: list_all_length)
  let ?m = "\<lparr>dm_keys = keys, dm_idx = i, dm_held = held\<rparr>"
  have s: "settle ?m [] [keys ! i] = (if i + 1 = length keys then ([], True, clear ?m)
      else ([], False, \<lparr>dm_keys = keys, dm_idx = i + 1, dm_held = held @ [keys ! i]\<rparr>))"
    by (subst settle.simps) (simp add: decodeKey_def)
  show ?case
  proof (cases "i + 1 = length keys")
    case True
    with s b d show ?thesis by (simp add: feed_from_plain)
  next
    case False
    with Suc.prems(1) Suc.hyps(2) have "n = length keys - (i + 1)" "i + 1 < length keys" by simp_all
    from Suc.hyps(1) [OF this Suc.prems(2), of "held @ [keys ! i]"] False s b d show ?thesis
      by (simp add: feed_from_plain)
  qed
qed simp

section \<open>Properties\<close>

text \<open>Detaching from a session. Whatever the terminal sends and however the reads cut it: the client
  detaches only when the input contains keys that decode to the configured sequence one after
  the other (key releases, repeats and lone modifiers aside); as long as it does not detach, what
  is forwarded to the agent and what is held back form a subsequence of the input, in order. For
  input without escape sequences the cuts between reads make no difference, and typing the
  sequence detaches without forwarding any of it.\<close>

theorem detach_keys:
  assumes "keys \<noteq> []" and "feed_all (newDetachMatcher keys) chunks = (out, detach, m)"
  shows "(detach \<longrightarrow> (\<exists>pre toks suf. concat chunks = pre @ concat toks @ suf \<and> typed toks = map Key keys)) \<and>
     (\<not> detach \<longrightarrow> subseq (out @ dm_held m) (concat chunks)) \<and>
     (list_all (\<lambda>b. b \<noteq> 0x1b) (concat chunks) \<longrightarrow>
        feed (newDetachMatcher keys) (concat chunks) = (out, detach, m) \<and>
        (concat chunks = keys \<longrightarrow> detach \<and> out = []))"
proof -
  have ok: "matcher_ok (newDetachMatcher keys) []"
    using assms(1) by (simp add: matcher_ok_def newDetachMatcher_def typed_def)
  have n: "dm_held (newDetachMatcher keys) = []" "dm_keys (newDetachMatcher keys) = keys" by (simp_all add: newDetachMatcher_def)
  have 1: "list_all (\<lambda>b. b \<noteq> 0x1b) (concat chunks) \<Longrightarrow> feed (newDetachMatcher keys) (concat chunks) = (out, detach, m)"
    using feed_all_concat assms(2) by metis
  have 2: "detach \<and> out = []" if "list_all (\<lambda>b. b \<noteq> 0x1b) (concat chunks)" "concat chunks = keys"
    using feed_keys [of 0 keys "[]" "[]"] 1 that assms(1) by (auto simp: feed_def newDetachMatcher_def)
  from feed_all_step [OF ok assms(2)] 1 2 n show ?thesis by (auto split: if_split_asm)
qed

text \<open>Ctrl-b from a kitty terminal with its release event, then d.\<close>

lemma kitty_keys:
  "decodeKey [0x1b, 0x5b, 0x39, 0x38, 0x3b, 0x35, 0x75] = Key 0x02"
  "decodeKey [0x1b, 0x5b, 0x39, 0x38, 0x3b, 0x35, 0x3a, 0x33, 0x75] = Ignore"
  "decodeKey [0x61] = Key 0x61" "decodeKey [0x64] = Key 0x64"
  by code_simp+

theorem detach_keys_witness:
  "\<exists>m. feed_all (newDetachMatcher [0x02, 0x64])
      [[0x61, 0x1b, 0x5b, 0x39, 0x38, 0x3b, 0x35, 0x75], [0x1b, 0x5b, 0x39, 0x38, 0x3b, 0x35, 0x3a, 0x33, 0x75, 0x64]] = ([0x61], True, m) \<and>
   (\<exists>pre toks suf. concat [[0x61, 0x1b, 0x5b, 0x39, 0x38, 0x3b, 0x35, 0x75], [0x1b, 0x5b, 0x39, 0x38, 0x3b, 0x35, 0x3a, 0x33, 0x75, 0x64]] =
      pre @ concat toks @ suf \<and> typed toks = map Key [0x02, 0x64])"
proof -
  let ?r = "feed_all (newDetachMatcher [0x02, 0x64])
      [[0x61, 0x1b, 0x5b, 0x39, 0x38, 0x3b, 0x35, 0x75], [0x1b, 0x5b, 0x39, 0x38, 0x3b, 0x35, 0x3a, 0x33, 0x75, 0x64]]"
  have r: "?r = ([0x61], True, snd (snd ?r))"
    by (simp add: feed_def newDetachMatcher_def feed_from.simps settle.simps clear_def nextKey_def kitty_keys)
  note d = detach_keys [OF list.distinct(2) r, THEN conjunct1, THEN mp, OF TrueI]
  show ?thesis by (rule exI) (rule conjI [OF r d])
qed

end
