(* ===== verification/GitConfig.thy ===== *)
theory GitConfig
  imports EnvFile
begin

text \<open>
  Git configuration files as jailoc reads and rewrites them: the parser of
  \<open>internal/cmd/vmgit_unix.go\<close> (\<open>parseGitConfig\<close>, \<open>gitConfigValue\<close>, \<open>gitBool\<close>) and the rewriting
  of \<open>internal/cmd/vmgitconfig_unix.go\<close> for the guest (\<open>rewriteGitConfig\<close>, \<open>rewriteGitEntry\<close>,
  \<open>quoteGitString\<close>). \<open>ul\<close> is \<open>strings.ToLower\<close> on strings that are not ASCII.
\<close>

section \<open>Values\<close>

definition git_escape :: "char \<Rightarrow> char" where
  "git_escape c =
     (if c = CHR ''n'' then CHR 0x0A else if c = CHR ''t'' then CHR 0x09
      else if c = CHR ''b'' then CHR 0x08 else c)"

text \<open>The loop of \<open>gitConfigValue\<close> from the builder \<open>b\<close>, the flag \<open>quoted\<close> and the pending white space.\<close>

fun git_value :: "string \<Rightarrow> bool \<Rightarrow> string \<Rightarrow> string \<Rightarrow> string \<times> bool" where
  "git_value b quoted pending [] = (b, False)"
| "git_value b quoted pending (c # raw) =
     (if c = CHR 0x5C then
        (case raw of
           [] \<Rightarrow> (b, True)
         | e # raw' \<Rightarrow> git_value (b @ pending @ [git_escape e]) quoted [] raw')
      else if c = CHR 0x22 then git_value b (\<not> quoted) pending raw
      else if \<not> quoted \<and> (c = CHR ''#'' \<or> c = CHR '';'') then (b, False)
      else if \<not> quoted \<and> (c = CHR '' '' \<or> c = CHR 0x09) then
        git_value b quoted (if b \<noteq> [] then pending @ [c] else pending) raw
      else git_value (b @ pending @ [c]) quoted [] raw)"

definition gitConfigValue :: "string \<Rightarrow> string \<times> bool" where
  "gitConfigValue raw = git_value [] False [] raw"

text \<open>\<open>strconv.ParseInt(v, 0, 64)\<close>: the base from the prefix, underscores between digits.\<close>

definition digit_of :: "char \<Rightarrow> nat option" where
  "digit_of c =
     (let d = lower_char c in
      if is_digit c then Some (digit_val c)
      else if (0x61 :: nat) \<le> of_char d \<and> of_char d \<le> (0x7A :: nat) then Some (of_char d - 0x61 + 10)
      else None)"

fun base_digits :: "nat \<Rightarrow> nat \<Rightarrow> string \<Rightarrow> nat option" where
  "base_digits base n [] = Some n"
| "base_digits base n (c # cs) =
     (if c = CHR ''_'' then base_digits base n cs
      else case digit_of c of
        None \<Rightarrow> None
      | Some d \<Rightarrow> if d < base then base_digits base (n * base + d) cs else None)"

fun underscores_from :: "bool \<Rightarrow> char \<Rightarrow> string \<Rightarrow> bool" where
  "underscores_from hex saw [] = (saw \<noteq> CHR ''_'')"
| "underscores_from hex saw (c # cs) =
     (if is_digit c \<or> hex \<and> (0x61 :: nat) \<le> of_char (lower_char c) \<and> of_char (lower_char c) \<le> (0x66 :: nat)
      then underscores_from hex CHR ''0'' cs
      else if c = CHR ''_'' then saw = CHR ''0'' \<and> underscores_from hex CHR ''_'' cs
      else saw \<noteq> CHR ''_'' \<and> underscores_from hex CHR ''!'' cs)"

definition base_prefix :: "string \<Rightarrow> char option" where
  "base_prefix s =
     (case s of
        z # p # _ \<Rightarrow>
          if z = CHR ''0'' \<and> lower_char p \<in> {CHR ''b'', CHR ''o'', CHR ''x''} then Some (lower_char p) else None
      | _ \<Rightarrow> None)"

definition underscoreOK :: "string \<Rightarrow> bool" where
  "underscoreOK s =
     (case base_prefix s of
        Some p \<Rightarrow> underscores_from (p = CHR ''x'') CHR ''0'' (drop 2 s)
      | None \<Rightarrow> underscores_from False CHR ''^'' s)"

text \<open>\<open>strconv.ParseUint(s, 0, 64)\<close>; both errors are None.\<close>

definition ParseUint0 :: "string \<Rightarrow> nat option" where
  "ParseUint0 s =
     (if s = [] then None
      else
        let (base, ds) =
          (if hd s \<noteq> CHR ''0'' then (10, s)
           else if length s \<ge> 3 \<and> base_prefix s = Some CHR ''b'' then (2, drop 2 s)
           else if length s \<ge> 3 \<and> base_prefix s = Some CHR ''o'' then (8, drop 2 s)
           else if length s \<ge> 3 \<and> base_prefix s = Some CHR ''x'' then (16, drop 2 s)
           else (8, tl s))
        in case base_digits base 0 ds of
             None \<Rightarrow> None
           | Some n \<Rightarrow> if n < 2 ^ 64 \<and> (CHR ''_'' \<in> set ds \<longrightarrow> underscoreOK s) then Some n else None)"

definition ParseInt0 :: "string \<Rightarrow> int option" where
  "ParseInt0 s =
     (let neg = HasPrefix s ''-''; ds = (if neg \<or> HasPrefix s ''+'' then tl s else s)
      in case ParseUint0 ds of
           None \<Rightarrow> None
         | Some n \<Rightarrow>
             if neg then (if n \<le> 2 ^ 63 then Some (- int n) else None)
             else if n < 2 ^ 63 then Some (int n) else None)"

definition gitBool :: "(string \<Rightarrow> string) \<Rightarrow> string \<Rightarrow> bool" where
  "gitBool ul v0 =
     (let v = ToLower ul (TrimSpace v0) in
      if v \<in> {''true'', ''yes'', ''on''} then True
      else if v \<in> {[], ''false'', ''no'', ''off''} then False
      else
        let w = (if length v > 1 \<and> last v \<in> set ''kmg'' then butlast v else v)
        in case ParseInt0 w of None \<Rightarrow> False | Some i \<Rightarrow> i \<noteq> 0)"

section \<open>The parser\<close>

record gitConfigEntry =
  ge_section :: string
  ge_key :: string
  ge_value :: string
  ge_first :: nat
  ge_last :: nat

definition TrimRight_cr :: "string \<Rightarrow> string" where
  "TrimRight_cr s = rev (dropWhile (\<lambda>c. c = CHR 0x0D) (rev s))"

text \<open>
  The value of a variable whose text on its first line is \<open>raw\<close>, with the lines after it: the
  decoded value and how many of those lines it continues on.
\<close>

fun continue_value :: "string \<Rightarrow> string list \<Rightarrow> string \<times> nat" where
  "continue_value raw [] = (fst (gitConfigValue raw), 0)"
| "continue_value raw (l # ls) =
     (if snd (gitConfigValue raw) then
        (case continue_value (butlast raw @ TrimRight_cr l) ls of (v, k) \<Rightarrow> (v, Suc k))
      else (fst (gitConfigValue raw), 0))"

text \<open>A section header at the start of a trimmed line; None for one that is not closed.\<close>

definition section_header :: "(string \<Rightarrow> string) \<Rightarrow> string \<Rightarrow> string \<Rightarrow> (string \<times> string) option" where
  "section_header ul sec line =
     (if HasPrefix line ''['' then
        (case Index line '']'' of
           None \<Rightarrow> None
         | Some e \<Rightarrow>
             let name = takeWhile (\<lambda>c. c \<notin> {CHR '' '', CHR 0x09, CHR ''.''}) (TrimSpace (tl (take e line)))
             in Some (ToLower ul name, TrimSpace (drop (e + 1) line)))
      else Some (sec, line))"

text \<open>A variable from the line \<open>line\<close> and those after it: its key, its value and the lines it takes.\<close>

definition parse_variable :: "(string \<Rightarrow> string) \<Rightarrow> string \<Rightarrow> string list \<Rightarrow> string \<times> string \<times> nat" where
  "parse_variable ul line ls =
     (case Cut line ''='' of (k, v, hasValue) \<Rightarrow>
        let key = ToLower ul (TrimSpace k) in
        if hasValue then (case continue_value v ls of (value, used) \<Rightarrow> (key, value, used))
        else (TrimSpace (fst (Cut (fst (Cut key ''#'')) '';'')), ''true'', 0))"

function parse_lines :: "(string \<Rightarrow> string) \<Rightarrow> string \<Rightarrow> nat \<Rightarrow> string list \<Rightarrow> gitConfigEntry list" where
  "parse_lines ul sec n lines =
     (case lines of
        [] \<Rightarrow> []
      | l # ls \<Rightarrow>
          (case section_header ul sec (TrimSpace l) of
             None \<Rightarrow> parse_lines ul sec (n + 1) ls
           | Some (sec', line) \<Rightarrow>
               if line = [] \<or> hd line = CHR ''#'' \<or> hd line = CHR '';'' then parse_lines ul sec' (n + 1) ls
               else case parse_variable ul line ls of (key, value, used) \<Rightarrow>
                 (if key \<noteq> [] then [\<lparr>ge_section = sec', ge_key = key, ge_value = value, ge_first = n, ge_last = n + used\<rparr>]
                  else []) @ parse_lines ul sec' (n + used + 1) (drop used ls)))"
  by pat_completeness auto
termination
  by (relation "measure (\<lambda>(_, _, _, lines). length lines)") auto

declare parse_lines.simps [simp del]

definition parseGitConfig :: "(string \<Rightarrow> string) \<Rightarrow> string \<Rightarrow> gitConfigEntry list" where
  "parseGitConfig ul data = parse_lines ul [] 0 (Split CHR 0x0A data)"

section \<open>Rewriting for the guest\<close>

definition gitPathKeys :: "string list" where
  "gitPathKeys =
     [''include.path'', ''includeif.path'', ''core.excludesfile'', ''core.attributesfile'', ''commit.template'',
      ''gpg.allowedsignersfile'', ''user.signingkey'']"

definition quote_char :: "char \<Rightarrow> string" where
  "quote_char c =
     (if c = CHR 0x5C then [CHR 0x5C, CHR 0x5C] else if c = CHR 0x22 then [CHR 0x5C, CHR 0x22]
      else if c = CHR 0x0A then [CHR 0x5C, CHR ''n''] else if c = CHR 0x09 then [CHR 0x5C, CHR ''t''] else [c])"

definition quoteGitString :: "string \<Rightarrow> string" where
  "quoteGitString s = concat (map quote_char s)"

definition is_blank :: "char \<Rightarrow> bool" where
  "is_blank c \<longleftrightarrow> c = CHR '' '' \<or> c = CHR 0x09"

definition rewriteGitEntry :: "string \<Rightarrow> string \<Rightarrow> string" where
  "rewriteGitEntry line value =
     (let rest = dropWhile is_blank line;
          pre = takeWhile is_blank line;
          (pre', rest') =
            (if HasPrefix rest ''['' then
               let cut = (case Index rest '']'' of None \<Rightarrow> 0 | Some e \<Rightarrow> e + 1)
               in (pre @ take cut rest @ '' '', dropWhile is_blank (drop cut rest))
             else (pre, rest))
      in pre' @ TrimSpace (fst (Cut rest' ''='')) @ '' = '' @ [CHR 0x22] @ quoteGitString value @ [CHR 0x22])"

text \<open>The expression \<open>gitdirTilde\<close>: where the tilde is, when the line matches.\<close>

definition re_space :: "char \<Rightarrow> bool" where
  "re_space c \<longleftrightarrow> c \<in> {CHR 0x09, CHR 0x0A, CHR 0x0C, CHR 0x0D, CHR '' ''}"

definition lit_fold :: "string \<Rightarrow> string \<Rightarrow> string option" where
  "lit_fold p s = (if map lower_char (take (length p) s) = p then Some (drop (length p) s) else None)"

definition gitdirTilde :: "string \<Rightarrow> nat option" where
  "gitdirTilde line =
     (case dropWhile re_space line of
        [] \<Rightarrow> None
      | b # s1 \<Rightarrow>
          if b \<noteq> CHR ''['' then None
          else case lit_fold ''includeif'' (dropWhile re_space s1) of
            None \<Rightarrow> None
          | Some s2 \<Rightarrow>
              if s2 = [] \<or> \<not> re_space (hd s2) then None
              else case lit_fold (CHR 0x22 # ''gitdir'') (dropWhile re_space s2) of
                None \<Rightarrow> None
              | Some s3 \<Rightarrow>
                  let s4 = (case lit_fold ''/i'' s3 of None \<Rightarrow> s3 | Some s \<Rightarrow> s)
                  in if HasPrefix s4 '':~/'' then Some (length line - length s4 + 1) else None)"

definition rewrite_gitdir :: "string \<Rightarrow> string \<Rightarrow> string" where
  "rewrite_gitdir home line =
     (case gitdirTilde line of
        None \<Rightarrow> line
      | Some i \<Rightarrow> take i line @ quoteGitString home @ ''/'' @ drop (i + 2) line)"

text \<open>The guest's text for the value of an entry that names a path under the host's home.\<close>

definition guest_path :: "string \<Rightarrow> string \<Rightarrow> string \<Rightarrow> string \<Rightarrow> string option" where
  "guest_path home sec key value =
     (if sec @ ''.'' @ key \<in> set gitPathKeys then map_option (\<lambda>r. ''~/'' @ r) (CutPrefix value (home @ ''/'')) else None)"

function rewrite_loop :: "string \<Rightarrow> nat \<Rightarrow> string list \<Rightarrow> gitConfigEntry list \<Rightarrow> string list" where
  "rewrite_loop home n lines entries =
     (case lines of
        [] \<Rightarrow> []
      | l # ls \<Rightarrow>
          let es = dropWhile (\<lambda>e. ge_first e < n) entries;
              hit = (case es of
                       [] \<Rightarrow> None
                     | e # _ \<Rightarrow>
                         if ge_first e = n then
                           map_option (\<lambda>v. (v, ge_last e)) (guest_path home (ge_section e) (ge_key e) (ge_value e))
                         else None)
          in case hit of
               Some (v, lst) \<Rightarrow>
                 rewrite_gitdir home (rewriteGitEntry l v) # rewrite_loop home (lst + 1) (drop (lst - n) ls) es
             | None \<Rightarrow> rewrite_gitdir home l # rewrite_loop home (n + 1) ls es)"
  by pat_completeness auto
termination
  by (relation "measure (\<lambda>(_, _, lines, _). length lines)") auto

declare rewrite_loop.simps [simp del]

definition rewriteGitConfig :: "(string \<Rightarrow> string) \<Rightarrow> string \<Rightarrow> string \<Rightarrow> string" where
  "rewriteGitConfig ul data home =
     Join (rewrite_loop home 0 (Split CHR 0x0A data) (parseGitConfig ul data)) [CHR 0x0A]"

section \<open>Trimming\<close>

abbreviation ltrim :: "string \<Rightarrow> string" where "ltrim \<equiv> strip_all space_runes"

definition rtrim :: "string \<Rightarrow> string" where
  "rtrim s = rev (strip_all (map rev space_runes) (rev s))"

lemma TrimSpace_trims: "TrimSpace s = rtrim (ltrim s)"
  by (simp add: TrimSpace_def rtrim_def)

lemma runes_bytes:
  "list_all (\<lambda>r. list_all (\<lambda>c. \<not> visible c) r) space_runes"
  "list_all (\<lambda>r. list_all (\<lambda>c. \<not> visible c) r) (map rev space_runes)"
  "list_all (\<lambda>r. CHR '' '' \<in> set r \<longrightarrow> r = '' '') space_runes"
  by code_simp+

lemma strip_one_at:
  assumes "list_all (\<lambda>r. c \<notin> set r) rs"
  shows "strip_one rs (a @ c # b) = map_option (\<lambda>t. t @ c # b) (strip_one rs a)"
  using assms
proof (induction rs)
  case (Cons r rs)
  have "HasPrefix (a @ c # b) r \<longleftrightarrow> HasPrefix a r"
    using Cons.prems by (auto simp: HasPrefix_iff prefix_append prefix_Cons)
  moreover have "drop (length r) (a @ c # b) = drop (length r) a @ c # b" if "HasPrefix a r"
    using that by (auto simp: HasPrefix_iff prefix_def)
  ultimately show ?case using Cons by simp
qed simp

lemma strip_all_at:
  assumes "list_all (\<lambda>r. c \<notin> set r) rs"
  shows "strip_all rs (a @ c # b) = strip_all rs a @ c # b"
  using assms
proof (induction rs a rule: strip_all.induct)
  case (1 rs a)
  show ?case
    by (subst (1 2) strip_all.simps) (auto simp: strip_one_at [OF "1.prems"] split: option.split intro: "1.IH" [OF _ "1.prems"])
qed

lemma visible_outside: "visible c \<Longrightarrow> list_all (\<lambda>r. c \<notin> set r) space_runes"
    "visible c \<Longrightarrow> list_all (\<lambda>r. c \<notin> set r) (map rev space_runes)"
  using runes_bytes by (auto simp: list_all_iff)

lemma ltrim_at: "visible c \<Longrightarrow> ltrim (a @ c # b) = ltrim a @ c # b"
  by (rule strip_all_at [OF visible_outside(1)])

lemma rtrim_at: "visible c \<Longrightarrow> rtrim (a @ c # b) = a @ c # rtrim b"
  by (simp add: rtrim_def strip_all_at [OF visible_outside(2)])

lemma strip_all_idem: "strip_all rs (strip_all rs s) = strip_all rs s"
  by (simp add: strip_all.simps [of rs "strip_all rs s"] strip_all_stops)

lemma strip_all_Nil [simp]: "strip_all rs [] = []"
proof -
  have "strip_one rs [] = None" by (induction rs) (auto simp: HasPrefix_iff)
  then show ?thesis by (simp add: strip_all.simps [of rs "[]"])
qed

lemma rtrim_Nil [simp]: "rtrim [] = []"
  by (simp add: rtrim_def)

lemma strip_all_step: "strip_one rs s = None \<Longrightarrow> strip_all rs s = s"
    "strip_one rs s = Some t \<Longrightarrow> strip_all rs s = strip_all rs t"
  by (simp_all add: strip_all.simps [of rs s])

lemma rtrim_idem [simp]: "rtrim (rtrim s) = rtrim s"
  by (simp add: rtrim_def strip_all_idem)

lemma rtrim_prefix: "prefix (rtrim s) s"
  using strip_all_suffix [of "map rev space_runes" "rev s"] by (simp add: rtrim_def suffix_to_prefix)

lemma strip_one_own:
  assumes "list_all (\<lambda>r. r \<noteq> [] \<and> hd r = c \<longrightarrow> r = [c]) rs" and "[c] \<in> set rs"
  shows "strip_one rs (c # s) = Some s"
  using assms
proof (induction rs)
  case (Cons r rs)
  have "r = [c]" if "r \<noteq> []" "HasPrefix (c # s) r"
    using that Cons.prems by (cases r) (auto simp: HasPrefix_def)
  with Cons show ?case by (auto simp: HasPrefix_def)
qed simp

lemma blank_runes:
  "list_all (\<lambda>c. list_all (\<lambda>r. r \<noteq> [] \<and> hd r = c \<longrightarrow> r = [c]) space_runes \<and> [c] \<in> set space_runes) [CHR '' '', CHR 0x09]"
  "list_all (\<lambda>r. r \<noteq> [] \<and> hd r = CHR '' '' \<longrightarrow> r = '' '') (map rev space_runes) \<and> '' '' \<in> set (map rev space_runes)"
  by code_simp+

lemma ltrim_blank: "is_blank c \<Longrightarrow> ltrim (c # s) = ltrim s"
  using blank_runes(1) by (intro strip_all_step(2) strip_one_own) (auto simp: is_blank_def)

lemma ltrim_blanks: "list_all is_blank a \<Longrightarrow> ltrim (a @ s) = ltrim s"
  by (induction a) (auto simp: ltrim_blank)

lemma ltrim_dropWhile: "ltrim (dropWhile is_blank s) = ltrim s"
proof -
  have "list_all is_blank (takeWhile is_blank s)" by (auto simp: list_all_iff dest: set_takeWhileD)
  from ltrim_blanks [OF this, of "dropWhile is_blank s"] show ?thesis by (simp only: takeWhile_dropWhile_id)
qed

lemma ltrim_rtrim: "ltrim s = s \<Longrightarrow> ltrim (rtrim s) = rtrim s"
proof -
  assume "ltrim s = s"
  then have s: "strip_one space_runes s = None" using strip_all_stops [of space_runes s] by simp
  have "strip_one rs (rtrim s) = None" if "strip_one rs s = None" for rs
    using that rtrim_prefix [of s] by (induction rs) (auto simp: HasPrefix_iff split: if_splits dest: prefix_order.trans)
  with s show ?thesis by (simp add: strip_all_step(1))
qed

lemma strip_one_space:
  assumes "list_all (\<lambda>r. CHR '' '' \<in> set r \<longrightarrow> r = '' '') rs" and "s \<noteq> []" and "strip_one rs s = None"
  shows "strip_one rs (s @ '' '') = None"
  using assms
proof (induction rs)
  case (Cons r rs)
  have "\<not> HasPrefix (s @ '' '') r" if "r \<noteq> []" "\<not> HasPrefix s r"
  proof
    assume "HasPrefix (s @ '' '') r"
    with that have "r = s @ '' ''" by (auto simp: HasPrefix_iff)
    with Cons.prems show False by simp
  qed
  with Cons show ?case by (auto split: if_splits)
qed simp

lemma TrimSpace_space: "K \<noteq> [] \<Longrightarrow> ltrim K = K \<Longrightarrow> ltrim (K @ '' '') = K @ '' ''"
  using strip_one_space [OF runes_bytes(3), of K] strip_all_stops [of space_runes K] by (simp add: strip_all_step(1))

lemma rtrim_space: "rtrim (K @ '' '') = rtrim K"
proof -
  have "strip_all (map rev space_runes) (CHR '' '' # rev K) = strip_all (map rev space_runes) (rev K)"
    using blank_runes(2) by (intro strip_all_step(2) strip_one_own) auto
  then show ?thesis by (simp add: rtrim_def)
qed

end
