(* ===== verification/GitConfigProps.thy ===== *)
theory GitConfigProps
  imports GitConfig
begin

text \<open>
  Properties of the Git configuration code: quoting and reading back a value, and the rewriting of a
  whole file, which changes the path settings under the home directory and nothing else.
\<close>

section \<open>Quoting\<close>

lemma git_value_quoted: "git_value b True [] (quoteGitString s @ r) = git_value (b @ s) True [] r"
  by (induction s arbitrary: b) (auto simp: quoteGitString_def quote_char_def git_escape_def)

lemma gitConfigValue_quoted: "gitConfigValue (CHR '' '' # CHR 0x22 # quoteGitString s @ [CHR 0x22]) = (s, False)"
  by (simp add: gitConfigValue_def git_value_quoted)

lemma continue_value_quoted: "continue_value (CHR '' '' # CHR 0x22 # quoteGitString s @ [CHR 0x22]) ls = (s, 0)"
  by (cases ls) (simp_all add: gitConfigValue_quoted)

section \<open>The parser on a file that keeps a variable's lines\<close>

definition setting :: "gitConfigEntry \<Rightarrow> string \<times> string \<times> string" where
  "setting e = (ge_section e, ge_key e, ge_value e)"

text \<open>The four ways a line is read, as equations and as an induction rule.\<close>

definition no_variable :: "string \<Rightarrow> bool" where
  "no_variable line \<longleftrightarrow> line = [] \<or> hd line = CHR ''#'' \<or> hd line = CHR '';''"

lemma parse_lines_eqs:
  "parse_lines ul sec n [] = []"
  "section_header ul sec (TrimSpace l) = None \<Longrightarrow> parse_lines ul sec n (l # ls) = parse_lines ul sec (n + 1) ls"
  "section_header ul sec (TrimSpace l) = Some (sec', line) \<Longrightarrow> no_variable line \<Longrightarrow>
   parse_lines ul sec n (l # ls) = parse_lines ul sec' (n + 1) ls"
  "section_header ul sec (TrimSpace l) = Some (sec', line) \<Longrightarrow> \<not> no_variable line \<Longrightarrow>
   parse_variable ul line ls = (key, value, used) \<Longrightarrow>
   parse_lines ul sec n (l # ls) =
     (if key \<noteq> [] then [\<lparr>ge_section = sec', ge_key = key, ge_value = value, ge_first = n, ge_last = n + used\<rparr>] else []) @
     parse_lines ul sec' (n + used + 1) (drop used ls)"
  by (simp_all add: no_variable_def parse_lines.simps [of ul sec n "[]"] parse_lines.simps [of ul sec n "l # ls"])

lemma parse_lines_rule [case_names none opened skip variable]:
  assumes "\<And>sec n. P sec n []"
    and "\<And>sec n l ls. section_header ul sec (TrimSpace l) = None \<Longrightarrow> P sec (n + 1) ls \<Longrightarrow> P sec n (l # ls)"
    and "\<And>sec n l ls sec' line. section_header ul sec (TrimSpace l) = Some (sec', line) \<Longrightarrow> no_variable line \<Longrightarrow>
           P sec' (n + 1) ls \<Longrightarrow> P sec n (l # ls)"
    and "\<And>sec n l ls sec' line key value used. section_header ul sec (TrimSpace l) = Some (sec', line) \<Longrightarrow>
           \<not> no_variable line \<Longrightarrow> parse_variable ul line ls = (key, value, used) \<Longrightarrow>
           P sec' (n + used + 1) (drop used ls) \<Longrightarrow> P sec n (l # ls)"
  shows "P sec n (ls :: string list)"
proof (induction "length ls" arbitrary: sec n ls rule: less_induct)
  case less
  show ?case
  proof (cases ls)
    case (Cons l r)
    show ?thesis
    proof (cases "section_header ul sec (TrimSpace l)")
      case None
      with less Cons assms(2) show ?thesis by simp
    next
      case (Some h)
      obtain sec' line where h: "h = (sec', line)" by (cases h)
      obtain key v used where "parse_variable ul line r = (key, v, used)" by (metis prod_cases3)
      with less Cons Some h assms(3,4) show ?thesis by (cases "no_variable line") auto
    qed
  qed (simp add: assms(1))
qed

lemma parse_lines_first: "e \<in> set (parse_lines ul sec n ls) \<Longrightarrow> n \<le> ge_first e"
  by (induction sec n ls rule: parse_lines_rule [where ul = ul])
     (auto simp: parse_lines_eqs split: if_split_asm)

lemma parse_lines_shift: "map setting (parse_lines ul sec n ls) = map setting (parse_lines ul sec m ls)"
proof (induction sec n ls arbitrary: m rule: parse_lines_rule [where ul = ul])
  case (variable sec n l ls sec' line key v used)
  from variable(4) [of "m + used + 1"] show ?case by (simp add: parse_lines_eqs(4) [OF variable(1-3)] setting_def)
qed (simp_all add: parse_lines_eqs)

lemma continue_value_le: "continue_value raw ls = (v, k) \<Longrightarrow> k \<le> length ls"
  by (induction raw ls arbitrary: k rule: continue_value.induct) (auto split: prod.split_asm if_split_asm)

lemma continue_value_take:
  "continue_value raw ls = (v, k) \<Longrightarrow> (k = length ls \<Longrightarrow> R = []) \<Longrightarrow> continue_value raw (take k ls @ R) = (v, k)"
proof (induction raw ls arbitrary: k rule: continue_value.induct)
  case (1 raw)
  then show ?case by auto
next
  case (2 raw l ls)
  show ?case
  proof (cases "snd (gitConfigValue raw)")
    case True
    with "2.prems"(1) obtain k' where "continue_value (butlast raw @ TrimRight_cr l) ls = (v, k')" "k = Suc k'"
      by (auto split: prod.split_asm)
    with 2 True show ?thesis by simp
  next
    case False
    with "2.prems"(1) show ?thesis by (cases R) auto
  qed
qed

lemma parse_variable_le: "parse_variable ul line ls = (key, v, k) \<Longrightarrow> k \<le> length ls"
  by (auto simp: parse_variable_def Let_def split: prod.split_asm if_split_asm dest: continue_value_le)

lemma parse_variable_take:
  "parse_variable ul line ls = (key, v, k) \<Longrightarrow> (k = length ls \<Longrightarrow> R = []) \<Longrightarrow>
   parse_variable ul line (take k ls @ R) = (key, v, k)"
  by (auto simp: parse_variable_def Let_def split: prod.split_asm if_split_asm dest: continue_value_take)

section \<open>A rewritten variable\<close>

text \<open>The line starts, after blanks, with a visible character.\<close>

definition starts_plain :: "string \<Rightarrow> bool" where
  "starts_plain l \<longleftrightarrow> (case dropWhile is_blank l of [] \<Rightarrow> False | c # _ \<Rightarrow> visible c)"

lemma visible_chars:
  "visible CHR ''[''" "visible CHR '']''" "visible CHR ''=''" "visible CHR 0x22" "visible CHR ''~''" "visible CHR ''/''"
  by (simp_all add: visible_def)

lemma blank_not_visible: "visible c \<Longrightarrow> \<not> is_blank c"
  by (auto simp: visible_def is_blank_def)

lemma TrimSpace_starts:
  assumes "list_all is_blank bl" and "visible c"
  shows "TrimSpace (bl @ c # r) = c # rtrim r"
  using ltrim_at [OF assms(2), of bl r] ltrim_blanks [OF assms(1), of "[]"] rtrim_at [OF assms(2), of "[]" r]
  by (simp add: TrimSpace_trims)

lemma TrimSpace_equals: "TrimSpace (k @ CHR ''='' # v) = ltrim k @ CHR ''='' # rtrim v"
  by (simp add: TrimSpace_trims ltrim_at rtrim_at visible_chars)

lemma TrimSpace_ltrim: "TrimSpace (ltrim k) = TrimSpace k"
  by (simp add: TrimSpace_trims strip_all_idem)

lemma TrimSpace_dropWhile: "TrimSpace (dropWhile is_blank k) = TrimSpace k"
  by (simp add: TrimSpace_trims ltrim_dropWhile)

lemma TrimSpace_fixed: "ltrim (TrimSpace k) = TrimSpace k" "rtrim (TrimSpace k) = TrimSpace k"
  by (simp_all add: TrimSpace_trims ltrim_rtrim strip_all_idem)

lemma ToLower_Nil [simp]: "ToLower ul [] = []"
  by (simp add: ToLower_def is_ascii_def)

lemma TrimSpace_hd: "TrimSpace k \<noteq> [] \<Longrightarrow> hd (TrimSpace k) = hd (ltrim k) \<and> ltrim k \<noteq> []"
  using rtrim_prefix [of "ltrim k"] unfolding TrimSpace_trims prefix_def by (metis append_is_Nil_conv hd_append2)

lemma set_TrimSpace: "set (TrimSpace k) \<subseteq> set k"
  using rtrim_prefix [of "ltrim k"] strip_all_suffix [of space_runes k]
  by (auto simp: TrimSpace_trims dest: set_mono_prefix set_mono_suffix)

text \<open>The text \<open>key = "value"\<close> that \<open>rewriteGitEntry\<close> writes, as the parser reads it.\<close>

definition written :: "string \<Rightarrow> string \<Rightarrow> string" where
  "written k v = TrimSpace k @ '' = '' @ [CHR 0x22] @ quoteGitString v @ [CHR 0x22]"

lemma TrimSpace_written:
  assumes "TrimSpace k \<noteq> []" and "list_all is_blank bl"
  shows "TrimSpace (bl @ written k v) = written k v"
proof -
  have "ltrim (TrimSpace k @ '' '') = TrimSpace k @ '' ''" by (rule TrimSpace_space [OF assms(1) TrimSpace_fixed(1)])
  with ltrim_at [OF visible_chars(3), of "TrimSpace k @ '' ''"] have "ltrim (written k v) = written k v"
    by (simp add: written_def)
  moreover have "rtrim (written k v) = written k v"
    using rtrim_at [OF visible_chars(4), of "TrimSpace k @ '' = '' @ [CHR 0x22] @ quoteGitString v" "[]"]
    by (simp add: written_def)
  ultimately show ?thesis by (simp add: TrimSpace_trims [of "bl @ written k v"] ltrim_blanks [OF assms(2)])
qed

lemma parse_written:
  assumes "TrimSpace k \<noteq> []" and "CHR ''='' \<notin> set k"
  shows "parse_variable ul (written k v) ls = (ToLower ul (TrimSpace k), v, 0)"
proof -
  have "TrimSpace (TrimSpace k @ '' '') = TrimSpace k"
    using TrimSpace_space [OF assms(1) TrimSpace_fixed(1)] by (simp add: TrimSpace_trims rtrim_space)
  moreover have "Cut (written k v) ''='' = (TrimSpace k @ '' '', CHR '' '' # CHR 0x22 # quoteGitString v @ [CHR 0x22], True)"
    using assms(2) set_TrimSpace [of k] Cut_char_append [of "CHR ''=''" "TrimSpace k @ '' ''"]
    by (auto simp: written_def)
  ultimately show ?thesis by (simp add: parse_variable_def continue_value_quoted)
qed

lemma written_variable:
  assumes "\<not> no_variable (ltrim k @ CHR ''='' # w)" and "TrimSpace k \<noteq> []"
  shows "\<not> no_variable (written k v)"
  using assms TrimSpace_hd [of k] by (auto simp: no_variable_def written_def hd_append)

lemma starts_plain_split:
  assumes "starts_plain l"
  obtains bl c r where "l = bl @ c # r" "list_all is_blank bl" "visible c" "takeWhile is_blank l = bl" "dropWhile is_blank l = c # r"
proof -
  from assms obtain c r where d: "dropWhile is_blank l = c # r" "visible c"
    by (auto simp: starts_plain_def split: list.split_asm)
  moreover have "list_all is_blank (takeWhile is_blank l)" by (auto simp: list_all_iff dest: set_takeWhileD)
  ultimately show ?thesis using that [of "takeWhile is_blank l" c r] takeWhile_dropWhile_id [of is_blank l] by simp
qed

lemma rtrim_written: "rtrim (CHR '' '' # written k v) = CHR '' '' # written k v"
  using rtrim_at [OF visible_chars(4), of "'' '' @ TrimSpace k @ '' = '' @ [CHR 0x22] @ quoteGitString v" "[]"]
  by (simp add: written_def)

lemma header_split:
  assumes "CHR '']'' \<notin> set r1"
  shows "section_header ul sec (CHR ''['' # r1 @ CHR '']'' # r2) =
     Some (ToLower ul (takeWhile (\<lambda>c. c \<notin> {CHR '' '', CHR 0x09, CHR ''.''}) (TrimSpace r1)), TrimSpace r2)"
  using Index_append_char [of "CHR '']''" "CHR ''['' # r1" r2] assms
  by (simp add: section_header_def HasPrefix_def)

lemma parse_variable_key:
  assumes "CHR ''='' \<notin> set k" and "parse_variable ul (ltrim k @ CHR ''='' # w) ls = (key, x, used)" and "key \<noteq> []"
  shows "key = ToLower ul (TrimSpace k)" and "TrimSpace k \<noteq> []"
proof -
  have "CHR ''='' \<notin> set (ltrim k)" using assms(1) strip_all_suffix [of space_runes k] by (auto dest: set_mono_suffix)
  with assms(2) show "key = ToLower ul (TrimSpace k)"
    by (auto simp: parse_variable_def TrimSpace_ltrim split: prod.split_asm)
  with assms(3) show "TrimSpace k \<noteq> []" by auto
qed

section \<open>Conditions on the git directory\<close>

text \<open>The parts of a line \<open>gitdirTilde\<close> matches, up to the tilde.\<close>

definition gitdir_parts :: "string \<Rightarrow> string \<Rightarrow> string \<Rightarrow> string \<Rightarrow> string \<Rightarrow> bool" where
  "gitdir_parts w0 w1 inc w2 g \<longleftrightarrow>
     list_all re_space w0 \<and> list_all re_space w1 \<and> list_all re_space w2 \<and> w2 \<noteq> [] \<and>
     map lower_char inc = ''includeif'' \<and>
     map lower_char g \<in> {CHR 0x22 # ''gitdir'', CHR 0x22 # ''gitdir/i''}"

lemma lit_fold_Some: "lit_fold p s = Some s' \<longleftrightarrow> (\<exists>u. s = u @ s' \<and> map lower_char u = p)"
proof
  assume "lit_fold p s = Some s'"
  then show "\<exists>u. s = u @ s' \<and> map lower_char u = p"
    by (intro exI [of _ "take (length p) s"]) (auto simp: lit_fold_def split: if_split_asm)
next
  assume "\<exists>u. s = u @ s' \<and> map lower_char u = p"
  then show "lit_fold p s = Some s'" by (auto simp: lit_fold_def)
qed

lemma dropWhile_all: "list_all P w \<Longrightarrow> dropWhile P (w @ s) = dropWhile P s"
  by (induction w) auto

lemma split_dropWhile: "dropWhile P s = r \<Longrightarrow> \<exists>w. s = w @ r \<and> list_all P w"
  by (rule exI [of _ "takeWhile P s"]) (auto simp: list_all_iff dest: set_takeWhileD)

lemma gitdirTilde_parts:
  assumes "gitdirTilde x = Some i"
  obtains w0 w1 inc w2 g t where "x = w0 @ CHR ''['' # w1 @ inc @ w2 @ g @ '':~/'' @ t"
    "gitdir_parts w0 w1 inc w2 g" "i = length (w0 @ CHR ''['' # w1 @ inc @ w2 @ g @ '':'')"
proof -
  obtain s1 s2 s3 where
    1: "dropWhile re_space x = CHR ''['' # s1"
      "lit_fold ''includeif'' (dropWhile re_space s1) = Some s2" "s2 \<noteq> []" "re_space (hd s2)"
      "lit_fold (CHR 0x22 # ''gitdir'') (dropWhile re_space s2) = Some s3"
    and s4: "HasPrefix (case lit_fold ''/i'' s3 of None \<Rightarrow> s3 | Some s \<Rightarrow> s) '':~/''"
      "i = length x - length (case lit_fold ''/i'' s3 of None \<Rightarrow> s3 | Some s \<Rightarrow> s) + 1"
    using assms by (auto simp: gitdirTilde_def Let_def split: list.split_asm if_split_asm option.split_asm)
  from 1 obtain w0 w1 inc w2 g where
    w: "x = w0 @ CHR ''['' # s1" "list_all re_space w0" "s1 = w1 @ inc @ s2" "list_all re_space w1"
      "map lower_char inc = ''includeif''" "s2 = w2 @ g @ s3" "list_all re_space w2"
      "map lower_char g = CHR 0x22 # ''gitdir''"
    by (metis lit_fold_Some split_dropWhile)
  have "w2 \<noteq> []"
  proof
    assume "w2 = []"
    with w have "map lower_char s2 = CHR 0x22 # ''gitdir'' @ map lower_char s3" by simp
    then have "lower_char (hd s2) = CHR 0x22" by (cases s2) auto
    with 1(4) show False by (auto simp: re_space_def lower_char_def split: if_split_asm)
  qed
  moreover obtain h s where "s3 = h @ s" "map lower_char h \<in> {[], ''/i''}" "HasPrefix s '':~/''" "i = length x - length s + 1"
  proof (cases "lit_fold ''/i'' s3")
    case None
    with s4 that [of "[]" s3] show ?thesis by simp
  next
    case (Some a)
    then obtain u where "s3 = u @ a" "map lower_char u = ''/i''" using lit_fold_Some by blast
    with s4 Some that [of u a] show ?thesis by simp
  qed
  moreover from this(3) obtain t where "s = '':~/'' @ t" by (auto simp: HasPrefix_iff prefix_def)
  ultimately show ?thesis
    using that [of w0 w1 inc w2 "g @ h" t] w by (auto simp: gitdir_parts_def)
qed

lemma parts_chars:
  assumes "gitdir_parts w0 w1 inc w2 g"
  obtains c r where "inc = c # r" "visible c" "\<not> re_space c"
    "\<forall>d \<in> set inc. d \<notin> {CHR '' '', CHR 0x09, CHR ''.'', CHR '']''}" "CHR '']'' \<notin> set (w0 @ CHR ''['' # w1 @ inc @ w2 @ g @ '':~/'')"
proof -
  have low: "lower_char d = d" if "d \<in> {CHR '' '', CHR 0x09, CHR ''.'', CHR '']''}" for d
    using that by (auto simp: lower_char_def)
  have in_inc: "lower_char d \<in> set ''includeif''" if "d \<in> set inc" for d
    using assms that imageI [of d "set inc" lower_char] by (simp add: gitdir_parts_def flip: set_map)
  have in_g: "lower_char d \<in> set (CHR 0x22 # ''gitdir/i'')" if "d \<in> set g" for d
    using assms that imageI [of d "set g" lower_char] by (auto simp: gitdir_parts_def simp flip: set_map)
  from assms obtain c r where c: "inc = c # r" "lower_char c = CHR ''i''" by (auto simp: gitdir_parts_def)
  have "\<forall>d \<in> set inc. d \<notin> {CHR '' '', CHR 0x09, CHR ''.'', CHR '']''}"
  proof
    fix d assume "d \<in> set inc"
    then show "d \<notin> {CHR '' '', CHR 0x09, CHR ''.'', CHR '']''}" using in_inc [of d] low [of d] by auto
  qed
  moreover have "CHR '']'' \<notin> set g"
  proof
    assume "CHR '']'' \<in> set g"
    then have "lower_char CHR '']'' \<in> set (CHR 0x22 # ''gitdir/i'')" by (rule in_g)
    moreover have "lower_char CHR '']'' = CHR '']''" by (rule low) simp
    ultimately have "CHR '']'' \<in> set (CHR 0x22 # ''gitdir/i'')" by (simp only:)
    then show False by simp
  qed
  moreover have "CHR '']'' \<notin> set w" if "list_all re_space w" for w
    using that by (induction w) (auto simp: re_space_def)
  moreover have v: "visible c"
  proof (cases "0x41 \<le> (of_char c :: nat) \<and> (of_char c :: nat) \<le> 0x5A")
    case True
    then show ?thesis by (simp add: visible_def)
  next
    case False
    then have "lower_char c = c" by (simp only: lower_char_def if_False)
    with c(2) show ?thesis by (simp add: visible_def)
  qed
  moreover have "\<not> re_space c" using v by (auto simp: visible_def re_space_def)
  ultimately show ?thesis using that [of c r] c(1) assms by (auto simp: gitdir_parts_def)
qed

lemma gitdirTilde_intro:
  assumes "gitdir_parts w0 w1 inc w2 g"
  shows "gitdirTilde (w0 @ CHR ''['' # w1 @ inc @ w2 @ g @ '':~/'' @ t) =
     Some (length (w0 @ CHR ''['' # w1 @ inc @ w2 @ g @ '':''))"
proof -
  from assms obtain c r where c: "inc = c # r" "\<not> re_space c" by (rule parts_chars)
  note a = assms [unfolded gitdir_parts_def]
  obtain h where h: "g = h @ drop 7 g" "map lower_char h = CHR 0x22 # ''gitdir''" "map lower_char (drop 7 g) \<in> {[], ''/i''}"
    using a by (intro that [of "take 7 g"]) (auto simp: take_map [symmetric] drop_map [symmetric])
  from h(2) obtain q h' where q: "h = q # h'" "lower_char q = CHR 0x22" by auto
  have "\<not> re_space q" using q(2) by (auto simp: re_space_def lower_char_def split: if_split_asm)
  obtain b w2' where w2: "w2 = b # w2'" "re_space b" using a by (cases w2) auto
  have "lit_fold ''/i'' ('':~/'' @ t) = None" by (simp add: lit_fold_def lower_char_def)
  have lb: "\<not> re_space CHR ''[''" by (simp add: re_space_def)
  have 0: "dropWhile re_space (w0 @ CHR ''['' # u) = CHR ''['' # u" for u
    using a lb by (simp add: dropWhile_all)
  have 1: "dropWhile re_space (w1 @ inc @ u) = inc @ u" for u
    using a c by (simp add: dropWhile_all)
  have 2: "dropWhile re_space (w2 @ g @ u) = g @ u" for u
    using a h(1) q(1) \<open>\<not> re_space q\<close> by (metis append_Cons dropWhile.simps(2) dropWhile_all)
  have 3: "lit_fold ''includeif'' (inc @ u) = Some u" for u using a by (auto simp: lit_fold_Some)
  have 4: "lit_fold (CHR 0x22 # ''gitdir'') (g @ u) = Some (drop 7 g @ u)" for u
    using h by (metis append.assoc lit_fold_Some)
  have 5: "(case lit_fold ''/i'' (drop 7 g @ '':~/'' @ t) of None \<Rightarrow> drop 7 g @ '':~/'' @ t | Some s \<Rightarrow> s) = '':~/'' @ t"
  proof (cases "drop 7 g = []")
    case True
    then show ?thesis using \<open>lit_fold ''/i'' ('':~/'' @ t) = None\<close> by simp
  next
    case False
    with h(3) have "lit_fold ''/i'' (drop 7 g @ '':~/'' @ t) = Some ('':~/'' @ t)" by (auto simp: lit_fold_Some)
    then show ?thesis by simp
  qed
  show ?thesis
    unfolding gitdirTilde_def 0 list.case 1 3 option.case 2 4 Let_def 5 using w2 by (simp add: HasPrefix_def)
qed

text \<open>A match lies before the first closing bracket, so it does not depend on what follows it.\<close>

lemma gitdirTilde_bracket:
  assumes "gitdirTilde (a @ CHR '']'' # b) = Some i"
  shows "i \<le> length a" and "gitdirTilde (a @ CHR '']'' # b') = Some i"
proof -
  from assms obtain w0 w1 inc w2 g t where x: "a @ CHR '']'' # b = w0 @ CHR ''['' # w1 @ inc @ w2 @ g @ '':~/'' @ t"
    and p: "gitdir_parts w0 w1 inc w2 g" and i: "i = length (w0 @ CHR ''['' # w1 @ inc @ w2 @ g @ '':'')"
    by (rule gitdirTilde_parts)
  define q where "q = w0 @ CHR ''['' # w1 @ inc @ w2 @ g @ '':~/''"
  have np: "CHR '']'' \<notin> set q" unfolding q_def using p by (rule parts_chars)
  have "prefix q (a @ CHR '']'' # b)" using x by (simp add: q_def)
  then have "prefix q a" using np by (auto simp: prefix_append prefix_Cons)
  then obtain u where u: "a = w0 @ CHR ''['' # w1 @ inc @ w2 @ g @ '':~/'' @ u" by (auto simp: prefix_def q_def)
  then show "i \<le> length a" using i by simp
  show "gitdirTilde (a @ CHR '']'' # b') = Some i"
    using gitdirTilde_intro [OF p, of "u @ CHR '']'' # b'"] u i by simp
qed

lemma gitdirTilde_bracket_eq: "gitdirTilde (a @ CHR '']'' # b) = gitdirTilde (a @ CHR '']'' # b')"
  using gitdirTilde_bracket(2) by (metis not_None_eq)

text \<open>The white space of a matching header is blanks.\<close>

definition tidy :: "string \<Rightarrow> bool" where
  "tidy x = (case gitdirTilde x of None \<Rightarrow> True | Some i \<Rightarrow> list_all (\<lambda>c. re_space c \<longrightarrow> is_blank c) (take i x))"

lemma tidy_bracket: "tidy (a @ CHR '']'' # b) \<longleftrightarrow> tidy (a @ CHR '']'' # b')"
proof (cases "gitdirTilde (a @ CHR '']'' # b)")
  case None
  then show ?thesis using gitdirTilde_bracket_eq [of a b b'] by (simp add: tidy_def)
next
  case (Some i)
  with gitdirTilde_bracket [OF Some] show ?thesis by (simp add: tidy_def)
qed

lemma tidy_other: "list_all is_blank bl \<Longrightarrow> visible c \<Longrightarrow> c \<noteq> CHR ''['' \<Longrightarrow> tidy (bl @ c # r)"
proof -
  assume bl: "list_all is_blank bl" and c: "visible c" "c \<noteq> CHR ''[''"
  have "list_all re_space bl" using bl by (induction bl) (auto simp: is_blank_def re_space_def)
  moreover have "\<not> re_space c" using c(1) by (auto simp: visible_def re_space_def)
  ultimately have "gitdirTilde (bl @ c # r) = None" using c(2) by (simp add: gitdirTilde_def dropWhile_all)
  then show ?thesis by (simp add: tidy_def)
qed

lemma quote_bracket: "CHR '']'' \<notin> set home \<Longrightarrow> CHR '']'' \<notin> set (quoteGitString home)"
  by (auto simp: quoteGitString_def quote_char_def split: if_split_asm)

lemma header_name:
  assumes "gitdir_parts w0 w1 inc w2 g" and "list_all (\<lambda>c. re_space c \<longrightarrow> is_blank c) (w1 @ w2)"
  shows "takeWhile (\<lambda>c. c \<notin> {CHR '' '', CHR 0x09, CHR ''.''}) (TrimSpace (w1 @ inc @ w2 @ g @ u @ CHR ''/'' # t)) = inc"
proof -
  from assms(1) obtain c r where c: "inc = c # r" "visible c"
    "\<forall>d \<in> set inc. d \<notin> {CHR '' '', CHR 0x09, CHR ''.'', CHR '']''}" by (rule parts_chars)
  have w: "list_all is_blank w1" "w2 \<noteq> []" "is_blank (hd w2)"
    using assms by (auto simp: gitdir_parts_def list_all_iff)
  have "TrimSpace (w1 @ inc @ w2 @ g @ u @ CHR ''/'' # t) = c # rtrim (r @ w2 @ g @ u @ CHR ''/'' # t)"
    using TrimSpace_starts [OF w(1) c(2)] by (simp add: c(1))
  also have "\<dots> = inc @ w2 @ g @ u @ CHR ''/'' # rtrim t"
    using rtrim_at [OF visible_chars(6), of "r @ w2 @ g @ u" t] by (simp add: c(1))
  finally have e: "TrimSpace (w1 @ inc @ w2 @ g @ u @ CHR ''/'' # t) = inc @ w2 @ g @ u @ CHR ''/'' # rtrim t" .
  show ?thesis unfolding e using w(2,3) c(3) by (cases w2) (auto simp: is_blank_def takeWhile_append2)
qed

lemma header_gitdir:
  assumes "tidy x" and "CHR '']'' \<notin> set home"
  shows "section_header ul sec (TrimSpace (rewrite_gitdir home x)) = section_header ul sec (TrimSpace x)"
proof (cases "gitdirTilde x")
  case None
  then show ?thesis by (simp add: rewrite_gitdir_def)
next
  case (Some i)
  from Some obtain w0 w1 inc w2 g t where x: "x = w0 @ CHR ''['' # w1 @ inc @ w2 @ g @ '':~/'' @ t"
    and p: "gitdir_parts w0 w1 inc w2 g" and i: "i = length (w0 @ CHR ''['' # w1 @ inc @ w2 @ g @ '':'')"
    by (rule gitdirTilde_parts)
  have x': "rewrite_gitdir home x = w0 @ CHR ''['' # w1 @ inc @ w2 @ g @ '':'' @ quoteGitString home @ ''/'' @ t"
  proof -
    define q where "q = w0 @ CHR ''['' # w1 @ inc @ w2 @ g @ '':''"
    have "x = q @ ''~/'' @ t" "i = length q" using x i by (simp_all add: q_def)
    with Some have "rewrite_gitdir home x = q @ quoteGitString home @ ''/'' @ t" by (simp add: rewrite_gitdir_def)
    then show ?thesis by (simp add: q_def)
  qed
  have "take i x = w0 @ CHR ''['' # w1 @ inc @ w2 @ g @ '':''" using x i by simp
  then have b: "list_all is_blank w0" "list_all (\<lambda>c. re_space c \<longrightarrow> is_blank c) (w1 @ w2)"
    using assms(1) Some p by (auto simp: tidy_def list_all_iff gitdir_parts_def)
  have T: "TrimSpace (w0 @ CHR ''['' # w1 @ inc @ w2 @ g @ u @ CHR ''/'' # t) =
      CHR ''['' # (w1 @ inc @ w2 @ g @ u @ [CHR ''/'']) @ rtrim t" for u
    using TrimSpace_starts [OF b(1) visible_chars(1)] rtrim_at [OF visible_chars(6), of "w1 @ inc @ w2 @ g @ u" t] by simp
  have nb: "CHR '']'' \<notin> set (w1 @ inc @ w2 @ g @ u @ [CHR ''/''])" if "CHR '']'' \<notin> set u" for u
  proof -
    have "CHR '']'' \<notin> set (w0 @ CHR ''['' # w1 @ inc @ w2 @ g @ '':~/'')" using p by (rule parts_chars)
    with that show ?thesis by auto
  qed
  have u: "CHR '']'' \<notin> set '':~''" "CHR '']'' \<notin> set ('':'' @ quoteGitString home)"
    using quote_bracket [OF assms(2)] by simp_all
  have same: "section_header ul sec (CHR ''['' # (w1 @ inc @ w2 @ g @ v @ [CHR ''/'']) @ rtrim t) =
      section_header ul sec (CHR ''['' # (w1 @ inc @ w2 @ g @ v' @ [CHR ''/'']) @ rtrim t)"
    if v: "CHR '']'' \<notin> set v" "CHR '']'' \<notin> set v'" for v v'
  proof (cases "CHR '']'' \<in> set (rtrim t)")
    case False
    with nb [OF v(1)] nb [OF v(2)] have
      "Index (CHR ''['' # (w1 @ inc @ w2 @ g @ v @ [CHR ''/'']) @ rtrim t) '']'' = None"
      "Index (CHR ''['' # (w1 @ inc @ w2 @ g @ v' @ [CHR ''/'']) @ rtrim t) '']'' = None"
      by (simp_all only: Index_None_notin) auto
    then show ?thesis by (simp add: section_header_def HasPrefix_def)
  next
    case True
    then obtain t1 t2 where t: "rtrim t = t1 @ CHR '']'' # t2" "CHR '']'' \<notin> set t1" by (metis split_list_first)
    have "CHR '']'' \<notin> set ((w1 @ inc @ w2 @ g @ v @ [CHR ''/'']) @ t1)" "CHR '']'' \<notin> set ((w1 @ inc @ w2 @ g @ v' @ [CHR ''/'']) @ t1)"
      using nb [OF v(1)] nb [OF v(2)] t(2) by auto
    from header_split [OF this(1), of ul sec t2] header_split [OF this(2), of ul sec t2]
    show ?thesis using header_name [OF p b(2), of v t1] header_name [OF p b(2), of v' t1] by (simp add: t(1))
  qed
  from same [OF u] T [of "'':~''"] T [of "'':'' @ quoteGitString home"] show ?thesis
    unfolding x' by (simp add: x)
qed

lemma rewritten_line:
  assumes "starts_plain l" and "section_header ul sec (TrimSpace l) = Some (sec', line)" and "\<not> no_variable line"
    and "parse_variable ul line ls = (key, w, used)" and "key \<noteq> []" and "CHR ''='' \<in> set line"
  shows "\<exists>k. section_header ul sec (TrimSpace (rewriteGitEntry l v)) = Some (sec', written k v) \<and>
     \<not> no_variable (written k v) \<and> parse_variable ul (written k v) ls' = (key, v, 0) \<and>
     (tidy l \<longrightarrow> tidy (rewriteGitEntry l v))"
proof -
  from assms(1) obtain bl c r where l: "l = bl @ c # r" "list_all is_blank bl" "visible c"
    "takeWhile is_blank l = bl" "dropWhile is_blank l = c # r" by (rule starts_plain_split)
  note trimmed = TrimSpace_starts [OF l(2,3), of r, folded l(1)]
  show ?thesis
  proof (cases "c = CHR ''[''")
    case True
    have "Index (rtrim r) '']'' \<noteq> None"
      using assms(2) trimmed True by (auto simp: section_header_def HasPrefix_def split: option.split_asm)
    then have "CHR '']'' \<in> set (rtrim r)" by (simp add: Index_None_notin)
    then have "CHR '']'' \<in> set r" using rtrim_prefix [of r] set_mono_prefix by blast
    then obtain r1 r2 where r: "r = r1 @ CHR '']'' # r2" "CHR '']'' \<notin> set r1" by (metis split_list_first)
    with assms(2) trimmed True have h: "sec' = ToLower ul (takeWhile (\<lambda>c. c \<notin> {CHR '' '', CHR 0x09, CHR ''.''}) (TrimSpace r1))"
        "line = TrimSpace (rtrim r2)"
      using header_split [OF r(2), of ul sec "rtrim r2"] by (simp_all add: rtrim_at visible_chars)
    have "CHR ''='' \<in> set r2"
      using assms(6) h(2) set_TrimSpace [of "rtrim r2"] rtrim_prefix [of r2] set_mono_prefix by blast
    then obtain k u where u: "r2 = k @ CHR ''='' # u" "CHR ''='' \<notin> set k" by (metis split_list_first)
    then have line: "line = ltrim k @ CHR ''='' # rtrim u" using h(2) by (simp add: rtrim_at visible_chars TrimSpace_equals)
    note key = parse_variable_key [OF u(2) assms(4) [unfolded line] assms(5)]
    have "CHR ''='' \<notin> set (dropWhile is_blank k)" using u(2) set_dropWhileD by metis
    then have rw: "rewriteGitEntry l v = bl @ CHR ''['' # r1 @ CHR '']'' # CHR '' '' # written k v"
      using Index_append_char [of "CHR '']''" "CHR ''['' # r1" r2] r True u l(4,5) blank_not_visible [OF visible_chars(3)]
      by (simp add: rewriteGitEntry_def HasPrefix_def written_def dropWhile_append3 TrimSpace_dropWhile Cut_char_append)
    have td: "tidy l \<longrightarrow> tidy (rewriteGitEntry l v)"
      using tidy_bracket [of "bl @ CHR ''['' # r1" r2 "CHR '' '' # written k v"] l(1) True r(1) rw by simp
    from rw have "TrimSpace (rewriteGitEntry l v) = CHR ''['' # r1 @ CHR '']'' # CHR '' '' # written k v"
      using TrimSpace_starts [OF l(2) visible_chars(1), of "r1 @ CHR '']'' # CHR '' '' # written k v"]
      by (simp add: rtrim_at visible_chars rtrim_written)
    moreover have "TrimSpace (CHR '' '' # written k v) = written k v"
      using TrimSpace_written [OF key(2), of "'' ''" v] by (simp add: is_blank_def)
    ultimately have "section_header ul sec (TrimSpace (rewriteGitEntry l v)) = Some (sec', written k v)"
      using header_split [OF r(2)] h(1) by simp
    with key parse_written [OF key(2) u(2)] written_variable assms(3) line td show ?thesis by blast
  next
    case False
    with assms(2) trimmed have h: "sec' = sec" "line = rtrim (c # r)"
      using rtrim_at [OF l(3), of "[]" r] by (auto simp: section_header_def HasPrefix_def)
    then have "CHR ''='' \<in> set (c # r)" using assms(6) rtrim_prefix [of "c # r"] set_mono_prefix by blast
    then obtain k u where u: "c # r = k @ CHR ''='' # u" "CHR ''='' \<notin> set k" by (metis split_list_first)
    then have "line = k @ CHR ''='' # rtrim u" using h(2) by (simp add: rtrim_at visible_chars)
    moreover have k: "ltrim k = k" using u(1) ltrim_at [OF l(3), of "[]"] by (cases k) auto
    ultimately have line: "line = ltrim k @ CHR ''='' # rtrim u" by simp
    note key = parse_variable_key [OF u(2) assms(4) [unfolded line] assms(5)]
    have "\<not> HasPrefix (c # r) ''[''" using False by (simp add: HasPrefix_def)
    moreover have "fst (Cut (c # r) ''='') = k" unfolding u(1) using u(2) by (simp add: Cut_char_append)
    ultimately have rw: "rewriteGitEntry l v = bl @ written k v"
      using l(4,5) by (simp add: rewriteGitEntry_def written_def)
    from rw have t: "TrimSpace (rewriteGitEntry l v) = written k v" using TrimSpace_written [OF key(2) l(2)] by simp
    have "hd (written k v) = c"
      using TrimSpace_hd [OF key(2)] k u(1) key(2) by (cases k) (auto simp: written_def hd_append)
    then obtain y where y: "written k v = c # y" by (cases "written k v") (auto simp: written_def)
    then have td: "tidy (rewriteGitEntry l v)" using tidy_other [OF l(2,3) False] rw by simp
    have "\<not> HasPrefix (written k v) ''[''" using False y by (cases "written k v") (auto simp: HasPrefix_def)
    with t h(1) have "section_header ul sec (TrimSpace (rewriteGitEntry l v)) = Some (sec', written k v)"
      by (simp add: section_header_def)
    with key parse_written [OF key(2) u(2)] written_variable assms(3) line td show ?thesis by blast
  qed
qed

section \<open>Continued values\<close>

text \<open>The line ends in a backslash, white space aside.\<close>

definition ends_backslash :: "string \<Rightarrow> bool" where
  "ends_backslash l \<longleftrightarrow> HasSuffix (rtrim l) [CHR 0x5C]"

lemma git_value_more: "snd (git_value b quoted pend raw) \<Longrightarrow> raw \<noteq> [] \<and> last raw = CHR 0x5C"
  by (induction b quoted pend raw rule: git_value.induct) (auto split: list.split_asm if_split_asm)

lemma git_value_snoc: "snd (git_value b quoted pend (raw @ [CHR 0x5C])) \<Longrightarrow> \<not> snd (git_value b quoted pend raw)"
proof (induction b quoted pend raw rule: git_value.induct)
  case (2 b quoted pend c raw)
  consider (esc) "c = CHR 0x5C" | (quote) "c = CHR 0x22"
    | (comment) "c \<noteq> CHR 0x5C" "c \<noteq> CHR 0x22" "\<not> quoted \<and> (c = CHR ''#'' \<or> c = CHR '';'')"
    | (blank) "c \<noteq> CHR 0x5C" "c \<noteq> CHR 0x22" "\<not> (\<not> quoted \<and> (c = CHR ''#'' \<or> c = CHR '';''))"
        "\<not> quoted \<and> (c = CHR '' '' \<or> c = CHR 0x09)"
    | (other) "c \<noteq> CHR 0x5C" "c \<noteq> CHR 0x22" "\<not> (\<not> quoted \<and> (c = CHR ''#'' \<or> c = CHR '';''))"
        "\<not> (\<not> quoted \<and> (c = CHR '' '' \<or> c = CHR 0x09))" by blast
  then show ?case
  proof cases
    case esc
    show ?thesis
    proof (cases raw)
      case Nil
      with esc "2.prems" show ?thesis by simp
    next
      case (Cons e r)
      with esc "2.prems" "2.IH"(1) [OF esc Cons] show ?thesis by simp
    qed
  next
    case quote
    with "2.prems" "2.IH"(2) show ?thesis by simp
  next
    case comment
    then show ?thesis by simp
  next
    case blank
    with "2.prems" "2.IH"(3) [OF blank] show ?thesis by auto
  next
    case other
    with "2.prems" "2.IH"(4) [OF other] show ?thesis by auto
  qed
qed simp

lemma git_value_butlast: "snd (git_value b quoted pend raw) \<Longrightarrow> \<not> snd (git_value b quoted pend (butlast raw))"
  by (metis append_butlast_last_id git_value_more git_value_snoc)

lemma visible_backslash: "visible CHR 0x5C"
  by (simp add: visible_def)

lemma ends_backslash_iff: "ends_backslash l \<longleftrightarrow> (\<exists>u j. l = u @ CHR 0x5C # j \<and> rtrim j = [])"
proof
  assume "ends_backslash l"
  then obtain u where u: "rtrim l = u @ [CHR 0x5C]" by (auto simp: ends_backslash_def HasSuffix_iff suffix_def)
  then obtain j where j: "l = u @ CHR 0x5C # j" using rtrim_prefix [of l] by (auto simp: prefix_def)
  with u rtrim_at [OF visible_backslash, of u j] show "\<exists>u j. l = u @ CHR 0x5C # j \<and> rtrim j = []" by auto
next
  assume "\<exists>u j. l = u @ CHR 0x5C # j \<and> rtrim j = []"
  then show "ends_backslash l" using rtrim_at [OF visible_backslash] by (auto simp: ends_backslash_def HasSuffix_iff suffix_def)
qed

lemma ends_backslash_suffix: "suffix w l \<Longrightarrow> ends_backslash w \<Longrightarrow> ends_backslash l"
  unfolding ends_backslash_iff suffix_def by (metis append.assoc)

lemma ends_backslash_trim: "ends_backslash (TrimSpace l) \<Longrightarrow> ends_backslash l"
proof -
  assume "ends_backslash (TrimSpace l)"
  then have "ends_backslash (ltrim l)" by (simp add: ends_backslash_def TrimSpace_trims)
  then show ?thesis by (rule ends_backslash_suffix [OF strip_all_suffix])
qed

lemma last_backslash: "raw \<noteq> [] \<Longrightarrow> last raw = CHR 0x5C \<Longrightarrow> ends_backslash raw"
  unfolding ends_backslash_iff by (metis append_butlast_last_id rtrim_Nil)

lemma rtrim_crs: "list_all (\<lambda>c. c = CHR 0x0D) j \<Longrightarrow> rtrim j = []"
proof (induction j rule: rev_induct)
  case (snoc c j)
  have "list_all (\<lambda>r. r \<noteq> [] \<and> hd r = CHR 0x0D \<longrightarrow> r = [CHR 0x0D]) (map rev space_runes) \<and> [CHR 0x0D] \<in> set (map rev space_runes)"
    by code_simp
  then have "strip_all (map rev space_runes) (CHR 0x0D # rev j) = strip_all (map rev space_runes) (rev j)"
    by (intro strip_all_step(2) strip_one_own) auto
  with snoc show ?case by (simp add: rtrim_def)
qed simp

lemma TrimRight_cr_backslash: "TrimRight_cr l \<noteq> [] \<Longrightarrow> last (TrimRight_cr l) = CHR 0x5C \<Longrightarrow> ends_backslash l"
proof -
  assume t: "TrimRight_cr l \<noteq> []" "last (TrimRight_cr l) = CHR 0x5C"
  have "l = TrimRight_cr l @ rev (takeWhile (\<lambda>c. c = CHR 0x0D) (rev l))"
    unfolding TrimRight_cr_def by (metis rev_append rev_rev_ident takeWhile_dropWhile_id)
  moreover have "rtrim (rev (takeWhile (\<lambda>c. c = CHR 0x0D) (rev l))) = []"
    by (rule rtrim_crs) (auto simp: list_all_iff dest: set_takeWhileD)
  moreover have "TrimRight_cr l = butlast (TrimRight_cr l) @ [CHR 0x5C]" using t by (metis append_butlast_last_id)
  ultimately show "ends_backslash l" unfolding ends_backslash_iff by (metis append.assoc append_Cons append_Nil)
qed

text \<open>No line that \<open>gitdirTilde\<close> matches follows a line that ends in a backslash.\<close>

fun tilde_free :: "string list \<Rightarrow> bool" where
  "tilde_free (a # b # ls) = ((ends_backslash a \<longrightarrow> gitdirTilde b = None) \<and> tilde_free (b # ls))"
| "tilde_free _ = True"

lemma tilde_free_tl: "tilde_free (a # ls) \<Longrightarrow> tilde_free ls"
  by (cases ls) auto

lemma tilde_free_drop: "tilde_free ls \<Longrightarrow> tilde_free (drop n ls)"
proof (induction n arbitrary: ls)
  case (Suc n)
  then show ?case by (cases ls) (auto dest: tilde_free_tl)
qed simp

lemma continued_lines:
  assumes "snd (gitConfigValue raw) \<Longrightarrow> ends_backslash a" and "tilde_free (a # ls)" and "continue_value raw ls = (v, k)"
  shows "list_all (\<lambda>l. gitdirTilde l = None) (take k ls)"
  using assms
proof (induction raw ls arbitrary: a k rule: continue_value.induct)
  case (2 raw l ls)
  show ?case
  proof (cases "snd (gitConfigValue raw)")
    case True
    with "2.prems"(3) obtain k' where k: "continue_value (butlast raw @ TrimRight_cr l) ls = (v, k')" "k = Suc k'"
      by (auto split: prod.split_asm)
    have "ends_backslash l" if more: "snd (gitConfigValue (butlast raw @ TrimRight_cr l))"
    proof -
      have "TrimRight_cr l \<noteq> []" using more git_value_butlast [OF True [unfolded gitConfigValue_def]] by (auto simp: gitConfigValue_def)
      then show ?thesis
        using git_value_more [OF more [unfolded gitConfigValue_def]] TrimRight_cr_backslash [of l] by auto
    qed
    then have "list_all (\<lambda>l. gitdirTilde l = None) (take k' ls)"
      using "2.IH" [OF True _ _ k(1), of l] tilde_free_tl [OF "2.prems"(2)] by blast
    with "2.prems"(1,2) True k(2) show ?thesis by simp
  qed (use "2.prems"(3) in auto)
qed simp

lemma variable_lines:
  assumes "section_header ul sec (TrimSpace l) = Some (sec', line)" and "tilde_free (l # ls)"
    and "parse_variable ul line ls = (key, v, k)"
  shows "list_all (\<lambda>l. gitdirTilde l = None) (take k ls)"
proof -
  obtain kk raw has where cut: "Cut line ''='' = (kk, raw, has)" by (cases "Cut line ''=''")
  show ?thesis
  proof (cases has)
    case True
    with assms(3) cut have cv: "continue_value raw ls = (v, k)" by (auto simp: parse_variable_def split: prod.split_asm)
    from cut True have "suffix raw line" using Cut_found by (force simp: suffix_def)
    moreover have "ends_backslash line \<Longrightarrow> ends_backslash (TrimSpace l)"
    proof -
      consider "line = TrimSpace l" | e where "line = TrimSpace (drop e (TrimSpace l))"
        using assms(1) by (auto simp: section_header_def Let_def split: if_split_asm option.split_asm)
      then show "ends_backslash line \<Longrightarrow> ends_backslash (TrimSpace l)"
        by cases (auto intro: ends_backslash_suffix [OF suffix_drop] dest: ends_backslash_trim)
    qed
    ultimately have "ends_backslash raw \<Longrightarrow> ends_backslash l"
      using ends_backslash_suffix ends_backslash_trim by blast
    moreover have "snd (gitConfigValue raw) \<Longrightarrow> ends_backslash raw"
      using git_value_more last_backslash by (auto simp: gitConfigValue_def)
    ultimately show ?thesis using continued_lines [OF _ assms(2) cv] by blast
  next
    case False
    with assms(3) cut show ?thesis by (simp add: parse_variable_def)
  qed
qed

section \<open>The rewriting loop\<close>

lemma rewrite_loop_Nil [simp]: "rewrite_loop home n [] es = []"
  by (simp add: rewrite_loop.simps)

lemma dropWhile_late: "(\<And>e. e \<in> set es \<Longrightarrow> n \<le> ge_first e) \<Longrightarrow> dropWhile (\<lambda>e. ge_first e < n) es = es"
  by (cases es) (auto simp: not_less)

lemma rewrite_loop_keep:
  assumes "\<And>e. e \<in> set es \<Longrightarrow> n \<le> ge_first e"
    and "\<And>e r. es = e # r \<Longrightarrow> ge_first e = n \<Longrightarrow> guest_path home (ge_section e) (ge_key e) (ge_value e) = None"
  shows "rewrite_loop home n (l # ls) es = rewrite_gitdir home l # rewrite_loop home (n + 1) ls es"
  using assms(2) by (subst rewrite_loop.simps) (auto simp: dropWhile_late [OF assms(1)] split: list.split)

lemma rewrite_loop_hit:
  assumes "guest_path home (ge_section e) (ge_key e) (ge_value e) = Some v"
    and "ge_first e = n" and "ge_last e = n + k"
  shows "rewrite_loop home n (l # ls) (e # es) =
     rewrite_gitdir home (rewriteGitEntry l v) # rewrite_loop home (n + k + 1) (drop k ls) (e # es)"
  using assms by (subst rewrite_loop.simps) simp

lemma rewrite_loop_stale: "ge_first e < n \<Longrightarrow> rewrite_loop home n ls (e # es) = rewrite_loop home n ls es"
  by (cases ls) (simp_all add: rewrite_loop.simps [of home n "_ # _"])

lemma rewrite_loop_copy:
  assumes "\<And>e. e \<in> set es \<Longrightarrow> n + length c \<le> ge_first e" and "list_all (\<lambda>l. gitdirTilde l = None) c"
  shows "rewrite_loop home n (c @ ls) es = c @ rewrite_loop home (n + length c) ls es"
  using assms
proof (induction c arbitrary: n)
  case (Cons l c)
  have "rewrite_loop home n (l # c @ ls) es = rewrite_gitdir home l # rewrite_loop home (n + 1) (c @ ls) es"
    using Cons.prems(1) by (intro rewrite_loop_keep) fastforce+
  moreover have "rewrite_gitdir home l = l" using Cons.prems(2) by (simp add: rewrite_gitdir_def)
  ultimately show ?case using Cons.IH [of "n + 1"] Cons.prems by simp
qed simp

definition guest_setting :: "string \<Rightarrow> string \<times> string \<times> string \<Rightarrow> string \<times> string \<times> string" where
  "guest_setting home s =
     (case s of (sec, key, v) \<Rightarrow> (sec, key, case guest_path home sec key v of None \<Rightarrow> v | Some g \<Rightarrow> g))"

definition path_entry_plain :: "string list \<Rightarrow> gitConfigEntry \<Rightarrow> bool" where
  "path_entry_plain ls e \<longleftrightarrow>
     (ge_section e @ ''.'' @ ge_key e \<in> set gitPathKeys \<longrightarrow> starts_plain (ls ! ge_first e))"

lemma guest_path_equals:
  assumes "parse_variable ul line ls = (key, v, k)" and "guest_path home sec key v = Some g"
  shows "CHR ''='' \<in> set line"
proof (rule ccontr)
  assume "CHR ''='' \<notin> set line"
  with assms(1) have "v = ''true''" by (simp add: parse_variable_def)
  with assms(2) obtain r where "''true'' = home @ ''/'' @ r" by (auto simp: guest_path_def CutPrefix_Some split: if_split_asm)
  then have "CHR ''/'' \<in> set ''true''" by (metis in_set_conv_decomp append_Cons append_Nil)
  then show False by simp
qed

lemma rewrite_loop_skip:
  assumes "\<And>e. e \<in> set es \<Longrightarrow> n + 1 \<le> ge_first e"
  shows "rewrite_loop home n (l # ls) es = rewrite_gitdir home l # rewrite_loop home (n + 1) ls es"
  using assms by (intro rewrite_loop_keep) fastforce+

lemma drop_Cons_split: "l # ls = drop n full \<Longrightarrow> ls = drop (n + 1) full \<and> l = full ! n \<and> l \<in> set full"
  by (metis Cons_nth_drop_Suc Suc_eq_plus1 drop_eq_Nil2 in_set_dropD linorder_not_less list.distinct(1) list.inject
      list.set_intros(1))

lemma rewrite_settings:
  assumes "CHR '']'' \<notin> set home" and "list_all tidy full"
  shows "lines = drop n full \<Longrightarrow> tilde_free lines \<Longrightarrow> list_all (path_entry_plain full) (parse_lines ul sec n lines) \<Longrightarrow>
     map setting (parse_lines ul sec m (rewrite_loop home n lines (parse_lines ul sec n lines))) =
     map (guest_setting home) (map setting (parse_lines ul sec n lines))"
proof (induction sec n lines arbitrary: m rule: parse_lines_rule [where ul = ul])
  case (none sec n)
  then show ?case by (simp add: parse_lines_eqs)
next
  case (opened sec n l ls)
  note ls = drop_Cons_split [OF opened.prems(1)]
  then have "tidy l" using assms(2) unfolding list_all_iff by blast
  then have "section_header ul sec (TrimSpace (rewrite_gitdir home l)) = None"
    using header_gitdir [OF _ assms(1)] opened.hyps(1) by auto
  then show ?case
    using opened.IH [OF conjunct1 [OF ls] tilde_free_tl [OF opened.prems(2)], of "m + 1"] opened.prems(3) opened.hyps(1)
    by (simp add: parse_lines_eqs rewrite_loop_skip [OF parse_lines_first])
next
  case (skip sec n l ls sec' line)
  note ls = drop_Cons_split [OF skip.prems(1)]
  then have "tidy l" using assms(2) unfolding list_all_iff by blast
  then have "section_header ul sec (TrimSpace (rewrite_gitdir home l)) = Some (sec', line)"
    using header_gitdir [OF _ assms(1)] skip.hyps(1) by auto
  then show ?case
    using skip.IH [OF conjunct1 [OF ls] tilde_free_tl [OF skip.prems(2)], of "m + 1"] skip.prems(3) skip.hyps
    by (simp add: parse_lines_eqs rewrite_loop_skip [OF parse_lines_first])
next
  case (variable sec n l ls sec' line key v k)
  note ls = drop_Cons_split [OF variable.prems(1)]
  have k: "k \<le> length ls" by (rule parse_variable_le [OF variable.hyps(3)])
  define es where "es = parse_lines ul sec' (n + k + 1) (drop k ls)"
  define R where "R = rewrite_loop home (n + k + 1) (drop k ls) es"
  define e where "e = \<lparr>ge_section = sec', ge_key = key, ge_value = v, ge_first = n, ge_last = n + k\<rparr>"
  have eq: "parse_lines ul sec n (l # ls) = (if key \<noteq> [] then [e] else []) @ es"
    unfolding e_def es_def by (rule parse_lines_eqs(4) [OF variable.hyps])
  have late: "n + k + 1 \<le> ge_first e" if "e \<in> set es" for e using parse_lines_first that unfolding es_def by blast
  have R: "k = length ls \<Longrightarrow> R = []" by (simp add: R_def)
  have dr: "drop k ls = drop (n + k + 1) full" using ls by (simp add: add.commute)
  have tf: "tilde_free (drop k ls)" by (rule tilde_free_drop [OF tilde_free_tl [OF variable.prems(2)]])
  have pe: "list_all (path_entry_plain full) es" using variable.prems(3) unfolding eq by simp
  have tidy: "tidy l" using ls assms(2) unfolding list_all_iff by blast
  note ih = variable.IH [OF dr tf pe [unfolded es_def], folded es_def, folded R_def]
  have e: "setting e = (sec', key, v)" by (simp add: e_def setting_def)
  show ?case
  proof (cases "key \<noteq> [] \<and> guest_path home sec' key v \<noteq> None")
    case True
    then obtain g where g: "guest_path home sec' key v = Some g" and key: "key \<noteq> []" by blast
    have "path_entry_plain full e" using variable.prems(3) key unfolding eq by simp
    moreover have "sec' @ ''.'' @ key \<in> set gitPathKeys" using g by (simp add: guest_path_def split: if_split_asm)
    ultimately have "starts_plain l" using ls by (simp add: path_entry_plain_def e_def)
    from rewritten_line [OF this variable.hyps key guest_path_equals [OF variable.hyps(3) g], of g R] tidy obtain kk where
      w: "section_header ul sec (TrimSpace (rewrite_gitdir home (rewriteGitEntry l g))) = Some (sec', written kk g)"
        "\<not> no_variable (written kk g)" "parse_variable ul (written kk g) R = (key, g, 0)"
      using header_gitdir [OF _ assms(1)] by auto
    have out: "rewrite_loop home n (l # ls) (e # es) = rewrite_gitdir home (rewriteGitEntry l g) # R"
      using rewrite_loop_hit [of home e g n k l ls es] rewrite_loop_stale [of e "n + k + 1" home "drop k ls" es] g
      by (simp add: e_def R_def)
    show ?thesis
      using ih [of "m + 1"] key g by (simp add: eq out parse_lines_eqs(4) [OF w] e guest_setting_def) (simp add: setting_def)
  next
    case False
    define pre where "pre = (if key \<noteq> [] then [e] else [])"
    have "rewrite_loop home n (l # ls) (pre @ es) = rewrite_gitdir home l # rewrite_loop home (n + 1) ls (pre @ es)"
    proof (rule rewrite_loop_keep)
      show "n \<le> ge_first x" if "x \<in> set (pre @ es)" for x
        using that late [of x] by (auto simp: pre_def e_def split: if_split_asm)
      show "guest_path home (ge_section x) (ge_key x) (ge_value x) = None" if "pre @ es = x # r" "ge_first x = n" for x r
      proof (cases "key = []")
        case True
        with that late [of x] show ?thesis by (simp add: pre_def)
      next
        case nonempty: False
        with that(1) have "x = e" by (simp add: pre_def)
        with nonempty False show ?thesis by (simp add: e_def)
      qed
    qed
    also have "rewrite_loop home (n + 1) ls (pre @ es) = rewrite_loop home (n + 1) (take k ls @ drop k ls) es"
      using rewrite_loop_stale [of e "n + 1" home ls es] by (simp add: pre_def e_def)
    also have "\<dots> = take k ls @ R"
      using rewrite_loop_copy [of es "n + 1" "take k ls" home "drop k ls"] late k
        variable_lines [OF variable.hyps(1) variable.prems(2) variable.hyps(3)] by (simp add: R_def add.commute add.left_commute)
    finally have out: "rewrite_loop home n (l # ls) (pre @ es) = rewrite_gitdir home l # take k ls @ R" .
    have h: "section_header ul sec (TrimSpace (rewrite_gitdir home l)) = Some (sec', line)"
      using header_gitdir [OF tidy assms(1)] variable.hyps(1) by simp
    have pv: "parse_variable ul line (take k ls @ R) = (key, v, k)" by (rule parse_variable_take [OF variable.hyps(3) R])
    note new = parse_lines_eqs(4) [OF h variable.hyps(2) pv, of m]
    have d: "drop k (take k ls @ R) = R" using k by simp
    have s: "map setting (if key \<noteq> [] then [\<lparr>ge_section = sec', ge_key = key, ge_value = v, ge_first = i, ge_last = j\<rparr>] else []) =
        map (guest_setting home) (map setting pre)" for i j
      using False by (auto simp: pre_def e_def setting_def guest_setting_def)
    show ?thesis
      unfolding eq pre_def [symmetric] out new d map_append s by (simp only: ih [of "m + k + 1"])
  qed
qed

lemma Split_rewritten:
  assumes "list_all (\<lambda>l. CHR 0x0A \<notin> set l) ls" and "ls \<noteq> []"
  shows "Split CHR 0x0A (Join ls [CHR 0x0A]) = ls"
  using assms by (induction ls rule: induct_list012) (auto simp: Split_single Split_append_sep)

lemma quote_no_newline: "CHR 0x0A \<notin> set (quoteGitString s)"
  by (auto simp: quoteGitString_def quote_char_def split: if_split_asm)

lemma set_rewriteGitEntry: "CHR 0x0A \<notin> set l \<Longrightarrow> CHR 0x0A \<notin> set (rewriteGitEntry l v)"
proof -
  assume l: "CHR 0x0A \<notin> set l"
  define rest where "rest = dropWhile is_blank l"
  define cut where "cut = (case Index rest '']'' of None \<Rightarrow> 0 | Some e \<Rightarrow> e + 1)"
  define rest' where "rest' = (if HasPrefix rest ''['' then dropWhile is_blank (drop cut rest) else rest)"
  define pre where "pre = (if HasPrefix rest ''['' then takeWhile is_blank l @ take cut rest @ '' '' else takeWhile is_blank l)"
  have r: "CHR 0x0A \<notin> set rest" using l by (auto simp: rest_def dest: set_dropWhileD)
  then have "CHR 0x0A \<notin> set rest'" by (auto simp: rest'_def dest: set_dropWhileD in_set_dropD)
  then have "CHR 0x0A \<notin> set (TrimSpace (fst (Cut rest' ''='')))"
    using set_TrimSpace [of "fst (Cut rest' ''='')"] by (auto simp: Cut_def split: option.split_asm dest: in_set_takeD)
  moreover have "CHR 0x0A \<notin> set pre" using l r by (auto simp: pre_def dest: set_takeWhileD in_set_takeD)
  moreover have "rewriteGitEntry l v = pre @ TrimSpace (fst (Cut rest' ''='')) @ '' = '' @ [CHR 0x22] @ quoteGitString v @ [CHR 0x22]"
    by (simp add: rewriteGitEntry_def pre_def rest'_def rest_def cut_def Let_def)
  ultimately show ?thesis using quote_no_newline [of v] by simp
qed

lemma set_rewrite_gitdir: "CHR 0x0A \<notin> set l \<Longrightarrow> CHR 0x0A \<notin> set (rewrite_gitdir home l)"
  using quote_no_newline [of home] by (auto simp: rewrite_gitdir_def split: option.split dest: in_set_takeD in_set_dropD)

lemma rewrite_loop_Cons:
  "\<exists>x n' k es'. rewrite_loop home n (l # ls) es = rewrite_gitdir home x # rewrite_loop home n' (drop k ls) es' \<and>
     (x = l \<or> (\<exists>v. x = rewriteGitEntry l v))"
proof -
  have "rewrite_loop home n (l # ls) es = rewrite_gitdir home l # rewrite_loop home (n + 1) (drop 0 ls) (dropWhile (\<lambda>e. ge_first e < n) es) \<or>
      (\<exists>v lst. rewrite_loop home n (l # ls) es =
        rewrite_gitdir home (rewriteGitEntry l v) # rewrite_loop home (lst + 1) (drop (lst - n) ls) (dropWhile (\<lambda>e. ge_first e < n) es))"
    by (simp add: rewrite_loop.simps [of home n "l # ls"] Let_def split: option.split) blast
  then show ?thesis by blast
qed

lemma rewrite_loop_lines:
  "list_all (\<lambda>l. CHR 0x0A \<notin> set l) ls \<Longrightarrow> list_all (\<lambda>l. CHR 0x0A \<notin> set l) (rewrite_loop home n ls es)"
proof (induction "length ls" arbitrary: n ls es rule: less_induct)
  case less
  show ?case
  proof (cases ls)
    case (Cons l r)
    obtain x n' k es' where x: "rewrite_loop home n (l # r) es = rewrite_gitdir home x # rewrite_loop home n' (drop k r) es'"
        "x = l \<or> (\<exists>v. x = rewriteGitEntry l v)"
      using rewrite_loop_Cons [of home n l r es] by blast
    have "list_all (\<lambda>l. CHR 0x0A \<notin> set l) (drop k r)"
      using less.prems Cons by (auto simp: list_all_iff dest: in_set_dropD)
    with less.hyps [of "drop k r" n' es'] Cons have "list_all (\<lambda>l. CHR 0x0A \<notin> set l) (rewrite_loop home n' (drop k r) es')" by simp
    moreover have "CHR 0x0A \<notin> set (rewrite_gitdir home x)"
      using x(2) less.prems Cons set_rewriteGitEntry by (intro set_rewrite_gitdir) auto
    ultimately show ?thesis using Cons x(1) by simp
  qed simp
qed

section \<open>Properties\<close>

text \<open>C30. The configuration the guest gets. Take a configuration file whose gitdir conditions are written
  with blanks and do not follow a continued line, whose path settings start on lines indented by
  blanks, and a home directory without a closing bracket. Then the file written for the guest
  parses to the same settings in the same order (section, key and decoded value), except that a
  path setting whose value lies in the host's home directory names the same place in the guest's.\<close>

theorem rewrite_keeps_settings:
  assumes "CHR '']'' \<notin> set home" and "list_all tidy (Split CHR 0x0A data)" and "tilde_free (Split CHR 0x0A data)"
    and "list_all (path_entry_plain (Split CHR 0x0A data)) (parseGitConfig ul data)"
  shows "map setting (parseGitConfig ul (rewriteGitConfig ul data home)) =
     map (guest_setting home) (map setting (parseGitConfig ul data))"
proof -
  let ?ls = "Split CHR 0x0A data"
  obtain l r where l: "?ls = l # r" by (cases ?ls) auto
  have "list_all (\<lambda>l. CHR 0x0A \<notin> set l) ?ls" by (auto simp: list_all_iff dest: Split_no_sep)
  then have "list_all (\<lambda>l. CHR 0x0A \<notin> set l) (rewrite_loop home 0 ?ls (parseGitConfig ul data))" by (rule rewrite_loop_lines)
  moreover have "rewrite_loop home 0 ?ls (parseGitConfig ul data) \<noteq> []"
    using rewrite_loop_Cons [of home 0 l r "parseGitConfig ul data"] l by auto
  ultimately have "Split CHR 0x0A (rewriteGitConfig ul data home) = rewrite_loop home 0 ?ls (parseGitConfig ul data)"
    unfolding rewriteGitConfig_def by (rule Split_rewritten)
  with rewrite_settings [OF assms(1,2), of ?ls 0 ul "[]" 0] assms(3,4) show ?thesis by (simp add: parseGitConfig_def)
qed

text \<open>A file with a condition on the host's home, a continued path value and other settings.\<close>

definition example_gitconfig :: string where
  "example_gitconfig =
     ''[user]'' @ [CHR 0x0A] @ ''  name = A # x'' @ [CHR 0x0A] @
     ''[includeIf '' @ [CHR 0x22] @ ''gitdir:~/w/'' @ [CHR 0x22] @ ''] path=/h/a'' @ [CHR 0x0A] @
     ''[core] excludesFile = /h/'' @ [CHR 0x5C, CHR 0x0A] @ ''ign  '' @ [CHR 0x0A] @ ''bare''"

lemma example_entries:
  "map setting (parseGitConfig id example_gitconfig) =
     [(''user'', ''name'', ''A''), (''includeif'', ''path'', ''/h/a''), (''core'', ''excludesfile'', ''/h/ign''),
      (''core'', ''bare'', ''true'')]"
  by code_simp

theorem rewrite_keeps_settings_witness:
  "list_all tidy (Split CHR 0x0A example_gitconfig) \<and>
   map setting (parseGitConfig id (rewriteGitConfig id example_gitconfig ''/h'')) =
     [(''user'', ''name'', ''A''), (''includeif'', ''path'', ''~/a''), (''core'', ''excludesfile'', ''~/ign''),
      (''core'', ''bare'', ''true'')]"
proof -
  have ok: "list_all tidy (Split CHR 0x0A example_gitconfig)" "tilde_free (Split CHR 0x0A example_gitconfig)"
    "list_all (path_entry_plain (Split CHR 0x0A example_gitconfig)) (parseGitConfig id example_gitconfig)" by code_simp+
  have "map (guest_setting ''/h'') (map setting (parseGitConfig id example_gitconfig)) =
     [(''user'', ''name'', ''A''), (''includeif'', ''path'', ''~/a''), (''core'', ''excludesfile'', ''~/ign''),
      (''core'', ''bare'', ''true'')]"
    unfolding example_entries by code_simp
  moreover have "CHR '']'' \<notin> set ''/h''" by simp
  ultimately show ?thesis using rewrite_keeps_settings [OF _ ok, of "''/h''"] ok(1) by simp
qed

end
