(* ===== verification/Store.thy ===== *)
theory Store
  imports GoStrings "HOL-Library.Multiset"
begin

text \<open>
  The directory of agent sessions (\<open>internal/guest/session/store.go\<close>, and \<open>Create\<close>, \<open>Open\<close> and the
  start of \<open>Serve\<close> in \<open>holder.go\<close>). The state directory is an association list from file names to
  what \<open>encoding/json\<close> reads from the file: the entry of a session, or nothing it can use (a malformed
  entry, a socket, the lock). Times are nanoseconds. \<open>kill\<close> answers \<open>kill(pid, 0)\<close>; \<open>sort.Slice\<close> is not
  stable, so it is the argument \<open>sortf\<close>.
\<close>

section \<open>Entries\<close>

record Info =
  i_ID :: string
  i_Name :: string
  i_Dir :: string
  i_Argv :: "string list"
  i_Env :: "string list"
  i_Rows :: u16
  i_Cols :: u16
  i_PID :: int
  i_Created :: int
  i_LastAttach :: int
  i_Attached :: bool

datatype dfile = Entry Info | Unparsed

type_synonym dir = "(string \<times> dfile) list"

datatype store_error =
    InvalidID string | NoSession string | BadEntry string | NotRunning string | KillFailed string
  | ReadDirFailed | NoProgram | MkdirFailed | RandFailed | WriteFailed string | StartFailed | HolderExited
  | HolderTimedOut | LockFailed

definition startTimeout :: int where "startTimeout = 10 * 10 ^ 9"

definition infoName :: "string \<Rightarrow> string" where "infoName sid = sid @ ''.json''"
definition socketName :: "string \<Rightarrow> string" where "socketName sid = sid @ ''.sock''"

definition hexdigit :: "nat \<Rightarrow> char" where
  "hexdigit n = ''0123456789abcdef'' ! n"

definition newID :: "u8 list option \<Rightarrow> (store_error, string) result" where
  "newID rnd =
     (case rnd of
        None \<Rightarrow> Inl RandFailed
      | Some bs \<Rightarrow> Inr (concat (map (\<lambda>b. [hexdigit (unat b div 16), hexdigit (unat b mod 16)]) bs)))"

definition validID :: "string \<Rightarrow> bool" where
  "validID sid \<longleftrightarrow> sid \<noteq> [] \<and> length sid \<le> 32 \<and> list_all (\<lambda>c. c \<in> set ''0123456789abcdef'') sid"

definition readInfo :: "dir \<Rightarrow> string \<Rightarrow> (store_error, Info) result" where
  "readInfo d sid =
     (if \<not> validID sid then Inl (InvalidID sid)
      else case map_of d (infoName sid) of
             None \<Rightarrow> Inl (NoSession sid)
           | Some (Entry info) \<Rightarrow> Inr info
           | Some Unparsed \<Rightarrow> Inl (BadEntry sid))"

text \<open>\<open>writeInfo\<close> writes a temporary file and renames it; either may fail and leave that file.\<close>

definition writeInfo :: "bool \<Rightarrow> Info \<Rightarrow> dir \<Rightarrow> (store_error, unit) result \<times> dir" where
  "writeInfo ok info d =
     (if ok then (Inr (), AList.update (infoName (i_ID info)) (Entry info) d)
      else (Inl (WriteFailed (i_ID info)), AList.update (infoName (i_ID info) @ ''.tmp'') Unparsed d))"

datatype signalled = Delivered | NotPermitted | NoProcess

definition alive :: "(int \<Rightarrow> signalled) \<Rightarrow> int \<Rightarrow> bool" where
  "alive kill pid \<longleftrightarrow> pid > 0 \<and> kill pid \<in> {Delivered, NotPermitted}"

section \<open>Listing\<close>

datatype verdict = Skip | Running Info | Dead string

text \<open>What the loop of \<open>List\<close> does with one directory entry.\<close>

definition judge :: "(int \<Rightarrow> signalled) \<Rightarrow> int \<Rightarrow> dir \<Rightarrow> string \<Rightarrow> verdict" where
  "judge kill now d name =
     (case CutSuffix name ''.json'' of
        None \<Rightarrow> Skip
      | Some sid \<Rightarrow>
          if \<not> validID sid then Skip
          else case readInfo d sid of
                 Inl _ \<Rightarrow> Skip
               | Inr info \<Rightarrow>
                   if i_PID info = 0 then (if now - i_Created info < startTimeout then Skip else Dead sid)
                   else if alive kill (i_PID info) then Running info else Dead sid)"

definition remove_entry :: "string \<Rightarrow> dir \<Rightarrow> dir" where
  "remove_entry sid d = AList.delete (socketName sid) (AList.delete (infoName sid) d)"

fun list_loop :: "(int \<Rightarrow> signalled) \<Rightarrow> int \<Rightarrow> string list \<Rightarrow> Info list \<Rightarrow> dir \<Rightarrow> Info list \<times> dir" where
  "list_loop kill now [] out d = (out, d)"
| "list_loop kill now (name # names) out d =
     (case judge kill now d name of
        Skip \<Rightarrow> list_loop kill now names out d
      | Running info \<Rightarrow> list_loop kill now names (out @ [info]) d
      | Dead sid \<Rightarrow> list_loop kill now names out (remove_entry sid d))"

datatype readdir = NoDir | ReadFails | Names

text \<open>\<open>os.ReadDir\<close> returns the names sorted.\<close>

definition List_sessions ::
  "(Info list \<Rightarrow> Info list) \<Rightarrow> (int \<Rightarrow> signalled) \<Rightarrow> int \<Rightarrow> readdir \<Rightarrow> dir \<Rightarrow> (store_error, Info list) result \<times> dir" where
  "List_sessions sortf kill now rd d =
     (case rd of
        NoDir \<Rightarrow> (Inr [], d)
      | ReadFails \<Rightarrow> (Inl ReadDirFailed, d)
      | Names \<Rightarrow> (case list_loop kill now (sorted_keys d) [] d of (out, d') \<Rightarrow> (Inr (sortf out), d')))"

definition Find ::
  "(Info list \<Rightarrow> Info list) \<Rightarrow> (int \<Rightarrow> signalled) \<Rightarrow> int \<Rightarrow> readdir \<Rightarrow> string \<Rightarrow> dir \<Rightarrow>
   (store_error, Info option) result \<times> dir" where
  "Find sortf kill now rd wd d =
     (case List_sessions sortf kill now rd d of
        (Inl e, d') \<Rightarrow> (Inl e, d')
      | (Inr infos, d') \<Rightarrow> (Inr (List.find (\<lambda>i. i_Dir i = wd) infos), d'))"

text \<open>\<open>Stop\<close>: the process to signal, when there is one; \<open>term\<close> is whether the signal is delivered.\<close>

definition Stop :: "(int \<Rightarrow> signalled) \<Rightarrow> (int \<Rightarrow> bool) \<Rightarrow> dir \<Rightarrow> string \<Rightarrow> (store_error, int) result" where
  "Stop kill term d sid =
     rbind (readInfo d sid) (\<lambda>info.
     if \<not> alive kill (i_PID info) then Inl (NotRunning sid)
     else if \<not> term (i_PID info) then Inl (KillFailed sid)
     else Inr (i_PID info))"

section \<open>Creating and opening\<close>

record Options =
  o_Name :: string
  o_Dir :: string
  o_Argv :: "string list"
  o_Env :: "string list"
  o_Rows :: u16
  o_Cols :: u16

text \<open>The start of \<open>Serve\<close>, up to the socket: the holder records its process.\<close>

definition serve_start :: "int \<Rightarrow> string \<Rightarrow> dir \<Rightarrow> (store_error, Info) result \<times> dir" where
  "serve_start pid sid d =
     (case readInfo d sid of
        Inl e \<Rightarrow> (Inl e, d)
      | Inr info \<Rightarrow>
          let info' = info\<lparr>i_PID := pid\<rparr>;
              d1 = snd (writeInfo True info' d)
          in (Inr info', AList.update (socketName sid) Unparsed (AList.delete (socketName sid) d1)))"

text \<open>
  What becomes of the holder process: it cannot be started; its socket accepts connections, after
  \<open>Serve\<close> has recorded it; it exits first or the deadline passes, with the directory as it left it.
\<close>

datatype holder_run = NotStarted | Accepts int | Exits "dir \<Rightarrow> dir" | Hangs "dir \<Rightarrow> dir"

definition new_info :: "string \<Rightarrow> Options \<Rightarrow> int \<Rightarrow> Info" where
  "new_info sid opts now =
     \<lparr>i_ID = sid, i_Name = o_Name opts, i_Dir = o_Dir opts, i_Argv = o_Argv opts, i_Env = o_Env opts,
      i_Rows = o_Rows opts, i_Cols = o_Cols opts, i_PID = 0, i_Created = now, i_LastAttach = 0,
      i_Attached = False\<rparr>"

definition Create ::
  "bool \<Rightarrow> u8 list option \<Rightarrow> bool \<Rightarrow> holder_run \<Rightarrow> int \<Rightarrow> Options \<Rightarrow> dir \<Rightarrow> (store_error, string) result \<times> dir" where
  "Create mkdir rnd wok run now opts d =
     (if o_Argv opts = [] then (Inl NoProgram, d)
      else if \<not> mkdir then (Inl MkdirFailed, d)
      else case newID rnd of
        Inl e \<Rightarrow> (Inl e, d)
      | Inr sid \<Rightarrow>
          (case writeInfo wok (new_info sid opts now) d of
             (Inl e, d1) \<Rightarrow> (Inl e, d1)
           | (Inr _, d1) \<Rightarrow>
               (case run of
                  NotStarted \<Rightarrow> (Inl StartFailed, AList.delete (infoName sid) d1)
                | Accepts pid \<Rightarrow> (case serve_start pid sid d1 of (Inl e, d2) \<Rightarrow> (Inl HolderExited, d2) | (Inr _, d2) \<Rightarrow> (Inr sid, d2))
                | Exits left \<Rightarrow> (Inl HolderExited, left d1)
                | Hangs left \<Rightarrow> (Inl HolderTimedOut, left d1))))"

definition Open ::
  "(Info list \<Rightarrow> Info list) \<Rightarrow> (int \<Rightarrow> signalled) \<Rightarrow> bool \<Rightarrow> bool \<Rightarrow> readdir \<Rightarrow> u8 list option \<Rightarrow> bool \<Rightarrow> holder_run \<Rightarrow>
   int \<Rightarrow> Options \<Rightarrow> dir \<Rightarrow> (store_error, string \<times> bool) result \<times> dir" where
  "Open sortf kill mkdir lock rd rnd wok run now opts d =
     (if \<not> mkdir then (Inl MkdirFailed, d)
      else if \<not> lock then (Inl LockFailed, d)
      else case Find sortf kill now rd (o_Dir opts) d of
        (Inl e, d1) \<Rightarrow> (Inl e, d1)
      | (Inr (Some found), d1) \<Rightarrow> (Inr (i_ID found, False), d1)
      | (Inr None, d1) \<Rightarrow>
          (case Create mkdir rnd wok run now opts d1 of
             (Inl e, d2) \<Rightarrow> (Inl e, d2)
           | (Inr sid, d2) \<Rightarrow> (Inr (sid, True), d2)))"

section \<open>Facts\<close>

lemma CutSuffix_Some: "CutSuffix s p = Some r \<longleftrightarrow> s = r @ p"
  by (auto simp: CutSuffix_def HasSuffix_iff suffix_def)

lemma names_differ [simp]:
  "infoName a \<noteq> socketName b" "socketName b \<noteq> infoName a" "infoName a = infoName b \<longleftrightarrow> a = b" "socketName a = socketName b \<longleftrightarrow> a = b"
  by (auto simp: infoName_def socketName_def dest: arg_cong [where f = last])

text \<open>The entry of a running session, and one that is removed.\<close>

definition runs :: "(int \<Rightarrow> signalled) \<Rightarrow> dir \<Rightarrow> string \<Rightarrow> Info \<Rightarrow> bool" where
  "runs kill d sid i \<longleftrightarrow> validID sid \<and> map_of d (infoName sid) = Some (Entry i) \<and> alive kill (i_PID i)"

definition stale :: "(int \<Rightarrow> signalled) \<Rightarrow> int \<Rightarrow> dir \<Rightarrow> string \<Rightarrow> bool" where
  "stale kill now d sid \<longleftrightarrow>
     validID sid \<and>
     (case map_of d (infoName sid) of
        Some (Entry i) \<Rightarrow> if i_PID i = 0 then now - i_Created i \<ge> startTimeout else \<not> alive kill (i_PID i)
      | _ \<Rightarrow> False)"

lemma judge_other: "(\<And>sid. name \<noteq> infoName sid) \<Longrightarrow> judge kill now d name = Skip"
  by (cases "CutSuffix name ''.json''") (auto simp: judge_def infoName_def CutSuffix_Some)

lemma judge_info:
  "judge kill now d (infoName sid) =
     (if \<not> validID sid then Skip
      else case map_of d (infoName sid) of
             Some (Entry i) \<Rightarrow>
               if i_PID i = 0 then (if now - i_Created i < startTimeout then Skip else Dead sid)
               else if alive kill (i_PID i) then Running i else Dead sid
           | _ \<Rightarrow> Skip)"
proof -
  have "CutSuffix (infoName sid) ''.json'' = Some sid" by (simp add: CutSuffix_Some infoName_def)
  then show ?thesis by (auto simp: judge_def readInfo_def split: option.split dfile.split)
qed

lemma judge_Running: "judge kill now d name = Running i \<longleftrightarrow> (\<exists>sid. name = infoName sid \<and> runs kill d sid i)"
proof (cases "\<exists>sid. name = infoName sid")
  case True
  then obtain sid where "name = infoName sid" by blast
  then show ?thesis by (auto simp: judge_info runs_def alive_def split: option.split dfile.split)
qed (use judge_other in auto)

lemma judge_Dead: "judge kill now d name = Dead sid \<longleftrightarrow> name = infoName sid \<and> stale kill now d sid"
proof (cases "\<exists>sid. name = infoName sid")
  case True
  then obtain s where "name = infoName s" by blast
  then show ?thesis by (auto simp: judge_info stale_def split: option.split dfile.split)
qed (use judge_other in auto)

lemma map_of_remove: "map_of (remove_entry sid d) n = (if n \<in> {infoName sid, socketName sid} then None else map_of d n)"
  by (simp add: remove_entry_def AList.delete_conv')

lemma judge_remove: "name \<noteq> infoName sid \<Longrightarrow> judge kill now (remove_entry sid d) name = judge kill now d name"
proof (cases "\<exists>s. name = infoName s")
  case True
  then obtain s where "name = infoName s" by blast
  then show "name \<noteq> infoName sid \<Longrightarrow> ?thesis" by (simp add: judge_info map_of_remove)
qed (simp add: judge_other)

definition running_entry :: "(int \<Rightarrow> signalled) \<Rightarrow> int \<Rightarrow> dir \<Rightarrow> string \<Rightarrow> Info option" where
  "running_entry kill now d name = (case judge kill now d name of Running i \<Rightarrow> Some i | _ \<Rightarrow> None)"

lemma list_loop_spec:
  assumes "distinct names" and "list_loop kill now names out d = (out', d')"
  shows "out' = out @ List.map_filter (running_entry kill now d) names \<and>
     (\<forall>n. map_of d' n =
        (if \<exists>sid. infoName sid \<in> set names \<and> stale kill now d sid \<and> n \<in> {infoName sid, socketName sid} then None
         else map_of d n))"
  using assms
proof (induction names arbitrary: out d)
  case (Cons name names)
  show ?case
  proof (cases "judge kill now d name")
    case Skip
    then have "stale kill now d sid \<Longrightarrow> infoName sid \<noteq> name" for sid using judge_Dead [of kill now d name sid] by auto
    with Cons.IH [of out d] Cons.prems Skip show ?thesis
      by (auto simp: running_entry_def [of _ _ _ name] List.map_filter_simps)
  next
    case (Running i)
    then have "stale kill now d sid \<Longrightarrow> infoName sid \<noteq> name" for sid using judge_Dead [of kill now d name sid] by auto
    with Cons.IH [of "out @ [i]" d] Cons.prems Running show ?thesis
      by (auto simp: running_entry_def [of _ _ _ name] List.map_filter_simps)
  next
    case (Dead sid)
    then have sid: "name = infoName sid" "stale kill now d sid" by (auto simp: judge_Dead)
    have same1: "running_entry kill now (remove_entry sid d) n = running_entry kill now d n" if "n \<in> set names" for n
    proof -
      have "n \<noteq> infoName sid" using that sid(1) Cons.prems(1) by auto
      then show ?thesis by (simp add: running_entry_def judge_remove)
    qed
    have same2: "stale kill now (remove_entry sid d) t = stale kill now d t" if "infoName t \<in> set names" for t
    proof -
      have "t \<noteq> sid" using that sid(1) Cons.prems(1) by auto
      then show ?thesis by (simp add: stale_def map_of_remove)
    qed
    from Cons.prems Dead have "list_loop kill now names out (remove_entry sid d) = (out', d')" by simp
    from Cons.IH [OF _ this] Cons.prems(1) have ih: "out' = out @ List.map_filter (running_entry kill now (remove_entry sid d)) names"
      "\<And>n. map_of d' n = (if \<exists>s. infoName s \<in> set names \<and> stale kill now (remove_entry sid d) s \<and> n \<in> {infoName s, socketName s}
          then None else map_of (remove_entry sid d) n)" by auto
    have "List.map_filter (running_entry kill now (remove_entry sid d)) names = List.map_filter (running_entry kill now d) names"
      using same1 by (simp add: List.map_filter_def cong: filter_cong map_cong)
    moreover have "(\<exists>t. infoName t \<in> set names \<and> stale kill now (remove_entry sid d) t \<and> n \<in> {infoName t, socketName t}) \<longleftrightarrow>
        (\<exists>t. infoName t \<in> set names \<and> stale kill now d t \<and> n \<in> {infoName t, socketName t})" for n
      using same2 by blast
    moreover have "running_entry kill now d name = None" using Dead by (simp add: running_entry_def)
    moreover have "(if \<exists>t. infoName t \<in> set names \<and> stale kill now d t \<and> n \<in> {infoName t, socketName t} then None
          else map_of (remove_entry sid d) n) =
        (if \<exists>t. infoName t \<in> set (name # names) \<and> stale kill now d t \<and> n \<in> {infoName t, socketName t} then None
         else map_of d n)" for n
      using sid by (auto simp: map_of_remove)
    ultimately show ?thesis using ih by (simp only: List.map_filter_simps option.case) simp
  qed
qed (simp add: List.map_filter_simps)

text \<open>What \<open>sort.Slice\<close> promises with the comparison of \<open>List\<close>.\<close>

definition sorts :: "(Info list \<Rightarrow> Info list) \<Rightarrow> bool" where
  "sorts sortf \<longleftrightarrow> (\<forall>xs. mset (sortf xs) = mset xs \<and> sorted_wrt (\<lambda>a b. i_LastAttach a \<ge> i_LastAttach b) (sortf xs))"

lemma dir_key: "map_of d n = Some f \<Longrightarrow> n \<in> set (sorted_keys d)"
  by (metis fst_conv image_eqI map_of_SomeD set_sorted_keys)

lemma runs_key: "runs kill d sid i \<Longrightarrow> infoName sid \<in> set (sorted_keys d)"
  by (rule dir_key) (auto simp: runs_def)

lemma running_entry_Some: "running_entry kill now d n = Some i \<longleftrightarrow> (\<exists>sid. n = infoName sid \<and> runs kill d sid i)"
proof -
  have "running_entry kill now d n = Some i \<longleftrightarrow> judge kill now d n = Running i"
    by (cases "judge kill now d n") (simp_all add: running_entry_def)
  then show ?thesis by (simp only: judge_Running)
qed

lemma set_map_filter: "x \<in> set (List.map_filter f xs) \<longleftrightarrow> (\<exists>y \<in> set xs. f y = Some x)"
  by (force simp: List.map_filter_def)

lemma running_entries:
  "set (List.map_filter (running_entry kill now d) (sorted_keys d)) = {i. \<exists>sid. runs kill d sid i}"
  unfolding set_eq_iff set_map_filter running_entry_Some mem_Collect_eq using runs_key by blast

lemma length_map_filter: "length (List.map_filter f xs) = length (filter (\<lambda>x. f x \<noteq> None) xs)"
  by (simp add: List.map_filter_def)

lemma count_running:
  "length (List.map_filter (running_entry kill now d) (sorted_keys d)) = card {sid. \<exists>i. runs kill d sid i}"
proof -
  have "{n. n \<in> set (sorted_keys d) \<and> running_entry kill now d n \<noteq> None} = infoName ` {sid. \<exists>i. runs kill d sid i}"
    unfolding not_None_eq running_entry_Some set_eq_iff mem_Collect_eq image_iff using runs_key by blast
  moreover have "length (filter (\<lambda>n. running_entry kill now d n \<noteq> None) (sorted_keys d)) =
      card {n. n \<in> set (sorted_keys d) \<and> running_entry kill now d n \<noteq> None}"
    using distinct_card [of "filter (\<lambda>n. running_entry kill now d n \<noteq> None) (sorted_keys d)"]
    by (simp del: set_sorted_keys)
  ultimately show ?thesis by (simp add: length_map_filter card_image inj_on_def)
qed

lemma List_spec:
  assumes "sorts sortf" and "List_sessions sortf kill now Names d = (Inr infos, d')"
  shows "mset infos = mset (List.map_filter (running_entry kill now d) (sorted_keys d))"
    and "sorted_wrt (\<lambda>a b. i_LastAttach a \<ge> i_LastAttach b) infos"
    and "map_of d' n = (if \<exists>sid. stale kill now d sid \<and> n \<in> {infoName sid, socketName sid} then None else map_of d n)"
proof -
  obtain out where l: "list_loop kill now (sorted_keys d) [] d = (out, d')" and i: "infos = sortf out"
    using assms(2) by (auto simp: List_sessions_def split: prod.split_asm)
  note sp = list_loop_spec [OF distinct_sorted_keys l]
  from sp i assms(1) show "mset infos = mset (List.map_filter (running_entry kill now d) (sorted_keys d))"
      "sorted_wrt (\<lambda>a b. i_LastAttach a \<ge> i_LastAttach b) infos"
    by (simp_all add: sorts_def)
  have key: "infoName sid \<in> set (sorted_keys d)" if "stale kill now d sid" for sid
  proof -
    from that obtain f where "map_of d (infoName sid) = Some f" by (cases "map_of d (infoName sid)") (auto simp: stale_def)
    then show ?thesis by (rule dir_key)
  qed
  have "(\<exists>sid. infoName sid \<in> set (sorted_keys d) \<and> stale kill now d sid \<and> n \<in> {infoName sid, socketName sid}) \<longleftrightarrow>
      (\<exists>sid. stale kill now d sid \<and> n \<in> {infoName sid, socketName sid})"
    using key by blast
  then show "map_of d' n = (if \<exists>sid. stale kill now d sid \<and> n \<in> {infoName sid, socketName sid} then None else map_of d n)"
    using spec [OF conjunct2 [OF sp], of n] by (simp only:)
qed

lemma hexdigit_set: "n < 16 \<Longrightarrow> hexdigit n \<in> set ''0123456789abcdef''"
  unfolding hexdigit_def by (rule nth_mem) simp

lemma newID_valid: "newID (Some bs) = Inr sid \<Longrightarrow> length bs = 3 \<Longrightarrow> validID sid"
proof -
  assume n: "newID (Some bs) = Inr sid" and l: "length bs = 3"
  have "unat b div 16 < 16" "unat b mod 16 < 16" for b :: u8
    using unsigned_less [of b, where 'a = nat] by (simp_all add: less_mult_imp_div_less)
  then have hex: "set [hexdigit (unat b div 16), hexdigit (unat b mod 16)] \<subseteq> set ''0123456789abcdef''" for b :: u8
    using hexdigit_set by (simp only: list.set insert_subset empty_subsetI simp_thms)
  have "sid = concat (map (\<lambda>b. [hexdigit (unat b div 16), hexdigit (unat b mod 16)]) bs)" using n by (simp add: newID_def)
  then have "set sid \<subseteq> set ''0123456789abcdef''" using hex by (simp only: set_concat set_map) blast
  then have "list_all (\<lambda>c. c \<in> set ''0123456789abcdef'') sid" unfolding list_all_iff by blast
  moreover have "length sid = 6" using n l by (auto simp: newID_def length_concat numeral_3_eq_3 length_Suc_conv)
  ultimately show ?thesis by (auto simp: validID_def)
qed

text \<open>The directory after a holder has been started for \<open>sid\<close>.\<close>

lemma Create_Accepts:
  assumes "Create mkdir rnd wok (Accepts pid) now opts d = (Inr sid, d')" and "validID sid"
  shows "map_of d' (infoName sid) = Some (Entry ((new_info sid opts now)\<lparr>i_PID := pid\<rparr>))"
    and "n \<noteq> infoName sid \<Longrightarrow> n \<noteq> socketName sid \<Longrightarrow> map_of d' n = map_of d n"
proof -
  from assms(1) have d': "wok" "newID rnd = Inr sid"
    "serve_start pid sid (AList.update (infoName sid) (Entry (new_info sid opts now)) d) = (Inr ((new_info sid opts now)\<lparr>i_PID := pid\<rparr>), d')"
    using assms(2)
    by (auto simp: Create_def writeInfo_def serve_start_def readInfo_def new_info_def Let_def update_conv'
        split: if_split_asm sum.split_asm prod.split_asm)
  then show "map_of d' (infoName sid) = Some (Entry ((new_info sid opts now)\<lparr>i_PID := pid\<rparr>))"
    "n \<noteq> infoName sid \<Longrightarrow> n \<noteq> socketName sid \<Longrightarrow> map_of d' n = map_of d n"
    using assms(2)
    by (auto simp: serve_start_def readInfo_def writeInfo_def new_info_def Let_def update_conv' delete_conv' split: sum.split_asm option.split_asm)
qed

section \<open>Properties\<close>

text \<open>C31. The session list. When the directory can be read, \<open>List\<close> returns the entry of every session with a
  valid ID whose process runs, once each and nothing else, the most recently attached first, and
  removes exactly the entries and sockets of sessions whose process is gone or which were never
  started within the start timeout; an entry being created, a malformed one and every other file
  of the directory stay.\<close>

theorem list_exact:
  assumes "sorts sortf" and "List_sessions sortf kill now Names d = (Inr infos, d')"
  shows "set infos = {i. \<exists>sid. runs kill d sid i} \<and> length infos = card {sid. \<exists>i. runs kill d sid i} \<and>
     sorted_wrt (\<lambda>a b. i_LastAttach a \<ge> i_LastAttach b) infos \<and>
     (\<forall>n. map_of d' n = (if \<exists>sid. stale kill now d sid \<and> n \<in> {infoName sid, socketName sid} then None else map_of d n))"
proof -
  note l = List_spec [OF assms]
  have "set infos = {i. \<exists>sid. runs kill d sid i}" using l(1) running_entries by (metis mset_eq_setD)
  moreover have "length infos = card {sid. \<exists>i. runs kill d sid i}" using l(1) count_running by (metis mset_eq_length)
  ultimately show ?thesis using l(2,3) by blast
qed

text \<open>A directory with a running session, a stale one, one being created and the lock.\<close>

definition by_attach :: "Info list \<Rightarrow> Info list" where
  "by_attach xs = rev (sort_key i_LastAttach xs)"

lemma by_attach_sorts: "sorts by_attach"
  by (simp add: sorts_def by_attach_def sorted_wrt_rev) (metis sorted_map sorted_sort_key)

definition opts_a :: Options where
  "opts_a = \<lparr>o_Name = ''opencode'', o_Dir = ''/w'', o_Argv = [''opencode''], o_Env = [], o_Rows = 24, o_Cols = 80\<rparr>"

definition some_dir :: dir where
  "some_dir =
     [(infoName ''ab'', Entry ((new_info ''ab'' opts_a 0)\<lparr>i_PID := 7, i_Dir := ''/v''\<rparr>)), (socketName ''ab'', Unparsed),
      (infoName ''cd'', Entry ((new_info ''cd'' opts_a 0)\<lparr>i_PID := 8\<rparr>)), (socketName ''cd'', Unparsed),
      (infoName ''ef'', Entry (new_info ''ef'' opts_a (10 ^ 12))), (''open.lock'', Unparsed)]"

definition some_procs :: "int \<Rightarrow> signalled" where
  "some_procs pid = (if pid = 7 then Delivered else if pid = 9 then NotPermitted else NoProcess)"

theorem list_exact_witness:
  "\<exists>infos d'. List_sessions by_attach some_procs (10 ^ 12 + 5) Names some_dir = (Inr infos, d') \<and>
     map i_ID infos = [''ab''] \<and> map fst d' = [infoName ''ab'', socketName ''ab'', infoName ''ef'', ''open.lock''] \<and>
     map_of d' (infoName ''cd'') = None"
proof -
  let ?r = "List_sessions by_attach some_procs (10 ^ 12 + 5) Names some_dir"
  have r: "fst ?r = Inr [(new_info ''ab'' opts_a 0)\<lparr>i_PID := 7, i_Dir := ''/v''\<rparr>]" "map fst (snd ?r) = [infoName ''ab'', socketName ''ab'', infoName ''ef'', ''open.lock'']"
    "stale some_procs (10 ^ 12 + 5) some_dir ''cd''" by code_simp+
  then have e: "?r = (Inr [(new_info ''ab'' opts_a 0)\<lparr>i_PID := 7, i_Dir := ''/v''\<rparr>], snd ?r)" by (metis prod.collapse)
  from list_exact [OF by_attach_sorts e] r(3) have "map_of (snd ?r) (infoName ''cd'') = None" by auto
  with e r(2) show ?thesis by (intro exI conjI) (rule e, simp_all add: new_info_def)
qed

text \<open>Opening a session twice. The calls of \<open>Open\<close> are serialized by the lock. When one call creates a
  session for a directory and its holder runs, the next call for that directory, whenever it
  comes and whatever its other options, attaches to that session and creates none; the entry of
  the session is still there afterwards.\<close>

theorem open_shares:
  assumes "sorts sortf" and "length bs = 3" and "alive kill pid" and "o_Dir opts' = o_Dir opts"
    and "Open sortf kill True True Names (Some bs) wok (Accepts pid) now opts d = (Inr (sid, True), d1)"
  shows "\<exists>d2. Open sortf kill True True Names rnd' wok' run' now' opts' d1 = (Inr (sid, False), d2) \<and>
     map_of d2 (infoName sid) = Some (Entry ((new_info sid opts now)\<lparr>i_PID := pid\<rparr>))"
proof -
  obtain infos d0 where l0: "List_sessions sortf kill now Names d = (Inr infos, d0)"
    and none: "List.find (\<lambda>i. i_Dir i = o_Dir opts) infos = None"
    and c: "Create True (Some bs) wok (Accepts pid) now opts d0 = (Inr sid, d1)"
    using assms(5) by (auto simp: Open_def Find_def split: prod.split_asm sum.split_asm option.split_asm)
  have "newID (Some bs) = Inr sid" using c by (auto simp: Create_def split: if_split_asm sum.split_asm prod.split_asm)
  then have v: "validID sid" using newID_valid assms(2) by blast
  let ?info = "(new_info sid opts now)\<lparr>i_PID := pid\<rparr>"
  note cr = Create_Accepts [OF c v]
  obtain infos' d2 where l1: "List_sessions sortf kill now' Names d1 = (Inr infos', d2)"
    by (cases "list_loop kill now' (sorted_keys d1) [] d1") (simp add: List_sessions_def)
  have mine: "runs kill d1 sid ?info" using cr(1) v assms(3) by (simp add: runs_def)
  have set1: "set infos = {i. \<exists>t. runs kill d t i}" "set infos' = {i. \<exists>t. runs kill d1 t i}"
    using List_spec(1) [OF assms(1) l0] List_spec(1) [OF assms(1) l1] running_entries by (metis mset_eq_setD)+
  have only: "i = ?info" if "i \<in> set infos'" "i_Dir i = o_Dir opts" for i
  proof -
    from that(1) set1(2) obtain t where t: "runs kill d1 t i" by blast
    show ?thesis
    proof (cases "t = sid")
      case True
      with t cr(1) show ?thesis by (simp add: runs_def)
    next
      case False
      then have "map_of d0 (infoName t) = Some (Entry i)" using t cr(2) [of "infoName t"] by (simp add: runs_def)
      then have "map_of d (infoName t) = Some (Entry i)" using List_spec(3) [OF assms(1) l0, of "infoName t"] by (simp split: if_split_asm)
      with t have "i \<in> set infos" unfolding set1(1) by (auto simp: runs_def)
      with none that(2) show ?thesis by (auto simp: find_None_iff)
    qed
  qed
  have "?info \<in> set infos'" "i_Dir ?info = o_Dir opts" using mine set1(2) by (auto simp: new_info_def)
  then obtain i where f: "List.find (\<lambda>i. i_Dir i = o_Dir opts) infos' = Some i"
    by (cases "List.find (\<lambda>i. i_Dir i = o_Dir opts) infos'") (auto simp: find_None_iff)
  then have "i = ?info" using only by (auto simp: find_Some_iff)
  moreover have "\<not> stale kill now' d1 t \<or> infoName sid \<notin> {infoName t, socketName t}" for t
    using mine by (auto simp: stale_def runs_def alive_def)
  then have "map_of d2 (infoName sid) = Some (Entry ?info)" using List_spec(3) [OF assms(1) l1, of "infoName sid"] cr(1) by auto
  ultimately show ?thesis using l1 f assms(4) by (auto simp: Open_def Find_def new_info_def)
qed

theorem open_shares_witness:
  "\<exists>d1 d2. Open by_attach some_procs True True Names (Some [0x0a, 0xbc, 0xde]) True (Accepts 9) (10 ^ 12 + 5) opts_a some_dir =
       (Inr (''0abcde'', True), d1) \<and>
     Open by_attach some_procs True True Names None False NotStarted (10 ^ 13) opts_a d1 = (Inr (''0abcde'', False), d2)"
proof -
  let ?r = "Open by_attach some_procs True True Names (Some [0x0a, 0xbc, 0xde]) True (Accepts 9) (10 ^ 12 + 5) opts_a some_dir"
  have "fst ?r = Inr (''0abcde'', True)" by code_simp
  then have e: "?r = (Inr (''0abcde'', True), snd ?r)" by (metis prod.collapse)
  have "alive some_procs 9" by code_simp
  note shared = open_shares [OF by_attach_sorts _ this refl e, of None False NotStarted "10 ^ 13"]
  have "length [0x0a, 0xbc, 0xde :: u8] = 3" by simp
  from shared [OF this] obtain d2 where
    "Open by_attach some_procs True True Names None False NotStarted (10 ^ 13) opts_a (snd ?r) = (Inr (''0abcde'', False), d2)" by blast
  with e show ?thesis by (intro exI conjI)
qed

text \<open>A new session can take the ID of one that runs. The random ID is not compared with the directory,
  so when it is the ID of a running session, creating a session succeeds and replaces the entry of
  the other one: its process keeps running, and no list, attach or stop reaches it any more.\<close>

theorem create_can_displace:
  assumes "runs kill d sid old" and "newID (Some bs) = Inr sid" and "length bs = 3" and "o_Argv opts \<noteq> []" and "pid \<noteq> i_PID old"
  shows "\<exists>d'. Create True (Some bs) True (Accepts pid) now opts d = (Inr sid, d') \<and> \<not> runs kill d' sid old"
proof -
  have v: "validID sid" by (rule newID_valid [OF assms(2,3)])
  obtain d' where c: "Create True (Some bs) True (Accepts pid) now opts d = (Inr sid, d')"
    using assms(2,4) v by (simp add: Create_def writeInfo_def serve_start_def readInfo_def new_info_def Let_def update_conv')
  with Create_Accepts(1) [OF c v] assms(5) show ?thesis by (auto simp: runs_def)
qed

theorem create_can_displace_witness:
  "runs some_procs [(infoName ''0abcde'', Entry ((new_info ''0abcde'' opts_a 0)\<lparr>i_PID := 7\<rparr>))] ''0abcde'' ((new_info ''0abcde'' opts_a 0)\<lparr>i_PID := 7\<rparr>) \<and>
   (\<exists>d'. Create True (Some [0x0a, 0xbc, 0xde]) True (Accepts 9) 5 opts_a
        [(infoName ''0abcde'', Entry ((new_info ''0abcde'' opts_a 0)\<lparr>i_PID := 7\<rparr>))] = (Inr ''0abcde'', d') \<and>
      \<not> runs some_procs d' ''0abcde'' ((new_info ''0abcde'' opts_a 0)\<lparr>i_PID := 7\<rparr>))"
proof -
  have r: "runs some_procs [(infoName ''0abcde'', Entry ((new_info ''0abcde'' opts_a 0)\<lparr>i_PID := 7\<rparr>))] ''0abcde''
      ((new_info ''0abcde'' opts_a 0)\<lparr>i_PID := 7\<rparr>)" by code_simp
  have "newID (Some [0x0a, 0xbc, 0xde]) = Inr ''0abcde''" "o_Argv opts_a \<noteq> []" by code_simp+
  from create_can_displace [OF r this(1) _ this(2), of 9 5] r show ?thesis by simp
qed

end
