(* ===== verification/FileSystem.thy ===== *)
theory FileSystem
  imports Mounts
begin

text \<open>
  The host file system the commands in \<open>internal/cmd\<close> work on, and the functions of \<open>path/filepath\<close>
  they use beside \<open>Clean\<close> and \<open>Join\<close>. Nodes are listed by the elements of their paths; a folder has
  the permission to enter and list it and the permission to create in it, a regular file the
  permission to read it. System calls resolve a path as the kernel does: element by element,
  following symbolic links at most forty times, with an error for a missing element, a file in the
  middle, a folder that may not be entered and a path of 4096 bytes or more.
\<close>

section \<open>Paths\<close>

text \<open>\<open>filepath.Dir\<close>\<close>

definition PathDir :: "string \<Rightarrow> string" where
  "PathDir p = Clean (rev (dropWhile (\<lambda>c. c \<noteq> CHR ''/'') (rev p)))"

fun strip_common :: "string list \<Rightarrow> string list \<Rightarrow> string list \<times> string list" where
  "strip_common (a # as) (b # bs) = (if a = b then strip_common as bs else (a # as, b # bs))"
| "strip_common as bs = (as, bs)"

text \<open>\<open>filepath.Rel\<close>: None is its error.\<close>

definition Rel :: "string \<Rightarrow> string \<Rightarrow> string option" where
  "Rel base targ =
     (if Clean targ = Clean base then Some ''.''
      else if IsAbs base \<noteq> IsAbs targ then None
      else case strip_common (clean_elems (IsAbs base) (Split CHR ''/'' base)) (clean_elems (IsAbs targ) (Split CHR ''/'' targ)) of
             (b, t) \<Rightarrow> if b \<noteq> [] \<and> hd b = ''..'' then None else Some (Join (map (\<lambda>_. ''..'') b @ t) ''/''))"

text \<open>\<open>filepath.IsLocal\<close>\<close>

definition IsLocal :: "string \<Rightarrow> bool" where
  "IsLocal p \<longleftrightarrow>
     p \<noteq> [] \<and> \<not> IsAbs p \<and>
     (let q = (if ''.'' \<in> set (Split CHR ''/'' p) \<or> ''..'' \<in> set (Split CHR ''/'' p) then Clean p else p)
      in q \<noteq> ''..'' \<and> \<not> HasPrefix q ''../'')"

section \<open>Nodes\<close>

datatype node = Folder (nd_enter: bool) (nd_create: bool) | Regular (nd_read: bool) (nd_data: string) | Symlink string | Device

datatype errno = ENOENT | ENOTDIR | EACCES | ELOOP | ENAMETOOLONG | EEXIST | EINVAL

record host =
  h_nodes :: "(string list \<times> node) list"
  h_cwd :: "string list"
  h_home :: "string option"

definition pathMax :: nat where "pathMax = 4096"
definition maxSymlinks :: nat where "maxSymlinks = 40"

definition node_at :: "host \<Rightarrow> string list \<Rightarrow> node option" where
  "node_at H es = (if es = [] then Some (Folder True False) else map_of (h_nodes H) es)"

definition is_folder :: "node \<Rightarrow> bool" where
  "is_folder n \<longleftrightarrow> (case n of Folder _ _ \<Rightarrow> True | _ \<Rightarrow> False)"

definition is_regular :: "node \<Rightarrow> bool" where
  "is_regular n \<longleftrightarrow> (case n of Regular _ _ \<Rightarrow> True | _ \<Rightarrow> False)"

definition is_link :: "node \<Rightarrow> bool" where
  "is_link n \<longleftrightarrow> (case n of Symlink _ \<Rightarrow> True | _ \<Rightarrow> False)"

text \<open>Resolution of the elements that are left, from a folder; a last link is followed on demand.\<close>

function namei :: "host \<Rightarrow> nat \<Rightarrow> bool \<Rightarrow> string list \<Rightarrow> string list \<Rightarrow> (errno, string list) result" where
  "namei H hops follow cur [] = Inr cur"
| "namei H hops follow cur (e # es) =
     (case node_at H cur of
        Some (Folder enter _) \<Rightarrow>
          if e = [] then namei H hops follow cur es
          else if \<not> enter then Inl EACCES
          else if e = ''.'' then namei H hops follow cur es
          else if e = ''..'' then namei H hops follow (butlast cur) es
          else (case node_at H (cur @ [e]) of
                  None \<Rightarrow> Inl ENOENT
                | Some (Symlink t) \<Rightarrow>
                    if es = [] \<and> \<not> follow then Inr (cur @ [e])
                    else (case hops of
                            0 \<Rightarrow> Inl ELOOP
                          | Suc h \<Rightarrow> namei H h follow (if IsAbs t then [] else cur) (Split CHR ''/'' t @ es))
                | Some _ \<Rightarrow> namei H hops follow (cur @ [e]) es)
      | _ \<Rightarrow> Inl ENOTDIR)"
  by pat_completeness auto
termination
  by (relation "measures [\<lambda>(_, hops, _, _, _). hops, \<lambda>(_, _, _, _, es). length es]") auto

definition resolve_path :: "host \<Rightarrow> bool \<Rightarrow> string \<Rightarrow> (errno, string list) result" where
  "resolve_path H follow p =
     (if p = [] then Inl ENOENT
      else if length p \<ge> pathMax then Inl ENAMETOOLONG
      else namei H maxSymlinks follow (if IsAbs p then [] else h_cwd H) (Split CHR ''/'' p))"

definition node_of :: "host \<Rightarrow> (errno, string list) result \<Rightarrow> (errno, node) result" where
  "node_of H r = rbind r (\<lambda>es. case node_at H es of None \<Rightarrow> Inl ENOENT | Some n \<Rightarrow> Inr n)"

definition lstat :: "host \<Rightarrow> string \<Rightarrow> (errno, node) result" where
  "lstat H p = node_of H (resolve_path H False p)"

definition stat :: "host \<Rightarrow> string \<Rightarrow> (errno, node) result" where
  "stat H p = node_of H (resolve_path H True p)"

definition readlink :: "host \<Rightarrow> string \<Rightarrow> (errno, string) result" where
  "readlink H p = rbind (lstat H p) (\<lambda>n. case n of Symlink t \<Rightarrow> Inr t | _ \<Rightarrow> Inl EINVAL)"

text \<open>\<open>os.ReadDir\<close>: the entries sorted by name.\<close>

definition child_names :: "host \<Rightarrow> string list \<Rightarrow> string list" where
  "child_names H es = sort (remdups (map last (filter (\<lambda>k. k \<noteq> [] \<and> butlast k = es) (map fst (h_nodes H)))))"

definition read_dir :: "host \<Rightarrow> string \<Rightarrow> (errno, (string \<times> node) list) result" where
  "read_dir H p =
     rbind (resolve_path H True p) (\<lambda>es.
       case node_at H es of
         Some (Folder enter _) \<Rightarrow>
           if enter then Inr (map (\<lambda>e. (e, the (node_at H (es @ [e])))) (child_names H es)) else Inl EACCES
       | _ \<Rightarrow> Inl ENOTDIR)"

text \<open>Opening a file to read it: its node, when that can be opened.\<close>

definition open_node :: "host \<Rightarrow> bool \<Rightarrow> string \<Rightarrow> (errno, node) result" where
  "open_node H follow p =
     rbind (node_of H (resolve_path H follow p)) (\<lambda>n.
       case n of
         Symlink _ \<Rightarrow> Inl ELOOP
       | Regular readable _ \<Rightarrow> if readable then Inr n else Inl EACCES
       | Folder enter _ \<Rightarrow> if enter then Inr n else Inl EACCES
       | Device \<Rightarrow> Inr n)"

section \<open>Creating\<close>

definition add_node :: "string list \<Rightarrow> node \<Rightarrow> host \<Rightarrow> host" where
  "add_node es n H = H\<lparr>h_nodes := h_nodes H @ [(es, n)]\<rparr>"

text \<open>A new node at a path: its folder is resolved, and may not hold the name yet.\<close>

definition make_node :: "string \<Rightarrow> node \<Rightarrow> host \<Rightarrow> (errno, unit) result \<times> host" where
  "make_node p n H =
     (if length p \<ge> pathMax then (Inl ENAMETOOLONG, H)
      else case resolve_path H True (PathDir p) of
        Inl e \<Rightarrow> (Inl e, H)
      | Inr d \<Rightarrow>
          (case node_at H d of
             Some (Folder enter create) \<Rightarrow>
               if \<not> enter then (Inl EACCES, H)
               else if node_at H (d @ [Base p]) \<noteq> None then (Inl EEXIST, H)
               else if \<not> create then (Inl EACCES, H)
               else (Inr (), add_node (d @ [Base p]) n H)
           | _ \<Rightarrow> (Inl ENOTDIR, H)))"

text \<open>\<open>os.MkdirAll\<close> on the path of the reversed elements \<open>e # es\<close>, from the root.\<close>

definition path_of :: "string list \<Rightarrow> string" where
  "path_of es = ''/'' @ Join es ''/''"

fun mkdir_up :: "string list \<Rightarrow> host \<Rightarrow> (errno, unit) result \<times> host" where
  "mkdir_up [] H = (Inr (), H)"
| "mkdir_up (e # es) H =
     (case stat H (path_of (rev (e # es))) of
        Inr n \<Rightarrow> (if is_folder n then Inr () else Inl ENOTDIR, H)
      | Inl _ \<Rightarrow>
          (case mkdir_up es H of
             (Inl x, H1) \<Rightarrow> (Inl x, H1)
           | (Inr _, H1) \<Rightarrow>
               (case make_node (path_of (rev (e # es))) (Folder True True) H1 of
                  (Inr _, H2) \<Rightarrow> (Inr (), H2)
                | (Inl x, H2) \<Rightarrow>
                    (case lstat H2 (path_of (rev (e # es))) of
                       Inr n \<Rightarrow> (if is_folder n then Inr () else Inl x, H2)
                     | Inl _ \<Rightarrow> (Inl x, H2)))))"

definition MkdirAll :: "string \<Rightarrow> host \<Rightarrow> (errno, unit) result \<times> host" where
  "MkdirAll p H = mkdir_up (rev (elems p)) H"

section \<open>EvalSymlinks\<close>

text \<open>
  \<open>filepath.EvalSymlinks\<close> keeps the resolved part \<open>dest\<close>, rooted or not, and looks at each element with
  \<open>Lstat\<close>; it follows at most 255 links.
\<close>

definition dest_path :: "bool \<Rightarrow> string list \<Rightarrow> string" where
  "dest_path rooted dest = (if rooted then path_of dest else if dest = [] then ''.'' else Join dest ''/'')"

function eval_links :: "host \<Rightarrow> nat \<Rightarrow> bool \<Rightarrow> string list \<Rightarrow> string list \<Rightarrow> (errno, string) result" where
  "eval_links H hops rooted dest [] = Inr (dest_path rooted dest)"
| "eval_links H hops rooted dest (e # es) =
     (if e = [] \<or> e = ''.'' then eval_links H hops rooted dest es
      else if e = ''..'' then
        eval_links H hops rooted
          (if dest = [] \<or> last dest = ''..'' then (if rooted then dest else dest @ [''..'']) else butlast dest) es
      else (case lstat H (dest_path rooted (dest @ [e])) of
              Inl x \<Rightarrow> Inl x
            | Inr (Symlink t) \<Rightarrow>
                (case hops of
                   0 \<Rightarrow> Inl ELOOP
                 | Suc h \<Rightarrow>
                     if IsAbs t then eval_links H h True [] (Split CHR ''/'' t @ es)
                     else eval_links H h rooted dest (Split CHR ''/'' t @ es))
            | Inr n \<Rightarrow>
                if \<not> is_folder n \<and> es \<noteq> [] then Inl ENOTDIR
                else eval_links H hops rooted (dest @ [e]) es))"
  by pat_completeness auto
termination
  by (relation "measures [\<lambda>(_, hops, _, _, _). hops, \<lambda>(_, _, _, _, es). length es]") auto

definition EvalSymlinks :: "host \<Rightarrow> string \<Rightarrow> (errno, string) result" where
  "EvalSymlinks H p = eval_links H 255 (IsAbs p) [] (Split CHR ''/'' p)"

end
