(* ===== verification/FileSystemProps.thy ===== *)
theory FileSystemProps
  imports FileSystem
begin

text \<open>
  Facts about paths and the file system. Rooted clean paths are lists of plain elements, on which
  \<open>Join\<close>, \<open>Dir\<close>, \<open>Rel\<close> and the containment test become list operations; resolution does not change
  for what exists when nodes are added.
\<close>

section \<open>Rooted paths as lists\<close>

definition plain :: "string list \<Rightarrow> bool" where
  "plain es \<longleftrightarrow> (\<forall>e \<in> set es. e \<notin> {[], ''.'', ''..''} \<and> CHR ''/'' \<notin> set e)"

lemma plain_Nil [simp]: "plain []" by (simp add: plain_def)

lemma plain_Cons [simp]: "plain (e # es) \<longleftrightarrow> e \<notin> {[], ''.'', ''..''} \<and> CHR ''/'' \<notin> set e \<and> plain es"
  by (auto simp: plain_def)

lemma plain_append [simp]: "plain (as @ bs) \<longleftrightarrow> plain as \<and> plain bs"
  by (auto simp: plain_def)

lemma plain_butlast: "plain es \<Longrightarrow> plain (butlast es)"
  by (auto simp: plain_def dest: in_set_butlastD)

lemma plain_prefix: "prefix ps es \<Longrightarrow> plain es \<Longrightarrow> plain ps"
  by (auto simp: prefix_def)

lemma plain_elems [simp]: "plain (elems p)"
  using clean_elems_rooted [of "Split CHR ''/'' p"] elems_plain(2) [of _ p]
  by (auto simp: plain_def elems_def)

lemma path_of_abs [simp]: "IsAbs (path_of es)"
  by (simp add: path_of_def IsAbs_Cons)

lemma path_of_not_Nil [simp]: "path_of es \<noteq> []"
  by (simp add: path_of_def)

lemma Clean_path_of: "IsAbs p \<Longrightarrow> Clean p = path_of (elems p)"
  by (simp add: Clean_elems path_of_def)

lemma Split_path_of: "plain es \<Longrightarrow> Split CHR ''/'' (path_of es) = [] # (if es = [] then [[]] else es)"
proof -
  assume p: "plain es"
  have "Split CHR ''/'' ([] @ CHR ''/'' # Join es ''/'') = [] # (if es = [] then [[]] else es)"
    unfolding Split_append_sep using p by (auto simp: Split_Join plain_def)
  then show ?thesis by (simp add: path_of_def)
qed

lemma elems_path_of [simp]: "plain es \<Longrightarrow> elems (path_of es) = es"
proof -
  assume p: "plain es"
  then have "set es \<inter> {[], ''.'', ''..''} = {}" by (auto simp: plain_def)
  then show ?thesis using p by (auto simp: elems_def clean_elems_def Split_path_of foldl_clean_plain)
qed

lemma Clean_of_path [simp]: "plain es \<Longrightarrow> Clean (path_of es) = path_of es"
  by (simp add: Clean_path_of)

lemma path_of_inj: "plain as \<Longrightarrow> plain bs \<Longrightarrow> path_of as = path_of bs \<longleftrightarrow> as = bs"
  by (metis elems_path_of)

lemma elems_join:
  "elems (a @ CHR ''/'' # b) = rev (foldl (clean_step True) (rev (elems a)) (Split CHR ''/'' b))"
  by (simp add: elems_def clean_elems_def Split_append_sep)

lemma elems_join_plain:
  assumes "plain es" and "plain xs"
  shows "elems (path_of es @ CHR ''/'' # Join xs ''/'') = es @ xs"
proof (cases "xs = []")
  case False
  then have "Split CHR ''/'' (Join xs ''/'') = xs" using assms(2) by (intro Split_Join) (auto simp: plain_def)
  moreover have "set xs \<inter> {[], ''.'', ''..''} = {}" using assms(2) by (auto simp: plain_def)
  ultimately show ?thesis using assms(1) by (simp add: elems_join foldl_clean_plain)
qed (use assms in \<open>simp add: elems_join\<close>)

lemma PathJoin_abs:
  "PathJoin [path_of es, b] = path_of (elems (path_of es @ CHR ''/'' # b))"
proof -
  have "IsAbs (path_of es @ CHR ''/'' # b)" by (simp add: path_of_def IsAbs_Cons)
  then show ?thesis by (simp add: PathJoin_def Clean_path_of)
qed

lemma PathJoin_plain:
  "plain es \<Longrightarrow> plain xs \<Longrightarrow> PathJoin [path_of es, Join xs ''/''] = path_of (es @ xs)"
  by (simp add: PathJoin_abs elems_join_plain)

lemma PathJoin_elem: "plain es \<Longrightarrow> plain [e] \<Longrightarrow> PathJoin [path_of es, e] = path_of (es @ [e])"
  using PathJoin_plain [of es "[e]"] by simp

lemma PathJoin_dot: "plain es \<Longrightarrow> PathJoin [path_of es, ''.''] = path_of es"
  by (simp add: PathJoin_abs elems_join)

lemma path_of_snoc: "path_of (es @ [e]) = (if es = [] then [] else path_of es) @ CHR ''/'' # e"
  by (induction es rule: induct_list012) (auto simp: path_of_def Join_Cons)

lemma dropWhile_to: "c \<notin> set e \<Longrightarrow> dropWhile (\<lambda>x. x \<noteq> c) (rev e @ c # q) = c # q"
  by (induction e rule: rev_induct) auto

lemma plain_no_sep: "plain y \<Longrightarrow> list_all (\<lambda>e. CHR ''/'' \<notin> set e) y"
  by (induction y) auto

lemma ups_no_sep: "list_all (\<lambda>e. CHR ''/'' \<notin> set e) (map (\<lambda>_. ''..'') x)"
  by (induction x) auto

lemma PathDir_path_of: "plain es \<Longrightarrow> PathDir (path_of es) = path_of (butlast es)"
proof (cases es rule: rev_cases)
  case Nil
  then show ?thesis by (simp add: PathDir_def path_of_def Clean_def clean_elems_def IsAbs_def HasPrefix_def)
next
  case (snoc xs e)
  assume p: "plain es"
  then have s: "CHR ''/'' \<notin> set e" using snoc by simp
  have d: "rev (dropWhile (\<lambda>c. c \<noteq> CHR ''/'') (rev (q @ CHR ''/'' # e))) = q @ ''/''" for q
    using s by (simp add: dropWhile_to)
  show ?thesis
  proof (cases "xs = []")
    case True
    then show ?thesis using snoc d [of "[]"]
      by (simp add: PathDir_def path_of_def Clean_def clean_elems_def IsAbs_def HasPrefix_def)
  next
    case False
    then have "PathDir (path_of es) = Clean (path_of xs @ ''/'')" using snoc d [of "path_of xs"] by (simp add: PathDir_def path_of_snoc)
    also have "\<dots> = path_of (elems (path_of xs @ ''/''))"
      by (rule Clean_path_of) (simp add: path_of_def IsAbs_Cons)
    also have "elems (path_of xs @ ''/'') = xs" using elems_join [of "path_of xs" "[]"] p snoc by simp
    finally show ?thesis using snoc by simp
  qed
qed

lemma strip_common_append: "strip_common (b @ as) (b @ bs) = strip_common as bs"
  by (induction b) auto

lemma strip_common_ends: "strip_common as bs = (xs, ys) \<Longrightarrow> \<exists>c. as = c @ xs \<and> bs = c @ ys \<and> (xs = [] \<or> ys = [] \<or> hd xs \<noteq> hd ys)"
proof (induction as bs rule: strip_common.induct)
  case (1 a as b bs)
  then show ?case
  proof (cases "a = b")
    case True
    with 1 obtain c where "as = c @ xs" "bs = c @ ys" "xs = [] \<or> ys = [] \<or> hd xs \<noteq> hd ys" by auto
    with True show ?thesis by (intro exI [of _ "b # c"]) simp
  qed auto
qed auto

text \<open>Containment of rooted paths.\<close>

definition rel_elems :: "string list \<Rightarrow> string" where
  "rel_elems x = (if x = [] then ''.'' else Join x ''/'')"

lemma Rel_path_of:
  assumes "plain b" and "plain p"
  shows "Rel (path_of b) (path_of p) =
     (if p = b then Some ''.'' else case strip_common b p of (x, y) \<Rightarrow> Some (Join (map (\<lambda>_. ''..'') x @ y) ''/''))"
proof -
  have e: "clean_elems True (Split CHR ''/'' (path_of b)) = b" "clean_elems True (Split CHR ''/'' (path_of p)) = p"
    using assms elems_path_of by (simp_all add: elems_def)
  obtain x y where xy: "strip_common b p = (x, y)" by (cases "strip_common b p")
  then obtain c where "b = c @ x" using strip_common_ends by blast
  then have "x = [] \<or> hd x \<noteq> ''..''" using assms(1) by (cases x) auto
  then show ?thesis using xy assms by (auto simp: Rel_def e path_of_inj)
qed

lemma IsLocal_Join:
  assumes "plain y"
  shows "IsLocal (Join (map (\<lambda>_. ''..'') x @ y) ''/'') \<longleftrightarrow> x = [] \<and> y \<noteq> []"
proof (cases "x = []")
  case True
  show ?thesis
  proof (cases y)
    case (Cons e es)
    then have e: "e \<notin> {[], ''.'', ''..''}" "CHR ''/'' \<notin> set e" "plain es" using assms by auto
    have s: "Split CHR ''/'' (Join y ''/'') = y" using Cons assms by (intro Split_Join) (auto simp: plain_def)
    have d: "''.'' \<notin> set y" "''..'' \<notin> set y" using assms by (auto simp: plain_def)
    obtain c cs where c: "e = c # cs" "c \<noteq> CHR ''/''" using e by (cases e) auto
    have j: "Join y ''/'' = e @ (if es = [] then [] else ''/'' @ Join es ''/'')" using Cons by (simp add: Join_Cons)
    have n: "Join y ''/'' \<noteq> ''..''" "\<not> HasPrefix (Join y ''/'') ''../''"
    proof -
      have "Split CHR ''/'' ''..'' = [''..'']" by simp
      then show "Join y ''/'' \<noteq> ''..''" using s Cons e(1) by (metis insertCI list.inject)
      show "\<not> HasPrefix (Join y ''/'') ''../''"
      proof
        assume "HasPrefix (Join y ''/'') ''../''"
        then obtain r where r: "Join y ''/'' = ''..'' @ CHR ''/'' # r" by (auto simp: HasPrefix_iff prefix_def)
        have "Split CHR ''/'' (''..'' @ CHR ''/'' # r) = ''..'' # Split CHR ''/'' r" unfolding Split_append_sep by simp
        then show False using s r Cons e(1) by (metis insertCI list.inject)
      qed
    qed
    have "\<not> IsAbs (Join y ''/'')" "Join y ''/'' \<noteq> []" using j c by (auto simp: IsAbs_Cons)
    then show ?thesis using n True Cons d s by (simp add: IsLocal_def)
  qed (simp add: True IsLocal_def)
next
  case False
  define z where "z = map (\<lambda>_. ''..'') x @ y"
  have z: "z \<noteq> []" "hd z = ''..''" "list_all (\<lambda>e. CHR ''/'' \<notin> set e) z"
    using False plain_no_sep [OF assms] ups_no_sep [of x] by (cases x; simp add: z_def)+
  have s: "Split CHR ''/'' (Join z ''/'') = z" using z by (intro Split_Join) (auto simp: list_all_iff)
  have "''..'' \<in> set z" using z by (metis hd_in_set)
  moreover have "\<not> IsAbs (Join z ''/'')" using z(1,2) by (cases z) (auto simp: IsAbs_Cons Join_Cons)
  moreover have "foldl (clean_step False) [] z = rev z"
  proof -
    have a: "foldl (clean_step False) (replicate n ''..'') (map (\<lambda>_. ''..'') xs) = replicate (n + length xs) ''..''" for n xs
    proof (induction xs arbitrary: n)
      case (Cons v vs)
      have "clean_step False (replicate n ''..'') ''..'' = replicate (Suc n) ''..''" by (cases n) auto
      with Cons.IH [of "Suc n"] show ?case by simp
    qed simp
    have b: "foldl (clean_step False) ts y = rev y @ ts" for ts
      using assms by (induction y arbitrary: ts) auto
    show ?thesis using a [of 0 x] b by (simp add: z_def rev_map [symmetric] map_replicate_const)
  qed
  ultimately have "Clean (Join z ''/'') = Join z ''/''" using z(1) s by (simp add: Clean_def clean_elems_def)
  moreover have "Join z ''/'' = ''..'' \<or> HasPrefix (Join z ''/'') ''../''"
    using z(1,2) by (cases z) (auto simp: Join_Cons HasPrefix_iff)
  ultimately show ?thesis using False s \<open>''..'' \<in> set z\<close> by (auto simp: IsLocal_def z_def [symmetric])
qed

lemma Rel_local:
  assumes "plain b" and "plain p"
  shows "(case Rel (path_of b) (path_of p) of None \<Rightarrow> False | Some r \<Rightarrow> IsLocal r) \<longleftrightarrow> prefix b p"
proof (cases "p = b")
  case True
  then show ?thesis using assms by (simp add: Rel_path_of IsLocal_def Clean_def IsAbs_def HasPrefix_def clean_elems_def)
next
  case False
  obtain x y where xy: "strip_common b p = (x, y)" by (cases "strip_common b p")
  then obtain c where c: "b = c @ x" "p = c @ y" "x = [] \<or> y = [] \<or> hd x \<noteq> hd y" using strip_common_ends by blast
  then have "plain y" using assms by simp
  have "x = [] \<and> y \<noteq> [] \<longleftrightarrow> prefix b p" using c False by (cases x; cases y) (auto simp: prefix_def)
  then show ?thesis using False xy assms IsLocal_Join [OF \<open>plain y\<close>, of x] by (simp add: Rel_path_of)
qed

lemma Rel_below: "plain b \<Longrightarrow> plain x \<Longrightarrow> Rel (path_of b) (path_of (b @ x)) = Some (rel_elems x)"
  using strip_common_append [of b "[]" x]
  by (cases x) (auto simp: Rel_path_of rel_elems_def strip_common_append)

lemma PathJoin_rel: "plain g \<Longrightarrow> plain x \<Longrightarrow> PathJoin [path_of g, rel_elems x] = path_of (g @ x)"
  by (simp add: rel_elems_def PathJoin_dot PathJoin_plain)


section \<open>Resolution\<close>

text \<open>A path that exists without links on the way: every folder above it may be entered.\<close>

definition way :: "host \<Rightarrow> string list \<Rightarrow> bool" where
  "way H es \<longleftrightarrow> (\<forall>k < length es. \<exists>w. node_at H (take k es) = Some (Folder True w)) \<and> node_at H es \<noteq> None"

lemma node_kinds [simp]:
  "is_folder (Folder a b)" "\<not> is_folder (Regular a d)" "\<not> is_folder (Symlink t)" "\<not> is_folder Device"
  "\<not> is_regular (Folder a b)" "is_regular (Regular a d)" "\<not> is_regular (Symlink t)" "\<not> is_regular Device"
  "\<not> is_link (Folder a b)" "\<not> is_link (Regular a d)" "is_link (Symlink t)" "\<not> is_link Device"
  by (simp_all add: is_folder_def is_regular_def is_link_def)

lemma is_link_iff: "is_link n \<longleftrightarrow> (\<exists>t. n = Symlink t)"
  by (cases n) simp_all

lemma is_folder_iff: "is_folder n \<longleftrightarrow> (\<exists>a b. n = Folder a b)"
  by (cases n) simp_all

lemma node_at_Nil [simp]: "node_at H [] = Some (Folder True False)"
  by (simp add: node_at_def)

lemma way_Nil [simp]: "way H []"
  by (simp add: way_def)

lemma way_snoc: "way H (es @ [e]) \<longleftrightarrow> way H es \<and> (\<exists>w. node_at H es = Some (Folder True w)) \<and> node_at H (es @ [e]) \<noteq> None"
  by (auto simp: way_def less_Suc_eq)

lemma way_node: "way H es \<Longrightarrow> \<exists>n. node_at H es = Some n"
  by (auto simp: way_def)

lemma way_append: "way H (as @ bs) \<Longrightarrow> way H as"
  by (induction bs rule: rev_induct) (auto simp: way_snoc simp flip: append_assoc)

lemma way_folder: "way H (as @ b # bs) \<Longrightarrow> \<exists>w. node_at H as = Some (Folder True w)"
  using way_append [of H "as @ [b]" bs] by (simp add: way_snoc)

lemma way_butlast: "way H es \<Longrightarrow> way H (butlast es) \<and> (\<exists>w. es \<noteq> [] \<longrightarrow> node_at H (butlast es) = Some (Folder True w))"
  by (cases es rule: rev_cases) (auto simp: way_snoc)

lemma namei_way:
  assumes "way H (cur @ es)" and "plain es" and "\<not> follow \<or> (\<forall>n. node_at H (cur @ es) = Some n \<longrightarrow> \<not> is_link n)"
  shows "namei H hops follow cur es = Inr (cur @ es)"
  using assms
proof (induction es arbitrary: cur)
  case (Cons e es)
  obtain w where w: "node_at H cur = Some (Folder True w)" using way_folder [OF Cons.prems(1)] by blast
  have e: "e \<noteq> []" "e \<noteq> ''.''" "e \<noteq> ''..''" using Cons.prems(2) by auto
  have ih: "namei H hops follow (cur @ [e]) es = Inr (cur @ e # es)" using Cons.IH [of "cur @ [e]"] Cons.prems by simp
  have "way H (cur @ [e])" using way_append [of H "cur @ [e]" es] Cons.prems(1) by simp
  then obtain n where n: "node_at H (cur @ [e]) = Some n" using way_node by blast
  show ?case
  proof (cases "is_link n")
    case True
    have "es = []"
    proof (rule ccontr)
      assume "es \<noteq> []"
      then obtain w' where "node_at H (cur @ [e]) = Some (Folder True w')"
        using Cons.prems(1) way_folder [of H "cur @ [e]" "hd es" "tl es"] by auto
      with n True show False by auto
    qed
    moreover from this n True Cons.prems(3) have "\<not> follow" by auto
    ultimately show ?thesis using w e n by (cases n) (auto simp: ih)
  next
    case False
    then show ?thesis using w e n ih by (cases n) auto
  qed
qed simp

lemma resolve_way:
  assumes "way H es" and "plain es" and "length (path_of es) < pathMax"
    and "\<not> follow \<or> (\<forall>n. node_at H es = Some n \<longrightarrow> \<not> is_link n)"
  shows "resolve_path H follow (path_of es) = Inr es"
proof -
  have "namei H maxSymlinks follow [] (Split CHR ''/'' (path_of es)) = Inr es"
    using namei_way [of H "[]" es] assms by (auto simp: Split_path_of)
  then show ?thesis using assms(3) by (simp add: resolve_path_def)
qed

lemma lstat_way: "way H es \<Longrightarrow> plain es \<Longrightarrow> length (path_of es) < pathMax \<Longrightarrow> node_at H es = Some n \<Longrightarrow> lstat H (path_of es) = Inr n"
  by (simp add: lstat_def node_of_def resolve_way)

lemma stat_way:
  "way H es \<Longrightarrow> plain es \<Longrightarrow> length (path_of es) < pathMax \<Longrightarrow> node_at H es = Some n \<Longrightarrow> \<not> is_link n \<Longrightarrow> stat H (path_of es) = Inr n"
  by (simp add: stat_def node_of_def resolve_way)

text \<open>One element below a folder.\<close>

lemma namei_append:
  assumes "way H (cur @ es)" and "plain es" and "node_at H (cur @ es) = Some (Folder en w)" and "es' \<noteq> []"
  shows "namei H hops follow cur (es @ es') = namei H hops follow (cur @ es) es'"
  using assms
proof (induction es arbitrary: cur)
  case (Cons e es)
  obtain w' where w: "node_at H cur = Some (Folder True w')" using way_folder [OF Cons.prems(1)] by blast
  have e: "e \<noteq> []" "e \<noteq> ''.''" "e \<noteq> ''..''" using Cons.prems(2) by auto
  have "\<exists>en' w''. node_at H (cur @ [e]) = Some (Folder en' w'')"
    using Cons.prems(1,3) way_folder [of H "cur @ [e]" "hd es" "tl es"] by (cases es) auto
  then show ?case using w e Cons.IH [of "cur @ [e]"] Cons.prems by auto
qed simp

lemma lstat_below:
  assumes "way H es" and "plain (es @ [e])" and "node_at H es = Some (Folder enter w)"
  shows "lstat H (path_of (es @ [e])) =
     (if length (path_of (es @ [e])) \<ge> pathMax then Inl ENAMETOOLONG
      else if \<not> enter then Inl EACCES
      else case node_at H (es @ [e]) of None \<Rightarrow> Inl ENOENT | Some n \<Rightarrow> Inr n)"
proof -
  have "Split CHR ''/'' (path_of (es @ [e])) = [] # es @ [e]" using assms(2) by (simp add: Split_path_of)
  then have "namei H maxSymlinks False [] (Split CHR ''/'' (path_of (es @ [e]))) = namei H maxSymlinks False es [e]"
    using namei_append [of H "[]" es enter w "[e]"] assms by simp
  then show ?thesis using assms(2,3)
    by (auto simp: lstat_def node_of_def resolve_path_def split: option.split node.split)
qed

text \<open>Successful resolution as a relation, for rule induction.\<close>

inductive resolves :: "host \<Rightarrow> bool \<Rightarrow> nat \<Rightarrow> string list \<Rightarrow> string list \<Rightarrow> string list \<Rightarrow> bool" for H follow where
  arrived: "resolves H follow hops cur [] cur"
| stay: "resolves H follow hops cur (e # es) r"
    if "node_at H cur = Some (Folder enter w)" "e = [] \<or> enter \<and> e = ''.''" "resolves H follow hops cur es r"
| up: "resolves H follow hops cur (''..'' # es) r"
    if "node_at H cur = Some (Folder True w)" "resolves H follow hops (butlast cur) es r"
| link: "resolves H follow hops cur [e] (cur @ [e])"
    if "node_at H cur = Some (Folder True w)" "e \<notin> {[], ''.'', ''..''}" "node_at H (cur @ [e]) = Some (Symlink t)" "\<not> follow"
| follow: "resolves H follow (Suc hops) cur (e # es) r"
    if "node_at H cur = Some (Folder True w)" "e \<notin> {[], ''.'', ''..''}" "node_at H (cur @ [e]) = Some (Symlink t)"
      "es \<noteq> [] \<or> follow" "resolves H follow hops (if IsAbs t then [] else cur) (Split CHR ''/'' t @ es) r"
| down: "resolves H follow hops cur (e # es) r"
    if "node_at H cur = Some (Folder True w)" "e \<notin> {[], ''.'', ''..''}" "node_at H (cur @ [e]) = Some n" "\<not> is_link n"
      "resolves H follow hops (cur @ [e]) es r"

lemma namei_resolves: "namei H hops follow cur es = Inr r \<Longrightarrow> resolves H follow hops cur es r"
proof (induction H hops follow cur es rule: namei.induct)
  case (1 H hops follow cur)
  then show ?case by (simp add: arrived)
next
  case (2 H hops follow cur e es)
  obtain enter w where cur: "node_at H cur = Some (Folder enter w)"
    using 2 by (auto split: option.split_asm node.split_asm)
  show ?case
  proof (cases "e = [] \<or> enter \<and> e = ''.''")
    case True
    then have "namei H hops follow cur es = Inr r" using "2.prems" cur by auto
    then have "resolves H follow hops cur es r" using "2.IH"(1,2) cur True by (cases "e = []") auto
    then show ?thesis by (rule stay [OF cur True])
  next
    case False
    then have e: "e \<noteq> []" "enter" "e \<noteq> ''.''" using "2.prems" cur by (auto split: if_split_asm)
    then have cur: "node_at H cur = Some (Folder True w)" using cur by simp
    show ?thesis
    proof (cases "e = ''..''")
      case True
      then have "resolves H follow hops (butlast cur) es r" using "2.IH"(3) "2.prems" cur e by auto
      then show ?thesis unfolding True by (rule up [OF cur])
    next
      case False
      then have x: "e \<notin> {[], ''.'', ''..''}" using e by simp
      obtain n where n: "node_at H (cur @ [e]) = Some n"
        using "2.prems" cur e False by (cases "node_at H (cur @ [e])") simp_all
      show ?thesis
      proof (cases "\<exists>t. n = Symlink t")
        case True
        then obtain t where t: "n = Symlink t" by blast
        show ?thesis
        proof (cases "es = [] \<and> \<not> follow")
          case True
          with "2.prems" cur e False n t have "r = cur @ [e]" by simp
          with True t n show ?thesis by (auto intro: link [OF cur x])
        next
          case nf: False
          then obtain h where h: "hops = Suc h" using "2.prems" cur e False n t by (cases hops) auto
          have "namei H h follow (if IsAbs t then [] else cur) (Split CHR ''/'' t @ es) = Inr r"
            using "2.prems" cur e False n t nf h by (auto split: if_split_asm)
          then have "resolves H follow h (if IsAbs t then [] else cur) (Split CHR ''/'' t @ es) r"
            using "2.IH"(6) [OF cur refl _ _ _ _ n t nf h] e False by auto
          then show ?thesis unfolding h using nf n t by (intro follow [OF cur x]) auto
        qed
      next
        case nl: False
        then have "namei H hops follow (cur @ [e]) es = Inr r" using "2.prems" cur e False n by (cases n) auto
        moreover from this have "resolves H follow hops (cur @ [e]) es r"
          using "2.IH"(4) [OF cur refl _ _ _ _ n] "2.IH"(5) [OF cur refl _ _ _ _ n] "2.IH"(7) [OF cur refl _ _ _ _ n] nl e False by (cases n) auto
        ultimately show ?thesis using nl by (intro down [OF cur x n]) (auto simp: is_link_iff)
      qed
    qed
  qed
qed

lemma resolves_namei: "resolves H follow hops cur es r \<Longrightarrow> namei H hops follow cur es = Inr r"
  by (induction rule: resolves.induct) (auto split: node.split)

lemma namei_iff: "namei H hops follow cur es = Inr r \<longleftrightarrow> resolves H follow hops cur es r"
  using namei_resolves resolves_namei by blast

text \<open>Resolution ends on an existing path without links on the way.\<close>

lemma resolves_way: "resolves H follow hops cur es r \<Longrightarrow> way H cur \<Longrightarrow> way H r"
  by (induction rule: resolves.induct) (auto simp: way_snoc dest: way_butlast)

lemma namei_result: "namei H hops follow cur es = Inr r \<Longrightarrow> way H cur \<Longrightarrow> way H r"
  by (auto simp: namei_iff intro: resolves_way)

lemma resolve_result: "resolve_path H follow p = Inr r \<Longrightarrow> way H (h_cwd H) \<Longrightarrow> way H r"
  by (auto simp: resolve_path_def intro: namei_result split: if_split_asm)

section \<open>Growth\<close>

text \<open>The file system gains empty folders and files, and keeps what is there.\<close>

definition empty_node :: "node \<Rightarrow> bool" where
  "empty_node n \<longleftrightarrow> n \<in> {Folder True True, Regular True []}"

definition extends :: "host \<Rightarrow> host \<Rightarrow> bool" where
  "extends H H' \<longleftrightarrow>
     h_cwd H' = h_cwd H \<and> h_home H' = h_home H \<and>
     (\<forall>es n. node_at H es = Some n \<longrightarrow> node_at H' es = Some n) \<and>
     (\<forall>es n. node_at H es = None \<longrightarrow> node_at H' es = Some n \<longrightarrow> empty_node n)"

lemma extends_refl [simp]: "extends H H"
  by (simp add: extends_def)

lemma extends_trans: "extends H H' \<Longrightarrow> extends H' H'' \<Longrightarrow> extends H H''"
  unfolding extends_def by (metis not_Some_eq)

lemma extends_node: "extends H H' \<Longrightarrow> node_at H es = Some n \<Longrightarrow> node_at H' es = Some n"
  by (simp add: extends_def)

lemma extends_way: "extends H H' \<Longrightarrow> way H es \<Longrightarrow> way H' es"
  unfolding extends_def way_def by (metis not_Some_eq)

lemma resolves_mono:
  assumes "resolves H follow hops cur es r" and keep: "\<And>k n. node_at H k = Some n \<Longrightarrow> node_at H' k = Some n"
  shows "resolves H' follow hops cur es r"
  using assms(1)
proof (induction rule: resolves.induct)
  case (stay cur enter w e hops es r)
  then show ?case by (intro resolves.stay [of _ _ enter w]) (auto dest: keep)
next
  case (up cur w hops es r)
  then show ?case by (intro resolves.up [of _ _ w]) (auto dest: keep)
next
  case (link cur w e t)
  then show ?case by (intro resolves.link [of _ _ w _ t]) (auto dest: keep)
next
  case (follow cur w e t es hops r)
  then show ?case by (intro resolves.follow [of _ _ w _ t]) (auto dest: keep)
next
  case (down cur w e n hops es r)
  then show ?case by (intro resolves.down [of _ _ w _ n]) (auto dest: keep)
qed (rule resolves.arrived)

lemma resolves_extends: "resolves H follow hops cur es r \<Longrightarrow> extends H H' \<Longrightarrow> resolves H' follow hops cur es r"
  by (erule resolves_mono) (rule extends_node)

lemma namei_extends: "namei H hops follow cur es = Inr r \<Longrightarrow> extends H H' \<Longrightarrow> namei H' hops follow cur es = Inr r"
  by (auto simp: namei_iff intro: resolves_extends)

lemma extends_cwd: "extends H H' \<Longrightarrow> h_cwd H' = h_cwd H" "extends H H' \<Longrightarrow> h_home H' = h_home H"
  by (simp_all add: extends_def)

lemma resolve_extends: "resolve_path H follow p = Inr r \<Longrightarrow> extends H H' \<Longrightarrow> resolve_path H' follow p = Inr r"
  unfolding resolve_path_def by (auto simp: extends_cwd split: if_split_asm elim: namei_extends)

lemma node_of_extends:
  assumes "node_of H (resolve_path H follow p) = Inr n" and "extends H H'"
  shows "node_of H' (resolve_path H' follow p) = Inr n"
proof -
  obtain es where es: "resolve_path H follow p = Inr es" "node_at H es = Some n"
    using assms(1) by (auto simp: node_of_def rbind_def split: sum.split_asm option.split_asm)
  then show ?thesis using resolve_extends [OF es(1) assms(2)] extends_node [OF assms(2) es(2)] by (simp add: node_of_def)
qed

lemma lstat_extends: "lstat H p = Inr n \<Longrightarrow> extends H H' \<Longrightarrow> lstat H' p = Inr n"
  unfolding lstat_def by (rule node_of_extends)

lemma stat_extends: "stat H p = Inr n \<Longrightarrow> extends H H' \<Longrightarrow> stat H' p = Inr n"
  unfolding stat_def by (rule node_of_extends)

section \<open>Creating\<close>

lemma node_at_add: "node_at (add_node es n H) k = (case node_at H k of Some m \<Rightarrow> Some m | None \<Rightarrow> if k = es then Some n else None)"
  by (simp add: node_at_def add_node_def map_add_def split: option.split)

lemma extends_add: "empty_node n \<Longrightarrow> extends H (add_node es n H)"
  unfolding extends_def by (simp add: node_at_add) (simp add: add_node_def)

lemma make_node_extends: "empty_node n \<Longrightarrow> extends H (snd (make_node p n H))"
  by (auto simp: make_node_def extends_add split: sum.split option.split node.split)

lemma empty_nodes [simp]: "empty_node (Folder True True)" "empty_node (Regular True [])"
  by (simp_all add: empty_node_def)

lemma mkdir_up_extends: "extends H (snd (mkdir_up es H))"
proof (induction es arbitrary: H)
  case (Cons e es)
  let ?p = "path_of (rev (e # es))"
  have "extends H1 (snd (make_node ?p (Folder True True) H1))" for H1 by (simp add: make_node_extends)
  then have "extends H1 H2" if "make_node ?p (Folder True True) H1 = (x, H2)" for H1 H2 x using that by (metis snd_conv)
  moreover have "extends H H1" if "mkdir_up es H = (x, H1)" for H1 x using Cons.IH [of H] that by simp
  ultimately show ?case
    by (auto simp del: path_of_def split: sum.split prod.split intro: extends_trans)
qed simp

lemma MkdirAll_extends: "extends H (snd (MkdirAll p H))"
  by (simp add: MkdirAll_def mkdir_up_extends)

text \<open>Elements after a resolved folder.\<close>

lemma resolves_append:
  "resolves H True hops cur es d \<Longrightarrow> (\<And>h. resolves H follow h d es' r) \<Longrightarrow> es' \<noteq> [] \<Longrightarrow> resolves H follow hops cur (es @ es') r"
proof (induction rule: resolves.induct)
  case (stay cur enter w e hops es r')
  then show ?case by (auto intro: resolves.stay)
next
  case (up cur w hops es r')
  then show ?case by (auto intro: resolves.up)
next
  case (follow cur w e t es hops r')
  then show ?case by (auto intro!: resolves.follow [of H cur w e t])
next
  case (down cur w e n hops es r')
  then show ?case by (auto intro: resolves.down)
qed simp_all

lemma Base_path_of: "plain (es @ [e]) \<Longrightarrow> Base (path_of (es @ [e])) = e"
proof -
  assume p: "plain (es @ [e])"
  then obtain c cs where c: "rev e = c # cs" "c \<noteq> CHR ''/''" by (cases "rev e") (auto simp: plain_def dest: arg_cong [where f = set])
  have "rev (path_of (es @ [e])) = c # cs @ CHR ''/'' # rev (if es = [] then [] else path_of es)"
    using c(1) by (simp add: path_of_snoc)
  then have "rev (dropWhile (\<lambda>c. c = CHR ''/'') (rev (path_of (es @ [e])))) = path_of (es @ [e])"
    using c(2) by (simp add: rev_swap)
  moreover have "last (Split CHR ''/'' (path_of (es @ [e]))) = e" using p by (simp add: Split_path_of)
  ultimately show ?thesis by (simp add: Base_def)
qed

lemma make_node_exists:
  assumes "make_node (path_of (es @ [e])) n H = (Inr (), H')" and "plain (es @ [e])"
  shows "lstat H' (path_of (es @ [e])) = Inr n \<or> is_link n"
proof -
  have l: "length (path_of (es @ [e])) < pathMax" using assms(1) by (auto simp: make_node_def split: if_split_asm)
  obtain d w where d: "resolve_path H True (path_of es) = Inr d" "node_at H d = Some (Folder True w)" "node_at H (d @ [e]) = None"
      "H' = add_node (d @ [e]) n H"
    using assms by (auto simp: make_node_def PathDir_path_of Base_path_of split: sum.split_asm option.split_asm node.split_asm if_split_asm)
  show ?thesis
  proof (cases "is_link n")
    case False
    have d': "node_at H' d = Some (Folder True w)" "node_at H' (d @ [e]) = Some n" using d by (simp_all add: node_at_add)
    have "namei H maxSymlinks True [] es = Inr d"
      using d(1) assms(2) by (cases es) (auto simp: resolve_path_def Split_path_of split: if_split_asm)
    then have "resolves H True maxSymlinks [] es d" by (simp only: namei_iff)
    then have r: "resolves H' True maxSymlinks [] es d"
    proof (rule resolves_mono)
      show "node_at H k = Some m \<Longrightarrow> node_at H' k = Some m" for k m using d(4) by (simp add: node_at_add)
    qed
    have "resolves H' False h d [e] (d @ [e])" for h
      using d' False assms(2) by (auto intro!: resolves.down [of _ _ w _ n] resolves.arrived)
    from resolves_append [OF r this] have "namei H' maxSymlinks False [] (es @ [e]) = Inr (d @ [e])"
      by (simp add: namei_iff)
    then have "namei H' maxSymlinks False [] (Split CHR ''/'' (path_of (es @ [e]))) = Inr (d @ [e])"
      using assms(2) by (simp add: Split_path_of)
    then show ?thesis using d'(2) l by (simp add: lstat_def node_of_def resolve_path_def)
  qed simp
qed

section \<open>EvalSymlinks\<close>

lemma length_path_of_append: "length (path_of as) \<le> length (path_of (as @ bs))"
proof (induction bs rule: rev_induct)
  case (snoc b bs)
  have "length (path_of (as @ bs)) \<le> length (path_of ((as @ bs) @ [b]))"
    unfolding path_of_snoc by (cases "as @ bs = []") (auto simp: path_of_def)
  with snoc show ?case by simp
qed simp

lemma eval_links_way:
  assumes "way H (dest @ es)" and "plain (dest @ es)" and "node_at H (dest @ es) = Some n" and "\<not> is_link n"
    and "length (path_of (dest @ es)) < pathMax"
  shows "eval_links H hops True dest es = Inr (path_of (dest @ es))"
  using assms
proof (induction es arbitrary: dest)
  case Nil
  then show ?case by (simp add: dest_path_def)
next
  case (Cons e es)
  have w: "way H (dest @ [e])" using way_append [of H "dest @ [e]" es] Cons.prems(1) by simp
  obtain m where m: "node_at H (dest @ [e]) = Some m" using way_node [OF w] by blast
  have l: "length (path_of (dest @ [e])) < pathMax" using length_path_of_append [of "dest @ [e]" es] Cons.prems(5) by simp
  have "lstat H (path_of (dest @ [e])) = Inr m" using lstat_way [OF w _ l m] Cons.prems(2) by simp
  moreover have "\<not> is_link m \<and> (is_folder m \<or> es = [])"
  proof (cases es)
    case Nil
    with m Cons.prems(3,4) show ?thesis by simp
  next
    case (Cons f fs)
    then show ?thesis using way_folder [of H "dest @ [e]" f fs] Cons.prems(1) m by auto
  qed
  moreover have "eval_links H hops True (dest @ [e]) es = Inr (path_of (dest @ e # es))"
    using Cons.IH [of "dest @ [e]"] Cons.prems by simp
  ultimately show ?case using Cons.prems(2) by (cases m) (auto simp: dest_path_def)
qed

lemma EvalSymlinks_way:
  assumes "way H es" and "plain es" and "node_at H es = Some n" and "\<not> is_link n" and "length (path_of es) < pathMax"
  shows "EvalSymlinks H (path_of es) = Inr (path_of es)"
  using eval_links_way [of H "[]" es n] assms by (simp add: EvalSymlinks_def Split_path_of dest_path_def)

text \<open>What \<open>EvalSymlinks\<close> returns for a rooted path has no links left.\<close>

definition real_path :: "host \<Rightarrow> string list \<Rightarrow> bool" where
  "real_path H es \<longleftrightarrow> plain es \<and> way H es \<and> (\<forall>n. node_at H es = Some n \<longrightarrow> \<not> is_link n)"

lemma real_path_Nil [simp]: "real_path H []"
  by (simp add: real_path_def)

lemma eval_links_real:
  assumes "eval_links H hops rooted dest es = Inr q" and "rooted" and "real_path H dest"
    and "es = [] \<or> (\<exists>a b. node_at H dest = Some (Folder a b))" and "list_all (\<lambda>e. CHR ''/'' \<notin> set e) es"
  shows "\<exists>r. q = path_of r \<and> real_path H r"
  using assms
proof (induction H hops rooted dest es rule: eval_links.induct)
  case (1 H hops rooted dest)
  then show ?case by (auto simp: dest_path_def)
next
  case (2 H hops rooted dest e es)
  note rooted = \<open>rooted\<close>
  from 2 have dest: "\<exists>a b. node_at H dest = Some (Folder a b)" and sl: "CHR ''/'' \<notin> set e" "list_all (\<lambda>e. CHR ''/'' \<notin> set e) es" by auto
  consider "e = [] \<or> e = ''.''" | "e = ''..''" | "e \<notin> {[], ''.'', ''..''}" by blast
  then show ?case
  proof cases
    case 1
    then have "eval_links H hops rooted dest es = Inr q" using "2.prems"(1) by auto
    from "2.IH"(1) [OF 1 this rooted "2.prems"(3) _ sl(2)] dest show ?thesis by blast
  next
    case 2
    have p: "plain dest" "way H dest" using "2.prems"(3) by (simp_all add: real_path_def)
    then have nd: "dest = [] \<or> last dest \<noteq> ''..''" by (cases dest rule: rev_cases) auto
    let ?d = "if dest = [] \<or> last dest = ''..'' then (if rooted then dest else dest @ [''..'']) else butlast dest"
    have d: "?d = butlast dest" using nd rooted by auto
    obtain w where w: "way H (butlast dest)" "node_at H (butlast dest) = Some (Folder True w) \<or> dest = []"
      using way_butlast [OF p(2)] by blast
    then have f: "\<exists>a b. node_at H (butlast dest) = Some (Folder a b)" using dest by auto
    then have r: "real_path H (butlast dest)" using w(1) p(1) by (auto simp: real_path_def plain_butlast)
    have "eval_links H hops rooted ?d es = Inr q" using "2.prems"(1) 2 by simp
    from "2.IH"(2) [OF _ 2 this rooted _ _ sl(2)] r f show ?thesis unfolding d using 2 by simp
  next
    case 3
    have pe: "plain (dest @ [e])" using "2.prems"(3) 3 sl(1) by (simp add: real_path_def)
    obtain a b where ab: "node_at H dest = Some (Folder a b)" using dest by blast
    from "2.prems"(1) 3 obtain n where n: "lstat H (dest_path rooted (dest @ [e])) = Inr n"
      by (cases "lstat H (dest_path rooted (dest @ [e]))") auto
    then have ls: "lstat H (path_of (dest @ [e])) = Inr n" using rooted by (simp add: dest_path_def)
    then have a: "a" and at: "node_at H (dest @ [e]) = Some n"
      using lstat_below [OF _ pe ab] "2.prems"(3) by (auto simp: real_path_def split: if_split_asm option.split_asm)
    show ?thesis
    proof (cases "\<exists>t. n = Symlink t")
      case True
      then obtain t where t: "n = Symlink t" by blast
      then obtain h where h: "hops = Suc h" using "2.prems"(1) 3 n by (cases hops) auto
      have sl': "list_all (\<lambda>e. CHR ''/'' \<notin> set e) (Split CHR ''/'' t @ es)"
        using sl(2) Split_no_sep by (auto simp: list_all_iff)
      show ?thesis
      proof (cases "IsAbs t")
        case True
        then have "eval_links H h True [] (Split CHR ''/'' t @ es) = Inr q" using "2.prems"(1) 3 n t h by simp
        from "2.IH"(5) [OF _ _ n t h True this TrueI real_path_Nil _ sl'] show ?thesis using 3 by auto
      next
        case False
        then have "eval_links H h rooted dest (Split CHR ''/'' t @ es) = Inr q" using "2.prems"(1) 3 n t h by simp
        from "2.IH"(6) [OF _ _ n t h False this rooted "2.prems"(3) _ sl'] show ?thesis using 3 dest by simp
      qed
    next
      case False
      then have nl: "\<not> is_link n" by (simp add: is_link_iff)
      have rp: "real_path H (dest @ [e])" using pe at nl a ab "2.prems"(3) by (auto simp: real_path_def way_snoc)
      have "\<not> (\<not> is_folder n \<and> es \<noteq> [])" using "2.prems"(1) 3 n False by (cases n) (auto split: if_split_asm)
      then have f: "es = [] \<or> (\<exists>a b. node_at H (dest @ [e]) = Some (Folder a b))" using at by (auto simp: is_folder_iff)
      have "eval_links H hops rooted (dest @ [e]) es = Inr q" using "2.prems"(1) 3 n False f at by (cases n) (auto split: if_split_asm)
      then show ?thesis using 3 n f False rp sl(2) rooted "2.IH"(3,4,7) at by (cases n) auto
    qed
  qed
qed

lemma EvalSymlinks_real: "EvalSymlinks H p = Inr q \<Longrightarrow> IsAbs p \<Longrightarrow> \<exists>r. q = path_of r \<and> real_path H r"
  by (rule eval_links_real [of H 255 "IsAbs p" "[]" "Split CHR ''/'' p"])
    (auto simp: EvalSymlinks_def list_all_iff dest: Split_no_sep)

end
