(* ===== verification/Effects.thy ===== *)
theory Effects
  imports Prelude
begin

text \<open>
  Operations that change a state and may fail. The host side of jailoc walks directories, collects
  what it finds and creates files, and any step can end the whole operation with an error, with the
  changes made so far left behind. An operation is a function from the state to a result and the
  new state. The locale \<open>growth\<close> is the interface for invariants of such operations: a preorder
  \<open>R\<close> every successful operation moves along and a relation \<open>E\<close> for the failing ones.
\<close>

type_synonym ('s, 'e, 'a) eff = "'s \<Rightarrow> ('e, 'a) result \<times> 's"

definition ret :: "'a \<Rightarrow> ('s, 'e, 'a) eff" where "ret a s = (Inr a, s)"

definition fail :: "'e \<Rightarrow> ('s, 'e, 'a) eff" where "fail e s = (Inl e, s)"

definition gets :: "('s \<Rightarrow> 'a) \<Rightarrow> ('s, 'e, 'a) eff" where "gets f s = (Inr (f s), s)"

definition modify :: "('s \<Rightarrow> 's) \<Rightarrow> ('s, 'e, unit) eff" where "modify f s = (Inr (), f s)"

definition lift :: "('e, 'a) result \<Rightarrow> ('s, 'e, 'a) eff" where "lift r s = (r, s)"

definition bindE :: "('s, 'e, 'a) eff \<Rightarrow> ('a \<Rightarrow> ('s, 'e, 'b) eff) \<Rightarrow> ('s, 'e, 'b) eff" where
  "bindE m f s = (case m s of (Inl e, s') \<Rightarrow> (Inl e, s') | (Inr a, s') \<Rightarrow> f a s')"

primrec each_do :: "('a \<Rightarrow> ('s, 'e, unit) eff) \<Rightarrow> 'a list \<Rightarrow> ('s, 'e, unit) eff" where
  "each_do f [] = ret ()"
| "each_do f (x # xs) = bindE (f x) (\<lambda>_. each_do f xs)"

lemma ret_Inr [simp]: "ret a s = (r, s') \<longleftrightarrow> r = Inr a \<and> s' = s"
  by (auto simp: ret_def)

lemma fail_Inr [simp]: "fail e s = (r, s') \<longleftrightarrow> r = Inl e \<and> s' = s"
  by (auto simp: fail_def)

lemma gets_Inr [simp]: "gets f s = (r, s') \<longleftrightarrow> r = Inr (f s) \<and> s' = s"
  by (auto simp: gets_def)

lemma modify_Inr [simp]: "modify f s = (r, s') \<longleftrightarrow> r = Inr () \<and> s' = f s"
  by (auto simp: modify_def)

lemma lift_Inr [simp]: "lift r s = (q, s') \<longleftrightarrow> q = r \<and> s' = s"
  by (auto simp: lift_def)

lemma bindE_Inr:
  "bindE m f s = (Inr b, s'') \<longleftrightarrow> (\<exists>a s'. m s = (Inr a, s') \<and> f a s' = (Inr b, s''))"
  by (auto simp: bindE_def split: prod.split sum.split)

lemma bindE_Inl:
  "bindE m f s = (Inl e, s'') \<longleftrightarrow> m s = (Inl e, s'') \<or> (\<exists>a s'. m s = (Inr a, s') \<and> f a s' = (Inl e, s''))"
  by (auto simp: bindE_def split: prod.split sum.split)

lemma bindE_gets [simp]: "bindE (gets g) f s = f (g s) s"
  by (simp add: bindE_def gets_def)

lemma bindE_ret [simp]: "bindE (ret a) f s = f a s"
  by (simp add: bindE_def ret_def)

lemma bindE_fail [simp]: "bindE (fail e) f s = (Inl e, s)"
  by (simp add: bindE_def fail_def)

lemma bindE_modify [simp]: "bindE (modify g) f s = f () (g s)"
  by (simp add: bindE_def modify_def)

lemma bindE_lift [simp]: "bindE (lift r) f s = (case r of Inl e \<Rightarrow> (Inl e, s) | Inr a \<Rightarrow> f a s)"
  by (simp add: bindE_def lift_def split: sum.split)

section \<open>Invariants of operations\<close>

definition keeps :: "('s \<Rightarrow> 's \<Rightarrow> bool) \<Rightarrow> ('s \<Rightarrow> 's \<Rightarrow> bool) \<Rightarrow> ('s, 'e, 'a) eff \<Rightarrow> bool" where
  "keeps R E m \<longleftrightarrow> (\<forall>s. case m s of (Inr a, s') \<Rightarrow> R s s' | (Inl e, s') \<Rightarrow> E s s')"

lemma keepsD: "keeps R E m \<Longrightarrow> m s = (Inr a, s') \<Longrightarrow> R s s'"
  by (auto simp: keeps_def dest: spec [of _ s])

lemma keepsD_Inl: "keeps R E m \<Longrightarrow> m s = (Inl e, s') \<Longrightarrow> E s s'"
  by (auto simp: keeps_def dest: spec [of _ s])

lemma keepsI:
  "(\<And>s a s'. m s = (Inr a, s') \<Longrightarrow> R s s') \<Longrightarrow> (\<And>s e s'. m s = (Inl e, s') \<Longrightarrow> E s s') \<Longrightarrow> keeps R E m"
  by (auto simp: keeps_def split: prod.split sum.split)

named_theorems keep

locale growth =
  fixes R E :: "'s \<Rightarrow> 's \<Rightarrow> bool"
  assumes same: "R s s"
    and steps: "R s t \<Longrightarrow> R t u \<Longrightarrow> R s u"
    and fails: "E s s"
    and late: "R s t \<Longrightarrow> E t u \<Longrightarrow> E s u"
begin

lemma keeps_ret: "keeps R E (ret a)"
  by (rule keepsI) (auto intro: same)

lemma keeps_fail: "keeps R E (fail e)"
  by (rule keepsI) (auto intro: fails)

lemma keeps_gets: "keeps R E (gets f)"
  by (rule keepsI) (auto intro: same)

lemma keeps_lift: "keeps R E (lift r)"
  by (rule keepsI) (auto intro: same fails)

lemma keeps_modify: "(\<And>s. R s (f s)) \<Longrightarrow> keeps R E (modify f)"
  by (rule keepsI) auto

lemma keeps_bind:
  assumes "keeps R E m" and "\<And>a. keeps R E (f a)"
  shows "keeps R E (bindE m f)"
proof (rule keepsI)
  fix s b s'' assume "bindE m f s = (Inr b, s'')"
  then obtain a s' where "m s = (Inr a, s')" "f a s' = (Inr b, s'')" by (auto simp: bindE_Inr)
  then show "R s s''" using keepsD [OF assms(1)] keepsD [OF assms(2)] steps by blast
next
  fix s e s'' assume "bindE m f s = (Inl e, s'')"
  then consider "m s = (Inl e, s'')" | a s' where "m s = (Inr a, s')" "f a s' = (Inl e, s'')"
    by (auto simp: bindE_Inl)
  then show "E s s''"
    by cases (use keepsD_Inl [OF assms(1)] keepsD [OF assms(1)] keepsD_Inl [OF assms(2)] late in blast)+
qed

lemma keeps_each: "(\<And>x. x \<in> set xs \<Longrightarrow> keeps R E (f x)) \<Longrightarrow> keeps R E (each_do f xs)"
  by (induction xs) (auto intro: keeps_ret keeps_bind)

lemma keeps_state: "(\<And>s. keeps R E (f s)) \<Longrightarrow> keeps R E (\<lambda>s. f s s)"
  by (rule keepsI) (auto dest: keepsD keepsD_Inl)

lemmas keeps_rules = keeps_ret keeps_fail keeps_gets keeps_lift keeps_bind keeps_each

text \<open>What is done for every element of an iteration that succeeds, between states of its run.\<close>

lemma each_do_visits:
  assumes "each_do f xs s = (Inr u, s')" and "x \<in> set xs" and "\<And>y. y \<in> set xs \<Longrightarrow> keeps R E (f y)"
  shows "\<exists>t t'. R s t \<and> f x t = (Inr (), t') \<and> R t' s'"
  using assms
proof (induction xs arbitrary: s)
  case (Cons y ys)
  then obtain t where t: "f y s = (Inr (), t)" "each_do f ys t = (Inr u, s')" by (auto simp: bindE_Inr)
  have k: "R s t" "R t s'"
    using keepsD [OF Cons.prems(3) t(1)] keepsD [OF keeps_each t(2)] Cons.prems(3) by auto
  show ?case
  proof (cases "x = y")
    case True
    with t(1) k same show ?thesis by blast
  next
    case False
    with Cons.IH [OF t(2)] Cons.prems k(1) steps show ?thesis by (metis list.set_intros(2) set_ConsD)
  qed
qed simp

end

end
