(* ===== verification/Shares.thy ===== *)
theory Shares
  imports Workspaces FileSystemProps Effects
begin

text \<open>
  The directories a workspace VM shares with the host and the sizes of the VM
  (\<open>internal/cmd/vmbackend_unix.go\<close>: \<open>vmShares\<close>, \<open>checkNestedShares\<close>, \<open>linkInside\<close>, \<open>vmMemoryMiB\<close>,
  \<open>vmDockerDiskSize\<close>; \<open>internal/vm\<close>: \<open>Share\<close>, \<open>maxShares\<close>). Editing the settings of the agent in
  a profile directory is the argument \<open>status_line\<close>, the directory of the profiles \<open>profiles\<close>.
\<close>

section \<open>Shares\<close>

record Share =
  HostPath :: string
  GuestPath :: string
  ReadOnly :: bool

definition guestPath :: "Share \<Rightarrow> string" where
  "guestPath s = (if GuestPath s \<noteq> [] then GuestPath s else HostPath s)"

datatype share_error =
    ShareMount mount_error
  | CreateSource string errno
  | MountSource string errno
  | NotADirectory string
  | CreateProfile string errno
  | OpenProfile string errno
  | TooManyShares nat int
  | ResolveShare string errno
  | TooManyLinks string
  | LinkInShare string string string

definition maxLinkHops :: nat where "maxLinkHops = 255"

definition inside_root :: "string \<Rightarrow> string \<Rightarrow> bool" where
  "inside_root next r = (case Rel r next of Some rel \<Rightarrow> rel \<noteq> ''.'' \<and> IsLocal rel | None \<Rightarrow> False)"

definition find_root :: "string \<Rightarrow> string list \<Rightarrow> nat option" where
  "find_root next roots = List.find (\<lambda>i. inside_root next (roots ! i)) [0..<length roots]"

text \<open>The loop of \<open>linkInside\<close>: \<open>hops\<close> is how many links may still be followed.\<close>

function link_walk ::
  "host \<Rightarrow> string \<Rightarrow> string list \<Rightarrow> nat \<Rightarrow> string \<Rightarrow> string list \<Rightarrow> (share_error, (string \<times> nat) option) result" where
  "link_walk H path roots hops cur [] = Inr None"
| "link_walk H path roots hops cur (part # rest) =
     (if part = [] \<or> part = ''.'' then link_walk H path roots hops cur rest
      else if part = ''..'' then link_walk H path roots hops (PathDir cur) rest
      else
        let next = PathJoin [cur, part] in
        case lstat H next of
          Inl e \<Rightarrow> if e = ENOENT then Inr None else Inl (ResolveShare path e)
        | Inr (Symlink t) \<Rightarrow>
            (case find_root next roots of
               Some i \<Rightarrow> Inr (Some (next, i))
             | None \<Rightarrow>
                 (case hops of
                    0 \<Rightarrow> Inl (TooManyLinks path)
                  | Suc h \<Rightarrow> link_walk H path roots h (if IsAbs t then ''/'' else cur) (Split CHR ''/'' t @ rest)))
        | Inr _ \<Rightarrow> link_walk H path roots hops next rest)"
  by pat_completeness auto
termination
  by (relation "measures [\<lambda>(_, _, _, hops, _, _). hops, \<lambda>(_, _, _, _, _, rest). length rest]") auto

text \<open>\<open>filepath.Abs\<close>\<close>

definition Abs_path :: "host \<Rightarrow> string \<Rightarrow> string" where
  "Abs_path H p = (if IsAbs p then Clean p else PathJoin [path_of (h_cwd H), p])"

definition linkInside :: "host \<Rightarrow> string \<Rightarrow> string list \<Rightarrow> (share_error, (string \<times> nat) option) result" where
  "linkInside H p roots =
     (let path = Abs_path H p in link_walk H path roots maxLinkHops ''/'' (Split CHR ''/'' path))"

text \<open>The read-write shares that resolve, with their configured and their real host paths.\<close>

definition rw_roots :: "host \<Rightarrow> Share list \<Rightarrow> (string \<times> string) list" where
  "rw_roots H shares =
     List.map_filter (\<lambda>w. if ReadOnly w then None
        else case EvalSymlinks H (HostPath w) of Inr real \<Rightarrow> Some (HostPath w, real) | Inl _ \<Rightarrow> None) shares"

definition check_share :: "host \<Rightarrow> (string \<times> string) list \<Rightarrow> Share \<Rightarrow> (share_error, unit) result" where
  "check_share H roots s =
     rbind (linkInside H (HostPath s) (map snd roots)) (\<lambda>found.
       case found of
         None \<Rightarrow> Inr ()
       | Some (link, i) \<Rightarrow> Inl (LinkInShare (HostPath s) link (fst (roots ! i))))"

definition checkNestedShares :: "host \<Rightarrow> Share list \<Rightarrow> (share_error, unit) result" where
  "checkNestedShares H shares = for_each (check_share H (rw_roots H shares)) shares"

section \<open>The shares of a workspace\<close>

type_synonym share_map = "(string \<times> Share) list"

definition add_share :: "string \<Rightarrow> string \<Rightarrow> bool \<Rightarrow> share_map \<Rightarrow> share_map" where
  "add_share hpath gpath ro m =
     (let g = Clean gpath;
          ro' = (case map_of m g of Some prev \<Rightarrow> ReadOnly prev \<and> ro | None \<Rightarrow> ro)
      in AList.update g \<lparr>HostPath = Clean hpath, GuestPath = g, ReadOnly = ro'\<rparr> m)"

text \<open>A mount: its source is created when it is missing, and must be a directory.\<close>

definition mount_source :: "string \<Rightarrow> (host, share_error, unit) eff" where
  "mount_source p H =
     (case stat H p of
        Inr n \<Rightarrow> (if is_folder n then Inr () else Inl (NotADirectory p), H)
      | Inl e \<Rightarrow>
          if e = ENOENT then
            (case MkdirAll p H of (Inl x, H') \<Rightarrow> (Inl (CreateSource p x), H') | (Inr _, H') \<Rightarrow> (Inr (), H'))
          else (Inl (MountSource p e), H))"

definition share_mount ::
  "(string \<Rightarrow> (string \<times> string) option) \<Rightarrow> string \<Rightarrow> share_map \<Rightarrow> (host, share_error, share_map) eff" where
  "share_mount pv spec m H =
     bindE (lift (rwrap ShareMount (ParseMount pv (h_home H) spec))) (\<lambda>mount.
       if m_Host mount = [] then ret m
       else bindE (lift (rwrap ShareMount (ExpandPath (h_home H) (m_Host mount)))) (\<lambda>hpath.
            bindE (mount_source hpath) (\<lambda>_.
            ret (add_share hpath (m_Container mount) (m_Mode mount = ''ro'') m)))) H"

fun share_mounts ::
  "(string \<Rightarrow> (string \<times> string) option) \<Rightarrow> string list \<Rightarrow> share_map \<Rightarrow> (host, share_error, share_map) eff" where
  "share_mounts pv [] m = ret m"
| "share_mounts pv (spec # specs) m = bindE (share_mount pv spec m) (share_mounts pv specs)"

definition workspaceProfile :: "Resolved \<Rightarrow> string" where
  "workspaceProfile ws = (case r_AgentProfile ws of None \<Rightarrow> [] | Some p \<Rightarrow> prof_name p)"

definition share_state ::
  "(Harness \<Rightarrow> string \<Rightarrow> host \<Rightarrow> host) \<Rightarrow> string \<Rightarrow> Resolved \<Rightarrow> StateDir \<Rightarrow> share_map \<Rightarrow> (host, share_error, share_map) eff" where
  "share_state status_line profiles ws d m H =
     (if Clean (sd_Path d) \<in> fst ` set m then (Inr m, H)
      else
        let hpath = PathJoin [profiles, workspaceProfile ws, sd_Name d] in
        case MkdirAll hpath H of
          (Inl e, H1) \<Rightarrow> (Inl (CreateProfile hpath e), H1)
        | (Inr _, H1) \<Rightarrow>
            if SettingsFile (h_TUIPlugin (r_Agent ws)) = None then (Inr (add_share hpath (sd_Path d) False m), H1)
            else (case open_node H1 True hpath of
                    Inl e \<Rightarrow> (Inl (OpenProfile hpath e), H1)
                  | Inr _ \<Rightarrow> (Inr (add_share hpath (sd_Path d) False m), status_line (r_Agent ws) hpath H1)))"

fun share_states ::
  "(Harness \<Rightarrow> string \<Rightarrow> host \<Rightarrow> host) \<Rightarrow> string \<Rightarrow> Resolved \<Rightarrow> StateDir list \<Rightarrow> share_map \<Rightarrow> (host, share_error, share_map) eff" where
  "share_states sl profiles ws [] m = ret m"
| "share_states sl profiles ws (d # ds) m = bindE (share_state sl profiles ws d m) (share_states sl profiles ws ds)"

text \<open>\<open>maxShares\<close>: the interrupt lines of the host architecture less the fixed devices.\<close>

definition virtioIRQs :: "string \<Rightarrow> int" where
  "virtioIRQs arch = (if arch = ''amd64'' then 19 else if arch = ''arm64'' then 128 else 0)"

definition fixedDevices :: int where "fixedDevices = 8"

definition maxShares :: "string \<Rightarrow> bool \<Rightarrow> int" where
  "maxShares arch docker = virtioIRQs arch - fixedDevices - (if docker then 1 else 0)"

definition share_list :: "share_map \<Rightarrow> Share list" where
  "share_list m = map (\<lambda>g. the (map_of m g)) (sorted_keys m)"

definition vmShares ::
  "(string \<Rightarrow> (string \<times> string) option) \<Rightarrow> (Harness \<Rightarrow> string \<Rightarrow> host \<Rightarrow> host) \<Rightarrow> string \<Rightarrow> string \<Rightarrow> Resolved \<Rightarrow>
   (host, share_error, Share list) eff" where
  "vmShares pv status_line profiles arch ws =
     (let m0 = fold (\<lambda>p. add_share p p False) (r_Paths ws) [] in
      bindE (share_mounts pv (r_Mounts ws) m0) (\<lambda>m1.
      bindE (if workspaceProfile ws \<noteq> [] then share_states status_line profiles ws (h_State (r_Agent ws)) m1 else ret m1) (\<lambda>m2.
      let shares = share_list m2; limit = maxShares arch (r_EnableDocker ws) in
      if int (length shares) > limit then fail (TooManyShares (length shares) limit)
      else bindE (gets (\<lambda>H. checkNestedShares H shares)) (\<lambda>checked.
           bindE (lift checked) (\<lambda>_. ret shares)))))"

section \<open>Sizes\<close>

text \<open>\<open>int64\<close> arithmetic wraps.\<close>

definition wrap64 :: "int \<Rightarrow> int" where
  "wrap64 x = (x + 2 ^ 63) mod 2 ^ 64 - 2 ^ 63"

definition unit_mult :: "string \<Rightarrow> int" where
  "unit_mult s =
     (let u = lower_char (last s) in
      if u = CHR ''k'' then 2 ^ 10 else if u = CHR ''m'' then 2 ^ 20 else if u = CHR ''g'' then 2 ^ 30 else 1)"

definition TrimRight_units :: "string \<Rightarrow> string" where
  "TrimRight_units s = rev (dropWhile (\<lambda>c. c \<in> set ''kmgKMG'') (rev s))"

datatype size_error = EmptySize | InvalidSize string | SizeTooLarge string | SizeTooSmall string

definition vmMinMemoryMiB :: int where "vmMinMemoryMiB = 512"

definition vmMemoryMiB :: "string \<Rightarrow> (size_error, u32) result" where
  "vmMemoryMiB limit =
     (if limit = [] then Inl EmptySize
      else
        let mult = unit_mult limit; (n, ok) = Atoi (TrimRight_units limit) in
        if \<not> ok \<or> n \<le> 0 then Inl (InvalidSize limit)
        else if n > (2 ^ 32 - 1) * 2 ^ 20 div mult then Inl (SizeTooLarge limit)
        else
          let mib = drop_bit 20 (wrap64 (wrap64 (n * mult) + (2 ^ 20 - 1))) in
          if mib < vmMinMemoryMiB then Inl (SizeTooSmall limit) else Inr (word_of_int mib))"

definition vmMinDockerDiskSize :: int where "vmMinDockerDiskSize = 2 ^ 30"

definition vmDockerDiskSize :: "string \<Rightarrow> (size_error, int) result" where
  "vmDockerDiskSize s =
     (if s = [] then Inl EmptySize
      else
        let mult = unit_mult s; (n, ok) = Atoi (TrimRight_units s) in
        if \<not> ok \<or> n \<le> 0 then Inl (InvalidSize s)
        else if n > (2 ^ 63 - 1 - (2 ^ 20 - 1)) div mult then Inl (SizeTooLarge s)
        else
          let b = wrap64 (wrap64 (n * mult) + (2 ^ 20 - 1)); bytes = b - b mod 2 ^ 20 in
          if bytes < vmMinDockerDiskSize then Inl (SizeTooSmall s) else Inr bytes)"

end
