(* ===== verification/GitProtect.thy ===== *)
theory GitProtect
  imports GitConfig Shares
begin

text \<open>
  The protection of Git repositories in writable shares (\<open>internal/cmd/vmgit_unix.go\<close>): the scan of the
  shares for repositories, the git directories reached through gitfiles, \<open>commondir\<close> files and
  submodules, the configuration files with their includes, the hooks directories, and the guest
  paths that are pinned and made read-only. The state is the \<open>gitProtector\<close> with the host file
  system, because the scan creates missing hooks directories and configuration files. Maps to
  \<open>true\<close> are lists. \<open>ul\<close> is \<open>strings.ToLower\<close> on strings that are not ASCII.
\<close>

section \<open>State\<close>

definition maxGitScanDirs :: nat where "maxGitScanDirs = 500000"
definition maxConfigFiles :: nat where "maxConfigFiles = 256"
definition maxHookEntries :: nat where "maxHookEntries = 1024"
definition maxPointerSize :: nat where "maxPointerSize = 4096"
definition maxConfigSize :: nat where "maxConfigSize = 2 ^ 20"

definition gitScanSkip :: "string list" where
  "gitScanSkip =
     [''node_modules'', ''.venv'', ''venv'', ''__pycache__'', ''.tox'', ''.terraform'', ''.next'', ''.gradle'', ''.cache'']"

record shareRoot =
  sr_guest :: string
  sr_host :: string
  sr_real :: string

record gitConfig =
  gc_hooksPaths :: "string list"
  gc_worktreeConfig :: bool

definition no_config :: gitConfig where
  "no_config = \<lparr>gc_hooksPaths = [], gc_worktreeConfig = False\<rparr>"

record gitProtector =
  gp_roots :: "shareRoot list"
  gp_mounts :: "string list"
  gp_pins :: "string list"
  gp_ro :: "string list"
  gp_done :: "string list"
  gp_config :: "(string \<times> gitConfig) list"
  gp_inherited :: gitConfig
  gp_scanned :: nat
  gp_host :: host

datatype git_error =
    ScanFailed string errno
  | TooManyDirs
  | NestedCommondir string string
  | TooManyConfigs string
  | ConfigUnreadable string
  | TooManyHooks string
  | HookMissing string string
  | ProtectFailed string errno
  | NoDirectory string
  | NoRegular string
  | LinkOnPath string
  | CreateFailed string errno
  | LocateFailed share_error
  | OutOfFuel

type_synonym 'a git = "(gitProtector, git_error, 'a) eff"

section \<open>Shares and guest paths\<close>

definition guestOf :: "shareRoot \<Rightarrow> string \<Rightarrow> string" where
  "guestOf r p = (case Rel (sr_real r) p of None \<Rightarrow> sr_guest r | Some rel \<Rightarrow> PathJoin [sr_guest r, rel])"

definition within :: "string \<Rightarrow> string \<Rightarrow> bool" where
  "within p base = (case Rel base p of None \<Rightarrow> False | Some rel \<Rightarrow> IsLocal rel)"

definition hidden :: "string list \<Rightarrow> shareRoot \<Rightarrow> string \<Rightarrow> bool" where
  "hidden mounts r g = list_ex (\<lambda>m. length m > length (sr_guest r) \<and> within g m) mounts"

text \<open>\<open>views\<close>: the guest paths of a host path with the guest paths of their shares.\<close>

definition views :: "gitProtector \<Rightarrow> string \<Rightarrow> (string \<times> string) list" where
  "views p full =
     List.map_filter (\<lambda>r.
        if \<not> within full (sr_real r) then None
        else let g = guestOf r full in if hidden (gp_mounts p) r g then None else Some (g, sr_guest r)) (gp_roots p)"

text \<open>The loop of \<open>pinUpTo\<close>: a path has fewer elements than bytes.\<close>

fun pin_from :: "nat \<Rightarrow> string \<Rightarrow> string \<Rightarrow> string list" where
  "pin_from 0 d root = []"
| "pin_from (Suc n) d root = (if d \<noteq> root \<and> d \<noteq> PathDir d then d # pin_from n (PathDir d) root else [])"

definition pinUpTo :: "string \<Rightarrow> string \<Rightarrow> string list \<Rightarrow> string list" where
  "pinUpTo d root pins = fold List.insert (pin_from (length d) d root) pins"

definition pinHost :: "string \<Rightarrow> gitProtector \<Rightarrow> gitProtector" where
  "pinHost full p = p\<lparr>gp_pins := fold (\<lambda>(g, root). pinUpTo g root) (views p full) (gp_pins p)\<rparr>"

definition readOnlyHost :: "string \<Rightarrow> gitProtector \<Rightarrow> gitProtector" where
  "readOnlyHost full p =
     p\<lparr>gp_pins := fold (\<lambda>(g, root). pinUpTo (PathDir g) root) (views p full) (gp_pins p),
       gp_ro := fold (\<lambda>(g, root). List.insert g) (views p full) (gp_ro p)\<rparr>"

section \<open>Locating a path\<close>

text \<open>The closure \<open>match\<close> of \<open>locate\<close>: the longest base wins, the first of equal length.\<close>

definition match_base ::
  "string \<Rightarrow> shareRoot \<times> string \<Rightarrow> (shareRoot \<times> string \<times> nat) option \<Rightarrow> (shareRoot \<times> string \<times> nat) option" where
  "match_base path rb best =
     (case rb of (r, base) \<Rightarrow>
        case Rel base path of
          None \<Rightarrow> best
        | Some rel \<Rightarrow>
            if IsLocal rel \<and> (case best of None \<Rightarrow> True | Some (_, _, len) \<Rightarrow> length base > len)
            then Some (r, rel, length base) else best)"

text \<open>\<open>noSymlinks\<close> from the path \<open>cur\<close> on.\<close>

fun no_symlinks :: "host \<Rightarrow> shareRoot \<Rightarrow> string \<Rightarrow> string list \<Rightarrow> (git_error, unit) result" where
  "no_symlinks H r cur [] = Inr ()"
| "no_symlinks H r cur (part # parts) =
     (if part = ''.'' \<or> part = [] then no_symlinks H r cur parts
      else
        let next = PathJoin [cur, part] in
        case lstat H next of
          Inl e \<Rightarrow> if e = ENOENT then Inr () else Inl (ProtectFailed (guestOf r next) e)
        | Inr n \<Rightarrow> if is_link n then Inl (LinkOnPath (guestOf r next)) else no_symlinks H r next parts)"

definition noSymlinks :: "host \<Rightarrow> shareRoot \<Rightarrow> string \<Rightarrow> (git_error, unit) result" where
  "noSymlinks H r rel = no_symlinks H r (sr_real r) (Split CHR ''/'' rel)"

fun resolve_existing :: "host \<Rightarrow> nat \<Rightarrow> string \<Rightarrow> string \<Rightarrow> string \<Rightarrow> string" where
  "resolve_existing H 0 path cur rest = path"
| "resolve_existing H (Suc n) path cur rest =
     (case EvalSymlinks H cur of
        Inr resolved \<Rightarrow> PathJoin [resolved, rest]
      | Inl _ \<Rightarrow>
          if cur = PathDir cur then path
          else resolve_existing H n path (PathDir cur) (PathJoin [Base cur, rest]))"

definition resolveExisting :: "host \<Rightarrow> string \<Rightarrow> string" where
  "resolveExisting H path = resolve_existing H (length path + 1) path path []"

text \<open>\<open>locate\<close>: the share and the symlink-free host path, or nothing outside the writable shares.\<close>

definition locate :: "gitProtector \<Rightarrow> string \<Rightarrow> (git_error, (shareRoot \<times> string) option) result" where
  "locate p path0 =
     (let path = Clean path0; H = gp_host p;
          best1 = fold (match_base path) (concat (map (\<lambda>r. [(r, sr_real r), (r, sr_host r)]) (gp_roots p))) None;
          best = (case best1 of None \<Rightarrow> fold (match_base path) (map (\<lambda>r. (r, sr_guest r)) (gp_roots p)) None | Some b \<Rightarrow> Some b)
      in case best of
           Some (r, rel, _) \<Rightarrow> rbind (noSymlinks H r rel) (\<lambda>_. Inr (Some (r, PathJoin [sr_real r, rel])))
         | None \<Rightarrow>
             (case linkInside H path (map sr_real (gp_roots p)) of
                Inl e \<Rightarrow> Inl (LocateFailed e)
              | Inr (Some (link, i)) \<Rightarrow> Inl (LinkOnPath (guestOf (gp_roots p ! i) link))
              | Inr None \<Rightarrow>
                  let resolved = resolveExisting H path in
                  (case List.find (\<lambda>r. within resolved (sr_real r)) (gp_roots p) of
                     None \<Rightarrow> Inr None
                   | Some r \<Rightarrow> Inr (Some (r, PathJoin [sr_real r, the (Rel (sr_real r) resolved)])))))"

section \<open>Protecting a path\<close>

definition createEmpty :: "string \<Rightarrow> bool \<Rightarrow> host \<Rightarrow> (git_error, unit) result \<times> host" where
  "createEmpty path dir H =
     (if dir then (case MkdirAll path H of (Inl e, H1) \<Rightarrow> (Inl (CreateFailed path e), H1) | (Inr _, H1) \<Rightarrow> (Inr (), H1))
      else (case MkdirAll (PathDir path) H of
              (Inl e, H1) \<Rightarrow> (Inl (CreateFailed (PathDir path) e), H1)
            | (Inr _, H1) \<Rightarrow>
                (case make_node path (Regular True []) H1 of
                   (Inl e, H2) \<Rightarrow> (Inl (CreateFailed path e), H2)
                 | (Inr _, H2) \<Rightarrow> (Inr (), H2))))"

definition on_host :: "(host \<Rightarrow> ('e, 'a) result \<times> host) \<Rightarrow> (gitProtector, 'e, 'a) eff" where
  "on_host f p = (case f (gp_host p) of (r, H) \<Rightarrow> (r, p\<lparr>gp_host := H\<rparr>))"

text \<open>\<open>protect\<close>: the empty string when the path is not shared writable, or missing and not created.\<close>

definition protect :: "string \<Rightarrow> bool \<Rightarrow> bool \<Rightarrow> string git" where
  "protect path dir create =
     bindE (gets (\<lambda>p. locate p path)) (\<lambda>located.
     bindE (lift located) (\<lambda>found.
       case found of
         None \<Rightarrow> ret []
       | Some (r, full) \<Rightarrow>
           let g = guestOf r full; mark = bindE (modify (readOnlyHost full)) (\<lambda>_. ret full) in
           bindE (gets (\<lambda>p. lstat (gp_host p) full)) (\<lambda>info.
             case info of
               Inl e \<Rightarrow>
                 if e = ENOENT then (if \<not> create then ret [] else bindE (on_host (createEmpty full dir)) (\<lambda>_. mark))
                 else fail (ProtectFailed g e)
             | Inr n \<Rightarrow>
                 if dir \<and> \<not> is_folder n then fail (NoDirectory g)
                 else if \<not> dir \<and> \<not> is_regular n then fail (NoRegular g)
                 else mark)))"

section \<open>Small files\<close>

definition readSmall :: "host \<Rightarrow> string \<Rightarrow> nat \<Rightarrow> bool \<Rightarrow> string option" where
  "readSmall H path maxSize noFollow =
     (case open_node H (\<not> noFollow) path of
        Inr (Regular _ data) \<Rightarrow> if length data \<le> maxSize then Some data else None
      | _ \<Rightarrow> None)"

definition readPointer :: "host \<Rightarrow> string \<Rightarrow> string option" where
  "readPointer H path =
     (case readSmall H path maxPointerSize True of
        None \<Rightarrow> None
      | Some data \<Rightarrow> let line = TrimSpace (fst (Cut data [CHR 0x0A])) in if line \<noteq> [] then Some line else None)"

definition resolvePointer :: "string \<Rightarrow> string \<Rightarrow> string" where
  "resolvePointer dir target = Clean (if IsAbs target then target else PathJoin [dir, target])"

definition expandGitPath :: "string option \<Rightarrow> string \<Rightarrow> string \<Rightarrow> string" where
  "expandGitPath home path base =
     (let p1 = (case CutPrefix path ''~/'' of
                  Some rest \<Rightarrow> (case home of Some h \<Rightarrow> PathJoin [h, rest] | None \<Rightarrow> path)
                | None \<Rightarrow> path);
          p2 = (if base \<noteq> [] \<and> \<not> IsAbs p1 then PathJoin [base, p1] else p1)
      in Clean p2)"

section \<open>Hooks\<close>

definition hook_target :: "string \<Rightarrow> string \<times> node \<Rightarrow> unit git" where
  "hook_target dir e =
     (if \<not> is_link (snd e) then ret ()
      else
        let hook = PathJoin [dir, fst e] in
        bindE (gets (\<lambda>p. readlink (gp_host p) hook)) (\<lambda>link.
          case link of
            Inl _ \<Rightarrow> ret ()
          | Inr t \<Rightarrow>
              let tgt = resolvePointer dir t in
              bindE (protect tgt False False) (\<lambda>full.
                if full \<noteq> [] then ret ()
                else bindE (gets (\<lambda>p. locate p tgt)) (\<lambda>located.
                       case located of Inr (Some _) \<Rightarrow> fail (HookMissing hook tgt) | _ \<Rightarrow> ret ()))))"

definition hookTargets :: "string \<Rightarrow> unit git" where
  "hookTargets dir =
     (if dir = [] then ret ()
      else bindE (gets (\<lambda>p. read_dir (gp_host p) dir)) (\<lambda>entries.
             case entries of
               Inl _ \<Rightarrow> ret ()
             | Inr es \<Rightarrow> if length es > maxHookEntries then fail (TooManyHooks dir) else each_do (hook_target dir) es))"

definition protect_hooks :: "string \<Rightarrow> unit git" where
  "protect_hooks path = bindE (protect path True True) hookTargets"

definition hooks_paths :: "string \<Rightarrow> string \<Rightarrow> string \<Rightarrow> string list" where
  "hooks_paths worktree dir path =
     (if IsAbs path then [path]
      else PathJoin [dir, path] # (if worktree \<noteq> [] then [PathJoin [worktree, path]] else []))"

definition hooksPath :: "gitConfig \<Rightarrow> string \<Rightarrow> string \<Rightarrow> unit git" where
  "hooksPath cfg worktree dir =
     each_do (\<lambda>path. if path = [] then ret () else each_do protect_hooks (hooks_paths worktree dir path)) (gc_hooksPaths cfg)"

section \<open>Configuration files\<close>

text \<open>
  \<open>configFile\<close> changes the configuration and the walk through pointers; here they are threaded. A nested
  call has counted at least one file more, so \<open>maxConfigFiles + 1\<close> levels are enough fuel.
\<close>

record configWalk =
  cw_seen :: "string list"
  cw_count :: nat

definition newConfigWalk :: configWalk where
  "newConfigWalk = \<lparr>cw_seen = [], cw_count = 0\<rparr>"

type_synonym reading = "gitConfig \<times> configWalk"

definition config_entry ::
  "(string \<Rightarrow> string) \<Rightarrow> (string \<Rightarrow> reading \<Rightarrow> reading git) \<Rightarrow> string \<Rightarrow> gitConfigEntry \<Rightarrow> reading \<Rightarrow> reading git" where
  "config_entry ul include path e x p =
     (case x of (cfg, walk) \<Rightarrow>
        if ge_section e = ''core'' \<and> ge_key e = ''hookspath'' then
          (Inr (cfg\<lparr>gc_hooksPaths := gc_hooksPaths cfg @ [expandGitPath (h_home (gp_host p)) (ge_value e) []]\<rparr>, walk), p)
        else if ge_section e = ''extensions'' \<and> ge_key e = ''worktreeconfig'' then
          (Inr (cfg\<lparr>gc_worktreeConfig := gc_worktreeConfig cfg \<or> gitBool ul (ge_value e)\<rparr>, walk), p)
        else if (ge_section e = ''include'' \<or> ge_section e = ''includeif'') \<and> ge_key e = ''path'' \<and> ge_value e \<noteq> [] then
          include (expandGitPath (h_home (gp_host p)) (ge_value e) (PathDir path)) x p
        else (Inr x, p))"

primrec config_entries ::
  "(string \<Rightarrow> string) \<Rightarrow> (string \<Rightarrow> reading \<Rightarrow> reading git) \<Rightarrow> string \<Rightarrow> gitConfigEntry list \<Rightarrow> reading \<Rightarrow> reading git" where
  "config_entries ul include path [] x = ret x"
| "config_entries ul include path (e # es) x =
     bindE (config_entry ul include path e x) (config_entries ul include path es)"

primrec configFile :: "(string \<Rightarrow> string) \<Rightarrow> nat \<Rightarrow> string \<Rightarrow> reading \<Rightarrow> reading git" where
  "configFile ul 0 path0 x = fail OutOfFuel"
| "configFile ul (Suc n) path0 x =
     (let path = Clean path0 in
      case x of (cfg, walk) \<Rightarrow>
        if path \<in> set (cw_seen walk) then ret x
        else
          let walk' = \<lparr>cw_seen = path # cw_seen walk, cw_count = cw_count walk + 1\<rparr> in
          if cw_count walk' > maxConfigFiles then fail (TooManyConfigs path)
          else
            bindE (protect path False True) (\<lambda>_.
            bindE (gets (\<lambda>p. (readSmall (gp_host p) path maxConfigSize False, stat (gp_host p) path))) (\<lambda>(data, info).
              case data of
                None \<Rightarrow> if info = Inl ENOENT then ret (cfg, walk') else fail (ConfigUnreadable path)
              | Some d \<Rightarrow> config_entries ul (configFile ul n) path (parseGitConfig ul d) (cfg, walk'))))"

definition read_config :: "(string \<Rightarrow> string) \<Rightarrow> string \<Rightarrow> gitConfig \<Rightarrow> gitConfig git" where
  "read_config ul path cfg =
     bindE (configFile ul (maxConfigFiles + 1) path (cfg, newConfigWalk)) (\<lambda>x. ret (fst x))"

section \<open>Walking directories\<close>

text \<open>
  \<open>filepath.WalkDir\<close>. The callback gets the node of an entry, or the error of reading it; it answers
  whether to go on or skip. A path of \<open>pathMax\<close> bytes cannot be read, and each level adds a byte, so
  \<open>pathMax + 1\<close> levels are enough fuel.
\<close>

datatype visit = Continue | SkipDir

type_synonym callback = "string \<Rightarrow> errno + node \<Rightarrow> visit git"

primrec walk_entries :: "(string \<Rightarrow> node \<Rightarrow> visit git) \<Rightarrow> string \<Rightarrow> (string \<times> node) list \<Rightarrow> visit git" where
  "walk_entries descend path [] = ret Continue"
| "walk_entries descend path (e # es) =
     bindE (descend (PathJoin [path, fst e]) (snd e)) (\<lambda>v. if v = SkipDir then ret Continue else walk_entries descend path es)"

primrec walk_dir :: "nat \<Rightarrow> callback \<Rightarrow> string \<Rightarrow> node \<Rightarrow> visit git" where
  "walk_dir 0 fn path d = fail OutOfFuel"
| "walk_dir (Suc n) fn path d =
     bindE (fn path (Inr d)) (\<lambda>v.
       if v = SkipDir then ret (if is_folder d then Continue else SkipDir)
       else if \<not> is_folder d then ret Continue
       else bindE (gets (\<lambda>p. read_dir (gp_host p) path)) (\<lambda>entries.
              case entries of
                Inl e \<Rightarrow> bindE (fn path (Inl e)) (\<lambda>_. ret Continue)
              | Inr es \<Rightarrow> walk_entries (walk_dir n fn) path es))"

definition WalkDir :: "callback \<Rightarrow> string \<Rightarrow> unit git" where
  "WalkDir fn root =
     bindE (gets (\<lambda>p. lstat (gp_host p) root)) (\<lambda>info.
       case info of
         Inl e \<Rightarrow> bindE (fn root (Inl e)) (\<lambda>_. ret ())
       | Inr d \<Rightarrow> bindE (walk_dir (pathMax + 1) fn root d) (\<lambda>_. ret ()))"

section \<open>Git directories\<close>

text \<open>\<open>protectCommonDir\<close> up to the walk over the submodules.\<close>

definition protect_common :: "(string \<Rightarrow> string) \<Rightarrow> string \<Rightarrow> unit git" where
  "protect_common ul dir =
     bindE (modify (\<lambda>p. pinHost dir (p\<lparr>gp_done := dir # gp_done p\<rparr>))) (\<lambda>_.
     bindE (protect_hooks (PathJoin [dir, ''hooks''])) (\<lambda>_.
     bindE (gets gp_inherited) (\<lambda>inherited.
     bindE (read_config ul (PathJoin [dir, ''config'']) inherited) (\<lambda>cfg.
     modify (\<lambda>p. p\<lparr>gp_config := AList.update dir cfg (gp_config p)\<rparr>)))))"

text \<open>\<open>common\<close> stands for \<open>protectCommonDir\<close>, which calls back through the submodules.\<close>

definition protectGitDir :: "(shareRoot \<Rightarrow> string \<Rightarrow> unit git) \<Rightarrow> shareRoot \<Rightarrow> string \<Rightarrow> string git" where
  "protectGitDir common r dir =
     bindE (gets (\<lambda>p. readPointer (gp_host p) (PathJoin [dir, ''commondir'']))) (\<lambda>pointer.
       case pointer of
         None \<Rightarrow> bindE (common r dir) (\<lambda>_. ret dir)
       | Some c \<Rightarrow>
           bindE (modify (\<lambda>p. if dir \<in> set (gp_done p) then p
                     else readOnlyHost (PathJoin [dir, ''commondir'']) (pinHost dir (p\<lparr>gp_done := dir # gp_done p\<rparr>)))) (\<lambda>_.
           bindE (gets (\<lambda>p. locate p (resolvePointer dir c))) (\<lambda>located.
           bindE (lift located) (\<lambda>found.
             case found of
               None \<Rightarrow> ret []
             | Some (cr, commonDir) \<Rightarrow>
                 bindE (gets (\<lambda>p. (stat (gp_host p) commonDir, readPointer (gp_host p) (PathJoin [commonDir, ''commondir''])))) (\<lambda>(info, nested).
                   if \<not> (case info of Inr n \<Rightarrow> is_folder n | Inl _ \<Rightarrow> False) then ret []
                   else if nested \<noteq> None then fail (NestedCommondir (guestOf r dir) (guestOf cr commonDir))
                   else bindE (common cr commonDir) (\<lambda>_. ret commonDir))))))"

definition gitDir :: "(string \<Rightarrow> string) \<Rightarrow> (shareRoot \<Rightarrow> string \<Rightarrow> unit git) \<Rightarrow> shareRoot \<Rightarrow> string \<Rightarrow> string \<Rightarrow> unit git" where
  "gitDir ul common r dir worktree =
     bindE (protectGitDir common r dir) (\<lambda>commonDir.
     bindE (gets (\<lambda>p. case map_of (gp_config p) commonDir of Some c \<Rightarrow> c | None \<Rightarrow> no_config)) (\<lambda>cfg.
     bindE (if gc_worktreeConfig cfg then read_config ul (PathJoin [dir, ''config.worktree'']) cfg
            else bindE (protect (PathJoin [dir, ''config.worktree'']) False False) (\<lambda>_. ret cfg)) (\<lambda>cfg'.
     hooksPath cfg' worktree dir)))"

definition module_visit :: "(shareRoot \<Rightarrow> string \<Rightarrow> string \<Rightarrow> unit git) \<Rightarrow> shareRoot \<Rightarrow> string \<Rightarrow> callback" where
  "module_visit git_dir r modules path d =
     (case d of
        Inl _ \<Rightarrow> ret Continue
      | Inr n \<Rightarrow>
          if \<not> is_folder n \<or> path = modules then ret Continue
          else bindE (gets (\<lambda>p. stat (gp_host p) (PathJoin [path, ''HEAD'']))) (\<lambda>head.
                 case head of
                   Inl _ \<Rightarrow> ret Continue
                 | Inr _ \<Rightarrow> bindE (git_dir r path []) (\<lambda>_. ret SkipDir)))"

text \<open>\<open>protectCommonDir\<close>; the fuel bounds the chain of submodules and common directories.\<close>

primrec protectCommonDir :: "(string \<Rightarrow> string) \<Rightarrow> nat \<Rightarrow> shareRoot \<Rightarrow> string \<Rightarrow> unit git" where
  "protectCommonDir ul 0 r dir = fail OutOfFuel"
| "protectCommonDir ul (Suc n) r dir =
     bindE (gets (\<lambda>p. dir \<in> set (gp_done p))) (\<lambda>known.
       if known then ret ()
       else
         bindE (protect_common ul dir) (\<lambda>_.
         let modules = PathJoin [dir, ''modules''] in
         bindE (gets (\<lambda>p. stat (gp_host p) modules)) (\<lambda>info.
           case info of
             Inl _ \<Rightarrow> ret ()
           | Inr _ \<Rightarrow> WalkDir (module_visit (gitDir ul (protectCommonDir ul n)) r modules) modules)))"

abbreviation git_dir :: "(string \<Rightarrow> string) \<Rightarrow> nat \<Rightarrow> shareRoot \<Rightarrow> string \<Rightarrow> string \<Rightarrow> unit git" where
  "git_dir ul n \<equiv> gitDir ul (protectCommonDir ul n)"

definition linked :: "(string \<Rightarrow> string) \<Rightarrow> nat \<Rightarrow> string \<Rightarrow> string \<Rightarrow> unit git" where
  "linked ul n target worktree =
     bindE (gets (\<lambda>p. locate p target)) (\<lambda>located.
     bindE (lift located) (\<lambda>found.
       case found of
         None \<Rightarrow> ret ()
       | Some (r, dir) \<Rightarrow>
           bindE (gets (\<lambda>p. stat (gp_host p) dir)) (\<lambda>info.
             if (case info of Inr d \<Rightarrow> is_folder d | Inl _ \<Rightarrow> False) then git_dir ul n r dir worktree else ret ())))"

definition repo :: "(string \<Rightarrow> string) \<Rightarrow> nat \<Rightarrow> shareRoot \<Rightarrow> string \<Rightarrow> node \<Rightarrow> unit git" where
  "repo ul n r gitPath d =
     (let worktree = PathDir gitPath in
      bindE (modify (pinHost (PathDir gitPath))) (\<lambda>_.
        if is_folder d then git_dir ul n r gitPath worktree
        else bindE (modify (readOnlyHost gitPath)) (\<lambda>_.
          if \<not> is_regular d then ret ()
          else bindE (gets (\<lambda>p. readPointer (gp_host p) gitPath)) (\<lambda>content.
            case content of
              None \<Rightarrow> ret ()
            | Some c \<Rightarrow>
                (case CutPrefix c ''gitdir:'' of
                   None \<Rightarrow> ret ()
                 | Some tgt \<Rightarrow> linked ul n (resolvePointer worktree (TrimSpace tgt)) worktree)))))"

section \<open>The scan\<close>

definition isBareRepo :: "host \<Rightarrow> string \<Rightarrow> bool" where
  "isBareRepo H dir \<longleftrightarrow>
     (case lstat H (PathJoin [dir, ''HEAD'']) of Inr n \<Rightarrow> is_regular n | Inl _ \<Rightarrow> False) \<and>
     list_all (\<lambda>sub. case lstat H (PathJoin [dir, sub]) of Inr n \<Rightarrow> is_folder n | Inl _ \<Rightarrow> False) [''objects'', ''refs'']"

definition scan_visit :: "(string \<Rightarrow> string) \<Rightarrow> nat \<Rightarrow> shareRoot \<Rightarrow> callback" where
  "scan_visit ul n r hostPath d =
     (case d of
        Inl e \<Rightarrow> if hostPath = sr_real r then fail (ScanFailed (sr_host r) e) else ret Continue
      | Inr nd \<Rightarrow>
          bindE (gets gp_mounts) (\<lambda>mounts.
          if hostPath \<noteq> sr_real r \<and> is_folder nd \<and> guestOf r hostPath \<in> set mounts then ret SkipDir
          else if Base hostPath = ''.git'' \<and> hostPath \<noteq> sr_real r then
            bindE (repo ul n r hostPath nd) (\<lambda>_. ret (if is_folder nd then SkipDir else Continue))
          else if \<not> is_folder nd then ret Continue
          else if hostPath \<noteq> sr_real r \<and> Base hostPath \<in> set gitScanSkip then ret SkipDir
          else bindE (gets (\<lambda>p. isBareRepo (gp_host p) hostPath)) (\<lambda>bare.
            if bare then bindE (git_dir ul n r hostPath []) (\<lambda>_. ret SkipDir)
            else bindE (modify (\<lambda>p. p\<lparr>gp_scanned := gp_scanned p + 1\<rparr>)) (\<lambda>_.
                 bindE (gets gp_scanned) (\<lambda>scanned. if scanned > maxGitScanDirs then fail TooManyDirs else ret Continue)))))"

text \<open>The roots and the mounts of the shares.\<close>

fun share_roots :: "host \<Rightarrow> Share list \<Rightarrow> (git_error, shareRoot list) result" where
  "share_roots H [] = Inr []"
| "share_roots H (s # ss) =
     (if ReadOnly s then share_roots H ss
      else case EvalSymlinks H (Clean (HostPath s)) of
             Inl e \<Rightarrow> Inl (ScanFailed (Clean (HostPath s)) e)
           | Inr real \<Rightarrow>
               rbind (share_roots H ss) (\<lambda>rs.
               Inr (\<lparr>sr_guest = Clean (guestPath s), sr_host = Clean (HostPath s), sr_real = real\<rparr> # rs)))"

definition inherit :: "(string \<Rightarrow> string) \<Rightarrow> string \<Rightarrow> unit git" where
  "inherit ul path =
     bindE (gets gp_inherited) (\<lambda>cfg.
     bindE (read_config ul path cfg) (\<lambda>cfg'. modify (\<lambda>p. p\<lparr>gp_inherited := cfg'\<rparr>)))"

definition scan_shares :: "(string \<Rightarrow> string) \<Rightarrow> nat \<Rightarrow> string list \<Rightarrow> unit git" where
  "scan_shares ul n inherited =
     bindE (each_do (inherit ul) inherited) (\<lambda>_.
     bindE (modify (\<lambda>p. p\<lparr>gp_inherited := (gp_inherited p)\<lparr>gc_worktreeConfig := False\<rparr>\<rparr>)) (\<lambda>_.
     bindE (gets gp_roots) (\<lambda>roots.
     each_do (\<lambda>r. WalkDir (scan_visit ul n r) (sr_real r)) roots)))"

definition new_protector :: "host \<Rightarrow> Share list \<Rightarrow> shareRoot list \<Rightarrow> gitProtector" where
  "new_protector H shares roots =
     \<lparr>gp_roots = roots, gp_mounts = map (\<lambda>s. Clean (guestPath s)) shares, gp_pins = [], gp_ro = [], gp_done = [],
      gp_config = [], gp_inherited = no_config, gp_scanned = 0, gp_host = H\<rparr>"

definition gitProtection ::
  "(string \<Rightarrow> string) \<Rightarrow> nat \<Rightarrow> Share list \<Rightarrow> string list \<Rightarrow> host \<Rightarrow> (git_error, string list \<times> string list) result \<times> host" where
  "gitProtection ul n shares inherited H =
     (case share_roots H shares of
        Inl e \<Rightarrow> (Inl e, H)
      | Inr roots \<Rightarrow>
          (case scan_shares ul n inherited (new_protector H shares roots) of
             (Inl e, p) \<Rightarrow> (Inl e, gp_host p)
           | (Inr _, p) \<Rightarrow> (Inr (sort (gp_pins p), sort (gp_ro p)), gp_host p)))"

text \<open>The configuration files every repository inherits; \<open>env\<close> gives the variables, None when unset.\<close>

definition gitInheritedConfig :: "(string \<Rightarrow> string) \<Rightarrow> (string \<Rightarrow> string) \<Rightarrow> string option \<Rightarrow> string list" where
  "gitInheritedConfig ul getenv home =
     (let system =
            (if gitBool ul (getenv ''GIT_CONFIG_NOSYSTEM'') then []
             else if getenv ''GIT_CONFIG_SYSTEM'' \<noteq> [] then [getenv ''GIT_CONFIG_SYSTEM'']
             else [''/etc/gitconfig'', ''/opt/homebrew/etc/gitconfig'', ''/usr/local/etc/gitconfig'',
                   ''/Library/Developer/CommandLineTools/usr/share/git-core/gitconfig'',
                   ''/Applications/Xcode.app/Contents/Developer/usr/share/git-core/gitconfig''])
      in if getenv ''GIT_CONFIG_GLOBAL'' \<noteq> [] then system @ [getenv ''GIT_CONFIG_GLOBAL'']
         else case home of
           None \<Rightarrow> system
         | Some h \<Rightarrow>
             let xdg = (if getenv ''XDG_CONFIG_HOME'' \<noteq> [] then getenv ''XDG_CONFIG_HOME'' else PathJoin [h, ''.config''])
             in system @ [PathJoin [xdg, ''git'', ''config''], PathJoin [h, ''.gitconfig'']])"

end
