(* ===== verification/SharesProps.thy ===== *)
theory SharesProps
  imports Shares WorkspaceProps
begin

text \<open>
  What the shares of a workspace VM guarantee: links inside read-write shares do not decide which host
  directories are shared, the guest paths and modes of the shares follow the entries of the
  workspace, and the sizes of the VM are exact.
\<close>

section \<open>Links inside shares\<close>

lemma rel_elems_dot: "plain x \<Longrightarrow> x \<noteq> [] \<Longrightarrow> Join x ''/'' \<noteq> ''.''"
proof
  assume p: "plain x" "x \<noteq> []" and e: "Join x ''/'' = ''.''"
  have "Split CHR ''/'' (Join x ''/'') = x" using p by (intro Split_Join) (auto simp: plain_def)
  then have "x = [''.'']" using e by (simp add: Split_single)
  with p(1) show False by simp
qed

lemma inside_root_iff: "plain k \<Longrightarrow> plain r \<Longrightarrow> inside_root (path_of k) (path_of r) \<longleftrightarrow> strict_prefix r k"
proof -
  assume p: "plain k" "plain r"
  show ?thesis
  proof (cases "prefix r k")
    case True
    then obtain x where x: "k = r @ x" by (auto simp: prefix_def)
    with p have "plain x" by simp
    have "IsLocal (rel_elems x)" using Rel_local [of r k] Rel_below [of r x] p x True by simp
    then show ?thesis using p x rel_elems_dot [OF \<open>plain x\<close>]
      by (auto simp: inside_root_def Rel_below rel_elems_def strict_prefix_def)
  next
    case False
    then show ?thesis using Rel_local [of r k] p by (auto simp: inside_root_def strict_prefix_def split: option.split_asm)
  qed
qed

lemma find_root_None:
  assumes "plain k" and "list_all plain roots"
  shows "find_root (path_of k) (map path_of roots) = None \<longleftrightarrow> (\<forall>r \<in> set roots. \<not> strict_prefix r k)"
proof -
  have "inside_root (path_of k) (map path_of roots ! i) \<longleftrightarrow> strict_prefix (roots ! i) k" if "i < length roots" for i
    using that assms by (simp add: inside_root_iff list_all_length)
  then show ?thesis by (auto simp: find_root_def find_None_iff all_set_conv_all_nth)
qed

text \<open>File systems that differ only in links strictly inside the roots.\<close>

definition relinked :: "string list list \<Rightarrow> host \<Rightarrow> host \<Rightarrow> bool" where
  "relinked roots H H' \<longleftrightarrow>
     h_cwd H' = h_cwd H \<and>
     (\<forall>k. node_at H' k \<noteq> node_at H k \<longrightarrow> (\<exists>r \<in> set roots. strict_prefix r k) \<and> (\<exists>t. node_at H k = Some (Symlink t)))"

lemma relinked_same:
  "relinked roots H H' \<Longrightarrow> (\<And>t. node_at H k \<noteq> Some (Symlink t)) \<Longrightarrow> node_at H' k = node_at H k"
  "relinked roots H H' \<Longrightarrow> (\<And>r. r \<in> set roots \<Longrightarrow> \<not> strict_prefix r k) \<Longrightarrow> node_at H' k = node_at H k"
  by (meson relinked_def)+

lemma real_path_node: "real_path H c \<Longrightarrow> node_at H c \<noteq> Some (Symlink t)"
  by (auto simp: real_path_def)

lemma real_path_butlast:
  assumes "real_path H c"
  shows "real_path H (butlast c)"
proof (cases "c = []")
  case False
  then obtain w where "node_at H (butlast c) = Some (Folder True w)" "way H (butlast c)"
    using way_butlast [of H c] assms by (auto simp: real_path_def)
  then show ?thesis using assms by (simp add: real_path_def plain_butlast)
qed simp

lemma link_walk_stable:
  assumes "link_walk H path (map path_of roots) hops cur rest = Inr None" and "cur = path_of c"
    and "real_path H c" and "list_all plain roots" and "list_all (\<lambda>e. CHR ''/'' \<notin> set e) rest" and "relinked roots H H'"
  shows "namei H' h True c rest = namei H h True c rest"
  using assms
proof (induction H path "map path_of roots" hops cur rest arbitrary: c h rule: link_walk.induct)
  case (2 H path hops cur e es)
  have c: "plain c" "way H c" "node_at H' c = node_at H c"
    using "2.prems"(3) relinked_same(1) [OF "2.prems"(6) real_path_node [OF "2.prems"(3)]] by (simp_all add: real_path_def)
  have es: "list_all (\<lambda>e. CHR ''/'' \<notin> set e) es" "CHR ''/'' \<notin> set e" using "2.prems"(5) by auto
  consider "e = [] \<or> e = ''.''" | "e = ''..''" | "e \<notin> {[], ''.'', ''..''}" by blast
  then show ?case
  proof cases
    case 1
    then have "link_walk H path (map path_of roots) hops cur es = Inr None" using "2.prems"(1) by auto
    from "2.hyps"(1) [OF 1 this "2.prems"(2-4) es(1) "2.prems"(6)] show ?thesis
      using 1 c(3) by (auto split: option.split node.split)
  next
    case 2
    then have "link_walk H path (map path_of roots) hops (PathDir cur) es = Inr None" using "2.prems"(1) by auto
    moreover have "PathDir cur = path_of (butlast c)" using "2.prems"(2) c(1) by (simp add: PathDir_path_of)
    ultimately have "namei H' h True (butlast c) es = namei H h True (butlast c) es"
      using "2.hyps"(2) [OF _ 2 _ _ real_path_butlast [OF "2.prems"(3)] "2.prems"(4) es(1) "2.prems"(6)] 2 by auto
    then show ?thesis using 2 c(3) by (auto split: option.split node.split)
  next
    case 3
    show ?thesis
    proof (cases "\<exists>w. node_at H c = Some (Folder True w)")
      case True
      then obtain w where w: "node_at H c = Some (Folder True w)" by blast
      have pe: "plain (c @ [e])" using c(1) 3 es(2) by simp
      have nx: "PathJoin [cur, e] = path_of (c @ [e])" using "2.prems"(2) PathJoin_elem [of c e] pe by simp
      note ls = lstat_below [OF c(2) pe w]
      have len: "length (path_of (c @ [e])) < pathMax"
        using "2.prems"(1) 3 nx ls by (cases "length (path_of (c @ [e])) < pathMax") (auto simp: Let_def)
      show ?thesis
      proof (cases "node_at H (c @ [e])")
        case None
        then have "node_at H' (c @ [e]) = None" using relinked_same(1) [OF "2.prems"(6), of "c @ [e]"] by simp
        then show ?thesis using None w c(3) 3 by auto
      next
        case (Some n)
        then have ln: "lstat H (PathJoin [cur, e]) = Inr n" using ls len nx by simp
        show ?thesis
        proof (cases "is_link n")
          case True
          then obtain t where t: "n = Symlink t" by (auto simp: is_link_iff)
          have fr: "find_root (path_of (c @ [e])) (map path_of roots) = None"
            using "2.prems"(1) 3 ln nx t by (cases "find_root (path_of (c @ [e])) (map path_of roots)") (auto simp: Let_def)
          then have "node_at H' (c @ [e]) = node_at H (c @ [e])"
            using find_root_None [OF pe "2.prems"(4)] relinked_same(2) [OF "2.prems"(6)] by blast
          then have s': "node_at H' (c @ [e]) = Some (Symlink t)" using Some t by simp
          obtain m where m: "hops = Suc m" using "2.prems"(1) 3 ln nx t fr by (cases hops) (auto simp: Let_def)
          have lw: "link_walk H path (map path_of roots) m (if IsAbs t then ''/'' else cur) (Split CHR ''/'' t @ es) = Inr None"
            using "2.prems"(1) 3 ln nx t fr m by (simp add: Let_def)
          have cu: "(if IsAbs t then ''/'' else cur) = path_of (if IsAbs t then [] else c)"
            using "2.prems"(2) by (simp add: path_of_def)
          have sl: "list_all (\<lambda>e. CHR ''/'' \<notin> set e) (Split CHR ''/'' t @ es)" using es(1) Split_no_sep by (auto simp: list_all_iff)
          have rp: "real_path H (if IsAbs t then [] else c)" using "2.prems"(3) by simp
          have "namei H' k True (if IsAbs t then [] else c) (Split CHR ''/'' t @ es) = namei H k True (if IsAbs t then [] else c) (Split CHR ''/'' t @ es)" for k
            using "2.hyps"(5) [OF _ _ refl ln t _ m lw cu rp "2.prems"(4) sl "2.prems"(6)] 3 fr nx by auto
          then show ?thesis using w c(3) 3 Some t s' by (cases h) auto
        next
          case False
          then have n': "node_at H' (c @ [e]) = Some n" using Some relinked_same(1) [OF "2.prems"(6), of "c @ [e]"] by (auto simp: is_link_iff)
          have rp: "real_path H (c @ [e])" using pe Some False w c(2) by (auto simp: real_path_def way_snoc)
          have "link_walk H path (map path_of roots) hops (PathJoin [cur, e]) es = Inr None"
            using "2.prems"(1) 3 ln False by (cases n) (auto simp: Let_def)
          then have "namei H' h True (c @ [e]) es = namei H h True (c @ [e]) es"
            using "2.hyps"(3,4,6) [OF _ _ refl ln] 3 False nx rp "2.prems"(4,6) es(1) by (cases n) auto
          then show ?thesis using w c(3) 3 Some n' False by (cases n) auto
        qed
      qed
    next
      case False
      then show ?thesis using c(3) 3 by (auto split: option.split node.split)
    qed
  qed
qed simp

definition rw_real :: "host \<Rightarrow> Share list \<Rightarrow> string list list" where
  "rw_real H shares = map (\<lambda>r. elems (snd r)) (rw_roots H shares)"

lemma rw_roots_real:
  assumes "\<forall>w \<in> set shares. IsAbs (HostPath w)"
  shows "map snd (rw_roots H shares) = map path_of (rw_real H shares)" and "list_all plain (rw_real H shares)"
proof -
  have r: "\<exists>p. real = path_of p \<and> plain p" if "(hp, real) \<in> set (rw_roots H shares)" for hp real
  proof -
    from that obtain w where "w \<in> set shares" "EvalSymlinks H (HostPath w) = Inr real"
      by (auto simp: rw_roots_def List.map_filter_def split: if_split_asm sum.split_asm)
    then obtain p where "real = path_of p" "real_path H p" using EvalSymlinks_real assms by blast
    then show ?thesis by (auto simp: real_path_def)
  qed
  show "list_all plain (rw_real H shares)" by (simp add: rw_real_def list_all_iff)
  have "snd x = path_of (elems (snd x))" if "x \<in> set (rw_roots H shares)" for x
    using r [of "fst x" "snd x"] that by auto
  then show "map snd (rw_roots H shares) = map path_of (rw_real H shares)" by (simp add: rw_real_def)
qed

lemma linkInside_stable:
  assumes "linkInside H (path_of p) (map path_of roots) = Inr None" and "plain p" and "list_all plain roots" and "relinked roots H H'"
  shows "resolve_path H' True (path_of p) = resolve_path H True (path_of p)"
proof -
  have "link_walk H (path_of p) (map path_of roots) maxLinkHops (path_of []) (Split CHR ''/'' (path_of p)) = Inr None"
    using assms(1,2) by (simp add: linkInside_def Abs_path_def path_of_def [of "[]"] Let_def)
  from link_walk_stable [OF this refl real_path_Nil assms(3) _ assms(4), of maxSymlinks]
  show ?thesis by (simp add: resolve_path_def list_all_iff Split_no_sep)
qed

section \<open>Properties\<close>


text \<open>A workspace directory with a link in it, and a link outside to a directory that is shared too.\<close>

definition two_dirs :: "string \<Rightarrow> host" where
  "two_dirs tgt =
     \<lparr>h_nodes = [([''w''], Folder True True), ([''w'', ''l''], Symlink tgt), ([''data''], Folder True True), ([''d''], Symlink ''/data'')],
      h_cwd = [], h_home = Some ''/home/u''\<rparr>"

definition two_shares :: "Share list" where
  "two_shares = [\<lparr>HostPath = ''/d'', GuestPath = ''/d'', ReadOnly = True\<rparr>, \<lparr>HostPath = ''/w'', GuestPath = ''/w'', ReadOnly = False\<rparr>]"

lemma two_dirs_relinked: "relinked [[''w'']] (two_dirs t) (two_dirs t')"
  by (simp add: relinked_def two_dirs_def node_at_def)


section \<open>The shares of a workspace\<close>

text \<open>The entries of a workspace for its shares, in order: host path, guest path, read-only.\<close>

type_synonym entry = "string \<times> string \<times> bool"

definition add_entry :: "entry \<Rightarrow> share_map \<Rightarrow> share_map" where
  "add_entry e m = (case e of (hp, gp, ro) \<Rightarrow> add_share hp gp ro m)"

definition entries_at :: "entry list \<Rightarrow> string \<Rightarrow> entry list" where
  "entries_at es g = filter (\<lambda>(_, gp, _). Clean gp = g) es"

definition share_at :: "entry list \<Rightarrow> string \<Rightarrow> Share option" where
  "share_at es g =
     (if entries_at es g = [] then None
      else Some \<lparr>HostPath = Clean (fst (last (entries_at es g))), GuestPath = g,
                 ReadOnly = list_all (\<lambda>(_, _, ro). ro) (entries_at es g)\<rparr>)"

definition mount_entry :: "(string \<Rightarrow> (string \<times> string) option) \<Rightarrow> string option \<Rightarrow> string \<Rightarrow> entry option" where
  "mount_entry pv home spec =
     (case ParseMount pv home spec of
        Inl _ \<Rightarrow> None
      | Inr m \<Rightarrow>
          if m_Host m = [] then None
          else (case ExpandPath home (m_Host m) of Inl _ \<Rightarrow> None | Inr hp \<Rightarrow> Some (hp, m_Container m, m_Mode m = ''ro'')))"

lemma add_entries: "map_of (fold add_entry es []) g = share_at es g"
proof (induction es rule: rev_induct)
  case Nil
  then show ?case by (simp add: share_at_def entries_at_def)
next
  case (snoc e es)
  obtain hp gp ro where e: "e = (hp, gp, ro)" by (cases e)
  let ?m = "fold add_entry es []"
  have "map_of (fold add_entry (es @ [e]) []) g =
      (if Clean gp = g then Some \<lparr>HostPath = Clean hp, GuestPath = g, ReadOnly = (case map_of ?m g of Some prev \<Rightarrow> ReadOnly prev \<and> ro | None \<Rightarrow> ro)\<rparr>
       else map_of ?m g)"
    by (simp add: e add_entry_def add_share_def Let_def update_conv')
  then show ?case unfolding snoc.IH by (auto simp: share_at_def entries_at_def e)
qed

lemma keys_entries: "fst ` set (fold add_entry es []) = (\<lambda>e. Clean (fst (snd e))) ` set es"
proof (rule set_eqI)
  fix g
  have "g \<in> fst ` set (fold add_entry es []) \<longleftrightarrow> share_at es g \<noteq> None"
    by (simp add: map_of_eq_None_iff flip: add_entries)
  also have "\<dots> \<longleftrightarrow> g \<in> (\<lambda>e. Clean (fst (snd e))) ` set es"
    by (auto simp: share_at_def entries_at_def filter_empty_conv case_prod_beta)
  finally show "g \<in> fst ` set (fold add_entry es []) \<longleftrightarrow> g \<in> (\<lambda>e. Clean (fst (snd e))) ` set es" .
qed

lemma mount_source_home: "mount_source p H = (r, H') \<Longrightarrow> h_home H' = h_home H"
  using MkdirAll_extends [of H p] by (auto simp: mount_source_def extends_cwd split: sum.split_asm if_split_asm prod.split_asm)

lemma share_mount_entry:
  assumes "share_mount pv spec m H = (Inr m', H')"
  shows "m' = fold add_entry (case mount_entry pv (h_home H) spec of None \<Rightarrow> [] | Some e \<Rightarrow> [e]) m \<and> h_home H' = h_home H"
proof (cases "ParseMount pv (h_home H) spec")
  case (Inl e)
  then show ?thesis using assms by (simp add: share_mount_def rwrap_def)
next
  case (Inr mount)
  show ?thesis
  proof (cases "m_Host mount = []")
    case True
    then show ?thesis using assms Inr by (auto simp: share_mount_def rwrap_def mount_entry_def)
  next
    case False
    then show ?thesis using assms Inr
      by (cases "ExpandPath (h_home H) (m_Host mount)")
        (auto simp: share_mount_def rwrap_def mount_entry_def add_entry_def bindE_Inr dest: mount_source_home)
  qed
qed

lemma share_mounts_entries:
  "share_mounts pv specs m H = (Inr m', H') \<Longrightarrow>
   m' = fold add_entry (List.map_filter (mount_entry pv (h_home H)) specs) m \<and> h_home H' = h_home H"
proof (induction specs arbitrary: m H)
  case (Cons spec specs)
  then obtain m1 H1 where 1: "share_mount pv spec m H = (Inr m1, H1)" "share_mounts pv specs m1 H1 = (Inr m', H')"
    by (auto simp: bindE_Inr)
  from share_mount_entry [OF 1(1)] Cons.IH [OF 1(2)] show ?case
    by (auto simp: List.map_filter_simps split: option.split)
qed (simp add: List.map_filter_simps)

text \<open>State directories of a named profile fill guest paths no other entry has, read-write.\<close>

definition state_entry :: "string \<Rightarrow> Resolved \<Rightarrow> StateDir list \<Rightarrow> share_map \<Rightarrow> entry \<Rightarrow> bool" where
  "state_entry profiles ws ds m e \<longleftrightarrow>
     (case e of (hp, gp, ro) \<Rightarrow>
        \<not> ro \<and> Clean gp \<notin> fst ` set m \<and>
        (\<exists>d \<in> set ds. gp = sd_Path d \<and> hp = PathJoin [profiles, workspaceProfile ws, sd_Name d]))"

lemma state_entry_mono:
  "state_entry profiles ws ds m1 e \<Longrightarrow> fst ` set m \<subseteq> fst ` set m1 \<Longrightarrow> state_entry profiles ws (d # ds) m e"
  by (cases e) (auto simp: state_entry_def)

lemma share_states_entries:
  "share_states sl profiles ws ds m H = (Inr m', H') \<Longrightarrow>
   \<exists>es. m' = fold add_entry es m \<and> (\<forall>e \<in> set es. state_entry profiles ws ds m e)"
proof (induction ds arbitrary: m H)
  case Nil
  then have "m' = fold add_entry [] m" by simp
  then show ?case by (intro exI [of _ "[]"]) simp
next
  case (Cons d ds)
  then obtain m1 H1 where 1: "share_state sl profiles ws d m H = (Inr m1, H1)" "share_states sl profiles ws ds m1 H1 = (Inr m', H')"
    by (auto simp: bindE_Inr)
  let ?e = "(PathJoin [profiles, workspaceProfile ws, sd_Name d], sd_Path d, False)"
  have m1: "m1 = (if Clean (sd_Path d) \<in> fst ` set m then m else add_entry ?e m)"
    using 1(1) by (auto simp: share_state_def add_entry_def Let_def split: if_split_asm prod.split_asm sum.split_asm)
  have sub: "fst ` set m \<subseteq> fst ` set m1" using m1 by (auto simp: add_entry_def add_share_def Let_def keys_update)
  from Cons.IH [OF 1(2)] obtain es where es: "m' = fold add_entry es m1" "\<forall>e \<in> set es. state_entry profiles ws ds m1 e" by blast
  then have mono: "\<forall>e \<in> set es. state_entry profiles ws (d # ds) m e" using state_entry_mono [OF _ sub] by blast
  show ?case
  proof (cases "Clean (sd_Path d) \<in> fst ` set m")
    case True
    with m1 es(1) mono show ?thesis by auto
  next
    case False
    then have "state_entry profiles ws (d # ds) m ?e" by (simp add: state_entry_def)
    with False m1 es(1) mono show ?thesis by (intro exI [of _ "?e # es"]) simp
  qed
qed

text \<open>The shares of a workspace. When \<open>vmShares\<close> succeeds there is one share per cleaned guest path of the
  workspace paths, the mounts that name a host directory and, with a named profile, the state
  directories no other entry covers, in the order of the guest paths and not more than the VM has
  interrupt lines for. A share leads to the host path of the last entry for its guest path, and
  it is read-only exactly when every entry for that guest path is.\<close>

theorem workspace_shares:
  assumes "vmShares pv sl profiles arch ws H = (Inr shares, H')"
  shows "\<exists>states. (\<forall>e \<in> set states. state_entry profiles ws (h_State (r_Agent ws)) [] e) \<and>
     (workspaceProfile ws = [] \<longrightarrow> states = []) \<and>
     (let es = map (\<lambda>p. (p, p, False)) (r_Paths ws) @ List.map_filter (mount_entry pv (h_home H)) (r_Mounts ws) @ states in
      sorted (map GuestPath shares) \<and> distinct (map GuestPath shares) \<and> int (length shares) \<le> maxShares arch (r_EnableDocker ws) \<and>
      set (map GuestPath shares) = (\<lambda>e. Clean (fst (snd e))) ` set es \<and>
      (\<forall>s \<in> set shares. share_at es (GuestPath s) = Some s))"
proof -
  let ?paths = "map (\<lambda>p. (p, p, False)) (r_Paths ws)"
  let ?mounts = "List.map_filter (mount_entry pv (h_home H)) (r_Mounts ws)"
  have m0: "fold (\<lambda>p. add_share p p False) (r_Paths ws) [] = fold add_entry ?paths []"
  proof -
    have "(\<lambda>p. add_share p p False) = (\<lambda>p. add_entry (p, p, False))" by (simp add: add_entry_def fun_eq_iff)
    then show ?thesis by (simp add: fold_map comp_def)
  qed
  obtain m1 H1 m2 H2 where 1: "share_mounts pv (r_Mounts ws) (fold add_entry ?paths []) H = (Inr m1, H1)"
    and 2: "(if workspaceProfile ws \<noteq> [] then share_states sl profiles ws (h_State (r_Agent ws)) m1 else ret m1) H1 = (Inr m2, H2)"
    and 3: "shares = share_list m2" "int (length shares) \<le> maxShares arch (r_EnableDocker ws)"
  proof -
    let ?last = "\<lambda>m. if int (length (share_list m)) > maxShares arch (r_EnableDocker ws)
        then fail (TooManyShares (length (share_list m)) (maxShares arch (r_EnableDocker ws)))
        else bindE (gets (\<lambda>H. checkNestedShares H (share_list m))) (\<lambda>checked. bindE (lift checked) (\<lambda>_. ret (share_list m)))"
    have last: "shares = share_list m \<and> int (length shares) \<le> maxShares arch (r_EnableDocker ws)" if "?last m K = (Inr shares, H')" for m K
      using that by (auto split: if_split_asm sum.split_asm)
    from assms obtain m1 H1 where a: "share_mounts pv (r_Mounts ws) (fold add_entry ?paths []) H = (Inr m1, H1)"
        "bindE (if workspaceProfile ws \<noteq> [] then share_states sl profiles ws (h_State (r_Agent ws)) m1 else ret m1) ?last H1 = (Inr shares, H')"
      unfolding vmShares_def m0 Let_def by (subst (asm) bindE_Inr) blast
    from a(2) obtain m2 H2 where "(if workspaceProfile ws \<noteq> [] then share_states sl profiles ws (h_State (r_Agent ws)) m1 else ret m1) H1 = (Inr m2, H2)"
        "?last m2 H2 = (Inr shares, H')" by (subst (asm) bindE_Inr) blast
    with a(1) last that show ?thesis by blast
  qed
  have m1: "m1 = fold add_entry (?paths @ ?mounts) []" using share_mounts_entries [OF 1] by simp
  obtain states where st: "m2 = fold add_entry states m1" "\<forall>e \<in> set states. state_entry profiles ws (h_State (r_Agent ws)) [] e"
    "workspaceProfile ws = [] \<longrightarrow> states = []"
  proof (cases "workspaceProfile ws = []")
    case True
    with 2 that [of "[]"] show ?thesis by simp
  next
    case False
    with 2 share_states_entries [of sl profiles ws "h_State (r_Agent ws)" m1 H1 m2 H2] obtain states where
      s: "m2 = fold add_entry states m1" "\<forall>e \<in> set states. state_entry profiles ws (h_State (r_Agent ws)) m1 e" by auto
    then have "\<forall>e \<in> set states. state_entry profiles ws (h_State (r_Agent ws)) [] e" by (auto simp: state_entry_def)
    with False s(1) that show ?thesis by blast
  qed
  let ?es = "?paths @ ?mounts @ states"
  have m2: "m2 = fold add_entry ?es []" using st(1) m1 by simp
  have at: "share_at ?es g = Some (the (map_of m2 g)) \<and> GuestPath (the (map_of m2 g)) = g" if g: "g \<in> set (sorted_keys m2)" for g
  proof -
    obtain s where s: "map_of m2 g = Some s" using sorted_keys_lookup [OF g] by blast
    have "share_at ?es g = map_of m2 g" unfolding m2 by (rule add_entries [symmetric])
    with s show ?thesis by (auto simp: share_at_def split: if_split_asm)
  qed
  have keys: "map GuestPath shares = sorted_keys m2" unfolding 3(1) share_list_def map_map by (rule map_idI) (use at in simp)
  have "set (map GuestPath shares) = (\<lambda>e. Clean (fst (snd e))) ` set ?es"
    unfolding keys set_sorted_keys m2 by (rule keys_entries)
  moreover have "\<forall>s \<in> set shares. share_at ?es (GuestPath s) = Some s" unfolding 3(1) share_list_def using at by auto
  ultimately show ?thesis using st(2,3) 3(2) keys unfolding Let_def by (intro exI [of _ states] conjI) simp_all
qed

text \<open>A workspace whose mount has the guest path of its workspace path.\<close>

definition over_ws :: Workspace where
  "over_ws = no_workspace\<lparr>w_Paths := [''/work/a''], w_Mounts := [''/srv/keys:/work/a:ro'']\<rparr>"

definition over_config :: Config where
  "over_config = example_config\<lparr>c_Defaults := no_defaults, c_Workspaces := [(''a'', over_ws)]\<rparr>"

definition over_host :: host where
  "over_host =
     \<lparr>h_nodes = [([''work''], Folder True True), ([''work'', ''a''], Folder True True), ([''srv''], Folder True True),
        ([''srv'', ''keys''], Folder True True), ([''home''], Folder True False), ([''home'', ''u''], Folder True True)],
      h_cwd = [], h_home = Some ''/home/u''\<rparr>"

definition over_resolved :: Resolved where
  "over_resolved = (case Resolve sys_example (Some over_config) ''a'' of Inr r \<Rightarrow> r)"

definition over_shares :: "Share list" where
  "over_shares =
     [\<lparr>HostPath = ''/home/u/.agents'', GuestPath = ''/home/agent/.agents'', ReadOnly = True\<rparr>,
      \<lparr>HostPath = ''/home/u/.config/opencode'', GuestPath = ''/home/agent/.config/opencode'', ReadOnly = False\<rparr>,
      \<lparr>HostPath = ''/home/u/.opencode'', GuestPath = ''/home/agent/.opencode'', ReadOnly = False\<rparr>,
      \<lparr>HostPath = ''/srv/keys'', GuestPath = ''/work/a'', ReadOnly = False\<rparr>]"

abbreviation over_run :: "(share_error, Share list) result \<times> host" where
  "over_run \<equiv> vmShares (sys_ParseVolume sys_example) (\<lambda>_ _ H. H) ''/profiles'' ''amd64'' over_resolved over_host"

lemma over_run_shares: "fst over_run = Inr over_shares"
  by code_simp

theorem workspace_shares_witness:
  "\<exists>H'. over_run = (Inr over_shares, H') \<and> sorted (map GuestPath over_shares) \<and> length over_shares = 4"
proof -
  have e: "over_run = (Inr over_shares, snd over_run)" using over_run_shares by (metis prod.collapse)
  from workspace_shares [OF e] have "sorted (map GuestPath over_shares)" by (auto simp: Let_def)
  moreover have "length over_shares = 4" by (simp add: over_shares_def)
  ultimately show ?thesis using e by blast
qed

text \<open>A read-only mount that is shared read-write. In this configuration, which validates, a mount gives the
  workspace path another host directory, read-only. The share that results leads to that
  directory and is read-write: the mode is combined with the one of the workspace path, which
  the mount replaces.\<close>

theorem read_only_mount_widened:
  "\<exists>H'. Validate sys_example (Some over_config) = Inr over_config \<and>
     Resolve sys_example (Some over_config) ''a'' = Inr over_resolved \<and>
     ''/srv/keys:/work/a:ro'' \<in> set (r_Mounts over_resolved) \<and> over_run = (Inr over_shares, H') \<and>
     \<lparr>HostPath = ''/srv/keys'', GuestPath = ''/work/a'', ReadOnly = False\<rparr> \<in> set over_shares"
proof -
  have "is_ok (Resolve sys_example (Some over_config) ''a'')" by code_simp
  then have "Resolve sys_example (Some over_config) ''a'' = Inr over_resolved" by (auto simp: over_resolved_def is_ok_iff)
  moreover have "Validate sys_example (Some over_config) = Inr over_config" by code_simp
  moreover have "''/srv/keys:/work/a:ro'' \<in> set (r_Mounts over_resolved)" by code_simp
  moreover have "over_run = (Inr over_shares, snd over_run)" using over_run_shares by (metis prod.collapse)
  moreover have "\<lparr>HostPath = ''/srv/keys'', GuestPath = ''/work/a'', ReadOnly = False\<rparr> \<in> set over_shares" by (simp add: over_shares_def)
  ultimately show ?thesis by blast
qed

section \<open>Sizes\<close>

definition size_digits :: "string \<Rightarrow> string" where
  "size_digits s = (if s \<noteq> [] \<and> last s \<in> set ''kmgKMG'' then butlast s else s)"

text \<open>The bytes a size of the configuration stands for.\<close>

definition size_bytes :: "string \<Rightarrow> int" where
  "size_bytes s = int (decimal (size_digits s)) * unit_mult s"

lemma unit_no_digit: "c \<in> set ''kmgKMG'' \<Longrightarrow> \<not> is_digit c"
  by (auto simp: is_digit_def)

lemma valid_digits: "validMemory s \<Longrightarrow> size_digits s \<noteq> [] \<and> hd (size_digits s) \<noteq> CHR ''0'' \<and> list_all is_digit (size_digits s)"
  by (simp add: validMemory_def size_digits_def Let_def)

lemma TrimRight_valid:
  assumes "validMemory s"
  shows "TrimRight_units s = size_digits s"
proof -
  have d: "size_digits s \<noteq> []" "list_all is_digit (size_digits s)" using valid_digits [OF assms] by auto
  then have l: "last (size_digits s) \<notin> set ''kmgKMG''" using unit_no_digit by (metis last_in_set list_all_iff)
  have stop: "rev (dropWhile (\<lambda>c. c \<in> set ''kmgKMG'') (rev t)) = t" if "t \<noteq> []" "last t \<notin> set ''kmgKMG''" for t
    using that by (cases t rule: rev_cases) auto
  show ?thesis
  proof (cases "s \<noteq> [] \<and> last s \<in> set ''kmgKMG''")
    case True
    then obtain c where s: "s = size_digits s @ [c]" "c \<in> set ''kmgKMG''"
      by (metis append_butlast_last_id size_digits_def)
    then have "TrimRight_units s = rev (dropWhile (\<lambda>c. c \<in> set ''kmgKMG'') (rev (size_digits s)))"
      by (metis TrimRight_units_def dropWhile.simps(2) rev.simps(2) rev_rev_ident rev_append append_Cons append_Nil rev_swap)
    with stop [OF d(1) l] show ?thesis by simp
  next
    case False
    then have "size_digits s = s" by (auto simp: size_digits_def)
    with stop [of s] d(1) l show ?thesis by (simp add: TrimRight_units_def)
  qed
qed

lemma Atoi_digits:
  assumes "ds \<noteq> []" and "list_all is_digit ds"
  shows "Atoi ds = (if int (decimal ds) < 2 ^ 63 then (int (decimal ds), True) else (2 ^ 63 - 1, False))"
proof -
  obtain c cs where c: "ds = c # cs" "is_digit c" using assms by (cases ds) auto
  then have "\<not> HasPrefix ds ''-''" "\<not> HasPrefix ds ''+''" using is_digit_neq [OF c(2)] by (auto simp: HasPrefix_def)
  then show ?thesis using assms by (simp add: Atoi_def Let_def)
qed

lemma decimal_grows: "foldl (\<lambda>n c. 10 * n + digit_val c) k cs \<ge> k"
proof (induction cs arbitrary: k)
  case (Cons c cs)
  from Cons.IH [of "10 * k + digit_val c"] show ?case by simp
qed simp

lemma digit_val_pos: "is_digit c \<Longrightarrow> c \<noteq> CHR ''0'' \<Longrightarrow> digit_val c > 0"
proof -
  assume c: "is_digit c" "c \<noteq> CHR ''0''"
  then have "of_char c \<noteq> (of_char CHR ''0'' :: nat)" by (metis of_char_eq_iff)
  with c(1) show ?thesis by (simp add: is_digit_def digit_val_def)
qed

lemma decimal_pos: "ds \<noteq> [] \<Longrightarrow> hd ds \<noteq> CHR ''0'' \<Longrightarrow> list_all is_digit ds \<Longrightarrow> decimal ds > 0"
  using decimal_grows [of "digit_val (hd ds)" "tl ds"] digit_val_pos [of "hd ds"]
  by (cases ds) (auto simp: decimal_def)

lemma wrap64_id: "- (2 ^ 63) \<le> x \<Longrightarrow> x < 2 ^ 63 \<Longrightarrow> wrap64 x = x"
  by (simp add: wrap64_def)

lemma unit_mult_range: "unit_mult s \<in> {1, 2 ^ 10, 2 ^ 20, 2 ^ 30}"
  by (simp add: unit_mult_def Let_def)

lemma times_gt_iff:
  assumes "(m :: int) > 0"
  shows "n > X div m \<longleftrightarrow> n * m > X"
proof
  assume "n > X div m"
  then have "(X div m + 1) * m \<le> n * m" using assms by (intro mult_right_mono) auto
  moreover have "X < (X div m + 1) * m"
    using pos_mod_bound [OF assms, of X] div_mult_mod_eq [of X m] unfolding distrib_right by linarith
  ultimately show "n * m > X" by simp
next
  assume gt: "n * m > X"
  show "n > X div m"
  proof (rule ccontr)
    assume "\<not> n > X div m"
    then have "n * m \<le> X div m * m" using assms by (intro mult_right_mono) auto
    moreover have "X div m * m \<le> X" using pos_mod_sign [OF assms, of X] div_mult_mod_eq [of X m] by linarith
    ultimately show False using gt by simp
  qed
qed

text \<open>Rounding up.\<close>

lemma ceil_div:
  fixes B k :: int
  assumes "k > 0"
  shows "(B + (k - 1)) div k = - ((- B) div k)"
    and "B \<le> k * - ((- B) div k)" and "k * - ((- B) div k) < B + k"
proof -
  have e: "- B = k * ((- B) div k) + (- B) mod k" by simp
  have r: "0 \<le> (- B) mod k" "(- B) mod k < k" using assms by simp_all
  show "B \<le> k * - ((- B) div k)" "k * - ((- B) div k) < B + k" using e r unfolding mult_minus_right by linarith+
  have "B + (k - 1) = k * - ((- B) div k) + (k - 1 - (- B) mod k)" using e unfolding mult_minus_right by linarith
  then show "(B + (k - 1)) div k = - ((- B) div k)" by (rule int_div_pos_eq) (use r in auto)
qed

lemma size_parse:
  assumes "validMemory s"
  shows "s \<noteq> []" and "unit_mult s > 0" and "size_bytes s > 0"
    and "Atoi (TrimRight_units s) = (n, ok) \<Longrightarrow> ok \<Longrightarrow> n * unit_mult s = size_bytes s \<and> n > 0"
    and "Atoi (TrimRight_units s) = (n, ok) \<Longrightarrow> \<not> ok \<Longrightarrow> size_bytes s \<ge> 2 ^ 63"
proof -
  have d: "size_digits s \<noteq> []" "hd (size_digits s) \<noteq> CHR ''0''" "list_all is_digit (size_digits s)"
    using valid_digits [OF assms] by auto
  show "s \<noteq> []" using d(1) by (auto simp: size_digits_def)
  show m: "unit_mult s > 0" by (simp add: unit_mult_def Let_def)
  have p: "decimal (size_digits s) > 0" by (rule decimal_pos [OF d])
  show "size_bytes s > 0" using m p by (simp add: size_bytes_def)
  have a: "Atoi (TrimRight_units s) = (if int (decimal (size_digits s)) < 2 ^ 63 then (int (decimal (size_digits s)), True) else (2 ^ 63 - 1, False))"
    unfolding TrimRight_valid [OF assms] by (rule Atoi_digits [OF d(1,3)])
  show "n * unit_mult s = size_bytes s \<and> n > 0" if "Atoi (TrimRight_units s) = (n, ok)" "ok"
    using that a p by (auto simp: size_bytes_def split: if_split_asm)
  show "size_bytes s \<ge> 2 ^ 63" if "Atoi (TrimRight_units s) = (n, ok)" "\<not> ok"
  proof -
    have "int (decimal (size_digits s)) \<ge> 2 ^ 63" using that a by (auto split: if_split_asm)
    moreover have "int (decimal (size_digits s)) * 1 \<le> int (decimal (size_digits s)) * unit_mult s"
      using m by (intro mult_left_mono) auto
    ultimately show ?thesis unfolding size_bytes_def mult_1_right by linarith
  qed
qed

text \<open>The sizes of a VM. A memory limit of a validated configuration is accepted exactly when it is above 511
  MiB and at most 2 to the 32 less one MiB, and the VM gets the limit rounded up to whole MiB. A size
  of the Docker disk is accepted exactly when it is above one GiB less one MiB and its rounding to whole
  MiB is an \<open>int64\<close>, which is then the size of the disk. The 64-bit arithmetic does not overflow.\<close>

theorem vm_sizes:
  assumes "validMemory s"
  shows "(vmMemoryMiB s = Inr m \<longleftrightarrow>
       511 * 2 ^ 20 < size_bytes s \<and> size_bytes s \<le> (2 ^ 32 - 1) * 2 ^ 20 \<and> uint m = - ((- size_bytes s) div 2 ^ 20)) \<and>
     (vmDockerDiskSize s = Inr b \<longleftrightarrow>
       2 ^ 30 - 2 ^ 20 < size_bytes s \<and> size_bytes s \<le> 2 ^ 63 - 2 ^ 20 \<and> b = 2 ^ 20 * - ((- size_bytes s) div 2 ^ 20))"
proof -
  obtain n ok where a: "Atoi (TrimRight_units s) = (n, ok)" by (cases "Atoi (TrimRight_units s)")
  note sp = size_parse(1-3) [OF assms]
  show ?thesis
  proof (cases ok)
    case False
    then have "size_bytes s \<ge> 2 ^ 63" using size_parse(5) [OF assms a] by simp
    with False a sp(1) show ?thesis by (simp add: vmMemoryMiB_def vmDockerDiskSize_def)
  next
    case True
    define B where "B = size_bytes s"
    have n: "n * unit_mult s = B" "n > 0" "B > 0" using size_parse(4) [OF assms a True] sp(3) by (auto simp: B_def)
    define c where "c = - ((- B) div 2 ^ 20)"
    have c: "drop_bit 20 (B + (2 ^ 20 - 1)) = c" "B + (2 ^ 20 - 1) - (B + (2 ^ 20 - 1)) mod 2 ^ 20 = 2 ^ 20 * c"
      unfolding drop_bit_eq_div c_def minus_mod_eq_mult_div using ceil_div(1) [of "2 ^ 20" B] by simp_all
    have cb: "B \<le> 2 ^ 20 * c" "2 ^ 20 * c < B + 2 ^ 20" using ceil_div(2,3) [of "2 ^ 20" B] by (simp_all add: c_def)
    have mem: "vmMemoryMiB s = (if (2 ^ 32 - 1) * 2 ^ 20 < B then Inl (SizeTooLarge s) else if c < 512 then Inl (SizeTooSmall s) else Inr (word_of_int c))"
    proof (cases "(2 ^ 32 - 1) * 2 ^ 20 < B")
      case False
      then have "wrap64 (wrap64 B + (2 ^ 20 - 1)) = B + (2 ^ 20 - 1)" using n(3) by (simp add: wrap64_id)
      with False show ?thesis using a True n sp(1) c(1) by (simp add: vmMemoryMiB_def times_gt_iff [OF sp(2)] vmMinMemoryMiB_def)
    qed (use a True n sp(1) in \<open>simp add: vmMemoryMiB_def times_gt_iff [OF sp(2)]\<close>)
    have disk: "vmDockerDiskSize s = (if 2 ^ 63 - 2 ^ 20 < B then Inl (SizeTooLarge s) else if 2 ^ 20 * c < 2 ^ 30 then Inl (SizeTooSmall s) else Inr (2 ^ 20 * c))"
    proof (cases "2 ^ 63 - 2 ^ 20 < B")
      case False
      then have "wrap64 (wrap64 B + (2 ^ 20 - 1)) = B + (2 ^ 20 - 1)" using n(3) by (simp add: wrap64_id)
      with False show ?thesis using a True n sp(1) c(2) by (simp add: vmDockerDiskSize_def times_gt_iff [OF sp(2)] vmMinDockerDiskSize_def Let_def)
    qed (use a True n sp(1) in \<open>simp add: vmDockerDiskSize_def times_gt_iff [OF sp(2)]\<close>)
    have big: "c < 512 \<longleftrightarrow> \<not> 511 * 2 ^ 20 < B" "2 ^ 20 * c < 2 ^ 30 \<longleftrightarrow> \<not> 2 ^ 30 - 2 ^ 20 < B" using cb by auto
    have w: "word_of_int c = m \<longleftrightarrow> uint m = c" if "B \<le> (2 ^ 32 - 1) * 2 ^ 20" "511 * 2 ^ 20 < B"
    proof -
      have "0 \<le> c" "c < 2 ^ 32" using that cb by simp_all
      then show ?thesis by (auto simp: uint_word_of_int unsigned_of_int take_bit_int_eq_self)
    qed
    show ?thesis unfolding mem disk B_def [symmetric] c_def [symmetric] using big w by auto
  qed
qed

theorem vm_sizes_witness:
  "validMemory ''513m'' \<and> vmMemoryMiB ''513m'' = Inr 513 \<and> vmDockerDiskSize ''1073741825'' = Inr (2 ^ 30 + 2 ^ 20)"
proof -
  have v: "validMemory ''513m''" "validMemory ''1073741825''" "size_bytes ''513m'' = 513 * 2 ^ 20" "size_bytes ''1073741825'' = 2 ^ 30 + 1"
    by code_simp+
  from vm_sizes [OF v(1), of 513] vm_sizes [OF v(2), of _ "2 ^ 30 + 2 ^ 20"] v show ?thesis by simp
qed

end
