(* ===== verification/GitProtectProps.thy ===== *)
theory GitProtectProps
  imports GitProtect SharesProps
begin

text \<open>
  What the scan for Git repositories guarantees. The locale \<open>scan_steps\<close> is the interface for relations
  between the states of the scan: it asks for the elementary steps and gives that every operation of
  \<open>GitProtect\<close> keeps the relation. It is interpreted for the growth of the state, for the invariant
  that protected paths have their parents pinned, and for the protection of a finished directory.
\<close>

section \<open>Relations the scan keeps\<close>

lemma keeps_cases:
  "(\<And>e. keeps R E (f e)) \<Longrightarrow> (\<And>a. keeps R E (g a)) \<Longrightarrow> keeps R E (case r of Inl e \<Rightarrow> f e | Inr a \<Rightarrow> g a)"
  "keeps R E m \<Longrightarrow> (\<And>a. keeps R E (h a)) \<Longrightarrow> keeps R E (case opt of None \<Rightarrow> m | Some a \<Rightarrow> h a)"
  "(\<And>a b. keeps R E (k a b)) \<Longrightarrow> keeps R E (case pr of (a, b) \<Rightarrow> k a b)"
  "(b \<Longrightarrow> keeps R E m) \<Longrightarrow> (\<not> b \<Longrightarrow> keeps R E n) \<Longrightarrow> keeps R E (if b then m else n)"
  by (auto split: sum.split option.split prod.split)

text \<open>The step of \<open>protectGitDir\<close> for a git directory with a common directory.\<close>

definition mark_worktree :: "string \<Rightarrow> gitProtector \<Rightarrow> gitProtector" where
  "mark_worktree dir p =
     (if dir \<in> set (gp_done p) then p
      else readOnlyHost (PathJoin [dir, ''commondir'']) (pinHost dir (p\<lparr>gp_done := dir # gp_done p\<rparr>)))"

locale scan_base = growth R E for R E :: "gitProtector \<Rightarrow> gitProtector \<Rightarrow> bool" +
  assumes pin_step: "R p (pinHost full p)"
    and ro_step: "R p (readOnlyHost full p)"
    and create_step: "createEmpty full as_dir (gp_host p) = (Inr u, H) \<Longrightarrow> R p (p\<lparr>gp_host := H\<rparr>)"
    and create_fails: "createEmpty full as_dir (gp_host p) = (Inl e, H) \<Longrightarrow> E p (p\<lparr>gp_host := H\<rparr>)"
    and inherit_step: "R p (p\<lparr>gp_inherited := cfg\<rparr>)"
    and scanned_step: "R p (p\<lparr>gp_scanned := k\<rparr>)"
    and config_step: "R p (p\<lparr>gp_config := cfgs\<rparr>)"
begin

lemma keeps_create: "keeps R E (on_host (createEmpty full dir))"
  by (rule keepsI) (auto simp: on_host_def split: prod.split_asm intro: create_step create_fails)

lemmas keeps_pin = keeps_modify [OF pin_step] and keeps_ro = keeps_modify [OF ro_step]
lemmas basics = keeps_ret keeps_fail keeps_gets keeps_lift keeps_bind keeps_cases keeps_create keeps_pin keeps_ro

lemma keeps_protect: "keeps R E (protect path dir create)"
  unfolding protect_def Let_def by (intro basics)

lemma keeps_hook_target: "keeps R E (hook_target dir e)"
  unfolding hook_target_def Let_def by (intro basics keeps_protect)

lemma keeps_hookTargets: "keeps R E (hookTargets dir)"
  unfolding hookTargets_def by (intro basics keeps_each keeps_hook_target)

lemma keeps_protect_hooks: "keeps R E (protect_hooks path)"
  unfolding protect_hooks_def by (intro keeps_bind keeps_protect keeps_hookTargets)

lemma keeps_hooksPath: "keeps R E (hooksPath cfg worktree dir)"
  unfolding hooksPath_def by (intro keeps_each basics keeps_protect_hooks)

lemma keeps_config_entry:
  assumes "\<And>path x. keeps R E (include path x)"
  shows "keeps R E (config_entry ul' include path e x)"
proof (rule keepsI)
  fix s a s' assume "config_entry ul' include path e x s = (Inr a, s')"
  then show "R s s'" using keepsD [OF assms] by (auto simp: config_entry_def same split: prod.split_asm if_split_asm)
next
  fix s b s' assume "config_entry ul' include path e x s = (Inl b, s')"
  then show "E s s'" using keepsD_Inl [OF assms] by (auto simp: config_entry_def split: prod.split_asm if_split_asm)
qed

lemma keeps_config_entries:
  "(\<And>path x. keeps R E (include path x)) \<Longrightarrow> keeps R E (config_entries ul' include path es x)"
  by (induction es arbitrary: x) (auto intro!: keeps_ret keeps_bind keeps_config_entry)

lemma keeps_configFile: "keeps R E (configFile ul' n path x)"
proof (induction n arbitrary: path x)
  case (Suc n)
  show ?case unfolding configFile.simps Let_def by (intro basics keeps_protect keeps_config_entries Suc.IH)
qed (simp add: keeps_fail)

lemma keeps_read_config: "keeps R E (read_config ul' path cfg)"
  unfolding read_config_def by (intro basics keeps_configFile)

lemma keeps_walk_entries: "(\<And>path d. keeps R E (descend path d)) \<Longrightarrow> keeps R E (walk_entries descend path es)"
  by (induction es) (auto intro!: basics)

lemma keeps_walk_dir: "(\<And>path d. keeps R E (fn path d)) \<Longrightarrow> keeps R E (walk_dir n fn path d)"
proof (induction n arbitrary: path d)
  case (Suc n)
  show ?case unfolding walk_dir.simps by (intro basics Suc.prems keeps_walk_entries Suc.IH)
qed (simp add: keeps_fail)

lemma keeps_WalkDir: "(\<And>path d. keeps R E (fn path d)) \<Longrightarrow> keeps R E (WalkDir fn root)"
  unfolding WalkDir_def by (intro basics keeps_walk_dir)

text \<open>When the relation holds for a directory that is marked, it holds for both kinds of git directories.\<close>

lemma keeps_protect_common:
  assumes "\<And>p. R p (p\<lparr>gp_done := dir # gp_done p\<rparr>)"
  shows "keeps R E (protect_common ul dir)"
  unfolding protect_common_def
  by (intro basics keeps_protect_hooks keeps_read_config keeps_modify config_step steps [OF assms pin_step])

lemma mark_step:
  assumes "\<And>p. R p (p\<lparr>gp_done := dir # gp_done p\<rparr>)"
  shows "R p (mark_worktree dir p)"
  by (simp add: mark_worktree_def same steps [OF assms steps [OF pin_step ro_step]])

end

locale scan_steps = scan_base +
  fixes ul :: "string \<Rightarrow> string"
  assumes common_step: "keeps R E (protect_common ul dir)"
    and pointer_step: "readPointer (gp_host p) (PathJoin [dir, ''commondir'']) = Some c \<Longrightarrow> R p (mark_worktree dir p)"
begin

lemma keeps_protectGitDir:
  assumes "\<And>r dir. keeps R E (common r dir)"
  shows "keeps R E (protectGitDir common r dir)"
proof -
  define after where "after c = bindE (gets (\<lambda>p. locate p (resolvePointer dir c))) (\<lambda>located. bindE (lift located) (\<lambda>found.
      case found of None \<Rightarrow> ret [] | Some (cr, commonDir) \<Rightarrow>
        bindE (gets (\<lambda>p. (stat (gp_host p) commonDir, readPointer (gp_host p) (PathJoin [commonDir, ''commondir''])))) (\<lambda>(info, nested).
          if \<not> (case info of Inr n \<Rightarrow> is_folder n | Inl _ \<Rightarrow> False) then ret []
          else if nested \<noteq> None then fail (NestedCommondir (guestOf r dir) (guestOf cr commonDir))
          else bindE (common cr commonDir) (\<lambda>_. ret commonDir))))" for c
  have rest: "keeps R E (after c)" for c unfolding after_def by (intro basics assms)
  have none: "keeps R E (bindE (common r dir) (\<lambda>_. ret dir))" by (intro basics assms)
  have e: "protectGitDir common r dir s =
      (case readPointer (gp_host s) (PathJoin [dir, ''commondir'']) of
         None \<Rightarrow> bindE (common r dir) (\<lambda>_. ret dir) s
       | Some c \<Rightarrow> after c (mark_worktree dir s))" for s
    by (simp add: protectGitDir_def mark_worktree_def after_def split: option.split)
  show ?thesis
  proof (rule keepsI)
    fix s a s' assume "protectGitDir common r dir s = (Inr a, s')"
    then show "R s s'" unfolding e
      by (cases "readPointer (gp_host s) (PathJoin [dir, ''commondir''])")
        (auto intro: keepsD [OF none] steps [OF pointer_step keepsD [OF rest]])
  next
    fix s b s' assume "protectGitDir common r dir s = (Inl b, s')"
    then show "E s s'" unfolding e
      by (cases "readPointer (gp_host s) (PathJoin [dir, ''commondir''])")
        (auto intro: keepsD_Inl [OF none] late [OF pointer_step keepsD_Inl [OF rest]])
  qed
qed

lemma keeps_gitDir: "(\<And>r dir. keeps R E (common r dir)) \<Longrightarrow> keeps R E (gitDir ul common r dir worktree)"
  unfolding gitDir_def by (intro basics keeps_protectGitDir keeps_read_config keeps_protect keeps_hooksPath)

lemma keeps_module_visit:
  "(\<And>r dir w. keeps R E (gd r dir w)) \<Longrightarrow> keeps R E (module_visit gd r modules path d)"
  unfolding module_visit_def by (intro basics)

lemma keeps_protectCommonDir: "keeps R E (protectCommonDir ul n r dir)"
proof (induction n arbitrary: r dir)
  case (Suc n)
  show ?case unfolding protectCommonDir.simps Let_def
    by (intro basics common_step keeps_WalkDir keeps_module_visit keeps_gitDir Suc.IH)
qed (simp add: keeps_fail)

lemma keeps_git_dir: "keeps R E (git_dir ul n r dir worktree)"
  by (rule keeps_gitDir) (rule keeps_protectCommonDir)

lemma keeps_linked: "keeps R E (linked ul n target worktree)"
  unfolding linked_def by (intro basics keeps_git_dir)

lemma keeps_repo: "keeps R E (repo ul n r path d)"
  unfolding repo_def Let_def by (intro basics keeps_git_dir keeps_linked)

lemma keeps_scan_visit: "keeps R E (scan_visit ul n r path d)"
  unfolding scan_visit_def by (intro basics keeps_repo keeps_git_dir keeps_modify scanned_step)

lemma keeps_inherit: "keeps R E (inherit ul path)"
  unfolding inherit_def by (intro basics keeps_read_config keeps_modify inherit_step)

lemma keeps_scan_shares: "keeps R E (scan_shares ul n inherited)"
  unfolding scan_shares_def
  by (intro basics keeps_each keeps_inherit keeps_modify inherit_step keeps_WalkDir keeps_scan_visit)

end

section \<open>Growth\<close>

definition grows :: "gitProtector \<Rightarrow> gitProtector \<Rightarrow> bool" where
  "grows p p' \<longleftrightarrow>
     gp_roots p' = gp_roots p \<and> gp_mounts p' = gp_mounts p \<and> set (gp_pins p) \<subseteq> set (gp_pins p') \<and>
     set (gp_ro p) \<subseteq> set (gp_ro p') \<and> set (gp_done p) \<subseteq> set (gp_done p') \<and> extends (gp_host p) (gp_host p')"

lemma set_fold_insert: "set (fold List.insert xs ys) = set xs \<union> set ys"
  by (induction xs arbitrary: ys) auto

lemma set_pinUpTo: "set (pinUpTo d root pins) = set (pin_from (length d) d root) \<union> set pins"
  by (simp add: pinUpTo_def set_fold_insert)

lemma set_fold_pin:
  "set (fold (\<lambda>(g, root). pinUpTo (f g) root) vs pins) = (\<Union>(g, root) \<in> set vs. set (pin_from (length (f g)) (f g) root)) \<union> set pins"
  by (induction vs arbitrary: pins) (auto simp: set_pinUpTo)

lemma set_fold_ro: "set (fold (\<lambda>(g, root). List.insert g) vs ro) = fst ` set vs \<union> set ro"
  by (induction vs arbitrary: ro) auto

lemma createEmpty_extends: "createEmpty full as_dir H = (r, H') \<Longrightarrow> extends H H'"
proof -
  assume c: "createEmpty full as_dir H = (r, H')"
  have m: "extends H H1" if "MkdirAll q H = (x, H1)" for q x H1 using MkdirAll_extends [of H q] that by simp
  have n: "extends H H2" if "MkdirAll q H = (x, H1)" "make_node full (Regular True []) H1 = (y, H2)" for q x H1 y H2
    using extends_trans [OF m [OF that(1)]] make_node_extends [of "Regular True []" H1 full] that(2) by simp
  show ?thesis using c m n
    by (auto simp: createEmpty_def split: if_split_asm prod.split_asm sum.split_asm)
qed

interpretation grow: scan_base grows grows
proof
  show "grows s u" if "grows s t" "grows t u" for s t u
    using that extends_trans by (auto simp: grows_def)
  show "grows p (pinHost full p)" for p full
    using set_fold_pin [of "\<lambda>g. g" "views p full" "gp_pins p"] by (auto simp: grows_def pinHost_def)
  show "grows p (readOnlyHost full p)" for p full
    by (auto simp: grows_def readOnlyHost_def set_fold_pin set_fold_ro)
qed (auto simp: grows_def dest: createEmpty_extends)

interpretation grow: scan_steps grows grows ul for ul
proof
  have d: "grows p (p\<lparr>gp_done := dir # gp_done p\<rparr>)" for p dir by (auto simp: grows_def)
  show "keeps grows grows (protect_common ul dir)" for dir by (rule grow.keeps_protect_common [OF d])
  show "grows p (mark_worktree dir p)" for p dir by (rule grow.mark_step [OF d])
qed

section \<open>Views\<close>

definition good_root :: "shareRoot \<Rightarrow> bool" where
  "good_root r \<longleftrightarrow>
     sr_guest r = path_of (elems (sr_guest r)) \<and> sr_host r = path_of (elems (sr_host r)) \<and> sr_real r = path_of (elems (sr_real r))"

abbreviation root_guest :: "shareRoot \<Rightarrow> string list" where "root_guest r \<equiv> elems (sr_guest r)"
abbreviation root_real :: "shareRoot \<Rightarrow> string list" where "root_real r \<equiv> elems (sr_real r)"
abbreviation root_host :: "shareRoot \<Rightarrow> string list" where "root_host r \<equiv> elems (sr_host r)"

lemma Rel_Clean: "IsAbs t \<Longrightarrow> Rel b t = Rel b (path_of (elems t))"
  by (simp add: Rel_def Clean_path_of flip: elems_def)

lemma Rel_relative: "IsAbs b \<Longrightarrow> \<not> IsAbs t \<Longrightarrow> Rel b t = None"
proof -
  assume a: "IsAbs b" "\<not> IsAbs t"
  have "\<not> IsAbs (Clean t)"
  proof
    assume c: "IsAbs (Clean t)"
    let ?es = "clean_elems False (Split CHR ''/'' t)"
    have "Clean t = (if ?es = [] then ''.'' else Join ?es ''/'')" using a(2) by (simp add: Clean_def Let_def)
    with c have ne: "?es \<noteq> []" and j: "IsAbs (Join ?es ''/'')" by (auto simp: IsAbs_def HasPrefix_def split: if_split_asm)
    then obtain e es where es: "?es = e # es" by (cases ?es) auto
    have "e \<in> set (Split CHR ''/'' t) \<union> {''..''}" "e \<noteq> []"
    proof -
      have "set (rev ?es) \<subseteq> set (Split CHR ''/'' t) \<union> {''..''}"
        using foldl_clean_subset [of False "[]" "Split CHR ''/'' t"] by (simp add: clean_elems_def)
      then show "e \<in> set (Split CHR ''/'' t) \<union> {''..''}" using es by auto
      have "[] \<notin> set (foldl (clean_step False) out xs)" if "[] \<notin> set out" for out xs
        using that
      proof (induction xs arbitrary: out)
        case (Cons x xs)
        have "[] \<notin> set (clean_step False out x)" using Cons.prems by (cases out) auto
        with Cons.IH show ?case by (simp del: clean_step.simps)
      qed simp
      then show "e \<noteq> []" using es by (metis clean_elems_def empty_iff list.set(1) list.set_intros(1) set_rev)
    qed
    then have "CHR ''/'' \<notin> set e" "e \<noteq> []" using Split_no_sep by auto
    then show False using j es by (cases e) (auto simp: Join_Cons IsAbs_Cons)
  qed
  then show ?thesis using a Clean_abs [of b] by (auto simp: Rel_def)
qed

lemma within_iff: "plain b \<Longrightarrow> within p (path_of b) \<longleftrightarrow> IsAbs p \<and> prefix b (elems p)"
proof (cases "IsAbs p")
  case True
  then show "plain b \<Longrightarrow> ?thesis" using Rel_local [of b "elems p"] Rel_Clean [OF True, of "path_of b"] by (simp add: within_def)
qed (simp add: within_def Rel_relative)

lemma guestOf_below:
  assumes "good_root r" and "IsAbs p" and "elems p = root_real r @ x"
  shows "guestOf r p = path_of (root_guest r @ x)"
proof -
  have x: "plain x" using assms(3) plain_elems [of p] by simp
  have "Rel (sr_real r) p = Some (rel_elems x)"
    using Rel_below [of "root_real r" x] assms x Rel_Clean [OF assms(2)] by (metis good_root_def plain_elems)
  moreover have "PathJoin [sr_guest r, rel_elems x] = path_of (root_guest r @ x)"
    using PathJoin_rel [of "root_guest r" x] assms(1) x by (metis good_root_def plain_elems)
  ultimately show ?thesis by (simp add: guestOf_def)
qed

lemma views_iff:
  assumes "list_all good_root (gp_roots p)"
  shows "(g, root) \<in> set (views p full) \<longleftrightarrow>
     IsAbs full \<and> (\<exists>r \<in> set (gp_roots p). \<exists>x. elems full = root_real r @ x \<and> g = path_of (root_guest r @ x) \<and>
        root = sr_guest r \<and> \<not> hidden (gp_mounts p) r g)"
proof -
  have w: "within full (sr_real r) \<longleftrightarrow> IsAbs full \<and> (\<exists>x. elems full = root_real r @ x)" if "r \<in> set (gp_roots p)" for r
    using within_iff [of "root_real r" full] assms that by (simp add: list_all_iff good_root_def prefix_def)
  have "(g, root) \<in> set (views p full) \<longleftrightarrow>
      (\<exists>r \<in> set (gp_roots p). within full (sr_real r) \<and> g = guestOf r full \<and> root = sr_guest r \<and> \<not> hidden (gp_mounts p) r g)"
    by (auto simp: views_def List.map_filter_def Let_def image_iff split: if_split_asm)
  also have "\<dots> \<longleftrightarrow> IsAbs full \<and> (\<exists>r \<in> set (gp_roots p). \<exists>x. elems full = root_real r @ x \<and> g = path_of (root_guest r @ x) \<and>
        root = sr_guest r \<and> \<not> hidden (gp_mounts p) r g)"
    using w guestOf_below assms by (fastforce simp: list_all_iff)
  finally show ?thesis .
qed

text \<open>The host path is read-only wherever a writable share shows it.\<close>

definition shown_ro :: "gitProtector \<Rightarrow> string \<Rightarrow> bool" where
  "shown_ro p full \<longleftrightarrow> fst ` set (views p full) \<subseteq> set (gp_ro p)"

lemma views_const: "gp_roots p' = gp_roots p \<Longrightarrow> gp_mounts p' = gp_mounts p \<Longrightarrow> views p' full = views p full"
  unfolding views_def by (simp only:)

lemma grows_views: "grows p p' \<Longrightarrow> views p' full = views p full"
  by (rule views_const) (simp_all add: grows_def)

lemma grows_sets:
  "grows p p' \<Longrightarrow> set (gp_ro p) \<subseteq> set (gp_ro p')" "grows p p' \<Longrightarrow> set (gp_done p) \<subseteq> set (gp_done p')"
  "grows p p' \<Longrightarrow> extends (gp_host p) (gp_host p')" "grows p p' \<Longrightarrow> gp_roots p' = gp_roots p" "grows p p' \<Longrightarrow> gp_mounts p' = gp_mounts p"
  by (auto simp: grows_def)

lemma shown_ro_grows: "shown_ro p full \<Longrightarrow> grows p p' \<Longrightarrow> shown_ro p' full"
  using grows_sets(1) [of p p'] grows_views [of p p' full] unfolding shown_ro_def by auto

lemma shown_ro_mark: "shown_ro (readOnlyHost full p) full"
proof -
  have "views (readOnlyHost full p) full = views p full" by (rule views_const) (simp_all add: readOnlyHost_def)
  then show ?thesis by (auto simp: shown_ro_def readOnlyHost_def set_fold_ro)
qed

section \<open>Pins\<close>

lemma pin_from_share:
  "plain (G @ x) \<Longrightarrow> length x \<le> n \<Longrightarrow>
   set (pin_from n (path_of (G @ x)) (path_of G)) = {path_of (G @ y) |y. prefix y x \<and> y \<noteq> []}"
proof (induction x arbitrary: n rule: rev_induct)
  case Nil
  then show ?case by (cases n) auto
next
  case (snoc e x)
  then obtain m where n: "n = Suc m" by (cases n) auto
  have ne: "path_of (G @ x @ [e]) \<noteq> path_of G" "path_of (G @ x @ [e]) \<noteq> path_of (G @ x)"
    using snoc.prems(1) path_of_inj [of "G @ x @ [e]" G] path_of_inj [of "G @ x @ [e]" "G @ x"] by auto
  have d: "PathDir (path_of (G @ x @ [e])) = path_of (G @ x)"
    using PathDir_path_of [OF snoc.prems(1)] by (simp add: butlast_append)
  have "set (pin_from m (path_of (G @ x)) (path_of G)) = {path_of (G @ y) |y. prefix y x \<and> y \<noteq> []}"
    using snoc n by simp
  then have "set (pin_from n (path_of (G @ x @ [e])) (path_of G)) =
      insert (path_of (G @ x @ [e])) {path_of (G @ y) |y. prefix y x \<and> y \<noteq> []}" using ne by (simp add: n d)
  also have "\<dots> = {path_of (G @ y) |y. prefix y (x @ [e]) \<and> y \<noteq> []}" by (auto simp: prefix_snoc)
  finally show ?case .
qed

text \<open>Above the guest path of a share.\<close>

lemma pin_from_above:
  "plain G \<Longrightarrow> plain u \<Longrightarrow> strict_prefix u G \<Longrightarrow> d \<in> set (pin_from n (path_of u) (path_of G)) \<Longrightarrow> \<exists>w. d = path_of w \<and> strict_prefix w G"
proof (induction n arbitrary: u)
  case (Suc n)
  have "prefix (butlast u) u" by (cases u rule: rev_cases) auto
  then have b: "strict_prefix (butlast u) G" using Suc.prems(3) by (rule prefix_order.le_less_trans)
  note b' = plain_butlast [OF Suc.prems(2)]
  from Suc.prems(4) consider "d = path_of u" | "d \<in> set (pin_from n (path_of (butlast u)) (path_of G))"
    by (auto simp: PathDir_path_of [OF Suc.prems(2)] split: if_split_asm)
  then show ?case
  proof cases
    case 1
    with Suc.prems(3) show ?thesis by blast
  next
    case 2
    with Suc.IH [OF Suc.prems(1) b' b] show ?thesis by blast
  qed
qed simp

lemma length_path_elems: "length es \<le> length (path_of es)"
proof (induction es rule: rev_induct)
  case (snoc e es)
  have "length (path_of []) \<le> length (path_of [e])" using length_path_of_append [of "[]" "[e]"] by simp
  with snoc show ?case by (cases "es = []") (simp add: path_of_def, simp add: path_of_snoc)
qed simp

definition pinned_to :: "gitProtector \<Rightarrow> shareRoot \<Rightarrow> string list \<Rightarrow> bool" where
  "pinned_to p r x \<longleftrightarrow> (\<forall>y. prefix y x \<longrightarrow> y \<noteq> [] \<longrightarrow> path_of (root_guest r @ y) \<in> set (gp_pins p))"

definition ro_pinned :: "gitProtector \<Rightarrow> string \<Rightarrow> bool" where
  "ro_pinned p g \<longleftrightarrow>
     (\<exists>r \<in> set (gp_roots p). \<exists>x. plain x \<and> g = path_of (root_guest r @ x) \<and> \<not> hidden (gp_mounts p) r g \<and> pinned_to p r (butlast x))"

definition pin_ok :: "gitProtector \<Rightarrow> string \<Rightarrow> bool" where
  "pin_ok p d \<longleftrightarrow>
     (\<exists>r \<in> set (gp_roots p).
        (\<exists>x. plain x \<and> x \<noteq> [] \<and> d = path_of (root_guest r @ x) \<and> pinned_to p r x) \<or>
        (\<exists>w. strict_prefix w (root_guest r) \<and> d = path_of w \<and> sr_guest r \<in> set (gp_ro p)))"

definition pinned_inv :: "gitProtector \<Rightarrow> bool" where
  "pinned_inv p \<longleftrightarrow> (\<forall>g \<in> set (gp_ro p). ro_pinned p g) \<and> (\<forall>d \<in> set (gp_pins p). pin_ok p d)"

definition more_pins :: "gitProtector \<Rightarrow> gitProtector \<Rightarrow> bool" where
  "more_pins p p' \<longleftrightarrow> gp_roots p' = gp_roots p \<and> gp_mounts p' = gp_mounts p \<and>
     set (gp_pins p) \<subseteq> set (gp_pins p') \<and> set (gp_ro p) \<subseteq> set (gp_ro p')"

lemma pinned_mono:
  assumes "more_pins p p'"
  shows "pinned_to p r x \<Longrightarrow> pinned_to p' r x" "ro_pinned p g \<Longrightarrow> ro_pinned p' g" "pin_ok p d \<Longrightarrow> pin_ok p' d"
proof -
  show 1: "pinned_to p r x \<Longrightarrow> pinned_to p' r x" for r x using assms by (auto simp: pinned_to_def more_pins_def)
  show "ro_pinned p g \<Longrightarrow> ro_pinned p' g" using assms 1 by (auto simp: ro_pinned_def more_pins_def)
  show "pin_ok p d \<Longrightarrow> pin_ok p' d" using assms 1 unfolding pin_ok_def more_pins_def by (metis subsetD)
qed

lemma pinned_inv_step:
  assumes "pinned_inv p" and "more_pins p p'"
    and "\<And>g. g \<in> set (gp_ro p') - set (gp_ro p) \<Longrightarrow> ro_pinned p' g"
    and "\<And>d. d \<in> set (gp_pins p') - set (gp_pins p) \<Longrightarrow> pin_ok p' d"
  shows "pinned_inv p'"
  using assms pinned_mono [OF assms(2)] unfolding pinned_inv_def by blast

lemma pinHost_inv:
  assumes "list_all good_root (gp_roots p)" and "pinned_inv p"
  shows "pinned_inv (pinHost full p)"
proof (rule pinned_inv_step [OF assms(2)])
  let ?p = "pinHost full p"
  have pins: "set (gp_pins ?p) = (\<Union>(g, root) \<in> set (views p full). set (pin_from (length g) g root)) \<union> set (gp_pins p)"
    using set_fold_pin [of "\<lambda>g. g"] by (simp add: pinHost_def)
  show "more_pins p ?p" using pins by (auto simp: more_pins_def pinHost_def)
  show "pin_ok ?p d" if "d \<in> set (gp_pins ?p) - set (gp_pins p)" for d
  proof -
    from that pins obtain g root where v: "(g, root) \<in> set (views p full)" and d: "d \<in> set (pin_from (length g) g root)" by auto
    then obtain r x where r: "r \<in> set (gp_roots p)" "elems full = root_real r @ x" "g = path_of (root_guest r @ x)" "root = sr_guest r"
      by (auto simp: views_iff [OF assms(1)])
    have pl: "plain (root_guest r @ x)" using r(2) plain_elems [of full] by simp
    have root: "root = path_of (root_guest r)" using r(1,4) assms(1) by (auto simp: list_all_iff good_root_def)
    have len: "length x \<le> length g" using length_path_elems [of "root_guest r @ x"] r(3) by simp
    note all = pin_from_share [OF pl len, folded r(3) root]
    then obtain y where y: "d = path_of (root_guest r @ y)" "prefix y x" "y \<noteq> []" using d by auto
    have "set (pin_from (length g) g root) \<subseteq> set (gp_pins ?p)" using pins v by auto
    then have "pinned_to ?p r y" unfolding pinned_to_def using all y(2) by (auto intro: prefix_order.order_trans)
    then show ?thesis using y r(1) pl plain_prefix [OF y(2)] unfolding pin_ok_def by (auto simp: pinHost_def)
  qed
qed (auto simp: pinHost_def)

lemma readOnlyHost_inv:
  assumes "list_all good_root (gp_roots p)" and "pinned_inv p"
  shows "pinned_inv (readOnlyHost full p)"
proof (rule pinned_inv_step [OF assms(2)])
  let ?p = "readOnlyHost full p"
  have pins: "set (gp_pins ?p) = (\<Union>(g, root) \<in> set (views p full). set (pin_from (length (PathDir g)) (PathDir g) root)) \<union> set (gp_pins p)"
    and ro: "set (gp_ro ?p) = fst ` set (views p full) \<union> set (gp_ro p)"
    by (simp_all add: readOnlyHost_def set_fold_pin set_fold_ro)
  show "more_pins p ?p" using pins ro by (auto simp: more_pins_def readOnlyHost_def)
  have view: "\<exists>r x. r \<in> set (gp_roots p) \<and> plain (root_guest r @ x) \<and> g = path_of (root_guest r @ x) \<and> root = path_of (root_guest r)
      \<and> sr_guest r = root \<and> \<not> hidden (gp_mounts p) r g \<and> PathDir g = path_of (butlast (root_guest r @ x))
      \<and> (x \<noteq> [] \<longrightarrow> set (pin_from (length (PathDir g)) (PathDir g) root) = {path_of (root_guest r @ y) |y. prefix y (butlast x) \<and> y \<noteq> []})"
    if v: "(g, root) \<in> set (views p full)" for g root
  proof -
    from v obtain r x where r: "r \<in> set (gp_roots p)" "elems full = root_real r @ x" "g = path_of (root_guest r @ x)" "root = sr_guest r" "\<not> hidden (gp_mounts p) r g"
      by (auto simp: views_iff [OF assms(1)])
    have pl: "plain (root_guest r @ x)" using r(2) plain_elems [of full] by simp
    have root: "root = path_of (root_guest r)" using r(1,4) assms(1) by (auto simp: list_all_iff good_root_def)
    have d: "PathDir g = path_of (butlast (root_guest r @ x))" using PathDir_path_of [OF pl] r(3) by simp
    have "set (pin_from (length (PathDir g)) (PathDir g) root) = {path_of (root_guest r @ y) |y. prefix y (butlast x) \<and> y \<noteq> []}" if "x \<noteq> []"
    proof -
      have d': "PathDir g = path_of (root_guest r @ butlast x)" using d that by (simp add: butlast_append)
      have "length (butlast x) \<le> length (PathDir g)" using length_path_elems [of "root_guest r @ butlast x"] d' by simp
      moreover have "plain (root_guest r @ butlast x)" using pl plain_butlast by simp
      ultimately show ?thesis using pin_from_share [of "root_guest r" "butlast x" "length (PathDir g)"] d' root by simp
    qed
    with r pl root d show ?thesis by blast
  qed
  show "ro_pinned ?p g" if "g \<in> set (gp_ro ?p) - set (gp_ro p)" for g
  proof -
    from that ro obtain root where v: "(g, root) \<in> set (views p full)" by auto
    from view [OF v] obtain r x where r: "r \<in> set (gp_roots p)" "plain (root_guest r @ x)" "g = path_of (root_guest r @ x)" "\<not> hidden (gp_mounts p) r g"
      "x \<noteq> [] \<longrightarrow> set (pin_from (length (PathDir g)) (PathDir g) root) = {path_of (root_guest r @ y) |y. prefix y (butlast x) \<and> y \<noteq> []}" by blast
    have "set (pin_from (length (PathDir g)) (PathDir g) root) \<subseteq> set (gp_pins ?p)" using pins v by auto
    then have "pinned_to ?p r (butlast x)" using r(5) by (cases "x = []") (auto simp: pinned_to_def)
    then show ?thesis using r unfolding ro_pinned_def by (auto simp: readOnlyHost_def)
  qed
  show "pin_ok ?p d" if "d \<in> set (gp_pins ?p) - set (gp_pins p)" for d
  proof -
    from that pins obtain g root where v: "(g, root) \<in> set (views p full)" and d: "d \<in> set (pin_from (length (PathDir g)) (PathDir g) root)" by auto
    from view [OF v] obtain r x where r: "r \<in> set (gp_roots p)" "plain (root_guest r @ x)" "g = path_of (root_guest r @ x)" "root = path_of (root_guest r)" "sr_guest r = root"
      "PathDir g = path_of (butlast (root_guest r @ x))"
      "x \<noteq> [] \<longrightarrow> set (pin_from (length (PathDir g)) (PathDir g) root) = {path_of (root_guest r @ y) |y. prefix y (butlast x) \<and> y \<noteq> []}" by blast
    have sub: "set (pin_from (length (PathDir g)) (PathDir g) root) \<subseteq> set (gp_pins ?p)" using pins v by auto
    show ?thesis
    proof (cases "x = []")
      case False
      then obtain y where y: "d = path_of (root_guest r @ y)" "prefix y (butlast x)" "y \<noteq> []" using d r(7) by auto
      have "pinned_to ?p r y" unfolding pinned_to_def using r(7) False sub y(2) by (auto intro: prefix_order.order_trans)
      moreover have "plain y" using plain_prefix [OF y(2)] r(2) plain_butlast by auto
      ultimately show ?thesis using y r(1) unfolding pin_ok_def by (auto simp: readOnlyHost_def)
    next
      case True
      show ?thesis
      proof (cases "root_guest r = []")
        case True
        then have "pin_from (length (PathDir g)) (PathDir g) root = []" using r(4,6) \<open>x = []\<close> by (cases "length (PathDir g)") auto
        with d show ?thesis by simp
      next
        case False
        then have "strict_prefix (butlast (root_guest r)) (root_guest r)"
          by (metis append_butlast_last_id butlast.simps(1) not_Cons_self2 prefixI self_append_conv strict_prefix_def)
        then obtain w where "d = path_of w" "strict_prefix w (root_guest r)"
          using pin_from_above [of "root_guest r" "butlast (root_guest r)" d] d r(4,6) True plain_butlast [OF plain_elems] by auto
        moreover have "sr_guest r \<in> set (gp_ro ?p)" using ro v r(3-5) True by force
        ultimately show ?thesis using r(1) unfolding pin_ok_def by (auto simp: readOnlyHost_def)
      qed
    qed
  qed
qed

definition keeps_pinned :: "gitProtector \<Rightarrow> gitProtector \<Rightarrow> bool" where
  "keeps_pinned p p' \<longleftrightarrow>
     gp_roots p' = gp_roots p \<and> gp_mounts p' = gp_mounts p \<and>
     (list_all good_root (gp_roots p) \<longrightarrow> pinned_inv p \<longrightarrow> pinned_inv p')"

lemma pinned_inv_cong:
  assumes "gp_roots p' = gp_roots p" "gp_mounts p' = gp_mounts p" "gp_pins p' = gp_pins p" "gp_ro p' = gp_ro p"
  shows "keeps_pinned p p'"
proof -
  have "more_pins p p'" using assms by (simp add: more_pins_def)
  with assms pinned_inv_step [of p p'] show ?thesis by (auto simp: keeps_pinned_def)
qed

interpretation pinned: scan_base keeps_pinned "\<lambda>_ _. True"
proof
  show "keeps_pinned s u" if "keeps_pinned s t" "keeps_pinned t u" for s t u
    using that by (auto simp: keeps_pinned_def)
  show "keeps_pinned p (pinHost full p)" for p full
    using pinHost_inv [of p full] by (auto simp: keeps_pinned_def pinHost_def)
  show "keeps_pinned p (readOnlyHost full p)" for p full
    using readOnlyHost_inv [of p full] by (auto simp: keeps_pinned_def readOnlyHost_def)
qed (auto intro!: pinned_inv_cong)

interpretation pinned: scan_steps keeps_pinned "\<lambda>_ _. True" ul for ul
proof
  have d: "keeps_pinned p (p\<lparr>gp_done := dir # gp_done p\<rparr>)" for p dir by (rule pinned_inv_cong) simp_all
  show "keeps keeps_pinned (\<lambda>_ _. True) (protect_common ul dir)" for dir by (rule pinned.keeps_protect_common [OF d])
  show "keeps_pinned p (mark_worktree dir p)" for p dir by (rule pinned.mark_step [OF d])
qed

section \<open>The start of the scan\<close>

definition abs_shares :: "Share list \<Rightarrow> bool" where
  "abs_shares shares \<longleftrightarrow> list_all (\<lambda>s. IsAbs (HostPath s) \<and> IsAbs (guestPath s)) shares"

definition root_of :: "host \<Rightarrow> Share \<Rightarrow> shareRoot \<Rightarrow> bool" where
  "root_of H s r \<longleftrightarrow>
     \<not> ReadOnly s \<and> sr_guest r = Clean (guestPath s) \<and> sr_host r = Clean (HostPath s) \<and> EvalSymlinks H (Clean (HostPath s)) = Inr (sr_real r)"

lemma share_roots_of:
  "share_roots H shares = Inr roots \<Longrightarrow>
   (\<forall>r \<in> set roots. \<exists>s \<in> set shares. root_of H s r) \<and> (\<forall>s \<in> set shares. \<not> ReadOnly s \<longrightarrow> (\<exists>r \<in> set roots. root_of H s r))"
proof (induction shares arbitrary: roots)
  case (Cons s shares)
  show ?case
  proof (cases "ReadOnly s")
    case True
    with Cons.IH [of roots] Cons.prems show ?thesis by auto
  next
    case False
    from Cons.prems False obtain real rs where
      r: "EvalSymlinks H (Clean (HostPath s)) = Inr real" "share_roots H shares = Inr rs"
         "roots = \<lparr>sr_guest = Clean (guestPath s), sr_host = Clean (HostPath s), sr_real = real\<rparr> # rs"
      by (auto simp: rbind_eq_Inr split: sum.split_asm)
    have "root_of H s (hd roots)" using r(1,3) False by (simp add: root_of_def)
    with Cons.IH [OF r(2)] r(3) show ?thesis by auto
  qed
qed simp

lemma root_of_real:
  assumes "root_of H s r" and "IsAbs (HostPath s)" and "IsAbs (guestPath s)"
  shows "good_root r" and "root_guest r = elems (guestPath s)" and "root_host r = elems (HostPath s)" and "real_path H (root_real r)"
proof -
  obtain R where R: "sr_real r = path_of R" "real_path H R"
    using EvalSymlinks_real [of H "Clean (HostPath s)" "sr_real r"] assms Clean_abs by (auto simp: root_of_def)
  then show "real_path H (root_real r)" by (simp add: real_path_def)
  show "root_guest r = elems (guestPath s)" "root_host r = elems (HostPath s)"
    using assms by (simp_all add: root_of_def elems_Clean)
  then show "good_root r" using assms R by (auto simp: good_root_def root_of_def Clean_path_of real_path_def)
qed

lemma share_roots_good:
  "share_roots H shares = Inr roots \<Longrightarrow> abs_shares shares \<Longrightarrow> list_all good_root roots"
  using share_roots_of [of H shares roots] root_of_real(1) by (auto simp: abs_shares_def list_all_iff)

lemma gitProtection_scan:
  assumes "gitProtection ul n shares inherited H = (Inr (pins, ro), H')"
  obtains roots p where "share_roots H shares = Inr roots"
    and "scan_shares ul n inherited (new_protector H shares roots) = (Inr (), p)"
    and "set pins = set (gp_pins p)" and "set ro = set (gp_ro p)" and "H' = gp_host p"
  using assms by (auto simp: gitProtection_def split: sum.split_asm prod.split_asm)

lemma new_protector_inv: "pinned_inv (new_protector H shares roots)"
  by (simp add: pinned_inv_def new_protector_def)

lemma new_protector_simps [simp]:
  "gp_roots (new_protector H shares roots) = roots" "gp_mounts (new_protector H shares roots) = map (\<lambda>s. Clean (guestPath s)) shares"
  "gp_host (new_protector H shares roots) = H" "gp_done (new_protector H shares roots) = []"
  by (simp_all add: new_protector_def)

section \<open>Example\<close>

definition repo_nodes :: "(string list \<times> node) list" where
  "repo_nodes =
     [([''w''], Folder True True), ([''w'', ''.git''], Folder True True), ([''w'', ''.git'', ''config''], Regular True []),
      ([''w'', ''sub''], Folder True True), ([''w'', ''sub'', ''.git''], Regular True ''gitdir: /x'')]"

definition repo_host :: "(string list \<times> node) list \<Rightarrow> host" where
  "repo_host extra = \<lparr>h_nodes = repo_nodes @ extra, h_cwd = [], h_home = Some ''/home/u''\<rparr>"

definition repo_shares :: "Share list" where
  "repo_shares = [\<lparr>HostPath = ''/w'', GuestPath = ''/w'', ReadOnly = False\<rparr>]"

definition repo_hooks :: "string list \<times> node" where
  "repo_hooks = ([''w'', ''.git'', ''hooks''], Folder True True)"

lemma repo_example:
  "gitProtection id 5 repo_shares [] (repo_host []) =
     (Inr ([''/w/.git'', ''/w/sub''], [''/w/.git/config'', ''/w/.git/hooks'', ''/w/sub/.git'']), repo_host [repo_hooks])"
  "abs_shares repo_shares"
  by code_simp+

section \<open>Properties\<close>

lemma protection_pinned:
  assumes "gitProtection ul n shares inherited H = (Inr (pins, ro), H')" and "abs_shares shares"
  shows "(\<forall>g \<in> set ro. \<exists>s \<in> set shares. \<exists>x. \<not> ReadOnly s \<and> plain x \<and> g = path_of (elems (guestPath s) @ x) \<and>
        (\<forall>s' \<in> set shares. length (Clean (guestPath s')) > length (Clean (guestPath s)) \<longrightarrow> \<not> prefix (elems (guestPath s')) (elems g)) \<and>
        (\<forall>y. prefix y (butlast x) \<longrightarrow> y \<noteq> [] \<longrightarrow> path_of (elems (guestPath s) @ y) \<in> set pins)) \<and>
     (\<forall>d \<in> set pins. \<exists>s \<in> set shares. \<not> ReadOnly s \<and>
        ((\<exists>x. plain x \<and> x \<noteq> [] \<and> d = path_of (elems (guestPath s) @ x) \<and>
            (\<forall>y. prefix y x \<longrightarrow> y \<noteq> [] \<longrightarrow> path_of (elems (guestPath s) @ y) \<in> set pins)) \<or>
         (\<exists>w. strict_prefix w (elems (guestPath s)) \<and> d = path_of w \<and> Clean (guestPath s) \<in> set ro)))"
proof -
  obtain roots p where sc: "share_roots H shares = Inr roots" "scan_shares ul n inherited (new_protector H shares roots) = (Inr (), p)"
    and out: "set pins = set (gp_pins p)" "set ro = set (gp_ro p)" by (rule gitProtection_scan [OF assms(1)])
  have good: "list_all good_root roots" by (rule share_roots_good [OF sc(1) assms(2)])
  from keepsD [OF pinned.keeps_scan_shares sc(2)] good new_protector_inv
  have inv: "pinned_inv p" and const: "gp_roots p = roots" "gp_mounts p = map (\<lambda>s. Clean (guestPath s)) shares"
    by (auto simp: keeps_pinned_def)
  have share: "\<exists>s \<in> set shares. \<not> ReadOnly s \<and> root_guest r = elems (guestPath s) \<and> sr_guest r = Clean (guestPath s)"
    if "r \<in> set (gp_roots p)" for r
    using that share_roots_of [OF sc(1)] const(1) assms(2) root_of_real(2)
    by (metis (no_types, lifting) abs_shares_def list_all_iff root_of_def)
  have cover: "\<not> prefix (elems (guestPath s')) (elems g)"
    if "\<not> hidden (gp_mounts p) r g" "s' \<in> set shares" "length (Clean (guestPath s')) > length (sr_guest r)" "IsAbs g" for r g s'
  proof -
    have "IsAbs (guestPath s')" using that(2) assms(2) by (simp add: abs_shares_def list_all_iff)
    then have "within g (Clean (guestPath s')) \<longleftrightarrow> prefix (elems (guestPath s')) (elems g)"
      using within_iff [of "elems (guestPath s')" g] that(4) by (simp add: Clean_path_of)
    then show ?thesis using that(1-3) const(2) by (auto simp: hidden_def list_ex_iff)
  qed
  have "\<exists>s \<in> set shares. \<exists>x. \<not> ReadOnly s \<and> plain x \<and> g = path_of (elems (guestPath s) @ x) \<and>
      (\<forall>s' \<in> set shares. length (Clean (guestPath s')) > length (Clean (guestPath s)) \<longrightarrow> \<not> prefix (elems (guestPath s')) (elems g)) \<and>
      (\<forall>y. prefix y (butlast x) \<longrightarrow> y \<noteq> [] \<longrightarrow> path_of (elems (guestPath s) @ y) \<in> set pins)" if g: "g \<in> set ro" for g
  proof -
    obtain r x where r: "r \<in> set (gp_roots p)" "plain x" "g = path_of (root_guest r @ x)" "\<not> hidden (gp_mounts p) r g" "pinned_to p r (butlast x)"
    proof -
      have "ro_pinned p g" using inv g out(2) by (simp add: pinned_inv_def)
      then show ?thesis using that unfolding ro_pinned_def by blast
    qed
    moreover obtain s where "s \<in> set shares" "\<not> ReadOnly s" "root_guest r = elems (guestPath s)" "sr_guest r = Clean (guestPath s)"
      using share [OF r(1)] by blast
    moreover have "IsAbs g" using r(3) by simp
    ultimately show ?thesis using cover out(1) unfolding pinned_to_def by (metis (no_types, lifting))
  qed
  moreover have "\<exists>s \<in> set shares. \<not> ReadOnly s \<and>
      ((\<exists>x. plain x \<and> x \<noteq> [] \<and> d = path_of (elems (guestPath s) @ x) \<and> (\<forall>y. prefix y x \<longrightarrow> y \<noteq> [] \<longrightarrow> path_of (elems (guestPath s) @ y) \<in> set pins)) \<or>
       (\<exists>w. strict_prefix w (elems (guestPath s)) \<and> d = path_of w \<and> Clean (guestPath s) \<in> set ro))" if "d \<in> set pins" for d
  proof -
    have "pin_ok p d" using inv that out(1) by (simp add: pinned_inv_def)
    then show ?thesis using share out unfolding pin_ok_def pinned_to_def by metis
  qed
  ultimately show ?thesis by blast
qed

text \<open>C15. Protected paths cannot be moved away. When the scan of the writable shares succeeds, every read-only path
  is at or below the guest path of a writable share and not below a deeper mount of another share,
  and every directory between the share and the path is pinned. Every pinned directory is below a
  writable share with all directories between pinned as well; only when a whole share is made
  read-only are the directories above it pinned too.\<close>

theorem git_protection_pinned:
  assumes "gitProtection ul n shares inherited H = (Inr (pins, ro), H')" and "abs_shares shares"
  shows "(\<forall>g \<in> set ro. \<exists>s \<in> set shares. \<exists>x. \<not> ReadOnly s \<and> plain x \<and> g = path_of (elems (guestPath s) @ x) \<and>
        (\<forall>s' \<in> set shares. length (Clean (guestPath s')) > length (Clean (guestPath s)) \<longrightarrow> \<not> prefix (elems (guestPath s')) (elems g)) \<and>
        (\<forall>y. prefix y (butlast x) \<longrightarrow> y \<noteq> [] \<longrightarrow> path_of (elems (guestPath s) @ y) \<in> set pins)) \<and>
     (\<forall>d \<in> set pins. \<exists>s \<in> set shares. \<not> ReadOnly s \<and>
        ((\<exists>x. plain x \<and> x \<noteq> [] \<and> d = path_of (elems (guestPath s) @ x) \<and>
            (\<forall>y. prefix y x \<longrightarrow> y \<noteq> [] \<longrightarrow> path_of (elems (guestPath s) @ y) \<in> set pins)) \<or>
         (\<exists>w. strict_prefix w (elems (guestPath s)) \<and> d = path_of w \<and> Clean (guestPath s) \<in> set ro)))"
  using assms by (rule protection_pinned)

theorem git_protection_pinned_witness:
  "\<exists>s \<in> set repo_shares. \<exists>x. ''/w/.git/hooks'' = path_of (elems (guestPath s) @ x) \<and>
     (\<forall>y. prefix y (butlast x) \<longrightarrow> y \<noteq> [] \<longrightarrow> path_of (elems (guestPath s) @ y) \<in> set [''/w/.git'', ''/w/sub''])"
  using conjunct1 [OF git_protection_pinned [OF repo_example]] by simp blast

text \<open>The scan only adds. Whether it succeeds or fails, every node of the host file system is as before, and
  what is new are empty folders and empty files.\<close>

theorem git_protection_adds_only:
  "extends H (snd (gitProtection ul n shares inherited H))"
proof (cases "share_roots H shares")
  case (Inr roots)
  obtain r p where sc: "scan_shares ul n inherited (new_protector H shares roots) = (r, p)" by fastforce
  have "grows (new_protector H shares roots) p"
  proof (cases r)
    case (Inl e)
    with sc keepsD_Inl [OF grow.keeps_scan_shares] show ?thesis by blast
  next
    case (Inr u)
    with sc keepsD [OF grow.keeps_scan_shares] show ?thesis by blast
  qed
  then show ?thesis using Inr sc grows_sets(3) [of "new_protector H shares roots" p] by (cases r) (auto simp: gitProtection_def)
qed (simp add: gitProtection_def)

section \<open>Paths inside a share\<close>

text \<open>A host path in a writable share, and not through the configured path of a share that is a link.\<close>

definition inside :: "gitProtector \<Rightarrow> string list \<Rightarrow> bool" where
  "inside p P \<longleftrightarrow>
     list_all good_root (gp_roots p) \<and> plain P \<and> (\<exists>r \<in> set (gp_roots p). prefix (root_real r) P) \<and>
     (\<forall>r \<in> set (gp_roots p). prefix (root_host r) P \<longrightarrow> root_host r = root_real r)"

lemma fold_match:
  "fold (match_base path) cands best = Some (r, rel, l) \<Longrightarrow>
   best = Some (r, rel, l) \<or> (\<exists>base. (r, base) \<in> set cands \<and> Rel base path = Some rel \<and> IsLocal rel)"
proof (induction cands arbitrary: best)
  case (Cons c cands)
  obtain r0 b0 where c: "c = (r0, b0)" by (cases c)
  from Cons.IH [of "match_base path c best"] Cons.prems
  consider "match_base path c best = Some (r, rel, l)" | base where "(r, base) \<in> set cands" "Rel base path = Some rel" "IsLocal rel" by auto
  then show ?case
  proof cases
    case 1
    then show ?thesis by (auto simp: match_base_def c split: option.split_asm if_split_asm)
  qed auto
qed simp

lemma match_base_mono: "match_base path c best = None \<Longrightarrow> best = None"
  by (auto simp: match_base_def split: prod.split_asm option.split_asm if_split_asm)

lemma fold_match_None:
  "fold (match_base path) cands best = None \<Longrightarrow> (r, base) \<in> set cands \<Longrightarrow> \<not> within path base"
proof (induction cands arbitrary: best)
  case (Cons c cands)
  have up: "fold (match_base path) cs b = None \<Longrightarrow> b = None" for cs b
    by (induction cs arbitrary: b) (auto dest: match_base_mono)
  show ?case
  proof (cases "c = (r, base)")
    case True
    have "match_base path c best = None" using up [of cands] Cons.prems(1) by simp
    then show ?thesis using True match_base_mono [of path c best] by (auto simp: match_base_def within_def split: option.split_asm if_split_asm)
  next
    case False
    with Cons show ?thesis by auto
  qed
qed simp

lemma locate_inside:
  assumes "inside p P" and "locate p (path_of P) = Inr found"
  shows "\<exists>r. found = Some (r, path_of P)"
proof -
  have good: "list_all good_root (gp_roots p)" and P: "plain P" using assms(1) by (auto simp: inside_def)
  let ?cands = "concat (map (\<lambda>r. [(r, sr_real r), (r, sr_host r)]) (gp_roots p))"
  obtain r0 where r0: "r0 \<in> set (gp_roots p)" "prefix (root_real r0) P" using assms(1) by (auto simp: inside_def)
  have "within (path_of P) (sr_real r0)"
    using within_iff [of "root_real r0" "path_of P"] good r0 P by (simp add: list_all_iff good_root_def)
  moreover have "(r0, sr_real r0) \<in> set ?cands" using r0(1) by auto
  ultimately have "fold (match_base (path_of P)) ?cands None \<noteq> None" using fold_match_None by blast
  then obtain b where "fold (match_base (path_of P)) ?cands None = Some b" by blast
  then obtain r rel l where best: "fold (match_base (path_of P)) ?cands None = Some (r, rel, l)" by (cases b) blast
  then obtain base where b: "(r, base) \<in> set ?cands" "Rel base (path_of P) = Some rel" "IsLocal rel"
    using fold_match [OF best] by auto
  then have r: "r \<in> set (gp_roots p)" "base = sr_real r \<or> base = sr_host r" by auto
  then have g: "good_root r" using good by (simp add: list_all_iff)
  then have base: "base = path_of (elems base)" using r(2) by (auto simp: good_root_def)
  have "within (path_of P) base" using b(2,3) by (simp add: within_def)
  then have "prefix (elems base) P" using within_iff [of "elems base" "path_of P"] base P by simp
  then obtain x where x: "P = elems base @ x" by (auto simp: prefix_def)
  have "elems base = root_real r" using r \<open>prefix (elems base) P\<close> assms(1) by (auto simp: inside_def)
  moreover have "rel = rel_elems x" using b(2) base x P Rel_below [of "elems base" x] by simp
  moreover have "sr_real r = path_of (root_real r)" using g by (simp add: good_root_def)
  ultimately have "PathJoin [sr_real r, rel] = path_of P" using x P PathJoin_rel [of "root_real r" x] by simp
  then show ?thesis using assms(2) best P by (auto simp: locate_def Let_def rbind_eq_Inr)
qed

text \<open>What is created exists afterwards.\<close>

lemma resolves_nofollow: "resolves H True hops cur es r \<Longrightarrow> \<exists>r'. resolves H False hops cur es r'"
proof (induction rule: resolves.induct)
  case (follow cur w e t es hops r)
  then show ?case by (cases "es = []") (auto intro: resolves.link resolves.follow)
qed (auto intro: resolves.intros)

lemma resolve_result_node: "resolve_path H follow (path_of es) = Inr r \<Longrightarrow> \<exists>n. node_at H r = Some n"
  by (auto simp: resolve_path_def split: if_split_asm dest: namei_result [THEN way_node])

lemma stat_lstat: "stat H (path_of es) = Inr n \<Longrightarrow> \<exists>m. lstat H (path_of es) = Inr m"
proof -
  assume "stat H (path_of es) = Inr n"
  then obtain r where r: "resolve_path H True (path_of es) = Inr r" by (auto simp: stat_def node_of_def rbind_eq_Inr)
  then obtain r' where "resolve_path H False (path_of es) = Inr r'"
    using resolves_nofollow [of H maxSymlinks "[]" "Split CHR ''/'' (path_of es)" r]
    by (auto simp: resolve_path_def namei_iff split: if_split_asm)
  then show ?thesis using resolve_result_node by (fastforce simp: lstat_def node_of_def)
qed

lemma MkdirAll_exists:
  assumes "MkdirAll (path_of es) H = (Inr u, H')" and "plain es" and "es \<noteq> []" and "lstat H (path_of es) = Inl x"
  shows "\<exists>n. lstat H' (path_of es) = Inr n \<and> is_folder n"
proof -
  obtain e fs where es: "rev es = e # fs" using assms(3) by (cases "rev es") auto
  then have p: "path_of (rev (e # fs)) = path_of es" "es = rev fs @ [e]" by (simp_all add: rev_swap)
  obtain y where st: "stat H (path_of es) = Inl y" using stat_lstat [of H es] assms(4) by (cases "stat H (path_of es)") auto
  from assms(1) obtain H1 r where
    m: "mkdir_up fs H = (Inr (), H1)" "make_node (path_of es) (Folder True True) H1 = (r, H')"
      "r = Inr () \<or> (\<exists>n. lstat H' (path_of es) = Inr n \<and> is_folder n)"
    using assms(2) es st p by (auto simp: MkdirAll_def split: prod.split_asm sum.split_asm if_split_asm)
  show ?thesis
  proof (cases r)
    case (Inr v)
    then have "lstat H' (path_of es) = Inr (Folder True True)"
      using make_node_exists [of "rev fs" e "Folder True True" H1 H'] m(2) p(2) assms(2) by simp
    then show ?thesis by simp
  next
    case (Inl z)
    with m(3) show ?thesis by auto
  qed
qed

lemma createEmpty_exists:
  assumes "createEmpty (path_of es) as_dir H = (Inr u, H')" and "plain es" and "es \<noteq> []" and "lstat H (path_of es) = Inl x"
  shows "\<exists>n. lstat H' (path_of es) = Inr n \<and> (if as_dir then is_folder n else is_regular n)"
proof (cases as_dir)
  case True
  then have "MkdirAll (path_of es) H = (Inr (), H')" using assms(1) by (auto simp: createEmpty_def split: prod.split_asm sum.split_asm)
  from MkdirAll_exists [OF this assms(2-4)] True show ?thesis by simp
next
  case False
  obtain fs e where es: "es = fs @ [e]" using assms(3) by (cases es rule: rev_cases) auto
  obtain H1 where "make_node (path_of es) (Regular True []) H1 = (Inr (), H')"
    using assms(1) False by (auto simp: createEmpty_def split: prod.split_asm sum.split_asm)
  then have "lstat H' (path_of es) = Inr (Regular True [])"
    using make_node_exists [of fs e "Regular True []" H1 H'] es assms(2) by simp
  then show ?thesis using False by simp
qed

lemma protect_inside:
  assumes "protect (path_of P) as_dir create p = (Inr full, p')" and "inside p P" and "P \<noteq> []"
  shows "full = [] \<and> \<not> create \<or>
     full = path_of P \<and> shown_ro p' (path_of P) \<and> (\<exists>n. lstat (gp_host p') (path_of P) = Inr n \<and> (if as_dir then is_folder n else is_regular n))"
proof -
  obtain found where "locate p (path_of P) = Inr found" using assms(1) by (auto simp: protect_def split: sum.split_asm)
  then obtain r where loc: "locate p (path_of P) = Inr (Some (r, path_of P))" using locate_inside [OF assms(2)] by blast
  have P: "plain P" using assms(2) by (simp add: inside_def)
  show ?thesis
  proof (cases "lstat (gp_host p) (path_of P)")
    case (Inr n)
    then have "p' = readOnlyHost (path_of P) p" "full = path_of P" "if as_dir then is_folder n else is_regular n"
      using assms(1) loc by (auto simp: protect_def Let_def split: if_split_asm)
    then show ?thesis using Inr shown_ro_mark by (auto simp: readOnlyHost_def)
  next
    case (Inl e)
    show ?thesis
    proof (cases create)
      case False
      then show ?thesis using assms(1) loc Inl by (auto simp: protect_def Let_def split: if_split_asm)
    next
      case True
      then obtain q where q: "on_host (createEmpty (path_of P) as_dir) p = (Inr (), q)" "p' = readOnlyHost (path_of P) q" "full = path_of P"
        using assms(1) loc Inl by (auto simp: protect_def Let_def bindE_Inr split: if_split_asm)
      then have "createEmpty (path_of P) as_dir (gp_host p) = (Inr (), gp_host q)"
        by (auto simp: on_host_def split: prod.split_asm)
      from createEmpty_exists [OF this P assms(3) Inl] q shown_ro_mark show ?thesis by (auto simp: readOnlyHost_def)
    qed
  qed
qed

section \<open>Finished git directories\<close>

text \<open>A git directory that exists without links on the way, is in a writable share and has no common directory.\<close>

definition main_git :: "string list \<Rightarrow> gitProtector \<Rightarrow> bool" where
  "main_git D p \<longleftrightarrow>
     inside p (D @ [''hooks'']) \<and> inside p (D @ [''config'']) \<and> way (gp_host p) D \<and>
     (\<exists>a b. node_at (gp_host p) D = Some (Folder a b)) \<and> readPointer (gp_host p) (path_of (D @ [''commondir''])) = None"

definition guarded_file :: "bool \<Rightarrow> string list \<Rightarrow> gitProtector \<Rightarrow> bool" where
  "guarded_file as_dir P p \<longleftrightarrow>
     shown_ro p (path_of P) \<and> (\<exists>n. lstat (gp_host p) (path_of P) = Inr n \<and> (if as_dir then is_folder n else is_regular n))"

definition guarded_git :: "string list \<Rightarrow> gitProtector \<Rightarrow> bool" where
  "guarded_git D p \<longleftrightarrow> guarded_file True (D @ [''hooks'']) p \<and> guarded_file False (D @ [''config'']) p"

lemma inside_grows: "grows p p' \<Longrightarrow> inside p' P \<longleftrightarrow> inside p P"
  by (simp add: inside_def grows_sets(4))

lemma guarded_file_grows: "guarded_file as_dir P p \<Longrightarrow> grows p p' \<Longrightarrow> guarded_file as_dir P p'"
  unfolding guarded_file_def by (blast intro: shown_ro_grows lstat_extends [OF _ grows_sets(3)])

lemma guarded_git_grows: "guarded_git D p \<Longrightarrow> grows p p' \<Longrightarrow> guarded_git D p'"
  by (auto simp: guarded_git_def intro: guarded_file_grows)

text \<open>Creating empty files does not make a pointer.\<close>

lemma readPointer_below:
  assumes "way H D" and "plain (D @ [e])" and "node_at H D = Some (Folder a b)"
  shows "readPointer H (path_of (D @ [e])) =
     (if a \<and> length (path_of (D @ [e])) < pathMax then
        (case node_at H (D @ [e]) of
           Some (Regular True data) \<Rightarrow>
             if length data \<le> maxPointerSize \<and> TrimSpace (fst (Cut data [CHR 0x0A])) \<noteq> []
             then Some (TrimSpace (fst (Cut data [CHR 0x0A]))) else None
         | _ \<Rightarrow> None)
      else None)"
proof -
  have ls: "node_of H (resolve_path H False (path_of (D @ [e]))) =
      (if length (path_of (D @ [e])) \<ge> pathMax then Inl ENAMETOOLONG else if \<not> a then Inl EACCES
       else case node_at H (D @ [e]) of None \<Rightarrow> Inl ENOENT | Some n \<Rightarrow> Inr n)"
    using lstat_below [OF assms] by (simp add: lstat_def)
  show ?thesis unfolding readPointer_def readSmall_def open_node_def
    by (simp add: ls Let_def split: option.split node.split bool.split)
qed

lemma empty_no_pointer: "TrimSpace (fst (Cut [] [CHR 0x0A])) = []"
  by code_simp

lemma readPointer_extends:
  assumes "way H D" and "plain (D @ [e])" and "node_at H D = Some (Folder a b)" and "extends H H'"
    and "readPointer H (path_of (D @ [e])) = None"
  shows "readPointer H' (path_of (D @ [e])) = None"
proof -
  note b = readPointer_below [OF assms(1-3)] readPointer_below [OF extends_way [OF assms(4,1)] assms(2) extends_node [OF assms(4,3)]]
  show ?thesis
  proof (cases "node_at H (D @ [e])")
    case None
    then have "node_at H' (D @ [e]) = None \<or> (\<exists>n. node_at H' (D @ [e]) = Some n \<and> empty_node n)"
      using assms(4) by (auto simp: extends_def)
    then show ?thesis using b(2) empty_no_pointer by (auto simp: empty_node_def)
  next
    case (Some n)
    then have "node_at H' (D @ [e]) = Some n" using assms(4) by (rule extends_node [rotated])
    then have "readPointer H' (path_of (D @ [e])) = readPointer H (path_of (D @ [e]))" unfolding b using Some by simp
    with assms(5) show ?thesis by simp
  qed
qed

lemma main_git_grows:
  assumes "main_git D p" and "grows p p'"
  shows "main_git D p'"
proof -
  have pl: "plain (D @ [''commondir''])" using assms(1) by (auto simp: main_git_def inside_def)
  obtain a b where f: "node_at (gp_host p) D = Some (Folder a b)" "way (gp_host p) D"
    using assms(1) by (auto simp: main_git_def)
  note ext = grows_sets(3) [OF assms(2)]
  have "readPointer (gp_host p') (path_of (D @ [''commondir''])) = None"
    using readPointer_extends [OF f(2) pl f(1) ext] assms(1) by (simp add: main_git_def)
  then show ?thesis using assms f extends_way [OF ext f(2)] extends_node [OF ext f(1)] by (simp add: main_git_def inside_grows)
qed

lemma protect_hooks_guards:
  assumes "protect_hooks (path_of P) p = (Inr u, p')" and "inside p P" and "P \<noteq> []"
  shows "guarded_file True P p'"
proof -
  obtain full q where q: "protect (path_of P) True True p = (Inr full, q)" "hookTargets full q = (Inr u, p')"
    using assms(1) by (auto simp: protect_hooks_def bindE_Inr)
  have "guarded_file True P q" using protect_inside [OF q(1) assms(2,3)] by (auto simp: guarded_file_def)
  moreover have "grows q p'" using keepsD [OF grow.keeps_hookTargets q(2)] .
  ultimately show ?thesis by (rule guarded_file_grows)
qed

lemma read_config_guards:
  assumes "read_config ul (path_of P) cfg p = (Inr cfg', p')" and "inside p P" and "P \<noteq> []"
  shows "guarded_file False P p'"
proof -
  have pl: "plain P" using assms(2) by (simp add: inside_def)
  let ?w = "\<lparr>cw_seen = [path_of P], cw_count = Suc 0\<rparr>"
  let ?rest = "\<lambda>_. bindE (gets (\<lambda>p. (readSmall (gp_host p) (path_of P) maxConfigSize False, stat (gp_host p) (path_of P)))) (\<lambda>(data, info).
      case data of None \<Rightarrow> if info = Inl ENOENT then ret (cfg, ?w) else fail (ConfigUnreadable (path_of P))
      | Some d \<Rightarrow> config_entries ul (configFile ul maxConfigFiles) (path_of P) (parseGitConfig ul d) (cfg, ?w))"
  have k: "keeps grows grows (?rest v)" for v :: string by (intro grow.basics grow.keeps_config_entries grow.keeps_configFile)
  have e: "configFile ul (maxConfigFiles + 1) (path_of P) (cfg, newConfigWalk) = bindE (protect (path_of P) False True) ?rest"
  proof -
    have "\<not> 0 + 1 > maxConfigFiles" by (simp add: maxConfigFiles_def)
    then show ?thesis unfolding Suc_eq_plus1 [symmetric] configFile.simps using pl by (simp add: newConfigWalk_def Let_def)
  qed
  obtain x where "configFile ul (maxConfigFiles + 1) (path_of P) (cfg, newConfigWalk) p = (Inr x, p')"
    using assms(1) by (auto simp: read_config_def bindE_Inr)
  then obtain full q where q: "protect (path_of P) False True p = (Inr full, q)" "?rest full q = (Inr x, p')"
    unfolding e by (auto simp: bindE_Inr)
  have "guarded_file False P q" using protect_inside [OF q(1) assms(2,3)] by (auto simp: guarded_file_def)
  then show ?thesis using keepsD [OF k q(2)] by (rule guarded_file_grows)
qed

lemma protect_common_guards:
  assumes "protect_common ul (path_of D) p = (Inr u, p')" and "main_git D p"
  shows "guarded_git D p'"
proof -
  have pl: "plain D" using assms(2) by (auto simp: main_git_def inside_def)
  have h: "PathJoin [path_of D, ''hooks''] = path_of (D @ [''hooks''])" "PathJoin [path_of D, ''config''] = path_of (D @ [''config''])"
    using PathJoin_elem [OF pl] by simp_all
  let ?q = "pinHost (path_of D) (p\<lparr>gp_done := path_of D # gp_done p\<rparr>)"
  obtain q1 q2 cfg where 1: "protect_hooks (path_of (D @ [''hooks''])) ?q = (Inr (), q1)"
    and 2: "read_config ul (path_of (D @ [''config''])) (gp_inherited q1) q1 = (Inr cfg, q2)"
    and 3: "p' = q2\<lparr>gp_config := AList.update (path_of D) cfg (gp_config q2)\<rparr>"
    using assms(1) unfolding protect_common_def h by (auto simp: bindE_Inr)
  have g: "grows p ?q" by (rule grow.steps [OF _ grow.pin_step]) (auto simp: grows_def)
  then have "grows p q1" using keepsD [OF grow.keeps_protect_hooks 1] by (rule grow.steps)
  then have ins: "inside ?q (D @ [''hooks''])" "inside q1 (D @ [''config''])"
    using assms(2) inside_grows [OF g] inside_grows [of p q1] by (simp_all add: main_git_def)
  have g12: "grows q1 q2" "grows q2 p'" using keepsD [OF grow.keeps_read_config 2] 3 by (auto simp: grows_def)
  have "guarded_file True (D @ [''hooks'']) q1" using protect_hooks_guards [OF 1 ins(1)] by simp
  moreover have "guarded_file False (D @ [''config'']) q2" using read_config_guards [OF 2 ins(2)] by simp
  ultimately show ?thesis using g12 by (auto simp: guarded_git_def intro: guarded_file_grows)
qed

definition finishes :: "string list \<Rightarrow> gitProtector \<Rightarrow> gitProtector \<Rightarrow> bool" where
  "finishes D p p' \<longleftrightarrow>
     grows p p' \<and> (main_git D p \<longrightarrow> path_of D \<notin> set (gp_done p) \<longrightarrow> path_of D \<in> set (gp_done p') \<longrightarrow> guarded_git D p')"

lemma finishes_same_done: "grows p p' \<Longrightarrow> gp_done p' = gp_done p \<Longrightarrow> finishes D p p'"
  by (simp add: finishes_def)

interpretation finish: scan_base "finishes D" "\<lambda>_ _. True" for D
proof
  show "finishes D s u" if "finishes D s t" "finishes D t u" for s t u
    using that grow.steps [of s t u] main_git_grows [of D s t] guarded_git_grows [of D t u] unfolding finishes_def by blast
  show "finishes D p (pinHost full p)" for p full by (rule finishes_same_done [OF grow.pin_step]) (simp add: pinHost_def)
  show "finishes D p (readOnlyHost full p)" for p full by (rule finishes_same_done [OF grow.ro_step]) (simp add: readOnlyHost_def)
  show "finishes D p (p\<lparr>gp_host := H\<rparr>)" if "createEmpty full as_dir (gp_host p) = (Inr u, H)" for p H full as_dir u
    by (rule finishes_same_done [OF grow.create_step [OF that]]) simp
qed (auto simp: finishes_def grows_def)

interpretation finish: scan_steps "finishes D" "\<lambda>_ _. True" ul for D ul
proof
  fix dir
  show "keeps (finishes D) (\<lambda>_ _. True) (protect_common ul dir)"
  proof (cases "dir = path_of D")
    case True
    show ?thesis
    proof (rule keepsI)
      fix s u s' assume c: "protect_common ul dir s = (Inr u, s')"
      have "grows s s'" using keepsD [OF grow.common_step c] .
      then show "finishes D s s'" using protect_common_guards [of ul D s u s'] c True by (auto simp: finishes_def)
    qed simp
  next
    case False
    then have "finishes D p (p\<lparr>gp_done := dir # gp_done p\<rparr>)" for p by (auto simp: finishes_def grows_def)
    then show ?thesis by (rule finish.keeps_protect_common)
  qed
next
  show "finishes D p (mark_worktree dir p)" if r: "readPointer (gp_host p) (PathJoin [dir, ''commondir'']) = Some c" for p dir c
  proof (cases "dir = path_of D \<and> main_git D p")
    case True
    then have "plain D" by (auto simp: main_git_def inside_def)
    with True r show ?thesis using PathJoin_elem [of D "''commondir''"] by (simp add: main_git_def)
  next
    case False
    have g: "grows p (mark_worktree dir p)" using grow.pointer_step [OF r] .
    have "gp_done (mark_worktree dir p) = (if dir \<in> set (gp_done p) then gp_done p else dir # gp_done p)"
      by (simp add: mark_worktree_def readOnlyHost_def pinHost_def)
    then show ?thesis using False g by (auto simp: finishes_def split: if_split_asm)
  qed
qed

end
