(* ===== verification/GitScan.thy ===== *)
theory GitScan
  imports GitProtectProps
begin

text \<open>
  What the scan of the writable shares reaches (\<open>gitProtection\<close> and \<open>filepath.WalkDir\<close> in
  \<open>internal/cmd/vmgit_unix.go\<close>): a walk visits every path whose directories are not skipped, so every
  repository on such a path has its hooks, its configuration or its gitfile read-only in the guest.
\<close>

section \<open>What a walk visits\<close>

lemma child_names_iff: "e \<in> set (child_names H es) \<longleftrightarrow> node_at H (es @ [e]) \<noteq> None"
proof -
  have "e \<in> set (child_names H es) \<longleftrightarrow> (\<exists>k \<in> fst ` set (h_nodes H). k \<noteq> [] \<and> butlast k = es \<and> last k = e)"
    by (auto simp: child_names_def)
  also have "\<dots> \<longleftrightarrow> es @ [e] \<in> fst ` set (h_nodes H)"
    by (metis append_butlast_last_id append_is_Nil_conv butlast_snoc last_snoc list.distinct(1))
  finally show ?thesis by (simp add: node_at_def map_of_eq_None_iff)
qed

lemma read_dir_way:
  assumes "way H (es @ [e])" and "plain es" and "length (path_of es) < pathMax" and "read_dir H (path_of es) = r"
  shows "\<exists>entries. r = Inr entries \<and> (e, the (node_at H (es @ [e]))) \<in> set entries"
proof -
  obtain w where w: "node_at H es = Some (Folder True w)" "way H es" "node_at H (es @ [e]) \<noteq> None" using assms(1) by (auto simp: way_snoc)
  have "resolve_path H True (path_of es) = Inr es" using resolve_way [OF w(2) assms(2,3)] w(1) by simp
  then show ?thesis using assms(4) w(1,3) by (force simp: read_dir_def child_names_iff)
qed

lemma walk_entries_visits:
  assumes "walk_entries descend path es p = (Inr v, p')" and "(e, d) \<in> set es"
    and k: "\<And>path d. keeps grows grows (descend path d)" and ns: "\<And>path d s s'. descend path d s \<noteq> (Inr SkipDir, s')"
  shows "\<exists>t t'. grows p t \<and> descend (PathJoin [path, e]) d t = (Inr Continue, t') \<and> grows t' p'"
  using assms(1,2)
proof (induction es arbitrary: p)
  case (Cons x xs)
  then obtain u t where u: "descend (PathJoin [path, fst x]) (snd x) p = (Inr u, t)" by (auto simp: bindE_Inr)
  with ns have u: "descend (PathJoin [path, fst x]) (snd x) p = (Inr Continue, t)" by (cases u) auto
  with Cons.prems(1) have t: "walk_entries descend path xs t = (Inr v, p')" by (auto simp: bindE_Inr)
  have g: "grows p t" "grows t p'" using keepsD [OF k u] keepsD [OF grow.keeps_walk_entries [OF k] t] .
  show ?case
  proof (cases "x = (e, d)")
    case True
    with u g grow.same show ?thesis by auto
  next
    case False
    with Cons.prems(2) Cons.IH [OF t] g(1) grow.steps show ?thesis by (metis set_ConsD)
  qed
qed simp

text \<open>The callbacks of the repository skip the rest of a directory only at a directory.\<close>

definition skips_folders :: "callback \<Rightarrow> bool" where
  "skips_folders fn \<longleftrightarrow> (\<forall>path d s s'. \<not> is_folder d \<longrightarrow> fn path (Inr d) s \<noteq> (Inr SkipDir, s'))"

lemma walk_dir_continues: "skips_folders fn \<Longrightarrow> walk_dir n fn path d s \<noteq> (Inr SkipDir, s')"
proof (cases n)
  case (Suc m)
  have e: "walk_entries f path es t \<noteq> (Inr SkipDir, s')" for f es t by (induction es arbitrary: t) (auto simp: bindE_Inr split: if_split_asm)
  show "skips_folders fn \<Longrightarrow> ?thesis"
    by (auto simp: Suc skips_folders_def bindE_Inr e split: if_split_asm sum.split_asm)
qed simp

lemma walk_reaches:
  assumes "walk_dir n fn (path_of P) d p = (Inr v, p')" and "node_at (gp_host p) P = Some d"
    and k: "\<And>path d. keeps grows grows (fn path d)" and sf: "skips_folders fn"
    and "way (gp_host p) (P @ x)" and "plain (P @ x)" and "length (path_of (P @ x)) < pathMax"
    and on: "\<And>y s s' a b. strict_prefix y x \<Longrightarrow> grows p s \<Longrightarrow> grows s' p' \<Longrightarrow> fn (path_of (P @ y)) (Inr (Folder a b)) s \<noteq> (Inr SkipDir, s')"
  shows "\<exists>s v s'. grows p s \<and> fn (path_of (P @ x)) (Inr (the (node_at (gp_host p) (P @ x)))) s = (Inr v, s') \<and> grows s' p'"
  using assms(1,2,5-8)
proof (induction x arbitrary: n P d p v p')
  case Nil
  then obtain m where n: "n = Suc m" by (cases n) auto
  note kw = grow.keeps_walk_entries [OF grow.keeps_walk_dir [OF k]]
  obtain u q where u: "fn (path_of P) (Inr d) p = (Inr u, q)" using Nil.prems(1) by (auto simp: n bindE_Inr)
  have "grows q p'" using Nil.prems(1) u k grow.same keepsD [OF kw] keepsD [OF k]
    by (auto simp: n bindE_Inr split: if_split_asm sum.split_asm)
  with u Nil.prems(2) grow.same show ?case by auto
next
  case (Cons e x)
  then obtain m where n: "n = Suc m" by (cases n) auto
  obtain w where w: "node_at (gp_host p) P = Some (Folder True w)" using way_folder [of _ P e x] Cons.prems(3) by auto
  then have d: "d = Folder True w" using Cons.prems(2) by simp
  obtain u q where u: "fn (path_of P) (Inr d) p = (Inr u, q)" using Cons.prems(1) by (auto simp: n bindE_Inr)
  have g: "grows p q" using keepsD [OF k u] .
  note kd = grow.keeps_walk_dir [OF k]
  have qp: "grows q p'" using Cons.prems(1) u k grow.same keepsD [OF grow.keeps_walk_entries [OF kd]] keepsD [OF k]
    by (auto simp: n bindE_Inr split: if_split_asm sum.split_asm)
  have "u \<noteq> SkipDir" using Cons.prems(6) [of "[]" p q True w] u d grow.same qp by auto
  have ext: "extends (gp_host p) (gp_host q)" using g by (rule grows_sets)
  have wq: "way (gp_host q) ((P @ [e]) @ x)" using extends_way [OF ext Cons.prems(3)] by simp
  have len: "length (path_of P) < pathMax" using length_path_of_append [of P "e # x"] Cons.prems(5) by simp
  obtain entries where en: "read_dir (gp_host q) (path_of P) = Inr entries" "(e, the (node_at (gp_host q) (P @ [e]))) \<in> set entries"
    using read_dir_way [OF way_append [OF wq] _ len refl] Cons.prems(4) by auto
  have "walk_entries (walk_dir m fn) (path_of P) entries q = (Inr v, p')"
    using Cons.prems(1) u d en(1) \<open>u \<noteq> SkipDir\<close> by (auto simp: n bindE_Inr)
  from walk_entries_visits [OF this en(2) kd walk_dir_continues [OF sf]]
  obtain t t' where t: "grows q t" "walk_dir m fn (PathJoin [path_of P, e]) (the (node_at (gp_host q) (P @ [e]))) t = (Inr Continue, t')" "grows t' p'"
    by blast
  have pt: "grows p t" using grow.steps [OF g t(1)] .
  have nq: "node_at (gp_host t) (P @ [e]) = Some (the (node_at (gp_host q) (P @ [e])))"
    using way_node [OF way_append [OF wq]] extends_node [OF grows_sets(3) [OF t(1)]] by fastforce
  have j: "PathJoin [path_of P, e] = path_of (P @ [e])" using Cons.prems(4) by (intro PathJoin_elem) auto
  have "\<exists>s v s'. grows t s \<and> fn (path_of ((P @ [e]) @ x)) (Inr (the (node_at (gp_host t) ((P @ [e]) @ x)))) s = (Inr v, s') \<and> grows s' t'"
  proof (rule Cons.IH)
    show "walk_dir m fn (path_of (P @ [e])) (the (node_at (gp_host q) (P @ [e]))) t = (Inr Continue, t')" using t(2) j by simp
    show "way (gp_host t) ((P @ [e]) @ x)" using extends_way [OF grows_sets(3) [OF t(1)] wq] .
    show "fn (path_of ((P @ [e]) @ y)) (Inr (Folder a b)) s \<noteq> (Inr SkipDir, s')"
      if y: "strict_prefix y x" "grows t s" "grows s' t'" for y s s' a b
      using Cons.prems(6) [of "e # y" s s' a b] y pt t(3) grow.steps by auto
  qed (use nq Cons.prems in auto)
  then obtain s v s' where s: "grows t s" "grows s' t'"
      "fn (path_of (P @ e # x)) (Inr (the (node_at (gp_host t) (P @ e # x)))) s = (Inr v, s')" by auto
  have "node_at (gp_host t) (P @ e # x) = node_at (gp_host p) (P @ e # x)"
    using way_node [OF Cons.prems(3)] extends_node [OF grows_sets(3) [OF pt]] by auto
  with s grow.steps [OF pt s(1)] grow.steps [OF s(2) t(3)] show ?case by auto
qed

section \<open>What the scan reaches\<close>

text \<open>
  The directory \<open>R @ x\<close> below the root \<open>R\<close> of a share with the guest path \<open>G\<close> is not skipped: no
  directory on the way to it is the mount point of another share, has a name the scan leaves out or
  looks like a bare repository.
\<close>

definition open_way :: "host \<Rightarrow> string list \<Rightarrow> string list \<Rightarrow> string list \<Rightarrow> string list \<Rightarrow> bool" where
  "open_way H mounts G R x \<longleftrightarrow>
     (\<forall>y \<in> set (prefixes x).
        (y = [] \<or> path_of (G @ y) \<notin> set mounts \<and> last y \<noteq> ''.git'' \<and> last y \<notin> set gitScanSkip) \<and> \<not> isBareRepo H (path_of (R @ y)))"

lemma isBareRepo_extends: "isBareRepo H dir \<Longrightarrow> extends H H' \<Longrightarrow> isBareRepo H' dir"
  unfolding isBareRepo_def by (auto split: sum.split_asm dest: lstat_extends)

lemma scan_visit_skips_folders: "skips_folders (scan_visit ul n r)"
  by (auto simp: skips_folders_def scan_visit_def bindE_Inr split: if_split_asm)

lemma scan_visit_open:
  assumes "good_root r" and "plain (root_real r @ x)" and "open_way H (gp_mounts p) (root_guest r) (root_real r) x"
    and "prefix y x" and "extends (gp_host p) H"
  shows "scan_visit ul n r (path_of (root_real r @ y)) (Inr (Folder a b)) p \<noteq> (Inr SkipDir, p')"
proof -
  let ?d = "path_of (root_real r @ y)"
  have y: "plain (root_real r @ y)" using assms(2,4) by (auto simp: prefix_def)
  have o: "y = [] \<or> path_of (root_guest r @ y) \<notin> set (gp_mounts p) \<and> last y \<noteq> ''.git'' \<and> last y \<notin> set gitScanSkip"
    "\<not> isBareRepo H ?d" using assms(3,4) by (auto simp: open_way_def)
  then have b: "\<not> isBareRepo (gp_host p) ?d" using isBareRepo_extends assms(5) by blast
  have r: "?d = sr_real r \<longleftrightarrow> y = []" using assms(1) y path_of_inj [of "root_real r @ y" "root_real r"] by (auto simp: good_root_def)
  have g: "guestOf r ?d = path_of (root_guest r @ y)" using guestOf_below [OF assms(1), of ?d y] y by simp
  show ?thesis
  proof (cases y rule: rev_cases)
    case Nil
    then show ?thesis using r b by (auto simp: scan_visit_def bindE_Inr)
  next
    case (snoc z e)
    then have "Base ?d = e" using Base_path_of [of "root_real r @ z" e] y by simp
    then show ?thesis using o(1) b g snoc by (auto simp: scan_visit_def bindE_Inr)
  qed
qed

lemma scan_visits:
  assumes "scan_shares ul n inherited p = (Inr u, p')" and "r \<in> set (gp_roots p)" and "good_root r"
    and "way (gp_host p) (root_real r @ x @ [e])" and "plain (root_real r @ x @ [e])" and "length (path_of (root_real r @ x @ [e])) < pathMax"
    and "open_way (gp_host p') (gp_mounts p) (root_guest r) (root_real r) x"
  shows "\<exists>s v s'. grows p s \<and> scan_visit ul n r (path_of (root_real r @ x @ [e])) (Inr (the (node_at (gp_host p) (root_real r @ x @ [e])))) s = (Inr v, s') \<and>
     grows s' p'"
proof -
  let ?R = "root_real r" and ?X = "root_real r @ x @ [e]"
  obtain q1 where q1: "each_do (inherit ul) inherited p = (Inr (), q1)"
    "each_do (\<lambda>r. WalkDir (scan_visit ul n r) (sr_real r)) (gp_roots q1) (q1\<lparr>gp_inherited := (gp_inherited q1)\<lparr>gc_worktreeConfig := False\<rparr>\<rparr>) = (Inr u, p')"
    using assms(1) by (auto simp: scan_shares_def bindE_Inr)
  let ?q = "q1\<lparr>gp_inherited := (gp_inherited q1)\<lparr>gc_worktreeConfig := False\<rparr>\<rparr>"
  have "grows p q1" using keepsD [OF grow.keeps_each q1(1)] grow.keeps_inherit by blast
  then have pq: "grows p ?q" using grow.steps grow.inherit_step by blast
  have r: "r \<in> set (gp_roots q1)" using assms(2) \<open>grows p q1\<close> by (simp add: grows_sets)
  from grow.each_do_visits [OF q1(2) r grow.keeps_WalkDir [OF grow.keeps_scan_visit]]
  obtain t t' where t: "grows ?q t" "WalkDir (scan_visit ul n r) (sr_real r) t = (Inr (), t')" "grows t' p'" by blast
  have pt: "grows p t" using grow.steps [OF pq t(1)] .
  note ext = grows_sets(3) [OF pt]
  have R: "sr_real r = path_of ?R" "plain ?R" using assms(3) by (simp_all add: good_root_def)
  have wt: "way (gp_host t) (?R @ (x @ [e]))" using extends_way [OF ext assms(4)] .
  obtain w where w: "node_at (gp_host t) ?R = Some (Folder True w)" "way (gp_host t) ?R" using wt way_append [OF wt] by (cases x) (auto dest: way_folder)
  have len: "length (path_of ?R) < pathMax" using length_path_of_append [of ?R "x @ [e]"] assms(6) by simp
  have "lstat (gp_host t) (path_of ?R) = Inr (Folder True w)" using lstat_way [OF w(2) R(2) len w(1)] .
  then obtain v where wd: "walk_dir (pathMax + 1) (scan_visit ul n r) (path_of ?R) (Folder True w) t = (Inr v, t')"
    using t(2) R(1) by (auto simp: WalkDir_def bindE_Inr)
  have "\<exists>s v s'. grows t s \<and> scan_visit ul n r (path_of (?R @ x @ [e])) (Inr (the (node_at (gp_host t) (?R @ x @ [e])))) s = (Inr v, s') \<and> grows s' t'"
  proof (rule walk_reaches [OF wd w(1) grow.keeps_scan_visit scan_visit_skips_folders wt])
    show "scan_visit ul n r (path_of (?R @ y)) (Inr (Folder a b)) s \<noteq> (Inr SkipDir, s')"
      if y: "strict_prefix y (x @ [e])" "grows t s" "grows s' t'" for y s s' a b
    proof
      assume v: "scan_visit ul n r (path_of (?R @ y)) (Inr (Folder a b)) s = (Inr SkipDir, s')"
      have "grows s s'" using keepsD [OF grow.keeps_scan_visit v] .
      then have "grows s p'" using y(3) t(3) grow.steps by blast
      then have "extends (gp_host s) (gp_host p')" by (rule grows_sets)
      moreover have "gp_mounts s = gp_mounts p" using grow.steps [OF pt y(2)] by (rule grows_sets)
      moreover have "prefix y x" using y(1) by (metis prefix_snoc strict_prefix_def)
      ultimately show False using scan_visit_open [OF assms(3), of x "gp_host p'" s y ul n a b s'] assms(5,7) v by simp
    qed
  qed (use assms(5,6) in auto)
  then obtain s v s' where s: "grows t s" "grows s' t'"
    "scan_visit ul n r (path_of ?X) (Inr (the (node_at (gp_host t) ?X))) s = (Inr v, s')" by blast
  have "node_at (gp_host t) ?X = node_at (gp_host p) ?X" using way_node [OF assms(4)] extends_node [OF ext] by auto
  with s(3) grow.steps [OF pt s(1)] grow.steps [OF s(2) t(3)] show ?thesis by auto
qed

section \<open>Repositories\<close>

lemma protect_common_done: "protect_common ul dir p = (Inr u, p') \<Longrightarrow> dir \<in> set (gp_done p')"
proof -
  assume a: "protect_common ul dir p = (Inr u, p')"
  let ?q = "pinHost dir (p\<lparr>gp_done := dir # gp_done p\<rparr>)"
  have "keeps grows grows (bindE (protect_hooks (PathJoin [dir, ''hooks''])) (\<lambda>_.
     bindE (gets gp_inherited) (\<lambda>inherited.
     bindE (read_config ul (PathJoin [dir, ''config'']) inherited) (\<lambda>cfg.
     modify (\<lambda>p. p\<lparr>gp_config := AList.update dir cfg (gp_config p)\<rparr>)))))" (is "keeps _ _ ?rest")
    by (intro grow.basics grow.keeps_protect_hooks grow.keeps_read_config grow.keeps_modify grow.config_step)
  moreover have "?rest ?q = (Inr u, p')" using a by (simp add: protect_common_def)
  ultimately have "grows ?q p'" by (rule keepsD)
  from grows_sets(2) [OF this] show ?thesis by (auto simp: pinHost_def)
qed

lemma protectCommonDir_done: "protectCommonDir ul n r dir p = (Inr u, p') \<Longrightarrow> dir \<in> set (gp_done p')"
proof (cases n)
  case (Suc m)
  assume a: "protectCommonDir ul n r dir p = (Inr u, p')"
  have k: "keeps grows grows (case info of Inl (_ :: errno) \<Rightarrow> ret () | Inr (_ :: node) \<Rightarrow>
     WalkDir (module_visit (git_dir ul m) r modules) modules)" for info modules
    by (intro grow.basics grow.keeps_WalkDir grow.keeps_module_visit grow.keeps_git_dir)
  show ?thesis
  proof (cases "dir \<in> set (gp_done p)")
    case True
    with a show ?thesis by (simp add: Suc)
  next
    case False
    with a obtain q where "protect_common ul dir p = (Inr (), q)"
      "(case stat (gp_host q) (PathJoin [dir, ''modules'']) of Inl (_ :: errno) \<Rightarrow> ret () | Inr (_ :: node) \<Rightarrow>
         WalkDir (module_visit (git_dir ul m) r (PathJoin [dir, ''modules''])) (PathJoin [dir, ''modules''])) q = (Inr u, p')"
      by (auto simp: Suc bindE_Inr Let_def)
    with protect_common_done keepsD [OF k] grows_sets(2) show ?thesis by blast
  qed
qed simp

lemma git_dir_done:
  assumes "git_dir ul n r dir worktree p = (Inr u, p')" and "readPointer (gp_host p) (PathJoin [dir, ''commondir'']) = None"
  shows "dir \<in> set (gp_done p')"
proof -
  let ?rest = "\<lambda>commonDir. bindE (gets (\<lambda>p. case map_of (gp_config p) commonDir of Some c \<Rightarrow> c | None \<Rightarrow> no_config)) (\<lambda>cfg.
     bindE (if gc_worktreeConfig cfg then read_config ul (PathJoin [dir, ''config.worktree'']) cfg
            else bindE (protect (PathJoin [dir, ''config.worktree'']) False False) (\<lambda>_. ret cfg)) (\<lambda>cfg'.
     hooksPath cfg' worktree dir))"
  obtain c q where q: "protectGitDir (protectCommonDir ul n) r dir p = (Inr c, q)" "?rest c q = (Inr u, p')"
    using assms(1) unfolding gitDir_def bindE_Inr [of "protectGitDir _ _ _"] by blast
  have "protectCommonDir ul n r dir p = (Inr (), q)" using q(1) assms(2) by (auto simp: protectGitDir_def bindE_Inr)
  moreover have "keeps grows grows (?rest c)" by (intro grow.basics grow.keeps_read_config grow.keeps_protect grow.keeps_hooksPath)
  then have "grows q p'" using q(2) by (rule keepsD)
  ultimately show ?thesis using grows_sets(2) protectCommonDir_done by blast
qed

text \<open>What the visit of a \<open>.git\<close> entry does.\<close>

lemma visit_git:
  assumes "scan_visit ul n r (path_of D) (Inr d) p = (Inr v, p')" and "plain D" and "last D = ''.git''" and "D \<noteq> []"
    and "path_of D \<noteq> sr_real r" and "is_folder d \<Longrightarrow> guestOf r (path_of D) \<notin> set (gp_mounts p)"
  shows "if is_folder d then readPointer (gp_host p) (path_of (D @ [''commondir''])) = None \<longrightarrow> path_of D \<in> set (gp_done p')
         else shown_ro p' (path_of D)"
proof -
  obtain E where E: "D = E @ [''.git'']" using assms(3,4) by (metis append_butlast_last_id)
  have "Base (path_of D) = ''.git''" using Base_path_of [of E "''.git''"] assms(2) by (simp add: E)
  then have rp: "repo ul n r (path_of D) d p = (Inr (), p')" using assms(1,5,6) by (auto simp: scan_visit_def bindE_Inr split: if_split_asm)
  show ?thesis
  proof (cases "is_folder d")
    case True
    have "PathJoin [path_of D, ''commondir''] = path_of (D @ [''commondir''])" using assms(2) by (simp add: PathJoin_elem)
    then show ?thesis using rp True git_dir_done [of ul n r "path_of D" _ "pinHost (PathDir (path_of D)) p" "()" p']
      by (simp add: repo_def Let_def pinHost_def)
  next
    case False
    let ?q = "readOnlyHost (path_of D) (pinHost (PathDir (path_of D)) p)"
    let ?rest = "if \<not> is_regular d then ret ()
          else bindE (gets (\<lambda>p. readPointer (gp_host p) (path_of D))) (\<lambda>content.
            case content of
              None \<Rightarrow> ret ()
            | Some c \<Rightarrow>
                (case CutPrefix c ''gitdir:'' of
                   None \<Rightarrow> ret ()
                 | Some tgt \<Rightarrow> linked ul n (resolvePointer (PathDir (path_of D)) (TrimSpace tgt)) (PathDir (path_of D))))"
    have "keeps grows grows ?rest" by (intro grow.basics grow.keeps_linked)
    moreover have "?rest ?q = (Inr (), p')" using rp False by (simp add: repo_def Let_def)
    ultimately have "grows ?q p'" by (rule keepsD)
    then show ?thesis using False shown_ro_grows [OF shown_ro_mark] by simp
  qed
qed

section \<open>Protected repositories\<close>

text \<open>The guest path \<open>g\<close> shows the host path \<open>P\<close> through a writable share that no deeper share covers there.\<close>

definition shown_at :: "host \<Rightarrow> Share list \<Rightarrow> string list \<Rightarrow> string \<Rightarrow> bool" where
  "shown_at H shares P g \<longleftrightarrow>
     list_ex (\<lambda>s. \<not> ReadOnly s \<and>
       (case EvalSymlinks H (Clean (HostPath s)) of
          Inl _ \<Rightarrow> False
        | Inr R \<Rightarrow> prefix (elems R) P \<and> g = path_of (elems (guestPath s) @ drop (length (elems R)) P) \<and>
            \<not> list_ex (\<lambda>s'. length (Clean (guestPath s')) > length (Clean (guestPath s)) \<and> prefix (elems (guestPath s')) (elems g)) shares)) shares"

definition mount_points :: "Share list \<Rightarrow> string list" where
  "mount_points shares = map (\<lambda>s. Clean (guestPath s)) shares"

lemma shown_at_views:
  assumes "shown_at H shares P g" and "share_roots H shares = Inr roots" and "abs_shares shares" and "plain P"
    and "gp_roots p = roots" and "gp_mounts p = mount_points shares"
  shows "g \<in> fst ` set (views p (path_of P))"
proof -
  obtain s R where s: "s \<in> set shares" "\<not> ReadOnly s" "EvalSymlinks H (Clean (HostPath s)) = Inr R" "prefix (elems R) P"
      "g = path_of (elems (guestPath s) @ drop (length (elems R)) P)"
      "\<not> list_ex (\<lambda>s'. length (Clean (guestPath s')) > length (Clean (guestPath s)) \<and> prefix (elems (guestPath s')) (elems g)) shares"
    using assms(1) unfolding shown_at_def list_ex_iff by (elim bexE conjE) (auto split: sum.split_asm)
  obtain r where r: "r \<in> set roots" "root_of H s r" using share_roots_of [OF assms(2)] s(1,2) by blast
  have ab: "IsAbs (HostPath s)" "IsAbs (guestPath s)" using assms(3) s(1) by (auto simp: abs_shares_def list_all_iff)
  have R: "sr_real r = R" "sr_guest r = Clean (guestPath s)" using r(2) s(3) by (simp_all add: root_of_def)
  note good = root_of_real [OF r(2) ab]
  obtain x where x: "P = elems R @ x" using s(4) by (auto simp: prefix_def)
  have m: "within g (Clean (guestPath s')) \<longleftrightarrow> prefix (elems (guestPath s')) (elems g)" if "s' \<in> set shares" for s'
    using within_iff [of "elems (guestPath s')" g] assms(3) that s(5) by (auto simp: abs_shares_def list_all_iff Clean_path_of)
  have "\<not> hidden (mount_points shares) r g"
    using s(6) m R(2) by (auto simp: hidden_def mount_points_def list_ex_iff)
  moreover have "g = path_of (root_guest r @ x)" "elems (path_of P) = root_real r @ x" using s(5) x R(1) good(2) assms(4) by simp_all
  ultimately have "(g, sr_guest r) \<in> set (views p (path_of P))"
    using views_iff [of p g "sr_guest r" "path_of P"] share_roots_good [OF assms(2,3)] assms(5,6) r(1) path_of_abs by metis
  then show ?thesis by force
qed

lemma scan_root:
  assumes "gitProtection ul n shares inherited H = (Inr (pins, ro), H')" and "abs_shares shares"
    and "s \<in> set shares" "\<not> ReadOnly s" "EvalSymlinks H (Clean (HostPath s)) = Inr (path_of R)" "plain R"
  obtains roots p' r where "share_roots H shares = Inr roots"
    and "scan_shares ul n inherited (new_protector H shares roots) = (Inr (), p')" and "set ro = set (gp_ro p')" and "H' = gp_host p'"
    and "r \<in> set roots" and "good_root r" and "root_real r = R" and "sr_real r = path_of R" and "root_guest r = elems (guestPath s)"
proof -
  obtain roots p' where p': "share_roots H shares = Inr roots"
    "scan_shares ul n inherited (new_protector H shares roots) = (Inr (), p')" "set ro = set (gp_ro p')" "H' = gp_host p'"
    using gitProtection_scan [OF assms(1)] by metis
  obtain r where r: "r \<in> set roots" "root_of H s r" using share_roots_of [OF p'(1)] assms(3,4) by blast
  have "IsAbs (HostPath s)" "IsAbs (guestPath s)" using assms(2,3) by (auto simp: abs_shares_def list_all_iff)
  note good = root_of_real [OF r(2) this]
  have "sr_real r = path_of R" using r(2) assms(5) by (simp add: root_of_def)
  with that p' r(1) good(1,2) assms(6) show thesis by simp
qed

lemma shown_in_scan:
  assumes "scan_shares ul n inherited (new_protector H shares roots) = (Inr (), p')" and "share_roots H shares = Inr roots"
    and "abs_shares shares" and "plain P" and "shown_ro p' (path_of P)" and "shown_at H shares P g"
  shows "g \<in> set (gp_ro p')"
proof -
  have g: "grows (new_protector H shares roots) p'" using keepsD [OF grow.keeps_scan_shares assms(1)] .
  have "g \<in> fst ` set (views p' (path_of P))"
    using shown_at_views [OF assms(6,2,3,4)] grows_sets(4,5) [OF g] by (simp add: mount_points_def)
  with assms(5) show ?thesis by (auto simp: shown_ro_def)
qed

text \<open>A share whose host path is on a way without links is its own real path.\<close>

lemma inside_way:
  assumes "share_roots H shares = Inr roots" and "abs_shares shares" and "r \<in> set roots" and "prefix (root_real r) D"
    and "way H D" and "node_at H D = Some (Folder a b)" and "length (path_of D) < pathMax" and "plain (D @ [f])"
    and "\<forall>s \<in> set shares. elems (HostPath s) \<noteq> D @ [f]"
  shows "inside (new_protector H shares roots) (D @ [f])"
proof -
  have "root_host r' = root_real r'" if r': "r' \<in> set roots" "prefix (root_host r') (D @ [f])" for r'
  proof -
    obtain s where s: "s \<in> set shares" "root_of H s r'" using share_roots_of [OF assms(1)] r'(1) by blast
    have ab: "IsAbs (HostPath s)" "IsAbs (guestPath s)" using assms(2) s(1) by (auto simp: abs_shares_def list_all_iff)
    note rr = root_of_real [OF s(2) ab]
    have "root_host r' \<noteq> D @ [f]" using assms(9) s(1) rr(3) by auto
    then obtain z where z: "D = root_host r' @ z" using r'(2) by (metis prefix_def prefix_snoc)
    have w: "way H (root_host r')" using way_append assms(5) z by metis
    obtain m where m: "node_at H (root_host r') = Some m" "\<not> is_link m"
      using assms(5,6) way_folder [of H "root_host r'"] z by (cases z) force+
    have "length (path_of (root_host r')) < pathMax" using length_path_of_append [of "root_host r'" z] z assms(7) by simp
    from EvalSymlinks_way [OF w plain_elems m this] have "sr_real r' = path_of (root_host r')"
      using s(2) Clean_path_of [OF ab(1)] rr(3) by (auto simp: root_of_def)
    then show ?thesis by simp
  qed
  then show ?thesis using share_roots_good [OF assms(1,2)] assms(3,4,8) by (auto simp: inside_def)
qed

lemma git_entry_visited:
  assumes "scan_shares ul n inherited (new_protector H shares roots) = (Inr (), p')" and "r \<in> set roots" and "good_root r"
    and D: "D = root_real r @ x @ [''.git'']" "plain D" "way H D" "length (path_of D) < pathMax" "node_at H D = Some d"
    and "open_way (gp_host p') (mount_points shares) (root_guest r) (root_real r) x"
    and "is_folder d \<Longrightarrow> path_of (root_guest r @ x @ [''.git'']) \<notin> set (mount_points shares)"
  shows "\<exists>t t'. grows (new_protector H shares roots) t \<and> grows t' p' \<and>
     (if is_folder d then readPointer (gp_host t) (path_of (D @ [''commondir''])) = None \<longrightarrow> path_of D \<in> set (gp_done t')
      else shown_ro t' (path_of D))"
proof -
  let ?p = "new_protector H shares roots"
  obtain t v t' where t: "grows ?p t" "scan_visit ul n r (path_of D) (Inr d) t = (Inr v, t')" "grows t' p'"
    using scan_visits [OF assms(1) _ assms(3), of x "''.git''"] assms(2) D assms(9) by (auto simp: mount_points_def)
  have "guestOf r (path_of D) = path_of (root_guest r @ x @ [''.git''])" using guestOf_below [OF assms(3)] D(1,2) by simp
  then have m: "is_folder d \<Longrightarrow> guestOf r (path_of D) \<notin> set (gp_mounts t)"
    using assms(10) grows_sets(5) [OF t(1)] by (simp add: mount_points_def)
  have "sr_real r = path_of (root_real r)" using assms(3) by (simp add: good_root_def)
  then have n: "path_of D \<noteq> sr_real r" using D(1,2) path_of_inj [of D "root_real r"] by auto
  have "last D = ''.git''" "D \<noteq> []" using D(1) by simp_all
  from visit_git [OF t(2) D(2) this n m] t(1,3) show ?thesis by blast
qed

text \<open>Gitfiles are protected. A \<open>.git\<close> entry of a writable share that is not a directory, on a way the scan takes,
  is read-only at every guest path where a writable share shows it.\<close>

theorem gitfiles_protected:
  assumes run: "gitProtection ul n shares inherited H = (Inr (pins, ro), H')" "abs_shares shares"
    and s: "s \<in> set shares" "\<not> ReadOnly s" "EvalSymlinks H (Clean (HostPath s)) = Inr (path_of R)" "plain R"
    and D: "D = R @ x @ [''.git'']" "plain D" "way H D" "length (path_of D) < pathMax" "node_at H D = Some d" "\<not> is_folder d"
    and scanned: "open_way H' (mount_points shares) (elems (guestPath s)) R x"
    and "shown_at H shares D g"
  shows "g \<in> set ro"
proof -
  obtain roots p' r where p': "share_roots H shares = Inr roots"
    "scan_shares ul n inherited (new_protector H shares roots) = (Inr (), p')" "set ro = set (gp_ro p')" "H' = gp_host p'"
    and r: "r \<in> set roots" "good_root r" "root_real r = R" "sr_real r = path_of R" "root_guest r = elems (guestPath s)"
    by (rule scan_root [OF run s])
  obtain t' where "grows t' p'" "shown_ro t' (path_of D)"
    using git_entry_visited [OF p'(2) r(1,2), of D x d] D scanned r p'(4) by auto
  then have "shown_ro p' (path_of D)" using shown_ro_grows by blast
  from shown_in_scan [OF p'(2,1) run(2) D(2) this assms(14)] p'(3) show ?thesis by simp
qed

text \<open>Repositories on the host are protected. The scan of the shares succeeds, and a directory \<open>.git\<close> lies in
  a writable share, reached without symbolic links, through directories that are not skipped (no other
  mount point, no name such as \<open>node_modules\<close>, no bare repository), and without a \<open>commondir\<close> file. Then its
  \<open>hooks\<close> is a directory and its \<open>config\<close> a regular file afterwards, and both are read-only at every
  guest path where a writable share shows them.\<close>

lemma repositories_protected:
  assumes run: "gitProtection ul n shares inherited H = (Inr (pins, ro), H')" and abs: "abs_shares shares"
    and s: "s \<in> set shares" "\<not> ReadOnly s" "EvalSymlinks H (Clean (HostPath s)) = Inr (path_of R)" "plain R"
    and D: "D = R @ x @ [''.git'']" "plain D" "way H D" "length (path_of D) < pathMax" "node_at H D = Some (Folder a b)"
    and scanned: "open_way H' (mount_points shares) (elems (guestPath s)) R x"
      "path_of (elems (guestPath s) @ x @ [''.git'']) \<notin> set (mount_points shares)"
    and main: "readPointer H (path_of (D @ [''commondir''])) = None"
    and apart: "\<forall>s' \<in> set shares. elems (HostPath s') \<notin> {D @ [''hooks''], D @ [''config'']}"
  shows "(\<exists>c d. lstat H' (path_of (D @ [''hooks''])) = Inr (Folder c d)) \<and>
     (\<exists>c d. lstat H' (path_of (D @ [''config''])) = Inr (Regular c d)) \<and>
     (\<forall>g. shown_at H shares (D @ [''hooks'']) g \<or> shown_at H shares (D @ [''config'']) g \<longrightarrow> g \<in> set ro)"
proof -
  obtain roots p' r where p': "share_roots H shares = Inr roots"
    "scan_shares ul n inherited (new_protector H shares roots) = (Inr (), p')" "set ro = set (gp_ro p')" "H' = gp_host p'"
    and r: "r \<in> set roots" "good_root r" "root_real r = R" "sr_real r = path_of R" "root_guest r = elems (guestPath s)"
    by (rule scan_root [OF run abs s])
  let ?p = "new_protector H shares roots"
  have pl: "plain (D @ [f])" if "f \<in> {''hooks'', ''config''}" for f using D(2) that by auto
  have "inside ?p (D @ [f])" if f: "f \<in> {''hooks'', ''config''}" for f
    using inside_way [OF p'(1) abs r(1) _ D(3,5,4) pl [OF f]] D(1) r(3) apart f by auto
  then have mg: "main_git D ?p" using D main by (simp add: main_git_def)
  obtain t t' where t: "grows ?p t" "grows t' p'"
    "readPointer (gp_host t) (path_of (D @ [''commondir''])) = None \<longrightarrow> path_of D \<in> set (gp_done t')"
    using git_entry_visited [OF p'(2) r(1,2), of D x "Folder a b"] D scanned r p'(4) by auto
  have "path_of D \<in> set (gp_done p')" using t(3) main_git_grows [OF mg t(1)] grows_sets(2) [OF t(2)] by (auto simp: main_git_def)
  moreover have "finishes D ?p p'" using keepsD [OF finish.keeps_scan_shares p'(2)] .
  ultimately have gg: "guarded_git D p'" using mg by (simp add: finishes_def)
  have "g \<in> set ro" if g: "shown_at H shares (D @ [f]) g" "f \<in> {''hooks'', ''config''}" for f g
    using shown_in_scan [OF p'(2,1) abs pl [OF g(2)] _ g(1)] gg g(2) p'(3) by (auto simp: guarded_git_def guarded_file_def)
  moreover have "is_regular m \<longleftrightarrow> (\<exists>c d. m = Regular c d)" for m by (cases m) auto
  ultimately show ?thesis using gg p'(4) by (auto simp: guarded_git_def guarded_file_def is_folder_iff)
qed

section \<open>Examples\<close>

definition bare_nodes :: "(string list \<times> node) list" where
  "bare_nodes = [([''w'', ''HEAD''], Regular True []), ([''w'', ''objects''], Folder True True), ([''w'', ''refs''], Folder True True)]"

lemma repo_scanned:
  "EvalSymlinks (repo_host []) (Clean (HostPath (hd repo_shares))) = Inr (path_of [''w''])"
  "hd repo_shares \<in> set repo_shares" "\<not> ReadOnly (hd repo_shares)"
  "open_way (repo_host [repo_hooks]) (mount_points repo_shares) (elems (guestPath (hd repo_shares))) [''w''] []"
  "open_way (repo_host [repo_hooks]) (mount_points repo_shares) (elems (guestPath (hd repo_shares))) [''w''] [''sub'']"
  by code_simp+

lemma repo_ways: "way (repo_host extra) [''w'', ''.git'']" "way (repo_host extra) [''w'', ''sub'', ''.git'']"
  using way_snoc [of _ "[]" "''w''"] way_snoc [of _ "[''w'']" "''.git''"] way_snoc [of _ "[''w'']" "''sub''"]
    way_snoc [of _ "[''w'', ''sub'']" "''.git''"] by (auto simp: node_at_def repo_host_def repo_nodes_def)

theorem gitfiles_protected_witness:
  "shown_at (repo_host []) repo_shares [''w'', ''sub'', ''.git''] ''/w/sub/.git'' \<and>
   ''/w/sub/.git'' \<in> set [''/w/.git/config'', ''/w/.git/hooks'', ''/w/sub/.git'']"
proof -
  have s: "shown_at (repo_host []) repo_shares [''w'', ''sub'', ''.git''] ''/w/sub/.git''" by code_simp
  show ?thesis
    using gitfiles_protected [OF repo_example repo_scanned(2,3,1) _ _ _ repo_ways(2) _ _ _ repo_scanned(5) s, of "Regular True ''gitdir: /x''"] s
    by (simp add: path_of_def pathMax_def node_at_def repo_host_def repo_nodes_def)
qed

theorem repositories_protected_witness:
  "lstat (repo_host []) ''/w/.git/hooks'' = Inl ENOENT \<and> lstat (repo_host [repo_hooks]) ''/w/.git/hooks'' = Inr (Folder True True) \<and>
   shown_at (repo_host []) repo_shares [''w'', ''.git'', ''hooks''] ''/w/.git/hooks'' \<and>
   ''/w/.git/hooks'' \<in> set [''/w/.git/config'', ''/w/.git/hooks'', ''/w/sub/.git'']"
proof -
  have s: "shown_at (repo_host []) repo_shares [''w'', ''.git'', ''hooks''] ''/w/.git/hooks''" by code_simp
  have l: "lstat (repo_host []) ''/w/.git/hooks'' = Inl ENOENT" "lstat (repo_host [repo_hooks]) ''/w/.git/hooks'' = Inr (Folder True True)"
    "readPointer (repo_host []) (path_of ([''w'', ''.git''] @ [''commondir''])) = None"
    "path_of (elems (guestPath (hd repo_shares)) @ [] @ [''.git'']) \<notin> set (mount_points repo_shares)"
    "\<forall>s' \<in> set repo_shares. elems (HostPath s') \<notin> {[''w'', ''.git''] @ [''hooks''], [''w'', ''.git''] @ [''config'']}" by code_simp+
  have "g \<in> set [''/w/.git/config'', ''/w/.git/hooks'', ''/w/sub/.git'']"
    if "shown_at (repo_host []) repo_shares ([''w'', ''.git''] @ [''hooks'']) g" for g
    using repositories_protected [OF repo_example repo_scanned(2,3,1) _ _ _ repo_ways(1) _ _ repo_scanned(4) l(4,3,5), of True True] that
    by (simp add: path_of_def pathMax_def node_at_def repo_host_def repo_nodes_def)
  then show ?thesis using s l by simp
qed

text \<open>A directory with the marks of a bare repository hides what is below it: with a regular file \<open>HEAD\<close> and directories
  \<open>objects\<close> and \<open>refs\<close> beside the directory \<open>.git\<close> of a checkout the scan takes the checkout for a bare repository,
  protects \<open>hooks\<close> and \<open>config\<close> there, and leaves those of the \<open>.git\<close> directory and the gitfile below writable. An agent
  with a writable share can make these three entries before the next start.\<close>

theorem bare_marks_hide_repository:
  "fst (gitProtection id 5 repo_shares [] (repo_host bare_nodes)) = Inr ([], [''/w/config'', ''/w/hooks'']) \<and>
   fst (gitProtection id 5 repo_shares [] (repo_host [])) =
     Inr ([''/w/.git'', ''/w/sub''], [''/w/.git/config'', ''/w/.git/hooks'', ''/w/sub/.git''])"
  by code_simp

text \<open>An empty \<open>core.hooksPath\<close>, with which Git runs no hooks, is read as the directory \<open>.\<close>: the whole git directory and
  the whole checkout become read-only in the guest.\<close>

definition no_hooks_host :: host where
  "no_hooks_host =
     \<lparr>h_nodes = [([''w''], Folder True True), ([''w'', ''.git''], Folder True True),
        ([''w'', ''.git'', ''config''], Regular True (''[core]'' @ CHR 0x0A # ''hooksPath = ''))],
      h_cwd = [], h_home = Some ''/home/u''\<rparr>"

theorem empty_hooks_path:
  "fst (gitProtection id 5 repo_shares [] no_hooks_host) =
     Inr ([''/w/.git''], [''/w'', ''/w/.git'', ''/w/.git/config'', ''/w/.git/hooks''])"
  by code_simp

text \<open>A directory that cannot be read is left out, though the guest, which shares its owner, can open it again.\<close>

theorem unreadable_left_out:
  "fst (gitProtection id 5 repo_shares [] \<lparr>h_nodes = [([''w''], Folder True True), ([''w'', ''a''], Folder False False),
      ([''w'', ''a'', ''.git''], Folder True True)], h_cwd = [], h_home = None\<rparr>) = Inr ([], [])"
  by code_simp

end
