(* ===== verification/GuestMounts.thy ===== *)
theory GuestMounts
  imports FileSystemProps "HOL-Library.Product_Lexorder" "HOL-Library.Multiset"
begin

text \<open>
  Mounts in the guest: the order of shares and internal binds (\<open>internal/guest/mounts.go\<close>) and the binds
  that keep paths in place and read-only (\<open>protectPaths\<close> in \<open>internal/guest/init_linux.go\<close>). A mount table
  lists the mounts of the guest, the latest first: the mount a path is reached through is the latest one
  at or above it, because a mount hides what was mounted below its target before.
\<close>

section \<open>The order of mounts\<close>

record guestShare =
  gs_Tag :: string
  gs_GuestPath :: string
  gs_ReadOnly :: bool

record guestBind =
  gb_Source :: string
  gb_Target :: string
  gb_ReadOnly :: bool

datatype guestMount = ShareMountAt guestShare | BindMountAt guestBind

fun mount_target :: "guestMount \<Rightarrow> string" where
  "mount_target (ShareMountAt s) = gs_GuestPath s"
| "mount_target (BindMountAt b) = gb_Target b"

definition PrivateDir :: string where "PrivateDir = ''/.jailoc/private''"

definition within_dir :: "string \<Rightarrow> string \<Rightarrow> bool" where
  "within_dir path dir \<longleftrightarrow> path = dir \<or> HasPrefix path (dir @ ''/'')"

fun internal_mount :: "guestMount \<Rightarrow> bool" where
  "internal_mount (ShareMountAt s) = within_dir (gs_GuestPath s) PrivateDir"
| "internal_mount (BindMountAt b) = False"

text \<open>\<open>slices.SortStableFunc\<close> with the comparison of internal mounts first and then depth.\<close>

definition depth :: "string \<Rightarrow> nat" where
  "depth p = count_list p CHR ''/''"

definition mount_key :: "guestMount \<Rightarrow> bool \<times> nat" where
  "mount_key m = (\<not> internal_mount m, depth (mount_target m))"

definition mountOrder :: "guestShare list \<Rightarrow> guestBind list \<Rightarrow> guestMount list" where
  "mountOrder shares binds = sort_key mount_key (map ShareMountAt shares @ map BindMountAt binds)"

section \<open>Mount tables\<close>

record mnt =
  mt_at :: "string list"
  mt_ro :: bool

definition effective :: "mnt list \<Rightarrow> string list \<Rightarrow> mnt option" where
  "effective T x = List.find (\<lambda>m. prefix (mt_at m) x) T"

definition writable :: "mnt list \<Rightarrow> string list \<Rightarrow> bool" where
  "writable T x = (case effective T x of Some m \<Rightarrow> \<not> mt_ro m | None \<Rightarrow> True)"

text \<open>A path that is the root of the mount it is reached through can be neither renamed nor removed.\<close>

definition is_mount :: "mnt list \<Rightarrow> string list \<Rightarrow> bool" where
  "is_mount T x = (case effective T x of Some m \<Rightarrow> mt_at m = x | None \<Rightarrow> False)"

text \<open>A bind of a path onto itself keeps the flags of the mount it is in; a remount changes the mount of its path.\<close>

definition bind_self :: "string list \<Rightarrow> mnt list \<Rightarrow> mnt list" where
  "bind_self x T = \<lparr>mt_at = x, mt_ro = \<not> writable T x\<rparr> # T"

fun remount_ro :: "string list \<Rightarrow> mnt list \<Rightarrow> mnt list" where
  "remount_ro x [] = []"
| "remount_ro x (m # T) = (if prefix (mt_at m) x then m\<lparr>mt_ro := True\<rparr> # T else m # remount_ro x T)"

datatype protect_error = PinError string | BindError string | RemountError string

text \<open>\<open>bind_ok\<close> and \<open>remount_ok\<close> are the outcomes of the system calls.\<close>

fun bind_pins :: "(string \<Rightarrow> bool) \<Rightarrow> string list \<Rightarrow> mnt list \<Rightarrow> (protect_error, unit) result \<times> mnt list" where
  "bind_pins bind_ok [] T = (Inr (), T)"
| "bind_pins bind_ok (p # ps) T =
     (if \<not> bind_ok p then (Inl (PinError p), T) else bind_pins bind_ok ps (bind_self (elems p) T))"

fun bind_read_only :: "(string \<Rightarrow> bool) \<Rightarrow> (string \<Rightarrow> bool) \<Rightarrow> string list \<Rightarrow> mnt list \<Rightarrow> (protect_error, unit) result \<times> mnt list" where
  "bind_read_only bind_ok remount_ok [] T = (Inr (), T)"
| "bind_read_only bind_ok remount_ok (p # ps) T =
     (if \<not> bind_ok p then (Inl (BindError p), T)
      else if \<not> remount_ok p then (Inl (RemountError p), bind_self (elems p) T)
      else bind_read_only bind_ok remount_ok ps (remount_ro (elems p) (bind_self (elems p) T)))"

definition protectPaths ::
  "(string \<Rightarrow> bool) \<Rightarrow> (string \<Rightarrow> bool) \<Rightarrow> string list \<Rightarrow> string list \<Rightarrow> mnt list \<Rightarrow> (protect_error, unit) result \<times> mnt list" where
  "protectPaths bind_ok remount_ok pins readOnly T =
     (case bind_pins bind_ok (sort_key length pins) T of
        (Inl e, T1) \<Rightarrow> (Inl e, T1)
      | (Inr _, T1) \<Rightarrow> bind_read_only bind_ok remount_ok readOnly T1)"

section \<open>Order\<close>

lemma depth_below: "within_dir p d \<Longrightarrow> p \<noteq> d \<Longrightarrow> depth d < depth p"
  by (auto simp: within_dir_def HasPrefix_iff prefix_def depth_def)

section \<open>Protected paths\<close>

lemma bind_pins_table:
  "bind_pins bind_ok ps T = (Inr u, T') \<Longrightarrow> \<exists>qs. T' = qs @ T \<and> map mt_at qs = rev (map elems ps)"
proof (induction ps arbitrary: T)
  case (Cons p ps)
  from Cons.prems have "bind_pins bind_ok ps (bind_self (elems p) T) = (Inr u, T')" by (auto split: if_split_asm)
  from Cons.IH [OF this] obtain qs where "T' = qs @ bind_self (elems p) T" "map mt_at qs = rev (map elems ps)" by blast
  then show ?case by (intro exI [of _ "qs @ [\<lparr>mt_at = elems p, mt_ro = \<not> writable T (elems p)\<rparr>]"]) (simp add: bind_self_def)
qed simp

lemma bind_read_only_table:
  "bind_read_only bind_ok remount_ok ps T = (Inr u, T') \<Longrightarrow>
   T' = map (\<lambda>p. \<lparr>mt_at = elems p, mt_ro = True\<rparr>) (rev ps) @ T"
proof (induction ps arbitrary: T)
  case (Cons p ps)
  from Cons.prems have "bind_read_only bind_ok remount_ok ps (\<lparr>mt_at = elems p, mt_ro = True\<rparr> # T) = (Inr u, T')"
    by (auto simp: bind_self_def split: if_split_asm)
  from Cons.IH [OF this] show ?case by simp
qed simp

lemma path_of_prefix_length: "plain p \<Longrightarrow> strict_prefix q p \<Longrightarrow> length (path_of q) < length (path_of p)"
proof -
  assume p: "plain p" and q: "strict_prefix q p"
  obtain e es where e: "p = q @ e # es" using q by (rule strict_prefixE')
  then have "e \<noteq> []" using p by simp
  then have "length (path_of q) < length (path_of (q @ [e]))" by (cases "q = []") (simp add: path_of_def, simp add: path_of_snoc)
  also have "\<dots> \<le> length (path_of p)" using length_path_of_append [of "q @ [e]" es] e by simp
  finally show ?thesis .
qed

text \<open>The longest pin at or above a pin is the pin itself.\<close>

lemma find_longest:
  assumes "sorted_wrt (\<lambda>a b. length (path_of a) \<ge> length (path_of b)) as" and "x \<in> set as" and "plain x"
  shows "List.find (\<lambda>a. prefix a x) as = Some x"
  using assms(1,2)
proof (induction as)
  case (Cons a as)
  show ?case
  proof (cases "prefix a x")
    case True
    have "a = x"
    proof (rule ccontr)
      assume n: "a \<noteq> x"
      then have "x \<in> set as" using Cons.prems(2) by simp
      then have "length (path_of x) \<le> length (path_of a)" using Cons.prems(1) by simp
      moreover have "length (path_of a) < length (path_of x)" using path_of_prefix_length [OF assms(3)] True n by (simp add: strict_prefix_def)
      ultimately show False by simp
    qed
    with True show ?thesis by simp
  next
    case False
    with Cons show ?thesis by auto
  qed
qed simp

lemma find_map_at: "List.find (\<lambda>m. prefix (mt_at m) x) qs = None \<longleftrightarrow> List.find (\<lambda>a. prefix a x) (map mt_at qs) = None"
  "List.find (\<lambda>a. prefix a x) (map mt_at qs) = map_option mt_at (List.find (\<lambda>m. prefix (mt_at m) x) qs)"
  by (induction qs) auto

definition clean_path :: "string \<Rightarrow> bool" where
  "clean_path p \<longleftrightarrow> p = path_of (elems p)"

lemma protectPaths_table:
  assumes "protectPaths bind_ok remount_ok pins readOnly T = (Inr u, T')"
  obtains qs where "T' = map (\<lambda>p. \<lparr>mt_at = elems p, mt_ro = True\<rparr>) (rev readOnly) @ qs @ T" and "map mt_at qs = rev (map elems (sort_key length pins))"
proof -
  obtain T1 where "bind_pins bind_ok (sort_key length pins) T = (Inr (), T1)" "bind_read_only bind_ok remount_ok readOnly T1 = (Inr u, T')"
    using assms by (auto simp: protectPaths_def split: prod.split_asm sum.split_asm)
  with that bind_pins_table bind_read_only_table show ?thesis by metis
qed

lemma protected_read_only:
  assumes "protectPaths bind_ok remount_ok pins readOnly T = (Inr u, T')" and "r \<in> set readOnly" and "prefix (elems r) x"
  shows "\<not> writable T' x"
proof -
  let ?ro = "map (\<lambda>p. \<lparr>mt_at = elems p, mt_ro = True\<rparr>) (rev readOnly)"
  obtain qs where T': "T' = ?ro @ qs @ T" by (rule protectPaths_table [OF assms(1)])
  obtain m where m: "List.find (\<lambda>m. prefix (mt_at m) x) ?ro = Some m"
    using assms(2,3) by (cases "List.find (\<lambda>m. prefix (mt_at m) x) ?ro") (auto simp: find_None_iff)
  then have "mt_ro m" by (auto simp: find_Some_iff)
  with m show ?thesis by (simp add: writable_def effective_def T' find_append)
qed

lemma protected_pin:
  assumes "protectPaths bind_ok remount_ok pins readOnly T = (Inr u, T')" and "list_all clean_path pins" and "p \<in> set pins"
  shows "is_mount T' (elems p) \<or> \<not> writable T' (elems p)"
proof (cases "\<exists>r \<in> set readOnly. prefix (elems r) (elems p)")
  case True
  with protected_read_only [OF assms(1)] show ?thesis by blast
next
  case False
  let ?x = "elems p" and ?ro = "map (\<lambda>p. \<lparr>mt_at = elems p, mt_ro = True\<rparr>) (rev readOnly)"
  obtain qs where T': "T' = ?ro @ qs @ T" and qs: "map mt_at qs = rev (map elems (sort_key length pins))"
    by (rule protectPaths_table [OF assms(1)])
  have "sorted_wrt (\<lambda>a b. length (path_of (elems a)) \<le> length (path_of (elems b))) (sort_key length pins)"
  proof (rule sorted_wrt_mono_rel)
    show "sorted_wrt (\<lambda>a b. length a \<le> length b) (sort_key length pins)" using sorted_sort_key [of length pins] by (simp add: sorted_map)
  qed (use assms(2) in \<open>auto simp: list_all_iff clean_path_def\<close>)
  then have "sorted_wrt (\<lambda>a b. length (path_of a) \<ge> length (path_of b)) (map mt_at qs)"
    unfolding qs by (simp add: sorted_wrt_rev sorted_wrt_map)
  moreover have "?x \<in> set (map mt_at qs)" using assms(3) by (simp add: qs)
  ultimately have "List.find (\<lambda>a. prefix a ?x) (map mt_at qs) = Some ?x" using find_longest plain_elems by blast
  then obtain m where "List.find (\<lambda>m. prefix (mt_at m) ?x) qs = Some m" "mt_at m = ?x" by (auto simp: find_map_at(2))
  moreover have "List.find (\<lambda>m. prefix (mt_at m) ?x) ?ro = None" using False by (auto simp: find_None_iff)
  ultimately show ?thesis by (simp add: is_mount_def effective_def T' find_append)
qed

section \<open>Properties\<close>

text \<open>Mounts nest. The guest mounts every share and bind once, the internal shares first; whatever is mounted later is
  never above what is mounted earlier, except that other mounts may be above an internal share; mounts of one
  kind and depth keep the order of the configuration.\<close>

theorem mounts_nest:
  "mset (mountOrder shares binds) = mset (map ShareMountAt shares @ map BindMountAt binds) \<and>
   sorted_wrt (\<lambda>a b. (internal_mount b \<longrightarrow> internal_mount a) \<and>
      (within_dir (mount_target a) (mount_target b) \<and> mount_target a \<noteq> mount_target b \<longrightarrow> internal_mount a \<and> \<not> internal_mount b)) (mountOrder shares binds) \<and>
   (\<forall>k. filter (\<lambda>m. mount_key m = k) (mountOrder shares binds) = filter (\<lambda>m. mount_key m = k) (map ShareMountAt shares @ map BindMountAt binds))"
proof (intro conjI allI)
  have "sorted_wrt (\<lambda>a b. mount_key a \<le> mount_key b) (mountOrder shares binds)"
    using sorted_sort_key [of mount_key] by (simp add: mountOrder_def sorted_map)
  then show "sorted_wrt (\<lambda>a b. (internal_mount b \<longrightarrow> internal_mount a) \<and>
      (within_dir (mount_target a) (mount_target b) \<and> mount_target a \<noteq> mount_target b \<longrightarrow> internal_mount a \<and> \<not> internal_mount b)) (mountOrder shares binds)"
    by (rule sorted_wrt_mono_rel [rotated]) (auto simp: mount_key_def dest: depth_below)
qed (simp_all only: mountOrder_def mset_sort sort_key_stable)

definition nested_shares :: "guestShare list" where
  "nested_shares =
     [\<lparr>gs_Tag = ''a'', gs_GuestPath = ''/home/agent/.config/x'', gs_ReadOnly = False\<rparr>,
      \<lparr>gs_Tag = ''h'', gs_GuestPath = ''/.jailoc/private/host'', gs_ReadOnly = False\<rparr>]"

definition nested_binds :: "guestBind list" where
  "nested_binds = [\<lparr>gb_Source = ''/.jailoc/private/host/home'', gb_Target = ''/home/agent/.config'', gb_ReadOnly = False\<rparr>]"

theorem mounts_nest_witness:
  "map mount_target (mountOrder nested_shares nested_binds) = [''/.jailoc/private/host'', ''/home/agent/.config'', ''/home/agent/.config/x''] \<and>
   mset (mountOrder nested_shares nested_binds) = mset (map ShareMountAt nested_shares @ map BindMountAt nested_binds)"
proof
  show "map mount_target (mountOrder nested_shares nested_binds) = [''/.jailoc/private/host'', ''/home/agent/.config'', ''/home/agent/.config/x'']"
    by code_simp
qed (rule conjunct1 [OF mounts_nest])

end
