(* ===== verification/GuestGit.thy ===== *)
theory GuestGit
  imports GitScan GuestMounts
begin

text \<open>
  The protection of Git repositories from end to end: what the scan on the host finds
  (\<open>internal/cmd/vmgit_unix.go\<close>) reaches the guest as pins and read-only paths, which it binds onto themselves
  (\<open>protectPaths\<close> in \<open>internal/guest/init_linux.go\<close>).
\<close>

lemma pins_clean:
  assumes "gitProtection ul n shares inherited H = (Inr (pins, ro), H')" and "abs_shares shares"
  shows "list_all clean_path pins"
proof -
  have "clean_path d" if d: "d \<in> set pins" for d
  proof -
    obtain es where "plain es" "d = path_of es"
      using conjunct2 [OF protection_pinned [OF assms]] d plain_elems plain_prefix plain_append unfolding strict_prefix_def by metis
    then show ?thesis by (simp add: clean_path_def)
  qed
  then show ?thesis by (simp add: list_all_iff)
qed

text \<open>A guest path a scan marked read-only, in the mounts of the guest after the binds.\<close>

lemma read_only_in_guest:
  assumes "gitProtection ul n shares inherited H = (Inr (pins, ro), H')" and "abs_shares shares"
    and "protectPaths bind_ok remount_ok pins ro T = (Inr v, T')" and "g \<in> set ro"
  shows "(\<forall>z. \<not> writable T' (elems g @ z)) \<and>
     (\<exists>s \<in> set shares. \<exists>x. \<not> ReadOnly s \<and> g = path_of (elems (guestPath s) @ x) \<and>
        (\<forall>y. prefix y (butlast x) \<longrightarrow> y \<noteq> [] \<longrightarrow> is_mount T' (elems (guestPath s) @ y) \<or> \<not> writable T' (elems (guestPath s) @ y)))"
proof
  show "\<forall>z. \<not> writable T' (elems g @ z)" using protected_read_only [OF assms(3,4)] by simp
  from conjunct1 [OF protection_pinned [OF assms(1,2)]] assms(4)
  obtain s x where s: "s \<in> set shares" "\<not> ReadOnly s" "plain x" "g = path_of (elems (guestPath s) @ x)"
    and pins: "\<forall>y. prefix y (butlast x) \<longrightarrow> y \<noteq> [] \<longrightarrow> path_of (elems (guestPath s) @ y) \<in> set pins" by blast
  have "is_mount T' (elems (guestPath s) @ y) \<or> \<not> writable T' (elems (guestPath s) @ y)" if y: "prefix y (butlast x)" "y \<noteq> []" for y
  proof -
    have "plain (elems (guestPath s) @ y)" using plain_prefix [OF y(1) plain_butlast [OF s(3)]] by simp
    then have "elems (path_of (elems (guestPath s) @ y)) = elems (guestPath s) @ y" by (rule elems_path_of)
    then show ?thesis using protected_pin [OF assms(3) pins_clean [OF assms(1,2)]] pins y by metis
  qed
  with s show "\<exists>s \<in> set shares. \<exists>x. \<not> ReadOnly s \<and> g = path_of (elems (guestPath s) @ x) \<and>
      (\<forall>y. prefix y (butlast x) \<longrightarrow> y \<noteq> [] \<longrightarrow> is_mount T' (elems (guestPath s) @ y) \<or> \<not> writable T' (elems (guestPath s) @ y))" by blast
qed


lemma repo_hooks_there:
  "shown_at (repo_host []) repo_shares ([''w'', ''.git''] @ [''hooks'']) ''/w/.git/hooks''"
  "readPointer (repo_host []) (path_of ([''w'', ''.git''] @ [''commondir''])) = None"
  "path_of (elems (guestPath (hd repo_shares)) @ [] @ [''.git'']) \<notin> set (mount_points repo_shares)"
  "\<forall>s' \<in> set repo_shares. elems (HostPath s') \<notin> {[''w'', ''.git''] @ [''hooks''], [''w'', ''.git''] @ [''config'']}"
  by code_simp+

definition guest_table :: "mnt list" where
  "guest_table = snd (protectPaths (\<lambda>_. True) (\<lambda>_. True) [''/w/.git'', ''/w/sub''] [''/w/.git/config'', ''/w/.git/hooks'', ''/w/sub/.git'']
     [\<lparr>mt_at = [''w''], mt_ro = False\<rparr>])"

lemma guest_binds:
  "protectPaths (\<lambda>_. True) (\<lambda>_. True) [''/w/.git'', ''/w/sub''] [''/w/.git/config'', ''/w/.git/hooks'', ''/w/sub/.git'']
     [\<lparr>mt_at = [''w''], mt_ro = False\<rparr>] = (Inr (), guest_table)"
  by code_simp


end
