(* ===== verification/Oom.thy ===== *)
theory Oom
  imports Bytes GoStrings
begin

text \<open>
  The guest's OOM guard (\<open>internal/guest/oom.go\<close> and the event loop of \<open>oom_linux.go\<close>): parsing of proc
  connector datagrams, the roles of processes, the handling of fork, exec and exit events, and the
  plan of a rescan. Around it stands the part of the kernel it watches: the process table, where a
  child inherits its parent's score adjustment, and the queue of events not handled yet.
\<close>

section \<open>Proc connector messages\<close>

definition oomAdjGuest :: int where "oomAdjGuest = - 1000"
definition oomAdjAgent :: int where "oomAdjAgent = - 500"
definition oomAdjChild :: int where "oomAdjChild = 0"

definition procEventFork :: u32 where "procEventFork = 0x00000001"
definition procEventExec :: u32 where "procEventExec = 0x00000002"
definition procEventExit :: u32 where "procEventExit = 0x80000000"
definition nlmsgHdrLen :: nat where "nlmsgHdrLen = 16"
definition nlmsgAlignTo :: nat where "nlmsgAlignTo = 4"
definition cnMsgLen :: nat where "cnMsgLen = 20"

record procEvent =
  ev_what :: u32
  ev_pid :: int
  ev_tgid :: int
  ev_childPID :: int
  ev_childTGID :: int
  ev_exitCode :: u32

text \<open>\<open>ne.Uint32(b[i:])\<close>, on a slice that is long enough; the guest's CPUs are little endian.\<close>

definition u32_at :: "bytes \<Rightarrow> nat \<Rightarrow> u32" where
  "u32_at b i = (case get_le32 (drop i b) of Some w \<Rightarrow> w | None \<Rightarrow> 0)"

definition int_at :: "bytes \<Rightarrow> nat \<Rightarrow> int" where
  "int_at b i = uint (u32_at b i)"

text \<open>The event of one message, when it is one the guard follows.\<close>

definition parse_event :: "bytes \<Rightarrow> procEvent option" where
  "parse_event msg =
     (if length msg < cnMsgLen + 24 then None
      else
        let ev = drop cnMsgLen msg;
            e = \<lparr>ev_what = u32_at ev 0, ev_pid = int_at ev 16, ev_tgid = int_at ev 20,
                 ev_childPID = 0, ev_childTGID = 0, ev_exitCode = 0\<rparr>
        in if ev_what e = procEventFork \<and> length ev \<ge> 32 then
             Some (e\<lparr>ev_childPID := int_at ev 24, ev_childTGID := int_at ev 28\<rparr>)
           else if ev_what e = procEventExit then
             Some (if length ev \<ge> 28 then e\<lparr>ev_exitCode := u32_at ev 24\<rparr> else e)
           else if ev_what e = procEventExec then Some e
           else None)"

definition align :: "nat \<Rightarrow> nat" where
  "align l = (l + nlmsgAlignTo - 1) div nlmsgAlignTo * nlmsgAlignTo"

text \<open>The loop over the messages of a datagram; None when the slice expression \<open>b[align:]\<close> panics.\<close>

function parseProcEvents :: "bytes \<Rightarrow> procEvent list option" where
  "parseProcEvents b =
     (if length b < nlmsgHdrLen then Some []
      else
        let l = unat (u32_at b 0) in
        if l < nlmsgHdrLen \<or> l > length b then Some []
        else if align l > length b then None
        else
          let e = parse_event (take (l - nlmsgHdrLen) (drop nlmsgHdrLen b))
          in map_option (\<lambda>es. (case e of None \<Rightarrow> [] | Some x \<Rightarrow> [x]) @ es) (parseProcEvents (drop (align l) b)))"
  by pat_completeness auto
termination
proof (relation "measure length")
  fix b l
  assume "\<not> length b < nlmsgHdrLen" "l = unat (u32_at b 0)" "\<not> (l < nlmsgHdrLen \<or> length b < l)" "\<not> length b < align l"
  then have "0 < align l" "length b > 0" by (auto simp: align_def nlmsgAlignTo_def nlmsgHdrLen_def)
  then show "(drop (align l) b, b) \<in> measure length" by simp
qed simp

declare parseProcEvents.simps [simp del]

section \<open>Roles\<close>

definition BinaryPath :: string where "BinaryPath = ''/.jailoc/jailoc-guest''"

record procInfo =
  p_ppid :: int
  p_exe :: string
  p_argv :: "string list"
  p_adj :: int

definition no_proc :: procInfo where
  "no_proc = \<lparr>p_ppid = 0, p_exe = [], p_argv = [], p_adj = 0\<rparr>"

datatype oomRole = roleOther | roleGuest | roleAgent

definition isGuestSession :: "procInfo \<Rightarrow> bool" where
  "isGuestSession p \<longleftrightarrow> p_exe p = BinaryPath \<and> length (p_argv p) > 1 \<and> p_argv p ! 1 = ''session''"

definition isHolder :: "procInfo \<Rightarrow> bool" where
  "isHolder p \<longleftrightarrow> isGuestSession p \<and> length (p_argv p) > 2 \<and> p_argv p ! 2 = ''serve''"

definition classify :: "procInfo \<Rightarrow> procInfo \<Rightarrow> oomRole" where
  "classify p parent = (if isGuestSession p then roleGuest else if isHolder parent then roleAgent else roleOther)"

text \<open>\<open>procs[pid]\<close> of a Go map: the zero value for a missing key.\<close>

definition proc_at :: "(int \<times> procInfo) list \<Rightarrow> int \<Rightarrow> procInfo" where
  "proc_at procs pid = (case map_of procs pid of Some p \<Rightarrow> p | None \<Rightarrow> no_proc)"

fun ancestor_agent :: "(int \<times> procInfo) list \<Rightarrow> int list \<Rightarrow> nat \<Rightarrow> int \<Rightarrow> bool" where
  "ancestor_agent procs agents 0 anc = False"
| "ancestor_agent procs agents (Suc depth) anc =
     (anc > 1 \<and> (anc \<in> set agents \<or> ancestor_agent procs agents depth (p_ppid (proc_at procs anc))))"

definition plan_role :: "(int \<times> procInfo) list \<Rightarrow> int \<times> procInfo \<Rightarrow> (int \<times> int) list \<Rightarrow> (int \<times> int) list" where
  "plan_role procs e writes =
     (case e of (pid, p) \<Rightarrow>
        case classify p (proc_at procs (p_ppid p)) of
          roleGuest \<Rightarrow> if p_adj p \<noteq> oomAdjGuest then AList.update pid oomAdjGuest writes else writes
        | roleAgent \<Rightarrow> if p_adj p \<noteq> oomAdjAgent then AList.update pid oomAdjAgent writes else writes
        | roleOther \<Rightarrow> writes)"

definition plan_child :: "(int \<times> procInfo) list \<Rightarrow> int list \<Rightarrow> int \<times> procInfo \<Rightarrow> (int \<times> int) list \<Rightarrow> (int \<times> int) list" where
  "plan_child procs agents e writes =
     (case e of (pid, p) \<Rightarrow>
        if pid \<in> set agents \<or> p_adj p \<noteq> oomAdjAgent then writes
        else if ancestor_agent procs agents 64 (p_ppid p) then AList.update pid oomAdjChild writes
        else writes)"

definition agents_of :: "(int \<times> procInfo) list \<Rightarrow> int list" where
  "agents_of procs = map fst (filter (\<lambda>(pid, p). classify p (proc_at procs (p_ppid p)) = roleAgent) procs)"

definition rescanPlan :: "(int \<times> procInfo) list \<Rightarrow> int list \<times> (int \<times> int) list" where
  "rescanPlan procs =
     (let agents = agents_of procs;
          writes = fold (plan_role procs) procs []
      in (agents, fold (plan_child procs agents) procs writes))"

section \<open>The guard and the kernel\<close>

record oom_world =
  w_procs :: "(int \<times> procInfo) list"
  w_queue :: "procEvent list"
  w_agents :: "int list"

definition set_adj :: "int \<Rightarrow> int \<Rightarrow> oom_world \<Rightarrow> oom_world" where
  "set_adj pid adj w =
     (case map_of (w_procs w) pid of
        None \<Rightarrow> w
      | Some p \<Rightarrow> w\<lparr>w_procs := AList.update pid (p\<lparr>p_adj := adj\<rparr>) (w_procs w)\<rparr>)"

definition handle :: "procEvent \<Rightarrow> oom_world \<Rightarrow> oom_world" where
  "handle ev w =
     (if ev_what ev = procEventExec then
        (case map_of (w_procs w) (ev_tgid ev) of
           None \<Rightarrow> w
         | Some p \<Rightarrow>
             (case classify p (proc_at (w_procs w) (p_ppid p)) of
                roleGuest \<Rightarrow> set_adj (ev_tgid ev) oomAdjGuest w
              | roleAgent \<Rightarrow> set_adj (ev_tgid ev) oomAdjAgent (w\<lparr>w_agents := List.insert (ev_tgid ev) (w_agents w)\<rparr>)
              | roleOther \<Rightarrow> w))
      else if ev_what ev = procEventFork then
        (if ev_childTGID ev \<noteq> ev_tgid ev \<and> ev_tgid ev \<in> set (w_agents w) then set_adj (ev_childTGID ev) oomAdjChild w else w)
      else if ev_what ev = procEventExit then
        (if ev_pid ev = ev_tgid ev then w\<lparr>w_agents := removeAll (ev_tgid ev) (w_agents w)\<rparr> else w)
      else w)"

definition rescan :: "oom_world \<Rightarrow> oom_world" where
  "rescan w =
     (case rescanPlan (w_procs w) of (agents, writes) \<Rightarrow>
        fold (\<lambda>(pid, adj). set_adj pid adj) writes (w\<lparr>w_agents := agents\<rparr>))"

text \<open>What happens in the guest: processes fork, start threads, execute and exit; the guard handles the
  oldest event, or finds that the queue overflowed after its first
  events and rescans.\<close>

datatype oom_op = Fork int int | Thread int int | Exec int string "string list" | Exit int | Handle | Overflow nat

definition mk_event :: "u32 \<Rightarrow> int \<Rightarrow> int \<Rightarrow> int \<Rightarrow> int \<Rightarrow> procEvent" where
  "mk_event what pid tgid cpid ctgid =
     \<lparr>ev_what = what, ev_pid = pid, ev_tgid = tgid, ev_childPID = cpid, ev_childTGID = ctgid, ev_exitCode = 0\<rparr>"

definition orphan :: "int \<Rightarrow> int \<times> procInfo \<Rightarrow> int \<times> procInfo" where
  "orphan dead e = (case e of (pid, p) \<Rightarrow> (pid, if p_ppid p = dead then p\<lparr>p_ppid := 1\<rparr> else p))"

fun oom_step :: "oom_world \<Rightarrow> oom_op \<Rightarrow> oom_world option" where
  "oom_step w (Fork parent child) =
     (case map_of (w_procs w) parent of
        Some p \<Rightarrow>
          if child \<in> fst ` set (w_procs w) \<or> child \<le> 1 then None
          else Some (w\<lparr>w_procs := AList.update child (p\<lparr>p_ppid := parent\<rparr>) (w_procs w),
                       w_queue := w_queue w @ [mk_event procEventFork parent parent child child]\<rparr>)
      | None \<Rightarrow> None)"
| "oom_step w (Thread pid tid) =
     (if pid \<notin> fst ` set (w_procs w) \<or> tid = pid then None
      else Some (w\<lparr>w_queue := w_queue w @ [mk_event procEventFork pid pid tid pid]\<rparr>))"
| "oom_step w (Exec pid exe argv) =
     (case map_of (w_procs w) pid of
        Some p \<Rightarrow>
          Some (w\<lparr>w_procs := AList.update pid (p\<lparr>p_exe := exe, p_argv := argv\<rparr>) (w_procs w),
                  w_queue := w_queue w @ [mk_event procEventExec pid pid 0 0]\<rparr>)
      | None \<Rightarrow> None)"
| "oom_step w (Exit pid) =
     (if pid \<notin> fst ` set (w_procs w) then None
      else Some (w\<lparr>w_procs := map (orphan pid) (AList.delete pid (w_procs w)),
                   w_queue := w_queue w @ [mk_event procEventExit pid pid 0 0]\<rparr>))"
| "oom_step w Handle =
     (case w_queue w of [] \<Rightarrow> None | ev # q \<Rightarrow> Some (handle ev (w\<lparr>w_queue := q\<rparr>)))"
| "oom_step w (Overflow n) = Some (rescan (w\<lparr>w_queue := take n (w_queue w)\<rparr>))"

fun oom_run :: "oom_world \<Rightarrow> oom_op list \<Rightarrow> oom_world option" where
  "oom_run w [] = Some w"
| "oom_run w (a # as) = Option.bind (oom_step w a) (\<lambda>w'. oom_run w' as)"

section \<open>Datagrams\<close>

text \<open>A message as the kernel lays it out; \<open>fixed\<close> is the rest of the netlink header and the connector
  header, \<open>stamp\<close> the CPU and the time, \<open>more\<close> the rest of the event.\<close>

record layout =
  l_fixed :: bytes
  l_stamp :: bytes
  l_more :: bytes

definition event_words :: "procEvent \<Rightarrow> u32 \<times> u32" where
  "event_words e =
     (if ev_what e = procEventFork then (word_of_int (ev_childPID e), word_of_int (ev_childTGID e))
      else (ev_exitCode e, 0))"

definition event_msg :: "layout \<Rightarrow> procEvent \<Rightarrow> bytes" where
  "event_msg y e =
     (case event_words e of (a, b) \<Rightarrow>
        l_fixed y @ le32 (ev_what e) @ l_stamp y @ le32 (word_of_int (ev_pid e)) @ le32 (word_of_int (ev_tgid e)) @
        le32 a @ le32 b @ l_more y)"

definition datagram :: "layout \<times> procEvent \<Rightarrow> bytes" where
  "datagram p = (case p of (y, e) \<Rightarrow> le32 (of_nat (4 + length (event_msg y e))) @ event_msg y e)"

definition pid_ok :: "int \<Rightarrow> bool" where
  "pid_ok p \<longleftrightarrow> 0 \<le> p \<and> p < 2 ^ 32"

definition event_ok :: "layout \<times> procEvent \<Rightarrow> bool" where
  "event_ok p =
     (case p of (y, e) \<Rightarrow>
        length (l_fixed y) = 32 \<and> length (l_stamp y) = 12 \<and> length (l_more y) mod 4 = 0 \<and> length (l_more y) < 2 ^ 31 \<and>
        pid_ok (ev_pid e) \<and> pid_ok (ev_tgid e) \<and> pid_ok (ev_childPID e) \<and> pid_ok (ev_childTGID e) \<and>
        (ev_what e = procEventFork \<and> ev_exitCode e = 0 \<or>
         ev_what e \<in> {procEventExec, procEventExit} \<and> ev_childPID e = 0 \<and> ev_childTGID e = 0 \<and>
         (ev_what e = procEventExec \<longrightarrow> ev_exitCode e = 0)))"

lemma u32_at_append: "length a = i \<Longrightarrow> u32_at (a @ le32 w @ r) i = w"
  by (simp add: u32_at_def)

lemma int_word: "pid_ok p \<Longrightarrow> uint (word_of_int p :: u32) = p"
  by (simp add: pid_ok_def uint_word_of_int)

lemma parse_event_msg:
  assumes "event_ok (y, e)"
  shows "parse_event (drop 12 (event_msg y e)) = Some e"
proof -
  obtain a b where ab: "event_words e = (a, b)" by (cases "event_words e")
  define ev where "ev = le32 (ev_what e) @ l_stamp y @ le32 (word_of_int (ev_pid e)) @ le32 (word_of_int (ev_tgid e)) @
        le32 a @ le32 b @ l_more y"
  note ok = assms [unfolded event_ok_def prod.case]
  have d: "drop 20 (drop 12 (event_msg y e)) = ev" "length (drop 12 (event_msg y e)) = 20 + length ev"
    using ok by (simp_all add: event_msg_def ab ev_def)
  have len: "length ev \<ge> 32" using ok by (simp add: ev_def)
  have w: "u32_at ev 0 = ev_what e" using u32_at_append [of "[]" 0] by (simp add: ev_def)
  have "u32_at ev 16 = word_of_int (ev_pid e)"
    using ok u32_at_append [of "le32 (ev_what e) @ l_stamp y" 16] by (simp add: ev_def)
  moreover have "u32_at ev 20 = word_of_int (ev_tgid e)"
    using ok u32_at_append [of "le32 (ev_what e) @ l_stamp y @ le32 (word_of_int (ev_pid e))" 20] by (simp add: ev_def)
  moreover have a: "u32_at ev 24 = a"
    using ok u32_at_append [of "le32 (ev_what e) @ l_stamp y @ le32 (word_of_int (ev_pid e)) @ le32 (word_of_int (ev_tgid e))" 24]
    by (simp add: ev_def)
  moreover have b: "u32_at ev 28 = b"
    using ok u32_at_append [of "le32 (ev_what e) @ l_stamp y @ le32 (word_of_int (ev_pid e)) @ le32 (word_of_int (ev_tgid e)) @ le32 a" 28]
    by (simp add: ev_def)
  ultimately have at: "int_at ev 16 = ev_pid e" "int_at ev 20 = ev_tgid e" "int_at ev 24 = uint a" "int_at ev 28 = uint b"
    using ok by (simp_all add: int_at_def int_word)
  have kinds: "procEventFork \<noteq> procEventExit" "procEventFork \<noteq> procEventExec" "procEventExit \<noteq> procEventExec"
    by (simp_all add: procEventFork_def procEventExit_def procEventExec_def)
  have "parse_event (drop 12 (event_msg y e)) =
      (if ev_what e = procEventFork then Some \<lparr>ev_what = ev_what e, ev_pid = ev_pid e, ev_tgid = ev_tgid e, ev_childPID = uint a, ev_childTGID = uint b, ev_exitCode = 0\<rparr>
       else if ev_what e = procEventExit then Some \<lparr>ev_what = ev_what e, ev_pid = ev_pid e, ev_tgid = ev_tgid e, ev_childPID = 0, ev_childTGID = 0, ev_exitCode = a\<rparr>
       else if ev_what e = procEventExec then Some \<lparr>ev_what = ev_what e, ev_pid = ev_pid e, ev_tgid = ev_tgid e, ev_childPID = 0, ev_childTGID = 0, ev_exitCode = 0\<rparr>
       else None)"
    unfolding parse_event_def cnMsgLen_def d Let_def using w at len a by simp
  also have "\<dots> = Some e"
    using ok ab kinds by (cases e) (auto simp: event_words_def int_word split: if_split_asm)
  finally show ?thesis .
qed

lemma parse_datagram:
  assumes "event_ok (y, e)"
  shows "parseProcEvents (datagram (y, e) @ r) = map_option (\<lambda>es. e # es) (parseProcEvents r)"
proof -
  define m where "m = event_msg y e"
  note ok = assms [unfolded event_ok_def prod.case]
  have lm: "length m = 64 + length (l_more y)" using ok by (cases "event_words e") (simp add: m_def event_msg_def)
  define l where "l = 4 + length m"
  have "l < 2 ^ 32" using lm ok by (simp add: l_def)
  then have l: "unat (of_nat l :: u32) = l" by (simp add: unat_of_nat take_bit_nat_eq_self)
  have al: "align l = l"
  proof -
    have "l mod 4 = 0" using lm ok by (simp add: l_def mod_add_eq [symmetric])
    then obtain q where "l = 4 * q" by auto
    then show ?thesis by (simp add: align_def nlmsgAlignTo_def)
  qed
  define B where "B = datagram (y, e) @ r"
  have b: "B = le32 (of_nat l) @ m @ r" by (simp add: B_def datagram_def l_def m_def)
  have "u32_at B 0 = of_nat l" unfolding b using u32_at_append [of "[]" 0] by simp
  moreover have "length B = l + length r" unfolding b by (simp add: l_def)
  moreover have "take (l - 16) (drop 16 B) = drop 12 m" "drop l B = r"
    unfolding b using lm by (simp_all add: l_def)
  moreover have "16 \<le> l" using lm by (simp add: l_def)
  ultimately have "parseProcEvents B = map_option (\<lambda>es. e # es) (parseProcEvents r)"
    using parse_event_msg [OF assms, folded m_def] l al
    by (cases "parseProcEvents r") (simp_all add: parseProcEvents.simps [of B] nlmsgHdrLen_def)
  then show ?thesis by (simp add: B_def)
qed

lemma parse_datagrams: "list_all event_ok ps \<Longrightarrow> parseProcEvents (concat (map datagram ps)) = Some (map snd ps)"
proof (induction ps)
  case Nil
  show ?case by (simp add: parseProcEvents.simps nlmsgHdrLen_def)
next
  case (Cons p ps)
  then show ?case by (cases p) (simp add: parse_datagram)
qed

lemma parse_unaligned:
  assumes "length b = l - 4" and "16 \<le> l" and "l < 2 ^ 32" and "l mod 4 \<noteq> 0"
  shows "parseProcEvents (le32 (of_nat l) @ b) = None"
proof -
  define B where "B = le32 (of_nat l) @ b"
  have "u32_at B 0 = of_nat l" unfolding B_def using u32_at_append [of "[]" 0 "of_nat l" b] by simp
  moreover have "unat (of_nat l :: u32) = l" using assms(3) by (simp add: unat_of_nat take_bit_nat_eq_self)
  moreover have "length B = l" using assms(1,2) by (simp add: B_def)
  moreover have "l < align l" using assms(4) unfolding align_def nlmsgAlignTo_def by presburger
  ultimately have "parseProcEvents B = None" using assms(2) by (simp add: parseProcEvents.simps [of B] nlmsgHdrLen_def)
  then show ?thesis by (simp add: B_def)
qed

section \<open>The guard when it keeps up\<close>

text \<open>Every step of the processes is followed by the handling of its event.\<close>

fun oom_sync :: "oom_world \<Rightarrow> oom_op list \<Rightarrow> oom_world option" where
  "oom_sync w [] = Some w"
| "oom_sync w (a # as) = Option.bind (oom_run w [a, Handle]) (\<lambda>w'. oom_sync w' as)"

definition adj_of :: "oom_world \<Rightarrow> int \<Rightarrow> int option" where
  "adj_of w pid = map_option p_adj (map_of (w_procs w) pid)"

definition guarded :: "oom_world \<Rightarrow> bool" where
  "guarded w \<longleftrightarrow>
     w_queue w = [] \<and>
     (\<forall>pid. adj_of w pid = Some oomAdjAgent \<longrightarrow> pid \<in> set (w_agents w)) \<and>
     (\<forall>pid \<in> set (w_agents w). adj_of w pid \<in> {Some oomAdjAgent, Some oomAdjGuest})"

lemma adj_of_set_adj: "adj_of (set_adj pid a w) q = (if q = pid \<and> adj_of w pid \<noteq> None then Some a else adj_of w q)"
  by (auto simp: adj_of_def set_adj_def update_conv' split: option.split)

lemma set_adj_simps [simp]: "w_queue (set_adj pid a w) = w_queue w" "w_agents (set_adj pid a w) = w_agents w"
  by (simp_all add: set_adj_def split: option.split)

lemma adj_of_cong [simp]: "adj_of (w\<lparr>w_queue := q\<rparr>) = adj_of w" "adj_of (w\<lparr>w_agents := as\<rparr>) = adj_of w"
  by (simp_all add: adj_of_def fun_eq_iff)

lemma event_kinds [simp]:
  "procEventFork \<noteq> procEventExit" "procEventFork \<noteq> procEventExec" "procEventExit \<noteq> procEventExec"
  "procEventExit \<noteq> procEventFork" "procEventExec \<noteq> procEventFork" "procEventExec \<noteq> procEventExit"
  by (simp_all add: procEventFork_def procEventExit_def procEventExec_def)

lemma adjs [simp]: "oomAdjAgent \<noteq> oomAdjGuest" "oomAdjAgent \<noteq> oomAdjChild" "oomAdjChild \<noteq> oomAdjAgent" "oomAdjGuest \<noteq> oomAdjAgent"
  by (simp_all add: oomAdjAgent_def oomAdjGuest_def oomAdjChild_def)

lemma map_of_orphan: "map_of (map (orphan d) ps) pid = map_option (\<lambda>p. if p_ppid p = d then p\<lparr>p_ppid := 1\<rparr> else p) (map_of ps pid)"
proof -
  have "orphan d = (\<lambda>(k, p). (k, if p_ppid p = d then p\<lparr>p_ppid := 1\<rparr> else p))" by (simp only: fun_eq_iff orphan_def) simp
  then show ?thesis by (simp only: map_of_map comp_apply)
qed

lemma adj_of_exit: "adj_of (w\<lparr>w_procs := map (orphan pid) (AList.delete pid (w_procs w))\<rparr>) q = (if q = pid then None else adj_of w q)"
  by (cases "map_of (w_procs w) q") (simp_all add: adj_of_def map_of_orphan delete_conv')

lemma guarded_fork:
  assumes "guarded w" and "oom_step w (Fork parent child) = Some w1"
  shows "guarded (handle (mk_event procEventFork parent parent child child) (w1\<lparr>w_queue := []\<rparr>))"
proof -
  from assms(2) obtain p where p: "map_of (w_procs w) parent = Some p" "child \<notin> fst ` set (w_procs w)"
      "w1 = w\<lparr>w_procs := AList.update child (p\<lparr>p_ppid := parent\<rparr>) (w_procs w), w_queue := w_queue w @ [mk_event procEventFork parent parent child child]\<rparr>"
    by (auto split: option.split_asm if_split_asm)
  have fresh: "adj_of w child = None" using p(2) by (simp add: adj_of_def map_of_eq_None_iff)
  have pc: "adj_of w parent = Some (p_adj p)" "parent \<noteq> child" using p(1) fresh by (auto simp: adj_of_def)
  have adj: "adj_of (w1\<lparr>w_queue := []\<rparr>) q = (if q = child then Some (p_adj p) else adj_of w q)" for q
    by (auto simp: p(3) adj_of_def update_conv')
  have "child \<notin> set (w_agents w)" using assms(1) fresh by (auto simp: guarded_def)
  then show ?thesis
    using assms(1) pc adj fresh p(3)
    by (cases "parent \<in> set (w_agents w)") (auto simp: guarded_def handle_def mk_event_def adj_of_set_adj)
qed

lemma guarded_exec:
  assumes "guarded w" and "oom_step w (Exec pid exe argv) = Some w1"
  shows "guarded (handle (mk_event procEventExec pid pid 0 0) (w1\<lparr>w_queue := []\<rparr>))"
proof -
  from assms(2) obtain p where p: "map_of (w_procs w) pid = Some p"
      "w1 = w\<lparr>w_procs := AList.update pid (p\<lparr>p_exe := exe, p_argv := argv\<rparr>) (w_procs w), w_queue := w_queue w @ [mk_event procEventExec pid pid 0 0]\<rparr>"
    by (auto split: option.split_asm)
  have adj: "adj_of (w1\<lparr>w_queue := []\<rparr>) q = adj_of w q" for q
    using p by (auto simp: adj_of_def update_conv')
  have own: "map_of (w_procs w1) pid = Some (p\<lparr>p_exe := exe, p_argv := argv\<rparr>)" using p by (simp add: update_conv')
  have "adj_of w pid \<noteq> None" using p(1) by (simp add: adj_of_def)
  then show ?thesis
    using assms(1) adj own p(2)
    by (cases "classify (p\<lparr>p_exe := exe, p_argv := argv\<rparr>) (proc_at (w_procs w1) (p_ppid p))")
       (auto simp: guarded_def handle_def mk_event_def adj_of_set_adj)
qed

lemma guarded_exit:
  assumes "guarded w" and "oom_step w (Exit pid) = Some w1"
  shows "guarded (handle (mk_event procEventExit pid pid 0 0) (w1\<lparr>w_queue := []\<rparr>))"
proof -
  from assms(2) have w1: "w1 = w\<lparr>w_procs := map (orphan pid) (AList.delete pid (w_procs w)), w_queue := w_queue w @ [mk_event procEventExit pid pid 0 0]\<rparr>"
    by (auto split: if_split_asm)
  have adj: "adj_of (w1\<lparr>w_queue := []\<rparr>) q = (if q = pid then None else adj_of w q)" for q
    using adj_of_exit [where w = w and pid = pid and q = q] by (simp add: w1 adj_of_def)
  then show ?thesis using assms(1) w1 by (auto simp: guarded_def handle_def mk_event_def)
qed

lemma guarded_step:
  assumes "guarded w" and "oom_run w [a, Handle] = Some w'"
  shows "guarded w'"
proof -
  have q: "w_queue w = []" using assms(1) by (simp add: guarded_def)
  from assms(2) obtain w1 where s: "oom_step w a = Some w1" "oom_step w1 Handle = Some w'"
    by (cases "oom_step w a") (auto split: Option.bind_splits)
  show ?thesis
  proof (cases a)
    case (Fork parent child)
    with s q have "w' = handle (mk_event procEventFork parent parent child child) (w1\<lparr>w_queue := []\<rparr>)"
      by (auto split: option.split_asm if_split_asm)
    with guarded_fork [OF assms(1)] s(1) Fork show ?thesis by simp
  next
    case (Thread pid tid)
    with s q have "w' = w\<lparr>w_queue := []\<rparr>" by (auto simp: handle_def mk_event_def split: if_split_asm)
    with assms(1) show ?thesis by (simp add: guarded_def)
  next
    case (Exec pid exe argv)
    with s q have "w' = handle (mk_event procEventExec pid pid 0 0) (w1\<lparr>w_queue := []\<rparr>)" by (auto split: option.split_asm)
    with guarded_exec [OF assms(1)] s(1) Exec show ?thesis by simp
  next
    case (Exit pid)
    with s q have "w' = handle (mk_event procEventExit pid pid 0 0) (w1\<lparr>w_queue := []\<rparr>)" by (auto split: if_split_asm)
    with guarded_exit [OF assms(1)] s(1) Exit show ?thesis by simp
  next
    case Handle
    with s(1) q show ?thesis by simp
  next
    case (Overflow n)
    have "w_queue (fold (\<lambda>(pid, adj). set_adj pid adj) ws v) = w_queue v" for ws v by (induction ws arbitrary: v) auto
    with Overflow s q show ?thesis by (auto simp: rescan_def split: prod.split_asm)
  qed
qed

lemma guarded_sync: "guarded w \<Longrightarrow> oom_sync w as = Some w' \<Longrightarrow> guarded w'"
proof (induction as arbitrary: w)
  case (Cons a as)
  then show ?case using guarded_step by (auto simp del: oom_run.simps split: Option.bind_splits)
qed simp

section \<open>Reference model\<close>

text \<open>
  What the adjustment of a process should be, from what the processes do. A process has a parent, a command and an
  adjustment; the program of a session is what a session holder starts.
\<close>

record ideal_proc =
  ip_parent :: int
  ip_exe :: string
  ip_argv :: "string list"
  ip_program :: bool
  ip_score :: int

type_synonym ideal = "int \<Rightarrow> ideal_proc option"

definition session_command :: "string \<Rightarrow> string list \<Rightarrow> bool" where
  "session_command exe argv \<longleftrightarrow> exe = ''/.jailoc/jailoc-guest'' \<and> (case argv of _ # a # _ \<Rightarrow> a = ''session'' | _ \<Rightarrow> False)"

definition holder_command :: "string \<Rightarrow> string list \<Rightarrow> bool" where
  "holder_command exe argv \<longleftrightarrow> exe = ''/.jailoc/jailoc-guest'' \<and> (case argv of _ # a # b # _ \<Rightarrow> a = ''session'' \<and> b = ''serve'' | _ \<Rightarrow> False)"

definition has_holder :: "ideal \<Rightarrow> ideal_proc \<Rightarrow> bool" where
  "has_holder i p = (case i (ip_parent p) of None \<Rightarrow> False | Some h \<Rightarrow> holder_command (ip_exe h) (ip_argv h))"

fun ideal_step :: "ideal \<Rightarrow> oom_op \<Rightarrow> ideal" where
  "ideal_step i (Fork parent child) =
     i(child := map_option (\<lambda>p. p\<lparr>ip_parent := parent, ip_program := False, ip_score := if ip_program p then 0 else ip_score p\<rparr>) (i parent))"
| "ideal_step i (Exec pid exe argv) =
     (case i pid of
        None \<Rightarrow> i
      | Some p \<Rightarrow>
          let p1 = p\<lparr>ip_exe := exe, ip_argv := argv\<rparr>; i1 = i(pid \<mapsto> p1) in
          if session_command exe argv then i1(pid \<mapsto> p1\<lparr>ip_score := - 1000\<rparr>)
          else if has_holder i1 p1 then i1(pid \<mapsto> p1\<lparr>ip_program := True, ip_score := - 500\<rparr>)
          else i1)"
| "ideal_step i (Exit pid) = (\<lambda>q. if q = pid then None else map_option (\<lambda>p. if ip_parent p = pid then p\<lparr>ip_parent := 1\<rparr> else p) (i q))"
| "ideal_step i _ = i"

definition ideal_of :: "oom_world \<Rightarrow> ideal" where
  "ideal_of w = (\<lambda>pid. map_option (\<lambda>p. \<lparr>ip_parent = p_ppid p, ip_exe = p_exe p, ip_argv = p_argv p,
     ip_program = (pid \<in> set (w_agents w)), ip_score = p_adj p\<rparr>) (map_of (w_procs w) pid))"

definition living :: "oom_world \<Rightarrow> bool" where
  "living w \<longleftrightarrow> w_queue w = [] \<and> (\<forall>pid \<in> set (w_agents w). map_of (w_procs w) pid \<noteq> None)"

lemma session_command_iff: "isGuestSession p \<longleftrightarrow> session_command (p_exe p) (p_argv p)"
  by (cases "p_argv p"; cases "tl (p_argv p)") (auto simp: isGuestSession_def session_command_def BinaryPath_def)

lemma holder_command_iff: "isHolder p \<longleftrightarrow> holder_command (p_exe p) (p_argv p)"
  by (cases "p_argv p"; cases "tl (p_argv p)"; cases "tl (tl (p_argv p))") (auto simp: isHolder_def isGuestSession_def holder_command_def BinaryPath_def)

lemma has_holder_iff:
  assumes "\<And>q. i q = None \<longleftrightarrow> map_of ps q = None"
    and "\<And>q x y. i q = Some x \<Longrightarrow> map_of ps q = Some y \<Longrightarrow> ip_exe x = p_exe y \<and> ip_argv x = p_argv y"
  shows "isHolder (proc_at ps (ip_parent p)) \<longleftrightarrow> has_holder i p"
proof (cases "i (ip_parent p)")
  case None
  then have "map_of ps (ip_parent p) = None" using assms(1) by blast
  moreover have "\<not> isHolder no_proc" by (simp add: isHolder_def isGuestSession_def no_proc_def)
  ultimately show ?thesis using None by (simp add: has_holder_def proc_at_def)
next
  case (Some x)
  then obtain y where y: "map_of ps (ip_parent p) = Some y" using assms(1) [of "ip_parent p"] by (cases "map_of ps (ip_parent p)") auto
  then show ?thesis using assms(2) [OF Some y] Some by (simp add: has_holder_def proc_at_def holder_command_iff)
qed

lemma ideal_fork:
  assumes "living w" and "oom_step w (Fork parent child) = Some w1"
  shows "ideal_of (handle (mk_event procEventFork parent parent child child) (w1\<lparr>w_queue := []\<rparr>)) = ideal_step (ideal_of w) (Fork parent child)"
proof -
  from assms(2) obtain p where p: "map_of (w_procs w) parent = Some p" "child \<notin> fst ` set (w_procs w)"
      "w1 = w\<lparr>w_procs := AList.update child (p\<lparr>p_ppid := parent\<rparr>) (w_procs w), w_queue := w_queue w @ [mk_event procEventFork parent parent child child]\<rparr>"
    by (auto split: option.split_asm if_split_asm)
  have fresh: "map_of (w_procs w) child = None" using p(2) by (simp add: map_of_eq_None_iff)
  then have "child \<notin> set (w_agents w)" "parent \<noteq> child" using assms(1) p(1) by (auto simp: living_def)
  then show ?thesis using p fresh
    by (cases "parent \<in> set (w_agents w)")
      (auto simp: fun_eq_iff ideal_of_def handle_def mk_event_def set_adj_def update_conv' oomAdjChild_def)
qed

lemma ideal_exec:
  assumes "oom_step w (Exec pid exe argv) = Some w1"
  shows "ideal_of (handle (mk_event procEventExec pid pid 0 0) (w1\<lparr>w_queue := []\<rparr>)) = ideal_step (ideal_of w) (Exec pid exe argv)"
proof -
  from assms obtain p where p: "map_of (w_procs w) pid = Some p"
      "w1 = w\<lparr>w_procs := AList.update pid (p\<lparr>p_exe := exe, p_argv := argv\<rparr>) (w_procs w), w_queue := w_queue w @ [mk_event procEventExec pid pid 0 0]\<rparr>"
    by (auto split: option.split_asm)
  let ?p1 = "p\<lparr>p_exe := exe, p_argv := argv\<rparr>" and ?procs = "AList.update pid (p\<lparr>p_exe := exe, p_argv := argv\<rparr>) (w_procs w)"
  let ?q = "\<lparr>ip_parent = p_ppid p, ip_exe = exe, ip_argv = argv, ip_program = (pid \<in> set (w_agents w)), ip_score = p_adj p\<rparr>"
  let ?i1 = "(ideal_of w)(pid \<mapsto> ?q)"
  have own: "map_of ?procs pid = Some ?p1" by (simp add: update_conv')
  have h: "isHolder (proc_at ?procs (p_ppid p)) \<longleftrightarrow> has_holder ?i1 ?q"
  proof -
    have "?i1 q = None \<longleftrightarrow> map_of ?procs q = None" for q by (simp add: ideal_of_def update_conv')
    moreover have "ip_exe x = p_exe y \<and> ip_argv x = p_argv y" if "?i1 q = Some x" "map_of ?procs q = Some y" for q x y
      using that by (cases "q = pid") (auto simp: ideal_of_def update_conv')
    ultimately show ?thesis using has_holder_iff [of ?i1 ?procs ?q] by simp
  qed
  have c: "classify ?p1 (proc_at ?procs (p_ppid p)) =
      (if session_command exe argv then roleGuest else if has_holder ?i1 ?q then roleAgent else roleOther)"
    by (simp add: classify_def session_command_iff h)
  have s: "ideal_step (ideal_of w) (Exec pid exe argv) =
      (if session_command exe argv then (ideal_of w)(pid \<mapsto> ?q\<lparr>ip_score := - 1000\<rparr>)
       else if has_holder ?i1 ?q then (ideal_of w)(pid \<mapsto> ?q\<lparr>ip_program := True, ip_score := - 500\<rparr>) else ?i1)"
    using p(1) by (simp add: ideal_of_def Let_def)
  have w1: "w1\<lparr>w_queue := []\<rparr> = w\<lparr>w_procs := ?procs, w_queue := []\<rparr>" using p(2) by simp
  have hd: "handle (mk_event procEventExec pid pid 0 0) (w1\<lparr>w_queue := []\<rparr>) =
      (case classify ?p1 (proc_at ?procs (p_ppid p)) of
         roleGuest \<Rightarrow> set_adj pid oomAdjGuest (w\<lparr>w_procs := ?procs, w_queue := []\<rparr>)
       | roleAgent \<Rightarrow> set_adj pid oomAdjAgent (w\<lparr>w_procs := ?procs, w_queue := [], w_agents := List.insert pid (w_agents w)\<rparr>)
       | roleOther \<Rightarrow> w\<lparr>w_procs := ?procs, w_queue := []\<rparr>)"
    unfolding w1 using own by (simp add: handle_def mk_event_def split: oomRole.split)
  show ?thesis unfolding s hd c
    by (auto simp: fun_eq_iff ideal_of_def set_adj_def update_conv' oomAdjGuest_def oomAdjAgent_def)
qed

lemma ideal_exit:
  assumes "oom_step w (Exit pid) = Some w1"
  shows "ideal_of (handle (mk_event procEventExit pid pid 0 0) (w1\<lparr>w_queue := []\<rparr>)) = ideal_step (ideal_of w) (Exit pid)"
proof -
  from assms have w1: "w1 = w\<lparr>w_procs := map (orphan pid) (AList.delete pid (w_procs w)), w_queue := w_queue w @ [mk_event procEventExit pid pid 0 0]\<rparr>"
    by (auto split: if_split_asm)
  have "ideal_of (handle (mk_event procEventExit pid pid 0 0) (w1\<lparr>w_queue := []\<rparr>)) q = ideal_step (ideal_of w) (Exit pid) q" for q
    by (cases "map_of (w_procs w) q") (simp_all add: w1 ideal_of_def handle_def mk_event_def map_of_orphan delete_conv')
  then show ?thesis by (simp add: fun_eq_iff)
qed

lemma living_handled:
  assumes "living w" and "oom_run w [a, Handle] = Some w'"
  shows "ideal_of w' = ideal_step (ideal_of w) a \<and> living w'"
proof -
  have q: "w_queue w = []" using assms(1) by (simp add: living_def)
  from assms(2) obtain w1 where s: "oom_step w a = Some w1" "oom_step w1 Handle = Some w'"
    by (cases "oom_step w a") (auto split: Option.bind_splits)
  have alive: "map_of (w_procs w) pid \<noteq> None" if "pid \<in> set (w_agents w)" for pid using assms(1) that by (simp add: living_def)
  have queue: "w_queue (handle ev v) = w_queue v" for ev v
    by (simp add: handle_def split: option.split oomRole.split)
  show ?thesis
  proof (cases a)
    case (Fork parent child)
    with s q have w': "w' = handle (mk_event procEventFork parent parent child child) (w1\<lparr>w_queue := []\<rparr>)"
      by (auto split: option.split_asm if_split_asm)
    moreover have "living w'" unfolding w' living_def queue using s(1) Fork alive
      by (auto simp: handle_def mk_event_def set_adj_def update_conv' split: option.split_asm if_split_asm option.split)
    ultimately show ?thesis using ideal_fork [OF assms(1)] s(1) Fork by simp
  next
    case (Thread pid tid)
    with s q have "w' = w\<lparr>w_queue := []\<rparr>" by (auto simp: handle_def mk_event_def split: if_split_asm)
    with assms(1) Thread show ?thesis by (simp add: living_def ideal_of_def)
  next
    case (Exec pid exe argv)
    with s q have w': "w' = handle (mk_event procEventExec pid pid 0 0) (w1\<lparr>w_queue := []\<rparr>)" by (auto split: option.split_asm)
    moreover have "living w'" unfolding w' living_def queue using s(1) Exec alive
      by (auto simp: handle_def mk_event_def set_adj_def update_conv' split: option.split_asm option.split oomRole.split)
    ultimately show ?thesis using ideal_exec s(1) Exec by simp
  next
    case (Exit pid)
    with s q have w': "w' = handle (mk_event procEventExit pid pid 0 0) (w1\<lparr>w_queue := []\<rparr>)" by (auto split: if_split_asm)
    moreover have "living w'" unfolding w' living_def queue using s(1) Exit alive
      by (fastforce simp: handle_def mk_event_def map_of_orphan delete_conv' split: if_split_asm)
    ultimately show ?thesis using ideal_exit s(1) Exit by simp
  next
    case Handle
    with s(1) q show ?thesis by simp
  next
    case (Overflow n)
    have "w_queue (fold (\<lambda>(pid, adj). set_adj pid adj) ws v) = w_queue v" for ws v by (induction ws arbitrary: v) auto
    with Overflow s q show ?thesis by (auto simp: rescan_def split: prod.split_asm)
  qed
qed

lemma ideal_sync: "oom_sync w as = Some w' \<Longrightarrow> living w \<Longrightarrow> ideal_of w' = foldl ideal_step (ideal_of w) as \<and> living w'"
proof (induction as arbitrary: w)
  case (Cons a as)
  then show ?case using living_handled by (fastforce simp del: oom_run.simps ideal_step.simps split: Option.bind_splits)
qed simp

section \<open>Rescans\<close>

lemma fold_writes:
  assumes "\<And>pid p ws. f (pid, p) ws = (case g pid p of None \<Rightarrow> ws | Some a \<Rightarrow> AList.update pid a ws)"
  shows "distinct (map fst xs) \<Longrightarrow>
     map_of (fold f xs ws) pid =
       (case map_of xs pid of
          Some p \<Rightarrow> (case g pid p of Some a \<Rightarrow> Some a | None \<Rightarrow> map_of ws pid)
        | None \<Rightarrow> map_of ws pid)"
proof (induction xs arbitrary: ws)
  case (Cons x xs)
  obtain k p where x: "x = (k, p)" by (cases x)
  have fx: "map_of (f x ws) pid = (if pid = k then (case g k p of Some a \<Rightarrow> Some a | None \<Rightarrow> map_of ws pid) else map_of ws pid)"
    by (cases "g k p") (simp_all add: x assms update_conv')
  show ?case
  proof (cases "pid = k")
    case True
    then have "map_of xs pid = None" using Cons.prems x by (auto simp: map_of_eq_None_iff)
    with Cons fx True x show ?thesis by (cases "g k p") simp_all
  next
    case False
    with Cons fx x show ?thesis by (simp split: option.split)
  qed
qed simp

lemma fold_writes_distinct:
  assumes "\<And>pid p ws. f (pid, p) ws = (case g pid p of None \<Rightarrow> ws | Some a \<Rightarrow> AList.update pid a ws)"
  shows "distinct (map fst ws) \<Longrightarrow> distinct (map fst (fold f xs ws))"
proof (induction xs arbitrary: ws)
  case (Cons x xs)
  obtain k p where x: "x = (k, p)" by (cases x)
  have "distinct (map fst (f x ws))" using Cons.prems by (cases "g k p") (simp_all add: x assms distinct_update)
  with Cons.IH show ?case by simp
qed simp

definition role_write :: "(int \<times> procInfo) list \<Rightarrow> int \<Rightarrow> procInfo \<Rightarrow> int option" where
  "role_write procs pid p =
     (case classify p (proc_at procs (p_ppid p)) of
        roleGuest \<Rightarrow> if p_adj p \<noteq> oomAdjGuest then Some oomAdjGuest else None
      | roleAgent \<Rightarrow> if p_adj p \<noteq> oomAdjAgent then Some oomAdjAgent else None
      | roleOther \<Rightarrow> None)"

definition child_write :: "(int \<times> procInfo) list \<Rightarrow> int list \<Rightarrow> int \<Rightarrow> procInfo \<Rightarrow> int option" where
  "child_write procs agents pid p =
     (if pid \<in> set agents \<or> p_adj p \<noteq> oomAdjAgent then None
      else if ancestor_agent procs agents 64 (p_ppid p) then Some oomAdjChild else None)"

lemma plan_role_write: "plan_role procs (pid, p) ws = (case role_write procs pid p of None \<Rightarrow> ws | Some a \<Rightarrow> AList.update pid a ws)"
  by (simp add: plan_role_def role_write_def split: oomRole.split)

lemma plan_child_write:
  "plan_child procs agents (pid, p) ws = (case child_write procs agents pid p of None \<Rightarrow> ws | Some a \<Rightarrow> AList.update pid a ws)"
  by (simp add: plan_child_def child_write_def)

lemma fold_set_adj:
  "distinct (map fst ws) \<Longrightarrow>
   adj_of (fold (\<lambda>(pid, adj). set_adj pid adj) ws w) pid =
     (case map_of ws pid of Some a \<Rightarrow> map_option (\<lambda>_. a) (adj_of w pid) | None \<Rightarrow> adj_of w pid)"
proof (induction ws arbitrary: w)
  case (Cons x ws)
  obtain k a where x: "x = (k, a)" by (cases x)
  show ?case
  proof (cases "pid = k")
    case True
    then have "map_of ws pid = None" using Cons.prems x by (auto simp: map_of_eq_None_iff)
    with Cons x True show ?thesis by (cases "adj_of w k") (simp_all add: adj_of_set_adj)
  next
    case False
    with Cons x show ?thesis by (simp add: adj_of_set_adj split: option.split)
  qed
qed simp

lemma rescan_adj:
  assumes "distinct (map fst (w_procs w))" and "map_of (w_procs w) pid = Some p"
  shows "w_agents (rescan w) = agents_of (w_procs w)"
    and "pid \<in> set (agents_of (w_procs w)) \<longleftrightarrow> classify p (proc_at (w_procs w) (p_ppid p)) = roleAgent"
    and "adj_of (rescan w) pid =
       Some (case child_write (w_procs w) (agents_of (w_procs w)) pid p of
               Some a \<Rightarrow> a
             | None \<Rightarrow> (case role_write (w_procs w) pid p of Some a \<Rightarrow> a | None \<Rightarrow> p_adj p))"
proof -
  define ws where "ws = fold (plan_role (w_procs w)) (w_procs w) []"
  define ws' where "ws' = fold (plan_child (w_procs w) (agents_of (w_procs w))) (w_procs w) ws"
  have r: "rescan w = fold (\<lambda>(pid, adj). set_adj pid adj) ws' (w\<lparr>w_agents := agents_of (w_procs w)\<rparr>)"
    by (simp add: rescan_def rescanPlan_def ws_def ws'_def Let_def)
  have "w_agents (fold (\<lambda>(pid, adj). set_adj pid adj) xs v) = w_agents v" for xs v by (induction xs arbitrary: v) auto
  with r show "w_agents (rescan w) = agents_of (w_procs w)" by simp
  have "distinct (map fst ws)" unfolding ws_def by (rule fold_writes_distinct [OF plan_role_write]) simp
  then have d: "distinct (map fst ws')" unfolding ws'_def by (rule fold_writes_distinct [OF plan_child_write])
  have "map_of ws pid = role_write (w_procs w) pid p"
    using fold_writes [OF plan_role_write assms(1), where ws = "[]" and pid = pid] assms(2) by (simp add: ws_def split: option.split)
  then have "map_of ws' pid = (case child_write (w_procs w) (agents_of (w_procs w)) pid p of Some a \<Rightarrow> Some a | None \<Rightarrow> role_write (w_procs w) pid p)"
    using fold_writes [OF plan_child_write assms(1), where ws = ws and pid = pid] assms(2) by (simp add: ws'_def split: option.split)
  moreover have "adj_of w pid = Some (p_adj p)" using assms(2) by (simp add: adj_of_def)
  ultimately show "adj_of (rescan w) pid =
       Some (case child_write (w_procs w) (agents_of (w_procs w)) pid p of
               Some a \<Rightarrow> a
             | None \<Rightarrow> (case role_write (w_procs w) pid p of Some a \<Rightarrow> a | None \<Rightarrow> p_adj p))"
    unfolding r fold_set_adj [OF d] by (simp split: option.split)
  have "x \<in> set (w_procs w) \<and> fst x = pid \<longleftrightarrow> x = (pid, p)" for x
    using eq_key_imp_eq_value [OF assms(1), of pid] map_of_SomeD [OF assms(2)] by (cases x) auto
  then show "pid \<in> set (agents_of (w_procs w)) \<longleftrightarrow> classify p (proc_at (w_procs w) (p_ppid p)) = roleAgent"
    by (fastforce simp: agents_of_def)
qed

section \<open>Properties\<close>

text \<open>Proc connector datagrams. The events of a datagram that the kernel lays out with message lengths that
  are multiples of four are parsed completely and in order. A message at the end of a datagram
  whose length is not a multiple of four passes the length check, and then stepping over it
  panics: the aligned length is beyond the slice.\<close>

theorem proc_events_parse:
  "(list_all event_ok ps \<longrightarrow> parseProcEvents (concat (map datagram ps)) = Some (map snd ps)) \<and>
   (16 \<le> l \<and> l < 2 ^ 32 \<and> l mod 4 \<noteq> 0 \<and> length b = l - 4 \<longrightarrow> parseProcEvents (le32 (of_nat l) @ b) = None)"
  using parse_datagrams parse_unaligned by blast

definition fork_layout :: layout where
  "fork_layout = \<lparr>l_fixed = replicate 32 0, l_stamp = replicate 12 7, l_more = replicate 8 0\<rparr>"

theorem proc_events_parse_witness:
  "parseProcEvents (concat (map datagram [(fork_layout, mk_event procEventFork 11 11 12 12), (fork_layout, mk_event procEventExec 12 12 0 0)])) =
     Some [mk_event procEventFork 11 11 12 12, mk_event procEventExec 12 12 0 0] \<and>
   parseProcEvents (le32 17 @ replicate 13 0) = None"
proof -
  have "list_all event_ok [(fork_layout, mk_event procEventFork 11 11 12 12), (fork_layout, mk_event procEventExec 12 12 0 0)]"
    by (simp add: event_ok_def fork_layout_def mk_event_def pid_ok_def)
  with proc_events_parse [of "[(fork_layout, mk_event procEventFork 11 11 12 12), (fork_layout, mk_event procEventExec 12 12 0 0)]"
      17 "replicate 13 0"] show ?thesis by simp
qed


text \<open>A session holder and, after it has started its program, the events of a fork.\<close>

definition guest_world :: oom_world where
  "guest_world = \<lparr>w_procs = [(10, \<lparr>p_ppid = 1, p_exe = BinaryPath, p_argv = [BinaryPath, ''session'', ''serve''], p_adj = -1000\<rparr>)],
     w_queue = [], w_agents = []\<rparr>"

definition agent_ops :: "oom_op list" where
  "agent_ops = [Fork 10 11, Exec 11 ''/usr/bin/opencode'' [''opencode'']]"


text \<open>A rescan, for when events were dropped: the session programs are the recorded agents again; a
  process that is not one and has one among its 64 nearest ancestors loses the agent's adjustment;
  otherwise every session process is exempt, every session program has the agent's adjustment,
  and every other process keeps what it has.\<close>

theorem rescan_repairs:
  assumes "distinct (map fst (w_procs w))" and "map_of (w_procs w) pid = Some p"
  shows "(pid \<in> set (w_agents (rescan w)) \<longleftrightarrow> classify p (proc_at (w_procs w) (p_ppid p)) = roleAgent) \<and>
     adj_of (rescan w) pid =
       Some (if p_adj p = oomAdjAgent \<and> classify p (proc_at (w_procs w) (p_ppid p)) \<noteq> roleAgent \<and>
                ancestor_agent (w_procs w) (w_agents (rescan w)) 64 (p_ppid p) then oomAdjChild
             else case classify p (proc_at (w_procs w) (p_ppid p)) of
                    roleGuest \<Rightarrow> oomAdjGuest | roleAgent \<Rightarrow> oomAdjAgent | roleOther \<Rightarrow> p_adj p)"
  using rescan_adj [OF assms]
  by (auto simp: child_write_def role_write_def split: oomRole.split option.split)

theorem rescan_repairs_witness:
  "distinct (map fst (w_procs guest_world)) \<and>
   (\<exists>w. oom_run guest_world (agent_ops @ [Handle, Handle, Fork 11 12]) = Some w \<and> adj_of (rescan w) 11 = Some (- 500) \<and>
      adj_of w 12 = Some (- 500) \<and> adj_of (rescan w) 12 = Some oomAdjChild)"
proof -
  let ?r = "oom_run guest_world (agent_ops @ [Handle, Handle, Fork 11 12])"
  have "?r \<noteq> None" by code_simp
  then have r: "?r = Some (the ?r)" by simp
  have d: "distinct (map fst (w_procs (the ?r)))" "adj_of (the ?r) 12 = Some (- 500)" "adj_of (rescan (the ?r)) 11 = Some (- 500)"
    "w_agents (rescan (the ?r)) = [11]" by code_simp+
  have p: "map_of (w_procs (the ?r)) 12 = Some \<lparr>p_ppid = 11, p_exe = ''/usr/bin/opencode'', p_argv = [''opencode''], p_adj = - 500\<rparr>"
    by code_simp
  have c: "classify \<lparr>p_ppid = 11, p_exe = ''/usr/bin/opencode'', p_argv = [''opencode''], p_adj = - 500\<rparr> (proc_at (w_procs (the ?r)) 11) = roleOther"
    "ancestor_agent (w_procs (the ?r)) [11] 64 11" by code_simp+
  from rescan_repairs [OF d(1) p] c d(4) have "adj_of (rescan (the ?r)) 12 = Some oomAdjChild" by (simp add: oomAdjAgent_def)
  moreover have "distinct (map fst (w_procs guest_world))" by (simp add: guest_world_def)
  ultimately show ?thesis using r d(2,3) by (intro conjI exI [of _ "the ?r"])
qed

text \<open>Where the guard falls short. First, when an agent's child forks before the guard has handled the
  child's own fork, the grandchild keeps the agent's adjustment although every event has been
  handled: its parent is not an agent. Second, a rescan takes the exemption from a session process
  that a session program started and that still has the inherited adjustment: the role's write
  is replaced by the child's.\<close>

theorem oom_guard_gaps:
  "(\<exists>w. oom_run guest_world (agent_ops @ [Handle, Handle, Fork 11 12, Fork 12 13, Handle, Handle]) = Some w \<and>
      w_queue w = [] \<and> 13 \<notin> set (w_agents w) \<and> adj_of w 12 = Some oomAdjChild \<and> adj_of w 13 = Some oomAdjAgent) \<and>
   (\<exists>w p. oom_run guest_world (agent_ops @ [Handle, Handle, Fork 11 12, Exec 12 BinaryPath [BinaryPath, ''session'', ''open'']]) = Some w \<and>
      map_of (w_procs w) 12 = Some p \<and> isGuestSession p \<and> adj_of (rescan w) 12 = Some oomAdjChild)"
proof -
  let ?r = "oom_run guest_world (agent_ops @ [Handle, Handle, Fork 11 12, Fork 12 13, Handle, Handle])"
  let ?s = "oom_run guest_world (agent_ops @ [Handle, Handle, Fork 11 12, Exec 12 BinaryPath [BinaryPath, ''session'', ''open'']])"
  have "?r \<noteq> None" "?s \<noteq> None" by code_simp+
  then have rs: "?r = Some (the ?r)" "?s = Some (the ?s)" by simp_all
  have r: "w_queue (the ?r) = []" "13 \<notin> set (w_agents (the ?r))" "adj_of (the ?r) 12 = Some oomAdjChild"
    "adj_of (the ?r) 13 = Some oomAdjAgent" by code_simp+
  have "map_of (w_procs (the ?s)) 12 \<noteq> None" by code_simp
  moreover have "isGuestSession (the (map_of (w_procs (the ?s)) 12))" "adj_of (rescan (the ?s)) 12 = Some oomAdjChild" by code_simp+
  ultimately show ?thesis using rs r by (intro conjI exI [of _ "the ?r"] exI [of _ "the ?s"] exI [of _ "the (map_of (w_procs (the ?s)) 12)"]) auto
qed

end
