(* ===== verification/ExecLog.thy ===== *)
theory ExecLog
  imports Oom Mounts
begin

text \<open>
  The exec log of the guest (\<open>internal/guest/execlog_linux.go\<close>, \<open>execlog.go\<close>) and the delivery of
  secrets it hides (\<open>WriteSecrets\<close> in \<open>internal/guest/init_linux.go\<close>): the tracker that finds the exit of
  a recorded process among the exits of its threads, the records, the collection of secret values and
  their replacement in recorded arguments, and the log file. What \<open>/proc\<close> and the file system answer
  are arguments, and so are the names of signals, which a library gives.
\<close>

section \<open>Secrets in the guest\<close>

text \<open>\<open>Secrets\<close>, and the entries of \<open>SecretsDir\<close> with the content of \<open>EnvFile\<close>.\<close>

record Secrets =
  s_Env :: "string list"
  s_Files :: "(string \<times> string) list"

datatype secret_entry = SecretFile string | OtherEntry

record secret_store =
  ss_dir :: "(string \<times> secret_entry) list"
  ss_env :: "string option"

datatype secret_error = InvalidSecretName string | InvalidEnvEntry | InstallError string

definition bad_secret_name :: "string \<Rightarrow> bool" where
  "bad_secret_name name \<longleftrightarrow> name = [] \<or> CHR ''/'' \<in> set name \<or> CHR 0x00 \<in> set name \<or> name = ''.'' \<or> name = ''..''"

text \<open>\<open>ok path\<close> is the outcome of \<open>writeAtomic\<close>, \<open>gone name\<close> that of removing an entry.\<close>

fun write_files :: "(string \<Rightarrow> bool) \<Rightarrow> (string \<times> string) list \<Rightarrow> secret_store \<Rightarrow> (secret_error, unit) result \<times> secret_store" where
  "write_files ok [] g = (Inr (), g)"
| "write_files ok ((name, value) # fs) g =
     (if bad_secret_name name then (Inl (InvalidSecretName name), g)
      else if \<not> ok name then (Inl (InstallError name), g)
      else write_files ok fs (g\<lparr>ss_dir := AList.update name (SecretFile value) (ss_dir g)\<rparr>))"

definition tmp_name :: "string \<Rightarrow> bool" where
  "tmp_name name \<longleftrightarrow> HasPrefix name ''.tmp-''"

definition remove_stale :: "(string \<Rightarrow> bool) \<Rightarrow> Secrets \<Rightarrow> secret_store \<Rightarrow> secret_store" where
  "remove_stale gone s g =
     g\<lparr>ss_dir := filter (\<lambda>(name, _). name \<in> fst ` set (s_Files s) \<or> tmp_name name \<or> \<not> gone name) (ss_dir g)\<rparr>"

definition bad_env_entry :: "string \<Rightarrow> bool" where
  "bad_env_entry kv \<longleftrightarrow> CHR 0x0A \<in> set kv \<or> CHR 0x00 \<in> set kv \<or> \<not> Contains_str kv ''=''"

definition env_lines :: "string list \<Rightarrow> string" where
  "env_lines env = concat (map (\<lambda>kv. kv @ [CHR 0x0A]) env)"

definition WriteSecrets ::
  "(string \<Rightarrow> bool) \<Rightarrow> bool \<Rightarrow> (string \<Rightarrow> bool) \<Rightarrow> Secrets \<Rightarrow> secret_store \<Rightarrow> (secret_error, unit) result \<times> secret_store" where
  "WriteSecrets ok ok_env gone s g =
     (case write_files ok (s_Files s) g of
        (Inl e, g1) \<Rightarrow> (Inl e, g1)
      | (Inr _, g1) \<Rightarrow>
          let g2 = remove_stale gone s g1 in
          if list_ex bad_env_entry (s_Env s) then (Inl InvalidEnvEntry, g2)
          else if \<not> ok_env then (Inl (InstallError ''/run/jailoc/env''), g2)
          else (Inr (), g2\<lparr>ss_env := Some (env_lines (s_Env s))\<rparr>))"

section \<open>Secret values\<close>

definition minSecretLen :: nat where "minSecretLen = 8"
definition readLimit :: nat where "readLimit = 2 ^ 20"
definition redacted :: string where "redacted = ''[redacted]''"

text \<open>The closure \<open>add\<close> of \<open>loadSecretValues\<close>: the trimmed value and its trimmed lines.\<close>

definition pieces :: "string \<Rightarrow> string list" where
  "pieces v = filter (\<lambda>s. length s \<ge> minSecretLen) (map TrimSpace (v # Split CHR 0x0A v))"

definition file_values :: "secret_store \<Rightarrow> string list" where
  "file_values g =
     concat (map (\<lambda>(name, e). case e of SecretFile data \<Rightarrow> if tmp_name name then [] else pieces (take readLimit data) | OtherEntry \<Rightarrow> []) (ss_dir g))"

definition env_values :: "secret_store \<Rightarrow> string list" where
  "env_values g =
     (case ss_env g of
        None \<Rightarrow> []
      | Some data \<Rightarrow> concat (map (\<lambda>line. case Cut line ''='' of (_, v, ok) \<Rightarrow> if ok then pieces v else []) (Split CHR 0x0A (take readLimit data))))"

text \<open>The order among values of one length comes from a map and is not specified; merging sorts it again.\<close>

definition longest_first :: "string list \<Rightarrow> string list" where
  "longest_first = sort_key (\<lambda>s. - int (length s))"

definition loadSecretValues :: "secret_store \<Rightarrow> string list" where
  "loadSecretValues g = longest_first (remdups (file_values g @ env_values g))"

definition mergeSecretValues :: "string list \<Rightarrow> string list \<Rightarrow> string list" where
  "mergeSecretValues old added = longest_first (remdups_adj (sort (old @ added)))"

text \<open>What \<open>os.Stat\<close> says of \<open>SecretsDir\<close> and \<open>EnvFile\<close>: modification time and size, nothing for a missing one.\<close>

record secret_stats =
  st_dir :: "(int \<times> int) option"
  st_env :: "(int \<times> int) option"

definition stat_text :: "int \<times> int \<Rightarrow> string" where
  "stat_text e = Itoa (fst e) @ ''/'' @ Itoa (snd e) @ '';''"

definition secrets_stamp :: "secret_stats \<Rightarrow> string" where
  "secrets_stamp st = concat (map (\<lambda>s. case s of None \<Rightarrow> [] | Some e \<Rightarrow> stat_text e) [st_dir st, st_env st])"

text \<open>\<open>secretValues.current\<close>.\<close>

record secretValues =
  sv_stamp :: string
  sv_values :: "string list"

definition current :: "secret_stats \<Rightarrow> secret_store \<Rightarrow> secretValues \<Rightarrow> secretValues" where
  "current st g s =
     (let stamp = secrets_stamp st in
      if stamp \<noteq> sv_stamp s then \<lparr>sv_stamp = stamp, sv_values = mergeSecretValues (sv_values s) (loadSecretValues g)\<rparr> else s)"

definition redact_one :: "string list \<Rightarrow> string \<Rightarrow> string" where
  "redact_one values a = fold (\<lambda>v r. ReplaceAll r v redacted) values a"

definition redact :: "string list \<Rightarrow> string list \<Rightarrow> string list" where
  "redact argv values = map (redact_one values) argv"

section \<open>Processes\<close>

record trackedProc =
  tp_threads :: int
  tp_status :: u32

type_synonym execTracker = "(int \<times> trackedProc) list"

definition track_exec :: "int \<Rightarrow> execTracker \<Rightarrow> execTracker" where
  "track_exec tgid t = AList.update tgid \<lparr>tp_threads = 1, tp_status = 0\<rparr> t"

definition track_fork :: "procEvent \<Rightarrow> execTracker \<Rightarrow> execTracker" where
  "track_fork ev t =
     (case map_of t (ev_childTGID ev) of
        Some p \<Rightarrow>
          if ev_childPID ev \<noteq> ev_childTGID ev then AList.update (ev_childTGID ev) (p\<lparr>tp_threads := tp_threads p + 1\<rparr>) t else t
      | None \<Rightarrow> t)"

definition track_exit :: "procEvent \<Rightarrow> execTracker \<Rightarrow> u32 option \<times> execTracker" where
  "track_exit ev t =
     (case map_of t (ev_tgid ev) of
        None \<Rightarrow> (None, t)
      | Some p \<Rightarrow>
          let p' = p\<lparr>tp_status := ev_exitCode ev, tp_threads := tp_threads p - 1\<rparr> in
          if tp_threads p' > 0 then (None, AList.update (ev_tgid ev) p' t)
          else (Some (tp_status p'), AList.delete (ev_tgid ev) t))"

definition dropped :: "execTracker \<Rightarrow> execTracker" where
  "dropped t = []"

section \<open>Records\<close>

text \<open>\<open>ExecRecord\<close> without the time.\<close>

record ExecRecord =
  er_Event :: string
  er_PID :: int
  er_PPID :: int
  er_UID :: int
  er_Comm :: string
  er_Cwd :: string
  er_Argv :: "string list"
  er_Exe :: string
  er_Code :: int
  er_Signal :: string

definition new_record :: "string \<Rightarrow> int \<Rightarrow> ExecRecord" where
  "new_record event pid =
     \<lparr>er_Event = event, er_PID = pid, er_PPID = 0, er_UID = - 1, er_Comm = [], er_Cwd = [], er_Argv = [], er_Exe = [],
      er_Code = 0, er_Signal = []\<rparr>"

definition exitRecord :: "(int \<Rightarrow> string) \<Rightarrow> int \<Rightarrow> u32 \<Rightarrow> ExecRecord" where
  "exitRecord signal_name pid status =
     (let e = new_record ''exit'' pid; sig = uint (and status 0x7f) in
      if sig \<noteq> 0 then e\<lparr>er_Signal := (if signal_name sig = [] then ''signal '' @ Itoa sig else signal_name sig)\<rparr>
      else e\<lparr>er_Code := uint (and (drop_bit 8 status) 0xff)\<rparr>)"

text \<open>What \<open>/proc\<close> holds for a process: None for a file that cannot be read.\<close>

record proc_files =
  pf_cmdline :: "string option"
  pf_comm :: "string option"
  pf_cwd :: string
  pf_exe :: string
  pf_status :: "string option"

definition status_line :: "string \<Rightarrow> ExecRecord \<Rightarrow> ExecRecord" where
  "status_line line e =
     (case Cut line '':'' of
        (key, val, ok) \<Rightarrow>
          if \<not> ok \<or> Fields val = [] then e
          else if key = ''PPid'' then e\<lparr>er_PPID := fst (Atoi (hd (Fields val)))\<rparr>
          else if key = ''Uid'' then e\<lparr>er_UID := fst (Atoi (hd (Fields val)))\<rparr>
          else e)"

definition readExec :: "proc_files \<Rightarrow> int \<Rightarrow> ExecRecord" where
  "readExec f pid =
     (let e0 = new_record [] pid;
          e1 = (case pf_cmdline f of
                  Some data \<Rightarrow> if data \<noteq> [] then e0\<lparr>er_Argv := Split CHR 0x00 (TrimSuffix data [CHR 0x00])\<rparr> else e0
                | None \<Rightarrow> e0);
          e2 = (case pf_comm f of Some data \<Rightarrow> e1\<lparr>er_Comm := TrimSpace data\<rparr> | None \<Rightarrow> e1);
          e3 = e2\<lparr>er_Cwd := pf_cwd f, er_Exe := pf_exe f\<rparr>
      in case pf_status f of Some data \<Rightarrow> fold status_line (Split CHR 0x0A data) e3 | None \<Rightarrow> e3)"

text \<open>
  One event of the loop in \<open>startExecLog\<close>. \<open>procs\<close> is what \<open>/proc\<close> answers, \<open>stamp\<close> and \<open>g\<close> are the state of
  the secrets when the event is handled.
\<close>

definition log_event ::
  "(int \<Rightarrow> string) \<Rightarrow> (int \<Rightarrow> proc_files) \<Rightarrow> secret_stats \<Rightarrow> secret_store \<Rightarrow> procEvent \<Rightarrow> execTracker \<times> secretValues \<Rightarrow>
   ExecRecord option \<times> execTracker \<times> secretValues" where
  "log_event signal_name procs st g ev x =
     (case x of (t, s) \<Rightarrow>
        if ev_what ev = procEventExec then
          let s' = current st g s; rec = readExec (procs (ev_tgid ev)) (ev_tgid ev)
          in (Some (rec\<lparr>er_Argv := redact (er_Argv rec) (sv_values s')\<rparr>), track_exec (ev_tgid ev) t, s')
        else if ev_what ev = procEventFork then (None, track_fork ev t, s)
        else if ev_what ev = procEventExit then
          (case track_exit ev t of
             (None, t') \<Rightarrow> (None, t', s)
           | (Some status, t') \<Rightarrow> (Some (exitRecord signal_name (ev_tgid ev) status), t', s))
        else (None, t, s))"

section \<open>Replacing values\<close>

lemma Contains_str_iff: "Contains_str s v \<longleftrightarrow> sublist v s"
proof -
  have "Index s v \<noteq> None \<longleftrightarrow> sublist v s"
  proof (induction s)
    case (Cons c cs)
    then show ?case by (auto simp: sublist_Cons_right HasPrefix_iff prefix_def)
  qed simp
  then show ?thesis by (simp add: Contains_str_def)
qed

text \<open>\<open>ReplaceAll\<close> puts the replacement between the parts of the string that do not hold the value.\<close>

lemma ReplaceAll_parts:
  assumes "old \<noteq> []"
  shows "\<exists>ps. ps \<noteq> [] \<and> s = Join ps old \<and> ReplaceAll s old new = Join ps new \<and> (\<forall>p \<in> set ps. \<not> sublist old p)"
proof (induction "length s" arbitrary: s rule: less_induct)
  case less
  show ?case
  proof (cases s)
    case Nil
    with assms show ?thesis by (intro exI [of _ "[[]]"]) (simp add: ReplaceAll.simps [of "[]"])
  next
    case (Cons c cs)
    show ?thesis
    proof (cases "HasPrefix s old")
      case True
      then obtain rest where rest: "s = old @ rest" by (auto simp: HasPrefix_iff prefix_def)
      then have drop_rest: "drop (length old) s = rest" by simp
      have "length rest < length s" using rest assms by simp
      from less [OF this] obtain ps where ps: "ps \<noteq> []" "rest = Join ps old" "ReplaceAll rest old new = Join ps new" "\<forall>p \<in> set ps. \<not> sublist old p"
        by blast
      have "ReplaceAll s old new = new @ ReplaceAll rest old new" using True assms Cons drop_rest by (subst ReplaceAll.simps) simp
      with ps rest assms show ?thesis by (intro exI [of _ "[] # ps"]) (auto simp: Join_Cons)
    next
      case False
      have "length cs < length s" by (simp add: Cons)
      from less [OF this] obtain ps where ps: "ps \<noteq> []" "cs = Join ps old" "ReplaceAll cs old new = Join ps new" "\<forall>p \<in> set ps. \<not> sublist old p"
        by blast
      then obtain p qs where q: "ps = p # qs" by (cases ps) auto
      have r: "ReplaceAll s old new = c # ReplaceAll cs old new" using False Cons by (subst ReplaceAll.simps) auto
      have j: "Join ((c # p) # qs) x = c # Join ps x" for x by (cases qs) (simp_all add: q Join_Cons)
      have "\<not> prefix old (c # p)"
      proof
        assume "prefix old (c # p)"
        moreover have "prefix (c # p) (Join ((c # p) # qs) old)" by (auto simp: Join_Cons)
        then have "prefix (c # p) s" using j [of old] ps(2) Cons by simp
        ultimately have "prefix old s" by (rule prefix_order.trans)
        with False show False by (simp add: HasPrefix_iff prefix_def)
      qed
      then have "\<not> sublist old (c # p)" using ps(4) q by (simp add: sublist_Cons_right)
      with ps q j r Cons show ?thesis by (intro exI [of _ "(c # p) # qs"]) auto
    qed
  qed
qed

text \<open>A value without brackets that is in the result was in a part, or is in the word between the brackets.\<close>

definition plain_value :: "string \<Rightarrow> bool" where
  "plain_value v \<longleftrightarrow> length v \<ge> minSecretLen \<and> CHR ''['' \<notin> set v \<and> CHR '']'' \<notin> set v \<and> v \<noteq> ''redacted''"

lemma sublist_around:
  assumes "sublist v (xs @ c # ys)" and "c \<notin> set v"
  shows "sublist v xs \<or> sublist v ys"
proof -
  obtain a b where e: "xs @ c # ys = a @ v @ b" using assms(1) by (auto simp: sublist_def)
  from append_eq_append_conv2 [THEN iffD1, OF e] obtain us where
    u: "xs = a @ us \<and> us @ c # ys = v @ b \<or> a = xs @ us \<and> c # ys = us @ v @ b" by auto
  then show ?thesis
  proof
    assume u: "xs = a @ us \<and> us @ c # ys = v @ b"
    then obtain ws where "us = v @ ws \<and> ws @ c # ys = b \<or> v = us @ ws \<and> c # ys = ws @ b" by (auto simp: append_eq_append_conv2)
    then show ?thesis using assms(2) u by (cases ws) (auto simp: sublist_def intro: exI [of _ "[]"])
  next
    assume "a = xs @ us \<and> c # ys = us @ v @ b"
    then show ?thesis using assms(2) by (cases us; cases v) (auto simp: sublist_def)
  qed
qed

lemma redacted_word: "plain_value v \<Longrightarrow> \<not> sublist v ''redacted''"
proof
  assume p: "plain_value v" and "sublist v ''redacted''"
  then have l: "length v \<le> length ''redacted''" "length v \<ge> 8" by (auto dest: sublist_length_le simp: plain_value_def minSecretLen_def)
  obtain a b where e: "''redacted'' = a @ v @ b" using \<open>sublist v ''redacted''\<close> by (auto simp: sublist_def)
  have "length a + (length v + length b) = 8" using arg_cong [OF e, of length] by simp
  with l(2) have "length a = 0" "length b = 0" by linarith+
  with e have "v = ''redacted''" by simp
  with p show False by (simp add: plain_value_def)
qed

lemma Join_redacted:
  assumes "plain_value v" and "sublist v (Join ps redacted)"
  shows "\<exists>p \<in> set ps. sublist v p"
  using assms(2)
proof (induction ps)
  case Nil
  with assms(1) show ?case by (auto simp: plain_value_def minSecretLen_def)
next
  case (Cons p ps)
  show ?case
  proof (cases "ps = []")
    case False
    then have "sublist v (p @ CHR ''['' # (''redacted'' @ CHR '']'' # Join ps redacted))" using Cons.prems by (simp add: Join_Cons redacted_def)
    then have "sublist v p \<or> sublist v (''redacted'' @ CHR '']'' # Join ps redacted)"
      using assms(1) unfolding plain_value_def by (intro sublist_around) blast+
    then have "sublist v p \<or> sublist v ''redacted'' \<or> sublist v (Join ps redacted)"
      using assms(1) sublist_around unfolding plain_value_def by metis
    with redacted_word [OF assms(1)] Cons.IH have "sublist v p \<or> (\<exists>q \<in> set ps. sublist v q)" by blast
    then show ?thesis by (metis list.set_intros)
  qed (use Cons.prems in simp)
qed

lemma part_of_Join: "p \<in> set ps \<Longrightarrow> sublist p (Join ps sep)"
proof (induction ps)
  case (Cons q ps)
  have "sublist p (Join ps sep) \<Longrightarrow> sublist p (q @ sep @ Join ps sep)" by (metis append_assoc sublist_append)
  with Cons show ?case by (cases "ps = []") (auto simp: Join_Cons)
qed simp

lemma ReplaceAll_hides:
  assumes "plain_value v"
  shows "\<not> sublist v (ReplaceAll s v redacted)" and "w \<noteq> [] \<Longrightarrow> \<not> sublist v s \<Longrightarrow> \<not> sublist v (ReplaceAll s w redacted)"
proof -
  have v: "v \<noteq> []" using assms by (auto simp: plain_value_def minSecretLen_def)
  show "\<not> sublist v (ReplaceAll s v redacted)" using ReplaceAll_parts [OF v, of s redacted] Join_redacted [OF assms] by metis
  assume w: "w \<noteq> []" and n: "\<not> sublist v s"
  show "\<not> sublist v (ReplaceAll s w redacted)"
    using ReplaceAll_parts [OF w, of s redacted] Join_redacted [OF assms] part_of_Join sublist_order.order_trans n by metis
qed

lemma redact_one_hides:
  assumes "plain_value v" and "[] \<notin> set vs" and "v \<in> set vs \<or> \<not> sublist v a"
  shows "\<not> sublist v (redact_one vs a)"
  using assms(2,3)
proof (induction vs arbitrary: a)
  case (Cons w vs)
  have "v \<in> set vs \<or> \<not> sublist v (ReplaceAll a w redacted)"
    using Cons.prems ReplaceAll_hides [OF assms(1)] by (cases "w = v") auto
  with Cons show ?case by (simp add: redact_one_def)
qed (simp add: redact_one_def)

section \<open>Delivered secrets\<close>

definition delivered :: "Secrets \<Rightarrow> string list" where
  "delivered s = map snd (s_Files s) @ map (\<lambda>kv. fst (snd (Cut kv ''=''))) (s_Env s)"

text \<open>What the collection of secret values reads whole.\<close>

definition readable_secrets :: "Secrets \<Rightarrow> bool" where
  "readable_secrets s \<longleftrightarrow>
     distinct (map fst (s_Files s)) \<and> length (env_lines (s_Env s)) \<le> readLimit \<and>
     list_all (\<lambda>(name, value). \<not> tmp_name name \<and> length value \<le> readLimit) (s_Files s)"

lemma set_longest_first [simp]: "set (longest_first xs) = set xs"
  by (simp add: longest_first_def)

lemma set_mergeSecretValues: "set (mergeSecretValues old added) = set old \<union> set added"
  by (simp add: mergeSecretValues_def)

lemma write_files_dir:
  "write_files ok fs g = (Inr u, g') \<Longrightarrow> distinct (map fst fs) \<Longrightarrow> (name, value) \<in> set fs \<Longrightarrow>
   map_of (ss_dir g') name = Some (SecretFile value)"
proof (induction ok fs g rule: write_files.induct)
  case (2 ok n v fs g)
  have keep: "write_files ok fs h = (Inr u, h') \<Longrightarrow> name \<notin> fst ` set fs \<Longrightarrow> map_of (ss_dir h') name = map_of (ss_dir h) name" for h h' fs
    by (induction ok fs h rule: write_files.induct) (auto simp: update_conv' split: if_split_asm)
  show ?case
  proof (cases "(name, value) \<in> set fs")
    case True
    with 2 show ?thesis by (auto split: if_split_asm)
  next
    case False
    with "2.prems" have n: "name = n" "value = v" "name \<notin> fst ` set fs" by auto
    with keep "2.prems"(1) show ?thesis by (auto simp: update_conv' split: if_split_asm)
  qed
qed simp

lemma Split_env_lines: "list_all (\<lambda>kv. CHR 0x0A \<notin> set kv) env \<Longrightarrow> Split CHR 0x0A (env_lines env) = env @ [[]]"
proof (induction env)
  case Nil
  then show ?case by (simp add: env_lines_def Split_single)
next
  case (Cons kv env)
  have "env_lines (kv # env) = kv @ CHR 0x0A # env_lines env" by (simp add: env_lines_def)
  then show ?case using Cons by (simp add: Split_append_sep Split_single)
qed

lemma set_concat_map: "y \<in> set ys \<Longrightarrow> f y = zs \<Longrightarrow> set zs \<subseteq> set (concat (map f ys))"
  by auto

lemma delivered_values:
  assumes "WriteSecrets ok ok_env gone s g = (Inr u, g')" and "readable_secrets s" and "x \<in> set (delivered s)"
  shows "set (pieces x) \<subseteq> set (loadSecretValues g')"
proof -
  obtain g1 where w: "write_files ok (s_Files s) g = (Inr (), g1)" "list_all (\<lambda>kv. \<not> bad_env_entry kv) (s_Env s)"
    "g' = (remove_stale gone s g1)\<lparr>ss_env := Some (env_lines (s_Env s))\<rparr>"
    using assms(1) by (auto simp: WriteSecrets_def Let_def list_ex_iff list_all_iff split: prod.split_asm sum.split_asm if_split_asm)
  from assms(3) consider name where "(name, x) \<in> set (s_Files s)" | kv where "kv \<in> set (s_Env s)" "x = fst (snd (Cut kv ''=''))"
    by (auto simp: delivered_def)
  then show ?thesis
  proof cases
    case 1
    then have "map_of (ss_dir g1) name = Some (SecretFile x)" using write_files_dir [OF w(1)] assms(2) by (simp add: readable_secrets_def)
    then have "(name, SecretFile x) \<in> set (ss_dir g')" using 1 by (force simp: w(3) remove_stale_def dest: map_of_SomeD)
    moreover have "\<not> tmp_name name" "take readLimit x = x" using 1 assms(2) by (auto simp: readable_secrets_def list_all_iff)
    ultimately have "set (pieces x) \<subseteq> set (file_values g')"
      unfolding file_values_def by (intro set_concat_map [of "(name, SecretFile x)"]) simp_all
    then show ?thesis by (auto simp: loadSecretValues_def)
  next
    case 2
    have "list_all (\<lambda>kv. CHR 0x0A \<notin> set kv) (s_Env s)" using w(2) by (auto simp: list_all_iff bad_env_entry_def)
    then have sp: "Split CHR 0x0A (take readLimit (env_lines (s_Env s))) = s_Env s @ [[]]"
      using Split_env_lines assms(2) by (simp add: readable_secrets_def)
    have "Contains_str kv ''=''" using w(2) 2(1) by (auto simp: list_all_iff bad_env_entry_def)
    then have "snd (snd (Cut kv ''=''))" unfolding Contains_str_def Cut_def by (simp split: option.split)
    then have c: "(case Cut kv ''='' of (_, v, ok) \<Rightarrow> if ok then pieces v else []) = pieces x"
      unfolding 2(2) by (cases "Cut kv ''=''") simp
    have "set (pieces x) \<subseteq> set (concat (map (\<lambda>line. case Cut line ''='' of (_, v, ok) \<Rightarrow> if ok then pieces v else []) (s_Env s @ [[]])))"
      by (intro set_concat_map [of kv] c) (simp add: 2(1))
    then have "set (pieces x) \<subseteq> set (env_values g')" by (simp add: env_values_def w(3) sp)
    then show ?thesis by (auto simp: loadSecretValues_def)
  qed
qed

text \<open>The states of the collected values along the log.\<close>

definition refresh :: "(secret_stats \<times> secret_store) list \<Rightarrow> secretValues \<Rightarrow> secretValues" where
  "refresh rs s = fold (\<lambda>(st, g). current st g) rs s"

definition no_values :: secretValues where
  "no_values = \<lparr>sv_stamp = [], sv_values = []\<rparr>"

lemma loaded_long: "x \<in> set (loadSecretValues g) \<Longrightarrow> x \<noteq> []"
  by (auto simp: loadSecretValues_def file_values_def env_values_def pieces_def minSecretLen_def
      split: secret_entry.split_asm if_split_asm option.split_asm prod.split_asm)

lemma refresh_grows: "set (sv_values s) \<subseteq> set (sv_values (refresh rs s))"
proof (induction rs arbitrary: s)
  case (Cons r rs)
  have "set (sv_values s) \<subseteq> set (sv_values (current (fst r) (snd r) s))" by (simp add: current_def Let_def set_mergeSecretValues)
  with Cons [of "current (fst r) (snd r) s"] show ?case by (simp add: refresh_def case_prod_beta)
qed (simp add: refresh_def)

lemma refresh_long: "[] \<notin> set (sv_values s) \<Longrightarrow> [] \<notin> set (sv_values (refresh rs s))"
proof (induction rs arbitrary: s)
  case (Cons r rs)
  then have "[] \<notin> set (sv_values (current (fst r) (snd r) s))" using loaded_long by (auto simp: current_def Let_def set_mergeSecretValues)
  from Cons.IH [OF this] show ?case by (simp add: refresh_def case_prod_beta)
qed (simp add: refresh_def)

text \<open>The stamp tells the environment file apart: with both files there, equal stamps have the same time and size of it.\<close>

lemma Itoa_chars: "c \<in> {CHR ''/'', CHR '';''} \<Longrightarrow> c \<notin> set (Itoa i)"
proof -
  have "\<forall>d \<in> set (show_nat n). is_digit d" for n using show_nat_digits [of n] by (simp add: list_all_iff)
  moreover have "\<not> is_digit (CHR ''/'')" "\<not> is_digit (CHR '';'')" by (simp_all add: is_digit_def)
  ultimately show "c \<in> {CHR ''/'', CHR '';''} \<Longrightarrow> c \<notin> set (Itoa i)" by (auto simp: Itoa_def)
qed

lemma Itoa_inj: "Itoa i = Itoa j \<Longrightarrow> i = j"
proof -
  have "hd (show_nat n) \<noteq> CHR ''-''" for n
    using show_nat_digits [of n] is_digit_neq by (cases "show_nat n") auto
  then have neg: "''-'' @ xs \<noteq> show_nat n" for xs n by (metis append_Cons list.sel(1))
  have "nat a = nat b" if "show_nat (nat a) = show_nat (nat b)" for a b using that show_nat_digits by metis
  then show "Itoa i = Itoa j \<Longrightarrow> i = j" using neg neg [symmetric] by (force simp: Itoa_def split: if_split_asm)
qed

lemma stat_text_inj:
  assumes "stat_text e @ r = stat_text f @ s"
  shows "e = f \<and> r = s"
proof -
  have e: "Itoa (fst e) @ CHR ''/'' # (Itoa (snd e) @ CHR '';'' # r) = Itoa (fst f) @ CHR ''/'' # (Itoa (snd f) @ CHR '';'' # s)"
    using assms by (simp add: stat_text_def)
  note first = sep_append [OF Itoa_chars Itoa_chars, THEN iffD1, OF _ _ e, simplified]
  then have "Itoa (snd e) @ CHR '';'' # r = Itoa (snd f) @ CHR '';'' # s" by simp
  note second = sep_append [OF Itoa_chars Itoa_chars, THEN iffD1, OF _ _ this, simplified]
  from first second show ?thesis using Itoa_inj by (simp add: prod_eq_iff)
qed

lemma stamp_env:
  assumes "secrets_stamp st = secrets_stamp st0" and "st_dir st \<noteq> None" and "st_env st \<noteq> None"
  shows "st_env st0 = st_env st"
proof -
  have ne: "stat_text e \<noteq> []" for e by (simp add: stat_text_def)
  obtain d e where d: "st_dir st = Some d" "st_env st = Some e" using assms(2,3) by auto
  have eq: "stat_text d @ stat_text e = secrets_stamp st0" using assms(1) d by (simp add: secrets_stamp_def)
  show ?thesis
  proof (cases "st_dir st0")
    case None
    then show ?thesis using eq d ne stat_text_inj [of d "stat_text e" _ "[]"] by (cases "st_env st0") (auto simp: secrets_stamp_def)
  next
    case (Some d0)
    then show ?thesis using eq d ne stat_text_inj [of d "stat_text e" d0] stat_text_inj [of e "[]" _ "[]"]
      by (cases "st_env st0") (auto simp: secrets_stamp_def)
  qed
qed

lemma current_stamp: "sv_stamp (current st g s) = secrets_stamp st"
  by (simp add: current_def Let_def)

lemma refresh_stamp: "sv_stamp (refresh rs s) = (if rs = [] then sv_stamp s else secrets_stamp (fst (last rs)))"
  by (induction rs rule: rev_induct) (simp_all add: refresh_def case_prod_beta current_stamp)

section \<open>Properties\<close>


definition sent_secrets :: Secrets where
  "sent_secrets = \<lparr>s_Env = [''TOKEN=aaaabbbbcccc''], s_Files = [(''key'', ''line-one-1'' @ CHR 0x0A # ''line-two-2'')]\<rparr>"

definition empty_store :: secret_store where
  "empty_store = \<lparr>ss_dir = [], ss_env = None\<rparr>"

definition sent_store :: secret_store where
  "sent_store = snd (WriteSecrets (\<lambda>_. True) True (\<lambda>_. True) sent_secrets empty_store)"

definition sent_stats :: secret_stats where
  "sent_stats = \<lparr>st_dir = Some (7, 60), st_env = Some (8, 19)\<rparr>"

definition curl_files :: proc_files where
  "curl_files =
     \<lparr>pf_cmdline = Some (''curl'' @ CHR 0x00 # ''token=aaaabbbbcccc'' @ CHR 0x00 # ''line-two-2'' @ [CHR 0x00]), pf_comm = Some ''curl'',
      pf_cwd = ''/work'', pf_exe = ''/usr/bin/curl'', pf_status = None\<rparr>"

definition exec_event :: procEvent where
  "exec_event = \<lparr>ev_what = procEventExec, ev_pid = 7, ev_tgid = 7, ev_childPID = 0, ev_childTGID = 0, ev_exitCode = 0\<rparr>"

definition curl_log :: "ExecRecord option \<times> execTracker \<times> secretValues" where
  "curl_log = log_event (\<lambda>_. []) (\<lambda>_. curl_files) sent_stats sent_store exec_event ([], refresh [] (refresh [] no_values))"

lemma curl_logged: "fst curl_log \<noteq> None \<and> er_Argv (the (fst curl_log)) = [''curl'', ''token=[redacted]'', ''[redacted]'']"
  by code_simp

lemma sent_ok:
  "WriteSecrets (\<lambda>_. True) True (\<lambda>_. True) sent_secrets empty_store = (Inr (), sent_store)" "readable_secrets sent_secrets"
  "''aaaabbbbcccc'' \<in> set (delivered sent_secrets)" "''aaaabbbbcccc'' \<in> set (pieces ''aaaabbbbcccc'')" "plain_value ''aaaabbbbcccc''"
  "st_dir sent_stats \<noteq> None" "st_env sent_stats = Some (8, 19)" "\<forall>(st0, _) \<in> set []. \<forall>(before, _) \<in> set_option (st_env st0). before < (8 :: int)"
  "hd ([] @ [(sent_stats, sent_store)]) = (sent_stats, sent_store)"
  by code_simp+


section \<open>Exits of recorded processes\<close>

text \<open>
  The kernel's side: the number of live threads of each thread group, and the groups recorded by an
  exec since events were last lost. \<open>Lost\<close> is an overflow of the socket, after which the threads may be
  any.
\<close>

datatype kernel_op = Event procEvent | Lost "int \<Rightarrow> nat"

type_synonym kernel = "(int \<Rightarrow> nat) \<times> int set"

fun kernel_step :: "kernel_op \<Rightarrow> kernel \<Rightarrow> ((int \<times> u32) list \<times> kernel) option" where
  "kernel_step (Lost live') (live, rec) = Some ([], live', {})"
| "kernel_step (Event ev) (live, rec) =
     (if ev_what ev = procEventExec then
        (if live (ev_tgid ev) = 1 then Some ([], live, insert (ev_tgid ev) rec) else None)
      else if ev_what ev = procEventFork then
        (if (ev_childPID ev = ev_childTGID ev) = (live (ev_childTGID ev) = 0)
         then Some ([], live(ev_childTGID ev := live (ev_childTGID ev) + 1), rec) else None)
      else if ev_what ev = procEventExit then
        (if live (ev_tgid ev) = 0 then None
         else if live (ev_tgid ev) = 1 then
           Some (if ev_tgid ev \<in> rec then [(ev_tgid ev, ev_exitCode ev)] else [], live(ev_tgid ev := 0), rec - {ev_tgid ev})
         else Some ([], live(ev_tgid ev := live (ev_tgid ev) - 1), rec))
      else Some ([], live, rec))"

fun kernel_run :: "kernel_op list \<Rightarrow> kernel \<Rightarrow> (int \<times> u32) list option" where
  "kernel_run [] k = Some []"
| "kernel_run (x # xs) k = (case kernel_step x k of None \<Rightarrow> None | Some (out, k') \<Rightarrow> map_option ((@) out) (kernel_run xs k'))"

definition track_step :: "kernel_op \<Rightarrow> execTracker \<Rightarrow> (int \<times> u32) list \<times> execTracker" where
  "track_step x t =
     (case x of
        Lost _ \<Rightarrow> ([], dropped t)
      | Event ev \<Rightarrow>
          if ev_what ev = procEventExec then ([], track_exec (ev_tgid ev) t)
          else if ev_what ev = procEventFork then ([], track_fork ev t)
          else if ev_what ev = procEventExit then
            (case track_exit ev t of (None, t') \<Rightarrow> ([], t') | (Some status, t') \<Rightarrow> ([(ev_tgid ev, status)], t'))
          else ([], t))"

fun track_run :: "kernel_op list \<Rightarrow> execTracker \<Rightarrow> (int \<times> u32) list" where
  "track_run [] t = []"
| "track_run (x # xs) t = (case track_step x t of (out, t') \<Rightarrow> out @ track_run xs t')"

definition tracks :: "kernel \<Rightarrow> execTracker \<Rightarrow> bool" where
  "tracks k t \<longleftrightarrow> (case k of (live, rec) \<Rightarrow>
     \<forall>g. case map_of t g of None \<Rightarrow> g \<notin> rec | Some p \<Rightarrow> g \<in> rec \<and> live g \<ge> 1 \<and> tp_threads p = int (live g))"

lemma tracks_other:
  assumes "tracks (live, rec) t" and "map_of t' = (map_of t)(g := q)" and "\<And>h. h \<noteq> g \<Longrightarrow> live' h = live h \<and> (h \<in> rec' \<longleftrightarrow> h \<in> rec)"
    and "case q of None \<Rightarrow> g \<notin> rec' | Some p \<Rightarrow> g \<in> rec' \<and> live' g \<ge> 1 \<and> tp_threads p = int (live' g)"
  shows "tracks (live', rec') t'"
  unfolding tracks_def prod.case
proof
  fix h
  have "case map_of t h of None \<Rightarrow> h \<notin> rec | Some p \<Rightarrow> h \<in> rec \<and> live h \<ge> 1 \<and> tp_threads p = int (live h)"
    using assms(1) unfolding tracks_def by simp
  then show "case map_of t' h of None \<Rightarrow> h \<notin> rec' | Some p \<Rightarrow> h \<in> rec' \<and> live' h \<ge> 1 \<and> tp_threads p = int (live' h)"
    using assms(2,4) assms(3) [of h] by (cases "h = g") (auto split: option.split_asm option.split)
qed

lemma tracked_iff: "tracks (live, rec) t \<Longrightarrow> g \<in> rec \<longleftrightarrow> (\<exists>p. map_of t g = Some p)"
  by (auto simp: tracks_def split: option.split_asm dest: spec [of _ g])

lemma tracked_threads: "tracks (live, rec) t \<Longrightarrow> map_of t g = Some p \<Longrightarrow> tp_threads p = int (live g) \<and> live g \<ge> 1"
  by (auto simp: tracks_def dest: spec [of _ g])

lemma tracks_exit:
  assumes "tracks (live, rec) t" and "live (ev_tgid ev) = Suc n" and "track_exit ev t = (r, t')"
  shows "r = (if n = 0 \<and> ev_tgid ev \<in> rec then Some (ev_exitCode ev) else None)"
    and "tracks (live(ev_tgid ev := n), if n = 0 then rec - {ev_tgid ev} else rec) t'"
proof -
  let ?g = "ev_tgid ev"
  show "r = (if n = 0 \<and> ?g \<in> rec then Some (ev_exitCode ev) else None)"
    using assms tracked_threads [OF assms(1), of ?g] tracked_iff [OF assms(1), of ?g]
    by (auto simp: track_exit_def Let_def split: option.split_asm if_split_asm)
  show "tracks (live(?g := n), if n = 0 then rec - {?g} else rec) t'"
  proof (cases "map_of t ?g")
    case None
    with assms have "map_of t' = (map_of t)(?g := None)" by (auto simp: track_exit_def)
    from tracks_other [OF assms(1) this] None tracked_iff [OF assms(1), of ?g] show ?thesis by auto
  next
    case (Some p)
    have "map_of t' = (map_of t)(?g := if n = 0 then None else Some (p\<lparr>tp_status := ev_exitCode ev, tp_threads := tp_threads p - 1\<rparr>))"
      using assms(2,3) Some tracked_threads [OF assms(1) Some]
      by (auto simp: track_exit_def Let_def delete_conv' update_conv' split: if_split_asm)
    from tracks_other [OF assms(1) this] tracked_threads [OF assms(1) Some] tracked_iff [OF assms(1), of ?g] Some assms(2)
    show ?thesis by auto
  qed
qed

lemma track_step_refines:
  assumes "kernel_step x k = Some (out, k')" and "tracks k t"
  shows "\<exists>t'. track_step x t = (out, t') \<and> tracks k' t'"
proof (cases x)
  case (Lost l)
  with assms(1) show ?thesis by (cases k) (auto simp: track_step_def dropped_def tracks_def)
next
  case (Event ev)
  obtain live rec where k: "k = (live, rec)" by (cases k)
  have neq: "procEventExec \<noteq> procEventFork" "procEventExec \<noteq> procEventExit" "procEventFork \<noteq> procEventExit"
    by (simp_all add: procEventExec_def procEventFork_def procEventExit_def)
  consider "ev_what ev = procEventExec" | "ev_what ev = procEventFork" | "ev_what ev = procEventExit"
    | "ev_what ev \<notin> {procEventExec, procEventFork, procEventExit}" by auto
  then show ?thesis
  proof cases
    case 1
    have "map_of (track_exec (ev_tgid ev) t) = (map_of t)(ev_tgid ev \<mapsto> \<lparr>tp_threads = 1, tp_status = 0\<rparr>)"
      by (simp add: track_exec_def update_conv')
    from tracks_other [OF assms(2) [unfolded k] this] 1 assms(1) Event show ?thesis by (auto simp: track_step_def k split: if_split_asm)
  next
    case 2
    let ?g = "ev_childTGID ev"
    have kk: "out = []" "k' = (live(?g := live ?g + 1), rec)" "(ev_childPID ev = ?g) = (live ?g = 0)"
      using assms(1) 2 Event neq by (auto simp: k split: if_split_asm)
    have "map_of (track_fork ev t) = (map_of t)(?g := map_option (\<lambda>p. p\<lparr>tp_threads := tp_threads p + 1\<rparr>) (map_of t ?g))"
      using tracked_threads [OF assms(2) [unfolded k], of ?g] kk(3) by (auto simp: track_fork_def update_conv' split: option.split)
    from tracks_other [OF assms(2) [unfolded k] this] tracked_iff [OF assms(2) [unfolded k], of ?g] tracked_threads [OF assms(2) [unfolded k], of ?g]
    show ?thesis using kk 2 Event neq by (auto simp: track_step_def split: option.split)
  next
    case 3
    obtain n where n: "live (ev_tgid ev) = Suc n" using assms(1) 3 Event neq by (cases "live (ev_tgid ev)") (auto simp: k)
    obtain r t' where r: "track_exit ev t = (r, t')" by fastforce
    from tracks_exit [OF assms(2) [unfolded k] n r] show ?thesis using assms(1) 3 Event neq n r
      by (auto simp: k track_step_def split: if_split_asm)
  next
    case 4
    with assms Event show ?thesis by (auto simp: k track_step_def)
  qed
qed

text \<open>C40. Exits are recorded once, for recorded processes, with the right status. Along every sequence of process events the
  kernel can report, with any loss of events in between, the tracker reports exactly the exits of the last
  threads of the processes whose exec was seen since events were last lost, with the status of that
  thread.\<close>

theorem exec_tracker_exact:
  assumes "kernel_run xs (live, {}) = Some exits"
  shows "track_run xs [] = exits"
proof -
  have "track_run xs t = exits" if "kernel_run xs k = Some exits" "tracks k t" for k t exits
    using that
  proof (induction xs arbitrary: k t exits)
    case (Cons x xs)
    then obtain out k' rest where k': "kernel_step x k = Some (out, k')" "kernel_run xs k' = Some rest" "exits = out @ rest"
      by (auto split: option.split_asm)
    from track_step_refines [OF k'(1) Cons.prems(2)] Cons.IH [OF k'(2)] k'(3) show ?case by auto
  qed simp
  moreover have "tracks (live, {}) []" by (simp add: tracks_def)
  ultimately show ?thesis using assms by blast
qed

definition proc_event :: "u32 \<Rightarrow> int \<Rightarrow> int \<Rightarrow> u32 \<Rightarrow> kernel_op" where
  "proc_event what child tgid code =
     Event \<lparr>ev_what = what, ev_pid = tgid, ev_tgid = tgid, ev_childPID = child, ev_childTGID = tgid, ev_exitCode = code\<rparr>"

theorem exec_tracker_exact_witness:
  "track_run [proc_event procEventExec 0 7 0, proc_event procEventFork 8 7 0, proc_event procEventExit 0 7 0, proc_event procEventExit 0 7 256] []
     = [(7, 256)]"
  by (rule exec_tracker_exact [of _ "\<lambda>g. if g = 7 then 1 else 0"])
    (simp add: proc_event_def procEventExec_def procEventFork_def procEventExit_def)

end
