(* ===== verification/GuestFiles.thy ===== *)
theory GuestFiles
  imports ExecLog
begin

text \<open>
  Files and numbers the guest works with: the hosts file (\<open>internal/guest/hosts.go\<close>), the environment of
  programs (\<open>lastWins\<close> in \<open>reload.go\<close>, \<open>programEnv\<close> in \<open>init_linux.go\<close>), memory statistics, reclaim targets and
  the swap header (\<open>memory.go\<close>).
\<close>

section \<open>The hosts file\<close>

definition uncomment :: "string \<Rightarrow> string" where
  "uncomment line = takeWhile (\<lambda>c. c \<noteq> CHR ''#'') line"

definition host_names :: "string \<Rightarrow> string list" where
  "host_names line = drop 1 (Fields (uncomment line))"

text \<open>\<open>addHostsEntry\<close>: the new content, or None when the file stays as it is.\<close>

definition addHostsEntry :: "string \<Rightarrow> string \<Rightarrow> string \<Rightarrow> string option" where
  "addHostsEntry data addr hostname =
     (if list_ex (\<lambda>line. hostname \<in> set (host_names line)) (Split CHR 0x0A data) then None
      else Some ((if data \<noteq> [] \<and> \<not> HasSuffix data [CHR 0x0A] then data @ [CHR 0x0A] else data) @ addr @ CHR 0x09 # hostname @ [CHR 0x0A]))"

definition with_entry :: "string \<Rightarrow> string \<Rightarrow> string \<Rightarrow> string" where
  "with_entry addr hostname data = (case addHostsEntry data addr hostname of None \<Rightarrow> data | Some text \<Rightarrow> text)"

text \<open>How a resolver reads the file: the address of the first line that names the host.\<close>

definition resolve_host :: "string \<Rightarrow> string \<Rightarrow> string option" where
  "resolve_host data name = map_option (\<lambda>line. hd (Fields (uncomment line))) (List.find (\<lambda>line. name \<in> set (host_names line)) (Split CHR 0x0A data))"

definition entry_ok :: "string \<Rightarrow> string \<Rightarrow> bool" where
  "entry_ok addr hostname \<longleftrightarrow>
     Fields (addr @ CHR 0x09 # hostname) = [addr, hostname] \<and> list_all (\<lambda>c. c \<noteq> CHR ''#'' \<and> c \<noteq> CHR 0x0A) (addr @ hostname)"

section \<open>Environments\<close>

definition env_key :: "string \<Rightarrow> string" where
  "env_key kv = fst (Cut kv ''='')"

text \<open>\<open>lastWins\<close>: \<open>last\<close> maps each key to the index of its last entry.\<close>

definition last_index :: "string list \<Rightarrow> (string \<times> nat) list" where
  "last_index env = fold (\<lambda>(i, kv) m. AList.update (env_key kv) i m) (enumerate 0 env) []"

definition lastWins :: "string list \<Rightarrow> string list" where
  "lastWins env = map snd (filter (\<lambda>(i, kv). map_of (last_index env) (env_key kv) = Some i) (enumerate 0 env))"

definition programEnv :: "string list \<Rightarrow> secret_store \<Rightarrow> string list \<Rightarrow> string list" where
  "programEnv environ g extraEnv =
     lastWins (environ @ (case ss_env g of None \<Rightarrow> [] | Some data \<Rightarrow> filter (\<lambda>line. line \<noteq> []) (Split CHR 0x0A data)) @ extraEnv)"

text \<open>What a program sees in a variable: the value of the first entry.\<close>

definition getenv :: "string list \<Rightarrow> string \<Rightarrow> string option" where
  "getenv env key = map_option (\<lambda>kv. fst (snd (Cut kv ''=''))) (List.find (\<lambda>kv. env_key kv = key) env)"

section \<open>Memory\<close>

definition reclaimFloorDiv :: u64 where "reclaimFloorDiv = 8"
definition reclaimStepDiv :: u64 where "reclaimStepDiv = 4"
definition reclaimMin :: u64 where "reclaimMin = 32 * 2 ^ 20"
definition maxScanToken :: nat where "maxScanToken = 2 ^ 16"

type_synonym meminfo = "(string \<times> u64) list"

definition mem_field :: "meminfo \<Rightarrow> string \<Rightarrow> u64" where
  "mem_field info name = (case map_of info name of Some v \<Rightarrow> v | None \<Rightarrow> 0)"

definition meminfo_line :: "string \<Rightarrow> meminfo \<Rightarrow> meminfo" where
  "meminfo_line line info =
     (case Cut line '':'' of
        (name, rest, ok) \<Rightarrow>
          if \<not> ok then info
          else (case Fields rest of
                  [] \<Rightarrow> info
                | f # fs \<Rightarrow>
                    (case ParseUint f 64 of
                       None \<Rightarrow> info
                     | Some n \<Rightarrow>
                         let v = word_of_nat n :: u64 in
                         AList.update name (if fs \<noteq> [] \<and> hd fs = ''kB'' then push_bit 10 v else v) info)))"

text \<open>The lines of a \<open>bufio.Scanner\<close>; a line that does not fit its buffer ends the scan with an error.\<close>

definition scan_lines :: "string \<Rightarrow> string list" where
  "scan_lines data = map (\<lambda>l. TrimSuffix l [CHR 0x0D]) (let ls = Split CHR 0x0A data in if last ls = [] then butlast ls else ls)"

datatype meminfo_error = ScanTooLong | NoMemTotal

definition parseMeminfo :: "string \<Rightarrow> (meminfo_error, meminfo) result" where
  "parseMeminfo data =
     (if list_ex (\<lambda>l. length l \<ge> maxScanToken) (Split CHR 0x0A data) then Inl ScanTooLong
      else let info = fold meminfo_line (scan_lines data) [] in
           if mem_field info ''MemTotal'' = 0 then Inl NoMemTotal else Inr info)"

definition reclaimTarget :: "meminfo \<Rightarrow> u64" where
  "reclaimTarget info =
     (let cache = mem_field info ''Active(file)'' + mem_field info ''Inactive(file)'';
          floor = mem_field info ''MemTotal'' div reclaimFloorDiv
      in if cache \<le> floor then 0
         else let target = min (cache - floor) (cache div reclaimStepDiv) in if target < reclaimMin then 0 else target)"

text \<open>\<open>PutUint32\<close> into a page, and the signature at its end; a page is at least 4096 bytes.\<close>

definition put_at :: "nat \<Rightarrow> bytes \<Rightarrow> bytes \<Rightarrow> bytes" where
  "put_at i b page = take i page @ b @ drop (i + length b) page"

definition swapSignature :: bytes where
  "swapSignature = map (\<lambda>c. of_char c) ''SWAPSPACE2''"

definition swapHeader :: "nat \<Rightarrow> u64 \<Rightarrow> bytes option" where
  "swapHeader pageSize sz =
     (let pages = sz div word_of_nat pageSize in
      if pages < 10 \<or> pages - 1 > 0xffffffff then None
      else Some (put_at (pageSize - 10) swapSignature (put_at 1028 (le32 (ucast (pages - 1))) (put_at 1024 (le32 1) (replicate pageSize 0)))))"

section \<open>Hosts\<close>

lemma Split_with_newline:
  "Split CHR 0x0A ((if data \<noteq> [] \<and> \<not> HasSuffix data [CHR 0x0A] then data @ [CHR 0x0A] else data) @ e @ [CHR 0x0A]) =
     (if data = [] then [] else if HasSuffix data [CHR 0x0A] then butlast (Split CHR 0x0A data) else Split CHR 0x0A data) @ Split CHR 0x0A e @ [[]]"
proof (cases "data = []")
  case True
  then show ?thesis using Split_append_sep [of _ e "[]"] by (simp add: Split_single)
next
  case False
  show ?thesis
  proof (cases "HasSuffix data [CHR 0x0A]")
    case True
    then obtain d where d: "data = d @ [CHR 0x0A]" by (auto simp: HasSuffix_iff suffix_def)
    then show ?thesis using Split_append_sep [of _ d "[]"] Split_append_sep [of _ e "[]"] Split_append_sep [of _ d "e @ [CHR 0x0A]"]
      by (simp add: HasSuffix_append Split_single)
  next
    case f: False
    then show ?thesis using False Split_append_sep [of _ e "[]"] Split_append_sep [of _ data "e @ [CHR 0x0A]"] by (simp add: Split_single)
  qed
qed

lemma find_drop_last: "\<not> P x \<Longrightarrow> List.find P (xs @ [x]) = List.find P xs"
  by (induction xs) auto

lemma host_names_Nil: "host_names [] = []"
  by code_simp

lemma Split_ends: "HasSuffix data [c] \<Longrightarrow> Split c data = butlast (Split c data) @ [[]]"
proof -
  assume "HasSuffix data [c]"
  then obtain d where "data = d @ [c]" by (auto simp: HasSuffix_iff suffix_def)
  then show ?thesis using Split_append_sep [of c d "[]"] by (simp add: Split_single)
qed

text \<open>The lines of the file with a new entry, up to empty lines.\<close>

lemma with_entry_lines:
  assumes "addHostsEntry data addr hostname = Some text" and "entry_ok addr hostname" and "\<And>l. P l \<Longrightarrow> host_names l \<noteq> []"
  shows "List.find P (Split CHR 0x0A text) =
     (case List.find P (Split CHR 0x0A data) of Some l \<Rightarrow> Some l | None \<Rightarrow> if P (addr @ CHR 0x09 # hostname) then Some (addr @ CHR 0x09 # hostname) else None)"
proof -
  let ?e = "addr @ CHR 0x09 # hostname"
  let ?ls = "if data = [] then [] else if HasSuffix data [CHR 0x0A] then butlast (Split CHR 0x0A data) else Split CHR 0x0A data"
  have n: "\<not> P []" using assms(3) host_names_Nil by blast
  have "CHR 0x0A \<notin> set ?e" using assms(2) by (auto simp: entry_ok_def list_all_iff)
  then have "Split CHR 0x0A ?e = [?e]" by (rule Split_single)
  moreover have "text = (if data \<noteq> [] \<and> \<not> HasSuffix data [CHR 0x0A] then data @ [CHR 0x0A] else data) @ ?e @ [CHR 0x0A]"
    using assms(1) by (auto simp: addHostsEntry_def split: if_split_asm)
  ultimately have t: "Split CHR 0x0A text = ?ls @ ?e # [[]]" using Split_with_newline [of data ?e] by simp
  have f: "List.find P ?ls = List.find P (Split CHR 0x0A data)"
  proof (cases "data = []")
    case True
    then show ?thesis using n by (simp add: Split_single)
  next
    case False
    then show ?thesis using find_drop_last [of P "[]" "butlast (Split CHR 0x0A data)"] n Split_ends [of data "CHR 0x0A"] by auto
  qed
  show ?thesis unfolding t find_append f using n by (simp split: option.split)
qed

lemma entry_names: "entry_ok addr hostname \<Longrightarrow> Fields (uncomment (addr @ CHR 0x09 # hostname)) = [addr, hostname]"
proof -
  assume e: "entry_ok addr hostname"
  then have "\<forall>c \<in> set (addr @ CHR 0x09 # hostname). c \<noteq> CHR ''#''" by (auto simp: entry_ok_def list_all_iff)
  then have "uncomment (addr @ CHR 0x09 # hostname) = addr @ CHR 0x09 # hostname" unfolding uncomment_def by (rule takeWhile_eq_all_conv [THEN iffD2])
  with e show ?thesis by (simp add: entry_ok_def)
qed

text \<open>The hosts file gets the entry it lacks and keeps the others. After an address is added for a host name, the name
  resolves to the address it had, or to the new one if it had none; every other name resolves as before; and
  adding the name again changes nothing.\<close>

theorem hosts_entry_added:
  assumes "entry_ok addr hostname"
  shows "resolve_host (with_entry addr hostname data) name =
      (if name = hostname \<and> resolve_host data name = None then Some addr else resolve_host data name) \<and>
     with_entry addr' hostname (with_entry addr hostname data) = with_entry addr hostname data"
proof (cases "addHostsEntry data addr hostname")
  case None
  then have l: "list_ex (\<lambda>line. hostname \<in> set (host_names line)) (Split CHR 0x0A data)" by (simp add: addHostsEntry_def split: if_split_asm)
  then have "resolve_host data hostname \<noteq> None" by (auto simp: resolve_host_def find_None_iff list_ex_iff)
  moreover have "with_entry a hostname data = data" for a using l by (simp add: with_entry_def addHostsEntry_def)
  ultimately show ?thesis by auto
next
  case (Some new)
  have w: "with_entry addr hostname data = new" by (simp add: with_entry_def Some)
  let ?P = "\<lambda>h line. h \<in> set (host_names line)" and ?e = "addr @ CHR 0x09 # hostname"
  have e: "host_names ?e = [hostname]" "hd (Fields (uncomment ?e)) = addr" using entry_names [OF assms] by (simp_all add: host_names_def)
  have f: "List.find (?P h) (Split CHR 0x0A new) =
     (case List.find (?P h) (Split CHR 0x0A data) of Some l \<Rightarrow> Some l | None \<Rightarrow> if h = hostname then Some ?e else None)" for h
  proof -
    have "h \<in> set (host_names l) \<Longrightarrow> host_names l \<noteq> []" for l by auto
    from with_entry_lines [OF Some assms, of "?P h", OF this] e(1) show ?thesis by simp
  qed
  have "list_ex (?P hostname) (Split CHR 0x0A new)" using f [of hostname] by (auto simp: list_ex_iff find_Some_iff split: option.split_asm)
  then have "addHostsEntry new addr' hostname = None" by (simp add: addHostsEntry_def)
  moreover have "resolve_host new name = (if name = hostname \<and> resolve_host data name = None then Some addr else resolve_host data name)"
    using f [of name] e(2) by (auto simp: resolve_host_def split: option.split)
  ultimately show ?thesis unfolding w by (simp add: with_entry_def)
qed

theorem hosts_entry_added_witness:
  "resolve_host (with_entry ''192.168.127.1'' ''host.jailoc.internal'' (''127.0.0.1 localhost # host.jailoc.internal'')) ''host.jailoc.internal'' = Some ''192.168.127.1''"
proof -
  have "entry_ok ''192.168.127.1'' ''host.jailoc.internal''" by code_simp
  note added = hosts_entry_added [OF this, of "''127.0.0.1 localhost # host.jailoc.internal''" "''host.jailoc.internal''"]
  have "resolve_host ''127.0.0.1 localhost # host.jailoc.internal'' ''host.jailoc.internal'' = None" by code_simp
  with added show ?thesis by simp
qed

section \<open>Environment\<close>

lemma last_index_snoc: "last_index (env @ [x]) = AList.update (env_key x) (length env) (last_index env)"
  by (simp add: last_index_def enumerate_append_eq)

lemma last_index_bound: "map_of (last_index env) k = Some i \<Longrightarrow> i < length env"
  by (induction env arbitrary: i rule: rev_induct) (auto simp: last_index_snoc update_conv' last_index_def [of "[]"] less_Suc_eq split: if_split_asm)

text \<open>\<open>lastWins\<close> by its last entry.\<close>

lemma lastWins_snoc: "lastWins (env @ [x]) = filter (\<lambda>kv. env_key kv \<noteq> env_key x) (lastWins env) @ [x]"
proof -
  have "map_of (last_index (env @ [x])) (env_key kv) = Some i \<longleftrightarrow> env_key kv \<noteq> env_key x \<and> map_of (last_index env) (env_key kv) = Some i"
    if "(i, kv) \<in> set (enumerate 0 env)" for i kv
    using that by (auto simp: last_index_snoc update_conv' in_set_enumerate_eq)
  then have "filter (\<lambda>(i, kv). map_of (last_index (env @ [x])) (env_key kv) = Some i) (enumerate 0 env) =
      filter (\<lambda>(i, kv). env_key kv \<noteq> env_key x \<and> map_of (last_index env) (env_key kv) = Some i) (enumerate 0 env)"
    by (intro filter_cong) auto
  then show ?thesis
    by (simp add: lastWins_def enumerate_append_eq last_index_snoc [of env] update_conv' filter_map o_def case_prod_beta' conj_commute)
qed

lemma lastWins_Nil [simp]: "lastWins [] = []"
  by (simp add: lastWins_def)

lemma lastWins_keys: "distinct (map env_key (lastWins env))"
  by (induction env rule: rev_induct) (auto simp: lastWins_snoc distinct_map_filter)

lemma find_filter_neq: "k \<noteq> k' \<Longrightarrow> List.find (\<lambda>y. f y = k) (filter (\<lambda>y. f y \<noteq> k') ys) = List.find (\<lambda>y. f y = k) ys"
  by (induction ys) auto

lemma find_snoc: "List.find P (ys @ [x]) = (case List.find P ys of Some y \<Rightarrow> Some y | None \<Rightarrow> if P x then Some x else None)"
  by (induction ys) auto

lemma lastWins_find: "List.find (\<lambda>kv. env_key kv = k) (lastWins env) = List.find (\<lambda>kv. env_key kv = k) (rev env)"
proof (induction env rule: rev_induct)
  case (snoc x env)
  show ?case
  proof (cases "env_key x = k")
    case True
    have "List.find (\<lambda>kv. env_key kv = k) (filter (\<lambda>kv. env_key kv \<noteq> k) (lastWins env)) = None" by (simp add: find_None_iff)
    with True show ?thesis by (simp add: lastWins_snoc find_snoc)
  next
    case False
    with snoc show ?thesis by (simp add: lastWins_snoc find_snoc find_filter_neq split: option.split)
  qed
qed simp

lemma program_env_core:
  assumes "WriteSecrets ok ok_env gone s g = (Inr u, g')"
  shows "distinct (map env_key (programEnv environ g' extraEnv)) \<and>
     getenv (programEnv environ g' extraEnv) key = getenv (rev extraEnv @ rev (s_Env s) @ rev environ) key"
proof -
  have w: "list_all (\<lambda>kv. \<not> bad_env_entry kv) (s_Env s)" "ss_env g' = Some (env_lines (s_Env s))"
    using assms by (auto simp: WriteSecrets_def Let_def list_ex_iff list_all_iff split: prod.split_asm sum.split_asm if_split_asm)
  have "Split CHR 0x0A (env_lines (s_Env s)) = s_Env s @ [[]]"
    using w(1) by (intro Split_env_lines) (auto simp: list_all_iff bad_env_entry_def)
  moreover have "kv \<noteq> []" if "kv \<in> set (s_Env s)" for kv
    using w(1) that by (auto simp: list_all_iff bad_env_entry_def Contains_str_def)
  ultimately have "programEnv environ g' extraEnv = lastWins (environ @ s_Env s @ extraEnv)" by (simp add: programEnv_def w(2))
  then show ?thesis by (simp add: lastWins_keys getenv_def lastWins_find)
qed

text \<open>Programs see the delivered environment. After secrets are delivered, a program started in the guest has every variable
  once, with the last value given by the program's own entries, else by the delivered entries, else by the
  process.\<close>

theorem program_env_delivered:
  assumes "WriteSecrets ok ok_env gone s g = (Inr u, g')"
  shows "distinct (map env_key (programEnv environ g' extraEnv)) \<and>
     getenv (programEnv environ g' extraEnv) key = getenv (rev extraEnv @ rev (s_Env s) @ rev environ) key"
  using assms by (rule program_env_core)

theorem program_env_delivered_witness:
  "getenv (programEnv [''TOKEN=old'', ''HOME=/home/agent''] sent_store [''A=1'']) ''TOKEN'' = Some ''aaaabbbbcccc''"
proof -
  have "getenv (rev [''A=1''] @ rev (s_Env sent_secrets) @ rev [''TOKEN=old'', ''HOME=/home/agent'']) ''TOKEN'' = Some ''aaaabbbbcccc''" by code_simp
  with program_env_delivered [OF sent_ok(1)] show ?thesis by metis
qed

section \<open>Memory\<close>

text \<open>A reclaim round takes at most a quarter of the file cache and leaves an eighth of the memory as cache, and rounds of
  less than 32 MiB are left out.\<close>

theorem reclaim_bounds:
  assumes "reclaimTarget info \<noteq> 0" and "cache = mem_field info ''Active(file)'' + mem_field info ''Inactive(file)''"
  shows "unat (reclaimTarget info) \<le> unat cache div 4 \<and> unat (mem_field info ''MemTotal'') div 8 \<le> unat cache - unat (reclaimTarget info) \<and>
     32 * 2 ^ 20 \<le> unat (reclaimTarget info)"
proof -
  let ?floor = "mem_field info ''MemTotal'' div reclaimFloorDiv" and ?t = "reclaimTarget info"
  define m where "m = min (cache - ?floor) (cache div reclaimStepDiv)"
  have "?t = (if cache \<le> ?floor then 0 else if m < reclaimMin then 0 else m)"
    unfolding reclaimTarget_def Let_def m_def assms(2) by simp
  then have t: "\<not> cache \<le> ?floor" "?t = min (cache - ?floor) (cache div reclaimStepDiv)" "reclaimMin \<le> ?t"
    using assms(1) by (auto simp: m_def [symmetric] split: if_split_asm)
  have fl: "unat ?floor = unat (mem_field info ''MemTotal'') div 8" by (simp add: reclaimFloorDiv_def unat_div)
  have "unat (cache - ?floor) = unat cache - unat ?floor" using t(1) by (intro unat_sub) simp
  moreover have "unat ?t \<le> unat (cache - ?floor)" "unat ?t \<le> unat (cache div reclaimStepDiv)"
    using t(2) by (simp_all add: word_le_nat_alt [symmetric])
  moreover have "unat ?floor < unat cache" using t(1) by (simp add: word_less_nat_alt not_le)
  moreover have "unat (cache div reclaimStepDiv) = unat cache div 4" by (simp add: reclaimStepDiv_def unat_div)
  moreover have "32 * 2 ^ 20 \<le> unat ?t" using t(3) by (simp add: reclaimMin_def word_le_nat_alt)
  ultimately show ?thesis using fl by linarith
qed

definition cached_info :: meminfo where
  "cached_info = [(''MemTotal'', 8589934592), (''Active(file)'', 4294967296), (''Inactive(file)'', 0)]"

theorem reclaim_bounds_witness: "reclaimTarget cached_info = 1073741824 \<and> unat (reclaimTarget cached_info) \<le> unat (4294967296 :: u64) div 4"
proof -
  have t: "reclaimTarget cached_info = 1073741824" "mem_field cached_info ''Active(file)'' + mem_field cached_info ''Inactive(file)'' = 4294967296"
    by code_simp+
  then have "reclaimTarget cached_info \<noteq> 0" by simp
  from reclaim_bounds [OF this t(2) [symmetric]] t(1) show ?thesis by simp
qed

lemma length_put_at [simp]: "i + length b \<le> length page \<Longrightarrow> length (put_at i b page) = length page"
  by (simp add: put_at_def)

lemma drop_put_at: "i + length b \<le> length page \<Longrightarrow> drop i (put_at i b page) = b @ drop (i + length b) page"
  by (simp add: put_at_def)

lemma get_put_before:
  "j + 4 \<le> i \<Longrightarrow> i + length b \<le> length page \<Longrightarrow> drop j page = le32 w @ r \<Longrightarrow> \<exists>r'. drop j (put_at i b page) = le32 w @ r'"
proof -
  assume a: "j + 4 \<le> i" "i + length b \<le> length page" "drop j page = le32 w @ r"
  have "drop j (put_at i b page) = take (i - j) (drop j page) @ b @ drop (i + length b) page"
    using a by (simp add: put_at_def drop_take)
  also have "take (i - j) (drop j page) = le32 w @ take (i - j - 4) r" using a(1) by (simp add: a(3))
  finally show ?thesis by simp
qed

text \<open>The swap header says what \<open>mkswap\<close> writes. It is one page with version 1, the number of the last page and the
  signature at the end of the page, and the pages up to the last are all in the area and fill it but for less
  than a page.\<close>

theorem swap_header_reads_back:
  assumes "swapHeader pageSize sz = Some page" and "4096 \<le> pageSize" and "pageSize < 2 ^ 32"
  shows "length page = pageSize \<and> get_le32 (drop 1024 page) = Some 1 \<and> drop (pageSize - 10) page = swapSignature \<and>
     (\<exists>lastPage. get_le32 (drop 1028 page) = Some lastPage \<and> (unat lastPage + 1) * pageSize \<le> unat sz \<and> unat sz < (unat lastPage + 2) * pageSize)"
proof -
  define pages where "pages = sz div word_of_nat pageSize"
  define p1 where "p1 = put_at 1024 (le32 1) (replicate pageSize 0 :: bytes)"
  define p2 where "p2 = put_at 1028 (le32 (ucast (pages - 1))) p1"
  have ok: "\<not> pages < 10" "\<not> pages - 1 > 0xffffffff" and page: "page = put_at (pageSize - 10) swapSignature p2"
    using assms(1) by (auto simp: swapHeader_def Let_def pages_def p1_def p2_def split: if_split_asm)
  have sig: "length swapSignature = 10" by (simp add: swapSignature_def)
  have len: "length p1 = pageSize" "length p2 = pageSize" "length page = pageSize" using assms(2) sig by (simp_all add: p1_def p2_def page)
  have d1: "drop 1024 p1 = le32 1 @ drop 1028 (replicate pageSize 0)" using assms(2) drop_put_at [of 1024 "le32 1" "replicate pageSize 0"] by (simp add: p1_def)
  obtain r where r: "drop 1024 p2 = le32 1 @ r" using get_put_before [OF _ _ d1, of 1028 "le32 (ucast (pages - 1))"] assms(2) len(1) by (auto simp: p2_def)
  have d2: "drop 1028 p2 = le32 (ucast (pages - 1)) @ drop 1032 p1" using assms(2) len(1) drop_put_at [of 1028 "le32 (ucast (pages - 1))" p1] by (simp add: p2_def)
  have b: "1024 + 4 \<le> pageSize - 10" "1028 + 4 \<le> pageSize - 10" "pageSize - 10 + length swapSignature \<le> length p2"
    using assms(2) len(2) sig by linarith+
  obtain r1 r2 where "drop 1024 page = le32 1 @ r1" "drop 1028 page = le32 (ucast (pages - 1)) @ r2"
    using get_put_before [OF b(1,3) r] get_put_before [OF b(2,3) d2] by (auto simp: page)
  then have g: "get_le32 (drop 1024 page) = Some 1" "get_le32 (drop 1028 page) = Some (ucast (pages - 1))" by simp_all
  have e: "drop (pageSize - 10) page = swapSignature" using drop_put_at [of "pageSize - 10" swapSignature p2] len(2) sig assms(2) by (simp add: page)
  have ps: "unat (word_of_nat pageSize :: u64) = pageSize" using assms(3) by (simp add: unat_of_nat take_bit_nat_eq_self)
  then have un: "unat pages = unat sz div pageSize" by (simp add: pages_def unat_div)
  have "1 \<le> pages" using ok(1) by (simp add: word_le_nat_alt word_less_nat_alt)
  then have m1: "unat (pages - 1) = unat pages - 1" by (simp add: unat_sub)
  have "unat (pages - 1) \<le> 0xffffffff" using ok(2) by (simp add: word_less_nat_alt not_less)
  then have "unat (pages - 1) < 2 ^ 32" by simp
  then have u: "unat (ucast (pages - 1) :: u32) = unat pages - 1" using m1 by (simp add: unsigned_ucast_eq take_bit_nat_eq_self)
  have "unat pages \<ge> 1" using \<open>1 \<le> pages\<close> by (simp add: word_le_nat_alt)
  then have "(unat (ucast (pages - 1) :: u32) + 1) * pageSize \<le> unat sz" "unat sz < (unat (ucast (pages - 1) :: u32) + 2) * pageSize"
    using u un assms(2) dividend_less_times_div [of pageSize "unat sz"] by (simp_all add: algebra_simps)
  with len g e show ?thesis by blast
qed

theorem swap_header_reads_back_witness:
  "\<exists>page. swapHeader 4096 40960 = Some page \<and> length page = 4096 \<and> get_le32 (drop 1024 page) = Some 1"
proof -
  have "\<not> (40960 div word_of_nat 4096 :: u64) < 10" "\<not> (40960 div word_of_nat 4096 - 1 :: u64) > 0xffffffff" by code_simp+
  then obtain page where p: "swapHeader 4096 40960 = Some page" by (auto simp: swapHeader_def Let_def)
  from swap_header_reads_back [OF p] p show ?thesis by simp
qed

end
