(* ===== verification/GitCopy.thy ===== *)
theory GitCopy
  imports GitProtect
begin

text \<open>
  The copies of the user's Git configuration for the guest (\<open>gitConfigCopier\<close> in
  \<open>internal/cmd/vmgitconfig_unix.go\<close>): the credentials directories and stores, the configuration files with
  their includes, the files they name, and the checks of every file before it is copied. \<open>ident\<close> gives the
  identity of the file at a resolved path, which hard links share. The SSH key parser is the argument
  \<open>parse_key\<close>: the serialized key, the options and the rest. The limits are parameters of the copier where
  the source has variables.
\<close>

section \<open>State\<close>

definition guestHome :: string where "guestHome = ''/home/agent''"
definition gitCredentialDirs :: "string list" where "gitCredentialDirs = [''.ssh'', ''.gnupg'', ''.aws'']"
definition maxProtectedEntries :: nat where "maxProtectedEntries = 2 ^ 16"

definition gitFileKeys :: "(string \<times> string) list" where
  "gitFileKeys =
     [(''core.excludesfile'', ''core.excludesFile''), (''core.attributesfile'', ''core.attributesFile''),
      (''commit.template'', ''commit.template''), (''gpg.allowedsignersfile'', ''gpg.ssh.allowedSignersFile''),
      (''user.signingkey'', ''user.signingKey'')]"

datatype publicFile = AllowedSigners | PublicKey

definition gitPublicFiles :: "(string \<times> publicFile) list" where
  "gitPublicFiles = [(''gpg.allowedsignersfile'', AllowedSigners), (''user.signingkey'', PublicKey)]"

type_synonym file_info = "nat \<times> node"

record snapshot =
  sn_Host :: string
  sn_Container :: string
  sn_data :: string

datatype git_ref = RefConfig string string string | RefFile string string string "publicFile option"

datatype copy_warning =
    TooManyIncludes string
  | NotPublic string string
  | OutsideHome string
  | OutsideGuestHome string
  | Missing string
  | Unresolved string errno
  | HoldsCredentials string string
  | PathTaken string string
  | NotSmallRegular string

record gitConfigCopier =
  cp_home :: string
  cp_xdg :: string
  cp_warnings :: "copy_warning list"
  cp_out :: "snapshot list"
  cp_refs :: "git_ref list"
  cp_seen :: "(string \<times> string) list"
  cp_dests :: "(string \<times> string \<times> file_info) list"
  cp_dirs :: "(string \<times> nat) list"
  cp_files :: "(string \<times> nat) list"
  cp_stores :: "nat list"
  cp_incomplete :: string
  cp_count :: nat

definition warn :: "copy_warning \<Rightarrow> gitConfigCopier \<Rightarrow> gitConfigCopier" where
  "warn w c = c\<lparr>cp_warnings := cp_warnings c @ [w]\<rparr>"

definition info_of :: "host \<Rightarrow> (string list \<Rightarrow> nat) \<Rightarrow> (errno, string list) result \<Rightarrow> (errno, file_info) result" where
  "info_of H ident r = rbind r (\<lambda>es. case node_at H es of None \<Rightarrow> Inl ENOENT | Some n \<Rightarrow> Inr (ident es, n))"

definition stat_info :: "host \<Rightarrow> (string list \<Rightarrow> nat) \<Rightarrow> string \<Rightarrow> (errno, file_info) result" where
  "stat_info H ident p = info_of H ident (resolve_path H True p)"

definition lstat_info :: "host \<Rightarrow> (string list \<Rightarrow> nat) \<Rightarrow> string \<Rightarrow> (errno, file_info) result" where
  "lstat_info H ident p = info_of H ident (resolve_path H False p)"

section \<open>Credentials directories\<close>

text \<open>
  What \<open>filepath.WalkDir\<close> visits below a path when the callback never skips: each entry, and the error of a
  directory that cannot be read. A path of \<open>pathMax\<close> bytes cannot be read, so \<open>pathMax + 1\<close> levels are enough.
\<close>

primrec walk_list :: "host \<Rightarrow> nat \<Rightarrow> string \<Rightarrow> node \<Rightarrow> (string \<times> (errno + node)) list" where
  "walk_list H 0 path d = []"
| "walk_list H (Suc n) path d =
     (path, Inr d) #
     (if is_folder d then
        (case read_dir H path of
           Inl e \<Rightarrow> [(path, Inl e)]
         | Inr es \<Rightarrow> concat (map (\<lambda>(e, nd). walk_list H n (PathJoin [path, e]) nd) es))
      else [])"

text \<open>One visit of \<open>protect\<close>: the directories still to walk and the copier.\<close>

definition protect_visit ::
  "host \<Rightarrow> (string list \<Rightarrow> nat) \<Rightarrow> string \<Rightarrow> string \<times> (errno + node) \<Rightarrow> string list \<times> gitConfigCopier \<Rightarrow> string list \<times> gitConfigCopier" where
  "protect_visit H ident name v x =
     (case x of (queue, c) \<Rightarrow>
        if (case snd v of Inl _ \<Rightarrow> True | Inr d \<Rightarrow> is_folder d) then (queue, c)
        else (case stat_info H ident (fst v) of
                Inl _ \<Rightarrow> (queue, c)
              | Inr (i, n) \<Rightarrow>
                  if is_folder n then (queue @ [fst v], c)
                  else if is_regular n then (queue, c\<lparr>cp_files := cp_files c @ [(name, i)]\<rparr>)
                  else (queue, c)))"

fun protect_visits ::
  "host \<Rightarrow> (string list \<Rightarrow> nat) \<Rightarrow> string \<Rightarrow> nat \<Rightarrow> (string \<times> (errno + node)) list \<Rightarrow> string list \<times> gitConfigCopier \<Rightarrow>
   nat \<times> string list \<times> gitConfigCopier" where
  "protect_visits H ident name entries [] (queue, c) = (entries, queue, c)"
| "protect_visits H ident name entries (v # vs) (queue, c) =
     (if entries + 1 > maxProtectedEntries then (entries + 1, queue, c\<lparr>cp_incomplete := name\<rparr>)
      else protect_visits H ident name (entries + 1) vs (protect_visit H ident name v (queue, c)))"

lemma protect_visits_count: "protect_visits H ident name entries vs x = (entries', y) \<Longrightarrow> entries + (if vs = [] then 0 else 1) \<le> entries'"
proof (induction H ident name entries vs x rule: protect_visits.induct)
  case (2 H ident name entries v vs queue c)
  show ?case
  proof (cases "entries + 1 > maxProtectedEntries")
    case False
    with "2.prems" "2.IH" [OF False] show ?thesis by (auto split: if_split_asm)
  qed (use "2.prems" in auto)
qed simp

definition walk_all :: "host \<Rightarrow> string \<Rightarrow> node \<Rightarrow> (string \<times> (errno + node)) list" where
  "walk_all H root d = walk_list H (pathMax + 1) root d"

lemma walk_all_not_Nil: "walk_all H root d \<noteq> []"
  by (simp add: walk_all_def)

lemma visits_progress:
  "entries < m \<Longrightarrow> (case protect_visits H ident name entries (walk_all H root d) x of (entries', _, _) \<Rightarrow> m - entries') < m - entries"
proof (cases "protect_visits H ident name entries (walk_all H root d) x")
  case (fields entries' queue c)
  moreover assume "entries < m"
  moreover have "entries < entries'" using protect_visits_count [OF fields] walk_all_not_Nil [of H root d] by simp
  ultimately show ?thesis by simp
qed

text \<open>The loop over the queue of directories.\<close>

function protect_loop ::
  "host \<Rightarrow> (string list \<Rightarrow> nat) \<Rightarrow> string \<Rightarrow> nat \<Rightarrow> string list \<Rightarrow> gitConfigCopier \<Rightarrow> gitConfigCopier" where
  "protect_loop H ident name entries queue c =
     (case queue of
        [] \<Rightarrow> c
      | q # qs \<Rightarrow>
          if entries \<ge> maxProtectedEntries then c\<lparr>cp_incomplete := name\<rparr>
          else
            (case rbind (EvalSymlinks H q) (\<lambda>root. rbind (stat_info H ident root) (\<lambda>info. Inr (root, info))) of
               Inl _ \<Rightarrow> protect_loop H ident name entries qs c
             | Inr (root, i, n) \<Rightarrow>
                 if \<not> is_folder n \<or> i \<in> snd ` set (cp_dirs c) then protect_loop H ident name entries qs c
                 else
                   (case protect_visits H ident name entries (walk_all H root n) (qs, c\<lparr>cp_dirs := cp_dirs c @ [(name, i)]\<rparr>) of
                      (entries', queue', c') \<Rightarrow> protect_loop H ident name entries' queue' c')))"
  by pat_completeness auto
termination
  by (relation "measures [\<lambda>(_, _, _, entries, _, _). maxProtectedEntries - entries, \<lambda>(_, _, _, _, queue, _). length queue]")
    (auto simp: visits_progress)

declare protect_loop.simps [simp del]

definition protect_credentials :: "host \<Rightarrow> (string list \<Rightarrow> nat) \<Rightarrow> string \<Rightarrow> gitConfigCopier \<Rightarrow> gitConfigCopier" where
  "protect_credentials H ident name c = protect_loop H ident name 0 [PathJoin [cp_home c, name]] c"

section \<open>Checks\<close>

text \<open>The directories of a path, from its own up to the root.\<close>

fun dirs_above :: "nat \<Rightarrow> string \<Rightarrow> string list" where
  "dirs_above 0 d = []"
| "dirs_above (Suc n) d = d # (if d = PathDir d then [] else dirs_above n (PathDir d))"

definition in_credential_dir :: "host \<Rightarrow> (string list \<Rightarrow> nat) \<Rightarrow> gitConfigCopier \<Rightarrow> string \<Rightarrow> string option" where
  "in_credential_dir H ident c p =
     (case List.find (\<lambda>d. case stat_info H ident d of Inr (i, _) \<Rightarrow> i \<in> snd ` set (cp_dirs c) | Inl _ \<Rightarrow> False) (dirs_above (length p + 1) (PathDir p)) of
        None \<Rightarrow> None
      | Some d \<Rightarrow>
          (case stat_info H ident d of
             Inr (i, _) \<Rightarrow> map_option fst (List.find (\<lambda>(_, j). j = i) (cp_dirs c))
           | Inl _ \<Rightarrow> None))"

text \<open>\<open>credential\<close>: why a file is not copied, and whether it is a credential store.\<close>

definition credential :: "host \<Rightarrow> (string list \<Rightarrow> nat) \<Rightarrow> gitConfigCopier \<Rightarrow> string \<Rightarrow> string \<Rightarrow> file_info \<Rightarrow> string \<times> bool" where
  "credential H ident c src resolved info =
     (if fst info \<in> set (cp_stores c) then (''a Git credential store'', True)
      else case List.find (\<lambda>(_, i). i = fst info) (cp_files c) of
             Some (dir, _) \<Rightarrow> (''in ~/'' @ dir, False)
           | None \<Rightarrow>
               (case in_credential_dir H ident c src of
                  Some dir \<Rightarrow> (''in ~/'' @ dir, False)
                | None \<Rightarrow>
                    (case in_credential_dir H ident c resolved of
                       Some dir \<Rightarrow> (''in ~/'' @ dir, False)
                     | None \<Rightarrow>
                         if cp_incomplete c \<noteq> [] then (''not checked because ~/'' @ cp_incomplete c @ '' has more than 65536 entries'', False)
                         else ([], False))))"

definition readSame :: "host \<Rightarrow> (string list \<Rightarrow> nat) \<Rightarrow> string \<Rightarrow> file_info \<Rightarrow> string option" where
  "readSame H ident path info =
     (case (open_node H False path, lstat_info H ident path) of
        (Inr (Regular _ data), Inr (i, _)) \<Rightarrow> if i = fst info \<and> length data \<le> maxConfigSize then Some data else None
      | _ \<Rightarrow> None)"

text \<open>\<open>load\<close> from the resolved file on.\<close>

definition load_resolved ::
  "host \<Rightarrow> (string list \<Rightarrow> nat) \<Rightarrow> string \<Rightarrow> string \<Rightarrow> string \<Rightarrow> bool \<Rightarrow> string \<Rightarrow> file_info \<Rightarrow> gitConfigCopier \<Rightarrow>
   (string \<times> string) option \<times> gitConfigCopier" where
  "load_resolved H ident name src dest public resolved info c =
     (case credential H ident c src resolved info of
        (where_, store) \<Rightarrow>
          if where_ \<noteq> [] \<and> (store \<or> \<not> public) then (None, warn (HoldsCredentials name where_) c)
          else (case map_of (cp_dests c) dest of
                  Some (prev, pinfo) \<Rightarrow> (None, if fst pinfo = fst info then c else warn (PathTaken name prev) c)
                | None \<Rightarrow>
                    (case readSame H ident resolved info of
                       None \<Rightarrow> (None, warn (NotSmallRegular name) c)
                     | Some data \<Rightarrow> (Some (dest, data), c\<lparr>cp_dests := (dest, src, info) # cp_dests c\<rparr>))))"

definition load ::
  "host \<Rightarrow> (string list \<Rightarrow> nat) \<Rightarrow> string \<Rightarrow> string \<Rightarrow> string \<Rightarrow> bool \<Rightarrow> gitConfigCopier \<Rightarrow> (string \<times> string) option \<times> gitConfigCopier" where
  "load H ident key src dest0 public c0 =
     (if (src, dest0) \<in> set (cp_seen c0) then (None, c0)
      else
        let c = c0\<lparr>cp_seen := (src, dest0) # cp_seen c0\<rparr>; name = TrimPrefix (key @ '' '' @ src) '' '' in
        if \<not> within src (cp_home c) \<and> (dest0 = [] \<or> \<not> within src (cp_xdg c)) then (None, warn (OutsideHome name) c)
        else
          let dest = (if dest0 = [] then guestHome @ ''/'' @ (case Rel (cp_home c) src of Some rel \<Rightarrow> rel | None \<Rightarrow> []) else dest0) in
          if dest \<noteq> guestHome \<and> \<not> HasPrefix dest (guestHome @ ''/'') then (None, warn (OutsideGuestHome name) c)
          else
            (case rbind (EvalSymlinks H src) (\<lambda>resolved. rbind (lstat_info H ident resolved) (\<lambda>info. Inr (resolved, info))) of
               Inl e \<Rightarrow> (None, if e = ENOENT then (if key \<noteq> [] then warn (Missing name) c else c) else warn (Unresolved name e) c)
             | Inr (resolved, info) \<Rightarrow> load_resolved H ident name src dest public resolved info c))"

section \<open>Public files\<close>

type_synonym key_parser = "string \<Rightarrow> (string \<times> string list \<times> string) option"

definition publicKey :: "key_parser \<Rightarrow> string \<Rightarrow> string option" where
  "publicKey parse_key data = map_option fst (parse_key data)"

definition signer_option_ok :: "string \<Rightarrow> bool" where
  "signer_option_ok opt \<longleftrightarrow>
     opt = ''cert-authority'' \<or> HasPrefix opt ''namespaces='' \<or> HasPrefix opt ''valid-after='' \<or> HasPrefix opt ''valid-before=''"

definition signer_end :: "string \<Rightarrow> nat option" where
  "signer_end line =
     (if HasPrefix line [CHR 0x22] then map_option (\<lambda>q. q + 2) (Index (tl line) [CHR 0x22])
      else Some (case List.find (\<lambda>i. line ! i = CHR '' '' \<or> line ! i = CHR 0x09) [0..<length line] of Some i \<Rightarrow> i | None \<Rightarrow> 0))"

definition signer_line :: "key_parser \<Rightarrow> string \<Rightarrow> string option" where
  "signer_line parse_key line =
     (case signer_end line of
        None \<Rightarrow> None
      | Some e \<Rightarrow>
          if e = 0 \<or> e \<ge> length line then None
          else (case parse_key (drop e line) of
                  None \<Rightarrow> None
                | Some (key, options, rest) \<Rightarrow>
                    if rest \<noteq> [] \<or> \<not> list_all signer_option_ok options then None
                    else Some (take e line @ (if options = [] then [] else '' '' @ Join options '','') @ '' '' @ key)))"

definition allowedSigners :: "key_parser \<Rightarrow> string \<Rightarrow> string option" where
  "allowedSigners parse_key data =
     (let lines = filter (\<lambda>l. l \<noteq> [] \<and> \<not> HasPrefix l ''#'') (map TrimSpace (Split CHR 0x0A data)) in
      if lines \<noteq> [] \<and> list_all (\<lambda>l. signer_line parse_key l \<noteq> None) lines
      then Some (concat (map (\<lambda>l. the (signer_line parse_key l)) lines)) else None)"

definition parse_public :: "key_parser \<Rightarrow> publicFile \<Rightarrow> string \<Rightarrow> string option" where
  "parse_public parse_key kind data = (case kind of AllowedSigners \<Rightarrow> allowedSigners parse_key data | PublicKey \<Rightarrow> publicKey parse_key data)"

section \<open>Copying\<close>

definition expand :: "string \<Rightarrow> string \<Rightarrow> string option" where
  "expand home value =
     (let v = (case CutPrefix value ''~/'' of Some rest \<Rightarrow> PathJoin [home, rest] | None \<Rightarrow> value)
      in if IsAbs v then Some (Clean v) else None)"

definition entry_ref :: "string \<Rightarrow> string \<Rightarrow> string \<Rightarrow> gitConfigEntry \<Rightarrow> git_ref option" where
  "entry_ref home src dest e =
     (let name = ge_section e @ ''.'' @ ge_key e in
      if name = ''include.path'' \<or> name = ''includeif.path'' then
        let display = (if ge_section e = ''includeif'' then ''includeIf.path'' else ''include.path'') in
        (case expand home (ge_value e) of
           Some p \<Rightarrow> Some (RefConfig display p [])
         | None \<Rightarrow>
             if ge_value e \<noteq> [] \<and> \<not> HasPrefix (ge_value e) ''~'' \<and> \<not> HasPrefix (ge_value e) ''%('' then
               Some (RefConfig display (PathJoin [PathDir src, ge_value e]) (PathJoin [PathDir dest, ge_value e]))
             else None)
      else case map_of gitFileKeys name of
             Some key \<Rightarrow> map_option (\<lambda>p. RefFile key p [] (map_of gitPublicFiles name)) (expand home (ge_value e))
           | None \<Rightarrow> None)"

definition copy_config ::
  "(string \<Rightarrow> string) \<Rightarrow> host \<Rightarrow> (string list \<Rightarrow> nat) \<Rightarrow> string \<Rightarrow> string \<Rightarrow> string \<Rightarrow> gitConfigCopier \<Rightarrow> gitConfigCopier" where
  "copy_config ul H ident key src dest0 c =
     (if (src, dest0) \<in> set (cp_seen c) then c
      else if cp_count c \<ge> maxConfigFiles then
        (if cp_count c = maxConfigFiles then (warn (TooManyIncludes src) c)\<lparr>cp_count := cp_count c + 1\<rparr> else c)
      else (case load H ident key src dest0 False c of
              (None, c1) \<Rightarrow> c1
            | (Some (dest, data), c1) \<Rightarrow>
                c1\<lparr>cp_count := cp_count c1 + 1,
                   cp_out := cp_out c1 @ [\<lparr>sn_Host = src, sn_Container = dest, sn_data = rewriteGitConfig ul data (cp_home c1)\<rparr>],
                   cp_refs := cp_refs c1 @ List.map_filter (entry_ref (cp_home c1) src dest) (parseGitConfig ul data)\<rparr>))"

definition copy_file ::
  "key_parser \<Rightarrow> host \<Rightarrow> (string list \<Rightarrow> nat) \<Rightarrow> string \<Rightarrow> string \<Rightarrow> string \<Rightarrow> publicFile option \<Rightarrow> gitConfigCopier \<Rightarrow> gitConfigCopier" where
  "copy_file parse_key H ident key src dest0 public c =
     (case load H ident key src dest0 (public \<noteq> None) c of
        (None, c1) \<Rightarrow> c1
      | (Some (dest, data), c1) \<Rightarrow>
          (case (case public of None \<Rightarrow> Some data | Some kind \<Rightarrow> parse_public parse_key kind data) of
             None \<Rightarrow> warn (NotPublic key src) c1
           | Some d \<Rightarrow> c1\<lparr>cp_out := cp_out c1 @ [\<lparr>sn_Host = src, sn_Container = dest, sn_data = d\<rparr>]\<rparr>))"

definition follow_ref ::
  "(string \<Rightarrow> string) \<Rightarrow> key_parser \<Rightarrow> host \<Rightarrow> (string list \<Rightarrow> nat) \<Rightarrow> git_ref \<Rightarrow> gitConfigCopier \<Rightarrow> gitConfigCopier" where
  "follow_ref ul parse_key H ident r c =
     (case r of
        RefConfig key src dest \<Rightarrow> copy_config ul H ident key src dest c
      | RefFile key src dest public \<Rightarrow> copy_file parse_key H ident key src dest public c)"

text \<open>What loading a file leaves as it is.\<close>

definition same_base :: "gitConfigCopier \<Rightarrow> gitConfigCopier \<Rightarrow> bool" where
  "same_base c c' \<longleftrightarrow>
     cp_count c' = cp_count c \<and> cp_refs c' = cp_refs c \<and> cp_out c' = cp_out c \<and> cp_home c' = cp_home c \<and> cp_xdg c' = cp_xdg c \<and>
     cp_dirs c' = cp_dirs c \<and> cp_files c' = cp_files c \<and> cp_stores c' = cp_stores c \<and> cp_incomplete c' = cp_incomplete c"

lemma same_base_simps [simp]:
  "same_base c c" "same_base c (warn w c') \<longleftrightarrow> same_base c c'" "same_base c (c'\<lparr>cp_seen := xs\<rparr>) \<longleftrightarrow> same_base c c'"
  "same_base c (c'\<lparr>cp_dests := ds\<rparr>) \<longleftrightarrow> same_base c c'"
  by (simp_all add: same_base_def warn_def)

lemma load_resolved_frame: "same_base c (snd (load_resolved H ident name src dest public resolved info c))"
  by (simp add: load_resolved_def split: prod.split option.split)

lemma load_resolved_base: "same_base c c' \<Longrightarrow> same_base c (snd (load_resolved H ident name src dest public resolved info c'))"
  using load_resolved_frame [of c' H ident name src dest public resolved info] by (simp add: same_base_def)

lemma load_base: "same_base c (snd (load H ident key src dest0 public c))"
  unfolding load_def Let_def by (simp add: load_resolved_base split: sum.split prod.split)

lemma load_frame: "load H ident key src dest0 public c = (r, c') \<Longrightarrow> same_base c c'"
  using load_base [of c H ident key src dest0 public] by simp

function follow_refs ::
  "(string \<Rightarrow> string) \<Rightarrow> key_parser \<Rightarrow> host \<Rightarrow> (string list \<Rightarrow> nat) \<Rightarrow> gitConfigCopier \<Rightarrow> gitConfigCopier" where
  "follow_refs ul parse_key H ident c =
     (case cp_refs c of
        [] \<Rightarrow> c
      | r # rs \<Rightarrow> follow_refs ul parse_key H ident (follow_ref ul parse_key H ident r (c\<lparr>cp_refs := rs\<rparr>)))"
  by pat_completeness auto
termination
proof (relation "measures [\<lambda>(_, _, _, _, c). maxConfigFiles + 1 - cp_count c, \<lambda>(_, _, _, _, c). length (cp_refs c)]")
  fix ul parse_key H ident and c :: gitConfigCopier and r rs assume c: "cp_refs c = r # rs"
  let ?c = "c\<lparr>cp_refs := rs\<rparr>" and ?c' = "follow_ref ul parse_key H ident r (c\<lparr>cp_refs := rs\<rparr>)"
  have config: "cp_count (copy_config ul H ident key src dest ?c) = cp_count c \<and> cp_refs (copy_config ul H ident key src dest ?c) = rs \<or>
      cp_count c \<le> maxConfigFiles \<and> cp_count (copy_config ul H ident key src dest ?c) = cp_count c + 1" for key src dest
    using load_base [of ?c H ident key src dest False]
    by (auto simp: copy_config_def warn_def same_base_def split: prod.split option.split)
  have copied: "cp_count (copy_file parse_key H ident key src dest pub ?c) = cp_count c \<and> cp_refs (copy_file parse_key H ident key src dest pub ?c) = rs" for key src dest pub
    using load_base [of ?c H ident key src dest "pub \<noteq> None"]
    by (auto simp: copy_file_def warn_def same_base_def split: prod.split option.split)
  have "cp_count ?c' = cp_count c \<and> cp_refs ?c' = rs \<or> cp_count c \<le> maxConfigFiles \<and> cp_count ?c' = cp_count c + 1"
    using config copied by (cases r) (simp_all add: follow_ref_def)
  then show "((ul, parse_key, H, ident, ?c'), ul, parse_key, H, ident, c)
      \<in> measures [\<lambda>(_, _, _, _, c). maxConfigFiles + 1 - cp_count c, \<lambda>(_, _, _, _, c). length (cp_refs c)]"
    using c by auto
qed simp

declare follow_refs.simps [simp del]

definition new_copier :: "string \<Rightarrow> string \<Rightarrow> gitConfigCopier" where
  "new_copier home xdg =
     \<lparr>cp_home = home, cp_xdg = xdg, cp_warnings = [], cp_out = [], cp_refs = [], cp_seen = [], cp_dests = [], cp_dirs = [], cp_files = [],
      cp_stores = [], cp_incomplete = [], cp_count = 0\<rparr>"

definition with_stores :: "host \<Rightarrow> (string list \<Rightarrow> nat) \<Rightarrow> gitConfigCopier \<Rightarrow> gitConfigCopier" where
  "with_stores H ident c =
     c\<lparr>cp_stores := List.map_filter (\<lambda>p. case stat_info H ident p of Inr (i, _) \<Rightarrow> Some i | Inl _ \<Rightarrow> None)
        [PathJoin [cp_home c, ''.git-credentials''], PathJoin [cp_xdg c, ''git'', ''credentials''], PathJoin [cp_home c, ''.config'', ''git'', ''credentials'']]\<rparr>"

text \<open>\<open>gitConfigSnapshots\<close>: the snapshots and the warnings.\<close>

definition gitConfigSnapshots ::
  "(string \<Rightarrow> string) \<Rightarrow> key_parser \<Rightarrow> host \<Rightarrow> (string list \<Rightarrow> nat) \<Rightarrow> string \<Rightarrow> string \<Rightarrow> gitConfigCopier" where
  "gitConfigSnapshots ul parse_key H ident home xdg0 =
     (let xdg = (if xdg0 = [] then PathJoin [home, ''.config''] else xdg0);
          c1 = with_stores H ident (fold (protect_credentials H ident) gitCredentialDirs (new_copier home xdg));
          c2 = copy_config ul H ident [] (PathJoin [home, ''.gitconfig'']) (guestHome @ ''/.gitconfig'') c1;
          dir = PathJoin [xdg, ''git''];
          c3 = copy_config ul H ident [] (PathJoin [dir, ''config'']) (guestHome @ ''/.config/git/config'') c2;
          c4 = copy_file parse_key H ident [] (PathJoin [dir, ''ignore'']) (guestHome @ ''/.config/git/ignore'') None c3;
          c5 = copy_file parse_key H ident [] (PathJoin [dir, ''attributes'']) (guestHome @ ''/.config/git/attributes'') None c4
      in follow_refs ul parse_key H ident c5)"

end
