(* ===== verification/GitCopyProps.thy ===== *)
theory GitCopyProps
  imports GitCopy GitScan
begin

text \<open>
  What reaches the guest with the copied Git configuration: every file in a credentials directory is recorded
  by its identity or nothing unchecked is copied at all, and every copy passed the checks.
\<close>

section \<open>Recorded credentials\<close>

lemma walk_list_visits:
  assumes "way H (P @ x)" and "plain (P @ x)" and "length (path_of (P @ x)) < pathMax" and "length x < n"
    and "node_at H P = Some d" and "node_at H (P @ x) = Some nd"
  shows "(path_of (P @ x), Inr nd) \<in> set (walk_list H n (path_of P) d)"
  using assms
proof (induction x arbitrary: P n d)
  case Nil
  then show ?case by (cases n) auto
next
  case (Cons e x)
  then obtain m where n: "n = Suc m" by (cases n) auto
  obtain w where d: "d = Folder True w" using way_folder [of H P e x] Cons.prems by auto
  have len: "length (path_of P) < pathMax" using length_path_of_append [of P "e # x"] Cons.prems(3) by simp
  have we: "way H ((P @ [e]) @ x)" using Cons.prems(1) by simp
  obtain es where es: "read_dir H (path_of P) = Inr es" "(e, the (node_at H (P @ [e]))) \<in> set es"
    using read_dir_way [OF way_append [OF we] _ len refl] Cons.prems(2) by auto
  obtain k where k: "node_at H (P @ [e]) = Some k" using way_node [OF way_append [OF we]] by blast
  have j: "PathJoin [path_of P, e] = path_of (P @ [e])" using Cons.prems(2) by (intro PathJoin_elem) auto
  have "(path_of ((P @ [e]) @ x), Inr nd) \<in> set (walk_list H m (path_of (P @ [e])) k)"
    using Cons.prems n k by (intro Cons.IH) auto
  moreover have "(e, k) \<in> set es" using es(2) k by simp
  ultimately show ?case using d es(1) j unfolding n walk_list.simps by (auto intro!: bexI [of _ "(e, k)"])
qed

lemma walk_all_visits:
  assumes "way H q" and "plain q" and "length (path_of q) < pathMax" and "prefix P q" and "node_at H P = Some d" and "node_at H q = Some nd"
  shows "(path_of q, Inr nd) \<in> set (walk_all H (path_of P) d)"
proof -
  obtain x where x: "q = P @ x" using assms(4) by (auto simp: prefix_def)
  have "length x < pathMax + 1" using length_path_elems [of q] assms(3) x by simp
  then show ?thesis using walk_list_visits [of H P x "pathMax + 1" d nd] assms x by (simp add: walk_all_def)
qed

lemma stat_info_way:
  "way H q \<Longrightarrow> plain q \<Longrightarrow> length (path_of q) < pathMax \<Longrightarrow> node_at H q = Some n \<Longrightarrow> \<not> is_link n \<Longrightarrow> stat_info H ident (path_of q) = Inr (ident q, n)"
  by (simp add: stat_info_def info_of_def resolve_way)

text \<open>The fields visits may change, and that a walk that is not cut short records every regular file.\<close>

definition records :: "gitConfigCopier \<Rightarrow> gitConfigCopier \<Rightarrow> bool" where
  "records c c' \<longleftrightarrow>
     cp_home c' = cp_home c \<and> cp_xdg c' = cp_xdg c \<and> cp_out c' = cp_out c \<and> cp_refs c' = cp_refs c \<and> cp_seen c' = cp_seen c \<and> cp_dests c' = cp_dests c \<and>
     cp_count c' = cp_count c \<and> set (cp_dirs c) \<subseteq> set (cp_dirs c') \<and> set (cp_files c) \<subseteq> set (cp_files c') \<and>
     (cp_incomplete c \<noteq> [] \<longrightarrow> cp_incomplete c' \<noteq> [])"

lemma records_refl [simp]: "records c c"
  by (simp add: records_def)

lemma records_trans: "records a b \<Longrightarrow> records b c \<Longrightarrow> records a c"
  by (auto simp: records_def)

lemma protect_visit_records:
  assumes "protect_visit H ident name v (queue, c) = (queue', c')"
  shows "records c c' \<and> cp_dirs c' = cp_dirs c \<and> cp_incomplete c' = cp_incomplete c"
  using assms by (auto simp: protect_visit_def records_def split: if_split_asm sum.split_asm prod.split_asm)

lemma protect_visits_records:
  "protect_visits H ident name entries vs (queue, c) = (entries', queue', c') \<Longrightarrow> name \<noteq> [] \<Longrightarrow>
   records c c' \<and> cp_dirs c' = cp_dirs c \<and>
   (cp_incomplete c' = [] \<longrightarrow> (\<forall>p d i n. (p, Inr d) \<in> set vs \<longrightarrow> \<not> is_folder d \<longrightarrow> stat_info H ident p = Inr (i, n) \<longrightarrow> is_regular n \<longrightarrow> i \<in> snd ` set (cp_files c')))"
proof (induction vs arbitrary: entries queue c)
  case (Cons v vs)
  show ?case
  proof (cases "entries + 1 > maxProtectedEntries")
    case True
    with Cons.prems have "c' = c\<lparr>cp_incomplete := name\<rparr>" by simp
    with Cons.prems(2) show ?thesis by (simp add: records_def)
  next
    case False
    obtain q1 c1 where v: "protect_visit H ident name v (queue, c) = (q1, c1)" by fastforce
    with Cons.prems(1) False have "protect_visits H ident name (entries + 1) vs (q1, c1) = (entries', queue', c')" by simp
    note ih = Cons.IH [OF this Cons.prems(2)] and r = protect_visit_records [OF v]
    have "i \<in> snd ` set (cp_files c')"
      if "v = (p, Inr d)" "\<not> is_folder d" "stat_info H ident p = Inr (i, n)" "is_regular n" for p d i n
    proof -
      have "\<not> is_folder n" using that(4) by (cases n) auto
      then have "(name, i) \<in> set (cp_files c1)" using v that by (auto simp: protect_visit_def)
      then show ?thesis using ih by (force simp: records_def)
    qed
    then show ?thesis using ih r records_trans [of c c1 c'] by auto
  qed
qed simp

text \<open>
  A recorded directory has all its regular files recorded, and the regular files its links point to, unless
  the walk was cut short.
\<close>

definition walked :: "host \<Rightarrow> (string list \<Rightarrow> nat) \<Rightarrow> gitConfigCopier \<Rightarrow> string list \<Rightarrow> bool" where
  "walked H ident c C \<longleftrightarrow>
     (\<forall>q d i n. prefix C q \<longrightarrow> way H q \<longrightarrow> plain q \<longrightarrow> length (path_of q) < pathMax \<longrightarrow> node_at H q = Some d \<longrightarrow> \<not> is_folder d \<longrightarrow>
        stat_info H ident (path_of q) = Inr (i, n) \<longrightarrow> is_regular n \<longrightarrow> i \<in> snd ` set (cp_files c))"

definition dirs_walked :: "host \<Rightarrow> (string list \<Rightarrow> nat) \<Rightarrow> gitConfigCopier \<Rightarrow> bool" where
  "dirs_walked H ident c \<longleftrightarrow>
     cp_incomplete c = [] \<longrightarrow> (\<forall>i \<in> snd ` set (cp_dirs c). \<exists>C n. ident C = i \<and> node_at H C = Some n \<and> is_folder n \<and> walked H ident c C)"

lemma walked_mono: "walked H ident c C \<Longrightarrow> set (cp_files c) \<subseteq> set (cp_files c') \<Longrightarrow> walked H ident c' C"
  unfolding walked_def by (meson image_mono subsetD)

lemma resolved_root:
  assumes "EvalSymlinks H q = Inr root" and "IsAbs q" and "stat_info H ident root = Inr (i, n)" and "is_folder n"
  obtains C where "root = path_of C" and "plain C" and "way H C" and "node_at H C = Some n" and "ident C = i"
proof -
  obtain C where C: "root = path_of C" "real_path H C" using EvalSymlinks_real [OF assms(1,2)] by blast
  then obtain k where k: "node_at H C = Some k" "\<not> is_link k" "way H C" "plain C" by (auto simp: real_path_def is_link_iff dest: way_node)
  have "length (path_of C) < pathMax"
  proof (rule ccontr)
    assume "\<not> length (path_of C) < pathMax"
    then have "resolve_path H True root = Inl ENAMETOOLONG" using C(1) by (simp add: resolve_path_def)
    with assms(3) show False by (simp add: stat_info_def info_of_def)
  qed
  from stat_info_way [OF k(3,4) this k(1,2), of ident] assms(3) C(1) k that show thesis by auto
qed

lemma PathJoin_IsAbs: "IsAbs path \<Longrightarrow> IsAbs (PathJoin [path, e])"
  by (cases path; cases e) (auto simp: PathJoin_def IsAbs_Cons intro!: Clean_abs [unfolded IsAbs_Cons])

lemma walk_list_abs: "(p, v) \<in> set (walk_list H n path d) \<Longrightarrow> IsAbs path \<Longrightarrow> IsAbs p"
proof (induction n arbitrary: path d)
  case (Suc n)
  then show ?case using PathJoin_IsAbs by (fastforce split: if_split_asm sum.split_asm)
qed simp

lemma protect_visits_queue:
  "protect_visits H ident name entries vs (queue, c) = (entries', queue', c') \<Longrightarrow> set queue \<subseteq> set queue' \<and> set queue' \<subseteq> set queue \<union> fst ` set vs"
proof (induction vs arbitrary: entries queue c)
  case (Cons v vs)
  obtain q1 c1 where v: "protect_visit H ident name v (queue, c) = (q1, c1)" by fastforce
  then have "set queue \<subseteq> set q1 \<and> set q1 \<subseteq> set queue \<union> {fst v}"
    by (auto simp: protect_visit_def split: if_split_asm sum.split_asm prod.split_asm)
  then show ?case using Cons.prems Cons.IH [of "entries + 1" q1 c1] v by (auto split: if_split_asm)
qed simp

lemma visits_dirs_walked:
  assumes "protect_visits H ident name entries (walk_all H root n) (qs, c\<lparr>cp_dirs := cp_dirs c @ [(name, i)]\<rparr>) = (entries', queue', c')"
    and "name \<noteq> []" and "root = path_of C" and "plain C" and "way H C" and "node_at H C = Some n" and "ident C = i" and "is_folder n"
    and "dirs_walked H ident c"
  shows "dirs_walked H ident c'"
  unfolding dirs_walked_def
proof (intro impI ballI)
  fix j assume ok: "cp_incomplete c' = []" and j: "j \<in> snd ` set (cp_dirs c')"
  note r = protect_visits_records [OF assms(1,2)]
  have files: "set (cp_files c) \<subseteq> set (cp_files c')" and "cp_incomplete c = []" using r ok by (auto simp: records_def)
  show "\<exists>C n. ident C = j \<and> node_at H C = Some n \<and> is_folder n \<and> walked H ident c' C"
  proof (cases "j = i")
    case True
    have "walked H ident c' C"
      unfolding walked_def using r ok walk_all_visits [of H _ C n] assms(3,6) by blast
    with True assms(6-8) show ?thesis by blast
  next
    case False
    with r j have "j \<in> snd ` set (cp_dirs c)" by auto
    then show ?thesis using assms(9) \<open>cp_incomplete c = []\<close> walked_mono [OF _ files] unfolding dirs_walked_def by blast
  qed
qed

text \<open>The directory a path leads to, if it is one, is recorded.\<close>

definition dir_recorded :: "host \<Rightarrow> (string list \<Rightarrow> nat) \<Rightarrow> gitConfigCopier \<Rightarrow> string \<Rightarrow> bool" where
  "dir_recorded H ident c q \<longleftrightarrow>
     (\<forall>root i n. EvalSymlinks H q = Inr root \<longrightarrow> stat_info H ident root = Inr (i, n) \<longrightarrow> is_folder n \<longrightarrow> cp_incomplete c = [] \<longrightarrow>
        i \<in> snd ` set (cp_dirs c))"

lemma dir_recorded_mono: "dir_recorded H ident c q \<Longrightarrow> records c c' \<Longrightarrow> dir_recorded H ident c' q"
  unfolding dir_recorded_def records_def by (meson image_mono subsetD)

definition loop_ok :: "host \<Rightarrow> (string list \<Rightarrow> nat) \<Rightarrow> string list \<Rightarrow> gitConfigCopier \<Rightarrow> gitConfigCopier \<Rightarrow> bool" where
  "loop_ok H ident queue c c' \<longleftrightarrow> records c c' \<and> dirs_walked H ident c' \<and> (\<forall>q \<in> set queue. dir_recorded H ident c' q)"

lemma loop_ok_Cons:
  "loop_ok H ident qs c c' \<Longrightarrow> dir_recorded H ident c q \<Longrightarrow> loop_ok H ident (q # qs) c c'"
  by (auto simp: loop_ok_def intro: dir_recorded_mono)

lemma loop_ok_trans:
  "records c c1 \<Longrightarrow> loop_ok H ident queue' c1 c' \<Longrightarrow> set qs \<subseteq> set queue' \<Longrightarrow> dir_recorded H ident c1 q \<Longrightarrow> loop_ok H ident (q # qs) c c'"
  by (auto simp: loop_ok_def intro: records_trans dir_recorded_mono)

lemma protect_loop_records:
  assumes "name \<noteq> []" and "\<forall>q \<in> set queue. IsAbs q" and "dirs_walked H ident c"
  shows "loop_ok H ident queue c (protect_loop H ident name entries queue c)"
  using assms
proof (induction H ident name entries queue c rule: protect_loop.induct)
  case (1 H ident name entries queue c)
  consider (none_left) "queue = []"
    | (full) q qs where "queue = q # qs" "entries \<ge> maxProtectedEntries"
    | (next_root) q qs where "queue = q # qs" "\<not> entries \<ge> maxProtectedEntries"
    by (cases queue) auto
  then show ?case
  proof cases
    case none_left
    with "1.prems" show ?thesis by (simp add: protect_loop.simps loop_ok_def)
  next
    case full
    with "1.prems"(1) show ?thesis by (simp add: protect_loop.simps loop_ok_def records_def dirs_walked_def dir_recorded_def)
  next
    case next_root
    show ?thesis
    proof (cases "rbind (EvalSymlinks H q) (\<lambda>root. rbind (stat_info H ident root) (\<lambda>info. Inr (root, info)))")
      case (Inl e)
      have "protect_loop H ident name entries queue c = protect_loop H ident name entries qs c"
        using next_root Inl by (subst protect_loop.simps) simp
      moreover have "dir_recorded H ident c q" using Inl by (auto simp: dir_recorded_def)
      ultimately show ?thesis using "1.IH"(1) [OF next_root Inl] "1.prems" next_root loop_ok_Cons by simp
    next
      case (Inr x)
      obtain root i n where x: "x = (root, i, n)" by (cases x) auto
      then have root: "EvalSymlinks H q = Inr root" "stat_info H ident root = Inr (i, n)" using Inr by (auto simp: rbind_eq_Inr)
      show ?thesis
      proof (cases "\<not> is_folder n \<or> i \<in> snd ` set (cp_dirs c)")
        case True
        have "protect_loop H ident name entries queue c = protect_loop H ident name entries qs c"
          using next_root Inr x True by (subst protect_loop.simps) simp
        moreover have "dir_recorded H ident c q" using root True by (auto simp: dir_recorded_def)
        ultimately show ?thesis using "1.IH"(2) [OF next_root Inr x [symmetric] refl True] "1.prems" next_root loop_ok_Cons by simp
      next
        case False
        obtain entries' queue' c' where v: "protect_visits H ident name entries (walk_all H root n) (qs, c\<lparr>cp_dirs := cp_dirs c @ [(name, i)]\<rparr>) = (entries', queue', c')"
          by (cases "protect_visits H ident name entries (walk_all H root n) (qs, c\<lparr>cp_dirs := cp_dirs c @ [(name, i)]\<rparr>)")
        have eq: "protect_loop H ident name entries queue c = protect_loop H ident name entries' queue' c'"
          using next_root False Inr x v by (subst protect_loop.simps) simp
        obtain C where C: "root = path_of C" "plain C" "way H C" "node_at H C = Some n" "ident C = i"
          using resolved_root [OF root(1) _ root(2)] False "1.prems"(2) next_root by auto
        have q': "\<forall>q \<in> set queue'. IsAbs q"
        proof
          fix q' assume "q' \<in> set queue'"
          then have "q' \<in> set qs \<or> q' \<in> fst ` set (walk_all H root n)" using protect_visits_queue [OF v] by blast
          then show "IsAbs q'" using walk_list_abs [of q' _ H "pathMax + 1" root n] "1.prems"(2) next_root C(1) unfolding walk_all_def by force
        qed
        have r: "records c c'" "dir_recorded H ident c' q"
          using protect_visits_records [OF v "1.prems"(1)] root by (auto simp: records_def dir_recorded_def)
        have "loop_ok H ident queue' c' (protect_loop H ident name entries' queue' c')"
          using "1.IH"(3) [OF next_root Inr x [symmetric] refl False v [symmetric] refl "1.prems"(1) q'] visits_dirs_walked [OF v "1.prems"(1) C] False "1.prems"(3) by simp
        then show ?thesis using loop_ok_trans [OF r(1) _ _ r(2)] protect_visits_queue [OF v] eq next_root(1) by simp
      qed
    qed
  qed
qed

lemma loop_ok_append: "loop_ok H ident qs c c1 \<Longrightarrow> loop_ok H ident rs c1 c2 \<Longrightarrow> loop_ok H ident (qs @ rs) c c2"
  by (auto simp: loop_ok_def intro: records_trans dir_recorded_mono)

lemma protect_all:
  "list_all (\<lambda>n. n \<noteq> []) names \<Longrightarrow> IsAbs (cp_home c) \<Longrightarrow> dirs_walked H ident c \<Longrightarrow>
   loop_ok H ident (map (\<lambda>n. PathJoin [cp_home c, n]) names) c (fold (protect_credentials H ident) names c)"
proof (induction names arbitrary: c)
  case Nil
  then show ?case by (simp add: loop_ok_def)
next
  case (Cons n ns)
  let ?c = "protect_credentials H ident n c"
  have l: "loop_ok H ident [PathJoin [cp_home c, n]] c ?c"
    using Cons.prems PathJoin_IsAbs unfolding protect_credentials_def by (intro protect_loop_records) auto
  then have "cp_home ?c = cp_home c" "dirs_walked H ident ?c" by (auto simp: loop_ok_def records_def)
  with Cons.IH [of ?c] Cons.prems loop_ok_append [OF l] show ?case by simp
qed

section \<open>Files in credentials directories\<close>

lemma dirs_above_prefix: "plain (C @ x) \<Longrightarrow> length x < n \<Longrightarrow> path_of C \<in> set (dirs_above n (path_of (C @ x)))"
proof (induction x arbitrary: n rule: rev_induct)
  case Nil
  then show ?case by (cases n) auto
next
  case (snoc e x)
  then obtain m where n: "n = Suc m" by (cases n) auto
  have d: "PathDir (path_of (C @ x @ [e])) = path_of (C @ x)" using PathDir_path_of [of "C @ x @ [e]"] snoc.prems by (simp add: butlast_append)
  have "path_of (C @ x) \<noteq> path_of (C @ x @ [e])" using path_of_inj [of "C @ x" "C @ x @ [e]"] snoc.prems by simp
  then show ?case using snoc n d by simp
qed

lemma in_credential_dir_finds:
  assumes "plain r" and "strict_prefix C r" and "stat_info H ident (path_of C) = Inr (i, n)" and "i \<in> snd ` set (cp_dirs c)"
  shows "in_credential_dir H ident c (path_of r) \<noteq> None"
proof -
  obtain z zs where "r = C @ z # zs" using assms(2) by (rule strict_prefixE')
  then obtain x where x: "butlast r = C @ x" by (auto simp: butlast_append)
  have "length x < length (path_of r) + 1" using length_path_elems [of r] arg_cong [OF x, of length] unfolding length_butlast length_append by linarith
  then have "path_of C \<in> set (dirs_above (length (path_of r) + 1) (PathDir (path_of r)))"
    unfolding PathDir_path_of [OF assms(1)] x using plain_butlast [OF assms(1)] x by (intro dirs_above_prefix) simp_all
  moreover define ds P where "ds = dirs_above (length (path_of r) + 1) (PathDir (path_of r))"
    and "P = (\<lambda>d. case stat_info H ident d of Inr (i, _) \<Rightarrow> i \<in> snd ` set (cp_dirs c) | Inl _ \<Rightarrow> False)"
  ultimately have "path_of C \<in> set ds" "P (path_of C)" using assms(3,4) by auto
  then obtain d where d: "List.find P ds = Some d" by (cases "List.find P ds") (auto simp: find_None_iff)
  then have "P d" by (auto simp: find_Some_iff)
  then obtain j k where j: "stat_info H ident d = Inr (j, k)" "j \<in> snd ` set (cp_dirs c)" by (auto simp: P_def split: sum.split_asm)
  then have "List.find (\<lambda>(_, j'). j' = j) (cp_dirs c) \<noteq> None" by (auto simp: find_None_iff)
  with d j(1) show ?thesis unfolding in_credential_dir_def P_def [symmetric] ds_def [symmetric] by auto
qed

lemma credential_cong:
  assumes "cp_dirs c' = cp_dirs c" and "cp_files c' = cp_files c" and "cp_stores c' = cp_stores c" and "cp_incomplete c' = cp_incomplete c"
  shows "credential H ident c' src resolved info = credential H ident c src resolved info"
  unfolding credential_def in_credential_dir_def assms ..

lemma credential_clear:
  assumes "fst (credential H ident c src resolved info) = []"
  shows "fst info \<notin> set (cp_stores c) \<and> fst info \<notin> snd ` set (cp_files c) \<and> in_credential_dir H ident c resolved = None \<and> cp_incomplete c = []"
  using assms by (auto simp: credential_def find_None_iff split: if_split_asm option.split_asm)

lemma credential_store: "snd (credential H ident c src resolved info) \<longleftrightarrow> fst info \<in> set (cp_stores c)"
  by (auto simp: credential_def split: option.split)

section \<open>Copied files\<close>

lemma within_abs: "within p b \<Longrightarrow> IsAbs b \<Longrightarrow> IsAbs p"
  using Rel_relative [of b p] by (cases "IsAbs p") (auto simp: within_def)

lemma readSame_node:
  assumes "readSame H ident (path_of r) info = Some data" and "real_path H r" and "length (path_of r) < pathMax"
  shows "\<exists>rd. node_at H r = Some (Regular rd data) \<and> length data \<le> maxConfigSize"
proof -
  have "resolve_path H False (path_of r) = Inr r" using assms(2,3) by (intro resolve_way) (auto simp: real_path_def)
  then show ?thesis using assms(1)
    by (auto simp: readSame_def open_node_def node_of_def split: sum.split_asm prod.split_asm node.split_asm if_split_asm option.split_asm)
qed

text \<open>What a successful load has checked.\<close>

lemma load_checked:
  assumes "load H ident key src dest0 public c = (Some (dest, data), c')" and "IsAbs (cp_home c)" and "IsAbs (cp_xdg c)"
  obtains r rd where "EvalSymlinks H src = Inr (path_of r)" and "real_path H r" and "node_at H r = Some (Regular rd data)"
    and "length data \<le> maxConfigSize" and "ident r \<notin> set (cp_stores c)"
    and "public \<or> fst (credential H ident c src (path_of r) (ident r, Regular rd data)) = []"
    and "dest = guestHome \<or> HasPrefix dest (guestHome @ ''/'')" and "dest \<notin> fst ` set (cp_dests c)"
    and "fst ` set (cp_dests c') = insert dest (fst ` set (cp_dests c))"
proof -
  let ?c = "c\<lparr>cp_seen := (src, dest0) # cp_seen c\<rparr>"
  obtain name resolved info where src: "within src (cp_home c) \<or> within src (cp_xdg c)" and dest: "dest = guestHome \<or> HasPrefix dest (guestHome @ ''/'')"
    and res: "EvalSymlinks H src = Inr resolved" "lstat_info H ident resolved = Inr info"
    and l: "load_resolved H ident name src dest public resolved info ?c = (Some (dest, data), c')"
    using assms(1) by (auto simp: load_def Let_def load_resolved_def rbind_eq_Inr split: if_split_asm sum.split_asm prod.split_asm option.split_asm)
  obtain r where r: "resolved = path_of r" "real_path H r" using EvalSymlinks_real [OF res(1)] within_abs src assms(2,3) by blast
  have len: "length (path_of r) < pathMax"
    using res(2) r(1) by (auto simp: lstat_info_def info_of_def resolve_path_def rbind_eq_Inr split: if_split_asm)
  have "resolve_path H False (path_of r) = Inr r" using r(2) len by (intro resolve_way) (auto simp: real_path_def)
  then have info: "node_at H r = Some (snd info)" "fst info = ident r" using res(2) r(1) by (auto simp: lstat_info_def info_of_def split: option.split_asm)
  obtain wh store where cr: "credential H ident ?c src resolved info = (wh, store)" by fastforce
  with l have ok: "wh = [] \<or> \<not> store \<and> public" and "map_of (cp_dests c) dest = None" and data: "readSame H ident resolved info = Some data"
    and c': "cp_dests c' = (dest, src, info) # cp_dests c"
    by (auto simp: load_resolved_def split: if_split_asm option.split_asm prod.split_asm)
  then have fresh: "dest \<notin> fst ` set (cp_dests c)" by (simp add: map_of_eq_None_iff)
  obtain rd where rd: "node_at H r = Some (Regular rd data)" "length data \<le> maxConfigSize" using readSame_node data r len by blast
  have same: "credential H ident ?c src resolved info = credential H ident c src resolved info"
    by (rule credential_cong) simp_all
  have "ident r \<notin> set (cp_stores c)"
    using ok cr credential_store [of H ident c src resolved info] credential_clear [of H ident c src resolved info] info(2) unfolding same by auto
  moreover have "info = (ident r, Regular rd data)" using info rd(1) by (cases info) auto
  moreover have "public \<or> fst (credential H ident c src resolved info) = []" using ok cr unfolding same by auto
  ultimately show thesis using that [OF _ r(2) rd] res(1) r(1) dest fresh c' by simp
qed

lemma load_dests: "load H ident key src dest0 public c = (res, c') \<Longrightarrow> fst ` set (cp_dests c) \<subseteq> fst ` set (cp_dests c')"
  by (auto simp: load_def Let_def load_resolved_def warn_def split: if_split_asm sum.split_asm prod.split_asm option.split_asm)

text \<open>A copy: the file its host path leads to, small, not a credential store, and clear of the credentials unless only its public part is copied.\<close>

definition copied ::
  "(string \<Rightarrow> string) \<Rightarrow> key_parser \<Rightarrow> host \<Rightarrow> (string list \<Rightarrow> nat) \<Rightarrow> gitConfigCopier \<Rightarrow> snapshot \<Rightarrow> bool" where
  "copied ul parse_key H ident c s \<longleftrightarrow>
     (\<exists>r rd data. EvalSymlinks H (sn_Host s) = Inr (path_of r) \<and> real_path H r \<and> node_at H r = Some (Regular rd data) \<and>
        length data \<le> maxConfigSize \<and> ident r \<notin> set (cp_stores c) \<and>
        ((\<exists>k. parse_public parse_key k data = Some (sn_data s)) \<or>
         fst (credential H ident c (sn_Host s) (path_of r) (ident r, Regular rd data)) = [] \<and>
         sn_data s \<in> {data, rewriteGitConfig ul data (cp_home c)}))"

definition same_credentials :: "gitConfigCopier \<Rightarrow> gitConfigCopier \<Rightarrow> bool" where
  "same_credentials c c' \<longleftrightarrow>
     cp_home c' = cp_home c \<and> cp_xdg c' = cp_xdg c \<and> cp_dirs c' = cp_dirs c \<and> cp_files c' = cp_files c \<and> cp_stores c' = cp_stores c \<and> cp_incomplete c' = cp_incomplete c"

definition copies :: "(string \<Rightarrow> string) \<Rightarrow> key_parser \<Rightarrow> host \<Rightarrow> (string list \<Rightarrow> nat) \<Rightarrow> gitConfigCopier \<Rightarrow> gitConfigCopier \<Rightarrow> bool" where
  "copies ul parse_key H ident c0 c \<longleftrightarrow>
     same_credentials c0 c \<and> distinct (map sn_Container (cp_out c)) \<and> sn_Container ` set (cp_out c) \<subseteq> fst ` set (cp_dests c) \<and>
     (\<forall>s \<in> set (cp_out c). copied ul parse_key H ident c0 s \<and> (sn_Container s = guestHome \<or> HasPrefix (sn_Container s) (guestHome @ ''/'')))"

lemma same_credentials_credential:
  "same_credentials c0 c \<Longrightarrow> credential H ident c src resolved info = credential H ident c0 src resolved info"
  by (intro credential_cong) (simp_all add: same_credentials_def)

lemma copies_fields [simp]:
  "copies ul parse_key H ident c0 (c\<lparr>cp_refs := rs\<rparr>) = copies ul parse_key H ident c0 c"
  "copies ul parse_key H ident c0 (c\<lparr>cp_count := k\<rparr>) = copies ul parse_key H ident c0 c"
  "copies ul parse_key H ident c0 (warn w c) = copies ul parse_key H ident c0 c"
  "copies ul parse_key H ident c0 (c\<lparr>cp_count := k, cp_out := out\<rparr>) = copies ul parse_key H ident c0 (c\<lparr>cp_out := out\<rparr>)"
  by (simp_all add: copies_def same_credentials_def warn_def)

lemma load_copies:
  assumes "copies ul parse_key H ident c0 c" and "load H ident key src dest0 public c = (res, c')"
  shows "copies ul parse_key H ident c0 c'"
  using assms load_frame [OF assms(2)] load_dests [OF assms(2)] unfolding copies_def same_credentials_def same_base_def by simp blast

lemma load_out:
  assumes "copies ul parse_key H ident c0 c" and "load H ident key src dest0 public c = (Some (dest, data), c')"
    and "IsAbs (cp_home c0)" and "IsAbs (cp_xdg c0)"
    and "(\<exists>k. parse_public parse_key k data = Some d) \<or> \<not> public \<and> d \<in> {data, rewriteGitConfig ul data (cp_home c0)}"
  shows "copies ul parse_key H ident c0 (c'\<lparr>cp_out := cp_out c' @ [\<lparr>sn_Host = src, sn_Container = dest, sn_data = d\<rparr>]\<rparr>)"
proof -
  have same: "same_credentials c0 c" using assms(1) by (simp add: copies_def)
  then have home: "cp_home c = cp_home c0" "cp_xdg c = cp_xdg c0" "cp_stores c = cp_stores c0" by (auto simp: same_credentials_def)
  obtain r rd where r: "EvalSymlinks H src = Inr (path_of r)" "real_path H r" "node_at H r = Some (Regular rd data)"
    "length data \<le> maxConfigSize" "ident r \<notin> set (cp_stores c)"
    "public \<or> fst (credential H ident c src (path_of r) (ident r, Regular rd data)) = []"
    and dest: "dest = guestHome \<or> HasPrefix dest (guestHome @ ''/'')" "dest \<notin> fst ` set (cp_dests c)"
    and dests: "fst ` set (cp_dests c') = insert dest (fst ` set (cp_dests c))"
    using load_checked [OF assms(2)] assms(3,4) home by auto
  have "copied ul parse_key H ident c0 \<lparr>sn_Host = src, sn_Container = dest, sn_data = d\<rparr>"
    using r assms(5) home same_credentials_credential [OF same] unfolding copied_def by (intro exI [of _ r] exI [of _ rd] exI [of _ data]) auto
  then show ?thesis
    using assms(1) load_copies [OF assms(1,2)] load_frame [OF assms(2)] dest dests unfolding copies_def same_base_def
    by (auto simp: same_credentials_def)
qed

lemma copy_config_copies:
  assumes "copies ul parse_key H ident c0 c" and "IsAbs (cp_home c0)" and "IsAbs (cp_xdg c0)"
  shows "copies ul parse_key H ident c0 (copy_config ul H ident key src dest0 c)"
proof (cases "(src, dest0) \<in> set (cp_seen c) \<or> cp_count c \<ge> maxConfigFiles")
  case True
  then show ?thesis using assms(1) by (auto simp: copy_config_def)
next
  case False
  obtain res c1 where l: "load H ident key src dest0 False c = (res, c1)" by fastforce
  have home: "cp_home c1 = cp_home c0" using load_copies [OF assms(1) l] by (simp add: copies_def same_credentials_def)
  show ?thesis
  proof (cases res)
    case None
    then show ?thesis using False l load_copies [OF assms(1) l] by (simp add: copy_config_def)
  next
    case (Some x)
    obtain dest data where x: "x = (dest, data)" by fastforce
    show ?thesis
      using False l Some x home load_out [OF assms(1) l [unfolded Some x] assms(2,3), of "rewriteGitConfig ul data (cp_home c0)"]
      by (simp add: copy_config_def)
  qed
qed

lemma copy_file_copies:
  assumes "copies ul parse_key H ident c0 c" and "IsAbs (cp_home c0)" and "IsAbs (cp_xdg c0)"
  shows "copies ul parse_key H ident c0 (copy_file parse_key H ident key src dest0 public c)"
proof -
  obtain res c1 where l: "load H ident key src dest0 (public \<noteq> None) c = (res, c1)" by fastforce
  show ?thesis
  proof (cases res)
    case None
    then show ?thesis using l load_copies [OF assms(1) l] by (simp add: copy_file_def)
  next
    case (Some x)
    obtain dest data where x: "x = (dest, data)" by fastforce
    show ?thesis
    proof (cases "case public of None \<Rightarrow> Some data | Some kind \<Rightarrow> parse_public parse_key kind data")
      case None
      then show ?thesis using l Some x load_copies [OF assms(1) l] by (simp add: copy_file_def)
    next
      case d: (Some d)
      then show ?thesis using l Some x load_out [OF assms(1) l [unfolded Some x] assms(2,3), of d]
        by (auto simp: copy_file_def split: option.split_asm)
    qed
  qed
qed

lemma follow_refs_copies:
  assumes "copies ul parse_key H ident c0 c" and "IsAbs (cp_home c0)" and "IsAbs (cp_xdg c0)"
  shows "copies ul parse_key H ident c0 (follow_refs ul parse_key H ident c)"
  using assms
proof (induction ul parse_key H ident c rule: follow_refs.induct)
  case (1 ul parse_key H ident c)
  show ?case
  proof (cases "cp_refs c")
    case Nil
    then show ?thesis using "1.prems" by (simp add: follow_refs.simps)
  next
    case (Cons r rs)
    have "copies ul parse_key H ident c0 (follow_ref ul parse_key H ident r (c\<lparr>cp_refs := rs\<rparr>))"
      using "1.prems" copy_config_copies copy_file_copies by (cases r) (simp_all add: follow_ref_def)
    then show ?thesis using "1.IH" [OF Cons _ "1.prems"(2,3)] Cons by (subst follow_refs.simps) simp
  qed
qed

section \<open>Property\<close>

definition credential_dir :: "host \<Rightarrow> string \<Rightarrow> string list \<Rightarrow> bool" where
  "credential_dir H home C \<longleftrightarrow>
     plain C \<and> length (path_of C) < pathMax \<and> (\<exists>n. node_at H C = Some n \<and> is_folder n) \<and>
     (\<exists>name \<in> set gitCredentialDirs. EvalSymlinks H (PathJoin [home, name]) = Inr (path_of C))"

text \<open>An entry below a directory is, or links to, the regular file with an identity.\<close>

definition holds_file :: "host \<Rightarrow> (string list \<Rightarrow> nat) \<Rightarrow> string list \<Rightarrow> nat \<Rightarrow> bool" where
  "holds_file H ident C i \<longleftrightarrow>
     (\<exists>q d n. prefix C q \<and> way H q \<and> plain q \<and> length (path_of q) < pathMax \<and> node_at H q = Some d \<and> \<not> is_folder d \<and>
        stat_info H ident (path_of q) = Inr (i, n) \<and> is_regular n)"

definition xdg_dir :: "string \<Rightarrow> string \<Rightarrow> string" where
  "xdg_dir home xdg = (if xdg = [] then PathJoin [home, ''.config''] else xdg)"

definition stores_of :: "string \<Rightarrow> string \<Rightarrow> string list" where
  "stores_of home xdg =
     [PathJoin [home, ''.git-credentials''], PathJoin [xdg_dir home xdg, ''git'', ''credentials''], PathJoin [home, ''.config'', ''git'', ''credentials'']]"

text \<open>The copier after the credentials are recorded.\<close>

definition recorded :: "host \<Rightarrow> (string list \<Rightarrow> nat) \<Rightarrow> string \<Rightarrow> string \<Rightarrow> gitConfigCopier" where
  "recorded H ident home xdg = with_stores H ident (fold (protect_credentials H ident) gitCredentialDirs (new_copier home (xdg_dir home xdg)))"

lemma in_map_filter: "p \<in> set ps \<Longrightarrow> f p = Some i \<Longrightarrow> i \<in> set (List.map_filter f ps)"
  by (force simp: map_filter_def)

lemma recorded_fields:
  assumes "IsAbs home"
  shows "cp_home (recorded H ident home xdg) = home" "cp_xdg (recorded H ident home xdg) = xdg_dir home xdg" "cp_out (recorded H ident home xdg) = []"
    "dirs_walked H ident (recorded H ident home xdg)" "\<forall>name \<in> set gitCredentialDirs. dir_recorded H ident (recorded H ident home xdg) (PathJoin [home, name])"
    "\<forall>p \<in> set (stores_of home xdg). \<forall>i n. stat_info H ident p = Inr (i, n) \<longrightarrow> i \<in> set (cp_stores (recorded H ident home xdg))"
proof -
  let ?new = "new_copier home (xdg_dir home xdg)" and ?c = "fold (protect_credentials H ident) gitCredentialDirs (new_copier home (xdg_dir home xdg))"
  have "loop_ok H ident (map (\<lambda>n. PathJoin [cp_home ?new, n]) gitCredentialDirs) ?new ?c"
    using assms by (intro protect_all) (auto simp: gitCredentialDirs_def new_copier_def dirs_walked_def)
  then have l: "records ?new ?c" "dirs_walked H ident ?c" "\<forall>name \<in> set gitCredentialDirs. dir_recorded H ident ?c (PathJoin [home, name])"
    by (auto simp: loop_ok_def new_copier_def)
  then have f: "cp_home ?c = home" "cp_xdg ?c = xdg_dir home xdg" "cp_out ?c = []" by (auto simp: records_def new_copier_def)
  then show "cp_home (recorded H ident home xdg) = home" "cp_xdg (recorded H ident home xdg) = xdg_dir home xdg" "cp_out (recorded H ident home xdg) = []"
    by (simp_all add: recorded_def with_stores_def)
  show "dirs_walked H ident (recorded H ident home xdg)" "\<forall>name \<in> set gitCredentialDirs. dir_recorded H ident (recorded H ident home xdg) (PathJoin [home, name])"
    using l(2,3) by (simp_all add: recorded_def with_stores_def dirs_walked_def walked_def dir_recorded_def)
  have "cp_stores (recorded H ident home xdg) = List.map_filter (\<lambda>p. case stat_info H ident p of Inr (i, _) \<Rightarrow> Some i | Inl _ \<Rightarrow> None) (stores_of home xdg)"
    unfolding recorded_def with_stores_def stores_of_def f by simp
  then show "\<forall>p \<in> set (stores_of home xdg). \<forall>i n. stat_info H ident p = Inr (i, n) \<longrightarrow> i \<in> set (cp_stores (recorded H ident home xdg))"
    by (auto intro!: in_map_filter)
qed

lemma gitConfigSnapshots_copies:
  assumes "IsAbs home" and "xdg = [] \<or> IsAbs xdg"
  shows "copies ul parse_key H ident (recorded H ident home xdg) (gitConfigSnapshots ul parse_key H ident home xdg)"
proof -
  note f = recorded_fields [OF assms(1), where H = H and ident = ident and xdg = xdg]
  have abs: "IsAbs (cp_home (recorded H ident home xdg))" "IsAbs (cp_xdg (recorded H ident home xdg))"
    using f assms PathJoin_IsAbs by (auto simp: xdg_dir_def)
  have "copies ul parse_key H ident (recorded H ident home xdg) (recorded H ident home xdg)"
    using f(3) by (simp add: copies_def same_credentials_def)
  then show ?thesis
    unfolding gitConfigSnapshots_def Let_def xdg_dir_def [symmetric] recorded_def [symmetric]
    by (intro follow_refs_copies copy_file_copies copy_config_copies abs)
qed

lemma clear_of_credentials:
  assumes "IsAbs home" and "real_path H r" and "node_at H r = Some (Regular rd data)"
    and "fst (credential H ident (recorded H ident home xdg) src (path_of r) (ident r, Regular rd data)) = []"
    and "\<forall>C C' n n'. node_at H C = Some n \<longrightarrow> is_folder n \<longrightarrow> node_at H C' = Some n' \<longrightarrow> is_folder n' \<longrightarrow> ident C = ident C' \<longrightarrow> C = C'"
    and "credential_dir H home C"
  shows "\<not> prefix C r \<and> \<not> holds_file H ident C (ident r)"
proof -
  let ?c = "recorded H ident home xdg"
  note clear = credential_clear [OF assms(4)] and f = recorded_fields [OF assms(1), where H = H and ident = ident and xdg = xdg]
  from assms(6) obtain name k where C: "plain C" "length (path_of C) < pathMax" "node_at H C = Some k" "is_folder k"
    and name: "name \<in> set gitCredentialDirs" "EvalSymlinks H (PathJoin [home, name]) = Inr (path_of C)" by (auto simp: credential_dir_def)
  have "IsAbs (PathJoin [home, name])" using assms(1) by (rule PathJoin_IsAbs)
  from EvalSymlinks_real [OF name(2) this] have w: "way H C" using path_of_inj [OF C(1)] by (auto simp: real_path_def)
  have st: "stat_info H ident (path_of C) = Inr (ident C, k)" using C w by (intro stat_info_way) (cases k; simp)+
  have d: "ident C \<in> snd ` set (cp_dirs ?c)" using f(5) name st C(4) clear unfolding dir_recorded_def by blast
  have "\<not> strict_prefix C r" using in_credential_dir_finds [of r C H ident "ident C" k ?c] assms(2) st d clear by (auto simp: real_path_def)
  moreover have "C \<noteq> r" using C(3,4) assms(3) by auto
  moreover obtain C' n' where "ident C' = ident C" "node_at H C' = Some n'" "is_folder n'" "walked H ident ?c C'"
    using f(4) d clear unfolding dirs_walked_def by blast
  then have "walked H ident ?c C" using assms(5) C(3,4) by metis
  then have "\<not> holds_file H ident C (ident r)" using clear unfolding walked_def holds_file_def by auto
  ultimately show ?thesis by (auto simp: strict_prefix_def)
qed


text \<open>
  A home directory with a private key, a second name of it outside \<open>.ssh\<close>, a public key and a Git
  configuration that names all three.
\<close>

definition key_config :: string where
  "key_config =
     ''[user]'' @ [CHR 0x0A] @ ''signingkey=~/.ssh/id.pub'' @ [CHR 0x0A] @ ''[core]'' @ [CHR 0x0A] @ ''excludesfile=~/.ssh/id'' @ [CHR 0x0A] @
     ''attributesfile=~/alias'' @ [CHR 0x0A]"

definition key_home :: host where
  "key_home =
     \<lparr>h_nodes =
        [([''h''], Folder True True), ([''h'', ''.gitconfig''], Regular True key_config), ([''h'', ''.ssh''], Folder True True),
         ([''h'', ''.ssh'', ''id''], Regular True ''private''), ([''h'', ''.ssh'', ''id.pub''], Regular True ''ssh-ed25519 k''),
         ([''h'', ''alias''], Regular True ''private'')],
      h_cwd = [], h_home = Some ''/h''\<rparr>"

definition key_ident :: "string list \<Rightarrow> nat" where
  "key_ident es =
     (case map_of (zip [[''h''], [''h'', ''.gitconfig''], [''h'', ''.ssh''], [''h'', ''.ssh'', ''id''], [''h'', ''.ssh'', ''id.pub''], [''h'', ''alias'']] [2, 3, 4, 5, 6, 5]) es of
        Some i \<Rightarrow> i | None \<Rightarrow> 0)"

definition key_parser_of :: key_parser where
  "key_parser_of data = (if HasPrefix data ''ssh-'' then Some (data, [], []) else None)"

lemma key_copies:
  "cp_out (gitConfigSnapshots (\<lambda>s. s) key_parser_of key_home key_ident ''/h'' []) =
     [\<lparr>sn_Host = ''/h/.gitconfig'', sn_Container = ''/home/agent/.gitconfig'', sn_data = key_config\<rparr>,
      \<lparr>sn_Host = ''/h/.ssh/id.pub'', sn_Container = ''/home/agent/.ssh/id.pub'', sn_data = ''ssh-ed25519 k''\<rparr>]"
  by code_simp

lemma key_folders:
  "node_at key_home C = Some n \<Longrightarrow> is_folder n \<Longrightarrow> C \<in> {[], [''h''], [''h'', ''.ssh'']}"
  by (auto simp: node_at_def key_home_def is_folder_def split: if_split_asm)

lemma key_regular:
  "node_at key_home r = Some (Regular rd data) \<Longrightarrow> path_of r = ''/h/.gitconfig'' \<Longrightarrow> r = [''h'', ''.gitconfig''] \<and> data = key_config"
  by (auto simp: node_at_def key_home_def path_of_def split: if_split_asm)

lemma key_idents: "key_ident [] = 0" "key_ident [''h''] = 2" "key_ident [''h'', ''.ssh''] = 4"
  by code_simp+


end
