(* ===== verification/SecretCache.thy ===== *)
theory SecretCache
  imports Workspaces
begin

text \<open>
  Reading secrets on the host (\<open>internal/cmd/secrets.go\<close>, \<open>secrets_lock_unix.go\<close>): the checks of the sources,
  the cache of command outputs in the system keyring with its index and purge generation, and \<open>readSecret\<close>.
  Times are nanoseconds since the zero time. The hash and the outcomes of keyring and file operations are
  arguments; JSON values are kept decoded. What runs under the workspace's lock is one atomic section, and
  sections of several processes interleave.
\<close>

section \<open>Sources\<close>

datatype secret_source_error =
    EnvNotSet string string
  | EnvEmpty string string
  | FileMissing string string
  | FileStat string string
  | FileNotRegular string string
  | EnvCollision string

datatype stat_outcome = StatMissing | StatError | StatRegular | StatOther

definition validateSecretEnvSource :: "(string \<rightharpoonup> string) \<Rightarrow> ResolvedSecret \<Rightarrow> (secret_source_error, unit) result" where
  "validateSecretEnvSource env s =
     (case env (rs_FromEnv s) of
        None \<Rightarrow> Inl (EnvNotSet (rs_Name s) (rs_FromEnv s))
      | Some v \<Rightarrow> if v = [] then Inl (EnvEmpty (rs_Name s) (rs_FromEnv s)) else Inr ())"

definition validateSecretFileSource :: "(string \<Rightarrow> stat_outcome) \<Rightarrow> ResolvedSecret \<Rightarrow> (secret_source_error, unit) result" where
  "validateSecretFileSource st s =
     (case st (rs_FromFile s) of
        StatMissing \<Rightarrow> Inl (FileMissing (rs_Name s) (rs_FromFile s))
      | StatError \<Rightarrow> Inl (FileStat (rs_Name s) (rs_FromFile s))
      | StatRegular \<Rightarrow> Inr ()
      | StatOther \<Rightarrow> Inl (FileNotRegular (rs_Name s) (rs_FromFile s)))"

definition envKeySet :: "string list \<Rightarrow> string list" where
  "envKeySet env = List.map_filter (\<lambda>e. case Cut e ''='' of (key, _, found) \<Rightarrow> if \<not> found \<or> key = [] then None else Some key) env"

definition check_source ::
  "(string \<rightharpoonup> string) \<Rightarrow> (string \<Rightarrow> stat_outcome) \<Rightarrow> string list \<Rightarrow> ResolvedSecret \<Rightarrow> (secret_source_error, unit) result" where
  "check_source env st keys s =
     rbind (if rs_FromEnv s \<noteq> [] then validateSecretEnvSource env s
            else if rs_FromFile s \<noteq> [] then validateSecretFileSource st s
            else Inr ()) (\<lambda>_.
       if rs_Kind s = SecretKindEnv \<and> rs_Name s \<in> set keys then Inl (EnvCollision (rs_Name s)) else Inr ())"

definition validateSecretSources ::
  "(string \<rightharpoonup> string) \<Rightarrow> (string \<Rightarrow> stat_outcome) \<Rightarrow> Resolved \<Rightarrow> (secret_source_error, unit) result" where
  "validateSecretSources env st ws = for_each (check_source env st (envKeySet (r_Env ws))) (r_Secrets ws)"

section \<open>Values\<close>

datatype secret_read_error =
    SeveralLines string
  | ReadFile string
  | CommandFailed string string
  | PrintedNothing string string
  | LockError
  | KeyringError string
  | NotCached
  | ParseError string
  | GenRead
  | GenParse
  | GenWrite

definition line_break :: "char \<Rightarrow> bool" where
  "line_break c \<longleftrightarrow> c = CHR 0x0D \<or> c = CHR 0x0A"

definition checkSecretValue :: "ResolvedSecret \<Rightarrow> string \<Rightarrow> (secret_read_error, string) result" where
  "checkSecretValue s value =
     (if rs_Kind s = SecretKindEnv then
        let v = rev (dropWhile line_break (rev value)) in
        if list_ex (\<lambda>c. line_break c \<or> c = CHR 0x00) v then Inl (SeveralLines (rs_Name s)) else Inr v
      else Inr value)"

text \<open>\<open>out\<close> is what the command printed, or that it failed.\<close>

definition runSecretCommand :: "ResolvedSecret \<Rightarrow> string option \<Rightarrow> (secret_read_error, string) result" where
  "runSecretCommand s out =
     (case out of
        None \<Rightarrow> Inl (CommandFailed (rs_Name s) (rs_FromCommand s))
      | Some raw \<Rightarrow> if raw = [] then Inl (PrintedNothing (rs_Name s) (rs_FromCommand s)) else Inr raw)"

section \<open>Keyring and generation\<close>

definition kind_word :: "SecretKind \<Rightarrow> string" where
  "kind_word k = (case k of SecretKindEnv \<Rightarrow> ''env'' | SecretKindFile \<Rightarrow> ''file'')"

definition account_input :: "string \<Rightarrow> string \<Rightarrow> ResolvedSecret \<Rightarrow> string" where
  "account_input cfg ws s =
     cfg @ CHR 0x00 # ws @ CHR 0x00 # kind_word (rs_Kind s) @ CHR 0x00 # rs_Name s @ CHR 0x00 # rs_FromCommand s"

definition secretCacheAccount :: "(string \<Rightarrow> string) \<Rightarrow> string \<Rightarrow> string \<Rightarrow> ResolvedSecret \<Rightarrow> string" where
  "secretCacheAccount hash cfg ws s = ''jailoc:secret:'' @ hash (account_input cfg ws s)"

definition secretCacheIndexAccount :: "(string \<Rightarrow> string) \<Rightarrow> string \<Rightarrow> string \<Rightarrow> string" where
  "secretCacheIndexAccount hash cfg ws = ''jailoc:index:'' @ hash (cfg @ CHR 0x00 # ws)"

type_synonym secretCacheIndex = "(string \<times> int) list"

datatype item = Envelope string int | Index secretCacheIndex

type_synonym ring = "(string \<times> item \<times> int) list"

datatype write_outcome = Written | NotWritten | Emptied

record faults =
  f_lock :: bool
  f_get :: "string \<Rightarrow> bool"
  f_set :: "string \<Rightarrow> bool"
  f_del :: "string \<Rightarrow> bool"
  f_gen_read :: bool
  f_gen_write :: write_outcome

text \<open>The keyring: entries with the time from which the system may drop them, rounded up to seconds.\<close>

definition second :: int where "second = 10 ^ 9"

definition ring_get :: "faults \<Rightarrow> string \<Rightarrow> ring \<Rightarrow> (secret_read_error, item) result" where
  "ring_get F a r = (if f_get F a then Inl (KeyringError a) else case map_of r a of None \<Rightarrow> Inl NotCached | Some (it, _) \<Rightarrow> Inr it)"

definition ring_set :: "faults \<Rightarrow> int \<Rightarrow> string \<Rightarrow> item \<Rightarrow> int \<Rightarrow> ring \<Rightarrow> (secret_read_error, unit) result \<times> ring" where
  "ring_set F now a it ttl r =
     (let sec = (ttl + second - 1) div second in
      if sec \<le> 0 then (Inr (), r)
      else if f_set F a then (Inl (KeyringError a), r)
      else (Inr (), AList.update a (it, now + sec * second) r))"

definition ring_delete :: "faults \<Rightarrow> string \<Rightarrow> ring \<Rightarrow> (secret_read_error, unit) result \<times> ring" where
  "ring_delete F a r = (if f_del F a then (Inl (KeyringError a), r) else (Inr (), AList.delete a r))"

definition secretCacheGeneration :: "faults \<Rightarrow> string option \<Rightarrow> (secret_read_error, nat) result" where
  "secretCacheGeneration F gen =
     (if f_gen_read F then Inl GenRead
      else case gen of
             None \<Rightarrow> Inr 0
           | Some d \<Rightarrow> (case ParseUint (TrimSpace d) 64 of None \<Rightarrow> Inl GenParse | Some n \<Rightarrow> Inr n))"

definition bumpSecretCacheGeneration :: "faults \<Rightarrow> string option \<Rightarrow> (secret_read_error, unit) result \<times> string option" where
  "bumpSecretCacheGeneration F gen =
     (case secretCacheGeneration F gen of
        Inl e \<Rightarrow> (Inl e, gen)
      | Inr n \<Rightarrow>
          (case f_gen_write F of
             Written \<Rightarrow> (Inr (), Some (show_nat ((n + 1) mod 2 ^ 64)))
           | NotWritten \<Rightarrow> (Inl GenWrite, gen)
           | Emptied \<Rightarrow> (Inl GenWrite, Some [])))"

section \<open>Index\<close>

definition indexExpiryMargin :: int where "indexExpiryMargin = second"
definition indexRetryTTL :: int where "indexRetryTTL = 24 * 60 * 60 * second"

definition readSecretCacheIndex :: "faults \<Rightarrow> string \<Rightarrow> ring \<Rightarrow> (secret_read_error, secretCacheIndex) result" where
  "readSecretCacheIndex F ia r =
     (case ring_get F ia r of
        Inl NotCached \<Rightarrow> Inr []
      | Inl e \<Rightarrow> Inl e
      | Inr (Index idx) \<Rightarrow> Inr idx
      | Inr (Envelope _ _) \<Rightarrow> Inl (ParseError ia))"

definition index_at :: "secretCacheIndex \<Rightarrow> string \<Rightarrow> int" where
  "index_at idx a = (case map_of idx a of Some t \<Rightarrow> t | None \<Rightarrow> 0)"

definition writeSecretCacheIndex :: "faults \<Rightarrow> int \<Rightarrow> string \<Rightarrow> secretCacheIndex \<Rightarrow> ring \<Rightarrow> (secret_read_error, unit) result \<times> ring" where
  "writeSecretCacheIndex F now ia idx r =
     (if idx = [] then ring_delete F ia r
      else
        let latest = fold max (map snd idx) 0; ttl = max (latest - now + indexExpiryMargin) indexRetryTTL
        in ring_set F now ia (Index idx) ttl r)"

fun drop_expired :: "faults \<Rightarrow> int \<Rightarrow> secretCacheIndex \<Rightarrow> secretCacheIndex \<times> ring \<Rightarrow> secretCacheIndex \<times> ring" where
  "drop_expired F now [] (idx, r) = (idx, r)"
| "drop_expired F now ((a, exp) # es) (idx, r) =
     (if \<not> now < exp \<and> \<not> f_del F a then drop_expired F now es (AList.delete a idx, AList.delete a r)
      else drop_expired F now es (idx, r))"

definition recordSecretCacheAccount ::
  "faults \<Rightarrow> int \<Rightarrow> string \<Rightarrow> string \<Rightarrow> int \<Rightarrow> ring \<Rightarrow> (secret_read_error, unit) result \<times> ring" where
  "recordSecretCacheAccount F now ia account expires r =
     (case readSecretCacheIndex F ia r of
        Inl e \<Rightarrow> (Inl e, r)
      | Inr idx \<Rightarrow>
          (case drop_expired F now idx (idx, r) of
             (idx1, r1) \<Rightarrow>
               let idx2 = (if expires > index_at idx1 account then AList.update account expires idx1 else idx1)
               in writeSecretCacheIndex F now ia idx2 r1))"

section \<open>Cached values\<close>

definition readCachedSecret :: "faults \<Rightarrow> int \<Rightarrow> string \<Rightarrow> ring \<Rightarrow> string option" where
  "readCachedSecret F now account r =
     (case ring_get F account r of
        Inr (Envelope v e) \<Rightarrow> if \<not> now < e \<or> v = [] then None else Some v
      | _ \<Rightarrow> None)"

definition writeCachedSecretLocked :: "faults \<Rightarrow> int \<Rightarrow> string \<Rightarrow> string \<Rightarrow> int \<Rightarrow> string \<Rightarrow> ring \<Rightarrow> ring" where
  "writeCachedSecretLocked F now ia account ttl value r =
     (let expires = now + ttl in
      case recordSecretCacheAccount F now ia account expires r of
        (Inl _, r1) \<Rightarrow> r1
      | (Inr _, r1) \<Rightarrow> if expires - now > 0 then snd (ring_set F now account (Envelope value expires) (expires - now) r1) else r1)"

record cache =
  c_ring :: ring
  c_gen :: "string option"
  c_now :: int

text \<open>The accounts a purge deletes, and the loop over them.\<close>

definition purge_pending :: "(ResolvedSecret \<Rightarrow> string) \<Rightarrow> int \<Rightarrow> ResolvedSecret list \<Rightarrow> secretCacheIndex \<Rightarrow> secretCacheIndex" where
  "purge_pending acct now secrets idx =
     fold (\<lambda>s p. if rs_FromCommand s \<noteq> [] \<and> index_at p (acct s) = 0 then AList.update (acct s) (now + rs_TTL s) p else p) secrets idx"

fun purge_delete :: "faults \<Rightarrow> secretCacheIndex \<Rightarrow> secretCacheIndex \<times> ring \<times> secret_read_error list \<Rightarrow> secretCacheIndex \<times> ring \<times> secret_read_error list" where
  "purge_delete F [] x = x"
| "purge_delete F ((a, _) # ps) (pending, r, errs) =
     (case ring_delete F a r of
        (Inl e, r1) \<Rightarrow> purge_delete F ps (pending, r1, errs @ [e])
      | (Inr _, r1) \<Rightarrow> purge_delete F ps (AList.delete a pending, r1, errs))"

definition errs_of :: "(secret_read_error, 'a) result \<Rightarrow> secret_read_error list" where
  "errs_of x = (case x of Inl e \<Rightarrow> [e] | Inr _ \<Rightarrow> [])"

definition purgeWorkspaceSecretCache ::
  "(ResolvedSecret \<Rightarrow> string) \<Rightarrow> string \<Rightarrow> faults \<Rightarrow> ResolvedSecret list \<Rightarrow> cache \<Rightarrow> secret_read_error list \<times> cache" where
  "purgeWorkspaceSecretCache acct ia F secrets c =
     (if f_lock F then ([LockError], c)
      else
        case bumpSecretCacheGeneration F (c_gen c) of
          (genErr, gen) \<Rightarrow>
            let idx = readSecretCacheIndex F ia (c_ring c);
                pending = purge_pending acct (c_now c) secrets (case idx of Inr i \<Rightarrow> i | Inl _ \<Rightarrow> [])
            in (case purge_delete F pending (pending, c_ring c, errs_of genErr @ errs_of idx) of
                  (left, r, errs) \<Rightarrow>
                    (case idx of
                       Inl _ \<Rightarrow> (errs, c\<lparr>c_gen := gen, c_ring := r\<rparr>)
                     | Inr _ \<Rightarrow>
                         (case writeSecretCacheIndex F (c_now c) ia left r of
                            (w, r1) \<Rightarrow> (errs @ errs_of w, c\<lparr>c_gen := gen, c_ring := r1\<rparr>)))))"

section \<open>Reading a secret\<close>

text \<open>The first section of \<open>readSecret\<close> for a command with a lifetime: a cached value, or the generation to remember.\<close>

datatype lookup_result = Hit "(secret_read_error, string) result" | Failed secret_read_error | Miss "(secret_read_error, nat) result"

definition lookup_section ::
  "(ResolvedSecret \<Rightarrow> string) \<Rightarrow> faults \<Rightarrow> bool \<Rightarrow> ResolvedSecret \<Rightarrow> cache \<Rightarrow> lookup_result \<times> cache" where
  "lookup_section acct F purgeCache s c =
     (if f_lock F then (Failed LockError, c)
      else if purgeCache then
        (case bumpSecretCacheGeneration F (c_gen c) of
           (Inl e, gen) \<Rightarrow> (Failed e, c\<lparr>c_gen := gen\<rparr>)
         | (Inr _, gen) \<Rightarrow>
             (case ring_delete F (acct s) (c_ring c) of
                (Inl e, _) \<Rightarrow> (Failed e, c\<lparr>c_gen := gen\<rparr>)
              | (Inr _, r) \<Rightarrow> (Miss (secretCacheGeneration F gen), c\<lparr>c_gen := gen, c_ring := r\<rparr>)))
      else (case readCachedSecret F (c_now c) (acct s) (c_ring c) of
              Some v \<Rightarrow> (Hit (checkSecretValue s v), c)
            | None \<Rightarrow> (Miss (secretCacheGeneration F (c_gen c)), c)))"

text \<open>After the command: the value, and the section that caches it unless a purge came between.\<close>

definition store_section ::
  "(ResolvedSecret \<Rightarrow> string) \<Rightarrow> string \<Rightarrow> faults \<Rightarrow> ResolvedSecret \<Rightarrow> (secret_read_error, nat) result \<Rightarrow> string \<Rightarrow> cache \<Rightarrow> cache" where
  "store_section acct ia F s gen raw c =
     (case gen of
        Inl _ \<Rightarrow> c
      | Inr g \<Rightarrow>
          if \<not> f_lock F \<and> secretCacheGeneration F (c_gen c) = Inr g
          then c\<lparr>c_ring := writeCachedSecretLocked F (c_now c) ia (acct s) (rs_TTL s) raw (c_ring c)\<rparr> else c)"

definition finish_read ::
  "(ResolvedSecret \<Rightarrow> string) \<Rightarrow> string \<Rightarrow> faults \<Rightarrow> ResolvedSecret \<Rightarrow> (secret_read_error, nat) result \<Rightarrow> string option \<Rightarrow> cache \<Rightarrow>
   (secret_read_error, string) result \<times> cache" where
  "finish_read acct ia F s gen out c =
     (case rbind (runSecretCommand s out) (\<lambda>raw. rbind (checkSecretValue s raw) (\<lambda>v. Inr (raw, v))) of
        Inl e \<Rightarrow> (Inl e, c)
      | Inr (raw, v) \<Rightarrow> (Inr v, store_section acct ia F s gen raw c))"

text \<open>\<open>readSecret\<close> when no other process comes between: host environment, files and command outputs are arguments.\<close>

definition readSecret ::
  "(ResolvedSecret \<Rightarrow> string) \<Rightarrow> string \<Rightarrow> (string \<rightharpoonup> string) \<Rightarrow> (string \<rightharpoonup> string) \<Rightarrow> (ResolvedSecret \<Rightarrow> string option) \<Rightarrow> faults \<Rightarrow> faults \<Rightarrow>
   ResolvedSecret \<Rightarrow> bool \<Rightarrow> cache \<Rightarrow> (secret_read_error, string) result \<times> cache" where
  "readSecret acct ia env files run F1 F2 s purgeCache c =
     (if rs_FromEnv s \<noteq> [] then (checkSecretValue s (case env (rs_FromEnv s) of Some v \<Rightarrow> v | None \<Rightarrow> []), c)
      else if rs_FromFile s \<noteq> [] then
        ((case files (rs_FromFile s) of None \<Rightarrow> Inl (ReadFile (rs_Name s)) | Some d \<Rightarrow> checkSecretValue s d), c)
      else if rs_TTL s \<le> 0 then (rbind (runSecretCommand s (run s)) (checkSecretValue s), c)
      else (case lookup_section acct F1 purgeCache s c of
              (Hit v, c1) \<Rightarrow> (v, c1)
            | (Failed e, c1) \<Rightarrow> (Inl e, c1)
            | (Miss gen, c1) \<Rightarrow> finish_read acct ia F2 s gen (run s) c1))"

end
