(* ===== verification/SecretCacheProps.thy ===== *)
theory SecretCacheProps
  imports SecretCache
begin

text \<open>
  The secret cache under every interleaving of reads and purges: what a read may serve from the cache.
\<close>

section \<open>Ring\<close>

text \<open>
  The invariant of the keyring at time \<open>now\<close>, for the accounts \<open>A\<close> of the workspace's secrets and the account
  \<open>ia\<close> of the index: the index outlives what it lists, and lists every value that has not expired.
\<close>

definition index_ok :: "string set \<Rightarrow> secretCacheIndex \<Rightarrow> int \<Rightarrow> bool" where
  "index_ok A idx d \<longleftrightarrow> distinct (map fst idx) \<and> fst ` set idx \<subseteq> A \<and> (\<forall>x \<in> set (map snd idx). x < d)"

definition ring_ok :: "string \<Rightarrow> string set \<Rightarrow> int \<Rightarrow> ring \<Rightarrow> bool" where
  "ring_ok ia A now r \<longleftrightarrow>
     (\<forall>it d. map_of r ia = Some (it, d) \<longrightarrow> (\<exists>idx. it = Index idx \<and> index_ok A idx d)) \<and>
     (\<forall>a \<in> A. \<forall>v e d. map_of r a = Some (Envelope v e, d) \<longrightarrow> now < e \<longrightarrow>
        (\<exists>idx d'. map_of r ia = Some (Index idx, d') \<and> e \<le> index_at idx a))"

lemma map_of_update: "map_of (AList.update k v al) = (map_of al)(k \<mapsto> v)"
  by (rule update_conv')

lemma map_of_delete: "map_of (AList.delete k al) a = (if a = k then None else map_of al a)"
  by (simp add: delete_conv')

lemma index_at_map: "distinct (map fst idx) \<Longrightarrow> (a, x) \<in> set idx \<Longrightarrow> index_at idx a = x"
  by (simp add: index_at_def)

lemma index_at_pos: "0 < index_at idx a \<Longrightarrow> map_of idx a = Some (index_at idx a)"
  by (simp add: index_at_def split: option.split_asm)

lemma fold_max_ge: "x \<in> set xs \<Longrightarrow> x \<le> fold max xs (z :: int)"
  by (simp add: Max_ge flip: Max.set_eq_fold)

lemma sec_covers: "0 < second" "(ttl :: int) \<le> (ttl + second - 1) div second * second" "0 < ttl \<Longrightarrow> 0 < (ttl + second - 1) div second"
proof -
  show s: "0 < second" by (simp add: second_def)
  have "(ttl + second - 1) div second * second = (ttl + second - 1) - (ttl + second - 1) mod second" by (simp add: minus_mod_eq_div_mult)
  moreover have "(ttl + second - 1) mod second \<le> second - 1" using pos_mod_bound [OF s, of "ttl + second - 1"] by simp
  ultimately show "ttl \<le> (ttl + second - 1) div second * second" by simp
  assume "0 < ttl"
  then have "second \<le> ttl + second - 1" by simp
  then show "0 < (ttl + second - 1) div second" using s pos_imp_zdiv_pos_iff by blast
qed

definition dropped_at :: "faults \<Rightarrow> int \<Rightarrow> secretCacheIndex \<Rightarrow> string \<Rightarrow> bool" where
  "dropped_at F now es b \<longleftrightarrow> (\<exists>x. (b, x) \<in> set es \<and> x \<le> now \<and> \<not> f_del F b)"

lemma dropped_at_simps [simp]:
  "\<not> dropped_at F now [] b"
  "dropped_at F now ((a, x) # es) b \<longleftrightarrow> (b = a \<and> x \<le> now \<and> \<not> f_del F a) \<or> dropped_at F now es b"
  by (auto simp: dropped_at_def)

lemma drop_expired_map:
  "drop_expired F now es (idx, r) = (idx1, r1) \<Longrightarrow>
   map_of r1 b = (if dropped_at F now es b then None else map_of r b) \<and> map_of idx1 b = (if dropped_at F now es b then None else map_of idx b)"
proof (induction es arbitrary: idx r)
  case (Cons p es)
  obtain a x where p: "p = (a, x)" by fastforce
  show ?case
  proof (cases "x \<le> now \<and> \<not> f_del F a")
    case True
    then show ?thesis using Cons.prems Cons.IH [of "AList.delete a idx" "AList.delete a r"] unfolding p by (simp add: map_of_delete)
  next
    case False
    then have "drop_expired F now es (idx, r) = (idx1, r1)" using Cons.prems unfolding p by (simp split: if_split_asm)
    moreover have "dropped_at F now ((a, x) # es) b \<longleftrightarrow> dropped_at F now es b" using False by auto
    ultimately show ?thesis using Cons.IH unfolding p by metis
  qed
qed simp

lemma drop_expired_index:
  "drop_expired F now es (idx, r) = (idx1, r1) \<Longrightarrow> distinct (map fst idx) \<Longrightarrow> distinct (map fst idx1) \<and> set idx1 \<subseteq> set idx"
proof (induction es arbitrary: idx r)
  case (Cons p es)
  obtain a x where p: "p = (a, x)" by fastforce
  have d: "distinct (map fst (AList.delete a idx))" "set (AList.delete a idx) \<subseteq> set idx"
    using distinct_delete [OF Cons.prems(2)] by (auto simp: AList.delete_eq)
  show ?case using Cons.prems Cons.IH [of "AList.delete a idx" "AList.delete a r"] Cons.IH [of idx r] d unfolding p
    by (auto split: if_split_asm)
qed simp

lemma write_index:
  assumes "writeSecretCacheIndex F now ia idx r = (res, r1)" and "distinct (map fst idx)" and "fst ` set idx \<subseteq> A"
  obtains (unchanged) e where "res = Inl e" "r1 = r"
    | (removed) "res = Inr ()" "idx = []" "r1 = AList.delete ia r"
    | (stored) d where "res = Inr ()" "r1 = AList.update ia (Index idx, d) r" "index_ok A idx d"
proof (cases "idx = []")
  case True
  then show thesis using assms(1) unchanged removed by (auto simp: writeSecretCacheIndex_def ring_delete_def split: if_split_asm)
next
  case False
  define ttl where "ttl = max (fold max (map snd idx) 0 - now + indexExpiryMargin) indexRetryTTL"
  have "0 < ttl" by (simp add: ttl_def indexRetryTTL_def second_def)
  then have w: "writeSecretCacheIndex F now ia idx r =
      (if f_set F ia then (Inl (KeyringError ia), r) else (Inr (), AList.update ia (Index idx, now + (ttl + second - 1) div second * second) r))"
    using False sec_covers(3) [of ttl] by (simp add: writeSecretCacheIndex_def ring_set_def Let_def flip: ttl_def)
  have "x < now + (ttl + second - 1) div second * second" if "x \<in> set (map snd idx)" for x
  proof -
    have "x \<le> fold max (map snd idx) 0" using that by (rule fold_max_ge)
    also have "\<dots> < now + ttl" by (simp add: ttl_def indexExpiryMargin_def second_def)
    finally show ?thesis using sec_covers(2) [of ttl] by simp
  qed
  then have "index_ok A idx (now + (ttl + second - 1) div second * second)" using assms(2,3) by (simp add: index_ok_def)
  then show thesis using w assms(1) unchanged stored by (cases "f_set F ia") auto
qed

text \<open>Deleting and storing entries.\<close>

lemma ring_ok_delete: "ring_ok ia A now r \<Longrightarrow> ia \<notin> A \<Longrightarrow> a \<in> A \<Longrightarrow> ring_ok ia A now (AList.delete a r)"
  unfolding ring_ok_def map_of_delete by (metis option.distinct(1))

lemma ring_ok_store_index:
  assumes "ia \<notin> A" and "index_ok A idx d"
    and "\<And>a v e d. a \<in> A \<Longrightarrow> map_of r a = Some (Envelope v e, d) \<Longrightarrow> now < e \<Longrightarrow> e \<le> index_at idx a"
  shows "ring_ok ia A now (AList.update ia (Index idx, d) r)"
  using assms unfolding ring_ok_def map_of_update by auto

lemma ring_ok_remove_index:
  assumes "ia \<notin> A" and "\<And>a v e d. a \<in> A \<Longrightarrow> map_of r a = Some (Envelope v e, d) \<Longrightarrow> \<not> now < e"
  shows "ring_ok ia A now (AList.delete ia r)"
  using assms unfolding ring_ok_def map_of_delete by auto

lemma ring_ok_later: "ring_ok ia A now r \<Longrightarrow> now \<le> now' \<Longrightarrow> ring_ok ia A now' r"
  unfolding ring_ok_def by force

lemma read_index:
  assumes "readSecretCacheIndex F ia r = Inr idx" and "ring_ok ia A now r"
  shows "distinct (map fst idx) \<and> fst ` set idx \<subseteq> A \<and>
    (\<forall>a \<in> A. \<forall>v e d. map_of r a = Some (Envelope v e, d) \<longrightarrow> now < e \<longrightarrow> e \<le> index_at idx a)"
proof (cases "map_of r ia")
  case None
  then have "idx = []" using assms(1) by (auto simp: readSecretCacheIndex_def ring_get_def split: if_split_asm)
  then show ?thesis using assms(2) None by (auto simp: ring_ok_def)
next
  case (Some p)
  obtain it d where p: "p = (it, d)" by fastforce
  obtain i where i: "it = Index i" "index_ok A i d" using assms(2) Some p by (auto simp: ring_ok_def)
  then have "idx = i" using assms(1) Some p by (auto simp: readSecretCacheIndex_def ring_get_def split: if_split_asm)
  then show ?thesis using assms(2) Some p i by (auto simp: ring_ok_def index_ok_def)
qed

text \<open>A change of the keyring that stores no value: every value it holds was there before.\<close>

definition no_new :: "string set \<Rightarrow> ring \<Rightarrow> ring \<Rightarrow> bool" where
  "no_new A r r1 \<longleftrightarrow> (\<forall>a \<in> A. map_of r1 a = map_of r a \<or> map_of r1 a = None)"

lemma no_new_simps [simp]: "no_new A r r" "ia \<notin> A \<Longrightarrow> no_new A r (AList.update ia x r1) = no_new A r r1" "no_new A r r1 \<Longrightarrow> no_new A r (AList.delete b r1)"
  by (auto simp: no_new_def map_of_update map_of_delete)

lemma record_account:
  assumes "recordSecretCacheAccount F now ia account expires r = (res, r1)" and "ring_ok ia A now r"
    and "ia \<notin> A" and "account \<in> A" and "0 < expires" and "0 \<le> now"
  shows "ring_ok ia A now r1 \<and> no_new A r r1 \<and>
    (res = Inr () \<longrightarrow> (\<exists>idx d. map_of r1 ia = Some (Index idx, d) \<and> expires \<le> index_at idx account))"
proof (cases "readSecretCacheIndex F ia r")
  case (Inl e)
  then show ?thesis using assms(1,2) by (auto simp: recordSecretCacheAccount_def)
next
  case (Inr idx)
  note idx = read_index [OF Inr assms(2)]
  obtain idx1 r2 where dr: "drop_expired F now idx (idx, r) = (idx1, r2)" by fastforce
  note m = drop_expired_map [OF dr] and i1 = drop_expired_index [OF dr]
  define idx2 where "idx2 = (if expires > index_at idx1 account then AList.update account expires idx1 else idx1)"
  have w: "writeSecretCacheIndex F now ia idx2 r2 = (res, r1)" using assms(1) Inr dr by (simp add: recordSecretCacheAccount_def idx2_def)
  have "distinct (map fst idx1)" "fst ` set idx1 \<subseteq> A" using i1 idx by auto
  then have i2: "distinct (map fst idx2)" "fst ` set idx2 \<subseteq> A"
    using assms(4) by (auto simp: idx2_def distinct_update keys_update)
  have at: "expires \<le> index_at idx2 account" "index_at idx1 a \<le> index_at idx2 a" for a
    by (auto simp: idx2_def index_at_def map_of_update)
  then have ne: "idx2 \<noteq> []" using assms(5) by (auto simp: index_at_def)
  have listed: "e \<le> index_at idx2 a" if "a \<in> A" "map_of r2 a = Some (Envelope v e, d)" "now < e" for a v e d
  proof -
    have r: "map_of r a = Some (Envelope v e, d)" "\<not> dropped_at F now idx a" using m [of a] that(2) by (auto split: if_split_asm)
    then have "index_at idx1 a = index_at idx a" using m [of a] by (simp add: index_at_def)
    moreover have "e \<le> index_at idx a" using idx that(1,3) r(1) by blast
    ultimately show ?thesis using at(2) [of a] by simp
  qed
  have nn: "no_new A r r2" using m by (auto simp: no_new_def)
  have "ring_ok ia A now r2"
  proof -
    have "\<not> dropped_at F now idx ia" using idx assms(3) by (force simp: dropped_at_def)
    then have ia: "map_of r2 ia = map_of r ia" using m [of ia] by simp
    show ?thesis using assms(2) nn unfolding ring_ok_def no_new_def ia by (metis option.distinct(1))
  qed
  with w i2 show ?thesis
  proof (cases rule: write_index [where A = A])
    case (stored d)
    then show ?thesis using ring_ok_store_index [OF assms(3) stored(3) listed] nn at(1) assms(3) by (auto simp: map_of_update)
  qed (use nn ne in auto)
qed

lemma write_cached:
  assumes "ring_ok ia A now r" and "ia \<notin> A" and "account \<in> A" and "0 < ttl" and "0 \<le> now"
    and r1_def: "r1 = writeCachedSecretLocked F now ia account ttl v r"
  shows "ring_ok ia A now r1 \<and> (\<forall>a \<in> A. map_of r1 a = map_of r a \<or> map_of r1 a = None \<or> a = account \<and> (\<exists>d. map_of r1 a = Some (Envelope v (now + ttl), d)))"
proof -
  obtain res r2 where rec: "recordSecretCacheAccount F now ia account (now + ttl) r = (res, r2)" by fastforce
  note ok = record_account [OF rec assms(1-3)]
  have o: "ring_ok ia A now r2" "no_new A r r2" using ok assms(4,5) by auto
  show ?thesis
  proof (cases res)
    case (Inl e)
    then show ?thesis using rec o by (auto simp: r1_def writeCachedSecretLocked_def no_new_def)
  next
    case (Inr u)
    obtain idx d' where idx: "map_of r2 ia = Some (Index idx, d')" "now + ttl \<le> index_at idx account"
      using ok assms(4,5) Inr by auto
    define d where "d = now + (ttl + second - 1) div second * second"
    have "r1 = r2 \<or> r1 = AList.update account (Envelope v (now + ttl), d) r2"
      using rec Inr assms(4) sec_covers(3) [OF assms(4)] by (auto simp: r1_def writeCachedSecretLocked_def ring_set_def Let_def d_def)
    moreover have "ring_ok ia A now (AList.update account (Envelope v (now + ttl), d) r2)"
      using o(1) idx assms(2,3) unfolding ring_ok_def map_of_update by auto
    ultimately show ?thesis
    proof (elim disjE)
      assume "r1 = AList.update account (Envelope v (now + ttl), d) r2"
      moreover have "map_of r1 a = map_of r a \<or> map_of r1 a = None \<or> a = account \<and> (\<exists>d. map_of r1 a = Some (Envelope v (now + ttl), d))" if "a \<in> A" for a
        using calculation o(2) that by (cases "a = account") (auto simp: no_new_def map_of_update)
      ultimately show ?thesis using \<open>ring_ok ia A now (AList.update account (Envelope v (now + ttl), d) r2)\<close> by simp
    qed (use o in \<open>auto simp: no_new_def\<close>)
  qed
qed

lemma purge_delete_map:
  "purge_delete F ps (pending, r, errs) = (left, r1, errs1) \<Longrightarrow>
   map_of r1 b = (if b \<in> fst ` set ps \<and> \<not> f_del F b then None else map_of r b) \<and>
   map_of left b = (if b \<in> fst ` set ps \<and> \<not> f_del F b then None else map_of pending b) \<and>
   errs1 = errs @ map KeyringError (filter (f_del F) (map fst ps))"
proof (induction ps arbitrary: pending r errs)
  case (Cons p ps)
  obtain a x where p: "p = (a, x)" by fastforce
  show ?case
  proof (cases "f_del F a")
    case True
    then show ?thesis using Cons.prems Cons.IH [of pending r "errs @ [KeyringError a]"] unfolding p by (auto simp: ring_delete_def)
  next
    case False
    then show ?thesis using Cons.prems Cons.IH [of "AList.delete a pending" "AList.delete a r" errs] unfolding p
      by (auto simp: ring_delete_def map_of_delete)
  qed
qed simp

lemma purge_delete_left:
  "purge_delete F ps (pending, r, errs) = (left, r1, errs1) \<Longrightarrow> distinct (map fst pending) \<Longrightarrow> distinct (map fst left) \<and> set left \<subseteq> set pending"
proof (induction ps arbitrary: pending r errs)
  case (Cons p ps)
  obtain a x where p: "p = (a, x)" by fastforce
  have d: "distinct (map fst (AList.delete a pending))" "set (AList.delete a pending) \<subseteq> set pending"
    using distinct_delete [OF Cons.prems(2)] by (auto simp: AList.delete_eq)
  show ?case
  proof (cases "f_del F a")
    case True
    then show ?thesis using Cons.prems Cons.IH [of pending r "errs @ [KeyringError a]"] unfolding p by (auto simp: ring_delete_def)
  next
    case False
    then show ?thesis using Cons.prems(1) Cons.IH [of "AList.delete a pending" "AList.delete a r" errs] d unfolding p by (auto simp: ring_delete_def)
  qed
qed simp

lemma purge_pending_props:
  "distinct (map fst idx) \<Longrightarrow> fst ` set idx \<subseteq> A \<Longrightarrow> acct ` set secrets \<subseteq> A \<Longrightarrow>
   distinct (map fst (purge_pending acct now secrets idx)) \<and> fst ` set (purge_pending acct now secrets idx) \<subseteq> A \<and>
   (\<forall>a. index_at idx a \<noteq> 0 \<longrightarrow> index_at (purge_pending acct now secrets idx) a = index_at idx a)"
  unfolding purge_pending_def
proof (induction secrets arbitrary: idx)
  case (Cons s ss)
  let ?idx = "if rs_FromCommand s \<noteq> [] \<and> index_at idx (acct s) = 0 then AList.update (acct s) (now + rs_TTL s) idx else idx"
  have "distinct (map fst ?idx)" "fst ` set ?idx \<subseteq> A" using Cons.prems by (auto simp: distinct_update keys_update)
  moreover have "index_at ?idx a = index_at idx a" if "index_at idx a \<noteq> 0" for a
    using that by (auto simp: index_at_def map_of_update)
  ultimately show ?case using Cons.IH [of ?idx] Cons.prems(3) by simp
qed simp

lemma index_at_listed: "index_at idx a \<noteq> 0 \<Longrightarrow> a \<in> fst ` set idx"
  by (auto simp: index_at_def split: option.split_asm dest: map_of_SomeD intro!: rev_image_eqI)

lemma purge_ring:
  assumes "purgeWorkspaceSecretCache acct ia F secrets c = (errs, c1)" and "ring_ok ia A (c_now c) (c_ring c)"
    and "ia \<notin> A" and "acct ` set secrets \<subseteq> A" and "0 \<le> c_now c"
  shows "ring_ok ia A (c_now c) (c_ring c1) \<and> no_new A (c_ring c) (c_ring c1) \<and> c_now c1 = c_now c \<and>
    (errs = [] \<longrightarrow> (\<forall>a \<in> A. \<forall>v e d. map_of (c_ring c1) a = Some (Envelope v e, d) \<longrightarrow> \<not> c_now c < e))"
proof (cases "f_lock F")
  case True
  then show ?thesis using assms(1,2) by (auto simp: purgeWorkspaceSecretCache_def)
next
  case False
  let ?r = "c_ring c" and ?now = "c_now c"
  obtain genErr gen where g: "bumpSecretCacheGeneration F (c_gen c) = (genErr, gen)" by fastforce
  define idx where "idx = readSecretCacheIndex F ia ?r"
  define i where "i = (case idx of Inr i \<Rightarrow> i | Inl _ \<Rightarrow> [])"
  define pending where "pending = purge_pending acct ?now secrets i"
  obtain left r1 errs1 where d: "purge_delete F pending (pending, ?r, errs_of genErr @ errs_of idx) = (left, r1, errs1)"
    by (metis prod_cases3)
  have c1: "(case idx of Inl _ \<Rightarrow> (errs1, c\<lparr>c_gen := gen, c_ring := r1\<rparr>)
      | Inr _ \<Rightarrow> (case writeSecretCacheIndex F ?now ia left r1 of (w, r2) \<Rightarrow> (errs1 @ errs_of w, c\<lparr>c_gen := gen, c_ring := r2\<rparr>))) = (errs, c1)"
    using assms(1) False g d by (simp add: purgeWorkspaceSecretCache_def Let_def flip: idx_def i_def pending_def)
  have i: "distinct (map fst i)" "fst ` set i \<subseteq> A"
    using read_index [OF _ assms(2)] by (cases "readSecretCacheIndex F ia ?r"; simp add: i_def idx_def)+
  note p = purge_pending_props [OF i assms(4), of ?now, folded pending_def]
  note m = purge_delete_map [OF d] and l = purge_delete_left [OF d]
  have nn: "no_new A ?r r1" using m by (auto simp: no_new_def)
  have "ia \<notin> fst ` set pending" using p assms(3) by blast
  then have ia: "map_of r1 ia = map_of ?r ia" using m [of ia] by simp
  have ok1: "ring_ok ia A ?now r1" using assms(2) nn unfolding ring_ok_def no_new_def ia by (metis option.distinct(1))
  have listed: "a \<in> fst ` set pending \<and> f_del F a \<and> e \<le> index_at left a"
    if "idx = Inr i" "a \<in> A" "map_of r1 a = Some (Envelope v e, d)" "?now < e" for a v e d
  proof -
    have r: "map_of ?r a = Some (Envelope v e, d)" "\<not> (a \<in> fst ` set pending \<and> \<not> f_del F a)" using m [of a] that(3) by (auto split: if_split_asm)
    have e: "e \<le> index_at i a" using read_index [OF that(1) [unfolded idx_def] assms(2)] r(1) that(2,4) by blast
    then have "index_at pending a = index_at i a" "index_at i a \<noteq> 0" using p that(4) assms(5) by auto
    moreover from this have "a \<in> fst ` set pending" using index_at_listed [of pending a] by simp
    moreover have "index_at left a = index_at pending a" using m [of a] r(2) by (simp add: index_at_def)
    ultimately show ?thesis using e r(2) by simp
  qed
  show ?thesis
  proof (cases idx)
    case (Inl e)
    then have "errs1 \<noteq> []" using m by (simp add: errs_of_def)
    then show ?thesis using Inl c1 nn ok1 by auto
  next
    case (Inr x)
    then have x: "idx = Inr i" by (simp add: i_def)
    obtain w r2 where w: "writeSecretCacheIndex F ?now ia left r1 = (w, r2)" by fastforce
    have e: "errs = errs1 @ errs_of w" "c_ring c1 = r2" "c_now c1 = ?now" using c1 w Inr by auto
    have left: "distinct (map fst left)" "fst ` set left \<subseteq> A" using l p by auto
    have f: "f_del F a \<Longrightarrow> a \<notin> fst ` set pending" if "errs = []" for a
      using that e(1) m by (auto simp: filter_empty_conv)
    have dead: "\<not> ?now < e" if "errs = []" "a \<in> A" "map_of r1 a = Some (Envelope v e, d)" for a v e d
      using listed [OF x that(2,3)] f [OF that(1)] by blast
    from w left show ?thesis
    proof (cases rule: write_index [where A = A])
      case (unchanged e')
      then show ?thesis using e nn ok1 by (simp add: errs_of_def)
    next
      case removed
      have "\<not> ?now < e" if "a \<in> A" "map_of r1 a = Some (Envelope v e, d)" for a v e d
      proof
        assume "?now < e"
        from listed [OF x that this] removed(2) assms(5) \<open>?now < e\<close> show False by (simp add: index_at_def)
      qed
      then show ?thesis using ring_ok_remove_index [OF assms(3), of r1 ?now] e nn removed(3) dead by (auto simp: map_of_delete)
    next
      case (stored d)
      then have "ring_ok ia A ?now r2" using ring_ok_store_index [OF assms(3) stored(3), of r1 ?now] listed [OF x] by blast
      then show ?thesis using e nn stored(2) dead assms(3) by (auto simp: map_of_update)
    qed
  qed
qed

section \<open>Generations\<close>

definition genval :: "string option \<Rightarrow> nat option" where
  "genval gen = (case gen of None \<Rightarrow> Some 0 | Some d \<Rightarrow> ParseUint (TrimSpace d) 64)"

lemma generation_genval: "secretCacheGeneration F gen = Inr n \<Longrightarrow> genval gen = Some n \<and> n < 2 ^ 64"
  using ParseUint_bound [of _ 64 n] by (auto simp: secretCacheGeneration_def genval_def split: if_split_asm option.split_asm)

lemma TrimSpace_show: "TrimSpace (show_nat n) = show_nat n"
proof -
  have d: "show_nat n \<noteq> []" "list_all is_digit (show_nat n)" using show_nat_digits [of n] by auto
  have v: "is_digit c \<Longrightarrow> visible c" for c by (simp add: is_digit_def visible_def)
  show ?thesis using d by (intro TrimSpace_visible v) (auto simp: list_all_iff)
qed

lemma bump_genval:
  assumes "bumpSecretCacheGeneration F gen = (res, gen1)"
  shows "case res of
      Inr _ \<Rightarrow> \<exists>n. genval gen = Some n \<and> genval gen1 = Some ((n + 1) mod 2 ^ 64)
    | Inl _ \<Rightarrow> genval gen1 = genval gen \<or> genval gen1 = None"
proof -
  have e: "genval (Some []) = None" by code_simp
  have s: "genval (Some (show_nat (k mod 2 ^ 64))) = Some (k mod 2 ^ 64)" for k
    unfolding genval_def by (simp add: TrimSpace_show ParseUint_show)
  show ?thesis using assms generation_genval [of F gen] e s
    by (auto simp: bumpSecretCacheGeneration_def split: sum.split_asm write_outcome.split_asm)
qed

section \<open>Processes\<close>

text \<open>Sections of reads and purges by any number of processes, the passing of time, and entries the system drops.\<close>

datatype cache_op =
    Lookup nat ResolvedSecret bool faults
  | Finish nat "string option" faults
  | Purge "ResolvedSecret list" faults
  | Pass nat
  | Lapse string

datatype cache_out =
    Cached "(secret_read_error, string) result"
  | Failure secret_read_error
  | Running
  | Fetched "(secret_read_error, string) result"
  | Purged "secret_read_error list"
  | Quiet

record cache_sys =
  s_cache :: cache
  s_reads :: "(nat \<times> ResolvedSecret \<times> (secret_read_error, nat) result) list"

definition lapse :: "string \<Rightarrow> cache \<Rightarrow> cache" where
  "lapse a c = (case map_of (c_ring c) a of Some (_, d) \<Rightarrow> if d \<le> c_now c then c\<lparr>c_ring := AList.delete a (c_ring c)\<rparr> else c | None \<Rightarrow> c)"

fun cache_step :: "(ResolvedSecret \<Rightarrow> string) \<Rightarrow> string \<Rightarrow> cache_op \<Rightarrow> cache_sys \<Rightarrow> cache_out \<times> cache_sys" where
  "cache_step acct ia (Lookup i s purge F) sy =
     (if rs_TTL s \<le> 0 then (Quiet, sy)
      else case lookup_section acct F purge s (s_cache sy) of
             (Hit v, c) \<Rightarrow> (Cached v, sy\<lparr>s_cache := c\<rparr>)
           | (Failed e, c) \<Rightarrow> (Failure e, sy\<lparr>s_cache := c\<rparr>)
           | (Miss gen, c) \<Rightarrow> (Running, sy\<lparr>s_cache := c, s_reads := AList.update i (s, gen) (s_reads sy)\<rparr>))"
| "cache_step acct ia (Finish i out F) sy =
     (case map_of (s_reads sy) i of
        None \<Rightarrow> (Quiet, sy)
      | Some (s, gen) \<Rightarrow>
          (case finish_read acct ia F s gen out (s_cache sy) of
             (v, c) \<Rightarrow> (Fetched v, sy\<lparr>s_cache := c, s_reads := AList.delete i (s_reads sy)\<rparr>)))"
| "cache_step acct ia (Purge secrets F) sy =
     (case purgeWorkspaceSecretCache acct ia F secrets (s_cache sy) of (errs, c) \<Rightarrow> (Purged errs, sy\<lparr>s_cache := c\<rparr>))"
| "cache_step acct ia (Pass n) sy = (Quiet, sy\<lparr>s_cache := s_cache sy\<lparr>c_now := c_now (s_cache sy) + int n\<rparr>\<rparr>)"
| "cache_step acct ia (Lapse a) sy = (Quiet, sy\<lparr>s_cache := lapse a (s_cache sy)\<rparr>)"

text \<open>
  The specification. \<open>p_fresh\<close> has what commands printed that began after the last purge that succeeded, with the
  end of their lifetime; a read is current if no purge succeeded since it began.
\<close>

record cache_spec =
  p_now :: int
  p_fresh :: "((SecretKind \<times> string \<times> string) \<times> string \<times> int) list"
  p_reads :: "(nat \<times> ResolvedSecret \<times> bool) list"

definition secret_id :: "ResolvedSecret \<Rightarrow> SecretKind \<times> string \<times> string" where
  "secret_id s = (rs_Kind s, rs_Name s, rs_FromCommand s)"

definition may_serve :: "cache_spec \<Rightarrow> ResolvedSecret \<Rightarrow> (secret_read_error, string) result \<Rightarrow> bool" where
  "may_serve p s v = list_ex (\<lambda>(k, raw, e). k = secret_id s \<and> p_now p < e \<and> v = checkSecretValue s raw) (p_fresh p)"

fun spec_ok :: "cache_op \<Rightarrow> cache_out \<Rightarrow> cache_spec \<Rightarrow> bool" where
  "spec_ok (Lookup i s purge F) (Cached v) p = (\<not> purge \<and> may_serve p s v)"
| "spec_ok (Finish i out F) (Fetched v) p =
     (case map_of (p_reads p) i of None \<Rightarrow> False | Some (s, _) \<Rightarrow> v = rbind (runSecretCommand s out) (checkSecretValue s))"
| "spec_ok _ _ p = True"

fun spec_next :: "cache_op \<Rightarrow> cache_out \<Rightarrow> cache_spec \<Rightarrow> cache_spec" where
  "spec_next (Lookup i s purge F) Running p = p\<lparr>p_reads := AList.update i (s, True) (p_reads p)\<rparr>"
| "spec_next (Finish i (Some raw) F) (Fetched v) p =
     (case map_of (p_reads p) i of
        Some (s, True) \<Rightarrow> p\<lparr>p_fresh := (secret_id s, raw, p_now p + rs_TTL s) # p_fresh p, p_reads := AList.delete i (p_reads p)\<rparr>
      | _ \<Rightarrow> p\<lparr>p_reads := AList.delete i (p_reads p)\<rparr>)"
| "spec_next (Finish i None F) (Fetched v) p = p\<lparr>p_reads := AList.delete i (p_reads p)\<rparr>"
| "spec_next (Purge secrets F) (Purged []) p = p\<lparr>p_fresh := [], p_reads := map (\<lambda>(i, s, _). (i, s, False)) (p_reads p)\<rparr>"
| "spec_next (Pass n) out p = p\<lparr>p_now := p_now p + int n\<rparr>"
| "spec_next _ _ p = p"

fun cache_run :: "(ResolvedSecret \<Rightarrow> string) \<Rightarrow> string \<Rightarrow> cache_op list \<Rightarrow> cache_sys \<Rightarrow> cache_out list" where
  "cache_run acct ia [] sy = []"
| "cache_run acct ia (op # ops) sy = (case cache_step acct ia op sy of (out, sy1) \<Rightarrow> out # cache_run acct ia ops sy1)"

fun spec_accepts :: "cache_op list \<Rightarrow> cache_out list \<Rightarrow> cache_spec \<Rightarrow> bool" where
  "spec_accepts [] [] p = True"
| "spec_accepts (op # ops) (out # outs) p = (spec_ok op out p \<and> spec_accepts ops outs (spec_next op out p))"
| "spec_accepts _ _ p = False"

fun op_secrets :: "cache_op \<Rightarrow> ResolvedSecret list" where
  "op_secrets (Lookup i s purge F) = [s]"
| "op_secrets (Purge secrets F) = secrets"
| "op_secrets _ = []"

section \<open>Simulation\<close>

definition read_ok ::
  "ResolvedSecret set \<Rightarrow> nat \<Rightarrow> string option \<Rightarrow> (ResolvedSecret \<times> (secret_read_error, nat) result) option \<Rightarrow> (ResolvedSecret \<times> bool) option \<Rightarrow> bool" where
  "read_ok S N gen x y \<longleftrightarrow>
     (case x of
        None \<Rightarrow> y = None
      | Some (s, g) \<Rightarrow>
          s \<in> S \<and> 0 < rs_TTL s \<and>
          (\<exists>cur k. y = Some (s, cur) \<and> k \<le> N \<and> (k = 0 \<longrightarrow> cur) \<and>
             (\<forall>g' n. g = Inr g' \<longrightarrow> genval gen = Some n \<longrightarrow> n = (g' + k) mod 2 ^ 64 \<and> g' < 2 ^ 64)))"

definition values_ok :: "(ResolvedSecret \<Rightarrow> string) \<Rightarrow> ResolvedSecret set \<Rightarrow> int \<Rightarrow> ring \<Rightarrow> ((SecretKind \<times> string \<times> string) \<times> string \<times> int) list \<Rightarrow> bool" where
  "values_ok acct S now r fresh \<longleftrightarrow>
     (\<forall>s \<in> S. \<forall>v e d. map_of r (acct s) = Some (Envelope v e, d) \<longrightarrow> now < e \<longrightarrow> (secret_id s, v, e) \<in> set fresh)"

definition simulates :: "(ResolvedSecret \<Rightarrow> string) \<Rightarrow> string \<Rightarrow> ResolvedSecret set \<Rightarrow> nat \<Rightarrow> cache_sys \<Rightarrow> cache_spec \<Rightarrow> bool" where
  "simulates acct ia S N sy p \<longleftrightarrow>
     c_now (s_cache sy) = p_now p \<and> 0 \<le> p_now p \<and> ring_ok ia (acct ` S) (p_now p) (c_ring (s_cache sy)) \<and>
     values_ok acct S (p_now p) (c_ring (s_cache sy)) (p_fresh p) \<and>
     (\<forall>i. read_ok S N (c_gen (s_cache sy)) (map_of (s_reads sy) i) (map_of (p_reads p) i))"

lemma read_ok_mono: "read_ok S N gen x y \<Longrightarrow> read_ok S (Suc N) gen x y"
  unfolding read_ok_def by (cases x) (auto simp only: option.case prod.case intro: le_SucI)

lemma read_ok_bump:
  assumes "read_ok S N gen x y" and "bumpSecretCacheGeneration F gen = (res, gen1)"
  shows "read_ok S (Suc N) gen1 x y \<and> (is_ok res \<longrightarrow> read_ok S (Suc N) gen1 x (map_option (\<lambda>(s, _). (s, False)) y))"
proof (cases x)
  case None
  then show ?thesis using assms(1) by (simp add: read_ok_def)
next
  case (Some sg)
  obtain s g where x: "x = Some (s, g)" using Some by (cases sg) auto
  from assms(1) obtain cur k where k: "s \<in> S" "0 < rs_TTL s" "y = Some (s, cur)" "k \<le> N" "k = 0 \<longrightarrow> cur"
    "\<forall>g' n. g = Inr g' \<longrightarrow> genval gen = Some n \<longrightarrow> n = (g' + k) mod 2 ^ 64 \<and> g' < 2 ^ 64"
    unfolding x read_ok_def by auto
  note b = bump_genval [OF assms(2)]
  show ?thesis
  proof (cases res)
    case (Inl e)
    with b k have "\<forall>g' n. g = Inr g' \<longrightarrow> genval gen1 = Some n \<longrightarrow> n = (g' + k) mod 2 ^ 64 \<and> g' < 2 ^ 64" by auto
    then show ?thesis using k Inl unfolding x read_ok_def by (auto intro!: exI [of _ k])
  next
    case (Inr u)
    then obtain n where n: "genval gen = Some n" "genval gen1 = Some ((n + 1) mod 2 ^ 64)" using b by auto
    have "(n + 1) mod 2 ^ 64 = (g' + Suc k) mod 2 ^ 64 \<and> g' < 2 ^ 64" if "g = Inr g'" for g'
      using k(6) n(1) that mod_Suc_eq [of "g' + k" "2 ^ 64"] by simp
    then show ?thesis using k n(2) unfolding x read_ok_def by (auto intro!: exI [of _ "Suc k"])
  qed
qed

lemma read_ok_start:
  assumes "s \<in> S" and "0 < rs_TTL s"
  shows "read_ok S N gen (Some (s, secretCacheGeneration F gen)) (Some (s, True))"
proof -
  have "n = (g + 0) mod 2 ^ 64 \<and> g < 2 ^ 64" if "secretCacheGeneration F gen = Inr g" "genval gen = Some n" for g n
    using generation_genval [OF that(1)] that(2) by simp
  then show ?thesis unfolding read_ok_def option.case prod.case using assms by blast
qed

lemma read_ok_current:
  assumes "read_ok S N (c_gen c) (Some (s, Inr g)) y" and "secretCacheGeneration F (c_gen c) = Inr g" and "N < 2 ^ 64"
  shows "y = Some (s, True)"
proof -
  obtain cur k where k: "y = Some (s, cur)" "k \<le> N" "k = 0 \<longrightarrow> cur" "g = (g + k) mod 2 ^ 64" "g < 2 ^ 64"
    using assms(1) generation_genval [OF assms(2)] by (fastforce simp: read_ok_def)
  have "k = 0"
  proof (rule ccontr)
    assume "k \<noteq> 0"
    moreover have "(g + k) mod 2 ^ 64 = g mod 2 ^ 64" using k(4,5) by simp
    then have "2 ^ 64 dvd g + k - g" using mod_eq_dvd_iff_nat [of g "g + k" "2 ^ 64"] by simp
    ultimately show False using k(2) assms(3) by (auto dest: dvd_imp_le)
  qed
  with k show ?thesis by simp
qed

lemma values_no_new: "values_ok acct S now r fresh \<Longrightarrow> no_new (acct ` S) r r1 \<Longrightarrow> values_ok acct S now r1 fresh"
  unfolding values_ok_def no_new_def by (metis image_eqI option.distinct(1))

lemma map_of_stale: "map_of (map (\<lambda>(i, s, _). (i, s, False)) ps) i = map_option (\<lambda>(s, _). (s, False)) (map_of ps i)"
  by (induction ps) auto

definition apart :: "(ResolvedSecret \<Rightarrow> string) \<Rightarrow> string \<Rightarrow> ResolvedSecret set \<Rightarrow> bool" where
  "apart acct ia S \<longleftrightarrow> ia \<notin> acct ` S \<and> (\<forall>s \<in> S. \<forall>s' \<in> S. acct s = acct s' \<longrightarrow> secret_id s = secret_id s')"

lemma hit_served:
  assumes "readCachedSecret F (p_now p) (acct s) r = Some v" and "values_ok acct S (p_now p) r (p_fresh p)" and "s \<in> S"
  shows "may_serve p s (checkSecretValue s v)"
proof -
  obtain e d where "map_of r (acct s) = Some (Envelope v e, d)" "p_now p < e"
    using assms(1) by (auto simp: readCachedSecret_def ring_get_def split: if_split_asm option.split_asm sum.split_asm item.split_asm)
  then have "(secret_id s, v, e) \<in> set (p_fresh p)" "p_now p < e" using assms(2,3) by (auto simp: values_ok_def)
  then show ?thesis by (auto simp: may_serve_def list_ex_iff)
qed

lemma simulates_cache:
  assumes "simulates acct ia S N sy p" and "c_now c = p_now p" and "ring_ok ia (acct ` S) (p_now p) (c_ring c)"
    and "values_ok acct S (p_now p) (c_ring c) (p_fresh p)"
    and "\<And>i. read_ok S N (c_gen (s_cache sy)) (map_of (s_reads sy) i) (map_of (p_reads p) i) \<Longrightarrow> read_ok S (Suc N) (c_gen c) (map_of (s_reads sy) i) (map_of (p_reads p) i)"
  shows "simulates acct ia S (Suc N) (sy\<lparr>s_cache := c\<rparr>) p"
  using assms by (simp add: simulates_def)

lemma simulates_started:
  assumes "simulates acct ia S N sy p" and "s \<in> S" and "0 < rs_TTL s"
  shows "simulates acct ia S N (sy\<lparr>s_reads := AList.update i (s, secretCacheGeneration F (c_gen (s_cache sy))) (s_reads sy)\<rparr>) (p\<lparr>p_reads := AList.update i (s, True) (p_reads p)\<rparr>)"
  using assms read_ok_start [OF assms(2,3)] by (simp add: simulates_def map_of_update)

lemma lookup_simulates:
  assumes sim: "simulates acct ia S N sy p" and ap: "apart acct ia S" and s: "s \<in> S"
    and step: "cache_step acct ia (Lookup i s purge F) sy = (out, sy1)"
  shows "spec_ok (Lookup i s purge F) out p \<and> simulates acct ia S (Suc N) sy1 (spec_next (Lookup i s purge F) out p)"
proof -
  let ?c = "s_cache sy"
  have c: "c_now ?c = p_now p" "ring_ok ia (acct ` S) (p_now p) (c_ring ?c)" "values_ok acct S (p_now p) (c_ring ?c) (p_fresh p)" "ia \<notin> acct ` S"
    using sim ap by (auto simp: simulates_def apart_def)
  have keep: "simulates acct ia S (Suc N) sy p" using simulates_cache [OF sim c(1-3) read_ok_mono] by simp
  have gen: "simulates acct ia S (Suc N) (sy\<lparr>s_cache := ?c\<lparr>c_gen := gen, c_ring := r\<rparr>\<rparr>) p"
    if "bumpSecretCacheGeneration F (c_gen ?c) = (res, gen)" "r = c_ring ?c \<or> r = AList.delete (acct s) (c_ring ?c)" for res gen r
  proof (rule simulates_cache [OF sim])
    show "ring_ok ia (acct ` S) (p_now p) (c_ring (?c\<lparr>c_gen := gen, c_ring := r\<rparr>))" using that(2) c s ring_ok_delete by auto
    show "values_ok acct S (p_now p) (c_ring (?c\<lparr>c_gen := gen, c_ring := r\<rparr>)) (p_fresh p)"
      using that(2) c(3) values_no_new [OF c(3), of r] by auto
  qed (use c(1) read_ok_bump that(1) in auto)
  consider (quiet) "rs_TTL s \<le> 0" | (locked) "0 < rs_TTL s" "f_lock F" | (purge) "0 < rs_TTL s" "\<not> f_lock F" "purge" | (plain) "0 < rs_TTL s" "\<not> f_lock F" "\<not> purge"
    by linarith
  then show ?thesis
  proof cases
    case purge
    obtain res gen where b: "bumpSecretCacheGeneration F (c_gen ?c) = (res, gen)" by fastforce
    have "?c\<lparr>c_gen := gen, c_ring := c_ring ?c\<rparr> = ?c\<lparr>c_gen := gen\<rparr>" by (cases ?c) simp
    with gen [OF b, of "c_ring ?c"] have "simulates acct ia S (Suc N) (sy\<lparr>s_cache := ?c\<lparr>c_gen := gen\<rparr>\<rparr>) p" by simp
    with gen [OF b] simulates_started [OF gen [OF b] s purge(1), of _ i F] purge step show ?thesis
      by (cases res) (auto simp: lookup_section_def b ring_delete_def split: if_split_asm)
  next
    case plain
    show ?thesis
    proof (cases "readCachedSecret F (c_now ?c) (acct s) (c_ring ?c)")
      case None
      with plain step simulates_started [OF keep s plain(1), of i F] show ?thesis by (auto simp: lookup_section_def)
    next
      case (Some v)
      with plain step keep hit_served [OF _ c(3) s, of F v] c(1) show ?thesis by (auto simp: lookup_section_def)
    qed
  qed (use step keep in \<open>auto simp: lookup_section_def\<close>)
qed

lemma finish_read_cases:
  assumes "finish_read acct ia F s g out c = (v, c1)"
  shows "c1 = c \<or> (\<exists>raw g'. out = Some raw \<and> g = Inr g' \<and> secretCacheGeneration F (c_gen c) = Inr g' \<and>
    c1 = c\<lparr>c_ring := writeCachedSecretLocked F (c_now c) ia (acct s) (rs_TTL s) raw (c_ring c)\<rparr>)"
proof (cases "rbind (runSecretCommand s out) (\<lambda>raw. rbind (checkSecretValue s raw) (\<lambda>v. Inr (raw, v)))")
  case (Inl e)
  with assms show ?thesis by (simp add: finish_read_def)
next
  case (Inr x)
  obtain raw w where x: "x = (raw, w)" by fastforce
  have "out = Some raw" using Inr unfolding x by (auto simp: rbind_eq_Inr runSecretCommand_def split: option.split_asm if_split_asm)
  moreover have "c1 = store_section acct ia F s g raw c" using assms Inr x by (simp add: finish_read_def)
  ultimately show ?thesis by (cases g) (auto simp: store_section_def)
qed

lemma finish_cache:
  assumes "finish_read acct ia F s g out c = (v, c1)" and c: "c_now c = now" "ring_ok ia (acct ` S) now (c_ring c)" "values_ok acct S now (c_ring c) fresh"
      "ia \<notin> acct ` S" "0 \<le> now" and s: "s \<in> S" "0 < rs_TTL s"
    and rd: "read_ok S N (c_gen c) (Some (s, g)) (Some (s, cur))" and N: "N < 2 ^ 64" and ap: "apart acct ia S"
    and sub: "set fresh \<subseteq> set fresh'" and new: "\<And>raw. out = Some raw \<Longrightarrow> cur \<Longrightarrow> (secret_id s, raw, now + rs_TTL s) \<in> set fresh'"
  shows "c_now c1 = now \<and> c_gen c1 = c_gen c \<and> ring_ok ia (acct ` S) now (c_ring c1) \<and> values_ok acct S now (c_ring c1) fresh'"
proof -
  have keep: "values_ok acct S now (c_ring c) fresh'" using c(3) sub unfolding values_ok_def by blast
  consider (same) "c1 = c" | (stored) raw g' where "out = Some raw" "g = Inr g'" "secretCacheGeneration F (c_gen c) = Inr g'"
      "c1 = c\<lparr>c_ring := writeCachedSecretLocked F now ia (acct s) (rs_TTL s) raw (c_ring c)\<rparr>"
    using finish_read_cases [OF assms(1)] c(1) by blast
  then show ?thesis
  proof cases
    case same
    then show ?thesis using c keep by simp
  next
    case stored
    have "cur" using read_ok_current [of S N c s g' "Some (s, cur)" F] rd stored(2,3) N by simp
    then have in': "(secret_id s, raw, now + rs_TTL s) \<in> set fresh'" using new stored(1) by blast
    let ?r = "writeCachedSecretLocked F now ia (acct s) (rs_TTL s) raw (c_ring c)"
    have w: "ring_ok ia (acct ` S) now ?r"
      "\<forall>a \<in> acct ` S. map_of ?r a = map_of (c_ring c) a \<or> map_of ?r a = None \<or> a = acct s \<and> (\<exists>d. map_of ?r a = Some (Envelope raw (now + rs_TTL s), d))"
      using write_cached [OF c(2,4) _ s(2) c(5) refl, of "acct s" F raw] s(1) by auto
    have "values_ok acct S now ?r fresh'"
      unfolding values_ok_def
    proof (intro ballI allI impI)
      fix s' v e d assume s': "s' \<in> S" "map_of ?r (acct s') = Some (Envelope v e, d)" "now < e"
      then consider "map_of (c_ring c) (acct s') = Some (Envelope v e, d)" | "acct s' = acct s" "v = raw" "e = now + rs_TTL s"
        using w(2) by (metis image_eqI item.inject(1) option.distinct(1) option.inject prod.inject)
      then show "(secret_id s', v, e) \<in> set fresh'"
      proof cases
        case 1
        then show ?thesis using keep s' by (simp add: values_ok_def)
      next
        case 2
        then show ?thesis using in' ap s'(1) s(1) unfolding apart_def by metis
      qed
    qed
    then show ?thesis using w(1) stored(4) c(1) by simp
  qed
qed

lemma finish_simulates:
  assumes sim: "simulates acct ia S N sy p" and ap: "apart acct ia S" and N: "N < 2 ^ 64"
    and step: "cache_step acct ia (Finish i out F) sy = (res, sy1)"
  shows "spec_ok (Finish i out F) res p \<and> simulates acct ia S (Suc N) sy1 (spec_next (Finish i out F) res p)"
proof -
  let ?c = "s_cache sy"
  have c: "c_now ?c = p_now p" "ring_ok ia (acct ` S) (p_now p) (c_ring ?c)" "values_ok acct S (p_now p) (c_ring ?c) (p_fresh p)" "ia \<notin> acct ` S" "0 \<le> p_now p"
    and rd: "read_ok S N (c_gen ?c) (map_of (s_reads sy) j) (map_of (p_reads p) j)" for j
    using sim ap by (auto simp: simulates_def apart_def)
  show ?thesis
  proof (cases "map_of (s_reads sy) i")
    case None
    then show ?thesis using step simulates_cache [OF sim c(1-3) read_ok_mono] by (cases out) auto
  next
    case (Some sg)
    obtain s g where x: "map_of (s_reads sy) i = Some (s, g)" using Some by (cases sg) auto
    then obtain cur where y: "map_of (p_reads p) i = Some (s, cur)" and s: "s \<in> S" "0 < rs_TTL s" using rd [of i] by (auto simp: read_ok_def)
    obtain v c1 where f: "finish_read acct ia F s g out ?c = (v, c1)" by fastforce
    have v: "v = rbind (runSecretCommand s out) (checkSecretValue s)"
      using f by (auto simp: finish_read_def split: sum.split_asm prod.split_asm)
        (auto simp: rbind_eq_Inr rbind_eq_Inl)
    define fresh where "fresh = (case out of Some raw \<Rightarrow> if cur then (secret_id s, raw, p_now p + rs_TTL s) # p_fresh p else p_fresh p | None \<Rightarrow> p_fresh p)"
    have nxt: "spec_next (Finish i out F) (Fetched v) p = p\<lparr>p_fresh := fresh, p_reads := AList.delete i (p_reads p)\<rparr>"
      using y by (cases p; cases out; cases cur) (simp_all add: fresh_def)
    have sub: "set (p_fresh p) \<subseteq> set fresh" by (auto simp: fresh_def split: option.split)
    have cache: "c_now c1 = p_now p" "c_gen c1 = c_gen ?c" "ring_ok ia (acct ` S) (p_now p) (c_ring c1)" "values_ok acct S (p_now p) (c_ring c1) fresh"
      using finish_cache [OF f c s rd [of i, unfolded x y] N ap sub] by (auto simp: fresh_def)
    have "read_ok S (Suc N) (c_gen c1) (map_of (AList.delete i (s_reads sy)) j) (map_of (AList.delete i (p_reads p)) j)" for j
      using read_ok_mono [OF rd [of j]] cache(2) by (cases "j = i") (simp_all add: map_of_delete read_ok_def)
    then have "simulates acct ia S (Suc N) (sy\<lparr>s_cache := c1, s_reads := AList.delete i (s_reads sy)\<rparr>) (p\<lparr>p_fresh := fresh, p_reads := AList.delete i (p_reads p)\<rparr>)"
      using cache c(5) by (simp add: simulates_def)
    then show ?thesis using step x y f v nxt by auto
  qed
qed

lemma purge_gen:
  assumes "purgeWorkspaceSecretCache acct ia F secrets c = (errs, c1)"
  shows "c_gen c1 = c_gen c \<and> errs \<noteq> [] \<or> (\<exists>res. bumpSecretCacheGeneration F (c_gen c) = (res, c_gen c1) \<and> (errs = [] \<longrightarrow> is_ok res))"
proof (cases "f_lock F")
  case True
  then show ?thesis using assms by (auto simp: purgeWorkspaceSecretCache_def)
next
  case False
  obtain res gen where b: "bumpSecretCacheGeneration F (c_gen c) = (res, gen)" by fastforce
  define idx where "idx = readSecretCacheIndex F ia (c_ring c)"
  define pending where "pending = purge_pending acct (c_now c) secrets (case idx of Inr i \<Rightarrow> i | Inl _ \<Rightarrow> [])"
  obtain left r1 errs1 where d: "purge_delete F pending (pending, c_ring c, errs_of res @ errs_of idx) = (left, r1, errs1)"
    by (metis prod_cases3)
  obtain w r2 where w: "writeSecretCacheIndex F (c_now c) ia left r1 = (w, r2)" by fastforce
  have "(case idx of Inl _ \<Rightarrow> (errs1, c\<lparr>c_gen := gen, c_ring := r1\<rparr>)
      | Inr _ \<Rightarrow> (case writeSecretCacheIndex F (c_now c) ia left r1 of (w, r2) \<Rightarrow> (errs1 @ errs_of w, c\<lparr>c_gen := gen, c_ring := r2\<rparr>))) = (errs, c1)"
    using assms False b d by (simp add: purgeWorkspaceSecretCache_def Let_def flip: idx_def pending_def)
  then have "c_gen c1 = gen \<and> (errs = [] \<longrightarrow> errs1 = [])" using w by (cases idx) auto
  moreover have "errs1 = [] \<longrightarrow> is_ok res" using purge_delete_map [OF d] by (cases res) (auto simp: errs_of_def)
  ultimately show ?thesis using b by auto
qed

lemma purge_simulates:
  assumes sim: "simulates acct ia S N sy p" and ap: "apart acct ia S" and s: "set secrets \<subseteq> S"
    and step: "cache_step acct ia (Purge secrets F) sy = (out, sy1)"
  shows "spec_ok (Purge secrets F) out p \<and> simulates acct ia S (Suc N) sy1 (spec_next (Purge secrets F) out p)"
proof -
  let ?c = "s_cache sy"
  have c: "c_now ?c = p_now p" "ring_ok ia (acct ` S) (p_now p) (c_ring ?c)" "values_ok acct S (p_now p) (c_ring ?c) (p_fresh p)" "ia \<notin> acct ` S" "0 \<le> p_now p"
    and rd: "read_ok S N (c_gen ?c) (map_of (s_reads sy) j) (map_of (p_reads p) j)" for j
    using sim ap by (auto simp: simulates_def apart_def)
  obtain errs c1 where p: "purgeWorkspaceSecretCache acct ia F secrets ?c = (errs, c1)" by fastforce
  have r: "ring_ok ia (acct ` S) (p_now p) (c_ring c1)" "no_new (acct ` S) (c_ring ?c) (c_ring c1)" "c_now c1 = p_now p"
    "errs = [] \<longrightarrow> (\<forall>a \<in> acct ` S. \<forall>v e d. map_of (c_ring c1) a = Some (Envelope v e, d) \<longrightarrow> \<not> p_now p < e)"
    using purge_ring [OF p, of "acct ` S"] c s unfolding c(1) by auto
  have out: "out = Purged errs" "sy1 = sy\<lparr>s_cache := c1\<rparr>" using step p by auto
  show ?thesis
  proof (cases "errs = []")
    case True
    with purge_gen [OF p] obtain res where b: "bumpSecretCacheGeneration F (c_gen ?c) = (res, c_gen c1)" "is_ok res" by auto
    have "values_ok acct S (p_now p) (c_ring c1) []" using r(4) True by (auto simp: values_ok_def)
    then show ?thesis using r c(5) read_ok_bump [OF rd b(1)] b(2) True unfolding out by (simp add: simulates_def map_of_stale)
  next
    case False
    have "read_ok S (Suc N) (c_gen c1) (map_of (s_reads sy) j) (map_of (p_reads p) j)" for j
      using purge_gen [OF p] read_ok_mono [OF rd [of j]] read_ok_bump [OF rd [of j]] by metis
    then have "simulates acct ia S (Suc N) sy1 p"
      unfolding out using simulates_cache [OF sim r(3,1) values_no_new [OF c(3) r(2)]] by blast
    then show ?thesis using False unfolding out by (cases errs) auto
  qed
qed

lemma lapse_ok:
  assumes "ring_ok ia A (c_now c) (c_ring c)" and "ia \<notin> A" and "0 \<le> c_now c"
  shows "ring_ok ia A (c_now c) (c_ring (lapse a c)) \<and> no_new A (c_ring c) (c_ring (lapse a c)) \<and> c_now (lapse a c) = c_now c \<and> c_gen (lapse a c) = c_gen c"
proof (cases "lapse a c = c")
  case False
  then obtain it d where d: "map_of (c_ring c) a = Some (it, d)" "d \<le> c_now c" "lapse a c = c\<lparr>c_ring := AList.delete a (c_ring c)\<rparr>"
    by (auto simp: lapse_def split: option.split_asm if_split_asm)
  have "ring_ok ia A (c_now c) (AList.delete a (c_ring c))"
  proof (cases "a = ia")
    case True
    then obtain idx where idx: "it = Index idx" "index_ok A idx d" using assms(1) d(1) by (auto simp: ring_ok_def)
    have "\<not> c_now c < e" if b: "b \<in> A" "map_of (c_ring c) b = Some (Envelope v e, d')" for b v e d'
    proof
      assume e: "c_now c < e"
      obtain i d'' where i: "map_of (c_ring c) ia = Some (Index i, d'')" "e \<le> index_at i b" using assms(1) b e unfolding ring_ok_def by blast
      then have i': "i = idx" using d(1) idx(1) True by simp
      show False
      proof (cases "map_of idx b")
        case None
        then show False using i(2) i' e assms(3) by (simp add: index_at_def)
      next
        case (Some x)
        then have "x < d" using idx(2) by (force simp: index_ok_def dest: map_of_SomeD)
        then show False using i(2) i' Some d(2) e by (simp add: index_at_def)
      qed
    qed
    then show ?thesis using ring_ok_remove_index [OF assms(2)] True by blast
  next
    case False
    then show ?thesis using assms unfolding ring_ok_def map_of_delete by (metis option.distinct(1))
  qed
  then show ?thesis using d(3) by simp
qed (use assms in auto)

lemma step_simulates:
  assumes sim: "simulates acct ia S N sy p" and ap: "apart acct ia S" and s: "set (op_secrets op) \<subseteq> S" and N: "N < 2 ^ 64"
    and step: "cache_step acct ia op sy = (out, sy1)"
  shows "spec_ok op out p \<and> simulates acct ia S (Suc N) sy1 (spec_next op out p)"
proof (cases op)
  case (Lookup i s' purge F)
  then show ?thesis using lookup_simulates [OF sim ap] s step by simp
next
  case (Finish i res F)
  then show ?thesis using finish_simulates [OF sim ap N] step by simp
next
  case (Purge secrets F)
  then show ?thesis using purge_simulates [OF sim ap] s step by simp
next
  case (Pass n)
  have "ring_ok ia (acct ` S) (p_now p + int n) (c_ring (s_cache sy))" using sim by (auto simp: simulates_def intro: ring_ok_later)
  moreover have "values_ok acct S (p_now p + int n) (c_ring (s_cache sy)) (p_fresh p)" using sim by (fastforce simp: simulates_def values_ok_def)
  ultimately show ?thesis using sim step Pass read_ok_mono by (auto simp: simulates_def)
next
  case (Lapse a)
  have "ring_ok ia (acct ` S) (p_now p) (c_ring (lapse a (s_cache sy)))" "no_new (acct ` S) (c_ring (s_cache sy)) (c_ring (lapse a (s_cache sy)))"
    "c_now (lapse a (s_cache sy)) = p_now p" "c_gen (lapse a (s_cache sy)) = c_gen (s_cache sy)"
    using lapse_ok [of ia "acct ` S" "s_cache sy" a] sim ap by (auto simp: simulates_def apart_def)
  then have "simulates acct ia S (Suc N) (sy\<lparr>s_cache := lapse a (s_cache sy)\<rparr>) p"
    using sim values_no_new read_ok_mono by (intro simulates_cache [OF sim]) (auto simp: simulates_def)
  then show ?thesis using step Lapse by auto
qed

lemma run_simulates:
  "simulates acct ia S N sy p \<Longrightarrow> apart acct ia S \<Longrightarrow> \<forall>op \<in> set ops. set (op_secrets op) \<subseteq> S \<Longrightarrow> N + length ops \<le> 2 ^ 64 \<Longrightarrow>
   spec_accepts ops (cache_run acct ia ops sy) p"
proof (induction ops arbitrary: N sy p)
  case (Cons op ops)
  obtain out sy1 where step: "cache_step acct ia op sy = (out, sy1)" by fastforce
  have "N < 2 ^ 64" using Cons.prems(4) by simp
  then have "spec_ok op out p" "simulates acct ia S (Suc N) sy1 (spec_next op out p)"
    using step_simulates [OF Cons.prems(1,2) _ _ step] Cons.prems(3) by auto
  then show ?case using Cons.IH [of "Suc N" sy1 "spec_next op out p"] Cons.prems step by simp
qed simp

section \<open>Property\<close>

lemma split_nul: "CHR 0x00 \<notin> set a \<Longrightarrow> CHR 0x00 \<notin> set b \<Longrightarrow> a @ CHR 0x00 # x = b @ CHR 0x00 # y \<longleftrightarrow> a = b \<and> x = y"
  by (auto simp: append_eq_append_conv2 Cons_eq_append_conv append_eq_Cons_conv)

lemma account_inputs:
  assumes "account_input cfg ws s = account_input cfg ws s'" and "CHR 0x00 \<notin> set (rs_Name s)" and "CHR 0x00 \<notin> set (rs_Name s')"
  shows "secret_id s = secret_id s'"
proof -
  have k: "CHR 0x00 \<notin> set (kind_word k)" for k by (cases k) (simp_all add: kind_word_def)
  have "kind_word (rs_Kind s) = kind_word (rs_Kind s') \<and> rs_Name s = rs_Name s' \<and> rs_FromCommand s = rs_FromCommand s'"
    using assms unfolding account_input_def same_append_eq list.inject by (simp add: split_nul k)
  then show ?thesis by (cases "rs_Kind s"; cases "rs_Kind s'") (simp_all add: secret_id_def kind_word_def)
qed

definition start_sys :: "string option \<Rightarrow> int \<Rightarrow> cache_sys" where
  "start_sys gen now = \<lparr>s_cache = \<lparr>c_ring = [], c_gen = gen, c_now = now\<rparr>, s_reads = []\<rparr>"

definition start_spec :: "int \<Rightarrow> cache_spec" where
  "start_spec now = \<lparr>p_now = now, p_fresh = [], p_reads = []\<rparr>"

text \<open>C13. The secret cache serves nothing stale. Any number of processes read and purge the secrets of a workspace, their
  sections in any order, with failures of the keyring, the lock and the generation file anywhere, while time
  passes and the system drops entries at the end of their lifetime; at most \<open>2 ^ 64\<close> sections run. Names hold no
  NUL and the hash does not collide on the inputs in use. Then the outputs are those the specification allows:
  a read serves from the cache only without the purge flag, and only what a command of the same secret (same kind,
  name and command) printed in a read that began after the last purge that succeeded, within its lifetime; every
  other read returns what its own command printed.\<close>

theorem secret_cache_fresh:
  assumes "length ops \<le> 2 ^ 64" and "0 \<le> now"
    and "\<forall>op \<in> set ops. \<forall>s \<in> set (op_secrets op). CHR 0x00 \<notin> set (rs_Name s)"
    and "\<forall>op \<in> set ops. \<forall>s \<in> set (op_secrets op). \<forall>op' \<in> set ops. \<forall>s' \<in> set (op_secrets op').
      hash (account_input cfg ws s) = hash (account_input cfg ws s') \<longrightarrow> account_input cfg ws s = account_input cfg ws s'"
  shows "spec_accepts ops (cache_run (secretCacheAccount hash cfg ws) (secretCacheIndexAccount hash cfg ws) ops (start_sys gen now)) (start_spec now)"
proof -
  let ?S = "\<Union>op \<in> set ops. set (op_secrets op)" and ?a = "secretCacheAccount hash cfg ws" and ?i = "secretCacheIndexAccount hash cfg ws"
  have "apart ?a ?i ?S"
    unfolding apart_def
  proof (intro conjI ballI impI)
    show "?i \<notin> ?a ` ?S" by (auto simp: secretCacheAccount_def secretCacheIndexAccount_def)
    fix s s' assume "s \<in> ?S" "s' \<in> ?S" "?a s = ?a s'"
    then show "secret_id s = secret_id s'"
      using assms(3,4) account_inputs [of cfg ws s s'] by (auto simp: secretCacheAccount_def)
  qed
  moreover have "simulates ?a ?i ?S 0 (start_sys gen now) (start_spec now)"
    using assms(2) by (simp add: simulates_def start_sys_def start_spec_def ring_ok_def values_ok_def read_ok_def)
  ultimately show ?thesis using run_simulates [of ?a ?i ?S 0 _ _ ops] assms(1) by auto
qed

text \<open>A command that began before a purge ends after it: its output is not cached.\<close>

definition no_faults :: faults where
  "no_faults = \<lparr>f_lock = False, f_get = (\<lambda>_. False), f_set = (\<lambda>_. False), f_del = (\<lambda>_. False), f_gen_read = False, f_gen_write = Written\<rparr>"

definition token_secret :: ResolvedSecret where
  "token_secret = \<lparr>rs_Name = ''TOKEN'', rs_Kind = SecretKindEnv, rs_FromEnv = [], rs_FromFile = [], rs_FromCommand = ''pass show t'', rs_TTL = 60 * second\<rparr>"

definition token_ops :: "cache_op list" where
  "token_ops =
     [Lookup 1 token_secret False no_faults, Purge [token_secret] no_faults, Finish 1 (Some ''old'') no_faults,
      Lookup 2 token_secret False no_faults, Finish 2 (Some (''new'' @ [CHR 0x0A])) no_faults, Pass 1000, Lookup 3 token_secret False no_faults]"

theorem secret_cache_fresh_witness:
  "cache_run (secretCacheAccount (\<lambda>x. x) ''/c'' ''w'') (secretCacheIndexAccount (\<lambda>x. x) ''/c'' ''w'') token_ops (start_sys None 5) =
     [Running, Purged [], Fetched (Inr ''old''), Running, Fetched (Inr ''new''), Quiet, Cached (Inr ''new'')] \<and>
   spec_accepts token_ops [Running, Purged [], Fetched (Inr ''old''), Running, Fetched (Inr ''new''), Quiet, Cached (Inr ''new'')] (start_spec 5)"
proof -
  have run: "cache_run (secretCacheAccount (\<lambda>x. x) ''/c'' ''w'') (secretCacheIndexAccount (\<lambda>x. x) ''/c'' ''w'') token_ops (start_sys None 5) =
     [Running, Purged [], Fetched (Inr ''old''), Running, Fetched (Inr ''new''), Quiet, Cached (Inr ''new'')]"
    by code_simp
  have "length token_ops \<le> 2 ^ 64" by (simp add: token_ops_def)
  from secret_cache_fresh [OF this, of 5 "\<lambda>x. x" "''/c''" "''w''" None] run show ?thesis
    by (simp add: token_ops_def token_secret_def)
qed

end
