(* ===== verification/SecretDelivery.thy ===== *)
theory SecretDelivery
  imports SecretCacheProps GuestFiles WorkspaceProps
begin

text \<open>
  From the configured secrets to the guest: the payload the host puts together (\<open>secretsPayload\<close> in
  \<open>internal/cmd/vmflow_unix.go\<close>), composed with its delivery in the guest.
\<close>

section \<open>Payload\<close>

definition SSHAgentSocket :: string where "SSHAgentSocket = ''/run/ssh-agent.sock''"

text \<open>The host: its environment, readable files, the outputs of commands, and the faults of each read.\<close>

record secret_host =
  sh_env :: "string \<rightharpoonup> string"
  sh_files :: "string \<rightharpoonup> string"
  sh_run :: "ResolvedSecret \<Rightarrow> string option"
  sh_faults :: "ResolvedSecret \<Rightarrow> faults \<times> faults"

definition read_one :: "(ResolvedSecret \<Rightarrow> string) \<Rightarrow> string \<Rightarrow> secret_host \<Rightarrow> bool \<Rightarrow> ResolvedSecret \<Rightarrow> cache \<Rightarrow> (secret_read_error, string) result \<times> cache" where
  "read_one acct ia h purgeCache s c =
     readSecret acct ia (sh_env h) (sh_files h) (sh_run h) (fst (sh_faults h s)) (snd (sh_faults h s)) s purgeCache c"

fun add_secrets ::
  "(ResolvedSecret \<Rightarrow> string) \<Rightarrow> string \<Rightarrow> secret_host \<Rightarrow> bool \<Rightarrow> ResolvedSecret list \<Rightarrow> ExecLog.Secrets \<times> cache \<Rightarrow>
   (secret_read_error, ExecLog.Secrets) result \<times> cache" where
  "add_secrets acct ia h purgeCache [] (payload, c) = (Inr payload, c)"
| "add_secrets acct ia h purgeCache (s # ss) (payload, c) =
     (case read_one acct ia h purgeCache s c of
        (Inl e, c1) \<Rightarrow> (Inl e, c1)
      | (Inr value, c1) \<Rightarrow>
          add_secrets acct ia h purgeCache ss
            (if rs_Kind s = SecretKindEnv then payload\<lparr>s_Env := s_Env payload @ [rs_Name s @ ''='' @ value]\<rparr>
             else payload\<lparr>s_Files := AList.update (rs_Name s) value (s_Files payload)\<rparr>, c1))"

definition base_env :: "Resolved \<Rightarrow> string \<Rightarrow> string \<Rightarrow> string list" where
  "base_env ws sshAgent caBundle =
     r_Env ws @ (if sshAgent \<noteq> [] then [''SSH_AUTH_SOCK='' @ SSHAgentSocket] else []) @ (if caBundle \<noteq> [] then [''NODE_USE_SYSTEM_CA=1''] else [])"

definition secretsPayload ::
  "(ResolvedSecret \<Rightarrow> string) \<Rightarrow> string \<Rightarrow> secret_host \<Rightarrow> faults \<Rightarrow> Resolved \<Rightarrow> string \<Rightarrow> string \<Rightarrow> bool \<Rightarrow> cache \<Rightarrow>
   (secret_read_error list, ExecLog.Secrets) result \<times> cache" where
  "secretsPayload acct ia h F ws sshAgent caBundle purgeCache c =
     (case if purgeCache then purgeWorkspaceSecretCache acct ia F (r_Secrets ws) c else ([], c) of
        (errs, c1) \<Rightarrow>
          if errs \<noteq> [] then (Inl errs, c1)
          else (case add_secrets acct ia h purgeCache (r_Secrets ws) (\<lparr>s_Env = base_env ws sshAgent caBundle, s_Files = []\<rparr>, c1) of
                  (Inl e, c2) \<Rightarrow> (Inl [e], c2)
                | (Inr payload, c2) \<Rightarrow> (Inr payload, c2)))"

section \<open>Delivery\<close>

text \<open>The values read for the secrets, in order, and what they add to the payload.\<close>

definition env_of :: "(ResolvedSecret \<times> string) list \<Rightarrow> string list" where
  "env_of vs = map (\<lambda>(s, v). rs_Name s @ ''='' @ v) (filter (\<lambda>(s, _). rs_Kind s = SecretKindEnv) vs)"

definition files_of :: "(ResolvedSecret \<times> string) list \<Rightarrow> (string \<times> string) list" where
  "files_of vs = map (\<lambda>(s, v). (rs_Name s, v)) (filter (\<lambda>(s, _). rs_Kind s \<noteq> SecretKindEnv) vs)"

definition was_read :: "(ResolvedSecret \<Rightarrow> string) \<Rightarrow> string \<Rightarrow> secret_host \<Rightarrow> bool \<Rightarrow> ResolvedSecret \<times> string \<Rightarrow> bool" where
  "was_read acct ia h purgeCache sv \<longleftrightarrow> (\<exists>c c1. read_one acct ia h purgeCache (fst sv) c = (Inr (snd sv), c1))"

lemma update_new: "k \<notin> fst ` set al \<Longrightarrow> AList.update k v al = al @ [(k, v)]"
  by (induction al) auto

lemma add_secrets_values:
  assumes "add_secrets acct ia h purgeCache ss (payload, c) = (Inr pl, c1)" and "distinct (map rs_Name ss)"
    and "fst ` set (s_Files payload) \<inter> rs_Name ` set ss = {}"
  obtains vs where "map fst vs = ss" and "list_all (was_read acct ia h purgeCache) vs"
    and "s_Env pl = s_Env payload @ env_of vs" and "s_Files pl = s_Files payload @ files_of vs"
  using assms
proof (induction ss arbitrary: payload c thesis)
  case Nil
  then show ?case by (simp add: env_of_def files_of_def)
next
  case (Cons s ss)
  obtain v c2 where r: "read_one acct ia h purgeCache s c = (Inr v, c2)"
    using Cons.prems(2) by (auto split: prod.split_asm sum.split_asm)
  define payload1 where "payload1 = (if rs_Kind s = SecretKindEnv then payload\<lparr>s_Env := s_Env payload @ [rs_Name s @ ''='' @ v]\<rparr>
      else payload\<lparr>s_Files := AList.update (rs_Name s) v (s_Files payload)\<rparr>)"
  have f: "s_Files payload1 = s_Files payload @ files_of [(s, v)]" "s_Env payload1 = s_Env payload @ env_of [(s, v)]"
    using Cons.prems(4) by (auto simp: payload1_def files_of_def env_of_def update_new)
  have a: "add_secrets acct ia h purgeCache ss (payload1, c2) = (Inr pl, c1)" using Cons.prems(2) r by (simp add: payload1_def)
  have d: "fst ` set (s_Files payload1) \<inter> rs_Name ` set ss = {}"
    using Cons.prems(3,4) unfolding f by (auto simp: files_of_def)
  from Cons.IH [OF _ a _ d] Cons.prems(3) obtain vs where vs: "map fst vs = ss" "list_all (was_read acct ia h purgeCache) vs"
    "s_Env pl = s_Env payload1 @ env_of vs" "s_Files pl = s_Files payload1 @ files_of vs" by auto
  have "was_read acct ia h purgeCache (s, v)" using r by (auto simp: was_read_def)
  then show ?case using vs f by (intro Cons.prems(1) [of "(s, v) # vs"]) (simp_all add: env_of_def files_of_def)
qed

text \<open>What the checks of the configuration say about names, and \<open>checkSecretValue\<close> about values.\<close>

lemma alnum_chars: "is_alnum c \<or> c = CHR ''_'' \<or> c = CHR ''-'' \<Longrightarrow> c \<notin> {CHR ''='', CHR 0x0A, CHR 0x00, CHR ''/'', CHR ''.''}"
  by (auto simp: is_alnum_def is_digit_def is_lower_def is_upper_def)

lemma secret_names:
  assumes "secret_ok s"
  shows "rs_Kind s = SecretKindEnv \<Longrightarrow> rs_Name s \<noteq> [] \<and> set (rs_Name s) \<inter> {CHR ''='', CHR 0x0A, CHR 0x00} = {}"
    and "rs_Kind s \<noteq> SecretKindEnv \<Longrightarrow> \<not> bad_secret_name (rs_Name s)"
proof -
  have env: "set n \<inter> {CHR ''='', CHR 0x0A, CHR 0x00} = {}" if "list_all (\<lambda>c. is_alnum c \<or> c = CHR ''_'') n" for n
  proof -
    have "\<forall>c \<in> set n. c \<notin> {CHR ''='', CHR 0x0A, CHR 0x00, CHR ''/'', CHR ''.''}" using that alnum_chars unfolding list_all_iff by blast
    then show ?thesis by blast
  qed
  show "rs_Kind s = SecretKindEnv \<Longrightarrow> rs_Name s \<noteq> [] \<and> set (rs_Name s) \<inter> {CHR ''='', CHR 0x0A, CHR 0x00} = {}"
    using assms env by (simp add: secret_ok_def envVarNameRe_def)
  have name: "\<not> bad_secret_name n" if "n \<noteq> []" "list_all (\<lambda>c. is_alnum c \<or> c = CHR ''_'' \<or> c = CHR ''-'') n" for n
  proof -
    have all: "\<forall>c \<in> set n. c \<notin> {CHR ''='', CHR 0x0A, CHR 0x00, CHR ''/'', CHR ''.''}" using that(2) alnum_chars unfolding list_all_iff by blast
    show ?thesis using that(1) bspec [OF all, of "CHR ''/''"] bspec [OF all, of "CHR 0x00"] bspec [OF all, of "CHR ''.''"] by (auto simp: bad_secret_name_def)
  qed
  show "rs_Kind s \<noteq> SecretKindEnv \<Longrightarrow> \<not> bad_secret_name (rs_Name s)"
    using assms name by (cases "rs_Kind s") (simp_all add: secret_ok_def secretNameRe_def)
qed

lemma checked_value:
  assumes "checkSecretValue s raw = Inr v" and "rs_Kind s = SecretKindEnv"
  shows "CHR 0x0A \<notin> set v \<and> CHR 0x00 \<notin> set v"
proof -
  have "\<not> list_ex (\<lambda>c. line_break c \<or> c = CHR 0x00) v" using assms by (auto simp: checkSecretValue_def Let_def split: if_split_asm)
  then have all: "\<forall>c \<in> set v. \<not> (line_break c \<or> c = CHR 0x00)" by (simp add: list_ex_iff)
  show ?thesis using bspec [OF all, of "CHR 0x0A"] bspec [OF all, of "CHR 0x00"] by (auto simp: line_break_def)
qed

lemma lookup_checked: "lookup_section acct F purgeCache s c = (Hit w, c1) \<Longrightarrow> \<exists>raw. w = checkSecretValue s raw"
  by (auto simp: lookup_section_def split: if_split_asm option.split_asm prod.split_asm sum.split_asm)

lemma finish_checked:
  assumes "finish_read acct ia F s g out c = (Inr v, c1)"
  shows "\<exists>raw. checkSecretValue s raw = Inr v"
proof (cases "rbind (runSecretCommand s out) (\<lambda>raw. rbind (checkSecretValue s raw) (\<lambda>v. Inr (raw, v)))")
  case (Inl e)
  with assms show ?thesis by (simp add: finish_read_def)
next
  case (Inr x)
  obtain raw w where x: "x = (raw, w)" by fastforce
  with Inr have "checkSecretValue s raw = Inr w" by (auto simp: rbind_eq_Inr)
  moreover have "w = v" using assms Inr x by (simp add: finish_read_def)
  ultimately show ?thesis by blast
qed

lemma read_checked:
  assumes "read_one acct ia h purgeCache s c = (Inr v, c1)"
  shows "\<exists>raw. checkSecretValue s raw = Inr v"
proof (cases "rs_FromEnv s \<noteq> [] \<or> rs_FromFile s \<noteq> [] \<or> rs_TTL s \<le> 0")
  case True
  then show ?thesis using assms
    by (auto simp: read_one_def readSecret_def rbind_eq_Inr split: if_split_asm option.split_asm)
next
  case False
  obtain l c2 where l: "lookup_section acct (fst (sh_faults h s)) purgeCache s c = (l, c2)" by fastforce
  then show ?thesis using assms False finish_checked lookup_checked [of acct "fst (sh_faults h s)" purgeCache s c _ c2]
    by (cases l) (fastforce simp: read_one_def readSecret_def)+
qed

lemma find_unique:
  assumes "x \<in> set xs" and "P x" and "\<And>y. y \<in> set xs \<Longrightarrow> P y \<Longrightarrow> y = x"
  shows "List.find P xs = Some x"
proof (cases "List.find P xs")
  case None
  then show ?thesis using assms(1,2) by (auto simp: find_None_iff)
next
  case (Some y)
  then have "y \<in> set xs \<and> P y" by (auto simp: find_Some_iff)
  then show ?thesis using assms(3) Some by blast
qed

lemma entry_key: "CHR ''='' \<notin> set n \<Longrightarrow> GuestFiles.env_key (n @ ''='' @ v) = n \<and> fst (snd (Cut (n @ ''='' @ v) ''='')) = v"
  by (simp add: GuestFiles.env_key_def Cut_char_append)

text \<open>The entries of the payload are accepted by the guest.\<close>

lemma env_of_good:
  assumes "list_all secret_ok (map fst vs)" and "list_all (was_read acct ia h purgeCache) vs"
  shows "list_all (\<lambda>kv. \<not> bad_env_entry kv) (env_of vs)"
proof -
  have "\<not> bad_env_entry (rs_Name s @ ''='' @ v)" if sv: "(s, v) \<in> set vs" "rs_Kind s = SecretKindEnv" for s v
  proof -
    have "secret_ok s" "was_read acct ia h purgeCache (s, v)" using assms sv(1) by (auto simp: list_all_iff)
    then obtain raw where "checkSecretValue s raw = Inr v" using read_checked by (fastforce simp: was_read_def)
    note v = checked_value [OF this sv(2)] and n = secret_names(1) [OF \<open>secret_ok s\<close> sv(2)]
    have "Contains_str (rs_Name s @ ''='' @ v) ''=''" using Index_append_char [of "CHR ''=''" "rs_Name s" v] n by (simp add: Contains_str_def)
    then show ?thesis using v n by (auto simp: bad_env_entry_def)
  qed
  then show ?thesis by (auto simp: env_of_def list_all_iff)
qed

lemma write_files_ok: "list_all (\<lambda>(n, _). \<not> bad_secret_name n) fs \<Longrightarrow> \<exists>g'. write_files (\<lambda>_. True) fs g = (Inr (), g')"
  by (induction "\<lambda>_ :: string. True" fs g rule: write_files.induct) auto

lemma kept_by_stale: "name \<in> fst ` set (s_Files s) \<Longrightarrow> map_of (ss_dir (remove_stale gone s g)) name = map_of (ss_dir g) name"
proof -
  assume n: "name \<in> fst ` set (s_Files s)"
  have "map_of (filter (\<lambda>(k, _). k \<in> fst ` set (s_Files s) \<or> tmp_name k \<or> \<not> gone k) xs) name = map_of xs name" for xs :: "(string \<times> secret_entry) list"
    by (induction xs) (use n in \<open>simp_all split: prod.split\<close>)
  then show ?thesis by (simp add: remove_stale_def)
qed

lemma removed_stale:
  assumes "n \<notin> fst ` set (s_Files s)" and "gone n" and "\<not> tmp_name n"
  shows "map_of (ss_dir (remove_stale gone s g)) n = None"
proof -
  have "fst e \<noteq> n" if "e \<in> set (ss_dir (remove_stale gone s g))" for e using that assms by (force simp: remove_stale_def)
  then show ?thesis unfolding map_of_eq_None_iff by blast
qed

lemma payload_written:
  assumes "list_all (\<lambda>(n, _). \<not> bad_secret_name n) (s_Files pl)" and "list_all (\<lambda>kv. \<not> bad_env_entry kv) (s_Env pl)" and "distinct (map fst (s_Files pl))"
  obtains g' where "WriteSecrets (\<lambda>_. True) True gone pl g = (Inr (), g')"
    and "\<And>n. gone n \<Longrightarrow> \<not> tmp_name n \<Longrightarrow> map_of (ss_dir g') n = map_option SecretFile (map_of (s_Files pl) n)"
    and "\<And>n v. (n, v) \<in> set (s_Files pl) \<Longrightarrow> map_of (ss_dir g') n = Some (SecretFile v)"
proof -
  obtain g1 where w: "write_files (\<lambda>_. True) (s_Files pl) g = (Inr (), g1)" using write_files_ok [OF assms(1)] by blast
  let ?g = "(remove_stale gone pl g1)\<lparr>ss_env := Some (env_lines (s_Env pl))\<rparr>"
  have "\<not> list_ex bad_env_entry (s_Env pl)" using assms(2) by (auto simp: list_ex_iff list_all_iff)
  then have "WriteSecrets (\<lambda>_. True) True gone pl g = (Inr (), ?g)" using w by (simp add: WriteSecrets_def Let_def)
  moreover have there: "map_of (ss_dir ?g) n = Some (SecretFile v)" if "(n, v) \<in> set (s_Files pl)" for n v
    using kept_by_stale [of n pl gone g1] write_files_dir [OF w assms(3) that] that by force
  moreover have "map_of (ss_dir ?g) n = map_option SecretFile (map_of (s_Files pl) n)" if "gone n" "\<not> tmp_name n" for n
  proof (cases "map_of (s_Files pl) n")
    case None
    then show ?thesis using removed_stale [OF iffD1 [OF map_of_eq_None_iff None], of gone g1] that by simp
  next
    case (Some v)
    then show ?thesis using there map_of_SomeD by fastforce
  qed
  ultimately show thesis using that by blast
qed

lemma getenv_append: "getenv (xs @ ys) key = (case getenv xs key of Some v \<Rightarrow> Some v | None \<Rightarrow> getenv ys key)"
  by (auto simp: getenv_def find_append split: option.split)

lemma delivered_entry:
  assumes "distinct (map (rs_Name \<circ> fst) vs)" and "list_all secret_ok (map fst vs)" and "(s, v) \<in> set vs" and "rs_Kind s = SecretKindEnv"
  shows "getenv (rev (base @ env_of vs) @ rest) (rs_Name s) = Some v"
proof -
  let ?P = "\<lambda>kv. GuestFiles.env_key kv = rs_Name s" and ?x = "rs_Name s @ ''='' @ v"
  have key: "GuestFiles.env_key (rs_Name s' @ ''='' @ v') = rs_Name s' \<and> fst (snd (Cut (rs_Name s' @ ''='' @ v') ''='')) = v'"
    if "(s', v') \<in> set vs" "rs_Kind s' = SecretKindEnv" for s' v'
    using secret_names(1) [of s'] that assms(2) by (intro entry_key) (auto simp: list_all_iff)
  have "List.find ?P (rev (env_of vs)) = Some ?x"
  proof (rule find_unique)
    show "?x \<in> set (rev (env_of vs))" using assms(3,4) by (force simp: env_of_def)
    show "?P ?x" using key [OF assms(3,4)] by simp
    fix y assume "y \<in> set (rev (env_of vs))" "?P y"
    then obtain s' v' where y: "(s', v') \<in> set vs" "rs_Kind s' = SecretKindEnv" "y = rs_Name s' @ ''='' @ v'" by (auto simp: env_of_def)
    then have "(rs_Name \<circ> fst) (s', v') = (rs_Name \<circ> fst) (s, v)" using key \<open>?P y\<close> by simp
    then have "(s', v') = (s, v)" using assms(1,3) y(1) unfolding distinct_map inj_on_def by blast
    then show "y = ?x" using y(3) by simp
  qed
  then show ?thesis using key [OF assms(3,4)] by (simp add: getenv_def find_append)
qed

text \<open>C14. The configured secrets reach the guest, and nothing else does. For a validated and resolved workspace whose
  environment entries have no line break or NUL, if the host puts the payload together then the guest accepts it
  whenever its writes succeed, and every secret was read with some value. A name in the directory of secrets, of an
  entry that can be removed and is no temporary file, is afterwards that of a file secret, with its value as
  content: environment secrets are not written there, and files of earlier deliveries are gone. A program started
  with any entries of its own sees a variable as given by the last of these: the process, the workspace with
  the settings for the SSH agent and the CA bundle, the environment secrets, its own entries. In particular it sees
  every environment secret it does not set itself.\<close>

theorem secrets_reach_programs:
  assumes "Validate sy (Some cfg0) = Inr cfg" and "map_of (c_Workspaces cfg) name = Some ws" and "Resolve sy (Some cfg) name = Inr r"
    and "list_all (\<lambda>kv. \<not> bad_env_entry kv) (r_Env r)"
    and "secretsPayload acct ia h F r sshAgent caBundle purgeCache c = (Inr pl, c1)"
  shows "\<exists>g' vs. WriteSecrets (\<lambda>_. True) True gone pl g = (Inr (), g') \<and> map fst vs = r_Secrets r \<and> list_all (was_read acct ia h purgeCache) vs \<and>
    (\<forall>n. gone n \<longrightarrow> \<not> tmp_name n \<longrightarrow> map_of (ss_dir g') n = map_option SecretFile (map_of (files_of vs) n)) \<and>
    (\<forall>environ extraEnv n. getenv (programEnv environ g' extraEnv) n =
       getenv (rev extraEnv @ rev (env_of vs) @ rev (base_env r sshAgent caBundle) @ rev environ) n) \<and>
    (\<forall>(s, v) \<in> set vs.
       if rs_Kind s = SecretKindEnv
       then \<forall>environ extraEnv. getenv extraEnv (rs_Name s) = None \<longrightarrow> getenv (programEnv environ g' extraEnv) (rs_Name s) = Some v
       else map_of (ss_dir g') (rs_Name s) = Some (SecretFile v))"
proof -
  have ok: "distinct (map rs_Name (r_Secrets r))" "list_all secret_ok (r_Secrets r)" using resolved_secrets [OF assms(1-3)] by auto
  let ?base = "base_env r sshAgent caBundle"
  obtain c0 where "add_secrets acct ia h purgeCache (r_Secrets r) (\<lparr>s_Env = ?base, s_Files = []\<rparr>, c0) = (Inr pl, c1)"
    using assms(5) by (auto simp: secretsPayload_def split: prod.split_asm sum.split_asm if_split_asm)
  from add_secrets_values [OF this ok(1)] obtain vs where vs: "map fst vs = r_Secrets r" "list_all (was_read acct ia h purgeCache) vs"
    "s_Env pl = ?base @ env_of vs" "s_Files pl = files_of vs" by auto
  have sok: "list_all secret_ok (map fst vs)" "distinct (map (rs_Name \<circ> fst) vs)" using ok vs(1) by (simp_all flip: map_map)
  have "list_all (\<lambda>(n, _). \<not> bad_secret_name n) (s_Files pl)"
    unfolding vs(4) using sok(1) secret_names(2) by (fastforce simp: files_of_def list_all_iff)
  moreover have "\<not> bad_env_entry (''SSH_AUTH_SOCK='' @ SSHAgentSocket)" "\<not> bad_env_entry ''NODE_USE_SYSTEM_CA=1''" by code_simp+
  then have "list_all (\<lambda>kv. \<not> bad_env_entry kv) (s_Env pl)"
    unfolding vs(3) using assms(4) env_of_good [OF sok(1) vs(2)] by (simp add: base_env_def)
  moreover have "distinct (map fst (s_Files pl))"
    unfolding vs(4) files_of_def using sok(2) by (simp add: comp_def split_def distinct_map_filter)
  ultimately obtain g' where w: "WriteSecrets (\<lambda>_. True) True gone pl g = (Inr (), g')"
    and exact: "\<And>n. gone n \<Longrightarrow> \<not> tmp_name n \<Longrightarrow> map_of (ss_dir g') n = map_option SecretFile (map_of (s_Files pl) n)"
    and files: "\<And>n v. (n, v) \<in> set (s_Files pl) \<Longrightarrow> map_of (ss_dir g') n = Some (SecretFile v)"
    using payload_written [of pl gone g] by blast
  have env: "getenv (programEnv environ g' extraEnv) n = getenv (rev extraEnv @ rev (env_of vs) @ rev ?base @ rev environ) n" for environ extraEnv n
    using program_env_core [OF w, of environ extraEnv n] vs(3) by simp
  have none: "getenv (rev xs) n = None \<longleftrightarrow> getenv xs n = None" for xs n by (simp add: getenv_def find_None_iff)
  have "getenv (programEnv environ g' extraEnv) (rs_Name s) = Some v"
    if "(s, v) \<in> set vs" "rs_Kind s = SecretKindEnv" "getenv extraEnv (rs_Name s) = None" for s v environ extraEnv
    unfolding env getenv_append [of "rev extraEnv"]
    using delivered_entry [OF sok(2,1) that(1,2), of ?base "rev environ"] iffD2 [OF none that(3)] by simp
  moreover have "map_of (ss_dir g') (rs_Name s) = Some (SecretFile v)" if "(s, v) \<in> set vs" "rs_Kind s \<noteq> SecretKindEnv" for s v
    using that by (intro files) (force simp: vs(4) files_of_def)
  moreover have "\<forall>n. gone n \<longrightarrow> \<not> tmp_name n \<longrightarrow> map_of (ss_dir g') n = map_option SecretFile (map_of (files_of vs) n)"
    using exact vs(4) by simp
  ultimately show ?thesis using w vs(1,2) env by (intro exI [of _ g'] exI [of _ vs]) auto
qed

definition outer_resolved :: Resolved where
  "outer_resolved = (case Resolve sys_example (Some example_config) ''o'' of Inr r \<Rightarrow> r)"

definition token_host :: secret_host where
  "token_host =
     \<lparr>sh_env = (\<lambda>_. None), sh_files = [''/s'' \<mapsto> ''data''], sh_run = (\<lambda>_. Some (''tok'' @ [CHR 0x0A])), sh_faults = (\<lambda>_. (no_faults, no_faults))\<rparr>"

definition token_payload :: "(secret_read_error list, ExecLog.Secrets) result \<times> cache" where
  "token_payload = secretsPayload (secretCacheAccount (\<lambda>x. x) ''/c'' ''o'') (secretCacheIndexAccount (\<lambda>x. x) ''/c'' ''o'') token_host no_faults outer_resolved [] [] False
     \<lparr>c_ring = [], c_gen = None, c_now = 5\<rparr>"

lemma outer_resolves: "Resolve sys_example (Some example_config) ''o'' = Inr outer_resolved"
proof -
  have "is_ok (Resolve sys_example (Some example_config) ''o'')" by code_simp
  then show ?thesis by (auto simp: outer_resolved_def is_ok_iff)
qed

lemma map_mem: "map f xs = ys \<Longrightarrow> y \<in> set ys \<Longrightarrow> \<exists>x \<in> set xs. f x = y"
  by auto

theorem secrets_reach_programs_witness:
  "fst token_payload = Inr \<lparr>s_Env = [''A=1'', ''TOK=tok''], s_Files = [(''F'', ''data'')]\<rparr> \<and>
   (\<exists>g'. WriteSecrets (\<lambda>_. True) True (\<lambda>_. True) \<lparr>s_Env = [''A=1'', ''TOK=tok''], s_Files = [(''F'', ''data'')]\<rparr>
        \<lparr>ss_dir = [(''old'', SecretFile ''x'')], ss_env = None\<rparr> = (Inr (), g') \<and>
      map_of (ss_dir g') ''F'' \<noteq> None \<and> map_of (ss_dir g') ''old'' = None)"
proof -
  let ?pl = "\<lparr>s_Env = [''A=1'', ''TOK=tok''], s_Files = [(''F'', ''data'')]\<rparr>" and ?g = "\<lparr>ss_dir = [(''old'', SecretFile ''x'')], ss_env = None\<rparr>"
  have p: "fst token_payload = Inr ?pl" by code_simp
  have e: "list_all (\<lambda>kv. \<not> bad_env_entry kv) (r_Env outer_resolved)" and n: "map (\<lambda>s. (rs_Name s, rs_Kind s)) (r_Secrets outer_resolved) = [(''F'', SecretKindFile), (''TOK'', SecretKindEnv)]"
    by code_simp+
  have w: "map_of (c_Workspaces example_config) ''o'' = Some outer_ws" by (simp add: example_config_def)
  have "secretsPayload (secretCacheAccount (\<lambda>x. x) ''/c'' ''o'') (secretCacheIndexAccount (\<lambda>x. x) ''/c'' ''o'') token_host no_faults outer_resolved [] [] False
     \<lparr>c_ring = [], c_gen = None, c_now = 5\<rparr> = (Inr ?pl, snd token_payload)"
    using p by (simp add: token_payload_def prod_eq_iff)
  from secrets_reach_programs [OF example_valid w outer_resolves e this, of "\<lambda>_. True" ?g]
  obtain g' vs where g: "WriteSecrets (\<lambda>_. True) True (\<lambda>_. True) ?pl ?g = (Inr (), g')" "map fst vs = r_Secrets outer_resolved"
    and files: "\<forall>n. True \<longrightarrow> \<not> tmp_name n \<longrightarrow> map_of (ss_dir g') n = map_option SecretFile (map_of (files_of vs) n)"
    and each: "\<forall>(s, v) \<in> set vs. if rs_Kind s = SecretKindEnv
       then \<forall>environ extraEnv. getenv extraEnv (rs_Name s) = None \<longrightarrow> getenv (programEnv environ g' extraEnv) (rs_Name s) = Some v
       else map_of (ss_dir g') (rs_Name s) = Some (SecretFile v)"
    by (elim exE conjE)
  obtain s where s: "s \<in> set (map fst vs)" "(rs_Name s, rs_Kind s) = (''F'', SecretKindFile)"
    using map_mem [OF n list.set_intros(1)] unfolding g(2) by blast
  from s(1) obtain v where "(s, v) \<in> set vs" by auto
  from bspec [OF each this] s(2) have F: "map_of (ss_dir g') ''F'' \<noteq> None" by simp
  have "rs_Name ` set (r_Secrets outer_resolved) = {''F'', ''TOK''}" using arg_cong [OF n, of "\<lambda>l. fst ` set l"] by (simp add: image_image)
  then have names: "(rs_Name \<circ> fst) ` set vs = {''F'', ''TOK''}" unfolding g(2) [symmetric] by (simp add: image_image)
  have "fst ` set (files_of vs) \<subseteq> (rs_Name \<circ> fst) ` set vs" by (force simp: files_of_def)
  then have "''old'' \<notin> fst ` set (files_of vs)" unfolding names by auto
  moreover have "\<not> tmp_name ''old''" by code_simp
  ultimately have "map_of (ss_dir g') ''old'' = None" using files by (simp add: map_of_eq_None_iff)
  with F g(1) p show ?thesis by blast
qed

end
