(* ===== verification/LiveReload.thy ===== *)
theory LiveReload
  imports GoStrings "HOL-Library.Word"
begin

text \<open>
  Reloads inside the guest (\<open>liveState\<close> in \<open>internal/guest/live_linux.go\<close>, with \<open>setHostPorts\<close> of
  \<open>hostports_linux.go\<close> and the snapshot binds of \<open>init_linux.go\<close>). The kernel is the table of descriptors of the
  init process, the attached snapshot mounts and the existing mount points; outcomes of system calls are
  arguments. JSON enters decoded.
\<close>

section \<open>Kernel\<close>

record guestSnapshot =
  gs_Source :: string
  gs_Target :: string

datatype fd_object = MountRoot nat | Unrelated

record kernel =
  kn_fds :: "(nat \<times> fd_object) list"
  kn_mounts :: "(nat \<times> guestSnapshot) list"
  kn_points :: "string list"
  kn_fresh :: nat

datatype file_read = Missing | ReadError | Content string

record live_faults =
  lf_umount :: "nat \<Rightarrow> bool"
  lf_source :: "guestSnapshot \<Rightarrow> bool"
  lf_point :: "guestSnapshot \<Rightarrow> bool"
  lf_attach :: "guestSnapshot \<Rightarrow> bool"
  lf_remove :: "string \<Rightarrow> bool"
  lf_read_original :: bool
  lf_read_system :: bool
  lf_save_original :: bool
  lf_bundle :: "string \<Rightarrow> file_read"
  lf_install :: bool
  lf_agent :: bool
  lf_gpg :: bool
  lf_port :: "16 word \<Rightarrow> bool"

text \<open>The lowest free descriptor.\<close>

definition free_fd :: "(nat \<times> fd_object) list \<Rightarrow> nat" where
  "free_fd fds = hd (filter (\<lambda>n. n \<notin> fst ` set fds) [0..<length fds + 1])"

datatype live_error =
    UnmountError string
  | SourceError string
  | MountPointError string
  | AttachError string
  | CAReadError
  | CASaveError
  | CABundleError string
  | CAInstallError
  | AgentError
  | GPGError

text \<open>
  \<open>unmountSnapshot\<close>: detaches through \<open>/proc/self/fd\<close> and closes the descriptor whatever happens. A descriptor
  that is no mount root gives \<open>EINVAL\<close>, which is no error; a closed one has no such path.
\<close>

definition unmountSnapshot :: "live_faults \<Rightarrow> nat \<Rightarrow> kernel \<Rightarrow> bool \<times> kernel" where
  "unmountSnapshot F fd k =
     (case map_of (kn_fds k) fd of
        None \<Rightarrow> (False, k)
      | Some Unrelated \<Rightarrow> (True, k\<lparr>kn_fds := AList.delete fd (kn_fds k)\<rparr>)
      | Some (MountRoot m) \<Rightarrow>
          if lf_umount F m then (False, k\<lparr>kn_fds := AList.delete fd (kn_fds k)\<rparr>)
          else (True, k\<lparr>kn_fds := AList.delete fd (kn_fds k), kn_mounts := AList.delete m (kn_mounts k)\<rparr>))"

text \<open>
  \<open>bindSnapshot\<close> with \<open>bindReadOnly\<close>: whether it created the mount point, and the descriptor of the mount. The
  descriptor of the destination is open while the mount is cloned.
\<close>

definition bindSnapshot :: "live_faults \<Rightarrow> guestSnapshot \<Rightarrow> kernel \<Rightarrow> bool \<times> (live_error, nat) result \<times> kernel" where
  "bindSnapshot F s k =
     (if lf_source F s then (False, Inl (SourceError (gs_Target s)), k)
      else
        let created = gs_Target s \<notin> set (kn_points k) in
        if lf_point F s then (False, Inl (MountPointError (gs_Target s)), k)
        else
          let k1 = k\<lparr>kn_points := List.insert (gs_Target s) (kn_points k)\<rparr> in
          if lf_attach F s then (created, Inl (AttachError (gs_Target s)), k1)
          else
            let dst = free_fd (kn_fds k); fd = free_fd ((dst, Unrelated) # kn_fds k) in
            (created, Inr fd,
             k1\<lparr>kn_fds := (fd, MountRoot (kn_fresh k)) # kn_fds k, kn_mounts := kn_mounts k @ [(kn_fresh k, s)], kn_fresh := kn_fresh k + 1\<rparr>))"

section \<open>Live state\<close>

record Reload =
  rl_Seq :: int
  rl_CABundle :: string
  rl_SSHAgent :: bool
  rl_GPGAgent :: bool
  rl_HostPorts :: "16 word list"
  rl_Snapshots :: "guestSnapshot list"

record liveState =
  l_seq :: int
  l_agent :: bool
  l_gpg :: bool
  l_hostPorts :: "16 word list"
  l_snapshots :: "guestSnapshot list"
  l_mounts :: "nat list"
  l_created :: "string list"

record ca_files =
  ca_original :: "string option"
  ca_system :: "string option"

record guest_live =
  gl_live :: liveState
  gl_kernel :: kernel
  gl_ca :: ca_files

text \<open>The first loop of \<open>setSnapshots\<close>, from the last bound snapshot down.\<close>

primrec unbind_snapshots :: "live_faults \<Rightarrow> guestSnapshot list \<Rightarrow> nat \<Rightarrow> liveState \<Rightarrow> kernel \<Rightarrow> (live_error, unit) result \<times> liveState \<times> kernel" where
  "unbind_snapshots F next 0 l k = (Inr (), l, k)"
| "unbind_snapshots F next (Suc i) l k =
     (let target = gs_Target (l_snapshots l ! i) in
      case unmountSnapshot F (l_mounts l ! i) k of
        (False, k1) \<Rightarrow> (Inl (UnmountError target), l, k1)
      | (True, k1) \<Rightarrow>
          let l1 = l\<lparr>l_snapshots := take i (l_snapshots l), l_mounts := take i (l_mounts l)\<rparr> in
          if target \<in> set (l_created l) \<and> target \<notin> gs_Target ` set next
          then unbind_snapshots F next i (l1\<lparr>l_created := removeAll target (l_created l)\<rparr>)
                 (if lf_remove F target then k1 else k1\<lparr>kn_points := removeAll target (kn_points k1)\<rparr>)
          else unbind_snapshots F next i l1 k1)"

fun bind_snapshots :: "live_faults \<Rightarrow> guestSnapshot list \<Rightarrow> liveState \<Rightarrow> kernel \<Rightarrow> (live_error, unit) result \<times> liveState \<times> kernel" where
  "bind_snapshots F [] l k = (Inr (), l, k)"
| "bind_snapshots F (s # ss) l k =
     (case bindSnapshot F s k of
        (created, r, k1) \<Rightarrow>
          let l1 = (if created then l\<lparr>l_created := List.insert (gs_Target s) (l_created l)\<rparr> else l) in
          (case r of
             Inl e \<Rightarrow> (Inl e, l1, k1)
           | Inr fd \<Rightarrow> bind_snapshots F ss (l1\<lparr>l_snapshots := l_snapshots l1 @ [s], l_mounts := l_mounts l1 @ [fd]\<rparr>) k1))"

definition setSnapshots :: "live_faults \<Rightarrow> guestSnapshot list \<Rightarrow> liveState \<Rightarrow> kernel \<Rightarrow> (live_error, unit) result \<times> liveState \<times> kernel" where
  "setSnapshots F next l k =
     (case unbind_snapshots F next (length (l_snapshots l)) l k of
        (Inl e, l1, k1) \<Rightarrow> (Inl e, l1, k1)
      | (Inr _, l1, k1) \<Rightarrow> bind_snapshots F next l1 k1)"

text \<open>\<open>setCABundle\<close>: the original bundle, saved on first use, with the workspace bundle appended.\<close>

definition read_original :: "live_faults \<Rightarrow> ca_files \<Rightarrow> (live_error, string \<times> ca_files) result" where
  "read_original F ca =
     (if lf_read_original F then Inl CAReadError
      else case ca_original ca of
             Some orig \<Rightarrow> Inr (orig, ca)
           | None \<Rightarrow>
               if ca_system ca \<noteq> None \<and> lf_read_system F then Inl CAReadError
               else
                 let orig = (case ca_system ca of Some s \<Rightarrow> s | None \<Rightarrow> []) in
                 if lf_save_original F then Inl CASaveError else Inr (orig, ca\<lparr>ca_original := Some orig\<rparr>))"

definition ca_content :: "live_faults \<Rightarrow> string \<Rightarrow> string \<Rightarrow> (live_error, string) result" where
  "ca_content F path orig =
     (if path = [] then Inr orig
      else case lf_bundle F path of
             Missing \<Rightarrow> Inr orig
           | ReadError \<Rightarrow> Inl (CABundleError path)
           | Content extra \<Rightarrow> Inr (if TrimSpace extra \<noteq> [] then orig @ CHR 0x0A # extra else orig))"

definition setCABundle :: "live_faults \<Rightarrow> string \<Rightarrow> ca_files \<Rightarrow> (live_error, unit) result \<times> ca_files" where
  "setCABundle F path ca =
     (case read_original F ca of
        Inl e \<Rightarrow> (Inl e, ca)
      | Inr (orig, ca1) \<Rightarrow>
          (case ca_content F path orig of
             Inl e \<Rightarrow> (Inl e, ca1)
           | Inr content \<Rightarrow>
               if ca_system ca1 = Some content \<and> \<not> lf_read_system F then (Inr (), ca1)
               else if lf_install F then (Inl CAInstallError, ca1)
               else (Inr (), ca1\<lparr>ca_system := Some content\<rparr>)))"

text \<open>\<open>setHostPorts\<close>: mirrors that are no longer wanted stop, missing ones start unless the port is taken.\<close>

definition setHostPorts :: "live_faults \<Rightarrow> 16 word list \<Rightarrow> liveState \<Rightarrow> liveState" where
  "setHostPorts F ports l =
     l\<lparr>l_hostPorts := fold (\<lambda>p ps. if p \<in> set ps \<or> lf_port F p then ps else ps @ [p]) ports (filter (\<lambda>p. p \<in> set ports) (l_hostPorts l))\<rparr>"

text \<open>The two relays: on when wanted and not running, off when running and not wanted.\<close>

definition set_agent :: "live_faults \<Rightarrow> bool \<Rightarrow> liveState \<Rightarrow> (live_error, liveState) result" where
  "set_agent F want l =
     (if want \<and> \<not> l_agent l then (if lf_agent F then Inl AgentError else Inr (l\<lparr>l_agent := True\<rparr>))
      else if \<not> want \<and> l_agent l then Inr (l\<lparr>l_agent := False\<rparr>) else Inr l)"

definition set_gpg :: "live_faults \<Rightarrow> bool \<Rightarrow> liveState \<Rightarrow> (live_error, liveState) result" where
  "set_gpg F want l =
     (if want \<and> \<not> l_gpg l then (if lf_gpg F then Inl GPGError else Inr (l\<lparr>l_gpg := True\<rparr>))
      else if \<not> want \<and> l_gpg l then Inr (l\<lparr>l_gpg := False\<rparr>) else Inr l)"

definition apply_relays :: "live_faults \<Rightarrow> Reload \<Rightarrow> liveState \<Rightarrow> (live_error, unit) result \<times> liveState" where
  "apply_relays F r l =
     (case set_agent F (rl_SSHAgent r) l of
        Inl e \<Rightarrow> (Inl e, l)
      | Inr l1 \<Rightarrow>
          (case set_gpg F (rl_GPGAgent r) l1 of
             Inl e \<Rightarrow> (Inl e, l1)
           | Inr l2 \<Rightarrow> (Inr (), setHostPorts F (rl_HostPorts r) l2)))"

definition apply_reload :: "live_faults \<Rightarrow> Reload \<Rightarrow> guest_live \<Rightarrow> (live_error, unit) result \<times> guest_live" where
  "apply_reload F r g =
     (case setCABundle F (rl_CABundle r) (gl_ca g) of
        (Inl e, ca) \<Rightarrow> (Inl e, g\<lparr>gl_ca := ca\<rparr>)
      | (Inr _, ca) \<Rightarrow>
          (case (if rl_Snapshots r = l_snapshots (gl_live g) then (Inr (), gl_live g, gl_kernel g)
                 else setSnapshots F (rl_Snapshots r) (gl_live g) (gl_kernel g)) of
             (Inl e, l, k) \<Rightarrow> (Inl e, g\<lparr>gl_ca := ca, gl_live := l, gl_kernel := k\<rparr>)
           | (Inr _, l, k) \<Rightarrow>
               (case apply_relays F r l of (res, l1) \<Rightarrow> (res, g\<lparr>gl_ca := ca, gl_live := l1, gl_kernel := k\<rparr>))))"

text \<open>\<open>poll\<close> with the request in the control directory, if it can be read: the answer, if one is written.\<close>

definition poll :: "live_faults \<Rightarrow> Reload option \<Rightarrow> guest_live \<Rightarrow> (int \<times> live_error option) option \<times> guest_live" where
  "poll F req g =
     (case req of
        None \<Rightarrow> (None, g)
      | Some r \<Rightarrow>
          if rl_Seq r = l_seq (gl_live g) then (None, g)
          else (case apply_reload F r (g\<lparr>gl_live := (gl_live g)\<lparr>l_seq := rl_Seq r\<rparr>\<rparr>) of
                  (Inl e, g1) \<Rightarrow> (Some (rl_Seq r, Some e), g1)
                | (Inr _, g1) \<Rightarrow> (Some (rl_Seq r, None), g1)))"

section \<open>Invariant\<close>

lemma free_fd_free: "free_fd fds \<notin> fst ` set fds"
proof -
  have "\<not> {0..<length fds + 1} \<subseteq> fst ` set fds"
  proof
    assume "{0..<length fds + 1} \<subseteq> fst ` set fds"
    then have "length fds + 1 \<le> card (fst ` set fds)" using card_mono [of "fst ` set fds" "{0..<length fds + 1}"] by simp
    also have "\<dots> \<le> length fds" using card_image_le [of "set fds" fst] card_length [of fds] by simp
    finally show False by simp
  qed
  then have "filter (\<lambda>n. n \<notin> fst ` set fds) [0..<length fds + 1] \<noteq> []" unfolding filter_empty_conv set_upt by blast
  from hd_in_set [OF this] show ?thesis unfolding free_fd_def set_filter by blast
qed

text \<open>The attached snapshot mounts are the recorded snapshots, in order, and the recorded descriptors refer to them.\<close>

definition bound :: "liveState \<Rightarrow> kernel \<Rightarrow> nat list \<Rightarrow> bool" where
  "bound l k ids \<longleftrightarrow>
     length (l_mounts l) = length (l_snapshots l) \<and> length ids = length (l_snapshots l) \<and> kn_mounts k = zip ids (l_snapshots l) \<and>
     (\<forall>i < length ids. map_of (kn_fds k) (l_mounts l ! i) = Some (MountRoot (ids ! i))) \<and>
     distinct ids \<and> (\<forall>m \<in> set ids. m < kn_fresh k)"

lemma bound_frame [simp]:
  "bound (l\<lparr>l_created := cs\<rparr>) k ids = bound l k ids"
  "bound l (k\<lparr>kn_points := ps\<rparr>) ids = bound l k ids"
  "bound (l\<lparr>l_seq := n\<rparr>) k ids = bound l k ids"
  "bound (l\<lparr>l_agent := a\<rparr>) k ids = bound l k ids"
  "bound (l\<lparr>l_gpg := a\<rparr>) k ids = bound l k ids"
  "bound (l\<lparr>l_hostPorts := hs\<rparr>) k ids = bound l k ids"
  by (simp_all add: bound_def)

lemma delete_last_id:
  assumes "distinct ids" and "length ids = length ss" and "length ss = Suc i"
  shows "AList.delete (ids ! i) (zip ids ss) = zip (take i ids) (take i ss)"
proof -
  obtain ms m where ids: "ids = ms @ [m]" "length ms = i" using assms by (metis length_Suc_conv_rev)
  obtain ts t where ss: "ss = ts @ [t]" "length ts = i" using assms(3) by (metis length_Suc_conv_rev)
  have "m \<notin> fst ` set (zip ms ts)" using assms(1) ids by (auto dest: set_zip_leftD)
  then show ?thesis using ids ss by (simp add: AList.delete_eq nth_append filter_id_conv) force
qed

lemma bound_unmount:
  assumes "bound l k ids" and "length (l_snapshots l) = Suc i" and "\<not> lf_umount F (ids ! i)"
  obtains k1 where "unmountSnapshot F (l_mounts l ! i) k = (True, k1)"
    and "bound (l\<lparr>l_snapshots := take i (l_snapshots l), l_mounts := take i (l_mounts l)\<rparr>) k1 (take i ids)"
proof -
  have b: "length (l_mounts l) = Suc i" "length ids = Suc i" "kn_mounts k = zip ids (l_snapshots l)" "distinct ids" "\<forall>m \<in> set ids. m < kn_fresh k"
    and fds: "\<And>j. j < Suc i \<Longrightarrow> map_of (kn_fds k) (l_mounts l ! j) = Some (MountRoot (ids ! j))"
    using assms(1,2) by (auto simp: bound_def)
  let ?fd = "l_mounts l ! i"
  let ?k1 = "k\<lparr>kn_fds := AList.delete ?fd (kn_fds k), kn_mounts := AList.delete (ids ! i) (kn_mounts k)\<rparr>"
  have "unmountSnapshot F ?fd k = (True, ?k1)" using fds [of i] assms(3) by (simp add: unmountSnapshot_def)
  moreover have "l_mounts l ! j \<noteq> ?fd" if "j < i" for j
    using fds [of j] fds [of i] that b(2,4) by (auto simp: nth_eq_iff_index_eq)
  then have "bound (l\<lparr>l_snapshots := take i (l_snapshots l), l_mounts := take i (l_mounts l)\<rparr>) ?k1 (take i ids)"
    using b fds assms(2) delete_last_id [OF b(4), of "l_snapshots l" i] by (auto simp: bound_def delete_conv' dest: in_set_takeD)
  ultimately show thesis using that by blast
qed

lemma unbind_all:
  "bound l k ids \<Longrightarrow> length (l_snapshots l) = i \<Longrightarrow> \<forall>m \<in> set ids. \<not> lf_umount F m \<Longrightarrow>
   \<exists>l1 k1. unbind_snapshots F next_snaps i l k = (Inr (), l1, k1) \<and> bound l1 k1 [] \<and> l_snapshots l1 = []"
proof (induction i arbitrary: l k ids)
  case 0
  then show ?case by (simp add: bound_def)
next
  case (Suc i)
  let ?l = "l\<lparr>l_snapshots := take i (l_snapshots l), l_mounts := take i (l_mounts l)\<rparr>"
  have "length ids = Suc i" using Suc.prems(1,2) by (simp add: bound_def)
  then have "\<not> lf_umount F (ids ! i)" using Suc.prems(3) by simp
  then obtain k1 where k1: "unmountSnapshot F (l_mounts l ! i) k = (True, k1)" and b: "bound ?l k1 (take i ids)"
    by (rule bound_unmount [OF Suc.prems(1,2)])
  have fine: "\<forall>m \<in> set (take i ids). \<not> lf_umount F m" using Suc.prems(3) by (auto dest: in_set_takeD)
  have "\<exists>l1 k2. unbind_snapshots F next_snaps i l' k' = (Inr (), l1, k2) \<and> bound l1 k2 [] \<and> l_snapshots l1 = []"
    if "bound l' k' (take i ids)" "l_snapshots l' = take i (l_snapshots l)" for l' k'
    using Suc.IH [OF that(1) _ fine] that(2) Suc.prems(2) by simp
  then show ?case using k1 b by (auto simp: Let_def)
qed

lemma bound_bind:
  assumes "bound l k ids" and "bindSnapshot F s k = (c, Inr fd, k1)"
  shows "bound (l\<lparr>l_snapshots := l_snapshots l @ [s], l_mounts := l_mounts l @ [fd]\<rparr>) k1 (ids @ [kn_fresh k])"
proof -
  let ?fd = "free_fd ((free_fd (kn_fds k), Unrelated) # kn_fds k)"
  have new: "fd = ?fd" "kn_fds k1 = (?fd, MountRoot (kn_fresh k)) # kn_fds k" "kn_mounts k1 = kn_mounts k @ [(kn_fresh k, s)]" "kn_fresh k1 = kn_fresh k + 1"
    using assms(2) by (auto simp: bindSnapshot_def Let_def split: if_splits)
  have "?fd \<notin> fst ` set (kn_fds k)" using free_fd_free [of "(free_fd (kn_fds k), Unrelated) # kn_fds k"] by auto
  then have "l_mounts l ! i \<noteq> ?fd" if "i < length ids" for i
    using assms(1) that by (force simp: bound_def dest: map_of_SomeD)
  then show ?thesis using assms(1) by (auto simp: bound_def new nth_append less_Suc_eq)
qed

lemma bindSnapshot_error: "bindSnapshot F s k = (c, Inl e, k1) \<Longrightarrow> bound l k1 ids = bound l k ids"
  by (auto simp: bindSnapshot_def Let_def split: if_splits)

lemma bind_all:
  "bound l k ids \<Longrightarrow> bind_snapshots F ss l k = (r, l1, k1) \<Longrightarrow>
   (\<exists>ids1. bound l1 k1 ids1) \<and> (r = Inr () \<longrightarrow> l_snapshots l1 = l_snapshots l @ ss)"
proof (induction F ss l k arbitrary: ids rule: bind_snapshots.induct)
  case (1 F l k)
  then show ?case by auto
next
  case (2 F s ss l k)
  obtain c b k2 where bs: "bindSnapshot F s k = (c, b, k2)" by (cases "bindSnapshot F s k")
  let ?l = "if c then l\<lparr>l_created := List.insert (gs_Target s) (l_created l)\<rparr> else l"
  have bl: "bound ?l k ids" "l_snapshots ?l = l_snapshots l" using "2.prems"(1) by auto
  show ?case
  proof (cases b)
    case (Inl e)
    then have "r = Inl e" "l1 = ?l" "k1 = k2" using "2.prems"(2) bs by (auto simp: Let_def)
    then show ?thesis using bl(1) bindSnapshot_error [OF bs [unfolded Inl]] by auto
  next
    case (Inr fd)
    let ?l2 = "?l\<lparr>l_snapshots := l_snapshots ?l @ [s], l_mounts := l_mounts ?l @ [fd]\<rparr>"
    have "bind_snapshots F ss ?l2 k2 = (r, l1, k1)" using "2.prems"(2) bs Inr by (simp add: Let_def)
    then show ?thesis
      using "2.IH" [OF bs [symmetric] refl refl Inr bound_bind [OF bl(1) bs [unfolded Inr]]] bl(2) by simp
  qed
qed

lemma setSnapshots_bound:
  assumes "bound l k ids" and "\<forall>m. \<not> lf_umount F m" and "setSnapshots F ss l k = (r, l1, k1)"
  shows "\<exists>ids1. bound l1 k1 ids1" and "r = Inr () \<Longrightarrow> l_snapshots l1 = ss"
proof -
  obtain l2 k2 where u: "unbind_snapshots F ss (length (l_snapshots l)) l k = (Inr (), l2, k2)" "bound l2 k2 []" "l_snapshots l2 = []"
    using unbind_all [OF assms(1) refl] assms(2) by blast
  then have "bind_snapshots F ss l2 k2 = (r, l1, k1)" using assms(3) by (simp add: setSnapshots_def)
  from bind_all [OF u(2) this] u(3) show "\<exists>ids1. bound l1 k1 ids1" "r = Inr () \<Longrightarrow> l_snapshots l1 = ss" by auto
qed

text \<open>What the trust store of the image was before the first reload is kept.\<close>

definition ca_inv :: "string option \<Rightarrow> ca_files \<Rightarrow> bool" where
  "ca_inv base ca \<longleftrightarrow> (ca_original ca = None \<and> ca_system ca = base) \<or> ca_original ca = Some (case base of Some s \<Rightarrow> s | None \<Rightarrow> [])"

definition base_content :: "string option \<Rightarrow> string" where
  "base_content base = (case base of Some s \<Rightarrow> s | None \<Rightarrow> [])"

lemma setCABundle_inv: "ca_inv base ca \<Longrightarrow> setCABundle F path ca = (r, ca1) \<Longrightarrow> ca_inv base ca1"
  by (auto simp: setCABundle_def read_original_def ca_inv_def Let_def split: if_splits sum.splits option.splits)

lemma setCABundle_ok:
  assumes "ca_inv base ca" and "setCABundle F path ca = (Inr u, ca1)"
  shows "\<exists>content. ca_content F path (base_content base) = Inr content \<and> ca_system ca1 = Some content"
proof -
  obtain orig ca2 where o: "read_original F ca = Inr (orig, ca2)" using assms(2) by (cases "read_original F ca") (auto simp: setCABundle_def)
  then have "orig = base_content base"
    using assms(1) by (auto simp: read_original_def ca_inv_def base_content_def Let_def split: if_splits option.splits)
  then show ?thesis using assms(2) o by (cases "ca_content F path orig") (auto simp: setCABundle_def split: if_splits)
qed

section \<open>Reloads\<close>

lemma setHostPorts_ports:
  "set (l_hostPorts (setHostPorts F ports l)) \<subseteq> set ports"
  "p \<in> set ports \<Longrightarrow> p \<in> set (l_hostPorts (setHostPorts F ports l)) \<or> lf_port F p"
  "p \<in> set (l_hostPorts l) \<Longrightarrow> p \<in> set ports \<Longrightarrow> p \<in> set (l_hostPorts (setHostPorts F ports l))"
proof -
  let ?add = "\<lambda>p ps. if p \<in> set ps \<or> lf_port F p then ps else ps @ [p]"
  have fold: "set (fold ?add qs ps) \<subseteq> set ps \<union> set qs" "set ps \<subseteq> set (fold ?add qs ps)"
    "q \<in> set qs \<Longrightarrow> q \<in> set (fold ?add qs ps) \<or> lf_port F q" for q qs ps
  proof (induction qs arbitrary: ps)
    case (Cons q' qs)
    { case 1 show ?case using Cons.IH(1) [of "?add q' ps"] by (auto split: if_splits) }
    { case 2 show ?case using Cons.IH(2) [of "?add q' ps"] by (auto split: if_splits) }
    { case 3 then show ?case using Cons.IH(2,3) [of "?add q' ps"] by (auto split: if_splits) }
  qed simp_all
  show "set (l_hostPorts (setHostPorts F ports l)) \<subseteq> set ports"
    using fold(1) [of ports "filter (\<lambda>p. p \<in> set ports) (l_hostPorts l)"] by (auto simp: setHostPorts_def)
  show "p \<in> set ports \<Longrightarrow> p \<in> set (l_hostPorts (setHostPorts F ports l)) \<or> lf_port F p"
    using fold(3) by (simp add: setHostPorts_def)
  show "p \<in> set (l_hostPorts l) \<Longrightarrow> p \<in> set ports \<Longrightarrow> p \<in> set (l_hostPorts (setHostPorts F ports l))"
    using fold(2) [of "filter (\<lambda>p. p \<in> set ports) (l_hostPorts l)" ports] by (auto simp: setHostPorts_def)
qed

lemma apply_relays_bound:
  assumes "apply_relays F r l = (res, l1)"
  shows "bound l1 k ids = bound l k ids" and "l_snapshots l1 = l_snapshots l"
    and "res = Inr () \<Longrightarrow> l_agent l1 = rl_SSHAgent r \<and> l_gpg l1 = rl_GPGAgent r"
  using assms by (auto simp: apply_relays_def set_agent_def set_gpg_def setHostPorts_def split: if_splits sum.splits)

lemma apply_relays_ports: "apply_relays F r l = (Inr (), l1) \<Longrightarrow> \<exists>l2. l1 = setHostPorts F (rl_HostPorts r) l2"
  by (auto simp: apply_relays_def split: sum.splits)

definition applied :: "live_faults \<Rightarrow> string option \<Rightarrow> Reload \<Rightarrow> guest_live \<Rightarrow> bool" where
  "applied F base r g \<longleftrightarrow>
     map snd (kn_mounts (gl_kernel g)) = rl_Snapshots r \<and> l_snapshots (gl_live g) = rl_Snapshots r \<and>
     l_agent (gl_live g) = rl_SSHAgent r \<and> l_gpg (gl_live g) = rl_GPGAgent r \<and>
     set (l_hostPorts (gl_live g)) \<subseteq> set (rl_HostPorts r) \<and>
     (\<forall>p \<in> set (rl_HostPorts r). p \<in> set (l_hostPorts (gl_live g)) \<or> lf_port F p) \<and>
     map_option Inr (ca_system (gl_ca g)) = Some (ca_content F (rl_CABundle r) (base_content base))"

definition live_inv :: "string option \<Rightarrow> guest_live \<Rightarrow> bool" where
  "live_inv base g \<longleftrightarrow> ca_inv base (gl_ca g) \<and> (\<exists>ids. bound (gl_live g) (gl_kernel g) ids)"

lemma bound_mounts: "bound l k ids \<Longrightarrow> map snd (kn_mounts k) = l_snapshots l"
  by (simp add: bound_def)

lemma apply_reload_core:
  assumes "live_inv base g" and "\<forall>m. \<not> lf_umount F m" and "apply_reload F r g = (res, g1)"
  shows "live_inv base g1" and "res = Inr () \<Longrightarrow> applied F base r g1"
proof -
  obtain c ca where ca: "setCABundle F (rl_CABundle r) (gl_ca g) = (c, ca)" by fastforce
  have cainv: "ca_inv base ca" using setCABundle_inv [OF _ ca] assms(1) by (simp add: live_inv_def)
  obtain ids where b: "bound (gl_live g) (gl_kernel g) ids" using assms(1) by (auto simp: live_inv_def)
  obtain s l k where sn: "(if rl_Snapshots r = l_snapshots (gl_live g) then (Inr (), gl_live g, gl_kernel g)
      else setSnapshots F (rl_Snapshots r) (gl_live g) (gl_kernel g)) = (s, l, k)" by (metis prod_cases3)
  have bl: "\<exists>ids. bound l k ids" using setSnapshots_bound(1) [OF b assms(2)] sn b by (auto split: if_splits)
  have ls: "s = Inr () \<Longrightarrow> l_snapshots l = rl_Snapshots r" using setSnapshots_bound(2) [OF b assms(2)] sn by (auto split: if_splits)
  obtain q l1 where re: "apply_relays F r l = (q, l1)" by fastforce
  note eqs = assms(3) [unfolded apply_reload_def ca sn re split]
  show "live_inv base g1"
    using eqs cainv b bl by (cases c; cases s) (auto simp: live_inv_def re apply_relays_bound(1) [OF re])
  assume "res = Inr ()"
  with eqs have ok: "c = Inr ()" "s = Inr ()" "q = Inr ()" and g1: "g1 = g\<lparr>gl_ca := ca, gl_live := l1, gl_kernel := k\<rparr>"
    by (cases c; cases s; simp add: re)+
  obtain l2 where "l1 = setHostPorts F (rl_HostPorts r) l2" using apply_relays_ports re ok(3) by blast
  moreover obtain ids1 where "bound l k ids1" using bl by blast
  moreover obtain content where "ca_content F (rl_CABundle r) (base_content base) = Inr content" "ca_system ca = Some content"
    using setCABundle_ok [OF _ ca [unfolded ok(1)]] assms(1) by (auto simp: live_inv_def)
  ultimately show "applied F base r g1"
    using setHostPorts_ports(1,2) [where F = F and ports = "rl_HostPorts r" and l = l2] apply_relays_bound(2,3) [OF re] ok(3) ls [OF ok(2)] bound_mounts
    by (auto simp: applied_def g1)
qed

text \<open>
  The guest from boot on: the snapshots and then \<open>apply\<close> with the boot configuration, then polls in any order with other parts of the
  init process that open descriptors (the kernel gives the lowest free one) and close their own.
\<close>

definition guest_boot :: "(nat \<times> fd_object) list \<Rightarrow> string list \<Rightarrow> string option \<Rightarrow> guest_live" where
  "guest_boot fds points base =
     \<lparr>gl_live = \<lparr>l_seq = 0, l_agent = False, l_gpg = False, l_hostPorts = [], l_snapshots = [], l_mounts = [], l_created = []\<rparr>,
      gl_kernel = \<lparr>kn_fds = fds, kn_mounts = [], kn_points = points, kn_fresh = 0\<rparr>,
      gl_ca = \<lparr>ca_original = None, ca_system = base\<rparr>\<rparr>"

definition boot_live :: "live_faults \<Rightarrow> Reload \<Rightarrow> guest_live \<Rightarrow> (live_error, unit) result \<times> guest_live" where
  "boot_live F r g =
     (case setSnapshots F (rl_Snapshots r) (gl_live g) (gl_kernel g) of
        (Inl e, l, k) \<Rightarrow> (Inl e, g\<lparr>gl_live := l, gl_kernel := k\<rparr>)
      | (Inr _, l, k) \<Rightarrow> apply_reload F r (g\<lparr>gl_live := l, gl_kernel := k\<rparr>))"

definition set_fds :: "((nat \<times> fd_object) list \<Rightarrow> (nat \<times> fd_object) list) \<Rightarrow> guest_live \<Rightarrow> guest_live" where
  "set_fds f g = g\<lparr>gl_kernel := (gl_kernel g)\<lparr>kn_fds := f (kn_fds (gl_kernel g))\<rparr>\<rparr>"

definition open_other :: "guest_live \<Rightarrow> guest_live" where
  "open_other = set_fds (\<lambda>fds. (free_fd fds, Unrelated) # fds)"

definition close_other :: "nat \<Rightarrow> guest_live \<Rightarrow> guest_live" where
  "close_other fd g = (if map_of (kn_fds (gl_kernel g)) fd = Some Unrelated then set_fds (AList.delete fd) g else g)"

inductive live_run :: "string option \<Rightarrow> guest_live \<Rightarrow> bool" for base where
  Boot: "\<forall>m. \<not> lf_umount F m \<Longrightarrow> boot_live F r (guest_boot fds points base) = (Inr (), g) \<Longrightarrow> live_run base g"
| Poll: "live_run base g \<Longrightarrow> \<forall>m. \<not> lf_umount F m \<Longrightarrow> live_run base (snd (poll F req g))"
| OpenOther: "live_run base g \<Longrightarrow> live_run base (open_other g)"
| CloseOther: "live_run base g \<Longrightarrow> live_run base (close_other fd g)"

lemma live_inv_boot: "live_inv base (guest_boot fds points base)"
  by (simp add: live_inv_def ca_inv_def guest_boot_def bound_def)

lemma boot_live_inv:
  assumes "live_inv base g" and "\<forall>m. \<not> lf_umount F m" and "boot_live F r g = (Inr (), g1)"
  shows "live_inv base g1"
proof -
  obtain s l k where sn: "setSnapshots F (rl_Snapshots r) (gl_live g) (gl_kernel g) = (s, l, k)" by (metis prod_cases3)
  obtain ids where "bound (gl_live g) (gl_kernel g) ids" using assms(1) unfolding live_inv_def by blast
  then have "live_inv base (g\<lparr>gl_live := l, gl_kernel := k\<rparr>)"
    using assms(1) setSnapshots_bound(1) [OF _ assms(2) sn] by (simp add: live_inv_def)
  moreover have "apply_reload F r (g\<lparr>gl_live := l, gl_kernel := k\<rparr>) = (Inr (), g1)" using assms(3) sn by (cases s) (simp_all add: boot_live_def)
  ultimately show ?thesis using apply_reload_core(1) [OF _ assms(2)] by blast
qed

lemma live_inv_open: "live_inv base g \<Longrightarrow> live_inv base (open_other g)"
proof -
  have "map_of (kn_fds k) fd = Some x \<Longrightarrow> fd \<noteq> free_fd (kn_fds k)" for k fd x
    using free_fd_free [of "kn_fds k"] by (force dest: map_of_SomeD)
  then have "bound l k ids \<Longrightarrow> bound l (k\<lparr>kn_fds := (free_fd (kn_fds k), Unrelated) # kn_fds k\<rparr>) ids" for l k ids
    by (fastforce simp: bound_def)
  then show "live_inv base g \<Longrightarrow> live_inv base (open_other g)" by (auto simp: live_inv_def open_other_def set_fds_def)
qed

lemma live_inv_close: "live_inv base g \<Longrightarrow> live_inv base (close_other fd g)"
proof -
  have "bound l k ids \<Longrightarrow> map_of (kn_fds k) fd = Some Unrelated \<Longrightarrow> bound l (k\<lparr>kn_fds := AList.delete fd (kn_fds k)\<rparr>) ids" for l k ids
    by (auto simp: bound_def delete_conv')
  then show "live_inv base g \<Longrightarrow> live_inv base (close_other fd g)" by (auto simp: live_inv_def close_other_def set_fds_def)
qed

lemma poll_core:
  assumes "live_inv base g" and "\<forall>m. \<not> lf_umount F m"
  shows "live_inv base (snd (poll F req g))"
    and "poll F (Some r) g = (Some (n, None), g1) \<Longrightarrow> n = rl_Seq r \<and> applied F base r g1"
proof -
  have seq: "live_inv base (g\<lparr>gl_live := (gl_live g)\<lparr>l_seq := x\<rparr>\<rparr>)" for x using assms(1) by (simp add: live_inv_def)
  show "live_inv base (snd (poll F req g))"
    using apply_reload_core(1) [OF seq assms(2)] assms(1) by (auto simp: poll_def split: option.split prod.split sum.split)
  show "poll F (Some r) g = (Some (n, None), g1) \<Longrightarrow> n = rl_Seq r \<and> applied F base r g1"
    using apply_reload_core(2) [OF seq assms(2)] by (auto simp: poll_def split: if_splits prod.splits sum.splits)
qed

lemma live_run_inv: "live_run base g \<Longrightarrow> live_inv base g"
proof (induction rule: live_run.induct)
  case (Boot F r fds points g)
  then show ?case by (blast intro: boot_live_inv live_inv_boot)
next
  case (Poll g F req)
  then show ?case by (blast intro: poll_core(1))
qed (simp_all add: live_inv_open live_inv_close)


definition no_live_faults :: live_faults where
  "no_live_faults = \<lparr>lf_umount = \<lambda>_. False, lf_source = \<lambda>_. False, lf_point = \<lambda>_. False, lf_attach = \<lambda>_. False,
     lf_remove = \<lambda>_. False, lf_read_original = False, lf_read_system = False, lf_save_original = False,
     lf_bundle = \<lambda>p. if p = ''/ca'' then Content ''X'' else Missing, lf_install = False, lf_agent = False, lf_gpg = False, lf_port = \<lambda>_. False\<rparr>"

definition ex_reload :: "int \<Rightarrow> string \<Rightarrow> string list \<Rightarrow> Reload" where
  "ex_reload n ca ts = \<lparr>rl_Seq = n, rl_CABundle = ca, rl_SSHAgent = True, rl_GPGAgent = False, rl_HostPorts = [80],
     rl_Snapshots = map (\<lambda>t. \<lparr>gs_Source = ''/s'', gs_Target = t\<rparr>) ts\<rparr>"

definition ex_failing :: live_faults where
  "ex_failing = no_live_faults\<lparr>lf_attach := \<lambda>s. gs_Target s = ''/b''\<rparr>"

definition ex_booted :: guest_live where
  "ex_booted = snd (boot_live no_live_faults (ex_reload 0 ''/ca'' [''/a'']) (guest_boot [(0, Unrelated)] [] (Some ''S'')))"


section \<open>A failed unmount\<close>

definition ex_busy :: live_faults where
  "ex_busy = no_live_faults\<lparr>lf_umount := \<lambda>_. True\<rparr>"

text \<open>\<open>unmountSnapshot\<close> closes its descriptor even when the unmount fails, and \<open>setSnapshots\<close> keeps that
  descriptor. After one failed unmount every later change of the snapshots fails, with no fault of its own and
  the old snapshot still attached; and if another part of the init process has got the number in between, the
  reload closes that part's descriptor and is answered as applied, while the old snapshot stays attached.
\<close>

theorem live_reload_gap:
  "let g = snd (poll ex_busy (Some (ex_reload 1 ''/ca'' [''/c''])) ex_booted);
       p = poll no_live_faults (Some (ex_reload 2 ''/ca'' [''/c''])) g;
       q = poll no_live_faults (Some (ex_reload 2 ''/ca'' [''/c''])) (open_other (open_other g)) in
   fst p = Some (2, Some (UnmountError ''/a'')) \<and>
   map gs_Target (map snd (kn_mounts (gl_kernel (snd p)))) = [''/a''] \<and>
   fst q = Some (2, None) \<and>
   map gs_Target (map snd (kn_mounts (gl_kernel (snd q)))) = [''/a'', ''/c''] \<and>
   length (filter (\<lambda>e. snd e = Unrelated) (kn_fds (gl_kernel (snd q)))) = 2 \<and>
   length (filter (\<lambda>e. snd e = Unrelated) (kn_fds (gl_kernel (open_other (open_other g))))) = 3"
  by code_simp

end
