(* ===== verification/SnapshotDests.thy ===== *)
theory SnapshotDests
  imports Confinement GitCopyProps
begin

text \<open>
  The destinations of snapshots. The Git configuration is copied to clean absolute paths, the validation
  normalises the configured destinations, and what \<open>MergeMounts\<close> returns parses again to the mounts it kept,
  one for each destination.
\<close>

section \<open>Clean absolute paths\<close>

definition tidy :: "string \<Rightarrow> bool" where
  "tidy p \<longleftrightarrow> IsAbs p \<and> Clean p = p"

lemma tidy_path_of: "plain es \<Longrightarrow> tidy (path_of es)"
  by (simp add: tidy_def)

lemma tidyE:
  assumes "tidy p"
  obtains es where "plain es" "p = path_of es"
  using assms that [of "elems p"] by (metis Clean_path_of plain_elems tidy_def)

lemma tidy_Clean: "IsAbs p \<Longrightarrow> tidy (Clean p)"
  by (simp add: tidy_def Clean_abs Clean_Clean)

lemma tidy_relative: "tidy p \<Longrightarrow> tidy (PathJoin [PathDir p, v])"
  by (erule tidyE) (simp add: PathDir_path_of PathJoin_abs plain_butlast tidy_path_of)

lemma tidy_not_Nil: "tidy p \<Longrightarrow> p \<noteq> []"
  by (auto simp: tidy_def IsAbs_Cons)

section \<open>The copied Git configuration\<close>

text \<open>The home directory is a directory.\<close>

definition home_folder :: "host \<Rightarrow> string \<Rightarrow> bool" where
  "home_folder H d \<longleftrightarrow> (\<exists>r ex rd. plain r \<and> EvalSymlinks H (Clean d) = Inr (path_of r) \<and> node_at H r = Some (Folder ex rd))"

definition dest_ok :: "string \<Rightarrow> string \<Rightarrow> bool" where
  "dest_ok src dest \<longleftrightarrow> tidy dest \<or> dest = [] \<and> tidy src"

fun ref_ok :: "git_ref \<Rightarrow> bool" where
  "ref_ok (RefConfig key src dest) = dest_ok src dest"
| "ref_ok (RefFile key src dest public) = dest_ok src dest"

definition tidy_copier :: "string \<Rightarrow> string \<Rightarrow> gitConfigCopier \<Rightarrow> bool" where
  "tidy_copier home xdg c \<longleftrightarrow>
     cp_home c = home \<and> cp_xdg c = xdg \<and> list_all (\<lambda>s. tidy (sn_Container s)) (cp_out c) \<and> list_all ref_ok (cp_refs c)"

lemma Rel_base: "IsAbs b \<Longrightarrow> Rel b t = Rel (path_of (elems b)) t"
  by (simp add: Rel_def Clean_path_of flip: elems_def)

lemma within_rel:
  assumes "within p home" and "IsAbs home"
  obtains x where "IsAbs p" "plain x" "elems p = elems home @ x" "Rel home p = Some (rel_elems x)"
proof -
  have "within p (path_of (elems home))" using assms Rel_base [OF assms(2), of p] by (simp add: within_def)
  then obtain x where x: "IsAbs p" "elems p = elems home @ x" by (auto simp: within_iff prefix_def)
  then have "plain x" using plain_elems [of p] by simp
  moreover have "Rel home p = Some (rel_elems x)"
    using Rel_base [OF assms(2), of p] Rel_Clean [OF x(1), of "path_of (elems home)"] Rel_below [of "elems home" x] calculation x(2) by simp
  ultimately show thesis using that x by blast
qed

lemma load_resolved_dest: "load_resolved H ident name src dest public resolved info c = (Some (d, data), c') \<Longrightarrow> d = dest"
  by (auto simp: load_resolved_def split: if_split_asm prod.split_asm option.split_asm)

lemma load_dest:
  assumes "load H ident key src dest0 public c = (Some (dest, data), c')"
  shows "dest = (if dest0 = [] then GitCopy.guestHome @ ''/'' @ (case Rel (cp_home c) src of Some rel \<Rightarrow> rel | None \<Rightarrow> []) else dest0)"
    and "dest0 = [] \<Longrightarrow> within src (cp_home c)"
proof -
  let ?d = "if dest0 = [] then GitCopy.guestHome @ ''/'' @ (case Rel (cp_home c) src of Some rel \<Rightarrow> rel | None \<Rightarrow> []) else dest0"
  have "dest = ?d \<and> (dest0 = [] \<longrightarrow> within src (cp_home c))"
  proof (cases "rbind (EvalSymlinks H src) (\<lambda>resolved. rbind (lstat_info H ident resolved) (\<lambda>info. Inr (resolved, info)))")
    case (Inl e)
    then show ?thesis using assms by (simp add: load_def Let_def split: if_split_asm)
  next
    case (Inr ri)
    then show ?thesis using assms load_resolved_dest
      by (cases ri) (simp add: load_def Let_def split: if_split_asm; blast)
  qed
  then show "dest = ?d" "dest0 = [] \<Longrightarrow> within src (cp_home c)" by blast+
qed

lemma load_tidy:
  assumes "load H ident key src dest0 public c = (Some (dest, data), c')" and "dest_ok src dest0"
    and "IsAbs (cp_home c)" and "IsAbs (cp_xdg c)" and "home_folder H (cp_home c)"
  shows "tidy dest"
proof (cases "dest0 = []")
  case False
  then show ?thesis using load_dest(1) [OF assms(1)] assms(2) by (simp add: dest_ok_def)
next
  case True
  then have src: "tidy src" using assms(2) tidy_not_Nil by (auto simp: dest_ok_def)
  have w: "within src (cp_home c)" and d: "dest = GitCopy.guestHome @ ''/'' @ (case Rel (cp_home c) src of Some rel \<Rightarrow> rel | None \<Rightarrow> [])"
    using load_dest [OF assms(1)] True by simp_all
  obtain x where x: "plain x" "elems src = elems (cp_home c) @ x" "Rel (cp_home c) src = Some (rel_elems x)"
    by (rule within_rel [OF w assms(3)])
  obtain r rd where r: "EvalSymlinks H src = Inr (path_of r)" "real_path H r" "node_at H r = Some (Regular rd data)"
    by (rule load_checked [OF assms(1,3,4)])
  have "x \<noteq> []"
  proof
    assume "x = []"
    then have "src = Clean (cp_home c)" using src x(2) assms(3) by (metis Clean_path_of append_Nil2 tidy_def)
    then show False using assms(5) r path_of_inj by (auto simp: home_folder_def real_path_def)
  qed
  then have "dest = path_of ([''home'', ''agent''] @ x)"
    using d x(3) by (simp add: rel_elems_def path_of_def GitCopy.guestHome_def Join_Cons)
  then show ?thesis using x(1) by (simp add: tidy_path_of)
qed

lemma entry_ref_ok:
  assumes "entry_ref home src dest e = Some r" and "tidy dest"
  shows "ref_ok r"
proof -
  have ex: "tidy p" if "GitCopy.expand home v = Some p" for v p
    using that tidy_Clean by (auto simp: GitCopy.expand_def Let_def split: if_split_asm)
  show ?thesis using assms ex tidy_relative [OF assms(2)]
    by (auto simp: entry_ref_def Let_def dest_ok_def split: if_split_asm option.split_asm)
qed

lemma copy_config_tidy:
  assumes "tidy_copier home xdg c" and "dest_ok src dest" and "IsAbs home" and "IsAbs xdg" and "home_folder H home"
  shows "tidy_copier home xdg (copy_config ul H ident key src dest c)"
proof -
  obtain res c1 where l: "load H ident key src dest False c = (res, c1)" by fastforce
  have c1: "tidy_copier home xdg c1" using load_frame [OF l] assms(1) by (simp add: tidy_copier_def same_base_def)
  have "tidy d" if "res = Some (d, data)" for d data
    using load_tidy [OF l [unfolded that] assms(2)] assms(1,3-5) by (simp add: tidy_copier_def)
  then show ?thesis using l c1 assms(1) entry_ref_ok
    by (auto simp: copy_config_def tidy_copier_def warn_def list_all_iff List.map_filter_def split: option.split)
qed

lemma copy_file_tidy:
  assumes "tidy_copier home xdg c" and "dest_ok src dest" and "IsAbs home" and "IsAbs xdg" and "home_folder H home"
  shows "tidy_copier home xdg (copy_file parse_key H ident key src dest public c)"
proof -
  obtain res c1 where l: "load H ident key src dest (public \<noteq> None) c = (res, c1)" by fastforce
  have c1: "tidy_copier home xdg c1" using load_frame [OF l] assms(1) by (simp add: tidy_copier_def same_base_def)
  have "tidy d" if "res = Some (d, data)" for d data
    using load_tidy [OF l [unfolded that] assms(2)] assms(1,3-5) by (simp add: tidy_copier_def)
  then show ?thesis using l c1 by (auto simp: copy_file_def tidy_copier_def warn_def split: option.split)
qed

lemma follow_refs_tidy:
  "tidy_copier home xdg c \<Longrightarrow> IsAbs home \<Longrightarrow> IsAbs xdg \<Longrightarrow> home_folder H home \<Longrightarrow> tidy_copier home xdg (follow_refs ul parse_key H ident c)"
proof (induction ul parse_key H ident c rule: follow_refs.induct)
  case (1 ul parse_key H ident c)
  show ?case
  proof (cases "cp_refs c")
    case Nil
    then show ?thesis using 1(2) by (simp add: follow_refs.simps)
  next
    case (Cons r rs)
    then have c: "tidy_copier home xdg (c\<lparr>cp_refs := rs\<rparr>)" "ref_ok r" using 1(2) by (simp_all add: tidy_copier_def)
    then have "tidy_copier home xdg (follow_ref ul parse_key H ident r (c\<lparr>cp_refs := rs\<rparr>))"
      using copy_config_tidy [OF c(1) _ 1(3-5)] copy_file_tidy [OF c(1) _ 1(3-5)] by (cases r) (simp_all add: follow_ref_def)
    then show ?thesis using 1(1) [OF Cons] 1(3-5) Cons by (simp add: follow_refs.simps [of _ _ _ _ c])
  qed
qed

lemma recorded_refs:
  assumes "IsAbs home"
  shows "cp_refs (recorded H ident home xdg) = []"
proof -
  let ?new = "new_copier home (xdg_dir home xdg)"
  have "loop_ok H ident (map (\<lambda>n. PathJoin [cp_home ?new, n]) gitCredentialDirs) ?new (fold (protect_credentials H ident) gitCredentialDirs ?new)"
    using assms by (intro protect_all) (auto simp: gitCredentialDirs_def new_copier_def dirs_walked_def)
  then show ?thesis by (simp add: loop_ok_def records_def recorded_def with_stores_def new_copier_def)
qed

lemma git_destinations_tidy:
  assumes "IsAbs home" and "xdg = [] \<or> IsAbs xdg" and "home_folder H home"
    and "s \<in> set (cp_out (gitConfigSnapshots ul parse_key H ident home xdg))"
  shows "tidy (sn_Container s)"
proof -
  have x: "IsAbs (xdg_dir home xdg)" using assms(1,2) PathJoin_IsAbs by (auto simp: xdg_dir_def)
  have start: "tidy_copier home (xdg_dir home xdg) (recorded H ident home xdg)"
    using recorded_fields(1-3) [OF assms(1)] recorded_refs [OF assms(1)] by (simp add: tidy_copier_def)
  have d: "dest_ok src (GitCopy.guestHome @ ''/.gitconfig'')" "dest_ok src (GitCopy.guestHome @ ''/.config/git/config'')"
    "dest_ok src (GitCopy.guestHome @ ''/.config/git/ignore'')" "dest_ok src (GitCopy.guestHome @ ''/.config/git/attributes'')" for src
    unfolding dest_ok_def tidy_def by (intro disjI1; code_simp)+
  have "tidy_copier home (xdg_dir home xdg) (gitConfigSnapshots ul parse_key H ident home xdg)"
    unfolding gitConfigSnapshots_def Let_def xdg_dir_def [symmetric] recorded_def [symmetric]
    by (intro follow_refs_tidy copy_file_tidy copy_config_tidy d assms(1,3) x start)
  then show ?thesis using assms(4) by (simp add: tidy_copier_def list_all_iff)
qed

section \<open>Merged specifications\<close>

text \<open>A parsed host mount with the home expanded, and without a colon in its paths.\<close>

definition formattable :: "Mount \<Rightarrow> bool" where
  "formattable m \<longleftrightarrow>
     IsAbs (m_Host m) \<and> IsAbs (m_Container m) \<and> CHR '':'' \<notin> set (m_Host m) \<and> CHR '':'' \<notin> set (m_Container m) \<and> m_Mode m \<in> {''ro'', ''rw''}"

lemma formattable_parse: "splits_volumes pv \<Longrightarrow> formattable m \<Longrightarrow> ParseMount pv home (formatMount m) = Inr m"
  using ParseMount_format [of pv "m_Host m" "m_Container m" "m_Mode m" home] by (cases m) (simp add: formattable_def)

lemma parsed_formattable:
  assumes "splits_volumes pv" and "\<forall>d. home = Some d \<longrightarrow> CHR '':'' \<notin> set d" and "ParseMount pv home spec = Inr m" and "m_Host m \<noteq> []"
  shows "formattable (expanded home m)"
proof -
  obtain c0 h where c0: "pv spec = Some (m_Host m, c0)" "m_Container m = expandGuestPath c0"
    "ExpandPath home (m_Host m) = Inr h" "IsAbs h" "IsAbs (m_Container m)" "m_Mode m \<in> {''ro'', ''rw''}"
    by (rule ParseMount_host [OF assms(3,4)])
  have roots: "rooted_or_home (m_Host m)" "rooted_or_home c0"
    using ExpandPath_rooted [OF c0(3,4)] expandGuestPath_rooted [of c0] c0(2,5) by (simp_all add: IsAbs_def)
  have plain: "CHR '':'' \<notin> set (m_Host m)" "CHR '':'' \<notin> set c0" using assms(1) c0(1) roots unfolding splits_volumes_def by blast+
  have "CHR '':'' \<notin> set h" using c0(3) plain(1) assms(2) by (auto simp: ExpandPath_def result_simps split: if_split_asm dest: in_set_dropD)
  moreover have "CHR '':'' \<notin> set (m_Container m)" using expandGuestPath_set [of c0] plain(2) unfolding c0(2) by (auto simp: Mounts.guestHome_def)
  ultimately show ?thesis using c0 by (simp add: formattable_def expanded_def)
qed

lemma MergeMounts_mounts:
  assumes "MergeMounts pv home layers = Inr es"
  shows "\<exists>ms. es = map formatMount ms \<and> distinct (map m_Container ms) \<and>
     (\<forall>m \<in> set ms. \<exists>spec m0. spec \<in> set (concat layers) \<and> ParseMount pv home spec = Inr m0 \<and> m_Host m0 \<noteq> [] \<and> m = expanded home m0)"
proof -
  have i: "represents home [] ([], [])" by (simp add: represents_def effective_def uniq_def)
  note rep = merge_specs_represents [OF i, of pv "concat layers"]
  from assms obtain st where st: "merge_specs pv home (concat layers) ([], []) = Inr st"
      "es = List.map_filter (\<lambda>c. map_option formatMount (map_of (snd st) c)) (fst st)"
    by (auto simp: MergeMounts_def rbind_eq_Inr split: prod.split_asm)
  with rep obtain ns where ns: "traverse (ParseMount pv home) (concat layers) = Inr ns" "represents home ns st"
    by (cases "traverse (ParseMount pv home) (concat layers)") auto
  let ?ms = "List.map_filter (effective home ns) (fst st)"
  have eff: "m_Container m = c \<and> (\<exists>spec m0. spec \<in> set (concat layers) \<and> ParseMount pv home spec = Inr m0 \<and> m_Host m0 \<noteq> [] \<and> m = expanded home m0)"
    if some: "effective home ns c = Some m" for c m
  proof -
    obtain m0 where m0: "find (\<lambda>m. m_Container m = c) (rev ns) = Some m0" "m_Host m0 \<noteq> []" "m = expanded home m0"
      using some by (auto simp: effective_def split: option.split_asm if_split_asm)
    then have "m_Container m0 = c" "m0 \<in> set ns" using find_Some_mem [OF m0(1)] by (auto simp: find_Some_iff)
    then show ?thesis using m0 traverse_set [OF ns(1), of m0] by (auto simp: expanded_def)
  qed
  have "es = map formatMount ?ms" unfolding st(2) using ns(2)
    by (auto simp: represents_def map_filter_def)
  moreover have "distinct (map m_Container (List.map_filter (effective home ns) cs)) \<and> set (map m_Container (List.map_filter (effective home ns) cs)) \<subseteq> set cs"
    if "distinct cs" for cs using that
  proof (induction cs)
    case (Cons c cs)
    then show ?case using eff [of c] by (auto simp: List.map_filter_simps split: option.split)
  qed (simp add: List.map_filter_simps)
  moreover have "distinct (fst st)" using ns(2) by (simp add: represents_def)
  ultimately show ?thesis using eff by (intro exI [of _ ?ms]) (auto simp: map_filter_def)
qed

text \<open>A configured specification whose destination is clean, as the validation leaves them.\<close>

definition normalised :: "(string \<Rightarrow> (string \<times> string) option) \<Rightarrow> string option \<Rightarrow> string \<Rightarrow> bool" where
  "normalised pv home spec = (case ParseMount pv home spec of Inr m \<Rightarrow> Clean (m_Container m) = m_Container m | Inl _ \<Rightarrow> True)"

lemma normalizeSnapshot_normalised:
  assumes "splits_volumes pv" and "\<forall>d. home = Some d \<longrightarrow> CHR '':'' \<notin> set d" and "normalizeSnapshot pv home spec0 = Inr spec"
    and "ParseMount pv home spec = Inr m" and "m_Host m \<noteq> []"
  shows "tidy (m_Container m)"
proof -
  obtain m0 h where m0: "ParseMount pv home spec0 = Inr m0" "ExpandPath home (m_Host m0) = Inr h"
    "spec = formatMount \<lparr>m_Host = h, m_Container = Clean (m_Container m0), m_Mode = ''ro''\<rparr>"
    using assms(3) by (auto simp: normalizeSnapshot_def Let_def result_simps)
  show ?thesis
  proof (cases "m_Host m0 = []")
    case True
    with m0(2) have "h = []" by (simp add: ExpandPath_def HasPrefix_def)
    then show ?thesis using m0(3) assms(4,5) by (auto simp: formatMount_def dest: ParseMount_removal)
  next
    case False
    have f: "formattable (expanded home m0)" by (rule parsed_formattable [OF assms(1,2) m0(1) False])
    then have a: "IsAbs (m_Container m0)" by (simp add: formattable_def expanded_def)
    have "formattable \<lparr>m_Host = h, m_Container = Clean (m_Container m0), m_Mode = ''ro''\<rparr>"
      using f m0(2) Clean_abs [OF a] Clean_set [OF a] by (auto simp: formattable_def expanded_def)
    then show ?thesis using formattable_parse [OF assms(1), of _ home] m0(3) assms(4) tidy_Clean [OF a] by auto
  qed
qed

text \<open>The snapshots of a workspace of a validated configuration have clean destinations.\<close>

lemma resolved_snapshots_normalised:
  assumes "Validate sy (Some cfg0) = Inr cfg" and "Resolve sy (Some cfg) name = Inr r"
    and "splits_volumes (sys_ParseVolume sy)" and "\<forall>d. sys_home sy = Some d \<longrightarrow> CHR '':'' \<notin> set d"
  shows "list_all (normalised (sys_ParseVolume sy) (sys_home sy)) (r_Snapshots r)"
proof -
  let ?pv = "sys_ParseVolume sy" and ?home = "sys_home sy"
  from assms(2) obtain ws where ws: "map_of (c_Workspaces cfg) name = Some ws"
      "MergeMounts ?pv ?home [d_Snapshots (c_Defaults cfg), w_Snapshots ws] = Inr (r_Snapshots r)"
    by (auto simp: Resolve_def Let_def rbind_eq_Inr rwrap_eq_Inr ropt_eq_Inr)
  have norm: "\<exists>spec0. normalizeSnapshot ?pv ?home spec0 = Inr spec" if "spec \<in> set (d_Snapshots (c_Defaults cfg) @ w_Snapshots ws)" for spec
  proof -
    obtain specs0 specs1 where t: "traverse (\<lambda>s. rwrap MountErr (normalizeSnapshot ?pv ?home s)) specs0 = Inr (d_Snapshots (c_Defaults cfg))"
      "traverse (\<lambda>s. rwrap MountErr (normalizeSnapshot ?pv ?home s)) specs1 = Inr (w_Snapshots ws)"
      using Validate_checked(1) [OF assms(1)] Validate_checked(2) [OF assms(1) ws(1)] unfolding checked_defaults_def checked_workspace_def by blast
    then show ?thesis using that traverse_set [OF t(1), of spec] traverse_set [OF t(2), of spec] by (auto simp: rwrap_eq_Inr)
  qed
  obtain ms where ms: "r_Snapshots r = map formatMount ms"
    and m0: "\<forall>m \<in> set ms. \<exists>spec m0. spec \<in> set (concat [d_Snapshots (c_Defaults cfg), w_Snapshots ws]) \<and> ParseMount ?pv ?home spec = Inr m0 \<and>
      m_Host m0 \<noteq> [] \<and> m = expanded ?home m0" using MergeMounts_mounts [OF ws(2)] by blast
  have "normalised ?pv ?home (formatMount m)" if m: "m \<in> set ms" for m
  proof -
    obtain spec k where k: "spec \<in> set (d_Snapshots (c_Defaults cfg) @ w_Snapshots ws)" "ParseMount ?pv ?home spec = Inr k" "m_Host k \<noteq> []" "m = expanded ?home k"
      using bspec [OF m0 m] by auto
    then obtain spec0 where "normalizeSnapshot ?pv ?home spec0 = Inr spec" using norm by blast
    from normalizeSnapshot_normalised [OF assms(3,4) this k(2,3)] have "tidy (m_Container m)" using k(4) by (simp add: expanded_def)
    then show ?thesis using formattable_parse [OF assms(3) parsed_formattable [OF assms(3,4) k(2,3)], of ?home] k(4)
      by (simp add: normalised_def tidy_def)
  qed
  then show ?thesis unfolding ms by (simp add: list_all_iff)
qed

end
