(* ===== verification/Snapshots.thy ===== *)
theory Snapshots
  imports LiveReload SnapshotDests SharesProps
begin

text \<open>
  The snapshots of a workspace (\<open>internal/cmd/vmsnapshots_unix.go\<close>): which host files and generated files go
  where in the guest, the check against the shares, and the plan of the staging directory. Copying the files
  is an argument of the staging.
\<close>

section \<open>Which snapshots\<close>

record vm_snapshot =
  vs_mount :: Mount
  vs_data :: "string option"

definition vs_Container :: "vm_snapshot \<Rightarrow> string" where
  "vs_Container s = m_Container (vs_mount s)"

definition guestKnownHosts :: string where
  "guestKnownHosts = GitCopy.guestHome @ ''/.ssh/known_hosts''"

definition isRegularFile :: "host \<Rightarrow> string \<Rightarrow> bool" where
  "isRegularFile H p = (case stat H p of Inr (Regular _ _) \<Rightarrow> True | _ \<Rightarrow> False)"

definition mountOf :: "string \<Rightarrow> string \<Rightarrow> Mount" where
  "mountOf src dest = \<lparr>m_Host = src, m_Container = dest, m_Mode = ''ro''\<rparr>"

definition default_snapshots ::
  "(string \<Rightarrow> string) \<Rightarrow> key_parser \<Rightarrow> host \<Rightarrow> (string list \<Rightarrow> nat) \<Rightarrow> string option \<Rightarrow> string \<Rightarrow> Resolved \<Rightarrow> vm_snapshot list" where
  "default_snapshots ul parse_key H ident home xdg ws =
     (case home of
        None \<Rightarrow> []
      | Some h \<Rightarrow>
          (if r_GitConfig ws then
             map (\<lambda>s. \<lparr>vs_mount = mountOf (sn_Host s) (sn_Container s), vs_data = Some (sn_data s)\<rparr>)
               (cp_out (gitConfigSnapshots ul parse_key H ident h xdg))
           else []) @
          (let src = PathJoin [h, ''.ssh'', ''known_hosts''] in
           if r_SSHAuthSock ws \<and> isRegularFile H src then [\<lparr>vs_mount = mountOf src guestKnownHosts, vs_data = None\<rparr>] else []))"

text \<open>The destinations of the configured specifications that parse.\<close>

definition explicit_dests :: "(string \<Rightarrow> (string \<times> string) option) \<Rightarrow> string option \<Rightarrow> string list \<Rightarrow> string list" where
  "explicit_dests pv home specs =
     List.map_filter (\<lambda>spec. case ParseMount pv home spec of Inr m \<Rightarrow> Some (Clean (m_Container m)) | Inl _ \<Rightarrow> None) specs"

definition by_dest :: "vm_snapshot list \<Rightarrow> (string \<times> vm_snapshot) list" where
  "by_dest defaults = fold (\<lambda>d. AList.update (vs_Container d) d) defaults []"

fun build_snapshots ::
  "(string \<Rightarrow> (string \<times> string) option) \<Rightarrow> string option \<Rightarrow> (string \<times> vm_snapshot) list \<Rightarrow> string list \<Rightarrow> string list \<Rightarrow>
   vm_snapshot list \<times> string list \<Rightarrow> (mount_error, vm_snapshot list \<times> string list) result" where
  "build_snapshots pv home byDest explicit [] acc = Inr acc"
| "build_snapshots pv home byDest explicit (spec # specs) (snapshots, configured) =
     rbind (ParseMount pv home spec) (\<lambda>m.
     rbind (ExpandPath home (m_Host m)) (\<lambda>host.
       let c = Clean (m_Container m); m1 = m\<lparr>m_Host := host, m_Container := c\<rparr> in
       case (if c \<in> set explicit then None else map_of byDest c) of
         Some d \<Rightarrow> build_snapshots pv home byDest explicit specs (snapshots @ [d], configured)
       | None \<Rightarrow> build_snapshots pv home byDest explicit specs (snapshots @ [\<lparr>vs_mount = m1, vs_data = None\<rparr>], configured @ [c])))"

definition replaced :: "(string \<times> vm_snapshot) list \<Rightarrow> string list \<Rightarrow> string list \<Rightarrow> vm_snapshot \<Rightarrow> bool" where
  "replaced byDest explicit configured s \<longleftrightarrow>
     map_of byDest (vs_Container s) \<noteq> None \<and> vs_Container s \<notin> set explicit \<and> list_ex (\<lambda>c. HasPrefix (vs_Container s) (c @ ''/'')) configured"

definition depth :: "string \<Rightarrow> nat" where
  "depth p = length (filter (\<lambda>ch. ch = CHR ''/'') p)"

definition vmSnapshots ::
  "(string \<Rightarrow> string) \<Rightarrow> key_parser \<Rightarrow> host \<Rightarrow> (string list \<Rightarrow> nat) \<Rightarrow> (string \<Rightarrow> (string \<times> string) option) \<Rightarrow> string option \<Rightarrow> string \<Rightarrow> Resolved \<Rightarrow>
   (mount_error, vm_snapshot list) result" where
  "vmSnapshots ul parse_key H ident pv home xdg ws =
     (let defaults = default_snapshots ul parse_key H ident home xdg ws;
          specs = map (\<lambda>d. m_Host (vs_mount d) @ '':'' @ vs_Container d @ '':ro'') defaults;
          byDest = by_dest defaults;
          explicit = explicit_dests pv home (r_Snapshots ws) in
      rbind (MergeMounts pv home [specs, r_Snapshots ws]) (\<lambda>merged.
      rbind (build_snapshots pv home byDest explicit merged ([], [])) (\<lambda>(snapshots, configured).
      Inr (sort_key (\<lambda>s. depth (vs_Container s)) (filter (\<lambda>s. \<not> replaced byDest explicit configured s) snapshots)))))"

definition guest_Dir :: string where "guest_Dir = ''/.jailoc''"

definition overlaps :: "string \<Rightarrow> string \<Rightarrow> bool" where
  "overlaps a b \<longleftrightarrow> a = b \<or> HasPrefix a (b @ ''/'') \<or> HasPrefix b (a @ ''/'')"

datatype snapshot_error = Reserved string | OverlapsShare string string

definition check_snapshot :: "Share list \<Rightarrow> vm_snapshot \<Rightarrow> (snapshot_error, unit) result" where
  "check_snapshot shares c =
     rbind (rguard (overlaps (vs_Container c) guest_Dir) (Reserved (vs_Container c))) (\<lambda>_.
     for_each (\<lambda>s. rguard (GuestPath s \<noteq> [] \<and> overlaps (vs_Container c) (GuestPath s)) (OverlapsShare (vs_Container c) (GuestPath s))) shares)"

definition checkSnapshots :: "vm_snapshot list \<Rightarrow> Share list \<Rightarrow> (snapshot_error, unit) result" where
  "checkSnapshots snapshots shares = for_each (check_snapshot shares) snapshots"

section \<open>Staging\<close>

text \<open>A copy into a directory of its own, or into a staged parent.\<close>

datatype stage_op = StageNew string vm_snapshot | StageChild string string vm_snapshot

definition ReadOnlyHostDir :: string where "ReadOnlyHostDir = guest_Dir @ ''/private/host-ro''"
definition SnapshotsDir :: string where "SnapshotsDir = ReadOnlyHostDir @ ''/snapshots''"

definition stage_dir :: "string \<Rightarrow> nat \<Rightarrow> string" where
  "stage_dir gen i = ''snapshots/'' @ gen @ ''/'' @ show_nat i"

definition stage_source :: "string \<Rightarrow> nat \<Rightarrow> string" where
  "stage_source gen i = SnapshotsDir @ ''/'' @ gen @ ''/'' @ show_nat i"

text \<open>
  The loop of \<open>stageSnapshots\<close>: \<open>staged\<close> are the directories of \<open>binds\<close>; \<open>copy\<close> says whether an operation succeeds.
\<close>

fun stage_loop ::
  "(stage_op \<Rightarrow> bool) \<Rightarrow> string \<Rightarrow> nat \<Rightarrow> vm_snapshot list \<Rightarrow> guestSnapshot list \<times> string list \<times> stage_op list \<Rightarrow>
   (string, guestSnapshot list \<times> stage_op list) result" where
  "stage_loop copy gen i [] (binds, staged, ops) = Inr (binds, ops)"
| "stage_loop copy gen i (c # cs) (binds, staged, ops) =
     (case find (\<lambda>p. HasPrefix (vs_Container c) (gs_Target (binds ! p) @ ''/'')) [0..<length binds] of
        Some p \<Rightarrow>
          let op = StageChild (staged ! p) (drop (length (gs_Target (binds ! p)) + 1) (vs_Container c)) c in
          if copy op then stage_loop copy gen (i + 1) cs (binds, staged, ops @ [op]) else Inl (m_Host (vs_mount c))
      | None \<Rightarrow>
          let dst = stage_dir gen i; op = StageNew dst c in
          if copy op
          then stage_loop copy gen (i + 1) cs
                 (binds @ [\<lparr>gs_Source = stage_source gen i, gs_Target = vs_Container c\<rparr>], staged @ [dst], ops @ [op])
          else Inl (m_Host (vs_mount c)))"

definition stageSnapshots :: "(stage_op \<Rightarrow> bool) \<Rightarrow> string \<Rightarrow> vm_snapshot list \<Rightarrow> (string, guestSnapshot list \<times> stage_op list) result" where
  "stageSnapshots copy gen snapshots = (if snapshots = [] then Inr ([], []) else stage_loop copy gen 0 snapshots ([], [], []))"

definition snapshotGeneration :: "guestSnapshot list \<Rightarrow> string" where
  "snapshotGeneration binds =
     (case binds of
        [] \<Rightarrow> []
      | b # _ \<Rightarrow>
          let rel = (case CutPrefix (gs_Source b) (SnapshotsDir @ ''/'') of Some r \<Rightarrow> r | None \<Rightarrow> gs_Source b)
          in fst (Cut rel ''/''))"

section \<open>Depth\<close>

definition below :: "string \<Rightarrow> string \<Rightarrow> bool" where
  "below a b \<longleftrightarrow> HasPrefix a (b @ ''/'')"

lemma below_iff: "below a b \<longleftrightarrow> (\<exists>rest. a = b @ CHR ''/'' # rest)"
  by (auto simp: below_def HasPrefix_iff prefix_def)

lemma below_depth: "below a b \<Longrightarrow> depth b < depth a"
  by (auto simp: below_iff depth_def)

lemma below_trans: "below a b \<Longrightarrow> below b c \<Longrightarrow> below a c"
  by (auto simp: below_iff)

lemma show_nat_inj: "show_nat m = show_nat n \<Longrightarrow> m = n"
  by (metis show_nat_digits)

lemma stage_dir_inj: "stage_dir gen i = stage_dir gen j \<longleftrightarrow> i = j"
  by (auto simp: stage_dir_def dest: show_nat_inj)

lemma stage_source_dir: "stage_source gen i = ReadOnlyHostDir @ ''/'' @ stage_dir gen i"
  by (simp add: stage_source_def stage_dir_def SnapshotsDir_def)

section \<open>Placement\<close>

text \<open>Where an operation puts a snapshot: the source of a bind at its destination, or below one.\<close>

definition placed :: "guestSnapshot list \<Rightarrow> vm_snapshot \<Rightarrow> stage_op \<Rightarrow> bool" where
  "placed binds s op \<longleftrightarrow>
     (\<exists>b \<in> set binds. \<exists>d. gs_Source b = ReadOnlyHostDir @ ''/'' @ d \<and>
        (op = StageNew d s \<and> vs_Container s = gs_Target b \<or>
         (\<exists>rel. op = StageChild d rel s \<and> vs_Container s = gs_Target b @ ''/'' @ rel)))"

definition stage_inv :: "nat \<Rightarrow> string \<Rightarrow> vm_snapshot list \<Rightarrow> guestSnapshot list \<times> string list \<times> stage_op list \<Rightarrow> bool" where
  "stage_inv i gen past st \<longleftrightarrow>
     (case st of (binds, staged, ops) \<Rightarrow>
        map gs_Source binds = map (\<lambda>d. ReadOnlyHostDir @ ''/'' @ d) staged \<and>
        set staged \<subseteq> stage_dir gen ` {..<i} \<and> distinct staged \<and>
        (\<forall>b \<in> set binds. \<forall>b' \<in> set binds. \<not> below (gs_Target b) (gs_Target b')) \<and>
        (distinct (map vs_Container past) \<longrightarrow> distinct (map gs_Target binds)) \<and>
        gs_Target ` set binds \<subseteq> vs_Container ` set past \<and> list_all2 (placed binds) past ops)"

lemma placed_mono: "placed binds s op \<Longrightarrow> placed (binds @ bs) s op"
  unfolding placed_def by auto

lemma stage_invD:
  assumes "stage_inv i gen past (binds, staged, ops)"
  shows "map gs_Source binds = map (\<lambda>d. ReadOnlyHostDir @ ''/'' @ d) staged" and "set staged \<subseteq> stage_dir gen ` {..<i}" and "distinct staged"
    and "\<forall>b \<in> set binds. \<forall>b' \<in> set binds. \<not> below (gs_Target b) (gs_Target b')"
    and "gs_Target ` set binds \<subseteq> vs_Container ` set past" and "list_all2 (placed binds) past ops"
    and "distinct (map vs_Container past) \<Longrightarrow> distinct (map gs_Target binds)"
  using assms by (simp_all add: stage_inv_def)

lemma stage_child:
  assumes "stage_inv i gen past (binds, staged, ops)" and "p < length binds" and "below (vs_Container c) (gs_Target (binds ! p))"
  shows "stage_inv (i + 1) gen (past @ [c]) (binds, staged, ops @ [StageChild (staged ! p) (drop (length (gs_Target (binds ! p)) + 1) (vs_Container c)) c])"
proof -
  note inv = stage_invD [OF assms(1)]
  have "length binds = length staged" using inv(1) by (rule map_eq_imp_length_eq)
  then have src: "gs_Source (binds ! p) = ReadOnlyHostDir @ ''/'' @ staged ! p"
    using arg_cong [OF inv(1), of "\<lambda>l. l ! p"] assms(2) by simp
  have "vs_Container c = gs_Target (binds ! p) @ ''/'' @ drop (length (gs_Target (binds ! p)) + 1) (vs_Container c)"
    using assms(3) by (auto simp: below_iff)
  then have "placed binds c (StageChild (staged ! p) (drop (length (gs_Target (binds ! p)) + 1) (vs_Container c)) c)"
    unfolding placed_def using src assms(2) by (intro bexI [of _ "binds ! p"] exI [of _ "staged ! p"]) auto
  moreover have "set staged \<subseteq> stage_dir gen ` {..<i + 1}" using inv(2) by auto
  ultimately show ?thesis unfolding stage_inv_def split using inv
    by (intro conjI) (simp_all add: list_all2_appendI subset_insertI2)
qed

lemma stage_new:
  assumes "stage_inv i gen past (binds, staged, ops)" and "\<forall>b \<in> set binds. \<not> below (vs_Container c) (gs_Target b)"
    and "\<forall>s \<in> set past. depth (vs_Container s) \<le> depth (vs_Container c)"
  shows "stage_inv (i + 1) gen (past @ [c])
     (binds @ [\<lparr>gs_Source = stage_source gen i, gs_Target = vs_Container c\<rparr>], staged @ [stage_dir gen i], ops @ [StageNew (stage_dir gen i) c])"
proof -
  note inv = stage_invD [OF assms(1)]
  let ?b = "\<lparr>gs_Source = stage_source gen i, gs_Target = vs_Container c\<rparr>"
  have "placed (binds @ [?b]) c (StageNew (stage_dir gen i) c)" unfolding placed_def by (auto simp: stage_source_dir)
  then have pl: "list_all2 (placed (binds @ [?b])) (past @ [c]) (ops @ [StageNew (stage_dir gen i) c])"
    using list_all2_mono [OF inv(6) placed_mono] by (intro list_all2_appendI) simp_all
  have up: "\<not> below (gs_Target b) (vs_Container c)" if b: "b \<in> set binds" for b
  proof
    assume "below (gs_Target b) (vs_Container c)"
    moreover obtain s where "s \<in> set past" "gs_Target b = vs_Container s" using inv(5) b by blast
    ultimately show False using below_depth [of "gs_Target b" "vs_Container c"] assms(3) by fastforce
  qed
  have self: "\<not> below (vs_Container c) (vs_Container c)" using below_depth by blast
  have "stage_dir gen i \<notin> set staged" "set (staged @ [stage_dir gen i]) \<subseteq> stage_dir gen ` {..<i + 1}"
    using inv(2) by (auto simp: stage_dir_inj)
  moreover have "\<forall>b \<in> set (binds @ [?b]). \<forall>b' \<in> set (binds @ [?b]). \<not> below (gs_Target b) (gs_Target b')"
    using inv(4) up self assms(2) by simp
  moreover have "gs_Target ` set (binds @ [?b]) \<subseteq> vs_Container ` set (past @ [c])" using inv(5) by auto
  moreover have "distinct (map vs_Container (past @ [c])) \<longrightarrow> distinct (map gs_Target (binds @ [?b]))" using inv(5,7) by auto
  ultimately show ?thesis unfolding stage_inv_def split using inv(1,3) pl by (intro conjI) (simp_all add: stage_source_dir)
qed

lemma stage_loop_inv:
  "stage_inv i gen past (binds, staged, ops) \<Longrightarrow> sorted_wrt (\<lambda>a b. depth (vs_Container a) \<le> depth (vs_Container b)) (past @ cs) \<Longrightarrow>
   stage_loop copy gen i cs (binds, staged, ops) = Inr (binds1, ops1) \<Longrightarrow> \<exists>staged1 i1. stage_inv i1 gen (past @ cs) (binds1, staged1, ops1)"
proof (induction cs arbitrary: i past binds staged ops)
  case Nil
  then show ?case by auto
next
  case (Cons c cs)
  have order: "\<forall>s \<in> set past. depth (vs_Container s) \<le> depth (vs_Container c)" using Cons.prems(2) by (auto simp: sorted_wrt_append)
  let ?find = "find (\<lambda>p. HasPrefix (vs_Container c) (gs_Target (binds ! p) @ ''/'')) [0..<length binds]"
  show ?case
  proof (cases ?find)
    case (Some p)
    then have "p < length binds" "below (vs_Container c) (gs_Target (binds ! p))" by (auto simp: find_Some_iff below_def)
    note step = stage_child [OF Cons.prems(1) this]
    show ?thesis using Cons.IH [OF step] Cons.prems(2,3) Some by (auto simp: Let_def split: if_splits)
  next
    case None
    then have "\<forall>b \<in> set binds. \<not> below (vs_Container c) (gs_Target b)"
      by (auto simp: find_None_iff below_def in_set_conv_nth)
    note step = stage_new [OF Cons.prems(1) this order]
    show ?thesis using Cons.IH [OF step] Cons.prems(2,3) None by (auto simp: Let_def split: if_splits)
  qed
qed

section \<open>Defaults\<close>

lemma by_dest_sound: "map_of (by_dest ds) c = Some d \<Longrightarrow> d \<in> set ds \<and> vs_Container d = c"
proof -
  have "map_of (fold (\<lambda>d. AList.update (vs_Container d) d) ds al) c = Some d \<Longrightarrow>
      d \<in> set ds \<and> vs_Container d = c \<or> map_of al c = Some d" for al
    by (induction ds arbitrary: al) (fastforce simp: update_conv' split: if_splits)+
  from this [of "[]"] show "map_of (by_dest ds) c = Some d \<Longrightarrow> d \<in> set ds \<and> vs_Container d = c" by (simp add: by_dest_def)
qed

text \<open>A snapshot is a default for a destination nobody configured, or a configured one, without generated content.\<close>

definition default_at :: "(string \<times> vm_snapshot) list \<Rightarrow> string list \<Rightarrow> vm_snapshot \<Rightarrow> bool" where
  "default_at byDest explicit s \<longleftrightarrow> map_of byDest (vs_Container s) = Some s \<and> vs_Container s \<notin> set explicit"

lemma build_sources:
  assumes "\<And>c d. map_of byDest c = Some d \<Longrightarrow> vs_Container d = c"
  shows "build_snapshots pv home byDest explicit specs (ss, cs) = Inr (snaps, configured) \<Longrightarrow>
    \<forall>s \<in> set ss. default_at byDest explicit s \<or> vs_data s = None \<and> vs_Container s \<in> set cs \<Longrightarrow>
    \<forall>s \<in> set snaps. default_at byDest explicit s \<or> vs_data s = None \<and> vs_Container s \<in> set configured"
proof (induction specs arbitrary: ss cs)
  case (Cons spec specs)
  obtain m host where m: "ParseMount pv home spec = Inr m" "ExpandPath home (m_Host m) = Inr host"
    using Cons.prems(1) by (auto simp: result_simps)
  let ?c = "Clean (m_Container m)"
  let ?new = "\<lparr>vs_mount = m\<lparr>m_Host := host, m_Container := ?c\<rparr>, vs_data = None\<rparr>"
  show ?case
  proof (cases "if ?c \<in> set explicit then None else map_of byDest ?c")
    case None
    have "vs_Container ?new = ?c" by (simp add: vs_Container_def)
    then show ?thesis using Cons.IH [of "ss @ [?new]" "cs @ [?c]"] Cons.prems m None by (auto simp: Let_def)
  next
    case (Some d)
    then have "default_at byDest explicit d" using assms [of ?c d] by (auto simp: default_at_def split: if_splits)
    then show ?thesis using Cons.IH [of "ss @ [d]" cs] Cons.prems m Some by (auto simp: Let_def)
  qed
qed simp

lemma vmSnapshots_facts:
  assumes "vmSnapshots ul parse_key H ident pv home xdg ws = Inr snaps"
  shows "sorted_wrt (\<lambda>a b. depth (vs_Container a) \<le> depth (vs_Container b)) snaps"
    and "s \<in> set snaps \<Longrightarrow> vs_data s \<noteq> None \<Longrightarrow>
      s \<in> set (default_snapshots ul parse_key H ident home xdg ws) \<and> vs_Container s \<notin> set (explicit_dests pv home (r_Snapshots ws)) \<and>
      (\<forall>s' \<in> set snaps. vs_Container s' \<in> set (explicit_dests pv home (r_Snapshots ws)) \<longrightarrow> \<not> below (vs_Container s) (vs_Container s'))"
proof -
  let ?defaults = "default_snapshots ul parse_key H ident home xdg ws"
  let ?by = "by_dest ?defaults"
  let ?ex = "explicit_dests pv home (r_Snapshots ws)"
  obtain merged built configured where b: "build_snapshots pv home ?by ?ex merged ([], []) = Inr (built, configured)"
    and snaps: "snaps = sort_key (\<lambda>s. depth (vs_Container s)) (filter (\<lambda>s. \<not> replaced ?by ?ex configured s) built)"
    using assms by (auto simp: vmSnapshots_def Let_def result_simps)
  show "sorted_wrt (\<lambda>a b. depth (vs_Container a) \<le> depth (vs_Container b)) snaps"
    using sorted_sort_key [of "\<lambda>s. depth (vs_Container s)"] unfolding snaps by (simp add: sorted_map)
  have src: "\<forall>s \<in> set built. default_at ?by ?ex s \<or> vs_data s = None \<and> vs_Container s \<in> set configured"
    using build_sources [OF _ b] by_dest_sound by auto
  assume s: "s \<in> set snaps" "vs_data s \<noteq> None"
  then have sb: "s \<in> set built" "\<not> replaced ?by ?ex configured s" unfolding snaps by auto
  then have d: "default_at ?by ?ex s" using bspec [OF src sb(1)] s(2) by simp
  have "\<not> below (vs_Container s) (vs_Container s')" if "s' \<in> set snaps" "vs_Container s' \<in> set ?ex" for s'
  proof -
    have "s' \<in> set built" using that(1) unfolding snaps by auto
    then have "vs_Container s' \<in> set configured" using src that(2) by (auto simp: default_at_def)
    then show ?thesis using sb(2) d by (auto simp: replaced_def default_at_def below_def list_ex_iff)
  qed
  then show "s \<in> set ?defaults \<and> vs_Container s \<notin> set ?ex \<and> (\<forall>s' \<in> set snaps. vs_Container s' \<in> set ?ex \<longrightarrow> \<not> below (vs_Container s) (vs_Container s'))"
    using d by_dest_sound [of ?defaults "vs_Container s" s] by (auto simp: default_at_def)
qed

section \<open>One snapshot for each destination\<close>

text \<open>A rooted source and target are all of a specification but a mode, which has no colon.\<close>

definition whole_volumes :: "(string \<Rightarrow> (string \<times> string) option) \<Rightarrow> bool" where
  "whole_volumes pv \<longleftrightarrow>
     (\<forall>spec h c. pv spec = Some (h, c) \<longrightarrow> rooted_or_home h \<longrightarrow> rooted_or_home c \<longrightarrow>
        spec = h @ '':'' @ c \<or> (\<exists>m. CHR '':'' \<notin> set m \<and> spec = h @ '':'' @ c @ '':'' @ m))"

lemma whole_default:
  assumes "splits_volumes pv" and "whole_volumes pv" and "ParseMount pv home (h @ '':'' @ c @ '':ro'') = Inr m" and "m_Host m \<noteq> []" and "IsAbs c"
  shows "m_Container m = c"
proof -
  let ?s = "h @ '':'' @ c @ '':ro''"
  obtain c0 e where c0: "pv ?s = Some (m_Host m, c0)" "m_Container m = expandGuestPath c0"
    "ExpandPath home (m_Host m) = Inr e" "IsAbs e" "IsAbs (m_Container m)" by (rule ParseMount_host [OF assms(3,4)])
  have roots: "rooted_or_home (m_Host m)" "rooted_or_home c0"
    using ExpandPath_rooted [OF c0(3,4)] expandGuestPath_rooted [of c0] c0(2,5) by (simp_all add: IsAbs_def)
  have plain: "CHR '':'' \<notin> set (m_Host m)" "CHR '':'' \<notin> set c0" using assms(1) c0(1) roots unfolding splits_volumes_def by blast+
  let ?n = "\<lambda>s. length (filter (\<lambda>ch. ch = CHR '':'') s)"
  have none: "?n s = 0 \<longleftrightarrow> CHR '':'' \<notin> set s" for s by (auto simp: filter_empty_conv)
  have "?s = m_Host m @ '':'' @ c0 \<or> (\<exists>mode. CHR '':'' \<notin> set mode \<and> ?s = m_Host m @ '':'' @ c0 @ '':'' @ mode)"
    using assms(2) c0(1) roots unfolding whole_volumes_def by blast
  then show ?thesis
  proof
    assume "?s = m_Host m @ '':'' @ c0"
    from arg_cong [OF this, of ?n] show ?thesis using plain by (simp flip: none)
  next
    assume "\<exists>mode. CHR '':'' \<notin> set mode \<and> ?s = m_Host m @ '':'' @ c0 @ '':'' @ mode"
    then obtain mode where mode: "CHR '':'' \<notin> set mode" "?s = m_Host m @ '':'' @ c0 @ '':'' @ mode" by blast
    from arg_cong [OF mode(2), of ?n] have "?n h = 0" "?n c = 0" using plain mode(1) by (simp_all flip: none)
    then have "CHR '':'' \<notin> set h" "CHR '':'' \<notin> set c" using none by blast+
    then have "m_Host m = h" "c0 = c" using mode plain by (auto simp: append_eq_append_conv2 append_eq_Cons_conv Cons_eq_append_conv)
    then show ?thesis using c0(2) assms(5) by (simp add: expandGuestPath_abs)
  qed
qed

lemma build_containers:
  assumes "\<And>c d. map_of byDest c = Some d \<Longrightarrow> vs_Container d = c"
  shows "build_snapshots pv home byDest explicit (map formatMount ms) (ss, cs) = Inr (snaps, configured) \<Longrightarrow>
    \<forall>m \<in> set ms. ParseMount pv home (formatMount m) = Inr m \<and> Clean (m_Container m) = m_Container m \<Longrightarrow>
    map vs_Container snaps = map vs_Container ss @ map m_Container ms"
proof (induction ms arbitrary: ss cs)
  case (Cons m ms)
  then have m: "ParseMount pv home (formatMount m) = Inr m" "Clean (m_Container m) = m_Container m" by simp_all
  obtain host where host: "ExpandPath home (m_Host m) = Inr host" using Cons.prems(1) m by (auto simp: result_simps)
  let ?new = "\<lparr>vs_mount = m\<lparr>m_Host := host\<rparr>, vs_data = None\<rparr>"
  have eq: "build_snapshots pv home byDest explicit (map formatMount (m # ms)) (ss, cs) =
      (case (if m_Container m \<in> set explicit then None else map_of byDest (m_Container m)) of
         Some d \<Rightarrow> build_snapshots pv home byDest explicit (map formatMount ms) (ss @ [d], cs)
       | None \<Rightarrow> build_snapshots pv home byDest explicit (map formatMount ms) (ss @ [?new], cs @ [m_Container m]))"
    using m(1) host by (simp add: Let_def m(2) cong: if_cong option.case_cong)
  show ?case
  proof (cases "if m_Container m \<in> set explicit then None else map_of byDest (m_Container m)")
    case None
    have "vs_Container ?new = m_Container m" by (simp add: vs_Container_def)
    then show ?thesis using Cons.IH [of "ss @ [?new]" "cs @ [m_Container m]"] Cons.prems(2) Cons.prems(1) [unfolded eq None] by simp
  next
    case (Some d)
    then have "vs_Container d = m_Container m" using assms by (auto split: if_splits)
    then show ?thesis using Cons.IH [of "ss @ [d]" cs] Cons.prems(2) Cons.prems(1) [unfolded eq Some] by simp
  qed
qed simp

lemma defaults_tidy:
  assumes "home = Some d" and "IsAbs d" and "xdg = [] \<or> IsAbs xdg" and "home_folder H d"
    and "s \<in> set (default_snapshots ul parse_key H ident home xdg ws)"
  shows "tidy (vs_Container s)"
proof -
  have "tidy guestKnownHosts" unfolding tidy_def by (intro conjI; code_simp)
  then show ?thesis using assms(1,5) git_destinations_tidy [OF assms(2-4)]
    by (auto simp: default_snapshots_def Let_def vs_Container_def mountOf_def split: if_split_asm)
qed

lemma vmSnapshots_distinct:
  assumes "vmSnapshots ul parse_key H ident pv home xdg ws = Inr snaps"
    and "splits_volumes pv" and "whole_volumes pv" and "home = Some d" and "IsAbs d" and "CHR '':'' \<notin> set d" and "xdg = [] \<or> IsAbs xdg"
    and "home_folder H d" and "list_all (normalised pv home) (r_Snapshots ws)"
  shows "distinct (map vs_Container snaps)"
proof -
  let ?defaults = "default_snapshots ul parse_key H ident home xdg ws"
  let ?by = "by_dest ?defaults"
  let ?ex = "explicit_dests pv home (r_Snapshots ws)"
  let ?specs = "map (\<lambda>d. m_Host (vs_mount d) @ '':'' @ vs_Container d @ '':ro'') ?defaults"
  have nc: "\<forall>d. home = Some d \<longrightarrow> CHR '':'' \<notin> set d" using assms(4,6) by simp
  obtain merged built configured where mg: "MergeMounts pv home [?specs, r_Snapshots ws] = Inr merged"
    and b: "build_snapshots pv home ?by ?ex merged ([], []) = Inr (built, configured)"
    and snaps: "snaps = sort_key (\<lambda>s. depth (vs_Container s)) (filter (\<lambda>s. \<not> replaced ?by ?ex configured s) built)"
    using assms(1) by (auto simp: vmSnapshots_def Let_def result_simps)
  obtain ms where ms: "merged = map formatMount ms" "distinct (map m_Container ms)"
    and from_spec: "\<forall>m \<in> set ms. \<exists>spec m0. spec \<in> set (concat [?specs, r_Snapshots ws]) \<and> ParseMount pv home spec = Inr m0 \<and> m_Host m0 \<noteq> [] \<and> m = expanded home m0"
    using MergeMounts_mounts [OF mg] by blast
  have "ParseMount pv home (formatMount m) = Inr m \<and> Clean (m_Container m) = m_Container m" if m: "m \<in> set ms" for m
  proof -
    obtain spec m0 where m0: "spec \<in> set ?specs \<union> set (r_Snapshots ws)" "ParseMount pv home spec = Inr m0" "m_Host m0 \<noteq> []" "m = expanded home m0"
      using bspec [OF from_spec m] by auto
    have c: "m_Container m = m_Container m0" by (simp add: m0(4) expanded_def)
    have "Clean (m_Container m0) = m_Container m0"
    proof (cases "spec \<in> set (r_Snapshots ws)")
      case True
      then show ?thesis using assms(9) m0(2) by (auto simp: list_all_iff normalised_def)
    next
      case False
      then obtain s where s: "s \<in> set ?defaults" "spec = m_Host (vs_mount s) @ '':'' @ vs_Container s @ '':ro''" using m0(1) by auto
      then have t: "tidy (vs_Container s)" using defaults_tidy [OF assms(4,5,7,8)] by blast
      then have "m_Container m0 = vs_Container s" using whole_default [OF assms(2,3)] m0(2,3) s(2) by (simp add: tidy_def)
      then show ?thesis using t by (simp add: tidy_def)
    qed
    then show ?thesis using formattable_parse [OF assms(2) parsed_formattable [OF assms(2) nc m0(2,3)]] m0(4) c by simp
  qed
  then have "map vs_Container built = map m_Container ms"
    using build_containers [of ?by, OF _ b [unfolded ms(1)]] by_dest_sound by auto
  then have "distinct (map vs_Container built)" using ms(2) by simp
  then have "distinct (map vs_Container (filter P built))" for P by (rule distinct_map_filter)
  then show ?thesis unfolding snaps by (simp add: distinct_map)
qed

section \<open>Properties\<close>


text \<open>
  A home directory with two Git configuration files and known hosts, and a workspace that configures
  \<open>.config\<close> and a file below it.
\<close>

definition snap_host :: host where
  "snap_host =
     \<lparr>h_nodes =
        [([''h''], Folder True True), ([''h'', ''.gitconfig''], Regular True ''[a]''), ([''h'', ''.config''], Folder True True),
         ([''h'', ''.config'', ''git''], Folder True True), ([''h'', ''.config'', ''git'', ''config''], Regular True ''[b]''),
         ([''h'', ''.ssh''], Folder True True), ([''h'', ''.ssh'', ''known_hosts''], Regular True ''k'')],
      h_cwd = [], h_home = Some ''/h''\<rparr>"

definition snap_ident :: "string list \<Rightarrow> nat" where
  "snap_ident es =
     (case map_of (zip (map fst (h_nodes snap_host)) [1..<8]) es of Some i \<Rightarrow> i | None \<Rightarrow> 0)"

definition snap_ws :: Resolved where
  "snap_ws = over_resolved\<lparr>r_Snapshots := [''/s/z:/home/agent/.config/z:ro'', ''/s/conf:/home/agent/.config:ro''], r_GitConfig := True, r_SSHAuthSock := True\<rparr>"

definition snap_list :: "vm_snapshot list" where
  "snap_list =
     [\<lparr>vs_mount = mountOf ''/h/.gitconfig'' ''/home/agent/.gitconfig'', vs_data = Some ''[a]''\<rparr>,
      \<lparr>vs_mount = mountOf ''/s/conf'' ''/home/agent/.config'', vs_data = None\<rparr>,
      \<lparr>vs_mount = mountOf ''/h/.ssh/known_hosts'' ''/home/agent/.ssh/known_hosts'', vs_data = None\<rparr>,
      \<lparr>vs_mount = mountOf ''/s/z'' ''/home/agent/.config/z'', vs_data = None\<rparr>]"

definition snap_binds :: "guestSnapshot list" where
  "snap_binds =
     [\<lparr>gs_Source = stage_source ''7'' 0, gs_Target = ''/home/agent/.gitconfig''\<rparr>,
      \<lparr>gs_Source = stage_source ''7'' 1, gs_Target = ''/home/agent/.config''\<rparr>,
      \<lparr>gs_Source = stage_source ''7'' 2, gs_Target = ''/home/agent/.ssh/known_hosts''\<rparr>]"

definition snap_ops :: "stage_op list" where
  "snap_ops =
     [StageNew (stage_dir ''7'' 0) (snap_list ! 0), StageNew (stage_dir ''7'' 1) (snap_list ! 1),
      StageNew (stage_dir ''7'' 2) (snap_list ! 2), StageChild (stage_dir ''7'' 1) ''z'' (snap_list ! 3)]"

definition snap_reload :: Reload where
  "snap_reload = (ex_reload 5 [] [])\<lparr>rl_Snapshots := snap_binds\<rparr>"

definition snap_share :: Share where
  "snap_share = \<lparr>HostPath = ''/work'', GuestPath = ''/work'', ReadOnly = False\<rparr>"

definition snap_pv :: "string \<Rightarrow> (string \<times> string) option" where
  "snap_pv s = (case Split CHR '':'' s of [h, c] \<Rightarrow> Some (h, c) | [h, c, m] \<Rightarrow> Some (h, c) | _ \<Rightarrow> None)"

lemma snap_pv_parts: "snap_pv s = Some (h, c) \<Longrightarrow> Split CHR '':'' s = [h, c] \<or> (\<exists>m. Split CHR '':'' s = [h, c, m])"
  by (auto simp: snap_pv_def split: list.split_asm)

lemma snap_pv_splits: "splits_volumes snap_pv"
proof -
  have "CHR '':'' \<notin> set h \<and> CHR '':'' \<notin> set c" if "snap_pv s = Some (h, c)" for s h c
    using snap_pv_parts [OF that] Split_no_sep [of _ "CHR '':''" s] by auto
  moreover have "snap_pv (h @ '':'' @ c @ '':'' @ m) = Some (h, c)"
    if "CHR '':'' \<notin> set h" "CHR '':'' \<notin> set c" "m \<in> {''ro'', ''rw''}" for h c m
  proof -
    have "Split CHR '':'' (Join [h, c, m] '':'') = [h, c, m]" using that by (intro Split_Join) auto
    then show ?thesis by (simp add: snap_pv_def Join_Cons)
  qed
  ultimately show ?thesis unfolding splits_volumes_def by blast
qed

lemma snap_pv_whole: "whole_volumes snap_pv"
proof -
  have "s = h @ '':'' @ c \<or> (\<exists>m. CHR '':'' \<notin> set m \<and> s = h @ '':'' @ c @ '':'' @ m)" if "snap_pv s = Some (h, c)" for s h c
    using snap_pv_parts [OF that]
  proof
    assume "Split CHR '':'' s = [h, c]"
    then show ?thesis using Join_Split [of "CHR '':''" s] by (simp add: Join_Cons)
  next
    assume "\<exists>m. Split CHR '':'' s = [h, c, m]"
    then obtain m where m: "Split CHR '':'' s = [h, c, m]" by blast
    then have "CHR '':'' \<notin> set m" using Split_no_sep [of m "CHR '':''" s] by simp
    moreover have "s = h @ '':'' @ c @ '':'' @ m" using Join_Split [of "CHR '':''" s] m by (simp add: Join_Cons)
    ultimately show ?thesis by blast
  qed
  then show ?thesis unfolding whole_volumes_def by blast
qed

lemma snap_home: "home_folder snap_host ''/h''"
proof -
  have "plain [''h'']" "EvalSymlinks snap_host (Clean ''/h'') = Inr (path_of [''h''])" "node_at snap_host [''h''] = Some (Folder True True)"
    by code_simp+
  then show ?thesis unfolding home_folder_def by blast
qed

lemma snap_computed:
  "vmSnapshots (\<lambda>s. s) (\<lambda>_. None) snap_host snap_ident snap_pv (Some ''/h'') [] snap_ws = Inr snap_list"
  "checkSnapshots snap_list [snap_share] = Inr ()"
  "stageSnapshots (\<lambda>_. True) ''7'' snap_list = Inr (snap_binds, snap_ops)"
  by code_simp+


end
