(* ===== verification/Tail.thy ===== *)
theory Tail
  imports LogFile GoStrings "HOL-Library.Sublist"
begin

text \<open>
  Following a rotated log (\<open>internal/cmd/tail.go\<close>) while the broker writes it (\<open>LogFile\<close>). A file is
  identified by how many renames of the log came before it was created; a renamed file keeps its content for
  those who have it open.
\<close>

section \<open>Lines\<close>

definition newline :: u8 where "newline = 10"

definition line_text :: "bytes \<Rightarrow> string" where
  "line_text = map (\<lambda>b. char_of (unat b))"

text \<open>The complete lines of a file, with their line breaks.\<close>

fun raw_lines :: "bytes \<Rightarrow> bytes \<Rightarrow> bytes list" where
  "raw_lines part [] = []"
| "raw_lines part (b # bs) = (if b = newline then (part @ [b]) # raw_lines [] bs else raw_lines (part @ [b]) bs)"

definition log_events :: "bytes list \<Rightarrow> string list" where
  "log_events ls = filter (\<lambda>l. l \<noteq> []) (map (\<lambda>l. TrimSpace (line_text l)) ls)"

text \<open>
  \<open>readLines\<close> on the content of a file: the events it passes on and the new offset. With \<open>stop = Some k\<close> the
  read fails after \<open>k\<close> lines.
\<close>

definition readLines :: "nat option \<Rightarrow> bytes \<Rightarrow> nat \<Rightarrow> bool \<times> string list \<times> nat" where
  "readLines stop c offset =
     (let start = (if length c < offset then 0 else offset);
          ls = raw_lines [] (drop start c);
          ls' = (case stop of None \<Rightarrow> ls | Some k \<Rightarrow> take k ls)
      in (stop = None, log_events ls', start + sum_list (map length ls')))"

section \<open>Files\<close>

record log_files =
  fs_gone :: "bytes list"
  fs_log :: logFile

text \<open>Whether a write renames the log, and a write with its effect on the files.\<close>

definition renames :: "log_world \<Rightarrow> bytes \<Rightarrow> logFile \<Rightarrow> bool" where
  "renames w p l =
     (case reopen w l of
        (Inl _, _) \<Rightarrow> False
      | (Inr _, l1) \<Rightarrow> lf_size l1 > 0 \<and> lf_size l1 + length p > lf_max l1 \<and> lw_close w \<and> lw_rename w)"

definition write_log :: "log_world \<Rightarrow> bytes \<Rightarrow> log_files \<Rightarrow> log_files" where
  "write_log w p fs =
     \<lparr>fs_gone = fs_gone fs @ (if renames w p (fs_log fs) then [case lf_file (fs_log fs) of Some c \<Rightarrow> c | None \<Rightarrow> []] else []),
      fs_log = snd (Write w p (fs_log fs))\<rparr>"

definition content :: "log_files \<Rightarrow> nat \<Rightarrow> bytes" where
  "content fs i =
     (if i < length (fs_gone fs) then fs_gone fs ! i
      else if i = length (fs_gone fs) then (case lf_file (fs_log fs) of Some c \<Rightarrow> c | None \<Rightarrow> []) else [])"

section \<open>Follower\<close>

record follower =
  fl_f :: "nat option"
  fl_offset :: nat

record tail_faults =
  tf_read :: "nat option"
  tf_open :: bool
  tf_stat :: bool
  tf_read2 :: "nat option"

datatype tail_error = ReadFailed | OpenFailed | StatFailed

text \<open>\<open>poll\<close> in its two parts: the rest of the open file, then the file that has the name now.\<close>

definition poll_open_file :: "tail_faults \<Rightarrow> log_files \<Rightarrow> follower \<Rightarrow> (tail_error, unit) result \<times> string list \<times> follower" where
  "poll_open_file F fs fl =
     (case fl_f fl of
        None \<Rightarrow> (Inr (), [], fl)
      | Some i \<Rightarrow>
          (case readLines (tf_read F) (content fs i) (fl_offset fl) of
             (ok, es, n) \<Rightarrow> if ok then (Inr (), es, fl\<lparr>fl_offset := n\<rparr>) else (Inl ReadFailed, es, fl)))"

definition poll_named_file :: "tail_faults \<Rightarrow> log_files \<Rightarrow> follower \<Rightarrow> (tail_error, unit) result \<times> string list \<times> follower" where
  "poll_named_file F fs fl =
     (case lf_file (fs_log fs) of
        None \<Rightarrow> (Inr (), [], fl)
      | Some c \<Rightarrow>
          if tf_open F then (Inl OpenFailed, [], fl)
          else if fl_f fl \<noteq> None \<and> tf_stat F then (Inl StatFailed, [], fl)
          else if fl_f fl = Some (length (fs_gone fs)) then (Inr (), [], fl)
          else (case readLines (tf_read2 F) c 0 of
                  (ok, es, n) \<Rightarrow>
                    let fl1 = \<lparr>fl_f = Some (length (fs_gone fs)), fl_offset = 0\<rparr> in
                    if ok then (Inr (), es, fl1\<lparr>fl_offset := n\<rparr>) else (Inl ReadFailed, es, fl1)))"

definition poll :: "tail_faults \<Rightarrow> log_files \<Rightarrow> follower \<Rightarrow> (tail_error, unit) result \<times> string list \<times> follower" where
  "poll F fs fl =
     (case poll_open_file F fs fl of
        (Inl e, es, fl1) \<Rightarrow> (Inl e, es, fl1)
      | (Inr _, es, fl1) \<Rightarrow>
          (case poll_named_file F fs fl1 of (r, es2, fl2) \<Rightarrow> (r, es @ es2, fl2)))"

section \<open>tailLog\<close>

record logView =
  v_lines :: int
  v_follow :: bool
  v_json :: bool

text \<open>The events kept by the first reads: the last \<open>v_lines\<close> of those that render to a line.\<close>

definition keep_event :: "logView \<Rightarrow> ('s \<Rightarrow> string \<Rightarrow> string \<times> 's) \<Rightarrow> string \<Rightarrow> 's \<times> string list \<Rightarrow> 's \<times> string list" where
  "keep_event v render raw x =
     (case render (fst x) raw of
        (t, s) \<Rightarrow>
          if t = [] \<or> v_lines v = 0 then (s, snd x)
          else let shown = snd x @ [if v_json v then raw else t]
               in (s, if v_lines v > 0 \<and> int (length shown) > v_lines v then tl shown else shown))"

definition emit_event :: "logView \<Rightarrow> ('s \<Rightarrow> string \<Rightarrow> string \<times> 's) \<Rightarrow> string \<Rightarrow> 's \<times> string list \<Rightarrow> 's \<times> string list" where
  "emit_event v render raw x =
     (case render (fst x) raw of
        (t, s) \<Rightarrow> (s, if t = [] then snd x else snd x @ [if v_json v then raw else t]))"

text \<open>
  \<open>tailLog\<close> of \<open>path.1\<close> and \<open>path\<close>: the lines printed before following, and what is printed while following,
  with the state of the renderer.
\<close>

definition tail_start :: "tail_faults \<Rightarrow> tail_faults \<Rightarrow> logView \<Rightarrow> ('s \<Rightarrow> string \<Rightarrow> string \<times> 's) \<Rightarrow> 's \<Rightarrow> log_files \<Rightarrow>
    (tail_error, 's \<times> string list \<times> follower) result" where
  "tail_start F1 F2 v render s fs =
     (case (case lf_old (fs_log fs) of
              None \<Rightarrow> (Inr (), [])
            | Some c \<Rightarrow> if tf_open F1 then (Inl OpenFailed, [])
                        else (case readLines (tf_read2 F1) c 0 of (ok, es, _) \<Rightarrow> (if ok then Inr () else Inl ReadFailed, es))) of
        (Inl e, _) \<Rightarrow> Inl e
      | (Inr _, es1) \<Rightarrow>
          (case poll F2 fs \<lparr>fl_f = None, fl_offset = 0\<rparr> of
             (Inl e, _, _) \<Rightarrow> Inl e
           | (Inr _, es2, fl) \<Rightarrow>
               (case fold (keep_event v render) (es1 @ es2) (s, []) of (s1, shown) \<Rightarrow> Inr (s1, shown, fl))))"

datatype tail_event = Written log_world bytes | Polled tail_faults

record 's tailing =
  t_files :: log_files
  t_fl :: follower
  t_state :: 's
  t_out :: "string list"

fun tail_step :: "logView \<Rightarrow> ('s \<Rightarrow> string \<Rightarrow> string \<times> 's) \<Rightarrow> tail_event \<Rightarrow> 's tailing \<Rightarrow> (tail_error, unit) result \<times> 's tailing" where
  "tail_step v render (Written w p) t = (Inr (), t\<lparr>t_files := write_log w p (t_files t)\<rparr>)"
| "tail_step v render (Polled F) t =
     (case poll F (t_files t) (t_fl t) of
        (r, es, fl) \<Rightarrow>
          (case fold (emit_event v render) es (t_state t, t_out t) of
             (s, out) \<Rightarrow> (r, t\<lparr>t_fl := fl, t_state := s, t_out := out\<rparr>)))"

fun tail_run :: "logView \<Rightarrow> ('s \<Rightarrow> string \<Rightarrow> string \<times> 's) \<Rightarrow> tail_event list \<Rightarrow> 's tailing \<Rightarrow> (tail_error, 's tailing) result" where
  "tail_run v render [] t = Inr t"
| "tail_run v render (e # es) t =
     (case tail_step v render e t of
        (Inl x, _) \<Rightarrow> Inl x
      | (Inr _, t1) \<Rightarrow> tail_run v render es t1)"

section \<open>Reading appended lines\<close>

fun rest_line :: "bytes \<Rightarrow> bytes \<Rightarrow> bytes" where
  "rest_line part [] = part"
| "rest_line part (b # bs) = (if b = newline then rest_line [] bs else rest_line (part @ [b]) bs)"

definition clen :: "bytes \<Rightarrow> nat" where
  "clen c = sum_list (map length (raw_lines [] c))"

definition events :: "bytes \<Rightarrow> string list" where
  "events c = log_events (raw_lines [] c)"

lemma raw_lines_append: "raw_lines part (xs @ ys) = raw_lines part xs @ raw_lines (rest_line part xs) ys"
  by (induction part xs rule: raw_lines.induct) auto

lemma raw_lines_part: "newline \<notin> set r \<Longrightarrow> raw_lines part (r @ ys) = raw_lines (part @ r) ys"
  by (induction r arbitrary: part) auto

lemma rest_line_plain: "newline \<notin> set part \<Longrightarrow> newline \<notin> set (rest_line part xs)"
  by (induction part xs rule: rest_line.induct) auto

lemma raw_lines_concat: "concat (raw_lines part xs) @ rest_line part xs = part @ xs"
  by (induction part xs rule: raw_lines.induct) auto

lemma drop_clen: "drop (clen q) (q @ z) = rest_line [] q @ z"
proof -
  have "q @ z = concat (raw_lines [] q) @ rest_line [] q @ z" using raw_lines_concat [of "[]" q] by (metis append_assoc append_Nil)
  then have "drop (clen q) (q @ z) = drop (clen q) (concat (raw_lines [] q) @ rest_line [] q @ z)" by (rule arg_cong)
  then show ?thesis by (simp add: clen_def length_concat)
qed

lemma clen_le: "clen q \<le> length q"
  using arg_cong [OF raw_lines_concat [of "[]" q], of length] by (simp add: clen_def length_concat)

lemma log_events_append [simp]: "log_events (xs @ ys) = log_events xs @ log_events ys" "log_events [] = []"
  by (simp_all add: log_events_def)

text \<open>Reading on from the offset after a prefix passes on what the file has gained.\<close>

lemma readLines_gain:
  assumes "prefix q c"
  obtains es where "readLines None c (clen q) = (True, es, clen c)" and "events c = events q @ es"
proof -
  obtain z where c: "c = q @ z" using assms by (rule prefixE)
  have ls: "raw_lines [] (drop (clen q) c) = raw_lines (rest_line [] q) z"
    using raw_lines_part [OF rest_line_plain [of "[]" q], of "[]" z] by (simp only: c drop_clen) simp
  have "clen q \<le> length c" using clen_le [of q] c by simp
  moreover have "clen c = clen q + sum_list (map length (raw_lines (rest_line [] q) z))" by (simp add: clen_def c raw_lines_append)
  ultimately have "readLines None c (clen q) = (True, log_events (raw_lines (rest_line [] q) z), clen c)" by (simp add: readLines_def ls Let_def)
  moreover have "events c = events q @ log_events (raw_lines (rest_line [] q) z)" by (simp add: events_def c raw_lines_append)
  ultimately show thesis by (rule that)
qed

lemma readLines_ok: "readLines stop c n = (True, es, m) \<Longrightarrow> stop = None"
  by (simp add: readLines_def Let_def)

section \<open>Writes\<close>

lemma Write_file:
  "\<not> renames w p l \<Longrightarrow> lf_file l = Some c \<Longrightarrow> \<exists>z. lf_file (snd (Write w p l)) = Some (c @ z)"
  by (auto simp: renames_def Write_def reopen_def make_room_def rotate_log_def open_log_def append_log_def Let_def split: if_splits)

definition present :: "log_files \<Rightarrow> nat \<Rightarrow> bool" where
  "present fs i \<longleftrightarrow> i < length (fs_gone fs) \<or> i = length (fs_gone fs) \<and> lf_file (fs_log fs) \<noteq> None"

lemma write_log_gone: "prefix (fs_gone fs) (fs_gone (write_log w p fs))"
  by (simp add: write_log_def)

lemma write_log_content:
  assumes "present fs i"
  shows "present (write_log w p fs) i" and "prefix (content fs i) (content (write_log w p fs) i)"
    and "i < length (fs_gone fs) \<Longrightarrow> content (write_log w p fs) i = content fs i"
proof -
  show same: "i < length (fs_gone fs) \<Longrightarrow> content (write_log w p fs) i = content fs i"
    by (simp add: content_def write_log_def nth_append)
  consider (gone) "i < length (fs_gone fs)" | (cur) c where "i = length (fs_gone fs)" "lf_file (fs_log fs) = Some c"
    using assms by (auto simp: present_def)
  then have "present (write_log w p fs) i \<and> prefix (content fs i) (content (write_log w p fs) i)"
  proof cases
    case gone
    then show ?thesis using same by (simp add: present_def write_log_def)
  next
    case cur
    then show ?thesis using Write_file [of w p "fs_log fs" c]
      by (cases "renames w p (fs_log fs)") (auto simp: present_def content_def write_log_def)
  qed
  then show "present (write_log w p fs) i" "prefix (content fs i) (content (write_log w p fs) i)" by simp_all
qed

section \<open>Following\<close>

text \<open>The events of the files from \<open>s0\<close> up to, not including, \<open>i\<close>.\<close>

definition before_file :: "log_files \<Rightarrow> nat \<Rightarrow> nat \<Rightarrow> string list" where
  "before_file fs s0 i = concat (map (\<lambda>j. events (content fs j)) [s0..<i])"

definition following :: "nat \<Rightarrow> log_files \<Rightarrow> follower \<Rightarrow> string list \<Rightarrow> bool" where
  "following s0 fs fl es \<longleftrightarrow>
     (\<exists>i q. fl_f fl = Some i \<and> s0 \<le> i \<and> present fs i \<and> prefix q (content fs i) \<and> fl_offset fl = clen q \<and> es = before_file fs s0 i @ events q)"

lemma before_file_write:
  assumes "i \<le> length (fs_gone fs)"
  shows "before_file (write_log w p fs) s0 i = before_file fs s0 i"
proof -
  have "content (write_log w p fs) j = content fs j" if "j < i" for j
    using write_log_content(3) [of fs j w p] that assms by (simp add: present_def)
  then show ?thesis unfolding before_file_def by (intro arg_cong [of _ _ concat] map_cong) auto
qed

lemma following_write:
  assumes "following s0 fs fl es"
  shows "following s0 (write_log w p fs) fl es"
proof -
  obtain i q where i: "fl_f fl = Some i" "s0 \<le> i" "present fs i" "prefix q (content fs i)" "fl_offset fl = clen q" "es = before_file fs s0 i @ events q"
    using assms unfolding following_def by blast
  have "before_file (write_log w p fs) s0 i = before_file fs s0 i" using i(3) by (intro before_file_write) (auto simp: present_def)
  then show ?thesis unfolding following_def
    using i write_log_content(1,2) [OF i(3)] by (intro exI [of _ i] exI [of _ q]) (simp add: prefix_order.trans [OF i(4)])
qed

lemma before_file_Suc: "s0 \<le> i \<Longrightarrow> before_file fs s0 (Suc i) = before_file fs s0 i @ events (content fs i)"
  by (simp add: before_file_def)

text \<open>All events of the files from \<open>s0\<close> on.\<close>

definition all_from :: "log_files \<Rightarrow> nat \<Rightarrow> string list" where
  "all_from fs s0 = before_file fs s0 (length (fs_gone fs) + 1)"

definition in_time :: "log_files \<Rightarrow> follower \<Rightarrow> bool" where
  "in_time fs fl = (case fl_f fl of None \<Rightarrow> True | Some i \<Rightarrow> length (fs_gone fs) \<le> i + 1)"

lemma following_poll:
  assumes "following s0 fs fl es" and "in_time fs fl" and "poll F fs fl = (Inr u, new, fl1)"
  shows "following s0 fs fl1 (es @ new) \<and> es @ new = all_from fs s0"
proof -
  obtain i q where i: "fl_f fl = Some i" "s0 \<le> i" "present fs i" "prefix q (content fs i)" "fl_offset fl = clen q" "es = before_file fs s0 i @ events q"
    using assms(1) unfolding following_def by blast
  let ?n = "length (fs_gone fs)"
  obtain e1 where e1: "readLines None (content fs i) (clen q) = (True, e1, clen (content fs i))" "events (content fs i) = events q @ e1"
    using readLines_gain [OF i(4)] by blast
  let ?fl = "fl\<lparr>fl_offset := clen (content fs i)\<rparr>"
  have read: "tf_read F = None" using assms(3) i(1) by (cases "tf_read F") (auto simp: poll_def poll_open_file_def readLines_def Let_def)
  then have o: "poll_open_file F fs fl = (Inr (), e1, ?fl)" using i(1,5) e1(1) by (simp add: poll_open_file_def)
  obtain e2 where e2: "poll_named_file F fs ?fl = (Inr (), e2, fl1)" "new = e1 @ e2"
    using assms(3) by (auto simp: poll_def o split: prod.splits)
  have es: "es @ e1 = before_file fs s0 (Suc i)" using i(2,6) e1(2) by (simp add: before_file_Suc)
  have at: "following s0 fs ?fl (es @ e1)" using i e1(2) by (auto simp: following_def before_file_Suc)
  have le: "i \<le> ?n" "?n \<le> i + 1" using i(1,3) assms(2) by (auto simp: present_def in_time_def)
  show ?thesis
  proof (cases "lf_file (fs_log fs)")
    case None
    then have "i \<noteq> ?n" using i(3) by (auto simp: present_def)
    then have "?n = Suc i" using le by simp
    moreover have "content fs ?n = []" using None by (simp add: content_def)
    moreover have "e2 = []" "fl1 = ?fl" using e2(1) None by (auto simp: poll_named_file_def)
    ultimately show ?thesis using at es e2(2) i(2) by (simp add: all_from_def before_file_Suc events_def)
  next
    case (Some c)
    then have cn: "content fs ?n = c" by (simp add: content_def)
    show ?thesis
    proof (cases "i = ?n")
      case True
      then have "e2 = []" "fl1 = ?fl" using e2(1) Some i(1) by (auto simp: poll_named_file_def split: if_splits)
      then show ?thesis using at es e2(2) True by (simp add: all_from_def)
    next
      case False
      then have n: "?n = Suc i" using le by simp
      have "tf_read2 F = None" using e2(1) Some i(1) False by (cases "tf_read2 F") (auto simp: poll_named_file_def readLines_def Let_def split: if_splits)
      moreover have "readLines None c 0 = (True, events c, clen c)" by (simp add: readLines_def events_def clen_def Let_def)
      ultimately have "e2 = events c" "fl1 = \<lparr>fl_f = Some ?n, fl_offset = clen c\<rparr>"
        using e2(1) Some i(1) False by (auto simp: poll_named_file_def split: if_splits)
      then show ?thesis using es e2(2) i(2) n cn Some
        by (auto simp: following_def all_from_def before_file_Suc present_def intro!: exI [of _ "Suc i"] exI [of _ c])
    qed
  qed
qed

section \<open>Output\<close>

text \<open>What a list of events prints, and the state of the renderer after it.\<close>

fun printed :: "logView \<Rightarrow> ('s \<Rightarrow> string \<Rightarrow> string \<times> 's) \<Rightarrow> 's \<Rightarrow> string list \<Rightarrow> string list" where
  "printed v render s [] = []"
| "printed v render s (e # es) =
     (case render s e of (t, s1) \<Rightarrow> (if t = [] then [] else [if v_json v then e else t]) @ printed v render s1 es)"

fun rendered :: "('s \<Rightarrow> string \<Rightarrow> string \<times> 's) \<Rightarrow> 's \<Rightarrow> string list \<Rightarrow> 's" where
  "rendered render s [] = s"
| "rendered render s (e # es) = rendered render (snd (render s e)) es"

definition last_lines :: "int \<Rightarrow> 'a list \<Rightarrow> 'a list" where
  "last_lines n xs = (if n < 0 then xs else drop (length xs - nat n) xs)"

lemma emit_fold: "fold (emit_event v render) es (s, out) = (rendered render s es, out @ printed v render s es)"
  by (induction es arbitrary: s out) (auto simp: emit_event_def split: prod.split)

lemma printed_append: "printed v render s (xs @ ys) = printed v render s xs @ printed v render (rendered render s xs) ys"
  by (induction xs arbitrary: s) (auto split: prod.split)

lemma rendered_append: "rendered render s (xs @ ys) = rendered render (rendered render s xs) ys"
  by (induction xs arbitrary: s) auto

lemma last_lines_snoc:
  "last_lines n (xs @ [x]) = (if n = 0 then last_lines n xs
     else let ys = last_lines n xs @ [x] in if n > 0 \<and> int (length ys) > n then tl ys else ys)"
proof (cases "n \<le> 0")
  case False
  define k where "k = nat n"
  have n: "n = int k" "k > 0" using False by (auto simp: k_def)
  show ?thesis
  proof (cases "k \<le> length xs")
    case True
    moreover have "drop (Suc (length xs) - k) xs = tl (drop (length xs - k) xs)" using True by (simp add: Suc_diff_le drop_Suc tl_drop)
    moreover have "drop (length xs - k) xs \<noteq> []" using True n(2) by simp
    ultimately show ?thesis using n by (simp add: last_lines_def Let_def)
  qed (use n in \<open>simp add: last_lines_def Let_def\<close>)
qed (simp add: last_lines_def Let_def)

lemma keep_fold: "fold (keep_event v render) es (s, []) = (rendered render s es, last_lines (v_lines v) (printed v render s es))"
proof (induction es rule: rev_induct)
  case Nil
  then show ?case by (simp add: last_lines_def)
next
  case (snoc e es)
  then show ?case
    by (auto simp: keep_event_def printed_append rendered_append last_lines_snoc Let_def split: prod.split)
qed

section \<open>Properties\<close>

fun timely :: "logView \<Rightarrow> ('s \<Rightarrow> string \<Rightarrow> string \<times> 's) \<Rightarrow> tail_event list \<Rightarrow> 's tailing \<Rightarrow> bool" where
  "timely v render [] t = True"
| "timely v render (Written w p # es) t = timely v render es (snd (tail_step v render (Written w p) t))"
| "timely v render (Polled F # es) t = (in_time (t_files t) (t_fl t) \<and> timely v render es (snd (tail_step v render (Polled F) t)))"

definition tracks :: "logView \<Rightarrow> ('s \<Rightarrow> string \<Rightarrow> string \<times> 's) \<Rightarrow> nat \<Rightarrow> 's \<Rightarrow> string list \<Rightarrow> string list \<Rightarrow> 's tailing \<Rightarrow> string list \<Rightarrow> bool" where
  "tracks v render s0 s shown es0 t es \<longleftrightarrow>
     following s0 (t_files t) (t_fl t) (es0 @ es) \<and> t_state t = rendered render s es \<and> t_out t = shown @ printed v render s es"

lemma tracks_poll:
  assumes "tracks v render s0 s shown es0 t es" and "in_time (t_files t) (t_fl t)" and "tail_step v render (Polled F) t = (Inr u, t1)"
  shows "\<exists>es1. tracks v render s0 s shown es0 t1 (es @ es1) \<and> es0 @ es @ es1 = all_from (t_files t1) s0"
proof -
  obtain new fl where p: "poll F (t_files t) (t_fl t) = (Inr (), new, fl)"
    and t1: "t1 = t\<lparr>t_fl := fl, t_state := rendered render (t_state t) new, t_out := t_out t @ printed v render (t_state t) new\<rparr>"
    using assms(3) by (auto simp: emit_fold split: prod.splits)
  have "following s0 (t_files t) (t_fl t) (es0 @ es)" using assms(1) by (simp add: tracks_def)
  note f = following_poll [OF this assms(2) p]
  then have "tracks v render s0 s shown es0 t1 (es @ new)" using assms(1) by (auto simp: tracks_def t1 printed_append rendered_append)
  then show ?thesis using f by (intro exI [of _ new]) (simp add: t1)
qed

lemma tracks_run:
  "tracks v render s0 s shown es0 t es \<Longrightarrow> timely v render evs t \<Longrightarrow> tail_run v render evs t = Inr t1 \<Longrightarrow>
   \<exists>es1. tracks v render s0 s shown es0 t1 es1 \<and>
     (evs \<noteq> [] \<and> (\<exists>F. last evs = Polled F) \<longrightarrow> es0 @ es1 = all_from (t_files t1) s0)"
proof (induction v render evs t arbitrary: es rule: timely.induct)
  case (1 v render t)
  then show ?case by auto
next
  case (2 v render w p evs t)
  have "tracks v render s0 s shown es0 (t\<lparr>t_files := write_log w p (t_files t)\<rparr>) es"
    using "2.prems"(1) following_write by (simp add: tracks_def)
  from "2.IH" [of es] this "2.prems"(2,3) show ?case by auto
next
  case (3 v render F evs t)
  obtain u t2 where st: "tail_step v render (Polled F) t = (Inr u, t2)" and run: "tail_run v render evs t2 = Inr t1"
    using "3.prems"(3) by (cases "tail_step v render (Polled F) t"; cases "fst (tail_step v render (Polled F) t)") auto
  obtain es1 where tr: "tracks v render s0 s shown es0 t2 (es @ es1)" and all: "es0 @ es @ es1 = all_from (t_files t2) s0"
    using tracks_poll [OF "3.prems"(1) _ st] "3.prems"(2) by auto
  have tm: "timely v render evs t2" using "3.prems"(2) st by simp
  show ?case
  proof (cases "evs = []")
    case True
    then show ?thesis using tr all run by auto
  next
    case False
    then show ?thesis using "3.IH" [of "es @ es1"] tr tm run st by simp
  qed
qed

definition old_events :: "log_files \<Rightarrow> string list" where
  "old_events fs = (case lf_old (fs_log fs) of None \<Rightarrow> [] | Some d \<Rightarrow> events d)"

lemma tail_start_tracks:
  assumes "tail_start F1 F2 v render s fs = Inr (s1, shown, fl)" and "lf_file (fs_log fs) = Some c"
  shows "following (length (fs_gone fs)) fs fl (events c)"
    and "s1 = rendered render s (old_events fs @ events c)"
    and "shown = last_lines (v_lines v) (printed v render s (old_events fs @ events c))"
proof -
  let ?new = "\<lparr>fl_f = None, fl_offset = 0\<rparr>"
  let ?old = "case lf_old (fs_log fs) of
      None \<Rightarrow> (Inr (), [])
    | Some c \<Rightarrow> if tf_open F1 then (Inl OpenFailed, [])
                else (case readLines (tf_read2 F1) c 0 of (ok, es, _) \<Rightarrow> (if ok then Inr () else Inl ReadFailed, es))"
  have all: "readLines None d 0 = (True, events d, clen d)" for d by (simp add: readLines_def events_def clen_def Let_def)
  obtain es1 es2 u u' where o: "?old = (Inr u, es1)" and p: "poll F2 fs ?new = (Inr u', es2, fl)"
    and r: "fold (keep_event v render) (es1 @ es2) (s, []) = (s1, shown)"
    using assms(1) unfolding tail_start_def by (auto split: prod.splits sum.splits)
  have e1: "es1 = old_events fs"
    using o all by (cases "tf_read2 F1") (auto simp: old_events_def readLines_def Let_def split: option.splits if_splits)
  have "tf_read2 F2 = None"
    using p assms(2) by (cases "tf_read2 F2") (auto simp: poll_def poll_open_file_def poll_named_file_def readLines_def Let_def split: if_splits)
  then have fl: "es2 = events c" "fl = \<lparr>fl_f = Some (length (fs_gone fs)), fl_offset = clen c\<rparr>"
    using p assms(2) all by (auto simp: poll_def poll_open_file_def poll_named_file_def split: if_splits)
  show "following (length (fs_gone fs)) fs fl (events c)"
    unfolding following_def fl(2) using assms(2) by (intro exI [of _ "length (fs_gone fs)"] exI [of _ c]) (simp add: present_def content_def before_file_def)
  show "s1 = rendered render s (old_events fs @ events c)"
    "shown = last_lines (v_lines v) (printed v render s (old_events fs @ events c))"
    using r unfolding keep_fold e1 fl(1) by simp_all
qed


definition no_tail_faults :: tail_faults where
  "no_tail_faults = \<lparr>tf_read = None, tf_open = False, tf_stat = False, tf_read2 = None\<rparr>"

definition plain_render :: "unit \<Rightarrow> string \<Rightarrow> string \<times> unit" where
  "plain_render s e = (e, s)"

definition ex_view :: logView where
  "ex_view = \<lparr>v_lines = 1, v_follow = True, v_json = False\<rparr>"

definition ex_line :: "u8 \<Rightarrow> bytes" where
  "ex_line b = [b, newline]"

text \<open>The broker's log after three events, rotated at four bytes, and what follows.\<close>

definition ex_files :: log_files where
  "ex_files = fold (\<lambda>b. write_log good_world (ex_line b)) [65, 66, 67]
     \<lparr>fs_gone = [], fs_log = \<lparr>lf_max = 4, lf_open = True, lf_size = 0, lf_file = Some [], lf_old = None\<rparr>\<rparr>"

definition ex_tail_events :: "tail_event list" where
  "ex_tail_events = [Written good_world (ex_line 68), Written good_world (ex_line 69), Polled no_tail_faults]"

definition ex_fl :: follower where
  "ex_fl = \<lparr>fl_f = Some 1, fl_offset = 2\<rparr>"


text \<open>A write between the two parts of a poll is lost. The follower has read all of its file; the broker appends an
  event, rotates the log for the next one, and only then the follower looks for the file with the name: it
  leaves the old file, and the event is never printed.\<close>

theorem follow_race:
  "let race = (\<lambda>fs fl.
         case poll_open_file no_tail_faults fs fl of (_, es1, fl1) \<Rightarrow>
         let fs1 = write_log good_world (ex_line 69) (write_log good_world (ex_line 68) fs) in
         case poll_named_file no_tail_faults fs1 fl1 of (_, es2, fl2) \<Rightarrow>
         case poll no_tail_faults fs1 fl2 of (_, es3, _) \<Rightarrow> (es1 @ es2 @ es3, all_from fs1 1))
   in race ex_files ex_fl = ([''E''], [''C'', ''D'', ''E''])"
  by code_simp

end
