(* ===== verification/ReloadCommand.thy ===== *)
theory ReloadCommand
  imports Snapshots Tail GuestMounts
begin

text \<open>
  The host side of a reload (\<open>internal/cmd/vmreload_unix.go\<close>): the next specification of a running VM, the
  settings that need a restart, the confirmation of the broker through its log, and the request to the guest
  through the control directory with its answer. The fields of the specification and of the guest configuration
  that no reload reads or changes are left out.
\<close>

section \<open>Specifications\<close>

record vm_forward =
  vf_HostPort :: int
  vf_GuestPort :: int

record HostService =
  hs_GuestPort :: "16 word"
  hs_TCP :: string
  hs_Path :: string

record GuestConfig =
  g_WorkDir :: string
  g_Env :: "string list"
  g_Binds :: "guestBind list"
  g_Snapshots :: "guestSnapshot list"
  g_CABundle :: string
  g_SSHAgent :: bool
  g_GPGAgent :: bool
  g_HostPorts :: "16 word list"
  g_Pins :: "string list"
  g_ReadOnly :: "string list"
  g_NoPrivilegeEscalation :: bool
  g_Docker :: bool

record Spec =
  sp_Image :: string
  sp_CPUs :: "32 word"
  sp_MemoryMiB :: "32 word"
  sp_DiskSize :: int
  sp_Shares :: "Share list"
  sp_Forwards :: "vm_forward list"
  sp_Policy :: string
  sp_GuestBinary :: string
  sp_Agent :: string
  sp_Profile :: string
  sp_EphemeralProfile :: bool
  sp_Guest :: GuestConfig
  sp_Docker :: bool
  sp_SSHAgent :: string
  sp_GPGAgent :: string
  sp_HostServices :: "HostService list"

definition DefaultDiskSize :: int where "DefaultDiskSize = 20 * 2 ^ 30"

definition sortedShares :: "Share list \<Rightarrow> Share list" where
  "sortedShares = sort_key GuestPath"

definition snapshotsReloadable :: "string option \<Rightarrow> Spec \<Rightarrow> bool" where
  "snapshotsReloadable current running = (case current of Some p \<Rightarrow> Clean p = Clean (sp_GuestBinary running) | None \<Rightarrow> False)"

definition or_default :: "'a \<Rightarrow> 'a \<Rightarrow> 'a \<Rightarrow> 'a" where
  "or_default zero d x = (if x = zero then d else x)"

definition restartOnlyChanges :: "string option \<Rightarrow> Spec \<Rightarrow> Spec \<Rightarrow> string list" where
  "restartOnlyChanges current running want =
     (let profileChanged = (sp_Profile running \<noteq> sp_Profile want \<or> sp_EphemeralProfile running \<noteq> sp_EphemeralProfile want);
          agentChanged = (or_default [] Default_agent (sp_Agent running) \<noteq> sp_Agent want);
          disk = or_default 0 DefaultDiskSize in
      (if profileChanged then [''profile''] else []) @
      (if \<not> profileChanged \<and> (sortedShares (sp_Shares running) \<noteq> sortedShares (sp_Shares want) \<or> g_Binds (sp_Guest running) \<noteq> g_Binds (sp_Guest want))
       then [''paths and mounts''] else []) @
      (if sp_CPUs running \<noteq> sp_CPUs want then [''cpu''] else []) @
      (if sp_MemoryMiB running \<noteq> sp_MemoryMiB want then [''memory''] else []) @
      (if sp_Docker running \<and> sp_Docker want \<and> disk (sp_DiskSize running) \<noteq> disk (sp_DiskSize want) then [''docker_disk''] else []) @
      (if sp_Docker running \<noteq> sp_Docker want then [''enable_docker''] else []) @
      (if g_NoPrivilegeEscalation (sp_Guest running) \<noteq> g_NoPrivilegeEscalation (sp_Guest want) then [''protect_git''] else []) @
      (if agentChanged then [''agent''] else []) @
      (if \<not> agentChanged \<and> (g_Env (sp_Guest running) \<noteq> g_Env (sp_Guest want) \<or> g_WorkDir (sp_Guest running) \<noteq> g_WorkDir (sp_Guest want))
       then [''the working directory''] else []) @
      (case current of
         Some p \<Rightarrow> if Clean p \<noteq> Clean (sp_GuestBinary running) then [''the jailoc guest (jailoc was upgraded)''] else []
       | None \<Rightarrow> []))"

fun joinList :: "string list \<Rightarrow> string" where
  "joinList [] = []"
| "joinList [x] = x"
| "joinList (x # xs) = x @ concat (map (\<lambda>s. '', '' @ s) (butlast xs)) @ '' and '' @ last xs"

text \<open>The specification after a reload: the settings that can change, and the new binds.\<close>

definition next_spec :: "Spec \<Rightarrow> Spec \<Rightarrow> guestSnapshot list \<Rightarrow> Spec" where
  "next_spec running want binds =
     (let w = sp_Guest want in
      running\<lparr>sp_Policy := sp_Policy want, sp_Forwards := sp_Forwards want, sp_SSHAgent := sp_SSHAgent want, sp_GPGAgent := sp_GPGAgent want,
        sp_HostServices := sp_HostServices want,
        sp_Guest := (sp_Guest running)\<lparr>g_CABundle := g_CABundle w, g_SSHAgent := g_SSHAgent w, g_GPGAgent := g_GPGAgent w,
          g_HostPorts := g_HostPorts w, g_Snapshots := binds\<rparr>\<rparr>)"

section \<open>Broker\<close>

record brokerReload =
  br_Event :: string
  br_PolicyError :: string
  br_RuntimeErrors :: "string list"

text \<open>\<open>scanReloadEvent\<close>: lines of at most a megabyte, the last one with or without a line break; \<open>json\<close> decodes a line.\<close>

definition scan_lines :: "bytes \<Rightarrow> bytes list" where
  "scan_lines c = (let ls = map butlast (raw_lines [] c); rest = rest_line [] c in takeWhile (\<lambda>l. length l < 2 ^ 20) (ls @ (if rest = [] then [] else [rest])))"

definition scanReloadEvent :: "(bytes \<Rightarrow> brokerReload option) \<Rightarrow> bytes \<Rightarrow> brokerReload option" where
  "scanReloadEvent json c = find (\<lambda>ev. br_Event ev = ''reload'') (List.map_filter json (scan_lines c))"

definition brokerReloadEvent :: "(bytes \<Rightarrow> brokerReload option) \<Rightarrow> (nat \<times> nat) option \<Rightarrow> log_files \<Rightarrow> brokerReload option" where
  "brokerReloadEvent json before fs =
     (case (case before of None \<Rightarrow> None | Some (i, offset) \<Rightarrow> scanReloadEvent json (drop offset (content fs i))) of
        Some ev \<Rightarrow> Some ev
      | None \<Rightarrow>
          (case lf_file (fs_log fs) of
             None \<Rightarrow> None
           | Some c \<Rightarrow>
               if (case before of Some (i, _) \<Rightarrow> i = length (fs_gone fs) | None \<Rightarrow> False) then None else scanReloadEvent json c))"

datatype reload_error =
    StateFailed
  | NotRunning
  | SpecUnreadable
  | NoGuestConfig
  | BrokerPidUnknown
  | WriteFailed
  | SignalFailed
  | InvalidPolicy string
  | RuntimeErrors "string list"
  | BrokerTimeout
  | GuestTimeout
  | GuestError live_error
  | StageFailed string
  | PrepareFailed
  | SecretsFailed
  | SpecFailed
  | DeliverFailed

definition broker_answer :: "brokerReload \<Rightarrow> (reload_error, unit) result" where
  "broker_answer ev =
     (if br_PolicyError ev \<noteq> [] then Inl (InvalidPolicy (br_PolicyError ev))
      else if br_RuntimeErrors ev \<noteq> [] then Inl (RuntimeErrors (br_RuntimeErrors ev)) else Inr ())"

text \<open>\<open>reloadBroker\<close> with the files of the log at each look until the deadline.\<close>

definition reloadBroker ::
  "(bytes \<Rightarrow> brokerReload option) \<Rightarrow> int \<Rightarrow> bool \<Rightarrow> bool \<Rightarrow> (nat \<times> nat) option \<Rightarrow> log_files list \<Rightarrow> (reload_error, unit) result" where
  "reloadBroker json pid written signalled before looks =
     (if pid \<le> 0 then Inl BrokerPidUnknown
      else if \<not> written then Inl WriteFailed
      else if \<not> signalled then Inl SignalFailed
      else case List.map_filter (brokerReloadEvent json before) looks of
             [] \<Rightarrow> Inl BrokerTimeout
           | ev # _ \<Rightarrow> broker_answer ev)"

section \<open>Guest\<close>

text \<open>The control directory and the guest; between two looks of the host the guest may poll, with its faults and the outcome of writing the answer.\<close>

record control =
  ct_reload :: "Reload option"
  ct_done :: "(int \<times> live_error option) option"
  ct_guest :: guest_live

datatype guest_event = GuestPolls live_faults bool | GuestOpens | GuestCloses nat

fun guest_step :: "guest_event \<Rightarrow> control \<Rightarrow> control" where
  "guest_step (GuestPolls F ok) c =
     (case LiveReload.poll F (ct_reload c) (ct_guest c) of
        (answer, g) \<Rightarrow> c\<lparr>ct_guest := g, ct_done := (case answer of Some a \<Rightarrow> if ok then Some a else ct_done c | None \<Rightarrow> ct_done c)\<rparr>)"
| "guest_step GuestOpens c = c\<lparr>ct_guest := open_other (ct_guest c)\<rparr>"
| "guest_step (GuestCloses fd) c = c\<lparr>ct_guest := close_other fd (ct_guest c)\<rparr>"

definition reload_request :: "int \<Rightarrow> GuestConfig \<Rightarrow> Reload" where
  "reload_request seq g =
     \<lparr>rl_Seq = seq, rl_CABundle = g_CABundle g, rl_SSHAgent = g_SSHAgent g, rl_GPGAgent = g_GPGAgent g, rl_HostPorts = g_HostPorts g, rl_Snapshots = g_Snapshots g\<rparr>"

fun await_guest :: "int \<Rightarrow> guest_event list list \<Rightarrow> control \<Rightarrow> (reload_error, unit) result \<times> control" where
  "await_guest seq [] c = (Inl GuestTimeout, c)"
| "await_guest seq (evs # rest) c =
     (case ct_done c of
        Some (n, err) \<Rightarrow>
          if n = seq then (case err of Some e \<Rightarrow> Inl (GuestError e) | None \<Rightarrow> Inr (), c)
          else await_guest seq rest (fold guest_step evs c)
      | None \<Rightarrow> await_guest seq rest (fold guest_step evs c))"

definition reloadGuest :: "int \<Rightarrow> bool \<Rightarrow> guest_event list list \<Rightarrow> GuestConfig \<Rightarrow> control \<Rightarrow> (reload_error, unit) result \<times> control" where
  "reloadGuest seq written waits g c =
     (if \<not> written then (Inl WriteFailed, c) else await_guest seq waits (c\<lparr>ct_reload := Some (reload_request seq g)\<rparr>))"

section \<open>Reload\<close>

text \<open>\<open>ry_guest\<close>: the specification on disk has a guest configuration; without one \<open>sp_Guest\<close> stands for nothing.\<close>

record reload_sys =
  ry_running :: bool
  ry_guest :: bool
  ry_spec :: Spec
  ry_stages :: "string list"
  ry_control :: control

record reload_world =
  rw_state :: bool
  rw_read_spec :: bool
  rw_current :: "string option"
  rw_want :: "(reload_error, Spec \<times> vm_snapshot list) result"
  rw_payload :: bool
  rw_gen :: string
  rw_copy :: "stage_op \<Rightarrow> bool"
  rw_json :: "bytes \<Rightarrow> brokerReload option"
  rw_pid :: int
  rw_files :: bool
  rw_signal :: bool
  rw_before :: "(nat \<times> nat) option"
  rw_looks :: "log_files list"
  rw_seq :: int
  rw_request :: bool
  rw_waits :: "guest_event list list"
  rw_write_spec :: bool
  rw_deliver :: bool

text \<open>The staged generations: all but the kept one are removed, a new one is made, and removed again when a copy fails.\<close>

definition stage_generation :: "reload_world \<Rightarrow> vm_snapshot list \<Rightarrow> string \<Rightarrow> string list \<Rightarrow> (reload_error, guestSnapshot list) result \<times> string list" where
  "stage_generation w snapshots keep stages =
     (let kept = filter (\<lambda>s. s = keep) stages in
      if snapshots = [] then (Inr [], kept)
      else case stageSnapshots (rw_copy w) (rw_gen w) snapshots of
             Inl e \<Rightarrow> (Inl (StageFailed e), kept)
           | Inr (binds, _) \<Rightarrow> (Inr binds, kept @ [rw_gen w]))"

definition broker_result :: "reload_world \<Rightarrow> (reload_error, unit) result" where
  "broker_result w = reloadBroker (rw_json w) (rw_pid w) (rw_files w) (rw_signal w) (rw_before w) (rw_looks w)"

definition reloadVM :: "reload_world \<Rightarrow> reload_sys \<Rightarrow> (reload_error, string list) result \<times> reload_sys" where
  "reloadVM w y =
     (if \<not> rw_state w then (Inl StateFailed, y)
      else if \<not> ry_running y then (Inl NotRunning, y)
      else if \<not> rw_read_spec w then (Inl SpecUnreadable, y)
      else if \<not> ry_guest y then (Inl NoGuestConfig, y)
      else case rw_want w of
             Inl e \<Rightarrow> (Inl e, y)
           | Inr (want, snapshots) \<Rightarrow>
               if \<not> rw_payload w then (Inl SecretsFailed, y)
               else
                 let running = ry_spec y; old = g_Snapshots (sp_Guest running) in
                 case (if snapshotsReloadable (rw_current w) running
                       then stage_generation w snapshots (snapshotGeneration old) (ry_stages y) else (Inr old, ry_stages y)) of
                   (Inl e, stages) \<Rightarrow> (Inl e, y\<lparr>ry_stages := stages\<rparr>)
                 | (Inr binds, stages) \<Rightarrow>
                     let y1 = y\<lparr>ry_stages := stages\<rparr>; nxt = next_spec running want binds in
                     case broker_result w of
                       Inl e \<Rightarrow> (Inl e, y1)
                     | Inr _ \<Rightarrow>
                         (case reloadGuest (rw_seq w) (rw_request w) (rw_waits w) (sp_Guest nxt) (ry_control y1) of
                            (Inl e, c) \<Rightarrow> (Inl e, y1\<lparr>ry_control := c\<rparr>)
                          | (Inr _, c) \<Rightarrow>
                              let y2 = y1\<lparr>ry_control := c\<rparr> in
                              if \<not> rw_write_spec w then (Inl SpecFailed, y2)
                              else
                                let y3 = y2\<lparr>ry_spec := nxt\<rparr> in
                                if \<not> rw_deliver w then (Inl DeliverFailed, y3)
                                else (Inr (restartOnlyChanges (rw_current w) running want), y3)))"

section \<open>Guest confirmation\<close>

lemma unbind_seq: "unbind_snapshots F ss i l k = (r, l1, k1) \<Longrightarrow> l_seq l1 = l_seq l"
  by (induction i arbitrary: l k) (auto simp: Let_def split: prod.splits bool.splits if_splits)

lemma bind_seq: "bind_snapshots F ss l k = (r, l1, k1) \<Longrightarrow> l_seq l1 = l_seq l"
  by (induction F ss l k rule: bind_snapshots.induct) (auto simp: Let_def split: prod.splits sum.splits if_splits)

lemma setSnapshots_seq: "setSnapshots F ss l k = (r, l1, k1) \<Longrightarrow> l_seq l1 = l_seq l"
  by (auto simp: setSnapshots_def split: prod.splits sum.splits dest!: unbind_seq bind_seq)

lemma apply_relays_seq: "apply_relays F r l = (res, l1) \<Longrightarrow> l_seq l1 = l_seq l"
  by (auto simp: apply_relays_def set_agent_def set_gpg_def setHostPorts_def split: if_splits sum.splits)

lemma apply_reload_seq: "apply_reload F r g = (res, g1) \<Longrightarrow> l_seq (gl_live g1) = l_seq (gl_live g)"
  by (auto simp: apply_reload_def split: prod.splits sum.splits if_splits dest!: setSnapshots_seq apply_relays_seq)

lemma poll_seq: "LiveReload.poll F (Some r) g = (Some a, g1) \<Longrightarrow> l_seq (gl_live g1) = rl_Seq r \<and> fst a = rl_Seq r"
  by (auto simp: LiveReload.poll_def split: prod.splits sum.splits if_splits dest: apply_reload_seq)

lemma poll_idle: "l_seq (gl_live g) = rl_Seq r \<Longrightarrow> LiveReload.poll F (Some r) g = (None, g)"
  by (simp add: LiveReload.poll_def)

lemma applied_other [simp]: "applied F base r (open_other g) = applied F base r g" "applied F base r (close_other fd g) = applied F base r g"
  by (simp_all add: applied_def open_other_def close_other_def set_fds_def)

lemma seq_other [simp]: "l_seq (gl_live (open_other g)) = l_seq (gl_live g)" "l_seq (gl_live (close_other fd g)) = l_seq (gl_live g)"
  by (simp_all add: open_other_def close_other_def set_fds_def)

text \<open>An answer with the number of the request is the answer to the request, and what it confirms still holds.\<close>

definition answer_ok :: "string option \<Rightarrow> Reload \<Rightarrow> control \<Rightarrow> bool" where
  "answer_ok base r c \<longleftrightarrow>
     ct_reload c = Some r \<and> live_run base (ct_guest c) \<and>
     (\<forall>err. ct_done c = Some (rl_Seq r, err) \<longrightarrow>
        l_seq (gl_live (ct_guest c)) = rl_Seq r \<and> (err = None \<longrightarrow> (\<exists>F. applied F base r (ct_guest c))))"

fun sound_event :: "guest_event \<Rightarrow> bool" where
  "sound_event (GuestPolls F ok) = (\<forall>m. \<not> lf_umount F m)"
| "sound_event GuestOpens = True"
| "sound_event (GuestCloses fd) = True"

lemma answer_ok_event:
  assumes "answer_ok base r c" and "sound_event ev"
  shows "answer_ok base r (guest_step ev c)"
proof (cases ev)
  case (GuestPolls F ok)
  have F: "\<forall>m. \<not> lf_umount F m" and run: "live_run base (ct_guest c)" and req: "ct_reload c = Some r"
    using assms GuestPolls by (auto simp: answer_ok_def)
  obtain a g where p: "LiveReload.poll F (Some r) (ct_guest c) = (a, g)" by (cases "LiveReload.poll F (Some r) (ct_guest c)")
  have "live_run base g" using live_run.Poll [OF run F, of "Some r"] p by simp
  show ?thesis
  proof (cases a)
    case None
    then have "g = ct_guest c" using p by (auto simp: LiveReload.poll_def split: if_splits prod.splits sum.splits)
    then show ?thesis using assms(1) GuestPolls req p None by (simp add: answer_ok_def)
  next
    case (Some x)
    have seq: "l_seq (gl_live g) = rl_Seq r" "fst x = rl_Seq r" using poll_seq [OF p [unfolded Some]] by simp_all
    have old: "ct_done c \<noteq> Some (rl_Seq r, err)" for err
      using assms(1) poll_idle [of "ct_guest c" r F] p Some by (auto simp: answer_ok_def)
    have "\<exists>F. applied F base r g" if "snd x = None"
    proof -
      have "LiveReload.poll F (Some r) (ct_guest c) = (Some (rl_Seq r, None), g)" using p Some seq(2) that by (metis prod.collapse)
      then show ?thesis using poll_core(2) [OF live_run_inv [OF run] F] by blast
    qed
    then show ?thesis using GuestPolls req p Some seq old \<open>live_run base g\<close> by (auto simp: answer_ok_def)
  qed
qed (use assms in \<open>auto simp: answer_ok_def intro: live_run.OpenOther live_run.CloseOther\<close>)

lemma answer_ok_events: "answer_ok base r c \<Longrightarrow> \<forall>ev \<in> set evs. sound_event ev \<Longrightarrow> answer_ok base r (fold guest_step evs c)"
  by (induction evs arbitrary: c) (simp_all add: answer_ok_event)

lemma await_guest_sound:
  "answer_ok base r c \<Longrightarrow> \<forall>evs \<in> set waits. \<forall>ev \<in> set evs. sound_event ev \<Longrightarrow> await_guest (rl_Seq r) waits c = (res, c1) \<Longrightarrow>
   answer_ok base r c1 \<and> (res = Inr () \<longrightarrow> (\<exists>F. applied F base r (ct_guest c1)))"
proof (induction waits arbitrary: c)
  case Nil
  then show ?case by auto
next
  case (Cons evs rest)
  have go: "answer_ok base r (fold guest_step evs c)" using answer_ok_events Cons.prems(1,2) by simp
  show ?case
  proof (cases "\<exists>err. ct_done c = Some (rl_Seq r, err)")
    case True
    then show ?thesis using Cons.prems(1,3) by (auto simp: answer_ok_def split: option.splits)
  next
    case False
    then have "await_guest (rl_Seq r) rest (fold guest_step evs c) = (res, c1)" using Cons.prems(3) by (auto split: option.splits if_splits)
    then show ?thesis using Cons.IH [OF go] Cons.prems(2) by simp
  qed
qed

section \<open>Staged generations\<close>

lemma stage_loop_sources:
  "stage_loop copy gen i cs (binds, staged, ops) = Inr (binds1, ops1) \<Longrightarrow>
   \<exists>bs. binds1 = binds @ bs \<and> (\<forall>b \<in> set bs. \<exists>j. gs_Source b = stage_source gen j)"
proof (induction cs arbitrary: i binds staged ops)
  case (Cons c cs)
  show ?case
  proof (cases "find (\<lambda>p. HasPrefix (vs_Container c) (gs_Target (binds ! p) @ ''/'')) [0..<length binds]")
    case None
    let ?b = "\<lparr>gs_Source = stage_source gen i, gs_Target = vs_Container c\<rparr>"
    have "stage_loop copy gen (i + 1) cs (binds @ [?b], staged @ [stage_dir gen i], ops @ [StageNew (stage_dir gen i) c]) = Inr (binds1, ops1)"
      using Cons.prems None by (auto simp: Let_def split: if_splits)
    from Cons.IH [OF this] show ?thesis by auto
  next
    case (Some p)
    then show ?thesis using Cons.IH Cons.prems by (auto simp: Let_def split: if_splits)
  qed
qed simp

text \<open>Staging makes every copy, each where its snapshot belongs.\<close>

lemma stage_loop_placed:
  "stage_loop copy gen i cs (binds, staged, ops) = Inr (binds1, ops1) \<Longrightarrow> map gs_Source binds = map (\<lambda>d. ReadOnlyHostDir @ ''/'' @ d) staged \<Longrightarrow>
   \<exists>bs os. binds1 = binds @ bs \<and> ops1 = ops @ os \<and> list_all2 (placed binds1) cs os \<and> list_all copy os"
proof (induction cs arbitrary: i binds staged ops)
  case (Cons c cs)
  show ?case
  proof (cases "find (\<lambda>p. HasPrefix (vs_Container c) (gs_Target (binds ! p) @ ''/'')) [0..<length binds]")
    case None
    let ?b = "\<lparr>gs_Source = stage_source gen i, gs_Target = vs_Container c\<rparr>" and ?op = "StageNew (stage_dir gen i) c"
    have s: "stage_loop copy gen (i + 1) cs (binds @ [?b], staged @ [stage_dir gen i], ops @ [?op]) = Inr (binds1, ops1)" "copy ?op"
      using Cons.prems(1) None by (auto simp: Let_def split: if_splits)
    obtain bs os where b: "binds1 = (binds @ [?b]) @ bs" "ops1 = (ops @ [?op]) @ os" "list_all2 (placed binds1) cs os" "list_all copy os"
      using Cons.IH [OF s(1)] Cons.prems(2) by (auto simp: stage_source_dir)
    have "placed binds1 c ?op" unfolding placed_def b(1) by (auto simp: stage_source_dir)
    then show ?thesis using b s(2) by (intro exI [of _ "?b # bs"] exI [of _ "?op # os"]) simp
  next
    case (Some p)
    let ?op = "StageChild (staged ! p) (drop (length (gs_Target (binds ! p)) + 1) (vs_Container c)) c"
    have p: "p < length binds" "below (vs_Container c) (gs_Target (binds ! p))" using Some by (auto simp: find_Some_iff below_def)
    have s: "stage_loop copy gen (i + 1) cs (binds, staged, ops @ [?op]) = Inr (binds1, ops1)" "copy ?op"
      using Cons.prems(1) Some by (auto simp: Let_def split: if_splits)
    obtain bs os where b: "binds1 = binds @ bs" "ops1 = (ops @ [?op]) @ os" "list_all2 (placed binds1) cs os" "list_all copy os"
      using Cons.IH [OF s(1) Cons.prems(2)] by blast
    have src: "gs_Source (binds ! p) = ReadOnlyHostDir @ ''/'' @ staged ! p"
      using arg_cong [OF Cons.prems(2), of "\<lambda>l. l ! p"] p(1) map_eq_imp_length_eq [OF Cons.prems(2)] by simp
    have at: "vs_Container c = gs_Target (binds ! p) @ ''/'' @ drop (length (gs_Target (binds ! p)) + 1) (vs_Container c)"
      using p(2) by (auto simp: below_iff)
    have "binds ! p \<in> set binds1" using p(1) b(1) by simp
    then have "placed binds1 c ?op" unfolding placed_def using src at by (intro bexI [of _ "binds ! p"] exI [of _ "staged ! p"]) auto
    then show ?thesis using b s(2) by (intro exI [of _ bs] exI [of _ "?op # os"]) simp
  qed
qed simp

lemma staged_placed: "stageSnapshots copy gen snaps = Inr (binds, ops) \<Longrightarrow> list_all2 (placed binds) snaps ops \<and> list_all copy ops"
  using stage_loop_placed [of copy gen 0 snaps "[]" "[]" "[]" binds ops] by (auto simp: stageSnapshots_def split: if_splits)

lemma stage_generation_staged:
  "stage_generation w snaps keep stages = (Inr binds, stages1) \<Longrightarrow>
   \<exists>ops. stageSnapshots (rw_copy w) (rw_gen w) snaps = Inr (binds, ops) \<and> list_all2 (placed binds) snaps ops \<and> list_all (rw_copy w) ops"
  using staged_placed [of "rw_copy w" "rw_gen w" snaps binds]
  by (cases "snaps = []") (auto simp: stage_generation_def stageSnapshots_def [of _ _ "[]"] Let_def split: sum.splits prod.splits)

definition from_generation :: "string \<Rightarrow> guestSnapshot list \<Rightarrow> bool" where
  "from_generation gen binds \<longleftrightarrow> CHR ''/'' \<notin> set gen \<and> (\<forall>b \<in> set binds. \<exists>j. gs_Source b = stage_source gen j)"

lemma staged_generation: "stageSnapshots copy gen snaps = Inr (binds, ops) \<Longrightarrow> CHR ''/'' \<notin> set gen \<Longrightarrow> from_generation gen binds"
  using stage_loop_sources [of copy gen 0 snaps "[]" "[]" "[]" binds ops] by (auto simp: stageSnapshots_def from_generation_def split: if_splits)

lemma generation_named:
  assumes "from_generation gen binds" and "binds \<noteq> []"
  shows "snapshotGeneration binds = gen"
proof -
  obtain b bs j where b: "binds = b # bs" "gs_Source b = SnapshotsDir @ ''/'' @ gen @ ''/'' @ show_nat j"
    using assms by (cases binds) (auto simp: from_generation_def stage_source_def)
  have "CutPrefix (gs_Source b) (SnapshotsDir @ ''/'') = Some (gen @ ''/'' @ show_nat j)"
    using HasPrefix_append [of "SnapshotsDir @ ''/''" "gen @ ''/'' @ show_nat j"] by (simp add: CutPrefix_def b(2))
  moreover have "fst (Cut (gen @ CHR ''/'' # rest) ''/'') = gen" for rest
    using assms(1) by (simp add: from_generation_def)
  ultimately show ?thesis by (simp add: snapshotGeneration_def b(1))
qed

section \<open>Properties\<close>

text \<open>The specification on disk is what the guest has, and the sources of the attached snapshots are staged.\<close>

definition in_step :: "string option \<Rightarrow> reload_sys \<Rightarrow> bool" where
  "in_step base y \<longleftrightarrow>
     live_run base (ct_guest (ry_control y)) \<and>
     map snd (kn_mounts (gl_kernel (ct_guest (ry_control y)))) = g_Snapshots (sp_Guest (ry_spec y)) \<and>
     (g_Snapshots (sp_Guest (ry_spec y)) \<noteq> [] \<longrightarrow> (\<exists>gen \<in> set (ry_stages y). from_generation gen (g_Snapshots (sp_Guest (ry_spec y)))))"

lemma stage_generation_keeps:
  assumes "stage_generation w snaps (snapshotGeneration old) stages = (res, stages1)"
    and "old \<noteq> [] \<longrightarrow> (\<exists>gen \<in> set stages. from_generation gen old)" and "CHR ''/'' \<notin> set (rw_gen w)"
  shows "old \<noteq> [] \<longrightarrow> (\<exists>gen \<in> set stages1. from_generation gen old)"
    and "res = Inr binds \<Longrightarrow> binds \<noteq> [] \<longrightarrow> (\<exists>gen \<in> set stages1. from_generation gen binds)"
proof -
  show "old \<noteq> [] \<longrightarrow> (\<exists>gen \<in> set stages1. from_generation gen old)"
    using assms(1,2) generation_named [of _ old]
    by (auto simp: stage_generation_def Let_def split: if_splits sum.splits prod.splits)
  show "res = Inr binds \<Longrightarrow> binds \<noteq> [] \<longrightarrow> (\<exists>gen \<in> set stages1. from_generation gen binds)"
    using assms(1,3) staged_generation [of "rw_copy w" "rw_gen w" snaps binds]
    by (auto simp: stage_generation_def Let_def split: if_splits sum.splits prod.splits)
qed

text \<open>What of the configuration a specification carries out: the settings a reload changes, and all of them.\<close>

definition reloaded :: "Spec \<Rightarrow> Spec \<Rightarrow> bool" where
  "reloaded want s \<longleftrightarrow>
     sp_Policy s = sp_Policy want \<and> sp_Forwards s = sp_Forwards want \<and> sp_HostServices s = sp_HostServices want \<and>
     sp_SSHAgent s = sp_SSHAgent want \<and> sp_GPGAgent s = sp_GPGAgent want \<and>
     g_CABundle (sp_Guest s) = g_CABundle (sp_Guest want) \<and> g_SSHAgent (sp_Guest s) = g_SSHAgent (sp_Guest want) \<and>
     g_GPGAgent (sp_Guest s) = g_GPGAgent (sp_Guest want) \<and> g_HostPorts (sp_Guest s) = g_HostPorts (sp_Guest want)"

definition as_configured :: "Spec \<Rightarrow> Spec \<Rightarrow> bool" where
  "as_configured want s \<longleftrightarrow>
     reloaded want s \<and> sp_CPUs s = sp_CPUs want \<and> sp_MemoryMiB s = sp_MemoryMiB want \<and> sp_Docker s = sp_Docker want \<and>
     (sp_Docker want \<longrightarrow> or_default 0 DefaultDiskSize (sp_DiskSize s) = or_default 0 DefaultDiskSize (sp_DiskSize want)) \<and>
     sp_Profile s = sp_Profile want \<and> sp_EphemeralProfile s = sp_EphemeralProfile want \<and> mset (sp_Shares s) = mset (sp_Shares want) \<and>
     g_Binds (sp_Guest s) = g_Binds (sp_Guest want) \<and> g_NoPrivilegeEscalation (sp_Guest s) = g_NoPrivilegeEscalation (sp_Guest want) \<and>
     or_default [] Default_agent (sp_Agent s) = sp_Agent want \<and> g_Env (sp_Guest s) = g_Env (sp_Guest want) \<and> g_WorkDir (sp_Guest s) = g_WorkDir (sp_Guest want)"

lemma reloaded_next: "reloaded want (next_spec running want binds)"
  by (simp add: reloaded_def next_spec_def Let_def)

lemma sortedShares_mset: "sortedShares xs = sortedShares ys \<Longrightarrow> mset xs = mset ys"
  unfolding sortedShares_def by (metis mset_sort)

lemma no_changes: "restartOnlyChanges current running want = [] \<Longrightarrow> as_configured want (next_spec running want binds)"
  unfolding as_configured_def
  by (auto simp: reloaded_def restartOnlyChanges_def Let_def next_spec_def dest: sortedShares_mset split: if_splits)

lemma applied_mounts: "applied F base (reload_request seq g) gl \<Longrightarrow> map snd (kn_mounts (gl_kernel gl)) = g_Snapshots g"
  by (simp add: applied_def reload_request_def)

lemma reloadGuest_sound:
  assumes "live_run base (ct_guest c)" and "\<forall>evs \<in> set waits. \<forall>ev \<in> set evs. sound_event ev"
    and "\<forall>err. ct_done c \<noteq> Some (seq, err)" and "reloadGuest seq written waits g c = (Inr u, c1)"
  shows "live_run base (ct_guest c1) \<and> (\<exists>F. applied F base (reload_request seq g) (ct_guest c1))"
proof -
  let ?r = "reload_request seq g"
  have s: "rl_Seq ?r = seq" by (simp add: reload_request_def)
  then have "answer_ok base ?r (c\<lparr>ct_reload := Some ?r\<rparr>)" using assms(1,3) by (simp add: answer_ok_def)
  moreover have "await_guest (rl_Seq ?r) waits (c\<lparr>ct_reload := Some ?r\<rparr>) = (Inr u, c1)" using assms(4) s by (auto simp: reloadGuest_def split: if_splits)
  ultimately have "answer_ok base ?r c1 \<and> (\<exists>F. applied F base ?r (ct_guest c1))"
    using await_guest_sound [of base ?r "c\<lparr>ct_reload := Some ?r\<rparr>" waits "Inr u" c1] assms(2) by simp
  then show ?thesis by (simp add: answer_ok_def)
qed

lemma reload_stages:
  assumes "in_step base y" and "CHR ''/'' \<notin> set (rw_gen w)"
    and "(if snapshotsReloadable (rw_current w) (ry_spec y)
       then stage_generation w snaps (snapshotGeneration (g_Snapshots (sp_Guest (ry_spec y)))) (ry_stages y)
       else (Inr (g_Snapshots (sp_Guest (ry_spec y))), ry_stages y)) = (res, stages)"
  shows "in_step base (y\<lparr>ry_stages := stages\<rparr>)" and "res = Inr binds \<Longrightarrow> binds \<noteq> [] \<longrightarrow> (\<exists>gen \<in> set stages. from_generation gen binds)"
proof -
  let ?old = "g_Snapshots (sp_Guest (ry_spec y))"
  have old: "?old \<noteq> [] \<longrightarrow> (\<exists>gen \<in> set (ry_stages y). from_generation gen ?old)" using assms(1) by (simp add: in_step_def)
  have "(?old \<noteq> [] \<longrightarrow> (\<exists>gen \<in> set stages. from_generation gen ?old)) \<and>
      (res = Inr binds \<longrightarrow> binds \<noteq> [] \<longrightarrow> (\<exists>gen \<in> set stages. from_generation gen binds))"
  proof (cases "snapshotsReloadable (rw_current w) (ry_spec y)")
    case True
    then have "stage_generation w snaps (snapshotGeneration ?old) (ry_stages y) = (res, stages)" using assms(3) by simp
    from stage_generation_keeps [OF this old assms(2)] show ?thesis by blast
  next
    case False
    then show ?thesis using assms(3) old by auto
  qed
  then show "in_step base (y\<lparr>ry_stages := stages\<rparr>)" "res = Inr binds \<Longrightarrow> binds \<noteq> [] \<longrightarrow> (\<exists>gen \<in> set stages. from_generation gen binds)"
    using assms(1) by (simp_all add: in_step_def)
qed

lemma upgrade_reported:
  "\<not> snapshotsReloadable current running \<Longrightarrow> current \<noteq> None \<Longrightarrow>
   ''the jailoc guest (jailoc was upgraded)'' \<in> set (restartOnlyChanges current running want)"
  by (auto simp: snapshotsReloadable_def restartOnlyChanges_def Let_def)

text \<open>C34. A reload keeps host and guest in step. Before it they are in step: no unmount has failed in the guest, the
  specification on disk names the snapshots the guest has attached and their sources are staged. The guest polls at any
  time, with any fault but a failing unmount, and the number of the request is not that of an answer that is already
  there. When the reload succeeds, the guest has carried out exactly what the new specification says, the specification
  has every setting that can be reloaded from the configuration, and if no setting is reported as waiting for a restart,
  every setting of the VM. If the running guest is this jailoc's, all snapshots of the configuration have been
  copied and the attached mounts are theirs, each snapshot below the mount and at the path of its destination; if it is
  an older one, the mounts are the ones of before, and the upgrade is among the settings that wait for a restart. Host and
  guest are in step again. When the reload fails, they are still in step, unless the failure is the answer of the guest,
  a missing answer, or writing the specification.\<close>

theorem reload_in_step:
  assumes "in_step base y" and "\<forall>evs \<in> set (rw_waits w). \<forall>ev \<in> set evs. sound_event ev"
    and "\<forall>err. ct_done (ry_control y) \<noteq> Some (rw_seq w, err)" and "CHR ''/'' \<notin> set (rw_gen w)"
    and "rw_want w = Inr (want, snaps)" and "reloadVM w y = (res, y1)"
  shows "(\<forall>changes. res = Inr changes \<longrightarrow>
       in_step base y1 \<and> (\<exists>F. applied F base (reload_request (rw_seq w) (sp_Guest (ry_spec y1))) (ct_guest (ry_control y1))) \<and>
       reloaded want (ry_spec y1) \<and> (changes = [] \<longrightarrow> as_configured want (ry_spec y1)) \<and>
       (if snapshotsReloadable (rw_current w) (ry_spec y)
        then \<exists>binds ops. stageSnapshots (rw_copy w) (rw_gen w) snaps = Inr (binds, ops) \<and> list_all (rw_copy w) ops \<and>
               map snd (kn_mounts (gl_kernel (ct_guest (ry_control y1)))) = binds \<and> list_all2 (placed binds) snaps ops
        else map snd (kn_mounts (gl_kernel (ct_guest (ry_control y1)))) = map snd (kn_mounts (gl_kernel (ct_guest (ry_control y)))) \<and>
             (rw_current w \<noteq> None \<longrightarrow> ''the jailoc guest (jailoc was upgraded)'' \<in> set changes))) \<and>
    (\<forall>e. res = Inl e \<longrightarrow> e \<notin> {GuestTimeout, SpecFailed} \<union> range GuestError \<longrightarrow> in_step base y1)"
proof -
  obtain st stages where st: "(if snapshotsReloadable (rw_current w) (ry_spec y)
       then stage_generation w snaps (snapshotGeneration (g_Snapshots (sp_Guest (ry_spec y)))) (ry_stages y)
       else (Inr (g_Snapshots (sp_Guest (ry_spec y))), ry_stages y)) = (st, stages)" by (metis prod.collapse)
  note stage = reload_stages [OF assms(1,4) st]
  note eq = assms(6) [unfolded reloadVM_def assms(5) Let_def sum.case split st]
  show ?thesis
  proof (cases "rw_state w \<and> ry_running y \<and> rw_read_spec w \<and> ry_guest y \<and> rw_payload w \<and> (\<exists>binds. st = Inr binds) \<and> broker_result w = Inr ()")
    case False
    then show ?thesis using eq assms(1) stage(1) by (cases st; cases "broker_result w") (auto split: if_splits)
  next
    case True
    then obtain binds where b: "st = Inr binds" by blast
    let ?next = "next_spec (ry_spec y) want binds"
    obtain gr c where gr: "reloadGuest (rw_seq w) (rw_request w) (rw_waits w) (sp_Guest ?next) (ry_control y) = (gr, c)"
      by (metis prod.collapse)
    have run: "live_run base (ct_guest (ry_control y))" using assms(1) by (simp add: in_step_def)
    show ?thesis
    proof (cases gr)
      case (Inl e)
      then have y1: "res = Inl e" "y1 = y\<lparr>ry_stages := stages, ry_control := c\<rparr>" using eq True b gr by (auto split: if_splits)
      have "e = WriteFailed \<and> c = ry_control y \<or> e \<in> {GuestTimeout, SpecFailed} \<union> range GuestError"
      proof (cases "rw_request w")
        case True
        have "await_guest n waits c0 = (Inl e, c') \<Longrightarrow> e \<in> {GuestTimeout} \<union> range GuestError" for n waits c0 c'
          by (induction n waits c0 rule: await_guest.induct) (auto split: option.splits if_splits)
        then show ?thesis using True gr Inl by (auto simp: reloadGuest_def)
      qed (use gr Inl in \<open>simp add: reloadGuest_def\<close>)
      then show ?thesis using y1 stage(1) by auto
    next
      case (Inr u)
      have ok: "live_run base (ct_guest c)" "\<exists>F. applied F base (reload_request (rw_seq w) (sp_Guest ?next)) (ct_guest c)"
        using reloadGuest_sound [OF run assms(2,3) gr [unfolded Inr]] by auto
      have g: "g_Snapshots (sp_Guest ?next) = binds" by (simp add: next_spec_def Let_def)
      then have mounts: "map snd (kn_mounts (gl_kernel (ct_guest c))) = binds" using ok(2) applied_mounts by fastforce
      then have step: "in_step base (y\<lparr>ry_stages := stages, ry_control := c, ry_spec := ?next\<rparr>)"
        using ok(1) stage(2) [OF b] g by (simp add: in_step_def)
      show ?thesis
      proof (cases "rw_write_spec w \<and> rw_deliver w")
        case False
        then show ?thesis using eq True b gr Inr step by (auto split: if_splits)
      next
        case written: True
        then have y1: "res = Inr (restartOnlyChanges (rw_current w) (ry_spec y) want)" "y1 = y\<lparr>ry_stages := stages, ry_control := c, ry_spec := ?next\<rparr>"
          using eq True b gr Inr by auto
        have "if snapshotsReloadable (rw_current w) (ry_spec y)
          then \<exists>binds ops. stageSnapshots (rw_copy w) (rw_gen w) snaps = Inr (binds, ops) \<and> list_all (rw_copy w) ops \<and>
               map snd (kn_mounts (gl_kernel (ct_guest c))) = binds \<and> list_all2 (placed binds) snaps ops
          else map snd (kn_mounts (gl_kernel (ct_guest c))) = map snd (kn_mounts (gl_kernel (ct_guest (ry_control y)))) \<and>
             (rw_current w \<noteq> None \<longrightarrow> ''the jailoc guest (jailoc was upgraded)'' \<in> set (restartOnlyChanges (rw_current w) (ry_spec y) want))"
        proof (cases "snapshotsReloadable (rw_current w) (ry_spec y)")
          case True
          then have "stage_generation w snaps (snapshotGeneration (g_Snapshots (sp_Guest (ry_spec y)))) (ry_stages y) = (Inr binds, stages)"
            using st b by simp
          from stage_generation_staged [OF this] True mounts show ?thesis by auto
        next
          case False
          then have "binds = g_Snapshots (sp_Guest (ry_spec y))" using st b by simp
          then show ?thesis using False mounts assms(1) upgrade_reported [OF False] by (simp add: in_step_def)
        qed
        then show ?thesis using y1 step ok(2) reloaded_next no_changes by auto
      qed
    qed
  qed
qed

text \<open>A VM with one snapshot of generation 1; the guest answers a reload to generation 2 after its second poll.\<close>

definition ex_guest_config :: GuestConfig where
  "ex_guest_config =
     \<lparr>g_WorkDir = ''/w'', g_Env = [], g_Binds = [], g_Snapshots = [\<lparr>gs_Source = stage_source ''1'' 0, gs_Target = ''/a''\<rparr>], g_CABundle = [],
      g_SSHAgent = True, g_GPGAgent = False, g_HostPorts = [80], g_Pins = [], g_ReadOnly = [], g_NoPrivilegeEscalation = False, g_Docker = False\<rparr>"

definition ex_spec :: Spec where
  "ex_spec =
     \<lparr>sp_Image = ''i'', sp_CPUs = 2, sp_MemoryMiB = 512, sp_DiskSize = 0, sp_Shares = [], sp_Forwards = [], sp_Policy = ''p'', sp_GuestBinary = ''/g'',
      sp_Agent = [], sp_Profile = [], sp_EphemeralProfile = False, sp_Guest = ex_guest_config, sp_Docker = False, sp_SSHAgent = ''/s'', sp_GPGAgent = [],
      sp_HostServices = []\<rparr>"

definition ex_want :: Spec where
  "ex_want = ex_spec\<lparr>sp_Policy := ''q'', sp_Agent := ''opencode'', sp_DiskSize := 5, sp_Guest := ex_guest_config\<lparr>g_Snapshots := [], g_HostPorts := [81]\<rparr>\<rparr>"

definition ex_first :: guest_live where
  "ex_first = snd (boot_live no_live_faults (reload_request 0 ex_guest_config) (guest_boot [(0, Unrelated)] [] (Some ''S'')))"

definition ex_sys :: reload_sys where
  "ex_sys = \<lparr>ry_running = True, ry_guest = True, ry_spec = ex_spec, ry_stages = [''1''], ry_control = \<lparr>ct_reload = None, ct_done = None, ct_guest = ex_first\<rparr>\<rparr>"

definition ex_world :: reload_world where
  "ex_world =
     \<lparr>rw_state = True, rw_read_spec = True, rw_current = Some ''/g'', rw_want = Inr (ex_want, [\<lparr>vs_mount = mountOf ''/h'' ''/b'', vs_data = None\<rparr>]), rw_payload = True, rw_gen = ''2'', rw_copy = \<lambda>_. True,
      rw_json = \<lambda>l. if l = [] then None else Some \<lparr>br_Event = ''reload'', br_PolicyError = [], br_RuntimeErrors = []\<rparr>, rw_pid = 9, rw_files = True, rw_signal = True,
      rw_before = Some (1, 2), rw_looks = [ex_files, write_log good_world (ex_line 68) ex_files], rw_seq = 7, rw_request = True, rw_waits = [[GuestOpens], [GuestPolls no_live_faults True], []], rw_write_spec = True, rw_deliver = True\<rparr>"

lemma ex_in_step: "in_step (Some ''S'') ex_sys"
proof -
  have ok: "\<forall>m. \<not> lf_umount no_live_faults m" by (simp add: no_live_faults_def)
  have "fst (boot_live no_live_faults (reload_request 0 ex_guest_config) (guest_boot [(0, Unrelated)] [] (Some ''S''))) = Inr ()" by code_simp
  then have "live_run (Some ''S'') ex_first" unfolding ex_first_def by (intro live_run.Boot [OF ok]) (rule prod_eqI, simp_all)
  moreover have "map snd (kn_mounts (gl_kernel ex_first)) = g_Snapshots ex_guest_config" by code_simp
  moreover have "from_generation ''1'' (g_Snapshots ex_guest_config)" by (auto simp: from_generation_def ex_guest_config_def)
  ultimately show ?thesis by (simp add: in_step_def ex_sys_def ex_spec_def)
qed

theorem reload_in_step_witness:
  "\<exists>y1. reloadVM ex_world ex_sys = (Inr [], y1) \<and> in_step (Some ''S'') y1 \<and> as_configured ex_want (ry_spec y1) \<and> ry_stages y1 = [''1'', ''2'']"
proof -
  have r: "fst (reloadVM ex_world ex_sys) = Inr []" "ry_stages (snd (reloadVM ex_world ex_sys)) = [''1'', ''2'']" by code_simp+
  then have p: "reloadVM ex_world ex_sys = (Inr [], snd (reloadVM ex_world ex_sys))" by (simp add: prod_eq_iff)
  have "\<forall>evs \<in> set (rw_waits ex_world). \<forall>ev \<in> set evs. sound_event ev" by (simp add: ex_world_def no_live_faults_def)
  moreover have "\<forall>err. ct_done (ry_control ex_sys) \<noteq> Some (rw_seq ex_world, err)" by (simp add: ex_sys_def)
  moreover have "CHR ''/'' \<notin> set (rw_gen ex_world)" by (simp add: ex_world_def)
  moreover have "rw_want ex_world = Inr (ex_want, [\<lparr>vs_mount = mountOf ''/h'' ''/b'', vs_data = None\<rparr>])" by (simp add: ex_world_def)
  ultimately have "in_step (Some ''S'') (snd (reloadVM ex_world ex_sys)) \<and> as_configured ex_want (ry_spec (snd (reloadVM ex_world ex_sys)))"
    using reload_in_step [OF ex_in_step _ _ _ _ p] by simp
  then show ?thesis using p r(2) by (intro exI [of _ "snd (reloadVM ex_world ex_sys)"]) simp
qed

text \<open>An answer that comes late. The guest binds the snapshots of a reload after the host has given up waiting, so the
  specification still names the generation before. The next reload keeps that one and removes the generation the
  running guest binds before it stages its own, and when its staging fails, the guest is left with mounts whose
  sources are gone.\<close>

theorem reload_removes_bound_generation:
  "let late = snd (reloadVM (ex_world\<lparr>rw_waits := [[]]\<rparr>) ex_sys);
       bound = late\<lparr>ry_control := guest_step (GuestPolls no_live_faults True) (ry_control late)\<rparr>;
       after = reloadVM (ex_world\<lparr>rw_gen := ''3'', rw_seq := 8, rw_copy := \<lambda>_. False\<rparr>) bound in
   fst (reloadVM (ex_world\<lparr>rw_waits := [[]]\<rparr>) ex_sys) = Inl GuestTimeout \<and>
   map (gs_Source \<circ> snd) (kn_mounts (gl_kernel (ct_guest (ry_control (snd after))))) = [stage_source ''2'' 0] \<and>
   fst after = Inl (StageFailed ''/h'') \<and> ry_stages bound = [''1'', ''2''] \<and> ry_stages (snd after) = [''1'']"
  by code_simp

end
