(* ===== verification/Prune.thy ===== *)
theory Prune
  imports GoStrings
begin

text \<open>
  Pruning of cached images: the image cache of the VMs (\<open>internal/vm/prune.go\<close>) and the images in the Docker
  daemon (\<open>internal/docker/prune.go\<close>). A directory is a list of its entries; which removals fail is an argument.
\<close>

section \<open>Image cache\<close>

definition pruneGrace :: int where "pruneGrace = 60 * 60 * 10 ^ 9"

definition rootfsRepo :: string where "rootfsRepo = ''jailoc.local/rootfs''"

text \<open>A file of \<open>refs\<close> with its content, if it can be read, and an entry of the cache; the time is that of \<open>Lstat\<close>.\<close>

record ref_entry =
  re_name :: string
  re_dir :: bool
  re_data :: "string option"
  re_time :: "int option"

record cache_entry =
  ce_name :: string
  ce_dir :: bool
  ce_time :: "int option"

record image_cache =
  ic_refs :: "ref_entry list"
  ic_entries :: "cache_entry list"

datatype prune_error = RemoveRef string | RemoveImage string | PruneLibrary

definition parseRef :: "string \<Rightarrow> string \<times> string" where
  "parseRef data = (let t = TrimSpace data in case Cut t [CHR 0x09] of (before, after, ok) \<Rightarrow> if ok then (before, after) else ([], t))"

definition old_entry :: "int \<Rightarrow> int option \<Rightarrow> bool" where
  "old_entry now t = (case t of Some m \<Rightarrow> m < now - pruneGrace | None \<Rightarrow> False)"

text \<open>The loop over the references: the ones that stay, the live digests and the error, if a removal fails.\<close>

fun prune_refs ::
  "(string \<Rightarrow> bool) \<Rightarrow> int \<Rightarrow> string list \<Rightarrow> ref_entry list \<Rightarrow> ref_entry list \<times> string list \<Rightarrow> (prune_error, string list) result \<times> ref_entry list" where
  "prune_refs bad now keep [] (stay, live) = (Inr live, stay)"
| "prune_refs bad now keep (e # es) (stay, live) =
     (case re_data e of
        None \<Rightarrow> prune_refs bad now keep es (stay @ [e], live)
      | Some data \<Rightarrow>
          if re_dir e then prune_refs bad now keep es (stay @ [e], live)
          else case parseRef data of (ref, digest) \<Rightarrow>
            if HasPrefix ref (rootfsRepo @ '':'') \<and> ref \<notin> set keep \<and> old_entry now (re_time e)
            then (if bad (re_name e) then (Inl (RemoveRef ref), stay @ e # es) else prune_refs bad now keep es (stay, live))
            else prune_refs bad now keep es (stay @ [e], if digest \<noteq> [] then digest # live else live))"

definition image_digest :: "string \<Rightarrow> string" where
  "image_digest name = (case Cut name ''-'' of (a, b, ok) \<Rightarrow> if ok then a @ '':'' @ b else name)"

definition unused_image :: "int \<Rightarrow> string list \<Rightarrow> cache_entry \<Rightarrow> bool" where
  "unused_image now live e \<longleftrightarrow> ce_dir e \<and> HasPrefix (ce_name e) ''sha256-'' \<and> image_digest (ce_name e) \<notin> set live \<and> old_entry now (ce_time e)"

fun prune_entries :: "(string \<Rightarrow> bool) \<Rightarrow> int \<Rightarrow> string list \<Rightarrow> cache_entry list \<Rightarrow> cache_entry list \<Rightarrow> (prune_error, unit) result \<times> cache_entry list" where
  "prune_entries bad now live [] stay = (Inr (), stay)"
| "prune_entries bad now live (e # es) stay =
     (if unused_image now live e
      then (if bad (ce_name e) then (Inl (RemoveImage (ce_name e)), stay @ e # es) else prune_entries bad now live es stay)
      else prune_entries bad now live es (stay @ [e]))"

text \<open>\<open>PruneImages\<close> of the cache; \<open>library\<close> says whether the pruning of layers and snapshots by the image library succeeds.\<close>

definition PruneImages :: "(string \<Rightarrow> bool) \<Rightarrow> bool \<Rightarrow> int \<Rightarrow> string list \<Rightarrow> image_cache \<Rightarrow> (prune_error, nat \<times> nat) result \<times> image_cache" where
  "PruneImages bad library now keep c =
     (case prune_refs bad now keep (ic_refs c) ([], []) of
        (Inl e, refs) \<Rightarrow> (Inl e, c\<lparr>ic_refs := refs\<rparr>)
      | (Inr live, refs) \<Rightarrow>
          (case prune_entries bad now live (ic_entries c) [] of
             (Inl e, es) \<Rightarrow> (Inl e, c\<lparr>ic_refs := refs, ic_entries := es\<rparr>)
           | (Inr _, es) \<Rightarrow>
               (if library then Inr (length (ic_refs c) - length refs, length (ic_entries c) - length es) else Inl PruneLibrary,
                c\<lparr>ic_refs := refs, ic_entries := es\<rparr>)))"

section \<open>Docker images\<close>

record image_summary =
  im_ID :: string
  im_Created :: int
  im_RepoTags :: "string list"

definition own_tags :: "image_summary \<Rightarrow> string list" where
  "own_tags img = filter (\<lambda>t. t \<noteq> ''<none>:<none>'') (im_RepoTags img)"

text \<open>The references an image is removed by: none when a tag is not jailoc's.\<close>

definition candidate_refs :: "image_summary \<Rightarrow> string list" where
  "candidate_refs img =
     (let tags = own_tags img in
      if list_ex (\<lambda>t. \<not> HasPrefix t ''jailoc-'') tags then [] else if tags = [] then [im_ID img] else tags)"

fun prune_candidates :: "string list \<Rightarrow> int \<Rightarrow> image_summary list \<Rightarrow> string list \<Rightarrow> string list" where
  "prune_candidates keep cutoff [] seen = []"
| "prune_candidates keep cutoff (img # imgs) seen =
     (if im_ID img \<in> set seen \<or> im_ID img \<in> set keep \<or> im_Created img * 10 ^ 9 > cutoff then prune_candidates keep cutoff imgs seen
      else candidate_refs img @ prune_candidates keep cutoff imgs (im_ID img # seen))"

definition pruneCandidates :: "image_summary list \<Rightarrow> string list \<Rightarrow> int \<Rightarrow> string list" where
  "pruneCandidates images keep cutoff = prune_candidates keep cutoff images []"

text \<open>\<open>PruneImages\<close> of the daemon: the images left, and the references that could not be removed.\<close>

definition remove_images :: "(string \<Rightarrow> bool) \<Rightarrow> string list \<Rightarrow> nat \<times> string list" where
  "remove_images bad refs = (length (filter (\<lambda>r. \<not> bad r) refs), filter bad refs)"

section \<open>Properties\<close>

text \<open>A reference that is dropped: it can be read, names a workspace image nobody wants, and is old.\<close>

definition dropped_ref :: "int \<Rightarrow> string list \<Rightarrow> ref_entry \<Rightarrow> bool" where
  "dropped_ref now keep e \<longleftrightarrow>
     (\<exists>data. re_data e = Some data \<and> \<not> re_dir e \<and> HasPrefix (fst (parseRef data)) (rootfsRepo @ '':'') \<and> fst (parseRef data) \<notin> set keep \<and> old_entry now (re_time e))"

definition names_digest :: "ref_entry \<Rightarrow> string \<Rightarrow> bool" where
  "names_digest e d \<longleftrightarrow> d \<noteq> [] \<and> \<not> re_dir e \<and> (\<exists>data. re_data e = Some data \<and> snd (parseRef data) = d)"

text \<open>A list filtered up to some point.\<close>

definition filtered_to :: "('a \<Rightarrow> bool) \<Rightarrow> 'a list \<Rightarrow> 'a list \<Rightarrow> bool" where
  "filtered_to P xs ys \<longleftrightarrow> (\<exists>as bs. xs = as @ bs \<and> ys = filter P as @ bs)"

lemma filtered_to_refl: "filtered_to P xs xs"
  unfolding filtered_to_def by (metis append_Nil filter.simps(1))

lemma filtered_to_filter: "filtered_to P xs (filter P xs)"
  unfolding filtered_to_def by (metis append_Nil2)

lemma filtered_to_Cons: "filtered_to P xs ys \<Longrightarrow> filtered_to P (x # xs) ((if P x then [x] else []) @ ys)"
proof -
  assume "filtered_to P xs ys"
  then obtain as bs where "xs = as @ bs" "ys = filter P as @ bs" unfolding filtered_to_def by blast
  then have "x # xs = (x # as) @ bs \<and> (if P x then [x] else []) @ ys = filter P (x # as) @ bs" by simp
  then show "filtered_to P (x # xs) ((if P x then [x] else []) @ ys)" unfolding filtered_to_def by blast
qed

lemma filtered_to_sets: "filtered_to P xs ys \<Longrightarrow> set ys \<subseteq> set xs \<and> (\<forall>x \<in> set xs - set ys. \<not> P x)"
  by (auto simp: filtered_to_def)

lemma prune_refs_exact:
  "prune_refs bad now keep es (stay, live) = (res, refs) \<Longrightarrow>
   \<exists>ys. refs = stay @ ys \<and> filtered_to (\<lambda>e. \<not> dropped_ref now keep e) es ys \<and>
     (\<forall>ds. res = Inr ds \<longrightarrow> ys = filter (\<lambda>e. \<not> dropped_ref now keep e) es \<and>
        set ds = set live \<union> {d. \<exists>e \<in> set ys. names_digest e d})"
proof (induction es arbitrary: stay live)
  case Nil
  then show ?case by (auto simp: filtered_to_refl)
next
  case (Cons e es)
  let ?drop = "dropped_ref now keep e"
  consider (skip) live1 where "\<not> ?drop" "prune_refs bad now keep es (stay @ [e], live1) = (res, refs)" "set live1 = set live \<union> {d. names_digest e d}"
    | (gone) "?drop" "prune_refs bad now keep es (stay, live) = (res, refs)"
    | (stop) x where "?drop" "res = Inl x" "refs = stay @ e # es"
    using Cons.prems by (cases "re_data e") (force simp: dropped_ref_def names_digest_def split: if_splits prod.splits)+
  then show ?case
  proof cases
    case skip
    from Cons.IH [OF skip(2)] obtain ys where ys: "refs = (stay @ [e]) @ ys" "filtered_to (\<lambda>e. \<not> dropped_ref now keep e) es ys"
      "\<forall>ds. res = Inr ds \<longrightarrow> ys = filter (\<lambda>e. \<not> dropped_ref now keep e) es \<and> set ds = set live1 \<union> {d. \<exists>e \<in> set ys. names_digest e d}" by blast
    then show ?thesis using filtered_to_Cons [OF ys(2), of e] skip(1,3) by (intro exI [of _ "e # ys"]) auto
  next
    case gone
    from Cons.IH [OF gone(2)] obtain ys where ys: "refs = stay @ ys" "filtered_to (\<lambda>e. \<not> dropped_ref now keep e) es ys"
      "\<forall>ds. res = Inr ds \<longrightarrow> ys = filter (\<lambda>e. \<not> dropped_ref now keep e) es \<and> set ds = set live \<union> {d. \<exists>e \<in> set ys. names_digest e d}" by blast
    then show ?thesis using filtered_to_Cons [OF ys(2), of e] gone(1) by (intro exI [of _ ys]) auto
  next
    case stop
    then show ?thesis by (intro exI [of _ "e # es"]) (simp add: filtered_to_refl)
  qed
qed

lemma prune_entries_exact:
  "prune_entries bad now live es stay = (res, left) \<Longrightarrow>
   \<exists>ys. left = stay @ ys \<and> filtered_to (\<lambda>e. \<not> unused_image now live e) es ys \<and> (res = Inr () \<longrightarrow> ys = filter (\<lambda>e. \<not> unused_image now live e) es)"
proof (induction es arbitrary: stay)
  case (Cons e es)
  show ?case
  proof (cases "unused_image now live e \<and> bad (ce_name e)")
    case True
    then show ?thesis using Cons.prems by (intro exI [of _ "e # es"]) (auto simp: filtered_to_refl)
  next
    case False
    let ?e = "if \<not> unused_image now live e then [e] else []"
    have "prune_entries bad now live es (stay @ ?e) = (res, left)" using Cons.prems False by (auto split: if_splits)
    from Cons.IH [OF this] obtain ys where ys: "left = (stay @ ?e) @ ys" "filtered_to (\<lambda>e. \<not> unused_image now live e) es ys"
      "res = Inr () \<longrightarrow> ys = filter (\<lambda>e. \<not> unused_image now live e) es" by blast
    then show ?thesis using filtered_to_Cons [OF ys(2), of e] by (intro exI [of _ "?e @ ys"]) auto
  qed
qed (simp add: filtered_to_refl)


definition ex_cache :: image_cache where
  "ex_cache =
     \<lparr>ic_refs = [\<lparr>re_name = ''a'', re_dir = False, re_data = Some (''jailoc.local/rootfs:1'' @ [CHR 0x09] @ ''sha256:1''), re_time = Some 0\<rparr>,
        \<lparr>re_name = ''b'', re_dir = False, re_data = Some (''jailoc.local/rootfs:2'' @ [CHR 0x09] @ ''sha256:2''), re_time = Some 0\<rparr>],
      ic_entries = [\<lparr>ce_name = ''sha256-1'', ce_dir = True, ce_time = Some 0\<rparr>, \<lparr>ce_name = ''sha256-2'', ce_dir = True, ce_time = Some 0\<rparr>]\<rparr>"


text \<open>The references removed from the Docker daemon: for every image that is not kept and is old enough, its tags if all
  of them are jailoc's, or its ID if it has none; so no reference of a kept, a young or a foreign image.\<close>

lemma prune_candidates_from:
  "r \<in> set (prune_candidates keep cutoff imgs seen) \<Longrightarrow>
   \<exists>img \<in> set imgs. r \<in> set (candidate_refs img) \<and> im_ID img \<notin> set keep \<and> im_Created img * 10 ^ 9 \<le> cutoff \<and>
     (\<forall>t \<in> set (im_RepoTags img). t = ''<none>:<none>'' \<or> HasPrefix t ''jailoc-'')"
proof (induction imgs arbitrary: seen)
  case (Cons img imgs)
  show ?case
  proof (cases "r \<in> set (candidate_refs img) \<and> \<not> (im_ID img \<in> set seen \<or> im_ID img \<in> set keep \<or> im_Created img * 10 ^ 9 > cutoff)")
    case True
    then have "\<not> list_ex (\<lambda>t. \<not> HasPrefix t ''jailoc-'') (own_tags img)" by (auto simp: candidate_refs_def Let_def)
    then have "\<forall>t \<in> set (im_RepoTags img). t = ''<none>:<none>'' \<or> HasPrefix t ''jailoc-''" unfolding list_ex_iff own_tags_def by auto
    then show ?thesis using True by auto
  next
    case False
    then show ?thesis using Cons.prems Cons.IH by (fastforce split: if_splits)
  qed
qed simp

end
