(* ===== verification/InspectFmt.thy ===== *)
theory InspectFmt
  imports ExecLog
begin

text \<open>
  The output of \<open>jailoc inspect\<close> (\<open>internal/cmd/inspectfmt.go\<close>): broker events and guest processes as lines for
  the terminal. The guest chooses most of the text. Strings are bytes; \<open>prt\<close> is the table of printable runes
  (\<open>unicode.IsPrint\<close>), \<open>col\<close> the colouring of \<open>fatih/color\<close>. JSON enters decoded, the time as a clock.
\<close>

section \<open>Runes\<close>

definition byte_of :: "char \<Rightarrow> nat" where "byte_of c = of_char c"

definition cont :: "nat \<Rightarrow> bool" where "cont b \<longleftrightarrow> 0x80 \<le> b \<and> b \<le> 0xBF"

text \<open>\<open>utf8.DecodeRune\<close> for a valid encoding: the rune and its size. It gives nothing for \<open>RuneError\<close> of size one.\<close>

definition decode2 :: "nat \<Rightarrow> nat \<Rightarrow> (nat \<times> nat) option" where
  "decode2 a b = (if cont b then Some ((a - 0xC0) * 64 + (b - 0x80), 2) else None)"

definition decode3 :: "nat \<Rightarrow> nat \<Rightarrow> nat \<Rightarrow> (nat \<times> nat) option" where
  "decode3 a b c =
     (if cont b \<and> cont c \<and> (a = 0xE0 \<longrightarrow> 0xA0 \<le> b) \<and> (a = 0xED \<longrightarrow> b \<le> 0x9F)
      then Some ((a - 0xE0) * 4096 + (b - 0x80) * 64 + (c - 0x80), 3) else None)"

definition decode4 :: "nat \<Rightarrow> nat \<Rightarrow> nat \<Rightarrow> nat \<Rightarrow> (nat \<times> nat) option" where
  "decode4 a b c d =
     (if cont b \<and> cont c \<and> cont d \<and> (a = 0xF0 \<longrightarrow> 0x90 \<le> b) \<and> (a = 0xF4 \<longrightarrow> b \<le> 0x8F)
      then Some ((a - 0xF0) * 262144 + (b - 0x80) * 4096 + (c - 0x80) * 64 + (d - 0x80), 4) else None)"

fun DecodeRune :: "string \<Rightarrow> (nat \<times> nat) option" where
  "DecodeRune [] = None"
| "DecodeRune (c # s) =
     (let a = byte_of c in
      if a < 0x80 then Some (a, 1)
      else if 0xC2 \<le> a \<and> a \<le> 0xDF then (case s of b # _ \<Rightarrow> decode2 a (byte_of b) | _ \<Rightarrow> None)
      else if 0xE0 \<le> a \<and> a \<le> 0xEF then (case s of b # d # _ \<Rightarrow> decode3 a (byte_of b) (byte_of d) | _ \<Rightarrow> None)
      else if 0xF0 \<le> a \<and> a \<le> 0xF4 then (case s of b # d # e # _ \<Rightarrow> decode4 a (byte_of b) (byte_of d) (byte_of e) | _ \<Rightarrow> None)
      else None)"

lemma DecodeRune_size: "DecodeRune s = Some (r, n) \<Longrightarrow> 0 < n \<and> n \<le> length s"
  by (cases s) (auto simp: Let_def decode2_def decode3_def decode4_def split: if_splits list.splits)

lemma DecodeRune_append: "DecodeRune s = Some x \<Longrightarrow> DecodeRune (s @ t) = Some x"
  by (cases s) (auto simp: Let_def split: if_splits list.splits)

declare DecodeRune.simps [simp del]

section \<open>Escapes\<close>

definition hex_digit :: "nat \<Rightarrow> char" where
  "hex_digit n = char_of (if n < 10 then 0x30 + n else 0x57 + n)"

primrec hex_digits :: "nat \<Rightarrow> nat \<Rightarrow> string" where
  "hex_digits 0 n = []"
| "hex_digits (Suc k) n = hex_digits k (n div 16) @ [hex_digit (n mod 16)]"

text \<open>The body of \<open>strconv.QuoteRune\<close> for a rune that is not printable.\<close>

definition quoted_rune :: "nat \<Rightarrow> string" where
  "quoted_rune r =
     (if r = 7 then [CHR 0x5C, CHR ''a''] else if r = 8 then [CHR 0x5C, CHR ''b''] else if r = 12 then [CHR 0x5C, CHR ''f'']
      else if r = 10 then [CHR 0x5C, CHR ''n''] else if r = 13 then [CHR 0x5C, CHR ''r''] else if r = 9 then [CHR 0x5C, CHR ''t'']
      else if r = 11 then [CHR 0x5C, CHR ''v'']
      else if r < 0x20 \<or> r = 0x7F then [CHR 0x5C, CHR ''x''] @ hex_digits 2 r
      else if r < 0x10000 then [CHR 0x5C, CHR ''u''] @ hex_digits 4 r
      else [CHR 0x5C, CHR ''U''] @ hex_digits 8 r)"

function escapeVisible :: "(nat \<Rightarrow> bool) \<Rightarrow> string \<Rightarrow> string" where
  "escapeVisible prt s =
     (case s of
        [] \<Rightarrow> []
      | c # cs \<Rightarrow>
          (case DecodeRune s of
             None \<Rightarrow> [CHR 0x5C, CHR ''x''] @ hex_digits 2 (byte_of c) @ escapeVisible prt cs
           | Some (r, n) \<Rightarrow> (if prt r then take n s else quoted_rune r) @ escapeVisible prt (drop n s)))"
  by pat_completeness auto
termination
  by (relation "measure (\<lambda>(prt, s). length s)") (auto dest: DecodeRune_size)

declare escapeVisible.simps [simp del]

definition escapeLines :: "(nat \<Rightarrow> bool) \<Rightarrow> string \<Rightarrow> string" where
  "escapeLines prt s = Join (map (escapeVisible prt) (Split (CHR 0x0A) s)) [CHR 0x0A]"

section \<open>Formatting\<close>

datatype colour = ColAllow | ColDeny | ColInfo | ColDim

function rune_count :: "string \<Rightarrow> nat" where
  "rune_count s = (case s of [] \<Rightarrow> 0 | c # cs \<Rightarrow> 1 + rune_count (case DecodeRune s of None \<Rightarrow> cs | Some (_, n) \<Rightarrow> drop n s))"
  by pat_completeness auto
termination
  by (relation "measure length") (auto dest: DecodeRune_size split: option.split)

declare rune_count.simps [simp del]

text \<open>\<open>%-ns\<close> and \<open>%nd\<close>.\<close>

definition pad_right :: "nat \<Rightarrow> string \<Rightarrow> string" where
  "pad_right n s = s @ replicate (n - rune_count s) (CHR '' '')"

definition pad_left :: "nat \<Rightarrow> string \<Rightarrow> string" where
  "pad_left n s = replicate (n - rune_count s) (CHR '' '') @ s"

definition two_digits :: "nat \<Rightarrow> string" where
  "two_digits n = (if n < 10 then ''0'' else []) @ show_nat n"

definition clock_text :: "nat \<times> nat \<times> nat \<Rightarrow> string" where
  "clock_text t = (case t of (h, m, s) \<Rightarrow> two_digits h @ '':'' @ two_digits m @ '':'' @ two_digits s)"

definition arrow :: string where "arrow = [CHR 0xE2, CHR 0x86, CHR 0x92]"
definition left_arrow :: string where "left_arrow = [CHR 0xE2, CHR 0x86, CHR 0x90]"
definition corner :: string where "corner = [CHR 0xE2, CHR 0x94, CHR 0x94]"

section \<open>Addresses\<close>

definition last_colon :: "string \<Rightarrow> nat option" where
  "last_colon s = (case find (\<lambda>i. s ! i = CHR '':'') (rev [0..<length s]) of Some i \<Rightarrow> Some i | None \<Rightarrow> None)"

definition SplitHostPort :: "string \<Rightarrow> (string \<times> string) option" where
  "SplitHostPort hp =
     (case last_colon hp of
        None \<Rightarrow> None
      | Some i \<Rightarrow>
          if hd hp = CHR ''['' then
            (case Cut hp '']'' of
               (a, _, ok) \<Rightarrow>
                 let e = length a in
                 if \<not> ok \<or> e + 1 \<noteq> i \<or> CHR ''['' \<in> set (drop 1 hp) \<or> CHR '']'' \<in> set (drop (e + 1) hp) then None
                 else Some (drop 1 a, drop (i + 1) hp))
          else if CHR '':'' \<in> set (take i hp) \<or> CHR ''['' \<in> set hp \<or> CHR '']'' \<in> set hp then None
          else Some (take i hp, drop (i + 1) hp))"

definition JoinHostPort :: "string \<Rightarrow> string \<Rightarrow> string" where
  "JoinHostPort h p = (if CHR '':'' \<in> set h then ''['' @ h @ '']:'' @ p else h @ '':'' @ p)"

section \<open>Broker events\<close>

record trafficEvent =
  te_Time :: "nat \<times> nat \<times> nat"
  te_Event :: string
  te_Proto :: string
  te_Dst :: string
  te_Allow :: bool
  te_Reason :: string
  te_Name :: string
  te_Type :: string
  te_Answers :: "string list"
  te_Blocked :: bool
  te_Error :: string
  te_Host :: string
  te_GuestPort :: int
  te_Network :: string
  te_Target :: string
  te_SNI :: string
  te_ALPN :: "string list"
  te_Method :: string
  te_Path :: string
  te_Status :: int
  te_PolicyError :: string
  te_RuntimeErrors :: "string list"
  te_DenyAll :: bool
  te_json :: string

record trafficFormatter =
  tf_names :: "(string \<times> string) list"
  tf_all :: bool

record term_output =
  o_prt :: "nat \<Rightarrow> bool"
  o_col :: "colour \<Rightarrow> string \<Rightarrow> string"

definition esc :: "term_output \<Rightarrow> string \<Rightarrow> string" where
  "esc o1 = escapeVisible (o_prt o1)"

definition dest :: "term_output \<Rightarrow> trafficFormatter \<Rightarrow> string \<Rightarrow> string" where
  "dest o1 f addr =
     (case SplitHostPort addr of
        None \<Rightarrow> esc o1 addr
      | Some (host, port) \<Rightarrow>
          (case map_of (tf_names f) host of
             Some name \<Rightarrow> esc o1 (JoinHostPort name port) @ '' '' @ o_col o1 ColDim (''['' @ esc o1 host @ '']'')
           | None \<Rightarrow> esc o1 addr))"

definition service_target :: "term_output \<Rightarrow> trafficEvent \<Rightarrow> string" where
  "service_target o1 e = (if te_Target e = [] then [] else '' '' @ arrow @ '' '' @ esc o1 (te_Target e))"

definition render_flow :: "term_output \<Rightarrow> trafficFormatter \<Rightarrow> string \<Rightarrow> trafficEvent \<Rightarrow> string" where
  "render_flow o1 f ts e =
     (let verdict = (if te_Allow e then o_col o1 ColAllow ''ALLOW'' else o_col o1 ColDeny ''DENY '');
          detail = (if \<not> te_Allow e then o_col o1 ColDeny (esc o1 (te_Reason e))
                    else if te_Reason e \<noteq> ''public'' then o_col o1 ColDim (esc o1 (te_Reason e)) else [])
      in ts @ ''  '' @ verdict @ ''  '' @ pad_right 4 (esc o1 (te_Proto e)) @ '' '' @ pad_right 48 (dest o1 f (te_Dst e)) @ '' '' @ detail)"

definition render_l7 :: "term_output \<Rightarrow> string \<Rightarrow> trafficEvent \<Rightarrow> string" where
  "render_l7 o1 ts e =
     (let parts =
            (if te_Proto e = ''tls'' then
               (if te_SNI e \<noteq> [] then [esc o1 (te_SNI e)] else []) @ (if te_ALPN e \<noteq> [] then [esc o1 (Join (te_ALPN e) '','')] else [])
             else
               (if te_Method e \<noteq> [] then [esc o1 (te_Method e) @ '' '' @ esc o1 (te_Host e) @ esc o1 (te_Path e)] else []) @
               (if te_Status e \<noteq> 0 then [Itoa (te_Status e)] else []))
      in ts @ ''  '' @ o_col o1 ColDim (''      '' @ corner) @ '' '' @ pad_right 4 (esc o1 (te_Proto e)) @ '' '' @ o_col o1 ColInfo (Join parts ''  ''))"

definition render_dns :: "term_output \<Rightarrow> string \<Rightarrow> trafficEvent \<Rightarrow> string" where
  "render_dns o1 ts e =
     (let name = esc o1 (TrimSuffix (te_Name e) ''.'') in
      if te_Blocked e then ts @ ''  '' @ o_col o1 ColDeny ''BLOCK'' @ ''  dns  '' @ name @ '' '' @ o_col o1 ColDeny (arrow @ '' NXDOMAIN (filtered_dns)'')
      else
        ts @ ''  '' @ o_col o1 ColInfo ''DNS  '' @ ''  dns  '' @ name @ '' '' @ esc o1 (te_Type e) @ '' '' @
        (if te_Error e \<noteq> [] then o_col o1 ColDeny (arrow @ '' '' @ esc o1 (te_Error e))
         else if te_Answers e = [] then o_col o1 ColDim (arrow @ '' no records'')
         else arrow @ '' '' @ Join (map (esc o1) (te_Answers e)) '', ''))"

definition render_fail :: "term_output \<Rightarrow> trafficFormatter \<Rightarrow> string \<Rightarrow> trafficEvent \<Rightarrow> string \<Rightarrow> string \<Rightarrow> string" where
  "render_fail o1 f ts e label msg =
     ts @ ''  '' @ o_col o1 ColDeny label @ ''  '' @ pad_right 4 (esc o1 (te_Proto e)) @ '' '' @ pad_right 48 (dest o1 f (te_Dst e)) @ '' '' @ o_col o1 ColDeny msg"

definition render_reload :: "term_output \<Rightarrow> string \<Rightarrow> trafficEvent \<Rightarrow> string" where
  "render_reload o1 ts e =
     ts @ ''  '' @ o_col o1 ColInfo ''---  '' @ ''  configuration reloaded'' @
     (if te_PolicyError e \<noteq> [] then o_col o1 ColDeny (''; invalid policy, all new connections denied: '' @ esc o1 (te_PolicyError e)) else []) @
     concat (map (\<lambda>r. o_col o1 ColDeny (''; '' @ esc o1 r)) (te_RuntimeErrors e))"

definition SSHPort :: int where "SSHPort = 22"
definition SSHAgentPort :: int where "SSHAgentPort = 7022"
definition GPGAgentPort :: int where "GPGAgentPort = 7023"

definition render :: "term_output \<Rightarrow> trafficFormatter \<Rightarrow> trafficEvent \<Rightarrow> string" where
  "render o1 f e =
     (let ts = o_col o1 ColDim (clock_text (te_Time e)); ev = te_Event e; limit = ''too many open connections'' in
      if ev = ''flow'' then render_flow o1 f ts e
      else if ev = ''l7'' then render_l7 o1 ts e
      else if ev = ''dns'' then render_dns o1 ts e
      else if ev = ''dial-error'' then render_fail o1 f ts e ''FAIL '' (esc o1 (te_Error e))
      else if ev = ''flow-limit'' then
        (if te_Dst e = []
         then ts @ ''  '' @ o_col o1 ColDeny ''LIMIT'' @ ''  '' @ pad_right 4 (esc o1 (te_Proto e)) @ '' gateway port '' @ Itoa (te_GuestPort e) @ '' '' @ o_col o1 ColDeny limit
         else render_fail o1 f ts e ''LIMIT'' limit)
      else if ev = ''ingress'' then
        (if te_GuestPort e = SSHPort \<and> \<not> tf_all f then []
         else ts @ ''  '' @ o_col o1 ColInfo ''IN   '' @ ''  tcp  '' @ esc o1 (te_Host e) @ '' '' @ arrow @ '' guest port '' @ Itoa (te_GuestPort e))
      else if ev = ''service'' then
        (if (te_GuestPort e = SSHAgentPort \<or> te_GuestPort e = GPGAgentPort) \<and> \<not> tf_all f then []
         else ts @ ''  '' @ o_col o1 ColInfo ''HOST '' @ ''  '' @ pad_right 4 (esc o1 (te_Network e)) @ '' gateway port '' @ Itoa (te_GuestPort e) @ service_target o1 e)
      else if ev = ''service-error'' then
        ts @ ''  '' @ o_col o1 ColDeny ''FAIL '' @ ''  gateway port '' @ Itoa (te_GuestPort e) @ service_target o1 e @ '': '' @ esc o1 (te_Error e)
      else if ev = ''reload'' then render_reload o1 ts e
      else if ev = ''policy'' then (if te_DenyAll e then ts @ ''  '' @ o_col o1 ColDeny ''---  '' @ ''  all new connections denied'' else [])
      else if tf_all f then ts @ ''  '' @ o_col o1 ColDim ''     '' @ ''  '' @ esc o1 ev @ '' '' @ o_col o1 ColDim (esc o1 (te_json e))
      else [])"

definition traffic_line :: "term_output \<Rightarrow> trafficEvent option \<Rightarrow> trafficFormatter \<Rightarrow> string \<times> trafficFormatter" where
  "traffic_line o1 ev f =
     (case ev of
        None \<Rightarrow> ([], f)
      | Some e \<Rightarrow>
          if te_Event e = [] then ([], f)
          else
            let f1 = (if te_Event e = ''dns'' then f\<lparr>tf_names := fold (\<lambda>a. AList.update a (TrimSuffix (te_Name e) ''.'')) (te_Answers e) (tf_names f)\<rparr> else f)
            in (render o1 f1 e, f1))"

section \<open>Processes\<close>

definition shell_special :: "char \<Rightarrow> bool" where
  "shell_special c \<longleftrightarrow> c \<in> set ([CHR '' '', CHR 0x09, CHR 0x0A, CHR 0x27, CHR 0x22, CHR 0x5C] @ ''$`;&|<>()*?[]{}!#~'')"

definition quote_arg :: "string \<Rightarrow> string" where
  "quote_arg a =
     (if a \<noteq> [] \<and> list_all (\<lambda>c. \<not> shell_special c) a then a
      else CHR 0x27 # concat (map (\<lambda>c. if c = CHR 0x27 then [CHR 0x27, CHR 0x5C, CHR 0x27, CHR 0x27] else [c]) a) @ [CHR 0x27])"

definition shellQuote :: "string list \<Rightarrow> string" where
  "shellQuote argv = Join (map quote_arg argv) '' ''"

definition BinaryPath :: string where "BinaryPath = ''/.jailoc/jailoc-guest''"

definition isGuestProcess :: "ExecRecord \<Rightarrow> bool" where
  "isGuestProcess e \<longleftrightarrow>
     er_Exe e = BinaryPath \<or>
     length (er_Argv e) = 3 \<and> er_Argv e ! 1 = ''-c'' \<and> HasPrefix (er_Argv e ! 2) (CHR 0x27 # BinaryPath @ [CHR 0x27])"

record execProc =
  ep_cmd :: string
  ep_hidden :: bool

record execFormatter =
  ef_all :: bool
  ef_procs :: "(int \<times> execProc) list"

definition exec_start :: "term_output \<Rightarrow> nat \<times> nat \<times> nat \<Rightarrow> ExecRecord \<Rightarrow> execFormatter \<Rightarrow> string \<times> execFormatter" where
  "exec_start o1 t e f =
     (let cmd0 = esc o1 (shellQuote (er_Argv e));
          name = (if cmd0 = [] then esc o1 (er_Comm e) else cmd0);
          cmd = (if cmd0 = [] then o_col o1 ColDim (''['' @ name @ '', exited]'') else cmd0);
          hid = (\<not> ef_all f \<and> isGuestProcess e);
          f1 = f\<lparr>ef_procs := AList.update (er_PID e) \<lparr>ep_cmd = name, ep_hidden = hid\<rparr> (ef_procs f)\<rparr>;
          user = (if er_UID e = 0 then o_col o1 ColDeny ''root'' else if er_UID e = 1000 then ''agent'' else if er_UID e = - 1 then ''?'' else Itoa (er_UID e));
          cwd = (case CutPrefix (er_Cwd e) ''/home/agent'' of Some rest \<Rightarrow> ''~'' @ rest | None \<Rightarrow> er_Cwd e)
      in (if hid then []
          else o_col o1 ColDim (clock_text t) @ ''  '' @ pad_left 7 (Itoa (er_PID e)) @ '' '' @ o_col o1 ColDim (left_arrow @ pad_right 7 (Itoa (er_PPID e))) @ ''  '' @
               pad_right 5 user @ '' '' @ o_col o1 ColInfo (esc o1 cwd) @ ''  '' @ cmd, f1))"

definition exec_exit :: "term_output \<Rightarrow> nat \<times> nat \<times> nat \<Rightarrow> ExecRecord \<Rightarrow> execFormatter \<Rightarrow> string \<times> execFormatter" where
  "exec_exit o1 t e f =
     (let p = (case map_of (ef_procs f) (er_PID e) of Some p \<Rightarrow> p | None \<Rightarrow> \<lparr>ep_cmd = [], ep_hidden = False\<rparr>);
          f1 = f\<lparr>ef_procs := AList.delete (er_PID e) (ef_procs f)\<rparr>;
          status = (if er_Signal e \<noteq> [] then esc o1 (er_Signal e) else ''exit '' @ Itoa (er_Code e));
          c = (if er_Signal e = [] \<and> er_Code e = 0 then ColDim else ColDeny)
      in (if er_Signal e = [] \<and> er_Code e = 0 \<and> \<not> ef_all f \<or> ep_hidden p then []
          else o_col o1 ColDim (clock_text t) @ ''  '' @ pad_left 7 (Itoa (er_PID e)) @ '' '' @ o_col o1 c (pad_right 8 status) @ ''  '' @ o_col o1 ColDim (ep_cmd p), f1))"

definition exec_line :: "term_output \<Rightarrow> ((nat \<times> nat \<times> nat) \<times> ExecRecord) option \<Rightarrow> execFormatter \<Rightarrow> string \<times> execFormatter" where
  "exec_line o1 ev f =
     (case ev of
        None \<Rightarrow> ([], f)
      | Some (t, e) \<Rightarrow>
          if er_PID e = 0 then ([], f)
          else if er_Event e = [] then exec_start o1 t e f
          else if er_Event e = ''exit'' then exec_exit o1 t e f
          else ([], f))"

section \<open>Safe output\<close>

text \<open>Text of printable runes and colour sequences.\<close>

definition sgr_char :: "char \<Rightarrow> bool" where
  "sgr_char c \<longleftrightarrow> c \<in> set ''0123456789;''"

definition after_sgr :: "string \<Rightarrow> string option" where
  "after_sgr s = (case s of c # t \<Rightarrow> if c = CHR ''['' then (case dropWhile sgr_char t of d # rest \<Rightarrow> if d = CHR ''m'' then Some rest else None | [] \<Rightarrow> None) else None | [] \<Rightarrow> None)"

lemma after_sgr_shorter: "after_sgr s = Some rest \<Longrightarrow> length rest < length s"
proof -
  have "length (dropWhile sgr_char t) \<le> length t" for t by (induction t) auto
  then show "after_sgr s = Some rest \<Longrightarrow> length rest < length s"
    by (auto simp: after_sgr_def split: list.splits if_splits) (metis Suc_le_eq length_Cons less_SucI order_less_imp_le not_less_eq_eq)
qed

function term_safe :: "(nat \<Rightarrow> bool) \<Rightarrow> string \<Rightarrow> bool" where
  "term_safe prt s =
     (case s of
        [] \<Rightarrow> True
      | c # cs \<Rightarrow>
          if c = CHR 0x1B then (case after_sgr cs of Some rest \<Rightarrow> term_safe prt rest | None \<Rightarrow> False)
          else (case DecodeRune s of Some (r, n) \<Rightarrow> prt r \<and> term_safe prt (drop n s) | None \<Rightarrow> False))"
  by pat_completeness auto
termination
  by (relation "measure (\<lambda>(prt, s). length s)") (auto dest: DecodeRune_size after_sgr_shorter)

declare term_safe.simps [simp del]

lemma term_safe_Nil [simp]: "term_safe prt []"
  by (simp add: term_safe.simps)

lemma term_safe_sgr: "term_safe prt (CHR 0x1B # cs) = (case after_sgr cs of Some rest \<Rightarrow> term_safe prt rest | None \<Rightarrow> False)"
  by (simp add: term_safe.simps [of _ "CHR 0x1B # cs"])

lemma term_safe_rune:
  "c \<noteq> CHR 0x1B \<Longrightarrow> term_safe prt (c # cs) = (case DecodeRune (c # cs) of Some (r, n) \<Rightarrow> prt r \<and> term_safe prt (drop n (c # cs)) | None \<Rightarrow> False)"
  by (simp add: term_safe.simps [of _ "c # cs"])

lemma after_sgr_iff: "after_sgr s = Some rest \<longleftrightarrow> (\<exists>u. s = CHR ''['' # u \<and> dropWhile sgr_char u = CHR ''m'' # rest)"
  by (auto simp: after_sgr_def simp del: dropWhile_eq_Nil_conv split: list.splits if_splits)

lemma after_sgr_append: "after_sgr s = Some rest \<Longrightarrow> after_sgr (s @ t) = Some (rest @ t)"
proof -
  have "dropWhile sgr_char (u @ t) = x # xs @ t" if "dropWhile sgr_char u = x # xs" for u x xs
    using that by (induction u) (auto split: if_splits)
  then show "after_sgr s = Some rest \<Longrightarrow> after_sgr (s @ t) = Some (rest @ t)" unfolding after_sgr_iff by auto
qed

lemma term_safe_append: "term_safe prt s \<Longrightarrow> term_safe prt t \<Longrightarrow> term_safe prt (s @ t)"
proof (induction "length s" arbitrary: s rule: less_induct)
  case less
  show ?case
  proof (cases s)
    case Nil
    then show ?thesis using less.prems by simp
  next
    case (Cons c cs)
    show ?thesis
    proof (cases "c = CHR 0x1B")
      case True
      then obtain rest where r: "after_sgr cs = Some rest" "term_safe prt rest"
        using less.prems(1) Cons by (auto simp: term_safe_sgr split: option.splits)
      then have "term_safe prt (rest @ t)" using less.hyps [of rest] less.prems(2) after_sgr_shorter [OF r(1)] Cons by simp
      then show ?thesis using Cons True after_sgr_append [OF r(1)] by (simp add: term_safe_sgr)
    next
      case False
      then obtain r n where d: "DecodeRune s = Some (r, n)" "prt r" "term_safe prt (drop n s)"
        using less.prems(1) Cons by (auto simp: term_safe_rune split: option.splits)
      note n = DecodeRune_size [OF d(1)]
      then have "length (drop n s) < length s" by auto
      then have "term_safe prt (drop n s @ t)" using less.hyps d(3) less.prems(2) by blast
      then have "term_safe prt (drop n (s @ t))" using n by simp
      then show ?thesis using Cons False DecodeRune_append [OF d(1), of t] d(2) by (simp add: term_safe_rune)
    qed
  qed
qed

text \<open>What the table of printable runes is known to say.\<close>

definition print_table :: "(nat \<Rightarrow> bool) \<Rightarrow> bool" where
  "print_table prt \<longleftrightarrow> (\<forall>r < 0x80. prt r \<longleftrightarrow> 0x20 \<le> r \<and> r \<le> 0x7E) \<and> prt 0x2190 \<and> prt 0x2192 \<and> prt 0x2514"

definition visible_ascii :: "char \<Rightarrow> bool" where
  "visible_ascii c \<longleftrightarrow> 0x20 \<le> byte_of c \<and> byte_of c \<le> 0x7E"

lemma term_safe_ascii:
  assumes "print_table prt"
  shows "list_all visible_ascii s \<Longrightarrow> term_safe prt s"
proof (induction s)
  case (Cons c s)
  then have "DecodeRune (c # s) = Some (byte_of c, 1)" "c \<noteq> CHR 0x1B" "prt (byte_of c)"
    using assms by (auto simp: DecodeRune.simps visible_ascii_def print_table_def byte_of_def)
  then show ?case using Cons by (simp add: term_safe_rune)
qed simp

lemma hex_digits_ascii: "list_all visible_ascii (hex_digits k n)"
proof (induction k arbitrary: n)
  case (Suc k)
  have "n mod 16 < 16" by simp
  then have "visible_ascii (hex_digit (n mod 16))" by (auto simp: visible_ascii_def hex_digit_def byte_of_def of_char_of)
  then show ?case using Suc by simp
qed simp

lemma quoted_rune_ascii: "list_all visible_ascii (quoted_rune r)"
  by (simp add: quoted_rune_def hex_digits_ascii visible_ascii_def byte_of_def)

lemma DecodeRune_take: "DecodeRune s = Some (r, n) \<Longrightarrow> DecodeRune (take n s) = Some (r, n)"
  by (cases s) (auto simp: DecodeRune.simps Let_def decode2_def decode3_def decode4_def split: if_splits list.splits)

lemma escapeVisible_safe:
  assumes "print_table prt"
  shows "term_safe prt (escapeVisible prt s)"
proof (induction "length s" arbitrary: s rule: less_induct)
  case less
  show ?case
  proof (cases s)
    case Nil
    then show ?thesis by (simp add: escapeVisible.simps)
  next
    case (Cons c cs)
    show ?thesis
    proof (cases "DecodeRune s")
      case None
      have "list_all visible_ascii ([CHR 0x5C, CHR ''x''] @ hex_digits 2 (byte_of c))"
        by (simp add: hex_digits_ascii visible_ascii_def byte_of_def)
      from term_safe_append [OF term_safe_ascii [OF assms this] less(1) [of cs]] show ?thesis
        using None Cons by (simp add: escapeVisible.simps [of _ "c # cs"])
    next
      case (Some x)
      obtain r n where x: "x = (r, n)" by (cases x)
      note d = Some [unfolded x]
      note n = DecodeRune_size [OF d]
      then have "length (drop n s) < length s" by auto
      note rest = less(1) [OF this]
      have "term_safe prt (if prt r then take n s else quoted_rune r)"
      proof (cases "prt r")
        case True
        have "\<not> prt 0x1B" using assms by (simp add: print_table_def)
        then have "c \<noteq> CHR 0x1B" using True d Cons by (auto simp: DecodeRune.simps byte_of_def)
        moreover have "DecodeRune (take n s) = Some (r, n)" using d by (rule DecodeRune_take)
        moreover obtain ts where "take n s = c # ts" using n Cons by (cases n) auto
        moreover have "drop n (take n s) = []" by simp
        ultimately show ?thesis using True by (simp add: term_safe_rune)
      qed (simp add: term_safe_ascii [OF assms quoted_rune_ascii])
      from term_safe_append [OF this rest] show ?thesis using d Cons by (auto simp: escapeVisible.simps [of _ "c # cs"] split: if_splits)
    qed
  qed
qed

text \<open>Colouring puts colour sequences around a text, or nothing.\<close>

definition sgr :: "string \<Rightarrow> bool" where
  "sgr p \<longleftrightarrow> p = [] \<or> (\<exists>ds. p = [CHR 0x1B, CHR ''[''] @ ds @ ''m'' \<and> list_all sgr_char ds)"

definition colours :: "(colour \<Rightarrow> string \<Rightarrow> string) \<Rightarrow> bool" where
  "colours col \<longleftrightarrow> (\<forall>c s. \<exists>p q. col c s = p @ s @ q \<and> sgr p \<and> sgr q)"

lemma sgr_safe: "sgr p \<Longrightarrow> term_safe prt p"
proof -
  have "after_sgr (CHR ''['' # ds @ ''m'') = Some []" if "list_all sgr_char ds" for ds
  proof -
    have "dropWhile sgr_char (ds @ ''m'') = ''m''" using that by (induction ds) (simp_all add: sgr_char_def)
    then show ?thesis unfolding after_sgr_iff by blast
  qed
  then show "sgr p \<Longrightarrow> term_safe prt p" by (auto simp: sgr_def term_safe_sgr)
qed

definition good_output :: "term_output \<Rightarrow> bool" where
  "good_output o1 \<longleftrightarrow> print_table (o_prt o1) \<and> colours (o_col o1)"

abbreviation shown_safe :: "term_output \<Rightarrow> string \<Rightarrow> bool" where
  "shown_safe o1 \<equiv> term_safe (o_prt o1)"

lemma safe_col: "good_output o1 \<Longrightarrow> shown_safe o1 s \<Longrightarrow> shown_safe o1 (o_col o1 c s)"
proof -
  assume g: "good_output o1" and s: "shown_safe o1 s"
  obtain p q where "o_col o1 c s = p @ s @ q" "sgr p" "sgr q" using g unfolding good_output_def colours_def by blast
  then show "shown_safe o1 (o_col o1 c s)" using s by (simp add: term_safe_append sgr_safe)
qed

lemma safe_esc: "good_output o1 \<Longrightarrow> shown_safe o1 (esc o1 s)"
  by (simp add: esc_def good_output_def escapeVisible_safe)

lemma safe_lit: "good_output o1 \<Longrightarrow> list_all visible_ascii s \<Longrightarrow> shown_safe o1 s"
  by (simp add: good_output_def term_safe_ascii)

lemma show_nat_ascii: "list_all visible_ascii (show_nat n)"
proof -
  have "is_digit c \<Longrightarrow> visible_ascii c" for c by (auto simp: is_digit_def visible_ascii_def byte_of_def)
  then show ?thesis using show_nat_digits [of n] by (auto simp: list_all_iff)
qed

lemma safe_Itoa: "good_output o1 \<Longrightarrow> shown_safe o1 (Itoa i)"
  using safe_lit [of o1 "Itoa i"] show_nat_ascii by (simp add: Itoa_def visible_ascii_def byte_of_def)

lemma safe_clock: "good_output o1 \<Longrightarrow> shown_safe o1 (clock_text t)"
  using show_nat_ascii by (intro safe_lit) (auto simp: clock_text_def two_digits_def visible_ascii_def byte_of_def split: prod.split)

lemma safe_pad: "good_output o1 \<Longrightarrow> shown_safe o1 s \<Longrightarrow> shown_safe o1 (pad_right n s)" "good_output o1 \<Longrightarrow> shown_safe o1 s \<Longrightarrow> shown_safe o1 (pad_left n s)"
proof -
  have sp: "good_output o1 \<Longrightarrow> shown_safe o1 (replicate k (CHR '' ''))" for k by (intro safe_lit) (simp_all add: list_all_iff visible_ascii_def byte_of_def)
  show "good_output o1 \<Longrightarrow> shown_safe o1 s \<Longrightarrow> shown_safe o1 (pad_right n s)" "good_output o1 \<Longrightarrow> shown_safe o1 s \<Longrightarrow> shown_safe o1 (pad_left n s)"
    by (simp_all add: pad_right_def pad_left_def term_safe_append sp)
qed

lemma safe_arrows: "good_output o1 \<Longrightarrow> shown_safe o1 arrow" "good_output o1 \<Longrightarrow> shown_safe o1 left_arrow" "good_output o1 \<Longrightarrow> shown_safe o1 corner"
  by (simp_all add: good_output_def print_table_def arrow_def left_arrow_def corner_def term_safe_rune DecodeRune.simps decode3_def cont_def byte_of_def)

lemma safe_Join: "good_output o1 \<Longrightarrow> \<forall>s \<in> set ss. shown_safe o1 s \<Longrightarrow> shown_safe o1 sep \<Longrightarrow> shown_safe o1 (Join ss sep)"
  by (induction ss sep rule: Join.induct) (simp_all add: term_safe_append)

lemma safe_concat: "\<forall>s \<in> set ss. shown_safe o1 s \<Longrightarrow> shown_safe o1 (concat ss)"
  by (induction ss) (simp_all add: term_safe_append)

lemma safe_char: "good_output o1 \<Longrightarrow> visible_ascii c \<Longrightarrow> shown_safe o1 (c # s) = shown_safe o1 s"
proof -
  assume g: "good_output o1" and c: "visible_ascii c"
  have "c \<noteq> CHR 0x1B" using c by (auto simp: visible_ascii_def byte_of_def)
  moreover have "DecodeRune (c # s) = Some (byte_of c, 1)" "o_prt o1 (byte_of c)"
    using g c by (simp_all add: DecodeRune.simps visible_ascii_def good_output_def print_table_def)
  ultimately show "shown_safe o1 (c # s) = shown_safe o1 s" by (simp add: term_safe_rune)
qed

lemma safe_if: "shown_safe o1 a \<Longrightarrow> shown_safe o1 b \<Longrightarrow> shown_safe o1 (if P then a else b)"
  by simp

lemma visible_code: "visible_ascii c \<longleftrightarrow> 0x20 \<le> (of_char c :: nat) \<and> (of_char c :: nat) \<le> 0x7E"
  by (simp add: visible_ascii_def byte_of_def)

lemmas safe_simps = safe_char visible_code safe_esc safe_Itoa safe_clock safe_arrows
lemmas safe_rules = term_safe_append safe_col safe_pad safe_Join safe_concat

lemma dest_safe: "good_output o1 \<Longrightarrow> shown_safe o1 (dest o1 f a)"
  by (auto simp: dest_def safe_simps split: option.split prod.split intro!: safe_rules)

lemma service_target_safe: "good_output o1 \<Longrightarrow> shown_safe o1 (service_target o1 e)"
  by (auto simp: service_target_def safe_simps intro!: safe_rules)

lemma render_flow_safe: "good_output o1 \<Longrightarrow> shown_safe o1 ts \<Longrightarrow> shown_safe o1 (render_flow o1 f ts e)"
  unfolding render_flow_def Let_def by (intro safe_rules) (auto simp: safe_simps dest_safe intro!: safe_rules)

lemma render_l7_safe: "good_output o1 \<Longrightarrow> shown_safe o1 ts \<Longrightarrow> shown_safe o1 (render_l7 o1 ts e)"
  unfolding render_l7_def Let_def by (intro safe_rules) (auto simp: safe_simps intro!: safe_rules split: if_splits)

lemma render_dns_safe: "good_output o1 \<Longrightarrow> shown_safe o1 ts \<Longrightarrow> shown_safe o1 (render_dns o1 ts e)"
  unfolding render_dns_def Let_def by (auto simp: safe_simps intro!: safe_rules)

lemma render_fail_safe: "good_output o1 \<Longrightarrow> shown_safe o1 ts \<Longrightarrow> shown_safe o1 label \<Longrightarrow> shown_safe o1 msg \<Longrightarrow> shown_safe o1 (render_fail o1 f ts e label msg)"
  unfolding render_fail_def by (auto simp: safe_simps dest_safe intro!: safe_rules)

lemma render_reload_safe: "good_output o1 \<Longrightarrow> shown_safe o1 ts \<Longrightarrow> shown_safe o1 (render_reload o1 ts e)"
  unfolding render_reload_def by (auto simp: safe_simps intro!: safe_rules)

lemma render_safe:
  assumes "good_output o1"
  shows "shown_safe o1 (render o1 f e)"
proof -
  have ts: "shown_safe o1 (o_col o1 ColDim (clock_text (te_Time e)))" using assms by (intro safe_col safe_clock)
  note parts = render_flow_safe render_l7_safe render_dns_safe render_fail_safe render_reload_safe service_target_safe
  show ?thesis unfolding render_def Let_def
    by (intro safe_if parts safe_rules assms ts; simp add: safe_simps assms)
qed

lemma traffic_line_safe: "good_output o1 \<Longrightarrow> shown_safe o1 (fst (traffic_line o1 ev f))"
  by (simp add: traffic_line_def Let_def render_safe split: option.split)

text \<open>The commands an exec formatter remembers are escaped.\<close>

definition procs_safe :: "term_output \<Rightarrow> execFormatter \<Rightarrow> bool" where
  "procs_safe o1 f \<longleftrightarrow> (\<forall>pid p. map_of (ef_procs f) pid = Some p \<longrightarrow> shown_safe o1 (ep_cmd p))"

lemma exec_start_safe:
  assumes "good_output o1" and "procs_safe o1 f"
  shows "shown_safe o1 (fst (exec_start o1 t e f)) \<and> procs_safe o1 (snd (exec_start o1 t e f))"
proof
  show "shown_safe o1 (fst (exec_start o1 t e f))" unfolding exec_start_def Let_def fst_conv
    by (intro safe_if safe_rules assms; simp add: safe_simps assms)
  show "procs_safe o1 (snd (exec_start o1 t e f))"
    using assms by (auto simp: procs_safe_def exec_start_def Let_def update_conv' safe_esc split: if_splits)
qed

lemma exec_exit_safe:
  assumes "good_output o1" and "procs_safe o1 f"
  shows "shown_safe o1 (fst (exec_exit o1 t e f)) \<and> procs_safe o1 (snd (exec_exit o1 t e f))"
proof
  have p: "shown_safe o1 (ep_cmd (case map_of (ef_procs f) (er_PID e) of Some p \<Rightarrow> p | None \<Rightarrow> \<lparr>ep_cmd = [], ep_hidden = False\<rparr>))"
    using assms(2) by (auto simp: procs_safe_def split: option.split)
  show "shown_safe o1 (fst (exec_exit o1 t e f))" unfolding exec_exit_def Let_def fst_conv
    by (intro safe_if safe_rules assms p; simp add: safe_simps assms)
  show "procs_safe o1 (snd (exec_exit o1 t e f))"
    using assms by (auto simp: procs_safe_def exec_exit_def Let_def delete_conv' split: if_splits)
qed

lemma exec_line_safe:
  "good_output o1 \<Longrightarrow> procs_safe o1 f \<Longrightarrow> shown_safe o1 (fst (exec_line o1 ev f)) \<and> procs_safe o1 (snd (exec_line o1 ev f))"
  using exec_start_safe exec_exit_safe by (auto simp: exec_line_def split: option.split)

section \<open>Properties\<close>

fun traffic_lines :: "term_output \<Rightarrow> trafficEvent option list \<Rightarrow> trafficFormatter \<Rightarrow> string list" where
  "traffic_lines o1 [] f = []"
| "traffic_lines o1 (e # es) f = (case traffic_line o1 e f of (l, f1) \<Rightarrow> l # traffic_lines o1 es f1)"

fun exec_lines :: "term_output \<Rightarrow> ((nat \<times> nat \<times> nat) \<times> ExecRecord) option list \<Rightarrow> execFormatter \<Rightarrow> string list" where
  "exec_lines o1 [] f = []"
| "exec_lines o1 (e # es) f = (case exec_line o1 e f of (l, f1) \<Rightarrow> l # exec_lines o1 es f1)"

lemma exec_lines_safe: "good_output o1 \<Longrightarrow> procs_safe o1 f \<Longrightarrow> \<forall>l \<in> set (exec_lines o1 es f). shown_safe o1 l"
proof (induction es arbitrary: f)
  case (Cons e es)
  obtain l f1 where "exec_line o1 e f = (l, f1)" by (cases "exec_line o1 e f")
  then show ?case using exec_line_safe [OF Cons.prems, of e] Cons.IH [OF Cons.prems(1), of f1] by simp
qed simp


definition ascii_print :: "nat \<Rightarrow> bool" where
  "ascii_print r \<longleftrightarrow> 0x20 \<le> r \<and> r \<le> 0x7E \<or> r \<in> {0x2190, 0x2192, 0x2514}"

definition coloured :: term_output where
  "coloured = \<lparr>o_prt = ascii_print, o_col = \<lambda>_ s. [CHR 0x1B, CHR ''['', CHR ''2'', CHR ''m''] @ s @ [CHR 0x1B, CHR ''['', CHR ''0'', CHR ''m'']\<rparr>"

text \<open>A process whose argument clears the screen.\<close>

definition hostile :: ExecRecord where
  "hostile = (new_record [] 7)\<lparr>er_UID := 1000, er_Argv := [''rm'', [CHR 0x1B] @ ''[2J'']\<rparr>"


section \<open>Quoted commands\<close>

text \<open>The words a shell reads, for text without expansions and operators: single quotes, backslashes and white space.\<close>

definition word_of :: "string option \<Rightarrow> string" where
  "word_of w = (case w of None \<Rightarrow> [] | Some s \<Rightarrow> s)"

fun shell_words :: "bool \<Rightarrow> string option \<Rightarrow> string \<Rightarrow> string list option" where
  "shell_words True w [] = None"
| "shell_words False w [] = Some (case w of None \<Rightarrow> [] | Some s \<Rightarrow> [s])"
| "shell_words True w (c # cs) = (if c = CHR 0x27 then shell_words False w cs else shell_words True (Some (word_of w @ [c])) cs)"
| "shell_words False w (c # cs) =
     (if c \<in> {CHR '' '', CHR 0x09, CHR 0x0A} then (case w of None \<Rightarrow> shell_words False None cs | Some s \<Rightarrow> map_option (Cons s) (shell_words False None cs))
      else if c = CHR 0x27 then shell_words True (Some (word_of w)) cs
      else if c = CHR 0x5C then
        (case cs of
           [] \<Rightarrow> None
         | d # ds \<Rightarrow> if d = CHR 0x0A then shell_words False w ds else shell_words False (Some (word_of w @ [d])) ds)
      else if shell_special c then None
      else shell_words False (Some (word_of w @ [c])) cs)"

lemma shell_words_quoted:
  "shell_words True (Some w) (concat (map (\<lambda>c. if c = CHR 0x27 then [CHR 0x27, CHR 0x5C, CHR 0x27, CHR 0x27] else [c]) a) @ CHR 0x27 # rest) =
   shell_words False (Some (w @ a)) rest"
  by (induction a arbitrary: w) (simp_all add: word_of_def)

lemma shell_words_plain:
  "list_all (\<lambda>c. \<not> shell_special c) a \<Longrightarrow> a \<noteq> [] \<Longrightarrow> shell_words False w (a @ rest) = shell_words False (Some (word_of w @ a)) rest"
proof (induction a arbitrary: w)
  case (Cons c a)
  have "c \<notin> {CHR '' '', CHR 0x09, CHR 0x0A}" "c \<noteq> CHR 0x27" "c \<noteq> CHR 0x5C" using Cons.prems(1) by (auto simp: shell_special_def)
  then show ?case using Cons by (cases a) (simp_all add: word_of_def)
qed simp

lemma shell_words_arg: "shell_words False None (quote_arg a @ rest) = shell_words False (Some a) rest"
  using shell_words_plain [of a None rest] shell_words_quoted [of "[]" a rest] by (auto simp: quote_arg_def word_of_def)

text \<open>The command line shown for a process is one that a shell reads back as the arguments of the process, whatever
  bytes they hold; only the escaping of unprintable characters comes after it.\<close>

theorem shellQuote_reads_back: "shell_words False None (shellQuote argv) = Some argv"
proof -
  have "shell_words False None (Join (map quote_arg argv) '' '') = Some argv"
  proof (induction argv rule: induct_list012)
    case (2 a)
    then show ?case using shell_words_arg [of a "[]"] by simp
  next
    case (3 a b argv)
    then show ?case using shell_words_arg [of a "'' '' @ Join (map quote_arg (b # argv)) '' ''"] by simp
  qed simp
  then show ?thesis by (simp add: shellQuote_def)
qed

end
