(* ===== verification/Sniff.thy ===== *)
theory Sniff
  imports GoStrings
begin

text \<open>
  The passive inspection of the first bytes of a guest connection (\<open>internal/netbroker/sniff.go\<close>). The parser of
  TLS client hellos is the argument \<open>hello\<close>: the server name and the protocols, if there is a hello.
\<close>

section \<open>Identification\<close>

definition sniffMax :: nat where "sniffMax = 16 * 2 ^ 10"
definition sniffReads :: nat where "sniffReads = 8"

record l7_info =
  li_proto :: string
  li_sni :: string
  li_alpn :: "string list"
  li_method :: string
  li_path :: string
  li_host :: "string option"

definition tls_info :: "string \<times> string list \<Rightarrow> l7_info" where
  "tls_info h = \<lparr>li_proto = ''tls'', li_sni = fst h, li_alpn = snd h, li_method = [], li_path = [], li_host = None\<rparr>"

definition CRLF :: string where "CRLF = [CHR 0x0D, CHR 0x0A]"

definition byte_at :: "string \<Rightarrow> nat \<Rightarrow> nat" where
  "byte_at s i = of_char (s ! i)"

text \<open>The second component says whether more data could still identify the connection.\<close>

definition identifyTLS :: "(string \<Rightarrow> (string \<times> string list) option) \<Rightarrow> string \<Rightarrow> l7_info option \<times> bool" where
  "identifyTLS hello b =
     (if length b < 5 then (None, True)
      else if byte_at b 1 \<noteq> 3 then (None, False)
      else if length b < 5 + (byte_at b 3 * 256 + byte_at b 4) then (None, True)
      else (map_option tls_info (hello b), False))"

definition httpMethods :: "string list" where
  "httpMethods = [''GET'', ''HEAD'', ''POST'', ''PUT'', ''DELETE'', ''PATCH'', ''OPTIONS'', ''CONNECT'', ''TRACE'']"

definition isMethod :: "string \<Rightarrow> bool" where
  "isMethod m = list_ex (\<lambda>x. m = x) httpMethods"

definition isMethodPrefix :: "string \<Rightarrow> bool" where
  "isMethodPrefix s = list_ex (\<lambda>x. HasPrefix x s) httpMethods"

definition stripQuery :: "string \<Rightarrow> string" where
  "stripQuery t = fst (Cut t ''?'')"

text \<open>\<open>strings.Split\<close> at line ends.\<close>

function split_lines :: "string \<Rightarrow> string list" where
  "split_lines s = (case Cut s CRLF of (a, b, ok) \<Rightarrow> if ok then a # split_lines b else [s])"
  by pat_completeness auto
termination
proof (relation "measure length")
  have "Cut s CRLF = (a, b, True) \<Longrightarrow> length b < length s" for s a b by (drule Cut_found) (simp add: CRLF_def)
  then show "(a, y) = Cut s CRLF \<Longrightarrow> (b, ok) = y \<Longrightarrow> ok \<Longrightarrow> (b, s) \<in> measure length" for s a y b ok
    by (metis (full_types) in_measure)
qed simp

declare split_lines.simps [simp del]

text \<open>\<open>strings.EqualFold\<close> with \<open>host\<close>: the letter s also matches the long s.\<close>

definition is_host_key :: "string \<Rightarrow> bool" where
  "is_host_key k \<longleftrightarrow> map lower_char (ReplaceAll (TrimSpace k) [CHR 0xC5, CHR 0xBF] ''s'') = ''host''"

definition host_header :: "string list \<Rightarrow> string option" where
  "host_header ls =
     fold (\<lambda>l h. case Cut l '':'' of (k, v, ok) \<Rightarrow> if ok \<and> is_host_key k then Some (TrimSpace v) else h) ls None"

definition identifyHTTP :: "string \<Rightarrow> l7_info option \<times> bool" where
  "identifyHTTP s =
     (case Cut s '' '' of
        (m, _, found) \<Rightarrow>
          if \<not> found then (None, length s < 8 \<and> isMethodPrefix s)
          else if \<not> isMethod m then (None, False)
          else
            (case Cut s (CRLF @ CRLF) of
               (head, _, complete) \<Rightarrow>
                 let ls = split_lines head; parts = Fields (hd ls) in
                 if length parts < 3 \<or> \<not> HasPrefix (parts ! 2) ''HTTP/'' then (None, \<not> complete \<and> \<not> Contains_str s CRLF)
                 else
                   let h = host_header (tl ls) in
                   if h = None \<and> \<not> complete then (None, True)
                   else (Some \<lparr>li_proto = ''http'', li_sni = [], li_alpn = [], li_method = m, li_path = stripQuery (parts ! 1), li_host = h\<rparr>, False)))"

definition identify :: "(string \<Rightarrow> (string \<times> string list) option) \<Rightarrow> string \<Rightarrow> l7_info option \<times> bool" where
  "identify hello b =
     (if b = [] then (None, True) else if byte_at b 0 = 0x16 then identifyTLS hello b else identifyHTTP b)"

section \<open>Connections\<close>

record sniffConn =
  sc_buf :: string
  sc_reads :: nat
  sc_done :: bool
  sc_reports :: "l7_info list"

definition inspect :: "(string \<Rightarrow> (string \<times> string list) option) \<Rightarrow> string \<Rightarrow> sniffConn \<Rightarrow> sniffConn" where
  "inspect hello data c =
     (if sc_done c then c
      else
        let reads = sc_reads c + 1; buf = sc_buf c @ take (min (length data) (sniffMax - length (sc_buf c))) data in
        case identify hello buf of
          (info, again) \<Rightarrow>
            let stop = (info \<noteq> None \<or> \<not> again \<or> reads \<ge> sniffReads \<or> length buf \<ge> sniffMax) in
            \<lparr>sc_buf = if stop then [] else buf, sc_reads = reads, sc_done = stop,
             sc_reports = sc_reports c @ (case info of Some i \<Rightarrow> [i] | None \<Rightarrow> [])\<rparr>)"

text \<open>\<open>Read\<close>: what the connection gives is passed on and inspected when there is any.\<close>

definition Read :: "(string \<Rightarrow> (string \<times> string list) option) \<Rightarrow> string \<Rightarrow> sniffConn \<Rightarrow> string \<times> sniffConn" where
  "Read hello data c = (data, if data = [] then c else inspect hello data c)"

fun read_all :: "(string \<Rightarrow> (string \<times> string list) option) \<Rightarrow> string list \<Rightarrow> sniffConn \<Rightarrow> string \<times> sniffConn" where
  "read_all hello [] c = ([], c)"
| "read_all hello (d # ds) c =
     (case Read hello d c of (x, c1) \<Rightarrow> case read_all hello ds c1 of (y, c2) \<Rightarrow> (x @ y, c2))"

definition new_sniff :: sniffConn where
  "new_sniff = \<lparr>sc_buf = [], sc_reads = 0, sc_done = False, sc_reports = []\<rparr>"

section \<open>Properties\<close>

lemma stripQuery_plain: "CHR ''?'' \<notin> set (stripQuery t)"
proof (cases "Cut t ''?''")
  case (fields a b ok)
  then show ?thesis by (cases ok) (auto simp: stripQuery_def Cut_char_found Cut_char_not_found)
qed

lemma identify_path: "identify hello b = (Some i, again) \<Longrightarrow> CHR ''?'' \<notin> set (li_path i)"
  using stripQuery_plain
  by (auto simp: identify_def identifyTLS_def identifyHTTP_def tls_info_def Let_def split: if_splits prod.splits)

text \<open>While it looks, the buffer is the beginning of what was read; what was reported is what such a beginning identifies.\<close>

definition sniff_inv :: "(string \<Rightarrow> (string \<times> string list) option) \<Rightarrow> string \<Rightarrow> sniffConn \<Rightarrow> bool" where
  "sniff_inv hello s c \<longleftrightarrow>
     sc_reads c \<le> sniffReads \<and>
     (if sc_done c then sc_buf c = [] \<and> (sc_reports c = [] \<or> (\<exists>k i. k \<le> sniffMax \<and> sc_reports c = [i] \<and> fst (identify hello (take k s)) = Some i))
      else sc_buf c = s \<and> length s < sniffMax \<and> sc_reads c < sniffReads \<and> sc_reports c = [])"

lemma sniff_inv_inspect:
  assumes "sniff_inv hello s c" and "d \<noteq> []"
  shows "sniff_inv hello (s @ d) (inspect hello d c)"
proof (cases "sc_done c")
  case True
  show ?thesis
  proof (cases "sc_reports c = []")
    case False
    then obtain k i where k: "k \<le> sniffMax" "sc_reports c = [i]" "fst (identify hello (take k s)) = Some i"
      using assms(1) True by (auto simp: sniff_inv_def)
    have "\<exists>k' \<le> sniffMax. take k' (s @ d) = take k s" using k(1) by (intro exI [of _ "min k (length s)"]) (auto simp: min_def)
    then show ?thesis using True assms(1) k by (auto simp: sniff_inv_def inspect_def)
  qed (use True assms(1) in \<open>simp add: sniff_inv_def inspect_def\<close>)
next
  case False
  let ?buf = "sc_buf c @ take (min (length d) (sniffMax - length (sc_buf c))) d"
  have c: "sc_buf c = s" "length s < sniffMax" "sc_reads c < sniffReads" "sc_reports c = []" using assms(1) False by (auto simp: sniff_inv_def)
  have b: "?buf = take sniffMax (s @ d)" using c by (auto simp: min_def)
  obtain info again where i: "identify hello ?buf = (info, again)" by (cases "identify hello ?buf")
  have small: "?buf = s @ d" if "length ?buf < sniffMax" using that c by (auto simp: min_def split: if_splits)
  show ?thesis using False c i small b by (cases info) (auto simp: sniff_inv_def inspect_def Let_def not_le)
qed

lemma sniff_inv_read_all:
  "sniff_inv hello s c \<Longrightarrow> read_all hello ds c = (out, c1) \<Longrightarrow> out = concat ds \<and> sniff_inv hello (s @ concat ds) c1"
proof (induction ds arbitrary: s c out)
  case (Cons d ds)
  obtain y where y: "read_all hello ds (snd (Read hello d c)) = (y, c1)" "out = d @ y"
    using Cons.prems(2) by (auto simp: Read_def split: prod.splits)
  have "sniff_inv hello (s @ d) (snd (Read hello d c))" using Cons.prems(1) sniff_inv_inspect by (simp add: Read_def)
  from Cons.IH [OF this y(1)] y(2) show ?case by simp
qed simp

text \<open>C38. Inspection is passive, bounded and discreet. Whatever the guest sends in whatever pieces: every byte is passed on
  unchanged; at most eight reads and sixteen kilobytes are looked at; there is at most one report, it is what some
  beginning of the stream identifies, and no reported path has a query string.\<close>

theorem sniff_passive:
  assumes "read_all hello ds new_sniff = (out, c)"
  shows "out = concat ds \<and> sc_reads c \<le> sniffReads \<and> length (sc_buf c) \<le> sniffMax \<and> length (sc_reports c) \<le> 1 \<and>
    (\<forall>i \<in> set (sc_reports c). CHR ''?'' \<notin> set (li_path i) \<and> (\<exists>k \<le> sniffMax. fst (identify hello (take k (concat ds))) = Some i))"
proof -
  have "sniff_inv hello [] new_sniff" by (simp add: sniff_inv_def new_sniff_def sniffMax_def sniffReads_def)
  from sniff_inv_read_all [OF this assms] have out: "out = concat ds" and inv: "sniff_inv hello (concat ds) c" by simp_all
  have "CHR ''?'' \<notin> set (li_path i)" if "fst (identify hello b) = Some i" for b i
    using identify_path [of hello b i] that by (metis prod.collapse)
  then show ?thesis using out inv by (auto simp: sniff_inv_def split: if_splits)
qed

theorem sniff_passive_witness:
  "sc_reports (snd (read_all (\<lambda>_. None) [''GET /a?t=1 HTTP/1.1'' @ CRLF, ''Host: x'' @ CRLF @ CRLF] new_sniff)) =
     [\<lparr>li_proto = ''http'', li_sni = [], li_alpn = [], li_method = ''GET'', li_path = ''/a'', li_host = Some ''x''\<rparr>] \<and>
   sc_reads (snd (read_all (\<lambda>_. None) [''GET /a?t=1 HTTP/1.1'' @ CRLF, ''Host: x'' @ CRLF @ CRLF] new_sniff)) \<le> sniffReads"
proof -
  let ?r = "read_all (\<lambda>_. None) [''GET /a?t=1 HTTP/1.1'' @ CRLF, ''Host: x'' @ CRLF @ CRLF] new_sniff"
  have "?r = (fst ?r, snd ?r)" by simp
  from sniff_passive [OF this] have "sc_reads (snd ?r) \<le> sniffReads" by blast
  moreover have "sc_reports (snd ?r) = [\<lparr>li_proto = ''http'', li_sni = [], li_alpn = [], li_method = ''GET'', li_path = ''/a'', li_host = Some ''x''\<rparr>]" by code_simp
  ultimately show ?thesis by simp
qed

text \<open>A \<open>Host\<close> header that arrives in two pieces is reported cut off, because its last line counts although it has no
  line end yet.\<close>

theorem sniff_cuts_host:
  "map li_host (sc_reports (snd (read_all (\<lambda>_. None) [''GET / HTTP/1.1'' @ CRLF @ ''Host: exa'', ''mple.com'' @ CRLF @ CRLF] new_sniff))) = [Some ''exa'']"
  by code_simp

end
